(* ===== verification/Pelion_Prelude.thy ===== *)
theory Pelion_Prelude
  imports "HOL-Library.Word"
begin

unbundle bit_operations_syntax

text \<open>
  Shared vocabulary of the development: the machine integers of the C code, memory reads
  that can leave a buffer, and the arithmetic and list facts every component uses.

  A C buffer is a list of bytes and a C pointer into it is an offset. A read outside the
  buffer is undefined behaviour in C; here it is the value None of an option result, so
  that ``never None'' is memory safety. Unsigned lengths and counters are natural numbers
  with the wrap-around of their width written out (\<open>u8_wrap\<close>, \<open>u16_wrap\<close>, \<open>u32_wrap\<close>), and a
  conversion to a narrow signed type is \<open>s8_of\<close> or \<open>s16_of\<close>.
\<close>

named_theorems wrap_simps "unfolding rules for fixed-width conversions"
named_theorems read_simps "unfolding rules for buffer reads"

type_synonym u8 = "8 word"
type_synonym bytes = "u8 list"

section \<open>Fixed-width conversions\<close>

definition u8_wrap :: "nat \<Rightarrow> nat" where
  "u8_wrap n = n mod 256"

definition u16_wrap :: "nat \<Rightarrow> nat" where
  "u16_wrap n = n mod 65536"

definition u32_wrap :: "nat \<Rightarrow> nat" where
  "u32_wrap n = n mod 4294967296"

definition s8_of :: "nat \<Rightarrow> int" where
  "s8_of n = (if n mod 256 < 128 then int (n mod 256) else int (n mod 256) - 256)"

definition s16_of :: "nat \<Rightarrow> int" where
  "s16_of n = (if n mod 65536 < 32768 then int (n mod 65536) else int (n mod 65536) - 65536)"

definition byte_of :: "nat \<Rightarrow> u8" where
  "byte_of n = word_of_nat n"

section \<open>Buffer reads\<close>

definition rd :: "bytes \<Rightarrow> nat \<Rightarrow> u8 option" where
  "rd buf i = (if i < length buf then Some (buf ! i) else None)"

definition rd_block :: "bytes \<Rightarrow> nat \<Rightarrow> nat \<Rightarrow> bytes option" where
  "rd_block buf i n = (if i + n \<le> length buf then Some (take n (drop i buf)) else None)"

text \<open>A write of the bytes bs at offset i; None is a write outside the buffer.\<close>

definition write_at :: "bytes \<Rightarrow> nat \<Rightarrow> bytes \<Rightarrow> bytes option" where
  "write_at buf i bs =
     (if i + length bs \<le> length buf then Some (take i buf @ bs @ drop (i + length bs) buf) else None)"

section \<open>Facts\<close>

lemma u8_wrap_id [wrap_simps]: "n < 256 \<Longrightarrow> u8_wrap n = n"
  by (simp add: u8_wrap_def)

lemma u16_wrap_id [wrap_simps]: "n < 65536 \<Longrightarrow> u16_wrap n = n"
  by (simp add: u16_wrap_def)

lemma u32_wrap_id [wrap_simps]: "n < 4294967296 \<Longrightarrow> u32_wrap n = n"
  by (simp add: u32_wrap_def)

lemma u8_wrap_less [simp]: "u8_wrap n < 256"
  by (simp add: u8_wrap_def)

lemma u16_wrap_less [simp]: "u16_wrap n < 65536"
  by (simp add: u16_wrap_def)

lemma s8_of_small [wrap_simps]: "n < 128 \<Longrightarrow> s8_of n = int n"
  by (simp add: s8_of_def)

lemma s16_of_small [wrap_simps]: "n < 32768 \<Longrightarrow> s16_of n = int n"
  by (simp add: s16_of_def)

lemma s16_of_neg: "\<lbrakk> 32768 \<le> n; n < 65536 \<rbrakk> \<Longrightarrow> s16_of n = int n - 65536"
  by (simp add: s16_of_def)

lemma unat_byte_of [simp]: "unat (byte_of n) = n mod 256"
  by (simp add: byte_of_def unat_of_nat)

lemma byte_of_unat [simp]: "byte_of (unat b) = b"
  by (simp add: byte_of_def)

lemma unat_byte_less [simp]: "unat (b :: u8) < 256"
  using unsigned_less [of b] by simp

lemma unat_and_15 [simp]: "unat (b AND 15 :: u8) = unat b mod 16"
proof -
  have "b AND 15 = take_bit 4 b"
    by (simp add: take_bit_eq_mask mask_eq_exp_minus_1)
  then have "unat (b AND 15) = take_bit 4 (unat b)"
    by (simp add: unsigned_take_bit_eq)
  then show ?thesis
    by (simp add: take_bit_eq_mod)
qed

lemma unat_drop_4 [simp]: "unat (drop_bit 4 b :: u8) = unat b div 16"
  by (simp add: drop_bit_eq_div unat_div)

lemma byte_eq_iff: "(a = b) \<longleftrightarrow> unat a = unat (b :: u8)"
  by (simp add: word_unat_eq_iff)

lemma rd_Some [read_simps]: "i < length buf \<Longrightarrow> rd buf i = Some (buf ! i)"
  by (simp add: rd_def)

lemma rd_None_iff: "rd buf i = None \<longleftrightarrow> length buf \<le> i"
  by (auto simp: rd_def)

lemma rd_eq_Some: "rd buf i = Some b \<longleftrightarrow> i < length buf \<and> b = buf ! i"
  by (auto simp: rd_def)

lemma rd_block_Some [read_simps]:
  "i + n \<le> length buf \<Longrightarrow> rd_block buf i n = Some (take n (drop i buf))"
  by (simp add: rd_block_def)

lemma rd_block_None_iff: "rd_block buf i n = None \<longleftrightarrow> length buf < i + n"
  by (auto simp: rd_block_def)

lemma rd_block_length: "rd_block buf i n = Some bs \<Longrightarrow> length bs = n"
  by (auto simp: rd_block_def split: if_splits)

lemma rd_append [read_simps]: "rd (xs @ y # ys) (length xs) = Some y"
  by (simp add: rd_def)

lemma rd_block_append [read_simps]:
  "rd_block (xs @ ys @ zs) (length xs) (length ys) = Some ys"
  by (simp add: rd_block_def)

section \<open>Reading at a position\<close>

text \<open>\<open>at buf p ys\<close>: the buffer from offset p on is the byte list ys.\<close>

definition at :: "bytes \<Rightarrow> nat \<Rightarrow> bytes \<Rightarrow> bool" where
  "at pkt p ys \<longleftrightarrow> p \<le> length pkt \<and> drop p pkt = ys"

lemma at_length: "at pkt p ys \<Longrightarrow> length pkt = p + length ys"
  by (auto simp: at_def)

lemma at_append: "at pkt p (xs @ ys) \<Longrightarrow> at pkt (p + length xs) ys"
proof -
  assume a: "at pkt p (xs @ ys)"
  then have "drop (p + length xs) pkt = drop (length xs) (drop p pkt)" by (simp add: add.commute)
  with a at_length [OF a] show ?thesis by (simp add: at_def)
qed

lemma at_Cons: "at pkt p (x # ys) \<Longrightarrow> at pkt (p + 1) ys"
  using at_append [of pkt p "[x]" ys] by simp

lemma at_rd:
  assumes "at pkt p (x # ys)"
  shows "rd pkt p = Some x"
proof -
  have "p < length pkt" using at_length [OF assms] by simp
  moreover from this have "pkt ! p = hd (drop p pkt)" by (simp add: hd_drop_conv_nth)
  moreover have "drop p pkt = x # ys" using assms by (simp add: at_def)
  ultimately show ?thesis by (simp add: rd_def)
qed

lemma at_rd_block:
  assumes "at pkt p (xs @ ys)"
  shows "rd_block pkt p (length xs) = Some xs"
proof -
  have "drop p pkt = xs @ ys" using assms by (simp add: at_def)
  with at_length [OF assms] show ?thesis by (simp add: rd_block_def)
qed

lemma write_at_append [read_simps]:
  "length ys = length bs \<Longrightarrow> write_at (xs @ ys @ zs) (length xs) bs = Some (xs @ bs @ zs)"
  by (simp add: write_at_def)

lemma write_at_length: "write_at buf i bs = Some buf' \<Longrightarrow> length buf' = length buf"
  by (auto simp: write_at_def split: if_split_asm)

end
