(* ===== verification/Coap_Header.thy ===== *)
theory Coap_Header
  imports Pelion_Prelude
begin

text \<open>
  The CoAP message structures of \<open>mbed-coap/sn_coap_header.h\<close>, the numbering of its enums
  and \<open>sn_coap_header_validity_check\<close> of \<open>sn_coap_header_check.c\<close>.

  Pointers to allocated blocks are \<open>bytes option\<close>: None is NULL, Some the block's contents.
  Enums that hold arbitrary received values (the message code) or that a caller can set out of
  range (the message type) are kept as the number the C enum has; the status is a datatype.
  The signed integers that use -1 for ``not present'' are \<open>int\<close>.
\<close>

section \<open>Enumerations\<close>

abbreviation (input) COAP_VERSION_1 :: nat where "COAP_VERSION_1 \<equiv> 0x40"
abbreviation (input) COAP_VERSION :: nat where "COAP_VERSION \<equiv> COAP_VERSION_1"

abbreviation (input) COAP_MSG_TYPE_CONFIRMABLE :: nat where "COAP_MSG_TYPE_CONFIRMABLE \<equiv> 0"
abbreviation (input) COAP_MSG_TYPE_NON_CONFIRMABLE :: nat where "COAP_MSG_TYPE_NON_CONFIRMABLE \<equiv> 0x10"
abbreviation (input) COAP_MSG_TYPE_ACKNOWLEDGEMENT :: nat where "COAP_MSG_TYPE_ACKNOWLEDGEMENT \<equiv> 0x20"
abbreviation (input) COAP_MSG_TYPE_RESET :: nat where "COAP_MSG_TYPE_RESET \<equiv> 0x30"

abbreviation (input) COAP_MSG_CODE_EMPTY :: nat where "COAP_MSG_CODE_EMPTY \<equiv> 0"
abbreviation (input) COAP_MSG_CODE_REQUEST_GET :: nat where "COAP_MSG_CODE_REQUEST_GET \<equiv> 1"

abbreviation (input) COAP_OPTION_URI_HOST :: nat where "COAP_OPTION_URI_HOST \<equiv> 3"
abbreviation (input) COAP_OPTION_ETAG :: nat where "COAP_OPTION_ETAG \<equiv> 4"
abbreviation (input) COAP_OPTION_OBSERVE :: nat where "COAP_OPTION_OBSERVE \<equiv> 6"
abbreviation (input) COAP_OPTION_URI_PORT :: nat where "COAP_OPTION_URI_PORT \<equiv> 7"
abbreviation (input) COAP_OPTION_LOCATION_PATH :: nat where "COAP_OPTION_LOCATION_PATH \<equiv> 8"
abbreviation (input) COAP_OPTION_URI_PATH :: nat where "COAP_OPTION_URI_PATH \<equiv> 11"
abbreviation (input) COAP_OPTION_CONTENT_FORMAT :: nat where "COAP_OPTION_CONTENT_FORMAT \<equiv> 12"
abbreviation (input) COAP_OPTION_MAX_AGE :: nat where "COAP_OPTION_MAX_AGE \<equiv> 14"
abbreviation (input) COAP_OPTION_URI_QUERY :: nat where "COAP_OPTION_URI_QUERY \<equiv> 15"
abbreviation (input) COAP_OPTION_ACCEPT :: nat where "COAP_OPTION_ACCEPT \<equiv> 17"
abbreviation (input) COAP_OPTION_LOCATION_QUERY :: nat where "COAP_OPTION_LOCATION_QUERY \<equiv> 20"
abbreviation (input) COAP_OPTION_BLOCK2 :: nat where "COAP_OPTION_BLOCK2 \<equiv> 23"
abbreviation (input) COAP_OPTION_BLOCK1 :: nat where "COAP_OPTION_BLOCK1 \<equiv> 27"
abbreviation (input) COAP_OPTION_SIZE2 :: nat where "COAP_OPTION_SIZE2 \<equiv> 28"
abbreviation (input) COAP_OPTION_PROXY_URI :: nat where "COAP_OPTION_PROXY_URI \<equiv> 35"
abbreviation (input) COAP_OPTION_SIZE1 :: nat where "COAP_OPTION_SIZE1 \<equiv> 60"

abbreviation (input) COAP_CT_NONE :: int where "COAP_CT_NONE \<equiv> - 1"
abbreviation (input) COAP_OBSERVE_NONE :: int where "COAP_OBSERVE_NONE \<equiv> - 1"
abbreviation (input) COAP_OPTION_URI_PORT_NONE :: int where "COAP_OPTION_URI_PORT_NONE \<equiv> - 1"
abbreviation (input) COAP_OPTION_BLOCK_NONE :: int where "COAP_OPTION_BLOCK_NONE \<equiv> - 1"
abbreviation (input) COAP_OPTION_MAX_AGE_DEFAULT :: nat where "COAP_OPTION_MAX_AGE_DEFAULT \<equiv> 60"

datatype coap_status =
    COAP_STATUS_OK
  | COAP_STATUS_PARSER_ERROR_IN_HEADER
  | COAP_STATUS_PARSER_DUPLICATED_MSG
  | COAP_STATUS_PARSER_BLOCKWISE_MSG_RECEIVING
  | COAP_STATUS_PARSER_BLOCKWISE_ACK
  | COAP_STATUS_PARSER_BLOCKWISE_MSG_REJECTED
  | COAP_STATUS_PARSER_BLOCKWISE_MSG_RECEIVED
  | COAP_STATUS_BUILDER_MESSAGE_SENDING_FAILED
  | COAP_STATUS_BUILDER_BLOCK_SENDING_FAILED
  | COAP_STATUS_BUILDER_BLOCK_SENDING_DONE

section \<open>Structures\<close>

record coap_options =
  etag_len :: nat
  use_size1 :: bool
  use_size2 :: bool
  proxy_uri_len :: nat
  uri_host_len :: nat
  location_path_len :: nat
  location_query_len :: nat
  uri_query_len :: nat
  accept :: int
  max_age :: nat
  size1 :: nat
  size2 :: nat
  uri_port :: int
  observe :: int
  block1 :: int
  block2 :: int
  proxy_uri_ptr :: "bytes option"
  etag_ptr :: "bytes option"
  uri_host_ptr :: "bytes option"
  location_path_ptr :: "bytes option"
  location_query_ptr :: "bytes option"
  uri_query_ptr :: "bytes option"

record coap_hdr =
  token_len :: nat
  coap_status :: coap_status
  msg_code :: nat
  msg_type :: nat
  content_format :: int
  msg_id :: nat
  uri_path_len :: nat
  payload_len :: nat
  token_ptr :: "bytes option"
  uri_path_ptr :: "bytes option"
  payload_ptr :: "bytes option"
  options_list_ptr :: "coap_options option"

definition upd_options :: "(coap_options \<Rightarrow> coap_options) \<Rightarrow> coap_hdr \<Rightarrow> coap_hdr" where
  "upd_options f m = m\<lparr>options_list_ptr := map_option f (options_list_ptr m)\<rparr>"

section \<open>Header validity check\<close>

definition coap_known_codes :: "nat list" where
  "coap_known_codes =
     [0, 1, 2, 3, 4,
      65, 66, 67, 68, 69,
      128, 129, 130, 131, 132, 133, 134, 136, 140, 141, 143,
      160, 161, 162, 163, 164, 165,
      95]"

definition sn_coap_header_validity_check :: "coap_hdr \<Rightarrow> nat \<Rightarrow> int" where
  "sn_coap_header_validity_check m version =
     (if version \<noteq> COAP_VERSION_1 then -1
      else if msg_type m \<notin> {COAP_MSG_TYPE_CONFIRMABLE, COAP_MSG_TYPE_NON_CONFIRMABLE,
                             COAP_MSG_TYPE_ACKNOWLEDGEMENT, COAP_MSG_TYPE_RESET} then -1
      else if msg_code m \<notin> set coap_known_codes then -1
      else 0)"

lemma header_check_ok_iff:
  "sn_coap_header_validity_check m COAP_VERSION = 0 \<longleftrightarrow>
     msg_type m \<in> {0, 16, 32, 48} \<and> msg_code m \<in> set coap_known_codes"
  by (simp add: sn_coap_header_validity_check_def)

lemma known_codes_byte: "c \<in> set coap_known_codes \<Longrightarrow> c < 256"
  by (auto simp: coap_known_codes_def)

end
