(* ===== verification/Coap_Parser.thy ===== *)
theory Coap_Parser
  imports Coap_Header
begin

text \<open>
  The CoAP packet parser, \<open>mbed-coap/source/sn_coap_parser.c\<close>.

  Every function keeps the name of its C function without the prefix
  \<open>sn_coap_parser_\<close>. The packet is a byte list; \<open>packet_data_start_ptr\<close> and
  \<open>*packet_data_pptr\<close> are offsets into it. The outer option of each result is None exactly
  when the C code would read or write outside a buffer. A status \<open>int8_t\<close> is an int.

  The allocator \<open>handle->sn_coap_protocol_malloc\<close> is supplied by the application. It is the
  parameter \<open>ok\<close>: the request number k succeeds iff \<open>ok k\<close>; \<open>nreq\<close> counts requests.
\<close>

section \<open>Allocation and initialisation\<close>

definition init_message :: coap_hdr where
  "init_message =
     \<lparr>token_len = 0, coap_status = COAP_STATUS_OK, msg_code = 0, msg_type = 0,
      content_format = COAP_CT_NONE, msg_id = 0, uri_path_len = 0, payload_len = 0,
      token_ptr = None, uri_path_ptr = None, payload_ptr = None, options_list_ptr = None\<rparr>"

definition alloc_message :: "(nat \<Rightarrow> bool) \<Rightarrow> nat \<Rightarrow> coap_hdr option \<times> nat" where
  "alloc_message ok nreq = (if ok nreq then Some init_message else None, Suc nreq)"

definition init_options :: coap_options where
  "init_options =
     \<lparr>etag_len = 0, use_size1 = False, use_size2 = False, proxy_uri_len = 0, uri_host_len = 0,
      location_path_len = 0, location_query_len = 0, uri_query_len = 0,
      accept = COAP_CT_NONE, max_age = 0, size1 = 0, size2 = 0,
      uri_port = COAP_OPTION_URI_PORT_NONE, observe = COAP_OBSERVE_NONE,
      block1 = COAP_OPTION_BLOCK_NONE, block2 = COAP_OPTION_BLOCK_NONE,
      proxy_uri_ptr = None, etag_ptr = None, uri_host_ptr = None,
      location_path_ptr = None, location_query_ptr = None, uri_query_ptr = None\<rparr>"

text \<open>The first component is whether the C function returned a pointer other than NULL.\<close>

definition alloc_options :: "(nat \<Rightarrow> bool) \<Rightarrow> nat \<Rightarrow> coap_hdr \<Rightarrow> bool \<times> coap_hdr \<times> nat" where
  "alloc_options ok nreq m =
     (case options_list_ptr m of
        Some opts \<Rightarrow> (True, m, nreq)
      | None \<Rightarrow> if ok nreq then (True, m\<lparr>options_list_ptr := Some init_options\<rparr>, Suc nreq)
                else (False, m, Suc nreq))"

text \<open>The NULL message that a failed first allocation passes on makes the second one fail too.\<close>

definition alloc_message_with_options :: "(nat \<Rightarrow> bool) \<Rightarrow> nat \<Rightarrow> coap_hdr option \<times> nat" where
  "alloc_message_with_options ok nreq =
     (case alloc_message ok nreq of
        (None, n1) \<Rightarrow> (None, n1)
      | (Some m, n1) \<Rightarrow>
          (case alloc_options ok n1 m of
             (True, m', n2) \<Rightarrow> (Some m', n2)
           | (False, m', n2) \<Rightarrow> (None, n2)))"

section \<open>Reading the packet\<close>

definition header_parse :: "bytes \<Rightarrow> nat \<Rightarrow> coap_hdr \<Rightarrow> (nat \<times> coap_hdr \<times> nat) option" where
  "header_parse pkt p m =
     (case (rd pkt p, rd pkt (p + 1), rd pkt (p + 2), rd pkt (p + 3)) of
        (Some b0, Some b1, Some b2, Some b3) \<Rightarrow>
          Some (p + 4,
                m\<lparr>msg_type := unat (b0 AND 0x30), msg_code := unat b1,
                  msg_id := u16_wrap (unat b3 + unat b2 * 256)\<rparr>,
                unat (b0 AND 0xC0))
      | _ \<Rightarrow> None)"

fun options_parse_uint :: "bytes \<Rightarrow> nat \<Rightarrow> nat \<Rightarrow> nat \<Rightarrow> (nat \<times> nat) option" where
  "options_parse_uint pkt p 0 v = Some (v, p)"
| "options_parse_uint pkt p (Suc n) v =
     (case rd pkt p of
        None \<Rightarrow> None
      | Some b \<Rightarrow> options_parse_uint pkt (p + 1) n (u32_wrap (v * 256 + unat b)))"

text \<open>None is the return value -1.\<close>

definition add_u16_limit :: "nat \<Rightarrow> nat \<Rightarrow> nat option" where
  "add_u16_limit a b = (let c = u16_wrap (a + b) in if c < a \<or> c < b then None else Some c)"

definition check_packet_ptr :: "nat \<Rightarrow> nat \<Rightarrow> nat \<Rightarrow> nat \<Rightarrow> int" where
  "check_packet_ptr p start len delta =
     (if delta > len then -1
      else if p + delta < start \<or> p + delta > start + len then -1
      else 0)"

text \<open>The new pointer and the remaining length.\<close>

definition move_packet_ptr :: "nat \<Rightarrow> nat \<Rightarrow> nat \<Rightarrow> nat \<Rightarrow> nat \<times> nat" where
  "move_packet_ptr p start len delta =
     (let packet_end = start + len; new_data_ptr = p + delta in
      if new_data_ptr < start then (p, 0)
      else if new_data_ptr \<ge> packet_end then (packet_end, 0)
      else (new_data_ptr, u16_wrap (packet_end - new_data_ptr)))"

text \<open>The inner option is None when the C function returns -1.\<close>

definition read_packet_u8 :: "bytes \<Rightarrow> nat \<Rightarrow> nat \<Rightarrow> nat \<Rightarrow> nat option option" where
  "read_packet_u8 pkt p start len =
     (if check_packet_ptr p start len 1 \<noteq> 0 then Some None
      else map_option (\<lambda>b. Some (unat b)) (rd pkt p))"

definition read_packet_u16 :: "bytes \<Rightarrow> nat \<Rightarrow> nat \<Rightarrow> nat \<Rightarrow> nat option option" where
  "read_packet_u16 pkt p start len =
     (if check_packet_ptr p start len 2 \<noteq> 0 then Some None
      else case (rd pkt p, rd pkt (p + 1)) of
             (Some hi, Some lo) \<Rightarrow> Some (Some (unat hi * 256 + unat lo))
           | _ \<Rightarrow> None)"

text \<open>On success the resolved number, the pointer and the remaining length.\<close>

definition parse_ext_option ::
  "nat \<Rightarrow> bytes \<Rightarrow> nat \<Rightarrow> nat \<Rightarrow> nat \<Rightarrow> nat \<Rightarrow> (nat \<times> nat \<times> nat) option option" where
  "parse_ext_option dst pkt p start len left =
     (if dst = 13 then
        (case read_packet_u8 pkt p start len of
           None \<Rightarrow> None
         | Some None \<Rightarrow> Some None
         | Some (Some ext) \<Rightarrow>
             (case add_u16_limit dst ext of
                None \<Rightarrow> Some None
              | Some n \<Rightarrow> (case move_packet_ptr p start len 1 of
                            (p', left') \<Rightarrow> Some (Some (n, p', left')))))
      else if dst = 14 then
        (case read_packet_u16 pkt p start len of
           None \<Rightarrow> None
         | Some None \<Rightarrow> Some None
         | Some (Some ext) \<Rightarrow>
             (case add_u16_limit ext 269 of
                None \<Rightarrow> Some None
              | Some n \<Rightarrow> (case move_packet_ptr p start len 2 of
                            (p', left') \<Rightarrow> Some (Some (n, p', left')))))
      else if dst = 15 then Some None
      else Some (Some (dst, p, left)))"


text \<open>Progress of the pointer, needed for the termination of the loops below.\<close>

lemma move_packet_ptr_left:
  assumes "move_packet_ptr p start len d = (p', l')" and "l' \<noteq> 0"
  shows "p' = p + d" "p + d < start + len" "start \<le> p + d" "l' = u16_wrap (start + len - (p + d))"
  using assms by (auto simp: move_packet_ptr_def Let_def split: if_splits)

lemma parse_ext_option_left:
  assumes "parse_ext_option n pkt p start len l = Some (Some (n', p', l'))" and "l' \<noteq> 0"
  shows "(p' = p \<and> l' = l) \<or> (p < p' \<and> p' < start + len)"
  using assms
  by (auto simp: parse_ext_option_def split: if_splits option.splits prod.splits
           dest: move_packet_ptr_left)

section \<open>Repeatable options\<close>

text \<open>
  The counting pass. \<open>count_result\<close> is the conversion of \<open>ret_value - 1\<close> to \<open>int16_t\<close> at the
  end of \<open>sn_coap_parser_options_count_needed_memory_multiple_option\<close>.
\<close>

definition count_result :: "nat \<Rightarrow> int" where
  "count_result ret = (if ret \<noteq> 0 then s16_of (ret - 1) else 0)"

definition option_part_too_long :: "nat \<Rightarrow> nat \<Rightarrow> bool" where
  "option_part_too_long option len \<longleftrightarrow>
     option = COAP_OPTION_LOCATION_PATH \<and> len > 255 \<or>
     option = COAP_OPTION_URI_PATH \<and> len > 255 \<or>
     option = COAP_OPTION_URI_QUERY \<and> len > 255 \<or>
     option = COAP_OPTION_LOCATION_QUERY \<and> len > 255 \<or>
     option = COAP_OPTION_ACCEPT \<and> len > 2 \<or>
     option = COAP_OPTION_ETAG \<and> len > 8"

text \<open>
  Both passes end a part in the same way: they stop at the end of the data or at an option
  whose delta is not 0, and otherwise read the length of the next part.
\<close>

datatype next_part = Part_Stop | Part_Bad nat | Part_More nat nat nat

definition read_next_part :: "bytes \<Rightarrow> nat \<Rightarrow> nat \<Rightarrow> nat \<Rightarrow> nat \<Rightarrow> next_part option" where
  "read_next_part pkt start len p1 left1 =
     (if left1 = 0 then Some Part_Stop
      else case rd pkt p1 of
        None \<Rightarrow> None
      | Some b \<Rightarrow>
          if drop_bit 4 b \<noteq> 0 then Some Part_Stop
          else (case move_packet_ptr p1 start len 1 of
            (p2, left2) \<Rightarrow>
              (case parse_ext_option (unat (b AND 15)) pkt p2 start len left2 of
                 None \<Rightarrow> None
               | Some None \<Rightarrow> Some (Part_Bad p2)
               | Some (Some (n, p3, left3)) \<Rightarrow> Some (Part_More n p3 left3))))"

lemma read_next_part_progress:
  assumes "read_next_part pkt start len p1 l1 = Some (Part_More n p3 l3)"
    and "move_packet_ptr p start len d = (p1, l1)"
  shows "0 < l3 \<longrightarrow> start + len - p3 < start + len - p"
proof
  assume l3: "0 < l3"
  from assms(1) obtain n0 p2 l2 where l1: "l1 \<noteq> 0"
    and m: "move_packet_ptr p1 start len 1 = (p2, l2)"
    and x: "parse_ext_option n0 pkt p2 start len l2 = Some (Some (n, p3, l3))"
    by (auto simp: read_next_part_def simp del: unat_and_15 One_nat_def
             split: if_splits option.splits prod.splits)
  note 1 = move_packet_ptr_left [OF assms(2) l1]
  have "(p3 = p2 \<and> l3 = l2) \<or> (p2 < p3 \<and> p3 < start + len)"
    using parse_ext_option_left [OF x] l3 by auto
  moreover have "p2 = start + len \<and> l2 = 0 \<or> p2 = p1 + 1"
    using m 1 by (auto simp: move_packet_ptr_def Let_def split: if_splits)
  ultimately show "start + len - p3 < start + len - p"
    using 1 l3 by auto
qed

function count_needed_loop ::
  "bytes \<Rightarrow> nat \<Rightarrow> nat \<Rightarrow> nat \<Rightarrow> nat \<Rightarrow> nat \<Rightarrow> nat \<Rightarrow> nat \<Rightarrow> int option" where
  "count_needed_loop pkt start len option p left optlen ret =
     (if left = 0 then Some (count_result ret)
      else if option_part_too_long option optlen then Some (-1)
      else if check_packet_ptr p start len optlen \<noteq> 0 then Some (-1)
      else let ret' = u16_wrap (ret + optlen + 1) in
        (case move_packet_ptr p start len optlen of
           (p1, left1) \<Rightarrow>
             (case read_next_part pkt start len p1 left1 of
                None \<Rightarrow> None
              | Some Part_Stop \<Rightarrow> Some (count_result ret')
              | Some (Part_Bad p2) \<Rightarrow> Some (-1)
              | Some (Part_More n p3 left3) \<Rightarrow>
                  count_needed_loop pkt start len option p3 left3 n ret')))"
  by pat_completeness auto
termination
  by (relation "measure (\<lambda>(pkt, start, len, option, p, left, optlen, ret).
                   if left = 0 then 0 else Suc (start + len - p))")
    (auto intro: read_next_part_progress [rule_format])

declare count_needed_loop.simps [simp del]

definition options_count_needed_memory :: "bytes \<Rightarrow> nat \<Rightarrow> nat \<Rightarrow> nat \<Rightarrow> nat \<Rightarrow> int option" where
  "options_count_needed_memory pkt p left option optlen =
     count_needed_loop pkt p left option p left optlen 0"

text \<open>
  The copying pass. The destination block is the list of bytes written so far and its
  capacity; a write beyond the capacity is None. The separator is written for the five option
  numbers the function is called with. \<open>counter\<close> is the \<open>uint8_t returned_option_counter\<close>.
\<close>

definition option_separator :: "nat \<Rightarrow> u8" where
  "option_separator option =
     (if option = COAP_OPTION_URI_PATH \<or> option = COAP_OPTION_LOCATION_PATH
      then 0x2F else 0x26)"

definition put_bytes :: "int \<Rightarrow> bytes \<Rightarrow> bytes \<Rightarrow> bytes option" where
  "put_bytes cap out bs = (if int (length out + length bs) \<le> cap then Some (out @ bs) else None)"

text \<open>One part with its separator. False is a return of -1 out of the loop.\<close>

definition copy_part ::
  "bytes \<Rightarrow> nat \<Rightarrow> nat \<Rightarrow> nat \<Rightarrow> int \<Rightarrow> nat \<Rightarrow> nat \<Rightarrow> nat \<Rightarrow> bytes \<Rightarrow> (bool \<times> bytes) option" where
  "copy_part pkt start len option needed p optlen counter out =
     (case (if counter > 0 then put_bytes needed out [option_separator option] else Some out) of
        None \<Rightarrow> None
      | Some out1 \<Rightarrow>
          if int (length out1 + optlen) > needed then Some (False, out1)
          else if check_packet_ptr p start len optlen \<noteq> 0 then Some (False, out1)
          else (case rd_block pkt p optlen of
            None \<Rightarrow> None
          | Some bs \<Rightarrow>
              (case put_bytes needed out1 bs of
                 None \<Rightarrow> None
               | Some out2 \<Rightarrow> Some (True, out2))))"

function copy_loop ::
  "bytes \<Rightarrow> nat \<Rightarrow> nat \<Rightarrow> nat \<Rightarrow> int \<Rightarrow> nat \<Rightarrow> nat \<Rightarrow> nat \<Rightarrow> nat \<Rightarrow> bytes
     \<Rightarrow> (int \<times> nat \<times> bytes) option" where
  "copy_loop pkt start len option needed p left optlen counter out =
     (if \<not> (int (length out) < needed \<and> left \<noteq> 0) then Some (s8_of counter, p, out)
      else case copy_part pkt start len option needed p optlen counter out of
        None \<Rightarrow> None
      | Some (False, out1) \<Rightarrow> Some (-1, p, out1)
      | Some (True, out2) \<Rightarrow>
          let counter' = u8_wrap (counter + 1) in
          (case move_packet_ptr p start len optlen of
             (p1, left1) \<Rightarrow>
               (case read_next_part pkt start len p1 left1 of
                  None \<Rightarrow> None
                | Some Part_Stop \<Rightarrow> Some (s8_of counter', p1, out2)
                | Some (Part_Bad p2) \<Rightarrow> Some (-1, p2, out2)
                | Some (Part_More n p3 left3) \<Rightarrow>
                    copy_loop pkt start len option needed p3 left3 n counter' out2)))"
  by pat_completeness auto
termination
  by (relation "measure (\<lambda>(pkt, start, len, option, needed, p, left, optlen, counter, out).
                   if left = 0 then 0 else Suc (start + len - p))")
    (auto intro: read_next_part_progress [rule_format])

declare copy_loop.simps [simp del]

text \<open>
  \<open>sn_coap_parser_options_parse_multiple_options\<close>: the status, the pointer, the destination
  pointer \<open>*dst_pptr\<close>, the destination length \<open>*dst_len_ptr\<close> and the request counter.
\<close>

definition options_parse_multiple_options ::
  "(nat \<Rightarrow> bool) \<Rightarrow> bytes \<Rightarrow> nat \<Rightarrow> nat \<Rightarrow> bytes option \<Rightarrow> nat \<Rightarrow> nat \<Rightarrow> nat \<Rightarrow> nat
     \<Rightarrow> (int \<times> nat \<times> bytes option \<times> nat \<times> nat) option" where
  "options_parse_multiple_options ok pkt p left dst dlen option optlen nreq =
     (case options_count_needed_memory pkt p left option optlen of
        None \<Rightarrow> None
      | Some needed \<Rightarrow>
          if needed = -1 then Some (-1, p, dst, dlen, nreq)
          else if needed \<noteq> 0 \<and> \<not> ok nreq then Some (-1, p, None, dlen, Suc nreq)
          else let dst' = (if needed \<noteq> 0 then Some [] else dst);
                   nreq' = (if needed \<noteq> 0 then Suc nreq else nreq) in
            (case copy_loop pkt p left option needed p left optlen 0 [] of
               None \<Rightarrow> None
             | Some (r, p', out) \<Rightarrow>
                 Some (r, p', (if needed \<noteq> 0 then Some out else dst'),
                       nat (needed mod 65536), nreq')))"

section \<open>Parsing the options\<close>

record parse_state =
  ps_pos :: nat
  ps_left :: nat
  ps_prev :: nat
  ps_msg :: coap_hdr
  ps_nreq :: nat

text \<open>An option whose value is an unsigned integer, stored by \<open>set\<close>.\<close>

definition parse_uint_case ::
  "bytes \<Rightarrow> nat \<Rightarrow> nat \<Rightarrow> bool \<Rightarrow> (nat \<Rightarrow> coap_hdr \<Rightarrow> coap_hdr) \<Rightarrow> parse_state
     \<Rightarrow> (int \<times> parse_state) option" where
  "parse_uint_case pkt optlen maxlen present set_value st =
     (if optlen > maxlen \<or> present then Some (-1, st)
      else case options_parse_uint pkt (ps_pos st) optlen 0 of
        None \<Rightarrow> None
      | Some (v, p') \<Rightarrow> Some (0, st\<lparr>ps_pos := p', ps_msg := set_value v (ps_msg st)\<rparr>))"

text \<open>An option whose value is copied as it is (Proxy-Uri, Uri-Host).\<close>

definition parse_opaque_case ::
  "(nat \<Rightarrow> bool) \<Rightarrow> bytes \<Rightarrow> nat \<Rightarrow> nat \<Rightarrow> nat \<Rightarrow> bool \<Rightarrow> (nat \<Rightarrow> coap_hdr \<Rightarrow> coap_hdr)
     \<Rightarrow> (bytes option \<Rightarrow> coap_hdr \<Rightarrow> coap_hdr) \<Rightarrow> parse_state \<Rightarrow> (int \<times> parse_state) option" where
  "parse_opaque_case ok pkt len optlen maxlen present set_len set_ptr st =
     (if optlen > maxlen \<or> optlen < 1 \<or> present then Some (-1, st)
      else let m = set_len optlen (ps_msg st) in
        if \<not> ok (ps_nreq st)
        then Some (-1, st\<lparr>ps_msg := set_ptr None m, ps_nreq := Suc (ps_nreq st)\<rparr>)
        else (case rd_block pkt (ps_pos st) optlen of
          None \<Rightarrow> None
        | Some bs \<Rightarrow>
            (case move_packet_ptr (ps_pos st) 0 len optlen of
               (p', left') \<Rightarrow>
                 Some (0, st\<lparr>ps_pos := p', ps_left := left', ps_msg := set_ptr (Some bs) m,
                             ps_nreq := Suc (ps_nreq st)\<rparr>))))"

text \<open>A repeatable option, read by the two-pass routine.\<close>

definition parse_multiple_case ::
  "(nat \<Rightarrow> bool) \<Rightarrow> bytes \<Rightarrow> nat \<Rightarrow> nat \<Rightarrow> bool \<Rightarrow> bytes option \<Rightarrow> nat
     \<Rightarrow> (bytes option \<Rightarrow> nat \<Rightarrow> coap_hdr \<Rightarrow> coap_hdr) \<Rightarrow> parse_state
     \<Rightarrow> (int \<times> parse_state) option" where
  "parse_multiple_case ok pkt option optlen present dst dlen set_value st =
     (if present then Some (-1, st)
      else case options_parse_multiple_options ok pkt (ps_pos st) (ps_left st) dst dlen
                  option optlen (ps_nreq st) of
        None \<Rightarrow> None
      | Some (r, p', dst', dlen', nreq') \<Rightarrow>
          let st' = st\<lparr>ps_pos := p', ps_msg := set_value dst' dlen' (ps_msg st),
                       ps_nreq := nreq'\<rparr> in
          if r < 0 then Some (-1, st') else Some (0, st'))"

text \<open>
  The ETag length is an \<open>uint8_t\<close> that the code passes as \<open>(uint16_t *)\<close>. The 16-bit access
  also covers the byte after \<open>etag_len\<close>, which holds the bit-fields \<open>use_size1\<close> and \<open>use_size2\<close>
  (little-endian, bit-fields from the least significant bit, as on the ARM and x86 ABIs).
\<close>

definition etag_len16 :: "coap_options \<Rightarrow> nat" where
  "etag_len16 opts = etag_len opts + 256 * of_bool (use_size1 opts) + 512 * of_bool (use_size2 opts)"

definition set_etag_len16 :: "nat \<Rightarrow> coap_options \<Rightarrow> coap_options" where
  "set_etag_len16 n opts =
     opts\<lparr>etag_len := n mod 256, use_size1 := odd (n div 256), use_size2 := odd (n div 512)\<rparr>"

text \<open>The options whose case in the first \<open>switch\<close> allocates the options list.\<close>

definition options_in_list :: "nat list" where
  "options_in_list =
     [COAP_OPTION_MAX_AGE, COAP_OPTION_PROXY_URI, COAP_OPTION_ETAG, COAP_OPTION_URI_HOST,
      COAP_OPTION_LOCATION_PATH, COAP_OPTION_URI_PORT, COAP_OPTION_LOCATION_QUERY,
      COAP_OPTION_OBSERVE, COAP_OPTION_URI_QUERY, COAP_OPTION_BLOCK2, COAP_OPTION_BLOCK1,
      COAP_OPTION_ACCEPT, COAP_OPTION_SIZE1, COAP_OPTION_SIZE2]"

text \<open>
  The cases of the second \<open>switch\<close> that store into the options list; \<open>opts\<close> is
  \<open>*dst_coap_msg_ptr->options_list_ptr\<close>.
\<close>

definition parse_list_option ::
  "(nat \<Rightarrow> bool) \<Rightarrow> bytes \<Rightarrow> nat \<Rightarrow> nat \<Rightarrow> nat \<Rightarrow> coap_options \<Rightarrow> parse_state
     \<Rightarrow> (int \<times> parse_state) option" where
  "parse_list_option ok pkt len number optlen opts st =
     (if number = COAP_OPTION_MAX_AGE then
        parse_uint_case pkt optlen 4 False (\<lambda>v. upd_options (\<lambda>o'. o'\<lparr>max_age := v\<rparr>)) st
      else if number = COAP_OPTION_PROXY_URI then
        parse_opaque_case ok pkt len optlen 1034 (proxy_uri_ptr opts \<noteq> None)
          (\<lambda>n. upd_options (\<lambda>o'. o'\<lparr>proxy_uri_len := n\<rparr>))
          (\<lambda>b. upd_options (\<lambda>o'. o'\<lparr>proxy_uri_ptr := b\<rparr>)) st
      else if number = COAP_OPTION_ETAG then
        parse_multiple_case ok pkt COAP_OPTION_ETAG optlen (etag_ptr opts \<noteq> None)
          (etag_ptr opts) (etag_len16 opts)
          (\<lambda>b n. upd_options (\<lambda>o'. set_etag_len16 n (o'\<lparr>etag_ptr := b\<rparr>))) st
      else if number = COAP_OPTION_URI_HOST then
        parse_opaque_case ok pkt len optlen 255 (uri_host_ptr opts \<noteq> None)
          (\<lambda>n. upd_options (\<lambda>o'. o'\<lparr>uri_host_len := n\<rparr>))
          (\<lambda>b. upd_options (\<lambda>o'. o'\<lparr>uri_host_ptr := b\<rparr>)) st
      else if number = COAP_OPTION_LOCATION_PATH then
        parse_multiple_case ok pkt COAP_OPTION_LOCATION_PATH optlen (location_path_ptr opts \<noteq> None)
          (location_path_ptr opts) (location_path_len opts)
          (\<lambda>b n. upd_options (\<lambda>o'. o'\<lparr>location_path_ptr := b, location_path_len := n\<rparr>)) st
      else if number = COAP_OPTION_URI_PORT then
        parse_uint_case pkt optlen 2 (uri_port opts \<noteq> COAP_OPTION_URI_PORT_NONE)
          (\<lambda>v. upd_options (\<lambda>o'. o'\<lparr>uri_port := int v\<rparr>)) st
      else if number = COAP_OPTION_LOCATION_QUERY then
        parse_multiple_case ok pkt COAP_OPTION_LOCATION_QUERY optlen (location_query_ptr opts \<noteq> None)
          (location_query_ptr opts) (location_query_len opts)
          (\<lambda>b n. upd_options (\<lambda>o'. o'\<lparr>location_query_ptr := b, location_query_len := n\<rparr>)) st
      else if number = COAP_OPTION_OBSERVE then
        parse_uint_case pkt optlen 2 (observe opts \<noteq> COAP_OBSERVE_NONE)
          (\<lambda>v. upd_options (\<lambda>o'. o'\<lparr>observe := int v\<rparr>)) st
      else if number = COAP_OPTION_URI_QUERY then
        parse_multiple_case ok pkt COAP_OPTION_URI_QUERY optlen False
          (uri_query_ptr opts) (uri_query_len opts)
          (\<lambda>b n. upd_options (\<lambda>o'. o'\<lparr>uri_query_ptr := b, uri_query_len := n\<rparr>)) st
      else if number = COAP_OPTION_BLOCK2 then
        parse_uint_case pkt optlen 3 (block2 opts \<noteq> COAP_OPTION_BLOCK_NONE)
          (\<lambda>v. upd_options (\<lambda>o'. o'\<lparr>block2 := int v\<rparr>)) st
      else if number = COAP_OPTION_BLOCK1 then
        parse_uint_case pkt optlen 3 (block1 opts \<noteq> COAP_OPTION_BLOCK_NONE)
          (\<lambda>v. upd_options (\<lambda>o'. o'\<lparr>block1 := int v\<rparr>)) st
      else if number = COAP_OPTION_ACCEPT then
        parse_uint_case pkt optlen 2 (accept opts \<noteq> COAP_CT_NONE)
          (\<lambda>v. upd_options (\<lambda>o'. o'\<lparr>accept := int v\<rparr>)) st
      else if number = COAP_OPTION_SIZE1 then
        parse_uint_case pkt optlen 4 (use_size1 opts)
          (\<lambda>v. upd_options (\<lambda>o'. o'\<lparr>use_size1 := True, size1 := v\<rparr>)) st
      else if number = COAP_OPTION_SIZE2 then
        parse_uint_case pkt optlen 4 (use_size2 opts)
          (\<lambda>v. upd_options (\<lambda>o'. o'\<lparr>use_size2 := True, size2 := v\<rparr>)) st
      else Some (-1, st))"

text \<open>The second \<open>switch\<close>; a NULL options list that is dereferenced is a fault.\<close>

definition parse_option_value ::
  "(nat \<Rightarrow> bool) \<Rightarrow> bytes \<Rightarrow> nat \<Rightarrow> nat \<Rightarrow> nat \<Rightarrow> parse_state \<Rightarrow> (int \<times> parse_state) option" where
  "parse_option_value ok pkt len number optlen st =
     (if number = COAP_OPTION_CONTENT_FORMAT then
        parse_uint_case pkt optlen 2 (content_format (ps_msg st) \<noteq> COAP_CT_NONE)
          (\<lambda>v m. m\<lparr>content_format := int v\<rparr>) st
      else if number = COAP_OPTION_URI_PATH then
        parse_multiple_case ok pkt COAP_OPTION_URI_PATH optlen (uri_path_ptr (ps_msg st) \<noteq> None)
          (uri_path_ptr (ps_msg st)) (uri_path_len (ps_msg st))
          (\<lambda>b n m. m\<lparr>uri_path_ptr := b, uri_path_len := n\<rparr>) st
      else if number \<in> set options_in_list then
        (case options_list_ptr (ps_msg st) of
           None \<Rightarrow> None
         | Some opts \<Rightarrow> parse_list_option ok pkt len number optlen opts st)
      else Some (-1, st))"


text \<open>
  The head of an iteration of the option loop of \<open>sn_coap_parser_options_parse\<close>: option
  number, option length, pointer and remaining length. The inner None is a return of -1.
\<close>

definition read_option_header ::
  "bytes \<Rightarrow> nat \<Rightarrow> u8 \<Rightarrow> nat \<Rightarrow> nat \<Rightarrow> (nat \<times> nat \<times> nat \<times> nat) option option" where
  "read_option_header pkt len b p prev =
     (case move_packet_ptr p 0 len 1 of
        (p1, left1) \<Rightarrow>
      (case parse_ext_option (unat (drop_bit 4 b)) pkt p1 0 len left1 of
         None \<Rightarrow> None
       | Some None \<Rightarrow> Some None
       | Some (Some (number1, p2, left2)) \<Rightarrow>
      (case add_u16_limit number1 prev of
         None \<Rightarrow> Some None
       | Some number \<Rightarrow>
      (case parse_ext_option (unat (b AND 15)) pkt p2 0 len left2 of
         None \<Rightarrow> None
       | Some None \<Rightarrow> Some None
       | Some (Some (optlen, p3, left3)) \<Rightarrow> Some (Some (number, optlen, p3, left3))))))"

text \<open>One iteration of the loop.\<close>

definition parse_one_option ::
  "(nat \<Rightarrow> bool) \<Rightarrow> bytes \<Rightarrow> nat \<Rightarrow> u8 \<Rightarrow> parse_state \<Rightarrow> (int \<times> parse_state) option" where
  "parse_one_option ok pkt len b st =
     (case read_option_header pkt len b (ps_pos st) (ps_prev st) of
        None \<Rightarrow> None
      | Some None \<Rightarrow> Some (-1, st)
      | Some (Some (number, optlen, p3, left3)) \<Rightarrow>
      (case (if number \<in> set options_in_list then alloc_options ok (ps_nreq st) (ps_msg st)
             else (True, ps_msg st, ps_nreq st)) of
         (allocated, m, nreq') \<Rightarrow>
         let st1 = st\<lparr>ps_pos := p3, ps_left := left3, ps_prev := u8_wrap number,
                      ps_msg := m, ps_nreq := nreq'\<rparr> in
         if \<not> allocated then Some (-1, st1)
         else if left3 < optlen then Some (-1, st1)
         else (case parse_option_value ok pkt len number optlen st1 of
           None \<Rightarrow> None
         | Some (r, st2) \<Rightarrow>
             if r \<noteq> 0 then Some (-1, st2)
             else if ps_pos st2 > len then Some (-1, st2)
             else (case move_packet_ptr (ps_pos st2) 0 len 0 of
               (p4, left4) \<Rightarrow> Some (0, st2\<lparr>ps_pos := p4, ps_left := left4\<rparr>)))))"

text \<open>Every iteration that succeeds moves the pointer forward or leaves no byte to read.\<close>

lemma move_packet_ptr_mono:
  assumes "move_packet_ptr p start len d = (p', l')" and "start \<le> p" and "p \<le> start + len"
  shows "p \<le> p' \<and> p' \<le> start + len"
  using assms by (auto simp: move_packet_ptr_def Let_def split: if_splits)

lemma parse_ext_option_mono:
  assumes "parse_ext_option n pkt p start len l = Some (Some (n', p', l'))"
    and "start \<le> p" and "p \<le> start + len"
  shows "p \<le> p' \<and> p' \<le> start + len"
  using assms
  by (auto simp: parse_ext_option_def split: if_splits option.splits prod.splits
           dest!: move_packet_ptr_mono)

lemma options_parse_uint_pos:
  "options_parse_uint pkt p n v = Some (v', p') \<Longrightarrow> p' = p + n"
  by (induction pkt p n v rule: options_parse_uint.induct) (auto split: option.splits)

lemma read_next_part_mono:
  assumes "read_next_part pkt start len p l = Some (Part_More n p' l')"
    and "start \<le> p" and "p \<le> start + len"
  shows "p \<le> p' \<and> p' \<le> start + len"
  using assms move_packet_ptr_mono [of p start len 1]
  by (fastforce simp: read_next_part_def split: if_splits option.splits prod.splits
        dest!: parse_ext_option_mono)

lemma read_next_part_bad_mono:
  assumes "read_next_part pkt start len p l = Some (Part_Bad p')"
    and "start \<le> p" and "p \<le> start + len"
  shows "p \<le> p' \<and> p' \<le> start + len"
  using assms move_packet_ptr_mono [of p start len 1]
  by (auto simp: read_next_part_def split: if_splits option.splits prod.splits)

lemma copy_loop_SomeE:
  assumes "copy_loop pkt start len option needed p left optlen counter out = Some (r, p', out')"
  obtains (finished) "\<not> (int (length out) < needed \<and> left \<noteq> 0)" "r = s8_of counter" "p' = p" "out' = out"
  | (fail) "int (length out) < needed" "left \<noteq> 0"
      "copy_part pkt start len option needed p optlen counter out = Some (False, out')"
      "r = -1" "p' = p"
  | (stop) l1 where "int (length out) < needed" "left \<noteq> 0"
      "copy_part pkt start len option needed p optlen counter out = Some (True, out')"
      "move_packet_ptr p start len optlen = (p', l1)"
      "read_next_part pkt start len p' l1 = Some Part_Stop" "r = s8_of (u8_wrap (counter + 1))"
  | (bad) p1 l1 where "int (length out) < needed" "left \<noteq> 0"
      "copy_part pkt start len option needed p optlen counter out = Some (True, out')"
      "move_packet_ptr p start len optlen = (p1, l1)"
      "read_next_part pkt start len p1 l1 = Some (Part_Bad p')" "r = -1"
  | (more) out2 p1 l1 n p3 l3 where "int (length out) < needed" "left \<noteq> 0"
      "copy_part pkt start len option needed p optlen counter out = Some (True, out2)"
      "move_packet_ptr p start len optlen = (p1, l1)"
      "read_next_part pkt start len p1 l1 = Some (Part_More n p3 l3)"
      "copy_loop pkt start len option needed p3 l3 n (u8_wrap (counter + 1)) out2
         = Some (r, p', out')"
  using assms
  by (subst (asm) copy_loop.simps)
    (auto simp: Let_def split: if_splits option.splits prod.splits bool.splits next_part.splits)

lemma copy_loop_mono:
  "copy_loop pkt start len option needed p left optlen counter out = Some (r, p', out') \<Longrightarrow>
   start \<le> p \<Longrightarrow> p \<le> start + len \<Longrightarrow> p \<le> p' \<and> p' \<le> start + len"
proof (induction pkt start len option needed p left optlen counter out arbitrary: r p' out'
       rule: copy_loop.induct)
  case (1 pkt start len option needed p left optlen counter out)
  note IH = "1.IH" and bnd = "1.prems"(2,3)
  from "1.prems"(1) show ?case
  proof (cases rule: copy_loop_SomeE)
    case (stop l1)
    then show ?thesis using bnd by (auto dest: move_packet_ptr_mono)
  next
    case (bad p1 l1)
    from move_packet_ptr_mono [OF bad(4) bnd] have "p \<le> p1" "p1 \<le> start + len" by auto
    with read_next_part_bad_mono [OF bad(5)] bnd show ?thesis by auto
  next
    case (more out2 p1 l1 n p3 l3)
    from move_packet_ptr_mono [OF more(4) bnd] have p1: "p \<le> p1" "p1 \<le> start + len" by auto
    with read_next_part_mono [OF more(5)] bnd have p3: "p1 \<le> p3" "p3 \<le> start + len" by auto
    have "p3 \<le> p' \<and> p' \<le> start + len"
      by (rule IH) (use more p1 p3 bnd in auto)
    with p1 p3 show ?thesis by auto
  qed (use bnd in auto)
qed


lemma parse_uint_case_mono:
  "parse_uint_case pkt optlen maxlen present set_value st = Some (r, st') \<Longrightarrow>
   ps_pos st \<le> ps_pos st'"
  by (auto simp: parse_uint_case_def split: if_splits option.splits prod.splits
      dest!: options_parse_uint_pos)

lemma parse_opaque_case_mono:
  "parse_opaque_case ok pkt len optlen maxlen present set_len set_ptr st = Some (r, st') \<Longrightarrow>
   ps_pos st \<le> len \<Longrightarrow> ps_pos st \<le> ps_pos st'"
  by (auto simp: parse_opaque_case_def Let_def split: if_splits option.splits prod.splits
      dest!: move_packet_ptr_mono)

lemma parse_multiple_case_mono:
  "parse_multiple_case ok pkt option optlen present dst dlen set_value st = Some (r, st') \<Longrightarrow>
   ps_pos st \<le> ps_pos st'"
  by (auto simp: parse_multiple_case_def options_parse_multiple_options_def Let_def
      split: if_splits option.splits prod.splits dest!: copy_loop_mono)

lemma parse_list_option_mono:
  "parse_list_option ok pkt len number optlen opts st = Some (r, st') \<Longrightarrow>
   ps_pos st \<le> len \<Longrightarrow> ps_pos st \<le> ps_pos st'"
  unfolding parse_list_option_def
  by (auto split: if_split_asm
      dest: parse_uint_case_mono parse_opaque_case_mono parse_multiple_case_mono)

lemma parse_option_value_mono:
  assumes "parse_option_value ok pkt len number optlen st = Some (r, st')" and "ps_pos st \<le> len"
  shows "ps_pos st \<le> ps_pos st'"
  using assms unfolding parse_option_value_def
  by (auto split: if_split_asm option.split_asm
      dest: parse_uint_case_mono parse_multiple_case_mono parse_list_option_mono)

lemma read_option_header_mono:
  assumes "read_option_header pkt len b p prev = Some (Some (number, optlen, p3, left3))"
  shows "p3 \<le> len \<and> (p < p3 \<or> p3 = len)"
proof -
  obtain p1 l1 where m1: "move_packet_ptr p 0 len 1 = (p1, l1)"
    by (cases "move_packet_ptr p 0 len 1")
  then have p1: "p1 \<le> len" "p < p1 \<or> p1 = len"
    by (auto simp: move_packet_ptr_def Let_def split: if_splits)
  from assms m1 obtain n0 n1 n2 p2 l2 where
      x1: "parse_ext_option n0 pkt p1 0 len l1 = Some (Some (n1, p2, l2))"
    and x2: "parse_ext_option n2 pkt p2 0 len l2 = Some (Some (optlen, p3, left3))"
    by (auto simp: read_option_header_def simp del: One_nat_def
        split: option.split_asm prod.split_asm)
  have p2: "p1 \<le> p2" "p2 \<le> len" using parse_ext_option_mono [OF x1] p1 by auto
  have "p2 \<le> p3" "p3 \<le> len" using parse_ext_option_mono [OF x2] p2 by auto
  with p1 p2 show ?thesis by auto
qed

lemma parse_one_option_okE:
  assumes "parse_one_option ok pkt len b st = Some (0, st')"
  obtains number optlen p3 left3 m nreq' st1 st2 where
    "read_option_header pkt len b (ps_pos st) (ps_prev st) = Some (Some (number, optlen, p3, left3))"
    "(if number \<in> set options_in_list then alloc_options ok (ps_nreq st) (ps_msg st)
      else (True, ps_msg st, ps_nreq st)) = (True, m, nreq')"
    "st1 = st\<lparr>ps_pos := p3, ps_left := left3, ps_prev := u8_wrap number,
              ps_msg := m, ps_nreq := nreq'\<rparr>"
    "optlen \<le> left3"
    "parse_option_value ok pkt len number optlen st1 = Some (0, st2)"
    "ps_pos st2 \<le> len"
    "move_packet_ptr (ps_pos st2) 0 len 0 = (ps_pos st', ps_left st')"
    "st' = st2\<lparr>ps_pos := ps_pos st', ps_left := ps_left st'\<rparr>"
proof -
  from assms obtain number optlen p3 left3 where
    h: "read_option_header pkt len b (ps_pos st) (ps_prev st) = Some (Some (number, optlen, p3, left3))"
    unfolding parse_one_option_def by (auto split: option.split_asm)
  obtain al m nreq' where
    al: "(if number \<in> set options_in_list then alloc_options ok (ps_nreq st) (ps_msg st)
      else (True, ps_msg st, ps_nreq st)) = (al, m, nreq')"
    by (rule prod_cases3)
  let ?st1 = "st\<lparr>ps_pos := p3, ps_left := left3, ps_prev := u8_wrap number,
              ps_msg := m, ps_nreq := nreq'\<rparr>"
  from assms obtain st2 where 2: "al" "optlen \<le> left3"
    "parse_option_value ok pkt len number optlen ?st1 = Some (0, st2)" "ps_pos st2 \<le> len"
    "move_packet_ptr (ps_pos st2) 0 len 0 = (ps_pos st', ps_left st')"
    "st' = st2\<lparr>ps_pos := ps_pos st', ps_left := ps_left st'\<rparr>"
    by (auto simp: parse_one_option_def h al Let_def
        split: if_split_asm option.split_asm prod.split_asm)
  show thesis
    by (rule that [OF h _ refl 2(2-6)]) (use al 2(1) in simp)
qed

lemma parse_one_option_progress:
  assumes "parse_one_option ok pkt len b st = Some (0, st')"
  shows "ps_left st' \<noteq> 0 \<longrightarrow> ps_pos st < ps_pos st' \<and> ps_pos st' < len"
proof
  assume left: "ps_left st' \<noteq> 0"
  from assms show "ps_pos st < ps_pos st' \<and> ps_pos st' < len"
  proof (cases rule: parse_one_option_okE)
    case (1 number optlen p3 left3 m nreq' st1 st2)
    have p3: "p3 \<le> len" "ps_pos st < p3 \<or> p3 = len"
      using read_option_header_mono [OF 1(1)] by auto
    have "ps_pos st1 \<le> ps_pos st2"
      using parse_option_value_mono [OF 1(5)] 1(3) p3 by simp
    then show ?thesis
      using move_packet_ptr_left [OF 1(7) left] p3 1(3) by auto
  qed
qed

function options_loop ::
  "(nat \<Rightarrow> bool) \<Rightarrow> bytes \<Rightarrow> nat \<Rightarrow> parse_state \<Rightarrow> (int \<times> parse_state) option" where
  "options_loop ok pkt len st =
     (if ps_left st = 0 then Some (0, st)
      else case rd pkt (ps_pos st) of
        None \<Rightarrow> None
      | Some b \<Rightarrow>
          if b = 0xFF then Some (0, st)
          else (case parse_one_option ok pkt len b st of
            None \<Rightarrow> None
          | Some (r, st') \<Rightarrow>
              if r \<noteq> 0 then Some (-1, st') else options_loop ok pkt len st'))"
  by pat_completeness auto
termination
  by (relation "measure (\<lambda>(ok, pkt, len, st).
                   if ps_left st = 0 then 0 else Suc (len - ps_pos st))")
    (auto dest!: parse_one_option_progress)

declare options_loop.simps [simp del]

text \<open>\<open>sn_coap_parser_options_parse\<close>; \<open>nreq\<close> counts the allocation requests made before.\<close>

definition options_parse ::
  "(nat \<Rightarrow> bool) \<Rightarrow> bytes \<Rightarrow> nat \<Rightarrow> nat \<Rightarrow> coap_hdr \<Rightarrow> nat \<Rightarrow> (int \<times> parse_state) option" where
  "options_parse ok pkt len p m nreq =
     (case move_packet_ptr p 0 len 0 of
        (p1, left1) \<Rightarrow>
      (case rd pkt 0 of
         None \<Rightarrow> None
       | Some b0 \<Rightarrow>
         let tlen = unat (b0 AND 0x0F);
             m1 = m\<lparr>token_len := tlen\<rparr>;
             st = \<lparr>ps_pos = p1, ps_left = left1, ps_prev = 0, ps_msg = m1, ps_nreq = nreq\<rparr> in
         if tlen = 0 then options_loop ok pkt len st
         else if tlen > 8 \<or> token_ptr m1 \<noteq> None then Some (-1, st)
         else if check_packet_ptr p1 0 len tlen \<noteq> 0 then Some (-1, st)
         else if \<not> ok nreq then Some (-1, st\<lparr>ps_msg := m1\<lparr>token_ptr := None\<rparr>, ps_nreq := Suc nreq\<rparr>)
         else (case rd_block pkt p1 tlen of
           None \<Rightarrow> None
         | Some token \<Rightarrow>
             (case move_packet_ptr p1 0 len tlen of
                (p2, left2) \<Rightarrow>
                  options_loop ok pkt len
                    (st\<lparr>ps_pos := p2, ps_left := left2, ps_msg := m1\<lparr>token_ptr := Some token\<rparr>,
                        ps_nreq := Suc nreq\<rparr>)))))"

definition payload_parse :: "bytes \<Rightarrow> nat \<Rightarrow> nat \<Rightarrow> coap_hdr \<Rightarrow> (int \<times> coap_hdr) option" where
  "payload_parse pkt len p m =
     (if p < len then
        (case rd pkt p of
           None \<Rightarrow> None
         | Some b \<Rightarrow>
             if b = 0xFF then
               (let m' = m\<lparr>payload_len := u16_wrap (len - (p + 1))\<rparr> in
                if payload_len m' = 0 then Some (-1, m')
                else Some (0, m'\<lparr>payload_ptr := Some (drop (p + 1) pkt)\<rparr>))
             else Some (-1, m))
      else Some (0, m))"

text \<open>
  \<open>sn_coap_parser\<close>. The result is the returned message (None inside for NULL), the protocol
  version (\<open>*coap_version_ptr\<close>, None when it is not written) and the request counter.
\<close>

definition sn_coap_parser ::
  "(nat \<Rightarrow> bool) \<Rightarrow> nat \<Rightarrow> nat \<Rightarrow> bytes option \<Rightarrow> (coap_hdr option \<times> nat option \<times> nat) option" where
  "sn_coap_parser ok nreq len packet =
     (case packet of
        None \<Rightarrow> Some (None, None, nreq)
      | Some pkt \<Rightarrow>
        if len < 4 then Some (None, None, nreq)
        else (case alloc_message ok nreq of
          (None, n1) \<Rightarrow> Some (None, None, n1)
        | (Some m0, n1) \<Rightarrow>
          (case header_parse pkt 0 m0 of
             None \<Rightarrow> None
           | Some (p1, m1, version) \<Rightarrow>
             (case options_parse ok pkt len p1 m1 n1 of
                None \<Rightarrow> None
              | Some (r, st) \<Rightarrow>
                let n2 = ps_nreq st in
                if r \<noteq> 0 then
                  Some (Some ((ps_msg st)\<lparr>coap_status := COAP_STATUS_PARSER_ERROR_IN_HEADER\<rparr>),
                        Some version, n2)
                else (case payload_parse pkt len (ps_pos st) (ps_msg st) of
                  None \<Rightarrow> None
                | Some (r', m2) \<Rightarrow>
                    if r' = -1 then
                      Some (Some (m2\<lparr>coap_status := COAP_STATUS_PARSER_ERROR_IN_HEADER\<rparr>),
                            Some version, n2)
                    else Some (Some (m2\<lparr>coap_status := COAP_STATUS_OK\<rparr>), Some version, n2))))))"

end
