(* ===== verification/Coap_Parser_Safety.thy ===== *)
theory Coap_Parser_Safety
  imports Coap_Parser
begin

text \<open>
  Memory safety of the CoAP parser. A window is a start offset and a length that lie inside
  the packet; \<open>in_window\<close> says that a pointer lies in it and that the remaining-length variable
  \<open>message_left\<close> is the distance to its end. Every function keeps this invariant and, under
  it, never reads or writes outside a buffer.
\<close>

named_theorems window_simps "pointer arithmetic inside a window"

definition window :: "bytes \<Rightarrow> nat \<Rightarrow> nat \<Rightarrow> bool" where
  "window pkt start len \<longleftrightarrow> len < 65536 \<and> start + len \<le> length pkt"

definition in_window :: "nat \<Rightarrow> nat \<Rightarrow> nat \<Rightarrow> nat \<Rightarrow> bool" where
  "in_window start len p left \<longleftrightarrow> start \<le> p \<and> p \<le> start + len \<and> left = start + len - p"

lemma move_packet_ptr_window [window_simps]:
  assumes "start \<le> p" "p \<le> start + len" "len < 65536"
  shows "move_packet_ptr p start len d =
           (min (p + d) (start + len), start + len - min (p + d) (start + len))"
  using assms by (auto simp: move_packet_ptr_def Let_def wrap_simps)

lemma check_packet_ptr_window [window_simps]:
  assumes "start \<le> p"
  shows "(check_packet_ptr p start len d = 0) = (p + d \<le> start + len)"
  using assms by (auto simp: check_packet_ptr_def)

lemma check_packet_ptr_cases: "check_packet_ptr p start len d = 0 \<or> check_packet_ptr p start len d = -1"
  by (auto simp: check_packet_ptr_def)

lemma read_packet_u8_no_fault:
  assumes "window pkt start len" "start \<le> p"
  shows "read_packet_u8 pkt p start len \<noteq> None"
  using assms by (auto simp: read_packet_u8_def window_simps window_def read_simps)

lemma read_packet_u16_no_fault:
  assumes "window pkt start len" "start \<le> p"
  shows "read_packet_u16 pkt p start len \<noteq> None"
  using assms by (auto simp: read_packet_u16_def window_simps window_def read_simps)

lemma parse_ext_option_no_fault:
  assumes "window pkt start len" "start \<le> p"
  shows "parse_ext_option n pkt p start len l \<noteq> None"
  using read_packet_u8_no_fault [OF assms] read_packet_u16_no_fault [OF assms]
  by (auto simp: parse_ext_option_def split: option.splits prod.splits)

lemma parse_ext_option_window:
  assumes "parse_ext_option n pkt p start len l = Some (Some (n', p', l'))"
    and "window pkt start len" "in_window start len p l"
  shows "in_window start len p' l'" "p \<le> p'"
  using assms
  by (auto simp: parse_ext_option_def in_window_def window_def window_simps
      split: if_split_asm option.split_asm prod.split_asm)

section \<open>The two passes over a repeatable option\<close>

lemma read_next_part_no_fault:
  assumes "window pkt start len" "in_window start len p l"
  shows "read_next_part pkt start len p l \<noteq> None"
proof (cases "l = 0")
  case True
  then show ?thesis by (simp add: read_next_part_def)
next
  case False
  with assms have p: "start \<le> p" "p < start + len" "len < 65536" "start + len \<le> length pkt"
    by (auto simp: window_def in_window_def)
  obtain p2 l2 where m: "move_packet_ptr p start len 1 = (p2, l2)"
    by (cases "move_packet_ptr p start len 1")
  with p have "start \<le> p2"
    by (simp add: window_simps del: One_nat_def)
  from parse_ext_option_no_fault [OF assms(1) this, of "unat (pkt ! p) mod 16" l2] p m show ?thesis
    by (auto simp: read_next_part_def read_simps simp del: One_nat_def split: option.splits)
qed

lemma read_next_part_window:
  assumes "read_next_part pkt start len p l = Some (Part_More n p' l')"
    and "window pkt start len" "in_window start len p l"
  shows "in_window start len p' l'"
proof -
  from assms(1) obtain n0 p2 l2 where
      m: "move_packet_ptr p start len 1 = (p2, l2)"
    and x: "parse_ext_option n0 pkt p2 start len l2 = Some (Some (n, p', l'))"
    by (auto simp: read_next_part_def simp del: unat_and_15 One_nat_def
        split: if_splits option.splits prod.splits)
  have "in_window start len p2 l2"
    using m assms(2,3) by (auto simp: in_window_def window_def window_simps)
  from parse_ext_option_window (1) [OF x assms(2) this] show ?thesis .
qed

lemma part_window:
  assumes "move_packet_ptr p start len d = (p1, l1)"
    and "window pkt start len" "in_window start len p l"
  shows "in_window start len p1 l1"
  using assms by (auto simp: in_window_def window_def window_simps)

lemma count_needed_loop_no_fault:
  "window pkt start len \<Longrightarrow> in_window start len p left \<Longrightarrow>
   count_needed_loop pkt start len option p left optlen ret \<noteq> None"
proof (induction pkt start len option p left optlen ret rule: count_needed_loop.induct)
  case (1 pkt start len option p left optlen ret)
  obtain p1 l1 where m: "move_packet_ptr p start len optlen = (p1, l1)"
    by (cases "move_packet_ptr p start len optlen")
  note w1 = part_window [OF m "1.prems"]
  note nf = read_next_part_no_fault [OF "1.prems"(1) w1]
  then obtain q where q: "read_next_part pkt start len p1 l1 = Some q" by auto
  show ?case
  proof (cases q)
    case (Part_More n p3 l3)
    with q have more: "read_next_part pkt start len p1 l1 = Some (Part_More n p3 l3)" by simp
    have "in_window start len p3 l3"
      by (rule read_next_part_window [OF more "1.prems"(1) w1])
    with "1.IH" "1.prems"(1) m more show ?thesis
      by (subst count_needed_loop.simps) (auto simp: Let_def)
  qed (use m q in \<open>subst count_needed_loop.simps, simp add: Let_def\<close>)+
qed

lemma copy_part_no_fault:
  assumes "window pkt start len" "start \<le> p" "int (length out) < needed"
  shows "copy_part pkt start len option needed p optlen counter out \<noteq> None"
  using assms
  by (auto simp: copy_part_def put_bytes_def rd_block_def window_def window_simps
      split: option.splits)

lemma copy_loop_no_fault:
  "window pkt start len \<Longrightarrow> in_window start len p left \<Longrightarrow>
   copy_loop pkt start len option needed p left optlen counter out \<noteq> None"
proof (induction pkt start len option needed p left optlen counter out rule: copy_loop.induct)
  case (1 pkt start len option needed p left optlen counter out)
  show ?case
  proof (cases "int (length out) < needed \<and> left \<noteq> 0")
    case False
    then show ?thesis by (subst copy_loop.simps) simp
  next
    case True
    obtain p1 l1 where m: "move_packet_ptr p start len optlen = (p1, l1)"
      by (cases "move_packet_ptr p start len optlen")
    note w1 = part_window [OF m "1.prems"]
    from "1.prems"(2) have "start \<le> p" by (simp add: in_window_def)
    from copy_part_no_fault [OF "1.prems"(1) this] True
    obtain go out2 where c: "copy_part pkt start len option needed p optlen counter out = Some (go, out2)"
      by fastforce
    from read_next_part_no_fault [OF "1.prems"(1) w1]
    obtain q where q: "read_next_part pkt start len p1 l1 = Some q" by auto
    show ?thesis
    proof (cases go)
      case False
      with c True show ?thesis by (subst copy_loop.simps) simp
    next
      case go: True
      show ?thesis
      proof (cases q)
        case (Part_More n p3 l3)
        with q have more: "read_next_part pkt start len p1 l1 = Some (Part_More n p3 l3)" by simp
        have "in_window start len p3 l3"
          by (rule read_next_part_window [OF more "1.prems"(1) w1])
        with "1.IH" "1.prems"(1) m more c go True show ?thesis
          by (subst copy_loop.simps) (auto simp: Let_def)
      qed (use m q c go True in \<open>subst copy_loop.simps, simp add: Let_def\<close>)+
    qed
  qed
qed

lemma options_parse_multiple_no_fault:
  assumes "window pkt p left"
  shows "options_parse_multiple_options ok pkt p left dst dlen option optlen nreq \<noteq> None"
proof -
  have w: "in_window p left p left" by (simp add: in_window_def)
  from count_needed_loop_no_fault [OF assms w, of option optlen 0]
  obtain needed where "options_count_needed_memory pkt p left option optlen = Some needed"
    by (auto simp: options_count_needed_memory_def)
  moreover from copy_loop_no_fault [OF assms w, of option needed optlen 0 "[]"]
  obtain r where "copy_loop pkt p left option needed p left optlen 0 [] = Some r" by auto
  ultimately show ?thesis
    by (auto simp: options_parse_multiple_options_def Let_def split: prod.splits)
qed


section \<open>The option loop\<close>

definition good_state :: "nat \<Rightarrow> parse_state \<Rightarrow> bool" where
  "good_state len st \<longleftrightarrow> in_window 0 len (ps_pos st) (ps_left st)"

lemma options_parse_uint_no_fault:
  "p + n \<le> length pkt \<Longrightarrow> options_parse_uint pkt p n v \<noteq> None"
  by (induction pkt p n v rule: options_parse_uint.induct) (auto simp: read_simps)

lemma parse_uint_case_no_fault:
  assumes "ps_pos st + optlen \<le> length pkt"
  shows "parse_uint_case pkt optlen maxlen present set_value st \<noteq> None"
  using options_parse_uint_no_fault [OF assms, of 0]
  by (auto simp: parse_uint_case_def)

lemma parse_opaque_case_no_fault:
  assumes "ps_pos st + optlen \<le> length pkt"
  shows "parse_opaque_case ok pkt len optlen maxlen present set_len set_ptr st \<noteq> None"
  using assms by (auto simp: parse_opaque_case_def Let_def read_simps split: prod.splits)

lemma parse_multiple_case_no_fault:
  assumes "window pkt (ps_pos st) (ps_left st)"
  shows "parse_multiple_case ok pkt option optlen present dst dlen set_value st \<noteq> None"
  using options_parse_multiple_no_fault [OF assms, of ok dst dlen option optlen "ps_nreq st"]
  by (auto simp: parse_multiple_case_def Let_def split: prod.splits)

lemmas parse_case_no_fault =
  parse_uint_case_no_fault parse_opaque_case_no_fault parse_multiple_case_no_fault

lemma parse_list_option_no_fault:
  assumes "ps_pos st + optlen \<le> length pkt" "window pkt (ps_pos st) (ps_left st)"
  shows "parse_list_option ok pkt len number optlen opts st \<noteq> None"
  unfolding parse_list_option_def
  using parse_uint_case_no_fault [OF assms(1)] parse_opaque_case_no_fault [OF assms(1)]
    parse_multiple_case_no_fault [OF assms(2)]
  by (simp split: if_split)

lemma parse_option_value_no_fault:
  assumes "ps_pos st + optlen \<le> length pkt" "window pkt (ps_pos st) (ps_left st)"
    and "number \<in> set options_in_list \<longrightarrow> options_list_ptr (ps_msg st) \<noteq> None"
  shows "parse_option_value ok pkt len number optlen st \<noteq> None"
  unfolding parse_option_value_def
  using assms(3) parse_uint_case_no_fault [OF assms(1)] parse_multiple_case_no_fault [OF assms(2)]
    parse_list_option_no_fault [OF assms(1,2)]
  by (auto split: if_split)

lemma read_option_header_no_fault:
  assumes "window pkt 0 len" "in_window 0 len p left"
  shows "read_option_header pkt len b p prev \<noteq> None"
proof -
  have nf: "\<And>n q l. parse_ext_option n pkt q 0 len l \<noteq> None"
    using parse_ext_option_no_fault [OF assms(1)] by simp
  then show ?thesis
    by (simp add: read_option_header_def del: not_None_eq split: option.split prod.split)
qed

lemma read_option_header_window:
  assumes "read_option_header pkt len b p prev = Some (Some (number, optlen, p3, left3))"
    and "window pkt 0 len" "in_window 0 len p left"
  shows "in_window 0 len p3 left3"
proof -
  obtain p1 l1 where m: "move_packet_ptr p 0 len 1 = (p1, l1)"
    by (cases "move_packet_ptr p 0 len 1")
  note w1 = part_window [OF m assms(2,3)]
  from assms(1) m obtain n0 n1 n2 p2 l2 where
      x1: "parse_ext_option n0 pkt p1 0 len l1 = Some (Some (n1, p2, l2))"
    and x2: "parse_ext_option n2 pkt p2 0 len l2 = Some (Some (optlen, p3, left3))"
    by (auto simp: read_option_header_def simp del: One_nat_def
        split: option.split_asm prod.split_asm)
  note w2 = parse_ext_option_window (1) [OF x1 assms(2) w1]
  show ?thesis by (rule parse_ext_option_window (1) [OF x2 assms(2) w2])
qed

lemma alloc_options_non_null:
  "alloc_options ok nreq m = (True, m', nreq') \<Longrightarrow> options_list_ptr m' \<noteq> None"
  by (auto simp: alloc_options_def split: option.splits if_splits)

lemma parse_one_option_no_fault:
  assumes "window pkt 0 len" "good_state len st"
  shows "parse_one_option ok pkt len b st \<noteq> None"
proof -
  from assms(2) have w: "in_window 0 len (ps_pos st) (ps_left st)" by (simp add: good_state_def)
  from read_option_header_no_fault [OF assms(1) w]
  obtain h where h: "read_option_header pkt len b (ps_pos st) (ps_prev st) = Some h" by auto
  show ?thesis
  proof (cases h)
    case None
    with h show ?thesis by (simp add: parse_one_option_def)
  next
    case (Some t)
    then obtain number optlen p3 left3 where t: "h = Some (number, optlen, p3, left3)"
      by (cases t) auto
    note w3 = read_option_header_window [OF h [unfolded t] assms(1) w]
    obtain al m nreq' where
      al: "(if number \<in> set options_in_list then alloc_options ok (ps_nreq st) (ps_msg st)
        else (True, ps_msg st, ps_nreq st)) = (al, m, nreq')"
      by (rule prod_cases3)
    let ?st1 = "st\<lparr>ps_pos := p3, ps_left := left3, ps_prev := u8_wrap number,
              ps_msg := m, ps_nreq := nreq'\<rparr>"
    have "parse_option_value ok pkt len number optlen ?st1 \<noteq> None" if "al" "\<not> left3 < optlen"
    proof (rule parse_option_value_no_fault)
      show "ps_pos ?st1 + optlen \<le> length pkt"
        using w3 that assms(1) by (auto simp: in_window_def window_def)
      show "window pkt (ps_pos ?st1) (ps_left ?st1)"
        using w3 assms(1) by (auto simp: in_window_def window_def)
      show "number \<in> set options_in_list \<longrightarrow> options_list_ptr (ps_msg ?st1) \<noteq> None"
        using al that alloc_options_non_null by auto
    qed
    then show ?thesis
      by (auto simp: parse_one_option_def h t al Let_def split: option.splits prod.splits)
  qed
qed

lemma parse_one_option_good:
  assumes "parse_one_option ok pkt len b st = Some (0, st')" "len < 65536"
  shows "good_state len st'"
  using assms(1)
proof (cases rule: parse_one_option_okE)
  case (1 number optlen p3 left3 m nreq' st1 st2)
  then show ?thesis
    using assms(2) by (auto simp: good_state_def in_window_def window_simps)
qed

lemma options_loop_no_fault:
  "window pkt 0 len \<Longrightarrow> good_state len st \<Longrightarrow> options_loop ok pkt len st \<noteq> None"
proof (induction ok pkt len st rule: options_loop.induct)
  case (1 ok pkt len st)
  show ?case
  proof (cases "ps_left st = 0")
    case True
    then show ?thesis by (subst options_loop.simps) simp
  next
    case False
    with "1.prems" have rd: "rd pkt (ps_pos st) = Some (pkt ! ps_pos st)"
      by (auto simp: good_state_def in_window_def window_def read_simps)
    from parse_one_option_no_fault [OF "1.prems", of ok "pkt ! ps_pos st"]
    obtain r st' where p: "parse_one_option ok pkt len (pkt ! ps_pos st) st = Some (r, st')"
      by auto
    show ?thesis
    proof (cases "r = 0 \<and> pkt ! ps_pos st \<noteq> 0xFF")
      case True
      with p "1.prems"(1) have "good_state len st'"
        by (auto intro: parse_one_option_good simp: window_def)
      with "1.IH" [OF False rd _ p] True False rd p "1.prems"(1) show ?thesis
        by (subst options_loop.simps) auto
    next
      case False
      with rd p show ?thesis by (subst options_loop.simps) auto
    qed
  qed
qed

lemma options_loop_good:
  "options_loop ok pkt len st = Some (0, st') \<Longrightarrow> len < 65536 \<Longrightarrow> good_state len st \<Longrightarrow>
   good_state len st'"
proof (induction ok pkt len st rule: options_loop.induct)
  case (1 ok pkt len st)
  from "1.prems"(1) show ?case
    by (subst (asm) options_loop.simps)
      (use "1.IH" "1.prems"(2,3) parse_one_option_good in
        \<open>auto split: if_splits option.splits prod.splits\<close>)
qed


section \<open>The whole parser\<close>

lemma options_parse_no_fault:
  assumes w: "window pkt 0 len" and p: "p \<le> len" and ne: "0 < len"
  shows "options_parse ok pkt len p m nreq \<noteq> None"
proof -
  from w have len: "len < 65536" "len \<le> length pkt" by (auto simp: window_def)
  have rd0: "rd pkt 0 = Some (pkt ! 0)" using len ne by (cases pkt) (auto simp: rd_def)
  have good: "good_state len \<lparr>ps_pos = q, ps_left = len - q, ps_prev = 0, ps_msg = m', ps_nreq = n\<rparr>"
    if "q \<le> len" for q m' n
    using that by (simp add: good_state_def in_window_def)
  have nf: "options_loop ok pkt len
      \<lparr>ps_pos = q, ps_left = len - q, ps_prev = 0, ps_msg = m', ps_nreq = n\<rparr> \<noteq> None"
    if "q \<le> len" for q m' n
    by (rule options_loop_no_fault [OF w good [OF that]])
  show ?thesis
    using nf len p
    by (auto simp: options_parse_def rd0 Let_def window_simps read_simps simp del: not_None_eq)
qed

lemma header_parse_no_fault:
  "4 \<le> length pkt \<Longrightarrow> \<exists>m' v. header_parse pkt 0 m = Some (4, m', v)"
  by (cases pkt) (auto simp: header_parse_def rd_def)

lemma payload_parse_no_fault: "len \<le> length pkt \<Longrightarrow> payload_parse pkt len p m \<noteq> None"
  by (simp add: payload_parse_def Let_def read_simps)

text \<open>
  Property C2. Memory safety of the CoAP parser: for every received packet of at most 65535
  bytes and every behaviour of the application's allocator, \<open>sn_coap_parser\<close> never reads
  outside the packet, never writes outside a block it allocated, never dereferences a NULL
  options list, and returns.
\<close>

theorem sn_coap_parser_memory_safe:
  assumes "len \<le> length pkt" "len < 65536"
  shows "sn_coap_parser ok nreq len (Some pkt) \<noteq> None"
proof (cases "len < 4 \<or> \<not> ok nreq")
  case True
  then show ?thesis by (auto simp: sn_coap_parser_def alloc_message_def)
next
  case False
  with assms obtain m' v where h: "header_parse pkt 0 init_message = Some (4, m', v)"
    using header_parse_no_fault [of pkt init_message] by auto
  have "window pkt 0 len" using assms by (simp add: window_def)
  with False obtain r st where o: "options_parse ok pkt len 4 m' (Suc nreq) = Some (r, st)"
    using options_parse_no_fault [of pkt len 4 ok m' "Suc nreq"] by auto
  obtain r' m2 where "payload_parse pkt len (ps_pos st) (ps_msg st) = Some (r', m2)"
    using payload_parse_no_fault [OF assms(1)] by fastforce
  with False h o show ?thesis
    by (simp add: sn_coap_parser_def alloc_message_def Let_def)
qed

theorem sn_coap_parser_memory_safe_witness:
  "sn_coap_parser (\<lambda>_. True) 0 9 (Some [0x44, 0x01, 0x12, 0x34, 0xAA, 0xBB, 0xCC, 0xDD, 0xB3])
     \<noteq> None"
  by (rule sn_coap_parser_memory_safe) simp_all

end
