(* ===== verification/Coap_Builder.thy ===== *)
theory Coap_Builder
  imports Coap_Header
begin

text \<open>
  The CoAP message builder, \<open>mbed-coap/source/sn_coap_builder.c\<close>.

  Functions keep their C names without the prefix \<open>sn_coap_builder_\<close>. The destination is the
  list of bytes written so far: the C code appends through \<open>*dst_packet_data_pptr\<close> and trusts
  the caller for the room, so memory safety of the writes is the theorem that the number of
  bytes written is the size \<open>calc_needed_packet_data_size_2\<close> announced. A read outside a
  source block is None.

  The compile-time switch \<open>SN_COAP_BLOCKWISE_ENABLED || SN_COAP_MAX_BLOCKWISE_PAYLOAD_SIZE\<close>
  is the parameter \<open>blockwise\<close> and \<open>SN_COAP_MAX_NONBLOCKWISE_PAYLOAD_SIZE\<close> is \<open>max_nonblock\<close>.
\<close>

definition u32_of_int :: "int \<Rightarrow> nat" where
  "u32_of_int v = nat (v mod 4294967296)"

section \<open>The parts of a repeatable option\<close>

definition char_to_search :: "nat \<Rightarrow> u8" where
  "char_to_search option =
     (if option = COAP_OPTION_URI_PATH \<or> option = COAP_OPTION_LOCATION_PATH then 0x2F else 0x26)"

fun part_count_loop :: "bytes \<Rightarrow> u8 \<Rightarrow> nat \<Rightarrow> nat \<Rightarrow> nat \<Rightarrow> nat option" where
  "part_count_loop q ch i 0 acc = Some acc"
| "part_count_loop q ch i (Suc n) acc =
     (case rd q i of
        None \<Rightarrow> None
      | Some b \<Rightarrow> part_count_loop q ch (i + 1) n (if b = ch then u8_wrap (acc + 1) else acc))"

text \<open>The loop runs over the indices 1 to \<open>query_len - 2\<close>.\<close>

definition get_option_part_count :: "nat \<Rightarrow> bytes \<Rightarrow> nat \<Rightarrow> nat option" where
  "get_option_part_count qlen q option =
     map_option (\<lambda>c. u8_wrap (c + 1)) (part_count_loop q (char_to_search option) 1 (qlen - 2) 0)"

fun part_length_loop ::
  "bytes \<Rightarrow> u8 \<Rightarrow> nat \<Rightarrow> nat \<Rightarrow> nat \<Rightarrow> nat \<Rightarrow> nat \<Rightarrow> nat option" where
  "part_length_loop q ch i 0 idx cur plen = Some plen"
| "part_length_loop q ch i (Suc n) idx cur plen =
     (case rd q i of
        None \<Rightarrow> None
      | Some b \<Rightarrow>
          if b = ch \<and> plen > 0 then
            (if cur = idx then Some plen
             else part_length_loop q ch (i + 1) n idx (u8_wrap (cur + 1)) 0)
          else if b \<noteq> ch then part_length_loop q ch (i + 1) n idx cur (u16_wrap (plen + 1))
          else part_length_loop q ch (i + 1) n idx cur plen)"

definition get_option_part_length :: "nat \<Rightarrow> bytes \<Rightarrow> nat \<Rightarrow> nat \<Rightarrow> nat option" where
  "get_option_part_length qlen q idx option =
     part_length_loop q (char_to_search option) 0 qlen idx 0 0"

text \<open>
  The C function returns an \<open>int16_t\<close> that its caller stores in an \<open>uint16_t\<close>; the result here
  is the stored value, so the failure value -1 is 65535.
\<close>

fun part_position_loop :: "bytes \<Rightarrow> u8 \<Rightarrow> nat \<Rightarrow> nat \<Rightarrow> nat \<Rightarrow> nat \<Rightarrow> nat \<Rightarrow> nat option" where
  "part_position_loop q ch i 0 idx cur off = Some 65535"
| "part_position_loop q ch i (Suc n) idx cur off =
     (case rd q i of
        None \<Rightarrow> None
      | Some b \<Rightarrow>
          if b = ch \<and> off > 0 then
            (if cur + 1 = idx then Some (u16_wrap (off + 1))
             else part_position_loop q ch (i + 1) n idx (u8_wrap (cur + 1)) (u16_wrap (off + 1)))
          else part_position_loop q ch (i + 1) n idx cur (u16_wrap (off + 1)))"

definition get_option_part_position :: "nat \<Rightarrow> bytes \<Rightarrow> nat \<Rightarrow> nat \<Rightarrow> nat option" where
  "get_option_part_position qlen q idx option =
     (if idx = 0 then
        (case rd q 0 of
           None \<Rightarrow> None
         | Some b \<Rightarrow> Some (if b = 0 \<or> b = char_to_search option then 1 else 0))
      else part_position_loop q (char_to_search option) 0 qlen idx 0 0)"

section \<open>Writing one option\<close>

text \<open>
  The source pointer is a block and an offset into it. The result is the destination and
  \<open>*previous_option_number\<close>.
\<close>

definition options_build_add_one_option ::
  "bytes \<Rightarrow> nat \<Rightarrow> bytes option \<Rightarrow> nat \<Rightarrow> nat \<Rightarrow> nat \<Rightarrow> (bytes \<times> nat) option" where
  "options_build_add_one_option out option_len ptr off number prev =
     (case ptr of
        None \<Rightarrow> Some (out, prev)
      | Some block \<Rightarrow>
          let delta = u16_wrap (number + 65536 - prev);
              first_byte = (if option_len \<le> 12 then option_len
                            else if option_len < 269 then 0x0D else 0x0E);
              delta_bytes =
                (if delta \<le> 12 then [byte_of (first_byte + delta * 16)]
                 else if delta < 269 then [byte_of (first_byte + 0xD0), byte_of (delta - 13)]
                 else [byte_of (first_byte + 0xE0), byte_of ((delta - 269) div 256),
                       byte_of (delta - 269)]);
              len_bytes =
                (if option_len > 12 \<and> option_len < 269 then [byte_of (option_len - 13)]
                 else if option_len \<ge> 269
                 then [byte_of ((option_len - 269) div 256), byte_of (option_len - 269)]
                 else []) in
          (case rd_block block off option_len of
             None \<Rightarrow> None
           | Some value \<Rightarrow> Some (out @ delta_bytes @ len_bytes @ value, number)))"

text \<open>The four iterations that build the payload of an unsigned option.\<close>

fun uint_payload :: "nat \<Rightarrow> nat \<Rightarrow> bytes \<Rightarrow> bytes" where
  "uint_payload 0 value payload = payload"
| "uint_payload (Suc n) value payload =
     uint_payload n (u32_wrap (value * 256))
       (if payload \<noteq> [] \<or> value div 16777216 mod 256 \<noteq> 0
        then payload @ [byte_of (value div 16777216)] else payload)"

definition uint_option_size :: "nat \<Rightarrow> nat" where
  "uint_option_size value = 1 + length (uint_payload 4 value [])"

definition options_build_add_uint_option ::
  "bytes \<Rightarrow> nat \<Rightarrow> nat \<Rightarrow> nat \<Rightarrow> (bytes \<times> nat) option" where
  "options_build_add_uint_option out value number prev =
     (let payload = uint_payload 4 value [] in
      options_build_add_one_option out (length payload) (Some payload) 0 number prev)"

text \<open>\<open>n\<close> is the number of iterations left, \<open>i\<close> the index of the part.\<close>

fun add_parts_loop ::
  "bytes \<Rightarrow> bytes \<Rightarrow> nat \<Rightarrow> nat \<Rightarrow> nat \<Rightarrow> nat \<Rightarrow> nat \<Rightarrow> (bytes \<times> nat) option" where
  "add_parts_loop out q qlen option i 0 prev = Some (out, prev)"
| "add_parts_loop out q qlen option i (Suc n) prev =
     (case (get_option_part_length qlen q i option, get_option_part_position qlen q i option) of
        (Some plen, Some off) \<Rightarrow>
          (case options_build_add_one_option out plen (Some q) off option prev of
             None \<Rightarrow> None
           | Some (out', prev') \<Rightarrow> add_parts_loop out' q qlen option (i + 1) n prev')
      | _ \<Rightarrow> None)"

definition options_build_add_multiple_option ::
  "bytes \<Rightarrow> bytes option \<Rightarrow> nat \<Rightarrow> nat \<Rightarrow> nat \<Rightarrow> (bytes \<times> nat) option" where
  "options_build_add_multiple_option out src src_len option prev =
     (case src of
        None \<Rightarrow> Some (out, prev)
      | Some q \<Rightarrow>
          (case get_option_part_count src_len q option of
             None \<Rightarrow> None
           | Some n \<Rightarrow> add_parts_loop out q src_len option 0 n prev))"


section \<open>Sizes\<close>

text \<open>
  A size computation yields None for a read outside a block, Some None where the C function
  returns 0 for an invalid value, and Some (Some n) for n bytes.
\<close>

definition part_length_valid :: "nat \<Rightarrow> nat \<Rightarrow> bool" where
  "part_length_valid option n \<longleftrightarrow>
     (if option = COAP_OPTION_ETAG then 1 \<le> n \<and> n \<le> 8
      else if option = COAP_OPTION_LOCATION_PATH \<or> option = COAP_OPTION_URI_PATH
              \<or> option = COAP_OPTION_LOCATION_QUERY then n \<le> 255
      else if option = COAP_OPTION_URI_QUERY then 1 \<le> n \<and> n \<le> 255
      else True)"

definition part_header_size :: "nat \<Rightarrow> nat" where
  "part_header_size n =
     (if n \<le> 12 then 1
      else if 13 \<le> n \<and> n < 269 then 2
      else if 270 \<le> n \<and> n < 1034 then 3
      else 0)"

fun calc_option_size_loop :: "nat \<Rightarrow> bytes \<Rightarrow> nat \<Rightarrow> nat \<Rightarrow> nat \<Rightarrow> nat \<Rightarrow> nat option" where
  "calc_option_size_loop qlen q option i 0 ret = Some ret"
| "calc_option_size_loop qlen q option i (Suc n) ret =
     (case get_option_part_length qlen q i option of
        None \<Rightarrow> None
      | Some plen \<Rightarrow>
          if \<not> part_length_valid option plen then Some 0
          else calc_option_size_loop qlen q option (i + 1) n
                 (u16_wrap (u16_wrap (ret + part_header_size plen) + plen)))"

definition options_calc_option_size :: "nat \<Rightarrow> bytes \<Rightarrow> nat \<Rightarrow> nat option" where
  "options_calc_option_size qlen q option =
     (case get_option_part_count qlen q option of
        None \<Rightarrow> None
      | Some n \<Rightarrow> calc_option_size_loop qlen q option 0 n 0)"

definition repeatable_size :: "bytes option \<Rightarrow> nat \<Rightarrow> nat \<Rightarrow> nat option option" where
  "repeatable_size ptr len option =
     (case ptr of
        None \<Rightarrow> Some (Some 0)
      | Some q \<Rightarrow>
          (case options_calc_option_size len q option of
             None \<Rightarrow> None
           | Some n \<Rightarrow> Some (if n \<noteq> 0 then Some n else None)))"

text \<open>An unsigned option that is present unless it has the value \<open>none\<close>.\<close>

definition uint_size :: "int \<Rightarrow> int \<Rightarrow> nat \<Rightarrow> nat option option" where
  "uint_size v none maximum =
     (if v = none then Some (Some 0)
      else if u32_of_int v > maximum then Some None
      else Some (Some (uint_option_size (u32_of_int v))))"

definition token_size :: "coap_hdr \<Rightarrow> nat option option" where
  "token_size m =
     (if token_ptr m = None then Some (Some 0)
      else if token_len m > 8 \<or> token_len m < 1 then Some None
      else Some (Some (token_len m)))"

definition max_age_size :: "coap_options \<Rightarrow> nat option option" where
  "max_age_size opts =
     Some (Some (if max_age opts \<noteq> COAP_OPTION_MAX_AGE_DEFAULT
                 then uint_option_size (max_age opts) else 0))"

definition proxy_uri_size :: "coap_options \<Rightarrow> nat option option" where
  "proxy_uri_size opts =
     (let n = proxy_uri_len opts in
      if proxy_uri_ptr opts = None then Some (Some 0)
      else if 1 \<le> n \<and> n \<le> 12 then Some (Some (1 + n))
      else if 13 \<le> n \<and> n \<le> 269 then Some (Some (2 + n))
      else if 270 \<le> n \<and> n \<le> 1034 then Some (Some (3 + n))
      else Some None)"

definition uri_host_size :: "coap_options \<Rightarrow> nat option option" where
  "uri_host_size opts =
     (let n = uri_host_len opts in
      if uri_host_ptr opts = None then Some (Some 0)
      else if 0 < n \<and> n \<le> 12 then Some (Some (1 + n))
      else if 13 \<le> n \<and> n \<le> 255 then Some (Some (2 + n))
      else Some None)"

definition size1_size :: "coap_options \<Rightarrow> nat option option" where
  "size1_size opts = Some (Some (if use_size1 opts then uint_option_size (size1 opts) else 0))"

definition size2_size :: "coap_options \<Rightarrow> nat option option" where
  "size2_size opts = Some (Some (if use_size2 opts then uint_option_size (size2 opts) else 0))"

text \<open>The contributions of the options list, in the order the code adds them.\<close>

definition options_list_sizes :: "coap_options \<Rightarrow> nat option option list" where
  "options_list_sizes opts =
     [uint_size (accept opts) COAP_CT_NONE 0xffff,
      max_age_size opts,
      proxy_uri_size opts,
      repeatable_size (etag_ptr opts) (etag_len opts) COAP_OPTION_ETAG,
      uri_host_size opts,
      repeatable_size (location_path_ptr opts) (location_path_len opts) COAP_OPTION_LOCATION_PATH,
      uint_size (uri_port opts) COAP_OPTION_URI_PORT_NONE 0xffff,
      repeatable_size (location_query_ptr opts) (location_query_len opts) COAP_OPTION_LOCATION_QUERY,
      uint_size (observe opts) COAP_OBSERVE_NONE 0xffffff,
      repeatable_size (uri_query_ptr opts) (uri_query_len opts) COAP_OPTION_URI_QUERY,
      uint_size (block1 opts) COAP_OPTION_BLOCK_NONE 0xffffff,
      size1_size opts,
      uint_size (block2 opts) COAP_OPTION_BLOCK_NONE 0xffffff,
      size2_size opts]"

text \<open>Add contributions from left to right; the first failure is the result.\<close>

fun add_sizes :: "nat option option list \<Rightarrow> nat \<Rightarrow> nat option option" where
  "add_sizes [] acc = Some (Some acc)"
| "add_sizes (None # ss) acc = None"
| "add_sizes (Some None # ss) acc = Some None"
| "add_sizes (Some (Some n) # ss) acc = add_sizes ss (acc + n)"

text \<open>
  \<open>options_calculate_jump_need\<close>: first the last option number that is not larger than 12, then
  one extra byte for every jump of more than 12 between two present options.
\<close>

fun last_present :: "(bool \<times> nat) list \<Rightarrow> nat \<Rightarrow> nat" where
  "last_present [] prev = prev"
| "last_present ((present, number) # xs) prev = last_present xs (if present then number else prev)"

fun count_jumps :: "(bool \<times> nat) list \<Rightarrow> nat \<Rightarrow> nat \<Rightarrow> nat" where
  "count_jumps [] prev space = space"
| "count_jumps ((present, number) # xs) prev space =
     (if present
      then count_jumps xs number
             (space + (if int number - int prev > 12 then 1 else 0)
                    + (if number = COAP_OPTION_PROXY_URI \<and> int number - int prev > 269 then 1 else 0))
      else count_jumps xs prev space)"

definition options_calculate_jump_need :: "coap_hdr \<Rightarrow> nat" where
  "options_calculate_jump_need m =
     (case options_list_ptr m of
        None \<Rightarrow> 0
      | Some opts \<Rightarrow>
          if uri_query_ptr opts = None \<and> accept opts = COAP_CT_NONE \<and>
             location_query_ptr opts = None \<and> block2 opts = COAP_OPTION_BLOCK_NONE \<and>
             block1 opts = COAP_OPTION_BLOCK_NONE \<and> proxy_uri_ptr opts = None \<and>
             max_age opts = COAP_OPTION_MAX_AGE_DEFAULT \<and> \<not> use_size1 opts \<and> \<not> use_size2 opts
          then 0
          else
            (let prev = last_present
               [(uri_host_ptr opts \<noteq> None, COAP_OPTION_URI_HOST),
                (etag_ptr opts \<noteq> None, COAP_OPTION_ETAG),
                (observe opts \<noteq> COAP_OBSERVE_NONE, COAP_OPTION_OBSERVE),
                (uri_port opts \<noteq> COAP_OPTION_URI_PORT_NONE, COAP_OPTION_URI_PORT),
                (location_path_ptr opts \<noteq> None, COAP_OPTION_LOCATION_PATH),
                (uri_path_ptr m \<noteq> None, COAP_OPTION_URI_PATH),
                (content_format m \<noteq> COAP_CT_NONE, COAP_OPTION_CONTENT_FORMAT)] 0 in
             count_jumps
               [(max_age opts \<noteq> COAP_OPTION_MAX_AGE_DEFAULT, COAP_OPTION_MAX_AGE),
                (uri_query_ptr opts \<noteq> None, COAP_OPTION_URI_QUERY),
                (accept opts \<noteq> COAP_CT_NONE, COAP_OPTION_ACCEPT),
                (location_query_ptr opts \<noteq> None, COAP_OPTION_LOCATION_QUERY),
                (block2 opts \<noteq> COAP_OPTION_BLOCK_NONE, COAP_OPTION_BLOCK2),
                (block1 opts \<noteq> COAP_OPTION_BLOCK_NONE, COAP_OPTION_BLOCK1),
                (use_size2 opts, COAP_OPTION_SIZE2),
                (proxy_uri_ptr opts \<noteq> None, COAP_OPTION_PROXY_URI),
                (use_size1 opts, COAP_OPTION_SIZE1)] prev 0))"

definition payload_size :: "bool \<Rightarrow> nat \<Rightarrow> nat \<Rightarrow> coap_hdr \<Rightarrow> nat" where
  "payload_size blockwise max_nonblock block_size m =
     (if blockwise \<and> payload_len m > max_nonblock \<and> payload_len m > block_size \<and> block_size > 0
      then block_size else payload_len m)
     + (if payload_len m \<noteq> 0 then 1 else 0)"

text \<open>\<open>calc_needed_packet_data_size_2\<close>: None is a bad read, Some 0 the failure result.\<close>

definition calc_needed_packet_data_size_2 :: "bool \<Rightarrow> nat \<Rightarrow> coap_hdr \<Rightarrow> nat \<Rightarrow> nat option" where
  "calc_needed_packet_data_size_2 blockwise max_nonblock m block_size =
     (if msg_type m = COAP_MSG_TYPE_RESET then Some 4
      else case add_sizes
          ([token_size m,
            repeatable_size (uri_path_ptr m) (uri_path_len m) COAP_OPTION_URI_PATH,
            uint_size (content_format m) COAP_CT_NONE 0xffff]
           @ (case options_list_ptr m of None \<Rightarrow> [] | Some opts \<Rightarrow> options_list_sizes opts)) 4 of
        None \<Rightarrow> None
      | Some None \<Rightarrow> Some 0
      | Some (Some n) \<Rightarrow>
          let count = n + payload_size blockwise max_nonblock block_size m
                        + options_calculate_jump_need m in
          if count > 65535 then Some 0 else Some count)"


section \<open>Building the packet\<close>

text \<open>None where the validity check fails and the C function returns -1.\<close>

definition header_build :: "coap_hdr \<Rightarrow> bytes option" where
  "header_build m =
     (if sn_coap_header_validity_check m COAP_VERSION \<noteq> 0 then None
      else Some [byte_of COAP_VERSION OR byte_of (msg_type m) OR byte_of (token_len m),
                 byte_of (msg_code m), byte_of (msg_id m div 256), byte_of (msg_id m)])"

text \<open>The writers that follow one another in \<open>options_build\<close>.\<close>

type_synonym option_writer = "bytes \<times> nat \<Rightarrow> (bytes \<times> nat) option"

definition write_uint_if :: "bool \<Rightarrow> nat \<Rightarrow> nat \<Rightarrow> option_writer" where
  "write_uint_if present value number =
     (\<lambda>(out, prev). if present then options_build_add_uint_option out value number prev
                    else Some (out, prev))"

definition write_one :: "nat \<Rightarrow> bytes option \<Rightarrow> nat \<Rightarrow> option_writer" where
  "write_one len ptr number =
     (\<lambda>(out, prev). options_build_add_one_option out len ptr 0 number prev)"

definition write_multiple :: "bytes option \<Rightarrow> nat \<Rightarrow> nat \<Rightarrow> option_writer" where
  "write_multiple ptr len number =
     (\<lambda>(out, prev). options_build_add_multiple_option out ptr len number prev)"

fun run_writers :: "option_writer list \<Rightarrow> option_writer" where
  "run_writers [] s = Some s"
| "run_writers (w # ws) s = (case w s of None \<Rightarrow> None | Some s' \<Rightarrow> run_writers ws s')"

definition early_option_writers :: "coap_options \<Rightarrow> option_writer list" where
  "early_option_writers opts =
     [write_one (uri_host_len opts) (uri_host_ptr opts) COAP_OPTION_URI_HOST,
      write_multiple (etag_ptr opts) (etag_len opts) COAP_OPTION_ETAG,
      write_uint_if (observe opts \<noteq> COAP_OBSERVE_NONE) (u32_of_int (observe opts)) COAP_OPTION_OBSERVE,
      write_uint_if (uri_port opts \<noteq> COAP_OPTION_URI_PORT_NONE) (u32_of_int (uri_port opts))
        COAP_OPTION_URI_PORT,
      write_multiple (location_path_ptr opts) (location_path_len opts) COAP_OPTION_LOCATION_PATH]"

definition late_option_writers :: "coap_options \<Rightarrow> option_writer list" where
  "late_option_writers opts =
     [write_uint_if (max_age opts \<noteq> COAP_OPTION_MAX_AGE_DEFAULT) (max_age opts) COAP_OPTION_MAX_AGE,
      write_multiple (uri_query_ptr opts) (uri_query_len opts) COAP_OPTION_URI_QUERY,
      write_uint_if (accept opts \<noteq> COAP_CT_NONE) (u32_of_int (accept opts)) COAP_OPTION_ACCEPT,
      write_multiple (location_query_ptr opts) (location_query_len opts) COAP_OPTION_LOCATION_QUERY,
      write_uint_if (block2 opts \<noteq> COAP_OPTION_BLOCK_NONE) (u32_of_int (block2 opts))
        COAP_OPTION_BLOCK2,
      write_uint_if (block1 opts \<noteq> COAP_OPTION_BLOCK_NONE) (u32_of_int (block1 opts))
        COAP_OPTION_BLOCK1,
      write_uint_if (use_size2 opts) (size2 opts) COAP_OPTION_SIZE2,
      write_one (proxy_uri_len opts) (proxy_uri_ptr opts) COAP_OPTION_PROXY_URI,
      write_uint_if (use_size1 opts) (size1 opts) COAP_OPTION_SIZE1]"

definition all_option_writers :: "coap_hdr \<Rightarrow> option_writer list" where
  "all_option_writers m =
     (case options_list_ptr m of None \<Rightarrow> [] | Some opts \<Rightarrow> early_option_writers opts)
     @ [write_multiple (uri_path_ptr m) (uri_path_len m) COAP_OPTION_URI_PATH,
        write_uint_if (content_format m \<noteq> COAP_CT_NONE) (u32_of_int (content_format m))
          COAP_OPTION_CONTENT_FORMAT]
     @ (case options_list_ptr m of None \<Rightarrow> [] | Some opts \<Rightarrow> late_option_writers opts)"

text \<open>
  \<open>options_build\<close>. A token length without a token pointer advances the destination over
  bytes that \<open>sn_coap_builder_2\<close> may have cleared or not; \<open>fill\<close> is the content of those bytes.
\<close>

definition options_build :: "bytes \<Rightarrow> bytes \<Rightarrow> coap_hdr \<Rightarrow> bytes option" where
  "options_build fill out m =
     (if uri_path_ptr m = None \<and> token_ptr m = None \<and> content_format m = COAP_CT_NONE \<and>
         options_list_ptr m = None then Some out
      else case (case token_ptr m of
                   None \<Rightarrow> Some (take (token_len m) (fill @ replicate (token_len m) 0))
                 | Some t \<Rightarrow> rd_block t 0 (token_len m)) of
        None \<Rightarrow> None
      | Some token \<Rightarrow> map_option fst (run_writers (all_option_writers m) (out @ token, 0)))"

definition payload_build :: "bytes \<Rightarrow> coap_hdr \<Rightarrow> bytes option" where
  "payload_build out m =
     (if payload_len m \<noteq> 0 \<and> payload_ptr m \<noteq> None then
        (case rd_block (the (payload_ptr m)) 0 (payload_len m) of
           None \<Rightarrow> None
         | Some payload \<Rightarrow> Some (out @ [0xFF] @ payload))
      else Some out)"

text \<open>
  \<open>sn_coap_builder_2\<close> for non-NULL arguments: the returned \<open>int16_t\<close> and the packet written.
\<close>

definition sn_coap_builder_2 ::
  "bool \<Rightarrow> nat \<Rightarrow> bytes \<Rightarrow> coap_hdr \<Rightarrow> nat \<Rightarrow> (int \<times> bytes) option" where
  "sn_coap_builder_2 blockwise max_nonblock fill m block_size =
     (case calc_needed_packet_data_size_2 blockwise max_nonblock m block_size of
        None \<Rightarrow> None
      | Some needed \<Rightarrow>
          if needed = 0 then Some (-1, [])
          else (case header_build m of
            None \<Rightarrow> Some (-1, [])
          | Some header \<Rightarrow>
              if msg_type m = COAP_MSG_TYPE_RESET then Some (s16_of (length header), header)
              else (case options_build fill header m of
                None \<Rightarrow> None
              | Some out \<Rightarrow>
                  (case payload_build out m of
                     None \<Rightarrow> None
                   | Some packet \<Rightarrow> Some (s16_of (length packet), packet)))))"

definition sn_coap_builder :: "bool \<Rightarrow> nat \<Rightarrow> nat \<Rightarrow> bytes \<Rightarrow> coap_hdr \<Rightarrow> (int \<times> bytes) option" where
  "sn_coap_builder blockwise max_nonblock max_blockwise fill m =
     sn_coap_builder_2 blockwise max_nonblock fill m max_blockwise"

definition calc_needed_packet_data_size :: "bool \<Rightarrow> nat \<Rightarrow> nat \<Rightarrow> coap_hdr \<Rightarrow> nat option" where
  "calc_needed_packet_data_size blockwise max_nonblock max_blockwise m =
     calc_needed_packet_data_size_2 blockwise max_nonblock m max_blockwise"

end
