(* ===== verification/Coap_Wire.thy ===== *)
theory Coap_Wire
  imports Pelion_Prelude
begin

text \<open>
  The wire format of a CoAP option sequence (RFC 7252, section 3.1), as the specification
  that the builder is shown to produce and the parser to invert. A group is an option number
  with the values that carry it, in the order they are sent.
\<close>

definition ext_nibble :: "nat \<Rightarrow> nat" where
  "ext_nibble n = (if n \<le> 12 then n else if n < 269 then 13 else 14)"

definition ext_bytes :: "nat \<Rightarrow> bytes" where
  "ext_bytes n =
     (if n \<le> 12 then []
      else if n < 269 then [byte_of (n - 13)]
      else [byte_of ((n - 269) div 256), byte_of (n - 269)])"

definition encode_option :: "nat \<Rightarrow> bytes \<Rightarrow> bytes" where
  "encode_option delta v =
     byte_of (ext_nibble (length v) + 16 * ext_nibble delta)
       # ext_bytes delta @ ext_bytes (length v) @ v"

text \<open>The values of one group: the first with the jump from \<open>prev\<close>, the others with delta 0.\<close>

fun encode_values :: "nat \<Rightarrow> bytes list \<Rightarrow> bytes" where
  "encode_values delta [] = []"
| "encode_values delta (v # vs) = encode_option delta v @ encode_values 0 vs"

type_synonym group = "nat \<times> bytes list"

fun encode_groups :: "nat \<Rightarrow> group list \<Rightarrow> bytes" where
  "encode_groups prev [] = []"
| "encode_groups prev ((number, vs) # gs) =
     (if vs = [] then encode_groups prev gs
      else encode_values (number - prev) vs @ encode_groups number gs)"

text \<open>
  A repeatable text option is kept as one string: its parts joined by a separator. A list of
  parts is proper when no part is empty and none contains the separator; the builder treats a
  first byte 0 as a separator too.
\<close>

fun join_parts :: "u8 \<Rightarrow> bytes list \<Rightarrow> bytes" where
  "join_parts ch [] = []"
| "join_parts ch [p] = p"
| "join_parts ch (p # q # ps) = p @ ch # join_parts ch (q # ps)"

definition proper_parts :: "u8 \<Rightarrow> bytes list \<Rightarrow> bool" where
  "proper_parts ch ps \<longleftrightarrow>
     ps \<noteq> [] \<and> (\<forall>p \<in> set ps. p \<noteq> [] \<and> ch \<notin> set p) \<and> hd (hd ps) \<noteq> 0"

lemma join_parts_Cons: "join_parts ch (p # ps) = p @ (if ps = [] then [] else ch # join_parts ch ps)"
  by (cases ps) auto

definition ext_size :: "nat \<Rightarrow> nat" where
  "ext_size n = (if n \<le> 12 then 0 else if n < 269 then 1 else 2)"

lemma ext_size_small [simp]: "n \<le> 12 \<Longrightarrow> ext_size n = 0"
  by (simp add: ext_size_def)

lemma length_ext_bytes [simp]: "length (ext_bytes n) = ext_size n"
  by (simp add: ext_bytes_def ext_size_def)

lemma length_encode_option:
  "length (encode_option delta v) = 1 + ext_size delta + ext_size (length v) + length v"
  by (simp add: encode_option_def)

lemma ext_nibble_less: "ext_nibble n < 15"
  by (simp add: ext_nibble_def)

lemma encode_option_nonempty [simp]: "encode_option delta v \<noteq> []"
  by (simp add: encode_option_def)

text \<open>The two nibbles of the first byte, and the byte is never the payload marker.\<close>

lemma encode_option_hd:
  "unat (hd (encode_option delta v)) = ext_nibble (length v) + 16 * ext_nibble delta"
  using ext_nibble_less [of "length v"] ext_nibble_less [of delta]
  by (simp add: encode_option_def)

end
