(* ===== verification/Coap_Builder_Size.thy ===== *)
theory Coap_Builder_Size
  imports Coap_Builder Coap_Wire
begin

text \<open>
  The announced size against the bytes written. \<open>ext_size\<close> is the number of extension bytes of
  an option delta or length. A writer's contract says how many bytes it appends and how it
  moves the previous option number. The contracts of the fifteen option writers add up to
  \<open>calc_needed_packet_data_size_2\<close>, except at the values the last section names.
\<close>

section \<open>Single options\<close>

lemma delta_no_wrap: "prev \<le> number \<Longrightarrow> number < 65536 \<Longrightarrow> u16_wrap (number + 65536 - prev) = number - prev"
proof -
  assume a: "prev \<le> number" "number < 65536"
  then have "number + 65536 - prev = (number - prev) + 65536" by simp
  moreover have "((number - prev) + 65536) mod 65536 = number - prev"
    using a(2) by (simp only: mod_add_self2) simp
  ultimately show ?thesis by (simp only: u16_wrap_def)
qed

lemma add_one_option_encode:
  assumes "prev \<le> number" "number < 65536"
  shows "options_build_add_one_option out len (Some q) off number prev =
           map_option (\<lambda>v. (out @ encode_option (number - prev) v, number)) (rd_block q off len)"
proof (cases "rd_block q off len")
  case None
  then show ?thesis by (simp add: options_build_add_one_option_def)
next
  case (Some v)
  then have len: "length v = len" by (rule rd_block_length)
  define d where "d = number - prev"
  have d: "u16_wrap (number + 65536 - prev) = d"
    using delta_no_wrap [OF assms] by (simp add: d_def)
  consider "d \<le> 12" | "12 < d" "d < 269" | "269 \<le> d" by linarith
  then show ?thesis
    by cases (simp_all add: options_build_add_one_option_def Let_def d Some encode_option_def
        ext_nibble_def ext_bytes_def len mult.commute flip: d_def)
qed

lemma add_one_option_size:
  assumes "options_build_add_one_option out len (Some q) off number prev = Some (out', prev')"
    and "prev \<le> number" "number < 65536"
  shows "prev' = number \<and>
    length out' = length out + 1 + ext_size (number - prev) + ext_size len + len"
  using assms(1) unfolding add_one_option_encode [OF assms(2,3)]
  by (auto simp: length_encode_option dest: rd_block_length)

lemma add_one_option_none [simp]:
  "options_build_add_one_option out len None off number prev = Some (out, prev)"
  by (simp add: options_build_add_one_option_def)

lemma uint_payload_length: "length (uint_payload n v p) \<le> length p + n"
  by (induction n v p rule: uint_payload.induct) auto

lemma uint_payload_4_length: "length (uint_payload 4 v []) \<le> 4"
  using uint_payload_length [of 4 v "[]"] by simp

lemma add_uint_option_size:
  assumes "options_build_add_uint_option out v number prev = Some (out', prev')"
    and "prev \<le> number" "number < 65536"
  shows "prev' = number \<and>
    length out' = length out + uint_option_size v + ext_size (number - prev)"
  using add_one_option_size [OF assms(1) [unfolded options_build_add_uint_option_def Let_def]
      assms(2,3)] uint_payload_4_length [of v]
  by (simp add: uint_option_size_def)

section \<open>Repeatable options\<close>

lemma part_header_size_eq: "n < 269 \<Longrightarrow> part_header_size n = 1 + ext_size n"
  by (simp add: part_header_size_def ext_size_def)

lemma part_length_valid_small:
  "part_length_valid option n \<Longrightarrow>
   option \<in> {COAP_OPTION_ETAG, COAP_OPTION_LOCATION_PATH, COAP_OPTION_URI_PATH,
     COAP_OPTION_LOCATION_QUERY, COAP_OPTION_URI_QUERY} \<Longrightarrow> n \<le> 255"
  by (auto simp: part_length_valid_def)

text \<open>
  Both loops ask for the same part lengths. A part of at most 255 bytes adds at most 257 to the
  running total, so with at most 255 parts the 16-bit total does not wrap.
\<close>

definition repeatable :: "nat \<Rightarrow> bool" where
  "repeatable option \<longleftrightarrow>
     option \<in> {COAP_OPTION_ETAG, COAP_OPTION_LOCATION_PATH, COAP_OPTION_URI_PATH,
       COAP_OPTION_LOCATION_QUERY, COAP_OPTION_URI_QUERY}"

lemma repeatable_small: "repeatable option \<Longrightarrow> option < 65536"
  by (auto simp: repeatable_def)

lemma calc_loop_total:
  assumes "calc_option_size_loop qlen q option i n ret = Some tot" "tot \<noteq> 0"
    and "repeatable option" "ret + 257 * n < 65536" "prev \<le> option"
    and "add_parts_loop out q qlen option i n prev = Some (out', prev')"
  shows "prev' = (if n = 0 then prev else option) \<and>
    length out' + ret = length out + tot + (if n = 0 then 0 else ext_size (option - prev))"
  using assms
proof (induction n arbitrary: i ret out prev)
  case 0
  then show ?case by simp
next
  case (Suc n)
  from Suc.prems(6) obtain plen off out1 prev1 where
      l: "get_option_part_length qlen q i option = Some plen"
    and a: "options_build_add_one_option out plen (Some q) off option prev = Some (out1, prev1)"
    and r: "add_parts_loop out1 q qlen option (i + 1) n prev1 = Some (out', prev')"
    by (auto split: option.split_asm)
  from Suc.prems(1,2) l have valid: "part_length_valid option plen"
    by (auto split: if_split_asm)
  with Suc.prems(3) have plen: "plen \<le> 255"
    using part_length_valid_small unfolding repeatable_def by blast
  have prev1: "prev1 = option"
    and out1: "length out1 = length out + 1 + ext_size (option - prev) + ext_size plen + plen"
    using add_one_option_size [OF a Suc.prems(5) repeatable_small [OF Suc.prems(3)]] by auto
  let ?ret = "ret + part_header_size plen + plen"
  have hdr: "part_header_size plen = 1 + ext_size plen" "ext_size plen \<le> 1"
    using plen by (auto simp: part_header_size_eq ext_size_def)
  have c: "calc_option_size_loop qlen q option (i + 1) n ?ret = Some tot"
    using Suc.prems(1,4) l valid hdr plen by (simp add: wrap_simps)
  have "prev' = (if n = 0 then option else option) \<and>
      length out' + ?ret = length out1 + tot + (if n = 0 then 0 else ext_size (option - option))"
    by (rule Suc.IH [OF c Suc.prems(2,3)]) (use Suc.prems(4) hdr plen r prev1 in auto)
  with out1 hdr show ?case by auto
qed

lemma calc_option_size_total:
  assumes "options_calc_option_size qlen q option = Some tot" "tot \<noteq> 0" "repeatable option"
    and "options_build_add_multiple_option out (Some q) qlen option prev = Some (out', prev')"
    and "prev \<le> option"
  shows "prev' = option" "length out' = length out + tot + ext_size (option - prev)"
proof -
  from assms obtain n where n: "get_option_part_count qlen q option = Some n"
    and c: "calc_option_size_loop qlen q option 0 n 0 = Some tot"
    and a: "add_parts_loop out q qlen option 0 n prev = Some (out', prev')"
    by (auto simp: options_calc_option_size_def options_build_add_multiple_option_def
        split: option.split_asm)
  have "n < 256" using n by (auto simp: get_option_part_count_def)
  moreover have "n \<noteq> 0" using c assms(2) by (cases n) auto
  ultimately show "prev' = option" "length out' = length out + tot + ext_size (option - prev)"
    using calc_loop_total [OF c assms(2,3) _ assms(5) a] by auto
qed

section \<open>Writer contracts\<close>

definition writer_contract :: "option_writer \<Rightarrow> bool \<Rightarrow> nat \<Rightarrow> nat \<Rightarrow> bool" where
  "writer_contract w present number n \<longleftrightarrow>
     (\<forall>out prev out' prev'. prev \<le> number \<longrightarrow> w (out, prev) = Some (out', prev') \<longrightarrow>
        (if present then prev' = number \<and> length out' = length out + n + ext_size (number - prev)
         else prev' = prev \<and> length out' = length out \<and> n = 0))"

lemma write_uint_contract:
  "number < 65536 \<Longrightarrow>
   writer_contract (write_uint_if present v number) present number
     (if present then uint_option_size v else 0)"
  by (auto simp: writer_contract_def write_uint_if_def dest!: add_uint_option_size)

lemma write_one_contract:
  "number < 65536 \<Longrightarrow>
   writer_contract (write_one len ptr number) (ptr \<noteq> None) number
     (if ptr \<noteq> None then 1 + ext_size len + len else 0)"
  by (cases ptr) (auto simp: writer_contract_def write_one_def dest!: add_one_option_size)

lemma write_multiple_contract:
  assumes "repeatable_size ptr len number = Some (Some n)" "repeatable number"
  shows "writer_contract (write_multiple ptr len number) (ptr \<noteq> None) number n"
proof (cases ptr)
  case None
  with assms show ?thesis
    by (auto simp: writer_contract_def write_multiple_def repeatable_size_def
        options_build_add_multiple_option_def)
next
  case (Some q)
  with assms obtain tot where "options_calc_option_size len q number = Some tot" "tot \<noteq> 0" "tot = n"
    by (auto simp: repeatable_size_def split: option.split_asm if_split_asm)
  with Some assms(2) show ?thesis
    by (auto simp: writer_contract_def write_multiple_def dest: calc_option_size_total)
qed

text \<open>Writers in ascending order of option number: the sizes and the jumps add up.\<close>

fun jump_total :: "(bool \<times> nat) list \<Rightarrow> nat \<Rightarrow> nat" where
  "jump_total [] prev = 0"
| "jump_total ((present, number) # xs) prev =
     (if present then ext_size (number - prev) + jump_total xs number else jump_total xs prev)"

lemma run_writers_size:
  assumes "list_all2 (\<lambda>w (p, k, n). writer_contract w p k n) ws specs"
    and "run_writers ws (out, prev) = Some (out', prev')"
    and "sorted (prev # map (\<lambda>(p, k, n). k) specs)"
  shows "length out' = length out + sum_list (map (\<lambda>(p, k, n). n) specs)
           + jump_total (map (\<lambda>(p, k, n). (p, k)) specs) prev"
  using assms
proof (induction ws specs arbitrary: out prev rule: list_all2_induct)
  case Nil
  then show ?case by simp
next
  case (Cons w ws s specs)
  obtain p k n where s: "s = (p, k, n)" by (cases s)
  from Cons.prems obtain out1 prev1 where w: "w (out, prev) = Some (out1, prev1)"
    and r: "run_writers ws (out1, prev1) = Some (out', prev')"
    by (auto split: option.split_asm)
  have prev: "prev \<le> k" using Cons.prems(2) s by auto
  have c: "if p then prev1 = k \<and> length out1 = length out + n + ext_size (k - prev)
           else prev1 = prev \<and> length out1 = length out \<and> n = 0"
    using Cons.hyps(1) w prev unfolding s writer_contract_def by auto
  have "sorted (prev1 # map (\<lambda>(p, k, n). k) specs)"
    using Cons.prems(2) c s by (cases p) auto
  from Cons.IH [OF r this] c show ?case by (cases p) (auto simp: s)
qed


section \<open>The whole message\<close>

lemma add_sizes_Some:
  "add_sizes ss acc = Some (Some n) \<Longrightarrow>
   \<exists>ns. ss = map (\<lambda>k. Some (Some k)) ns \<and> n = acc + sum_list ns"
proof (induction ss acc rule: add_sizes.induct)
  case (4 k ss acc)
  then obtain ns where "ss = map (\<lambda>k. Some (Some k)) ns" "n = acc + k + sum_list ns" by auto
  then show ?case by (intro exI [of _ "k # ns"]) simp
qed auto

definition early_specs :: "coap_options \<Rightarrow> (bool \<times> nat) list" where
  "early_specs opts =
     [(uri_host_ptr opts \<noteq> None, COAP_OPTION_URI_HOST), (etag_ptr opts \<noteq> None, COAP_OPTION_ETAG),
      (observe opts \<noteq> COAP_OBSERVE_NONE, COAP_OPTION_OBSERVE),
      (uri_port opts \<noteq> COAP_OPTION_URI_PORT_NONE, COAP_OPTION_URI_PORT),
      (location_path_ptr opts \<noteq> None, COAP_OPTION_LOCATION_PATH)]"

definition late_specs :: "coap_options \<Rightarrow> (bool \<times> nat) list" where
  "late_specs opts =
     [(max_age opts \<noteq> COAP_OPTION_MAX_AGE_DEFAULT, COAP_OPTION_MAX_AGE),
      (uri_query_ptr opts \<noteq> None, COAP_OPTION_URI_QUERY), (accept opts \<noteq> COAP_CT_NONE, COAP_OPTION_ACCEPT),
      (location_query_ptr opts \<noteq> None, COAP_OPTION_LOCATION_QUERY),
      (block2 opts \<noteq> COAP_OPTION_BLOCK_NONE, COAP_OPTION_BLOCK2),
      (block1 opts \<noteq> COAP_OPTION_BLOCK_NONE, COAP_OPTION_BLOCK1), (use_size2 opts, COAP_OPTION_SIZE2),
      (proxy_uri_ptr opts \<noteq> None, COAP_OPTION_PROXY_URI), (use_size1 opts, COAP_OPTION_SIZE1)]"

definition main_specs :: "coap_hdr \<Rightarrow> (bool \<times> nat) list" where
  "main_specs m =
     [(uri_path_ptr m \<noteq> None, COAP_OPTION_URI_PATH),
      (content_format m \<noteq> COAP_CT_NONE, COAP_OPTION_CONTENT_FORMAT)]"

definition all_specs :: "coap_hdr \<Rightarrow> (bool \<times> nat) list" where
  "all_specs m =
     (case options_list_ptr m of None \<Rightarrow> [] | Some opts \<Rightarrow> early_specs opts) @ main_specs m
     @ (case options_list_ptr m of None \<Rightarrow> [] | Some opts \<Rightarrow> late_specs opts)"

text \<open>\<open>options_calculate_jump_need\<close> counts exactly the extension bytes of the deltas.\<close>

lemma jump_total_append:
  "jump_total (xs @ ys) prev = jump_total xs prev + jump_total ys (last_present xs prev)"
  by (induction xs arbitrary: prev) auto

lemma jump_total_low:
  "\<forall>(p, k) \<in> set xs. k \<le> 12 \<Longrightarrow> jump_total xs prev = 0"
  by (induction xs arbitrary: prev) auto

lemma last_present_append: "last_present (xs @ ys) prev = last_present ys (last_present xs prev)"
  by (induction xs arbitrary: prev) auto

lemma count_jumps_total:
  "sorted (prev # map snd xs) \<Longrightarrow> \<forall>(p, k) \<in> set xs. k < 269 \<Longrightarrow>
   count_jumps xs prev space = space + jump_total xs prev"
proof (induction xs arbitrary: prev space)
  case Nil
  then show ?case by simp
next
  case (Cons x xs)
  obtain p k where x: "x = (p, k)" by (cases x)
  have "sorted (k # map snd xs)" "sorted (prev # map snd xs)" "prev \<le> k" "k < 269"
    using Cons.prems x by auto
  moreover have "\<forall>(p, k) \<in> set xs. k < 269" using Cons.prems by auto
  ultimately show ?case
    using Cons.IH by (auto simp: x ext_size_def)
qed

lemma jump_total_absent: "\<forall>(p, k) \<in> set xs. \<not> p \<Longrightarrow> jump_total xs prev = 0"
  by (induction xs) auto

lemma last_present_low: "\<forall>(p, k) \<in> set xs. k \<le> 12 \<Longrightarrow> prev \<le> 12 \<Longrightarrow> last_present xs prev \<le> 12"
  by (induction xs arbitrary: prev) auto

lemma jump_need_unfold:
  assumes "options_list_ptr m = Some opts"
  shows "options_calculate_jump_need m =
     (if uri_query_ptr opts = None \<and> accept opts = COAP_CT_NONE \<and>
         location_query_ptr opts = None \<and> block2 opts = COAP_OPTION_BLOCK_NONE \<and>
         block1 opts = COAP_OPTION_BLOCK_NONE \<and> proxy_uri_ptr opts = None \<and>
         max_age opts = COAP_OPTION_MAX_AGE_DEFAULT \<and> \<not> use_size1 opts \<and> \<not> use_size2 opts
      then 0
      else count_jumps (late_specs opts) (last_present (early_specs opts @ main_specs m) 0) 0)"
  unfolding options_calculate_jump_need_def assms option.case late_specs_def early_specs_def
    main_specs_def append.simps Let_def by (rule refl)

lemma jump_need_correct: "options_calculate_jump_need m = jump_total (all_specs m) 0"
proof (cases "options_list_ptr m")
  case None
  then show ?thesis
    by (simp add: options_calculate_jump_need_def all_specs_def main_specs_def)
next
  case (Some opts)
  let ?low = "early_specs opts @ main_specs m"
  let ?prev = "last_present ?low 0"
  have low: "\<forall>(p, k) \<in> set ?low. k \<le> 12" by (auto simp: early_specs_def main_specs_def)
  have need: "jump_total (all_specs m) 0 = jump_total (late_specs opts) ?prev"
    using jump_total_low [OF low, of 0] Some
    by (simp add: all_specs_def jump_total_append last_present_append)
  have prev: "?prev \<le> 12" by (rule last_present_low [OF low]) simp
  have count: "count_jumps (late_specs opts) ?prev 0 = jump_total (late_specs opts) ?prev"
    using count_jumps_total [of ?prev "late_specs opts" 0] prev by (simp add: late_specs_def)
  have absent: "jump_total (late_specs opts) ?prev = 0"
    if "uri_query_ptr opts = None \<and> accept opts = COAP_CT_NONE \<and>
         location_query_ptr opts = None \<and> block2 opts = COAP_OPTION_BLOCK_NONE \<and>
         block1 opts = COAP_OPTION_BLOCK_NONE \<and> proxy_uri_ptr opts = None \<and>
         max_age opts = COAP_OPTION_MAX_AGE_DEFAULT \<and> \<not> use_size1 opts \<and> \<not> use_size2 opts"
    by (rule jump_total_absent) (use that in \<open>simp add: late_specs_def\<close>)
  show ?thesis
    unfolding need jump_need_unfold [OF Some] count using absent by simp
qed


lemma uint_size_Some:
  "uint_size v none mx = Some (Some n) \<Longrightarrow> n = (if v \<noteq> none then uint_option_size (u32_of_int v) else 0)"
  by (auto simp: uint_size_def split: if_split_asm)

text \<open>The header of a Proxy-Uri of 269 bytes is counted one byte short.\<close>

definition proxy_uri_overrun :: "coap_options \<Rightarrow> nat" where
  "proxy_uri_overrun opts = (if proxy_uri_ptr opts \<noteq> None \<and> proxy_uri_len opts = 269 then 1 else 0)"

definition proxy_overrun :: "coap_hdr \<Rightarrow> nat" where
  "proxy_overrun m = (case options_list_ptr m of None \<Rightarrow> 0 | Some opts \<Rightarrow> proxy_uri_overrun opts)"

lemma proxy_uri_size_Some:
  assumes "proxy_uri_size opts = Some (Some n)"
  shows "n + proxy_uri_overrun opts =
    (if proxy_uri_ptr opts \<noteq> None then 1 + ext_size (proxy_uri_len opts) + proxy_uri_len opts else 0)"
  using assms by (auto simp: proxy_uri_size_def proxy_uri_overrun_def Let_def ext_size_def split: if_split_asm)

lemma uri_host_size_Some:
  assumes "uri_host_size opts = Some (Some n)"
  shows "n = (if uri_host_ptr opts \<noteq> None then 1 + ext_size (uri_host_len opts) + uri_host_len opts else 0)"
  using assms by (auto simp: uri_host_size_def Let_def ext_size_def split: if_split_asm)

lemma length_two: "ss = map f ns \<Longrightarrow> length ns = length ss"
  by simp

text \<open>The option writers append the sizes of the options list and the jumps.\<close>

lemma options_size_overrun:
  assumes sizes: "add_sizes ([token_size m,
            repeatable_size (uri_path_ptr m) (uri_path_len m) COAP_OPTION_URI_PATH,
            uint_size (content_format m) COAP_CT_NONE 0xffff]
           @ (case options_list_ptr m of None \<Rightarrow> [] | Some opts \<Rightarrow> options_list_sizes opts)) 4
        = Some (Some n)"
    and run: "run_writers (all_option_writers m) (out, 0) = Some (out', prev')"
  shows "length out' + 4 + (if token_ptr m = None then 0 else token_len m) =
    length out + n + jump_total (all_specs m) 0 + proxy_overrun m"
proof (cases "options_list_ptr m")
  case None
  with add_sizes_Some [OF sizes] obtain n0 n1 n2 where
      tk: "token_size m = Some (Some n0)"
    and up: "repeatable_size (uri_path_ptr m) (uri_path_len m) COAP_OPTION_URI_PATH = Some (Some n1)"
    and cf: "uint_size (content_format m) COAP_CT_NONE 0xffff = Some (Some n2)"
    and n: "n = 4 + n0 + n1 + n2"
    by (auto simp: map_eq_Cons_conv Cons_eq_map_conv)
  let ?specs = "[(uri_path_ptr m \<noteq> None, 11 :: nat, n1),
      (content_format m \<noteq> COAP_CT_NONE, 12,
       if content_format m \<noteq> COAP_CT_NONE then uint_option_size (u32_of_int (content_format m)) else 0)]"
  have contracts: "list_all2 (\<lambda>w (p, k, n). writer_contract w p k n) (all_option_writers m) ?specs"
    using write_multiple_contract [OF up]
    by (simp add: all_option_writers_def None write_uint_contract repeatable_def)
  have "n0 = (if token_ptr m = None then 0 else token_len m)" using tk by (auto simp: token_size_def split: if_split_asm)
  with run_writers_size [OF contracts run] n uint_size_Some [OF cf] show ?thesis
    by (simp add: all_specs_def main_specs_def None proxy_overrun_def)
next
  case (Some opts)
  from add_sizes_Some [OF sizes] Some obtain n0 n1 n2 a1 a2 a3 a4 a5 a6 a7 a8 a9 a10 a11 a12 a13 a14
    where tk: "token_size m = Some (Some n0)"
    and up: "repeatable_size (uri_path_ptr m) (uri_path_len m) COAP_OPTION_URI_PATH = Some (Some n1)"
    and cf: "uint_size (content_format m) COAP_CT_NONE 0xffff = Some (Some n2)"
    and s1: "uint_size (accept opts) COAP_CT_NONE 0xffff = Some (Some a1)"
    and s2: "max_age_size opts = Some (Some a2)"
    and s3: "proxy_uri_size opts = Some (Some a3)"
    and s4: "repeatable_size (etag_ptr opts) (etag_len opts) COAP_OPTION_ETAG = Some (Some a4)"
    and s5: "uri_host_size opts = Some (Some a5)"
    and s6: "repeatable_size (location_path_ptr opts) (location_path_len opts)
        COAP_OPTION_LOCATION_PATH = Some (Some a6)"
    and s7: "uint_size (uri_port opts) COAP_OPTION_URI_PORT_NONE 0xffff = Some (Some a7)"
    and s8: "repeatable_size (location_query_ptr opts) (location_query_len opts)
        COAP_OPTION_LOCATION_QUERY = Some (Some a8)"
    and s9: "uint_size (observe opts) COAP_OBSERVE_NONE 0xffffff = Some (Some a9)"
    and s10: "repeatable_size (uri_query_ptr opts) (uri_query_len opts) COAP_OPTION_URI_QUERY
        = Some (Some a10)"
    and s11: "uint_size (block1 opts) COAP_OPTION_BLOCK_NONE 0xffffff = Some (Some a11)"
    and s12: "size1_size opts = Some (Some a12)"
    and s13: "uint_size (block2 opts) COAP_OPTION_BLOCK_NONE 0xffffff = Some (Some a13)"
    and s14: "size2_size opts = Some (Some a14)"
    and n: "n = 4 + n0 + n1 + n2 + a1 + a2 + a3 + a4 + a5 + a6 + a7 + a8 + a9 + a10 + a11 + a12
        + a13 + a14"
    by (auto simp: options_list_sizes_def map_eq_Cons_conv Cons_eq_map_conv)
  let ?u = "\<lambda>p v. if p then uint_option_size v else 0"
  let ?o = "\<lambda>p len. if p \<noteq> None then 1 + ext_size len + len else 0"
  let ?specs = "[(uri_host_ptr opts \<noteq> None, 3 :: nat, ?o (uri_host_ptr opts) (uri_host_len opts)),
      (etag_ptr opts \<noteq> None, 4, a4),
      (observe opts \<noteq> -1, 6, ?u (observe opts \<noteq> -1) (u32_of_int (observe opts))),
      (uri_port opts \<noteq> -1, 7, ?u (uri_port opts \<noteq> -1) (u32_of_int (uri_port opts))),
      (location_path_ptr opts \<noteq> None, 8, a6),
      (uri_path_ptr m \<noteq> None, 11, n1),
      (content_format m \<noteq> -1, 12, ?u (content_format m \<noteq> -1) (u32_of_int (content_format m))),
      (max_age opts \<noteq> 60, 14, ?u (max_age opts \<noteq> 60) (max_age opts)),
      (uri_query_ptr opts \<noteq> None, 15, a10),
      (accept opts \<noteq> -1, 17, ?u (accept opts \<noteq> -1) (u32_of_int (accept opts))),
      (location_query_ptr opts \<noteq> None, 20, a8),
      (block2 opts \<noteq> -1, 23, ?u (block2 opts \<noteq> -1) (u32_of_int (block2 opts))),
      (block1 opts \<noteq> -1, 27, ?u (block1 opts \<noteq> -1) (u32_of_int (block1 opts))),
      (use_size2 opts, 28, ?u (use_size2 opts) (size2 opts)),
      (proxy_uri_ptr opts \<noteq> None, 35, ?o (proxy_uri_ptr opts) (proxy_uri_len opts)),
      (use_size1 opts, 60, ?u (use_size1 opts) (size1 opts))]"
  note multiple = write_multiple_contract [OF up] write_multiple_contract [OF s4]
    write_multiple_contract [OF s6] write_multiple_contract [OF s8] write_multiple_contract [OF s10]
  have contracts: "list_all2 (\<lambda>w (p, k, n). writer_contract w p k n) (all_option_writers m) ?specs"
    unfolding all_option_writers_def Some early_option_writers_def late_option_writers_def
      option.case append.simps
    by (simp only: list.rel_inject list.rel_distinct case_prod_conv simp_thms)
      (intro conjI; (rule write_uint_contract write_one_contract multiple; simp add: repeatable_def)?; simp)
  have n0: "n0 = (if token_ptr m = None then 0 else token_len m)" using tk by (auto simp: token_size_def split: if_split_asm)
  have a2: "a2 = ?u (max_age opts \<noteq> 60) (max_age opts)" using s2 by (simp add: max_age_size_def)
  have a3: "?o (proxy_uri_ptr opts) (proxy_uri_len opts) = a3 + proxy_overrun m"
    using proxy_uri_size_Some [OF s3] by (simp add: proxy_overrun_def Some)
  have a12: "a12 = ?u (use_size1 opts) (size1 opts)" using s12 by (simp add: size1_size_def)
  have a14: "a14 = ?u (use_size2 opts) (size2 opts)" using s14 by (simp add: size2_size_def)
  have sorted: "sorted ((0 :: nat) # map (\<lambda>(p, k, n). k) ?specs)" by simp
  note sum = run_writers_size [OF contracts run sorted]
  have jumps: "map (\<lambda>(p, k, n). (p, k)) ?specs = all_specs m"
    by (simp add: all_specs_def early_specs_def main_specs_def late_specs_def Some)
  show ?thesis
    unfolding sum jumps n n0 a2 a12 a14 uint_size_Some [OF cf] uint_size_Some [OF s1]
      uri_host_size_Some [OF s5] uint_size_Some [OF s7] uint_size_Some [OF s9]
      uint_size_Some [OF s11] uint_size_Some [OF s13]
    using a3 by simp
qed

lemma options_size:
  assumes "add_sizes ([token_size m,
            repeatable_size (uri_path_ptr m) (uri_path_len m) COAP_OPTION_URI_PATH,
            uint_size (content_format m) COAP_CT_NONE 0xffff]
           @ (case options_list_ptr m of None \<Rightarrow> [] | Some opts \<Rightarrow> options_list_sizes opts)) 4
        = Some (Some n)"
    and "\<forall>opts. options_list_ptr m = Some opts \<longrightarrow> proxy_uri_ptr opts = None \<or> proxy_uri_len opts \<noteq> 269"
    and "run_writers (all_option_writers m) (out, 0) = Some (out', prev')"
    and "token_ptr m = None \<longrightarrow> token_len m = 0"
  shows "length out' + 4 + token_len m = length out + n + jump_total (all_specs m) 0"
proof -
  have "proxy_overrun m = 0" using assms(2) by (auto simp: proxy_overrun_def proxy_uri_overrun_def split: option.split)
  with options_size_overrun [OF assms(1,3)] assms(4) show ?thesis by (simp split: if_split_asm)
qed


section \<open>The whole packet\<close>

text \<open>
  By how much the packet is longer than announced: a token length without a token moves the write position all the
  same, the header of a Proxy-Uri of 269 bytes is one byte longer than counted, and where the payload has to be sent in
  blocks the size counts one block while the whole payload is written.
\<close>

definition token_overrun :: "coap_hdr \<Rightarrow> nat" where
  "token_overrun m =
     (if token_ptr m = None \<and> (uri_path_ptr m \<noteq> None \<or> content_format m \<noteq> COAP_CT_NONE \<or> options_list_ptr m \<noteq> None)
      then token_len m else 0)"

definition payload_overrun :: "bool \<Rightarrow> nat \<Rightarrow> nat \<Rightarrow> coap_hdr \<Rightarrow> nat" where
  "payload_overrun blockwise max_nonblock block_size m =
     (if blockwise \<and> max_nonblock < payload_len m \<and> block_size < payload_len m \<and> 0 < block_size
      then payload_len m - block_size else 0)"

definition overrun :: "bool \<Rightarrow> nat \<Rightarrow> coap_hdr \<Rightarrow> nat \<Rightarrow> nat" where
  "overrun blockwise max_nonblock m block_size =
     (if msg_type m = COAP_MSG_TYPE_RESET then 0
      else token_overrun m + proxy_overrun m + payload_overrun blockwise max_nonblock block_size m)"

lemma builder_size_overrun:
  assumes "calc_needed_packet_data_size_2 blockwise max_nonblock m block_size = Some needed"
    and "sn_coap_builder_2 blockwise max_nonblock fill m block_size = Some (r, packet)"
  shows "length packet \<le> needed + overrun blockwise max_nonblock m block_size \<and>
    (r \<noteq> -1 \<longrightarrow> payload_ptr m \<noteq> None \<or> payload_len m = 0 \<longrightarrow>
       length packet = needed + overrun blockwise max_nonblock m block_size)"
proof (cases "needed = 0 \<or> header_build m = None \<or> msg_type m = COAP_MSG_TYPE_RESET")
  case True
  then show ?thesis
    using assms
    by (auto simp: sn_coap_builder_2_def calc_needed_packet_data_size_2_def header_build_def overrun_def
        split: if_split_asm option.split_asm)
next
  case False
  then obtain header where h: "header_build m = Some header" "length header = 4"
    by (auto simp: header_build_def split: if_split_asm)
  from assms(2) False h assms(1) obtain out where
      o1: "options_build fill header m = Some out" and o2: "payload_build out m = Some packet"
    by (auto simp: sn_coap_builder_2_def split: option.split_asm)
  from assms(1) False obtain n where
      sizes: "add_sizes ([token_size m,
          repeatable_size (uri_path_ptr m) (uri_path_len m) COAP_OPTION_URI_PATH,
          uint_size (content_format m) COAP_CT_NONE 0xffff]
         @ (case options_list_ptr m of None \<Rightarrow> [] | Some opts \<Rightarrow> options_list_sizes opts)) 4
          = Some (Some n)"
    and needed: "needed = n + payload_size blockwise max_nonblock block_size m
          + options_calculate_jump_need m"
    by (auto simp: calc_needed_packet_data_size_2_def Let_def
        split: if_split_asm option.split_asm)
  have out: "length out = n + jump_total (all_specs m) 0 + token_overrun m + proxy_overrun m"
  proof (cases "uri_path_ptr m = None \<and> token_ptr m = None \<and> content_format m = COAP_CT_NONE \<and>
       options_list_ptr m = None")
    case True
    with o1 sizes h show ?thesis
      by (auto simp: options_build_def token_size_def repeatable_size_def uint_size_def
          all_specs_def main_specs_def token_overrun_def proxy_overrun_def)
  next
    case False
    with o1 obtain token prev' where
        run: "run_writers (all_option_writers m) (header @ token, 0) = Some (out, prev')"
      and token: "length token = token_len m"
      by (auto simp: options_build_def split: if_split_asm option.split_asm
          dest: rd_block_length)
    from options_size_overrun [OF sizes run] h token False show ?thesis
      by (auto simp: token_overrun_def split: if_split_asm)
  qed
  have "payload_size blockwise max_nonblock block_size m + payload_overrun blockwise max_nonblock block_size m
      = payload_len m + (if payload_len m \<noteq> 0 then 1 else 0)"
    by (auto simp: payload_size_def payload_overrun_def)
  with o2 out needed jump_need_correct [of m] False show ?thesis
    by (auto simp: payload_build_def overrun_def split: if_split_asm option.split_asm dest: rd_block_length)
qed

lemma builder_size:
  assumes "calc_needed_packet_data_size_2 blockwise max_nonblock m block_size = Some needed"
    and "sn_coap_builder_2 blockwise max_nonblock fill m block_size = Some (r, packet)"
    and "token_ptr m = None \<longrightarrow> token_len m = 0"
    and "\<forall>opts. options_list_ptr m = Some opts \<longrightarrow>
           proxy_uri_ptr opts = None \<or> proxy_uri_len opts \<noteq> 269"
    and "blockwise \<longrightarrow> payload_len m \<le> block_size \<or> payload_len m \<le> max_nonblock \<or> block_size = 0"
  shows "length packet \<le> needed \<and>
    (r \<noteq> -1 \<longrightarrow> payload_ptr m \<noteq> None \<or> payload_len m = 0 \<longrightarrow> length packet = needed)"
proof -
  have "overrun blockwise max_nonblock m block_size = 0"
    using assms(3,4,5) by (auto simp: overrun_def token_overrun_def proxy_overrun_def proxy_uri_overrun_def
        payload_overrun_def split: option.split)
  with builder_size_overrun [OF assms(1,2)] show ?thesis by simp
qed

text \<open>
  Property C4. What the builder writes against what \<open>calc_needed_packet_data_size_2\<close> announces, for every message. The
  packet has exactly the announced size, or less when it has a payload length but no payload, plus an overrun. The overrun is 0 except for three kinds
  of messages: one with a token length but no token pointer, which takes token_len bytes more; one with a Proxy-Uri of 269 bytes, which takes one
  more; and one whose payload has to be sent in blocks, which is written as a whole while one block is announced.
\<close>

theorem builder_writes_announced_size:
  assumes "calc_needed_packet_data_size_2 blockwise max_nonblock m block_size = Some needed"
    and "sn_coap_builder_2 blockwise max_nonblock fill m block_size = Some (r, packet)"
  shows "length packet \<le> needed + overrun blockwise max_nonblock m block_size \<and>
    (r \<noteq> -1 \<longrightarrow> payload_ptr m \<noteq> None \<or> payload_len m = 0 \<longrightarrow>
       length packet = needed + overrun blockwise max_nonblock m block_size)"
  using assms by (rule builder_size_overrun)

end
