(* ===== verification/Coap_Parts.thy ===== *)
theory Coap_Parts
  imports Coap_Builder_Size
begin

text \<open>
  Repeatable options of the builder. The C code scans the joined string from the start for
  every part; here the scans are related to the list of parts. A list of parts is proper when
  no part is empty and none contains the separator; for a proper list the string is the
  parts joined by the separator, and the scans find the number, the lengths and the positions
  of the parts, so that the builder sends exactly one option per part.
\<close>

section \<open>The scans as list recursions\<close>

fun count_sep :: "u8 \<Rightarrow> bytes \<Rightarrow> nat" where
  "count_sep ch [] = 0"
| "count_sep ch (b # bs) = (if b = ch then 1 else 0) + count_sep ch bs"

fun scan_length :: "u8 \<Rightarrow> bytes \<Rightarrow> nat \<Rightarrow> nat \<Rightarrow> nat \<Rightarrow> nat" where
  "scan_length ch [] idx cur plen = plen"
| "scan_length ch (b # bs) idx cur plen =
     (if b = ch \<and> plen > 0 then
        (if cur = idx then plen else scan_length ch bs idx (u8_wrap (cur + 1)) 0)
      else if b \<noteq> ch then scan_length ch bs idx cur (u16_wrap (plen + 1))
      else scan_length ch bs idx cur plen)"

fun scan_position :: "u8 \<Rightarrow> bytes \<Rightarrow> nat \<Rightarrow> nat \<Rightarrow> nat \<Rightarrow> nat" where
  "scan_position ch [] idx cur off = 65535"
| "scan_position ch (b # bs) idx cur off =
     (if b = ch \<and> off > 0 then
        (if cur + 1 = idx then u16_wrap (off + 1)
         else scan_position ch bs idx (u8_wrap (cur + 1)) (u16_wrap (off + 1)))
      else scan_position ch bs idx cur (u16_wrap (off + 1)))"

lemma count_sep_append: "count_sep ch (xs @ ys) = count_sep ch xs + count_sep ch ys"
  by (induction xs) auto

lemma take_drop_Suc:
  "i + Suc n \<le> length q \<Longrightarrow> take (Suc n) (drop i q) = q ! i # take n (drop (Suc i) q)"
  by (simp add: Cons_nth_drop_Suc [symmetric])

lemma part_count_loop_scan:
  "i + n \<le> length q \<Longrightarrow> acc + n < 256 \<or> acc + count_sep ch (take n (drop i q)) < 256 \<Longrightarrow>
   part_count_loop q ch i n acc = Some (acc + count_sep ch (take n (drop i q)))"
proof (induction n arbitrary: i acc)
  case 0
  then show ?case by simp
next
  case (Suc n)
  let ?b = "q ! i"
  have "count_sep ch (take n (drop (Suc i) q)) \<le> n"
  proof -
    have "count_sep ch xs \<le> length xs" for xs by (induction xs) auto
    from this [of "take n (drop (Suc i) q)"] show ?thesis by simp
  qed
  then have bound: "acc + count_sep ch (take (Suc n) (drop i q)) < 256"
    using Suc.prems by (auto simp: take_drop_Suc simp del: take_Suc_conv_app_nth)
  have split: "take (Suc n) (drop i q) = ?b # take n (drop (Suc i) q)"
    using Suc.prems by (simp add: take_drop_Suc)
  have "rd q i = Some ?b" using Suc.prems by (simp add: read_simps)
  moreover have "part_count_loop q ch (Suc i) n (if ?b = ch then acc + 1 else acc)
      = Some ((if ?b = ch then acc + 1 else acc) + count_sep ch (take n (drop (Suc i) q)))"
    by (rule Suc.IH) (use Suc.prems bound split in auto)
  ultimately show ?case
    using bound by (auto simp: split wrap_simps)
qed

lemma part_length_loop_scan:
  "i + n \<le> length q \<Longrightarrow>
   part_length_loop q ch i n idx cur plen = Some (scan_length ch (take n (drop i q)) idx cur plen)"
proof (induction n arbitrary: i cur plen)
  case 0
  then show ?case by simp
next
  case (Suc n)
  have "rd q i = Some (q ! i)" using Suc.prems by (simp add: read_simps)
  with Suc show ?case by (simp add: take_drop_Suc)
qed

lemma part_position_loop_scan:
  "i + n \<le> length q \<Longrightarrow>
   part_position_loop q ch i n idx cur off = Some (scan_position ch (take n (drop i q)) idx cur off)"
proof (induction n arbitrary: i cur off)
  case 0
  then show ?case by simp
next
  case (Suc n)
  have "rd q i = Some (q ! i)" using Suc.prems by (simp add: read_simps)
  with Suc show ?case by (simp add: take_drop_Suc)
qed

section \<open>The scans over a proper list of parts\<close>

lemma count_sep_none: "ch \<notin> set p \<Longrightarrow> count_sep ch p = 0"
  by (induction p) auto

lemma count_sep_join:
  "\<forall>p \<in> set ps. ch \<notin> set p \<Longrightarrow> count_sep ch (join_parts ch ps) = length ps - 1"
  by (induction ch ps rule: join_parts.induct) (auto simp: count_sep_append count_sep_none)

lemma scan_length_run:
  "ch \<notin> set p \<Longrightarrow> plen + length p < 65536 \<Longrightarrow>
   scan_length ch (p @ bs) idx cur plen = scan_length ch bs idx cur (plen + length p)"
  by (induction p arbitrary: plen) (auto simp: wrap_simps)

lemma scan_length_join:
  assumes "\<forall>p \<in> set ps. p \<noteq> [] \<and> ch \<notin> set p" and "i < length ps"
    and "cur + length ps < 256" and "length (join_parts ch ps) < 65536"
  shows "scan_length ch (join_parts ch ps) (cur + i) cur 0 = length (ps ! i)"
proof -
  show ?thesis
    using assms
  proof (induction ps arbitrary: cur i)
    case Nil
    then show ?case by simp
  next
    case (Cons p ps)
    have p: "p \<noteq> []" "ch \<notin> set p" "length p < 65536"
      using Cons.prems(1,4) by (auto simp: join_parts_Cons split: if_splits)
    have run: "scan_length ch (join_parts ch (p # ps)) (cur + i) cur 0 =
        scan_length ch (if ps = [] then [] else ch # join_parts ch ps) (cur + i) cur (length p)"
      using scan_length_run [of ch p 0] p by (simp add: join_parts_Cons)
    show ?case
    proof (cases i)
      case 0
      with run p show ?thesis by (auto split: if_splits)
    next
      case (Suc j)
      with Cons.prems(2) have "ps \<noteq> []" by auto
      moreover have "scan_length ch (join_parts ch ps) (Suc cur + j) (Suc cur) 0 = length (ps ! j)"
        by (rule Cons.IH) (use Cons.prems Suc in \<open>auto simp: join_parts_Cons split: if_splits\<close>)
      ultimately show ?thesis
        using run p Suc Cons.prems(3) by (simp add: wrap_simps)
    qed
  qed
qed

text \<open>Position of the part i, counted from the start of the string.\<close>

definition part_offset :: "u8 \<Rightarrow> bytes list \<Rightarrow> nat \<Rightarrow> nat" where
  "part_offset ch ps i = sum_list (map length (take i ps)) + i"

lemma scan_position_run:
  "ch \<notin> set p \<Longrightarrow> off + length p < 65536 \<Longrightarrow>
   scan_position ch (p @ bs) idx cur off = scan_position ch bs idx cur (off + length p)"
  by (induction p arbitrary: off) (auto simp: wrap_simps)

lemma scan_position_join:
  assumes "\<forall>p \<in> set ps. p \<noteq> [] \<and> ch \<notin> set p" "i < length ps" "0 < i"
    and "cur + length ps < 256" "off + length (join_parts ch ps) < 65536"
  shows "scan_position ch (join_parts ch ps) (cur + i) cur off = off + part_offset ch ps i"
  using assms
proof (induction ps arbitrary: cur i off)
  case Nil
  then show ?case by simp
next
  case (Cons p ps)
  have p: "p \<noteq> []" "ch \<notin> set p" using Cons.prems(1) by auto
  have ps: "ps \<noteq> []" using Cons.prems(2,3) by auto
  have len: "off + length p + Suc (length (join_parts ch ps)) < 65536"
    using Cons.prems(5) ps by (simp add: join_parts_Cons)
  have run: "scan_position ch (join_parts ch (p # ps)) (cur + i) cur off =
      scan_position ch (ch # join_parts ch ps) (cur + i) cur (off + length p)"
    using scan_position_run [of ch p off] p ps len by (simp add: join_parts_Cons)
  obtain j where i: "i = Suc j" using Cons.prems(3) by (cases i) auto
  show ?case
  proof (cases j)
    case 0
    with run p len i show ?thesis by (simp add: part_offset_def wrap_simps)
  next
    case (Suc k)
    have "scan_position ch (join_parts ch ps) (Suc cur + j) (Suc cur) (off + length p + 1)
        = off + length p + 1 + part_offset ch ps j"
      by (rule Cons.IH) (use Cons.prems i Suc len in auto)
    with run p len i Suc Cons.prems(4) show ?thesis
      by (simp add: part_offset_def wrap_simps)
  qed
qed


lemma join_parts_split:
  assumes "i < length ps"
  shows "\<exists>ys. join_parts ch ps = join_parts ch (take i ps) @ (if i = 0 then [] else [ch]) @ ps ! i @ ys"
  using assms
proof (induction ps arbitrary: i)
  case Nil
  then show ?case by simp
next
  case (Cons p ps)
  show ?case
  proof (cases i)
    case 0
    then show ?thesis by (auto simp: join_parts_Cons)
  next
    case (Suc j)
    with Cons.prems have "j < length ps" "ps \<noteq> []" by auto
    with Cons.IH obtain ys where
      "join_parts ch ps = join_parts ch (take j ps) @ (if j = 0 then [] else [ch]) @ ps ! j @ ys"
      by blast
    with Suc \<open>ps \<noteq> []\<close> show ?thesis by (auto simp: join_parts_Cons)
  qed
qed

lemma length_join_take:
  "ps \<noteq> [] \<Longrightarrow> length (join_parts ch ps) + 1 = sum_list (map length ps) + length ps"
  by (induction ch ps rule: join_parts.induct) auto

lemma rd_block_part:
  assumes "i < length ps"
  shows "rd_block (join_parts ch ps) (part_offset ch ps i) (length (ps ! i)) = Some (ps ! i)"
proof -
  obtain ys where q: "join_parts ch ps =
      (join_parts ch (take i ps) @ (if i = 0 then [] else [ch])) @ ps ! i @ ys"
    using join_parts_split [OF assms, of ch] by auto
  have "part_offset ch ps i = length (join_parts ch (take i ps) @ (if i = 0 then [] else [ch]))"
  proof (cases "i = 0")
    case False
    with assms have "take i ps \<noteq> []" by auto
    from length_join_take [OF this, of ch] show ?thesis
      using False assms by (simp add: part_offset_def)
  qed (simp add: part_offset_def)
  then show ?thesis
    unfolding q by (simp only: rd_block_append)
qed

section \<open>The builder on a proper list of parts\<close>

lemma proper_parts_ends:
  assumes "proper_parts ch ps"
  shows "join_parts ch ps \<noteq> []" "hd (join_parts ch ps) \<noteq> ch" "hd (join_parts ch ps) \<noteq> 0"
    "last (join_parts ch ps) \<noteq> ch"
proof -
  have *: "ps \<noteq> []" "\<forall>p \<in> set ps. p \<noteq> [] \<and> ch \<notin> set p" "hd (hd ps) \<noteq> 0"
    using assms by (auto simp: proper_parts_def)
  from * show "join_parts ch ps \<noteq> []" by (cases ps) (auto simp: join_parts_Cons)
  from * show "hd (join_parts ch ps) \<noteq> ch" "hd (join_parts ch ps) \<noteq> 0"
    by (cases ps; auto simp: join_parts_Cons dest: hd_in_set)+
  from *(1,2) show "last (join_parts ch ps) \<noteq> ch"
    by (induction ch ps rule: join_parts.induct)
      (auto simp: join_parts_Cons dest: last_in_set split: if_splits)
qed

lemma count_sep_inner:
  assumes "q \<noteq> []" "hd q \<noteq> ch" "last q \<noteq> ch"
  shows "count_sep ch (take (length q - 2) (drop 1 q)) = count_sep ch q"
proof (cases q)
  case Nil
  with assms show ?thesis by simp
next
  case (Cons b bs)
  show ?thesis
  proof (cases bs rule: rev_cases)
    case Nil
    with Cons assms show ?thesis by simp
  next
    case (snoc cs c)
    with Cons assms show ?thesis by (simp add: count_sep_append)
  qed
qed

lemma get_option_part_count_proper:
  assumes "proper_parts (char_to_search option) ps" "length ps < 256"
    and "q = join_parts (char_to_search option) ps"
  shows "get_option_part_count (length q) q option = Some (length ps)"
proof -
  let ?ch = "char_to_search option"
  note ends = proper_parts_ends [OF assms(1)]
  have parts: "ps \<noteq> []" "\<forall>p \<in> set ps. ?ch \<notin> set p" using assms(1) by (auto simp: proper_parts_def)
  have inner: "count_sep ?ch (take (length q - 2) (drop 1 q)) = length ps - 1"
    using count_sep_inner [OF ends(1,2,4)] count_sep_join [OF parts(2)] assms(3) by simp
  have "part_count_loop q ?ch 1 (length q - 2) 0 = Some (length ps - 1)"
  proof (cases "length q - 2")
    case 0
    with inner have "length ps - 1 = 0" by simp
    with 0 show ?thesis by (simp only: part_count_loop.simps)
  next
    case (Suc n)
    then have "1 + (length q - 2) \<le> length q" by simp
    moreover have "0 + (length q - 2) < 256 \<or> 0 + (length ps - 1) < 256"
      using assms(2) by linarith
    ultimately show ?thesis
      using part_count_loop_scan [of 1 "length q - 2" q 0 ?ch] by (simp only: inner add_0)
  qed
  with assms(2) parts(1) show ?thesis
    by (cases ps) (auto simp: get_option_part_count_def wrap_simps)
qed

lemma part_scans_proper:
  assumes "proper_parts (char_to_search option) ps" "length ps < 256" "i < length ps"
    and "q = join_parts (char_to_search option) ps" "length q < 65536"
  shows "get_option_part_length (length q) q i option = Some (length (ps ! i))"
    and "get_option_part_position (length q) q i option = Some (part_offset (char_to_search option) ps i)"
proof -
  let ?ch = "char_to_search option"
  have parts: "\<forall>p \<in> set ps. p \<noteq> [] \<and> ?ch \<notin> set p" using assms(1) by (auto simp: proper_parts_def)
  show "get_option_part_length (length q) q i option = Some (length (ps ! i))"
    using scan_length_join [OF parts assms(3), of 0] part_length_loop_scan [of 0 "length q" q] assms
    by (simp add: get_option_part_length_def)
  show "get_option_part_position (length q) q i option = Some (part_offset ?ch ps i)"
  proof (cases "i = 0")
    case True
    have "q \<noteq> []" using proper_parts_ends(1) [OF assms(1)] assms(4) by simp
    then have "rd q 0 = Some (hd q)" by (simp add: rd_def hd_conv_nth)
    with True proper_parts_ends [OF assms(1)] assms(4) show ?thesis
      by (simp add: get_option_part_position_def part_offset_def)
  next
    case False
    with scan_position_join [OF parts assms(3), of 0 0] part_position_loop_scan [of 0 "length q" q]
      assms show ?thesis
      by (simp add: get_option_part_position_def)
  qed
qed

lemma add_parts_loop_proper:
  assumes "proper_parts (char_to_search option) ps" "length ps < 256" "option < 65536"
    and "q = join_parts (char_to_search option) ps" "length q < 65536"
  shows "i + n = length ps \<Longrightarrow> prev \<le> option \<Longrightarrow>
    add_parts_loop out q (length q) option i n prev =
      Some (out @ encode_values (option - prev) (drop i ps), if n = 0 then prev else option)"
proof (induction n arbitrary: i out prev)
  case 0
  then show ?case by simp
next
  case (Suc n)
  then have i: "i < length ps" by simp
  have d: "drop i ps = ps ! i # drop (Suc i) ps" using i by (simp add: Cons_nth_drop_Suc)
  have one: "options_build_add_one_option out (length (ps ! i)) (Some q)
      (part_offset (char_to_search option) ps i) option prev
      = Some (out @ encode_option (option - prev) (ps ! i), option)"
    using rd_block_part [OF i, of "char_to_search option"] Suc.prems(2) assms(3,4)
    by (simp add: add_one_option_encode)
  show ?case
    using Suc.IH [of "Suc i" option "out @ encode_option (option - prev) (ps ! i)"] Suc.prems one
      part_scans_proper [OF assms(1,2) i assms(4,5)]
    by (simp add: d)
qed

text \<open>A proper list of parts is sent as one option per part.\<close>

lemma add_multiple_option_proper:
  assumes "proper_parts (char_to_search option) ps" "length ps < 256" "option < 65536"
    and "q = join_parts (char_to_search option) ps" "length q < 65536" "prev \<le> option"
  shows "options_build_add_multiple_option out (Some q) (length q) option prev =
    Some (out @ encode_values (option - prev) ps, option)"
  using add_parts_loop_proper [OF assms(1-5), of 0 "length ps" prev out] assms(1,6)
    get_option_part_count_proper [OF assms(1,2,4)]
  by (auto simp: options_build_add_multiple_option_def proper_parts_def)

end
