(* ===== verification/Coap_Decode.thy ===== *)
theory Coap_Decode
  imports Coap_Parser Coap_Wire
begin

text \<open>
  The parser on a well-formed option sequence: stated with \<open>at\<close> of the prelude, the functions
  of the parser consume one encoded item and leave the rest. The last section puts the items together: the option loop on
  \<open>encode_groups\<close> stores every group in the message, in order.
\<close>

section \<open>Reading at a position\<close>

text \<open>The window of the parser ends with the packet.\<close>

definition in_frame :: "bytes \<Rightarrow> nat \<Rightarrow> nat \<Rightarrow> nat \<Rightarrow> bool" where
  "in_frame pkt start len p \<longleftrightarrow> start \<le> p \<and> start + len = length pkt \<and> length pkt < 65536"

lemma in_frame_add: "in_frame pkt start len p \<Longrightarrow> in_frame pkt start len (p + n)"
  by (simp add: in_frame_def)

lemma at_move:
  assumes "at pkt p (xs @ ys)" "in_frame pkt start len p"
  shows "move_packet_ptr p start len (length xs) = (p + length xs, length ys)"
  using at_length [OF assms(1)] assms(2)
  by (auto simp: move_packet_ptr_def in_frame_def Let_def wrap_simps)

lemma at_check:
  assumes "at pkt p (xs @ ys)" "in_frame pkt start len p"
  shows "check_packet_ptr p start len (length xs) = 0 \<or> len < length xs"
  using at_length [OF assms(1)] assms(2) by (auto simp: check_packet_ptr_def in_frame_def)

lemma at_check_ok:
  assumes "at pkt p (xs @ ys)" "in_frame pkt start len p"
  shows "check_packet_ptr p start len (length xs) = 0"
  using at_length [OF assms(1)] assms(2) by (auto simp: check_packet_ptr_def in_frame_def)

section \<open>Extended numbers and option headers\<close>

lemma at_parse_ext_option:
  assumes "at pkt p (ext_bytes n @ ys)" "in_frame pkt start len p" "n < 65536"
  shows "parse_ext_option (ext_nibble n) pkt p start len (ext_size n + length ys) =
    Some (Some (n, p + ext_size n, length ys))"
proof -
  consider "n \<le> 12" | "12 < n" "n < 269" | "269 \<le> n" by linarith
  then show ?thesis
  proof cases
    case 1
    then show ?thesis by (simp add: parse_ext_option_def ext_nibble_def)
  next
    case 2
    then have e: "ext_bytes n = [byte_of (n - 13)]" by (simp add: ext_bytes_def)
    from assms(1) have "rd pkt p = Some (byte_of (n - 13))" by (simp add: e at_rd)
    moreover have "check_packet_ptr p start len 1 = 0" "move_packet_ptr p start len 1 = (p + 1, length ys)"
      using at_check_ok [OF assms(1,2)] at_move [OF assms(1,2)] by (simp_all add: e)
    ultimately show ?thesis
      using 2 by (simp add: parse_ext_option_def ext_nibble_def read_packet_u8_def add_u16_limit_def
          Let_def wrap_simps ext_size_def)
  next
    case 3
    then have e: "ext_bytes n = [byte_of ((n - 269) div 256), byte_of (n - 269)]"
      by (simp add: ext_bytes_def)
    from assms(1) have a: "at pkt p (byte_of ((n - 269) div 256) # byte_of (n - 269) # ys)"
      by (simp add: e)
    have "rd pkt p = Some (byte_of ((n - 269) div 256))" "rd pkt (p + 1) = Some (byte_of (n - 269))"
      using at_rd [OF a] at_rd [OF at_Cons [OF a]] by auto
    moreover have "check_packet_ptr p start len 2 = 0" "move_packet_ptr p start len 2 = (p + 2, length ys)"
      using at_check_ok [OF assms(1,2)] at_move [OF assms(1,2)] by (simp_all add: e numeral_2_eq_2)
    moreover have "(n - 269) div 256 < 256" using assms(3) by simp
    then have "(n - 269) div 256 mod 256 * 256 + (n - 269) mod 256 = n - 269"
      by (simp only: mod_less) (rule div_mult_mod_eq)
    moreover have "add_u16_limit (n - 269) 269 = Some n"
      using 3 assms(3) by (simp add: add_u16_limit_def Let_def wrap_simps)
    ultimately show ?thesis
      using 3 by (simp add: parse_ext_option_def ext_nibble_def read_packet_u16_def ext_size_def)
  qed
qed

lemma encode_option_nibbles:
  "unat (drop_bit 4 (hd (encode_option d v))) = ext_nibble d"
  "unat (hd (encode_option d v) AND 15) = ext_nibble (length v)"
  "hd (encode_option d v) \<noteq> 0xFF"
proof -
  have h: "unat (hd (encode_option d v)) = ext_nibble (length v) + 16 * ext_nibble d"
    by (rule encode_option_hd)
  have n: "ext_nibble (length v) < 15" "ext_nibble d < 15" by (rule ext_nibble_less)+
  from h n show "unat (drop_bit 4 (hd (encode_option d v))) = ext_nibble d"
    "unat (hd (encode_option d v) AND 15) = ext_nibble (length v)" by simp_all
  have "unat (hd (encode_option d v)) < 255" using h n by simp
  then show "hd (encode_option d v) \<noteq> 0xFF" by auto
qed

text \<open>The number of bytes of an encoded option before its value.\<close>

definition option_head_size :: "nat \<Rightarrow> bytes \<Rightarrow> nat" where
  "option_head_size d v = 1 + ext_size d + ext_size (length v)"

lemma encode_option_split:
  "\<exists>hdr. encode_option d v = hdr @ v \<and> length hdr = option_head_size d v"
  by (rule exI [of _ "hd (encode_option d v) # ext_bytes d @ ext_bytes (length v)"])
    (simp add: encode_option_def option_head_size_def)

lemma at_encode_value:
  "at pkt p (encode_option d v @ ys) \<Longrightarrow> at pkt (p + option_head_size d v) (v @ ys)"
proof -
  assume a: "at pkt p (encode_option d v @ ys)"
  obtain h where "encode_option d v = h @ v" "length h = option_head_size d v"
    using encode_option_split by blast
  with at_append [of pkt p h "v @ ys"] a show ?thesis by simp
qed

lemma at_read_option_header:
  assumes "at pkt p (encode_option d v @ ys)" "length pkt < 65536" "prev + d < 65536"
  shows "read_option_header pkt (length pkt) (hd (encode_option d v)) p prev =
    Some (Some (prev + d, length v, p + option_head_size d v, length v + length ys))"
proof -
  let ?b = "hd (encode_option d v)"
  have f: "in_frame pkt 0 (length pkt) q" for q using assms(2) by (simp add: in_frame_def)
  have a0: "at pkt p ([?b] @ ext_bytes d @ ext_bytes (length v) @ v @ ys)"
    using assms(1) by (simp add: encode_option_def)
  have a1: "at pkt (p + 1) (ext_bytes d @ ext_bytes (length v) @ v @ ys)"
    using at_append [OF a0] by simp
  have a2: "at pkt (p + 1 + ext_size d) (ext_bytes (length v) @ v @ ys)"
    using at_append [OF a1] by simp
  have v: "length v < 65536" using at_length [OF a0] assms(2) by simp
  have m: "move_packet_ptr p 0 (length pkt) 1 =
      (p + 1, ext_size d + length (ext_bytes (length v) @ v @ ys))"
    using at_move [OF a0 f] by simp
  have x1: "parse_ext_option (ext_nibble d) pkt (p + 1) 0 (length pkt)
      (ext_size d + length (ext_bytes (length v) @ v @ ys)) =
      Some (Some (d, p + 1 + ext_size d, ext_size (length v) + length (v @ ys)))"
    using at_parse_ext_option [OF a1 f] assms(3) by simp
  have x2: "parse_ext_option (ext_nibble (length v)) pkt (p + 1 + ext_size d) 0 (length pkt)
      (ext_size (length v) + length (v @ ys)) =
      Some (Some (length v, p + 1 + ext_size d + ext_size (length v), length (v @ ys)))"
    by (rule at_parse_ext_option [OF a2 f v])
  have "add_u16_limit d prev = Some (prev + d)"
    using assms(3) by (simp add: add_u16_limit_def Let_def wrap_simps add.commute)
  then show ?thesis
    unfolding read_option_header_def m encode_option_nibbles
    by (simp only: prod.case x1 x2 option.case) (simp add: option_head_size_def)
qed

section \<open>Unsigned values\<close>

definition be_value :: "bytes \<Rightarrow> nat" where
  "be_value v = foldl (\<lambda>a b. a * 256 + unat b) 0 v"

lemma foldl_be_mono: "a \<le> foldl (\<lambda>a b. a * 256 + unat (b :: u8)) a v"
proof (induction v arbitrary: a)
  case (Cons b v)
  from Cons [of "a * 256 + unat b"] show ?case by simp
qed simp

lemma at_parse_uint:
  "at pkt p (v @ ys) \<Longrightarrow> foldl (\<lambda>a b. a * 256 + unat b) a v < 4294967296 \<Longrightarrow>
   options_parse_uint pkt p (length v) a =
     Some (foldl (\<lambda>a b. a * 256 + unat b) a v, p + length v)"
proof (induction v arbitrary: p a)
  case Nil
  then show ?case by simp
next
  case (Cons b v)
  let ?a = "a * 256 + unat b"
  have "?a < 4294967296"
    using foldl_be_mono [of ?a v] Cons.prems(2) by simp
  moreover have "rd pkt p = Some b" using Cons.prems(1) by (simp add: at_rd)
  moreover have "at pkt (p + 1) (v @ ys)" using Cons.prems(1) at_Cons [of pkt p b "v @ ys"] by simp
  from Cons.IH [OF this, of ?a] Cons.prems(2)
  have "options_parse_uint pkt (p + 1) (length v) ?a =
      Some (foldl (\<lambda>a b. a * 256 + unat b) ?a v, p + 1 + length v)" by simp
  ultimately show ?case by (simp add: wrap_simps)
qed

section \<open>The two passes over a repeatable option\<close>

text \<open>The pass stops where the packet ends, at the payload marker, or at a delta that is not 0.\<close>

definition stops :: "bytes \<Rightarrow> bool" where
  "stops ys \<longleftrightarrow> ys = [] \<or> drop_bit 4 (hd ys) \<noteq> 0"

lemma at_next_part_stop:
  assumes "at pkt p ys" "stops ys"
  shows "read_next_part pkt start len p (length ys) = Some Part_Stop"
proof (cases ys)
  case (Cons y zs)
  with assms at_rd [of pkt p y zs] show ?thesis by (simp add: read_next_part_def stops_def)
qed (simp add: read_next_part_def)

lemma at_next_part_more:
  assumes "at pkt p (encode_option 0 v @ ys)" "in_frame pkt start len p"
  shows "read_next_part pkt start len p (length (encode_option 0 v @ ys)) =
    Some (Part_More (length v) (p + option_head_size 0 v) (length (v @ ys)))"
proof -
  let ?b = "hd (encode_option 0 v)"
  have a0: "at pkt p ([?b] @ ext_bytes (length v) @ v @ ys)"
    using assms(1) by (simp add: encode_option_def ext_bytes_def)
  have a1: "at pkt (p + 1) (ext_bytes (length v) @ v @ ys)"
    using at_append [OF a0] by simp
  have v: "length v < 65536" using at_length [OF a0] assms(2) by (simp add: in_frame_def)
  have m: "move_packet_ptr p start len 1 = (p + 1, ext_size (length v) + length (v @ ys))"
    using at_move [OF a0 assms(2)] by simp
  have x: "parse_ext_option (ext_nibble (length v)) pkt (p + 1) start len
      (ext_size (length v) + length (v @ ys)) =
      Some (Some (length v, p + 1 + ext_size (length v), length (v @ ys)))"
    by (rule at_parse_ext_option [OF a1 in_frame_add [OF assms(2)] v])
  have "rd pkt p = Some ?b" using a0 by (simp add: at_rd)
  moreover have "unat (drop_bit 4 ?b) = 0"
    unfolding encode_option_nibbles by (simp add: ext_nibble_def)
  then have "drop_bit 4 ?b = 0" by (simp only: unat_eq_0)
  moreover have "unat ?b mod 16 = ext_nibble (length v)"
    using encode_option_nibbles(2) [of 0 v] by simp
  ultimately show ?thesis
    using m x by (simp add: read_next_part_def option_head_size_def)
qed

definition parts_accepted :: "nat \<Rightarrow> bytes list \<Rightarrow> bool" where
  "parts_accepted option vs \<longleftrightarrow>
     (\<forall>v \<in> set vs. v \<noteq> [] \<and> \<not> option_part_too_long option (length v))"

lemma count_loop_values:
  assumes "at pkt p (v @ encode_values 0 vs @ ys)" "in_frame pkt start len p" "stops ys"
    and "parts_accepted option (v # vs)"
    and "ret + sum_list (map (\<lambda>v. length v + 1) (v # vs)) < 65536"
  shows "count_needed_loop pkt start len option p (length (v @ encode_values 0 vs @ ys)) (length v) ret
    = Some (count_result (ret + sum_list (map (\<lambda>v. length v + 1) (v # vs))))"
  using assms
proof (induction vs arbitrary: v p ret)
  case Nil
  have "v \<noteq> []" "\<not> option_part_too_long option (length v)"
    using Nil.prems(4) by (auto simp: parts_accepted_def)
  moreover have a: "at pkt p (v @ ys)" using Nil.prems(1) by simp
  ultimately show ?case
    using at_check_ok [OF a Nil.prems(2)] at_move [OF a Nil.prems(2)]
      at_next_part_stop [OF at_append [OF a] Nil.prems(3)] Nil.prems(5)
    by (subst count_needed_loop.simps) (simp add: wrap_simps)
next
  case (Cons w vs)
  let ?rest = "encode_option 0 w @ encode_values 0 vs @ ys"
  have v: "v \<noteq> []" "\<not> option_part_too_long option (length v)"
    and acc: "parts_accepted option (w # vs)"
    using Cons.prems(4) by (auto simp: parts_accepted_def)
  have a: "at pkt p (v @ ?rest)" using Cons.prems(1) by simp
  note a1 = at_append [OF a] and f1 = in_frame_add [OF Cons.prems(2)]
  have "count_needed_loop pkt start len option (p + length v + option_head_size 0 w)
      (length (w @ encode_values 0 vs @ ys)) (length w) (ret + length v + 1)
      = Some (count_result (ret + length v + 1 + sum_list (map (\<lambda>v. length v + 1) (w # vs))))"
    by (rule Cons.IH [OF at_encode_value [OF a1] in_frame_add [OF f1] Cons.prems(3) acc])
      (use Cons.prems(5) in simp)
  moreover have "read_next_part pkt start len (p + length v) (length ?rest) =
      Some (Part_More (length w) (p + length v + option_head_size 0 w)
        (length (w @ encode_values 0 vs @ ys)))"
    by (rule at_next_part_more [OF a1 f1])
  moreover have "u16_wrap (ret + length v + 1) = ret + length v + 1"
    using Cons.prems(5) by (intro u16_wrap_id) simp
  ultimately show ?case
    using v at_check_ok [OF a Cons.prems(2)] at_move [OF a Cons.prems(2)]
    by (subst count_needed_loop.simps) (simp add: Let_def add.assoc)
qed

text \<open>The copying pass: the parts with a separator before each one but the first.\<close>

definition sep_before :: "nat \<Rightarrow> nat \<Rightarrow> bytes" where
  "sep_before option counter = (if counter > 0 then [option_separator option] else [])"

lemma at_copy_part:
  assumes "at pkt p (v @ ys)" "in_frame pkt start len p"
    and "int (length out + length (sep_before option counter) + length v) \<le> needed"
  shows "copy_part pkt start len option needed p (length v) counter out =
    Some (True, out @ sep_before option counter @ v)"
  using assms(3) at_check_ok [OF assms(1,2)] at_rd_block [OF assms(1)]
  by (cases "counter > 0") (auto simp: copy_part_def put_bytes_def sep_before_def)

lemma copy_loop_values:
  assumes "at pkt p (v @ encode_values 0 vs @ ys)" "in_frame pkt start len p" "stops ys"
    and "parts_accepted option (v # vs)" "counter + length (v # vs) < 128"
    and "needed = int (length out + length (sep_before option counter)
           + length (join_parts (option_separator option) (v # vs)))"
  shows "copy_loop pkt start len option needed p (length (v @ encode_values 0 vs @ ys))
      (length v) counter out
    = Some (int (counter + length (v # vs)), p + length (v @ encode_values 0 vs),
        out @ sep_before option counter @ join_parts (option_separator option) (v # vs))"
  using assms
proof (induction vs arbitrary: v p counter out)
  case Nil
  have v: "v \<noteq> []" using Nil.prems(4) by (auto simp: parts_accepted_def)
  have a: "at pkt p (v @ ys)" using Nil.prems(1) by simp
  have c: "copy_part pkt start len option needed p (length v) counter out =
      Some (True, out @ sep_before option counter @ v)"
    using Nil.prems(6) by (intro at_copy_part [OF a Nil.prems(2)]) simp
  have "int (length out) < needed" using v Nil.prems(6) by (cases v) auto
  then show ?case
    using v at_move [OF a Nil.prems(2)] at_next_part_stop [OF at_append [OF a] Nil.prems(3)]
      Nil.prems(5) c
    by (subst copy_loop.simps) (simp add: wrap_simps Let_def)
next
  case (Cons w vs)
  let ?rest = "encode_option 0 w @ encode_values 0 vs @ ys"
  let ?out = "out @ sep_before option counter @ v"
  have v: "v \<noteq> []" and acc: "parts_accepted option (w # vs)"
    using Cons.prems(4) by (auto simp: parts_accepted_def)
  have a: "at pkt p (v @ ?rest)" using Cons.prems(1) by simp
  note a1 = at_append [OF a] and f1 = in_frame_add [OF Cons.prems(2)]
  have c: "copy_part pkt start len option needed p (length v) counter out = Some (True, ?out)"
    using Cons.prems(6) by (intro at_copy_part [OF a Cons.prems(2)]) simp
  have more: "int (length out) < needed" using v Cons.prems(6) by (cases v) auto
  have "copy_loop pkt start len option needed (p + length v + option_head_size 0 w)
      (length (w @ encode_values 0 vs @ ys)) (length w) (counter + 1) ?out
    = Some (int (counter + 1 + length (w # vs)),
        p + length v + option_head_size 0 w + length (w @ encode_values 0 vs),
        ?out @ sep_before option (counter + 1) @ join_parts (option_separator option) (w # vs))"
    by (rule Cons.IH [OF at_encode_value [OF a1] in_frame_add [OF f1] Cons.prems(3) acc])
      (use Cons.prems(5,6) in \<open>auto simp: sep_before_def\<close>)
  moreover have "read_next_part pkt start len (p + length v) (length ?rest) =
      Some (Part_More (length w) (p + length v + option_head_size 0 w)
        (length (w @ encode_values 0 vs @ ys)))"
    by (rule at_next_part_more [OF a1 f1])
  moreover have "u8_wrap (counter + 1) = counter + 1"
    using Cons.prems(5) by (intro u8_wrap_id) simp
  moreover have "length (encode_option 0 w) = option_head_size 0 w + length w"
    by (simp add: length_encode_option option_head_size_def)
  ultimately show ?case
    using more c at_move [OF a Cons.prems(2)] v
    by (subst copy_loop.simps) (simp add: Let_def sep_before_def add.assoc)
qed

lemma sum_parts_join:
  "vs \<noteq> [] \<Longrightarrow> sum_list (map (\<lambda>v. length v + 1) vs) = length (join_parts ch vs) + 1"
  by (induction ch vs rule: join_parts.induct) auto

lemma at_parse_multiple:
  assumes "at pkt p (v @ encode_values 0 vs @ ys)" "length pkt < 65536" "stops ys"
    and "parts_accepted option (v # vs)" "length (v # vs) < 128"
    and "q = join_parts (option_separator option) (v # vs)" "length q < 32768"
  shows "options_parse_multiple_options (\<lambda>_. True) pkt p (length (v @ encode_values 0 vs @ ys))
      dst dlen option (length v) nreq =
    Some (int (length (v # vs)), p + length (v @ encode_values 0 vs), Some q, length q, Suc nreq)"
proof -
  let ?left = "length (v @ encode_values 0 vs @ ys)"
  have f: "in_frame pkt p ?left p"
    using at_length [OF assms(1)] assms(2) by (simp add: in_frame_def)
  have sum: "sum_list (map (\<lambda>v. length v + 1) (v # vs)) = length q + 1"
    using sum_parts_join [of "v # vs" "option_separator option"] assms(6) by simp
  have q: "0 < length q"
    using assms(4,6) by (auto simp: join_parts_Cons parts_accepted_def)
  have "options_count_needed_memory pkt p ?left option (length v) = Some (int (length q))"
    unfolding options_count_needed_memory_def
    using count_loop_values [OF assms(1) f assms(3,4), of 0] assms(7)
    by (simp add: sum [simplified] count_result_def wrap_simps)
  moreover have "copy_loop pkt p ?left option (int (length q)) p ?left (length v) 0 [] =
      Some (int (length (v # vs)), p + length (v @ encode_values 0 vs), q)"
    using copy_loop_values [OF assms(1) f assms(3,4), of 0 "int (length q)" "[]"] assms(5,6)
    by (simp add: sep_before_def)
  ultimately show ?thesis
    using q assms(7) by (simp add: options_parse_multiple_options_def Let_def nat_mod_as_int)
qed

end
