(* ===== verification/Coap_Store.thy ===== *)
theory Coap_Store
  imports Coap_Decode
begin

text \<open>
  What one group of options leaves in the message. \<open>store_group\<close> is the abstract effect of a
  group, \<open>group_fits\<close> the limits the parser puts on it and \<open>slot_free\<close> the condition that its
  field has not been set yet; one iteration of the parser's option loop is shown to be
  \<open>store_group\<close>, and the whole loop to be the fold over the groups.
\<close>

section \<open>The abstract effect\<close>

definition uint_limit :: "nat \<Rightarrow> nat" where
  "uint_limit number =
     (if number \<in> {COAP_OPTION_MAX_AGE, COAP_OPTION_SIZE1, COAP_OPTION_SIZE2} then 4
      else if number \<in> {COAP_OPTION_BLOCK1, COAP_OPTION_BLOCK2} then 3
      else 2)"

definition uint_numbers :: "nat list" where
  "uint_numbers =
     [COAP_OPTION_CONTENT_FORMAT, COAP_OPTION_MAX_AGE, COAP_OPTION_URI_PORT, COAP_OPTION_OBSERVE,
      COAP_OPTION_BLOCK1, COAP_OPTION_BLOCK2, COAP_OPTION_ACCEPT, COAP_OPTION_SIZE1,
      COAP_OPTION_SIZE2]"

definition opaque_numbers :: "nat list" where
  "opaque_numbers = [COAP_OPTION_PROXY_URI, COAP_OPTION_URI_HOST]"

definition multiple_numbers :: "nat list" where
  "multiple_numbers =
     [COAP_OPTION_ETAG, COAP_OPTION_LOCATION_PATH, COAP_OPTION_URI_PATH,
      COAP_OPTION_LOCATION_QUERY, COAP_OPTION_URI_QUERY]"

definition group_fits :: "nat \<Rightarrow> bytes list \<Rightarrow> bool" where
  "group_fits number vs \<longleftrightarrow>
     (if number \<in> set uint_numbers then
        length vs = 1 \<and> length (hd vs) \<le> uint_limit number
      else if number \<in> set opaque_numbers then
        length vs = 1 \<and> 1 \<le> length (hd vs) \<and>
        length (hd vs) \<le> (if number = COAP_OPTION_URI_HOST then 255 else 1034)
      else number \<in> set multiple_numbers \<and> parts_accepted number vs \<and> length vs < 128 \<and>
        length (join_parts (option_separator number) vs) < 32768 \<and>
        (number = COAP_OPTION_ETAG \<longrightarrow> length (join_parts (option_separator number) vs) < 256))"

definition store_list_option :: "nat \<Rightarrow> bytes list \<Rightarrow> coap_options \<Rightarrow> coap_options" where
  "store_list_option number vs opts =
     (let n = be_value (hd vs); q = join_parts (option_separator number) vs in
      if number = COAP_OPTION_MAX_AGE then opts\<lparr>max_age := n\<rparr>
      else if number = COAP_OPTION_PROXY_URI then
        opts\<lparr>proxy_uri_len := length (hd vs), proxy_uri_ptr := Some (hd vs)\<rparr>
      else if number = COAP_OPTION_ETAG then
        opts\<lparr>etag_len := length q, use_size1 := False, use_size2 := False, etag_ptr := Some q\<rparr>
      else if number = COAP_OPTION_URI_HOST then
        opts\<lparr>uri_host_len := length (hd vs), uri_host_ptr := Some (hd vs)\<rparr>
      else if number = COAP_OPTION_LOCATION_PATH then
        opts\<lparr>location_path_ptr := Some q, location_path_len := length q\<rparr>
      else if number = COAP_OPTION_URI_PORT then opts\<lparr>uri_port := int n\<rparr>
      else if number = COAP_OPTION_LOCATION_QUERY then
        opts\<lparr>location_query_ptr := Some q, location_query_len := length q\<rparr>
      else if number = COAP_OPTION_OBSERVE then opts\<lparr>observe := int n\<rparr>
      else if number = COAP_OPTION_URI_QUERY then
        opts\<lparr>uri_query_ptr := Some q, uri_query_len := length q\<rparr>
      else if number = COAP_OPTION_BLOCK2 then opts\<lparr>block2 := int n\<rparr>
      else if number = COAP_OPTION_BLOCK1 then opts\<lparr>block1 := int n\<rparr>
      else if number = COAP_OPTION_ACCEPT then opts\<lparr>accept := int n\<rparr>
      else if number = COAP_OPTION_SIZE1 then opts\<lparr>use_size1 := True, size1 := n\<rparr>
      else opts\<lparr>use_size2 := True, size2 := n\<rparr>)"

definition list_options :: "coap_hdr \<Rightarrow> coap_options" where
  "list_options m = (case options_list_ptr m of None \<Rightarrow> init_options | Some opts \<Rightarrow> opts)"

definition store_group :: "nat \<Rightarrow> bytes list \<Rightarrow> coap_hdr \<Rightarrow> coap_hdr" where
  "store_group number vs m =
     (if vs = [] then m
      else if number = COAP_OPTION_CONTENT_FORMAT then m\<lparr>content_format := int (be_value (hd vs))\<rparr>
      else if number = COAP_OPTION_URI_PATH then
        (let q = join_parts (option_separator number) vs in
         m\<lparr>uri_path_ptr := Some q, uri_path_len := length q\<rparr>)
      else m\<lparr>options_list_ptr := Some (store_list_option number vs (list_options m))\<rparr>)"

definition slot_free :: "nat \<Rightarrow> coap_hdr \<Rightarrow> bool" where
  "slot_free number m \<longleftrightarrow>
     (let opts = list_options m in
      if number = COAP_OPTION_CONTENT_FORMAT then content_format m = COAP_CT_NONE
      else if number = COAP_OPTION_URI_PATH then uri_path_ptr m = None
      else if number = COAP_OPTION_PROXY_URI then proxy_uri_ptr opts = None
      else if number = COAP_OPTION_ETAG then etag_ptr opts = None
      else if number = COAP_OPTION_URI_HOST then uri_host_ptr opts = None
      else if number = COAP_OPTION_LOCATION_PATH then location_path_ptr opts = None
      else if number = COAP_OPTION_URI_PORT then uri_port opts = COAP_OPTION_URI_PORT_NONE
      else if number = COAP_OPTION_LOCATION_QUERY then location_query_ptr opts = None
      else if number = COAP_OPTION_OBSERVE then observe opts = COAP_OBSERVE_NONE
      else if number = COAP_OPTION_BLOCK2 then block2 opts = COAP_OPTION_BLOCK_NONE
      else if number = COAP_OPTION_BLOCK1 then block1 opts = COAP_OPTION_BLOCK_NONE
      else if number = COAP_OPTION_ACCEPT then accept opts = COAP_CT_NONE
      else if number = COAP_OPTION_SIZE1 then \<not> use_size1 opts
      else if number = COAP_OPTION_SIZE2 then \<not> use_size2 opts
      else True)"

lemma group_fits_number:
  "group_fits number vs \<Longrightarrow>
   number \<in> {3, 4, 6, 7, 8, 11, 12, 14, 15, 17, 20, 23, 27, 28, 35, 60}"
  by (auto simp: group_fits_def uint_numbers_def opaque_numbers_def multiple_numbers_def
      split: if_split_asm)

section \<open>One option value\<close>

text \<open>The value was stored: pointer and message are determined, the other fields free.\<close>

definition value_parsed ::
  "parse_state \<Rightarrow> (int \<times> parse_state) option \<Rightarrow> nat \<Rightarrow> coap_hdr \<Rightarrow> bool" where
  "value_parsed st r p m \<longleftrightarrow>
     (\<exists>l n. r = Some (0, st\<lparr>ps_pos := p, ps_left := l, ps_msg := m, ps_nreq := n\<rparr>))"

lemma be_value_bound: "foldl (\<lambda>a b. a * 256 + unat (b :: u8)) a v < (a + 1) * 256 ^ length v"
proof (induction v arbitrary: a)
  case Nil
  then show ?case by simp
next
  case (Cons b v)
  have "a * 256 + x + 1 \<le> (a + 1) * 256" if "x < 256" for x :: nat using that by simp
  from this [OF unat_byte_less] have "a * 256 + unat b + 1 \<le> (a + 1) * 256" .
  then have "(a * 256 + unat b + 1) * 256 ^ length v \<le> (a + 1) * 256 * 256 ^ length v"
    by (rule mult_right_mono) simp
  with Cons.IH [of "a * 256 + unat b"] show ?case
    by (simp only: foldl_Cons list.size power_Suc mult.assoc add_0_right)
      (simp add: mult.assoc)
qed

lemma be_value_less: "length v \<le> 4 \<Longrightarrow> be_value v < 4294967296"
proof -
  assume l: "length v \<le> 4"
  have "be_value v < 256 ^ length v" using be_value_bound [of 0 v] by (simp add: be_value_def)
  also have "(256 :: nat) ^ length v \<le> 256 ^ 4" by (rule power_increasing [OF l]) simp
  finally show ?thesis by simp
qed

lemma at_parse_uint_case:
  assumes "at pkt (ps_pos st) (v @ ys)" "length v \<le> maximum" "maximum \<le> 4" "\<not> present"
  shows "value_parsed st (parse_uint_case pkt (length v) maximum present f st)
    (ps_pos st + length v) (f (be_value v) (ps_msg st))"
proof -
  have "options_parse_uint pkt (ps_pos st) (length v) 0 = Some (be_value v, ps_pos st + length v)"
    using at_parse_uint [OF assms(1), of 0] be_value_less [of v] assms(2,3)
    by (simp add: be_value_def)
  with assms show ?thesis
    unfolding value_parsed_def
    by (intro exI [of _ "ps_left st"] exI [of _ "ps_nreq st"]) (simp add: parse_uint_case_def)
qed

lemma at_parse_opaque_case:
  assumes "at pkt (ps_pos st) (v @ ys)" "length pkt < 65536" "1 \<le> length v" "length v \<le> maximum"
    and "\<not> present"
  shows "value_parsed st
    (parse_opaque_case (\<lambda>_. True) pkt (length pkt) (length v) maximum present f g st)
    (ps_pos st + length v) (g (Some v) (f (length v) (ps_msg st)))"
proof -
  have "in_frame pkt 0 (length pkt) (ps_pos st)" using assms(2) by (simp add: in_frame_def)
  from at_move [OF assms(1) this] at_rd_block [OF assms(1)] assms(3-5) show ?thesis
    by (auto simp: value_parsed_def parse_opaque_case_def Let_def)
qed

lemma at_parse_multiple_case:
  assumes "at pkt (ps_pos st) (v @ encode_values 0 vs @ ys)" "length pkt < 65536" "stops ys"
    and "parts_accepted option (v # vs)" "length (v # vs) < 128"
    and "length (join_parts (option_separator option) (v # vs)) < 32768"
    and "ps_left st = length (v @ encode_values 0 vs @ ys)" "\<not> present"
  shows "value_parsed st
    (parse_multiple_case (\<lambda>_. True) pkt option (length v) present dst dlen f st)
    (ps_pos st + length (v @ encode_values 0 vs))
    (f (Some (join_parts (option_separator option) (v # vs)))
       (length (join_parts (option_separator option) (v # vs))) (ps_msg st))"
  using at_parse_multiple [OF assms(1-5) refl assms(6), of dst dlen "ps_nreq st"] assms(7,8)
  unfolding value_parsed_def
  by (intro exI [of _ "ps_left st"] exI [of _ "Suc (ps_nreq st)"])
    (simp add: parse_multiple_case_def)

text \<open>The value of a group, in the message whose options list has been allocated.\<close>

definition ensure_list :: "nat \<Rightarrow> coap_hdr \<Rightarrow> coap_hdr" where
  "ensure_list number m =
     (if number \<in> set options_in_list then m\<lparr>options_list_ptr := Some (list_options m)\<rparr> else m)"

lemma alloc_options_ensure:
  "\<exists>n. (if number \<in> set options_in_list then alloc_options (\<lambda>_. True) nreq m else (True, m, nreq))
     = (True, ensure_list number m, n)"
  by (auto simp: ensure_list_def alloc_options_def list_options_def split: option.split)

lemma set_etag_len16_small:
  "n < 256 \<Longrightarrow> set_etag_len16 n opts = opts\<lparr>etag_len := n, use_size1 := False, use_size2 := False\<rparr>"
  by (simp add: set_etag_len16_def)

text \<open>The parser stands at the value of a group of options that fits and is not yet set.\<close>

definition group_at ::
  "bytes \<Rightarrow> parse_state \<Rightarrow> bytes \<Rightarrow> bytes list \<Rightarrow> bytes \<Rightarrow> nat \<Rightarrow> coap_hdr \<Rightarrow> bool" where
  "group_at pkt st v vs ys number m \<longleftrightarrow>
     at pkt (ps_pos st) (v @ encode_values 0 vs @ ys) \<and> length pkt < 65536 \<and> stops ys \<and>
     group_fits number (v # vs) \<and> slot_free number m \<and>
     ps_left st = length (v @ encode_values 0 vs @ ys) \<and> ps_msg st = ensure_list number m"

text \<open>What the parser is to reach from there.\<close>

definition group_stored ::
  "parse_state \<Rightarrow> (int \<times> parse_state) option \<Rightarrow> bytes \<Rightarrow> bytes list \<Rightarrow> nat \<Rightarrow> coap_hdr \<Rightarrow> bool" where
  "group_stored st r v vs number m \<longleftrightarrow>
     value_parsed st r (ps_pos st + length (v @ encode_values 0 vs)) (store_group number (v # vs) m)"

lemma single_at:
  "group_at pkt st v vs ys number m \<Longrightarrow> number \<notin> set multiple_numbers \<Longrightarrow>
   vs = [] \<and> at pkt (ps_pos st) (v @ ys)"
  by (auto simp: group_at_def group_fits_def split: if_split_asm)

lemma uint_value:
  assumes g: "group_at pkt st v vs ys number m"
    and "number \<in> set uint_numbers" "uint_limit number = maximum" "\<not> present"
    and "f (be_value v) (ensure_list number m) = store_group number (v # vs) m"
  shows "group_stored st (parse_uint_case pkt (length v) maximum present f st) v vs number m"
proof -
  have n: "number \<notin> set multiple_numbers" "maximum \<le> 4"
    using assms(2,3) by (auto simp: uint_numbers_def multiple_numbers_def uint_limit_def)
  have "length v \<le> maximum" using g assms(2,3) by (simp add: group_at_def group_fits_def)
  from at_parse_uint_case [OF single_at [OF g n(1), THEN conjunct2] this n(2) assms(4), of f]
  show ?thesis using single_at [OF g n(1)] g assms(5) by (simp add: group_at_def group_stored_def)
qed

lemma opaque_value:
  assumes g: "group_at pkt st v vs ys number m" and "number \<in> set opaque_numbers"
    and "maximum = (if number = COAP_OPTION_URI_HOST then 255 else 1034)" "\<not> present"
    and "k (Some v) (f (length v) (ensure_list number m)) = store_group number (v # vs) m"
  shows "group_stored st
    (parse_opaque_case (\<lambda>_. True) pkt (length pkt) (length v) maximum present f k st) v vs number m"
proof -
  have n: "number \<notin> set multiple_numbers" "number \<notin> set uint_numbers"
    using assms(2) by (auto simp: opaque_numbers_def multiple_numbers_def uint_numbers_def)
  have "1 \<le> length v" "length v \<le> maximum" "length pkt < 65536"
    using g assms(2,3) n(2) by (auto simp: group_at_def group_fits_def)
  with at_parse_opaque_case [OF single_at [OF g n(1), THEN conjunct2] _ _ _ assms(4), of maximum f k]
  show ?thesis using single_at [OF g n(1)] g assms(5) by (simp add: group_at_def group_stored_def)
qed

lemma multiple_value:
  assumes g: "group_at pkt st v vs ys number m" and "number \<in> set multiple_numbers" "\<not> present"
    and "f (Some (join_parts (option_separator number) (v # vs)))
          (length (join_parts (option_separator number) (v # vs))) (ensure_list number m)
         = store_group number (v # vs) m"
  shows "group_stored st (parse_multiple_case (\<lambda>_. True) pkt number (length v) present dst dlen f st)
    v vs number m"
proof -
  have n: "number \<notin> set opaque_numbers" "number \<notin> set uint_numbers"
    using assms(2) by (auto simp: opaque_numbers_def multiple_numbers_def uint_numbers_def)
  then have fit: "parts_accepted number (v # vs)" "length (v # vs) < 128"
    "length (join_parts (option_separator number) (v # vs)) < 32768"
    using g by (simp_all add: group_at_def group_fits_def)
  have "at pkt (ps_pos st) (v @ encode_values 0 vs @ ys)" "length pkt < 65536" "stops ys"
    and left: "ps_left st = length (v @ encode_values 0 vs @ ys)"
    and msg: "ps_msg st = ensure_list number m"
    using g by (simp_all add: group_at_def)
  from at_parse_multiple_case [OF this(1-3) fit left assms(3), of dst dlen f]
  show ?thesis unfolding group_stored_def msg assms(4) .
qed

lemma etag_length:
  "group_at pkt st v vs ys COAP_OPTION_ETAG m \<Longrightarrow>
   length (join_parts (option_separator COAP_OPTION_ETAG) (v # vs)) < 256"
  by (simp add: group_at_def group_fits_def uint_numbers_def opaque_numbers_def)

lemmas store_simps =
  ensure_list_def options_in_list_def upd_options_def store_group_def store_list_option_def
  slot_free_def Let_def

lemma at_parse_etag:
  assumes g: "group_at pkt st v vs ys COAP_OPTION_ETAG m"
  shows "group_stored st (parse_option_value (\<lambda>_. True) pkt (length pkt) COAP_OPTION_ETAG (length v) st)
    v vs COAP_OPTION_ETAG m"
proof -
  have msg: "ps_msg st = ensure_list COAP_OPTION_ETAG m" and free: "slot_free COAP_OPTION_ETAG m"
    using g by (simp_all add: group_at_def)
  note set = set_etag_len16_small [OF etag_length [OF g]]
  from free show ?thesis
    using set
    by (auto simp: parse_option_value_def parse_list_option_def msg store_simps multiple_numbers_def
        intro!: multiple_value [OF g])
qed

lemma at_parse_option_value:
  assumes g: "group_at pkt st v vs ys number m"
  shows "group_stored st (parse_option_value (\<lambda>_. True) pkt (length pkt) number (length v) st)
    v vs number m"
proof -
  have msg: "ps_msg st = ensure_list number m" and free: "slot_free number m"
    and fits: "group_fits number (v # vs)"
    using g by (simp_all add: group_at_def)
  note defs = parse_option_value_def parse_list_option_def msg
  consider "number = COAP_OPTION_ETAG"
    | "number \<in> set multiple_numbers" "number \<noteq> COAP_OPTION_ETAG"
    | "number \<in> set uint_numbers" | "number \<in> set opaque_numbers"
    using group_fits_number [OF fits]
    by (auto simp: multiple_numbers_def uint_numbers_def opaque_numbers_def)
  then show ?thesis
  proof cases
    case 1
    with at_parse_etag g show ?thesis by simp
  next
    case 2
    then consider "number = 8" | "number = 11" | "number = 15" | "number = 20"
      by (auto simp: multiple_numbers_def)
    then show ?thesis
      by cases (insert free g,
        (simp add: defs store_simps multiple_numbers_def split del: if_split;
         rule multiple_value; simp add: multiple_numbers_def store_simps split del: if_split))+
  next
    case 3
    then have "number \<in> {6, 7, 12, 14, 17, 23, 27, 28, 60}" by (auto simp: uint_numbers_def)
    then show ?thesis
      using free g
      by (auto simp: defs store_simps uint_numbers_def uint_limit_def intro!: uint_value)
  next
    case 4
    then have "number \<in> {3, 35}" by (auto simp: opaque_numbers_def)
    then show ?thesis
      using free g
      by (auto simp: defs store_simps opaque_numbers_def intro!: opaque_value)
  qed
qed

section \<open>One iteration of the option loop\<close>

lemma at_parse_one_option:
  assumes "at pkt (ps_pos st) (encode_values (number - ps_prev st) (v # vs) @ ys)"
    and "length pkt < 65536" "stops ys" "ps_prev st \<le> number"
    and "group_fits number (v # vs)" "slot_free number (ps_msg st)"
  shows "\<exists>n. parse_one_option (\<lambda>_. True) pkt (length pkt) (hd (encode_option (number - ps_prev st) v)) st =
    Some (0, st\<lparr>ps_pos := ps_pos st + length (encode_values (number - ps_prev st) (v # vs)),
                ps_left := length ys, ps_prev := number,
                ps_msg := store_group number (v # vs) (ps_msg st), ps_nreq := n\<rparr>)"
proof -
  let ?d = "number - ps_prev st" and ?rest = "encode_values 0 vs @ ys"
  let ?p = "ps_pos st + option_head_size ?d v"
  have num: "number < 256" using group_fits_number [OF assms(5)] by auto
  have a: "at pkt (ps_pos st) (encode_option ?d v @ ?rest)" using assms(1) by simp
  have av: "at pkt ?p (v @ ?rest)" by (rule at_encode_value [OF a])
  have h: "read_option_header pkt (length pkt) (hd (encode_option ?d v)) (ps_pos st) (ps_prev st) =
      Some (Some (number, length v, ?p, length (v @ ?rest)))"
    using at_read_option_header [OF a assms(2), of "ps_prev st"] assms(4) num by simp
  obtain n1 where al: "(if number \<in> set options_in_list then alloc_options (\<lambda>_. True) (ps_nreq st) (ps_msg st)
      else (True, ps_msg st, ps_nreq st)) = (True, ensure_list number (ps_msg st), n1)"
    using alloc_options_ensure [of number "ps_nreq st" "ps_msg st"] by blast
  let ?st1 = "st\<lparr>ps_pos := ?p, ps_left := length (v @ ?rest), ps_prev := u8_wrap number,
      ps_msg := ensure_list number (ps_msg st), ps_nreq := n1\<rparr>"
  have "group_at pkt ?st1 v vs ys number (ps_msg st)"
    using av assms(2,3,5,6) by (simp add: group_at_def)
  from at_parse_option_value [OF this] obtain l n where val:
    "parse_option_value (\<lambda>_. True) pkt (length pkt) number (length v) ?st1 =
      Some (0, ?st1\<lparr>ps_pos := ?p + length (v @ encode_values 0 vs), ps_left := l,
        ps_msg := store_group number (v # vs) (ps_msg st), ps_nreq := n\<rparr>)"
    unfolding group_stored_def value_parsed_def by auto
  define e where "e = ps_pos st + length (encode_values ?d (v # vs))"
  have pos: "?p + length (v @ encode_values 0 vs) = e"
    by (simp add: e_def option_head_size_def length_encode_option)
  have fin: "at pkt e ys" unfolding e_def by (rule at_append [OF assms(1)])
  have "in_frame pkt 0 (length pkt) e" using assms(2) by (simp add: in_frame_def)
  from at_move [of pkt e "[]" ys, OF _ this] fin
  have mv: "move_packet_ptr e 0 (length pkt) 0 = (e, length ys)" by simp
  have le: "\<not> length pkt < e" using at_length [OF fin] by linarith
  have "length v \<le> length (v @ ?rest)" by simp
  then show ?thesis
    unfolding parse_one_option_def h option.case prod.case al Let_def e_def [symmetric]
    by (intro exI [of _ n]) (simp only: val pos, simp add: mv le u8_wrap_id [OF num])
qed

section \<open>The option loop\<close>

definition store_groups :: "group list \<Rightarrow> coap_hdr \<Rightarrow> coap_hdr" where
  "store_groups gs m = fold (\<lambda>(number, vs). store_group number vs) gs m"

fun ascending :: "nat \<Rightarrow> group list \<Rightarrow> bool" where
  "ascending prev [] = True"
| "ascending prev ((number, vs) # gs) = (prev < number \<and> ascending number gs)"

lemma ascending_mono: "ascending n gs \<Longrightarrow> m \<le> n \<Longrightarrow> ascending m gs"
  by (cases gs) auto

lemma ascending_above: "ascending prev gs \<Longrightarrow> (k, vs) \<in> set gs \<Longrightarrow> prev < k"
  by (induction prev gs rule: ascending.induct) fastforce+

definition ends_options :: "bytes \<Rightarrow> bool" where
  "ends_options tail \<longleftrightarrow> tail = [] \<or> hd tail = 0xFF"

lemma stops_groups:
  "ascending prev gs \<Longrightarrow> ends_options tail \<Longrightarrow> stops (encode_groups prev gs @ tail)"
proof (induction prev gs rule: encode_groups.induct)
  case (1 prev)
  then show ?case by (auto simp: stops_def ends_options_def)
next
  case (2 prev number vs gs)
  show ?case
  proof (cases vs)
    case Nil
    with 2 ascending_mono [of number gs prev] show ?thesis by simp
  next
    case (Cons v ws)
    have "ext_nibble (number - prev) \<noteq> 0" using 2(3) by (auto simp: ext_nibble_def)
    then have "unat (drop_bit 4 (hd (encode_option (number - prev) v))) \<noteq> 0"
      by (simp only: encode_option_nibbles not_False_eq_True)
    then have "drop_bit 4 (hd (encode_option (number - prev) v)) \<noteq> 0" by (metis unat_0)
    with Cons show ?thesis by (auto simp: stops_def)
  qed
qed

lemma list_options_store [simp]:
  "list_options (m\<lparr>options_list_ptr := Some opts\<rparr>) = opts"
  "list_options (m\<lparr>content_format := n\<rparr>) = list_options m"
  "list_options (m\<lparr>uri_path_ptr := q, uri_path_len := l\<rparr>) = list_options m"
  by (simp_all add: list_options_def)

lemma slot_free_store:
  assumes "slot_free k m" "k \<noteq> j" "group_fits j vs"
  shows "slot_free k (store_group j vs m)"
  using group_fits_number [OF assms(3)] assms(1,2)
  by (elim insertE emptyE; hypsubst)
    (simp_all add: slot_free_def store_group_def store_list_option_def Let_def split: if_split_asm)

definition groups_fit :: "group list \<Rightarrow> bool" where
  "groups_fit gs \<longleftrightarrow> (\<forall>(number, vs) \<in> set gs. vs \<noteq> [] \<longrightarrow> group_fits number vs)"

lemma options_loop_groups:
  assumes "at pkt (ps_pos st) (encode_groups (ps_prev st) gs @ tail)" "length pkt < 65536"
    and "ascending (ps_prev st) gs" "ends_options tail" "groups_fit gs"
    and "\<forall>(number, vs) \<in> set gs. slot_free number (ps_msg st)"
    and "ps_left st = length (encode_groups (ps_prev st) gs @ tail)"
  shows "\<exists>n prev. options_loop (\<lambda>_. True) pkt (length pkt) st =
    Some (0, st\<lparr>ps_pos := length pkt - length tail, ps_left := length tail, ps_prev := prev,
                ps_msg := store_groups gs (ps_msg st), ps_nreq := n\<rparr>)"
  using assms
proof (induction gs arbitrary: st)
  case Nil
  have "options_loop (\<lambda>_. True) pkt (length pkt) st = Some (0, st)"
  proof (cases tail)
    case Nil
    with Nil.prems(7) show ?thesis by (simp add: options_loop.simps)
  next
    case (Cons x xs)
    with Nil.prems(1,4) have "rd pkt (ps_pos st) = Some 0xFF"
      by (auto simp: ends_options_def at_rd)
    with Cons Nil.prems(7) show ?thesis by (simp add: options_loop.simps)
  qed
  moreover have "ps_pos st = length pkt - length tail" using at_length [OF Nil.prems(1)] by simp
  ultimately show ?case
    using Nil.prems(7)
    by (intro exI [of _ "ps_nreq st"] exI [of _ "ps_prev st"]) (simp add: store_groups_def)
next
  case (Cons g gs)
  obtain number vs where g: "g = (number, vs)" by (cases g)
  show ?case
  proof (cases vs)
    case Nil
    have "store_groups (g # gs) (ps_msg st) = store_groups gs (ps_msg st)"
      by (simp add: store_groups_def g Nil store_group_def)
    moreover have "ascending (ps_prev st) gs"
      using Cons.prems(3) g ascending_mono [of number gs "ps_prev st"] by simp
    ultimately show ?thesis
      using Cons.IH [of st] Cons.prems g Nil by (simp add: groups_fit_def)
  next
    case (Cons v ws)
    let ?d = "number - ps_prev st" and ?ys = "encode_groups number gs @ tail"
    have prems: "at pkt (ps_pos st) (encode_values ?d (v # ws) @ ?ys)"
      "ps_prev st < number" "ascending number gs" "group_fits number (v # ws)"
      "slot_free number (ps_msg st)" "groups_fit gs"
      using Cons.prems g Cons by (auto simp: groups_fit_def)
    let ?msg = "store_group number (v # ws) (ps_msg st)"
    obtain n where one: "parse_one_option (\<lambda>_. True) pkt (length pkt)
        (hd (encode_option ?d v)) st =
      Some (0, st\<lparr>ps_pos := ps_pos st + length (encode_values ?d (v # ws)),
                  ps_left := length ?ys, ps_prev := number, ps_msg := ?msg, ps_nreq := n\<rparr>)"
      using at_parse_one_option [OF prems(1) Cons.prems(2) stops_groups [OF prems(3) Cons.prems(4)]
          less_imp_le [OF prems(2)] prems(4,5)] by blast
    let ?st = "st\<lparr>ps_pos := ps_pos st + length (encode_values ?d (v # ws)),
                  ps_left := length ?ys, ps_prev := number, ps_msg := ?msg, ps_nreq := n\<rparr>"
    have free: "\<forall>(k, us) \<in> set gs. slot_free k ?msg"
    proof clarify
      fix k us assume "(k, us) \<in> set gs"
      with Cons.prems(6) ascending_above [OF prems(3)] show "slot_free k ?msg"
        by (intro slot_free_store [OF _ _ prems(4)]) auto
    qed
    have "rd pkt (ps_pos st) = Some (hd (encode_option ?d v))"
      using prems(1) by (intro at_rd [of pkt _ _ "tl (encode_option ?d v) @ encode_values 0 ws @ ?ys"])
        (simp add: encode_option_def)
    moreover have "ps_left st \<noteq> 0" using Cons.prems(7) g Cons by simp
    ultimately have "options_loop (\<lambda>_. True) pkt (length pkt) st =
        options_loop (\<lambda>_. True) pkt (length pkt) ?st"
      by (subst options_loop.simps) (simp add: one encode_option_nibbles(3))
    moreover have "\<exists>n prev. options_loop (\<lambda>_. True) pkt (length pkt) ?st =
        Some (0, ?st\<lparr>ps_pos := length pkt - length tail, ps_left := length tail, ps_prev := prev,
                    ps_msg := store_groups gs (ps_msg ?st), ps_nreq := n\<rparr>)"
      by (rule Cons.IH) (use at_append [OF prems(1)] Cons.prems(2,4) prems(3,6) free in simp_all)
    ultimately show ?thesis
      by (simp add: store_groups_def g Cons)
  qed
qed

end
