(* ===== verification/Coap_Message.thy ===== *)
theory Coap_Message
  imports Coap_Builder_Size Coap_Parts Coap_Store
begin

text \<open>
  The abstract specification of the CoAP codec: which messages are well formed, the option
  groups that represent a message and the packet \<open>coap_wire m\<close> that encodes it. The builder is
  shown to produce this packet (refinement); the parser is treated in \<open>Coap_Roundtrip\<close>.
\<close>

section \<open>Unsigned values\<close>

text \<open>A 32-bit value by its bytes; the builder sends them without the leading zeros.\<close>

definition word4 :: "nat \<Rightarrow> nat \<Rightarrow> nat \<Rightarrow> nat \<Rightarrow> nat" where
  "word4 a b c d = a * 16777216 + b * 65536 + c * 256 + d"

lemma word4_shift:
  "b < 256 \<Longrightarrow> c < 256 \<Longrightarrow> d < 256 \<Longrightarrow> u32_wrap (word4 a b c d * 256) = word4 b c d 0"
proof -
  assume "b < 256" "c < 256" "d < 256"
  moreover have "word4 a b c d * 256 = word4 b c d 0 + a * 4294967296" by (simp add: word4_def)
  ultimately show ?thesis
    unfolding u32_wrap_def by (simp only: mod_mult_self1) (simp add: word4_def)
qed

lemma word4_top: "b < 256 \<Longrightarrow> c < 256 \<Longrightarrow> d < 256 \<Longrightarrow> word4 a b c d div 16777216 = a"
proof -
  assume "b < 256" "c < 256" "d < 256"
  then have "b * 65536 + c * 256 + d < 16777216" by linarith
  moreover have "word4 a b c d = (b * 65536 + c * 256 + d) + a * 16777216" by (simp add: word4_def)
  ultimately show ?thesis by (simp only: div_mult_self1 div_less)
qed

fun strip_zeros :: "nat list \<Rightarrow> nat list" where
  "strip_zeros [] = []"
| "strip_zeros (b # bs) = (if b = 0 then strip_zeros bs else b # bs)"

lemma uint_payload_word4:
  assumes "a < 256" "b < 256" "c < 256" "d < 256"
  shows "uint_payload 4 (word4 a b c d) [] = map byte_of (strip_zeros [a, b, c, d])"
proof -
  have four: "(4 :: nat) = Suc (Suc (Suc (Suc 0)))" by simp
  show ?thesis
    unfolding four using assms
    by (simp add: word4_shift word4_top)
qed

lemma word4_cases:
  assumes "n < 4294967296"
  obtains a b c d where "n = word4 a b c d" "a < 256" "b < 256" "c < 256" "d < 256"
proof (rule that)
  have "n = n div 256 * 256 + n mod 256" "n div 256 = n div 65536 * 256 + n div 256 mod 256"
    "n div 65536 = n div 16777216 * 256 + n div 65536 mod 256"
    using div_mult_mod_eq [of "n div 256" 256] div_mult_mod_eq [of "n div 65536" 256]
    by (simp_all add: div_mult2_eq [symmetric])
  then show "n = word4 (n div 16777216) (n div 65536 mod 256) (n div 256 mod 256) (n mod 256)"
    unfolding word4_def by linarith
  show "n div 16777216 < 256" using assms by simp
qed simp_all
lemma be_value_bytes:
  "\<forall>b \<in> set bs. b < 256 \<Longrightarrow> be_value (map byte_of bs) = foldl (\<lambda>a b. a * 256 + b) 0 bs"
proof -
  have "\<forall>b \<in> set bs. b < 256 \<Longrightarrow>
      foldl (\<lambda>a b. a * 256 + unat b) k (map byte_of bs) = foldl (\<lambda>a b. a * 256 + b) k bs" for k
    by (induction bs arbitrary: k) auto
  then show "\<forall>b \<in> set bs. b < 256 \<Longrightarrow> be_value (map byte_of bs) = foldl (\<lambda>a b. a * 256 + b) 0 bs"
    by (simp add: be_value_def)
qed

lemma be_value_uint_payload: "n < 4294967296 \<Longrightarrow> be_value (uint_payload 4 n []) = n"
proof -
  assume "n < 4294967296"
  then obtain a b c d where n: "n = word4 a b c d" and l: "a < 256" "b < 256" "c < 256" "d < 256"
    by (rule word4_cases)
  show ?thesis
    unfolding n uint_payload_word4 [OF l] using l
    by (subst be_value_bytes) (auto simp: word4_def)
qed

lemma uint_payload_short:
  "n < 65536 \<Longrightarrow> length (uint_payload 4 n []) \<le> 2"
  "n < 16777216 \<Longrightarrow> length (uint_payload 4 n []) \<le> 3"
proof -
  have *: "length (uint_payload 4 n []) \<le> k"
    if "n < 4294967296" "k = 2 \<and> n < 65536 \<or> k = 3 \<and> n < 16777216" for k
  proof -
    note small = that
    obtain a b c d where n: "n = word4 a b c d" and l: "a < 256" "b < 256" "c < 256" "d < 256"
      using word4_cases [OF small(1)] by blast
    from small(2) n l have "a = 0 \<and> (k = 2 \<longrightarrow> b = 0)" "k = 2 \<or> k = 3" by (auto simp: word4_def)
    with l show ?thesis unfolding n uint_payload_word4 [OF l] by auto
  qed
  show "n < 65536 \<Longrightarrow> length (uint_payload 4 n []) \<le> 2"
    "n < 16777216 \<Longrightarrow> length (uint_payload 4 n []) \<le> 3"
    using * by simp_all
qed

section \<open>Parts of a joined string\<close>

fun split_parts :: "u8 \<Rightarrow> bytes \<Rightarrow> bytes list" where
  "split_parts ch [] = [[]]"
| "split_parts ch (b # bs) =
     (if b = ch then [] # split_parts ch bs
      else case split_parts ch bs of [] \<Rightarrow> [[b]] | p # ps \<Rightarrow> (b # p) # ps)"

lemma split_parts_nonempty [simp]: "split_parts ch q \<noteq> []"
  by (induction q) (auto split: list.split)

lemma join_split_parts: "join_parts ch (split_parts ch q) = q"
  by (induction q) (auto simp: join_parts_Cons split: list.split)

lemma char_to_search_eq: "char_to_search option = option_separator option"
  by (simp add: char_to_search_def option_separator_def)

section \<open>Groups of a message\<close>

definition text_parts :: "nat \<Rightarrow> bytes option \<Rightarrow> bytes list" where
  "text_parts number ptr =
     (case ptr of None \<Rightarrow> [] | Some q \<Rightarrow> split_parts (option_separator number) q)"

definition uint_value_if :: "bool \<Rightarrow> nat \<Rightarrow> bytes list" where
  "uint_value_if present n = (if present then [uint_payload 4 n []] else [])"

definition early_groups :: "coap_options \<Rightarrow> group list" where
  "early_groups opts =
     [(COAP_OPTION_URI_HOST, case uri_host_ptr opts of None \<Rightarrow> [] | Some q \<Rightarrow> [q]),
      (COAP_OPTION_ETAG, text_parts COAP_OPTION_ETAG (etag_ptr opts)),
      (COAP_OPTION_OBSERVE, uint_value_if (observe opts \<noteq> COAP_OBSERVE_NONE) (u32_of_int (observe opts))),
      (COAP_OPTION_URI_PORT,
        uint_value_if (uri_port opts \<noteq> COAP_OPTION_URI_PORT_NONE) (u32_of_int (uri_port opts))),
      (COAP_OPTION_LOCATION_PATH, text_parts COAP_OPTION_LOCATION_PATH (location_path_ptr opts))]"

definition main_groups :: "coap_hdr \<Rightarrow> group list" where
  "main_groups m =
     [(COAP_OPTION_URI_PATH, text_parts COAP_OPTION_URI_PATH (uri_path_ptr m)),
      (COAP_OPTION_CONTENT_FORMAT,
        uint_value_if (content_format m \<noteq> COAP_CT_NONE) (u32_of_int (content_format m)))]"

definition late_groups :: "coap_options \<Rightarrow> group list" where
  "late_groups opts =
     [(COAP_OPTION_MAX_AGE,
        uint_value_if (max_age opts \<noteq> COAP_OPTION_MAX_AGE_DEFAULT) (max_age opts)),
      (COAP_OPTION_URI_QUERY, text_parts COAP_OPTION_URI_QUERY (uri_query_ptr opts)),
      (COAP_OPTION_ACCEPT, uint_value_if (accept opts \<noteq> COAP_CT_NONE) (u32_of_int (accept opts))),
      (COAP_OPTION_LOCATION_QUERY, text_parts COAP_OPTION_LOCATION_QUERY (location_query_ptr opts)),
      (COAP_OPTION_BLOCK2,
        uint_value_if (block2 opts \<noteq> COAP_OPTION_BLOCK_NONE) (u32_of_int (block2 opts))),
      (COAP_OPTION_BLOCK1,
        uint_value_if (block1 opts \<noteq> COAP_OPTION_BLOCK_NONE) (u32_of_int (block1 opts))),
      (COAP_OPTION_SIZE2, uint_value_if (use_size2 opts) (size2 opts)),
      (COAP_OPTION_PROXY_URI, case proxy_uri_ptr opts of None \<Rightarrow> [] | Some q \<Rightarrow> [q]),
      (COAP_OPTION_SIZE1, uint_value_if (use_size1 opts) (size1 opts))]"

definition message_groups :: "coap_hdr \<Rightarrow> group list" where
  "message_groups m =
     (case options_list_ptr m of None \<Rightarrow> [] | Some opts \<Rightarrow> early_groups opts)
     @ main_groups m
     @ (case options_list_ptr m of None \<Rightarrow> [] | Some opts \<Rightarrow> late_groups opts)"

definition coap_wire :: "coap_hdr \<Rightarrow> bytes" where
  "coap_wire m =
     [byte_of (64 + msg_type m + token_len m), byte_of (msg_code m),
      byte_of (msg_id m div 256), byte_of (msg_id m)]
     @ (case token_ptr m of None \<Rightarrow> [] | Some t \<Rightarrow> t)
     @ encode_groups 0 (message_groups m)
     @ (case payload_ptr m of None \<Rightarrow> [] | Some p \<Rightarrow> 0xFF # p)"

section \<open>Well-formed messages\<close>

text \<open>A length field is the length of the block its pointer points to.\<close>

definition exact :: "bytes option \<Rightarrow> nat \<Rightarrow> bool" where
  "exact ptr len \<longleftrightarrow> len = (case ptr of None \<Rightarrow> 0 | Some q \<Rightarrow> length q)"

definition text_ok :: "nat \<Rightarrow> bytes option \<Rightarrow> nat \<Rightarrow> bool" where
  "text_ok number ptr len \<longleftrightarrow>
     exact ptr len \<and> len < 32768 \<and> (number = COAP_OPTION_ETAG \<longrightarrow> len < 256) \<and>
     (case ptr of
        None \<Rightarrow> True
      | Some q \<Rightarrow>
          proper_parts (option_separator number) (text_parts number ptr) \<and>
          length (text_parts number ptr) < 128 \<and>
          (\<forall>v \<in> set (text_parts number ptr). \<not> option_part_too_long number (length v)))"

definition options_ok :: "coap_options \<Rightarrow> bool" where
  "options_ok opts \<longleftrightarrow>
     exact (uri_host_ptr opts) (uri_host_len opts) \<and> uri_host_len opts \<le> 255 \<and>
     uri_host_ptr opts \<noteq> Some [] \<and>
     exact (proxy_uri_ptr opts) (proxy_uri_len opts) \<and> proxy_uri_len opts \<le> 1034 \<and>
     proxy_uri_len opts \<noteq> 269 \<and> proxy_uri_ptr opts \<noteq> Some [] \<and>
     text_ok COAP_OPTION_ETAG (etag_ptr opts) (etag_len opts) \<and>
     text_ok COAP_OPTION_LOCATION_PATH (location_path_ptr opts) (location_path_len opts) \<and>
     text_ok COAP_OPTION_URI_QUERY (uri_query_ptr opts) (uri_query_len opts) \<and>
     text_ok COAP_OPTION_LOCATION_QUERY (location_query_ptr opts) (location_query_len opts) \<and>
     (-1 \<le> observe opts \<and> observe opts \<le> 0xffff) \<and> (-1 \<le> uri_port opts \<and> uri_port opts \<le> 0xffff) \<and>
     (-1 \<le> accept opts \<and> accept opts \<le> 0xffff) \<and>
     (-1 \<le> block1 opts \<and> block1 opts \<le> 0xffffff) \<and> (-1 \<le> block2 opts \<and> block2 opts \<le> 0xffffff) \<and>
     max_age opts < 4294967296 \<and> size1 opts < 4294967296 \<and> size2 opts < 4294967296"

definition message_ok :: "coap_hdr \<Rightarrow> bool" where
  "message_ok m \<longleftrightarrow>
     msg_type m \<in> {COAP_MSG_TYPE_CONFIRMABLE, COAP_MSG_TYPE_NON_CONFIRMABLE,
                   COAP_MSG_TYPE_ACKNOWLEDGEMENT} \<and>
     msg_code m \<in> set coap_known_codes \<and> msg_id m < 65536 \<and>
     exact (token_ptr m) (token_len m) \<and> token_len m \<le> 8 \<and> token_ptr m \<noteq> Some [] \<and>
     text_ok COAP_OPTION_URI_PATH (uri_path_ptr m) (uri_path_len m) \<and>
     -1 \<le> content_format m \<and> content_format m \<le> 0xffff \<and>
     exact (payload_ptr m) (payload_len m) \<and> payload_ptr m \<noteq> Some [] \<and>
     (case options_list_ptr m of None \<Rightarrow> True | Some opts \<Rightarrow> options_ok opts)"

section \<open>The parser's limits\<close>

lemma text_parts_fits:
  assumes "text_ok number ptr len" "number \<in> set multiple_numbers"
  shows "text_parts number ptr \<noteq> [] \<longrightarrow> group_fits number (text_parts number ptr)"
proof (cases ptr)
  case None
  then show ?thesis by (simp add: text_parts_def)
next
  case (Some q)
  have n: "number \<notin> set uint_numbers" "number \<notin> set opaque_numbers"
    using assms(2) by (auto simp: multiple_numbers_def uint_numbers_def opaque_numbers_def)
  have "join_parts (option_separator number) (text_parts number ptr) = q"
    by (simp add: text_parts_def Some join_split_parts)
  with assms n Some show ?thesis
    by (auto simp: group_fits_def text_ok_def exact_def parts_accepted_def proper_parts_def)
qed

lemma uint_value_fits:
  assumes "number \<in> set uint_numbers"
    and "present \<Longrightarrow> n < 256 ^ uint_limit number"
  shows "uint_value_if present n \<noteq> [] \<longrightarrow> group_fits number (uint_value_if present n)"
proof -
  have "uint_limit number = 2 \<or> uint_limit number = 3 \<or> uint_limit number = 4"
    by (auto simp: uint_limit_def)
  then show ?thesis
    using assms uint_payload_short [of n] uint_payload_4_length [of n]
    by (auto simp: group_fits_def uint_value_if_def)
qed

lemma u32_of_int_id: "0 \<le> v \<Longrightarrow> v < 4294967296 \<Longrightarrow> u32_of_int v = nat v"
  by (simp add: u32_of_int_def)

lemma int_value_fits:
  assumes "number \<in> set uint_numbers" "-1 \<le> v" "v < 256 ^ uint_limit number"
  shows "uint_value_if (v \<noteq> -1) (u32_of_int v) \<noteq> [] \<longrightarrow>
    group_fits number (uint_value_if (v \<noteq> -1) (u32_of_int v))"
proof (cases "v = -1")
  case True
  then show ?thesis by (simp add: uint_value_if_def)
next
  case False
  with assms(2) have v: "0 \<le> v" by simp
  have "uint_limit number \<le> 4" by (simp add: uint_limit_def)
  then have "(256 :: int) ^ uint_limit number \<le> 256 ^ 4" by (rule power_increasing) simp
  with v assms(3) have "u32_of_int v = nat v" by (intro u32_of_int_id) simp_all
  moreover have "nat v < 256 ^ uint_limit number"
    using v assms(3) by (simp add: nat_less_iff)
  ultimately show ?thesis using uint_value_fits [OF assms(1), of True "nat v"] False by simp
qed

lemma message_groups_fit:
  assumes "message_ok m"
  shows "groups_fit (message_groups m)"
proof -
  note defs = uint_numbers_def opaque_numbers_def multiple_numbers_def uint_limit_def
  have main: "groups_fit (main_groups m)"
    using assms text_parts_fits [of 11 "uri_path_ptr m" "uri_path_len m"]
      int_value_fits [of 12 "content_format m"]
    by (simp add: groups_fit_def main_groups_def message_ok_def defs u32_of_int_id)
  have early: "groups_fit (early_groups opts)" and late: "groups_fit (late_groups opts)"
    if "options_ok opts" for opts
  proof -
    have host: "group_fits 3 [q]" if "uri_host_ptr opts = Some q" for q
      using \<open>options_ok opts\<close> that
      by (cases q) (auto simp: options_ok_def group_fits_def defs exact_def)
    have proxy: "group_fits 35 [q]" if "proxy_uri_ptr opts = Some q" for q
      using \<open>options_ok opts\<close> that
      by (cases q) (auto simp: options_ok_def group_fits_def defs exact_def)
    show "groups_fit (early_groups opts)"
      using that host text_parts_fits [of 4 "etag_ptr opts" "etag_len opts"]
        int_value_fits [of 6 "observe opts"]
        int_value_fits [of 7 "uri_port opts"]
        text_parts_fits [of 8 "location_path_ptr opts" "location_path_len opts"]
      by (simp add: groups_fit_def early_groups_def options_ok_def defs u32_of_int_id split: option.split)
    show "groups_fit (late_groups opts)"
      using that proxy text_parts_fits [of 15 "uri_query_ptr opts" "uri_query_len opts"]
        text_parts_fits [of 20 "location_query_ptr opts" "location_query_len opts"]
        uint_value_fits [of 14 "max_age opts \<noteq> 60" "max_age opts"]
        int_value_fits [of 17 "accept opts"]
        int_value_fits [of 23 "block2 opts"]
        int_value_fits [of 27 "block1 opts"]
        uint_value_fits [of 28 "use_size2 opts" "size2 opts"]
        uint_value_fits [of 60 "use_size1 opts" "size1 opts"]
      by (simp add: groups_fit_def late_groups_def options_ok_def defs u32_of_int_id split: option.split)
  qed
  show ?thesis
  proof (cases "options_list_ptr m")
    case None
    with main show ?thesis by (simp add: message_groups_def)
  next
    case (Some opts)
    with assms have "options_ok opts" by (simp add: message_ok_def)
    with main early late Some show ?thesis
      by (simp add: message_groups_def groups_fit_def ball_Un)
  qed
qed

lemma message_groups_ascending: "ascending 0 (message_groups m)"
  by (simp add: message_groups_def early_groups_def main_groups_def late_groups_def split: option.split)

section \<open>The builder produces the groups\<close>

definition writer_encodes :: "option_writer \<Rightarrow> group \<Rightarrow> bool" where
  "writer_encodes w g \<longleftrightarrow>
     (\<forall>out prev. prev \<le> fst g \<longrightarrow>
        w (out, prev) = Some (if snd g = [] then (out, prev)
                              else (out @ encode_values (fst g - prev) (snd g), fst g)))"

lemma run_writers_encodes:
  "list_all2 writer_encodes ws gs \<Longrightarrow> ascending k gs \<Longrightarrow> prev \<le> k \<Longrightarrow>
   \<exists>p. run_writers ws (out, prev) = Some (out @ encode_groups prev gs, p)"
proof (induction ws gs arbitrary: k prev out rule: list_all2_induct)
  case Nil
  then show ?case by simp
next
  case (Cons w ws g gs)
  obtain number vs where g: "g = (number, vs)" by (cases g)
  have n: "prev \<le> number" "ascending number gs" using Cons.prems g by auto
  have w: "w (out, prev) = Some (if vs = [] then (out, prev)
      else (out @ encode_values (number - prev) vs, number))"
    using Cons.hyps(1) n g by (simp add: writer_encodes_def)
  show ?case
  proof (cases "vs = []")
    case True
    with Cons.IH [OF n(2,1), of out] w g show ?thesis by simp
  next
    case False
    with Cons.IH [OF n(2) order_refl, of "out @ encode_values (number - prev) vs"] w g
    show ?thesis by auto
  qed
qed

lemma write_uint_encodes:
  "number < 65536 \<Longrightarrow> writer_encodes (write_uint_if present n number) (number, uint_value_if present n)"
proof -
  assume a: "number < 65536"
  have "rd_block v 0 (length v) = Some v" for v by (simp add: rd_block_def)
  with a show ?thesis
    by (auto simp: writer_encodes_def write_uint_if_def uint_value_if_def
        options_build_add_uint_option_def Let_def add_one_option_encode)
qed

lemma write_one_encodes:
  "number < 65536 \<Longrightarrow> exact ptr len \<Longrightarrow>
   writer_encodes (write_one len ptr number) (number, case ptr of None \<Rightarrow> [] | Some q \<Rightarrow> [q])"
  by (auto simp: writer_encodes_def write_one_def exact_def add_one_option_encode rd_block_def
      split: option.split)

lemma write_multiple_encodes:
  assumes "number < 65536" "text_ok number ptr len"
  shows "writer_encodes (write_multiple ptr len number) (number, text_parts number ptr)"
proof (cases ptr)
  case None
  then show ?thesis
    by (simp add: writer_encodes_def write_multiple_def text_parts_def options_build_add_multiple_option_def)
next
  case (Some q)
  with assms(2) have ok: "proper_parts (char_to_search number) (text_parts number ptr)"
    "length (text_parts number ptr) < 256" "length q < 65536" "len = length q"
    by (auto simp: text_ok_def exact_def char_to_search_eq)
  have q: "q = join_parts (char_to_search number) (text_parts number ptr)"
    by (simp add: text_parts_def Some join_split_parts char_to_search_eq)
  have ne: "text_parts number ptr \<noteq> []" by (simp add: text_parts_def Some)
  show ?thesis
    using add_multiple_option_proper [OF ok(1,2) assms(1) q ok(3)] ne
    by (simp add: writer_encodes_def write_multiple_def Some ok(4) [symmetric])
qed

lemma all_writers_encode:
  assumes "message_ok m"
  shows "list_all2 writer_encodes (all_option_writers m) (message_groups m)"
proof -
  have main: "list_all2 writer_encodes
      [write_multiple (uri_path_ptr m) (uri_path_len m) COAP_OPTION_URI_PATH,
        write_uint_if (content_format m \<noteq> COAP_CT_NONE) (u32_of_int (content_format m))
          COAP_OPTION_CONTENT_FORMAT] (main_groups m)"
    using assms by (simp add: main_groups_def message_ok_def write_multiple_encodes write_uint_encodes)
  have early: "list_all2 writer_encodes (early_option_writers opts) (early_groups opts)"
    if "options_ok opts" for opts
    using that by (simp add: early_option_writers_def early_groups_def options_ok_def
        write_multiple_encodes write_uint_encodes write_one_encodes)
  have late: "list_all2 writer_encodes (late_option_writers opts) (late_groups opts)"
    if "options_ok opts" for opts
    using that by (simp add: late_option_writers_def late_groups_def options_ok_def
        write_multiple_encodes write_uint_encodes write_one_encodes)
  show ?thesis
  proof (cases "options_list_ptr m")
    case None
    with main show ?thesis by (simp add: message_groups_def all_option_writers_def)
  next
    case (Some opts)
    with assms have "options_ok opts" by (simp add: message_ok_def)
    then show ?thesis
      unfolding message_groups_def all_option_writers_def Some option.case
      by (intro list_all2_appendI main early late)
  qed
qed

end
