(* ===== verification/Coap_Roundtrip.thy ===== *)
theory Coap_Roundtrip
  imports Coap_Message
begin

text \<open>
  The two ends of the codec put together. The builder accepts every well-formed message whose
  packet has at most 65535 bytes and writes \<open>coap_wire m\<close>; the parser reads \<open>coap_wire m\<close> back
  as \<open>canonical m\<close>, the message with the fields the wire format does not carry reset.
\<close>

section \<open>The size of a well-formed message\<close>

definition sized :: "nat option option \<Rightarrow> bool" where
  "sized s \<longleftrightarrow> (\<exists>n. s = Some (Some n))"

lemma add_sizes_sized: "\<forall>s \<in> set ss. sized s \<Longrightarrow> \<exists>n. add_sizes ss acc = Some (Some n)"
  by (induction ss acc rule: add_sizes.induct) (auto simp: sized_def)

lemma part_valid_accepted:
  "v \<noteq> [] \<Longrightarrow> \<not> option_part_too_long option (length v) \<Longrightarrow> repeatable option \<Longrightarrow>
   part_length_valid option (length v) \<and> length v \<le> 255"
  by (auto simp: part_length_valid_def option_part_too_long_def repeatable_def Suc_le_eq)

lemma calc_loop_proper:
  assumes "proper_parts (char_to_search option) ps" "length ps < 256" "repeatable option"
    and "q = join_parts (char_to_search option) ps" "length q < 65536"
    and "\<forall>v \<in> set ps. \<not> option_part_too_long option (length v)"
  shows "i + n = length ps \<Longrightarrow> 0 < ret \<or> 0 < n \<Longrightarrow> ret + 257 * n < 65536 \<Longrightarrow>
    \<exists>tot. calc_option_size_loop (length q) q option i n ret = Some tot \<and> tot \<noteq> 0"
proof (induction n arbitrary: i ret)
  case 0
  then show ?case by simp
next
  case (Suc n)
  then have i: "i < length ps" by simp
  let ?v = "ps ! i"
  have v: "?v \<noteq> []" "\<not> option_part_too_long option (length ?v)"
    using assms(1,6) i by (auto simp: proper_parts_def)
  note len = part_valid_accepted [OF v assms(3)]
  have h: "part_header_size (length ?v) = 1 + ext_size (length ?v)" "ext_size (length ?v) \<le> 1"
    using len by (auto simp: part_header_size_eq ext_size_def)
  let ?ret = "ret + part_header_size (length ?v) + length ?v"
  have "?ret + 257 * n < 65536" using Suc.prems(3) h len by simp
  with Suc.IH [of "Suc i" ?ret] Suc.prems(1) h
  obtain tot where "calc_option_size_loop (length q) q option (Suc i) n ?ret = Some tot" "tot \<noteq> 0"
    by auto
  moreover have "u16_wrap (u16_wrap (ret + part_header_size (length ?v)) + length ?v) = ?ret"
    using Suc.prems(3) h len by (simp add: wrap_simps)
  ultimately show ?case
    using part_scans_proper(1) [OF assms(1,2) i assms(4,5)] len by simp
qed

lemma repeatable_sized:
  assumes "text_ok number ptr len" "repeatable number"
  shows "sized (repeatable_size ptr len number)"
proof (cases ptr)
  case None
  then show ?thesis by (simp add: sized_def repeatable_size_def)
next
  case (Some q)
  let ?ps = "text_parts number ptr"
  have ok: "proper_parts (char_to_search number) ?ps" "length ?ps < 128" "length q < 65536"
      "len = length q" "\<forall>v \<in> set ?ps. \<not> option_part_too_long number (length v)"
    using assms(1) Some by (auto simp: text_ok_def exact_def char_to_search_eq)
  have q: "q = join_parts (char_to_search number) ?ps"
    by (simp add: text_parts_def Some join_split_parts char_to_search_eq)
  have n: "length ?ps < 256" "?ps \<noteq> []" using ok(2) by (auto simp: text_parts_def Some)
  have "\<exists>tot. calc_option_size_loop (length q) q number 0 (length ?ps) 0 = Some tot \<and> tot \<noteq> 0"
    by (rule calc_loop_proper [OF ok(1) n(1) assms(2) q ok(3,5)]) (use ok(2) n(2) in auto)
  then show ?thesis
    using get_option_part_count_proper [OF ok(1) n(1) q]
    by (auto simp: sized_def repeatable_size_def Some options_calc_option_size_def ok(4))
qed

lemma uint_sized:
  assumes "-1 \<le> v" "v \<le> int maximum" "maximum < 4294967296"
  shows "sized (uint_size v (-1) maximum)"
proof -
  have "u32_of_int v = nat v" if "v \<noteq> -1" using that assms by (intro u32_of_int_id) auto
  with assms show ?thesis by (auto simp: sized_def uint_size_def)
qed

lemma opaque_sized:
  assumes "exact (uri_host_ptr opts) (uri_host_len opts)" "uri_host_len opts \<le> 255"
    "uri_host_ptr opts \<noteq> Some []"
  shows "sized (uri_host_size opts)"
  using assms by (cases "uri_host_ptr opts")
    (auto simp: sized_def uri_host_size_def exact_def Let_def)

lemma proxy_sized:
  assumes "exact (proxy_uri_ptr opts) (proxy_uri_len opts)" "proxy_uri_len opts \<le> 1034"
    "proxy_uri_ptr opts \<noteq> Some []"
  shows "sized (proxy_uri_size opts)"
  using assms by (cases "proxy_uri_ptr opts")
    (auto simp: sized_def proxy_uri_size_def exact_def Let_def Suc_le_eq)

lemma token_sized:
  assumes "exact (token_ptr m) (token_len m)" "token_len m \<le> 8" "token_ptr m \<noteq> Some []"
  shows "sized (token_size m)"
  using assms by (cases "token_ptr m") (auto simp: sized_def token_size_def exact_def)

lemma options_list_sized:
  assumes "options_ok opts"
  shows "\<forall>s \<in> set (options_list_sizes opts). sized s"
  using assms
  by (simp add: options_list_sizes_def options_ok_def repeatable_sized repeatable_def opaque_sized
      proxy_sized uint_sized [where maximum = 65535, simplified]
      uint_sized [where maximum = 16777215, simplified])
    (simp add: sized_def max_age_size_def size1_size_def size2_size_def)

lemma message_sized:
  assumes "message_ok m"
  shows "\<exists>n. add_sizes ([token_size m,
            repeatable_size (uri_path_ptr m) (uri_path_len m) COAP_OPTION_URI_PATH,
            uint_size (content_format m) COAP_CT_NONE 0xffff]
           @ (case options_list_ptr m of None \<Rightarrow> [] | Some opts \<Rightarrow> options_list_sizes opts)) 4
        = Some (Some n)"
proof (rule add_sizes_sized)
  have "sized (token_size m)"
    "sized (repeatable_size (uri_path_ptr m) (uri_path_len m) COAP_OPTION_URI_PATH)"
    "sized (uint_size (content_format m) COAP_CT_NONE 0xffff)"
    using assms
    by (auto simp: message_ok_def repeatable_def intro!: token_sized repeatable_sized
        uint_sized [where maximum = 65535, simplified])
  moreover have "\<forall>s \<in> set (case options_list_ptr m of None \<Rightarrow> [] | Some opts \<Rightarrow> options_list_sizes opts).
      sized s"
    using assms options_list_sized by (auto simp: message_ok_def split: option.split_asm)
  ultimately show "\<forall>s \<in> set ([token_size m,
            repeatable_size (uri_path_ptr m) (uri_path_len m) COAP_OPTION_URI_PATH,
            uint_size (content_format m) COAP_CT_NONE 0xffff]
           @ (case options_list_ptr m of None \<Rightarrow> [] | Some opts \<Rightarrow> options_list_sizes opts)). sized s"
    by simp
qed

section \<open>The builder writes the reference packet\<close>

lemma small_number: "(l :: nat) \<le> 8 \<Longrightarrow> l \<in> {0, 1, 2, 3, 4, 5, 6, 7, 8}"
  by auto

lemma first_byte:
  assumes "t \<in> {0, 16, 32 :: nat}" "l \<le> 8"
  shows "byte_of 64 OR byte_of t OR byte_of l = byte_of (64 + t + l)"
    and "unat (byte_of (64 + t + l) AND 0x30) = t" "unat (byte_of (64 + t + l) AND 0xC0) = 64"
    and "unat (byte_of (64 + t + l)) mod 16 = l"
  using assms(1) small_number [OF assms(2)] by (auto simp: byte_of_def)

definition token_bytes :: "coap_hdr \<Rightarrow> bytes" where
  "token_bytes m = (case token_ptr m of None \<Rightarrow> [] | Some t \<Rightarrow> t)"

definition payload_bytes :: "coap_hdr \<Rightarrow> bytes" where
  "payload_bytes m = (case payload_ptr m of None \<Rightarrow> [] | Some p \<Rightarrow> 0xFF # p)"

definition header_bytes :: "coap_hdr \<Rightarrow> bytes" where
  "header_bytes m =
     [byte_of (64 + msg_type m + token_len m), byte_of (msg_code m),
      byte_of (msg_id m div 256), byte_of (msg_id m)]"

lemma length_header_bytes: "length (header_bytes m) = 4"
  by (simp add: header_bytes_def)

lemma coap_wire_parts:
  "coap_wire m = header_bytes m @ token_bytes m @ encode_groups 0 (message_groups m) @ payload_bytes m"
  by (simp add: coap_wire_def header_bytes_def token_bytes_def payload_bytes_def)

lemma message_ok_header:
  assumes "message_ok m"
  shows "header_build m = Some (header_bytes m)"
proof -
  have "msg_type m \<in> {0, 16, 32}" "token_len m \<le> 8" "msg_code m \<in> set coap_known_codes"
    using assms by (auto simp: message_ok_def)
  then have "sn_coap_header_validity_check m COAP_VERSION = 0" "byte_of 64 OR byte_of (msg_type m)
      OR byte_of (token_len m) = byte_of (64 + msg_type m + token_len m)"
    unfolding header_check_ok_iff using first_byte(1) by auto
  then show ?thesis by (simp add: header_build_def header_bytes_def)
qed

lemma message_ok_options:
  assumes "message_ok m"
  shows "options_build fill out m = Some (out @ token_bytes m @ encode_groups 0 (message_groups m))"
    and "\<exists>p. run_writers (all_option_writers m) (out, 0) =
           Some (out @ encode_groups 0 (message_groups m), p)"
proof -
  show run: "\<exists>p. run_writers (all_option_writers m) (out, 0) =
      Some (out @ encode_groups 0 (message_groups m), p)" for out
    by (rule run_writers_encodes [OF all_writers_encode [OF assms] message_groups_ascending]) simp
  show "options_build fill out m = Some (out @ token_bytes m @ encode_groups 0 (message_groups m))"
  proof (cases "uri_path_ptr m = None \<and> token_ptr m = None \<and> content_format m = COAP_CT_NONE \<and>
         options_list_ptr m = None")
    case True
    then show ?thesis
      by (simp add: options_build_def token_bytes_def message_groups_def main_groups_def
          text_parts_def uint_value_if_def)
  next
    case False
    have "(case token_ptr m of None \<Rightarrow> Some (take (token_len m) (fill @ replicate (token_len m) 0))
        | Some t \<Rightarrow> rd_block t 0 (token_len m)) = Some (token_bytes m)"
      using assms by (auto simp: message_ok_def exact_def token_bytes_def rd_block_def split: option.split)
    then show ?thesis
      unfolding options_build_def if_not_P [OF False] using run [of "out @ token_bytes m"] by auto
  qed
qed

lemma message_ok_payload:
  "message_ok m \<Longrightarrow> payload_build out m = Some (out @ payload_bytes m)"
  by (auto simp: message_ok_def payload_build_def payload_bytes_def exact_def rd_block_def
      split: option.split)

lemma calc_message_ok:
  assumes "message_ok m" "length (coap_wire m) \<le> 65535"
  shows "\<exists>n. calc_needed_packet_data_size_2 blockwise max_nonblock m block_size = Some n \<and> n \<noteq> 0"
proof -
  let ?opts = "encode_groups 0 (message_groups m)"
  obtain n where n: "add_sizes ([token_size m,
            repeatable_size (uri_path_ptr m) (uri_path_len m) COAP_OPTION_URI_PATH,
            uint_size (content_format m) COAP_CT_NONE 0xffff]
           @ (case options_list_ptr m of None \<Rightarrow> [] | Some opts \<Rightarrow> options_list_sizes opts)) 4
        = Some (Some n)"
    using message_sized [OF assms(1)] by blast
  obtain p where run: "run_writers (all_option_writers m) ([], 0) = Some ([] @ ?opts, p)"
    using message_ok_options(2) [OF assms(1)] by blast
  have proxy: "\<forall>opts. options_list_ptr m = Some opts \<longrightarrow>
        proxy_uri_ptr opts = None \<or> proxy_uri_len opts \<noteq> 269"
    using assms(1) by (auto simp: message_ok_def options_ok_def)
  have token: "token_ptr m = None \<longrightarrow> token_len m = 0" "length (token_bytes m) = token_len m"
    using assms(1) by (auto simp: message_ok_def exact_def token_bytes_def split: option.split)
  have "length (payload_bytes m) = payload_len m + (if payload_len m \<noteq> 0 then 1 else 0)"
    using assms(1) by (auto simp: message_ok_def exact_def payload_bytes_def split: option.split)
  then have "payload_size blockwise max_nonblock block_size m \<le> length (payload_bytes m)"
    by (auto simp: payload_size_def)
  moreover have "length ?opts + 4 + token_len m = n + jump_total (all_specs m) 0"
    using options_size [OF n proxy run token(1)] by simp
  moreover have "length (coap_wire m) = 4 + token_len m + length ?opts + length (payload_bytes m)"
    by (simp add: coap_wire_parts header_bytes_def token(2))
  ultimately have small: "n + payload_size blockwise max_nonblock block_size m
      + options_calculate_jump_need m \<le> 65535"
    using assms(2) jump_need_correct [of m] by linarith
  have "msg_type m \<noteq> COAP_MSG_TYPE_RESET" using assms(1) by (auto simp: message_ok_def)
  moreover have "n \<noteq> 0" using add_sizes_Some [OF n] by auto
  ultimately show ?thesis
    using small n by (simp add: calc_needed_packet_data_size_2_def Let_def)
qed

lemma builder_wire:
  assumes "message_ok m" and "length (coap_wire m) \<le> 65535"
  shows "sn_coap_builder_2 blockwise max_nonblock fill m block_size =
    Some (s16_of (length (coap_wire m)), coap_wire m)"
proof -
  have "msg_type m \<noteq> COAP_MSG_TYPE_RESET" using assms(1) by (auto simp: message_ok_def)
  then show ?thesis
    using calc_message_ok [OF assms, of blockwise max_nonblock block_size]
    by (auto simp: sn_coap_builder_2_def message_ok_header [OF assms(1)]
        message_ok_options(1) [OF assms(1)] message_ok_payload [OF assms(1)] coap_wire_parts)
qed

text \<open>
  Property C5. The builder implements the wire format: for every well-formed message whose
  packet fits an unsigned 16-bit length, with any block size and any state of the destination,
  \<open>sn_coap_builder_2\<close> writes exactly \<open>coap_wire m\<close> and returns its length as \<open>int16_t\<close>.
\<close>

theorem builder_refines_wire:
  assumes "message_ok m" and "length (coap_wire m) \<le> 65535"
  shows "sn_coap_builder_2 blockwise max_nonblock fill m block_size =
    Some (s16_of (length (coap_wire m)), coap_wire m)"
  by (rule builder_wire [OF assms])

section \<open>The parser reads it back\<close>

definition canonical_options :: "coap_options \<Rightarrow> coap_options" where
  "canonical_options opts =
     opts\<lparr>max_age := (if max_age opts = COAP_OPTION_MAX_AGE_DEFAULT then 0 else max_age opts),
          size1 := (if use_size1 opts then size1 opts else 0),
          size2 := (if use_size2 opts then size2 opts else 0)\<rparr>"

definition carries_options :: "coap_options \<Rightarrow> bool" where
  "carries_options opts \<longleftrightarrow> (\<exists>g \<in> set (early_groups opts @ late_groups opts). snd g \<noteq> [])"

definition canonical :: "coap_hdr \<Rightarrow> coap_hdr" where
  "canonical m =
     m\<lparr>coap_status := COAP_STATUS_OK,
       options_list_ptr :=
         (case options_list_ptr m of
            None \<Rightarrow> None
          | Some opts \<Rightarrow> if carries_options opts then Some (canonical_options opts) else None)\<rparr>"

text \<open>The effect of the groups on the options list alone.\<close>

definition store_list :: "group list \<Rightarrow> coap_options \<Rightarrow> coap_options" where
  "store_list gs opts = fold (\<lambda>(k, vs) o'. if vs = [] then o' else store_list_option k vs o') gs opts"

lemma store_groups_list:
  assumes "\<forall>(k, vs) \<in> set gs. k \<noteq> COAP_OPTION_CONTENT_FORMAT \<and> k \<noteq> COAP_OPTION_URI_PATH"
  shows "store_groups gs m =
    (if \<exists>g \<in> set gs. snd g \<noteq> []
     then m\<lparr>options_list_ptr := Some (store_list gs (list_options m))\<rparr> else m)"
  using assms
proof (induction gs arbitrary: m)
  case Nil
  then show ?case by (simp add: store_groups_def)
next
  case (Cons g gs)
  obtain k vs where g: "g = (k, vs)" by (cases g)
  have k: "k \<noteq> 12" "k \<noteq> 11" using Cons.prems g by auto
  have IH: "store_groups gs m' = (if \<exists>g \<in> set gs. snd g \<noteq> []
     then m'\<lparr>options_list_ptr := Some (store_list gs (list_options m'))\<rparr> else m')" for m'
    using Cons.IH Cons.prems by simp
  have c: "store_groups (g # gs) m = store_groups gs (store_group k vs m)"
    "store_list (g # gs) opts = store_list gs (if vs = [] then opts else store_list_option k vs opts)"
    for opts
    by (simp_all add: store_groups_def store_list_def g)
  have n: "store_list gs opts = opts" if "\<not> (\<exists>g \<in> set gs. snd g \<noteq> [])" for opts
    using that by (induction gs arbitrary: opts) (auto simp: store_list_def)
  show ?case
    unfolding c IH using k n by (auto simp: store_group_def g)
qed

definition put_list :: "nat \<Rightarrow> bytes list \<Rightarrow> coap_options \<Rightarrow> coap_options" where
  "put_list number vs opts = (if vs = [] then opts else store_list_option number vs opts)"

definition or_else :: "bytes option \<Rightarrow> bytes option \<Rightarrow> bytes option" where
  "or_else q d = (case q of None \<Rightarrow> d | Some v \<Rightarrow> Some v)"

definition len_else :: "bytes option \<Rightarrow> nat \<Rightarrow> nat" where
  "len_else q d = (case q of None \<Rightarrow> d | Some v \<Rightarrow> length v)"

lemma put_list_fields:
  "n < 4294967296 \<Longrightarrow> put_list COAP_OPTION_MAX_AGE (uint_value_if p n) opts = opts\<lparr>max_age := if p then n else max_age opts\<rparr>"
  "n < 4294967296 \<Longrightarrow> put_list COAP_OPTION_URI_PORT (uint_value_if p n) opts = opts\<lparr>uri_port := if p then int n else uri_port opts\<rparr>"
  "n < 4294967296 \<Longrightarrow> put_list COAP_OPTION_OBSERVE (uint_value_if p n) opts = opts\<lparr>observe := if p then int n else observe opts\<rparr>"
  "n < 4294967296 \<Longrightarrow> put_list COAP_OPTION_BLOCK2 (uint_value_if p n) opts = opts\<lparr>block2 := if p then int n else block2 opts\<rparr>"
  "n < 4294967296 \<Longrightarrow> put_list COAP_OPTION_BLOCK1 (uint_value_if p n) opts = opts\<lparr>block1 := if p then int n else block1 opts\<rparr>"
  "n < 4294967296 \<Longrightarrow> put_list COAP_OPTION_ACCEPT (uint_value_if p n) opts = opts\<lparr>accept := if p then int n else accept opts\<rparr>"
  "n < 4294967296 \<Longrightarrow> put_list COAP_OPTION_SIZE1 (uint_value_if p n) opts =
    opts\<lparr>use_size1 := p \<or> use_size1 opts, size1 := if p then n else size1 opts\<rparr>"
  "n < 4294967296 \<Longrightarrow> put_list COAP_OPTION_SIZE2 (uint_value_if p n) opts =
    opts\<lparr>use_size2 := p \<or> use_size2 opts, size2 := if p then n else size2 opts\<rparr>"
  "put_list COAP_OPTION_LOCATION_PATH (text_parts COAP_OPTION_LOCATION_PATH q) opts =
    opts\<lparr>location_path_ptr := or_else q (location_path_ptr opts), location_path_len := len_else q (location_path_len opts)\<rparr>"
  "put_list COAP_OPTION_URI_QUERY (text_parts COAP_OPTION_URI_QUERY q) opts =
    opts\<lparr>uri_query_ptr := or_else q (uri_query_ptr opts), uri_query_len := len_else q (uri_query_len opts)\<rparr>"
  "put_list COAP_OPTION_LOCATION_QUERY (text_parts COAP_OPTION_LOCATION_QUERY q) opts =
    opts\<lparr>location_query_ptr := or_else q (location_query_ptr opts), location_query_len := len_else q (location_query_len opts)\<rparr>"
  "put_list COAP_OPTION_ETAG (text_parts COAP_OPTION_ETAG q) opts =
    opts\<lparr>etag_ptr := or_else q (etag_ptr opts), etag_len := len_else q (etag_len opts),
         use_size1 := q = None \<and> use_size1 opts, use_size2 := q = None \<and> use_size2 opts\<rparr>"
  "put_list COAP_OPTION_URI_HOST (case q of None \<Rightarrow> [] | Some v \<Rightarrow> [v]) opts =
    opts\<lparr>uri_host_ptr := or_else q (uri_host_ptr opts), uri_host_len := len_else q (uri_host_len opts)\<rparr>"
  "put_list COAP_OPTION_PROXY_URI (case q of None \<Rightarrow> [] | Some v \<Rightarrow> [v]) opts =
    opts\<lparr>proxy_uri_ptr := or_else q (proxy_uri_ptr opts), proxy_uri_len := len_else q (proxy_uri_len opts)\<rparr>"
  by (cases q; simp add: put_list_def store_list_option_def uint_value_if_def text_parts_def
      be_value_uint_payload join_split_parts or_else_def len_else_def)+

lemma store_list_put:
  "store_list [] opts = opts"
  "store_list ((k, vs) # gs) opts = store_list gs (put_list k vs opts)"
  by (simp_all add: store_list_def put_list_def)

lemma or_else_None [simp]: "or_else q None = q"
  by (simp add: or_else_def split: option.split)

lemma len_else_exact: "exact q n \<Longrightarrow> len_else q 0 = n"
  by (simp add: exact_def len_else_def)

lemma int_u32_of_int: "-1 \<le> v \<Longrightarrow> v < 4294967296 \<Longrightarrow> v \<noteq> -1 \<Longrightarrow> int (u32_of_int v) = v"
  by (simp add: u32_of_int_def)

lemma u32_of_int_less: "u32_of_int v < 4294967296"
  by (simp add: u32_of_int_def nat_less_iff)

lemma store_list_message:
  assumes "options_ok opts"
  shows "store_list (late_groups opts) (store_list (early_groups opts) init_options)
    = canonical_options opts"
proof -
  have exact: "exact (uri_host_ptr opts) (uri_host_len opts)" "exact (proxy_uri_ptr opts) (proxy_uri_len opts)"
    "exact (etag_ptr opts) (etag_len opts)" "exact (location_path_ptr opts) (location_path_len opts)"
    "exact (uri_query_ptr opts) (uri_query_len opts)"
    "exact (location_query_ptr opts) (location_query_len opts)"
    using assms by (simp_all add: options_ok_def text_ok_def)
  have ints: "observe opts \<noteq> -1 \<longrightarrow> int (u32_of_int (observe opts)) = observe opts"
    "uri_port opts \<noteq> -1 \<longrightarrow> int (u32_of_int (uri_port opts)) = uri_port opts"
    "accept opts \<noteq> -1 \<longrightarrow> int (u32_of_int (accept opts)) = accept opts"
    "block1 opts \<noteq> -1 \<longrightarrow> int (u32_of_int (block1 opts)) = block1 opts"
    "block2 opts \<noteq> -1 \<longrightarrow> int (u32_of_int (block2 opts)) = block2 opts"
    using assms int_u32_of_int by (simp_all add: options_ok_def)
  have nats: "max_age opts < 4294967296" "size1 opts < 4294967296" "size2 opts < 4294967296"
    using assms by (simp_all add: options_ok_def)
  show ?thesis
    by (rule coap_options.equality)
      (use ints in \<open>simp_all add: early_groups_def late_groups_def store_list_put put_list_fields
        u32_of_int_less nats init_options_def canonical_options_def exact len_else_exact\<close>)
qed

lemma store_main:
  assumes "message_ok m" "content_format m0 = -1" "uri_path_ptr m0 = None" "uri_path_len m0 = 0"
  shows "store_groups (main_groups m) m0 = m0\<lparr>content_format := content_format m,
    uri_path_ptr := uri_path_ptr m, uri_path_len := uri_path_len m\<rparr>"
proof -
  have e: "text_parts 11 (uri_path_ptr m) = [] \<longleftrightarrow> uri_path_ptr m = None"
    by (simp add: text_parts_def split: option.split)
  have j: "join_parts (option_separator 11) (text_parts 11 (Some q)) = q" for q
    by (simp add: text_parts_def join_split_parts)
  have x: "uri_path_len m = (case uri_path_ptr m of None \<Rightarrow> 0 | Some q \<Rightarrow> length q)"
    using assms(1) by (simp add: message_ok_def text_ok_def exact_def)
  have c: "content_format m \<noteq> -1 \<longrightarrow> int (u32_of_int (content_format m)) = content_format m"
    using assms(1) int_u32_of_int by (simp add: message_ok_def)
  show ?thesis
    using assms(2-4) e x c
    by (cases "uri_path_ptr m")
      (auto intro!: coap_hdr.equality simp: store_groups_def main_groups_def store_group_def Let_def j
        uint_value_if_def be_value_uint_payload u32_of_int_less)
qed

lemma store_groups_append: "store_groups (xs @ ys) m = store_groups ys (store_groups xs m)"
  by (simp add: store_groups_def)

lemma early_late_numbers:
  "\<forall>(k, vs) \<in> set (early_groups opts). k \<noteq> COAP_OPTION_CONTENT_FORMAT \<and> k \<noteq> COAP_OPTION_URI_PATH"
  "\<forall>(k, vs) \<in> set (late_groups opts). k \<noteq> COAP_OPTION_CONTENT_FORMAT \<and> k \<noteq> COAP_OPTION_URI_PATH"
  by (simp_all add: early_groups_def late_groups_def)

lemma store_list_empty: "\<not> (\<exists>g \<in> set gs. snd g \<noteq> []) \<Longrightarrow> store_list gs opts = opts"
  by (induction gs arbitrary: opts) (auto simp: store_list_def)

lemma store_message:
  assumes "message_ok m" "content_format m0 = -1" "uri_path_ptr m0 = None" "uri_path_len m0 = 0"
    and "options_list_ptr m0 = None"
  shows "store_groups (message_groups m) m0 = m0\<lparr>content_format := content_format m,
    uri_path_ptr := uri_path_ptr m, uri_path_len := uri_path_len m,
    options_list_ptr := options_list_ptr (canonical m)\<rparr>"
proof (cases "options_list_ptr m")
  case None
  with store_main [OF assms(1-4)] assms(5) show ?thesis
    by (simp add: message_groups_def canonical_def)
next
  case (Some opts)
  with assms(1) have ok: "options_ok opts" by (simp add: message_ok_def)
  let ?E = "\<exists>g \<in> set (early_groups opts). snd g \<noteq> []"
    and ?L = "\<exists>g \<in> set (late_groups opts). snd g \<noteq> []"
  let ?m1 = "if ?E then m0\<lparr>options_list_ptr := Some (store_list (early_groups opts) init_options)\<rparr> else m0"
  have e: "store_groups (early_groups opts) m0 = ?m1"
    using store_groups_list [OF early_late_numbers(1), of opts m0] assms(5)
    by (simp add: list_options_def)
  have "content_format ?m1 = -1" "uri_path_ptr ?m1 = None" "uri_path_len ?m1 = 0"
    using assms(2-4) by auto
  note main = store_main [OF assms(1) this]
  have l: "list_options (?m1\<lparr>content_format := content_format m, uri_path_ptr := uri_path_ptr m,
      uri_path_len := uri_path_len m\<rparr>) = store_list (early_groups opts) init_options"
    using store_list_empty [of "early_groups opts" init_options] assms(5)
    by (auto simp: list_options_def)
  have late: "store_list (late_groups opts) (store_list (early_groups opts) init_options)
      = canonical_options opts"
    by (rule store_list_message [OF ok])
  have c: "carries_options opts \<longleftrightarrow> ?E \<or> ?L" unfolding carries_options_def set_append by blast
  have "store_groups (message_groups m) m0 =
      store_groups (late_groups opts) (store_groups (main_groups m) ?m1)"
    by (simp add: message_groups_def Some store_groups_append e)
  also have "\<dots> = (if ?L then (?m1\<lparr>content_format := content_format m, uri_path_ptr := uri_path_ptr m,
      uri_path_len := uri_path_len m\<rparr>)\<lparr>options_list_ptr := Some (canonical_options opts)\<rparr>
      else ?m1\<lparr>content_format := content_format m, uri_path_ptr := uri_path_ptr m,
      uri_path_len := uri_path_len m\<rparr>)"
    unfolding main store_groups_list [OF early_late_numbers(2)] l late ..
  also have "\<dots> = m0\<lparr>content_format := content_format m, uri_path_ptr := uri_path_ptr m,
      uri_path_len := uri_path_len m, options_list_ptr := options_list_ptr (canonical m)\<rparr>"
  proof (cases ?L)
    case True
    with c show ?thesis by (auto simp: canonical_def Some)
  next
    case False
    with late store_list_empty [of "late_groups opts"]
    have "store_list (early_groups opts) init_options = canonical_options opts" by simp
    with False c assms(5) show ?thesis
      by (auto simp: canonical_def Some intro!: coap_hdr.equality)
  qed
  finally show ?thesis .
qed

text \<open>The message the parser has built when it comes to the options.\<close>

definition headed :: "coap_hdr \<Rightarrow> coap_hdr" where
  "headed m = init_message\<lparr>msg_type := msg_type m, msg_code := msg_code m, msg_id := msg_id m,
     token_len := token_len m, token_ptr := token_ptr m\<rparr>"

lemma parse_header_wire:
  assumes "message_ok m" "pkt = coap_wire m"
  shows "header_parse pkt 0 init_message = Some (4, init_message\<lparr>msg_type := msg_type m,
      msg_code := msg_code m, msg_id := msg_id m\<rparr>, 64)"
proof -
  let ?b = "byte_of (64 + msg_type m + token_len m)"
  have t: "msg_type m \<in> {0, 16, 32}" "token_len m \<le> 8" "msg_id m < 65536" "msg_code m < 256"
    using assms(1) known_codes_byte by (auto simp: message_ok_def)
  have r: "rd pkt 0 = Some ?b" "rd pkt (0 + 1) = Some (byte_of (msg_code m))"
    "rd pkt (0 + 2) = Some (byte_of (msg_id m div 256))" "rd pkt (0 + 3) = Some (byte_of (msg_id m))"
    by (simp_all add: assms(2) coap_wire_parts header_bytes_def rd_def numeral_2_eq_2 numeral_3_eq_3)
  have id: "u16_wrap (unat (byte_of (msg_id m)) + unat (byte_of (msg_id m div 256)) * 256) = msg_id m"
  proof -
    have "msg_id m div 256 < 256" using t(3) by simp
    then have "msg_id m mod 256 + msg_id m div 256 mod 256 * 256 = msg_id m"
      by (simp only: mod_less) (simp only: mod_div_mult_eq)
    with t(3) show ?thesis by (simp only: unat_byte_of) (simp add: wrap_simps)
  qed
  show ?thesis
    unfolding header_parse_def r option.case prod.case id
    using first_byte(2,3) [OF t(1,2)] t(4) by simp
qed

lemma parse_options_wire:
  assumes "message_ok m" "pkt = coap_wire m" "length pkt \<le> 65535"
    and "m1 = init_message\<lparr>msg_type := msg_type m, msg_code := msg_code m, msg_id := msg_id m\<rparr>"
  shows "\<exists>prev n. options_parse (\<lambda>_. True) pkt (length pkt) 4 m1 nreq =
    Some (0, \<lparr>ps_pos = length pkt - length (payload_bytes m), ps_left = length (payload_bytes m),
      ps_prev = prev, ps_msg = store_groups (message_groups m) (headed m), ps_nreq = n\<rparr>)"
proof -
  let ?gs = "message_groups m"
  have t: "msg_type m \<in> {0, 16, 32}" "token_len m \<le> 8" "exact (token_ptr m) (token_len m)"
    "token_ptr m \<noteq> Some []" using assms(1) by (auto simp: message_ok_def)
  have len: "length pkt < 65536" using assms(3) by simp
  have frame: "in_frame pkt 0 (length pkt) p" for p using len by (simp add: in_frame_def)
  have "at pkt 0 (header_bytes m @ token_bytes m @ encode_groups 0 ?gs @ payload_bytes m)"
    by (simp add: at_def assms(2) coap_wire_parts)
  from at_append [OF this]
  have a4: "at pkt 4 (token_bytes m @ encode_groups 0 ?gs @ payload_bytes m)"
    by (simp add: length_header_bytes)
  note a5 = at_append [OF a4]
  have m0: "move_packet_ptr 4 0 (length pkt) 0 =
      (4, length (token_bytes m @ encode_groups 0 ?gs @ payload_bytes m))"
    using at_move [of pkt 4 "[]", OF _ frame] a4 by simp
  have b0: "rd pkt 0 = Some (byte_of (64 + msg_type m + token_len m))"
    by (simp add: assms(2) coap_wire_parts header_bytes_def rd_def)
  have tl: "unat (byte_of (64 + msg_type m + token_len m)) mod 16 = token_len m"
    by (rule first_byte(4) [OF t(1,2)])
  have loop: "\<exists>n prev. options_loop (\<lambda>_. True) pkt (length pkt) st =
      Some (0, st\<lparr>ps_pos := length pkt - length (payload_bytes m), ps_left := length (payload_bytes m),
        ps_prev := prev, ps_msg := store_groups ?gs (headed m), ps_nreq := n\<rparr>)"
    if "ps_pos st = 4 + length (token_bytes m)" "ps_prev st = 0" "ps_msg st = headed m"
      "ps_left st = length (encode_groups 0 ?gs @ payload_bytes m)" for st
  proof -
    have "\<forall>(k, vs) \<in> set ?gs. slot_free k (headed m)"
      by (auto simp: slot_free_def headed_def init_message_def list_options_def init_options_def Let_def)
    then show ?thesis
      using options_loop_groups [of pkt st ?gs "payload_bytes m"] that a5 len
        message_groups_ascending message_groups_fit [OF assms(1)]
      by (auto simp: ends_options_def payload_bytes_def split: option.split)
  qed
  show ?thesis
  proof (cases "token_ptr m")
    case None
    with t(3) have z: "token_len m = 0" "token_bytes m = []"
      by (simp_all add: exact_def token_bytes_def)
    let ?st = "\<lparr>ps_pos = 4, ps_left = length (encode_groups 0 ?gs @ payload_bytes m), ps_prev = 0,
        ps_msg = headed m, ps_nreq = nreq\<rparr>"
    have "m1\<lparr>token_len := 0\<rparr> = headed m"
      by (simp add: assms(4) headed_def init_message_def None z)
    then have "options_parse (\<lambda>_. True) pkt (length pkt) 4 m1 nreq =
        options_loop (\<lambda>_. True) pkt (length pkt) ?st"
      using m0 b0 tl z by (simp add: options_parse_def)
    with loop [of ?st] z show ?thesis by fastforce
  next
    case (Some tok)
    with t have z: "token_len m = length tok" "token_bytes m = tok" "tok \<noteq> []"
      by (auto simp: exact_def token_bytes_def)
    let ?st = "\<lparr>ps_pos = 4 + length tok, ps_left = length (encode_groups 0 ?gs @ payload_bytes m),
        ps_prev = 0, ps_msg = headed m, ps_nreq = Suc nreq\<rparr>"
    have "m1\<lparr>token_len := length tok, token_ptr := Some tok\<rparr> = headed m" "token_ptr m1 = None"
      by (simp_all add: assms(4) headed_def init_message_def Some z)
    then have "options_parse (\<lambda>_. True) pkt (length pkt) 4 m1 nreq =
        options_loop (\<lambda>_. True) pkt (length pkt) ?st"
      using m0 b0 tl z t(2) at_check_ok [OF a4 frame] at_rd_block [OF a4] at_move [OF a4 frame]
      by (simp add: options_parse_def)
    with loop [of ?st] z show ?thesis by fastforce
  qed
qed

lemma parser_wire:
  assumes "message_ok m" and "length (coap_wire m) \<le> 65535"
  shows "\<exists>n. sn_coap_parser (\<lambda>_. True) nreq (length (coap_wire m)) (Some (coap_wire m)) =
    Some (Some (canonical m), Some COAP_VERSION, n)"
proof -
  define pkt where pkt: "pkt = coap_wire m"
  let ?m1 = "init_message\<lparr>msg_type := msg_type m, msg_code := msg_code m, msg_id := msg_id m\<rparr>"
  let ?m2 = "store_groups (message_groups m) (headed m)"
  have len: "length pkt \<le> 65535" using assms(2) pkt by simp
  obtain prev n where opts: "options_parse (\<lambda>_. True) pkt (length pkt) 4 ?m1 (Suc nreq) =
    Some (0, \<lparr>ps_pos = length pkt - length (payload_bytes m), ps_left = length (payload_bytes m),
      ps_prev = prev, ps_msg = ?m2, ps_nreq = n\<rparr>)"
    using parse_options_wire [OF assms(1) pkt len refl, of "Suc nreq"] by blast
  have m2: "?m2 = (headed m)\<lparr>content_format := content_format m, uri_path_ptr := uri_path_ptr m,
      uri_path_len := uri_path_len m, options_list_ptr := options_list_ptr (canonical m)\<rparr>"
    by (rule store_message [OF assms(1)]) (simp_all add: headed_def init_message_def)
  have big: "4 \<le> length pkt" by (simp add: pkt coap_wire_parts header_bytes_def)
  let ?p = "length pkt - length (payload_bytes m)"
  have "pkt = take ?p pkt @ payload_bytes m" by (simp add: pkt coap_wire_parts)
  then have pay: "drop ?p pkt = payload_bytes m" by (metis append_eq_conv_conj length_drop
      append_take_drop_id length_append diff_diff_cancel same_append_eq)
  have atp: "at pkt ?p (payload_bytes m)" using pay by (simp add: at_def)
  have parsed: "payload_parse pkt (length pkt) ?p ?m2 = Some (0, (canonical m)\<lparr>coap_status := COAP_STATUS_OK\<rparr>)"
  proof (cases "payload_ptr m")
    case None
    with assms(1) have "payload_len m = 0" by (simp add: message_ok_def exact_def)
    with None show ?thesis
      unfolding m2
      by (auto intro!: coap_hdr.equality
          simp: payload_parse_def payload_bytes_def headed_def init_message_def canonical_def)
  next
    case (Some p)
    have p: "p \<noteq> []" "payload_len m = length p" using assms(1) Some
      by (auto simp: message_ok_def exact_def)
    have pb: "payload_bytes m = 0xFF # p" by (simp add: payload_bytes_def Some)
    have r: "rd pkt ?p = Some 0xFF" using atp unfolding pb by (rule at_rd)
    have a1: "at pkt (?p + 1) p" using atp unfolding pb by (rule at_Cons)
    have "length pkt - (?p + 1) = length p" "?p < length pkt" "drop (?p + 1) pkt = p"
      using at_length [OF a1] a1 by (simp_all add: at_def)
    with r p len at_length [OF a1] show ?thesis
      unfolding m2
      by (auto intro!: coap_hdr.equality
          simp: payload_parse_def headed_def init_message_def canonical_def Some u16_wrap_id)
  qed
  show ?thesis
    unfolding pkt [symmetric]
    using big parse_header_wire [OF assms(1) pkt] opts parsed
    by (simp add: sn_coap_parser_def alloc_message_def canonical_def)
qed

text \<open>
  Property C6. The parser inverts the wire format: on the packet of a well-formed message, with
  an allocator that does not fail, \<open>sn_coap_parser\<close> returns the message with status OK and
  version 1. The message is the one that was encoded, up to what the format does not carry: the
  default Max-Age reads back as 0, unused sizes as 0 and an options list without options as NULL.
\<close>

theorem parser_inverts_wire:
  assumes "message_ok m" and "length (coap_wire m) \<le> 65535"
  shows "\<exists>n. sn_coap_parser (\<lambda>_. True) nreq (length (coap_wire m)) (Some (coap_wire m)) =
    Some (Some (canonical m), Some COAP_VERSION, n)"
  by (rule parser_wire [OF assms])

text \<open>
  Property C1. Round trip: a well-formed message whose packet fits the \<open>int16_t\<close> result is built
  without an error code, and parsing the built packet gives the message back in canonical form.
\<close>

theorem coap_roundtrip:
  assumes "message_ok m" and "length (coap_wire m) \<le> 32767"
  shows "\<exists>pkt n. sn_coap_builder_2 blockwise max_nonblock fill m block_size = Some (int (length pkt), pkt) \<and>
    sn_coap_parser (\<lambda>_. True) nreq (length pkt) (Some pkt) = Some (Some (canonical m), Some COAP_VERSION, n)"
proof -
  have "length (coap_wire m) \<le> 65535" using assms(2) by simp
  from builder_wire [OF assms(1) this] parser_wire [OF assms(1) this, of nreq] assms(2)
  show ?thesis by (auto simp: wrap_simps)
qed

section \<open>A concrete message\<close>

text \<open>A confirmable POST with token, path, query, observe, block and payload.\<close>

definition sample_options :: coap_options where
  "sample_options = init_options\<lparr>max_age := 60, observe := 7, uri_query_len := 3,
     uri_query_ptr := Some [0x61, 0x26, 0x62], block1 := 0x1A, use_size1 := True, size1 := 70000\<rparr>"

definition sample_message :: coap_hdr where
  "sample_message = init_message\<lparr>msg_code := 2, msg_id := 0x1234, token_len := 2,
     token_ptr := Some [0xA, 0xB], uri_path_len := 3, uri_path_ptr := Some [0x72, 0x2F, 0x64],
     payload_len := 2, payload_ptr := Some [0x68, 0x69], options_list_ptr := Some sample_options\<rparr>"

lemma sample_ok: "message_ok sample_message"
  by (simp add: message_ok_def sample_message_def init_message_def exact_def text_ok_def
      text_parts_def proper_parts_def option_separator_def option_part_too_long_def options_ok_def
      sample_options_def init_options_def coap_known_codes_def)

lemma uint_payload_4: "uint_payload 4 v p = uint_payload (Suc (Suc (Suc (Suc 0)))) v p"
proof -
  have "(4 :: nat) = Suc (Suc (Suc (Suc 0)))" by simp
  then show ?thesis by (rule arg_cong)
qed

lemma sample_length: "length (coap_wire sample_message) = 26"
  by (simp add: coap_wire_def sample_message_def init_message_def message_groups_def
      early_groups_def main_groups_def late_groups_def sample_options_def init_options_def
      text_parts_def option_separator_def uint_value_if_def u32_of_int_def uint_payload_4
      u32_wrap_def length_encode_option ext_size_def)

lemma builder_writes_announced_size_witness:
  "calc_needed_packet_data_size_2 True 64 sample_message 1024 = Some 26"
proof -
  obtain n where n: "calc_needed_packet_data_size_2 True 64 sample_message 1024 = Some n"
    using calc_message_ok [OF sample_ok, of True 64 1024] sample_length by auto
  have b: "sn_coap_builder_2 True 64 [] sample_message 1024 = Some (26, coap_wire sample_message)"
    using builder_wire [OF sample_ok] sample_length by (simp add: wrap_simps)
  have "length (coap_wire sample_message) = n"
    using builder_writes_announced_size [OF n b]
    by (simp add: overrun_def token_overrun_def proxy_overrun_def proxy_uri_overrun_def payload_overrun_def
        sample_message_def sample_options_def init_message_def init_options_def)
  with n sample_length show ?thesis by simp
qed

lemma builder_refines_wire_witness:
  "sn_coap_builder_2 True 64 [] sample_message 1024 = Some (26, coap_wire sample_message)"
  using builder_refines_wire [OF sample_ok, of True 64 "[]" 1024] sample_length by (simp add: wrap_simps)

lemma parser_inverts_wire_witness:
  "\<exists>n. sn_coap_parser (\<lambda>_. True) 0 26 (Some (coap_wire sample_message)) =
     Some (Some (canonical sample_message), Some 64, n)"
  using parser_inverts_wire [OF sample_ok, of 0] sample_length by simp

lemma coap_roundtrip_witness:
  "\<exists>pkt n. sn_coap_builder_2 True 64 [] sample_message 1024 = Some (int (length pkt), pkt) \<and>
     sn_coap_parser (\<lambda>_. True) 0 (length pkt) (Some pkt) = Some (Some (canonical sample_message), Some 64, n)"
  using coap_roundtrip [OF sample_ok, of True 64 "[]" 1024 0] sample_length by simp

end
