(* ===== verification/Coap_Respond.thy ===== *)
theory Coap_Respond
  imports Coap_Parser Coap_Builder
begin

text \<open>
  \<open>sn_coap_build_response\<close> of \<open>sn_coap_builder.c\<close>, \<open>sn_coap_protocol_malloc_copy\<close> of
  \<open>sn_coap_protocol.c\<close> and the release function of the parser.
\<close>

definition sn_coap_protocol_malloc_copy ::
  "(nat \<Rightarrow> bool) \<Rightarrow> nat \<Rightarrow> bytes \<Rightarrow> nat \<Rightarrow> (bytes option \<times> nat) option" where
  "sn_coap_protocol_malloc_copy ok nreq source len =
     (if \<not> ok nreq then Some (None, Suc nreq)
      else case rd_block source 0 len of
        None \<Rightarrow> None
      | Some bs \<Rightarrow> Some (Some bs, Suc nreq))"

text \<open>The inner option is None where the C function returns NULL.\<close>

definition sn_coap_build_response ::
  "(nat \<Rightarrow> bool) \<Rightarrow> nat \<Rightarrow> coap_hdr \<Rightarrow> nat \<Rightarrow> (coap_hdr option \<times> nat) option" where
  "sn_coap_build_response ok nreq req code =
     (case alloc_message ok nreq of
        (None, n1) \<Rightarrow> Some (None, n1)
      | (Some m, n1) \<Rightarrow>
          (case (if code = COAP_MSG_CODE_REQUEST_GET then
                   Some (m\<lparr>msg_type := COAP_MSG_TYPE_CONFIRMABLE, msg_code := code\<rparr>)
                 else if msg_type req = COAP_MSG_TYPE_CONFIRMABLE then
                   Some (m\<lparr>msg_type := COAP_MSG_TYPE_ACKNOWLEDGEMENT, msg_code := code,
                           msg_id := msg_id req\<rparr>)
                 else if msg_type req = COAP_MSG_TYPE_NON_CONFIRMABLE then
                   Some (m\<lparr>msg_type := COAP_MSG_TYPE_NON_CONFIRMABLE, msg_code := code\<rparr>)
                 else None) of
             None \<Rightarrow> Some (None, n1)
           | Some m1 \<Rightarrow>
               (case token_ptr req of
                  None \<Rightarrow> Some (Some m1, n1)
                | Some t \<Rightarrow>
                    (case sn_coap_protocol_malloc_copy ok n1 t (token_len req) of
                       None \<Rightarrow> None
                     | Some (None, n2) \<Rightarrow> Some (None, n2)
                     | Some (Some t', n2) \<Rightarrow>
                         Some (Some (m1\<lparr>token_len := token_len req, token_ptr := Some t'\<rparr>), n2)))))"

text \<open>
  The blocks that \<open>sn_coap_parser_release_allocated_coap_msg_mem\<close> passes to the free function,
  in this order; a block is named by the pointer that holds it, and None is a NULL pointer,
  whose release has no effect. The message itself is the last one.
\<close>

datatype msg_block =
    Uri_Path_Block | Token_Block | Proxy_Uri_Block | Etag_Block | Uri_Host_Block
  | Location_Path_Block | Location_Query_Block | Uri_Query_Block | Options_Block | Message_Block

definition freed :: "msg_block \<Rightarrow> 'a option \<Rightarrow> msg_block list" where
  "freed b ptr = (case ptr of None \<Rightarrow> [] | Some _ \<Rightarrow> [b])"

definition release_allocated_coap_msg_mem :: "coap_hdr option \<Rightarrow> msg_block list" where
  "release_allocated_coap_msg_mem msg =
     (case msg of
        None \<Rightarrow> []
      | Some m \<Rightarrow>
          freed Uri_Path_Block (uri_path_ptr m) @ freed Token_Block (token_ptr m) @
          (case options_list_ptr m of
             None \<Rightarrow> []
           | Some opts \<Rightarrow>
               freed Proxy_Uri_Block (proxy_uri_ptr opts) @ freed Etag_Block (etag_ptr opts) @
               freed Uri_Host_Block (uri_host_ptr opts) @
               freed Location_Path_Block (location_path_ptr opts) @
               freed Location_Query_Block (location_query_ptr opts) @
               freed Uri_Query_Block (uri_query_ptr opts) @ [Options_Block]) @
          [Message_Block])"

end
