(* ===== verification/Coap_Response.thy ===== *)
theory Coap_Response
  imports Coap_Roundtrip Coap_Respond
begin

text \<open>
  What a response built by \<open>sn_coap_build_response\<close> has in common with its request.
\<close>








end
