(* ===== verification/Coap_Limits.thy ===== *)
theory Coap_Limits
  imports Coap_Response
begin

text \<open>
  Values at which the two ends of the codec, or the two halves of the builder, disagree: a
  Proxy-Uri of 269 bytes and Observe values above 65535.
\<close>

definition proxy_message :: "bytes \<Rightarrow> coap_hdr" where
  "proxy_message uri = init_message\<lparr>msg_code := 1,
     options_list_ptr := Some (init_options\<lparr>max_age := 60, proxy_uri_len := length uri,
       proxy_uri_ptr := Some uri\<rparr>)\<rparr>"

definition observe_message :: "nat \<Rightarrow> coap_hdr" where
  "observe_message v = init_message\<lparr>msg_code := 1,
     options_list_ptr := Some (init_options\<lparr>max_age := 60, observe := int v\<rparr>)\<rparr>"

lemmas message_defs =
  calc_needed_packet_data_size_2_def token_size_def repeatable_size_def uint_size_def
  options_list_sizes_def max_age_size_def proxy_uri_size_def uri_host_size_def size1_size_def
  size2_size_def options_calculate_jump_need_def payload_size_def Let_def

lemmas builder_defs =
  sn_coap_builder_2_def header_build_def sn_coap_header_validity_check_def coap_known_codes_def
  options_build_def all_option_writers_def early_option_writers_def late_option_writers_def
  write_uint_if_def write_one_def write_multiple_def options_build_add_multiple_option_def
  payload_build_def

text \<open>
  Property C39. A Proxy-Uri of 269 bytes overruns the announced size: the size computation takes
  the length for a two-byte option header, the writer emits the three-byte form, and the builder
  writes one byte more than \<open>calc_needed_packet_data_size_2\<close> told the caller to allocate.
\<close>

theorem proxy_uri_269_overruns:
  assumes "length uri = 269"
  shows "\<exists>packet. calc_needed_packet_data_size_2 bw mn (proxy_message uri) bs = Some 276 \<and>
    sn_coap_builder_2 bw mn fill (proxy_message uri) bs = Some (277, packet) \<and> length packet = 277"
proof -
  have calc: "calc_needed_packet_data_size_2 bw mn (proxy_message uri) bs = Some 276"
    using assms by (simp add: message_defs proxy_message_def init_message_def init_options_def)
  have "options_build_add_one_option out 269 (Some uri) 0 35 0 =
      Some (out @ encode_option 35 uri, 35)" for out
    using assms by (simp add: add_one_option_encode rd_block_def)
  moreover have "length (encode_option 35 uri) = 273"
    using assms by (simp add: length_encode_option ext_size_def)
  ultimately show ?thesis
    using calc assms
    by (simp add: builder_defs proxy_message_def init_message_def init_options_def wrap_simps)
qed

lemma proxy_uri_269_overruns_witness:
  "\<exists>packet. calc_needed_packet_data_size_2 False 0 (proxy_message (replicate 269 0x61)) 1024 = Some 276 \<and>
    sn_coap_builder_2 False 0 [] (proxy_message (replicate 269 0x61)) 1024 = Some (277, packet) \<and>
    length packet = 277"
  by (rule proxy_uri_269_overruns) simp

lemma uint_payload_24:
  assumes "65536 \<le> v" "v < 16777216"
  obtains b c d where "uint_payload 4 v [] = [b, c, d]"
proof -
  obtain w x y z where v: "v = word4 w x y z" and l: "w < 256" "x < 256" "y < 256" "z < 256"
    by (rule word4_cases [of v]) (use assms in auto)
  have w: "w = 0" using assms unfolding v word4_def by linarith
  have "x \<noteq> 0" using assms l unfolding v word4_def w by linarith
  then have "uint_payload 4 v [] = [byte_of x, byte_of y, byte_of z]"
    unfolding v uint_payload_word4 [OF l] using w by simp
  with that show thesis by blast
qed

text \<open>
  The builder and the parser disagree on Observe: the builder encodes every value
  up to 0xffffff, and the parser answers a packet with a value above 0xffff, which needs three
  bytes, with a header error.
\<close>

theorem observe_24_bit_rejected:
  assumes "0x10000 \<le> v" "v \<le> 0xffffff"
  shows "\<exists>packet m n. sn_coap_builder_2 bw mn fill (observe_message v) bs = Some (8, packet) \<and>
    sn_coap_parser (\<lambda>_. True) nreq (length packet) (Some packet) =
      Some (Some m, Some COAP_VERSION, n) \<and>
    coap_status m = COAP_STATUS_PARSER_ERROR_IN_HEADER"
proof -
  obtain b c d where p: "uint_payload 4 v [] = [b, c, d]"
    by (rule uint_payload_24 [of v]) (use assms in auto)
  let ?pkt = "[0x40, 1, 0, 0, 0x63, b, c, d]"
  have n: "u32_of_int (int v) = v" using assms by (simp add: u32_of_int_def)
  have calc: "calc_needed_packet_data_size_2 bw mn (observe_message v) bs = Some 8"
    using assms by (simp add: message_defs observe_message_def init_message_def init_options_def n
        uint_option_size_def p)
  have "options_build_add_uint_option out v 6 0 = Some (out @ [0x63, b, c, d], 6)" for out
    by (simp add: options_build_add_uint_option_def p Let_def add_one_option_encode rd_block_def
        encode_option_def ext_nibble_def ext_bytes_def byte_of_def)
  then have build: "sn_coap_builder_2 bw mn fill (observe_message v) bs = Some (8, ?pkt)"
    using calc by (simp add: builder_defs observe_message_def init_message_def init_options_def n
        wrap_simps byte_of_def)
  have one: "\<exists>st'. parse_one_option (\<lambda>_. True) ?pkt 8 0x63 \<lparr>ps_pos = 4, ps_left = 4, ps_prev = 0,
      ps_msg = m, ps_nreq = k\<rparr> = Some (-1, st')"
    if "options_list_ptr m = None" for m k
    using that by (simp add: parse_one_option_def read_option_header_def move_packet_ptr_def Let_def
        parse_ext_option_def add_u16_limit_def wrap_simps options_in_list_def alloc_options_def
        parse_option_value_def parse_list_option_def parse_uint_case_def init_options_def)
  let ?m1 = "init_message\<lparr>msg_type := 0, msg_code := 1, msg_id := 0\<rparr>"
  have "\<exists>st'. options_parse (\<lambda>_. True) ?pkt 8 4 ?m1 (Suc nreq) = Some (-1, st')"
    using one [of "?m1\<lparr>token_len := 0\<rparr>" "Suc nreq"]
    by (auto simp: options_parse_def move_packet_ptr_def Let_def rd_def wrap_simps init_message_def
        options_loop.simps [of _ _ _ "\<lparr>ps_pos = 4, ps_left = 4, ps_prev = 0, ps_msg = x, ps_nreq = k\<rparr>" for x k])
  then obtain st' where "options_parse (\<lambda>_. True) ?pkt 8 4 ?m1 (Suc nreq) = Some (-1, st')" ..
  moreover have "header_parse ?pkt 0 init_message = Some (4, ?m1, 64)"
    by (simp add: header_parse_def rd_def wrap_simps)
  ultimately have "\<exists>m n. sn_coap_parser (\<lambda>_. True) nreq 8 (Some ?pkt) = Some (Some m, Some COAP_VERSION, n)
      \<and> coap_status m = COAP_STATUS_PARSER_ERROR_IN_HEADER"
    by (simp add: sn_coap_parser_def alloc_message_def Let_def)
  moreover have "length ?pkt = 8" by simp
  ultimately show ?thesis using build by metis
qed

lemma observe_24_bit_rejected_witness:
  "\<exists>packet m n. sn_coap_builder_2 False 0 [] (observe_message 70000) 1024 = Some (8, packet) \<and>
    sn_coap_parser (\<lambda>_. True) 0 (length packet) (Some packet) = Some (Some m, Some 64, n) \<and>
    coap_status m = COAP_STATUS_PARSER_ERROR_IN_HEADER"
  by (rule observe_24_bit_rejected) simp_all

end
