(* ===== verification/Bit_Strings.thy ===== *)
theory Bit_Strings
  imports Pelion_Prelude
begin

text \<open>
  Bit-string comparison and copy, \<open>nanostack-libservice/source/libBits/common_functions.c\<close>. A
  prefix of \<open>bits\<close> bits is counted from the most significant bit of the first byte. None is an
  access outside a buffer; the pointer a copy returns is the offset into the destination.
\<close>

definition context_split_mask :: "nat \<Rightarrow> u8" where
  "context_split_mask split_value = ucast (- (drop_bit split_value (0x100 :: 32 word)))"

definition bitsequal :: "bytes \<Rightarrow> bytes \<Rightarrow> nat \<Rightarrow> bool option" where
  "bitsequal a b bits =
     (let nbytes = bits div 8; rest = bits mod 8 in
      case (rd_block a 0 nbytes, rd_block b 0 nbytes) of
        (Some x, Some y) \<Rightarrow>
          if nbytes \<noteq> 0 \<and> x \<noteq> y then Some False
          else if rest \<noteq> 0 then
            (case (rd a nbytes, rd b nbytes) of
               (Some u, Some v) \<Rightarrow>
                 Some (u AND context_split_mask rest = v AND context_split_mask rest)
             | _ \<Rightarrow> None)
          else Some True
      | _ \<Rightarrow> None)"

definition copy_bytes :: "bytes \<Rightarrow> bytes \<Rightarrow> nat \<Rightarrow> bytes option" where
  "copy_bytes dst src n =
     (if n \<le> length dst \<and> n \<le> length src then Some (take n src @ drop n dst) else None)"

definition bitcopy :: "bytes \<Rightarrow> bytes \<Rightarrow> nat \<Rightarrow> (bytes \<times> nat) option" where
  "bitcopy dst src bits =
     (let nbytes = bits div 8; rest = bits mod 8; split_bit = context_split_mask rest in
      case copy_bytes dst src nbytes of
        None \<Rightarrow> None
      | Some d \<Rightarrow>
          if rest \<noteq> 0 then
            (case (rd d nbytes, rd src nbytes) of
               (Some u, Some v) \<Rightarrow>
                 Some (d[nbytes := (v AND split_bit) OR (u AND NOT split_bit)], nbytes)
             | _ \<Rightarrow> None)
          else Some (d, nbytes))"

definition bitcopy0 :: "bytes \<Rightarrow> bytes \<Rightarrow> nat \<Rightarrow> (bytes \<times> nat) option" where
  "bitcopy0 dst src bits =
     (let nbytes = bits div 8; rest = bits mod 8; split_bit = context_split_mask rest in
      case copy_bytes dst src nbytes of
        None \<Rightarrow> None
      | Some d \<Rightarrow>
          if rest \<noteq> 0 then
            (case (rd d nbytes, rd src nbytes) of
               (Some u, Some v) \<Rightarrow> Some (d[nbytes := v AND split_bit], nbytes)
             | _ \<Rightarrow> None)
          else Some (d, nbytes))"

section \<open>Bits of a byte string\<close>

definition bit_at :: "bytes \<Rightarrow> nat \<Rightarrow> bool" where
  "bit_at xs i = bit (xs ! (i div 8)) (7 - i mod 8)"

lemma bit_split_mask:
  assumes "k < 8" "j < 8"
  shows "bit (context_split_mask k) j \<longleftrightarrow> 8 - k \<le> j"
proof -
  have "drop_bit k (0x100 :: 32 word) = drop_bit k (2 ^ 8)" by simp
  also have "\<dots> = 2 ^ (8 - k)" using assms(1) by (simp only: drop_bit_exp_eq) (simp add: possible_bit_word)
  finally show ?thesis
    using assms by (simp add: context_split_mask_def minus_exp_eq_not_mask bit_unsigned_iff bit_not_iff
        bit_mask_iff not_less)
qed

lemma byte_eq_bits: "(u :: u8) = v \<longleftrightarrow> (\<forall>j < 8. bit u j = bit v j)"
  by (auto intro: bit_word_eqI)

lemma masked_eq_bits:
  assumes "k < 8"
  shows "u AND context_split_mask k = v AND context_split_mask k \<longleftrightarrow>
    (\<forall>j < k. bit u (7 - j) = bit v (7 - j))"
proof -
  have "u AND context_split_mask k = v AND context_split_mask k \<longleftrightarrow>
      (\<forall>j < 8. 8 - k \<le> j \<longrightarrow> bit u j = bit v j)"
    unfolding byte_eq_bits using bit_split_mask [OF assms] by (auto simp: bit_and_iff)
  also have "\<dots> \<longleftrightarrow> (\<forall>j < k. bit u (7 - j) = bit v (7 - j))"
  proof
    assume a: "\<forall>j < 8. 8 - k \<le> j \<longrightarrow> bit u j = bit v j"
    show "\<forall>j < k. bit u (7 - j) = bit v (7 - j)" using a assms by auto
  next
    assume a: "\<forall>j < k. bit u (7 - j) = bit v (7 - j)"
    show "\<forall>j < 8. 8 - k \<le> j \<longrightarrow> bit u j = bit v j"
    proof (intro allI impI)
      fix j assume "j < (8 :: nat)" "8 - k \<le> j"
      with a [rule_format, of "7 - j"] assms show "bit u j = bit v j" by simp
    qed
  qed
  finally show ?thesis .
qed

lemma all_bits_bytes:
  "(\<forall>i < 8 * n. P (i div 8) (7 - i mod 8)) \<longleftrightarrow> (\<forall>q < n. \<forall>j < 8. P q j)" for n :: nat
proof
  assume a: "\<forall>i < 8 * n. P (i div 8) (7 - i mod 8)"
  show "\<forall>q < n. \<forall>j < 8. P q j"
  proof (intro allI impI)
    fix q j :: nat assume "q < n" "j < 8"
    moreover define r where "r = 7 - j"
    ultimately have "r < 8" "7 - r = j" "8 * q + r < 8 * n" by auto
    moreover from \<open>r < 8\<close> have "(8 * q + r) div 8 = q" "(8 * q + r) mod 8 = r" by simp_all
    ultimately show "P q j" using a by metis
  qed
next
  assume "\<forall>q < n. \<forall>j < 8. P q j"
  then show "\<forall>i < 8 * n. P (i div 8) (7 - i mod 8)" by auto
qed

lemma prefix_eq_bits:
  assumes "n \<le> length a" "n \<le> length b"
  shows "take n a = take n b \<longleftrightarrow> (\<forall>i < 8 * n. bit_at a i = bit_at b i)"
proof -
  have "take n a = take n b \<longleftrightarrow> (\<forall>q < n. a ! q = b ! q)"
    using assms by (auto simp: list_eq_iff_nth_eq)
  also have "\<dots> \<longleftrightarrow> (\<forall>q < n. \<forall>j < 8. bit (a ! q) j = bit (b ! q) j)"
    unfolding byte_eq_bits ..
  also have "\<dots> \<longleftrightarrow> (\<forall>i < 8 * n. bit_at a i = bit_at b i)"
    unfolding bit_at_def using all_bits_bytes [of n "\<lambda>q j. bit (a ! q) j = bit (b ! q) j"] by simp
  finally show ?thesis .
qed

lemma byte_order: "i < j \<longleftrightarrow> i div 8 < j div 8 \<or> (i div 8 = j div 8 \<and> i mod 8 < j mod 8)" for i j :: nat
proof -
  have *: "8 * a + b < 8 * c + d \<longleftrightarrow> a < c \<or> (a = c \<and> b < d)" if "b < 8" "d < 8" for a b c d :: nat
    using that by arith
  have "8 * (i div 8) + i mod 8 < 8 * (j div 8) + j mod 8 \<longleftrightarrow>
      i div 8 < j div 8 \<or> (i div 8 = j div 8 \<and> i mod 8 < j mod 8)"
    by (rule *) simp_all
  then show ?thesis by simp
qed

lemma bits_split:
  "(\<forall>i < bits. P i) \<longleftrightarrow> (\<forall>i < 8 * (bits div 8). P i) \<and> (\<forall>j < bits mod 8. P (8 * (bits div 8) + j))"
  for bits :: nat
proof
  assume a: "\<forall>i < bits. P i"
  have "8 * (bits div 8) + j < bits" if "j < bits mod 8" for j using that by presburger
  with a show "(\<forall>i < 8 * (bits div 8). P i) \<and> (\<forall>j < bits mod 8. P (8 * (bits div 8) + j))" by auto
next
  assume a: "(\<forall>i < 8 * (bits div 8). P i) \<and> (\<forall>j < bits mod 8. P (8 * (bits div 8) + j))"
  show "\<forall>i < bits. P i"
  proof (intro allI impI)
    fix i assume i: "i < bits"
    show "P i"
    proof (cases "i < 8 * (bits div 8)")
      case False
      then have "i - 8 * (bits div 8) < bits mod 8"
        using i mult_div_mod_eq [of 8 bits] by linarith
      with a have "P (8 * (bits div 8) + (i - 8 * (bits div 8)))" by blast
      with False show ?thesis by simp
    qed (use a in blast)
  qed
qed

lemma bit_at_last: "j < 8 \<Longrightarrow> bit_at xs (8 * n + j) = bit (xs ! n) (7 - j)"
  by (simp add: bit_at_def)

lemma bitsequal_bits:
  assumes "bits \<le> 8 * length a" "bits \<le> 8 * length b"
  shows "bitsequal a b bits = Some (\<forall>i < bits. bit_at a i = bit_at b i)"
proof -
  let ?n = "bits div 8" and ?k = "bits mod 8"
  have n: "?n \<le> length a" "?n \<le> length b" using assms by auto
  have k: "?k < 8" by simp
  have eq: "(\<forall>i < bits. bit_at a i = bit_at b i) \<longleftrightarrow>
      take ?n a = take ?n b \<and> (\<forall>j < ?k. bit (a ! ?n) (7 - j) = bit (b ! ?n) (7 - j))"
    unfolding bits_split [of bits] prefix_eq_bits [OF n]
    using k by (simp add: bit_at_last)
  show ?thesis
  proof (cases "?k = 0")
    case True
    with n eq show ?thesis by (auto simp: bitsequal_def Let_def rd_block_def)
  next
    case False
    then have "?n < length a" "?n < length b" using assms by presburger+
    with n eq False masked_eq_bits [OF k] show ?thesis
      by (auto simp: bitsequal_def Let_def rd_block_def rd_def)
  qed
qed

lemma copy_bytes_bits:
  assumes "n \<le> length dst" "n \<le> length src"
  shows "\<exists>d. copy_bytes dst src n = Some d \<and> length d = length dst \<and>
    (\<forall>q < length dst. d ! q = (if q < n then src ! q else dst ! q))"
  using assms by (auto simp: copy_bytes_def nth_append)

lemma masked_update_bit:
  assumes "k < 8" "j < 8"
  shows "bit ((v AND context_split_mask k) OR (u AND NOT (context_split_mask k))) (7 - j) =
    (if j < k then bit v (7 - j) else bit u (7 - j))"
  using assms bit_split_mask [OF assms(1), of "7 - j"]
  by (auto simp: bit_or_iff bit_and_iff bit_not_iff)

lemma masked_bit:
  assumes "k < 8" "j < 8"
  shows "bit (v AND context_split_mask k) (7 - j) = (j < k \<and> bit v (7 - j))"
  using assms bit_split_mask [OF assms(1), of "7 - j"] by (auto simp: bit_and_iff)

lemma bitcopy_bits:
  assumes "bits \<le> 8 * length dst" "bits \<le> 8 * length src"
  shows "\<exists>d. bitcopy dst src bits = Some (d, bits div 8) \<and> length d = length dst \<and>
    (\<forall>i < 8 * length dst. bit_at d i = (if i < bits then bit_at src i else bit_at dst i))"
proof -
  let ?n = "bits div 8" and ?k = "bits mod 8"
  have n: "?n \<le> length dst" "?n \<le> length src" using assms by presburger+
  obtain d where d: "copy_bytes dst src ?n = Some d" "length d = length dst"
      "\<forall>q < length dst. d ! q = (if q < ?n then src ! q else dst ! q)"
    using copy_bytes_bits [of ?n dst src] n by blast
  have cases: "i < bits \<longleftrightarrow> i div 8 < ?n \<or> (i div 8 = ?n \<and> i mod 8 < ?k)" for i
    by (rule byte_order)
  show ?thesis
  proof (cases "?k = 0")
    case True
    with d cases show ?thesis by (auto simp: bitcopy_def Let_def bit_at_def)
  next
    case False
    then have l: "?n < length dst" "?n < length src" using assms by presburger+
    let ?u = "(src ! ?n AND context_split_mask ?k) OR (dst ! ?n AND NOT (context_split_mask ?k))"
    have r: "bitcopy dst src bits = Some (d[?n := ?u], ?n)"
      using False l d by (simp add: bitcopy_def Let_def rd_def)
    have "bit_at (d[?n := ?u]) i = (if i < bits then bit_at src i else bit_at dst i)"
      if "i < 8 * length dst" for i
    proof -
      have q: "i div 8 < length d" using that d(2) by auto
      show ?thesis
      proof (cases "i div 8 = ?n")
        case True
        then show ?thesis
          using q cases [of i] masked_update_bit [of ?k "i mod 8" "src ! ?n" "dst ! ?n"]
          by (simp add: bit_at_def)
      next
        case False
        then show ?thesis
          using q cases [of i] d(2,3) by (simp add: bit_at_def nth_list_update)
      qed
    qed
    with r d(2) show ?thesis by auto
  qed
qed

text \<open>
  \<open>bitcopy\<close> replaces exactly the first \<open>bits\<close> bits of the destination by those of
  the source and keeps every other bit, for buffers that hold the prefix; \<open>bitsequal\<close> then
  answers true for the two, and in general answers whether the prefixes are equal.
\<close>

theorem bitcopy_bitsequal:
  assumes "bits \<le> 8 * length dst" and "bits \<le> 8 * length src"
  shows "\<exists>d. bitcopy dst src bits = Some (d, bits div 8) \<and> length d = length dst \<and>
    (\<forall>i < 8 * length dst. bit_at d i = (if i < bits then bit_at src i else bit_at dst i)) \<and>
    bitsequal d src bits = Some True \<and>
    bitsequal dst src bits = Some (\<forall>i < bits. bit_at dst i = bit_at src i)"
proof -
  obtain d where d: "bitcopy dst src bits = Some (d, bits div 8)" "length d = length dst"
    "\<forall>i < 8 * length dst. bit_at d i = (if i < bits then bit_at src i else bit_at dst i)"
    using bitcopy_bits [OF assms] by blast
  with assms have "bitsequal d src bits = Some True" by (simp add: bitsequal_bits)
  with d assms show ?thesis by (auto simp: bitsequal_bits)
qed

lemma bitcopy_bitsequal_witness:
  "\<exists>d. bitcopy [0, 0, 0xFF] [0xAA, 0xBC] 12 = Some (d, 12 div 8) \<and> length d = length [0, 0, 0xFF :: u8] \<and>
    (\<forall>i < 8 * length [0, 0, 0xFF :: u8]. bit_at d i = (if i < 12 then bit_at [0xAA, 0xBC] i else bit_at [0, 0, 0xFF] i)) \<and>
    bitsequal d [0xAA, 0xBC] 12 = Some True \<and>
    bitsequal [0, 0, 0xFF] [0xAA, 0xBC] 12 = Some (\<forall>i < 12. bit_at [0, 0, 0xFF] i = bit_at [0xAA, 0xBC] i)"
  by (rule bitcopy_bitsequal) simp_all

end
