(* ===== verification/Ip_Checksum.thy ===== *)
theory Ip_Checksum
  imports Pelion_Prelude
begin

text \<open>
  The Internet checksum, \<open>nanostack-libservice/source/IPv6_fcf_lib/ip_fsc.c\<close>. A gather vector
  entry \<open>ns_iovec_t\<close> is the byte list it points to. The accumulator \<open>uint_fast32_t\<close> is taken at
  its least width of 32 bits, as on the 32-bit targets of the client.
\<close>

fun fcf_pairs :: "nat \<Rightarrow> bytes \<Rightarrow> nat \<times> bytes" where
  "fcf_pairs acc32 (a # b # data) = fcf_pairs (u32_wrap (acc32 + (unat a * 256 + unat b))) data"
| "fcf_pairs acc32 data = (acc32, data)"

definition fcf_block :: "nat \<times> bool \<Rightarrow> bytes \<Rightarrow> nat \<times> bool" where
  "fcf_block s data =
     (case s of (acc32, is_odd) \<Rightarrow>
       case (if is_odd \<and> data \<noteq> [] then (u32_wrap (acc32 + unat (hd data)), tl data, False)
             else (acc32, data, is_odd)) of
         (acc32, data, is_odd) \<Rightarrow>
           (case fcf_pairs acc32 data of
              (acc32, []) \<Rightarrow> (acc32, is_odd)
            | (acc32, b # rest) \<Rightarrow> (u32_wrap (acc32 + unat b * 256), True)))"

definition ip_fcf_v :: "bytes list \<Rightarrow> nat" where
  "ip_fcf_v vec =
     (let acc32 = fst (fold (\<lambda>data s. fcf_block s data) vec (0, False));
          acc32 = u32_wrap (acc32 div 65536 + acc32 mod 65536);
          sum16 = u16_wrap (acc32 div 65536 + acc32 mod 65536) in
      65535 - sum16)"

definition ipv6_fcf :: "bytes \<Rightarrow> bytes \<Rightarrow> nat \<Rightarrow> bytes \<Rightarrow> nat \<Rightarrow> nat" where
  "ipv6_fcf src_address dest_address data_length data next_header =
     (let hdr_data = [byte_of (data_length div 256), byte_of data_length, 0, byte_of next_header] in
      ip_fcf_v [src_address, dest_address, hdr_data, data])"

section \<open>The one's complement sum of RFC 1071\<close>

text \<open>The bytes of the concatenated data, alternately as high and low byte of 16-bit words.\<close>

fun weigh :: "bool \<Rightarrow> bytes \<Rightarrow> nat" where
  "weigh is_odd [] = 0"
| "weigh is_odd (b # bs) = (if is_odd then unat b else unat b * 256) + weigh (\<not> is_odd) bs"

definition ones_sum :: "nat \<Rightarrow> nat" where
  "ones_sum s = (if s = 0 then 0 else if s mod 65535 = 0 then 65535 else s mod 65535)"

lemma weigh_append: "weigh is_odd (xs @ ys) = weigh is_odd xs + weigh (is_odd \<noteq> odd (length xs)) ys"
  by (induction is_odd xs rule: weigh.induct) auto

lemma weigh_bound: "weigh False bs \<le> 65535 * ((length bs + 1) div 2)"
  and weigh_bound_odd: "weigh True bs \<le> 255 + 65535 * (length bs div 2)"
proof (induction bs)
  case Nil
  { case 1 show ?case by simp next case 2 show ?case by simp }
next
  case (Cons b bs)
  { case 1
    have "unat b * 256 + weigh True bs \<le> 65535 + 65535 * (length bs div 2)"
      using Cons(2) unat_byte_less [of b] by linarith
    then show ?case by simp
  next
    case 2
    have "unat b + weigh False bs \<le> 255 + 65535 * ((length bs + 1) div 2)"
      using Cons(1) unat_byte_less [of b] by linarith
    then show ?case by simp }
qed

lemma fcf_block_weigh:
  assumes "acc + weigh is_odd data < 4294967296"
  shows "fcf_block (acc, is_odd) data = (acc + weigh is_odd data, is_odd \<noteq> odd (length data))"
proof -
  have pairs: "(case fcf_pairs acc data of (acc, []) \<Rightarrow> (acc, False)
      | (acc, b # rest) \<Rightarrow> (u32_wrap (acc + unat b * 256), True))
      = (acc + weigh False data, odd (length data))"
    if "acc + weigh False data < 4294967296" for acc data
    using that
    by (induction acc data rule: fcf_pairs.induct) (auto simp: wrap_simps add.assoc)
  show ?thesis
  proof (cases "is_odd \<and> data \<noteq> []")
    case True
    then obtain b bs where "data = b # bs" by (cases data) auto
    with True assms pairs [of "acc + unat b" bs] show ?thesis
      by (simp add: fcf_block_def wrap_simps add.assoc)
  next
    case False
    then consider "\<not> is_odd" | "is_odd" "data = []" by blast
    then show ?thesis
      using pairs [of acc data] assms by cases (simp_all add: fcf_block_def)
  qed
qed

lemma fcf_blocks_weigh:
  "acc + weigh is_odd (concat vec) < 4294967296 \<Longrightarrow>
   fold (\<lambda>data s. fcf_block s data) vec (acc, is_odd) =
     (acc + weigh is_odd (concat vec), is_odd \<noteq> odd (length (concat vec)))"
  by (induction vec arbitrary: acc is_odd) (auto simp: fcf_block_weigh weigh_append add.assoc)

lemma fold_step: "(s div 65536 + s mod 65536) mod 65535 = s mod 65535" for s :: nat
proof -
  have "s = 65535 * (s div 65536) + (s div 65536 + s mod 65536)"
    using div_mult_mod_eq [of s 65536] by linarith
  then show ?thesis by (metis mod_mult_self4)
qed

lemma ones_sum_unique:
  assumes "b \<le> 65535" "b mod 65535 = s mod 65535" "b = 0 \<longleftrightarrow> s = 0"
  shows "b = ones_sum s"
proof (cases "b = 65535")
  case True
  with assms show ?thesis by (auto simp: ones_sum_def)
next
  case False
  with assms(1) have "b mod 65535 = b" by simp
  with assms show ?thesis by (auto simp: ones_sum_def)
qed

lemma fold_down:
  assumes "s < 4294967296"
  defines "a \<equiv> s div 65536 + s mod 65536"
  shows "a div 65536 + a mod 65536 = ones_sum s" "a < 4294967296"
proof -
  have "s div 65536 < 65536" using assms(1) by simp
  then have a: "a \<le> 131070" unfolding a_def using mod_less_divisor [of 65536 s] by linarith
  then show "a < 4294967296" by simp
  let ?b = "a div 65536 + a mod 65536"
  have "?b \<le> 65535"
  proof (cases "a < 65536")
    case False
    with a have "a div 65536 = 1" by (intro div_nat_eqI) auto
    moreover from this a have "a mod 65536 \<le> 65534" using div_mult_mod_eq [of a 65536] by linarith
    ultimately show ?thesis by simp
  qed simp
  moreover have "?b mod 65535 = s mod 65535" unfolding fold_step by (simp add: a_def fold_step)
  moreover have "?b = 0 \<longleftrightarrow> s = 0"
  proof -
    have "x div 65536 + x mod 65536 = 0 \<longleftrightarrow> x = 0" for x :: nat
      using div_mult_mod_eq [of x 65536] by auto
    then show ?thesis by (simp add: a_def)
  qed
  ultimately show "?b = ones_sum s"
    by (rule ones_sum_unique)
qed

lemma ip_fcf_v_sum:
  assumes "length (concat vec) \<le> 131072"
  shows "ip_fcf_v vec = 65535 - ones_sum (weigh False (concat vec))"
proof -
  let ?s = "weigh False (concat vec)"
  have "(length (concat vec) + 1) div 2 \<le> 65536" using assms by simp
  with weigh_bound [of "concat vec"] have s: "?s < 4294967296" by linarith
  have "fst (fold (\<lambda>data s. fcf_block s data) vec (0, False)) = ?s"
    using fcf_blocks_weigh [of 0 False vec] s by simp
  moreover have "ones_sum ?s < 65536" by (auto simp: ones_sum_def intro: less_trans [OF mod_less_divisor])
  ultimately show ?thesis
    using fold_down [OF s] by (simp add: ip_fcf_v_def Let_def wrap_simps)
qed

section \<open>What a receiver computes\<close>

text \<open>Replacing two zero bytes at an even offset by the complement of the sum makes it 65535.\<close>

lemma ones_sum_complement: "ones_sum (s + (65535 - ones_sum s)) = 65535"
proof -
  have le: "ones_sum s \<le> 65535"
    by (auto simp: ones_sum_def intro: less_imp_le [OF less_trans [OF mod_less_divisor]])
  have "ones_sum s mod 65535 = s mod 65535" by (simp add: ones_sum_def)
  then have "(s + (65535 - ones_sum s)) mod 65535 = (ones_sum s + (65535 - ones_sum s)) mod 65535"
    by (metis mod_add_left_eq)
  with le have "(s + (65535 - ones_sum s)) mod 65535 = 0" by simp
  moreover have "s + (65535 - ones_sum s) \<noteq> 0"
    by (cases "s = 0") (auto simp: ones_sum_def)
  ultimately show ?thesis by (simp add: ones_sum_def)
qed

lemma ones_sum_le: "ones_sum s \<le> 65535"
  by (auto simp: ones_sum_def intro: less_imp_le [OF less_trans [OF mod_less_divisor]])

lemma weigh_field:
  assumes "even (length pre)" "c < 65536"
  shows "weigh False (pre @ [byte_of (c div 256), byte_of c] @ post) =
    weigh False (pre @ [0, 0] @ post) + c"
proof -
  have "c div 256 < 256" using assms(2) by simp
  then have "unat (byte_of (c div 256)) * 256 + unat (byte_of c) = c"
    by (simp only: unat_byte_of mod_less) (rule div_mult_mod_eq)
  then show ?thesis
    using assms(1) by (simp add: weigh_append add.assoc [symmetric] del: unat_byte_of)
qed

text \<open>
  Property C30. The checksum of a gather vector of at most 128 KiB is the one's complement of the
  one's complement sum (RFC 1071) of the concatenated bytes: how the data is cut into blocks,
  odd lengths and empty blocks included, makes no difference.
\<close>

theorem ip_fcf_v_rfc1071:
  assumes "length (concat vec) \<le> 131072"
  shows "ip_fcf_v vec = 65535 - ones_sum (weigh False (concat vec))"
  by (rule ip_fcf_v_sum [OF assms])

lemma ip_fcf_v_rfc1071_witness:
  "ip_fcf_v [[0x00, 0x01, 0xF2], [], [0x03, 0xF4, 0xF5], [0xF6, 0xF7]] = 8717"
  using ip_fcf_v_rfc1071 [of "[[0x00, 0x01, 0xF2], [], [0x03, 0xF4, 0xF5], [0xF6, 0xF7]]"]
  by (simp add: ones_sum_def)

text \<open>
  Property C31. A sender that stores the result of \<open>ipv6_fcf\<close>, computed over the packet with a
  zero checksum field, in that field at an even offset gives the receiver a packet on which
  \<open>ipv6_fcf\<close> returns 0, as the comment of the function promises.
\<close>

theorem ipv6_fcf_verifies:
  assumes "length src = 16" and "length dst = 16" and "even (length pre)"
    and "n = length pre + 2 + length post" and "n < 65536"
    and "c = ipv6_fcf src dst n (pre @ [0, 0] @ post) next_header"
  shows "ipv6_fcf src dst n (pre @ [byte_of (c div 256), byte_of c] @ post) next_header = 0"
proof -
  let ?hdr = "[byte_of (n div 256), byte_of n, 0, byte_of next_header]"
  let ?pre = "src @ dst @ ?hdr @ pre"
  have fcf: "ipv6_fcf src dst n (pre @ f @ post) next_header =
      65535 - ones_sum (weigh False (?pre @ f @ post))" if "length f = 2" for f
    unfolding ipv6_fcf_def Let_def
    by (subst ip_fcf_v_sum) (use assms(1,2,4,5) that in simp_all)
  have c: "c = 65535 - ones_sum (weigh False (?pre @ [0, 0] @ post))"
    unfolding assms(6) by (rule fcf) simp
  then have "c < 65536" by simp
  have "even (length ?pre)" using assms(1-3) by simp
  from weigh_field [OF this \<open>c < 65536\<close>, of post]
  have "ones_sum (weigh False (?pre @ [byte_of (c div 256), byte_of c] @ post)) = 65535"
    unfolding c using ones_sum_complement by (simp only:)
  then show ?thesis using fcf [of "[byte_of (c div 256), byte_of c]"] by simp
qed

lemma ipv6_fcf_verifies_witness:
  "\<exists>c. c = ipv6_fcf (replicate 16 1) (replicate 16 2) 3 ([] @ [0, 0] @ [7]) 17 \<and>
    ipv6_fcf (replicate 16 1) (replicate 16 2) 3 ([] @ [byte_of (c div 256), byte_of c] @ [7]) 17 = 0"
  using ipv6_fcf_verifies [of "replicate 16 1" "replicate 16 2" "[]" 3 "[7]" _ 17] by auto

end
