(* ===== verification/Ip4_String.thy ===== *)
theory Ip4_String
  imports Pelion_Prelude
begin

text \<open>
  Printing and scanning IPv4 addresses, \<open>libip4string/ip4tos.c\<close> and \<open>stoip4.c\<close> of the
  nanostack library. Characters are bytes (ASCII); the output buffer is an explicit byte list
  and every access outside a buffer is None.
\<close>

section \<open>\<open>ip4tos\<close>\<close>

text \<open>The digits in the order the do-while loop writes them, the least significant first.\<close>

fun itoa_loop :: "nat \<Rightarrow> bytes" where
  "itoa_loop b = byte_of (48 + b mod 10) # (if b div 10 = 0 then [] else itoa_loop (b div 10))"

declare itoa_loop.simps [simp del]

function swap_loop :: "bytes \<Rightarrow> nat \<Rightarrow> nat \<Rightarrow> bytes" where
  "swap_loop p i j = (if i < j then swap_loop (p[j := p ! i, i := p ! j]) (i + 1) (j - 1) else p)"
  by pat_completeness auto
termination by (relation "measure (\<lambda>(p, i, j). j - i)") auto

declare swap_loop.simps [simp del]

definition ipv4_itoa :: "bytes \<Rightarrow> nat \<Rightarrow> nat \<Rightarrow> bytes option" where
  "ipv4_itoa p pos b =
     (let digits = itoa_loop b in
      map_option (\<lambda>p1. swap_loop p1 pos (pos + length digits - 1)) (write_at p pos (digits @ [0])))"

function find_nul :: "bytes \<Rightarrow> nat \<Rightarrow> nat option" where
  "find_nul p pos =
     (case rd p pos of
        None \<Rightarrow> None
      | Some c \<Rightarrow> if c \<noteq> 0 then find_nul p (pos + 1) else Some pos)"
  by pat_completeness auto
termination by (relation "measure (\<lambda>(p, pos). length p - pos)") (auto simp: rd_eq_Some)

declare find_nul.simps [simp del]

fun ip4tos_loop :: "bytes \<Rightarrow> nat \<Rightarrow> bytes \<Rightarrow> (nat \<times> bytes) option" where
  "ip4tos_loop p pos [] = Some (pos, p)"
| "ip4tos_loop p pos (b # bs) =
     (case ipv4_itoa p pos (unat b) of
        None \<Rightarrow> None
      | Some p1 \<Rightarrow>
          (case find_nul p1 pos of
             None \<Rightarrow> None
           | Some pos1 \<Rightarrow>
               if bs \<noteq> [] then
                 (case write_at p1 pos1 [0x2E] of
                    None \<Rightarrow> None
                  | Some p2 \<Rightarrow> ip4tos_loop p2 (pos1 + 1) bs)
               else ip4tos_loop p1 pos1 bs))"

text \<open>The returned length and the buffer.\<close>

definition ip4tos :: "bytes \<Rightarrow> bytes \<Rightarrow> (nat \<times> bytes) option" where
  "ip4tos ip4addr p =
     (case rd_block ip4addr 0 4 of None \<Rightarrow> None | Some bs \<Rightarrow> ip4tos_loop p 0 bs)"

section \<open>\<open>stoip4\<close>\<close>

definition is_digit :: "u8 \<Rightarrow> bool" where
  "is_digit c \<longleftrightarrow> 48 \<le> unat c \<and> unat c \<le> 57"

text \<open>The inner loop; the inner None is a return of false.\<close>

function scan_digits :: "bytes \<Rightarrow> nat \<Rightarrow> nat \<Rightarrow> nat \<Rightarrow> (nat \<times> nat) option option" where
  "scan_digits s len pos b =
     (if \<not> pos < len then Some (Some (pos, b))
      else case rd s pos of
        None \<Rightarrow> None
      | Some c \<Rightarrow>
          if \<not> is_digit c then Some (Some (pos, b))
          else let b' = b * 10 + (unat c - 48) in
            if b' > 255 then Some None else scan_digits s len (pos + 1) b')"
  by pat_completeness auto
termination by (relation "measure (\<lambda>(s, len, pos, b). len - pos)") auto

declare scan_digits.simps [simp del]

text \<open>\<open>n\<close> counts the components that are still to be read.\<close>

fun stoip4_loop :: "bytes \<Rightarrow> nat \<Rightarrow> nat \<Rightarrow> nat \<Rightarrow> bytes \<Rightarrow> (bool \<times> bytes) option" where
  "stoip4_loop s len pos 0 addr = Some (False, addr)"
| "stoip4_loop s len pos (Suc n) addr =
     (case (if pos = len then Some None else map_option Some (rd s pos)) of
        None \<Rightarrow> None
      | Some None \<Rightarrow> Some (False, addr)
      | Some (Some c) \<Rightarrow>
          if \<not> is_digit c then Some (False, addr)
          else (case scan_digits s len pos 0 of
            None \<Rightarrow> None
          | Some None \<Rightarrow> Some (False, addr)
          | Some (Some (pos1, b)) \<Rightarrow>
              (case write_at addr (3 - n) [byte_of b] of
                 None \<Rightarrow> None
               | Some addr1 \<Rightarrow>
                   if n = 0 then
                     (if pos1 = len then Some (True, addr1)
                      else map_option (\<lambda>c. (c = 0, addr1)) (rd s pos1))
                   else if pos1 = len then Some (False, addr1)
                   else (case rd s pos1 of
                     None \<Rightarrow> None
                   | Some c \<Rightarrow>
                       if c \<noteq> 0x2E then Some (False, addr1)
                       else stoip4_loop s len (pos1 + 1) n addr1))))"

definition stoip4 :: "bytes \<Rightarrow> nat \<Rightarrow> bytes \<Rightarrow> (bool \<times> bytes) option" where
  "stoip4 s len dest = (if len > 16 then Some (False, dest) else stoip4_loop s len 0 4 dest)"

section \<open>The dotted decimal text\<close>

definition decimal :: "nat \<Rightarrow> bytes" where
  "decimal b = rev (itoa_loop b)"

fun dotted :: "bytes \<Rightarrow> bytes" where
  "dotted [] = []"
| "dotted (b # bs) = decimal (unat b) @ (if bs = [] then [] else 0x2E # dotted bs)"

lemma itoa_loop_digits: "\<forall>c \<in> set (itoa_loop b). is_digit c"
  by (induction b rule: itoa_loop.induct) (subst itoa_loop.simps, auto simp: is_digit_def)

lemma itoa_loop_length: "b < 256 \<Longrightarrow> length (itoa_loop b) \<le> 3"
  by (subst itoa_loop.simps, subst itoa_loop.simps, subst itoa_loop.simps) (auto simp: div_mult2_eq [symmetric])

lemma itoa_loop_nonempty: "itoa_loop b \<noteq> []"
  by (subst itoa_loop.simps) simp

lemma decimal_facts:
  "\<forall>c \<in> set (decimal b). is_digit c" "decimal b \<noteq> []" "b < 256 \<Longrightarrow> length (decimal b) \<le> 3"
  by (simp_all add: decimal_def itoa_loop_digits itoa_loop_nonempty itoa_loop_length)

lemma digit_not_nul: "is_digit c \<Longrightarrow> c \<noteq> 0"
  by (auto simp: is_digit_def)

lemma swap_loop_reverse:
  "xs \<noteq> [] \<Longrightarrow> swap_loop (ps @ xs @ qs) (length ps) (length ps + length xs - 1) = ps @ rev xs @ qs"
proof (induction "length xs" arbitrary: xs ps qs rule: less_induct)
  case less
  show ?case
  proof (cases "length xs = 1")
    case True
    then obtain x where "xs = [x]" by (auto simp: length_Suc_conv)
    then show ?thesis by (simp add: swap_loop.simps)
  next
    case False
    with less.prems obtain x ys y where xs: "xs = x # ys @ [y]"
      by (metis One_nat_def append_butlast_last_id length_Cons list.exhaust list.size(3))
    have sw: "swap_loop (ps @ xs @ qs) (length ps) (length ps + length xs - 1) =
        swap_loop ((ps @ [y]) @ ys @ (x # qs)) (length ps + 1) (length ps + length ys)"
      by (subst swap_loop.simps) (simp add: xs nth_append list_update_append)
    show ?thesis
    proof (cases "ys = []")
      case True
      then show ?thesis unfolding sw by (subst swap_loop.simps) (simp add: xs)
    next
      case False
      with less.hyps [of ys "ps @ [y]" "x # qs"] show ?thesis unfolding sw by (simp add: xs)
    qed
  qed
qed

lemma ipv4_itoa_text:
  assumes "length ys = length (decimal b) + 1"
  shows "ipv4_itoa (xs @ ys @ zs) (length xs) b = Some (xs @ decimal b @ 0 # zs)"
proof -
  have "write_at (xs @ ys @ zs) (length xs) (itoa_loop b @ [0]) = Some (xs @ (itoa_loop b @ [0]) @ zs)"
    using assms by (intro write_at_append) (simp add: decimal_def)
  then show ?thesis
    using swap_loop_reverse [OF itoa_loop_nonempty, of xs b "0 # zs"]
    by (simp add: ipv4_itoa_def Let_def decimal_def)
qed

lemma find_nul_text:
  "0 \<notin> set ds \<Longrightarrow> find_nul (xs @ ds @ 0 # zs) (length xs) = Some (length xs + length ds)"
proof (induction ds arbitrary: xs)
  case Nil
  then show ?case by (subst find_nul.simps) (simp add: rd_append)
next
  case (Cons d ds)
  from Cons.IH [of "xs @ [d]"] Cons.prems show ?case
    by (subst find_nul.simps) (auto simp: rd_append)
qed

lemma ip4tos_loop_text:
  "bs \<noteq> [] \<Longrightarrow> length ys = length (dotted bs) + 1 \<Longrightarrow>
   ip4tos_loop (xs @ ys @ zs) (length xs) bs =
     Some (length xs + length (dotted bs), xs @ dotted bs @ 0 # zs)"
proof (induction bs arbitrary: xs ys)
  case Nil
  then show ?case by simp
next
  case (Cons b bs)
  let ?d = "decimal (unat b)" and ?k = "length (decimal (unat b)) + 1"
  let ?y1 = "take ?k ys" and ?y2 = "drop ?k ys"
  have d0: "0 \<notin> set ?d" using decimal_facts(1) digit_not_nul by blast
  have len: "length ?y1 = ?k" using Cons.prems(2) by simp
  have p1: "ipv4_itoa (xs @ ys @ zs) (length xs) (unat b) = Some (xs @ ?d @ 0 # ?y2 @ zs)"
    using ipv4_itoa_text [of ?y1 "unat b" xs "?y2 @ zs"] len
    by (simp only: append_assoc [symmetric] append_take_drop_id)
  have nul: "find_nul (xs @ ?d @ 0 # ?y2 @ zs) (length xs) = Some (length xs + length ?d)"
    by (rule find_nul_text [OF d0])
  show ?case
  proof (cases "bs = []")
    case True
    with p1 nul Cons.prems(2) show ?thesis by simp
  next
    case False
    have w: "write_at (xs @ ?d @ 0 # ?y2 @ zs) (length xs + length ?d) [0x2E] =
        Some (xs @ ?d @ 0x2E # ?y2 @ zs)"
      using write_at_append [of "[0]" "[0x2E]" "xs @ ?d" "?y2 @ zs"] by simp
    have "ip4tos_loop ((xs @ ?d @ [0x2E]) @ ?y2 @ zs) (length (xs @ ?d @ [0x2E])) bs =
        Some (length (xs @ ?d @ [0x2E]) + length (dotted bs), (xs @ ?d @ [0x2E]) @ dotted bs @ 0 # zs)"
      by (rule Cons.IH [OF False]) (use Cons.prems(2) False in simp)
    with p1 nul w False show ?thesis by simp
  qed
qed

lemma ip4tos_dotted:
  assumes "length addr = 4" "16 \<le> length p"
  shows "\<exists>rest. ip4tos addr p = Some (length (dotted addr), dotted addr @ 0 # rest) \<and>
    length (dotted addr @ 0 # rest) = length p \<and> length (dotted addr) \<le> 15"
proof -
  obtain a b c d where addr: "addr = [a, b, c, d]"
    using assms(1) by (auto simp: length_Suc_conv eval_nat_numeral)
  have len: "length (dotted addr) \<le> 15"
    using decimal_facts(3) [of "unat a"] decimal_facts(3) [of "unat b"]
      decimal_facts(3) [of "unat c"] decimal_facts(3) [of "unat d"]
    unfolding addr by (simp add: add_mono)
  let ?k = "length (dotted addr) + 1"
  have "ip4tos_loop ([] @ take ?k p @ drop ?k p) (length ([] :: bytes)) addr =
      Some (length ([] :: bytes) + length (dotted addr), [] @ dotted addr @ 0 # drop ?k p)"
    by (rule ip4tos_loop_text) (use addr assms(2) len in simp_all)
  then have "ip4tos addr p = Some (length (dotted addr), dotted addr @ 0 # drop ?k p)"
    using addr by (simp add: ip4tos_def rd_block_def)
  with len assms(2) show ?thesis by auto
qed

section \<open>Scanning\<close>

definition digit_fold :: "nat \<Rightarrow> bytes \<Rightarrow> nat" where
  "digit_fold b ds = foldl (\<lambda>b c. b * 10 + (unat c - 48)) b ds"

lemma digit_fold_mono: "b \<le> digit_fold b ds"
  unfolding digit_fold_def
proof (induction ds arbitrary: b)
  case (Cons d ds)
  from Cons [of "b * 10 + (unat d - 48)"] show ?case by simp
qed simp

lemma digit_fold_decimal: "digit_fold 0 (decimal b) = b"
proof -
  have "digit_fold 0 (rev (itoa_loop b)) = b"
  proof (induction b rule: itoa_loop.induct)
    case (1 b)
    have d: "unat (byte_of (48 + b mod 10)) - 48 = b mod 10" by simp
    show ?case
    proof (cases "b div 10 = 0")
      case True
      with d show ?thesis by (subst itoa_loop.simps) (simp add: digit_fold_def)
    next
      case False
      with 1 d show ?thesis by (subst itoa_loop.simps) (simp add: digit_fold_def)
    qed
  qed
  then show ?thesis by (simp add: decimal_def)
qed

text \<open>A scanned component stops at the end of the string or at a byte that is not a digit.\<close>

definition ends_component :: "bytes \<Rightarrow> nat \<Rightarrow> nat \<Rightarrow> bool" where
  "ends_component s len pos \<longleftrightarrow> pos = len \<or> (pos < length s \<and> pos < len \<and> \<not> is_digit (s ! pos))"

lemma scan_digits_text:
  assumes "at s pos (ds @ rest)" "\<forall>c \<in> set ds. is_digit c" "pos + length ds \<le> len"
    and "digit_fold b ds \<le> 255" "ends_component s len (pos + length ds)"
  shows "scan_digits s len pos b = Some (Some (pos + length ds, digit_fold b ds))"
  using assms
proof (induction ds arbitrary: pos b)
  case Nil
  then show ?case by (subst scan_digits.simps) (auto simp: ends_component_def rd_def digit_fold_def)
next
  case (Cons d ds)
  have "rd s pos = Some d" using Cons.prems(1) by (simp add: at_rd)
  moreover have "at s (pos + 1) (ds @ rest)" using Cons.prems(1) at_Cons [of s pos d "ds @ rest"] by simp
  moreover have "b * 10 + (unat d - 48) \<le> 255"
    using digit_fold_mono [of "b * 10 + (unat d - 48)" ds] Cons.prems(4) by (simp add: digit_fold_def)
  ultimately show ?case
    using Cons.IH [of "pos + 1" "b * 10 + (unat d - 48)"] Cons.prems(2-5)
    by (subst scan_digits.simps) (simp add: Let_def digit_fold_def)
qed

lemma stoip4_loop_text:
  assumes "at s pos (dotted bs @ tail)" "bs \<noteq> []" "length bs \<le> 4" "e = pos + length (dotted bs)"
    and "e = len \<or> (e < len \<and> (\<exists>t. tail = 0 # t))"
    and "length before = 4 - length bs" "length todo = length bs"
  shows "stoip4_loop s len pos (length bs) (before @ todo @ after) = Some (True, before @ bs @ after)"
  using assms
proof (induction bs arbitrary: pos before todo)
  case Nil
  then show ?case by simp
next
  case (Cons b bs)
  let ?d = "decimal (unat b)"
  let ?rest = "if bs = [] then tail else 0x2E # dotted bs @ tail"
  have a: "at s pos (?d @ ?rest)" using Cons.prems(1) by (auto split: if_split_asm)
  note a1 = at_append [OF a]
  obtain c cs where d: "?d = c # cs" using decimal_facts(2) by (cases ?d) auto
  have c: "rd s pos = Some c" "is_digit c"
    using a decimal_facts(1) [of "unat b"] by (simp_all add: d at_rd)
  have lt: "pos + length ?d \<le> len" "pos < len" using Cons.prems(4,5) d by auto
  have ends: "ends_component s len (pos + length ?d)"
  proof (cases "bs = []")
    case True
    with Cons.prems(4,5) a1 at_rd [of s "pos + length ?d" 0] show ?thesis
      by (auto simp: ends_component_def rd_eq_Some is_digit_def)
  next
    case False
    with a1 at_rd [of s "pos + length ?d" "0x2E" "dotted bs @ tail"] Cons.prems(4,5) show ?thesis
      by (auto simp: ends_component_def rd_eq_Some is_digit_def)
  qed
  have "digit_fold 0 ?d \<le> 255" by (simp only: digit_fold_decimal less_Suc_eq_le [symmetric]) simp
  from scan_digits_text [OF a decimal_facts(1) lt(1) this ends]
  have scan: "scan_digits s len pos 0 = Some (Some (pos + length ?d, unat b))"
    by (simp only: digit_fold_decimal)
  obtain t ts where todo: "todo = t # ts" "length ts = length bs"
    using Cons.prems(7) by (cases todo) auto
  have w: "write_at (before @ todo @ after) (3 - length bs) [byte_of (unat b)] =
      Some ((before @ [b]) @ ts @ after)"
    using write_at_append [of "[t]" "[b]" before "ts @ after"] Cons.prems(3,6) by (simp add: todo)
  show ?case
  proof (cases "bs = []")
    case True
    with Cons.prems(4,5) a1 at_rd [of s "pos + length ?d" 0]
    have "pos + length ?d = len \<or> rd s (pos + length ?d) = Some 0" by auto
    with True c lt scan w todo show ?thesis by auto
  next
    case False
    then have dot: "rd s (pos + length ?d) = Some 0x2E" and nxt: "at s (pos + length ?d + 1) (dotted bs @ tail)"
      using a1 at_rd [of s "pos + length ?d" "0x2E" "dotted bs @ tail"]
        at_Cons [of s "pos + length ?d" "0x2E" "dotted bs @ tail"] by simp_all
    have ne: "pos + length ?d \<noteq> len" using Cons.prems(4,5) False by auto
    have "stoip4_loop s len (pos + length ?d + 1) (length bs) ((before @ [b]) @ ts @ after) =
        Some (True, (before @ [b]) @ bs @ after)"
      by (rule Cons.IH [OF nxt False]) (use Cons.prems False todo in auto)
    moreover have "length bs \<noteq> 0" using False by simp
    ultimately show ?thesis using c lt scan w dot ne by simp
  qed
qed

text \<open>
  Property C29. IPv4 round trip: for every address and every output buffer of at least 16 bytes,
  \<open>ip4tos\<close> writes the dotted decimal text with its terminator inside the buffer and returns the
  length of the text, at most 15; scanning that buffer with \<open>stoip4\<close>, with the returned length
  or with any longer length up to 16, accepts it and restores the address.
\<close>

theorem ip4_roundtrip:
  assumes "length addr = 4" and "16 \<le> length p" and "length dest = 4"
  shows "\<exists>n p'. ip4tos addr p = Some (n, p') \<and> length p' = length p \<and> n \<le> 15 \<and>
    (\<forall>len. n \<le> len \<and> len \<le> 16 \<longrightarrow> stoip4 p' len dest = Some (True, addr))"
proof -
  obtain rest where r: "ip4tos addr p = Some (length (dotted addr), dotted addr @ 0 # rest)"
    "length (dotted addr @ 0 # rest) = length p" "length (dotted addr) \<le> 15"
    using ip4tos_dotted [OF assms(1,2)] by blast
  have "stoip4 (dotted addr @ 0 # rest) len dest = Some (True, addr)"
    if "length (dotted addr) \<le> len" "len \<le> 16" for len
  proof -
    have "stoip4_loop (dotted addr @ 0 # rest) len 0 (length addr) ([] @ dest @ []) = Some (True, [] @ addr @ [])"
      by (rule stoip4_loop_text [where tail = "0 # rest"])
        (use that assms in \<open>auto simp: at_def\<close>)
    with that(2) assms(1) show ?thesis by (simp add: stoip4_def)
  qed
  with r show ?thesis by blast
qed

lemma ip4_roundtrip_witness:
  "\<exists>n p'. ip4tos [192, 168, 0, 1] (replicate 16 0xFF) = Some (n, p') \<and>
    length p' = length (replicate 16 (0xFF :: u8)) \<and> n \<le> 15 \<and>
    (\<forall>len. n \<le> len \<and> len \<le> 16 \<longrightarrow> stoip4 p' len [9, 9, 9, 9] = Some (True, [192, 168, 0, 1]))"
  by (rule ip4_roundtrip) simp_all

end
