(* ===== verification/Ns_List_Spec.thy ===== *)
theory Ns_List_Spec
  imports Pelion_Prelude
begin

text \<open>
  The operations of the intrusive list \<open>ns_list\<close> as functions on lists of distinct entries, in
  the order of the list. This is what the clients of the list (the heap, the event loop) rely
  on; the links of \<open>ns_list.h\<close> that carry them are in \<open>Ns_List\<close>.
\<close>

definition list_first :: "'a list \<Rightarrow> 'a option" where
  "list_first xs = (case xs of [] \<Rightarrow> None | x # _ \<Rightarrow> Some x)"

definition list_last :: "'a list \<Rightarrow> 'a option" where
  "list_last xs = (if xs = [] then None else Some (last xs))"

fun list_next :: "'a list \<Rightarrow> 'a \<Rightarrow> 'a option" where
  "list_next [] x = None"
| "list_next (y # ys) x = (if y = x then list_first ys else list_next ys x)"

fun list_previous :: "'a list \<Rightarrow> 'a \<Rightarrow> 'a option" where
  "list_previous [] x = None"
| "list_previous [y] x = None"
| "list_previous (y # z # zs) x = (if z = x then Some y else list_previous (z # zs) x)"

definition list_add_to_start :: "'a list \<Rightarrow> 'a \<Rightarrow> 'a list" where
  "list_add_to_start xs x = x # xs"

definition list_add_to_end :: "'a list \<Rightarrow> 'a \<Rightarrow> 'a list" where
  "list_add_to_end xs x = xs @ [x]"

fun list_add_before :: "'a list \<Rightarrow> 'a \<Rightarrow> 'a \<Rightarrow> 'a list" where
  "list_add_before [] b x = []"
| "list_add_before (y # ys) b x = (if y = b then x # y # ys else y # list_add_before ys b x)"

fun list_add_after :: "'a list \<Rightarrow> 'a \<Rightarrow> 'a \<Rightarrow> 'a list" where
  "list_add_after [] a x = []"
| "list_add_after (y # ys) a x = (if y = a then y # x # ys else y # list_add_after ys a x)"

fun list_replace :: "'a list \<Rightarrow> 'a \<Rightarrow> 'a \<Rightarrow> 'a list" where
  "list_replace [] a x = []"
| "list_replace (y # ys) a x = (if y = a then x # ys else y # list_replace ys a x)"

definition list_remove :: "'a list \<Rightarrow> 'a \<Rightarrow> 'a list" where
  "list_remove xs x = remove1 x xs"

section \<open>Operations at a known place\<close>

lemma list_next_split: "x \<notin> set xs \<Longrightarrow> list_next (xs @ x # ys) x = list_first ys"
  by (induction xs) auto

lemma list_previous_absent: "x \<notin> set ys \<Longrightarrow> list_previous (y # ys) x = None"
  by (induction ys arbitrary: y) auto

lemma list_previous_split:
  "x \<notin> set xs \<Longrightarrow> x \<notin> set ys \<Longrightarrow> list_previous (xs @ x # ys) x = list_last xs"
proof (induction xs)
  case Nil
  then show ?case by (simp add: list_last_def list_previous_absent)
next
  case (Cons y xs)
  then show ?case by (cases xs) (auto simp: list_last_def)
qed

lemma list_add_before_split: "b \<notin> set xs \<Longrightarrow> list_add_before (xs @ b # ys) b x = xs @ x # b # ys"
  by (induction xs) auto

lemma list_add_after_split: "a \<notin> set xs \<Longrightarrow> list_add_after (xs @ a # ys) a x = xs @ a # x # ys"
  by (induction xs) auto

lemma list_replace_split: "a \<notin> set xs \<Longrightarrow> list_replace (xs @ a # ys) a x = xs @ x # ys"
  by (induction xs) auto

lemma list_remove_split: "x \<notin> set xs \<Longrightarrow> list_remove (xs @ x # ys) x = xs @ ys"
  by (induction xs) (auto simp: list_remove_def)

end
