(* ===== verification/Nsdynmem.thy ===== *)
theory Nsdynmem
  imports Ns_List_Spec
begin

text \<open>
  The block allocator \<open>libservice/source/nsdynmemLIB/nsdynmemLIB.c\<close> (without
  \<open>STANDARD_MALLOC\<close>), for a 32-bit target: \<open>size_t\<close> and \<open>int\<close> have four bytes, \<open>hole_t\<close> two words.

  The heap between \<open>heap_main\<close> and \<open>heap_main_end\<close> is a list of signed words, a pointer into it
  is an index. The list of holes is the list of the indices of the blocks whose data area holds
  a \<open>hole_t\<close>; the list is taken as the lists of \<open>Ns_List_Spec\<close> are. A call of the
  failure callback appends its reason to \<open>failures\<close>. None is an access outside the heap.
\<close>

section \<open>State\<close>

abbreviation (input) MEM_WORD :: nat where "MEM_WORD \<equiv> 4"
abbreviation (input) HOLE_T_SIZE :: int where "HOLE_T_SIZE \<equiv> 2"
abbreviation (input) SIZEOF_MEM_BOOK :: nat where "SIZEOF_MEM_BOOK \<equiv> 32"

datatype heap_fail =
    NS_DYN_MEM_NULL_FREE
  | NS_DYN_MEM_DOUBLE_FREE
  | NS_DYN_MEM_ALLOCATE_SIZE_NOT_VALID
  | NS_DYN_MEM_POINTER_NOT_VALID
  | NS_DYN_MEM_HEAP_SECTOR_CORRUPTED
  | NS_DYN_MEM_HEAP_SECTOR_UNITIALIZED

datatype mem_stat_update = DEV_HEAP_ALLOC_OK | DEV_HEAP_ALLOC_FAIL | DEV_HEAP_FREE

record mem_stat =
  heap_sector_size :: nat
  heap_sector_alloc_cnt :: nat
  heap_sector_allocated_bytes :: nat
  heap_sector_allocated_bytes_max :: nat
  heap_alloc_total_bytes :: nat
  heap_alloc_fail_cnt :: nat

record ns_mem_book =
  heap_main :: "int list"
  holes_list :: "nat list"
  heap_size :: nat
  temporary_alloc_heap_limit :: nat
  mem_stat_info :: "mem_stat option"
  failures :: "heap_fail list"

definition heap_failure :: "heap_fail \<Rightarrow> ns_mem_book \<Rightarrow> ns_mem_book" where
  "heap_failure reason book = book\<lparr>failures := failures book @ [reason]\<rparr>"

definition get_word :: "int list \<Rightarrow> nat \<Rightarrow> int option" where
  "get_word mem i = (if i < length mem then Some (mem ! i) else None)"

definition put_word :: "nat \<Rightarrow> int \<Rightarrow> int list \<Rightarrow> int list option" where
  "put_word i v mem = (if i < length mem then Some (mem[i := v]) else None)"

section \<open>Initialisation and statistics\<close>

text \<open>\<open>address\<close> is the numerical value of the pointer \<open>heap\<close>; the previous content of the heap is
  \<open>content\<close>, of which the result keeps everything but the two size words.\<close>

definition ns_mem_init ::
  "nat \<Rightarrow> nat \<Rightarrow> (nat \<Rightarrow> int) \<Rightarrow> bool \<Rightarrow> ns_mem_book option" where
  "ns_mem_init address h_size content stats =
     (let t = address mod MEM_WORD;
          h_size = (if t \<noteq> 0 then h_size - (MEM_WORD - t) else h_size);
          t = h_size mod MEM_WORD;
          h_size = (if t \<noteq> 0 then h_size - (MEM_WORD - t) else h_size);
          size = h_size - SIZEOF_MEM_BOOK;
          words = size div MEM_WORD in
      if words < 2 then None
      else
        (let n = words - 2;
             mem = (map content [0..<words])[0 := - int n, n + 1 := - int n] in
         Some \<lparr>heap_main = mem, holes_list = list_add_to_start [] 0, heap_size = size,
               temporary_alloc_heap_limit = size div 100 * (100 - 5),
               mem_stat_info = (if stats then
                 Some \<lparr>heap_sector_size = size, heap_sector_alloc_cnt = 0,
                       heap_sector_allocated_bytes = 0, heap_sector_allocated_bytes_max = 0,
                       heap_alloc_total_bytes = 0, heap_alloc_fail_cnt = 0\<rparr> else None),
               failures = []\<rparr>))"

definition ns_mem_set_temporary_alloc_free_heap_threshold ::
  "ns_mem_book \<Rightarrow> nat \<Rightarrow> nat \<Rightarrow> int \<times> ns_mem_book" where
  "ns_mem_set_temporary_alloc_free_heap_threshold book free_heap_percentage free_heap_amount =
     (if mem_stat_info book = None then (-1, book)
      else
        (let limit = 0;
             limit = (if free_heap_amount \<noteq> 0 \<and> free_heap_amount < heap_size book div 2
                      then heap_size book - free_heap_amount else limit);
             limit = (if free_heap_amount = 0 \<and> free_heap_percentage \<noteq> 0 \<and> free_heap_percentage < 50
                      then heap_size book div 100 * (100 - free_heap_percentage) else limit);
             limit = (if free_heap_amount = 0 \<and> free_heap_percentage = 0
                      then heap_size book else limit) in
         if limit = 0 then (-2, book)
         else (0, book\<lparr>temporary_alloc_heap_limit := limit\<rparr>)))"

definition dev_stat_update :: "mem_stat_update \<Rightarrow> nat \<Rightarrow> ns_mem_book \<Rightarrow> ns_mem_book" where
  "dev_stat_update type amount book =
     book\<lparr>mem_stat_info := map_option (\<lambda>s.
       case type of
         DEV_HEAP_ALLOC_OK \<Rightarrow>
           (let bytes = u32_wrap (heap_sector_allocated_bytes s + amount) in
            s\<lparr>heap_sector_alloc_cnt := u32_wrap (heap_sector_alloc_cnt s + 1),
              heap_sector_allocated_bytes := bytes,
              heap_sector_allocated_bytes_max := max (heap_sector_allocated_bytes_max s) bytes,
              heap_alloc_total_bytes := u32_wrap (heap_alloc_total_bytes s + amount)\<rparr>)
       | DEV_HEAP_ALLOC_FAIL \<Rightarrow> s\<lparr>heap_alloc_fail_cnt := u32_wrap (heap_alloc_fail_cnt s + 1)\<rparr>
       | DEV_HEAP_FREE \<Rightarrow>
           s\<lparr>heap_sector_alloc_cnt := u32_wrap (heap_sector_alloc_cnt s + 4294967295),
             heap_sector_allocated_bytes :=
               u32_wrap (heap_sector_allocated_bytes s + (4294967296 - u32_wrap amount))\<rparr>)
       (mem_stat_info book)\<rparr>"

section \<open>Allocation\<close>

text \<open>The requested size in words; the failure reports do not stop the caller.\<close>

definition convert_allocation_size :: "ns_mem_book \<Rightarrow> nat \<Rightarrow> int \<times> ns_mem_book" where
  "convert_allocation_size book requested_bytes =
     (int (u32_wrap (requested_bytes + MEM_WORD - 1) div MEM_WORD),
      if requested_bytes < 1 then heap_failure NS_DYN_MEM_ALLOCATE_SIZE_NOT_VALID book
      else if requested_bytes > heap_size book - 2 * MEM_WORD
      then heap_failure NS_DYN_MEM_ALLOCATE_SIZE_NOT_VALID book
      else book)"

text \<open>True for the return value 0.\<close>

definition ns_mem_block_validate :: "int list \<Rightarrow> nat \<Rightarrow> bool option" where
  "ns_mem_block_validate mem block_start =
     (case get_word mem block_start of
        None \<Rightarrow> None
      | Some size_start \<Rightarrow>
          (case get_word mem (block_start + 1 + nat \<bar>size_start\<bar>) of
             None \<Rightarrow> None
           | Some size_end \<Rightarrow> Some (size_start \<noteq> 0 \<and> size_start = size_end)))"

datatype hole_search = Found nat | Not_Found | Corrupted

fun find_hole :: "int list \<Rightarrow> int \<Rightarrow> nat list \<Rightarrow> hole_search option" where
  "find_hole mem data_size [] = Some Not_Found"
| "find_hole mem data_size (p # ps) =
     (case ns_mem_block_validate mem p of
        None \<Rightarrow> None
      | Some valid \<Rightarrow>
          if \<not> valid \<or> mem ! p \<ge> 0 then Some Corrupted
          else if - (mem ! p) \<ge> data_size then Some (Found p)
          else find_hole mem data_size ps)"

text \<open>
  The use of the block found. The result is the block, its data size and the new state; a
  temporary allocation (\<open>up\<close>) takes the start of the hole, another one the end.
\<close>

definition split_block ::
  "bool \<Rightarrow> ns_mem_book \<Rightarrow> nat \<Rightarrow> int \<Rightarrow> (nat \<times> int \<times> ns_mem_book) option" where
  "split_block up book block_ptr data_size =
     (case get_word (heap_main book) block_ptr of
        None \<Rightarrow> None
      | Some word \<Rightarrow>
        let block_data_size = - word in
        case (if block_data_size \<ge> data_size + 2 + HOLE_T_SIZE then
                (let hole_size = block_data_size - data_size - 2;
                     hole_ptr = (if up then block_ptr + 1 + nat data_size + 1 else block_ptr);
                     holes = (if up then
                         (let before = list_previous (holes_list book) block_ptr;
                              rest = list_remove (holes_list book) block_ptr in
                          case before of
                            Some b \<Rightarrow> list_add_after rest b hole_ptr
                          | None \<Rightarrow> list_add_to_start rest hole_ptr)
                       else holes_list book);
                     block = (if up then block_ptr else block_ptr + 1 + nat hole_size + 1) in
                 case put_word hole_ptr (- hole_size) (heap_main book) of
                   None \<Rightarrow> None
                 | Some mem \<Rightarrow>
                     map_option (\<lambda>mem. (block, data_size, book\<lparr>heap_main := mem, holes_list := holes\<rparr>))
                       (put_word (hole_ptr + 1 + nat hole_size) (- hole_size) mem))
              else Some (block_ptr, block_data_size,
                         book\<lparr>holes_list := list_remove (holes_list book) block_ptr\<rparr>)) of
          None \<Rightarrow> None
        | Some (block, bsize, book1) \<Rightarrow>
            (case put_word block bsize (heap_main book1) of
               None \<Rightarrow> None
             | Some mem \<Rightarrow>
                 map_option (\<lambda>mem. (block, bsize, book1\<lparr>heap_main := mem\<rparr>))
                   (put_word (block + 1 + nat bsize) bsize mem)))"

text \<open>
  \<open>ns_mem_internal_alloc\<close> for a book that is not NULL; the result is the index of the first data
  word (None inside for NULL). \<open>up\<close> is direction 1.
\<close>

definition ns_mem_internal_alloc ::
  "ns_mem_book \<Rightarrow> nat \<Rightarrow> bool \<Rightarrow> (nat option \<times> ns_mem_book) option" where
  "ns_mem_internal_alloc book alloc_size up =
     (if up \<and> (case mem_stat_info book of
                 None \<Rightarrow> False
               | Some s \<Rightarrow> heap_sector_allocated_bytes s > temporary_alloc_heap_limit book)
      then Some (None, dev_stat_update DEV_HEAP_ALLOC_FAIL 0 book)
      else
        (case convert_allocation_size book alloc_size of
           (data_size, book1) \<Rightarrow>
             if data_size = 0 then Some (None, dev_stat_update DEV_HEAP_ALLOC_FAIL 0 book1)
             else
               (case find_hole (heap_main book1) data_size
                       (if up then holes_list book1 else rev (holes_list book1)) of
                  None \<Rightarrow> None
                | Some Not_Found \<Rightarrow> Some (None, dev_stat_update DEV_HEAP_ALLOC_FAIL 0 book1)
                | Some Corrupted \<Rightarrow>
                    Some (None, dev_stat_update DEV_HEAP_ALLOC_FAIL 0
                            (heap_failure NS_DYN_MEM_HEAP_SECTOR_CORRUPTED book1))
                | Some (Found p) \<Rightarrow>
                    map_option (\<lambda>(block, bsize, book2).
                        (Some (block + 1),
                         dev_stat_update DEV_HEAP_ALLOC_OK ((nat bsize + 2) * MEM_WORD) book2))
                      (split_block up book1 p data_size))))"

definition ns_mem_alloc :: "ns_mem_book \<Rightarrow> nat \<Rightarrow> (nat option \<times> ns_mem_book) option" where
  "ns_mem_alloc heap alloc_size = ns_mem_internal_alloc heap alloc_size False"

definition ns_mem_temporary_alloc :: "ns_mem_book \<Rightarrow> nat \<Rightarrow> (nat option \<times> ns_mem_book) option" where
  "ns_mem_temporary_alloc heap alloc_size = ns_mem_internal_alloc heap alloc_size True"

section \<open>Release\<close>

text \<open>
  One neighbour of the freed block. \<open>edge\<close> is the word of the neighbour next to the block (its
  last word below, its first word above). The result is the number of words it adds, whether its
  two size words agree and whether it has a descriptor in the list of holes.
\<close>

definition merge_below :: "int list \<Rightarrow> nat \<Rightarrow> (nat \<times> bool \<times> bool) option" where
  "merge_below mem start =
     (if start = 0 then Some (0, True, False)
      else case get_word mem (start - 1) of
        None \<Rightarrow> None
      | Some edge \<Rightarrow>
          if edge < 0 then
            (let block_size = nat (1 + (- edge) + 1) in
             if block_size > start then None
             else Some (block_size, mem ! (start - block_size) = edge,
                        int block_size \<ge> 1 + HOLE_T_SIZE + 1))
          else Some (0, True, False))"

definition merge_above :: "int list \<Rightarrow> nat \<Rightarrow> (nat \<times> bool \<times> bool) option" where
  "merge_above mem blk_end =
     (if blk_end = length mem - 1 then Some (0, True, False)
      else case get_word mem (blk_end + 1) of
        None \<Rightarrow> None
      | Some edge \<Rightarrow>
          if edge < 0 then
            (let block_size = nat (1 + (- edge) + 1) in
             case get_word mem (blk_end + block_size) of
               None \<Rightarrow> None
             | Some far \<Rightarrow> Some (block_size, far = edge, int block_size \<ge> 1 + HOLE_T_SIZE + 1))
          else Some (0, True, False))"

fun first_above :: "nat list \<Rightarrow> nat \<Rightarrow> nat option" where
  "first_above [] p = None"
| "first_above (q # qs) p = (if q > p then Some q else first_above qs p)"

definition report_unless :: "bool \<Rightarrow> ns_mem_book \<Rightarrow> ns_mem_book" where
  "report_unless fine book =
     (if fine then book else heap_failure NS_DYN_MEM_HEAP_SECTOR_CORRUPTED book)"

definition ns_mem_free_and_merge_with_adjacent_blocks ::
  "ns_mem_book \<Rightarrow> nat \<Rightarrow> int \<Rightarrow> ns_mem_book option" where
  "ns_mem_free_and_merge_with_adjacent_blocks book cur_block data_size =
     (let start = cur_block; blk_end = cur_block + nat data_size + 1 in
      case Option.bind (put_word start (- data_size) (heap_main book)) (put_word blk_end (- data_size)) of
        None \<Rightarrow> None
      | Some mem \<Rightarrow>
      (case merge_below mem start of
         None \<Rightarrow> None
       | Some (lo_words, below_ok, existing_start) \<Rightarrow>
      (case merge_above mem blk_end of
         None \<Rightarrow> None
       | Some (hi_words, above_ok, existing_end) \<Rightarrow>
         let merged_data_size = data_size + int lo_words + int hi_words;
             start' = start - lo_words;
             end' = blk_end + hi_words;
             to_add = start';
             before = (if existing_end then list_next (holes_list book) (blk_end + 1) else None);
             holes = (if existing_end then list_remove (holes_list book) (blk_end + 1)
                      else holes_list book);
             holes' = (if existing_start then holes
                       else if merged_data_size \<ge> HOLE_T_SIZE then
                         (let before' = (if existing_end then before else first_above holes to_add) in
                          case before' of
                            Some b \<Rightarrow> list_add_before holes b to_add
                          | None \<Rightarrow> list_add_to_end holes to_add)
                       else holes);
             book' = report_unless above_ok (report_unless below_ok book) in
         map_option (\<lambda>mem. book'\<lparr>heap_main := mem, holes_list := holes'\<rparr>)
           (Option.bind (put_word start' (- merged_data_size) mem) (put_word end' (- merged_data_size))))))"

text \<open>
  \<open>ns_mem_free\<close>: \<open>block\<close> is None for NULL and otherwise the offset of the pointer from
  \<open>heap_main\<close> in words, which can lie outside the heap; the size word read before the range check
  is then not used.
\<close>

definition ns_mem_free :: "ns_mem_book \<Rightarrow> int option \<Rightarrow> ns_mem_book option" where
  "ns_mem_free book block =
     (case block of
        None \<Rightarrow> Some book
      | Some b \<Rightarrow>
          let ptr = b - 1; heap_main_end = int (length (heap_main book)) - 1 in
          if ptr < 0 \<or> ptr \<ge> heap_main_end then Some (heap_failure NS_DYN_MEM_POINTER_NOT_VALID book)
          else
            (let size = heap_main book ! nat ptr in
             if ptr + size \<ge> heap_main_end then Some (heap_failure NS_DYN_MEM_POINTER_NOT_VALID book)
             else if size < 0 then Some (heap_failure NS_DYN_MEM_DOUBLE_FREE book)
             else
               (case ns_mem_block_validate (heap_main book) (nat ptr) of
                  None \<Rightarrow> None
                | Some False \<Rightarrow> Some (heap_failure NS_DYN_MEM_HEAP_SECTOR_CORRUPTED book)
                | Some True \<Rightarrow>
                    map_option (dev_stat_update DEV_HEAP_FREE ((nat size + 2) * MEM_WORD))
                      (ns_mem_free_and_merge_with_adjacent_blocks book (nat ptr) size))))"

end
