(* ===== verification/Nsdynmem_Layout.thy ===== *)
theory Nsdynmem_Layout
  imports Nsdynmem
begin

text \<open>
  The heap as a sequence of blocks. A block of the abstract heap is its signed size: positive
  when allocated, negative when free. \<open>rep mem bs\<close> says that the words of the heap are the blocks
  bs one after the other, each with its size word at both ends; \<open>holes_of\<close> and \<open>allocated_of\<close> are
  the positions that follow from it.
\<close>

section \<open>Blocks\<close>

definition block_words :: "int \<Rightarrow> nat" where
  "block_words s = nat \<bar>s\<bar> + 2"

definition total_words :: "int list \<Rightarrow> nat" where
  "total_words bs = sum_list (map block_words bs)"

fun rep :: "int list \<Rightarrow> int list \<Rightarrow> bool" where
  "rep mem [] = (mem = [])"
| "rep mem (s # bs) =
     (s \<noteq> 0 \<and> (\<exists>d rest. mem = s # d @ s # rest \<and> length d = nat \<bar>s\<bar> \<and> rep rest bs))"

fun holes_of :: "nat \<Rightarrow> int list \<Rightarrow> nat list" where
  "holes_of p [] = []"
| "holes_of p (s # bs) = (if s \<le> - HOLE_T_SIZE then [p] else []) @ holes_of (p + block_words s) bs"

text \<open>The allocated blocks: index of the first data word and number of data words.\<close>

fun allocated_of :: "nat \<Rightarrow> int list \<Rightarrow> (nat \<times> nat) list" where
  "allocated_of p [] = []"
| "allocated_of p (s # bs) =
     (if s > 0 then [(p + 1, nat s)] else []) @ allocated_of (p + block_words s) bs"

definition no_adjacent_holes :: "int list \<Rightarrow> bool" where
  "no_adjacent_holes bs \<longleftrightarrow> successively (\<lambda>s t. \<not> (s < 0 \<and> t < 0)) bs"

text \<open>The statistics count the allocated blocks and their bytes, size words included.\<close>

definition stats_ok :: "mem_stat option \<Rightarrow> (nat \<times> nat) list \<Rightarrow> bool" where
  "stats_ok stats blocks \<longleftrightarrow>
     (case stats of
        None \<Rightarrow> True
      | Some s \<Rightarrow>
          heap_sector_alloc_cnt s = length blocks \<and>
          heap_sector_allocated_bytes s = sum_list (map (\<lambda>(_, w). (w + 2) * MEM_WORD) blocks))"

definition heap_ok :: "ns_mem_book \<Rightarrow> int list \<Rightarrow> bool" where
  "heap_ok book bs \<longleftrightarrow>
     rep (heap_main book) bs \<and> bs \<noteq> [] \<and> holes_list book = holes_of 0 bs \<and> no_adjacent_holes bs \<and>
     stats_ok (mem_stat_info book) (allocated_of 0 bs) \<and>
     total_words bs * MEM_WORD < 4294967296"

text \<open>The blocks read off the words of the heap.\<close>

function heap_blocks :: "int list \<Rightarrow> int list" where
  "heap_blocks [] = []"
| "heap_blocks (s # mem) = s # heap_blocks (drop (nat \<bar>s\<bar> + 1) mem)"
  by pat_completeness auto
termination by (relation "measure length") auto

definition heap_inv :: "ns_mem_book \<Rightarrow> bool" where
  "heap_inv book \<longleftrightarrow> heap_ok book (heap_blocks (heap_main book))"

definition heap_allocated :: "ns_mem_book \<Rightarrow> (nat \<times> nat) set" where
  "heap_allocated book = set (allocated_of 0 (heap_blocks (heap_main book)))"

section \<open>Layout lemmas\<close>

lemma total_words_simps [simp]:
  "total_words [] = 0" "total_words (s # bs) = block_words s + total_words bs"
  "total_words (xs @ ys) = total_words xs + total_words ys"
  by (simp_all add: total_words_def)

lemma rep_nonzero: "rep mem bs \<Longrightarrow> s \<in> set bs \<Longrightarrow> s \<noteq> 0"
  by (induction mem bs rule: rep.induct) auto

lemma rep_length: "rep mem bs \<Longrightarrow> length mem = total_words bs"
  by (induction mem bs rule: rep.induct) (auto simp: block_words_def)

lemma rep_append: "rep mem (xs @ ys) \<longleftrightarrow> (\<exists>m1 m2. mem = m1 @ m2 \<and> rep m1 xs \<and> rep m2 ys)"
proof (induction xs arbitrary: mem)
  case Nil
  then show ?case by simp
next
  case (Cons s xs)
  show ?case
  proof
    assume "rep mem ((s # xs) @ ys)"
    then obtain d rest where "s \<noteq> 0" "mem = s # d @ s # rest" "length d = nat \<bar>s\<bar>" "rep rest (xs @ ys)"
      by auto
    moreover from this Cons.IH obtain m1 m2 where "rest = m1 @ m2" "rep m1 xs" "rep m2 ys" by blast
    ultimately show "\<exists>m1 m2. mem = m1 @ m2 \<and> rep m1 (s # xs) \<and> rep m2 ys"
      by (intro exI [of _ "s # d @ s # m1"] exI [of _ m2]) auto
  next
    assume "\<exists>m1 m2. mem = m1 @ m2 \<and> rep m1 (s # xs) \<and> rep m2 ys"
    then obtain m1 m2 d rest where "mem = m1 @ m2" "rep m2 ys" "s \<noteq> 0" "m1 = s # d @ s # rest"
      "length d = nat \<bar>s\<bar>" "rep rest xs" by auto
    with Cons.IH [of "rest @ m2"] show "rep mem ((s # xs) @ ys)" by auto
  qed
qed

lemma rep_ConsI:
  "s \<noteq> 0 \<Longrightarrow> length d = nat \<bar>s\<bar> \<Longrightarrow> rep rest bs \<Longrightarrow> mem = s # d @ s # rest \<Longrightarrow> rep mem (s # bs)"
  by auto

lemma rep_appendI: "rep m1 xs \<Longrightarrow> rep mid bs \<Longrightarrow> rep m2 ys \<Longrightarrow> rep (m1 @ mid @ m2) (xs @ bs @ ys)"
  unfolding rep_append by blast

text \<open>The heap around one block.\<close>

lemma rep_block:
  "rep mem (xs @ s # ys) \<longleftrightarrow>
     (\<exists>m1 d m2. mem = m1 @ s # d @ s # m2 \<and> rep m1 xs \<and> s \<noteq> 0 \<and> length d = nat \<bar>s\<bar> \<and> rep m2 ys)"
  unfolding rep_append by auto

lemma rep_blockE:
  assumes "rep mem (xs @ s # ys)"
  obtains m1 d m2 where "mem = m1 @ s # d @ s # m2" "rep m1 xs" "s \<noteq> 0" "length d = nat \<bar>s\<bar>"
    "rep m2 ys" "length m1 = total_words xs"
  using assms rep_length unfolding rep_block by blast

lemma holes_of_append: "holes_of p (xs @ ys) = holes_of p xs @ holes_of (p + total_words xs) ys"
  by (induction xs arbitrary: p) (auto simp: add.assoc)

lemma allocated_of_append:
  "allocated_of p (xs @ ys) = allocated_of p xs @ allocated_of (p + total_words xs) ys"
  by (induction xs arbitrary: p) (auto simp: add.assoc)

lemma holes_of_range: "q \<in> set (holes_of p bs) \<Longrightarrow> p \<le> q \<and> q + 2 \<le> p + total_words bs"
  by (induction p bs rule: holes_of.induct) (fastforce simp: block_words_def split: if_split_asm)+

lemma holes_of_before: "total_words xs \<le> q \<Longrightarrow> q \<notin> set (holes_of 0 xs)"
  using holes_of_range [of q 0 xs] by auto

lemma holes_of_after: "q < p \<Longrightarrow> q \<notin> set (holes_of p xs)"
  using holes_of_range [of q p xs] by auto

lemma block_words_pos [simp]: "2 \<le> block_words s" "0 < block_words s" "block_words s \<noteq> 0"
  by (simp_all add: block_words_def)

lemma hole_split:
  assumes "p \<in> set (holes_of 0 bs)"
  obtains xs s ys where "bs = xs @ s # ys" "p = total_words xs" "s \<le> - HOLE_T_SIZE"
proof -
  have "\<exists>xs s ys. bs = xs @ s # ys \<and> p = k + total_words xs \<and> s \<le> - HOLE_T_SIZE"
    if "p \<in> set (holes_of k bs)" for k
    using that
  proof (induction k bs rule: holes_of.induct)
    case (2 k s bs)
    show ?case
    proof (cases "p \<in> set (holes_of (k + block_words s) bs)")
      case True
      with 2 obtain xs t ys where "bs = xs @ t # ys" "p = k + block_words s + total_words xs"
        "t \<le> - HOLE_T_SIZE" by blast
      then show ?thesis by (intro exI [of _ "s # xs"]) auto
    next
      case False
      with 2 show ?thesis by (intro exI [of _ "[]"]) (auto split: if_split_asm)
    qed
  qed simp
  with assms that show thesis by force
qed

lemma no_adjacent_append:
  "no_adjacent_holes (xs @ ys) \<longleftrightarrow>
     no_adjacent_holes xs \<and> no_adjacent_holes ys \<and>
     (xs = [] \<or> ys = [] \<or> \<not> (last xs < 0 \<and> hd ys < 0))"
  by (auto simp: no_adjacent_holes_def successively_append_iff)

lemma no_adjacent_Nil [simp]: "no_adjacent_holes []"
  by (simp add: no_adjacent_holes_def)

lemma no_adjacent_Cons:
  "no_adjacent_holes (s # ys) \<longleftrightarrow> no_adjacent_holes ys \<and> (ys = [] \<or> \<not> (s < 0 \<and> hd ys < 0))"
  by (cases ys) (auto simp: no_adjacent_holes_def)

section \<open>Memory accesses at a known place\<close>

lemma put_word_split: "mem = xs @ y # ys \<Longrightarrow> i = length xs \<Longrightarrow> put_word i v mem = Some (xs @ v # ys)"
  by (simp add: put_word_def)

lemma get_word_split: "mem = xs @ y # ys \<Longrightarrow> i = length xs \<Longrightarrow> get_word mem i = Some y"
  by (simp add: get_word_def)

lemma validate_block:
  assumes "rep mem (xs @ s # ys)"
  shows "ns_mem_block_validate mem (total_words xs) = Some True" "mem ! total_words xs = s"
    "get_word mem (total_words xs) = Some s"
proof -
  from assms obtain m1 d m2 where m: "mem = m1 @ s # d @ s # m2" "s \<noteq> 0" "length d = nat \<bar>s\<bar>"
    "length m1 = total_words xs" by (rule rep_blockE)
  show g: "get_word mem (total_words xs) = Some s"
    using m by (intro get_word_split [of _ m1 _ "d @ s # m2"]) auto
  show "mem ! total_words xs = s" using m by (metis nth_append_length)
  have "get_word mem (total_words xs + 1 + nat \<bar>s\<bar>) = Some s"
    using m by (intro get_word_split [of _ "m1 @ s # d" _ m2]) auto
  with g m(2) show "ns_mem_block_validate mem (total_words xs) = Some True"
    by (simp add: ns_mem_block_validate_def)
qed

section \<open>Allocated regions\<close>

lemma rep_heap_blocks: "rep mem bs \<Longrightarrow> heap_blocks mem = bs"
  by (induction mem bs rule: rep.induct) auto

lemma heap_ok_inv: "heap_ok book bs \<Longrightarrow> heap_inv book \<and> heap_blocks (heap_main book) = bs"
  using rep_heap_blocks [of "heap_main book" bs] by (auto simp: heap_inv_def heap_ok_def)

lemma allocated_of_range:
  "(a, w) \<in> set (allocated_of p bs) \<Longrightarrow> p < a \<and> a + w < p + total_words bs"
  by (induction p bs rule: allocated_of.induct) (fastforce simp: block_words_def split: if_split_asm)+

lemma allocated_of_disjoint:
  "(a, v) \<in> set (allocated_of p bs) \<Longrightarrow> (b, w) \<in> set (allocated_of p bs) \<Longrightarrow> (a, v) \<noteq> (b, w) \<Longrightarrow>
   a + v \<le> b \<or> b + w \<le> a"
proof (induction p bs rule: allocated_of.induct)
  case (2 p s bs)
  let ?p = "p + block_words s"
  have new: "x = p + 1 \<and> y = nat s \<and> s > 0 \<or> (x, y) \<in> set (allocated_of ?p bs)"
    if "(x, y) \<in> set (allocated_of p (s # bs))" for x y
    using that by (auto split: if_split_asm)
  from new [OF 2(2)] new [OF 2(3)] show ?case
    using 2 allocated_of_range [of a v ?p bs] allocated_of_range [of b w ?p bs]
    by (auto simp: block_words_def)
qed simp

lemma allocated_split:
  assumes "(b, w) \<in> set (allocated_of 0 bs)"
  obtains xs s ys where "bs = xs @ s # ys" "b = total_words xs + 1" "w = nat s" "s > 0"
proof -
  have "\<exists>xs s ys. bs = xs @ s # ys \<and> b = k + total_words xs + 1 \<and> w = nat s \<and> s > 0"
    if "(b, w) \<in> set (allocated_of k bs)" for k
    using that
  proof (induction k bs rule: allocated_of.induct)
    case (2 k s bs)
    show ?case
    proof (cases "(b, w) \<in> set (allocated_of (k + block_words s) bs)")
      case True
      with 2 obtain xs t ys where "bs = xs @ t # ys" "b = k + block_words s + total_words xs + 1"
        "w = nat t" "t > 0" by blast
      then show ?thesis by (intro exI [of _ "s # xs"]) auto
    next
      case False
      with 2 show ?thesis by (intro exI [of _ "[]"]) (auto split: if_split_asm)
    qed
  qed simp
  with assms that show thesis by force
qed

text \<open>Words outside the part of the heap that an operation rewrites.\<close>

lemma frame_words:
  assumes "mem = m1 @ d @ m2" "mem' = m1 @ d' @ m2" "length d' = length d"
    and "length m1 = total_words xs" "length d = n"
    and "(a, w) \<in> set (allocated_of 0 xs) \<or> (a, w) \<in> set (allocated_of (total_words xs + n) ys)"
    and "a \<le> i" "i < a + w"
  shows "mem' ! i = mem ! i"
proof -
  have "i < length m1 \<or> length m1 + n \<le> i"
    using assms(4,6-8) allocated_of_range [of a w 0 xs] allocated_of_range [of a w "total_words xs + n" ys]
    by auto
  then show ?thesis
    using assms(1-3,5) by (auto simp: nth_append)
qed

end
