(* ===== verification/Nsdynmem_Alloc.thy ===== *)
theory Nsdynmem_Alloc
  imports Nsdynmem_Layout
begin

text \<open>
  Allocation on a well-formed heap: the search looks at every hole and finds one that is large
  enough if there is one, and the use of the hole found keeps the heap well formed.
\<close>

section \<open>The search\<close>

lemma find_hole_spec:
  assumes "rep mem bs" "set ps \<subseteq> set (holes_of 0 bs)"
  shows "(\<exists>p \<in> set ps. find_hole mem k ps = Some (Found p) \<and> - (mem ! p) \<ge> k) \<or>
    (find_hole mem k ps = Some Not_Found \<and> (\<forall>p \<in> set ps. - (mem ! p) < k))"
  using assms(2)
proof (induction ps)
  case Nil
  then show ?case by simp
next
  case (Cons p ps)
  from Cons.prems have "p \<in> set (holes_of 0 bs)" by simp
  then obtain xs s ys where bs: "bs = xs @ s # ys" "p = total_words xs" "s \<le> - HOLE_T_SIZE"
    by (rule hole_split)
  note v = validate_block [OF assms(1) [unfolded bs(1)], folded bs(2)]
  from Cons.IH Cons.prems v bs(3) show ?case by auto
qed

lemma holes_fit:
  assumes "rep mem bs"
  shows "(\<forall>p \<in> set (holes_of 0 bs). - (mem ! p) < k) \<longleftrightarrow> (\<forall>s \<in> set bs. s \<le> - HOLE_T_SIZE \<longrightarrow> - s < k)"
proof
  assume a: "\<forall>p \<in> set (holes_of 0 bs). - (mem ! p) < k"
  show "\<forall>s \<in> set bs. s \<le> - HOLE_T_SIZE \<longrightarrow> - s < k"
  proof (intro ballI impI)
    fix s assume "s \<in> set bs" and s: "s \<le> - HOLE_T_SIZE"
    then obtain xs ys where bs: "bs = xs @ s # ys" by (meson split_list)
    have "total_words xs \<in> set (holes_of 0 bs)" using s by (simp add: bs holes_of_append)
    with a validate_block(2) [OF assms [unfolded bs]] show "- s < k" by auto
  qed
next
  assume a: "\<forall>s \<in> set bs. s \<le> - HOLE_T_SIZE \<longrightarrow> - s < k"
  show "\<forall>p \<in> set (holes_of 0 bs). - (mem ! p) < k"
  proof
    fix p assume "p \<in> set (holes_of 0 bs)"
    then obtain xs s ys where bs: "bs = xs @ s # ys" "p = total_words xs" "s \<le> - HOLE_T_SIZE"
      by (rule hole_split)
    with a validate_block(2) [OF assms [unfolded bs(1)]] show "- (mem ! p) < k" by auto
  qed
qed

section \<open>Using the hole\<close>

text \<open>The blocks that replace a hole of B words when k words are asked for, and the one that is used.\<close>

definition carve :: "bool \<Rightarrow> int \<Rightarrow> int \<Rightarrow> int list" where
  "carve up b k =
     (if b \<ge> k + 2 + HOLE_T_SIZE then (if up then [k, - (b - k - 2)] else [- (b - k - 2), k])
      else [b])"

definition carved_offset :: "bool \<Rightarrow> int \<Rightarrow> int \<Rightarrow> nat" where
  "carved_offset up b k = (if b \<ge> k + 2 + HOLE_T_SIZE \<and> \<not> up then nat (b - k - 2) + 2 else 0)"

definition carved_size :: "int \<Rightarrow> int \<Rightarrow> int" where
  "carved_size b k = (if b \<ge> k + 2 + HOLE_T_SIZE then k else b)"

lemma hole_at:
  assumes "holes_list book = holes_of 0 (xs @ s # ys)" "s \<le> - HOLE_T_SIZE"
  shows "holes_list book =
    holes_of 0 xs @ total_words xs # holes_of (total_words xs + block_words s) ys"
    "total_words xs \<notin> set (holes_of 0 xs)"
    "total_words xs \<notin> set (holes_of (total_words xs + block_words s) ys)"
  using assms holes_of_before [of xs "total_words xs"]
    holes_of_after [of "total_words xs" "total_words xs + block_words s" ys]
  by (simp_all add: holes_of_append)

lemma split_block_down:
  assumes "heap_main book = m1 @ (- b) # d @ (- b) # m2" "length d = nat b" "0 < k"
    and "b \<ge> k + 2 + HOLE_T_SIZE"
  shows "\<exists>d1 d2. length d1 = nat (b - k - 2) \<and> length d2 = nat k \<and>
    split_block False book (length m1) k =
      Some (length m1 + nat (b - k - 2) + 2, k,
        book\<lparr>heap_main := m1 @ (- (b - k - 2)) # d1 @ (- (b - k - 2)) # k # d2 @ k # m2\<rparr>)"
proof -
  let ?h = "b - k - 2"
  define d1 x y d2 where "d1 = take (nat ?h) d" "x = d ! nat ?h" "y = d ! (nat ?h + 1)"
    "d2 = drop (nat ?h + 2) d"
  have len: "nat ?h + 2 + nat k = length d" using assms by simp
  have d: "d = d1 @ x # y # d2"
    unfolding d1_x_y_d2_def using len
    by (metis Cons_nth_drop_Suc add_2_eq_Suc' add.commute id_take_nth_drop lessI less_add_Suc1
        add_Suc_right plus_1_eq_Suc trans_less_add1)
  have l: "length d1 = nat ?h" "length d2 = nat k" using len by (simp_all add: d1_x_y_d2_def)
  have g: "get_word (heap_main book) (length m1) = Some (- b)"
    by (rule get_word_split [OF assms(1) refl])
  have w1: "put_word (length m1) (- ?h) (heap_main book) = Some (m1 @ (- ?h) # d @ (- b) # m2)"
    by (rule put_word_split [OF assms(1) refl])
  have w2: "put_word (length m1 + 1 + nat ?h) (- ?h) (m1 @ (- ?h) # d @ (- b) # m2) =
      Some ((m1 @ (- ?h) # d1) @ (- ?h) # (y # d2 @ (- b) # m2))"
    by (rule put_word_split [where y = x]) (simp_all add: d l)
  have w3: "put_word (length m1 + 1 + nat ?h + 1) k ((m1 @ (- ?h) # d1) @ (- ?h) # (y # d2 @ (- b) # m2)) =
      Some ((m1 @ (- ?h) # d1 @ [- ?h]) @ k # (d2 @ (- b) # m2))"
    by (rule put_word_split [where y = y]) (simp_all add: l)
  have w4: "put_word (length m1 + 1 + nat ?h + 1 + 1 + nat k) k
        ((m1 @ (- ?h) # d1 @ [- ?h]) @ k # (d2 @ (- b) # m2)) =
      Some ((m1 @ (- ?h) # d1 @ [- ?h] @ k # d2) @ k # m2)"
    by (rule put_word_split [where y = "- b"]) (simp_all add: l)
  show ?thesis
    using l assms(4) g w1 w2 w3 w4
    by - (rule exI [of _ d1], rule exI [of _ d2], simp add: split_block_def Let_def add.assoc)
qed

lemma split_block_up:
  assumes "heap_main book = m1 @ (- b) # d @ (- b) # m2" "length d = nat b" "0 < k"
    and "b \<ge> k + 2 + HOLE_T_SIZE" "holes_list book = hs @ length m1 # hs'"
    and "length m1 \<notin> set hs" "length m1 \<notin> set hs'" "distinct hs"
  shows "\<exists>d1 d2. length d1 = nat k \<and> length d2 = nat (b - k - 2) \<and>
    split_block True book (length m1) k =
      Some (length m1, k,
        book\<lparr>heap_main := m1 @ k # d1 @ k # (- (b - k - 2)) # d2 @ (- (b - k - 2)) # m2,
             holes_list := hs @ (length m1 + nat k + 2) # hs'\<rparr>)"
proof -
  let ?h = "b - k - 2"
  define d1 x y d2 where "d1 = take (nat k) d" "x = d ! nat k" "y = d ! (nat k + 1)"
    "d2 = drop (nat k + 2) d"
  have len: "nat k + 2 + nat ?h = length d" using assms by simp
  have d: "d = d1 @ x # y # d2"
    unfolding d1_x_y_d2_def using len
    by (metis Cons_nth_drop_Suc add_2_eq_Suc' add.commute id_take_nth_drop lessI less_add_Suc1
        add_Suc_right plus_1_eq_Suc trans_less_add1)
  have l: "length d1 = nat k" "length d2 = nat ?h" using len by (simp_all add: d1_x_y_d2_def)
  have g: "get_word (heap_main book) (length m1) = Some (- b)"
    by (rule get_word_split [OF assms(1) refl])
  have w1: "put_word (length m1 + 1 + nat k + 1) (- ?h) (heap_main book) =
      Some ((m1 @ (- b) # d1 @ [x]) @ (- ?h) # (d2 @ (- b) # m2))"
    by (rule put_word_split [where y = y]) (simp_all add: assms(1) d l)
  have w2: "put_word (length m1 + 1 + nat k + 1 + 1 + nat ?h) (- ?h)
        ((m1 @ (- b) # d1 @ [x]) @ (- ?h) # (d2 @ (- b) # m2)) =
      Some ((m1 @ (- b) # d1 @ [x] @ (- ?h) # d2) @ (- ?h) # m2)"
    by (rule put_word_split [where y = "- b"]) (simp_all add: l)
  have w3: "put_word (length m1) k ((m1 @ (- b) # d1 @ [x] @ (- ?h) # d2) @ (- ?h) # m2) =
      Some (m1 @ k # (d1 @ [x] @ (- ?h) # d2 @ (- ?h) # m2))"
    by (rule put_word_split [where y = "- b"]) simp_all
  have w4: "put_word (length m1 + 1 + nat k) k (m1 @ k # (d1 @ [x] @ (- ?h) # d2 @ (- ?h) # m2)) =
      Some ((m1 @ k # d1) @ k # ((- ?h) # d2 @ (- ?h) # m2))"
    by (rule put_word_split [where y = x]) (simp_all add: l)
  have holes: "(case list_previous (holes_list book) (length m1) of
        None \<Rightarrow> list_add_to_start (list_remove (holes_list book) (length m1)) q
      | Some p \<Rightarrow> list_add_after (list_remove (holes_list book) (length m1)) p q) = hs @ q # hs'" for q
  proof (cases hs rule: rev_cases)
    case Nil
    then show ?thesis
      using assms(5-7) list_previous_split [of "length m1" "[]" hs'] list_remove_split [of "length m1" "[]" hs']
      by (simp add: list_last_def list_add_to_start_def)
  next
    case (snoc gs g)
    then show ?thesis
      using assms(5-8) list_previous_split [of "length m1" hs hs'] list_remove_split [of "length m1" hs hs']
        list_add_after_split [of g gs hs' q]
      by (simp add: list_last_def)
  qed
  show ?thesis
    using l assms(4) g w1 w2 w3 w4 holes [of "Suc (Suc (length m1 + nat k))"]
    by - (rule exI [of _ d1], rule exI [of _ d2], simp add: split_block_def Let_def add.assoc)
qed

lemma split_block_whole:
  assumes "heap_main book = m1 @ (- b) # d @ (- b) # m2" "length d = nat b" "0 < b"
    and "\<not> b \<ge> k + 2 + HOLE_T_SIZE" "holes_list book = hs @ length m1 # hs'" "length m1 \<notin> set hs"
  shows "split_block up book (length m1) k =
      Some (length m1, b, book\<lparr>heap_main := m1 @ b # d @ b # m2, holes_list := hs @ hs'\<rparr>)"
proof -
  have g: "get_word (heap_main book) (length m1) = Some (- b)"
    by (rule get_word_split [OF assms(1) refl])
  have w1: "put_word (length m1) b (heap_main book) = Some (m1 @ b # (d @ (- b) # m2))"
    by (rule put_word_split [OF assms(1) refl])
  have w2: "put_word (length m1 + 1 + nat b) b (m1 @ b # (d @ (- b) # m2)) =
      Some ((m1 @ b # d) @ b # m2)"
    by (rule put_word_split [where y = "- b"]) (simp_all add: assms(2))
  show ?thesis
    using assms(3-6) g w1 w2 list_remove_split [of "length m1" hs hs']
    by (simp add: split_block_def Let_def)
qed

section \<open>The whole operation\<close>

text \<open>The hole at xs, s, ys is replaced by the carved blocks; the first words and the rest stay.\<close>

lemma carve_facts:
  assumes "0 < k" "k \<le> b"
  shows "total_words (carve up b k) = block_words (- b)" "carve up b k \<noteq> []"
    "allocated_of p (carve up b k) = [(p + carved_offset up b k + 1, nat (carved_size b k))]"
    "0 \<notin> set (carve up b k)" "k \<le> carved_size b k" "carved_size b k \<le> b"
  using assms by (auto simp: carve_def carved_offset_def carved_size_def block_words_def)

lemma carve_no_adjacent:
  assumes "0 < k" "k \<le> b" "no_adjacent_holes (xs @ (- b) # ys)"
  shows "no_adjacent_holes (xs @ carve up b k @ ys)"
  using assms by (auto simp: carve_def no_adjacent_append no_adjacent_Cons)

lemma split_block_carve:
  assumes "heap_main book = m1 @ (- b) # d @ (- b) # m2" "length d = nat b" "0 < k" "k \<le> b"
    and "rep m1 xs" "rep m2 ys" "length m1 = total_words xs" "HOLE_T_SIZE \<le> b"
    and "holes_list book = holes_of 0 (xs @ (- b) # ys)"
  shows "\<exists>mid. split_block up book (length m1) k =
      Some (length m1 + carved_offset up b k, carved_size b k,
        book\<lparr>heap_main := m1 @ mid @ m2, holes_list := holes_of 0 (xs @ carve up b k @ ys)\<rparr>) \<and>
    length mid = block_words (- b) \<and> rep (m1 @ mid @ m2) (xs @ carve up b k @ ys)"
proof -
  let ?q = "total_words xs + block_words (- b)"
  note h = hole_at [OF assms(9), unfolded assms(7) [symmetric]]
  have hs: "holes_list book = holes_of 0 xs @ length m1 # holes_of ?q ys"
    "length m1 \<notin> set (holes_of 0 xs)" "length m1 \<notin> set (holes_of ?q ys)"
    using h assms(7,8) by simp_all
  have dist: "distinct (holes_of p zs)" for p zs
    by (induction p zs rule: holes_of.induct) (auto dest: holes_of_range simp: block_words_def)
  consider (down) "b \<ge> k + 2 + HOLE_T_SIZE" "\<not> up" | (up) "b \<ge> k + 2 + HOLE_T_SIZE" "up"
    | (whole) "\<not> b \<ge> k + 2 + HOLE_T_SIZE" by blast
  then show ?thesis
  proof cases
    case down
    obtain d1 d2 where l: "length d1 = nat (b - k - 2)" "length d2 = nat k"
      and s: "split_block False book (length m1) k = Some (length m1 + nat (b - k - 2) + 2, k,
        book\<lparr>heap_main := m1 @ (- (b - k - 2)) # d1 @ (- (b - k - 2)) # k # d2 @ k # m2\<rparr>)"
      using split_block_down [OF assms(1-3) down(1)] by blast
    let ?mid = "(- (b - k - 2)) # d1 @ (- (b - k - 2)) # k # d2 @ [k]"
    have "total_words xs + (block_words (- (b - k - 2)) + block_words k) = ?q"
      using down assms(3) by (simp add: block_words_def)
    then have "holes_of 0 (xs @ carve up b k @ ys) = holes_list book"
      using down assms(3) hs(1) by (simp add: carve_def holes_of_append assms(7) add.assoc)
    moreover have "rep ?mid [- (b - k - 2), k]"
      using down assms(3) l by (intro rep_ConsI [of _ d1] rep_ConsI [of _ d2]) auto
    then have "rep (m1 @ ?mid @ m2) (xs @ carve up b k @ ys)"
      using down by (intro rep_appendI assms(5,6)) (simp add: carve_def)
    ultimately show ?thesis
      using s down l assms(3) by (intro exI [of _ ?mid])
        (simp add: carved_offset_def carved_size_def block_words_def)
  next
    case up
    obtain d1 d2 where l: "length d1 = nat k" "length d2 = nat (b - k - 2)"
      and s: "split_block True book (length m1) k = Some (length m1, k,
        book\<lparr>heap_main := m1 @ k # d1 @ k # (- (b - k - 2)) # d2 @ (- (b - k - 2)) # m2,
             holes_list := holes_of 0 xs @ (length m1 + nat k + 2) # holes_of ?q ys\<rparr>)"
      using split_block_up [OF assms(1-3) up(1) hs dist] by blast
    let ?mid = "k # d1 @ k # (- (b - k - 2)) # d2 @ [- (b - k - 2)]"
    have pos: "total_words xs + block_words k + block_words (- (b - k - 2)) = ?q"
      "total_words xs + block_words k = length m1 + nat k + 2"
      using up assms(3,7) by (simp_all add: block_words_def)
    have "holes_of 0 (xs @ [k, - (b - k - 2)] @ ys) = holes_of 0 xs @ (total_words xs + block_words k) #
        holes_of (total_words xs + block_words k + block_words (- (b - k - 2))) ys"
      using up assms(3) by (simp add: holes_of_append add.assoc)
    then have "holes_of 0 (xs @ carve up b k @ ys) =
        holes_of 0 xs @ (length m1 + nat k + 2) # holes_of ?q ys"
      unfolding pos(1) unfolding pos(2) carve_def using up by (simp only: if_True)
    moreover have "rep ?mid [k, - (b - k - 2)]"
      using up assms(3) l by (intro rep_ConsI [of _ d1] rep_ConsI [of _ d2]) auto
    then have "rep (m1 @ ?mid @ m2) (xs @ carve up b k @ ys)"
      using up by (intro rep_appendI assms(5,6)) (simp add: carve_def)
    ultimately show ?thesis
      using s up l assms(3) by (intro exI [of _ ?mid])
        (simp add: carved_offset_def carved_size_def block_words_def)
  next
    case whole
    have s: "split_block up book (length m1) k = Some (length m1, b,
        book\<lparr>heap_main := m1 @ b # d @ b # m2, holes_list := holes_of 0 xs @ holes_of ?q ys\<rparr>)"
      by (rule split_block_whole [OF assms(1,2) _ whole hs(1,2)]) (use assms(3,4) in simp)
    let ?mid = "b # d @ [b]"
    have "holes_of 0 (xs @ carve up b k @ ys) = holes_of 0 xs @ holes_of ?q ys"
      using whole assms(3,4) by (simp add: carve_def holes_of_append block_words_def)
    moreover have "rep ?mid [b]"
      using whole assms(2-4) by (intro rep_ConsI [of _ d]) auto
    then have "rep (m1 @ ?mid @ m2) (xs @ carve up b k @ ys)"
      using whole by (intro rep_appendI assms(5,6)) (simp add: carve_def)
    ultimately show ?thesis
      using s whole assms(2-4) by (intro exI [of _ ?mid])
        (simp add: carved_offset_def carved_size_def block_words_def)
  qed
qed

lemma dev_stat_update_fields [simp]:
  "heap_main (dev_stat_update t n book) = heap_main book"
  "holes_list (dev_stat_update t n book) = holes_list book"
  "mem_stat_info (heap_failure r book) = mem_stat_info book"
  "heap_main (heap_failure r book) = heap_main book"
  "holes_list (heap_failure r book) = holes_list book"
  by (simp_all add: dev_stat_update_def heap_failure_def)

lemma heap_ok_fail:
  "heap_ok (dev_stat_update DEV_HEAP_ALLOC_FAIL 0 book) bs \<longleftrightarrow> heap_ok book bs"
  "heap_ok (heap_failure r book) bs \<longleftrightarrow> heap_ok book bs"
  by (auto simp: heap_ok_def stats_ok_def dev_stat_update_def heap_failure_def split: option.split)

lemma allocated_bytes_bound:
  "sum_list (map (\<lambda>(_, w). (w + 2) * MEM_WORD) (allocated_of p bs)) \<le> total_words bs * MEM_WORD"
  by (induction p bs rule: allocated_of.induct) (auto simp: block_words_def)

lemma allocated_count_bound: "length (allocated_of p bs) \<le> total_words bs"
  by (induction p bs rule: allocated_of.induct) (auto simp: block_words_def)

lemma stats_ok_alloc:
  assumes "stats_ok (mem_stat_info book) (as @ cs)" "allocated_of 0 bs = as @ [(b, w)] @ cs"
    and "total_words bs * MEM_WORD < 4294967296"
  shows "stats_ok (mem_stat_info (dev_stat_update DEV_HEAP_ALLOC_OK ((w + 2) * MEM_WORD) book))
    (as @ [(b, w)] @ cs)"
proof -
  have "sum_list (map (\<lambda>(_, w). (w + 2) * MEM_WORD) (as @ [(b, w)] @ cs)) < 4294967296"
    "length (as @ [(b, w)] @ cs) < 4294967296"
    using allocated_bytes_bound [of 0 bs] allocated_count_bound [of 0 bs] assms(3)
    unfolding assms(2) by linarith+
  then show ?thesis
    using assms(1) by (auto simp: stats_ok_def dev_stat_update_def Let_def wrap_simps
        split: option.split option.split_asm)
qed

text \<open>The request in words, and when a temporary allocation is refused.\<close>

definition words_for :: "nat \<Rightarrow> nat" where
  "words_for n = u32_wrap (n + 3) div 4"

definition temporary_refused :: "ns_mem_book \<Rightarrow> bool" where
  "temporary_refused book \<longleftrightarrow>
     (\<exists>s. mem_stat_info book = Some s \<and>
          heap_sector_allocated_bytes s > temporary_alloc_heap_limit book)"

lemma words_for_enough: "n < 4294967296 \<Longrightarrow> words_for n \<noteq> 0 \<Longrightarrow> n \<le> 4 * words_for n"
proof -
  assume n: "n < 4294967296" "words_for n \<noteq> 0"
  show "n \<le> 4 * words_for n"
  proof (cases "n + 3 < 4294967296")
    case True
    then show ?thesis by (simp add: words_for_def u32_wrap_def)
  next
    case False
    with n(1) have "u32_wrap (n + 3) < 4" by (simp add: u32_wrap_def le_mod_geq)
    with n(2) show ?thesis by (simp add: words_for_def)
  qed
qed

lemma convert_allocation_size_words:
  "\<exists>book'. convert_allocation_size book n = (int (words_for n), book') \<and>
    heap_main book' = heap_main book \<and> holes_list book' = holes_list book \<and>
    mem_stat_info book' = mem_stat_info book \<and> (heap_ok book' bs \<longleftrightarrow> heap_ok book bs)"
  by (auto simp: convert_allocation_size_def words_for_def heap_ok_fail add.commute)

lemma internal_alloc_step:
  assumes "heap_ok book bs" "n < 4294967296"
  shows "\<exists>r book'. ns_mem_internal_alloc book n up = Some (r, book') \<and>
    (case r of
       None \<Rightarrow> heap_ok book' bs \<and> heap_main book' = heap_main book \<and>
         ((up \<and> temporary_refused book) \<or> words_for n = 0 \<or>
          (\<forall>s \<in> set bs. s \<le> - HOLE_T_SIZE \<longrightarrow> - s < int (words_for n)))
     | Some b \<Rightarrow> \<exists>xs s ys w bs'. bs = xs @ s # ys \<and> s \<le> - HOLE_T_SIZE \<and> heap_ok book' bs' \<and>
         n \<le> 4 * w \<and> w \<le> nat (- s) \<and>
         allocated_of 0 bs = allocated_of 0 xs @ allocated_of (total_words xs + block_words s) ys \<and>
         allocated_of 0 bs' =
           allocated_of 0 xs @ [(b, w)] @ allocated_of (total_words xs + block_words s) ys \<and>
         (\<forall>a v i. (a, v) \<in> set (allocated_of 0 bs) \<longrightarrow> a \<le> i \<longrightarrow> i < a + v \<longrightarrow>
            heap_main book' ! i = heap_main book ! i))"
proof -
  have rf: "(case mem_stat_info book of None \<Rightarrow> False
      | Some s \<Rightarrow> heap_sector_allocated_bytes s > temporary_alloc_heap_limit book) = temporary_refused book"
    by (auto simp: temporary_refused_def split: option.split)
  obtain book1 where conv: "convert_allocation_size book n = (int (words_for n), book1)"
    and b1: "heap_main book1 = heap_main book" "holes_list book1 = holes_list book"
      "mem_stat_info book1 = mem_stat_info book" "heap_ok book1 bs"
    using convert_allocation_size_words [of book n bs] assms(1) by blast
  let ?k = "int (words_for n)"
  consider (refused) "up \<and> temporary_refused book"
    | (zero) "\<not> (up \<and> temporary_refused book)" "words_for n = 0"
    | (search) "\<not> (up \<and> temporary_refused book)" "0 < ?k" by fastforce
  then show ?thesis
  proof cases
    case refused
    then show ?thesis
      using assms(1) by (simp add: ns_mem_internal_alloc_def rf heap_ok_fail)
  next
    case zero
    then show ?thesis
      using b1 by (auto simp: ns_mem_internal_alloc_def rf conv heap_ok_fail)
  next
    case search
    have rep: "rep (heap_main book) bs" and holes: "holes_list book = holes_of 0 bs"
      using assms(1) by (simp_all add: heap_ok_def)
    let ?ps = "if up then holes_list book1 else rev (holes_list book1)"
    have ps: "set ?ps = set (holes_of 0 bs)" by (simp add: b1 holes)
    from find_hole_spec [OF rep, of ?ps ?k] ps consider
      (found) p where "p \<in> set (holes_of 0 bs)" "find_hole (heap_main book) ?k ?ps = Some (Found p)"
        "- (heap_main book ! p) \<ge> ?k"
      | (none) "find_hole (heap_main book) ?k ?ps = Some Not_Found"
        "\<forall>p \<in> set (holes_of 0 bs). - (heap_main book ! p) < ?k" by auto
    then show ?thesis
    proof cases
      case none
      with search b1 holes_fit [OF rep] show ?thesis
        by (auto simp: ns_mem_internal_alloc_def rf conv heap_ok_fail)
    next
      case found
      from found(1) obtain xs s ys where bs: "bs = xs @ s # ys" "p = total_words xs" "s \<le> - HOLE_T_SIZE"
        by (rule hole_split)
      define b where "b = - s"
      have s: "s = - b" "2 \<le> b" using bs(3) by (simp_all add: b_def)
      from rep obtain m1 d m2 where m: "heap_main book1 = m1 @ (- b) # d @ (- b) # m2" "rep m1 xs"
        "length d = nat b" "rep m2 ys" "length m1 = total_words xs"
        unfolding bs(1) s(1) b1 by (rule rep_blockE) (use s(2) in simp)
      have kb: "?k \<le> b"
        using found(3) validate_block(2) [OF rep [unfolded bs(1)]] by (simp add: bs(2) s(1))
      have hl: "holes_list book1 = holes_of 0 (xs @ (- b) # ys)" by (simp add: b1 holes bs(1) s(1))
      let ?bs' = "xs @ carve up b ?k @ ys"
      obtain mid where sp: "split_block up book1 (length m1) ?k =
          Some (length m1 + carved_offset up b ?k, carved_size b ?k,
            book1\<lparr>heap_main := m1 @ mid @ m2, holes_list := holes_of 0 ?bs'\<rparr>)"
        and mid: "length mid = block_words (- b)" "rep (m1 @ mid @ m2) ?bs'"
        using split_block_carve [OF m(1,3) search(2) kb m(2,4,5) s(2) hl, of up] by blast
      note c = carve_facts [OF search(2) kb]
      let ?w = "nat (carved_size b ?k)" and ?b = "total_words xs + carved_offset up b ?k + 1"
      let ?as = "allocated_of 0 xs" and ?cs = "allocated_of (total_words xs + block_words s) ys"
      have al: "allocated_of 0 bs = ?as @ ?cs" using s by (simp add: bs(1) allocated_of_append)
      have al': "allocated_of 0 ?bs' = ?as @ [(?b, ?w)] @ ?cs"
        by (simp add: allocated_of_append c s(1))
      have tw: "total_words ?bs' * 4 < 4294967296"
        using assms(1) c(1) by (simp add: heap_ok_def bs(1) s(1))
      let ?book2 = "book1\<lparr>heap_main := m1 @ mid @ m2, holes_list := holes_of 0 ?bs'\<rparr>"
      let ?book' = "dev_stat_update DEV_HEAP_ALLOC_OK ((?w + 2) * 4) ?book2"
      have "stats_ok (mem_stat_info ?book') (allocated_of 0 ?bs')"
        unfolding al' by (rule stats_ok_alloc [OF _ al' tw])
          (use assms(1) al b1(3) in \<open>simp add: heap_ok_def\<close>)
      moreover have "no_adjacent_holes ?bs'"
        using carve_no_adjacent [OF search(2) kb] assms(1) by (simp add: heap_ok_def bs(1) s(1))
      ultimately have ok: "heap_ok ?book' ?bs'"
        using mid(2) tw c(2) by (simp add: heap_ok_def)
      have run: "ns_mem_internal_alloc book n up = Some (Some ?b, ?book')"
        using search found(2) b1(1) sp
        by (simp add: ns_mem_internal_alloc_def rf conv bs(2) m(5))
      have frame: "heap_main ?book' ! i = heap_main book ! i"
        if "(a, v) \<in> set (allocated_of 0 bs)" "a \<le> i" "i < a + v" for a v i
        by (rule frame_words [of _ m1 "(- b) # d @ [- b]" m2 _ mid xs "block_words s" a v ys])
          (use that m mid(1) b1(1) al s in \<open>auto simp: block_words_def\<close>)
      have "n \<le> 4 * ?w"
        using words_for_enough [OF assms(2)] search(2) c(5) by (simp add: nat_le_iff)
      moreover have "?w \<le> nat (- s)" using c(6) s(1) by simp
      ultimately show ?thesis
        using run ok bs(1,3) al al' frame by fastforce
    qed
  qed
qed

end
