(* ===== verification/Nsdynmem_Free.thy ===== *)
theory Nsdynmem_Free
  imports Nsdynmem_Alloc
begin

text \<open>
  Release on a well-formed heap: a freed block is merged with the free blocks on either side,
  the list of holes stays the list of the holes in address order, and nothing is reported.
\<close>

section \<open>The neighbours\<close>

text \<open>The free block that ends the blocks below, or begins the blocks above, in words.\<close>

definition free_below :: "int list \<Rightarrow> nat" where
  "free_below xs = (if xs \<noteq> [] \<and> last xs < 0 then block_words (last xs) else 0)"

definition free_above :: "int list \<Rightarrow> nat" where
  "free_above ys = (if ys \<noteq> [] \<and> hd ys < 0 then block_words (hd ys) else 0)"

lemma rep_snocE:
  assumes "rep m (xs @ [t])"
  obtains m0 e where "m = m0 @ t # e @ [t]" "rep m0 xs" "length e = nat \<bar>t\<bar>" "t \<noteq> 0"
    "length m0 = total_words xs"
  using assms by (rule rep_blockE) auto

lemma merge_below_rep:
  assumes "rep m1 xs" "mem = m1 @ rest" "rest \<noteq> []"
  shows "merge_below mem (total_words xs) =
    Some (free_below xs, True, xs \<noteq> [] \<and> last xs \<le> - HOLE_T_SIZE)"
proof (cases xs rule: rev_cases)
  case Nil
  then show ?thesis by (simp add: merge_below_def free_below_def)
next
  case (snoc zs t)
  from assms(1) obtain m0 e where m: "m1 = m0 @ t # e @ [t]" "length e = nat \<bar>t\<bar>" "t \<noteq> 0"
    "length m0 = total_words zs" unfolding snoc by (rule rep_snocE)
  have p: "total_words xs \<noteq> 0" "total_words xs - 1 = length (m0 @ t # e)"
    using m(2,4) by (simp_all add: snoc block_words_def)
  have g: "get_word mem (total_words xs - 1) = Some t"
    by (rule get_word_split [OF _ p(2)]) (simp add: assms(2) m(1))
  show ?thesis
  proof (cases "t < 0")
    case True
    then have "nat (1 + (- t) + 1) = block_words t" by (simp add: block_words_def)
    moreover have "total_words xs - block_words t = length m0" by (simp add: snoc m(4))
    moreover have "mem ! length m0 = t" by (simp add: assms(2) m(1))
    moreover have "int (block_words t) \<ge> 1 + HOLE_T_SIZE + 1 \<longleftrightarrow> t \<le> - HOLE_T_SIZE"
      using True unfolding block_words_def by arith
    ultimately show ?thesis
      using p(1) g True by (simp add: merge_below_def free_below_def snoc Let_def)
  next
    case False
    with p(1) g show ?thesis by (simp add: merge_below_def free_below_def snoc)
  qed
qed

lemma merge_above_rep:
  assumes "rep m2 ys" "mem = before @ m2" "length before = blk_end + 1"
  shows "merge_above mem blk_end =
    Some (free_above ys, True, ys \<noteq> [] \<and> hd ys \<le> - HOLE_T_SIZE)"
proof (cases ys)
  case Nil
  with assms show ?thesis by (simp add: merge_above_def free_above_def)
next
  case (Cons t zs)
  with assms(1) obtain e m3 where m: "m2 = t # e @ t # m3" "length e = nat \<bar>t\<bar>" "t \<noteq> 0" by auto
  have l: "blk_end \<noteq> length mem - 1" using assms(2,3) m(1) by simp
  have g: "get_word mem (blk_end + 1) = Some t"
    by (rule get_word_split [where xs = before]) (simp_all add: assms m(1))
  show ?thesis
  proof (cases "t < 0")
    case True
    then have w: "nat (1 + (- t) + 1) = block_words t" by (simp add: block_words_def)
    have "get_word mem (blk_end + block_words t) = Some t"
      by (rule get_word_split [where xs = "before @ t # e"])
        (simp_all add: assms m(1,2) block_words_def)
    moreover have "int (block_words t) \<ge> 1 + HOLE_T_SIZE + 1 \<longleftrightarrow> t \<le> - HOLE_T_SIZE"
      using True unfolding block_words_def by arith
    ultimately show ?thesis
      using l g True w by (simp add: merge_above_def free_above_def Cons Let_def)
  next
    case False
    with l g show ?thesis by (simp add: merge_above_def free_above_def Cons)
  qed
qed

section \<open>The merged heap\<close>

definition rest_below :: "int list \<Rightarrow> int list" where
  "rest_below xs = (if xs \<noteq> [] \<and> last xs < 0 then butlast xs else xs)"

definition rest_above :: "int list \<Rightarrow> int list" where
  "rest_above ys = (if ys \<noteq> [] \<and> hd ys < 0 then tl ys else ys)"

definition merged_size :: "int list \<Rightarrow> int \<Rightarrow> int list \<Rightarrow> int" where
  "merged_size xs s ys = s + int (free_below xs) + int (free_above ys)"

definition merged :: "int list \<Rightarrow> int \<Rightarrow> int list \<Rightarrow> int list" where
  "merged xs s ys = rest_below xs @ [- merged_size xs s ys] @ rest_above ys"

lemma rest_below_words: "total_words xs = total_words (rest_below xs) + free_below xs"
  by (cases xs rule: rev_cases) (auto simp: rest_below_def free_below_def)

lemma rest_above_words: "total_words ys = free_above ys + total_words (rest_above ys)"
  by (cases ys) (auto simp: rest_above_def free_above_def)

lemma merged_words: "0 < s \<Longrightarrow> total_words (merged xs s ys) = total_words (xs @ s # ys)"
  using rest_below_words [of xs] rest_above_words [of ys]
  by (simp add: merged_def merged_size_def block_words_def)

lemma merged_no_adjacent:
  assumes "no_adjacent_holes (xs @ s # ys)" "0 < s" "\<forall>t \<in> set (xs @ ys). t \<noteq> 0"
  shows "no_adjacent_holes (merged xs s ys)"
proof -
  have "no_adjacent_holes (rest_below xs) \<and> (rest_below xs \<noteq> [] \<longrightarrow> \<not> last (rest_below xs) < 0)"
    using assms(1) by (cases xs rule: rev_cases)
      (auto simp: rest_below_def no_adjacent_append no_adjacent_Cons)
  moreover have "no_adjacent_holes (rest_above ys) \<and> (rest_above ys \<noteq> [] \<longrightarrow> \<not> hd (rest_above ys) < 0)"
    using assms(1) by (cases ys)
      (auto simp: rest_above_def no_adjacent_append no_adjacent_Cons)
  ultimately show ?thesis
    unfolding merged_def by (auto simp: no_adjacent_append no_adjacent_Cons)
qed

lemma allocated_below: "allocated_of p xs = allocated_of p (rest_below xs)"
  by (cases xs rule: rev_cases) (auto simp: rest_below_def allocated_of_append)

lemma allocated_above: "allocated_of p ys = allocated_of (p + free_above ys) (rest_above ys)"
  by (cases ys) (auto simp: rest_above_def free_above_def)

lemma allocated_merged:
  assumes "0 < s"
  shows "allocated_of 0 (merged xs s ys) =
    allocated_of 0 xs @ allocated_of (total_words xs + block_words s) ys"
proof -
  have m: "0 < merged_size xs s ys" using assms by (simp add: merged_size_def)
  have "total_words (rest_below xs) + block_words (- merged_size xs s ys) =
      total_words xs + block_words s + free_above ys"
    using rest_below_words [of xs] m assms by (simp add: merged_size_def block_words_def)
  then show ?thesis
    using m allocated_above [of "total_words xs + block_words s" ys]
    by (simp add: merged_def allocated_of_append allocated_below [of 0 xs, symmetric] add.assoc)
qed

section \<open>The holes\<close>

lemma holes_below:
  "holes_of 0 xs = holes_of 0 (rest_below xs) @
     (if xs \<noteq> [] \<and> last xs \<le> - HOLE_T_SIZE then [total_words (rest_below xs)] else [])"
  by (cases xs rule: rev_cases) (auto simp: rest_below_def holes_of_append)

lemma holes_above:
  "holes_of q ys = (if ys \<noteq> [] \<and> hd ys \<le> - HOLE_T_SIZE then [q] else []) @
     holes_of (q + free_above ys) (rest_above ys)"
  by (cases ys) (auto simp: rest_above_def free_above_def)

lemma first_above_append:
  "\<forall>q \<in> set qs. q \<le> p \<Longrightarrow> \<forall>q \<in> set rs. p < q \<Longrightarrow> first_above (qs @ rs) p = list_first rs"
  by (induction qs) (cases rs; auto simp: list_first_def)+

lemma insert_hole:
  assumes "b \<notin> set qs" "rs = b # rs' \<or> rs = []"
  shows "(case list_first rs of Some b \<Rightarrow> list_add_before (qs @ rs) b p | None \<Rightarrow> list_add_to_end (qs @ rs) p)
    = qs @ p # rs"
  using assms list_add_before_split [of b qs rs' p]
  by (auto simp: list_first_def list_add_to_end_def)

lemma merged_holes:
  assumes "0 < s" "holes = holes_of 0 (xs @ s # ys)"
  defines "q \<equiv> total_words xs + block_words s" and "p \<equiv> total_words (rest_below xs)"
    and "E \<equiv> ys \<noteq> [] \<and> hd ys \<le> - HOLE_T_SIZE" and "S \<equiv> xs \<noteq> [] \<and> last xs \<le> - HOLE_T_SIZE"
  defines "holes1 \<equiv> (if E then list_remove holes q else holes)"
  shows "(if S then holes1
     else if merged_size xs s ys \<ge> HOLE_T_SIZE then
       (case (if E then (if E then list_next holes q else None) else first_above holes1 p) of
          Some b \<Rightarrow> list_add_before holes1 b p
        | None \<Rightarrow> list_add_to_end holes1 p)
     else holes1) = holes_of 0 (merged xs s ys)"
proof -
  let ?L = "holes_of 0 (rest_below xs)" and ?H = "holes_of (q + free_above ys) (rest_above ys)"
  let ?S = "if S then [p] else []"
  have pq: "p < q" using rest_below_words [of xs] by (simp add: p_def q_def block_words_def)
  have L: "\<forall>x \<in> set ?L. x < p" using holes_of_range [of _ 0 "rest_below xs"] by (fastforce simp: p_def)
  have H: "\<forall>x \<in> set ?H. q \<le> x" using holes_of_range [of _ "q + free_above ys"] by fastforce
  have holes: "holes = (?L @ ?S) @ (if E then [q] else []) @ ?H"
    using assms(1,2) holes_below [of xs] holes_above [of q ys]
    by (simp add: holes_of_append S_def E_def p_def q_def)
  have q: "q \<notin> set (?L @ ?S)" using L pq by auto
  have h1: "holes1 = ?L @ ?S @ ?H"
    using list_remove_split [OF q, of ?H] by (simp add: holes1_def holes)
  have nxt: "list_next holes q = list_first ?H" if E
    using list_next_split [OF q, of ?H] that by (simp add: holes)
  have fst: "first_above holes1 p = list_first ?H" if "\<not> S"
    using first_above_append [of ?L p ?H] L H pq that by (fastforce simp: h1)
  have ins: "(case list_first ?H of Some b \<Rightarrow> list_add_before (?L @ ?H) b p
      | None \<Rightarrow> list_add_to_end (?L @ ?H) p) = ?L @ p # ?H"
  proof (cases ?H)
    case Nil
    then show ?thesis by (simp add: list_first_def list_add_to_end_def)
  next
    case (Cons b rs)
    with L H pq have "b \<notin> set ?L" by auto
    with Cons insert_hole [of b ?L ?H rs p] show ?thesis by simp
  qed
  have "p + block_words (- merged_size xs s ys) = q + free_above ys"
    using rest_below_words [of xs] assms(1) by (simp add: p_def q_def merged_size_def block_words_def)
  then have target: "holes_of 0 (merged xs s ys) =
      ?L @ (if merged_size xs s ys \<ge> HOLE_T_SIZE then [p] else []) @ ?H"
    by (simp add: merged_def holes_of_append p_def [symmetric])
  have SM: "merged_size xs s ys \<ge> HOLE_T_SIZE" if S
    using that assms(1) by (auto simp: S_def merged_size_def free_below_def block_words_def)
  show ?thesis
    unfolding target h1 using SM nxt fst [unfolded h1] ins
    by (cases S; cases E; cases "merged_size xs s ys \<ge> HOLE_T_SIZE")
      (simp_all cong: option.case_cong)
qed

section \<open>The whole operation\<close>

lemma write_ends:
  assumes "mem = m1 @ mid @ m2" "length mid = nat \<bar>v\<bar> + 2" "i = length m1" "j = i + nat \<bar>v\<bar> + 1"
  shows "\<exists>d. Option.bind (put_word i v mem) (put_word j v) = Some (m1 @ (v # d @ [v]) @ m2) \<and>
    length d = nat \<bar>v\<bar>"
proof -
  obtain x e where mid: "mid = x # e" using assms(2) by (cases mid) auto
  obtain d z where e: "e = d @ [z]" using assms(2) mid by (cases e rule: rev_cases) auto
  have d: "length d = nat \<bar>v\<bar>" using assms(2) by (simp add: mid e)
  have "put_word i v mem = Some (m1 @ v # (d @ z # m2))"
    by (rule put_word_split [where y = x]) (simp_all add: assms(1,3) mid e)
  moreover have "put_word j v (m1 @ v # (d @ z # m2)) = Some ((m1 @ v # d) @ v # m2)"
    by (rule put_word_split [where y = z]) (simp_all add: assms(3,4) d)
  ultimately show ?thesis using d by (intro exI [of _ d]) simp
qed

lemma rep_below:
  assumes "rep m1 xs"
  obtains m0 lo where "m1 = m0 @ lo" "rep m0 (rest_below xs)" "length lo = free_below xs"
proof (cases "xs \<noteq> [] \<and> last xs < 0")
  case True
  then obtain zs t where xs: "xs = zs @ [t]" "t < 0" by (cases xs rule: rev_cases) auto
  from assms obtain m0 e where "m1 = m0 @ t # e @ [t]" "rep m0 zs" "length e = nat \<bar>t\<bar>"
    unfolding xs(1) by (rule rep_snocE)
  with that [of m0 "t # e @ [t]"] xs show thesis
    by (simp add: rest_below_def free_below_def block_words_def)
next
  case False
  with that [of m1 "[]"] assms show thesis by (auto simp: rest_below_def free_below_def)
qed

lemma rep_above:
  assumes "rep m2 ys"
  obtains hi m3 where "m2 = hi @ m3" "rep m3 (rest_above ys)" "length hi = free_above ys"
proof (cases "ys \<noteq> [] \<and> hd ys < 0")
  case True
  then obtain t zs where ys: "ys = t # zs" "t < 0" by (cases ys) auto
  from assms obtain e m3 where "m2 = t # e @ t # m3" "length e = nat \<bar>t\<bar>" "rep m3 zs"
    unfolding ys(1) by auto
  with that [of "t # e @ [t]" m3] ys show thesis
    by (simp add: rest_above_def free_above_def block_words_def)
next
  case False
  with that [of "[]" m2] assms show thesis by (auto simp: rest_above_def free_above_def)
qed

lemma merge_step:
  assumes "rep (heap_main book) (xs @ s # ys)" "holes_list book = holes_of 0 (xs @ s # ys)" "0 < s"
  shows "\<exists>m1 d m2 d'. heap_main book = m1 @ d @ m2 \<and>
    ns_mem_free_and_merge_with_adjacent_blocks book (total_words xs) s =
      Some (book\<lparr>heap_main := m1 @ d' @ m2, holes_list := holes_of 0 (merged xs s ys)\<rparr>) \<and>
    length m1 = total_words (rest_below xs) \<and> length d' = length d \<and>
    length d = free_below xs + block_words s + free_above ys \<and>
    rep (m1 @ d' @ m2) (merged xs s ys)"
proof -
  from assms(1) obtain m1 d m2 where m: "heap_main book = m1 @ s # d @ s # m2" "rep m1 xs"
    "length d = nat \<bar>s\<bar>" "rep m2 ys" "length m1 = total_words xs" by (rule rep_blockE)
  from m(2) obtain m0 lo where lo: "m1 = m0 @ lo" "rep m0 (rest_below xs)" "length lo = free_below xs"
    by (rule rep_below)
  from m(4) obtain hi m3 where hi: "m2 = hi @ m3" "rep m3 (rest_above ys)" "length hi = free_above ys"
    by (rule rep_above)
  have l0: "length m0 = total_words (rest_below xs)" by (rule rep_length [OF lo(2)])
  let ?e = "total_words xs + nat s + 1" and ?M = "merged_size xs s ys"
  obtain d1 where w1: "Option.bind (put_word (total_words xs) (- s) (heap_main book)) (put_word ?e (- s)) =
      Some (m1 @ ((- s) # d1 @ [- s]) @ m2)" "length d1 = nat \<bar>- s\<bar>"
    using write_ends [of "heap_main book" m1 "s # d @ [s]" m2 "- s" "total_words xs" ?e] m assms(3)
    by auto
  let ?mem = "m1 @ ((- s) # d1 @ [- s]) @ m2"
  have below: "merge_below ?mem (total_words xs) =
      Some (free_below xs, True, xs \<noteq> [] \<and> last xs \<le> - HOLE_T_SIZE)"
    by (rule merge_below_rep [OF m(2) refl]) simp
  have above: "merge_above ?mem ?e = Some (free_above ys, True, ys \<noteq> [] \<and> hd ys \<le> - HOLE_T_SIZE)"
    by (rule merge_above_rep [OF m(4), where before = "m1 @ (- s) # d1 @ [- s]"])
      (use w1(2) m(5) assms(3) in simp_all)
  have M: "0 < ?M" "nat ?M = nat s + free_below xs + free_above ys"
    using assms(3) by (auto simp: merged_size_def)
  let ?mid = "lo @ ((- s) # d1 @ [- s]) @ hi"
  have mem: "?mem = m0 @ ?mid @ m3" by (simp add: lo(1) hi(1))
  have start: "total_words xs - free_below xs = length m0"
    using rest_below_words [of xs] l0 by simp
  have fin: "?e + free_above ys = length m0 + nat \<bar>- ?M\<bar> + 1"
    using rest_below_words [of xs] l0 M by simp
  have "length ?mid = nat \<bar>- ?M\<bar> + 2" using lo(3) hi(3) w1(2) M assms(3) by simp
  from write_ends [OF mem this refl fin] obtain d2 where
    w2: "Option.bind (put_word (length m0) (- ?M) ?mem) (put_word (?e + free_above ys) (- ?M)) =
      Some (m0 @ ((- ?M) # d2 @ [- ?M]) @ m3)" "length d2 = nat \<bar>- ?M\<bar>" by blast
  have q: "?e + 1 = total_words xs + block_words s" using assms(3) by (simp add: block_words_def)
  note holes = merged_holes [OF assms(3,2), folded q]
  have size: "s + int (free_below xs) + int (free_above ys) = ?M" by (simp add: merged_size_def)
  have run: "ns_mem_free_and_merge_with_adjacent_blocks book (total_words xs) s =
      Some (book\<lparr>heap_main := m0 @ ((- ?M) # d2 @ [- ?M]) @ m3,
        holes_list := holes_of 0 (merged xs s ys)\<rparr>)"
    unfolding ns_mem_free_and_merge_with_adjacent_blocks_def Let_def w1(1) option.case below above
      prod.case size start report_unless_def if_True w2(1) option.map(2)
    by (simp only: holes [folded l0])
  have "rep (m0 @ ((- ?M) # d2 @ [- ?M]) @ m3) (merged xs s ys)"
    unfolding merged_def
    by (intro rep_appendI lo(2) hi(2) rep_ConsI [of _ d2]) (use M w2(2) in auto)
  moreover have "heap_main book = m0 @ (lo @ (s # d @ [s]) @ hi) @ m3"
    by (simp add: m(1) lo(1) hi(1))
  ultimately show ?thesis
    using run l0 w2(2) M lo(3) hi(3) m(3) assms(3)
    by - (rule exI [of _ m0], rule exI [of _ "lo @ (s # d @ [s]) @ hi"], rule exI [of _ m3],
        rule exI [of _ "(- ?M) # d2 @ [- ?M]"], simp add: block_words_def)
qed

end
