(* ===== verification/Heap_Interface.thy ===== *)
theory Heap_Interface
  imports Main
begin

text \<open>
  The interface of a block allocator as its clients use it: \<open>acquire\<close> answers a request with a
  block or refuses it, \<open>release\<close> gives a block back. The provider promises that neither faults,
  that live blocks are disjoint and large enough, and that the words of a live block stay as
  they are. From this the client gets, for every sequence of operations, that its data survives.
\<close>

datatype 'r heap_op = Acquire 'r | Release nat

fun run_heap ::
  "('h \<Rightarrow> 'r \<Rightarrow> (nat option \<times> 'h) option) \<Rightarrow> ('h \<Rightarrow> nat \<Rightarrow> 'h option) \<Rightarrow> 'r heap_op list \<Rightarrow> 'h \<Rightarrow> 'h option" where
  "run_heap acq rel [] h = Some h"
| "run_heap acq rel (Acquire q # ops) h =
     (case acq h q of None \<Rightarrow> None | Some (r, h') \<Rightarrow> run_heap acq rel ops h')"
| "run_heap acq rel (Release b # ops) h =
     (case rel h b of None \<Rightarrow> None | Some h' \<Rightarrow> run_heap acq rel ops h')"

text \<open>A client releases only blocks that are live at that time, and makes only valid requests.\<close>

fun disciplined ::
  "('h \<Rightarrow> (nat \<times> nat) set) \<Rightarrow> ('r \<Rightarrow> bool) \<Rightarrow> ('h \<Rightarrow> 'r \<Rightarrow> (nat option \<times> 'h) option) \<Rightarrow>
   ('h \<Rightarrow> nat \<Rightarrow> 'h option) \<Rightarrow> 'r heap_op list \<Rightarrow> 'h \<Rightarrow> bool" where
  "disciplined live valid acq rel [] h = True"
| "disciplined live valid acq rel (Acquire q # ops) h =
     (valid q \<and> (case acq h q of None \<Rightarrow> True | Some (r, h') \<Rightarrow> disciplined live valid acq rel ops h'))"
| "disciplined live valid acq rel (Release b # ops) h =
     ((\<exists>w. (b, w) \<in> live h) \<and>
      (case rel h b of None \<Rightarrow> True | Some h' \<Rightarrow> disciplined live valid acq rel ops h'))"

definition keeps_words ::
  "('h \<Rightarrow> nat \<Rightarrow> 'w) \<Rightarrow> (nat \<times> nat) set \<Rightarrow> 'h \<Rightarrow> 'h \<Rightarrow> bool" where
  "keeps_words word blocks h h' \<longleftrightarrow>
     (\<forall>(a, v) \<in> blocks. \<forall>i. a \<le> i \<longrightarrow> i < a + v \<longrightarrow> word h' i = word h i)"

locale heap_interface =
  fixes inv :: "'h \<Rightarrow> bool"
    and live :: "'h \<Rightarrow> (nat \<times> nat) set"
    and word :: "'h \<Rightarrow> nat \<Rightarrow> 'w"
    and valid :: "'r \<Rightarrow> bool"
    and enough :: "'r \<Rightarrow> nat \<Rightarrow> bool"
    and acquire :: "'h \<Rightarrow> 'r \<Rightarrow> (nat option \<times> 'h) option"
    and release :: "'h \<Rightarrow> nat \<Rightarrow> 'h option"
  assumes acquire_law: "inv h \<Longrightarrow> valid q \<Longrightarrow>
      \<exists>r h'. acquire h q = Some (r, h') \<and> inv h' \<and> keeps_words word (live h) h h' \<and>
        (case r of None \<Rightarrow> live h' = live h
         | Some b \<Rightarrow> \<exists>w. enough q w \<and> (b, w) \<notin> live h \<and> live h' = insert (b, w) (live h))"
    and release_law: "inv h \<Longrightarrow> (b, w) \<in> live h \<Longrightarrow>
      \<exists>h'. release h b = Some h' \<and> inv h' \<and> live h' = live h - {(b, w)} \<and>
        keeps_words word (live h') h h'"
    and disjoint_law: "inv h \<Longrightarrow> (a, v) \<in> live h \<Longrightarrow> (b, w) \<in> live h \<Longrightarrow> (a, v) \<noteq> (b, w) \<Longrightarrow>
      a + v \<le> b \<or> b + w \<le> a"
begin

lemma client_block_survives:
  assumes "inv h" "disciplined live valid acquire release ops h"
    and "(a, v) \<in> live h" "Release a \<notin> set ops"
  shows "\<exists>h'. run_heap acquire release ops h = Some h' \<and> inv h' \<and> (a, v) \<in> live h' \<and>
    (\<forall>i. a \<le> i \<longrightarrow> i < a + v \<longrightarrow> word h' i = word h i)"
  using assms
proof (induction ops arbitrary: h)
  case Nil
  then show ?case by simp
next
  case (Cons op ops)
  show ?case
  proof (cases op)
    case (Acquire q)
    with Cons.prems(2) have "valid q" by simp
    from acquire_law [OF Cons.prems(1) this] obtain r h1 where
      1: "acquire h q = Some (r, h1)" "inv h1" "keeps_words word (live h) h h1" "(a, v) \<in> live h1"
      using Cons.prems(3) by (force split: option.split_asm)
    have "\<exists>h'. run_heap acquire release ops h1 = Some h' \<and> inv h' \<and> (a, v) \<in> live h' \<and>
        (\<forall>i. a \<le> i \<longrightarrow> i < a + v \<longrightarrow> word h' i = word h1 i)"
      by (rule Cons.IH [OF 1(2) _ 1(4)]) (use Cons.prems(2,4) Acquire 1(1) in auto)
    with 1 Cons.prems(3) Acquire show ?thesis by (auto simp: keeps_words_def)
  next
    case (Release b)
    with Cons.prems(2) obtain w where b: "(b, w) \<in> live h" by auto
    from release_law [OF Cons.prems(1) this] obtain h1 where
      1: "release h b = Some h1" "inv h1" "live h1 = live h - {(b, w)}" "keeps_words word (live h1) h h1"
      by blast
    have live: "(a, v) \<in> live h1" using 1(3) Cons.prems(3,4) Release by auto
    have "\<exists>h'. run_heap acquire release ops h1 = Some h' \<and> inv h' \<and> (a, v) \<in> live h' \<and>
        (\<forall>i. a \<le> i \<longrightarrow> i < a + v \<longrightarrow> word h' i = word h1 i)"
      by (rule Cons.IH [OF 1(2) _ live]) (use Cons.prems(2,4) Release 1(1) in auto)
    moreover have "\<forall>i. a \<le> i \<longrightarrow> i < a + v \<longrightarrow> word h1 i = word h i"
      using 1(4) live unfolding keeps_words_def by blast
    ultimately show ?thesis using 1(1) Release by simp
  qed
qed

lemma client_runs:
  assumes "inv h" "disciplined live valid acquire release ops h"
  shows "\<exists>h'. run_heap acquire release ops h = Some h' \<and> inv h'"
  using assms
proof (induction ops arbitrary: h)
  case Nil
  then show ?case by simp
next
  case (Cons op ops)
  show ?case
  proof (cases op)
    case (Acquire q)
    with Cons.prems acquire_law [of h q] Cons.IH show ?thesis by fastforce
  next
    case (Release b)
    with Cons.prems release_law [of h b] Cons.IH show ?thesis by fastforce
  qed
qed

end

end
