(* ===== verification/Nsdynmem_Spec.thy ===== *)
theory Nsdynmem_Spec
  imports Nsdynmem_Free Heap_Interface
begin

text \<open>
  The contract of the allocator: initialisation makes a well-formed heap, allocation and release
  keep it, and \<open>ns_mem_internal_alloc\<close> and \<open>ns_mem_free\<close> implement \<open>heap_interface\<close>.
\<close>

section \<open>Release of a live block\<close>

lemma stats_ok_free:
  assumes "stats_ok (mem_stat_info book) (as @ [(b, w)] @ cs)" "allocated_of 0 bs = as @ [(b, w)] @ cs"
    and "total_words bs * MEM_WORD < 4294967296" "mem_stat_info book' = mem_stat_info book"
  shows "stats_ok (mem_stat_info (dev_stat_update DEV_HEAP_FREE ((w + 2) * MEM_WORD) book')) (as @ cs)"
proof -
  have sum: "sum_list (map (\<lambda>(_, w). (w + 2) * MEM_WORD) (as @ [(b, w)] @ cs)) < 4294967296"
    and len: "length (as @ [(b, w)] @ cs) < 4294967296"
    using allocated_bytes_bound [of 0 bs] allocated_count_bound [of 0 bs] assms(3)
    unfolding assms(2) by linarith+
  have sub: "u32_wrap (x + n + (4294967296 - u32_wrap n)) = x" if "x + n < 4294967296" for x n
    using that by (simp add: u32_wrap_def)
  have dec: "u32_wrap (Suc x + 4294967295) = x" if "Suc x < 4294967296" for x
    using that by (simp add: u32_wrap_def)
  let ?S = "\<lambda>xs. sum_list (map (\<lambda>(_, w). (w + 2) * 4) xs)"
  show ?thesis
    using assms(1,4) sum len sub [of "?S as + ?S cs" "(w + 2) * 4"] dec [of "length as + length cs"]
    by (auto simp: stats_ok_def dev_stat_update_def algebra_simps split: option.split option.split_asm)
qed

lemma free_step:
  assumes "heap_ok book bs" "(b, w) \<in> set (allocated_of 0 bs)"
  shows "\<exists>book' bs' as cs. ns_mem_free book (Some (int b)) = Some book' \<and> heap_ok book' bs' \<and>
    failures book' = failures book \<and> length (heap_main book') = length (heap_main book) \<and>
    allocated_of 0 bs = as @ [(b, w)] @ cs \<and> allocated_of 0 bs' = as @ cs \<and>
    (\<forall>a v i. (a, v) \<in> set (as @ cs) \<longrightarrow> a \<le> i \<longrightarrow> i < a + v \<longrightarrow>
       heap_main book' ! i = heap_main book ! i)"
proof -
  from assms(2) obtain xs s ys where bs: "bs = xs @ s # ys" "b = total_words xs + 1" "w = nat s" "s > 0"
    by (rule allocated_split)
  have rep: "rep (heap_main book) (xs @ s # ys)" and holes: "holes_list book = holes_of 0 (xs @ s # ys)"
    and adj: "no_adjacent_holes (xs @ s # ys)"
    using assms(1) by (simp_all add: heap_ok_def bs(1))
  obtain m1 d m2 d' where m: "heap_main book = m1 @ d @ m2"
    "ns_mem_free_and_merge_with_adjacent_blocks book (total_words xs) s =
      Some (book\<lparr>heap_main := m1 @ d' @ m2, holes_list := holes_of 0 (merged xs s ys)\<rparr>)"
    "length m1 = total_words (rest_below xs)" "length d' = length d"
    "length d = free_below xs + block_words s + free_above ys" "rep (m1 @ d' @ m2) (merged xs s ys)"
    using merge_step [OF rep holes bs(4)] by blast
  let ?as = "allocated_of 0 xs" and ?cs = "allocated_of (total_words xs + block_words s) ys"
  let ?book1 = "book\<lparr>heap_main := m1 @ d' @ m2, holes_list := holes_of 0 (merged xs s ys)\<rparr>"
  let ?book' = "dev_stat_update DEV_HEAP_FREE ((w + 2) * 4) ?book1"
  have al: "allocated_of 0 bs = ?as @ [(b, w)] @ ?cs"
    using bs(4) by (simp add: bs(1-3) allocated_of_append)
  have al': "allocated_of 0 (merged xs s ys) = ?as @ ?cs" by (rule allocated_merged [OF bs(4)])
  have v: "ns_mem_block_validate (heap_main book) (total_words xs) = Some True"
    "heap_main book ! total_words xs = s"
    by (rule validate_block [OF rep])+
  have "int (length (heap_main book)) = int (total_words xs) + (s + 2) + int (total_words ys)"
    using rep_length [OF rep] bs(4) by (simp add: block_words_def)
  then have run: "ns_mem_free book (Some (int b)) = Some ?book'"
    using v bs(2-4) m(2) by (simp add: ns_mem_free_def Let_def)
  have tw: "total_words bs * 4 < 4294967296" using assms(1) by (simp add: heap_ok_def)
  have "stats_ok (mem_stat_info ?book') (?as @ ?cs)"
    by (rule stats_ok_free [OF _ al tw]) (use assms(1) al in \<open>simp_all add: heap_ok_def\<close>)
  moreover have "no_adjacent_holes (merged xs s ys)"
    by (rule merged_no_adjacent [OF adj bs(4)]) (use rep_nonzero [OF rep] in auto)
  moreover have "total_words (merged xs s ys) * 4 < 4294967296"
    using tw merged_words [OF bs(4)] by (simp add: bs(1))
  ultimately have ok: "heap_ok ?book' (merged xs s ys)"
    using m(6) by (simp add: heap_ok_def al') (simp add: merged_def)
  have "total_words (rest_below xs) + length d = total_words xs + block_words s + free_above ys"
    using m(5) rest_below_words [of xs] by simp
  then have frame: "heap_main ?book' ! i = heap_main book ! i"
    if "(a, v) \<in> set (?as @ ?cs)" "a \<le> i" "i < a + v" for a v i
    by (intro frame_words [OF m(1) _ m(4) m(3) refl, of _ a v "rest_above ys"])
      (use that allocated_below [of 0 xs] allocated_above [of "total_words xs + block_words s" ys] in auto)
  have "failures ?book' = failures book" "length (heap_main ?book') = length (heap_main book)"
    using m(1,4) by (simp_all add: dev_stat_update_def)
  with run ok al al' frame show ?thesis by blast
qed

text \<open>A pointer that is not the start of a live block in the heap is reported, not released.\<close>

lemma free_hole_reported:
  assumes "heap_ok book (xs @ s # ys)" "s < 0"
  shows "ns_mem_free book (Some (int (total_words xs + 1))) =
    Some (heap_failure NS_DYN_MEM_DOUBLE_FREE book)"
proof -
  have rep: "rep (heap_main book) (xs @ s # ys)" using assms(1) by (simp add: heap_ok_def)
  have "int (length (heap_main book)) = int (total_words xs) + (2 - s) + int (total_words ys)"
    using rep_length [OF rep] assms(2) by (simp add: block_words_def)
  then show ?thesis
    using validate_block(2) [OF rep] assms(2) by (simp add: ns_mem_free_def Let_def)
qed

section \<open>Initialisation\<close>

lemma init_heap_ok:
  assumes "address mod 4 = 0" "h_size mod 4 = 0" "48 \<le> h_size" "h_size < 4294967296"
  shows "\<exists>book. ns_mem_init address h_size content stats = Some book \<and>
    heap_ok book [- int ((h_size - 32) div 4 - 2)]"
proof -
  let ?words = "(h_size - 32) div 4"
  let ?n = "?words - 2"
  define k where "k = (h_size - 48) div 4"
  have k: "h_size = 48 + 4 * k" using assms(2,3) unfolding k_def by presburger
  have w: "?words = 4 + k" by (simp add: k)
  have mem: "(map content [0..<4 + k])[0 := - int (2 + k), 2 + k + 1 := - int (2 + k)] =
      - int (2 + k) # map content [1..<3 + k] @ [- int (2 + k)]"
  proof -
    have "[0..<4 + k] = 0 # [1..<4 + k]" by (simp add: upt_conv_Cons)
    moreover have "[1..<4 + k] = [1..<3 + k] @ [3 + k]" using upt_Suc_append [of 1 "3 + k"] by simp
    moreover have "length (map content [1..<3 + k]) = 2 + k" by simp
    ultimately show ?thesis
      using list_update_length [of "map content [1..<3 + k]" "content (3 + k)" "[]"] by simp
  qed
  have n: "nat (int k + 2) = Suc (Suc k)" by linarith
  show ?thesis
    using assms(1,2,4) w mem n
    by (simp add: ns_mem_init_def Let_def heap_ok_def stats_ok_def list_add_to_start_def block_words_def
        no_adjacent_Cons k)
qed

section \<open>The interface\<close>

definition heap_word :: "ns_mem_book \<Rightarrow> nat \<Rightarrow> int" where
  "heap_word book i = heap_main book ! i"

text \<open>A request is a size in bytes with the direction of the search (True for temporary).\<close>

definition heap_acquire :: "ns_mem_book \<Rightarrow> nat \<times> bool \<Rightarrow> (nat option \<times> ns_mem_book) option" where
  "heap_acquire book q = ns_mem_internal_alloc book (fst q) (snd q)"

definition heap_release :: "ns_mem_book \<Rightarrow> nat \<Rightarrow> ns_mem_book option" where
  "heap_release book b = ns_mem_free book (Some (int b))"

definition size_t_request :: "nat \<times> bool \<Rightarrow> bool" where
  "size_t_request q \<longleftrightarrow> fst q < 4294967296"

definition words_suffice :: "nat \<times> bool \<Rightarrow> nat \<Rightarrow> bool" where
  "words_suffice q w \<longleftrightarrow> fst q \<le> 4 * w"

lemma heap_inv_ok: "heap_inv book \<Longrightarrow> heap_ok book (heap_blocks (heap_main book))"
  by (simp add: heap_inv_def)

lemma heap_allocated_eq: "heap_ok book bs \<Longrightarrow> heap_allocated book = set (allocated_of 0 bs)"
  using heap_ok_inv [of book bs] by (simp add: heap_allocated_def)

lemma allocated_fresh:
  assumes "heap_ok book bs'" "allocated_of 0 bs' = as @ [(b, w)] @ cs"
  shows "(b, w) \<notin> set (as @ cs)"
proof -
  have "distinct (allocated_of p bs)" for p bs
    by (induction p bs rule: allocated_of.induct) (auto dest: allocated_of_range simp: block_words_def)
  from this [of 0 bs'] show ?thesis unfolding assms(2) by auto
qed

interpretation ns_heap: heap_interface heap_inv heap_allocated heap_word size_t_request words_suffice
  heap_acquire heap_release
proof (unfold_locales, goal_cases)
  case (1 h q)
  let ?bs = "heap_blocks (heap_main h)"
  note ok = heap_inv_ok [OF 1(1)]
  have n: "fst q < 4294967296" using 1(2) by (simp add: size_t_request_def)
  obtain r h' where run: "ns_mem_internal_alloc h (fst q) (snd q) = Some (r, h')"
    and post: "case r of
       None \<Rightarrow> heap_ok h' ?bs \<and> heap_main h' = heap_main h \<and>
         ((snd q \<and> temporary_refused h) \<or> words_for (fst q) = 0 \<or>
          (\<forall>s \<in> set ?bs. s \<le> - HOLE_T_SIZE \<longrightarrow> - s < int (words_for (fst q))))
     | Some b \<Rightarrow> \<exists>xs s ys w bs'. ?bs = xs @ s # ys \<and> s \<le> - HOLE_T_SIZE \<and> heap_ok h' bs' \<and>
         fst q \<le> 4 * w \<and> w \<le> nat (- s) \<and>
         allocated_of 0 ?bs = allocated_of 0 xs @ allocated_of (total_words xs + block_words s) ys \<and>
         allocated_of 0 bs' =
           allocated_of 0 xs @ [(b, w)] @ allocated_of (total_words xs + block_words s) ys \<and>
         (\<forall>a v i. (a, v) \<in> set (allocated_of 0 ?bs) \<longrightarrow> a \<le> i \<longrightarrow> i < a + v \<longrightarrow>
            heap_main h' ! i = heap_main h ! i)"
    using internal_alloc_step [OF ok n, of "snd q"] by blast
  show ?case
  proof (cases r)
    case None
    with post have "heap_ok h' ?bs" "heap_main h' = heap_main h" by simp_all
    with run None heap_allocated_eq [OF ok] heap_allocated_eq [of h' ?bs] heap_ok_inv [of h' ?bs]
    show ?thesis by (simp add: heap_acquire_def keeps_words_def heap_word_def)
  next
    case (Some b)
    with post obtain xs s ys w bs' where p: "heap_ok h' bs'" "fst q \<le> 4 * w"
      "allocated_of 0 ?bs = allocated_of 0 xs @ allocated_of (total_words xs + block_words s) ys"
      "allocated_of 0 bs' = allocated_of 0 xs @ [(b, w)] @ allocated_of (total_words xs + block_words s) ys"
      "\<forall>a v i. (a, v) \<in> set (allocated_of 0 ?bs) \<longrightarrow> a \<le> i \<longrightarrow> i < a + v \<longrightarrow>
            heap_main h' ! i = heap_main h ! i" by auto
    have live: "heap_allocated h' = insert (b, w) (heap_allocated h)"
      unfolding heap_allocated_eq [OF ok] heap_allocated_eq [OF p(1)] p(3,4) by auto
    have fresh: "(b, w) \<notin> heap_allocated h"
      using allocated_fresh [OF p(1,4)] unfolding heap_allocated_eq [OF ok] p(3) .
    have "keeps_words heap_word (heap_allocated h) h h'"
      unfolding heap_allocated_eq [OF ok] keeps_words_def heap_word_def using p(5) by blast
    with run Some live fresh p(2) heap_ok_inv [OF p(1)] show ?thesis
      by (auto simp: heap_acquire_def words_suffice_def)
  qed
next
  case (2 h b w)
  let ?bs = "heap_blocks (heap_main h)"
  note ok = heap_inv_ok [OF 2(1)]
  have "(b, w) \<in> set (allocated_of 0 ?bs)" using 2(2) by (simp add: heap_allocated_def)
  from free_step [OF ok this] obtain h' bs' as cs where
    p: "ns_mem_free h (Some (int b)) = Some h'" "heap_ok h' bs'"
      "allocated_of 0 ?bs = as @ [(b, w)] @ cs" "allocated_of 0 bs' = as @ cs"
      "\<forall>a v i. (a, v) \<in> set (as @ cs) \<longrightarrow> a \<le> i \<longrightarrow> i < a + v \<longrightarrow>
       heap_main h' ! i = heap_main h ! i" by blast
  have live: "heap_allocated h' = heap_allocated h - {(b, w)}"
    using allocated_fresh [OF ok p(3)] unfolding heap_allocated_eq [OF ok] heap_allocated_eq [OF p(2)] p(3,4)
    by auto
  have "keeps_words heap_word (heap_allocated h') h h'"
    unfolding heap_allocated_eq [OF p(2)] p(4) keeps_words_def heap_word_def using p(5) by blast
  with p(1,2) live heap_ok_inv [OF p(2)] show ?case by (auto simp: heap_release_def)
next
  case (3 h a v b w)
  then show ?case by (intro allocated_of_disjoint) (simp_all add: heap_allocated_def)
qed

section \<open>What the heap promises its clients\<close>

text \<open>
  Property C3. Heap isolation: on a heap in its invariant, any sequence of \<open>ns_mem_alloc\<close>,
  \<open>ns_mem_temporary_alloc\<close> and \<open>ns_mem_free\<close> calls that frees only live blocks runs without a
  fault, keeps the invariant, and leaves every word of a block that it does not free unchanged.
\<close>

theorem ns_mem_blocks_survive:
  assumes "heap_inv h" and "disciplined heap_allocated size_t_request heap_acquire heap_release ops h"
    and "(a, v) \<in> heap_allocated h" and "Release a \<notin> set ops"
  shows "\<exists>h'. run_heap heap_acquire heap_release ops h = Some h' \<and> heap_inv h' \<and>
    (a, v) \<in> heap_allocated h' \<and> (\<forall>i. a \<le> i \<longrightarrow> i < a + v \<longrightarrow> heap_word h' i = heap_word h i)"
  by (rule ns_heap.client_block_survives [OF assms])

text \<open>
  Property C7. Allocation: a request of n bytes on a heap in its invariant either returns a block
  that is disjoint from all live blocks and has room for n bytes, or it is refused because the
  temporary limit is exceeded, because the size is 0 (or within 3 of the largest \<open>size_t\<close>), or
  because no hole with a descriptor is large enough. The heap stays in its invariant.
\<close>

theorem ns_mem_alloc_correct:
  assumes "heap_inv h" and "n < 4294967296"
  shows "\<exists>r h'. ns_mem_internal_alloc h n up = Some (r, h') \<and> heap_inv h' \<and>
    (case r of
       None \<Rightarrow> heap_allocated h' = heap_allocated h \<and>
         ((up \<and> temporary_refused h) \<or> words_for n = 0 \<or>
          (\<forall>s \<in> set (heap_blocks (heap_main h)). s \<le> - HOLE_T_SIZE \<longrightarrow> - s < int (words_for n)))
     | Some b \<Rightarrow> \<exists>w. n \<le> 4 * w \<and> heap_allocated h' = insert (b, w) (heap_allocated h) \<and>
         (\<forall>(a, v) \<in> heap_allocated h. a + v \<le> b \<or> b + w \<le> a))"
proof -
  obtain r h' where 1: "heap_acquire h (n, up) = Some (r, h')" "heap_inv h'"
    and 2: "case r of None \<Rightarrow> heap_allocated h' = heap_allocated h
      | Some b \<Rightarrow> \<exists>w. words_suffice (n, up) w \<and> (b, w) \<notin> heap_allocated h \<and>
          heap_allocated h' = insert (b, w) (heap_allocated h)"
    using ns_heap.acquire_law [OF assms(1), of "(n, up)"] assms(2) by (auto simp: size_t_request_def)
  have run: "ns_mem_internal_alloc h n up = Some (r, h')" using 1(1) by (simp add: heap_acquire_def)
  have refusal: "(up \<and> temporary_refused h) \<or> words_for n = 0 \<or>
      (\<forall>s \<in> set (heap_blocks (heap_main h)). s \<le> - HOLE_T_SIZE \<longrightarrow> - s < int (words_for n))"
    if "r = None"
    using internal_alloc_step [OF heap_inv_ok [OF assms(1)] assms(2), of up] run that by auto
  show ?thesis
  proof (cases r)
    case None
    with run 1(2) 2 refusal show ?thesis by auto
  next
    case (Some b)
    with 2 obtain w where w: "n \<le> 4 * w" "(b, w) \<notin> heap_allocated h"
      "heap_allocated h' = insert (b, w) (heap_allocated h)" by (auto simp: words_suffice_def)
    have "a + v \<le> b \<or> b + w \<le> a" if "(a, v) \<in> heap_allocated h" for a v
      by (rule ns_heap.disjoint_law [OF 1(2)]) (use w that in auto)
    with run 1(2) w Some show ?thesis by auto
  qed
qed

text \<open>A heap without live blocks is one hole, since its invariant has no adjacent holes.\<close>

lemma empty_heap_one_hole:
  assumes "heap_inv h" and "heap_allocated h = {}"
  shows "heap_blocks (heap_main h) = [- (int (length (heap_main h)) - 2)]"
proof -
  let ?bs = "heap_blocks (heap_main h)"
  note ok = heap_inv_ok [OF assms(1)]
  have neg: "\<forall>s \<in> set bs. s < 0" if "allocated_of p bs = []" "0 \<notin> set bs" for p bs
    using that by (induction p bs rule: allocated_of.induct) (auto split: if_split_asm)
  have "\<forall>s \<in> set ?bs. s < 0"
    by (rule neg [of 0]) (use assms(2) ok rep_nonzero in \<open>auto simp: heap_allocated_def heap_ok_def\<close>)
  moreover have "?bs \<noteq> []" "no_adjacent_holes ?bs" using ok by (simp_all add: heap_ok_def)
  moreover have "\<exists>s. bs = [s] \<and> s < 0" if "\<forall>s \<in> set bs. s < 0" "bs \<noteq> []" "no_adjacent_holes bs" for bs
  proof (cases bs)
    case (Cons s cs)
    with that show ?thesis by (cases cs) (auto simp: no_adjacent_Cons)
  qed (use that in simp)
  ultimately obtain s where s: "?bs = [s]" "s < 0" by blast
  have "length (heap_main h) = total_words ?bs" using ok by (intro rep_length) (simp add: heap_ok_def)
  with s show ?thesis by (simp add: block_words_def)
qed

lemma heap_release_step:
  assumes "heap_inv h" and "(b, w) \<in> heap_allocated h"
  obtains h' where "heap_release h b = Some h'" "heap_inv h'" "heap_allocated h' = heap_allocated h - {(b, w)}"
    "failures h' = failures h" "length (heap_main h') = length (heap_main h)"
proof -
  note ok = heap_inv_ok [OF assms(1)]
  have "(b, w) \<in> set (allocated_of 0 (heap_blocks (heap_main h)))" using assms(2) by (simp add: heap_allocated_def)
  from free_step [OF ok this] obtain h' where "heap_release h b = Some h'"
    "failures h' = failures h" "length (heap_main h') = length (heap_main h)"
    unfolding heap_release_def by blast
  with ns_heap.release_law [OF assms] show ?thesis by (auto intro!: that)
qed

lemma heap_allocated_key:
  assumes "heap_inv h" "(b, v) \<in> heap_allocated h" "(b, w) \<in> heap_allocated h"
  shows "v = w"
proof (rule ccontr)
  assume "v \<noteq> w"
  then have "b + v \<le> b \<or> b + w \<le> b" using ns_heap.disjoint_law [OF assms(1-3)] by simp
  moreover have "0 < u" if "(b, u) \<in> set (allocated_of p bs)" for u p bs
    using that by (induction p bs rule: allocated_of.induct) (auto split: if_split_asm)
  ultimately show False using assms(2,3) by (auto simp: heap_allocated_def)
qed

lemma release_all:
  "heap_inv h \<Longrightarrow> distinct ps \<Longrightarrow> set ps = fst ` heap_allocated h \<Longrightarrow>
   \<exists>h'. run_heap heap_acquire heap_release (map Release ps) h = Some h' \<and> heap_inv h' \<and> heap_allocated h' = {} \<and>
     failures h' = failures h \<and> length (heap_main h') = length (heap_main h)"
proof (induction ps arbitrary: h)
  case Nil
  then show ?case by simp
next
  case (Cons b ps)
  have "b \<in> fst ` heap_allocated h" unfolding Cons.prems(3) [symmetric] by simp
  then obtain w where b: "(b, w) \<in> heap_allocated h" by auto
  obtain h1 where h1: "heap_release h b = Some h1" "heap_inv h1" "heap_allocated h1 = heap_allocated h - {(b, w)}"
    "failures h1 = failures h" "length (heap_main h1) = length (heap_main h)"
    using heap_release_step [OF Cons.prems(1) b] .
  have "fst ` heap_allocated h1 = fst ` heap_allocated h - {b}"
    using heap_allocated_key [OF Cons.prems(1) b] unfolding h1(3) by force
  with Cons.prems(2,3) have "set ps = fst ` heap_allocated h1" by auto
  from Cons.IH [OF h1(2) _ this] Cons.prems(2) h1 show ?case by auto
qed

lemma one_hole_alloc:
  assumes "heap_inv h" "heap_blocks (heap_main h) = [- (int (length (heap_main h)) - 2)]"
    and "4 \<le> length (heap_main h)" "0 < n" "n \<le> 4 * (length (heap_main h) - 2)"
  shows "\<exists>b h'. ns_mem_internal_alloc h n False = Some (Some b, h')"
proof -
  let ?N = "length (heap_main h)"
  note ok = heap_inv_ok [OF assms(1)]
  have "?N = total_words (heap_blocks (heap_main h))" using ok by (intro rep_length) (simp add: heap_ok_def)
  then have N: "?N * 4 < 4294967296" using ok by (simp only: heap_ok_def)
  then have n: "n < 4294967296" "words_for n = (n + 3) div 4"
    using assms(5) by (auto simp: words_for_def u32_wrap_def)
  have "words_for n \<noteq> 0" "words_for n \<le> ?N - 2" using assms(4,5) unfolding n(2) by linarith+
  then show ?thesis
    using internal_alloc_step [OF ok n(1), of False] assms(2,3) by (auto split: option.splits)
qed

text \<open>
  Property C37. No fragmentation is left behind: on a heap in its invariant, whatever calls have made it, \<open>ns_mem_free\<close> releases all the live blocks
  in any order without a report. After the last one the heap is a single hole over the whole area, and
  every request that this area can hold succeeds, where it has at least the four words of the smallest hole.
\<close>

theorem ns_mem_freed_heap_is_one_hole:
  assumes "heap_inv h" and "distinct ps" and "set ps = fst ` heap_allocated h"
  shows "\<exists>h'. run_heap heap_acquire heap_release (map Release ps) h = Some h' \<and> failures h' = failures h \<and>
    length (heap_main h') = length (heap_main h) \<and>
    heap_blocks (heap_main h') = [- (int (length (heap_main h)) - 2)] \<and>
    (\<forall>n. 4 \<le> length (heap_main h) \<longrightarrow> 0 < n \<longrightarrow> n \<le> 4 * (length (heap_main h) - 2) \<longrightarrow>
      (\<exists>b h''. ns_mem_internal_alloc h' n False = Some (Some b, h'')))"
proof -
  obtain h' where h': "run_heap heap_acquire heap_release (map Release ps) h = Some h'" "heap_inv h'"
    "heap_allocated h' = {}" "failures h' = failures h" "length (heap_main h') = length (heap_main h)"
    using release_all [OF assms] by blast
  note hole = empty_heap_one_hole [OF h'(2,3)]
  have "\<exists>b h''. ns_mem_internal_alloc h' n False = Some (Some b, h'')"
    if "4 \<le> length (heap_main h)" "0 < n" "n \<le> 4 * (length (heap_main h) - 2)" for n
    using one_hole_alloc [OF h'(2) hole] that by (simp only: h'(5))
  with h' hole show ?thesis by simp
qed

text \<open>
  \<open>ns_mem_free\<close> of a pointer to the data of a free block is reported as a double
  free, and of a pointer outside the heap as an invalid pointer; the heap is not changed.
\<close>

theorem ns_mem_free_rejects:
  assumes "heap_inv h"
    and "p < 1 \<or> p \<ge> int (length (heap_main h)) \<or>
      (\<exists>xs s ys. heap_blocks (heap_main h) = xs @ s # ys \<and> s < 0 \<and> p = int (total_words xs) + 1)"
  shows "ns_mem_free h (Some p) = Some (heap_failure NS_DYN_MEM_POINTER_NOT_VALID h) \<or>
    ns_mem_free h (Some p) = Some (heap_failure NS_DYN_MEM_DOUBLE_FREE h)"
  using assms(2)
proof (elim disjE)
  assume "\<exists>xs s ys. heap_blocks (heap_main h) = xs @ s # ys \<and> s < 0 \<and> p = int (total_words xs) + 1"
  then obtain xs s ys where b: "heap_blocks (heap_main h) = xs @ s # ys" "s < 0"
    "p = int (total_words xs + 1)" by auto
  from heap_inv_ok [OF assms(1)] have "heap_ok h (xs @ s # ys)" unfolding b(1) .
  from free_hole_reported [OF this b(2)] show ?thesis unfolding b(3) by simp
qed (simp_all add: ns_mem_free_def Let_def)

section \<open>A concrete heap\<close>

definition sample_heap :: ns_mem_book where
  "sample_heap = \<lparr>heap_main = [-2, 0, 0, -2, 2, 11, 22, 2], holes_list = [0], heap_size = 32,
     temporary_alloc_heap_limit = 32,
     mem_stat_info = Some \<lparr>heap_sector_size = 32, heap_sector_alloc_cnt = 1,
       heap_sector_allocated_bytes = 16, heap_sector_allocated_bytes_max = 16,
       heap_alloc_total_bytes = 16, heap_alloc_fail_cnt = 0\<rparr>, failures = []\<rparr>"

lemma sample_heap_blocks: "heap_blocks (heap_main sample_heap) = [-2, 2]"
  by (simp add: sample_heap_def numeral_2_eq_2 numeral_3_eq_3)

lemma sample_heap_inv: "heap_inv sample_heap"
proof -
  have "rep [2, 11, 22, 2] [2]" by (rule rep_ConsI [of _ "[11, 22]" "[]"]) simp_all
  then have "rep [-2, 0, 0, -2, 2, 11, 22, 2] [-2, 2]"
    by (intro rep_ConsI [of "-2" "[0, 0]" "[2, 11, 22, 2]"]) (simp_all del: rep.simps)
  then show ?thesis
    unfolding heap_inv_def sample_heap_blocks
    by (simp add: heap_ok_def sample_heap_def stats_ok_def no_adjacent_Cons block_words_def del: rep.simps)
qed

lemma ns_mem_blocks_survive_witness:
  "\<exists>h'. run_heap heap_acquire heap_release [Acquire (4, False)] sample_heap = Some h' \<and> heap_inv h' \<and>
    (5, 2) \<in> heap_allocated h' \<and>
    (\<forall>i. 5 \<le> i \<longrightarrow> i < 5 + 2 \<longrightarrow> heap_word h' i = heap_word sample_heap i)"
  by (rule ns_mem_blocks_survive [OF sample_heap_inv])
    (auto simp: size_t_request_def heap_allocated_def sample_heap_blocks block_words_def split: option.split)

lemma ns_mem_alloc_correct_witness:
  "\<exists>r h'. ns_mem_internal_alloc sample_heap 9 False = Some (r, h') \<and> heap_inv h'"
  using ns_mem_alloc_correct [OF sample_heap_inv, of 9 False] by auto

lemma ns_mem_freed_heap_is_one_hole_witness:
  "\<exists>h'. run_heap heap_acquire heap_release [Release 5] sample_heap = Some h' \<and> heap_blocks (heap_main h') = [- 6] \<and>
    (\<exists>b h''. ns_mem_internal_alloc h' 24 False = Some (Some b, h''))"
proof -
  have "set [5] = fst ` heap_allocated sample_heap"
    by (simp add: heap_allocated_def sample_heap_blocks block_words_def)
  moreover have "length (heap_main sample_heap) = 8" by (simp add: sample_heap_def)
  ultimately show ?thesis
    using ns_mem_freed_heap_is_one_hole [OF sample_heap_inv, of "[5]"] by auto
qed

lemma ns_mem_free_rejects_witness:
  "ns_mem_free sample_heap (Some 1) = Some (heap_failure NS_DYN_MEM_POINTER_NOT_VALID sample_heap) \<or>
   ns_mem_free sample_heap (Some 1) = Some (heap_failure NS_DYN_MEM_DOUBLE_FREE sample_heap)"
  by (rule ns_mem_free_rejects [OF sample_heap_inv])
    (auto simp: sample_heap_blocks intro!: exI [of _ "[]"])

end
