(* ===== verification/Ns_Timer.thy ===== *)
theory Ns_Timer
  imports Pelion_Prelude
begin

text \<open>
  The callback timers of \<open>source/ns_timer.c\<close> of the event loop: many 16-bit timers that are
  multiplexed on one hardware timer. \<open>ns_timer_list\<close> holds the registered timers in the order of
  their registration, and a pointer to a timer is its position. The hardware timer is reached
  through \<open>platform_timer_start\<close> and \<open>platform_timer_get_remaining_slots\<close>; \<open>hal_slots\<close> is the number
  of slots it still has to run, which the passage of time decreases. A callback is a number, and
  what the callbacks do is an argument: the list of timer calls each of them makes. Critical
  sections make each operation atomic.

  The default build is modelled, where \<open>COMPENSATION\<close> is 0.
\<close>

section \<open>State\<close>

datatype ns_timer_state_e = NS_TIMER_ACTIVE | NS_TIMER_HOLD | NS_TIMER_RUN_INTERRUPT | NS_TIMER_STOP

record ns_timer_struct =
  ns_timer_id :: int
  timer_state :: ns_timer_state_e
  timer_slots :: nat
  remaining_slots :: nat
  interrupt_handler :: nat

record ns_timer_module =
  ns_timer_list :: "ns_timer_struct list"
  ns_timer_running :: bool
  hal_slots :: nat

abbreviation (input) COMPENSATION :: nat where "COMPENSATION \<equiv> 0"

definition compensate :: "nat \<Rightarrow> nat" where
  "compensate r = (if r > COMPENSATION then r - COMPENSATION else r)"

section \<open>Operations\<close>

text \<open>The position of the first timer with the given id; None is NULL.\<close>

fun ns_timer_get_pointer_to_timer_struct :: "int \<Rightarrow> ns_timer_struct list \<Rightarrow> nat option" where
  "ns_timer_get_pointer_to_timer_struct i [] = None"
| "ns_timer_get_pointer_to_timer_struct i (t # ts) =
     (if ns_timer_id t = i then Some 0
      else map_option Suc (ns_timer_get_pointer_to_timer_struct i ts))"

text \<open>The first id from 0 to \<open>INT8_MAX\<close> that no timer has; None is the result -1.\<close>

definition free_timer_id :: "ns_timer_struct list \<Rightarrow> int option" where
  "free_timer_id ts =
     find (\<lambda>i. ns_timer_get_pointer_to_timer_struct i ts = None) (map int [0..<128])"

text \<open>
  \<open>granted\<close> is the outcome of the allocation. The code leaves \<open>slots\<close> of a new timer unset until
  its first start, before which it is not read; it is 0 here.
\<close>

definition eventOS_callback_timer_register ::
  "bool \<Rightarrow> nat \<Rightarrow> ns_timer_module \<Rightarrow> int \<times> ns_timer_module" where
  "eventOS_callback_timer_register granted handler m =
     (case free_timer_id (ns_timer_list m) of
        None \<Rightarrow> (-1, m)
      | Some i \<Rightarrow>
          if \<not> granted then (-1, m)
          else (i, m\<lparr>ns_timer_list := ns_timer_list m @
                  [\<lparr>ns_timer_id = i, timer_state = NS_TIMER_STOP, timer_slots = 0,
                    remaining_slots = 0, interrupt_handler = handler\<rparr>]\<rparr>))"

definition eventOS_callback_timer_unregister :: "int \<Rightarrow> ns_timer_module \<Rightarrow> int \<times> ns_timer_module" where
  "eventOS_callback_timer_unregister i m =
     (case ns_timer_get_pointer_to_timer_struct i (ns_timer_list m) of
        None \<Rightarrow> (-1, m)
      | Some k \<Rightarrow> (0, m\<lparr>ns_timer_list := take k (ns_timer_list m) @ drop (Suc k) (ns_timer_list m)\<rparr>))"

definition ns_timer_start_pl_timer :: "nat \<Rightarrow> ns_timer_module \<Rightarrow> ns_timer_module" where
  "ns_timer_start_pl_timer n m =
     m\<lparr>hal_slots := (if n = 0 then 1 else n), ns_timer_running := True\<rparr>"

definition ns_timer_sleep :: "ns_timer_module \<Rightarrow> int \<times> ns_timer_module" where
  "ns_timer_sleep m =
     (if ns_timer_running m then (0, m\<lparr>ns_timer_running := False\<rparr>) else (-1, m))"

text \<open>The timer on hold with the least remaining slots, the first one of several.\<close>

fun least_hold :: "ns_timer_struct list \<Rightarrow> nat \<Rightarrow> (nat \<times> nat) option \<Rightarrow> (nat \<times> nat) option" where
  "least_hold [] k best = best"
| "least_hold (t # ts) k best =
     least_hold ts (Suc k)
       (if timer_state t = NS_TIMER_HOLD \<and>
           (case best of None \<Rightarrow> True | Some (j, r) \<Rightarrow> remaining_slots t < r)
        then Some (k, remaining_slots t) else best)"

definition is_hold :: "ns_timer_struct \<Rightarrow> bool" where
  "is_hold t \<longleftrightarrow> timer_state t = NS_TIMER_HOLD"

text \<open>One timer of the second loop, and the loop with its early termination.\<close>

definition release_hold :: "nat \<Rightarrow> ns_timer_struct \<Rightarrow> ns_timer_struct" where
  "release_hold r t =
     (if \<not> is_hold t then t
      else if remaining_slots t = r then t\<lparr>timer_state := NS_TIMER_ACTIVE\<rparr>
      else t\<lparr>remaining_slots := compensate (u16_wrap (remaining_slots t + 65536 - r))\<rparr>)"

fun update_holds :: "nat \<Rightarrow> nat \<Rightarrow> ns_timer_struct list \<Rightarrow> ns_timer_struct list" where
  "update_holds r hold_count [] = []"
| "update_holds r hold_count (t # ts) =
     (if hold_count = 0 then t # ts
      else if is_hold t then release_hold r t # update_holds r (hold_count - 1) ts
      else t # update_holds r hold_count ts)"

definition ns_timer_get_next_running_to :: "ns_timer_module \<Rightarrow> ns_timer_module" where
  "ns_timer_get_next_running_to m =
     (case least_hold (ns_timer_list m) 0 None of
        None \<Rightarrow> m
      | Some (k, r) \<Rightarrow>
          let hold_count = u8_wrap (length (filter is_hold (ns_timer_list m)) + 255);
              r' = compensate r;
              ts = (ns_timer_list m)
                     [k := (ns_timer_list m ! k)\<lparr>timer_state := NS_TIMER_ACTIVE, remaining_slots := r'\<rparr>] in
          (ns_timer_start_pl_timer r' m)\<lparr>ns_timer_list := update_holds r' hold_count ts\<rparr>)"

text \<open>The change of the other timers when a shorter timeout takes over the hardware timer.\<close>

definition push_back :: "nat \<Rightarrow> ns_timer_struct \<Rightarrow> ns_timer_struct" where
  "push_back d t =
     (let t1 = (if timer_state t = NS_TIMER_ACTIVE
                then t\<lparr>timer_state := NS_TIMER_HOLD, remaining_slots := 0\<rparr> else t) in
      if timer_state t1 = NS_TIMER_HOLD
      then t1\<lparr>remaining_slots := compensate (u16_wrap (remaining_slots t1 + d))\<rparr> else t1)"

definition eventOS_callback_timer_start :: "int \<Rightarrow> nat \<Rightarrow> ns_timer_module \<Rightarrow> int \<times> ns_timer_module" where
  "eventOS_callback_timer_start i n m =
     (case ns_timer_get_pointer_to_timer_struct i (ns_timer_list m) of
        None \<Rightarrow> (-1, m)
      | Some k \<Rightarrow>
        let set = (\<lambda>st r ts. ts[k := (ts ! k)\<lparr>timer_state := st, timer_slots := n, remaining_slots := r\<rparr>]) in
        (0, if ns_timer_running m then
              (let pl = hal_slots m in
               if pl > n then
                 (ns_timer_start_pl_timer n m)
                   \<lparr>ns_timer_list := set NS_TIMER_ACTIVE n (map (push_back (pl - n)) (ns_timer_list m))\<rparr>
               else if pl < n then m\<lparr>ns_timer_list := set NS_TIMER_HOLD (n - pl) (ns_timer_list m)\<rparr>
               else m\<lparr>ns_timer_list := set NS_TIMER_ACTIVE n (ns_timer_list m)\<rparr>)
            else ns_timer_get_next_running_to
                   (m\<lparr>ns_timer_list := set NS_TIMER_HOLD n (ns_timer_list m)\<rparr>)))"

definition add_remaining :: "nat \<Rightarrow> ns_timer_struct \<Rightarrow> ns_timer_struct" where
  "add_remaining d t =
     (if is_hold t then t\<lparr>remaining_slots := u16_wrap (remaining_slots t + d)\<rparr> else t)"

definition promote_hold :: "nat \<Rightarrow> ns_timer_struct \<Rightarrow> ns_timer_struct" where
  "promote_hold r t =
     (if \<not> is_hold t then t
      else if remaining_slots t = r then t\<lparr>timer_state := NS_TIMER_ACTIVE\<rparr>
      else t\<lparr>remaining_slots := u16_wrap (remaining_slots t + 65536 - r)\<rparr>)"

definition eventOS_callback_timer_stop :: "int \<Rightarrow> ns_timer_module \<Rightarrow> int \<times> ns_timer_module" where
  "eventOS_callback_timer_stop i m =
     (case ns_timer_get_pointer_to_timer_struct i (ns_timer_list m) of
        None \<Rightarrow> (-1, m)
      | Some k \<Rightarrow>
        if timer_state (ns_timer_list m ! k) = NS_TIMER_STOP then (0, m)
        else
          (let ts = (ns_timer_list m)
                      [k := (ns_timer_list m ! k)\<lparr>timer_state := NS_TIMER_STOP, remaining_slots := 0\<rparr>] in
           if (\<exists>t \<in> List.set ts. timer_state t = NS_TIMER_ACTIVE) then (0, m\<lparr>ns_timer_list := ts\<rparr>)
           else
             (let ts1 = map (add_remaining (hal_slots m)) ts in
              case least_hold ts1 0 None of
                None \<Rightarrow> (0, m\<lparr>ns_timer_list := ts1\<rparr>)
              | Some (j, r) \<Rightarrow>
                  (0, (ns_timer_start_pl_timer r m)\<lparr>ns_timer_list :=
                        map (promote_hold r) (ts1[j := (ts1 ! j)\<lparr>timer_state := NS_TIMER_ACTIVE\<rparr>])\<rparr>))))"

section \<open>The interrupt\<close>

text \<open>What a callback does with the timers.\<close>

datatype timer_call = Start_Call int nat | Stop_Call int

fun exec_call :: "timer_call \<Rightarrow> ns_timer_module \<Rightarrow> ns_timer_module" where
  "exec_call (Start_Call i n) m = snd (eventOS_callback_timer_start i n m)"
| "exec_call (Stop_Call i) m = snd (eventOS_callback_timer_stop i m)"

definition exec_calls :: "timer_call list \<Rightarrow> ns_timer_module \<Rightarrow> ns_timer_module" where
  "exec_calls cs m = fold exec_call cs m"

type_synonym callbacks = "nat \<Rightarrow> int \<Rightarrow> nat \<Rightarrow> timer_call list"

definition mark_interrupt :: "ns_timer_struct \<Rightarrow> ns_timer_struct" where
  "mark_interrupt t =
     (if timer_state t = NS_TIMER_ACTIVE then t\<lparr>timer_state := NS_TIMER_RUN_INTERRUPT\<rparr> else t)"

text \<open>
  The last loop: \<open>n\<close> positions from position \<open>k\<close> on, \<open>i\<close> callbacks still expected. The result has
  the calls made, as pairs of a timer id and its slots.
\<close>

fun call_handlers ::
  "callbacks \<Rightarrow> nat \<Rightarrow> nat \<Rightarrow> nat \<Rightarrow> ns_timer_module \<Rightarrow> (int \<times> nat) list \<times> ns_timer_module" where
  "call_handlers cb k 0 i m = ([], m)"
| "call_handlers cb k (Suc n) i m =
     (if i = 0 then ([], m)
      else let t = ns_timer_list m ! k in
        if timer_state t = NS_TIMER_RUN_INTERRUPT then
          (let m1 = m\<lparr>ns_timer_list := (ns_timer_list m)[k := t\<lparr>timer_state := NS_TIMER_STOP\<rparr>]\<rparr>;
               m2 = exec_calls (cb (interrupt_handler t) (ns_timer_id t) (timer_slots t)) m1 in
           case call_handlers cb (Suc k) n (i - 1) m2 of
             (log, m3) \<Rightarrow> ((ns_timer_id t, timer_slots t) # log, m3))
        else call_handlers cb (Suc k) n i m)"

definition ns_timer_interrupt_handler ::
  "callbacks \<Rightarrow> ns_timer_module \<Rightarrow> (int \<times> nat) list \<times> ns_timer_module" where
  "ns_timer_interrupt_handler cb m =
     (let i = u8_wrap (length (filter (\<lambda>t. timer_state t = NS_TIMER_ACTIVE) (ns_timer_list m)));
          m1 = ns_timer_get_next_running_to
                 (m\<lparr>ns_timer_running := False,
                    ns_timer_list := map mark_interrupt (ns_timer_list m)\<rparr>) in
      call_handlers cb 0 (length (ns_timer_list m1)) i m1)"

end
