(* ===== verification/Ns_Timer_Spec.thy ===== *)
theory Ns_Timer_Spec
  imports Ns_Timer
begin

text \<open>
  What the callback timers promise: every timer is a countdown of its own. A specification state
  is the table of the registered timers, each with the slots left until it fires (None when it is
  stopped). The detailed timers, which share one hardware timer, refine this table: every
  operation on them is the operation of the same name on the countdowns.
\<close>

section \<open>Independent countdowns\<close>

record countdown =
  cd_id :: int
  cd_handler :: nat
  cd_slots :: nat
  cd_left :: "nat option"

fun position :: "'a \<Rightarrow> 'a list \<Rightarrow> nat option" where
  "position x [] = None"
| "position x (y # ys) = (if y = x then Some 0 else map_option Suc (position x ys))"

definition spec_register :: "bool \<Rightarrow> nat \<Rightarrow> countdown list \<Rightarrow> int \<times> countdown list" where
  "spec_register granted h tab =
     (case find (\<lambda>i. i \<notin> cd_id ` set tab) (map int [0..<128]) of
        None \<Rightarrow> (-1, tab)
      | Some i \<Rightarrow>
          if granted then (i, tab @ [\<lparr>cd_id = i, cd_handler = h, cd_slots = 0, cd_left = None\<rparr>])
          else (-1, tab))"

definition spec_unregister :: "int \<Rightarrow> countdown list \<Rightarrow> int \<times> countdown list" where
  "spec_unregister i tab =
     (case position i (map cd_id tab) of
        None \<Rightarrow> (-1, tab)
      | Some k \<Rightarrow> (0, take k tab @ drop (Suc k) tab))"

definition spec_start :: "int \<Rightarrow> nat \<Rightarrow> countdown list \<Rightarrow> int \<times> countdown list" where
  "spec_start i n tab =
     (case position i (map cd_id tab) of
        None \<Rightarrow> (-1, tab)
      | Some k \<Rightarrow> (0, tab[k := (tab ! k)\<lparr>cd_slots := n, cd_left := Some n\<rparr>]))"

definition spec_stop :: "int \<Rightarrow> countdown list \<Rightarrow> int \<times> countdown list" where
  "spec_stop i tab =
     (case position i (map cd_id tab) of
        None \<Rightarrow> (-1, tab)
      | Some k \<Rightarrow> (0, tab[k := (tab ! k)\<lparr>cd_left := None\<rparr>]))"

definition spec_elapse :: "nat \<Rightarrow> countdown list \<Rightarrow> countdown list" where
  "spec_elapse d = map (\<lambda>c. c\<lparr>cd_left := map_option (\<lambda>n. n - d) (cd_left c)\<rparr>)"

fun spec_call :: "timer_call \<Rightarrow> countdown list \<Rightarrow> countdown list" where
  "spec_call (Start_Call i n) tab = snd (spec_start i n tab)"
| "spec_call (Stop_Call i) tab = snd (spec_stop i tab)"

text \<open>The timers that have run down fire in the order of their registration.\<close>

fun spec_fire ::
  "callbacks \<Rightarrow> nat \<Rightarrow> nat \<Rightarrow> countdown list \<Rightarrow> (int \<times> nat) list \<times> countdown list" where
  "spec_fire cb k 0 tab = ([], tab)"
| "spec_fire cb k (Suc n) tab =
     (let c = tab ! k in
      if cd_left c = Some 0 then
        (let tab1 = tab[k := c\<lparr>cd_left := None\<rparr>];
             tab2 = fold spec_call (cb (cd_handler c) (cd_id c) (cd_slots c)) tab1 in
         case spec_fire cb (Suc k) n tab2 of
           (log, tab3) \<Rightarrow> ((cd_id c, cd_slots c) # log, tab3))
      else spec_fire cb (Suc k) n tab)"

definition spec_interrupt :: "callbacks \<Rightarrow> countdown list \<Rightarrow> (int \<times> nat) list \<times> countdown list" where
  "spec_interrupt cb tab = spec_fire cb 0 (length tab) tab"

section \<open>Abstraction and invariant\<close>

definition countdown_of :: "nat \<Rightarrow> ns_timer_struct \<Rightarrow> countdown" where
  "countdown_of hal t =
     \<lparr>cd_id = ns_timer_id t, cd_handler = interrupt_handler t, cd_slots = timer_slots t,
      cd_left = (case timer_state t of
                   NS_TIMER_ACTIVE \<Rightarrow> Some hal
                 | NS_TIMER_HOLD \<Rightarrow> Some (hal + remaining_slots t)
                 | NS_TIMER_RUN_INTERRUPT \<Rightarrow> Some 0
                 | NS_TIMER_STOP \<Rightarrow> None)\<rparr>"

definition countdowns :: "ns_timer_module \<Rightarrow> countdown list" where
  "countdowns m = map (countdown_of (hal_slots m)) (ns_timer_list m)"

text \<open>A timer that is scheduled has the hardware timer running, and its time fits in 16 bits.\<close>

definition timer_fits :: "bool \<Rightarrow> nat \<Rightarrow> ns_timer_struct \<Rightarrow> bool" where
  "timer_fits running hal t \<longleftrightarrow>
     (timer_state t = NS_TIMER_ACTIVE \<longrightarrow> running) \<and>
     (timer_state t = NS_TIMER_HOLD \<longrightarrow>
        running \<and> 0 < remaining_slots t \<and> hal + remaining_slots t \<le> 65535)"

definition ids_ok :: "ns_timer_struct list \<Rightarrow> bool" where
  "ids_ok ts \<longleftrightarrow> distinct (map ns_timer_id ts) \<and> ns_timer_id ` set ts \<subseteq> {0..127}"

definition timers_ok :: "ns_timer_module \<Rightarrow> bool" where
  "timers_ok m \<longleftrightarrow>
     ids_ok (ns_timer_list m) \<and> hal_slots m \<le> 65535 \<and>
     (\<forall>t \<in> set (ns_timer_list m). timer_fits (ns_timer_running m) (hal_slots m) t)"

text \<open>Between interrupts no timer is marked for a callback.\<close>

definition no_interrupt :: "ns_timer_module \<Rightarrow> bool" where
  "no_interrupt m \<longleftrightarrow> (\<forall>t \<in> set (ns_timer_list m). timer_state t \<noteq> NS_TIMER_RUN_INTERRUPT)"

text \<open>While the callbacks run the hardware timer is stopped or has slots left.\<close>

definition settled :: "ns_timer_module \<Rightarrow> bool" where
  "settled m \<longleftrightarrow> (ns_timer_running m \<longrightarrow> 0 < hal_slots m)"

section \<open>Lists of timers\<close>

lemma compensate_id [simp]: "compensate r = r"
  by (simp add: compensate_def)

lemma pointer_is_position:
  "ns_timer_get_pointer_to_timer_struct i ts = position i (map ns_timer_id ts)"
  by (induction ts) auto

lemma position_SomeD: "position x ys = Some k \<Longrightarrow> k < length ys \<and> ys ! k = x"
  by (induction ys arbitrary: k) (auto split: if_splits)

lemma position_None: "position x ys = None \<longleftrightarrow> x \<notin> set ys"
  by (induction ys) auto

lemma countdown_of_id [simp]: "cd_id (countdown_of h t) = ns_timer_id t"
  and countdown_of_handler [simp]: "cd_handler (countdown_of h t) = interrupt_handler t"
  and countdown_of_slots [simp]: "cd_slots (countdown_of h t) = timer_slots t"
  by (simp_all add: countdown_of_def)

lemma map_cd_id [simp]: "map (cd_id \<circ> countdown_of h) ts = map ns_timer_id ts"
  by simp

lemma countdowns_position:
  "position i (map cd_id (countdowns m)) = ns_timer_get_pointer_to_timer_struct i (ns_timer_list m)"
  by (simp add: countdowns_def pointer_is_position)

lemma ids_ok_update [simp]:
  assumes "ns_timer_id t = ns_timer_id (ts ! k)"
  shows "ids_ok (ts[k := t]) \<longleftrightarrow> ids_ok ts"
proof -
  have "map ns_timer_id (ts[k := t]) = map ns_timer_id ts"
    using assms by (cases "k < length ts") (simp_all add: map_update list_update_same_conv list_update_beyond)
  then show ?thesis
    unfolding ids_ok_def by (metis list.set_map)
qed

lemma ids_ok_map [simp]:
  "(\<And>t. ns_timer_id (f t) = ns_timer_id t) \<Longrightarrow> ids_ok (map f ts) \<longleftrightarrow> ids_ok ts"
  by (simp add: ids_ok_def image_image comp_def)

lemma ids_ok_length:
  assumes "ids_ok ts"
  shows "length ts \<le> 128"
proof -
  have "length ts = card (set (map ns_timer_id ts))"
    using assms by (metis distinct_card ids_ok_def length_map)
  also have "\<dots> \<le> card {0..127::int}"
    by (rule card_mono) (use assms in \<open>auto simp: ids_ok_def\<close>)
  finally show ?thesis by simp
qed

section \<open>The timer on hold with the least remaining slots\<close>

lemma least_hold_gen:
  "case least_hold ts k best of
     None \<Rightarrow> best = None \<and> (\<forall>t \<in> set ts. \<not> is_hold t)
   | Some (j, r) \<Rightarrow>
       (best = Some (j, r) \<or> (k \<le> j \<and> j < k + length ts \<and> is_hold (ts ! (j - k)) \<and>
                              remaining_slots (ts ! (j - k)) = r)) \<and>
       (\<forall>t \<in> set ts. is_hold t \<longrightarrow> r \<le> remaining_slots t) \<and>
       (\<forall>j' r'. best = Some (j', r') \<longrightarrow> r \<le> r')"
proof (induction ts arbitrary: k best)
  case Nil
  then show ?case by (auto split: option.splits)
next
  case (Cons t ts)
  let ?best = "if timer_state t = NS_TIMER_HOLD \<and>
                  (case best of None \<Rightarrow> True | Some (j, r) \<Rightarrow> remaining_slots t < r)
               then Some (k, remaining_slots t) else best"
  note IH = Cons [of ?best "Suc k"]
  show ?case
  proof (cases "least_hold ts (Suc k) ?best")
    case None
    then show ?thesis
      using IH by (auto simp: is_hold_def split: if_splits option.splits)
  next
    case (Some jr)
    obtain j r where jr: "jr = (j, r)" by (cases jr)
    have "?best = Some (j, r) \<or> (Suc k \<le> j \<and> j < Suc k + length ts \<and>
            is_hold (ts ! (j - Suc k)) \<and> remaining_slots (ts ! (j - Suc k)) = r)"
      and le: "\<forall>t \<in> set ts. is_hold t \<longrightarrow> r \<le> remaining_slots t"
      and best: "\<forall>j' r'. ?best = Some (j', r') \<longrightarrow> r \<le> r'"
      using IH by (simp_all add: Some jr)
    moreover have "is_hold t \<longrightarrow> r \<le> remaining_slots t"
      and "\<forall>j' r'. best = Some (j', r') \<longrightarrow> r \<le> r'"
      using best by (auto simp: is_hold_def split: if_splits option.splits)
    ultimately show ?thesis
      by (auto simp: Some jr is_hold_def nth_Cons' split: if_splits)
  qed
qed

lemma least_hold_None: "least_hold ts 0 None = None \<Longrightarrow> t \<in> set ts \<Longrightarrow> \<not> is_hold t"
  using least_hold_gen [where ts = ts and k = 0 and best = None] by simp

lemma least_hold_Some:
  assumes "least_hold ts 0 None = Some (j, r)"
  shows "j < length ts" "is_hold (ts ! j)" "remaining_slots (ts ! j) = r"
    "\<And>t. t \<in> set ts \<Longrightarrow> is_hold t \<Longrightarrow> r \<le> remaining_slots t"
  using least_hold_gen [where ts = ts and k = 0 and best = None] assms by auto

lemma release_hold_other [simp]: "\<not> is_hold t \<Longrightarrow> release_hold r t = t"
  by (simp add: release_hold_def)

lemma update_holds_map:
  "length (filter is_hold ts) \<le> c \<Longrightarrow> update_holds r c ts = map (release_hold r) ts"
proof (induction ts arbitrary: c)
  case (Cons t ts)
  have none: "map (release_hold r) us = us" if "filter is_hold us = []" for us
    using that by (induction us) (auto split: if_splits)
  show ?case
    using Cons by (cases c) (auto simp: none split: if_splits)
qed simp

lemma filter_update_drop:
  assumes "j < length ts" "P (ts ! j)" "\<not> P t"
  shows "Suc (length (filter P (ts[j := t]))) = length (filter P ts)"
proof -
  have "filter P ts = filter P (take j ts @ ts ! j # drop (Suc j) ts)"
    using assms(1) by (simp add: Cons_nth_drop_Suc)
  then show ?thesis
    using assms by (simp add: upd_conv_take_nth_drop)
qed

end
