(* ===== verification/Ns_Timer_Refine.thy ===== *)
theory Ns_Timer_Refine
  imports Ns_Timer_Spec
begin

text \<open>
  The operations on the callback timers refine the countdowns of \<open>Ns_Timer_Spec\<close>, first one at a
  time, then over every sequence of calls, elapsed slots and interrupts.
\<close>

section \<open>The hold timers that are released\<close>

definition marks :: "ns_timer_module \<Rightarrow> bool list" where
  "marks m = map (\<lambda>t. timer_state t = NS_TIMER_RUN_INTERRUPT) (ns_timer_list m)"

lemma no_interrupt_marks: "no_interrupt m \<longleftrightarrow> True \<notin> set (marks m)"
  by (auto simp: no_interrupt_def marks_def)

lemma release_hold_id [simp]: "ns_timer_id (release_hold r t) = ns_timer_id t"
  and release_hold_marked [simp]:
    "timer_state (release_hold r t) = NS_TIMER_RUN_INTERRUPT \<longleftrightarrow> timer_state t = NS_TIMER_RUN_INTERRUPT"
  by (auto simp: release_hold_def is_hold_def)

lemma u16_wrap_sub: "r \<le> x \<Longrightarrow> x \<le> 65535 \<Longrightarrow> u16_wrap (x + 65536 - r) = x - r"
proof -
  assume "r \<le> x" "x \<le> 65535"
  then have "x + 65536 - r = (x - r) + 65536" and "x - r < 65536" by linarith+
  then show ?thesis by (simp only: u16_wrap_def mod_add_self2 mod_less)
qed

lemma u8_wrap_dec: "Suc a = b \<Longrightarrow> b \<le> 128 \<Longrightarrow> u8_wrap (b + 255) = a"
proof -
  assume "Suc a = b" "b \<le> 128"
  then have "b + 255 = a + 256" and "a < 256" by linarith+
  then show ?thesis by (simp add: u8_wrap_def)
qed

lemma promote_hold_is_release_hold: "promote_hold = release_hold"
  by (rule ext, rule ext) (simp add: promote_hold_def release_hold_def)

lemma countdown_of_release_hold:
  assumes "timer_fits True 0 t" "timer_state t \<noteq> NS_TIMER_ACTIVE" "is_hold t \<Longrightarrow> r \<le> remaining_slots t"
  shows "countdown_of r (release_hold r t) = countdown_of 0 t"
  using assms
  by (auto simp: release_hold_def countdown_of_def timer_fits_def is_hold_def u16_wrap_sub
           split: ns_timer_state_e.splits)

lemma timer_fits_release_hold:
  assumes "timer_fits True 0 t" "is_hold t \<Longrightarrow> r \<le> remaining_slots t"
  shows "timer_fits True r (release_hold r t)"
  using assms by (auto simp: release_hold_def timer_fits_def is_hold_def u16_wrap_sub)

text \<open>Setting the first of them active and releasing the others, as both code paths do.\<close>

lemma released_countdowns:
  assumes least: "least_hold ts 0 None = Some (j, r)"
    and fits: "\<And>t. t \<in> set ts \<Longrightarrow> timer_fits True 0 t \<and> timer_state t \<noteq> NS_TIMER_ACTIVE"
    and first: "ns_timer_id t' = ns_timer_id (ts ! j)" "interrupt_handler t' = interrupt_handler (ts ! j)"
      "timer_slots t' = timer_slots (ts ! j)" "timer_state t' = NS_TIMER_ACTIVE"
  shows "map (countdown_of r) (map (release_hold r) (ts[j := t'])) = map (countdown_of 0) ts"
    and "t \<in> set (map (release_hold r) (ts[j := t'])) \<Longrightarrow> timer_fits True r t"
    and "map (\<lambda>t. timer_state t = NS_TIMER_RUN_INTERRUPT) (map (release_hold r) (ts[j := t']))
         = map (\<lambda>t. timer_state t = NS_TIMER_RUN_INTERRUPT) ts"
    and "0 < r" "r \<le> 65535"
proof -
  note l = least_hold_Some [OF least]
  have hold: "timer_state (ts ! j) = NS_TIMER_HOLD" and fj: "timer_fits True 0 (ts ! j)"
    using l fits [of "ts ! j"] by (simp_all add: is_hold_def)
  show r: "0 < r" "r \<le> 65535"
    using hold fj l(3) by (auto simp: timer_fits_def)
  have t': "release_hold r t' = t'"
    using first(4) by (simp add: is_hold_def)
  show "map (countdown_of r) (map (release_hold r) (ts[j := t'])) = map (countdown_of 0) ts"
  proof (rule nth_equalityI)
    fix i assume i: "i < length (map (countdown_of r) (map (release_hold r) (ts[j := t'])))"
    show "map (countdown_of r) (map (release_hold r) (ts[j := t'])) ! i = map (countdown_of 0) ts ! i"
    proof (cases "i = j")
      case True
      then show ?thesis
        using i first hold l(3) t' by (simp add: countdown_of_def)
    next
      case False
      then show ?thesis
        using i fits [of "ts ! i"] l(4) [of "ts ! i"] by (simp add: countdown_of_release_hold)
    qed
  qed simp
  show "timer_fits True r t" if t_in: "t \<in> set (map (release_hold r) (ts[j := t']))"
  proof -
    obtain u where u: "u \<in> set (ts[j := t'])" "t = release_hold r u"
      using t_in unfolding list.set_map by blast
    then consider "u = t'" | "u \<in> set ts"
      using set_update_subset_insert [of ts j t'] by auto
    then show ?thesis
    proof cases
      case 1
      then show ?thesis using u t' first by (simp add: timer_fits_def)
    next
      case 2
      then show ?thesis using u fits l(4) by (simp add: timer_fits_release_hold)
    qed
  qed
  show "map (\<lambda>t. timer_state t = NS_TIMER_RUN_INTERRUPT) (map (release_hold r) (ts[j := t']))
        = map (\<lambda>t. timer_state t = NS_TIMER_RUN_INTERRUPT) ts"
    using hold first(4) l(1)
    by (auto simp: comp_def map_update list_update_same_conv)
qed

section \<open>Starting the next timeout\<close>

lemma get_next_none:
  "(\<And>t. t \<in> set (ns_timer_list m) \<Longrightarrow> \<not> is_hold t) \<Longrightarrow> ns_timer_get_next_running_to m = m"
  using least_hold_Some(1,2) [of "ns_timer_list m"]
  by (fastforce simp: ns_timer_get_next_running_to_def split: option.splits)

lemma get_next_refines:
  assumes ids: "ids_ok (ns_timer_list m)" and stopped: "\<not> ns_timer_running m" "hal_slots m \<le> 65535"
    and fits: "\<And>t. t \<in> set (ns_timer_list m) \<Longrightarrow> timer_fits True 0 t \<and> timer_state t \<noteq> NS_TIMER_ACTIVE"
  shows "countdowns (ns_timer_get_next_running_to m) = map (countdown_of 0) (ns_timer_list m)"
    and "timers_ok (ns_timer_get_next_running_to m)"
    and "settled (ns_timer_get_next_running_to m)"
    and "marks (ns_timer_get_next_running_to m) = marks m"
proof -
  let ?m = "ns_timer_get_next_running_to m"
  let ?ts = "ns_timer_list m"
  have "countdowns ?m = map (countdown_of 0) ?ts \<and> timers_ok ?m \<and> settled ?m \<and> marks ?m = marks m"
  proof (cases "least_hold ?ts 0 None")
    case None
    then have no_hold: "\<not> is_hold t" if "t \<in> set ?ts" for t
      using that by (rule least_hold_None)
    have same: "countdown_of (hal_slots m) t = countdown_of 0 t" if "t \<in> set ?ts" for t
      using fits [OF that] no_hold [OF that]
      by (simp add: countdown_of_def is_hold_def split: ns_timer_state_e.splits)
    have "timer_fits False (hal_slots m) t" if "t \<in> set ?ts" for t
      using fits [OF that] no_hold [OF that] by (auto simp: timer_fits_def is_hold_def)
    then show ?thesis
      using ids stopped same
      by (simp add: get_next_none no_hold countdowns_def timers_ok_def settled_def)
  next
    case (Some jr)
    obtain j r where jr: "jr = (j, r)" by (cases jr)
    note least = Some [unfolded jr]
    note l = least_hold_Some [OF least]
    let ?t' = "(?ts ! j)\<lparr>timer_state := NS_TIMER_ACTIVE, remaining_slots := r\<rparr>"
    have count: "length (filter is_hold (?ts[j := ?t'])) \<le> u8_wrap (length (filter is_hold ?ts) + 255)"
    proof -
      have "Suc (length (filter is_hold (?ts[j := ?t']))) = length (filter is_hold ?ts)"
        using l by (intro filter_update_drop) (simp_all add: is_hold_def)
      moreover have "length (filter is_hold ?ts) \<le> 128"
        using ids_ok_length [OF ids] length_filter_le [of is_hold ?ts] by linarith
      ultimately show ?thesis by (simp add: u8_wrap_dec)
    qed
    note rel = released_countdowns [OF least fits, where t' = ?t', simplified]
    have m: "?m = m\<lparr>hal_slots := r, ns_timer_running := True,
                    ns_timer_list := map (release_hold r) (?ts[j := ?t'])\<rparr>"
      using rel(4) update_holds_map [OF count]
      by (simp add: ns_timer_get_next_running_to_def least Let_def ns_timer_start_pl_timer_def)
    show ?thesis
      using rel ids l(1) by (simp add: m countdowns_def timers_ok_def settled_def marks_def comp_def)
  qed
  then show "countdowns ?m = map (countdown_of 0) ?ts" "timers_ok ?m" "settled ?m" "marks ?m = marks m"
    by simp_all
qed

section \<open>Start and stop\<close>

lemma push_back_id [simp]: "ns_timer_id (push_back d t) = ns_timer_id t"
  and push_back_handler [simp]: "interrupt_handler (push_back d t) = interrupt_handler t"
  by (simp_all add: push_back_def Let_def)

lemma push_back_marked [simp]:
  "timer_state (push_back d t) = NS_TIMER_RUN_INTERRUPT \<longleftrightarrow> timer_state t = NS_TIMER_RUN_INTERRUPT"
  by (auto simp: push_back_def Let_def)

lemma countdown_of_push_back:
  assumes "timer_fits True pl t" "n < pl" "pl \<le> 65535"
  shows "countdown_of n (push_back (pl - n) t) = countdown_of pl t"
  using assms
  by (auto simp: push_back_def Let_def countdown_of_def timer_fits_def u16_wrap_id
           split: ns_timer_state_e.splits)

lemma timer_fits_push_back:
  assumes "timer_fits True pl t" "n < pl" "pl \<le> 65535"
  shows "timer_fits True n (push_back (pl - n) t)"
  using assms
  by (cases "timer_state t") (auto simp: push_back_def Let_def timer_fits_def u16_wrap_id)

lemma timers_ok_in: "timers_ok m \<Longrightarrow> t \<in> set (ns_timer_list m) \<Longrightarrow>
    timer_fits (ns_timer_running m) (hal_slots m) t"
  by (simp add: timers_ok_def)

lemma countdown_eqI:
  "ns_timer_id t = cd_id c \<Longrightarrow> interrupt_handler t = cd_handler c \<Longrightarrow> timer_slots t = cd_slots c \<Longrightarrow>
   cd_left (countdown_of h t) = cd_left c \<Longrightarrow> countdown_of h t = c"
  by (simp add: countdown_of_def)

lemma all_set_update:
  "(\<forall>x \<in> set xs. P x) \<Longrightarrow> P y \<Longrightarrow> \<forall>x \<in> set (xs[k := y]). P x"
  using set_update_subset_insert [of xs k y] by auto

lemma countdown_of_new:
  "countdown_of h (t\<lparr>timer_state := NS_TIMER_ACTIVE, timer_slots := n, remaining_slots := r\<rparr>) =
     \<lparr>cd_id = ns_timer_id t, cd_handler = interrupt_handler t, cd_slots = n, cd_left = Some h\<rparr>"
  "countdown_of h (t\<lparr>timer_state := NS_TIMER_HOLD, timer_slots := n, remaining_slots := r\<rparr>) =
     \<lparr>cd_id = ns_timer_id t, cd_handler = interrupt_handler t, cd_slots = n, cd_left = Some (h + r)\<rparr>"
  "(countdown_of h t)\<lparr>cd_slots := n, cd_left := l\<rparr> =
     \<lparr>cd_id = ns_timer_id t, cd_handler = interrupt_handler t, cd_slots = n, cd_left = l\<rparr>"
  by (simp_all add: countdown_of_def)

lemma start_refines:
  fixes i :: int and n :: nat and m :: ns_timer_module
  assumes ok: "timers_ok m" and n: "0 < n" "n \<le> 65535"
  defines "m' \<equiv> snd (eventOS_callback_timer_start i n m)"
  shows "spec_start i n (countdowns m) = (fst (eventOS_callback_timer_start i n m), countdowns m')"
    and "timers_ok m'" and "settled m \<Longrightarrow> settled m'"
    and "marks m' = (case ns_timer_get_pointer_to_timer_struct i (ns_timer_list m) of
                       None \<Rightarrow> marks m | Some k \<Rightarrow> (marks m)[k := False])"
proof -
  let ?ts = "ns_timer_list m" and ?pl = "hal_slots m"
  have "spec_start i n (countdowns m) = (fst (eventOS_callback_timer_start i n m), countdowns m') \<and>
        timers_ok m' \<and> (settled m \<longrightarrow> settled m') \<and>
        marks m' = (case ns_timer_get_pointer_to_timer_struct i ?ts of
                      None \<Rightarrow> marks m | Some k \<Rightarrow> (marks m)[k := False])"
  proof (cases "ns_timer_get_pointer_to_timer_struct i ?ts")
    case None
    then show ?thesis
      using ok by (simp add: m'_def eventOS_callback_timer_start_def spec_start_def countdowns_position)
  next
    case (Some k)
    then have k: "k < length ?ts" "ns_timer_id (?ts ! k) = i"
      using position_SomeD [of i "map ns_timer_id ?ts" k] by (auto simp: pointer_is_position)
    have spec: "spec_start i n (countdowns m) =
        (0, (countdowns m)[k := (countdown_of ?pl (?ts ! k))\<lparr>cd_slots := n, cd_left := Some n\<rparr>])"
      using k(1) by (simp add: spec_start_def countdowns_position Some) (simp add: countdowns_def)
    have ids: "ids_ok ?ts" and pl: "?pl \<le> 65535"
      and fits: "\<And>t. t \<in> set ?ts \<Longrightarrow> timer_fits (ns_timer_running m) ?pl t"
      using ok by (simp_all add: timers_ok_def)
    let ?new = "\<lambda>st r t. t\<lparr>timer_state := st, timer_slots := n, remaining_slots := r\<rparr>"
    show ?thesis
    proof (cases "ns_timer_running m")
      case run: True
      consider (shorter) "?pl > n" | (longer) "?pl < n" | (equal) "?pl = n" by linarith
      then show ?thesis
      proof cases
        case shorter
        let ?push = "map (push_back (?pl - n)) ?ts"
        let ?t = "?new NS_TIMER_ACTIVE n (push_back (?pl - n) (?ts ! k))"
        have m': "m' = m\<lparr>hal_slots := n, ns_timer_running := True, ns_timer_list := ?push[k := ?t]\<rparr>"
          using shorter run n k(1)
          by (simp add: m'_def eventOS_callback_timer_start_def Some Let_def ns_timer_start_pl_timer_def)
        have "map (countdown_of n) ?push = countdowns m"
          using shorter pl fits run by (simp add: countdowns_def countdown_of_push_back)
        then have "countdowns m' = (countdowns m)[k := countdown_of n ?t]"
          by (simp add: m' countdowns_def map_update del: map_map)
        moreover have "\<forall>t \<in> set ?push. timer_fits True n t"
          using shorter pl fits run by (simp add: timer_fits_push_back)
        then have "\<forall>t \<in> set (?push[k := ?t]). timer_fits True n t"
          by (rule all_set_update) (simp add: timer_fits_def)
        ultimately show ?thesis
          using k ids n spec Some run shorter
          by (simp add: countdown_of_new eventOS_callback_timer_start_def)
            (simp add: m' map_update timers_ok_def settled_def marks_def comp_def)
      next
        case longer
        let ?t = "?new NS_TIMER_HOLD (n - ?pl) (?ts ! k)"
        have m': "m' = m\<lparr>ns_timer_list := ?ts[k := ?t]\<rparr>"
          using longer run
          by (simp add: m'_def eventOS_callback_timer_start_def Some Let_def)
        have "\<forall>t \<in> set (?ts[k := ?t]). timer_fits True ?pl t"
          by (rule all_set_update) (use fits run longer n in \<open>simp_all add: timer_fits_def\<close>)
        then show ?thesis
          using k ids pl spec Some run longer
          by (simp add: countdown_of_new eventOS_callback_timer_start_def)
            (simp add: m' countdowns_def map_update countdown_of_new timers_ok_def settled_def marks_def)
      next
        case equal
        let ?t = "?new NS_TIMER_ACTIVE n (?ts ! k)"
        have m': "m' = m\<lparr>ns_timer_list := ?ts[k := ?t]\<rparr>"
          using equal run
          by (simp add: m'_def eventOS_callback_timer_start_def Some Let_def)
        have "\<forall>t \<in> set (?ts[k := ?t]). timer_fits True ?pl t"
          by (rule all_set_update) (use fits run in \<open>simp_all add: timer_fits_def\<close>)
        then show ?thesis
          using k ids pl spec Some run equal
          by (simp add: countdown_of_new eventOS_callback_timer_start_def)
            (simp add: m' countdowns_def map_update countdown_of_new timers_ok_def settled_def marks_def)
      qed
    next
      case stopped: False
      let ?t = "?new NS_TIMER_HOLD n (?ts ! k)"
      let ?m = "m\<lparr>ns_timer_list := ?ts[k := ?t]\<rparr>"
      have m': "m' = ns_timer_get_next_running_to ?m"
        using stopped by (simp add: m'_def eventOS_callback_timer_start_def Some Let_def)
      have idle: "timer_fits True 0 t \<and> timer_state t \<noteq> NS_TIMER_ACTIVE \<and>
          countdown_of 0 t = countdown_of ?pl t" if "t \<in> set ?ts" for t
        using fits [OF that] stopped
        by (cases "timer_state t") (simp_all add: timer_fits_def countdown_of_def)
      have all: "\<forall>t \<in> set (?ts[k := ?t]). timer_fits True 0 t \<and> timer_state t \<noteq> NS_TIMER_ACTIVE"
        by (rule all_set_update) (use idle n in \<open>simp_all add: timer_fits_def\<close>)
      have pre: "ids_ok (ns_timer_list ?m)" "\<not> ns_timer_running ?m" "hal_slots ?m \<le> 65535"
        "\<And>t. t \<in> set (ns_timer_list ?m) \<Longrightarrow> timer_fits True 0 t \<and> timer_state t \<noteq> NS_TIMER_ACTIVE"
        using ids stopped pl all by simp_all
      have "countdowns m' = map (countdown_of 0) (?ts[k := ?t])" "timers_ok m'" "settled m'"
        "marks m' = marks ?m"
        using get_next_refines [OF pre] by (simp_all add: m')
      moreover have "map (countdown_of 0) ?ts = countdowns m"
        using idle by (simp add: countdowns_def)
      ultimately show ?thesis
        using k spec Some stopped
        by (simp add: map_update marks_def countdown_of_new eventOS_callback_timer_start_def)
    qed
  qed
  then show "spec_start i n (countdowns m) = (fst (eventOS_callback_timer_start i n m), countdowns m')"
    "timers_ok m'" "settled m \<Longrightarrow> settled m'"
    "marks m' = (case ns_timer_get_pointer_to_timer_struct i ?ts of
                   None \<Rightarrow> marks m | Some k \<Rightarrow> (marks m)[k := False])"
    by simp_all
qed

lemma countdown_of_stopped:
  "countdown_of h (t\<lparr>timer_state := NS_TIMER_STOP, remaining_slots := r\<rparr>) =
     \<lparr>cd_id = ns_timer_id t, cd_handler = interrupt_handler t, cd_slots = timer_slots t, cd_left = None\<rparr>"
  "(countdown_of h t)\<lparr>cd_left := None\<rparr> =
     \<lparr>cd_id = ns_timer_id t, cd_handler = interrupt_handler t, cd_slots = timer_slots t, cd_left = None\<rparr>"
  by (simp_all add: countdown_of_def)

lemma add_remaining_same [simp]:
  "ns_timer_id (add_remaining d t) = ns_timer_id t"
  "interrupt_handler (add_remaining d t) = interrupt_handler t"
  "timer_slots (add_remaining d t) = timer_slots t"
  "timer_state (add_remaining d t) = timer_state t"
  by (simp_all add: add_remaining_def)

lemma add_remaining_fits:
  assumes "timer_fits run d t" "timer_state t \<noteq> NS_TIMER_ACTIVE"
  shows "timer_fits True 0 (add_remaining d t)"
    and "countdown_of 0 (add_remaining d t) = countdown_of d t"
  using assms
  by (cases "timer_state t";
      simp add: timer_fits_def add_remaining_def is_hold_def countdown_of_def u16_wrap_id)+

lemma stop_refines:
  fixes i :: int and m :: ns_timer_module
  assumes ok: "timers_ok m"
  defines "m' \<equiv> snd (eventOS_callback_timer_stop i m)"
  shows "spec_stop i (countdowns m) = (fst (eventOS_callback_timer_stop i m), countdowns m')"
    and "timers_ok m'" and "settled m \<Longrightarrow> settled m'"
    and "marks m' = (case ns_timer_get_pointer_to_timer_struct i (ns_timer_list m) of
                       None \<Rightarrow> marks m | Some k \<Rightarrow> (marks m)[k := False])"
proof -
  let ?ts = "ns_timer_list m" and ?pl = "hal_slots m"
  have "spec_stop i (countdowns m) = (fst (eventOS_callback_timer_stop i m), countdowns m') \<and>
        timers_ok m' \<and> (settled m \<longrightarrow> settled m') \<and>
        marks m' = (case ns_timer_get_pointer_to_timer_struct i ?ts of
                      None \<Rightarrow> marks m | Some k \<Rightarrow> (marks m)[k := False])"
  proof (cases "ns_timer_get_pointer_to_timer_struct i ?ts")
    case None
    then show ?thesis
      using ok by (simp add: m'_def eventOS_callback_timer_stop_def spec_stop_def countdowns_position)
  next
    case (Some k)
    then have k: "k < length ?ts" "ns_timer_id (?ts ! k) = i"
      using position_SomeD [of i "map ns_timer_id ?ts" k] by (auto simp: pointer_is_position)
    have spec: "spec_stop i (countdowns m) =
        (0, (countdowns m)[k := (countdown_of ?pl (?ts ! k))\<lparr>cd_left := None\<rparr>])"
      using k(1) by (simp add: spec_stop_def countdowns_position Some) (simp add: countdowns_def)
    have zero: "fst (eventOS_callback_timer_stop i m) = 0"
      by (simp add: eventOS_callback_timer_stop_def Some Let_def split: option.splits prod.splits)
    have ids: "ids_ok ?ts" and pl: "?pl \<le> 65535"
      and fits: "\<And>t. t \<in> set ?ts \<Longrightarrow> timer_fits (ns_timer_running m) ?pl t"
      using ok by (simp_all add: timers_ok_def)
    let ?t = "(?ts ! k)\<lparr>timer_state := NS_TIMER_STOP, remaining_slots := 0\<rparr>"
    let ?stopped = "?ts[k := ?t]"
    have fits': "\<forall>t \<in> set ?stopped. timer_fits (ns_timer_running m) ?pl t"
      by (rule all_set_update) (use fits in \<open>simp_all add: timer_fits_def\<close>)
    have abs: "map (countdown_of ?pl) ?stopped = snd (spec_stop i (countdowns m))"
      by (simp add: spec map_update countdown_of_stopped) (simp add: countdowns_def)
    have marks': "map (\<lambda>t. timer_state t = NS_TIMER_RUN_INTERRUPT) ?stopped = (marks m)[k := False]"
      by (simp add: map_update marks_def)
    consider (off) "timer_state (?ts ! k) = NS_TIMER_STOP"
      | (active) "timer_state (?ts ! k) \<noteq> NS_TIMER_STOP" "\<exists>t \<in> set ?stopped. timer_state t = NS_TIMER_ACTIVE"
      | (none) "timer_state (?ts ! k) \<noteq> NS_TIMER_STOP" "\<forall>t \<in> set ?stopped. timer_state t \<noteq> NS_TIMER_ACTIVE"
      by blast
    then show ?thesis
    proof cases
      case off
      then have "m' = m"
        by (simp add: m'_def eventOS_callback_timer_stop_def Some)
      moreover have "(countdown_of ?pl (?ts ! k))\<lparr>cd_left := None\<rparr> = countdown_of ?pl (?ts ! k)"
        using off by (simp add: countdown_of_def)
      moreover have "(marks m)[k := False] = marks m"
        using off k(1) by (simp add: marks_def list_update_same_conv)
      ultimately show ?thesis
        using ok k(1) Some zero spec by (simp add: countdowns_def list_update_same_conv)
    next
      case active
      then have "m' = m\<lparr>ns_timer_list := ?stopped\<rparr>"
        by (simp add: m'_def eventOS_callback_timer_stop_def Some Let_def)
      then have "countdowns m' = snd (spec_stop i (countdowns m))" "timers_ok m'"
        "settled m \<longrightarrow> settled m'" "marks m' = (marks m)[k := False]"
        using ids k pl fits' abs marks' by (simp_all add: countdowns_def timers_ok_def settled_def marks_def)
      then show ?thesis
        using zero Some by (simp add: prod_eq_iff spec)
    next
      case none
      let ?ts1 = "map (add_remaining ?pl) ?stopped"
      have add: "timer_fits True 0 t \<and> timer_state t \<noteq> NS_TIMER_ACTIVE" if "t \<in> set ?ts1" for t
        using that fits' none(2) add_remaining_fits(1) by auto
      have abs1: "map (countdown_of 0) ?ts1 = snd (spec_stop i (countdowns m))"
        using fits' none(2) by (auto simp: abs [symmetric] intro: add_remaining_fits(2))
      have marks1: "map (\<lambda>t. timer_state t = NS_TIMER_RUN_INTERRUPT) ?ts1 = (marks m)[k := False]"
        using marks' by (simp add: comp_def)
      have ids1: "ids_ok ?ts1" using ids k by simp
      show ?thesis
      proof (cases "least_hold ?ts1 0 None")
        case None
        then have m': "m' = m\<lparr>ns_timer_list := ?ts1\<rparr>"
          using none by (simp add: m'_def eventOS_callback_timer_stop_def Some Let_def)
        have no_hold: "\<not> is_hold t" if "t \<in> set ?ts1" for t
          using None that by (rule least_hold_None)
        have idle: "countdown_of ?pl t = countdown_of 0 t \<and> timer_fits (ns_timer_running m) ?pl t"
          if "t \<in> set ?ts1" for t
          using add [OF that] no_hold [OF that]
          by (cases "timer_state t") (simp_all add: countdown_of_def is_hold_def timer_fits_def)
        have "map (countdown_of ?pl) ?ts1 = map (countdown_of 0) ?ts1"
          using idle by (intro map_cong) (simp_all del: list.set_map)
        then have "countdowns m' = snd (spec_stop i (countdowns m))"
          and "\<forall>t \<in> set ?ts1. timer_fits (ns_timer_running m) ?pl t"
          using abs1 idle by (simp_all add: m' countdowns_def del: map_map list.set_map)
        moreover from this have "timers_ok m'" "settled m \<longrightarrow> settled m'" "marks m' = (marks m)[k := False]"
          using ids1 pl marks1
          by (simp_all add: m' timers_ok_def settled_def marks_def del: list.set_map map_map)
        ultimately show ?thesis
          using zero \<open>ns_timer_get_pointer_to_timer_struct i ?ts = Some k\<close>
          by (simp add: prod_eq_iff spec)
      next
        case (Some jr)
        obtain j r where jr: "jr = (j, r)" by (cases jr)
        note least = Some [unfolded jr]
        note l = least_hold_Some [OF least]
        let ?a = "(?ts1 ! j)\<lparr>timer_state := NS_TIMER_ACTIVE\<rparr>"
        have a: "ns_timer_id ?a = ns_timer_id (?ts1 ! j)"
          "interrupt_handler ?a = interrupt_handler (?ts1 ! j)"
          "timer_slots ?a = timer_slots (?ts1 ! j)" "timer_state ?a = NS_TIMER_ACTIVE"
          by simp_all
        note rel = released_countdowns [OF least add a]
        have m': "m' = m\<lparr>hal_slots := r, ns_timer_running := True,
                         ns_timer_list := map (release_hold r) (?ts1[j := ?a])\<rparr>"
          using rel(4) none least \<open>ns_timer_get_pointer_to_timer_struct i ?ts = Some k\<close>
          by (simp add: m'_def eventOS_callback_timer_stop_def Let_def ns_timer_start_pl_timer_def
              promote_hold_is_release_hold)
        have "ids_ok (map (release_hold r) (?ts1[j := ?a]))"
          using ids1 by (simp del: list.map_comp)
        then have "countdowns m' = snd (spec_stop i (countdowns m))" "timers_ok m'"
          "settled m'" "marks m' = (marks m)[k := False]"
          using rel abs1 marks1
          by (simp_all add: m' countdowns_def timers_ok_def settled_def marks_def
              del: map_map list.set_map)
        then show ?thesis
          using zero \<open>ns_timer_get_pointer_to_timer_struct i ?ts = Some k\<close>
          by (simp add: prod_eq_iff spec)
      qed
    qed
  qed
  then show "spec_stop i (countdowns m) = (fst (eventOS_callback_timer_stop i m), countdowns m')"
    "timers_ok m'" "settled m \<Longrightarrow> settled m'"
    "marks m' = (case ns_timer_get_pointer_to_timer_struct i ?ts of
                   None \<Rightarrow> marks m | Some k \<Rightarrow> (marks m)[k := False])"
    by simp_all
qed

end
