(* ===== verification/Ns_Timer_Sim.thy ===== *)
theory Ns_Timer_Sim
  imports Ns_Timer_Refine
begin

text \<open>
  The interrupt of the hardware timer and the simulation theorem: over every sequence of
  registrations, starts, stops, elapsed slots and interrupts the timers that share one hardware
  timer give the results, the callbacks and the callback order of independent countdowns.
\<close>

section \<open>The calls of a callback\<close>

fun call_ok :: "timer_call \<Rightarrow> bool" where
  "call_ok (Start_Call i n) \<longleftrightarrow> 0 < n \<and> n \<le> 65535"
| "call_ok (Stop_Call i) \<longleftrightarrow> True"

definition marks_below :: "bool list \<Rightarrow> bool list \<Rightarrow> bool" where
  "marks_below a b \<longleftrightarrow> length a = length b \<and> (\<forall>j < length a. a ! j \<longrightarrow> b ! j)"

lemma marks_below_refl [simp]: "marks_below a a"
  and marks_below_trans: "marks_below a b \<Longrightarrow> marks_below b c \<Longrightarrow> marks_below a c"
  by (auto simp: marks_below_def)

lemma marks_below_update [simp]: "marks_below (a[k := False]) a"
  unfolding marks_below_def by auto (metis nth_list_update_eq nth_list_update_neq)

lemma exec_call_refines:
  assumes "timers_ok m" "call_ok c"
  shows "countdowns (exec_call c m) = spec_call c (countdowns m)"
    and "timers_ok (exec_call c m)" and "settled m \<Longrightarrow> settled (exec_call c m)"
    and "marks_below (marks (exec_call c m)) (marks m)"
  using assms start_refines [of m] stop_refines [of m]
  by (cases c; simp split: option.split)+

lemma exec_calls_refines:
  assumes "timers_ok m" "settled m" "\<forall>c \<in> set cs. call_ok c"
  shows "countdowns (exec_calls cs m) = fold spec_call cs (countdowns m)"
    and "timers_ok (exec_calls cs m)" and "settled (exec_calls cs m)"
    and "marks_below (marks (exec_calls cs m)) (marks m)"
  unfolding exec_calls_def using assms
  by (induction cs arbitrary: m)
    (auto simp: exec_call_refines, metis exec_call_refines(2-4) marks_below_trans)

section \<open>The callback loop\<close>

lemma length_marks [simp]: "length (marks m) = length (ns_timer_list m)"
  and length_countdowns [simp]: "length (countdowns m) = length (ns_timer_list m)"
  by (simp_all add: marks_def countdowns_def)

definition pending :: "nat \<Rightarrow> ns_timer_module \<Rightarrow> nat" where
  "pending k m = card {j. k \<le> j \<and> j < length (marks m) \<and> marks m ! j}"

lemma due_iff_marked:
  assumes "timers_ok m" "settled m" "k < length (ns_timer_list m)"
  shows "cd_left (countdowns m ! k) = Some 0 \<longleftrightarrow> marks m ! k"
  using assms timers_ok_in [OF assms(1), of "ns_timer_list m ! k"]
  by (auto simp: countdowns_def marks_def countdown_of_def timer_fits_def settled_def
           split: ns_timer_state_e.splits)

lemma spec_fire_none:
  "\<forall>j. k \<le> j \<and> j < k + n \<longrightarrow> cd_left (tab ! j) \<noteq> Some 0 \<Longrightarrow> spec_fire cb k n tab = ([], tab)"
  by (induction n arbitrary: k) (simp_all add: Let_def)

lemma pending_Suc:
  "k < length (marks m) \<Longrightarrow> pending k m = (if marks m ! k then 1 else 0) + pending (Suc k) m"
proof -
  assume k: "k < length (marks m)"
  have "{j. k \<le> j \<and> j < length (marks m) \<and> marks m ! j} =
        (if marks m ! k then {k} else {}) \<union> {j. Suc k \<le> j \<and> j < length (marks m) \<and> marks m ! j}"
    using k by (auto simp: le_less Suc_le_eq)
  then show ?thesis
    by (simp add: pending_def)
qed

lemma pending_mono:
  assumes "marks_below (marks m') (marks m)"
  shows "pending k m' \<le> pending k m"
  unfolding pending_def using assms by (intro card_mono) (auto simp: marks_below_def)

lemma pending_0:
  "pending k m = 0 \<Longrightarrow> k \<le> j \<Longrightarrow> j < length (marks m) \<Longrightarrow> \<not> marks m ! j"
  by (auto simp: pending_def)

lemma call_handlers_refines:
  assumes "k + n = length (ns_timer_list m)" "timers_ok m" "settled m" "pending k m \<le> i"
    "\<forall>j < k. \<not> marks m ! j" and cb: "\<And>h i s c. c \<in> set (cb h i s) \<Longrightarrow> call_ok c"
    and "call_handlers cb k n i m = (log, m')"
  shows "spec_fire cb k n (countdowns m) = (log, countdowns m') \<and> timers_ok m' \<and> no_interrupt m'"
  using assms(1-5,7)
proof (induction n arbitrary: k i m log)
  case 0
  then show ?case
    by (auto simp: no_interrupt_marks in_set_conv_nth)
next
  case (Suc n)
  have k: "k < length (ns_timer_list m)" using Suc.prems(1) by simp
  show ?case
  proof (cases "i = 0")
    case True
    then have none: "\<not> marks m ! j" if "j < length (ns_timer_list m)" for j
      using that pending_0 [of k m j] Suc.prems(4,5) by (cases "j < k") simp_all
    then have "spec_fire cb k (Suc n) (countdowns m) = ([], countdowns m)"
      using Suc.prems(1-3) by (intro spec_fire_none) (auto simp: due_iff_marked)
    moreover have "no_interrupt m"
      using none by (auto simp: no_interrupt_marks in_set_conv_nth)
    ultimately show ?thesis
      using True Suc.prems(2,6) by (simp del: spec_fire.simps)
  next
    case i: False
    let ?t = "ns_timer_list m ! k"
    show ?thesis
    proof (cases "marks m ! k")
      case marked: True
      let ?m1 = "m\<lparr>ns_timer_list := (ns_timer_list m)[k := ?t\<lparr>timer_state := NS_TIMER_STOP\<rparr>]\<rparr>"
      let ?cs = "cb (interrupt_handler ?t) (ns_timer_id ?t) (timer_slots ?t)"
      let ?m2 = "exec_calls ?cs ?m1"
      obtain log' where rec: "call_handlers cb (Suc k) n (i - 1) ?m2 = (log', m')"
        and log: "log = (ns_timer_id ?t, timer_slots ?t) # log'"
        using Suc.prems(6) i marked k
        by (auto simp: Let_def marks_def split: prod.splits)
      have "\<forall>t \<in> set ((ns_timer_list m)[k := ?t\<lparr>timer_state := NS_TIMER_STOP\<rparr>]).
              timer_fits (ns_timer_running m) (hal_slots m) t"
        by (rule all_set_update) (use Suc.prems(2) in \<open>simp_all add: timers_ok_def timer_fits_def\<close>)
      then have ok1: "timers_ok ?m1" "settled ?m1"
        using Suc.prems(2,3) by (simp_all add: timers_ok_def settled_def)
      have marks1: "marks ?m1 = (marks m)[k := False]"
        by (simp add: marks_def map_update)
      have abs1: "countdowns ?m1 = (countdowns m)[k := (countdowns m ! k)\<lparr>cd_left := None\<rparr>]"
        using k by (simp add: countdowns_def map_update countdown_of_def)
      note calls = exec_calls_refines [OF ok1, of ?cs]
      have cs: "\<forall>c \<in> set ?cs. call_ok c" using cb by blast
      have below: "marks_below (marks ?m2) ((marks m)[k := False])"
        using calls(4) [OF cs] by (simp add: marks1)
      have "pending (Suc k) ?m2 \<le> pending (Suc k) ?m1"
        by (rule pending_mono) (use below in \<open>simp add: marks1\<close>)
      also have "\<dots> \<le> pending (Suc k) m"
        by (rule pending_mono) (simp add: marks1)
      also have "\<dots> \<le> i - 1"
        using Suc.prems(4) pending_Suc [of k m] k marked by simp
      finally have "pending (Suc k) ?m2 \<le> i - 1" .
      moreover have "length (ns_timer_list ?m2) = length (ns_timer_list m)"
        using below by (simp add: marks_below_def)
      moreover have "\<forall>j < Suc k. \<not> marks ?m2 ! j"
        using below Suc.prems(5) k by (auto simp: marks_below_def less_Suc_eq nth_list_update)
      ultimately have "spec_fire cb (Suc k) n (countdowns ?m2) = (log', countdowns m') \<and>
                       timers_ok m' \<and> no_interrupt m'"
        using calls(2,3) [OF cs] Suc.prems(1) rec by (intro Suc.IH) simp_all
      moreover have "cd_left (countdowns m ! k) = Some 0"
        using due_iff_marked [OF Suc.prems(2,3) k] marked by simp
      moreover have "cd_handler (countdowns m ! k) = interrupt_handler ?t"
        "cd_id (countdowns m ! k) = ns_timer_id ?t" "cd_slots (countdowns m ! k) = timer_slots ?t"
        using k by (simp_all add: countdowns_def)
      ultimately show ?thesis
        by (simp add: log Let_def calls(1) [OF cs] abs1)
    next
      case False
      then have "call_handlers cb (Suc k) n i m = (log, m')"
        using Suc.prems(6) i k by (simp add: Let_def marks_def)
      moreover have "pending (Suc k) m \<le> i"
        using Suc.prems(4) pending_Suc [of k m] k False by simp
      moreover have "\<forall>j < Suc k. \<not> marks m ! j"
        using Suc.prems(5) False by (simp add: less_Suc_eq)
      ultimately have "spec_fire cb (Suc k) n (countdowns m) = (log, countdowns m') \<and>
                       timers_ok m' \<and> no_interrupt m'"
        using Suc.prems(1-3) by (intro Suc.IH) simp_all
      then show ?thesis
        using due_iff_marked [OF Suc.prems(2,3) k] False by (simp add: Let_def)
    qed
  qed
qed

section \<open>The interrupt\<close>

lemma pending_filter: "pending 0 m = length (filter (\<lambda>b. b) (marks m))"
  by (simp add: pending_def length_filter_conv_card)

lemma countdown_of_mark_interrupt [simp]: "countdown_of 0 (mark_interrupt t) = countdown_of 0 t"
  by (auto simp: mark_interrupt_def countdown_of_def split: ns_timer_state_e.splits)

lemma mark_interrupt_id [simp]: "ns_timer_id (mark_interrupt t) = ns_timer_id t"
  by (simp add: mark_interrupt_def)

lemma interrupt_refines:
  assumes ok: "timers_ok m" "no_interrupt m" and due: "ns_timer_running m" "hal_slots m = 0"
    and cb: "\<And>h i s c. c \<in> set (cb h i s) \<Longrightarrow> call_ok c"
    and run: "ns_timer_interrupt_handler cb m = (log, m')"
  shows "spec_interrupt cb (countdowns m) = (log, countdowns m') \<and> timers_ok m' \<and> no_interrupt m'"
proof -
  let ?m0 = "m\<lparr>ns_timer_running := False, ns_timer_list := map mark_interrupt (ns_timer_list m)\<rparr>"
  let ?m1 = "ns_timer_get_next_running_to ?m0"
  let ?active = "\<lambda>t. timer_state t = NS_TIMER_ACTIVE"
  have fits: "timer_fits True 0 t \<and> timer_state t \<noteq> NS_TIMER_ACTIVE" if "t \<in> set (ns_timer_list ?m0)" for t
    using that timers_ok_in [OF ok(1)] due by (force simp: mark_interrupt_def timer_fits_def)
  have pre: "ids_ok (ns_timer_list ?m0)" "\<not> ns_timer_running ?m0" "hal_slots ?m0 \<le> 65535"
    using ok(1) due by (simp_all add: timers_ok_def)
  note nxt = get_next_refines [OF pre fits]
  have abs: "countdowns ?m1 = countdowns m"
    using nxt(1) due by (simp add: countdowns_def comp_def)
  have len: "length (ns_timer_list ?m1) = length (ns_timer_list m)"
    using nxt(4) by (metis length_map length_marks ns_timer_module.select_convs(1)
        ns_timer_module.surjective ns_timer_module.update_convs(1,2))
  have marks1: "marks ?m1 = map ?active (ns_timer_list m)"
    using nxt(4) ok(2) by (auto simp: marks_def no_interrupt_def mark_interrupt_def)
  have "length (filter ?active (ns_timer_list m)) \<le> 128"
    using ids_ok_length [of "ns_timer_list m"] ok(1)
    by (auto simp: timers_ok_def intro: le_trans [OF length_filter_le])
  then have "pending 0 ?m1 \<le> u8_wrap (length (filter ?active (ns_timer_list m)))"
    by (simp add: pending_filter marks1 u8_wrap_id filter_map comp_def)
  then have "spec_fire cb 0 (length (ns_timer_list ?m1)) (countdowns ?m1) = (log, countdowns m') \<and>
             timers_ok m' \<and> no_interrupt m'"
    using nxt(2,3) cb run
    by (intro call_handlers_refines) (simp_all add: ns_timer_interrupt_handler_def Let_def)
  then show ?thesis
    by (simp add: spec_interrupt_def abs len)
qed

section \<open>Registration\<close>

lemma register_refines:
  assumes "timers_ok m" "no_interrupt m" "eventOS_callback_timer_register granted h m = (r, m')"
  shows "spec_register granted h (countdowns m) = (r, countdowns m') \<and> timers_ok m' \<and> no_interrupt m'"
proof -
  have same: "free_timer_id (ns_timer_list m) =
      find (\<lambda>i. i \<notin> cd_id ` set (countdowns m)) (map int [0..<128])"
    by (simp add: free_timer_id_def pointer_is_position position_None countdowns_def image_image)
  show ?thesis
  proof (cases "free_timer_id (ns_timer_list m)")
    case None
    then show ?thesis
      using assms same
      by (simp add: eventOS_callback_timer_register_def spec_register_def)
  next
    case (Some i)
    then have "i \<in> {0..127}" "i \<notin> cd_id ` set (countdowns m)"
      unfolding same by (auto simp: find_Some_iff)
    then have i: "i \<in> {0..127}" "i \<notin> ns_timer_id ` set (ns_timer_list m)"
      by (simp_all add: countdowns_def image_image)
    show ?thesis
    proof (cases granted)
      case True
      let ?t = "\<lparr>ns_timer_id = i, timer_state = NS_TIMER_STOP, timer_slots = 0,
                 remaining_slots = 0, interrupt_handler = h\<rparr>"
      have m': "m' = m\<lparr>ns_timer_list := ns_timer_list m @ [?t]\<rparr>" "r = i"
        using assms(3) Some True by (auto simp: eventOS_callback_timer_register_def)
      have "ids_ok (ns_timer_list m @ [?t])"
        using assms(1) i by (simp add: timers_ok_def ids_ok_def)
      moreover have "timer_fits b d ?t" for b d
        by (simp add: timer_fits_def)
      ultimately have "timers_ok m'" "no_interrupt m'"
        using assms(1,2) by (simp_all add: m' timers_ok_def no_interrupt_def)
      moreover have "countdowns m' = countdowns m @ [\<lparr>cd_id = i, cd_handler = h, cd_slots = 0, cd_left = None\<rparr>]"
        by (simp add: m' countdowns_def) (simp add: countdown_of_def)
      ultimately show ?thesis
        using Some True by (simp add: spec_register_def flip: same) (simp add: m')
    next
      case False
      then show ?thesis
        using assms Some
        by (auto simp: eventOS_callback_timer_register_def spec_register_def split: option.split)
    qed
  qed
qed

lemma unregister_refines:
  assumes "timers_ok m" "no_interrupt m" "eventOS_callback_timer_unregister i m = (r, m')"
  shows "spec_unregister i (countdowns m) = (r, countdowns m') \<and> timers_ok m' \<and> no_interrupt m'"
proof (cases "ns_timer_get_pointer_to_timer_struct i (ns_timer_list m)")
  case None
  then show ?thesis
    using assms by (simp add: eventOS_callback_timer_unregister_def spec_unregister_def countdowns_position)
next
  case (Some k)
  let ?ts = "take k (ns_timer_list m) @ drop (Suc k) (ns_timer_list m)"
  have m': "m' = m\<lparr>ns_timer_list := ?ts\<rparr>" "r = 0"
    using assms(3) Some by (simp_all add: eventOS_callback_timer_unregister_def)
  have sub: "set ?ts \<subseteq> set (ns_timer_list m)"
    by (auto dest: in_set_takeD in_set_dropD)
  have "distinct (map ns_timer_id ?ts)" if "distinct (map ns_timer_id (ns_timer_list m))"
    using that distinct_take [OF that, of k] distinct_drop [OF that, of "Suc k"]
      set_take_disj_set_drop_if_distinct [OF that, of k "Suc k"]
    by (simp add: take_map drop_map)
  moreover have "ns_timer_id ` set ?ts \<subseteq> {0..127}" if "ns_timer_id ` set (ns_timer_list m) \<subseteq> {0..127}"
    using that sub by blast
  ultimately have "ids_ok ?ts"
    using assms(1) by (simp only: timers_ok_def ids_ok_def)
  then have "timers_ok m'" "no_interrupt m'"
    using assms(1,2) sub by (auto simp: m' timers_ok_def no_interrupt_def)
  moreover have "spec_unregister i (countdowns m) = (r, countdowns m')"
    using Some by (simp add: spec_unregister_def countdowns_position m')
      (simp add: countdowns_def take_map drop_map)
  ultimately show ?thesis by simp
qed

section \<open>Every sequence of events\<close>

datatype timer_event =
  Register nat bool | Unregister int | Timer_Call timer_call | Elapse nat | Hal_Interrupt

text \<open>One event: its result, the callbacks it made and the new state.\<close>

fun timer_step ::
  "callbacks \<Rightarrow> timer_event \<Rightarrow> ns_timer_module \<Rightarrow> (int \<times> (int \<times> nat) list) \<times> ns_timer_module" where
  "timer_step cb (Register h granted) m =
     (case eventOS_callback_timer_register granted h m of (r, m') \<Rightarrow> ((r, []), m'))"
| "timer_step cb (Unregister i) m =
     (case eventOS_callback_timer_unregister i m of (r, m') \<Rightarrow> ((r, []), m'))"
| "timer_step cb (Timer_Call (Start_Call i n)) m =
     (case eventOS_callback_timer_start i n m of (r, m') \<Rightarrow> ((r, []), m'))"
| "timer_step cb (Timer_Call (Stop_Call i)) m =
     (case eventOS_callback_timer_stop i m of (r, m') \<Rightarrow> ((r, []), m'))"
| "timer_step cb (Elapse d) m =
     ((0, []), if ns_timer_running m then m\<lparr>hal_slots := hal_slots m - d\<rparr> else m)"
| "timer_step cb Hal_Interrupt m =
     (case ns_timer_interrupt_handler cb m of (log, m') \<Rightarrow> ((0, log), m'))"

fun countdown_step ::
  "callbacks \<Rightarrow> timer_event \<Rightarrow> countdown list \<Rightarrow> (int \<times> (int \<times> nat) list) \<times> countdown list" where
  "countdown_step cb (Register h granted) tab =
     (case spec_register granted h tab of (r, tab') \<Rightarrow> ((r, []), tab'))"
| "countdown_step cb (Unregister i) tab =
     (case spec_unregister i tab of (r, tab') \<Rightarrow> ((r, []), tab'))"
| "countdown_step cb (Timer_Call (Start_Call i n)) tab =
     (case spec_start i n tab of (r, tab') \<Rightarrow> ((r, []), tab'))"
| "countdown_step cb (Timer_Call (Stop_Call i)) tab =
     (case spec_stop i tab of (r, tab') \<Rightarrow> ((r, []), tab'))"
| "countdown_step cb (Elapse d) tab = ((0, []), spec_elapse d tab)"
| "countdown_step cb Hal_Interrupt tab =
     (case spec_interrupt cb tab of (log, tab') \<Rightarrow> ((0, log), tab'))"

fun run_steps :: "('e \<Rightarrow> 's \<Rightarrow> 'o \<times> 's) \<Rightarrow> 'e list \<Rightarrow> 's \<Rightarrow> 'o list \<times> 's" where
  "run_steps step [] s = ([], s)"
| "run_steps step (e # es) s =
     (case step e s of (x, s') \<Rightarrow> (case run_steps step es s' of (xs, s'') \<Rightarrow> (x # xs, s'')))"

text \<open>
  What the environment may do: callers start timers with 1 to 65535 slots, time does not pass
  the end of the hardware timer, and the interrupt comes when its slots are used up.
\<close>

fun admissible :: "timer_event \<Rightarrow> ns_timer_module \<Rightarrow> bool" where
  "admissible (Timer_Call c) m \<longleftrightarrow> call_ok c"
| "admissible (Elapse d) m \<longleftrightarrow> (ns_timer_running m \<longrightarrow> d \<le> hal_slots m)"
| "admissible Hal_Interrupt m \<longleftrightarrow> ns_timer_running m \<and> hal_slots m = 0"
| "admissible (Register h granted) m \<longleftrightarrow> True"
| "admissible (Unregister i) m \<longleftrightarrow> True"

fun admissible_run :: "callbacks \<Rightarrow> timer_event list \<Rightarrow> ns_timer_module \<Rightarrow> bool" where
  "admissible_run cb [] m \<longleftrightarrow> True"
| "admissible_run cb (e # es) m \<longleftrightarrow>
     admissible e m \<and> admissible_run cb es (snd (timer_step cb e m))"

definition callbacks_ok :: "callbacks \<Rightarrow> bool" where
  "callbacks_ok cb \<longleftrightarrow> (\<forall>h i s. \<forall>c \<in> set (cb h i s). call_ok c)"

lemma elapse_refines:
  assumes "timers_ok m" "no_interrupt m" "ns_timer_running m \<longrightarrow> d \<le> hal_slots m"
  defines "m' \<equiv> if ns_timer_running m then m\<lparr>hal_slots := hal_slots m - d\<rparr> else m"
  shows "spec_elapse d (countdowns m) = countdowns m'" "timers_ok m'" "no_interrupt m'"
proof -
  have eq: "(countdown_of h t)\<lparr>cd_left := map_option (\<lambda>n. n - d) (cd_left (countdown_of h t))\<rparr> =
        countdown_of (if b then h - d else h) t"
    if "timer_fits b h t" "timer_state t \<noteq> NS_TIMER_RUN_INTERRUPT" "b \<longrightarrow> d \<le> h" for b h t
    using that by (cases "timer_state t") (auto simp: countdown_of_def timer_fits_def)
  show "spec_elapse d (countdowns m) = countdowns m'"
    using assms(1-3) eq [OF timers_ok_in [OF assms(1)]]
    by (auto simp: spec_elapse_def countdowns_def m'_def no_interrupt_def)
  show "timers_ok m'" "no_interrupt m'"
    using assms(1-3) by (auto simp: timers_ok_def timer_fits_def no_interrupt_def m'_def)
qed

lemma no_interrupt_call:
  assumes "no_interrupt m" "timers_ok m" "call_ok c"
  shows "no_interrupt (exec_call c m)"
  using assms exec_call_refines(4) [OF assms(2,3)]
  by (auto simp: no_interrupt_marks marks_below_def in_set_conv_nth)

lemma timer_step_refines:
  assumes "timers_ok m" "no_interrupt m" "admissible e m" "callbacks_ok cb"
    and step: "timer_step cb e m = (out, m')"
  shows "countdown_step cb e (countdowns m) = (out, countdowns m') \<and> timers_ok m' \<and> no_interrupt m'"
proof (cases e)
  case (Register h granted)
  then show ?thesis
    using step register_refines [OF assms(1,2)] by (auto split: prod.splits)
next
  case (Unregister i)
  then show ?thesis
    using step unregister_refines [OF assms(1,2)] by (auto split: prod.splits)
next
  case (Timer_Call c)
  then show ?thesis
    using step assms(3) start_refines [OF assms(1)] stop_refines [OF assms(1)]
      no_interrupt_call [OF assms(2,1), of c]
    by (cases c) (auto simp: split_beta)
next
  case (Elapse d)
  then show ?thesis
    using step assms(3) elapse_refines [OF assms(1,2), of d] by auto
next
  case Hal_Interrupt
  then show ?thesis
    using step assms interrupt_refines [OF assms(1,2), of cb]
    by (auto simp: callbacks_ok_def split: prod.splits)
qed

lemma run_refines:
  assumes "timers_ok m" "no_interrupt m" "callbacks_ok cb" "admissible_run cb es m"
  shows "run_steps (countdown_step cb) es (countdowns m) =
           (fst (run_steps (timer_step cb) es m), countdowns (snd (run_steps (timer_step cb) es m)))
         \<and> timers_ok (snd (run_steps (timer_step cb) es m))
         \<and> no_interrupt (snd (run_steps (timer_step cb) es m))"
  using assms
proof (induction es arbitrary: m)
  case (Cons e es)
  obtain out m1 where step: "timer_step cb e m = (out, m1)" by (cases "timer_step cb e m")
  have "countdown_step cb e (countdowns m) = (out, countdowns m1) \<and> timers_ok m1 \<and> no_interrupt m1"
    using Cons.prems step by (intro timer_step_refines) simp_all
  then show ?case
    using Cons step by (cases "run_steps (timer_step cb) es m1") force
qed simp

end
