(* ===== verification/Ns_Timer_Deadline.thy ===== *)
theory Ns_Timer_Deadline
  imports Ns_Timer_Sim
begin

text \<open>
  What a user of a callback timer sees: a started timer fires exactly when its slots have elapsed,
  whatever happens to the other timers in between. The facts about the countdown table are proved
  on the specification and carried over by the simulation.
\<close>

section \<open>An entry of the table that nobody touches\<close>

fun call_target :: "timer_call \<Rightarrow> int" where
  "call_target (Start_Call i n) = i"
| "call_target (Stop_Call i) = i"

fun untouched :: "int \<Rightarrow> timer_event \<Rightarrow> bool" where
  "untouched i (Unregister j) \<longleftrightarrow> j \<noteq> i"
| "untouched i (Timer_Call c) \<longleftrightarrow> call_target c \<noteq> i"
| "untouched i (Register h granted) \<longleftrightarrow> True"
| "untouched i (Elapse d) \<longleftrightarrow> True"
| "untouched i Hal_Interrupt \<longleftrightarrow> True"

text \<open>The callbacks of the other timers leave timer i alone.\<close>

definition callbacks_avoid :: "int \<Rightarrow> callbacks \<Rightarrow> bool" where
  "callbacks_avoid i cb \<longleftrightarrow> (\<forall>h j s. j \<noteq> i \<longrightarrow> (\<forall>c \<in> set (cb h j s). call_target c \<noteq> i))"

definition has_left :: "int \<Rightarrow> nat \<Rightarrow> nat \<Rightarrow> countdown list \<Rightarrow> bool" where
  "has_left i s k tab \<longleftrightarrow>
     distinct (map cd_id tab) \<and> (\<exists>c \<in> set tab. cd_id c = i \<and> cd_slots c = s \<and> cd_left c = Some k)"

fun elapsed :: "timer_event list \<Rightarrow> nat" where
  "elapsed [] = 0"
| "elapsed (Elapse d # es) = d + elapsed es"
| "elapsed (e # es) = elapsed es"

definition fired :: "(int \<times> (int \<times> nat) list) list \<Rightarrow> (int \<times> nat) set" where
  "fired outs = (\<Union>out \<in> set outs. set (snd out))"

lemma fired_simps [simp]: "fired [] = {}" "fired (out # outs) = set (snd out) \<union> fired outs"
  by (auto simp: fired_def)

lemma in_set_update: "c \<in> set xs \<Longrightarrow> c \<noteq> xs ! k \<Longrightarrow> c \<in> set (xs[k := y])"
  by (metis in_set_conv_nth length_list_update nth_list_update_neq)

lemma has_left_update:
  assumes "has_left i s k tab" "p < length tab" "cd_id (tab ! p) \<noteq> i" "cd_id c = cd_id (tab ! p)"
  shows "has_left i s k (tab[p := c])"
proof -
  have "map cd_id (tab[p := c]) = map cd_id tab"
    using assms(2,4) by (simp add: map_update list_update_same_conv)
  then show ?thesis
    using assms unfolding has_left_def by (metis in_set_update)
qed

lemma has_left_call:
  assumes "has_left i s k tab" "call_target c \<noteq> i"
  shows "has_left i s k (spec_call c tab)"
proof (cases "position (call_target c) (map cd_id tab)")
  case None
  then show ?thesis
    using assms by (cases c) (simp_all add: spec_start_def spec_stop_def)
next
  case (Some p)
  then have p: "p < length tab" "cd_id (tab ! p) = call_target c"
    using position_SomeD by fastforce+
  obtain c' where "spec_call c tab = tab[p := c']" "cd_id c' = cd_id (tab ! p)"
    using Some by (cases c) (simp_all add: spec_start_def spec_stop_def)
  then show ?thesis
    using has_left_update [OF assms(1) p(1)] p(2) assms(2) by simp
qed

lemma has_left_calls:
  "has_left i s k tab \<Longrightarrow> \<forall>c \<in> set cs. call_target c \<noteq> i \<Longrightarrow> has_left i s k (fold spec_call cs tab)"
  by (induction cs arbitrary: tab) (simp_all add: has_left_call)

lemma length_spec_call [simp]: "length (spec_call c tab) = length tab"
  by (cases c) (simp_all add: spec_start_def spec_stop_def split: option.split)

lemma length_spec_calls [simp]: "length (fold spec_call cs tab) = length tab"
  by (induction cs arbitrary: tab) simp_all

lemma map_cd_id_calls [simp]: "map cd_id (fold spec_call cs tab) = map cd_id tab"
proof -
  have "map cd_id (spec_call c tab) = map cd_id tab" for c tab
    by (cases c)
      (auto simp: spec_start_def spec_stop_def map_update list_update_same_conv
            dest: position_SomeD split: option.split)
  then show ?thesis
    by (induction cs arbitrary: tab) simp_all
qed

section \<open>The interrupt\<close>

lemma has_left_unique:
  assumes "has_left i s k tab" "p < length tab" "cd_id (tab ! p) = i"
  shows "cd_left (tab ! p) = Some k \<and> cd_slots (tab ! p) = s"
  using assms unfolding has_left_def
  by (metis distinct_conv_nth in_set_conv_nth length_map nth_map)

lemma fire_not_due:
  assumes "has_left i s (Suc k) tab" "callbacks_avoid i cb" "p + n \<le> length tab"
    "spec_fire cb p n tab = (log, tab')"
  shows "i \<notin> fst ` set log \<and> has_left i s (Suc k) tab'"
  using assms
proof (induction n arbitrary: p tab log)
  case (Suc n)
  let ?c = "tab ! p"
  have p: "p < length tab" using Suc.prems(3) by simp
  show ?case
  proof (cases "cd_left ?c = Some 0")
    case True
    then have other: "cd_id ?c \<noteq> i"
      using has_left_unique [OF Suc.prems(1) p] by auto
    let ?tab2 = "fold spec_call (cb (cd_handler ?c) (cd_id ?c) (cd_slots ?c)) (tab[p := ?c\<lparr>cd_left := None\<rparr>])"
    have "has_left i s (Suc k) ?tab2"
      using Suc.prems(2) other has_left_update [OF Suc.prems(1) p other]
      by (intro has_left_calls) (auto simp: callbacks_avoid_def)
    moreover obtain log' where "spec_fire cb (Suc p) n ?tab2 = (log', tab')"
      "log = (cd_id ?c, cd_slots ?c) # log'"
      using Suc.prems(4) True by (auto simp: Let_def split: prod.splits)
    ultimately show ?thesis
      using Suc.IH [of ?tab2 "Suc p" log'] Suc.prems(2,3) other by auto
  next
    case False
    then show ?thesis
      using Suc.prems Suc.IH [of tab "Suc p" log] by (simp add: Let_def)
  qed
qed simp

lemma fire_due:
  assumes "has_left i s 0 tab" "callbacks_avoid i cb" "p \<le> q" "q < p + n" "p + n \<le> length tab"
    "cd_id (tab ! q) = i" "spec_fire cb p n tab = (log, tab')"
  shows "(i, s) \<in> set log"
  using assms
proof (induction n arbitrary: p tab log)
  case (Suc n)
  let ?c = "tab ! p"
  have p: "p < length tab" using Suc.prems(5) by simp
  show ?case
  proof (cases "cd_left ?c = Some 0")
    case True
    let ?tab2 = "fold spec_call (cb (cd_handler ?c) (cd_id ?c) (cd_slots ?c)) (tab[p := ?c\<lparr>cd_left := None\<rparr>])"
    obtain log' where rec: "spec_fire cb (Suc p) n ?tab2 = (log', tab')"
      and log: "log = (cd_id ?c, cd_slots ?c) # log'"
      using Suc.prems(7) True by (auto simp: Let_def split: prod.splits)
    show ?thesis
    proof (cases "p = q")
      case True
      then show ?thesis
        using has_left_unique [OF Suc.prems(1) p] Suc.prems(6) log by simp
    next
      case False
      have "distinct (map cd_id tab)" using Suc.prems(1) by (simp add: has_left_def)
      then have other: "cd_id ?c \<noteq> i"
        using nth_eq_iff_index_eq [of "map cd_id tab" p q] False p Suc.prems(4-6) by auto
      have "has_left i s 0 ?tab2"
        using Suc.prems(2) other has_left_update [OF Suc.prems(1) p other]
        by (intro has_left_calls) (auto simp: callbacks_avoid_def)
      moreover have "cd_id (?tab2 ! q) = cd_id (tab ! q)"
      proof -
        have "map cd_id ?tab2 = map cd_id tab"
          using p by (simp add: map_update list_update_same_conv)
        then have "map cd_id ?tab2 ! q = map cd_id tab ! q"
          by (rule arg_cong)
        moreover have "q < length ?tab2" "q < length tab"
          using Suc.prems(4,5) by simp_all
        ultimately show ?thesis by (simp only: nth_map)
      qed
      ultimately show ?thesis
        using Suc.IH [of ?tab2 "Suc p" log'] Suc.prems(2-6) False rec log by simp
    qed
  next
    case False
    then have "p \<noteq> q"
      using has_left_unique [OF Suc.prems(1) p] Suc.prems(6) by auto
    then show ?thesis
      using Suc.prems Suc.IH [of tab "Suc p" log] False by (simp add: Let_def)
  qed
qed simp

section \<open>Sequences of events\<close>

lemma has_left_step:
  assumes "has_left i s k tab" "untouched i e" "callbacks_avoid i cb"
    and "countdown_step cb e tab = (out, tab')"
    and "\<And>d. e = Elapse d \<Longrightarrow> d \<le> k" and "e = Hal_Interrupt \<Longrightarrow> 0 < k"
  shows "i \<notin> fst ` set (snd out) \<and> has_left i s (k - elapsed [e]) tab'"
proof (cases e)
  case (Register h granted)
  then show ?thesis
    using assms(1,4)
    by (auto simp: spec_register_def has_left_def find_Some_iff split: option.splits if_splits)
next
  case (Unregister j)
  show ?thesis
  proof (cases "position j (map cd_id tab)")
    case None
    then show ?thesis
      using Unregister assms(1,4) by (auto simp: spec_unregister_def)
  next
    case (Some p)
    then have p: "p < length tab" "cd_id (tab ! p) = j"
      using position_SomeD by fastforce+
    then have tab: "tab = take p tab @ tab ! p # drop (Suc p) tab"
      by (simp add: id_take_nth_drop)
    have "has_left i s k (take p tab @ drop (Suc p) tab)"
      using assms(1,2) p(2) Unregister
      by (subst (asm) tab) (auto simp: has_left_def simp del: append_take_drop_id)
    then show ?thesis
      using Unregister assms(4) Some by (auto simp: spec_unregister_def)
  qed
next
  case (Timer_Call c)
  then show ?thesis
    using assms(1,2,4) has_left_call [OF assms(1), of c]
    by (cases c) (auto split: prod.splits)
next
  case (Elapse d)
  then show ?thesis
    using assms(1,4) by (fastforce simp: spec_elapse_def has_left_def comp_def)
next
  case Hal_Interrupt
  then obtain k' where k: "k = Suc k'"
    using assms(6) by (cases k) auto
  show ?thesis
    using Hal_Interrupt assms(1,3,4) fire_not_due [of i s k' tab cb 0 "length tab"]
    by (auto simp: k spec_interrupt_def split: prod.splits)
qed

text \<open>The hardware timer runs and is never set beyond the slots that a timer has left.\<close>

lemma hal_never_late:
  assumes "timers_ok m" "no_interrupt m" "has_left i s k (countdowns m)"
  shows "ns_timer_running m \<and> hal_slots m \<le> k"
proof -
  obtain t where t: "t \<in> set (ns_timer_list m)" "cd_left (countdown_of (hal_slots m) t) = Some k"
    using assms(3) by (auto simp: has_left_def countdowns_def)
  then show ?thesis
    using timers_ok_in [OF assms(1) t(1)] assms(2)
    by (auto simp: countdown_of_def timer_fits_def no_interrupt_def split: ns_timer_state_e.splits)
qed

lemma deadline_run:
  assumes "timers_ok m" "no_interrupt m" "callbacks_ok cb" "callbacks_avoid i cb"
    "admissible_run cb es m" "\<forall>e \<in> set es. untouched i e" "has_left i s k (countdowns m)"
    "run_steps (timer_step cb) es m = (outs, m')" "i \<notin> fst ` fired outs"
  shows "elapsed es \<le> k \<and> has_left i s (k - elapsed es) (countdowns m') \<and> timers_ok m' \<and> no_interrupt m'"
  using assms
proof (induction es arbitrary: m k outs)
  case (Cons e es)
  obtain out m1 where step: "timer_step cb e m = (out, m1)" by (cases "timer_step cb e m")
  obtain outs' where rest: "run_steps (timer_step cb) es m1 = (outs', m')" "outs = out # outs'"
    using Cons.prems(8) step by (auto split: prod.splits)
  have ref: "countdown_step cb e (countdowns m) = (out, countdowns m1)" "timers_ok m1" "no_interrupt m1"
    using timer_step_refines [OF Cons.prems(1,2) _ Cons.prems(3) step] Cons.prems(5) by auto
  have late: "ns_timer_running m \<and> hal_slots m \<le> k"
    by (rule hal_never_late) fact+
  have d: "d \<le> k" if "e = Elapse d" for d
    using that late Cons.prems(5) by auto
  have pos: "0 < k" if "e = Hal_Interrupt"
  proof (rule ccontr)
    assume "\<not> 0 < k"
    then have due: "has_left i s 0 (countdowns m)" using Cons.prems(7) by simp
    then obtain q where "q < length (countdowns m)" "cd_id (countdowns m ! q) = i"
      by (auto simp: has_left_def in_set_conv_nth)
    then have "(i, s) \<in> set (snd out)"
      using fire_due [OF due Cons.prems(4), of 0 q "length (countdowns m)"] ref(1) that
      by (auto simp: spec_interrupt_def split: prod.splits)
    then show False
      using Cons.prems(9) rest(2) by force
  qed
  have "has_left i s (k - elapsed [e]) (countdowns m1)"
    using has_left_step [OF Cons.prems(7) _ Cons.prems(4) ref(1) d pos] Cons.prems(6) by simp
  moreover have "elapsed (e # es) = elapsed [e] + elapsed es" "elapsed [e] \<le> k"
    using d by (cases e; simp)+
  moreover have "elapsed es \<le> k - elapsed [e] \<and>
      has_left i s (k - elapsed [e] - elapsed es) (countdowns m') \<and> timers_ok m' \<and> no_interrupt m'"
    by (rule Cons.IH [OF ref(2,3) Cons.prems(3,4)])
      (use Cons.prems(5,6,9) step rest calculation(1) in auto)
  ultimately show ?case by auto
qed simp

lemma deadline_not_early:
  assumes "timers_ok m" "no_interrupt m" "callbacks_ok cb" "callbacks_avoid i cb"
    "admissible_run cb es m" "\<forall>e \<in> set es. untouched i e" "has_left i s k (countdowns m)"
    "run_steps (timer_step cb) es m = (outs, m')" "elapsed es < k"
  shows "i \<notin> fst ` fired outs"
  using assms
proof (induction es arbitrary: m k outs)
  case (Cons e es)
  obtain out m1 where step: "timer_step cb e m = (out, m1)" by (cases "timer_step cb e m")
  obtain outs' where rest: "run_steps (timer_step cb) es m1 = (outs', m')" "outs = out # outs'"
    using Cons.prems(8) step by (auto split: prod.splits)
  have ref: "countdown_step cb e (countdowns m) = (out, countdowns m1)" "timers_ok m1" "no_interrupt m1"
    using timer_step_refines [OF Cons.prems(1,2) _ Cons.prems(3) step] Cons.prems(5) by auto
  have e: "elapsed (e # es) = elapsed [e] + elapsed es"
    by (cases e) simp_all
  have one: "i \<notin> fst ` set (snd out) \<and> has_left i s (k - elapsed [e]) (countdowns m1)"
    using Cons.prems(6,9) by (intro has_left_step [OF Cons.prems(7) _ Cons.prems(4) ref(1)]) auto
  moreover have "i \<notin> fst ` fired outs'"
    by (rule Cons.IH [OF ref(2,3) Cons.prems(3,4)])
      (use Cons.prems(5,6,9) step rest one e in auto)
  ultimately show ?case
    using rest(2) by auto
qed simp

section \<open>Properties\<close>

definition no_timers :: ns_timer_module where
  "no_timers = \<lparr>ns_timer_list = [], ns_timer_running = False, hal_slots = 0\<rparr>"

lemma no_timers_ok [simp]: "timers_ok no_timers" "no_interrupt no_timers" "countdowns no_timers = []"
  by (simp_all add: no_timers_def timers_ok_def no_interrupt_def countdowns_def ids_ok_def)

text \<open>
  Property C18. The callback timers refine independent countdowns: from the start of the module, in
  every sequence of registrations, starts, stops, elapsed slots and hardware interrupts, the
  results, the callbacks and their order are those of a table of countdowns in which no timer
  knows of the others, although the code runs them all on one hardware timer. Timers are started with 1 to 65535
  slots, not with 0, by the callbacks too; time passes up to the next hardware interrupt, which comes when it is due.
\<close>

theorem callback_timers_are_countdowns:
  assumes "callbacks_ok cb" "admissible_run cb es no_timers"
  shows "fst (run_steps (timer_step cb) es no_timers) = fst (run_steps (countdown_step cb) es [])
       \<and> countdowns (snd (run_steps (timer_step cb) es no_timers)) =
         snd (run_steps (countdown_step cb) es [])"
  using run_refines [OF no_timers_ok(1,2) assms] by simp_all

text \<open>
  Property C21. A callback timer fires exactly on time: when timer i is started with n slots and
  nobody starts, stops or unregisters it again, it does not fire before n slots have elapsed, time
  cannot pass that point without it, and once n slots have elapsed the hardware interrupt is due
  and calls its callback with n.
\<close>

theorem callback_timer_fires_on_time:
  assumes ok: "timers_ok m" "no_interrupt m" and cb: "callbacks_ok cb" "callbacks_avoid i cb"
    and n: "0 < n" "n \<le> 65535" and start: "eventOS_callback_timer_start i n m = (0, m1)"
    and run: "admissible_run cb es m1" "\<forall>e \<in> set es. untouched i e"
      "run_steps (timer_step cb) es m1 = (outs, m2)"
  shows "(elapsed es < n \<longrightarrow> i \<notin> fst ` fired outs) \<and>
         (i \<notin> fst ` fired outs \<longrightarrow>
            elapsed es \<le> n \<and>
            (elapsed es = n \<longrightarrow>
               ns_timer_running m2 \<and> hal_slots m2 = 0 \<and>
               (i, n) \<in> set (fst (ns_timer_interrupt_handler cb m2))))"
proof -
  have ref: "spec_start i n (countdowns m) = (0, countdowns m1)" and ok1: "timers_ok m1"
    using start_refines [OF ok(1) n, of i] start by simp_all
  have quiet1: "no_interrupt m1"
    using no_interrupt_call [OF ok(2,1), of "Start_Call i n"] n start by simp
  obtain p where p: "p < length (countdowns m)"
    and m1: "countdowns m1 = (countdowns m)[p := (countdowns m ! p)\<lparr>cd_slots := n, cd_left := Some n\<rparr>]"
    and i: "cd_id (countdowns m ! p) = i"
    using ref position_SomeD [of i "map cd_id (countdowns m)"]
    by (auto simp: spec_start_def split: option.splits)
  have "distinct (map cd_id (countdowns m1))"
    using ok1 by (simp add: timers_ok_def ids_ok_def countdowns_def)
  then have left: "has_left i n n (countdowns m1)"
    using p i unfolding has_left_def m1
    by (auto intro!: bexI [OF _ set_update_memI])
  have "elapsed es \<le> n \<and>
      (elapsed es = n \<longrightarrow> ns_timer_running m2 \<and> hal_slots m2 = 0 \<and>
         (i, n) \<in> set (fst (ns_timer_interrupt_handler cb m2)))" if quiet: "i \<notin> fst ` fired outs"
  proof -
    note run' = deadline_run [OF ok1 quiet1 cb run(1,2) left run(3) quiet]
    have "ns_timer_running m2 \<and> hal_slots m2 = 0 \<and>
          (i, n) \<in> set (fst (ns_timer_interrupt_handler cb m2))" if "elapsed es = n"
    proof -
      have due: "has_left i n 0 (countdowns m2)" and ok2: "timers_ok m2" "no_interrupt m2"
        using run' that by simp_all
      have hal: "ns_timer_running m2" "hal_slots m2 = 0"
        using hal_never_late [OF ok2 due] by simp_all
      obtain log m3 where h: "ns_timer_interrupt_handler cb m2 = (log, m3)"
        by (cases "ns_timer_interrupt_handler cb m2")
      have "spec_interrupt cb (countdowns m2) = (log, countdowns m3)"
        using interrupt_refines [OF ok2 hal _ h] cb(1) by (auto simp: callbacks_ok_def)
      moreover obtain q where "q < length (countdowns m2)" "cd_id (countdowns m2 ! q) = i"
        using due by (auto simp: has_left_def in_set_conv_nth)
      ultimately have "(i, n) \<in> set log"
        using fire_due [OF due cb(2), of 0 q "length (countdowns m2)"] by (auto simp: spec_interrupt_def)
      then show ?thesis using hal h by simp
    qed
    then show ?thesis using run' by simp
  qed
  then show ?thesis
    using deadline_not_early [OF ok1 quiet1 cb run(1,2) left run(3)] by blast
qed

section \<open>Witnesses\<close>

text \<open>Two timers; the callback of the second one starts it again.\<close>

definition periodic :: callbacks where
  "periodic h i s = (if h = 7 then [Start_Call 1 30] else [])"

definition sample_events :: "timer_event list" where
  "sample_events =
     [Register 5 True, Register 7 True, Timer_Call (Start_Call 0 100), Timer_Call (Start_Call 1 30),
      Elapse 30, Hal_Interrupt, Elapse 20, Timer_Call (Stop_Call 0)]"

lemma periodic_ok [simp]: "callbacks_ok periodic"
  by (simp add: callbacks_ok_def periodic_def)

lemmas timer_eval =
  periodic_def sample_events_def no_timers_def free_timer_id_def upt_rec
  eventOS_callback_timer_register_def eventOS_callback_timer_start_def
  eventOS_callback_timer_stop_def ns_timer_get_next_running_to_def ns_timer_start_pl_timer_def
  ns_timer_interrupt_handler_def exec_calls_def mark_interrupt_def push_back_def add_remaining_def
  promote_hold_def release_hold_def is_hold_def u8_wrap_def u16_wrap_def Let_def

lemma callback_timers_are_countdowns_witness:
  "admissible_run periodic sample_events no_timers \<and>
   fst (run_steps (timer_step periodic) sample_events no_timers)
   = fst (run_steps (countdown_step periodic) sample_events [])"
proof -
  have "admissible_run periodic sample_events no_timers"
    by (simp add: timer_eval)
  then show ?thesis
    using callback_timers_are_countdowns [of periodic sample_events] by simp
qed

definition sample_timers :: ns_timer_module where
  "sample_timers =
     \<lparr>ns_timer_list =
        [\<lparr>ns_timer_id = 0, timer_state = NS_TIMER_STOP, timer_slots = 0, remaining_slots = 0,
          interrupt_handler = 5\<rparr>,
         \<lparr>ns_timer_id = 1, timer_state = NS_TIMER_ACTIVE, timer_slots = 30, remaining_slots = 30,
          interrupt_handler = 7\<rparr>],
      ns_timer_running = True, hal_slots = 30\<rparr>"

definition sample_wait :: "timer_event list" where
  "sample_wait =
     [Elapse 30, Hal_Interrupt, Elapse 30, Hal_Interrupt, Elapse 30, Hal_Interrupt, Elapse 10]"

lemma callback_timer_fires_on_time_witness:
  "\<exists>m1 outs m2. eventOS_callback_timer_start 0 100 sample_timers = (0, m1) \<and>
     run_steps (timer_step periodic) sample_wait m1 = (outs, m2) \<and> elapsed sample_wait = 100 \<and>
     (0, 100) \<in> set (fst (ns_timer_interrupt_handler periodic m2))"
proof -
  let ?m1 = "snd (eventOS_callback_timer_start 0 100 sample_timers)"
  have ok: "timers_ok sample_timers" "no_interrupt sample_timers"
    by (simp_all add: sample_timers_def timers_ok_def ids_ok_def timer_fits_def no_interrupt_def)
  have avoid: "callbacks_avoid 0 periodic"
    by (simp add: callbacks_avoid_def periodic_def)
  have start: "eventOS_callback_timer_start 0 100 sample_timers = (0, ?m1)"
    by (simp add: sample_timers_def timer_eval)
  have run: "admissible_run periodic sample_wait ?m1" "\<forall>e \<in> set sample_wait. untouched 0 e"
    by (simp_all add: sample_wait_def sample_timers_def timer_eval)
  obtain outs m2 where outs: "run_steps (timer_step periodic) sample_wait ?m1 = (outs, m2)"
    by (cases "run_steps (timer_step periodic) sample_wait ?m1")
  then have "0 \<notin> fst ` fired outs"
    by (auto simp: sample_wait_def sample_timers_def timer_eval)
  moreover have "elapsed sample_wait = 100"
    by (simp add: sample_wait_def)
  ultimately show ?thesis
    using callback_timer_fires_on_time
        [OF ok periodic_ok avoid _ _ start run outs] start outs by auto
qed

end
