(* ===== verification/Event_State.thy ===== *)
theory Event_State
  imports Pelion_Prelude Ns_List_Spec "HOL-Library.Monad_Syntax"
begin

text \<open>
  The data of the event loop (\<open>eventOS_event.h\<close>, \<open>event.c\<close>, \<open>timer_sys.h\<close>, \<open>system_timer.c\<close>). Events
  live in an explicit store: a pointer to an \<open>arm_event_storage_t\<close> is a number, and looking up a
  number that is not in the store is a use of memory that is not an event (None). A system timer is
  an event storage with two more fields; \<open>el_timers\<close> has these fields for the addresses that are
  timers, so \<open>NS_CONTAINER_OF\<close> of any other event is None too. The four intrusive lists share one
  link field per event, so linking an event that is linked already, or unlinking one that is not
  in the list, would corrupt a list and is None as well.
\<close>

section \<open>Events\<close>

datatype arm_library_event_priority_e =
  ARM_LIB_HIGH_PRIORITY_EVENT | ARM_LIB_MED_PRIORITY_EVENT | ARM_LIB_LOW_PRIORITY_EVENT

fun priority_value :: "arm_library_event_priority_e \<Rightarrow> nat" where
  "priority_value ARM_LIB_HIGH_PRIORITY_EVENT = 0"
| "priority_value ARM_LIB_MED_PRIORITY_EVENT = 1"
| "priority_value ARM_LIB_LOW_PRIORITY_EVENT = 2"

lemma priority_value_inject [simp]: "priority_value p = priority_value q \<longleftrightarrow> p = q"
  by (cases p; cases q) simp_all

text \<open>The comparison of the enumerators.\<close>

instantiation arm_library_event_priority_e :: linorder
begin

definition less_eq_arm_library_event_priority_e ::
  "arm_library_event_priority_e \<Rightarrow> arm_library_event_priority_e \<Rightarrow> bool" where
  "less_eq_arm_library_event_priority_e p q \<longleftrightarrow> priority_value p \<le> priority_value q"

definition less_arm_library_event_priority_e ::
  "arm_library_event_priority_e \<Rightarrow> arm_library_event_priority_e \<Rightarrow> bool" where
  "less_arm_library_event_priority_e p q \<longleftrightarrow> priority_value p < priority_value q"

instance
  by standard
    (auto simp: less_eq_arm_library_event_priority_e_def less_arm_library_event_priority_e_def)

end

record arm_event =
  ev_receiver :: int
  ev_sender :: int
  ev_type :: nat
  ev_id :: nat
  ev_data_ptr :: "nat option"
  ev_priority :: arm_library_event_priority_e
  ev_data :: nat

datatype event_allocator =
  ARM_LIB_EVENT_STARTUP_POOL | ARM_LIB_EVENT_DYNAMIC | ARM_LIB_EVENT_USER | ARM_LIB_EVENT_TIMER

datatype event_state = ARM_LIB_EVENT_UNQUEUED | ARM_LIB_EVENT_QUEUED | ARM_LIB_EVENT_RUNNING

record event_storage =
  es_data :: arm_event
  es_allocator :: event_allocator
  es_state :: event_state

record sys_timer =
  launch_time :: "32 word"
  period :: "32 word"

section \<open>The state of the loop\<close>

record event_loop =
  tasklet_list :: "(int \<times> nat) list"
  event_queue_active :: "nat list"
  free_event_entry :: "nat list"
  system_timer_free :: "nat list"
  system_timer_list :: "nat list"
  el_events :: "nat \<Rightarrow> event_storage option"
  el_timers :: "nat \<Rightarrow> sys_timer option"
  timer_sys_ticks :: "32 word"
  curr_tasklet :: int

definition linked :: "event_loop \<Rightarrow> nat list" where
  "linked s = event_queue_active s @ free_event_entry s @ system_timer_free s @ system_timer_list s"

definition guard :: "bool \<Rightarrow> unit option" where
  "guard b = (if b then Some () else None)"

definition upd_event :: "nat \<Rightarrow> event_storage \<Rightarrow> event_loop \<Rightarrow> event_loop" where
  "upd_event a e s = s\<lparr>el_events := (el_events s)(a \<mapsto> e)\<rparr>"

definition upd_timer :: "nat \<Rightarrow> sys_timer \<Rightarrow> event_loop \<Rightarrow> event_loop" where
  "upd_timer a t s = s\<lparr>el_timers := (el_timers s)(a \<mapsto> t)\<rparr>"

text \<open>The comparisons of tick values, which survive the wrap-around of the tick counter.\<close>

definition ticks_before :: "32 word \<Rightarrow> 32 word \<Rightarrow> bool" where
  "ticks_before a b \<longleftrightarrow> sint (a - b) < 0"

definition ticks_before_or_at :: "32 word \<Rightarrow> 32 word \<Rightarrow> bool" where
  "ticks_before_or_at a b \<longleftrightarrow> sint (a - b) \<le> 0"

lemma guard_simps [simp]: "guard True = Some ()" "guard False = None"
  "guard b = Some u \<longleftrightarrow> b" "guard b = None \<longleftrightarrow> \<not> b"
  by (auto simp: guard_def)

lemma upd_event_simps [simp]:
  "tasklet_list (upd_event a e s) = tasklet_list s"
  "event_queue_active (upd_event a e s) = event_queue_active s"
  "free_event_entry (upd_event a e s) = free_event_entry s"
  "system_timer_free (upd_event a e s) = system_timer_free s"
  "system_timer_list (upd_event a e s) = system_timer_list s"
  "el_events (upd_event a e s) = (el_events s)(a \<mapsto> e)"
  "el_timers (upd_event a e s) = el_timers s"
  "timer_sys_ticks (upd_event a e s) = timer_sys_ticks s"
  "curr_tasklet (upd_event a e s) = curr_tasklet s"
  "linked (upd_event a e s) = linked s"
  by (simp_all add: upd_event_def linked_def)

lemma upd_timer_simps [simp]:
  "tasklet_list (upd_timer a t s) = tasklet_list s"
  "event_queue_active (upd_timer a t s) = event_queue_active s"
  "free_event_entry (upd_timer a t s) = free_event_entry s"
  "system_timer_free (upd_timer a t s) = system_timer_free s"
  "system_timer_list (upd_timer a t s) = system_timer_list s"
  "el_events (upd_timer a t s) = el_events s"
  "el_timers (upd_timer a t s) = (el_timers s)(a \<mapsto> t)"
  "timer_sys_ticks (upd_timer a t s) = timer_sys_ticks s"
  "curr_tasklet (upd_timer a t s) = curr_tasklet s"
  "linked (upd_timer a t s) = linked s"
  by (simp_all add: upd_timer_def linked_def)

end
