(* ===== verification/Ordered_Queue.thy ===== *)
theory Ordered_Queue
  imports Main
begin

text \<open>
  The interface of a queue that is kept in the order of a key, with entries of equal key in the
  order of their insertion. The event queue (keyed by priority) and the list of pending timers
  (keyed by the ticks left) of the event loop both implement it with the same loop: walk to the
  first entry that has to come later and link the new entry before it.
\<close>

section \<open>The loop\<close>

text \<open>The test of an entry is None when it dereferences a dangling pointer.\<close>

fun link_before_first :: "('a \<Rightarrow> bool option) \<Rightarrow> 'a \<Rightarrow> 'a list \<Rightarrow> 'a list option" where
  "link_before_first p x [] = Some [x]"
| "link_before_first p x (y # ys) =
     (case p y of
        None \<Rightarrow> None
      | Some True \<Rightarrow> Some (x # y # ys)
      | Some False \<Rightarrow> map_option ((#) y) (link_before_first p x ys))"

lemma link_before_first_total:
  "(\<And>y. y \<in> set ys \<Longrightarrow> p y = Some (q y)) \<Longrightarrow>
   link_before_first p x ys = Some (takeWhile (\<lambda>y. \<not> q y) ys @ x # dropWhile (\<lambda>y. \<not> q y) ys)"
  by (induction ys) auto

section \<open>The interface\<close>

definition in_order :: "('a \<Rightarrow> nat) \<Rightarrow> 'a list \<Rightarrow> bool" where
  "in_order key xs \<longleftrightarrow> sorted (map key xs)"

locale ordered_queue =
  fixes valid :: "'a \<Rightarrow> bool"
    and key :: "'a \<Rightarrow> nat"
    and enqueue :: "'a \<Rightarrow> 'a list \<Rightarrow> 'a list option"
  assumes enqueue_place:
    "valid x \<Longrightarrow> (\<And>y. y \<in> set ys \<Longrightarrow> valid y) \<Longrightarrow>
     enqueue x ys = Some (takeWhile (\<lambda>y. key y \<le> key x) ys @ x # dropWhile (\<lambda>y. key y \<le> key x) ys)"
begin

lemma enqueue_total:
  assumes "valid x" "\<forall>y \<in> set ys. valid y"
  obtains zs where "enqueue x ys = Some zs"
  using enqueue_place assms by blast

lemma enqueue_split:
  assumes "valid x" "\<forall>y \<in> set ys. valid y" "enqueue x ys = Some zs"
  obtains as bs where "ys = as @ bs" "zs = as @ x # bs"
    "\<forall>y \<in> set as. key y \<le> key x" "bs = [] \<or> key x < key (hd bs)"
proof -
  let ?q = "\<lambda>y. key y \<le> key x"
  have "ys = takeWhile ?q ys @ dropWhile ?q ys" by simp
  moreover have "zs = takeWhile ?q ys @ x # dropWhile ?q ys"
    using enqueue_place [of x ys] assms by auto
  moreover have "\<forall>y \<in> set (takeWhile ?q ys). key y \<le> key x"
    by (auto dest: set_takeWhileD)
  moreover have "dropWhile ?q ys = [] \<or> key x < key (hd (dropWhile ?q ys))"
    using hd_dropWhile [of ?q ys] by fastforce
  ultimately show ?thesis by (rule that)
qed

lemma enqueue_contents:
  assumes "valid x" "\<forall>y \<in> set ys. valid y" "enqueue x ys = Some zs"
  shows "set zs = insert x (set ys)" "length zs = Suc (length ys)"
    "x \<notin> set ys \<Longrightarrow> distinct ys \<Longrightarrow> distinct zs"
  by (rule enqueue_split [OF assms]; force)+

lemma enqueue_sorted_split:
  assumes "valid x" "\<forall>y \<in> set ys. valid y" "enqueue x ys = Some zs" "in_order key ys"
  obtains as bs where "ys = as @ bs" "zs = as @ x # bs"
    "\<forall>y \<in> set as. key y \<le> key x" "\<forall>y \<in> set bs. key x < key y"
proof -
  obtain as bs where split: "ys = as @ bs" "zs = as @ x # bs"
    "\<forall>y \<in> set as. key y \<le> key x" "bs = [] \<or> key x < key (hd bs)"
    by (rule enqueue_split [OF assms(1-3)])
  have "\<forall>y \<in> set bs. key x < key y"
    using split(4) assms(4) by (cases bs) (auto simp: in_order_def split(1) sorted_append)
  then show ?thesis using split(1-3) that by blast
qed

lemma enqueue_in_order:
  assumes "valid x" "\<forall>y \<in> set ys. valid y" "enqueue x ys = Some zs" "in_order key ys"
  shows "in_order key zs"
  by (rule enqueue_sorted_split [OF assms])
    (use assms(4) in \<open>auto simp: in_order_def sorted_append intro: less_imp_le\<close>)

text \<open>Entries of the same key leave in the order they came.\<close>

lemma enqueue_fifo:
  assumes "valid x" "\<forall>y \<in> set ys. valid y" "enqueue x ys = Some zs" "in_order key ys"
  shows "filter (\<lambda>y. key y = k) zs =
         filter (\<lambda>y. key y = k) ys @ (if key x = k then [x] else [])"
proof (rule enqueue_sorted_split [OF assms])
  fix as bs
  assume split: "ys = as @ bs" "zs = as @ x # bs" "\<forall>y \<in> set bs. key x < key y"
  have "key x = k \<Longrightarrow> filter (\<lambda>y. key y = k) bs = []"
    using split(3) by (auto simp: filter_empty_conv)
  then show ?thesis
    by (auto simp: split(1,2))
qed

end

end
