(* ===== verification/Event_Core.thy ===== *)
theory Event_Core
  imports Event_State Ordered_Queue
begin

text \<open>
  The operations of \<open>source/event.c\<close> and \<open>source/system_timer.c\<close>. The outer option is None when
  the code would use memory that is not an event or corrupt a list. What an allocation returns is
  an argument: None, or the address with the content the memory happens to have. A critical
  section makes each operation atomic; the scheduler signal has no effect on this state.
\<close>

type_synonym new_event = "(nat \<times> event_storage) option"
type_synonym new_timer = "(nat \<times> event_storage \<times> sys_timer) option"

section \<open>Tasklets\<close>

definition tasklet_index :: "int \<Rightarrow> nat" where
  "tasklet_index receiver = nat (receiver mod 256)"

text \<open>\<open>event_tasklet_handler_get\<close>: an \<open>int8_t\<close> id compared with a \<open>uint8_t\<close> argument.\<close>

definition event_tasklet_handler_get :: "nat \<Rightarrow> event_loop \<Rightarrow> (int \<times> nat) option" where
  "event_tasklet_handler_get tasklet_id s = find (\<lambda>t. fst t = int tasklet_id) (tasklet_list s)"

definition event_tasklet_handler_id_valid :: "nat \<Rightarrow> event_loop \<Rightarrow> bool" where
  "event_tasklet_handler_id_valid tasklet_id s \<longleftrightarrow> event_tasklet_handler_get tasklet_id s \<noteq> None"

definition tasklet_get_free_id :: "event_loop \<Rightarrow> int" where
  "tasklet_get_free_id s =
     (case find (\<lambda>i. event_tasklet_handler_get i s = None) [0..<128] of
        None \<Rightarrow> -1 | Some i \<Rightarrow> int i)"

section \<open>The event queue\<close>

text \<open>The test of the loop of \<open>event_core_write\<close>.\<close>

definition lower_priority :: "event_loop \<Rightarrow> nat \<Rightarrow> nat \<Rightarrow> bool option" where
  "lower_priority s a t =
     do { e \<leftarrow> el_events s a; f \<leftarrow> el_events s t;
          Some (ev_priority (es_data f) > ev_priority (es_data e)) }"

definition event_core_write :: "nat \<Rightarrow> event_loop \<Rightarrow> event_loop option" where
  "event_core_write a s =
     do { e \<leftarrow> el_events s a;
          guard (a \<notin> set (linked s));
          queue \<leftarrow> link_before_first (lower_priority s a) a (event_queue_active s);
          Some (upd_event a (e\<lparr>es_state := ARM_LIB_EVENT_QUEUED\<rparr>) (s\<lparr>event_queue_active := queue\<rparr>)) }"

definition event_core_read :: "event_loop \<Rightarrow> (nat option \<times> event_loop) option" where
  "event_core_read s =
     (case list_first (event_queue_active s) of
        None \<Rightarrow> Some (None, s)
      | Some a \<Rightarrow>
          do { e \<leftarrow> el_events s a;
               Some (Some a, upd_event a (e\<lparr>es_state := ARM_LIB_EVENT_RUNNING\<rparr>)
                      (s\<lparr>event_queue_active := list_remove (event_queue_active s) a\<rparr>)) })"

text \<open>\<open>event_dynamically_allocate\<close> sets the allocator of a new event.\<close>

definition event_dynamically_allocate :: "new_event \<Rightarrow> event_loop \<Rightarrow> nat option \<times> event_loop" where
  "event_dynamically_allocate alloc s =
     (case alloc of
        None \<Rightarrow> (None, s)
      | Some (a, e) \<Rightarrow> (Some a, upd_event a (e\<lparr>es_allocator := ARM_LIB_EVENT_DYNAMIC\<rparr>) s))"

definition event_core_get :: "new_event \<Rightarrow> event_loop \<Rightarrow> (nat option \<times> event_loop) option" where
  "event_core_get alloc s =
     (case (case list_first (free_event_entry s) of
              Some a \<Rightarrow> (Some a, s\<lparr>free_event_entry := list_remove (free_event_entry s) a\<rparr>)
            | None \<Rightarrow> event_dynamically_allocate alloc s) of
        (None, s1) \<Rightarrow> Some (None, s1)
      | (Some a, s1) \<Rightarrow>
          do { e \<leftarrow> el_events s1 a;
               Some (Some a, upd_event a
                 (e\<lparr>es_data := (es_data e)\<lparr>ev_data_ptr := None,
                                         ev_priority := ARM_LIB_LOW_PRIORITY_EVENT\<rparr>\<rparr>) s1) })"

definition eventOS_event_send :: "new_event \<Rightarrow> arm_event \<Rightarrow> event_loop \<Rightarrow> (int \<times> event_loop) option" where
  "eventOS_event_send alloc event s =
     (if event_tasklet_handler_get (tasklet_index (ev_receiver event)) s = None then Some (-1, s)
      else do { (a', s1) \<leftarrow> event_core_get alloc s;
        (case a' of
           None \<Rightarrow> Some (-1, s1)
         | Some a \<Rightarrow>
             do { e \<leftarrow> el_events s1 a;
                  s2 \<leftarrow> event_core_write a (upd_event a (e\<lparr>es_data := event\<rparr>) s1);
                  Some (0, s2) }) })"

text \<open>\<open>granted\<close> is the outcome of the allocation of the tasklet.\<close>

definition eventOS_event_handler_create ::
  "bool \<Rightarrow> new_event \<Rightarrow> nat \<Rightarrow> nat \<Rightarrow> event_loop \<Rightarrow> (int \<times> event_loop) option" where
  "eventOS_event_handler_create granted alloc handler_func_ptr init_event_type s =
     (if handler_func_ptr \<in> snd ` set (tasklet_list s) then Some (-1, s)
      else if \<not> granted then Some (-2, s)
      else do { (a', s1) \<leftarrow> event_core_get alloc s;
        (case a' of
           None \<Rightarrow> Some (-2, s1)
         | Some a \<Rightarrow>
             let i = tasklet_get_free_id s1;
                 s2 = s1\<lparr>tasklet_list := list_add_to_end (tasklet_list s1) (i, handler_func_ptr)\<rparr> in
             do { e \<leftarrow> el_events s2 a;
                  s3 \<leftarrow> event_core_write a (upd_event a
                    (e\<lparr>es_data := (es_data e)\<lparr>ev_receiver := i, ev_sender := 0,
                                            ev_type := init_event_type, ev_data := 0\<rparr>\<rparr>) s2);
                  Some (i, s3) }) })"

definition send_allocated :: "event_allocator \<Rightarrow> nat \<Rightarrow> event_loop \<Rightarrow> event_loop option" where
  "send_allocated allocator a s =
     do { e \<leftarrow> el_events s a; event_core_write a (upd_event a (e\<lparr>es_allocator := allocator\<rparr>) s) }"

definition eventOS_event_send_user_allocated :: "nat \<Rightarrow> event_loop \<Rightarrow> event_loop option" where
  "eventOS_event_send_user_allocated = send_allocated ARM_LIB_EVENT_USER"

definition eventOS_event_send_timer_allocated :: "nat \<Rightarrow> event_loop \<Rightarrow> event_loop option" where
  "eventOS_event_send_timer_allocated = send_allocated ARM_LIB_EVENT_TIMER"

definition eventOS_event_cancel_critical :: "nat \<Rightarrow> event_loop \<Rightarrow> event_loop option" where
  "eventOS_event_cancel_critical a s =
     do { guard (a \<in> set (event_queue_active s));
          Some (s\<lparr>event_queue_active := list_remove (event_queue_active s) a\<rparr>) }"

text \<open>The first queued event with a receiver and an id; both are compared as in the code.\<close>

fun find_event :: "(nat \<Rightarrow> event_storage option) \<Rightarrow> int \<Rightarrow> nat \<Rightarrow> nat list \<Rightarrow> nat option option" where
  "find_event events receiver i [] = Some None"
| "find_event events receiver i (a # as) =
     (case events a of
        None \<Rightarrow> None
      | Some e \<Rightarrow>
          if ev_receiver (es_data e) = receiver \<and> ev_id (es_data e) = i then Some (Some a)
          else find_event events receiver i as)"

definition eventOS_event_find_by_id_critical :: "nat \<Rightarrow> nat \<Rightarrow> event_loop \<Rightarrow> nat option option" where
  "eventOS_event_find_by_id_critical tasklet_id i s =
     find_event (el_events s) (int tasklet_id) i (event_queue_active s)"

section \<open>System timers\<close>

definition timer_struct_get :: "new_timer \<Rightarrow> event_loop \<Rightarrow> nat option \<times> event_loop" where
  "timer_struct_get alloc s =
     (case list_first (system_timer_free s) of
        Some a \<Rightarrow> (Some a, s\<lparr>system_timer_free := list_remove (system_timer_free s) a\<rparr>)
      | None \<Rightarrow>
          (case alloc of
             None \<Rightarrow> (None, s)
           | Some (a, e, t) \<Rightarrow> (Some a, upd_timer a t (upd_event a e s))))"

definition launches_later :: "event_loop \<Rightarrow> nat \<Rightarrow> nat \<Rightarrow> bool option" where
  "launches_later s a t =
     do { x \<leftarrow> el_timers s a; y \<leftarrow> el_timers s t; Some (ticks_before (launch_time x) (launch_time y)) }"

definition timer_sys_add :: "nat \<Rightarrow> event_loop \<Rightarrow> event_loop option" where
  "timer_sys_add a s =
     do { guard (a \<notin> set (linked s));
          timers \<leftarrow> link_before_first (launches_later s a) a (system_timer_list s);
          Some (s\<lparr>system_timer_list := timers\<rparr>) }"

definition timer_sys_event_free :: "nat \<Rightarrow> event_loop \<Rightarrow> event_loop option" where
  "timer_sys_event_free a s =
     do { t \<leftarrow> el_timers s a;
          if period t = 0 then
            do { guard (a \<notin> set (linked s));
                 Some (s\<lparr>system_timer_free := list_add_to_start (system_timer_free s) a\<rparr>) }
          else
            let t' = t\<lparr>launch_time := launch_time t + period t\<rparr>; s' = upd_timer a t' s in
            if ticks_before_or_at (launch_time t') (timer_sys_ticks s')
            then eventOS_event_send_timer_allocated a s'
            else timer_sys_add a s' }"

definition timer_sys_event_cancel_critical :: "nat \<Rightarrow> event_loop \<Rightarrow> event_loop option" where
  "timer_sys_event_cancel_critical a s =
     do { t \<leftarrow> el_timers s a;
          e \<leftarrow> el_events s a;
          let s' = upd_timer a (t\<lparr>period := 0\<rparr>) s in
          if es_state e = ARM_LIB_EVENT_UNQUEUED then
            do { guard (a \<in> set (system_timer_list s'));
                 Some (s'\<lparr>system_timer_list := list_remove (system_timer_list s') a\<rparr>) }
          else Some s' }"

definition eventOS_event_timer_request_at_locked ::
  "new_timer \<Rightarrow> arm_event \<Rightarrow> 32 word \<Rightarrow> 32 word \<Rightarrow> event_loop \<Rightarrow> (nat option \<times> event_loop) option" where
  "eventOS_event_timer_request_at_locked alloc event launch every s =
     (if \<not> event_tasklet_handler_id_valid (tasklet_index (ev_receiver event)) s then Some (None, s)
      else case timer_struct_get alloc s of
        (None, s1) \<Rightarrow> Some (None, s1)
      | (Some a, s1) \<Rightarrow>
          do { e \<leftarrow> el_events s1 a;
               t \<leftarrow> el_timers s1 a;
               let s2 = upd_timer a (t\<lparr>launch_time := launch, period := every\<rparr>)
                          (upd_event a (e\<lparr>es_data := event, es_allocator := ARM_LIB_EVENT_TIMER,
                                         es_state := ARM_LIB_EVENT_UNQUEUED\<rparr>) s1) in
               do { s3 \<leftarrow> (if ticks_before_or_at launch (timer_sys_ticks s2)
                            then eventOS_event_send_timer_allocated a s2 else timer_sys_add a s2);
                    Some (Some a, s3) } })"

definition eventOS_event_timer_request_at ::
  "new_timer \<Rightarrow> arm_event \<Rightarrow> 32 word \<Rightarrow> event_loop \<Rightarrow> (nat option \<times> event_loop) option" where
  "eventOS_event_timer_request_at alloc event launch s = eventOS_event_timer_request_at_locked alloc event launch 0 s"

text \<open>The \<open>int32_t\<close> arguments are converted to \<open>uint32_t\<close> by the addition.\<close>

definition eventOS_event_timer_request_in ::
  "new_timer \<Rightarrow> arm_event \<Rightarrow> 32 word \<Rightarrow> event_loop \<Rightarrow> (nat option \<times> event_loop) option" where
  "eventOS_event_timer_request_in alloc event delay s =
     eventOS_event_timer_request_at_locked alloc event (timer_sys_ticks s + delay) 0 s"

definition eventOS_event_timer_request_every ::
  "new_timer \<Rightarrow> arm_event \<Rightarrow> 32 word \<Rightarrow> event_loop \<Rightarrow> (nat option \<times> event_loop) option" where
  "eventOS_event_timer_request_every alloc event every s =
     (if sint every \<le> 0 then Some (None, s)
      else eventOS_event_timer_request_at_locked alloc event (timer_sys_ticks s + every) every s)"

text \<open>The legacy request in milliseconds, with ticks of 10 ms.\<close>

definition legacy_ticks :: "nat \<Rightarrow> nat" where
  "legacy_ticks time = (if time > 2 * 10 then time div 10 + 1 else 2)"

definition eventOS_event_timer_request ::
  "new_timer \<Rightarrow> nat \<Rightarrow> nat \<Rightarrow> int \<Rightarrow> nat \<Rightarrow> event_loop \<Rightarrow> (int \<times> event_loop) option" where
  "eventOS_event_timer_request alloc i event_type tasklet_id time s =
     do { (a, s') \<leftarrow> eventOS_event_timer_request_at_locked alloc
            \<lparr>ev_receiver = tasklet_id, ev_sender = 0, ev_type = event_type, ev_id = i,
             ev_data_ptr = None, ev_priority = ARM_LIB_MED_PRIORITY_EVENT, ev_data = 0\<rparr>
            (timer_sys_ticks s + word_of_nat (legacy_ticks time)) 0 s;
          Some (if a = None then -1 else 0, s') }"

text \<open>The loop of \<open>system_timer_tick_update\<close> over the list as it is at its start.\<close>

fun launch_due :: "nat list \<Rightarrow> event_loop \<Rightarrow> event_loop option" where
  "launch_due [] s = Some s"
| "launch_due (a # as) s =
     do { t \<leftarrow> el_timers s a;
          if ticks_before_or_at (launch_time t) (timer_sys_ticks s) then
            do { guard (a \<in> set (system_timer_list s));
                 s' \<leftarrow> eventOS_event_send_timer_allocated a
                   (s\<lparr>system_timer_list := list_remove (system_timer_list s) a\<rparr>);
                 launch_due as s' }
          else Some s }"

definition system_timer_tick_update :: "32 word \<Rightarrow> event_loop \<Rightarrow> event_loop option" where
  "system_timer_tick_update ticks s =
     launch_due (system_timer_list s) (s\<lparr>timer_sys_ticks := timer_sys_ticks s + ticks\<rparr>)"

definition eventOS_event_timer_ticks :: "event_loop \<Rightarrow> 32 word" where
  "eventOS_event_timer_ticks s = timer_sys_ticks s"

definition eventOS_event_timer_shortest_active_timer :: "event_loop \<Rightarrow> 32 word option" where
  "eventOS_event_timer_shortest_active_timer s =
     (case list_first (system_timer_list s) of
        None \<Rightarrow> Some 0
      | Some a \<Rightarrow>
          do { t \<leftarrow> el_timers s a;
               Some (if ticks_before_or_at (launch_time t) (timer_sys_ticks s) then 10
                     else (launch_time t - timer_sys_ticks s) * 10) })"

end
