(* ===== verification/Event_Loop.thy ===== *)
theory Event_Loop
  imports Event_Core
begin

text \<open>
  The rest of \<open>source/event.c\<close>: giving events back, cancelling, the initial state and the dispatch
  of events to the tasklets, with the timer operations of \<open>source/system_timer.c\<close> that cancel. A
  tasklet function is a number, and what the functions do is an argument of the dispatch.
\<close>

section \<open>Giving events back\<close>

definition event_core_free_push :: "nat \<Rightarrow> event_loop \<Rightarrow> event_loop option" where
  "event_core_free_push a s =
     do { e \<leftarrow> el_events s a;
          (case es_allocator e of
             ARM_LIB_EVENT_STARTUP_POOL \<Rightarrow>
               do { guard (a \<notin> set (linked s));
                    Some (upd_event a (e\<lparr>es_state := ARM_LIB_EVENT_UNQUEUED\<rparr>)
                      (s\<lparr>free_event_entry := list_add_to_start (free_event_entry s) a\<rparr>)) }
           | ARM_LIB_EVENT_DYNAMIC \<Rightarrow>
               do { guard (a \<notin> set (linked s));
                    Some (s\<lparr>el_events := (el_events s)(a := None)\<rparr>) }
           | ARM_LIB_EVENT_TIMER \<Rightarrow>
               timer_sys_event_free a (upd_event a (e\<lparr>es_state := ARM_LIB_EVENT_UNQUEUED\<rparr>) s)
           | ARM_LIB_EVENT_USER \<Rightarrow> Some s) }"

text \<open>\<open>eventOS_cancel\<close> of a pointer that may be NULL. The steps leave the state of the event as it is.\<close>

definition eventOS_cancel :: "nat option \<Rightarrow> event_loop \<Rightarrow> event_loop option" where
  "eventOS_cancel event s =
     (case event of
        None \<Rightarrow> Some s
      | Some a \<Rightarrow>
          do { e \<leftarrow> el_events s a;
               s1 \<leftarrow> (if es_allocator e = ARM_LIB_EVENT_TIMER
                        then timer_sys_event_cancel_critical a s else Some s);
               s2 \<leftarrow> (if es_state e = ARM_LIB_EVENT_QUEUED
                        then eventOS_event_cancel_critical a s1 else Some s1);
               if es_state e \<noteq> ARM_LIB_EVENT_RUNNING then event_core_free_push a s2 else Some s2 })"

text \<open>
  \<open>eventOS_event_timer_cancel\<close>: pending timers first, then the queue, where only the first match
  is looked at.
\<close>

definition eventOS_event_timer_cancel :: "nat \<Rightarrow> int \<Rightarrow> event_loop \<Rightarrow> (int \<times> event_loop) option" where
  "eventOS_event_timer_cancel i tasklet_id s =
     do { pending \<leftarrow> find_event (el_events s) tasklet_id i (system_timer_list s);
          (case pending of
             Some a \<Rightarrow> do { s' \<leftarrow> eventOS_cancel (Some a) s; Some (0, s') }
           | None \<Rightarrow>
               do { queued \<leftarrow> eventOS_event_find_by_id_critical (tasklet_index tasklet_id) i s;
                    (case queued of
                       None \<Rightarrow> Some (-1, s)
                     | Some a \<Rightarrow>
                         do { e \<leftarrow> el_events s a;
                              if es_allocator e = ARM_LIB_EVENT_TIMER
                              then do { s' \<leftarrow> eventOS_cancel (Some a) s; Some (0, s') }
                              else Some (-1, s) }) }) }"

section \<open>Start\<close>

text \<open>
  The static pools: \<open>startup_event_pool\<close> has the addresses 0 to 9 and \<open>startup_sys_timer_pool\<close> the
  addresses 10 to 15, zero at the start of the program like all static memory.
\<close>

definition startup_event_pool :: "nat list" where
  "startup_event_pool = [0..<10]"

definition startup_sys_timer_pool :: "nat list" where
  "startup_sys_timer_pool = [10..<16]"

definition zero_event :: event_storage where
  "zero_event =
     \<lparr>es_data = \<lparr>ev_receiver = 0, ev_sender = 0, ev_type = 0, ev_id = 0, ev_data_ptr = None,
                 ev_priority = ARM_LIB_HIGH_PRIORITY_EVENT, ev_data = 0\<rparr>,
      es_allocator = ARM_LIB_EVENT_STARTUP_POOL, es_state = ARM_LIB_EVENT_UNQUEUED\<rparr>"

definition static_state :: event_loop where
  "static_state =
     \<lparr>tasklet_list = [], event_queue_active = [], free_event_entry = [], system_timer_free = [],
      system_timer_list = [],
      el_events = (\<lambda>a. if a \<in> set (startup_event_pool @ startup_sys_timer_pool)
                       then Some zero_event else None),
      el_timers = (\<lambda>a. if a \<in> set startup_sys_timer_pool
                       then Some \<lparr>launch_time = 0, period = 0\<rparr> else None),
      timer_sys_ticks = 0, curr_tasklet = 0\<rparr>"

text \<open>The timer lists only; the tick timer is a callback timer of \<open>Ns_Timer\<close>.\<close>

definition timer_sys_init :: "event_loop \<Rightarrow> event_loop option" where
  "timer_sys_init s =
     do { guard (set startup_sys_timer_pool \<inter> set (linked s) = {});
          Some (s\<lparr>system_timer_free :=
                   fold (\<lambda>a as. list_add_to_start as a) startup_sys_timer_pool (system_timer_free s)\<rparr>) }"

definition startup_event :: "nat \<Rightarrow> event_loop \<Rightarrow> event_loop option" where
  "startup_event a s =
     do { e \<leftarrow> el_events s a;
          Some (upd_event a (e\<lparr>es_allocator := ARM_LIB_EVENT_STARTUP_POOL\<rparr>)
                 (s\<lparr>free_event_entry := list_add_to_start (free_event_entry s) a\<rparr>)) }"

fun startup_events :: "nat list \<Rightarrow> event_loop \<Rightarrow> event_loop option" where
  "startup_events [] s = Some s"
| "startup_events (a # as) s = do { s' \<leftarrow> startup_event a s; startup_events as s' }"

definition eventOS_scheduler_init :: "event_loop \<Rightarrow> event_loop option" where
  "eventOS_scheduler_init s =
     do { s1 \<leftarrow> startup_events startup_event_pool
                  (s\<lparr>free_event_entry := [], event_queue_active := [], tasklet_list := []\<rparr>);
          s2 \<leftarrow> timer_sys_init s1;
          Some (s2\<lparr>curr_tasklet := 0\<rparr>) }"

section \<open>Dispatch\<close>

text \<open>
  The first half of \<open>eventOS_scheduler_dispatch_event\<close>, up to the call of the tasklet: the event
  that is running and the function to call. A receiver without a tasklet is a NULL dereference.
\<close>

definition begin_dispatch :: "event_loop \<Rightarrow> ((nat \<times> nat \<times> arm_event) option \<times> event_loop) option" where
  "begin_dispatch s =
     do { (event, s1) \<leftarrow> event_core_read (s\<lparr>curr_tasklet := 0\<rparr>);
          (case event of
             None \<Rightarrow> Some (None, s1)
           | Some a \<Rightarrow>
               do { e \<leftarrow> el_events s1 a;
                    let s2 = s1\<lparr>curr_tasklet := ev_receiver (es_data e)\<rparr> in
                    do { t \<leftarrow> event_tasklet_handler_get (tasklet_index (curr_tasklet s2)) s2;
                         Some (Some (a, snd t, es_data e), s2) } }) }"

definition end_dispatch :: "nat \<Rightarrow> event_loop \<Rightarrow> event_loop option" where
  "end_dispatch a s = do { s' \<leftarrow> event_core_free_push a s; Some (s'\<lparr>curr_tasklet := 0\<rparr>) }"

type_synonym tasklet_functions = "nat \<Rightarrow> arm_event \<Rightarrow> event_loop \<Rightarrow> event_loop option"

text \<open>The result has the call that was made; None is the return value false.\<close>

definition eventOS_scheduler_dispatch_event ::
  "tasklet_functions \<Rightarrow> event_loop \<Rightarrow> ((nat \<times> arm_event) option \<times> event_loop) option" where
  "eventOS_scheduler_dispatch_event call s =
     do { (event, s1) \<leftarrow> begin_dispatch s;
          (case event of
             None \<Rightarrow> Some (None, s1)
           | Some (a, f, data) \<Rightarrow>
               do { s2 \<leftarrow> call f data s1;
                    s3 \<leftarrow> end_dispatch a s2;
                    Some (Some (f, data), s3) }) }"

text \<open>The loop may run forever; the result has the calls that were made.\<close>

partial_function (option) eventOS_scheduler_run_until_idle ::
  "tasklet_functions \<Rightarrow> event_loop \<Rightarrow> ((nat \<times> arm_event) list \<times> event_loop) option" where
  "eventOS_scheduler_run_until_idle call s =
     do { r \<leftarrow> eventOS_scheduler_dispatch_event call s;
          (case fst r of
             None \<Rightarrow> Some ([], snd r)
           | Some c \<Rightarrow>
               do { rest \<leftarrow> eventOS_scheduler_run_until_idle call (snd r);
                    Some (c # fst rest, snd rest) }) }"

end
