(* ===== verification/Event_Invariant.thy ===== *)
theory Event_Invariant
  imports Event_Loop
begin

text \<open>
  The invariant of the event loop: who owns which event. Every event of the pools and every timer
  is in exactly one list or in exactly one pair of hands, the queue is in the order of the
  priorities and the pending timers are in the order of the ticks they have left. The lemmas say
  how taking an event from a list, changing it and putting it into a list keep the invariant.
\<close>

section \<open>Tick arithmetic\<close>

lemma sint_diff:
  fixes x y :: "32 word"
  assumes "0 \<le> sint x" "0 \<le> sint y"
  shows "sint (x - y) = sint x - sint y"
proof -
  have "x - y = word_of_int (sint x - sint y)" by simp
  then have "sint (x - y) = signed_take_bit 31 (sint x - sint y)"
    by (simp only: sint_sbintrunc') simp
  also have "\<dots> = sint x - sint y"
    using assms sint_lt [of x] sint_lt [of y] by (intro signed_take_bit_int_eq_self) simp_all
  finally show ?thesis .
qed

lemma sint_unat:
  fixes x :: "32 word"
  assumes "0 \<le> sint x"
  shows "sint x = int (unat x)"
proof -
  have "uint x = uint (word_of_int (sint x) :: 32 word)" by simp
  also have "\<dots> = sint x mod 2 ^ 32" by (simp only: uint_word_of_int) simp
  also have "\<dots> = sint x" using assms sint_lt [of x] by (intro mod_pos_pos_trivial) simp_all
  finally show ?thesis by simp
qed

lemma sint_diff_neg:
  fixes x y :: "32 word"
  assumes "0 < sint x" "0 < sint y"
  shows "sint (x - y) < 0 \<longleftrightarrow> unat x < unat y"
proof -
  have "sint (x - y) = int (unat x) - int (unat y)"
    using sint_diff [of x y] sint_unat [of x] sint_unat [of y] assms by linarith
  then show ?thesis by linarith
qed

section \<open>The two queues\<close>

definition priority_key :: "event_loop \<Rightarrow> nat \<Rightarrow> nat" where
  "priority_key s a =
     (case el_events s a of None \<Rightarrow> 0 | Some e \<Rightarrow> priority_value (ev_priority (es_data e)))"

text \<open>The ticks until the launch of a timer.\<close>

definition ticks_left :: "event_loop \<Rightarrow> nat \<Rightarrow> nat" where
  "ticks_left s a =
     (case el_timers s a of None \<Rightarrow> 0 | Some t \<Rightarrow> unat (launch_time t - timer_sys_ticks s))"

definition in_future :: "event_loop \<Rightarrow> nat \<Rightarrow> bool" where
  "in_future s a \<longleftrightarrow>
     (case el_timers s a of None \<Rightarrow> False | Some t \<Rightarrow> 0 < sint (launch_time t - timer_sys_ticks s))"

lemma launch_before_iff:
  fixes now :: "32 word"
  assumes "0 < sint (x - now)" "0 < sint (y - now)"
  shows "ticks_before x y \<longleftrightarrow> unat (x - now) < unat (y - now)"
proof -
  have "x - y = (x - now) - (y - now)" by simp
  then show ?thesis
    unfolding ticks_before_def using sint_diff_neg [OF assms] by simp
qed

interpretation event_queue: ordered_queue
  "\<lambda>a. el_events s a \<noteq> None" "priority_key s" "\<lambda>a. link_before_first (lower_priority s a) a"
  for s :: event_loop
proof
  fix x ys
  assume x: "el_events s x \<noteq> None" and ys: "\<And>y. y \<in> set ys \<Longrightarrow> el_events s y \<noteq> None"
  have "lower_priority s x y = Some (priority_key s y > priority_key s x)" if "y \<in> set ys" for y
    using x ys [OF that]
    by (auto simp: lower_priority_def priority_key_def less_arm_library_event_priority_e_def)
  then show "link_before_first (lower_priority s x) x ys =
      Some (takeWhile (\<lambda>y. priority_key s y \<le> priority_key s x) ys @ x #
            dropWhile (\<lambda>y. priority_key s y \<le> priority_key s x) ys)"
    using link_before_first_total
      [of ys "lower_priority s x" "\<lambda>y. priority_key s y > priority_key s x"]
    by (simp add: not_less)
qed

interpretation timer_queue: ordered_queue
  "in_future s" "ticks_left s" "\<lambda>a. link_before_first (launches_later s a) a"
  for s :: event_loop
proof
  fix x ys
  assume x: "in_future s x" and ys: "\<And>y. y \<in> set ys \<Longrightarrow> in_future s y"
  have "launches_later s x y = Some (ticks_left s y > ticks_left s x)" if "y \<in> set ys" for y
    using x ys [OF that]
    by (auto simp: launches_later_def ticks_left_def in_future_def launch_before_iff split: option.splits)
  then show "link_before_first (launches_later s x) x ys =
      Some (takeWhile (\<lambda>y. ticks_left s y \<le> ticks_left s x) ys @ x #
            dropWhile (\<lambda>y. ticks_left s y \<le> ticks_left s x) ys)"
    using link_before_first_total
      [of ys "launches_later s x" "\<lambda>y. ticks_left s y > ticks_left s x"]
    by (simp add: not_less)
qed

section \<open>Ownership\<close>

definition receiver_ok :: "event_loop \<Rightarrow> event_storage \<Rightarrow> bool" where
  "receiver_ok s e \<longleftrightarrow> event_tasklet_handler_get (tasklet_index (ev_receiver (es_data e))) s \<noteq> None"

definition queued_ok :: "event_loop \<Rightarrow> nat \<Rightarrow> bool" where
  "queued_ok s a \<longleftrightarrow>
     (\<exists>e. el_events s a = Some e \<and> es_state e = ARM_LIB_EVENT_QUEUED \<and> receiver_ok s e \<and>
          (es_allocator e = ARM_LIB_EVENT_TIMER \<longleftrightarrow> el_timers s a \<noteq> None))"

definition free_ok :: "event_loop \<Rightarrow> nat \<Rightarrow> bool" where
  "free_ok s a \<longleftrightarrow>
     (\<exists>e. el_events s a = Some e \<and> es_allocator e = ARM_LIB_EVENT_STARTUP_POOL \<and> el_timers s a = None)"

definition idle_timer_ok :: "event_loop \<Rightarrow> nat \<Rightarrow> bool" where
  "idle_timer_ok s a \<longleftrightarrow> el_events s a \<noteq> None \<and> el_timers s a \<noteq> None"

definition pending_ok :: "event_loop \<Rightarrow> nat \<Rightarrow> bool" where
  "pending_ok s a \<longleftrightarrow>
     (\<exists>e. el_events s a = Some e \<and> es_state e = ARM_LIB_EVENT_UNQUEUED \<and>
          es_allocator e = ARM_LIB_EVENT_TIMER \<and> receiver_ok s e) \<and> in_future s a"

definition running_ok :: "event_loop \<Rightarrow> nat \<Rightarrow> bool" where
  "running_ok s a \<longleftrightarrow>
     (\<exists>e. el_events s a = Some e \<and> es_state e = ARM_LIB_EVENT_RUNNING \<and> receiver_ok s e \<and>
          es_allocator e \<noteq> ARM_LIB_EVENT_USER \<and>
          (es_allocator e = ARM_LIB_EVENT_TIMER \<longleftrightarrow> el_timers s a \<noteq> None))"

text \<open>
  \<open>loose\<close> are the events an operation has in its hands, \<open>held\<close> the event that a tasklet is
  running, unless its storage is the user's.
\<close>

definition owned :: "nat set \<Rightarrow> nat set \<Rightarrow> event_loop \<Rightarrow> bool" where
  "owned loose held s \<longleftrightarrow>
     distinct (linked s) \<and> (loose \<union> held) \<inter> set (linked s) = {} \<and> loose \<inter> held = {} \<and>
     (\<forall>a. el_timers s a \<noteq> None \<longrightarrow> a \<in> set (linked s) \<union> loose \<union> held) \<and>
     (\<forall>a e. el_events s a = Some e \<longrightarrow> el_timers s a = None \<longrightarrow>
        es_allocator e \<in> {ARM_LIB_EVENT_STARTUP_POOL, ARM_LIB_EVENT_DYNAMIC} \<longrightarrow>
        a \<in> set (linked s) \<union> loose \<union> held)"

definition loop_inv :: "nat set \<Rightarrow> nat set \<Rightarrow> event_loop \<Rightarrow> bool" where
  "loop_inv loose held s \<longleftrightarrow>
     owned loose held s \<and>
     (\<forall>a \<in> set (event_queue_active s). queued_ok s a) \<and>
     (\<forall>a \<in> set (free_event_entry s). free_ok s a) \<and>
     (\<forall>a \<in> set (system_timer_free s). idle_timer_ok s a) \<and>
     (\<forall>a \<in> set (system_timer_list s). pending_ok s a) \<and>
     (\<forall>a \<in> held. running_ok s a) \<and>
     in_order (priority_key s) (event_queue_active s) \<and>
     in_order (ticks_left s) (system_timer_list s)"

named_theorems event_defs "the predicates on single events"

lemmas [event_defs] =
  queued_ok_def free_ok_def idle_timer_ok_def pending_ok_def running_ok_def receiver_ok_def
  in_future_def event_tasklet_handler_get_def

section \<open>Changing a loose event\<close>

lemma keys_upd [simp]:
  "ticks_left (upd_event a e s) = ticks_left s"
  "priority_key (upd_timer a t s) = priority_key s"
  "b \<noteq> a \<Longrightarrow> ticks_left (upd_timer a t s) b = ticks_left s b"
  "b \<noteq> a \<Longrightarrow> priority_key (upd_event a e s) b = priority_key s b"
  by (simp_all add: fun_eq_iff ticks_left_def priority_key_def cong: option.case_cong)

lemma ok_upd_event [simp]:
  "receiver_ok (upd_event a e s) = receiver_ok s"
  "in_future (upd_event a e s) = in_future s"
  "b \<noteq> a \<Longrightarrow> queued_ok (upd_event a e s) b = queued_ok s b"
  "b \<noteq> a \<Longrightarrow> free_ok (upd_event a e s) b = free_ok s b"
  "b \<noteq> a \<Longrightarrow> idle_timer_ok (upd_event a e s) b = idle_timer_ok s b"
  "b \<noteq> a \<Longrightarrow> pending_ok (upd_event a e s) b = pending_ok s b"
  "b \<noteq> a \<Longrightarrow> running_ok (upd_event a e s) b = running_ok s b"
  by (simp_all add: event_defs fun_eq_iff cong: option.case_cong)

lemma ok_upd_timer [simp]:
  "receiver_ok (upd_timer a t s) = receiver_ok s"
  "b \<noteq> a \<Longrightarrow> in_future (upd_timer a t s) b = in_future s b"
  "b \<noteq> a \<Longrightarrow> queued_ok (upd_timer a t s) b = queued_ok s b"
  "b \<noteq> a \<Longrightarrow> free_ok (upd_timer a t s) b = free_ok s b"
  "b \<noteq> a \<Longrightarrow> idle_timer_ok (upd_timer a t s) b = idle_timer_ok s b"
  "b \<noteq> a \<Longrightarrow> pending_ok (upd_timer a t s) b = pending_ok s b"
  "b \<noteq> a \<Longrightarrow> running_ok (upd_timer a t s) b = running_ok s b"
  by (simp_all add: event_defs fun_eq_iff cong: option.case_cong)

lemma in_order_cong:
  "(\<And>a. a \<in> set xs \<Longrightarrow> f a = g a) \<Longrightarrow> in_order f xs = in_order g xs"
  by (simp add: in_order_def cong: map_cong)

lemma set_linked:
  "set (linked s) = set (event_queue_active s) \<union> set (free_event_entry s) \<union>
                    set (system_timer_free s) \<union> set (system_timer_list s)"
  by (auto simp: linked_def)

lemma balls_upd_event:
  assumes "a \<notin> A"
  shows
    "(\<forall>b \<in> A. queued_ok (upd_event a e s) b) \<longleftrightarrow> (\<forall>b \<in> A. queued_ok s b)"
    "(\<forall>b \<in> A. free_ok (upd_event a e s) b) \<longleftrightarrow> (\<forall>b \<in> A. free_ok s b)"
    "(\<forall>b \<in> A. idle_timer_ok (upd_event a e s) b) \<longleftrightarrow> (\<forall>b \<in> A. idle_timer_ok s b)"
    "(\<forall>b \<in> A. pending_ok (upd_event a e s) b) \<longleftrightarrow> (\<forall>b \<in> A. pending_ok s b)"
    "(\<forall>b \<in> A. running_ok (upd_event a e s) b) \<longleftrightarrow> (\<forall>b \<in> A. running_ok s b)"
  by (intro ball_cong refl ok_upd_event; use assms in blast)+

lemma balls_upd_timer:
  assumes "a \<notin> A"
  shows
    "(\<forall>b \<in> A. queued_ok (upd_timer a t s) b) \<longleftrightarrow> (\<forall>b \<in> A. queued_ok s b)"
    "(\<forall>b \<in> A. free_ok (upd_timer a t s) b) \<longleftrightarrow> (\<forall>b \<in> A. free_ok s b)"
    "(\<forall>b \<in> A. idle_timer_ok (upd_timer a t s) b) \<longleftrightarrow> (\<forall>b \<in> A. idle_timer_ok s b)"
    "(\<forall>b \<in> A. pending_ok (upd_timer a t s) b) \<longleftrightarrow> (\<forall>b \<in> A. pending_ok s b)"
    "(\<forall>b \<in> A. running_ok (upd_timer a t s) b) \<longleftrightarrow> (\<forall>b \<in> A. running_ok s b)"
  by (intro ball_cong refl ok_upd_timer; use assms in blast)+

lemma loop_inv_upd_event:
  assumes "loop_inv loose held s" "a \<in> loose"
  shows "loop_inv loose held (upd_event a e s)"
proof -
  have a: "a \<notin> set (linked s)" "a \<notin> held"
    using assms by (auto simp: loop_inv_def owned_def)
  have same: "el_events (upd_event a e s) b = el_events s b" if "b \<noteq> a" for b
    using that by simp
  have "owned loose held (upd_event a e s)"
    using assms by (auto simp: loop_inv_def owned_def)
  moreover have "in_order (priority_key (upd_event a e s)) (event_queue_active s) =
      in_order (priority_key s) (event_queue_active s)"
    using a by (intro in_order_cong keys_upd) (auto simp: set_linked)
  ultimately show ?thesis
    using assms a unfolding loop_inv_def
    by (simp add: set_linked balls_upd_event)
qed

lemma loop_inv_upd_timer:
  assumes "loop_inv loose held s" "a \<in> loose"
  shows "loop_inv loose held (upd_timer a t s)"
proof -
  have a: "a \<notin> set (linked s)" "a \<notin> held"
    using assms by (auto simp: loop_inv_def owned_def)
  have "owned loose held (upd_timer a t s)"
    using assms by (auto simp: loop_inv_def owned_def)
  moreover have "in_order (ticks_left (upd_timer a t s)) (system_timer_list s) =
      in_order (ticks_left s) (system_timer_list s)"
    using a by (intro in_order_cong keys_upd) (auto simp: set_linked)
  ultimately show ?thesis
    using assms a unfolding loop_inv_def
    by (simp add: set_linked balls_upd_timer)
qed

section \<open>Taking an event from a list and putting it into one\<close>

lemma ok_set_active [simp]:
  "receiver_ok (s\<lparr>event_queue_active := x\<rparr>) = receiver_ok s"
  "in_future (s\<lparr>event_queue_active := x\<rparr>) = in_future s"
  "queued_ok (s\<lparr>event_queue_active := x\<rparr>) = queued_ok s"
  "free_ok (s\<lparr>event_queue_active := x\<rparr>) = free_ok s"
  "idle_timer_ok (s\<lparr>event_queue_active := x\<rparr>) = idle_timer_ok s"
  "pending_ok (s\<lparr>event_queue_active := x\<rparr>) = pending_ok s"
  "running_ok (s\<lparr>event_queue_active := x\<rparr>) = running_ok s"
  "priority_key (s\<lparr>event_queue_active := x\<rparr>) = priority_key s"
  "ticks_left (s\<lparr>event_queue_active := x\<rparr>) = ticks_left s"
  by (simp_all add: event_defs fun_eq_iff priority_key_def ticks_left_def cong: option.case_cong)

lemma ok_set_free [simp]:
  "receiver_ok (s\<lparr>free_event_entry := x\<rparr>) = receiver_ok s"
  "in_future (s\<lparr>free_event_entry := x\<rparr>) = in_future s"
  "queued_ok (s\<lparr>free_event_entry := x\<rparr>) = queued_ok s"
  "free_ok (s\<lparr>free_event_entry := x\<rparr>) = free_ok s"
  "idle_timer_ok (s\<lparr>free_event_entry := x\<rparr>) = idle_timer_ok s"
  "pending_ok (s\<lparr>free_event_entry := x\<rparr>) = pending_ok s"
  "running_ok (s\<lparr>free_event_entry := x\<rparr>) = running_ok s"
  "priority_key (s\<lparr>free_event_entry := x\<rparr>) = priority_key s"
  "ticks_left (s\<lparr>free_event_entry := x\<rparr>) = ticks_left s"
  by (simp_all add: event_defs fun_eq_iff priority_key_def ticks_left_def cong: option.case_cong)

lemma ok_set_idle [simp]:
  "receiver_ok (s\<lparr>system_timer_free := x\<rparr>) = receiver_ok s"
  "in_future (s\<lparr>system_timer_free := x\<rparr>) = in_future s"
  "queued_ok (s\<lparr>system_timer_free := x\<rparr>) = queued_ok s"
  "free_ok (s\<lparr>system_timer_free := x\<rparr>) = free_ok s"
  "idle_timer_ok (s\<lparr>system_timer_free := x\<rparr>) = idle_timer_ok s"
  "pending_ok (s\<lparr>system_timer_free := x\<rparr>) = pending_ok s"
  "running_ok (s\<lparr>system_timer_free := x\<rparr>) = running_ok s"
  "priority_key (s\<lparr>system_timer_free := x\<rparr>) = priority_key s"
  "ticks_left (s\<lparr>system_timer_free := x\<rparr>) = ticks_left s"
  by (simp_all add: event_defs fun_eq_iff priority_key_def ticks_left_def cong: option.case_cong)

lemma ok_set_pending [simp]:
  "receiver_ok (s\<lparr>system_timer_list := x\<rparr>) = receiver_ok s"
  "in_future (s\<lparr>system_timer_list := x\<rparr>) = in_future s"
  "queued_ok (s\<lparr>system_timer_list := x\<rparr>) = queued_ok s"
  "free_ok (s\<lparr>system_timer_list := x\<rparr>) = free_ok s"
  "idle_timer_ok (s\<lparr>system_timer_list := x\<rparr>) = idle_timer_ok s"
  "pending_ok (s\<lparr>system_timer_list := x\<rparr>) = pending_ok s"
  "running_ok (s\<lparr>system_timer_list := x\<rparr>) = running_ok s"
  "priority_key (s\<lparr>system_timer_list := x\<rparr>) = priority_key s"
  "ticks_left (s\<lparr>system_timer_list := x\<rparr>) = ticks_left s"
  by (simp_all add: event_defs fun_eq_iff priority_key_def ticks_left_def cong: option.case_cong)

lemma ok_set_curr [simp]:
  "receiver_ok (s\<lparr>curr_tasklet := x\<rparr>) = receiver_ok s"
  "in_future (s\<lparr>curr_tasklet := x\<rparr>) = in_future s"
  "queued_ok (s\<lparr>curr_tasklet := x\<rparr>) = queued_ok s"
  "free_ok (s\<lparr>curr_tasklet := x\<rparr>) = free_ok s"
  "idle_timer_ok (s\<lparr>curr_tasklet := x\<rparr>) = idle_timer_ok s"
  "pending_ok (s\<lparr>curr_tasklet := x\<rparr>) = pending_ok s"
  "running_ok (s\<lparr>curr_tasklet := x\<rparr>) = running_ok s"
  "priority_key (s\<lparr>curr_tasklet := x\<rparr>) = priority_key s"
  "ticks_left (s\<lparr>curr_tasklet := x\<rparr>) = ticks_left s"
  by (simp_all add: event_defs fun_eq_iff priority_key_def ticks_left_def cong: option.case_cong)

lemma in_order_remove1: "in_order key xs \<Longrightarrow> in_order key (remove1 a xs)"
  by (simp add: in_order_def sorted_map_remove1)

lemmas list_ops = list_remove_def list_add_to_start_def list_add_to_end_def

lemma loop_inv_take_active:
  assumes "loop_inv loose held s" "a \<in> set (event_queue_active s)"
  shows "loop_inv (insert a loose) held (s\<lparr>event_queue_active := list_remove (event_queue_active s) a\<rparr>)"
  using assms unfolding loop_inv_def owned_def linked_def
  by (auto simp: list_ops in_order_remove1 dest: notin_set_remove1)

lemma loop_inv_take_free:
  assumes "loop_inv loose held s" "a \<in> set (free_event_entry s)"
  shows "loop_inv (insert a loose) held (s\<lparr>free_event_entry := list_remove (free_event_entry s) a\<rparr>)"
  using assms unfolding loop_inv_def owned_def linked_def
  by (auto simp: list_ops dest: notin_set_remove1)

lemma loop_inv_take_idle:
  assumes "loop_inv loose held s" "a \<in> set (system_timer_free s)"
  shows "loop_inv (insert a loose) held (s\<lparr>system_timer_free := list_remove (system_timer_free s) a\<rparr>)"
  using assms unfolding loop_inv_def owned_def linked_def
  by (auto simp: list_ops dest: notin_set_remove1)

lemma loop_inv_take_pending:
  assumes "loop_inv loose held s" "a \<in> set (system_timer_list s)"
  shows "loop_inv (insert a loose) held (s\<lparr>system_timer_list := list_remove (system_timer_list s) a\<rparr>)"
  using assms unfolding loop_inv_def owned_def linked_def
  by (auto simp: list_ops in_order_remove1 dest: notin_set_remove1)

lemma loose_facts:
  assumes "loop_inv (insert a loose) held s"
  shows "a \<notin> set (linked s)" "a \<notin> held"
  using assms by (auto simp: loop_inv_def owned_def)

lemma loop_inv_put_free:
  assumes "loop_inv (insert a loose) held s" "a \<notin> loose" "free_ok s a"
  shows "loop_inv loose held (s\<lparr>free_event_entry := list_add_to_start (free_event_entry s) a\<rparr>)"
  using assms unfolding loop_inv_def owned_def linked_def
  by (auto simp: list_ops)

lemma loop_inv_put_idle:
  assumes "loop_inv (insert a loose) held s" "a \<notin> loose" "idle_timer_ok s a"
  shows "loop_inv loose held (s\<lparr>system_timer_free := list_add_to_start (system_timer_free s) a\<rparr>)"
  using assms unfolding loop_inv_def owned_def linked_def
  by (auto simp: list_ops)

lemma loop_inv_hold:
  assumes "loop_inv (insert a loose) held s" "a \<notin> loose" "running_ok s a"
  shows "loop_inv loose (insert a held) s"
  using assms unfolding loop_inv_def owned_def by auto

lemma loop_inv_unhold:
  assumes "loop_inv loose (insert a held) s" "a \<notin> held"
  shows "loop_inv (insert a loose) held s"
  using assms unfolding loop_inv_def owned_def by auto

lemma loop_inv_loosen:
  assumes "loop_inv loose held s" "a \<notin> set (linked s)" "a \<notin> held"
  shows "loop_inv (insert a loose) held s"
  using assms unfolding loop_inv_def owned_def by auto

text \<open>Memory that an allocation returns, and memory that is given back or is the user's.\<close>

lemma loop_inv_fresh:
  assumes "loop_inv {} held s" "el_events s a = None"
  shows "a \<notin> set (linked s)" "a \<notin> held" "el_timers s a = None" "loop_inv {a} held s"
proof -
  have "queued_ok s b \<or> free_ok s b \<or> idle_timer_ok s b \<or> pending_ok s b \<or> running_ok s b"
    if "b \<in> set (linked s) \<union> held" for b
    using that assms(1) by (auto simp: loop_inv_def set_linked)
  then have "el_events s b \<noteq> None" if "b \<in> set (linked s) \<union> held" for b
    using that by (fastforce simp: event_defs)
  then show "a \<notin> set (linked s)" "a \<notin> held"
    using assms(2) by blast+
  then show "el_timers s a = None"
    using assms(1) by (auto simp: loop_inv_def owned_def)
  show "loop_inv {a} held s"
    by (rule loop_inv_loosen) fact+
qed

lemma loop_inv_drop:
  assumes "loop_inv (insert a loose) held s" "a \<notin> loose" "el_timers s a = None"
    "\<And>e. el_events s a = Some e \<Longrightarrow> es_allocator e \<in> {ARM_LIB_EVENT_USER, ARM_LIB_EVENT_TIMER}"
  shows "loop_inv loose held s"
  using assms unfolding loop_inv_def owned_def by (auto; metis event_allocator.distinct(4,6,8,10,2,12))

lemma ok_remove_event:
  assumes "b \<noteq> a" "s' = s\<lparr>el_events := (el_events s)(a := None)\<rparr>"
  shows "queued_ok s' b = queued_ok s b" "free_ok s' b = free_ok s b" "idle_timer_ok s' b = idle_timer_ok s b"
    "pending_ok s' b = pending_ok s b" "running_ok s' b = running_ok s b"
    "priority_key s' b = priority_key s b" "ticks_left s' b = ticks_left s b"
  using assms by (simp_all add: event_defs priority_key_def ticks_left_def cong: option.case_cong)

lemma loop_inv_remove_event:
  assumes "loop_inv (insert a loose) held s" "a \<notin> loose" "el_timers s a = None"
  shows "loop_inv loose held (s\<lparr>el_events := (el_events s)(a := None)\<rparr>)"
proof -
  let ?s = "s\<lparr>el_events := (el_events s)(a := None)\<rparr>"
  note a = loose_facts [OF assms(1)]
  have ball: "(\<forall>b \<in> A. P ?s b) = (\<forall>b \<in> A. P s b)"
    if "a \<notin> A" "\<And>b. b \<noteq> a \<Longrightarrow> P ?s b = P s b" for A P
    using that by metis
  have "owned loose held ?s"
    using assms a by (auto simp: loop_inv_def owned_def linked_def split: if_splits)
  moreover have "in_order (priority_key ?s) (event_queue_active s) = in_order (priority_key s) (event_queue_active s)"
    "in_order (ticks_left ?s) (system_timer_list s) = in_order (ticks_left s) (system_timer_list s)"
    using a by (intro in_order_cong ok_remove_event refl; auto simp: set_linked)+
  moreover have "a \<notin> set (event_queue_active s)" "a \<notin> set (free_event_entry s)"
    "a \<notin> set (system_timer_free s)" "a \<notin> set (system_timer_list s)"
    using a by (simp_all add: set_linked)
  ultimately show ?thesis
    using assms(1) a(2) unfolding loop_inv_def
    by (simp add: ball [where P = queued_ok] ball [where P = free_ok] ball [where P = idle_timer_ok]
        ball [where P = pending_ok] ball [where P = running_ok] ok_remove_event(1-5) [OF _ refl])
qed

section \<open>The two linking operations\<close>

lemma event_core_write_ok:
  assumes inv: "loop_inv (insert a loose) held s" and a: "a \<notin> loose"
    and e: "el_events s a = Some e" "receiver_ok s e"
      "es_allocator e = ARM_LIB_EVENT_TIMER \<longleftrightarrow> el_timers s a \<noteq> None"
  obtains q where
    "event_core_write a s =
       Some (upd_event a (e\<lparr>es_state := ARM_LIB_EVENT_QUEUED\<rparr>) (s\<lparr>event_queue_active := q\<rparr>))"
    "link_before_first (lower_priority s a) a (event_queue_active s) = Some q"
    "loop_inv loose held (upd_event a (e\<lparr>es_state := ARM_LIB_EVENT_QUEUED\<rparr>) (s\<lparr>event_queue_active := q\<rparr>))"
proof -
  note fresh = loose_facts [OF inv]
  have valid: "el_events s a \<noteq> None" "\<forall>b \<in> set (event_queue_active s). el_events s b \<noteq> None"
    using e inv by (fastforce simp: loop_inv_def queued_ok_def)+
  have "\<exists>q. link_before_first (lower_priority s a) a (event_queue_active s) = Some q"
    using event_queue.enqueue_total [OF valid] by metis
  then obtain q where q: "link_before_first (lower_priority s a) a (event_queue_active s) = Some q"
    by blast
  let ?e = "e\<lparr>es_state := ARM_LIB_EVENT_QUEUED\<rparr>"
  let ?s1 = "upd_event a ?e s"
  have inv1: "loop_inv (insert a loose) held ?s1"
    using inv by (rule loop_inv_upd_event) simp
  have queued: "queued_ok ?s1 a"
    using e by (simp add: queued_ok_def receiver_ok_def event_tasklet_handler_get_def)
  have order: "in_order (priority_key ?s1) q"
  proof -
    have "priority_key ?s1 = priority_key s"
      using e(1) by (simp add: fun_eq_iff priority_key_def)
    then show ?thesis
      using event_queue.enqueue_in_order [OF valid q] inv by (simp add: loop_inv_def)
  qed
  have set_q: "set q = insert a (set (event_queue_active s))" and dist: "distinct q"
    using event_queue.enqueue_contents [OF valid q] fresh inv
    by (auto simp: loop_inv_def owned_def linked_def)
  have "loop_inv loose held (?s1\<lparr>event_queue_active := q\<rparr>)"
    using inv1 queued order set_q dist a fresh unfolding loop_inv_def owned_def linked_def
    by auto
  moreover have "?s1\<lparr>event_queue_active := q\<rparr> = upd_event a ?e (s\<lparr>event_queue_active := q\<rparr>)"
    by (simp add: upd_event_def)
  ultimately have "loop_inv loose held (upd_event a ?e (s\<lparr>event_queue_active := q\<rparr>))" by simp
  moreover have "event_core_write a s = Some (upd_event a ?e (s\<lparr>event_queue_active := q\<rparr>))"
    using e(1) q fresh(1) by (simp add: event_core_write_def)
  ultimately show ?thesis using q that by blast
qed

lemma timer_sys_add_ok:
  assumes inv: "loop_inv (insert a loose) held s" and a: "a \<notin> loose" and pending: "pending_ok s a"
  obtains q where "timer_sys_add a s = Some (s\<lparr>system_timer_list := q\<rparr>)"
    "link_before_first (launches_later s a) a (system_timer_list s) = Some q"
    "loop_inv loose held (s\<lparr>system_timer_list := q\<rparr>)"
proof -
  note fresh = loose_facts [OF inv]
  have valid: "in_future s a" "\<forall>b \<in> set (system_timer_list s). in_future s b"
    using pending inv by (simp_all add: loop_inv_def pending_ok_def)
  have "\<exists>q. link_before_first (launches_later s a) a (system_timer_list s) = Some q"
    using timer_queue.enqueue_total [OF valid] by metis
  then obtain q where q: "link_before_first (launches_later s a) a (system_timer_list s) = Some q"
    by blast
  have order: "in_order (ticks_left s) q"
    using timer_queue.enqueue_in_order [OF valid q] inv by (simp add: loop_inv_def)
  have set_q: "set q = insert a (set (system_timer_list s))" and dist: "distinct q"
    using timer_queue.enqueue_contents [OF valid q] fresh inv
    by (auto simp: loop_inv_def owned_def linked_def)
  have "loop_inv loose held (s\<lparr>system_timer_list := q\<rparr>)"
    using inv pending order set_q dist a fresh unfolding loop_inv_def owned_def linked_def
    by auto
  moreover have "timer_sys_add a s = Some (s\<lparr>system_timer_list := q\<rparr>)"
    using q fresh(1) by (simp add: timer_sys_add_def)
  ultimately show ?thesis using q that by blast
qed

end
