(* ===== verification/Event_Safety.thy ===== *)
theory Event_Safety
  imports Event_Invariant
begin

text \<open>
  Every operation of the event loop and of the system timers runs without a fault and keeps the
  invariant. No operation changes what an event is: an event of the startup pool, a timer, or a
  structure of the user's; only dynamically allocated events come and go.
\<close>

section \<open>Kinds of events\<close>

definition kind :: "event_loop \<Rightarrow> nat \<Rightarrow> event_allocator option" where
  "kind s a = (if el_timers s a \<noteq> None then Some ARM_LIB_EVENT_TIMER
               else map_option es_allocator (el_events s a))"

definition is_user :: "event_loop \<Rightarrow> nat \<Rightarrow> bool" where
  "is_user s a \<longleftrightarrow> kind s a = Some ARM_LIB_EVENT_USER"

definition kept_kinds :: "event_loop \<Rightarrow> event_loop \<Rightarrow> bool" where
  "kept_kinds s s' \<longleftrightarrow> 
     (\<forall>a. kind s a \<notin> {None, Some ARM_LIB_EVENT_DYNAMIC} \<longrightarrow> kind s' a = kind s a) \<and>
     (\<forall>a. el_timers s a \<noteq> None \<longrightarrow> el_timers s' a \<noteq> None)"

lemma kept_kinds_refl [simp]: "kept_kinds s s"
  and kept_kinds_trans [trans]: "kept_kinds s t \<Longrightarrow> kept_kinds t u \<Longrightarrow> kept_kinds s u"
  by (auto simp: kept_kinds_def)

lemma kind_set [simp]:
  "kind (s\<lparr>event_queue_active := q\<rparr>) = kind s"
  "kind (s\<lparr>free_event_entry := q\<rparr>) = kind s"
  "kind (s\<lparr>system_timer_free := q\<rparr>) = kind s"
  "kind (s\<lparr>system_timer_list := q\<rparr>) = kind s"
  "kind (s\<lparr>curr_tasklet := c\<rparr>) = kind s"
  "kind (s\<lparr>timer_sys_ticks := n\<rparr>) = kind s"
  "kind (s\<lparr>tasklet_list := ts\<rparr>) = kind s"
  by (simp_all add: kind_def fun_eq_iff)

lemma kept_kinds_set [simp]:
  "kept_kinds s (s'\<lparr>event_queue_active := q\<rparr>) = kept_kinds s s'"
  "kept_kinds s (s'\<lparr>free_event_entry := q\<rparr>) = kept_kinds s s'"
  "kept_kinds s (s'\<lparr>system_timer_free := q\<rparr>) = kept_kinds s s'"
  "kept_kinds s (s'\<lparr>system_timer_list := q\<rparr>) = kept_kinds s s'"
  "kept_kinds s (s'\<lparr>curr_tasklet := c\<rparr>) = kept_kinds s s'"
  "kept_kinds s (s'\<lparr>timer_sys_ticks := n\<rparr>) = kept_kinds s s'"
  "kept_kinds s (s'\<lparr>tasklet_list := ts\<rparr>) = kept_kinds s s'"
  by (simp_all add: kept_kinds_def)

lemma kept_kinds_upd_event:
  assumes "kept_kinds s s'"
    "kind s' a \<in> {None, Some ARM_LIB_EVENT_DYNAMIC} \<or> el_timers s' a \<noteq> None \<or> kind s' a = Some (es_allocator e)"
  shows "kept_kinds s (upd_event a e s')"
proof -
  have "kept_kinds s' (upd_event a e s')"
    using assms(2) by (auto simp: kept_kinds_def kind_def)
  then show ?thesis using assms(1) by (rule kept_kinds_trans [rotated])
qed

lemma kept_kinds_upd_timer:
  assumes "kept_kinds s s'" "kind s' a \<in> {None, Some ARM_LIB_EVENT_DYNAMIC, Some ARM_LIB_EVENT_TIMER}"
  shows "kept_kinds s (upd_timer a t s')"
proof -
  have "kept_kinds s' (upd_timer a t s')"
    using assms(2) by (auto simp: kept_kinds_def kind_def)
  then show ?thesis using assms(1) by (rule kept_kinds_trans [rotated])
qed

definition goes :: "nat set \<Rightarrow> event_loop \<Rightarrow> event_loop option \<Rightarrow> bool" where
  "goes held s m \<longleftrightarrow> (\<exists>s'. m = Some s' \<and> loop_inv {} held s' \<and> kept_kinds s s')"

definition goes_with :: "nat set \<Rightarrow> event_loop \<Rightarrow> ('r \<times> event_loop) option \<Rightarrow> bool" where
  "goes_with held s m \<longleftrightarrow> goes held s (map_option snd m)"

lemma goesI: "m = Some s' \<Longrightarrow> loop_inv {} held s' \<Longrightarrow> kept_kinds s s' \<Longrightarrow> goes held s m"
  by (simp add: goes_def)

lemma goes_withI: "m = Some (r, s') \<Longrightarrow> loop_inv {} held s' \<Longrightarrow> kept_kinds s s' \<Longrightarrow> goes_with held s m"
  by (simp add: goes_with_def goes_def)

section \<open>Sending\<close>

lemma send_allocated_ok:
  assumes "loop_inv (insert a loose) held s" "a \<notin> loose" "el_events s a = Some e" "receiver_ok s e"
    "al = ARM_LIB_EVENT_TIMER \<longleftrightarrow> el_timers s a \<noteq> None"
    "kind s a = Some al"
  obtains q where
    "send_allocated al a s =
       Some (upd_event a (e\<lparr>es_allocator := al, es_state := ARM_LIB_EVENT_QUEUED\<rparr>) (s\<lparr>event_queue_active := q\<rparr>))"
    "link_before_first (lower_priority s a) a (event_queue_active s) = Some q"
    "loop_inv loose held
       (upd_event a (e\<lparr>es_allocator := al, es_state := ARM_LIB_EVENT_QUEUED\<rparr>) (s\<lparr>event_queue_active := q\<rparr>))"
    "kept_kinds s
       (upd_event a (e\<lparr>es_allocator := al, es_state := ARM_LIB_EVENT_QUEUED\<rparr>) (s\<lparr>event_queue_active := q\<rparr>))"
proof -
  let ?s = "upd_event a (e\<lparr>es_allocator := al\<rparr>) s"
  have "loop_inv (insert a loose) held ?s"
    using assms(1) by (rule loop_inv_upd_event) simp
  moreover have "receiver_ok ?s (e\<lparr>es_allocator := al\<rparr>)"
    using assms(4) by (simp add: receiver_ok_def)
  ultimately obtain q where q: "event_core_write a ?s =
      Some (upd_event a (e\<lparr>es_allocator := al, es_state := ARM_LIB_EVENT_QUEUED\<rparr>) (?s\<lparr>event_queue_active := q\<rparr>))"
    "link_before_first (lower_priority ?s a) a (event_queue_active ?s) = Some q"
    "loop_inv loose held (upd_event a (e\<lparr>es_allocator := al, es_state := ARM_LIB_EVENT_QUEUED\<rparr>)
       (?s\<lparr>event_queue_active := q\<rparr>))"
    using assms(2,5) by (elim event_core_write_ok [where e = "e\<lparr>es_allocator := al\<rparr>"]) simp_all
  have same: "upd_event a e' (?s\<lparr>event_queue_active := q\<rparr>) = upd_event a e' (s\<lparr>event_queue_active := q\<rparr>)" for e'
    by (simp add: upd_event_def)
  have "lower_priority ?s a = lower_priority s a"
    using assms(3) by (auto simp: fun_eq_iff lower_priority_def)
  then have link: "link_before_first (lower_priority s a) a (event_queue_active s) = Some q"
    using q(2) by simp
  have "kept_kinds s (upd_event a (e\<lparr>es_allocator := al, es_state := ARM_LIB_EVENT_QUEUED\<rparr>)
      (s\<lparr>event_queue_active := q\<rparr>))"
    by (rule kept_kinds_upd_event) (use assms(6) in simp_all)
  then show ?thesis
    by (intro that [of q]) (use q link assms(3) in \<open>simp_all add: same send_allocated_def\<close>)
qed

lemma send_allocated_goes:
  assumes "loop_inv {a} held s" "el_events s a = Some e" "receiver_ok s e"
    "al = ARM_LIB_EVENT_TIMER \<longleftrightarrow> el_timers s a \<noteq> None" "kind s a = Some al"
  shows "goes held s (send_allocated al a s)"
  by (rule send_allocated_ok [OF assms(1) _ assms(2-5)]) (simp, rule goesI)

definition fresh_event :: "new_event \<Rightarrow> event_loop \<Rightarrow> bool" where
  "fresh_event alloc s \<longleftrightarrow> (case alloc of None \<Rightarrow> True | Some (a, e) \<Rightarrow> el_events s a = None)"

definition fresh_timer :: "new_timer \<Rightarrow> event_loop \<Rightarrow> bool" where
  "fresh_timer alloc s \<longleftrightarrow> (case alloc of None \<Rightarrow> True | Some (a, e, t) \<Rightarrow> el_events s a = None)"

lemma event_core_get_ok:
  assumes inv: "loop_inv {} held s" and alloc: "fresh_event alloc s"
  obtains (none) "event_core_get alloc s = Some (None, s)"
  | (some) a s' e where "event_core_get alloc s = Some (Some a, s')" "loop_inv {a} held s'"
      "el_events s' a = Some e" "es_allocator e \<noteq> ARM_LIB_EVENT_TIMER" "el_timers s' a = None"
      "tasklet_list s' = tasklet_list s" "kept_kinds s s'" "kind s' a = Some (es_allocator e)"
proof (cases "free_event_entry s")
  case (Cons a as)
  then have a: "free_ok s a" using inv by (simp add: loop_inv_def)
  then obtain e where e: "el_events s a = Some e" "es_allocator e = ARM_LIB_EVENT_STARTUP_POOL"
    "el_timers s a = None" by (auto simp: free_ok_def)
  let ?s1 = "s\<lparr>free_event_entry := list_remove (free_event_entry s) a\<rparr>"
  let ?e = "e\<lparr>es_data := (es_data e)\<lparr>ev_data_ptr := None, ev_priority := ARM_LIB_LOW_PRIORITY_EVENT\<rparr>\<rparr>"
  have "loop_inv {a} held ?s1"
    using loop_inv_take_free [OF inv, of a] Cons by simp
  then have "loop_inv {a} held (upd_event a ?e ?s1)"
    by (rule loop_inv_upd_event) simp
  moreover have "event_core_get alloc s = Some (Some a, upd_event a ?e ?s1)"
    using Cons e by (simp add: event_core_get_def list_first_def)
  moreover have "kept_kinds s (upd_event a ?e ?s1)"
    using e by (intro kept_kinds_upd_event) (simp_all add: kind_def)
  ultimately show ?thesis
    using e by (intro some [of a "upd_event a ?e ?s1" ?e]) (simp_all add: kind_def)
next
  case Nil
  show ?thesis
  proof (cases alloc)
    case None
    then show ?thesis
      using Nil none by (simp add: event_core_get_def list_first_def event_dynamically_allocate_def)
  next
    case (Some p)
    obtain a e where p: "p = (a, e)" by (cases p)
    then have new: "el_events s a = None" using alloc Some by (simp add: fresh_event_def)
    note fresh = loop_inv_fresh [OF inv new]
    let ?e = "e\<lparr>es_allocator := ARM_LIB_EVENT_DYNAMIC,
                es_data := (es_data e)\<lparr>ev_data_ptr := None, ev_priority := ARM_LIB_LOW_PRIORITY_EVENT\<rparr>\<rparr>"
    have s': "event_core_get alloc s = Some (Some a, upd_event a ?e s)"
      using Nil Some p
      by (simp add: event_core_get_def list_first_def event_dynamically_allocate_def upd_event_def)
    have "loop_inv {a} held (upd_event a ?e s)"
      using fresh(4) by (rule loop_inv_upd_event) simp
    moreover have "kept_kinds s (upd_event a ?e s)"
      using new by (intro kept_kinds_upd_event) (simp_all add: kind_def)
    ultimately show ?thesis
      using s' fresh(3) by (intro some [of a "upd_event a ?e s" ?e]) (simp_all add: kind_def)
  qed
qed

lemma write_data_ok:
  assumes "loop_inv {a} held s" "el_events s a = Some e" "es_allocator e \<noteq> ARM_LIB_EVENT_TIMER"
    "el_timers s a = None" "kind s a = Some (es_allocator e)" "receiver_ok s (e\<lparr>es_data := d\<rparr>)"
  shows "goes held s (event_core_write a (upd_event a (e\<lparr>es_data := d\<rparr>) s))"
proof -
  let ?s = "upd_event a (e\<lparr>es_data := d\<rparr>) s"
  have "loop_inv {a} held ?s"
    using assms(1) by (rule loop_inv_upd_event) simp
  moreover have "receiver_ok ?s (e\<lparr>es_data := d\<rparr>)"
    using assms(6) by (simp add: receiver_ok_def)
  ultimately obtain q where
    "event_core_write a ?s = Some (upd_event a (e\<lparr>es_data := d, es_state := ARM_LIB_EVENT_QUEUED\<rparr>)
       (?s\<lparr>event_queue_active := q\<rparr>))"
    "loop_inv {} held (upd_event a (e\<lparr>es_data := d, es_state := ARM_LIB_EVENT_QUEUED\<rparr>)
       (?s\<lparr>event_queue_active := q\<rparr>))"
    using assms(3,4) by (elim event_core_write_ok [where e = "e\<lparr>es_data := d\<rparr>"]) simp_all
  then show ?thesis
    using assms(2,4) by (intro goesI) (auto intro!: kept_kinds_upd_event simp: kind_def)
qed

lemma eventOS_event_send_ok:
  assumes inv: "loop_inv {} held s" and alloc: "fresh_event alloc s"
  shows "goes_with held s (eventOS_event_send alloc event s)"
proof (cases "event_tasklet_handler_get (tasklet_index (ev_receiver event)) s")
  case None
  then show ?thesis
    using inv by (intro goes_withI [of _ "-1" s]) (simp_all add: eventOS_event_send_def)
next
  case (Some t)
  show ?thesis
  proof (rule event_core_get_ok [OF inv alloc])
    assume "event_core_get alloc s = Some (None, s)"
    then show ?thesis
      using inv Some by (intro goes_withI [of _ "-1" s]) (simp_all add: eventOS_event_send_def)
  next
    fix a s1 e
    assume get: "event_core_get alloc s = Some (Some a, s1)" and inv1: "loop_inv {a} held s1"
      and e: "el_events s1 a = Some e" "es_allocator e \<noteq> ARM_LIB_EVENT_TIMER" "el_timers s1 a = None"
      and kept: "tasklet_list s1 = tasklet_list s" "kept_kinds s s1" "kind s1 a = Some (es_allocator e)"
    have "receiver_ok s1 (e\<lparr>es_data := event\<rparr>)"
      using Some kept(1) by (simp add: receiver_ok_def event_tasklet_handler_get_def)
    then have "goes held s1 (event_core_write a (upd_event a (e\<lparr>es_data := event\<rparr>) s1))"
      by (rule write_data_ok [OF inv1 e kept(3)])
    then obtain s2 where "event_core_write a (upd_event a (e\<lparr>es_data := event\<rparr>) s1) = Some s2"
      "loop_inv {} held s2" "kept_kinds s1 s2" by (auto simp: goes_def)
    then show ?thesis
      using get e(1) Some kept(2)
      by (intro goes_withI [of _ 0 s2]) (auto simp: eventOS_event_send_def intro: kept_kinds_trans)
  qed
qed

lemma send_user_ok:
  assumes inv: "loop_inv {} held s" and a: "a \<notin> set (linked s)" "a \<notin> held" "is_user s a"
    and e: "el_events s a = Some e" "receiver_ok s e"
  shows "goes held s (eventOS_event_send_user_allocated a s)"
proof -
  have "loop_inv {a} held s" by (rule loop_inv_loosen) fact+
  then show ?thesis
    unfolding eventOS_event_send_user_allocated_def
    using e a(3) by (elim send_allocated_ok) (auto simp: is_user_def kind_def split: if_splits intro: goesI)
qed

section \<open>Tasklets\<close>

lemma receiver_ok_more: "receiver_ok s e \<Longrightarrow> receiver_ok (s\<lparr>tasklet_list := tasklet_list s @ [x]\<rparr>) e"
  by (auto simp: receiver_ok_def event_tasklet_handler_get_def find_None_iff)

lemma loop_inv_add_tasklet:
  assumes "loop_inv loose held s"
  shows "loop_inv loose held (s\<lparr>tasklet_list := tasklet_list s @ [x]\<rparr>)"
proof -
  let ?s = "s\<lparr>tasklet_list := tasklet_list s @ [x]\<rparr>"
  have mono: "queued_ok s a \<Longrightarrow> queued_ok ?s a" "free_ok s a \<Longrightarrow> free_ok ?s a"
    "idle_timer_ok s a \<Longrightarrow> idle_timer_ok ?s a" "pending_ok s a \<Longrightarrow> pending_ok ?s a"
    "running_ok s a \<Longrightarrow> running_ok ?s a" for a
    using receiver_ok_more [of s _ x]
    by (auto simp: queued_ok_def free_ok_def idle_timer_ok_def pending_ok_def running_ok_def
        in_future_def cong: option.case_cong)
  have "priority_key ?s = priority_key s" "ticks_left ?s = ticks_left s"
    by (simp_all add: fun_eq_iff priority_key_def ticks_left_def cong: option.case_cong)
  then show ?thesis
    using assms mono by (auto simp: loop_inv_def owned_def linked_def)
qed

lemma tasklet_get_free_id_ok:
  assumes "length (tasklet_list s) < 128"
  shows "\<exists>i < 128. tasklet_get_free_id s = int i \<and> event_tasklet_handler_get i s = None"
proof -
  have "\<exists>i < 128. event_tasklet_handler_get i s = None"
  proof (rule ccontr)
    assume "\<not> ?thesis"
    then have "\<forall>i < 128. \<exists>t \<in> set (tasklet_list s). fst t = int i"
      by (fastforce simp: event_tasklet_handler_get_def find_None_iff)
    then have "int ` {..<128} \<subseteq> fst ` set (tasklet_list s)" by force
    then have "card (int ` {..<128::nat}) \<le> card (fst ` set (tasklet_list s))"
      by (intro card_mono) simp_all
    also have "\<dots> \<le> length (tasklet_list s)"
      using card_image_le [of "set (tasklet_list s)" fst] card_length [of "tasklet_list s"] by simp
    finally show False using assms by (simp add: card_image)
  qed
  then obtain i where "find (\<lambda>i. event_tasklet_handler_get i s = None) [0..<128] = Some i"
    by (cases "find (\<lambda>i. event_tasklet_handler_get i s = None) [0..<128]") (auto simp: find_None_iff)
  moreover from this have "i < 128" "event_tasklet_handler_get i s = None"
    by (auto simp: find_Some_iff)
  ultimately show ?thesis
    by (auto simp: tasklet_get_free_id_def)
qed

lemma eventOS_event_handler_create_ok:
  assumes inv: "loop_inv {} held s" and alloc: "fresh_event alloc s"
    and few: "length (tasklet_list s) < 128"
  shows "goes_with held s (eventOS_event_handler_create granted alloc f ty s)"
proof (cases "f \<in> snd ` set (tasklet_list s) \<or> \<not> granted")
  case True
  then show ?thesis
    using inv
    by (intro goes_withI [of _ "if f \<in> snd ` set (tasklet_list s) then -1 else -2" s])
      (auto simp: eventOS_event_handler_create_def)
next
  case new: False
  show ?thesis
  proof (rule event_core_get_ok [OF inv alloc])
    assume "event_core_get alloc s = Some (None, s)"
    then show ?thesis
      using inv new by (intro goes_withI [of _ "-2" s]) (simp_all add: eventOS_event_handler_create_def)
  next
    fix a s1 e
    assume get: "event_core_get alloc s = Some (Some a, s1)" and inv1: "loop_inv {a} held s1"
      and e: "el_events s1 a = Some e" "es_allocator e \<noteq> ARM_LIB_EVENT_TIMER" "el_timers s1 a = None"
      and kept: "tasklet_list s1 = tasklet_list s" "kept_kinds s s1" "kind s1 a = Some (es_allocator e)"
    obtain i where i: "i < 128" "tasklet_get_free_id s1 = int i" "event_tasklet_handler_get i s1 = None"
      using tasklet_get_free_id_ok [of s1] few kept(1) by auto
    let ?s2 = "s1\<lparr>tasklet_list := tasklet_list s1 @ [(int i, f)]\<rparr>"
    let ?d = "(es_data e)\<lparr>ev_receiver := int i, ev_sender := 0, ev_type := ty, ev_data := 0\<rparr>"
    have inv2: "loop_inv {a} held ?s2"
      using inv1 by (rule loop_inv_add_tasklet)
    have "tasklet_index (int i) = i"
      using i(1) by (simp add: tasklet_index_def flip: of_nat_mod)
    then have "receiver_ok ?s2 (e\<lparr>es_data := ?d\<rparr>)"
      by (auto simp: receiver_ok_def event_tasklet_handler_get_def find_None_iff)
    then have "goes held ?s2 (event_core_write a (upd_event a (e\<lparr>es_data := ?d\<rparr>) ?s2))"
      using e kept(3) by (intro write_data_ok [OF inv2]) simp_all
    then obtain s3 where s3: "event_core_write a (upd_event a (e\<lparr>es_data := ?d\<rparr>) ?s2) = Some s3"
      "loop_inv {} held s3" "kept_kinds ?s2 s3" by (auto simp: goes_def)
    then show ?thesis
      using get e(1) new kept(2) i(2)
      by (intro goes_withI [of _ "int i" s3])
        (auto simp: eventOS_event_handler_create_def Let_def list_add_to_end_def kept_kinds_def)
  qed
qed

section \<open>Timers\<close>

lemma send_timer_ok:
  assumes "loop_inv {a} held s" "el_events s a = Some e" "receiver_ok s e" "el_timers s a \<noteq> None"
  shows "goes held s (eventOS_event_send_timer_allocated a s)"
  unfolding eventOS_event_send_timer_allocated_def
  using assms by (elim send_allocated_ok) (auto simp: kind_def intro: goesI)

lemma add_or_send_ok:
  assumes inv: "loop_inv {a} held s" and e: "el_events s a = Some e" "receiver_ok s e"
      "es_allocator e = ARM_LIB_EVENT_TIMER" "es_state e = ARM_LIB_EVENT_UNQUEUED"
    and t: "el_timers s a = Some t"
  shows "goes held s (if ticks_before_or_at (launch_time t) (timer_sys_ticks s)
                      then eventOS_event_send_timer_allocated a s else timer_sys_add a s)"
proof (cases "ticks_before_or_at (launch_time t) (timer_sys_ticks s)")
  case True
  then show ?thesis
    using send_timer_ok [OF inv e(1,2)] t by simp
next
  case False
  have "pending_ok s a"
    using e t False by (simp add: pending_ok_def in_future_def ticks_before_or_at_def)
  then show ?thesis
    using False by (auto intro: goesI elim!: timer_sys_add_ok [OF inv, simplified])
qed

lemma timer_sys_event_free_ok:
  assumes inv: "loop_inv {a} held s" and e: "el_events s a = Some e" "receiver_ok s e"
      "es_allocator e = ARM_LIB_EVENT_TIMER" "es_state e = ARM_LIB_EVENT_UNQUEUED"
    and t: "el_timers s a = Some t"
  shows "goes held s (timer_sys_event_free a s)"
proof (cases "period t = 0")
  case True
  have "loop_inv {} held (s\<lparr>system_timer_free := list_add_to_start (system_timer_free s) a\<rparr>)"
    using loop_inv_put_idle [OF inv] e(1) t by (simp add: idle_timer_ok_def)
  then show ?thesis
    using True t loose_facts [OF inv]
    by (intro goesI [of _ "s\<lparr>system_timer_free := list_add_to_start (system_timer_free s) a\<rparr>"])
      (simp_all add: timer_sys_event_free_def)
next
  case False
  let ?t = "t\<lparr>launch_time := launch_time t + period t\<rparr>"
  let ?s = "upd_timer a ?t s"
  have inv1: "loop_inv {a} held ?s"
    using inv by (rule loop_inv_upd_timer) simp
  have "goes held ?s (if ticks_before_or_at (launch_time ?t) (timer_sys_ticks ?s)
                      then eventOS_event_send_timer_allocated a ?s else timer_sys_add a ?s)"
    using e by (intro add_or_send_ok [OF inv1]) (simp_all add: receiver_ok_def event_tasklet_handler_get_def)
  then obtain s' where "timer_sys_event_free a s = Some s'" "loop_inv {} held s'" "kept_kinds ?s s'"
    using False t by (auto simp: goes_def timer_sys_event_free_def Let_def)
  moreover have "kept_kinds s ?s"
    using t by (intro kept_kinds_upd_timer) (simp_all add: kind_def)
  ultimately show ?thesis
    by (intro goesI [of _ s']) (auto intro: kept_kinds_trans)
qed

lemma timer_struct_get_ok:
  assumes inv: "loop_inv {} held s" and alloc: "fresh_timer alloc s"
  obtains (none) "timer_struct_get alloc s = (None, s)"
  | (some) a s' e t where "timer_struct_get alloc s = (Some a, s')" "loop_inv {a} held s'"
      "el_events s' a = Some e" "el_timers s' a = Some t" "tasklet_list s' = tasklet_list s"
      "timer_sys_ticks s' = timer_sys_ticks s" "kept_kinds s s'"
proof (cases "system_timer_free s")
  case (Cons a as)
  then have a: "idle_timer_ok s a" using inv by (simp add: loop_inv_def)
  then obtain e t where "el_events s a = Some e" "el_timers s a = Some t"
    by (auto simp: idle_timer_ok_def)
  moreover have "loop_inv {a} held (s\<lparr>system_timer_free := list_remove (system_timer_free s) a\<rparr>)"
    using loop_inv_take_idle [OF inv, of a] Cons by simp
  moreover have "timer_struct_get alloc s =
      (Some a, s\<lparr>system_timer_free := list_remove (system_timer_free s) a\<rparr>)"
    using Cons by (simp add: timer_struct_get_def list_first_def)
  ultimately show ?thesis
    by (intro some [of a "s\<lparr>system_timer_free := list_remove (system_timer_free s) a\<rparr>" e t]) simp_all
next
  case Nil
  show ?thesis
  proof (cases alloc)
    case None
    then show ?thesis using Nil none by (simp add: timer_struct_get_def list_first_def)
  next
    case (Some p)
    obtain a e t where p: "p = (a, e, t)" by (cases p)
    then have new: "el_events s a = None" using alloc Some by (simp add: fresh_timer_def)
    let ?s = "upd_timer a t (upd_event a e s)"
    have "loop_inv {a} held (upd_event a e s)"
      using loop_inv_fresh(4) [OF inv new] by (rule loop_inv_upd_event) simp
    then have "loop_inv {a} held ?s" by (rule loop_inv_upd_timer) simp
    moreover have "kept_kinds s ?s"
      using new by (auto simp: kept_kinds_def kind_def)
    moreover have "timer_struct_get alloc s = (Some a, ?s)"
      using Nil Some p by (simp add: timer_struct_get_def list_first_def)
    ultimately show ?thesis
      by (intro some [of a ?s e t]) simp_all
  qed
qed

lemma request_at_locked_ok:
  assumes inv: "loop_inv {} held s" and alloc: "fresh_timer alloc s"
  shows "goes_with held s (eventOS_event_timer_request_at_locked alloc event launch every s)"
proof (cases "event_tasklet_handler_id_valid (tasklet_index (ev_receiver event)) s")
  case False
  then show ?thesis
    using inv by (intro goes_withI [of _ None s]) (simp_all add: eventOS_event_timer_request_at_locked_def)
next
  case valid: True
  show ?thesis
  proof (rule timer_struct_get_ok [OF inv alloc])
    assume "timer_struct_get alloc s = (None, s)"
    then show ?thesis
      using inv valid
      by (intro goes_withI [of _ None s]) (simp_all add: eventOS_event_timer_request_at_locked_def)
  next
    fix a s1 e t
    assume get: "timer_struct_get alloc s = (Some a, s1)" and inv1: "loop_inv {a} held s1"
      and et: "el_events s1 a = Some e" "el_timers s1 a = Some t"
      and kept: "tasklet_list s1 = tasklet_list s" "timer_sys_ticks s1 = timer_sys_ticks s" "kept_kinds s s1"
    let ?e = "e\<lparr>es_data := event, es_allocator := ARM_LIB_EVENT_TIMER, es_state := ARM_LIB_EVENT_UNQUEUED\<rparr>"
    let ?t = "t\<lparr>launch_time := launch, period := every\<rparr>"
    let ?s2 = "upd_timer a ?t (upd_event a ?e s1)"
    have "loop_inv {a} held (upd_event a ?e s1)"
      using inv1 by (rule loop_inv_upd_event) simp
    then have inv2: "loop_inv {a} held ?s2" by (rule loop_inv_upd_timer) simp
    have "receiver_ok ?s2 ?e"
      using valid kept(1)
      by (simp add: receiver_ok_def event_tasklet_handler_id_valid_def event_tasklet_handler_get_def)
    then have "goes held ?s2 (if ticks_before_or_at launch (timer_sys_ticks ?s2)
        then eventOS_event_send_timer_allocated a ?s2 else timer_sys_add a ?s2)"
      using add_or_send_ok [OF inv2, of ?e ?t] by simp
    then obtain s3 where s3: "(if ticks_before_or_at launch (timer_sys_ticks ?s2)
        then eventOS_event_send_timer_allocated a ?s2 else timer_sys_add a ?s2) = Some s3"
      "loop_inv {} held s3" "kept_kinds ?s2 s3" by (auto simp: goes_def)
    have "kept_kinds s1 ?s2"
      using et by (auto simp: kept_kinds_def kind_def)
    then have "kept_kinds s s3"
      using kept(3) s3(3) by (blast intro: kept_kinds_trans)
    then show ?thesis
      using get et valid s3
      by (intro goes_withI [of _ "Some a" s3])
        (auto simp: eventOS_event_timer_request_at_locked_def Let_def split: if_splits)
  qed
qed

section \<open>Giving events back\<close>

text \<open>What is asked of an event that goes back: it is where its allocator says it belongs.\<close>

lemma event_core_free_push_ok:
  assumes inv: "loop_inv {a} held s" and e: "el_events s a = Some e" "receiver_ok s e"
      "es_allocator e = ARM_LIB_EVENT_TIMER \<longleftrightarrow> el_timers s a \<noteq> None"
  shows "goes held s (event_core_free_push a s)"
proof -
  let ?e = "e\<lparr>es_state := ARM_LIB_EVENT_UNQUEUED\<rparr>"
  let ?s = "upd_event a ?e s"
  have inv1: "loop_inv {a} held ?s"
    using inv by (rule loop_inv_upd_event) simp
  have kept: "kept_kinds s ?s"
    using e(1) by (intro kept_kinds_upd_event) (simp_all add: kind_def)
  note a = loose_facts [OF inv]
  show ?thesis
  proof (cases "es_allocator e")
    case ARM_LIB_EVENT_STARTUP_POOL
    let ?r = "?s\<lparr>free_event_entry := list_add_to_start (free_event_entry s) a\<rparr>"
    have "free_ok ?s a" using e ARM_LIB_EVENT_STARTUP_POOL by (simp add: free_ok_def)
    then have "loop_inv {} held ?r"
      using loop_inv_put_free [OF inv1] by simp
    moreover have "event_core_free_push a s = Some ?r"
      using e(1) ARM_LIB_EVENT_STARTUP_POOL a(1)
      by (simp add: event_core_free_push_def upd_event_def linked_def)
    ultimately show ?thesis
      using kept by (intro goesI [of _ ?r]) simp_all
  next
    case ARM_LIB_EVENT_DYNAMIC
    then have "loop_inv {} held (s\<lparr>el_events := (el_events s)(a := None)\<rparr>)"
      using loop_inv_remove_event [OF inv] e by simp
    moreover have "kept_kinds s (s\<lparr>el_events := (el_events s)(a := None)\<rparr>)"
      using e ARM_LIB_EVENT_DYNAMIC by (auto simp: kept_kinds_def kind_def)
    ultimately show ?thesis
      using e(1) ARM_LIB_EVENT_DYNAMIC a(1)
      by (intro goesI [of _ "s\<lparr>el_events := (el_events s)(a := None)\<rparr>"])
        (simp_all add: event_core_free_push_def)
  next
    case ARM_LIB_EVENT_USER
    then have "loop_inv {} held s"
      using loop_inv_drop [OF inv] e by simp
    then show ?thesis
      using e(1) ARM_LIB_EVENT_USER by (intro goesI [of _ s]) (simp_all add: event_core_free_push_def)
  next
    case ARM_LIB_EVENT_TIMER
    then obtain t where t: "el_timers s a = Some t" using e(3) by auto
    have "receiver_ok ?s ?e" using e(2) by (simp add: receiver_ok_def)
    then have "goes held ?s (timer_sys_event_free a ?s)"
      using t ARM_LIB_EVENT_TIMER
      by (intro timer_sys_event_free_ok [OF inv1, where e = "?e"]) (simp_all add: receiver_ok_def)
    then obtain s' where "timer_sys_event_free a ?s = Some s'" "loop_inv {} held s'" "kept_kinds ?s s'"
      by (auto simp: goes_def)
    then show ?thesis
      using e(1) ARM_LIB_EVENT_TIMER kept
      by (intro goesI [of _ s']) (auto simp: event_core_free_push_def intro: kept_kinds_trans)
  qed
qed

lemma loop_inv_set_period:
  assumes "loop_inv loose held s" "el_timers s a = Some t"
  shows "loop_inv loose held (upd_timer a (t\<lparr>period := p\<rparr>) s)"
proof -
  let ?s = "upd_timer a (t\<lparr>period := p\<rparr>) s"
  have "queued_ok ?s b = queued_ok s b" "free_ok ?s b = free_ok s b"
    "idle_timer_ok ?s b = idle_timer_ok s b" "pending_ok ?s b = pending_ok s b"
    "running_ok ?s b = running_ok s b" "ticks_left ?s b = ticks_left s b" for b
    using assms(2)
    by (simp_all add: event_defs ticks_left_def cong: option.case_cong)
  then have "queued_ok ?s = queued_ok s" "free_ok ?s = free_ok s"
    "idle_timer_ok ?s = idle_timer_ok s" "pending_ok ?s = pending_ok s"
    "running_ok ?s = running_ok s" "ticks_left ?s = ticks_left s"
    by (simp_all add: fun_eq_iff)
  then show ?thesis
    using assms by (auto simp: loop_inv_def owned_def)
qed

lemma loop_inv_queued: "loop_inv loose held s \<Longrightarrow> a \<in> set (event_queue_active s) \<Longrightarrow> queued_ok s a"
  and loop_inv_pending: "loop_inv loose held s \<Longrightarrow> a \<in> set (system_timer_list s) \<Longrightarrow> pending_ok s a"
  and loop_inv_running: "loop_inv loose held s \<Longrightarrow> a \<in> held \<Longrightarrow> running_ok s a"
  by (simp_all add: loop_inv_def)

lemma goes_trans: "kept_kinds s t \<Longrightarrow> goes held t m \<Longrightarrow> goes held s m"
  by (auto simp: goes_def intro: kept_kinds_trans)

lemma cancel_queued_ok:
  assumes inv: "loop_inv {} held s" and a: "a \<in> set (event_queue_active s)"
  shows "goes held s (eventOS_cancel (Some a) s)"
proof -
  obtain e where e: "el_events s a = Some e" "es_state e = ARM_LIB_EVENT_QUEUED" "receiver_ok s e"
    "es_allocator e = ARM_LIB_EVENT_TIMER \<longleftrightarrow> el_timers s a \<noteq> None"
    using loop_inv_queued [OF inv a] by (auto simp: queued_ok_def)
  show ?thesis
  proof (cases "es_allocator e = ARM_LIB_EVENT_TIMER")
    case True
    then obtain t where t: "el_timers s a = Some t" using e(4) by auto
    let ?s1 = "upd_timer a (t\<lparr>period := 0\<rparr>) s"
    let ?s2 = "?s1\<lparr>event_queue_active := list_remove (event_queue_active ?s1) a\<rparr>"
    have "loop_inv {} held ?s1" by (rule loop_inv_set_period) fact+
    then have "loop_inv {a} held ?s2"
      using loop_inv_take_active [of "{}" held ?s1 a] a by simp
    then have "goes held ?s2 (event_core_free_push a ?s2)"
      using e True by (intro event_core_free_push_ok [where e = e]) simp_all
    moreover have "kept_kinds s ?s2"
      using t by (auto simp: kept_kinds_def kind_def)
    moreover have "eventOS_cancel (Some a) s = event_core_free_push a ?s2"
      using e True t a
      by (simp add: eventOS_cancel_def timer_sys_event_cancel_critical_def eventOS_event_cancel_critical_def)
    ultimately show ?thesis
      using goes_trans [of s ?s2] by simp
  next
    case False
    let ?s2 = "s\<lparr>event_queue_active := list_remove (event_queue_active s) a\<rparr>"
    have "loop_inv {a} held ?s2"
      using loop_inv_take_active [OF inv a] by simp
    then have "goes held ?s2 (event_core_free_push a ?s2)"
      using e by (intro event_core_free_push_ok [where e = e]) simp_all
    moreover have "eventOS_cancel (Some a) s = event_core_free_push a ?s2"
      using e False a by (simp add: eventOS_cancel_def eventOS_event_cancel_critical_def)
    ultimately show ?thesis
      using goes_trans [of s ?s2] by simp
  qed
qed

lemma cancel_pending_ok:
  assumes inv: "loop_inv {} held s" and a: "a \<in> set (system_timer_list s)"
  shows "goes held s (eventOS_cancel (Some a) s)"
proof -
  obtain e t where e: "el_events s a = Some e" "es_state e = ARM_LIB_EVENT_UNQUEUED"
    "es_allocator e = ARM_LIB_EVENT_TIMER" "receiver_ok s e" and t: "el_timers s a = Some t"
    using loop_inv_pending [OF inv a] by (auto simp: pending_ok_def in_future_def split: option.splits)
  let ?s1 = "upd_timer a (t\<lparr>period := 0\<rparr>) s"
  let ?s2 = "?s1\<lparr>system_timer_list := list_remove (system_timer_list ?s1) a\<rparr>"
  have "loop_inv {} held ?s1" by (rule loop_inv_set_period) fact+
  then have "loop_inv {a} held ?s2"
    using loop_inv_take_pending [of "{}" held ?s1 a] a by simp
  then have "goes held ?s2 (event_core_free_push a ?s2)"
    using e by (intro event_core_free_push_ok [where e = e]) simp_all
  moreover have "kept_kinds s ?s2"
    using t by (auto simp: kept_kinds_def kind_def)
  moreover have "eventOS_cancel (Some a) s = event_core_free_push a ?s2"
    using e t a by (simp add: eventOS_cancel_def timer_sys_event_cancel_critical_def)
  ultimately show ?thesis
    using goes_trans [of s ?s2] by simp
qed

lemma cancel_running_ok:
  assumes inv: "loop_inv {} held s" and a: "a \<in> held"
  shows "goes held s (eventOS_cancel (Some a) s)"
proof -
  obtain e where e: "el_events s a = Some e" "es_state e = ARM_LIB_EVENT_RUNNING"
    "es_allocator e = ARM_LIB_EVENT_TIMER \<longleftrightarrow> el_timers s a \<noteq> None"
    using loop_inv_running [OF inv a] by (auto simp: running_ok_def)
  show ?thesis
  proof (cases "el_timers s a")
    case None
    then show ?thesis
      using e inv by (intro goesI [of _ s]) (simp_all add: eventOS_cancel_def)
  next
    case (Some t)
    let ?s1 = "upd_timer a (t\<lparr>period := 0\<rparr>) s"
    have "eventOS_cancel (Some a) s = Some ?s1"
      using e Some by (simp add: eventOS_cancel_def timer_sys_event_cancel_critical_def)
    moreover have "loop_inv {} held ?s1" by (rule loop_inv_set_period) fact+
    moreover have "kept_kinds s ?s1"
      using Some by (auto simp: kept_kinds_def kind_def)
    ultimately show ?thesis by (rule goesI)
  qed
qed

lemma find_event_found:
  "\<forall>b \<in> set as. events b \<noteq> None \<Longrightarrow>
   find_event events r i as = Some (find (\<lambda>b. \<exists>e. events b = Some e \<and> ev_receiver (es_data e) = r \<and>
                                             ev_id (es_data e) = i) as)"
  by (induction as) auto

lemma timer_cancel_ok:
  assumes inv: "loop_inv {} held s"
  shows "goes_with held s (eventOS_event_timer_cancel i r s)"
proof -
  have events: "\<forall>b \<in> set (system_timer_list s). el_events s b \<noteq> None"
    "\<forall>b \<in> set (event_queue_active s). el_events s b \<noteq> None"
    using inv by (fastforce simp: loop_inv_def event_defs)+
  let ?p = "\<lambda>r b. \<exists>e. el_events s b = Some e \<and> ev_receiver (es_data e) = r \<and> ev_id (es_data e) = i"
  show ?thesis
  proof (cases "find (?p r) (system_timer_list s)")
    case (Some a)
    then have "a \<in> set (system_timer_list s)" by (auto simp: find_Some_iff)
    then obtain s' where "eventOS_cancel (Some a) s = Some s'" "loop_inv {} held s'" "kept_kinds s s'"
      using cancel_pending_ok [OF inv] by (auto simp: goes_def)
    then show ?thesis
      using Some
      by (intro goes_withI [of _ 0 s'])
        (simp_all add: eventOS_event_timer_cancel_def find_event_found [OF events(1)])
  next
    case None
    let ?r = "int (tasklet_index r)"
    show ?thesis
    proof (cases "find (?p ?r) (event_queue_active s)")
      case queued: (Some a)
      then have a: "a \<in> set (event_queue_active s)" by (auto simp: find_Some_iff)
      obtain e where e: "el_events s a = Some e"
        using events(2) a by auto
      obtain s' where s': "eventOS_cancel (Some a) s = Some s'" "loop_inv {} held s'" "kept_kinds s s'"
        using cancel_queued_ok [OF inv a] by (auto simp: goes_def)
      show ?thesis
        using None queued inv s' e
        by (intro goes_withI [of _ "if es_allocator e = ARM_LIB_EVENT_TIMER then 0 else -1"
                "if es_allocator e = ARM_LIB_EVENT_TIMER then s' else s"])
          (simp_all add: eventOS_event_timer_cancel_def find_event_found [OF events(1)]
             find_event_found [OF events(2)] eventOS_event_find_by_id_critical_def)
    next
      case not_queued: None
      then show ?thesis
        using None inv
        by (intro goes_withI [of _ "-1" s])
          (simp_all add: eventOS_event_timer_cancel_def find_event_found [OF events(1)]
             find_event_found [OF events(2)] eventOS_event_find_by_id_critical_def)
    qed
  qed
qed

end
