(* ===== verification/Event_Ticks.thy ===== *)
theory Event_Ticks
  imports Event_Safety
begin

text \<open>
  The tick of the system timers: exactly the timers that are due become events, in the order of
  their launch times, and the others have that much less time left, also when the tick counter
  wraps around.
\<close>

definition due :: "event_loop \<Rightarrow> nat \<Rightarrow> bool" where
  "due s a \<longleftrightarrow> (\<exists>t. el_timers s a = Some t \<and> ticks_before_or_at (launch_time t) (timer_sys_ticks s))"

lemma send_allocated_list:
  assumes "send_allocated al a s = Some s'" "a \<notin> set q"
  shows "send_allocated al a (s\<lparr>system_timer_list := q\<rparr>) = Some (s'\<lparr>system_timer_list := q\<rparr>)"
proof -
  have "lower_priority (upd_event a e (s\<lparr>system_timer_list := q\<rparr>)) a = lower_priority (upd_event a e s) a" for e
    by (simp add: fun_eq_iff lower_priority_def)
  then show ?thesis
    using assms
    by (auto simp: send_allocated_def event_core_write_def linked_def upd_event_def split: bind_splits)
qed

text \<open>
  The loop on the pending timers \<open>as @ bs\<close> of which \<open>as\<close> are due, related to its effect on the state
  in which the due timers have left the list already.
\<close>

lemma launch_due_ok:
  assumes "loop_inv (set as) held s" "distinct as"
    "\<forall>a \<in> set as. due s a \<and> (\<exists>e. el_events s a = Some e \<and> receiver_ok s e)"
  shows "\<exists>s'. launch_due (as @ system_timer_list s) (s\<lparr>system_timer_list := as @ system_timer_list s\<rparr>) = Some s' \<and>
     loop_inv {} held s' \<and> kept_kinds s s' \<and> system_timer_list s' = system_timer_list s \<and>
     timer_sys_ticks s' = timer_sys_ticks s \<and> el_timers s' = el_timers s \<and> priority_key s' = priority_key s \<and>
     (\<forall>p. filter (\<lambda>a. priority_key s a = p) (event_queue_active s') =
          filter (\<lambda>a. priority_key s a = p) (event_queue_active s) @ filter (\<lambda>a. priority_key s a = p) as) \<and>
     (\<forall>b. map_option es_data (el_events s' b) = map_option es_data (el_events s b)) \<and>
     (\<forall>b. b \<notin> set as \<longrightarrow> el_events s' b = el_events s b)"
  using assms
proof (induction as arbitrary: s)
  case Nil
  have "launch_due (system_timer_list s) s = Some s"
  proof (cases "system_timer_list s")
    case (Cons b bs)
    then have "in_future s b"
      using Nil.prems(1) by (simp add: loop_inv_def pending_ok_def)
    then show ?thesis
      using Cons by (auto simp: in_future_def ticks_before_or_at_def split: option.splits)
  qed simp
  then show ?case
    using Nil.prems(1) by simp
next
  case (Cons a as)
  let ?bs = "system_timer_list s"
  obtain e t where e: "el_events s a = Some e" "receiver_ok s e" and
    t: "el_timers s a = Some t" "ticks_before_or_at (launch_time t) (timer_sys_ticks s)"
    using Cons.prems(3) by (auto simp: due_def)
  have inv: "loop_inv (insert a (set as)) held s" and a: "a \<notin> set as"
    using Cons.prems by simp_all
  have not_bs: "a \<notin> set (as @ ?bs)"
    using loose_facts(1) [OF inv] a by (simp add: set_linked)
  let ?upd = "\<lambda>q. upd_event a (e\<lparr>es_allocator := ARM_LIB_EVENT_TIMER, es_state := ARM_LIB_EVENT_QUEUED\<rparr>)
        (s\<lparr>event_queue_active := q\<rparr>)"
  obtain q where send: "eventOS_event_send_timer_allocated a s = Some (?upd q)"
    and link: "link_before_first (lower_priority s a) a (event_queue_active s) = Some q"
    and inv1: "loop_inv (set as) held (?upd q)" and kept: "kept_kinds s (?upd q)"
    unfolding eventOS_event_send_timer_allocated_def
    by (rule send_allocated_ok [OF inv a e, of ARM_LIB_EVENT_TIMER]) (use t in \<open>auto simp: kind_def\<close>)
  let ?s1 = "?upd q"
  have key: "priority_key ?s1 = priority_key s"
    using e(1) by (simp add: fun_eq_iff priority_key_def)
  have rest: "\<forall>b \<in> set as. due ?s1 b \<and> (\<exists>e. el_events ?s1 b = Some e \<and> receiver_ok ?s1 e)"
    using Cons.prems(3) a by (auto simp: due_def)
  obtain s' where s': "launch_due (as @ ?bs) (?s1\<lparr>system_timer_list := as @ ?bs\<rparr>) = Some s'"
    "loop_inv {} held s'" "kept_kinds ?s1 s'" "system_timer_list s' = ?bs"
    "timer_sys_ticks s' = timer_sys_ticks s" "el_timers s' = el_timers s" "priority_key s' = priority_key s"
    "\<forall>p. filter (\<lambda>a. priority_key s a = p) (event_queue_active s') =
         filter (\<lambda>a. priority_key s a = p) q @ filter (\<lambda>a. priority_key s a = p) as"
    "\<forall>b. map_option es_data (el_events s' b) = map_option es_data (el_events ?s1 b)"
    "\<forall>b. b \<notin> set as \<longrightarrow> el_events s' b = el_events ?s1 b"
    using Cons.IH [OF inv1 _ rest] Cons.prems(2) by (auto simp: key)
  have valid: "el_events s a \<noteq> None" "\<forall>b \<in> set (event_queue_active s). el_events s b \<noteq> None"
    and order: "in_order (priority_key s) (event_queue_active s)"
    using e inv by (fastforce simp: loop_inv_def queued_ok_def)+
  have "launch_due ((a # as) @ ?bs) (s\<lparr>system_timer_list := (a # as) @ ?bs\<rparr>) = Some s'"
    using t s'(1) send_allocated_list [OF send [unfolded eventOS_event_send_timer_allocated_def] not_bs]
    by (simp add: list_remove_def eventOS_event_send_timer_allocated_def)
  moreover have "kept_kinds s s'" using kept s'(3) by (rule kept_kinds_trans)
  moreover have "filter (\<lambda>a. priority_key s a = p) (event_queue_active s') =
      filter (\<lambda>a. priority_key s a = p) (event_queue_active s) @ filter (\<lambda>a. priority_key s a = p) (a # as)" for p
    using s'(8) event_queue.enqueue_fifo [OF valid link order, of p] by simp
  moreover have "map_option es_data (el_events s' b) = map_option es_data (el_events s b)" for b
    using s'(9) e(1) by simp
  moreover have "el_events s' b = el_events s b" if "b \<notin> set (a # as)" for b
    using s'(10) that by simp
  ultimately show ?case
    using s'(2,4-7) by auto
qed

section \<open>The tick\<close>

lemma tick_arithmetic:
  fixes x n :: "32 word"
  assumes "0 < sint x" "0 \<le> sint n"
  shows "sint (x - n) \<le> 0 \<longleftrightarrow> unat x \<le> unat n"
    and "unat n < unat x \<Longrightarrow> unat (x - n) = unat x - unat n"
proof -
  have "sint (x - n) = int (unat x) - int (unat n)"
    using sint_diff [of x n] sint_unat [of x] sint_unat [of n] assms by linarith
  then show "sint (x - n) \<le> 0 \<longleftrightarrow> unat x \<le> unat n" by linarith
  show "unat n < unat x \<Longrightarrow> unat (x - n) = unat x - unat n"
    by (simp add: unat_sub word_le_nat_alt)
qed

lemma ok_set_ticks [simp]:
  "receiver_ok (s\<lparr>timer_sys_ticks := n\<rparr>) = receiver_ok s"
  "queued_ok (s\<lparr>timer_sys_ticks := n\<rparr>) = queued_ok s"
  "free_ok (s\<lparr>timer_sys_ticks := n\<rparr>) = free_ok s"
  "idle_timer_ok (s\<lparr>timer_sys_ticks := n\<rparr>) = idle_timer_ok s"
  "running_ok (s\<lparr>timer_sys_ticks := n\<rparr>) = running_ok s"
  "priority_key (s\<lparr>timer_sys_ticks := n\<rparr>) = priority_key s"
  by (simp_all add: event_defs fun_eq_iff priority_key_def cong: option.case_cong)

text \<open>Time passes for a pending timer.\<close>

lemma pending_after_ticks:
  assumes "pending_ok s a" "0 \<le> sint n"
  defines "s' \<equiv> s\<lparr>timer_sys_ticks := timer_sys_ticks s + n\<rparr>"
  shows "due s' a \<longleftrightarrow> ticks_left s a \<le> unat n"
    and "unat n < ticks_left s a \<Longrightarrow> pending_ok s' a"
    and "unat n < ticks_left s a \<Longrightarrow> ticks_left s' a = ticks_left s a - unat n"
proof -
  obtain t where t: "el_timers s a = Some t" "0 < sint (launch_time t - timer_sys_ticks s)"
    using assms(1) by (auto simp: pending_ok_def in_future_def split: option.splits)
  have diff: "launch_time t - (timer_sys_ticks s + n) = launch_time t - timer_sys_ticks s - n" by simp
  note tick = tick_arithmetic [OF t(2) assms(2), folded diff]
  show "due s' a \<longleftrightarrow> ticks_left s a \<le> unat n"
    using t(1) tick(1) by (simp add: s'_def due_def ticks_before_or_at_def ticks_left_def)
  assume less: "unat n < ticks_left s a"
  then have less': "unat n < unat (launch_time t - timer_sys_ticks s)"
    using t(1) by (simp add: ticks_left_def)
  show "ticks_left s' a = ticks_left s a - unat n"
    using t(1) tick(2) [OF less'] by (simp add: s'_def ticks_left_def)
  show "pending_ok s' a"
    using assms(1) t(1) tick(1) less' by (simp add: s'_def pending_ok_def in_future_def not_le)
qed

lemma sorted_key_split:
  assumes "in_order key xs"
  shows "takeWhile (\<lambda>x. key x \<le> n) xs = filter (\<lambda>x. key x \<le> n) xs"
    and "dropWhile (\<lambda>x. key x \<le> n) xs = filter (\<lambda>x. n < key x) xs"
proof -
  have "sorted (map key xs) \<Longrightarrow> takeWhile (\<lambda>x. key x \<le> n) xs = filter (\<lambda>x. key x \<le> n) xs \<and>
      dropWhile (\<lambda>x. key x \<le> n) xs = filter (\<lambda>x. n < key x) xs"
  proof (induction xs)
    case (Cons x xs)
    show ?case
    proof (cases "key x \<le> n")
      case False
      then have "\<forall>y \<in> set xs. n < key y" using Cons.prems by fastforce
      then show ?thesis using False by (auto simp: filter_empty_conv filter_id_conv not_le)
    qed (use Cons in auto)
  qed simp
  then show "takeWhile (\<lambda>x. key x \<le> n) xs = filter (\<lambda>x. key x \<le> n) xs"
    "dropWhile (\<lambda>x. key x \<le> n) xs = filter (\<lambda>x. n < key x) xs"
    using assms by (simp_all add: in_order_def)
qed

lemma sorted_map_minus: "sorted xs \<Longrightarrow> sorted (map (\<lambda>k. k - n) xs)" for n :: nat
  by (induction xs) (auto intro: diff_le_mono)

lemma tick_update_ok:
  assumes inv: "loop_inv {} held s" and n: "0 \<le> sint n"
  shows "\<exists>s'. system_timer_tick_update n s = Some s' \<and> loop_inv {} held s' \<and> kept_kinds s s' \<and>
     timer_sys_ticks s' = timer_sys_ticks s + n \<and>
     system_timer_list s' = filter (\<lambda>a. unat n < ticks_left s a) (system_timer_list s) \<and>
     (\<forall>a \<in> set (system_timer_list s'). ticks_left s' a = ticks_left s a - unat n) \<and>
     (\<forall>p. filter (\<lambda>a. priority_key s a = p) (event_queue_active s') =
          filter (\<lambda>a. priority_key s a = p) (event_queue_active s) @
          filter (\<lambda>a. priority_key s a = p) (filter (\<lambda>a. ticks_left s a \<le> unat n) (system_timer_list s))) \<and>
     priority_key s' = priority_key s \<and> el_timers s' = el_timers s \<and>
     (\<forall>b. map_option es_data (el_events s' b) = map_option es_data (el_events s b)) \<and>
     (\<forall>b \<in> set (system_timer_list s'). el_events s' b = el_events s b)"
proof -
  let ?L = "system_timer_list s"
  let ?s1 = "s\<lparr>timer_sys_ticks := timer_sys_ticks s + n\<rparr>"
  let ?as = "filter (\<lambda>a. ticks_left s a \<le> unat n) ?L"
  let ?bs = "filter (\<lambda>a. unat n < ticks_left s a) ?L"
  let ?v = "?s1\<lparr>system_timer_list := ?bs\<rparr>"
  have order: "in_order (ticks_left s) ?L" and pending: "\<forall>a \<in> set ?L. pending_ok s a"
    using inv by (simp_all add: loop_inv_def)
  have L: "?L = ?as @ ?bs"
    using takeWhile_dropWhile_id [of "\<lambda>a. ticks_left s a \<le> unat n" ?L]
    by (simp add: sorted_key_split [OF order])
  have left: "ticks_left ?s1 a = ticks_left s a - unat n" "pending_ok ?s1 a" if "a \<in> set ?bs" for a
    using that pending_after_ticks(2,3) [OF _ n] pending by auto
  have "in_order (ticks_left ?v) ?bs"
  proof -
    have "map (ticks_left ?v) ?bs = map (\<lambda>k. k - unat n) (map (ticks_left s) ?bs)"
      using left by auto
    moreover have "sorted (map (ticks_left s) ?bs)"
      using order by (simp add: in_order_def sorted_filter)
    ultimately show ?thesis
      unfolding in_order_def by (simp only: sorted_map_minus)
  qed
  moreover have "owned (set ?as) held ?v"
  proof -
    have "set ?L = set ?as \<union> set ?bs" "distinct ?L \<longrightarrow> distinct ?bs \<and> set ?as \<inter> set ?bs = {}"
      by auto
    then show ?thesis
      using inv unfolding loop_inv_def owned_def linked_def by auto
  qed
  ultimately have v: "loop_inv (set ?as) held ?v"
    using inv left unfolding loop_inv_def by simp
  have "\<forall>a \<in> set ?as. due ?v a \<and> (\<exists>e. el_events ?v a = Some e \<and> receiver_ok ?v e)"
    using pending_after_ticks(1) [OF _ n] pending by (fastforce simp: pending_ok_def due_def)
  moreover have "distinct ?as" using inv by (simp add: loop_inv_def owned_def linked_def)
  ultimately obtain s' where s': "launch_due (?as @ system_timer_list ?v)
      (?v\<lparr>system_timer_list := ?as @ system_timer_list ?v\<rparr>) = Some s'"
    "loop_inv {} held s'" "kept_kinds ?v s'" "system_timer_list s' = ?bs"
    "timer_sys_ticks s' = timer_sys_ticks ?v" "el_timers s' = el_timers ?v" "priority_key s' = priority_key ?v"
    "\<forall>p. filter (\<lambda>a. priority_key ?v a = p) (event_queue_active s') =
      filter (\<lambda>a. priority_key ?v a = p) (event_queue_active ?v) @ filter (\<lambda>a. priority_key ?v a = p) ?as"
    "\<forall>b. map_option es_data (el_events s' b) = map_option es_data (el_events ?v b)"
    "\<forall>b. b \<notin> set ?as \<longrightarrow> el_events s' b = el_events ?v b"
    using launch_due_ok [OF v] by auto
  have same: "?v\<lparr>system_timer_list := ?as @ system_timer_list ?v\<rparr> = ?s1"
    using L by simp
  have "ticks_left s' a = ticks_left s a - unat n" if "a \<in> set ?bs" for a
  proof -
    have "ticks_left s' a = ticks_left ?s1 a" using s'(5,6) by (simp add: ticks_left_def cong: option.case_cong)
    then show ?thesis using left(1) [OF that] by simp
  qed
  moreover have "system_timer_tick_update n s = Some s'"
    using s'(1) same L unfolding system_timer_tick_update_def by simp
  moreover have "kept_kinds s s'"
    using s'(3) by (simp add: kept_kinds_def)
  moreover have "el_events s' b = el_events s b" if "b \<in> set ?bs" for b
    using s'(10) that by auto
  ultimately show ?thesis
    using s'(2,4-9) by auto
qed

end
