(* ===== verification/Event_Run.thy ===== *)
theory Event_Run
  imports Event_Ticks
begin

text \<open>
  Runs of the event loop: the operations of its interface, the ticks of its timer and the two
  halves of a dispatch, in any order. What an operation asks of its caller is \<open>allowed\<close>; from the
  initial state of the program on, no allowed operation fails and none loses an event.
\<close>

section \<open>Dispatch\<close>

lemma loop_inv_set_curr [simp]: "loop_inv loose held (s\<lparr>curr_tasklet := c\<rparr>) = loop_inv loose held s"
  by (simp add: loop_inv_def owned_def linked_def)

lemma begin_dispatch_idle:
  "event_queue_active s = [] \<Longrightarrow> begin_dispatch s = Some (None, s\<lparr>curr_tasklet := 0\<rparr>)"
  by (simp add: begin_dispatch_def event_core_read_def list_first_def)

text \<open>The event that is running is held by the loop, or the user's again.\<close>

definition dispatch_inv :: "event_loop \<Rightarrow> nat option \<Rightarrow> bool" where
  "dispatch_inv s running \<longleftrightarrow>
     (case running of
        None \<Rightarrow> loop_inv {} {} s
      | Some a \<Rightarrow> loop_inv {} {a} s \<or> (is_user s a \<and> loop_inv {} {} s))"

lemma begin_dispatch_ok:
  assumes inv: "loop_inv {} {} s" and queue: "event_queue_active s = a # as"
  obtains e t s' where "el_events s a = Some e"
    "event_tasklet_handler_get (tasklet_index (ev_receiver (es_data e))) s = Some t"
    "begin_dispatch s = Some (Some (a, snd t, es_data e), s')"
    "s' = upd_event a (e\<lparr>es_state := ARM_LIB_EVENT_RUNNING\<rparr>)
            (s\<lparr>event_queue_active := as, curr_tasklet := ev_receiver (es_data e)\<rparr>)"
    "dispatch_inv s' (Some a)" "kept_kinds s s'"
proof -
  obtain e where e: "el_events s a = Some e" "receiver_ok s e"
    "es_allocator e = ARM_LIB_EVENT_TIMER \<longleftrightarrow> el_timers s a \<noteq> None"
    using loop_inv_queued [OF inv, of a] queue by (auto simp: queued_ok_def)
  then obtain t where t: "event_tasklet_handler_get (tasklet_index (ev_receiver (es_data e))) s = Some t"
    by (auto simp: receiver_ok_def)
  let ?s1 = "s\<lparr>event_queue_active := as\<rparr>"
  let ?e = "e\<lparr>es_state := ARM_LIB_EVENT_RUNNING\<rparr>"
  let ?s' = "upd_event a ?e (s\<lparr>event_queue_active := as, curr_tasklet := ev_receiver (es_data e)\<rparr>)"
  have "loop_inv {a} {} ?s1"
    using loop_inv_take_active [OF inv, of a] queue by (simp add: list_remove_def)
  then have "loop_inv {a} {} (?s1\<lparr>curr_tasklet := ev_receiver (es_data e)\<rparr>)" by simp
  then have loose: "loop_inv {a} {} ?s'"
    by (rule loop_inv_upd_event) simp
  have "dispatch_inv ?s' (Some a)"
  proof (cases "es_allocator e = ARM_LIB_EVENT_USER")
    case True
    then have "loop_inv {} {} ?s'"
      using loop_inv_drop [OF loose] e by simp
    then show ?thesis using True e(3) by (simp add: dispatch_inv_def is_user_def kind_def)
  next
    case False
    then have "running_ok ?s' a"
      using e by (simp add: running_ok_def receiver_ok_def event_tasklet_handler_get_def)
    then show ?thesis
      using loop_inv_hold [OF loose] by (simp add: dispatch_inv_def)
  qed
  moreover have "kept_kinds s ?s'"
    using e(1) by (intro kept_kinds_upd_event) (simp_all add: kind_def)
  moreover have "begin_dispatch s = Some (Some (a, snd t, es_data e), ?s')"
    using queue e(1) t
    by (simp add: begin_dispatch_def event_core_read_def list_first_def list_remove_def upd_event_def
        event_tasklet_handler_get_def Let_def)
  ultimately show ?thesis using that e(1) t by blast
qed

lemma end_dispatch_ok:
  assumes "dispatch_inv s (Some a)"
  shows "goes {} s (end_dispatch a s)"
proof (cases "loop_inv {} {a} s")
  case True
  then obtain e where "el_events s a = Some e" "receiver_ok s e"
    "es_allocator e = ARM_LIB_EVENT_TIMER \<longleftrightarrow> el_timers s a \<noteq> None"
    using loop_inv_running [OF True, of a] by (auto simp: running_ok_def)
  then have "goes {} s (event_core_free_push a s)"
    using loop_inv_unhold [of "{}" a "{}" s] True by (intro event_core_free_push_ok) simp_all
  then obtain s' where "event_core_free_push a s = Some s'" "loop_inv {} {} s'" "kept_kinds s s'"
    by (auto simp: goes_def)
  then show ?thesis
    by (intro goesI [of _ "s'\<lparr>curr_tasklet := 0\<rparr>"]) (simp_all add: end_dispatch_def)
next
  case False
  then obtain e where "el_events s a = Some e" "es_allocator e = ARM_LIB_EVENT_USER" "loop_inv {} {} s"
    using assms by (auto simp: dispatch_inv_def is_user_def kind_def split: if_splits)
  then show ?thesis
    by (intro goesI [of _ "s\<lparr>curr_tasklet := 0\<rparr>"]) (simp_all add: end_dispatch_def event_core_free_push_def)
qed

section \<open>Start\<close>

definition initial_state :: event_loop where
  "initial_state = static_state\<lparr>free_event_entry := rev startup_event_pool,
                                 system_timer_free := rev startup_sys_timer_pool\<rparr>"

lemma startup_events_run:
  "\<forall>a \<in> set as. el_events s a = Some zero_event \<Longrightarrow>
   startup_events as s = Some (s\<lparr>free_event_entry := rev as @ free_event_entry s\<rparr>)"
proof (induction as arbitrary: s)
  case (Cons a as)
  have "upd_event a zero_event (s\<lparr>free_event_entry := a # free_event_entry s\<rparr>) =
      s\<lparr>free_event_entry := a # free_event_entry s\<rparr>"
    using Cons.prems by (simp add: upd_event_def fun_upd_idem)
  then show ?case
    using Cons by (simp add: startup_event_def list_add_to_start_def zero_event_def)
qed simp

lemma scheduler_init: "eventOS_scheduler_init static_state = Some initial_state"
proof -
  have "static_state\<lparr>free_event_entry := [], event_queue_active := [], tasklet_list := []\<rparr> = static_state"
    by (simp add: static_state_def)
  moreover have "startup_events startup_event_pool static_state =
      Some (static_state\<lparr>free_event_entry := rev startup_event_pool\<rparr>)"
    using startup_events_run [of startup_event_pool static_state] by (simp add: static_state_def)
  moreover have "fold (\<lambda>a as. a # as) xs ys = rev xs @ ys" for xs ys :: "nat list"
    by (induction xs arbitrary: ys) simp_all
  ultimately show ?thesis
    by (auto simp: eventOS_scheduler_init_def timer_sys_init_def linked_def initial_state_def
        list_add_to_start_def static_state_def startup_event_pool_def startup_sys_timer_pool_def simp del: upt_Suc)
qed

lemma initial_state_ok: "loop_inv {} {} initial_state"
proof -
  have "distinct (linked initial_state)"
    by (auto simp: initial_state_def static_state_def linked_def startup_event_pool_def startup_sys_timer_pool_def)
  then show ?thesis
    by (auto simp: loop_inv_def owned_def linked_def event_defs initial_state_def static_state_def zero_event_def
        in_order_def startup_event_pool_def startup_sys_timer_pool_def split: if_splits simp del: upt_Suc)
qed

section \<open>The operations\<close>

datatype loop_op =
    Event_Send new_event arm_event
  | Handler_Create bool new_event nat nat
  | Send_User nat event_storage
  | Release_User nat
  | Cancel "nat option"
  | Request_At new_timer arm_event "32 word"
  | Request_In new_timer arm_event "32 word"
  | Request_Every new_timer arm_event "32 word"
  | Request_Legacy new_timer nat nat int nat
  | Timer_Cancel nat int
  | Tick "32 word"
  | Begin_Dispatch
  | End_Dispatch

type_synonym dispatch_state = "event_loop \<times> nat option"

definition run_op :: "(event_loop \<Rightarrow> event_loop option) \<Rightarrow> dispatch_state \<Rightarrow> dispatch_state option" where
  "run_op f x = map_option (\<lambda>s. (s, snd x)) (f (fst x))"

text \<open>
  The user fills in the structure before it is sent and may use its memory for something else
  once the event has been delivered.
\<close>

fun exec :: "loop_op \<Rightarrow> dispatch_state \<Rightarrow> dispatch_state option" where
  "exec (Event_Send alloc event) = run_op (map_option snd \<circ> eventOS_event_send alloc event)"
| "exec (Handler_Create granted alloc f ty) =
     run_op (map_option snd \<circ> eventOS_event_handler_create granted alloc f ty)"
| "exec (Send_User a e) = run_op (eventOS_event_send_user_allocated a \<circ> upd_event a e)"
| "exec (Release_User a) = run_op (\<lambda>s. Some (s\<lparr>el_events := (el_events s)(a := None)\<rparr>))"
| "exec (Cancel event) = run_op (eventOS_cancel event)"
| "exec (Request_At alloc event launch) =
     run_op (map_option snd \<circ> eventOS_event_timer_request_at alloc event launch)"
| "exec (Request_In alloc event delay) =
     run_op (map_option snd \<circ> eventOS_event_timer_request_in alloc event delay)"
| "exec (Request_Every alloc event every) =
     run_op (map_option snd \<circ> eventOS_event_timer_request_every alloc event every)"
| "exec (Request_Legacy alloc i ty r time) =
     run_op (map_option snd \<circ> eventOS_event_timer_request alloc i ty r time)"
| "exec (Timer_Cancel i r) = run_op (map_option snd \<circ> eventOS_event_timer_cancel i r)"
| "exec (Tick n) = run_op (system_timer_tick_update n)"
| "exec Begin_Dispatch =
     (\<lambda>(s, running). map_option (\<lambda>(event, s'). (s', map_option fst event)) (begin_dispatch s))"
| "exec End_Dispatch =
     (\<lambda>(s, running). case running of
        None \<Rightarrow> Some (s, None)
      | Some a \<Rightarrow> map_option (\<lambda>s'. (s', None)) (end_dispatch a s))"

text \<open>
  What the operations ask: memory that is allocated was not in use, at most 128 tasklets, a
  structure of the user's is sent to a tasklet that exists and is neither sent twice nor taken
  back too early, an event that is cancelled has not finished, a tick update spans less than half
  of the range of the counter, and one event is dispatched at a time.
\<close>

fun allowed :: "loop_op \<Rightarrow> dispatch_state \<Rightarrow> bool" where
  "allowed (Event_Send alloc event) (s, r) \<longleftrightarrow> fresh_event alloc s"
| "allowed (Handler_Create granted alloc f ty) (s, r) \<longleftrightarrow> fresh_event alloc s \<and> length (tasklet_list s) < 128"
| "allowed (Send_User a e) (s, r) \<longleftrightarrow>
     (el_events s a = None \<or> is_user s a \<and> a \<notin> set (linked s)) \<and> receiver_ok s e"
| "allowed (Release_User a) (s, r) \<longleftrightarrow> is_user s a \<and> a \<notin> set (linked s) \<and> r \<noteq> Some a"
| "allowed (Cancel None) (s, r) \<longleftrightarrow> True"
| "allowed (Cancel (Some a)) (s, r) \<longleftrightarrow>
     a \<in> set (event_queue_active s) \<union> set (system_timer_list s) \<or> (r = Some a \<and> \<not> is_user s a)"
| "allowed (Request_At alloc event launch) (s, r) \<longleftrightarrow> fresh_timer alloc s"
| "allowed (Request_In alloc event delay) (s, r) \<longleftrightarrow> fresh_timer alloc s"
| "allowed (Request_Every alloc event every) (s, r) \<longleftrightarrow> fresh_timer alloc s"
| "allowed (Request_Legacy alloc i ty tasklet time) (s, r) \<longleftrightarrow> fresh_timer alloc s"
| "allowed (Timer_Cancel i tasklet) (s, r) \<longleftrightarrow> True"
| "allowed (Tick n) (s, r) \<longleftrightarrow> 0 \<le> sint n"
| "allowed Begin_Dispatch (s, r) \<longleftrightarrow> r = None"
| "allowed End_Dispatch (s, r) \<longleftrightarrow> r \<noteq> None"

inductive reachable :: "dispatch_state \<Rightarrow> bool" where
  reachable_init: "eventOS_scheduler_init static_state = Some s \<Longrightarrow> reachable (s, None)"
| reachable_step: "reachable x \<Longrightarrow> allowed op x \<Longrightarrow> exec op x = Some y \<Longrightarrow> reachable y"

inductive_cases reachable_cases: "reachable x"

section \<open>Every operation keeps the invariant\<close>

text \<open>The startup pools stay what they are.\<close>

definition pools_kept :: "event_loop \<Rightarrow> bool" where
  "pools_kept s \<longleftrightarrow>
     (\<forall>a \<in> set startup_event_pool. kind s a = Some ARM_LIB_EVENT_STARTUP_POOL) \<and>
     (\<forall>a \<in> set startup_sys_timer_pool. el_timers s a \<noteq> None)"

definition dispatch_ok :: "dispatch_state \<Rightarrow> bool" where
  "dispatch_ok x \<longleftrightarrow> dispatch_inv (fst x) (snd x) \<and> pools_kept (fst x)"

lemma pools_kept_kinds: "pools_kept s \<Longrightarrow> kept_kinds s s' \<Longrightarrow> pools_kept s'"
  by (auto simp: pools_kept_def kept_kinds_def)

lemma dispatch_inv_held:
  assumes "dispatch_inv s r"
  obtains held where "loop_inv {} held s" "held = {} \<and> (r = None \<or> is_user s (the r)) \<or> r \<noteq> None \<and> held = {the r}"
  using assms by (cases r) (auto simp: dispatch_inv_def)

lemma goes_dispatch:
  assumes "dispatch_ok (s, r)" "\<And>held. loop_inv {} held s \<Longrightarrow> held \<subseteq> set_option r \<Longrightarrow> goes held s (f s)"
  shows "\<exists>y. run_op f (s, r) = Some y \<and> dispatch_ok y"
proof -
  obtain held where held: "loop_inv {} held s"
    "held = {} \<and> (r = None \<or> is_user s (the r)) \<or> r \<noteq> None \<and> held = {the r}"
    using dispatch_inv_held [of s r] assms(1) by (auto simp: dispatch_ok_def)
  moreover from held(2) have "held \<subseteq> set_option r" by (cases r) auto
  ultimately obtain s' where s': "f s = Some s'" "loop_inv {} held s'" "kept_kinds s s'"
    using assms(2) [of held] by (auto simp: goes_def)
  then have "dispatch_inv s' r"
    using held(2) by (cases r) (auto simp: dispatch_inv_def is_user_def kept_kinds_def)
  then show ?thesis
    using s' assms(1) pools_kept_kinds by (auto simp: run_op_def dispatch_ok_def)
qed

lemma goes_with_snd: "goes_with held s m \<Longrightarrow> goes held s (map_option snd m)"
  by (simp add: goes_with_def)

lemma goes_with_map: "goes_with held s m \<Longrightarrow> goes_with held s (do { (a, s') \<leftarrow> m; Some (g a, s') })"
  by (auto simp: goes_with_def goes_def)

lemma request_every_ok:
  "loop_inv {} held s \<Longrightarrow> fresh_timer alloc s \<Longrightarrow>
   goes_with held s (eventOS_event_timer_request_every alloc event every s)"
  using request_at_locked_ok [of held s alloc event]
  by (auto simp: eventOS_event_timer_request_every_def intro: goes_withI)

lemma tick_update_goes:
  "loop_inv {} held s \<Longrightarrow> 0 \<le> sint n \<Longrightarrow> goes held s (system_timer_tick_update n s)"
  using tick_update_ok [of held s n] by (auto simp: goes_def)

lemma send_user_structure_ok:
  assumes inv: "loop_inv {} held s" and a: "el_events s a = None \<or> is_user s a \<and> a \<notin> set (linked s)"
    and e: "receiver_ok s e"
  shows "goes held s (eventOS_event_send_user_allocated a (upd_event a e s))"
proof -
  have free: "a \<notin> set (linked s)" "a \<notin> held" "el_timers s a = None"
    using a loop_inv_fresh [OF inv, of a] loop_inv_running [OF inv, of a]
    by (auto simp: is_user_def kind_def running_ok_def split: if_splits)
  have "loop_inv {a} held s"
    using inv free(1,2) by (rule loop_inv_loosen)
  then have loose: "loop_inv {a} held (upd_event a (e\<lparr>es_allocator := ARM_LIB_EVENT_USER\<rparr>) s)"
    by (rule loop_inv_upd_event) simp
  let ?s = "upd_event a (e\<lparr>es_allocator := ARM_LIB_EVENT_USER\<rparr>) s"
  have "kind ?s a = Some ARM_LIB_EVENT_USER" using free(3) by (simp add: kind_def)
  then have "goes held ?s (send_allocated ARM_LIB_EVENT_USER a ?s)"
    using free(3) e by (intro send_allocated_goes [OF loose, where e = "e\<lparr>es_allocator := ARM_LIB_EVENT_USER\<rparr>"])
      (auto simp: receiver_ok_def)
  moreover have "send_allocated ARM_LIB_EVENT_USER a (upd_event a e s) = send_allocated ARM_LIB_EVENT_USER a ?s"
    by (simp add: send_allocated_def upd_event_def)
  moreover have "kept_kinds s ?s"
    using a free(3) by (intro kept_kinds_upd_event) (auto simp: kind_def is_user_def)
  ultimately show ?thesis
    using goes_trans by (simp add: eventOS_event_send_user_allocated_def)
qed

lemma release_user_ok:
  assumes ok: "dispatch_ok (s, r)" and a: "is_user s a" "a \<notin> set (linked s)" "r \<noteq> Some a"
  shows "dispatch_ok (s\<lparr>el_events := (el_events s)(a := None)\<rparr>, r)"
proof -
  let ?s = "s\<lparr>el_events := (el_events s)(a := None)\<rparr>"
  have t: "el_timers s a = None" using a(1) by (auto simp: is_user_def kind_def split: if_splits)
  obtain held where held: "loop_inv {} held s"
    "held = {} \<and> (r = None \<or> is_user s (the r)) \<or> r \<noteq> None \<and> held = {the r}"
    using dispatch_inv_held [of s r] ok by (auto simp: dispatch_ok_def)
  then have "a \<notin> held" using a(3) by auto
  then have "loop_inv {} held ?s"
    using loop_inv_remove_event [OF loop_inv_loosen [OF held(1) a(2)], of] t by simp
  moreover have same: "kind ?s b = kind s b" if "b \<noteq> a" for b
    using that by (simp add: kind_def)
  ultimately have "dispatch_inv ?s r"
    using held(2) a(3) by (cases r) (auto simp: dispatch_inv_def is_user_def)
  moreover have "pools_kept ?s"
  proof -
    have "kind s b \<noteq> Some ARM_LIB_EVENT_USER \<Longrightarrow> kind ?s b = kind s b" for b
      using same a(1) by (cases "b = a") (simp_all add: is_user_def)
    then show ?thesis using ok by (simp add: dispatch_ok_def pools_kept_def)
  qed
  ultimately show ?thesis by (simp add: dispatch_ok_def)
qed

lemma begin_dispatch_keeps:
  assumes "dispatch_ok (s, None)"
  shows "\<exists>y. exec Begin_Dispatch (s, None) = Some y \<and> dispatch_ok y"
proof -
  have inv: "loop_inv {} {} s" using assms by (simp add: dispatch_ok_def dispatch_inv_def)
  show ?thesis
  proof (cases "event_queue_active s")
    case Nil
    then show ?thesis
      using assms inv by (simp add: begin_dispatch_idle dispatch_ok_def dispatch_inv_def pools_kept_def)
  next
    case (Cons a as)
    then show ?thesis
      using assms
      by (elim begin_dispatch_ok [OF inv]) (auto simp: dispatch_ok_def intro: pools_kept_kinds)
  qed
qed

lemma end_dispatch_keeps:
  assumes "dispatch_ok (s, Some a)"
  shows "\<exists>y. exec End_Dispatch (s, Some a) = Some y \<and> dispatch_ok y"
  using end_dispatch_ok [of s a] assms
  by (auto simp: goes_def dispatch_ok_def dispatch_inv_def intro: pools_kept_kinds)

lemma held_unique:
  assumes "loop_inv {} {a} s" "loop_inv {} held s" "held \<subseteq> {a}"
  shows "held = {a}"
proof -
  obtain e where "el_events s a = Some e" "es_allocator e \<noteq> ARM_LIB_EVENT_USER"
    "es_allocator e = ARM_LIB_EVENT_TIMER \<longleftrightarrow> el_timers s a \<noteq> None"
    using loop_inv_running [OF assms(1), of a] by (auto simp: running_ok_def)
  moreover have "a \<notin> set (linked s)"
    using assms(1) by (simp add: loop_inv_def owned_def)
  ultimately have "a \<in> held"
    using assms(2) by (cases "es_allocator e") (auto simp: loop_inv_def owned_def)
  then show ?thesis using assms(3) by auto
qed

lemma exec_ok:
  assumes ok: "dispatch_ok (s, r)" and allowed: "allowed op (s, r)"
  shows "\<exists>y. exec op (s, r) = Some y \<and> dispatch_ok y"
  supply [simp del] = split_paired_Ex
proof (cases op)
  case (Event_Send alloc event)
  then show ?thesis
    using allowed
    by (auto intro!: goes_dispatch [OF ok] goes_with_snd eventOS_event_send_ok)
next
  case (Handler_Create granted alloc f ty)
  then show ?thesis
    using allowed by (auto intro!: goes_dispatch [OF ok] goes_with_snd eventOS_event_handler_create_ok)
next
  case (Send_User a e)
  then show ?thesis
    using allowed by (auto intro!: goes_dispatch [OF ok] send_user_structure_ok)
next
  case (Release_User a)
  then show ?thesis
    using allowed release_user_ok [OF ok] by (auto simp: run_op_def)
next
  case (Cancel event)
  show ?thesis
  proof (cases event)
    case None
    then show ?thesis
      using Cancel by (auto intro!: goes_dispatch [OF ok] goesI simp: eventOS_cancel_def)
  next
    case (Some a)
    have "goes held s (eventOS_cancel event s)" if "loop_inv {} held s" "held \<subseteq> set_option r" for held
    proof (cases "r = Some a \<and> \<not> is_user s a")
      case True
      then have "loop_inv {} {a} s" using ok by (auto simp: dispatch_ok_def dispatch_inv_def)
      then have "held = {a}"
        using held_unique [OF _ that(1)] that(2) True by simp
      then show ?thesis using that(1) Some cancel_running_ok by simp
    next
      case False
      then show ?thesis
        using that(1) Some Cancel allowed cancel_queued_ok [of held s a] cancel_pending_ok [of held s a] by auto
    qed
    then show ?thesis using Cancel by (auto intro!: goes_dispatch [OF ok])
  qed
next
  case (Request_At alloc event launch)
  then show ?thesis
    using allowed
    by (auto intro!: goes_dispatch [OF ok] goes_with_snd request_at_locked_ok simp: eventOS_event_timer_request_at_def)
next
  case (Request_In alloc event delay)
  then show ?thesis
    using allowed
    by (auto intro!: goes_dispatch [OF ok] goes_with_snd request_at_locked_ok simp: eventOS_event_timer_request_in_def)
next
  case (Request_Every alloc event every)
  then show ?thesis
    using allowed by (auto intro!: goes_dispatch [OF ok] goes_with_snd request_every_ok)
next
  case (Request_Legacy alloc i ty tasklet time)
  then show ?thesis
    using allowed
    by (auto intro!: goes_dispatch [OF ok] goes_with_snd goes_with_map request_at_locked_ok
        simp: eventOS_event_timer_request_def)
next
  case (Timer_Cancel i tasklet)
  then show ?thesis
    by (auto intro!: goes_dispatch [OF ok] goes_with_snd timer_cancel_ok)
next
  case (Tick n)
  then show ?thesis
    using allowed by (auto intro!: goes_dispatch [OF ok] tick_update_goes)
next
  case Begin_Dispatch
  then show ?thesis using allowed ok begin_dispatch_keeps by simp
next
  case End_Dispatch
  then show ?thesis using allowed ok end_dispatch_keeps by (cases r) auto
qed

lemma dispatch_ok_initial: "dispatch_ok (initial_state, None)"
  using initial_state_ok
  by (auto simp: dispatch_ok_def dispatch_inv_def pools_kept_def kind_def initial_state_def
      static_state_def startup_event_pool_def startup_sys_timer_pool_def zero_event_def simp del: upt_Suc)

lemma reachable_ok: "reachable x \<Longrightarrow> dispatch_ok x"
proof (induction rule: reachable.induct)
  case (reachable_init s)
  then show ?case
    using dispatch_ok_initial by (simp add: scheduler_init)
next
  case (reachable_step x op y)
  obtain s r where x: "x = (s, r)" by (cases x)
  obtain z where "exec op (s, r) = Some z" "dispatch_ok z"
    using exec_ok [of s r op] reachable_step.IH reachable_step.hyps(2) x by blast
  then show ?case using reachable_step.hyps(3) x by simp
qed

text \<open>Runs from the initial state.\<close>

fun run_loop :: "loop_op list \<Rightarrow> dispatch_state \<Rightarrow> dispatch_state option" where
  "run_loop [] x = Some x"
| "run_loop (op # ops) x =
     (if allowed op x then case exec op x of None \<Rightarrow> None | Some y \<Rightarrow> run_loop ops y else None)"

lemma reachable_run_from: "run_loop ops x = Some y \<Longrightarrow> reachable x \<Longrightarrow> reachable y"
  by (induction ops arbitrary: x) (auto split: if_splits option.splits intro: reachable_step)

lemma reachable_run: "run_loop ops (initial_state, None) = Some y \<Longrightarrow> reachable y"
  using reachable_run_from reachable_init [OF scheduler_init] by blast

end
