(* ===== verification/Event_Frame.thy ===== *)
theory Event_Frame
  imports Event_Run
begin

text \<open>
  What an operation leaves alone: a pending timer keeps its event, its launch time and its place
  among the pending timers while operations act on other events.
\<close>

definition same_at :: "nat \<Rightarrow> event_loop \<Rightarrow> event_loop \<Rightarrow> bool" where
  "same_at a s s' \<longleftrightarrow>
     el_events s' a = el_events s a \<and> el_timers s' a = el_timers s a \<and>
     timer_sys_ticks s' = timer_sys_ticks s \<and>
     (a \<in> set (system_timer_list s) \<longrightarrow> a \<in> set (system_timer_list s'))"

lemma same_at_refl [simp]: "same_at a s s"
  and same_at_trans: "same_at a s t \<Longrightarrow> same_at a t u \<Longrightarrow> same_at a s u"
  by (auto simp: same_at_def)

named_theorems frame "an operation on another event"

lemma set_link_before_first: "link_before_first p x ys = Some zs \<Longrightarrow> set zs = insert x (set ys)"
  by (induction ys arbitrary: zs) (auto split: option.splits bool.splits)

lemma event_core_write_frame [frame]: "event_core_write b s = Some s' \<Longrightarrow> b \<noteq> a \<Longrightarrow> same_at a s s'"
  by (auto simp: event_core_write_def same_at_def split: bind_splits)

lemma same_at_upd [simp]:
  "b \<noteq> a \<Longrightarrow> same_at a (upd_event b e s) s' = same_at a s s'"
  "b \<noteq> a \<Longrightarrow> same_at a (upd_timer b t s) s' = same_at a s s'"
  "b \<noteq> a \<Longrightarrow> same_at a s (upd_event b e s') = same_at a s s'"
  "b \<noteq> a \<Longrightarrow> same_at a s (upd_timer b t s') = same_at a s s'"
  by (simp_all add: same_at_def)

lemma same_at_set [simp]:
  "same_at a (s\<lparr>event_queue_active := q\<rparr>) s' = same_at a s s'"
  "same_at a (s\<lparr>free_event_entry := q\<rparr>) s' = same_at a s s'"
  "same_at a (s\<lparr>system_timer_free := q\<rparr>) s' = same_at a s s'"
  "same_at a (s\<lparr>tasklet_list := ts\<rparr>) s' = same_at a s s'"
  "same_at a (s\<lparr>curr_tasklet := c\<rparr>) s' = same_at a s s'"
  "same_at a s (s'\<lparr>event_queue_active := q\<rparr>) = same_at a s s'"
  "same_at a s (s'\<lparr>free_event_entry := q\<rparr>) = same_at a s s'"
  "same_at a s (s'\<lparr>system_timer_free := q\<rparr>) = same_at a s s'"
  "same_at a s (s'\<lparr>tasklet_list := ts\<rparr>) = same_at a s s'"
  "same_at a s (s'\<lparr>curr_tasklet := c\<rparr>) = same_at a s s'"
  by (simp_all add: same_at_def)

lemma same_at_remove [simp]:
  "b \<noteq> a \<Longrightarrow> same_at a s (s'\<lparr>system_timer_list := list_remove (system_timer_list s') b\<rparr>) = same_at a s s'"
  by (auto simp: same_at_def list_remove_def)

lemma send_allocated_frame [frame]: "send_allocated al b s = Some s' \<Longrightarrow> b \<noteq> a \<Longrightarrow> same_at a s s'"
  by (auto simp: send_allocated_def split: bind_splits dest: event_core_write_frame)

lemma timer_sys_add_frame [frame]: "timer_sys_add b s = Some s' \<Longrightarrow> same_at a s s'"
  by (auto simp: timer_sys_add_def same_at_def split: bind_splits dest: set_link_before_first)

lemma timer_sys_event_free_frame [frame]: "timer_sys_event_free b s = Some s' \<Longrightarrow> b \<noteq> a \<Longrightarrow> same_at a s s'"
  by (auto simp: timer_sys_event_free_def eventOS_event_send_timer_allocated_def Let_def
      split: bind_splits if_splits dest!: send_allocated_frame [where a = a] timer_sys_add_frame [where a = a])

lemma event_core_free_push_frame [frame]: "event_core_free_push b s = Some s' \<Longrightarrow> b \<noteq> a \<Longrightarrow> same_at a s s'"
  by (auto simp: event_core_free_push_def split: bind_splits event_allocator.splits
      dest!: timer_sys_event_free_frame [where a = a]) (simp add: same_at_def)

lemma eventOS_cancel_frame [frame]: "eventOS_cancel b s = Some s' \<Longrightarrow> b \<noteq> Some a \<Longrightarrow> same_at a s s'"
  by (auto simp: eventOS_cancel_def timer_sys_event_cancel_critical_def eventOS_event_cancel_critical_def Let_def
      split: option.splits bind_splits if_splits dest!: event_core_free_push_frame [where a = a])
    (auto simp: same_at_def list_remove_def)

lemma event_core_get_same_at:
  "event_core_get alloc s = Some (b', s') \<Longrightarrow> b' \<noteq> Some a \<Longrightarrow> same_at a s s'"
  by (cases "list_first (free_event_entry s)")
    (auto simp: event_core_get_def event_dynamically_allocate_def same_at_def
      split: option.splits bind_splits if_splits)

lemma timer_struct_get_same_at:
  "timer_struct_get alloc s = (b', s') \<Longrightarrow> b' \<noteq> Some a \<Longrightarrow> same_at a s s'"
  by (cases "list_first (system_timer_free s)") (auto simp: timer_struct_get_def same_at_def split: option.splits)

text \<open>What an allocation returns is not in use.\<close>

lemma event_core_get_not_pending:
  assumes "loop_inv {} held s" "fresh_event alloc s" "event_core_get alloc s = Some (Some b, s')"
    "a \<in> set (system_timer_list s)"
  shows "b \<noteq> a"
proof -
  have "a \<notin> set (free_event_entry s)" "el_events s a \<noteq> None"
    using assms(1,4) by (auto simp: loop_inv_def owned_def linked_def pending_ok_def)
  then show ?thesis
    using assms(2,3)
    by (auto simp: event_core_get_def event_dynamically_allocate_def fresh_event_def list_first_def
        split: option.splits bind_splits list.splits)
qed

lemma timer_struct_get_not_pending:
  assumes "loop_inv {} held s" "fresh_timer alloc s" "timer_struct_get alloc s = (Some b, s')"
    "a \<in> set (system_timer_list s)"
  shows "b \<noteq> a"
proof -
  have "a \<notin> set (system_timer_free s)" "el_events s a \<noteq> None"
    using assms(1,4) by (auto simp: loop_inv_def owned_def linked_def pending_ok_def)
  then show ?thesis
    using assms(2,3)
    by (auto simp: timer_struct_get_def fresh_timer_def list_first_def split: option.splits list.splits)
qed

section \<open>Every operation\<close>

text \<open>The operations that are meant for the pending event.\<close>

definition meant_for :: "nat \<Rightarrow> arm_event \<Rightarrow> loop_op \<Rightarrow> bool" where
  "meant_for a event op \<longleftrightarrow>
     (case op of
        Cancel b \<Rightarrow> b = Some a
      | Timer_Cancel i tasklet \<Rightarrow> i = ev_id event \<and> tasklet = ev_receiver event
      | _ \<Rightarrow> False)"

lemma eventOS_event_send_frame:
  assumes "loop_inv {} held s" "fresh_event alloc s" "a \<in> set (system_timer_list s)"
    "eventOS_event_send alloc event s = Some (res, s')"
  shows "same_at a s s'"
proof (cases "event_tasklet_handler_get (tasklet_index (ev_receiver event)) s = None")
  case False
  then obtain b' s1 where get: "event_core_get alloc s = Some (b', s1)"
    using assms(4) by (auto simp: eventOS_event_send_def split: bind_splits)
  show ?thesis
  proof (cases b')
    case None
    then show ?thesis
      using False get assms(4) event_core_get_same_at [OF get, of a] by (auto simp: eventOS_event_send_def)
  next
    case (Some b)
    then have "b \<noteq> a" using event_core_get_not_pending assms get by blast
    then show ?thesis
      using False get Some assms(4) event_core_get_same_at [OF get, of a]
      by (auto simp: eventOS_event_send_def split: bind_splits
          dest!: event_core_write_frame [where a = a] intro: same_at_trans)
  qed
qed (use assms(4) in \<open>simp add: eventOS_event_send_def\<close>)

lemma handler_create_frame:
  assumes "loop_inv {} held s" "fresh_event alloc s" "a \<in> set (system_timer_list s)"
    "eventOS_event_handler_create granted alloc f ty s = Some (res, s')"
  shows "same_at a s s'"
proof (cases "f \<in> snd ` set (tasklet_list s) \<or> \<not> granted")
  case False
  then obtain b' s1 where get: "event_core_get alloc s = Some (b', s1)"
    using assms(4) by (auto simp: eventOS_event_handler_create_def split: bind_splits)
  show ?thesis
  proof (cases b')
    case None
    then show ?thesis
      using False get assms(4) event_core_get_same_at [OF get, of a]
      by (simp add: eventOS_event_handler_create_def)
  next
    case (Some b)
    then have "b \<noteq> a" using event_core_get_not_pending assms get by blast
    then show ?thesis
      using False get Some assms(4) event_core_get_same_at [OF get, of a]
      by (auto simp: eventOS_event_handler_create_def Let_def split: bind_splits
          dest!: event_core_write_frame [where a = a] intro: same_at_trans)
  qed
qed (use assms(4) in \<open>auto simp: eventOS_event_handler_create_def split: if_splits\<close>)

lemma request_at_locked_frame:
  assumes "loop_inv {} held s" "fresh_timer alloc s" "a \<in> set (system_timer_list s)"
    "eventOS_event_timer_request_at_locked alloc event launch every s = Some (res, s')"
  shows "same_at a s s'"
proof (cases "event_tasklet_handler_id_valid (tasklet_index (ev_receiver event)) s")
  case True
  obtain b' s1 where get: "timer_struct_get alloc s = (b', s1)" by force
  show ?thesis
  proof (cases b')
    case None
    then show ?thesis
      using True get assms(4) timer_struct_get_same_at [OF get, of a]
      by (simp add: eventOS_event_timer_request_at_locked_def)
  next
    case (Some b)
    then have "b \<noteq> a" using timer_struct_get_not_pending assms get by blast
    then show ?thesis
      using True get Some assms(4) timer_struct_get_same_at [OF get, of a]
      by (auto simp: eventOS_event_timer_request_at_locked_def eventOS_event_send_timer_allocated_def Let_def
          split: bind_splits if_splits dest!: send_allocated_frame [where a = a] timer_sys_add_frame [where a = a]
          intro: same_at_trans)
  qed
qed (use assms(4) in \<open>simp add: eventOS_event_timer_request_at_locked_def\<close>)

lemma find_event_Some:
  "find_event events t i as = Some (Some b) \<Longrightarrow>
   b \<in> set as \<and> (\<exists>e. events b = Some e \<and> ev_receiver (es_data e) = t \<and> ev_id (es_data e) = i)"
  by (induction as) (auto split: option.splits if_splits)

lemma timer_cancel_frame:
  assumes inv: "loop_inv {} held s" and a: "a \<in> set (system_timer_list s)" "el_events s a = Some e"
    and other: "\<not> (i = ev_id (es_data e) \<and> t = ev_receiver (es_data e))"
    and cancel: "eventOS_event_timer_cancel i t s = Some (res, s')"
  shows "same_at a s s'"
proof -
  have "a \<notin> set (event_queue_active s)"
    using inv a(1) by (auto simp: loop_inv_def owned_def linked_def)
  then show ?thesis
    using cancel a(2) other
    by (auto simp: eventOS_event_timer_cancel_def eventOS_event_find_by_id_critical_def
        split: option.splits bind_splits if_splits dest!: find_event_Some eventOS_cancel_frame [where a = a])
qed

lemma begin_dispatch_frame:
  assumes "loop_inv {} held s" "a \<in> set (system_timer_list s)" "begin_dispatch s = Some (x, s')"
  shows "same_at a s s'"
proof (cases "event_queue_active s")
  case (Cons b bs)
  then have "b \<noteq> a"
    using assms(1,2) by (auto simp: loop_inv_def owned_def linked_def)
  then show ?thesis
    using assms(3) Cons
    by (auto simp: begin_dispatch_def event_core_read_def list_first_def Let_def split: bind_splits)
qed (use assms(3) in \<open>auto simp: begin_dispatch_idle\<close>)

lemma exec_frame:
  assumes ok: "dispatch_ok (s, r)" and op: "allowed op (s, r)" "exec op (s, r) = Some (s', r')"
    and a: "a \<in> set (system_timer_list s)" "el_events s a = Some e"
    and other: "\<not> meant_for a (es_data e) op" "\<forall>n. op \<noteq> Tick n"
  shows "same_at a s s'"
proof -
  obtain held where inv: "loop_inv {} held s"
    and held: "held = {} \<and> (r = None \<or> is_user s (the r)) \<or> r \<noteq> None \<and> held = {the r}"
  proof (rule dispatch_inv_held [of s r])
    show "dispatch_inv s r" using ok by (simp add: dispatch_ok_def)
  qed (rule that; auto)
  have timer: "el_timers s a \<noteq> None" "a \<in> set (linked s)" "\<not> is_user s a"
    using loop_inv_pending [OF inv a(1)] a(1)
    by (auto simp: pending_ok_def in_future_def set_linked is_user_def kind_def split: option.splits)
  show ?thesis
  proof (cases op)
    case (Event_Send alloc event)
    then show ?thesis
      using op eventOS_event_send_frame [OF inv _ a(1)] by (auto simp: run_op_def)
  next
    case (Handler_Create granted alloc f ty)
    then show ?thesis
      using op handler_create_frame [OF inv _ a(1)] by (auto simp: run_op_def)
  next
    case (Send_User b e')
    then have "b \<noteq> a" using op(1) a(2) timer by auto
    then show ?thesis
      using op(2) Send_User send_allocated_frame [of ARM_LIB_EVENT_USER b "upd_event b e' s" s' a]
      by (auto simp: run_op_def eventOS_event_send_user_allocated_def)
  next
    case (Release_User b)
    then have "b \<noteq> a" using op(1) timer by auto
    then show ?thesis
      using op(2) Release_User by (auto simp: run_op_def same_at_def)
  next
    case (Cancel b)
    then show ?thesis
      using op(2) other(1) eventOS_cancel_frame [of b s s' a] by (auto simp: run_op_def meant_for_def)
  next
    case (Request_At alloc event launch)
    then show ?thesis
      using op request_at_locked_frame [OF inv _ a(1)]
      by (auto simp: run_op_def eventOS_event_timer_request_at_def)
  next
    case (Request_In alloc event delay)
    then show ?thesis
      using op request_at_locked_frame [OF inv _ a(1)]
      by (auto simp: run_op_def eventOS_event_timer_request_in_def)
  next
    case (Request_Every alloc event every)
    then show ?thesis
      using op request_at_locked_frame [OF inv _ a(1)]
      by (auto simp: run_op_def eventOS_event_timer_request_every_def split: if_splits)
  next
    case (Request_Legacy alloc i ty tasklet time)
    then show ?thesis
      using op request_at_locked_frame [OF inv _ a(1)]
      by (auto simp: run_op_def eventOS_event_timer_request_def split: bind_splits)
  next
    case (Timer_Cancel i t)
    then show ?thesis
      using op(2) other(1) timer_cancel_frame [OF inv a] by (auto simp: run_op_def meant_for_def)
  next
    case (Tick n)
    then show ?thesis using other(2) by simp
  next
    case Begin_Dispatch
    then show ?thesis
      using op(2) begin_dispatch_frame [OF inv a(1)] by auto
  next
    case End_Dispatch
    then obtain b where b: "r = Some b" using op(1) by auto
    moreover have "b \<noteq> a"
      using held b timer inv by (auto simp: loop_inv_def owned_def)
    ultimately show ?thesis
      using op(2) End_Dispatch event_core_free_push_frame [of b s _ a]
      by (auto simp: end_dispatch_def split: bind_splits)
  qed
qed

end
