(* ===== verification/Event_Delivery.thy ===== *)
theory Event_Delivery
  imports Event_Run
begin

text \<open>
  What the event loop promises its users: nothing it is asked to do can crash it or lose an event,
  an event is queued behind the events that are as urgent and in front of the others, a timer is
  launched at the tick it was requested for, and a cancelled event is gone.
\<close>

section \<open>Safety\<close>

lemma dispatch_ok_held:
  assumes "dispatch_ok (s, r)"
  obtains held where "loop_inv {} held s" "held \<subseteq> set_option r" "pools_kept s"
proof (rule dispatch_inv_held [of s r])
  fix held
  assume "loop_inv {} held s" "held = {} \<and> (r = None \<or> is_user s (the r)) \<or> r \<noteq> None \<and> held = {the r}"
  then show ?thesis using that [of held] assms by (cases r) (auto simp: dispatch_ok_def)
qed (use assms in \<open>simp add: dispatch_ok_def\<close>)

lemma everything_owned:
  assumes inv: "loop_inv {} held s"
  shows "kind s a = Some ARM_LIB_EVENT_STARTUP_POOL \<Longrightarrow>
      a \<in> set (free_event_entry s) \<union> set (event_queue_active s) \<union> held"
    and "el_timers s a \<noteq> None \<Longrightarrow>
      a \<in> set (system_timer_free s) \<union> set (system_timer_list s) \<union> set (event_queue_active s) \<union> held"
    and "kind s a = Some ARM_LIB_EVENT_DYNAMIC \<Longrightarrow> a \<in> set (event_queue_active s) \<union> held"
proof -
  have lists: "el_timers s b = None" "kind s b = Some ARM_LIB_EVENT_STARTUP_POOL" if "b \<in> set (free_event_entry s)" for b
    using inv that by (auto simp: loop_inv_def free_ok_def kind_def)
  have timers: "el_timers s b \<noteq> None" if "b \<in> set (system_timer_free s) \<union> set (system_timer_list s)" for b
    using inv that by (auto simp: loop_inv_def idle_timer_ok_def pending_ok_def in_future_def split: option.splits)
  have own: "a \<in> set (linked s) \<union> held"
    if "el_timers s a \<noteq> None \<or> kind s a \<in> {Some ARM_LIB_EVENT_STARTUP_POOL, Some ARM_LIB_EVENT_DYNAMIC}"
    using inv that by (auto simp: loop_inv_def owned_def kind_def split: if_splits)
  show "kind s a = Some ARM_LIB_EVENT_STARTUP_POOL \<Longrightarrow>
      a \<in> set (free_event_entry s) \<union> set (event_queue_active s) \<union> held"
    using own timers [of a] by (auto simp: set_linked kind_def split: if_splits)
  show "el_timers s a \<noteq> None \<Longrightarrow>
      a \<in> set (system_timer_free s) \<union> set (system_timer_list s) \<union> set (event_queue_active s) \<union> held"
    using own lists(1) [of a] by (auto simp: set_linked)
  show "kind s a = Some ARM_LIB_EVENT_DYNAMIC \<Longrightarrow> a \<in> set (event_queue_active s) \<union> held"
    using own timers [of a] lists(2) [of a] by (auto simp: set_linked kind_def split: if_splits)
qed

text \<open>
  Property C17: from the initial state on, whatever operations, ticks and dispatches happen in
  whatever order, no allowed operation uses memory that is not an event or corrupts a list; the
  four lists share no event, the event queue is in the order of the priorities and the pending
  timers are in the order of their launch times; and no event is lost: every event of the startup
  pool is free, queued or running, every timer of the startup pool is free, pending, queued or
  running, and every dynamically allocated event is queued or running.
\<close>
theorem event_loop_safe:
  assumes "reachable (s, r)"
  shows "(\<forall>op. allowed op (s, r) \<longrightarrow> exec op (s, r) \<noteq> None) \<and>
    distinct (linked s) \<and>
    in_order (priority_key s) (event_queue_active s) \<and> in_order (ticks_left s) (system_timer_list s) \<and>
    set startup_event_pool \<subseteq> set (free_event_entry s) \<union> set (event_queue_active s) \<union> set_option r \<and>
    set startup_sys_timer_pool \<subseteq> set (system_timer_free s) \<union> set (system_timer_list s) \<union>
      set (event_queue_active s) \<union> set_option r \<and>
    (\<forall>a e. el_events s a = Some e \<longrightarrow> el_timers s a = None \<longrightarrow> es_allocator e = ARM_LIB_EVENT_DYNAMIC \<longrightarrow>
       a \<in> set (event_queue_active s) \<union> set_option r)"
proof -
  have ok: "dispatch_ok (s, r)" using reachable_ok [OF assms] .
  obtain held where held: "loop_inv {} held s" "held \<subseteq> set_option r" "pools_kept s"
    using dispatch_ok_held [OF ok] by blast
  note owned = everything_owned [OF held(1)]
  have "set startup_event_pool \<subseteq> set (free_event_entry s) \<union> set (event_queue_active s) \<union> set_option r"
    using owned(1) held(2,3) unfolding pools_kept_def by blast
  moreover have "set startup_sys_timer_pool \<subseteq> set (system_timer_free s) \<union> set (system_timer_list s) \<union>
      set (event_queue_active s) \<union> set_option r"
    using owned(2) held(2,3) unfolding pools_kept_def by blast
  moreover have "\<exists>y. exec op (s, r) = Some y" if "allowed op (s, r)" for op
    using exec_ok [OF ok that] by blast
  moreover have "a \<in> set (event_queue_active s) \<union> set_option r"
    if "el_events s a = Some e" "el_timers s a = None" "es_allocator e = ARM_LIB_EVENT_DYNAMIC" for a e
    using owned(3) [of a] held(2) that unfolding kind_def by auto
  moreover have "distinct (linked s)" "in_order (priority_key s) (event_queue_active s)"
    "in_order (ticks_left s) (system_timer_list s)"
    using held(1) by (simp_all add: loop_inv_def owned_def)
  ultimately show ?thesis by blast
qed

definition example_event :: arm_event where
  "example_event = \<lparr>ev_receiver = 0, ev_sender = 0, ev_type = 1, ev_id = 5, ev_data_ptr = None,
                    ev_priority = ARM_LIB_MED_PRIORITY_EVENT, ev_data = 9\<rparr>"

text \<open>A tasklet is created and initialised; then an event and a timer, which has been launched.\<close>

definition example_run :: "loop_op list" where
  "example_run =
     [Handler_Create True None 7 1, Begin_Dispatch, Event_Send None example_event,
      Request_In None example_event 3, End_Dispatch, Tick 3, Begin_Dispatch]"

theorem event_loop_safe_witness:
  "\<exists>s r. run_loop example_run (initial_state, None) = Some (s, r) \<and>
     exec End_Dispatch (s, r) \<noteq> None \<and>
     set startup_sys_timer_pool \<subseteq> set (system_timer_free s) \<union> set (system_timer_list s) \<union>
      set (event_queue_active s) \<union> set_option r"
proof -
  have "(case run_loop example_run (initial_state, None) of None \<Rightarrow> False | Some (s, r) \<Rightarrow> r \<noteq> None)"
    by code_simp
  then obtain s r where run: "run_loop example_run (initial_state, None) = Some (s, r)" "r \<noteq> None"
    by (auto split: option.splits)
  have "allowed End_Dispatch (s, r)" using run(2) by simp
  then show ?thesis
    using event_loop_safe [OF reachable_run [OF run(1)]] run(1) by blast
qed

section \<open>Sending\<close>

lemma event_core_get_frame:
  "event_core_get alloc s = Some (a', s') \<Longrightarrow>
   event_queue_active s' = event_queue_active s \<and> system_timer_list s' = system_timer_list s \<and>
   el_timers s' = el_timers s \<and> (\<forall>b. a' \<noteq> Some b \<longrightarrow> el_events s' b = el_events s b)"
  by (auto simp: event_core_get_def event_dynamically_allocate_def split: option.splits bind_splits if_splits)

lemma event_core_get_none:
  assumes "loop_inv {} held s" "event_core_get alloc s = Some (a', s')"
  shows "a' = None \<longleftrightarrow> free_event_entry s = [] \<and> alloc = None"
  using assms
  by (auto simp: event_core_get_def event_dynamically_allocate_def list_first_def
      split: option.splits bind_splits list.splits)

text \<open>An event that is filled in and written to the queue.\<close>

lemma event_written_in_order:
  assumes inv: "loop_inv {a} held s" and e: "el_events s a = Some e" "receiver_ok s (e\<lparr>es_data := event\<rparr>)"
    "es_allocator e = ARM_LIB_EVENT_TIMER \<longleftrightarrow> el_timers s a \<noteq> None"
  obtains as bs where
    "event_core_write a (upd_event a (e\<lparr>es_data := event\<rparr>) s) =
       Some (upd_event a (e\<lparr>es_data := event, es_state := ARM_LIB_EVENT_QUEUED\<rparr>)
         (s\<lparr>event_queue_active := as @ a # bs\<rparr>))"
    "event_queue_active s = as @ bs" "a \<notin> set (event_queue_active s)"
    "\<forall>b \<in> set as. priority_key s b \<le> priority_value (ev_priority event)"
    "\<forall>b \<in> set bs. priority_value (ev_priority event) < priority_key s b"
proof -
  let ?e = "e\<lparr>es_data := event\<rparr>" and ?s = "upd_event a (e\<lparr>es_data := event\<rparr>) s"
  have inv2: "loop_inv (insert a {}) held ?s"
    using inv by (intro loop_inv_upd_event) simp_all
  have "receiver_ok ?s ?e" using e(2) by (simp add: receiver_ok_def)
  then obtain q where q: "event_core_write a ?s =
      Some (upd_event a (?e\<lparr>es_state := ARM_LIB_EVENT_QUEUED\<rparr>) (?s\<lparr>event_queue_active := q\<rparr>))"
    "link_before_first (lower_priority ?s a) a (event_queue_active ?s) = Some q"
    by (rule event_core_write_ok [OF inv2, of ?e, rotated 2]) (use e in simp_all)
  have valid: "el_events ?s a \<noteq> None" "\<forall>b \<in> set (event_queue_active ?s). el_events ?s b \<noteq> None"
    and order: "in_order (priority_key ?s) (event_queue_active ?s)"
    using e(1) inv2 by (fastforce simp: loop_inv_def queued_ok_def)+
  have fresh: "a \<notin> set (event_queue_active s)"
    using loose_facts(1) [OF inv2] by (simp add: set_linked)
  have key: "priority_key ?s b = priority_key s b" if "b \<in> set (event_queue_active s)" for b
    using that fresh by (intro keys_upd) auto
  have "priority_key ?s a = priority_value (ev_priority event)"
    by (simp add: priority_key_def)
  moreover obtain as bs where "event_queue_active s = as @ bs" "q = as @ a # bs"
    "\<forall>b \<in> set as. priority_key ?s b \<le> priority_key ?s a" "\<forall>b \<in> set bs. priority_key ?s a < priority_key ?s b"
    by (rule event_queue.enqueue_sorted_split [OF valid q(2) order]) simp
  ultimately show ?thesis
    using q(1) fresh key by (intro that [of as bs]) (simp_all add: upd_event_def)
qed

text \<open>
  Property C22: in every reachable state, sending an event succeeds exactly when its receiver exists and
  an event structure is free or can be allocated, and has no effect otherwise. The event that is sent
  is queued with the data it was given, behind every event that is as urgent or more urgent and in
  front of every event that is less urgent; nothing else in the queue or in the other events changes.
\<close>
theorem event_sent_in_order:
  assumes "reachable (s, r)" "allowed (Event_Send alloc event) (s, r)"
  shows "\<exists>res s'. eventOS_event_send alloc event s = Some (res, s') \<and>
    res = (if event_tasklet_handler_get (tasklet_index (ev_receiver event)) s \<noteq> None \<and>
             (free_event_entry s \<noteq> [] \<or> alloc \<noteq> None) then 0 else -1) \<and>
    (res = -1 \<longrightarrow> s' = s) \<and>
    (res = 0 \<longrightarrow> (\<exists>a e as bs. event_queue_active s = as @ bs \<and> event_queue_active s' = as @ a # bs \<and>
       a \<notin> set (event_queue_active s) \<and> el_events s' a = Some e \<and> es_data e = event \<and>
       (\<forall>b \<in> set as. priority_key s b \<le> priority_value (ev_priority event)) \<and>
       (\<forall>b \<in> set bs. priority_value (ev_priority event) < priority_key s b) \<and>
       (\<forall>b. b \<noteq> a \<longrightarrow> el_events s' b = el_events s b)))"
proof -
  obtain held where inv: "loop_inv {} held s"
    using dispatch_ok_held [OF reachable_ok [OF assms(1)]] by blast
  have alloc: "fresh_event alloc s" using assms(2) by simp
  show ?thesis
  proof (cases "event_tasklet_handler_get (tasklet_index (ev_receiver event)) s")
    case None
    then show ?thesis by (simp add: eventOS_event_send_def)
  next
    case receiver: (Some t)
    show ?thesis
    proof (rule event_core_get_ok [OF inv alloc])
      assume none: "event_core_get alloc s = Some (None, s)"
      then show ?thesis
        using receiver event_core_get_none [OF inv none] by (auto simp: eventOS_event_send_def)
    next
      fix a s1 e
      assume get: "event_core_get alloc s = Some (Some a, s1)" and inv1: "loop_inv {a} held s1"
        and e: "el_events s1 a = Some e" "es_allocator e \<noteq> ARM_LIB_EVENT_TIMER" "el_timers s1 a = None"
        and tasks: "tasklet_list s1 = tasklet_list s"
      note frame = event_core_get_frame [OF get]
      let ?e = "e\<lparr>es_data := event, es_state := ARM_LIB_EVENT_QUEUED\<rparr>"
      let ?s' = "\<lambda>as bs. upd_event a ?e (s1\<lparr>event_queue_active := as @ a # bs\<rparr>)"
      have "receiver_ok s1 (e\<lparr>es_data := event\<rparr>)"
        using receiver tasks by (simp add: receiver_ok_def event_tasklet_handler_get_def)
      then obtain as bs where
        sent: "event_core_write a (upd_event a (e\<lparr>es_data := event\<rparr>) s1) = Some (?s' as bs)"
        and split: "event_queue_active s = as @ bs" "a \<notin> set (event_queue_active s)"
          "\<forall>b \<in> set as. priority_key s1 b \<le> priority_value (ev_priority event)"
          "\<forall>b \<in> set bs. priority_value (ev_priority event) < priority_key s1 b"
        using event_written_in_order [OF inv1 e(1)] e(2,3) frame by metis
      have "priority_key s1 b = priority_key s b" if "b \<in> set as \<union> set bs" for b
        using that split(1,2) frame by (auto simp: priority_key_def)
      then have "\<forall>b \<in> set as. priority_key s b \<le> priority_value (ev_priority event)"
        "\<forall>b \<in> set bs. priority_value (ev_priority event) < priority_key s b"
        using split(3,4) by simp_all
      moreover have "eventOS_event_send alloc event s = Some (0, ?s' as bs)"
        using receiver get e(1) sent by (simp add: eventOS_event_send_def)
      moreover have "free_event_entry s \<noteq> [] \<or> alloc \<noteq> None"
        using event_core_get_none [OF inv get] by auto
      moreover have "\<forall>b. b \<noteq> a \<longrightarrow> el_events (?s' as bs) b = el_events s b"
        using frame by simp
      ultimately show ?thesis
        using split(1,2) receiver
        by (intro exI [of _ 0] exI [of _ "?s' as bs"] conjI impI exI [of _ a] exI [of _ ?e]
            exI [of _ as] exI [of _ bs]) simp_all
    qed
  qed
qed

theorem event_sent_in_order_witness:
  "\<exists>s r as bs a. run_loop [Handler_Create True None 7 1] (initial_state, None) = Some (s, r) \<and>
     event_queue_active s = as @ bs \<and>
     map_option (event_queue_active \<circ> snd) (eventOS_event_send None example_event s) = Some (as @ a # bs)"
proof -
  have "(case run_loop [Handler_Create True None 7 1] (initial_state, None) of None \<Rightarrow> False
     | Some (s, r) \<Rightarrow> allowed (Event_Send None example_event) (s, r) \<and> free_event_entry s \<noteq> [] \<and>
         event_tasklet_handler_get (tasklet_index (ev_receiver example_event)) s \<noteq> None)"
    by code_simp
  then obtain s r where run: "run_loop [Handler_Create True None 7 1] (initial_state, None) = Some (s, r)"
    "allowed (Event_Send None example_event) (s, r)" "free_event_entry s \<noteq> []"
    "event_tasklet_handler_get (tasklet_index (ev_receiver example_event)) s \<noteq> None"
    by (auto split: option.splits)
  show ?thesis
    using event_sent_in_order [OF reachable_run [OF run(1)] run(2)] run(1,3,4) by fastforce
qed

section \<open>The 129th tasklet\<close>

lemma no_free_id:
  "tasklet_list s = map (\<lambda>i. (int i, g i)) [0..<128] \<Longrightarrow> tasklet_get_free_id s = -1"
proof -
  assume tasks: "tasklet_list s = map (\<lambda>i. (int i, g i)) [0..<128]"
  have "event_tasklet_handler_get i s \<noteq> None" if "i < 128" for i
    using that tasks by (auto simp: event_tasklet_handler_get_def find_None_iff)
  then have "find (\<lambda>i. event_tasklet_handler_get i s = None) [0..<128] = None"
    by (auto simp: find_None_iff)
  then show ?thesis by (simp add: tasklet_get_free_id_def)
qed

text \<open>
  Property C40: when the 128 ids are in use, creating one more tasklet returns -1, which stands for a
  failed registration, but registers the tasklet under the id -1 and queues its initial event; the
  dispatch of that event looks for the tasklet 255, finds none and dereferences a null pointer.
\<close>
theorem tasklet_129_crashes_dispatch:
  assumes "tasklet_list s = map (\<lambda>i. (int i, g i)) [0..<128]" "f \<notin> g ` {..<128}"
    "event_queue_active s = []" "free_event_entry s = a # as" "el_events s a = Some e" "distinct (linked s)"
  shows "\<exists>s'. eventOS_event_handler_create True alloc f ty s = Some (-1, s') \<and>
     tasklet_list s' = tasklet_list s @ [(-1, f)] \<and> event_queue_active s' = [a] \<and> begin_dispatch s' = None"
proof -
  let ?e = "e\<lparr>es_data := (es_data e)\<lparr>ev_data_ptr := None, ev_priority := ARM_LIB_LOW_PRIORITY_EVENT\<rparr>\<rparr>"
  let ?s1 = "upd_event a ?e (s\<lparr>free_event_entry := as\<rparr>)"
  let ?s2 = "?s1\<lparr>tasklet_list := tasklet_list s @ [(-1, f)]\<rparr>"
  let ?d = "(es_data ?e)\<lparr>ev_receiver := -1, ev_sender := 0, ev_type := ty, ev_data := 0\<rparr>"
  let ?s3 = "upd_event a (?e\<lparr>es_data := ?d, es_state := ARM_LIB_EVENT_QUEUED\<rparr>) (?s2\<lparr>event_queue_active := [a]\<rparr>)"
  have get: "event_core_get alloc s = Some (Some a, ?s1)"
    using assms(4,5) by (simp add: event_core_get_def list_first_def list_remove_def)
  have "a \<notin> set (linked ?s2)"
    using assms(3,4,6) by (auto simp: linked_def)
  then have "event_core_write a (upd_event a (?e\<lparr>es_data := ?d\<rparr>) ?s2) = Some ?s3"
    using assms(3) by (simp add: event_core_write_def linked_def upd_event_def)
  moreover have "f \<notin> snd ` set (tasklet_list s)"
    using assms(1,2) by auto
  moreover have "tasklet_get_free_id ?s1 = -1"
    using no_free_id [of ?s1 g] assms(1) by simp
  ultimately have create: "eventOS_event_handler_create True alloc f ty s = Some (-1, ?s3)"
    using get by (simp add: eventOS_event_handler_create_def list_add_to_end_def Let_def)
  have "event_tasklet_handler_get 255 ?s3 = None"
    using assms(1) by (auto simp: event_tasklet_handler_get_def find_None_iff)
  then have "begin_dispatch ?s3 = None"
    by (simp add: begin_dispatch_def event_core_read_def list_first_def tasklet_index_def Let_def
        event_tasklet_handler_get_def)
  then show ?thesis using create by auto
qed

theorem tasklet_129_crashes_dispatch_witness:
  "\<exists>s'. eventOS_event_handler_create True None 200 1
      (initial_state\<lparr>tasklet_list := map (\<lambda>i. (int i, i)) [0..<128]\<rparr>) = Some (-1, s') \<and> begin_dispatch s' = None"
proof -
  let ?s = "initial_state\<lparr>tasklet_list := map (\<lambda>i. (int i, i)) [0..<128]\<rparr>"
  have s: "linked ?s = rev [0..<10] @ rev [10..<16]" "free_event_entry ?s = 9 # rev [0..<9]"
    "event_queue_active ?s = []" "el_events ?s 9 = Some zero_event"
    by (simp_all add: initial_state_def static_state_def linked_def startup_event_pool_def
        startup_sys_timer_pool_def upt_rec)
  have "distinct (linked ?s)" unfolding s(1) by auto
  then show ?thesis
    using tasklet_129_crashes_dispatch [of ?s "\<lambda>i. i" 200 9 "rev [0..<9]" zero_event None 1] s(2-4) by auto
qed

section \<open>User structures after the dispatch\<close>

text \<open>
  The header lets the tasklet invalidate a structure of the user's that has been delivered
  to it, but the dispatch reads the allocator field of the structure after the call: when the tasklet
  gave the memory back, that is a use after free.
\<close>
theorem delivered_user_event_is_read_again:
  assumes "reachable (s, None)" "event_queue_active s = a # as" "is_user s a"
    "\<And>f event s. call f event s = Some (s\<lparr>el_events := (el_events s)(a := None)\<rparr>)"
  shows "eventOS_scheduler_dispatch_event call s = None"
proof -
  have inv: "loop_inv {} {} s"
    using reachable_ok [OF assms(1)] by (simp add: dispatch_ok_def dispatch_inv_def)
  obtain f event s1 where "begin_dispatch s = Some (Some (a, f, event), s1)"
    by (rule begin_dispatch_ok [OF inv assms(2)]) blast
  then show ?thesis
    using assms(4)
    by (simp add: eventOS_scheduler_dispatch_event_def end_dispatch_def event_core_free_push_def)
qed

theorem delivered_user_event_is_read_again_witness:
  "\<exists>s. run_loop [Handler_Create True None 7 1, Begin_Dispatch, End_Dispatch,
        Send_User 20 (zero_event\<lparr>es_data := example_event\<rparr>)] (initial_state, None) = Some (s, None) \<and>
     eventOS_scheduler_dispatch_event (\<lambda>f event s. Some (s\<lparr>el_events := (el_events s)(20 := None)\<rparr>)) s = None"
proof -
  let ?ops = "[Handler_Create True None 7 1, Begin_Dispatch, End_Dispatch,
        Send_User 20 (zero_event\<lparr>es_data := example_event\<rparr>)]"
  have "do { (s, r) \<leftarrow> run_loop ?ops (initial_state, None); Some (event_queue_active s, is_user s 20, r) } =
      Some ([20], True, None)"
    by code_simp
  then obtain s where s: "run_loop ?ops (initial_state, None) = Some (s, None)" "event_queue_active s = [20]"
    "is_user s 20"
    by (auto split: bind_splits)
  have "eventOS_scheduler_dispatch_event (\<lambda>f event s. Some (s\<lparr>el_events := (el_events s)(20 := None)\<rparr>)) s = None"
    by (rule delivered_user_event_is_read_again [OF reachable_run [OF s(1)] s(2,3)]) simp
  then show ?thesis using s(1) by blast
qed

end
