(* ===== verification/Event_Deadline.thy ===== *)
theory Event_Deadline
  imports Event_Frame Event_Delivery
begin

text \<open>
  Timers keep their deadlines: whatever else happens in the loop, a timer is launched by the tick
  that reaches the requested time and by none before it.
\<close>

definition ticked :: "loop_op list \<Rightarrow> nat" where
  "ticked ops = (\<Sum>op \<leftarrow> ops. case op of Tick n \<Rightarrow> unat n | _ \<Rightarrow> 0)"

lemma ticked_simps [simp]:
  "ticked [] = 0"
  "ticked (Tick n # ops) = unat n + ticked ops"
  "\<forall>n. op \<noteq> Tick n \<Longrightarrow> ticked (op # ops) = ticked ops"
  by (auto simp: ticked_def split: loop_op.split)

lemma ticks_left_same: "same_at a s s' \<Longrightarrow> ticks_left s' a = ticks_left s a"
  by (simp add: same_at_def ticks_left_def cong: option.case_cong)

lemma exec_pending:
  assumes ok: "dispatch_ok (s, r)" and op: "allowed op (s, r)" "exec op (s, r) = Some (s', r')"
    and a: "a \<in> set (system_timer_list s)" "el_events s a = Some e" "\<not> meant_for a (es_data e) op"
    and early: "ticked [op] < ticks_left s a"
  shows "a \<in> set (system_timer_list s') \<and> ticks_left s' a = ticks_left s a - ticked [op] \<and>
     el_events s' a = Some e"
proof (cases "\<exists>n. op = Tick n")
  case True
  then obtain n where n: "op = Tick n" by blast
  obtain held where inv: "loop_inv {} held s" using dispatch_ok_held [OF ok] by blast
  show ?thesis
    using tick_update_ok [OF inv, of n] op a early n by (auto simp: run_op_def)
next
  case False
  then have same: "same_at a s s'"
    using exec_frame [OF ok op a(1,2)] a(3) by blast
  then show ?thesis
    using False a ticks_left_same [OF same] by (simp add: same_at_def)
qed

lemma run_pending:
  assumes "dispatch_ok x" "run_loop ops x = Some y" "a \<in> set (system_timer_list (fst x))"
    "el_events (fst x) a = Some e" "\<forall>op \<in> set ops. \<not> meant_for a (es_data e) op"
    "ticked ops < ticks_left (fst x) a"
  shows "dispatch_ok y \<and> a \<in> set (system_timer_list (fst y)) \<and>
    ticks_left (fst y) a = ticks_left (fst x) a - ticked ops \<and> el_events (fst y) a = Some e"
  using assms
proof (induction ops arbitrary: x)
  case (Cons op ops)
  obtain s r where x: "x = (s, r)" by (cases x)
  obtain s1 r1 where step: "allowed op (s, r)" "exec op (s, r) = Some (s1, r1)" "run_loop ops (s1, r1) = Some y"
    using Cons.prems(2) x by (auto split: if_splits option.splits)
  have sum: "ticked (op # ops) = ticked [op] + ticked ops"
    by (simp add: ticked_def)
  have pending: "a \<in> set (system_timer_list s1) \<and> ticks_left s1 a = ticks_left s a - ticked [op] \<and>
      el_events s1 a = Some e"
    using exec_pending [OF _ step(1,2), of a e] Cons.prems x sum by simp
  moreover have "dispatch_ok (s1, r1)"
    using exec_ok [of s r op] Cons.prems(1) step(1,2) x by auto
  ultimately show ?case
    using Cons.IH [of "(s1, r1)"] Cons.prems step(3) x sum by auto
qed simp

lemma request_in_pending:
  assumes "eventOS_event_timer_request_in alloc event delay s = Some (Some a, s')" "0 < sint delay"
  shows "a \<in> set (system_timer_list s') \<and> ticks_left s' a = unat delay \<and>
    (\<exists>e. el_events s' a = Some e \<and> es_data e = event)"
  using assms
  by (auto simp: eventOS_event_timer_request_in_def eventOS_event_timer_request_at_locked_def
      ticks_before_or_at_def timer_sys_add_def ticks_left_def timer_struct_get_def Let_def
      split: if_splits bind_splits option.splits dest!: set_link_before_first)

text \<open>
  Property C19: in every reachable state, a timer that is requested to launch in \<open>delay\<close> ticks is
  launched on time. As long as fewer ticks have passed, and whatever else is sent, requested,
  cancelled, created or dispatched in the meantime, also when the tick counter wraps around, it is
  among the pending timers and not in the event queue; the tick update that reaches \<open>delay\<close> ticks
  in total puts it into the queue with the event that was requested.
\<close>
theorem timer_launches_on_time:
  assumes "reachable (s, r)" "fresh_timer alloc s" "0 < sint delay"
    "eventOS_event_timer_request_in alloc event delay s = Some (Some a, s1)"
    "run_loop ops (s1, r) = Some (s2, r2)" "\<forall>op \<in> set ops. \<not> meant_for a event op"
    "ticked ops < unat delay" "0 \<le> sint n" "unat delay \<le> ticked ops + unat n"
  shows "a \<in> set (system_timer_list s2) \<and> a \<notin> set (event_queue_active s2) \<and>
    (\<exists>s3 e. exec (Tick n) (s2, r2) = Some (s3, r2) \<and> a \<notin> set (system_timer_list s3) \<and>
       a \<in> set (event_queue_active s3) \<and> el_events s3 a = Some e \<and> es_data e = event)"
proof -
  obtain e where e: "a \<in> set (system_timer_list s1)" "ticks_left s1 a = unat delay"
    "el_events s1 a = Some e" "es_data e = event"
    using request_in_pending [OF assms(4,3)] by blast
  have "exec (Request_In alloc event delay) (s, r) = Some (s1, r)"
    using assms(4) by (simp add: run_op_def)
  moreover have "allowed (Request_In alloc event delay) (s, r)" using assms(2) by simp
  ultimately have "dispatch_ok (s1, r)"
    using reachable_ok reachable_step [OF assms(1)] by blast
  then have later: "dispatch_ok (s2, r2)" "a \<in> set (system_timer_list s2)"
    "ticks_left s2 a = unat delay - ticked ops" "el_events s2 a = Some e"
    using run_pending [OF _ assms(5), of a e] e assms(6,7) by auto
  obtain held where inv: "loop_inv {} held s2" using dispatch_ok_held [OF later(1)] by blast
  then have "a \<notin> set (event_queue_active s2)"
    using later(2) by (auto simp: loop_inv_def owned_def linked_def)
  obtain s3 where s3: "system_timer_tick_update n s2 = Some s3"
    "system_timer_list s3 = filter (\<lambda>a. unat n < ticks_left s2 a) (system_timer_list s2)"
    "\<forall>p. filter (\<lambda>a. priority_key s2 a = p) (event_queue_active s3) =
          filter (\<lambda>a. priority_key s2 a = p) (event_queue_active s2) @
          filter (\<lambda>a. priority_key s2 a = p) (filter (\<lambda>a. ticks_left s2 a \<le> unat n) (system_timer_list s2))"
    "\<forall>b. map_option es_data (el_events s3 b) = map_option es_data (el_events s2 b)"
    using tick_update_ok [OF inv assms(8)] by blast
  have due: "ticks_left s2 a \<le> unat n" using later(3) assms(9) by simp
  have "a \<in> set (filter (\<lambda>b. priority_key s2 b = priority_key s2 a) (event_queue_active s3))"
    using s3(3) later(2) due by simp
  then have "a \<in> set (event_queue_active s3)" by simp
  moreover have "exec (Tick n) (s2, r2) = Some (s3, r2)" using s3(1) by (simp add: run_op_def)
  moreover have "a \<notin> set (system_timer_list s3)" using s3(2) due by simp
  moreover obtain e3 where "el_events s3 a = Some e3" "es_data e3 = event"
    using s3(4) [rule_format, of a] later(4) e(4) by auto
  ultimately show ?thesis using later(2) \<open>a \<notin> set (event_queue_active s2)\<close> by blast
qed

definition example_setup :: "loop_op list" where
  "example_setup = [Handler_Create True None 7 1, Begin_Dispatch]"

definition example_meanwhile :: "loop_op list" where
  "example_meanwhile = [End_Dispatch, Event_Send None example_event, Tick 2, Begin_Dispatch]"

theorem timer_launches_on_time_witness:
  "\<exists>s r s1 s2 r2. run_loop example_setup (initial_state, None) = Some (s, r) \<and>
     eventOS_event_timer_request_in None example_event 3 s = Some (Some 15, s1) \<and>
     run_loop example_meanwhile (s1, r) = Some (s2, r2) \<and>
     15 \<in> set (system_timer_list s2) \<and>
     (\<exists>s3. exec (Tick 1) (s2, r2) = Some (s3, r2) \<and> 15 \<in> set (event_queue_active s3))"
proof -
  have "do { (s, r) \<leftarrow> run_loop example_setup (initial_state, None);
             (a, s1) \<leftarrow> eventOS_event_timer_request_in None example_event 3 s;
             x \<leftarrow> run_loop example_meanwhile (s1, r);
             Some a } = Some (Some 15)"
    by code_simp
  then obtain s r s1 s2 r2 where run: "run_loop example_setup (initial_state, None) = Some (s, r)"
    "eventOS_event_timer_request_in None example_event 3 s = Some (Some 15, s1)"
    "run_loop example_meanwhile (s1, r) = Some (s2, r2)"
    by (auto split: bind_splits)
  have "ticked example_meanwhile = 2" "\<forall>op \<in> set example_meanwhile. \<not> meant_for 15 example_event op"
    by (simp_all add: example_meanwhile_def meant_for_def)
  then show ?thesis
    using timer_launches_on_time [OF reachable_run [OF run(1)] _ _ run(2,3), of 1] run
    by (fastforce simp: fresh_timer_def)
qed

section \<open>Ticks\<close>

text \<open>
  Property C23: in every reachable state, a tick update by less than half of the range of the 32-bit
  counter launches exactly the timers that have at most that many ticks left. They join the event
  queue behind the queued events of their priority, in the order in which they were due; the other
  timers stay, in their order, with that much less time left; no other event is touched.
\<close>
theorem tick_launches_exactly_due_timers:
  assumes "reachable (s, r)" "0 \<le> sint n"
  shows "\<exists>s'. system_timer_tick_update n s = Some s' \<and>
     timer_sys_ticks s' = timer_sys_ticks s + n \<and>
     system_timer_list s' = filter (\<lambda>a. unat n < ticks_left s a) (system_timer_list s) \<and>
     (\<forall>a \<in> set (system_timer_list s'). ticks_left s' a = ticks_left s a - unat n \<and> el_events s' a = el_events s a) \<and>
     in_order (priority_key s) (event_queue_active s') \<and>
     (\<forall>p. filter (\<lambda>a. priority_key s a = p) (event_queue_active s') =
          filter (\<lambda>a. priority_key s a = p) (event_queue_active s) @
          filter (\<lambda>a. priority_key s a = p) (filter (\<lambda>a. ticks_left s a \<le> unat n) (system_timer_list s))) \<and>
     (\<forall>b. map_option es_data (el_events s' b) = map_option es_data (el_events s b))"
proof -
  obtain held where inv: "loop_inv {} held s"
    using dispatch_ok_held [OF reachable_ok [OF assms(1)]] by blast
  obtain s' where s': "system_timer_tick_update n s = Some s'" "loop_inv {} held s'"
    "timer_sys_ticks s' = timer_sys_ticks s + n"
    "system_timer_list s' = filter (\<lambda>a. unat n < ticks_left s a) (system_timer_list s)"
    "\<forall>a \<in> set (system_timer_list s'). ticks_left s' a = ticks_left s a - unat n"
    "\<forall>p. filter (\<lambda>a. priority_key s a = p) (event_queue_active s') =
          filter (\<lambda>a. priority_key s a = p) (event_queue_active s) @
          filter (\<lambda>a. priority_key s a = p) (filter (\<lambda>a. ticks_left s a \<le> unat n) (system_timer_list s))"
    "priority_key s' = priority_key s"
    "\<forall>b. map_option es_data (el_events s' b) = map_option es_data (el_events s b)"
    "\<forall>b \<in> set (system_timer_list s'). el_events s' b = el_events s b"
    using tick_update_ok [OF inv assms(2)] by blast
  have "in_order (priority_key s) (event_queue_active s')"
    using s'(2,7) by (simp add: loop_inv_def)
  then show ?thesis
    using s' by blast
qed

theorem tick_launches_exactly_due_timers_witness:
  "\<exists>s r s'. run_loop (example_setup @ [Request_In None example_event 3]) (initial_state, None) = Some (s, r) \<and>
     system_timer_tick_update 2 s = Some s' \<and>
     system_timer_list s' = filter (\<lambda>a. unat (2 :: 32 word) < ticks_left s a) (system_timer_list s)"
proof -
  have "(case run_loop (example_setup @ [Request_In None example_event 3]) (initial_state, None) of
       None \<Rightarrow> False | Some x \<Rightarrow> True)"
    by code_simp
  then obtain s r where run:
    "run_loop (example_setup @ [Request_In None example_event 3]) (initial_state, None) = Some (s, r)"
    by (auto split: option.splits)
  then show ?thesis
    using tick_launches_exactly_due_timers [OF reachable_run [OF run], of 2] by auto
qed

section \<open>Cancelling\<close>

text \<open>
  Property C24: in every reachable state, cancelling an event that is queued or a timer that is pending
  takes it out of the queue and out of the pending timers and changes their order in no other way.
  A timer, periodic or not, goes back to the free timers, an event of the startup pool to the free
  events and a dynamically allocated event to the heap.
\<close>
theorem cancelled_event_is_gone:
  assumes "reachable (s, r)" "a \<in> set (event_queue_active s) \<union> set (system_timer_list s)"
  shows "\<exists>s'. eventOS_cancel (Some a) s = Some s' \<and>
     event_queue_active s' = remove1 a (event_queue_active s) \<and>
     system_timer_list s' = remove1 a (system_timer_list s) \<and>
     a \<notin> set (event_queue_active s') \<union> set (system_timer_list s') \<and>
     (case kind s a of
        Some ARM_LIB_EVENT_TIMER \<Rightarrow> system_timer_free s' = a # system_timer_free s
      | Some ARM_LIB_EVENT_STARTUP_POOL \<Rightarrow> free_event_entry s' = a # free_event_entry s
      | Some ARM_LIB_EVENT_DYNAMIC \<Rightarrow> el_events s' a = None
      | _ \<Rightarrow> True)"
proof -
  obtain held where inv: "loop_inv {} held s"
    using dispatch_ok_held [OF reachable_ok [OF assms(1)]] by blast
  have dist: "distinct (linked s)" using inv by (simp add: loop_inv_def owned_def)
  show ?thesis
  proof (cases "a \<in> set (system_timer_list s)")
    case True
    obtain e t where e: "el_events s a = Some e" "es_state e = ARM_LIB_EVENT_UNQUEUED"
      "es_allocator e = ARM_LIB_EVENT_TIMER" "el_timers s a = Some t"
      using loop_inv_pending [OF inv True] by (auto simp: pending_ok_def in_future_def split: option.splits)
    have out: "a \<notin> set (event_queue_active s)" "a \<notin> set (free_event_entry s)" "a \<notin> set (system_timer_free s)"
      using True dist by (auto simp: linked_def)
    have "remove1 a (event_queue_active s) = event_queue_active s" using out(1) by (rule remove1_idem)
    then show ?thesis
      using True e dist out
      by (auto simp: eventOS_cancel_def timer_sys_event_cancel_critical_def event_core_free_push_def
          timer_sys_event_free_def list_ops kind_def linked_def)
  next
    case False
    then have queued: "a \<in> set (event_queue_active s)" using assms(2) by simp
    obtain e where e: "el_events s a = Some e" "es_state e = ARM_LIB_EVENT_QUEUED"
      "es_allocator e = ARM_LIB_EVENT_TIMER \<longleftrightarrow> el_timers s a \<noteq> None"
      using loop_inv_queued [OF inv queued] by (auto simp: queued_ok_def)
    have out: "a \<notin> set (free_event_entry s)" "a \<notin> set (system_timer_free s)"
      using queued dist by (auto simp: linked_def)
    have "remove1 a (system_timer_list s) = system_timer_list s" using False by (simp add: remove1_idem)
    then show ?thesis
      using queued False e dist out
      by (cases "es_allocator e")
        (auto simp: eventOS_cancel_def timer_sys_event_cancel_critical_def eventOS_event_cancel_critical_def
          event_core_free_push_def timer_sys_event_free_def list_ops kind_def linked_def)
  qed
qed

theorem cancelled_event_is_gone_witness:
  "\<exists>s r s'. run_loop (example_setup @ [Request_Every None example_event 3]) (initial_state, None) = Some (s, r) \<and>
     15 \<in> set (system_timer_list s) \<and> eventOS_cancel (Some 15) s = Some s' \<and> 15 \<notin> set (system_timer_list s')"
proof -
  have "do { (s, r) \<leftarrow> run_loop (example_setup @ [Request_Every None example_event 3]) (initial_state, None);
             Some (system_timer_list s) } = Some [15]"
    by code_simp
  then obtain s r where run:
    "run_loop (example_setup @ [Request_Every None example_event 3]) (initial_state, None) = Some (s, r)"
    "system_timer_list s = [15]"
    by (auto split: bind_splits)
  then show ?thesis
    using cancelled_event_is_gone [OF reachable_run [OF run(1)], of 15] by auto
qed

end
