(* ===== verification/Event_Idle.thy ===== *)
theory Event_Idle
  imports Event_Delivery
begin

text \<open>
  \<open>eventOS_scheduler_run_until_idle\<close> comes to an end: an event that is dispatched leaves the queue,
  and a periodic timer that is late is queued again only until its launch time has caught up with
  the tick counter.
\<close>

section \<open>Periods\<close>

text \<open>The period of a timer is an \<open>int32_t\<close> that is not negative.\<close>

definition periods_ok :: "event_loop \<Rightarrow> bool" where
  "periods_ok s \<longleftrightarrow> (\<forall>a t. el_timers s a = Some t \<longrightarrow> 0 \<le> sint (period t))"

lemma periods_ok_set [simp]:
  "periods_ok (s\<lparr>event_queue_active := q\<rparr>) = periods_ok s"
  "periods_ok (s\<lparr>free_event_entry := q\<rparr>) = periods_ok s"
  "periods_ok (s\<lparr>system_timer_free := q\<rparr>) = periods_ok s"
  "periods_ok (s\<lparr>system_timer_list := q\<rparr>) = periods_ok s"
  "periods_ok (s\<lparr>tasklet_list := ts\<rparr>) = periods_ok s"
  "periods_ok (s\<lparr>curr_tasklet := c\<rparr>) = periods_ok s"
  "periods_ok (s\<lparr>timer_sys_ticks := n\<rparr>) = periods_ok s"
  "periods_ok (s\<lparr>el_events := es\<rparr>) = periods_ok s"
  "periods_ok (upd_event a e s) = periods_ok s"
  by (simp_all add: periods_ok_def)

lemma periods_ok_upd_timer: "periods_ok s \<Longrightarrow> 0 \<le> sint (period t) \<Longrightarrow> periods_ok (upd_timer a t s)"
  by (simp add: periods_ok_def)

lemma event_core_write_periods: "event_core_write b s = Some s' \<Longrightarrow> periods_ok s \<Longrightarrow> periods_ok s'"
  by (auto simp: event_core_write_def split: bind_splits)

lemma send_allocated_periods: "send_allocated al b s = Some s' \<Longrightarrow> periods_ok s \<Longrightarrow> periods_ok s'"
  by (auto simp: send_allocated_def split: bind_splits dest: event_core_write_periods)

lemma timer_sys_add_periods: "timer_sys_add b s = Some s' \<Longrightarrow> periods_ok s \<Longrightarrow> periods_ok s'"
  by (auto simp: timer_sys_add_def split: bind_splits)

lemmas linked_periods = send_allocated_periods timer_sys_add_periods

lemma timer_sys_event_free_periods:
  "timer_sys_event_free b s = Some s' \<Longrightarrow> periods_ok s \<Longrightarrow> periods_ok s'"
  by (auto simp: timer_sys_event_free_def eventOS_event_send_timer_allocated_def Let_def
      split: bind_splits if_splits dest!: linked_periods intro: periods_ok_upd_timer)
    (auto simp: periods_ok_def)

lemma event_core_free_push_periods: "event_core_free_push b s = Some s' \<Longrightarrow> periods_ok s \<Longrightarrow> periods_ok s'"
  by (auto simp: event_core_free_push_def split: bind_splits event_allocator.splits
      dest!: timer_sys_event_free_periods)

lemma eventOS_cancel_periods: "eventOS_cancel b s = Some s' \<Longrightarrow> periods_ok s \<Longrightarrow> periods_ok s'"
  by (auto simp: eventOS_cancel_def timer_sys_event_cancel_critical_def eventOS_event_cancel_critical_def Let_def
      split: option.splits bind_splits if_splits dest!: event_core_free_push_periods)
    (auto simp: periods_ok_def)

lemma event_core_get_periods: "event_core_get alloc s = Some (b', s') \<Longrightarrow> periods_ok s \<Longrightarrow> periods_ok s'"
  by (auto simp: event_core_get_def event_dynamically_allocate_def split: option.splits bind_splits)

lemma request_at_locked_periods:
  "eventOS_event_timer_request_at_locked alloc event launch every s = Some (res, s') \<Longrightarrow> 0 \<le> sint every \<Longrightarrow>
   periods_ok s \<Longrightarrow> periods_ok s'"
proof -
  assume request: "eventOS_event_timer_request_at_locked alloc event launch every s = Some (res, s')"
    and every: "0 \<le> sint every" and ok: "periods_ok s"
  obtain b' s1 where get: "timer_struct_get alloc s = (b', s1)" by force
  show ?thesis
  proof (cases b')
    case None
    then have "s1 = s" using get by (auto simp: timer_struct_get_def split: option.splits)
    then show ?thesis
      using request get None ok
      by (auto simp: eventOS_event_timer_request_at_locked_def split: if_splits)
  next
    case (Some b)
    have "periods_ok (upd_timer b (t\<lparr>launch_time := launch, period := every\<rparr>) s1)" for t
      using get ok every Some
      by (auto simp: timer_struct_get_def periods_ok_def split: option.splits if_splits)
    then show ?thesis
      using request get Some ok
      by (auto simp: eventOS_event_timer_request_at_locked_def eventOS_event_send_timer_allocated_def Let_def
          upd_timer_def upd_event_def periods_ok_def
          split: if_splits bind_splits dest!: linked_periods)
  qed
qed

lemma launch_due_periods: "launch_due as s = Some s' \<Longrightarrow> periods_ok s \<Longrightarrow> periods_ok s'"
  by (induction as arbitrary: s)
    (auto simp: eventOS_event_send_timer_allocated_def split: bind_splits if_splits dest!: send_allocated_periods)

lemma exec_periods:
  "exec op (s, r) = Some (s', r') \<Longrightarrow> periods_ok s \<Longrightarrow> periods_ok s'"
proof (cases op)
  case (Event_Send alloc event)
  then show "exec op (s, r) = Some (s', r') \<Longrightarrow> periods_ok s \<Longrightarrow> periods_ok s'"
    by (auto simp: run_op_def eventOS_event_send_def split: bind_splits if_splits option.splits
        dest!: event_core_get_periods event_core_write_periods)
next
  case (Handler_Create granted alloc f ty)
  then show "exec op (s, r) = Some (s', r') \<Longrightarrow> periods_ok s \<Longrightarrow> periods_ok s'"
    by (auto simp: run_op_def eventOS_event_handler_create_def Let_def split: bind_splits if_splits option.splits
        dest!: event_core_get_periods event_core_write_periods)
next
  case (Send_User b e)
  then show "exec op (s, r) = Some (s', r') \<Longrightarrow> periods_ok s \<Longrightarrow> periods_ok s'"
    by (auto simp: run_op_def eventOS_event_send_user_allocated_def dest!: send_allocated_periods)
next
  case (Release_User b)
  then show "exec op (s, r) = Some (s', r') \<Longrightarrow> periods_ok s \<Longrightarrow> periods_ok s'"
    by (auto simp: run_op_def)
next
  case (Cancel b)
  then show "exec op (s, r) = Some (s', r') \<Longrightarrow> periods_ok s \<Longrightarrow> periods_ok s'"
    by (auto simp: run_op_def dest!: eventOS_cancel_periods)
next
  case (Request_At alloc event launch)
  then show "exec op (s, r) = Some (s', r') \<Longrightarrow> periods_ok s \<Longrightarrow> periods_ok s'"
    by (auto simp: run_op_def eventOS_event_timer_request_at_def dest!: request_at_locked_periods)
next
  case (Request_In alloc event delay)
  then show "exec op (s, r) = Some (s', r') \<Longrightarrow> periods_ok s \<Longrightarrow> periods_ok s'"
    by (auto simp: run_op_def eventOS_event_timer_request_in_def dest!: request_at_locked_periods)
next
  case (Request_Every alloc event every)
  then show "exec op (s, r) = Some (s', r') \<Longrightarrow> periods_ok s \<Longrightarrow> periods_ok s'"
    by (auto simp: run_op_def eventOS_event_timer_request_every_def split: if_splits
        dest!: request_at_locked_periods)
next
  case (Request_Legacy alloc i ty tasklet time)
  then show "exec op (s, r) = Some (s', r') \<Longrightarrow> periods_ok s \<Longrightarrow> periods_ok s'"
    by (auto simp: run_op_def eventOS_event_timer_request_def split: bind_splits
        dest!: request_at_locked_periods)
next
  case (Timer_Cancel i t)
  then show "exec op (s, r) = Some (s', r') \<Longrightarrow> periods_ok s \<Longrightarrow> periods_ok s'"
    by (auto simp: run_op_def eventOS_event_timer_cancel_def split: bind_splits option.splits if_splits
        dest!: eventOS_cancel_periods)
next
  case (Tick n)
  then show "exec op (s, r) = Some (s', r') \<Longrightarrow> periods_ok s \<Longrightarrow> periods_ok s'"
    by (auto simp: run_op_def system_timer_tick_update_def dest!: launch_due_periods)
next
  case Begin_Dispatch
  then show "exec op (s, r) = Some (s', r') \<Longrightarrow> periods_ok s \<Longrightarrow> periods_ok s'"
    by (auto simp: begin_dispatch_def event_core_read_def Let_def split: bind_splits option.splits)
next
  case End_Dispatch
  then show "exec op (s, r) = Some (s', r') \<Longrightarrow> periods_ok s \<Longrightarrow> periods_ok s'"
    by (auto simp: end_dispatch_def split: bind_splits option.splits dest!: event_core_free_push_periods)
qed

lemma reachable_periods: "reachable x \<Longrightarrow> periods_ok (fst x)"
proof (induction rule: reachable.induct)
  case (reachable_init s)
  then have "s = initial_state" by (simp add: scheduler_init)
  then show ?case
    by (auto simp: initial_state_def static_state_def periods_ok_def split: if_splits)
next
  case (reachable_step x op y)
  then show ?case
    using exec_periods [of op "fst x" "snd x" "fst y" "snd y"] by simp
qed

section \<open>The work in the queue\<close>

text \<open>How often a timer whose launch time is not in the future can be queued again.\<close>

definition relaunches :: "32 word \<Rightarrow> sys_timer \<Rightarrow> nat" where
  "relaunches now t =
     (if period t = 0 then 0
      else if sint (launch_time t - now) \<le> 0 then nat (- sint (launch_time t - now)) else 2 ^ 31 + 1)"

definition weight :: "event_loop \<Rightarrow> nat \<Rightarrow> nat" where
  "weight s a = Suc (case el_timers s a of None \<Rightarrow> 0 | Some t \<Rightarrow> relaunches (timer_sys_ticks s) t)"

definition work :: "event_loop \<Rightarrow> nat" where
  "work s = sum_list (map (weight s) (event_queue_active s))"

lemma sint_add_word:
  fixes x y :: "32 word"
  assumes "- (2 ^ 31) \<le> sint x + sint y" "sint x + sint y < 2 ^ 31"
  shows "sint (x + y) = sint x + sint y"
proof -
  have "x + y = word_of_int (sint x + sint y)" by simp
  then have "sint (x + y) = signed_take_bit 31 (sint x + sint y)"
    by (simp only: sint_sbintrunc') simp
  also have "\<dots> = sint x + sint y"
    using assms by (intro signed_take_bit_int_eq_self) simp_all
  finally show ?thesis .
qed

lemma relaunches_decrease:
  assumes "0 \<le> sint (period t)" "period t \<noteq> 0"
    "ticks_before_or_at (launch_time t + period t) now"
  shows "relaunches now (t\<lparr>launch_time := launch_time t + period t\<rparr>) < relaunches now t"
proof -
  let ?d = "launch_time t - now" and ?p = "period t"
  have p: "0 < sint ?p" using assms(1,2) by (simp add: order_less_le signed_eq_0_iff)
  have diff: "launch_time t + ?p - now = ?d + ?p" by simp
  have late: "sint (?d + ?p) \<le> 0" using assms(3) by (simp add: ticks_before_or_at_def diff)
  have low: "- (2 ^ 31) \<le> sint (?d + ?p)" using sint_ge [of "?d + ?p"] by simp
  show ?thesis
  proof (cases "sint ?d \<le> 0")
    case True
    have "sint (?d + ?p) = sint ?d + sint ?p"
      using True p sint_lt [of ?p] sint_ge [of ?d] by (intro sint_add_word) simp_all
    then show ?thesis using True late p assms(2) by (simp add: relaunches_def diff)
  next
    case False
    then show ?thesis using late low assms(2) by (simp add: relaunches_def diff)
  qed
qed

section \<open>A dispatch takes work away\<close>

lemma sum_link_before_first:
  "link_before_first p x ys = Some zs \<Longrightarrow> sum_list (map f zs) = f x + sum_list (map f ys)" for f :: "_ \<Rightarrow> nat"
  by (induction ys arbitrary: zs) (auto split: option.splits bool.splits)

lemma weight_upd [simp]:
  "weight (upd_event a e s) = weight s"
  "weight (s\<lparr>event_queue_active := q\<rparr>) = weight s"
  "weight (s\<lparr>free_event_entry := q\<rparr>) = weight s"
  "weight (s\<lparr>system_timer_free := q\<rparr>) = weight s"
  "weight (s\<lparr>system_timer_list := q\<rparr>) = weight s"
  "weight (s\<lparr>curr_tasklet := c\<rparr>) = weight s"
  "weight (s\<lparr>el_events := es\<rparr>) = weight s"
  "b \<noteq> a \<Longrightarrow> weight (upd_timer a t s) b = weight s b"
  by (simp_all add: weight_def fun_eq_iff cong: option.case_cong)

lemma work_upd [simp]:
  "work (upd_event a e s) = work s"
  "work (s\<lparr>free_event_entry := q\<rparr>) = work s"
  "work (s\<lparr>system_timer_free := q\<rparr>) = work s"
  "work (s\<lparr>system_timer_list := q\<rparr>) = work s"
  "work (s\<lparr>curr_tasklet := c\<rparr>) = work s"
  "work (s\<lparr>el_events := es\<rparr>) = work s"
  by (simp_all add: work_def)

lemma work_send:
  assumes "send_allocated al a s = Some s'"
  shows "work s' = weight s a + work s"
  using assms by (auto simp: send_allocated_def event_core_write_def work_def sum_link_before_first split: bind_splits)

lemma work_timer_sys_add: "timer_sys_add a s = Some s' \<Longrightarrow> work s' = work s"
  by (auto simp: timer_sys_add_def split: bind_splits)

lemma work_free_push:
  assumes "event_core_free_push a s = Some s'" "a \<notin> set (event_queue_active s) \<or> el_timers s a = None"
    "el_timers s a = None \<Longrightarrow> \<forall>e. el_events s a = Some e \<longrightarrow> es_allocator e \<noteq> ARM_LIB_EVENT_TIMER" "periods_ok s"
  shows "work s' + 1 \<le> weight s a + work s"
proof (cases "el_timers s a")
  case None
  then have "work s' = work s"
    using assms(1,3) by (auto simp: event_core_free_push_def split: bind_splits event_allocator.splits)
  then show ?thesis by (simp add: weight_def)
next
  case (Some t)
  obtain e where e: "el_events s a = Some e" using assms(1) by (auto simp: event_core_free_push_def split: bind_splits)
  show ?thesis
  proof (cases "es_allocator e = ARM_LIB_EVENT_TIMER")
    case False
    then have "work s' = work s"
      using assms(1) e by (auto simp: event_core_free_push_def split: bind_splits event_allocator.splits)
    then show ?thesis by (simp add: weight_def)
  next
    case True
    let ?t = "t\<lparr>launch_time := launch_time t + period t\<rparr>"
    let ?s = "upd_timer a ?t (upd_event a (e\<lparr>es_state := ARM_LIB_EVENT_UNQUEUED\<rparr>) s)"
    have free: "timer_sys_event_free a (upd_event a (e\<lparr>es_state := ARM_LIB_EVENT_UNQUEUED\<rparr>) s) = Some s'"
      using assms(1) e True by (simp add: event_core_free_push_def)
    have same: "work ?s = work s"
    proof -
      have "weight ?s b = weight s b" if "b \<in> set (event_queue_active s)" for b
      proof -
        have "b \<noteq> a" using that assms(2) Some by auto
        then show ?thesis by simp
      qed
      then show ?thesis by (simp add: work_def cong: map_cong)
    qed
    show ?thesis
    proof (cases "period t \<noteq> 0 \<and> ticks_before_or_at (launch_time t + period t) (timer_sys_ticks s)")
      case late: True
      then have "send_allocated ARM_LIB_EVENT_TIMER a ?s = Some s'"
        using free Some by (simp add: timer_sys_event_free_def eventOS_event_send_timer_allocated_def Let_def)
      then have "work s' = weight ?s a + work s"
        using work_send same by simp
      moreover have "weight ?s a < weight s a"
        using relaunches_decrease [of t] late assms(4) Some by (auto simp: weight_def periods_ok_def)
      ultimately show ?thesis by simp
    next
      case False
      then have "work s' = work s"
        using free Some same
        by (auto simp: timer_sys_event_free_def Let_def split: if_splits bind_splits dest!: work_timer_sys_add)
      then show ?thesis by (simp add: weight_def)
    qed
  qed
qed

section \<open>Run until idle\<close>

text \<open>Tasklets that add no work: what they do to the loop is a run of its operations.\<close>

definition adds_no_work :: "tasklet_functions \<Rightarrow> bool" where
  "adds_no_work call \<longleftrightarrow>
     (\<forall>f event s a. reachable (s, Some a) \<longrightarrow>
        (\<exists>s'. call f event s = Some s' \<and> reachable (s', Some a) \<and>
              work s' \<le> work s \<and> weight s' a \<le> weight s a))"

lemma dispatch_takes_work:
  assumes "reachable (s, None)" "adds_no_work call" "event_queue_active s \<noteq> []"
  obtains c s' where "eventOS_scheduler_dispatch_event call s = Some (Some c, s')" "reachable (s', None)"
    "work s' < work s"
proof -
  have inv: "loop_inv {} {} s"
    using reachable_ok [OF assms(1)] by (simp add: dispatch_ok_def dispatch_inv_def)
  obtain a as where queue: "event_queue_active s = a # as" using assms(3) by (cases "event_queue_active s") auto
  obtain e s1 and t :: "int \<times> nat" where start: "begin_dispatch s = Some (Some (a, snd t, es_data e), s1)"
    "s1 = upd_event a (e\<lparr>es_state := ARM_LIB_EVENT_RUNNING\<rparr>)
            (s\<lparr>event_queue_active := as, curr_tasklet := ev_receiver (es_data e)\<rparr>)"
    by (rule begin_dispatch_ok [OF inv queue]) blast
  have "exec Begin_Dispatch (s, None) = Some (s1, Some a)" using start(1) by simp
  then have "reachable (s1, Some a)"
    using reachable_step [OF assms(1), of Begin_Dispatch] by simp
  then obtain s2 where s2: "call (snd t) (es_data e) s1 = Some s2" "reachable (s2, Some a)"
    "work s2 \<le> work s1" "weight s2 a \<le> weight s1 a"
    using assms(2) unfolding adds_no_work_def by blast
  have running: "dispatch_inv s2 (Some a)" "periods_ok s2"
    using reachable_ok [OF s2(2)] reachable_periods [OF s2(2)] by (simp_all add: dispatch_ok_def)
  obtain s3 where s3: "end_dispatch a s2 = Some s3"
    using end_dispatch_ok [OF running(1)] by (auto simp: goes_def)
  then have "exec End_Dispatch (s2, Some a) = Some (s3, None)" by simp
  then have "reachable (s3, None)"
    using reachable_step [OF s2(2), of End_Dispatch] by simp
  moreover have "work s3 + 1 \<le> weight s2 a + work s2"
  proof -
    have "a \<notin> set (event_queue_active s2) \<or> el_timers s2 a = None"
      "el_timers s2 a = None \<Longrightarrow> \<forall>e. el_events s2 a = Some e \<longrightarrow> es_allocator e \<noteq> ARM_LIB_EVENT_TIMER"
      using running(1)
      by (auto simp: dispatch_inv_def loop_inv_def owned_def linked_def running_ok_def is_user_def kind_def
          split: if_splits)
    then show ?thesis
      using s3 running(2) work_free_push [of a s2] by (auto simp: end_dispatch_def split: bind_splits)
  qed
  moreover have "work s = weight s a + work s1" "weight s1 a = weight s a"
    using queue by (simp_all add: start(2) work_def)
  moreover have "eventOS_scheduler_dispatch_event call s = Some (Some (snd t, es_data e), s3)"
    using start(1) s2(1) s3 by (simp add: eventOS_scheduler_dispatch_event_def)
  ultimately show ?thesis using that s2(3,4) by fastforce
qed

text \<open>
  Property C20: with tasklets that add no work to the queue (they may do everything else with the loop),
  \<open>eventOS_scheduler_run_until_idle\<close> returns from every reachable state with an empty event queue,
  after at most \<open>work\<close> dispatches; late periodic timers that are queued again while it runs included.
\<close>
theorem run_until_idle_terminates:
  assumes "reachable (s, None)" "adds_no_work call"
  shows "\<exists>calls s'. eventOS_scheduler_run_until_idle call s = Some (calls, s') \<and>
     event_queue_active s' = [] \<and> reachable (s', None) \<and> length calls \<le> work s"
  using assms(1)
proof (induction "work s" arbitrary: s rule: less_induct)
  case less
  show ?case
  proof (cases "event_queue_active s = []")
    case True
    then have "exec Begin_Dispatch (s, None) = Some (s\<lparr>curr_tasklet := 0\<rparr>, None)"
      by (simp add: begin_dispatch_idle)
    then have "reachable (s\<lparr>curr_tasklet := 0\<rparr>, None)"
      using reachable_step [OF less.prems, of Begin_Dispatch] by simp
    moreover have "eventOS_scheduler_run_until_idle call s = Some ([], s\<lparr>curr_tasklet := 0\<rparr>)"
      using True
      by (subst eventOS_scheduler_run_until_idle.simps)
        (simp add: eventOS_scheduler_dispatch_event_def begin_dispatch_idle)
    ultimately show ?thesis using True by simp
  next
    case False
    obtain c s1 where step: "eventOS_scheduler_dispatch_event call s = Some (Some c, s1)"
      "reachable (s1, None)" "work s1 < work s"
      by (rule dispatch_takes_work [OF less.prems assms(2) False])
    then obtain calls s' where rest: "eventOS_scheduler_run_until_idle call s1 = Some (calls, s')"
      "event_queue_active s' = []" "reachable (s', None)" "length calls \<le> work s1"
      using less.hyps by blast
    have "eventOS_scheduler_run_until_idle call s = Some (c # calls, s')"
      using step(1) rest(1) by (subst eventOS_scheduler_run_until_idle.simps) simp
    then show ?thesis using rest(2-4) step(3) by auto
  qed
qed

text \<open>A tasklet that only reads its events.\<close>

definition reading :: tasklet_functions where
  "reading f event s = Some s"

theorem run_until_idle_terminates_witness:
  "\<exists>s r calls s'. run_loop (example_run @ [Send_User 20 (zero_event\<lparr>es_data := example_event\<rparr>), End_Dispatch])
       (initial_state, None) = Some (s, r) \<and> length (event_queue_active s) = 2 \<and>
     eventOS_scheduler_run_until_idle reading s = Some (calls, s') \<and> event_queue_active s' = []"
proof -
  let ?ops = "example_run @ [Send_User 20 (zero_event\<lparr>es_data := example_event\<rparr>), End_Dispatch]"
  have "do { (s, r) \<leftarrow> run_loop ?ops (initial_state, None); Some (length (event_queue_active s), r) } = Some (2, None)"
    by code_simp
  then obtain s where run: "run_loop ?ops (initial_state, None) = Some (s, None)" "length (event_queue_active s) = 2"
    by (auto split: bind_splits)
  have "adds_no_work reading" by (simp add: adds_no_work_def reading_def)
  then show ?thesis
    using run_until_idle_terminates [OF reachable_run [OF run(1)]] run by blast
qed

end
