(* ===== verification/Coap_Handle.thy ===== *)
theory Coap_Handle
  imports Coap_Respond Ns_List_Spec "HOL-Library.Monad_Syntax"
begin

text \<open>
  The state of the CoAP protocol layer (\<open>sn_coap_protocol_internal.h\<close>): the handle \<open>struct coap_s\<close>
  with its four lists, and the functions of \<open>sn_coap_protocol.c\<close> that configure it. The features that
  the build can switch off (resending, duplicate detection, blockwise transfer) are on.

  The environment has what the code does not define: the outcome of each allocation, the content of
  memory that was not initialised, the random numbers and the configuration constants. The handle
  counts the allocations and the random draws, and records the packets that were passed to the
  transmit callback. The outer option of a result is None when the code would use memory that is not
  its own. Times are \<open>uint32_t\<close> and wrap.
\<close>

section \<open>State\<close>

record coap_env =
  malloc_ok :: "nat \<Rightarrow> bool"
  junk :: "nat \<Rightarrow> u8"
  random_in_range :: "nat \<Rightarrow> nat"
  random_16bit :: "nat \<Rightarrow> nat"
  cfg_resending_queue_msgs :: nat
  cfg_resending_queue_bytes :: nat
  cfg_response_timeout :: nat
  cfg_resending_max_count :: nat
  cfg_duplication_max_msgs :: nat
  cfg_max_blockwise_payload :: nat
  cfg_max_nonblockwise_payload :: nat
  cfg_max_incoming_block_message :: nat
  cfg_duplication_max_time :: "32 word"
  cfg_blockwise_max_time :: "32 word"

record coap_addr =
  addr_bytes :: bytes
  addr_port :: nat

record send_msg =
  resending_counter :: nat
  resending_time :: "32 word"
  sm_packet :: bytes
  sm_dst :: coap_addr
  sm_param :: nat

record duplication_info =
  di_timestamp :: "32 word"
  di_msg_id :: nat
  di_packet :: "bytes option"
  di_address :: coap_addr
  di_param :: nat

record blockwise_msg =
  bm_timestamp :: "32 word"
  bm_coap_msg :: "coap_hdr option"
  bm_param :: nat
  bm_msg_id :: nat

record blockwise_payload =
  bp_timestamp :: "32 word"
  bp_addr :: bytes
  bp_port :: nat
  bp_block_number :: nat
  bp_token :: "bytes option"
  bp_token_len :: nat
  bp_payload_len :: nat
  bp_payload :: bytes
  bp_use_size1 :: bool

record coap_s =
  linked_list_resent_msgs :: "send_msg list"
  count_resent_msgs :: nat
  linked_list_duplication_msgs :: "duplication_info list"
  count_duplication_msgs :: nat
  linked_list_blockwise_sent_msgs :: "blockwise_msg list"
  linked_list_blockwise_received_payloads :: "blockwise_payload list"
  system_time :: "32 word"
  sn_coap_block_data_size :: nat
  sn_coap_resending_queue_msgs :: nat
  sn_coap_resending_queue_bytes :: nat
  sn_coap_resending_count :: nat
  sn_coap_resending_intervall :: nat
  sn_coap_duplication_buffer_size :: nat
  sn_coap_internal_block2_resp_handling :: bool
  message_id :: nat
  requests :: nat
  draws :: nat
  transmitted :: "(bytes \<times> coap_addr \<times> nat) list"

section \<open>Memory and lists\<close>

definition protocol_malloc :: "coap_env \<Rightarrow> coap_s \<Rightarrow> bool \<times> coap_s" where
  "protocol_malloc env h = (malloc_ok env (requests h), h\<lparr>requests := Suc (requests h)\<rparr>)"

definition junk_block :: "coap_env \<Rightarrow> nat \<Rightarrow> bytes" where
  "junk_block env n = map (junk env) [0..<n]"

text \<open>\<open>sn_coap_protocol_malloc_copy\<close> with a source that may be NULL; then nothing is copied.\<close>

definition malloc_copy :: "coap_env \<Rightarrow> bytes option \<Rightarrow> nat \<Rightarrow> coap_s \<Rightarrow> (bytes option \<times> coap_s) option" where
  "malloc_copy env source len h =
     (case source of
        None \<Rightarrow> (case protocol_malloc env h of (ok, h1) \<Rightarrow> Some (if ok then Some (junk_block env len) else None, h1))
      | Some bs \<Rightarrow>
          do { (copy, n) \<leftarrow> sn_coap_protocol_malloc_copy (malloc_ok env) (requests h) bs len;
               Some (copy, h\<lparr>requests := n\<rparr>) })"

text \<open>The position of the first entry with a property; the outer None is a fault of the test.\<close>

fun find_entry :: "('a \<Rightarrow> bool option) \<Rightarrow> 'a list \<Rightarrow> nat option option" where
  "find_entry p [] = Some None"
| "find_entry p (x # xs) =
     do { b \<leftarrow> p x; if b then Some (Some 0) else map_option (map_option Suc) (find_entry p xs) }"

definition remove_entry :: "nat \<Rightarrow> 'a list \<Rightarrow> 'a list" where
  "remove_entry i xs = take i xs @ drop (Suc i) xs"

text \<open>\<open>--count\<close> of a \<open>uint16_t\<close>.\<close>

definition decrement :: "nat \<Rightarrow> nat" where
  "decrement n = u16_wrap (n + 65535)"

definition compare_port :: "coap_addr \<Rightarrow> coap_addr \<Rightarrow> bool" where
  "compare_port a b \<longleftrightarrow> addr_port a = addr_port b"

definition tx_callback :: "bytes \<Rightarrow> coap_addr \<Rightarrow> nat \<Rightarrow> coap_s \<Rightarrow> coap_s" where
  "tx_callback packet addr param h = h\<lparr>transmitted := transmitted h @ [(packet, addr, param)]\<rparr>"

type_synonym rx_callback = "coap_hdr \<Rightarrow> coap_addr option \<Rightarrow> nat \<Rightarrow> coap_s \<Rightarrow> coap_s"

definition get_new_message_id :: "coap_env \<Rightarrow> coap_s \<Rightarrow> nat \<times> coap_s" where
  "get_new_message_id env h =
     (let h1 = (if message_id h = 0
                then h\<lparr>message_id := random_16bit env (draws h), draws := Suc (draws h)\<rparr> else h);
          i = u16_wrap (message_id h1 + 1);
          i' = (if i = 0 then 1 else i) in
      (i', h1\<lparr>message_id := i'\<rparr>))"

section \<open>Configuration\<close>

text \<open>\<open>granted\<close> is the outcome of the allocation of the handle; the callbacks are not NULL.\<close>

definition sn_coap_protocol_init :: "coap_env \<Rightarrow> bool \<Rightarrow> coap_s option" where
  "sn_coap_protocol_init env granted =
     (if \<not> granted then None
      else Some
        \<lparr>linked_list_resent_msgs = [], count_resent_msgs = 0,
         linked_list_duplication_msgs = [], count_duplication_msgs = 0,
         linked_list_blockwise_sent_msgs = [], linked_list_blockwise_received_payloads = [],
         system_time = 0,
         sn_coap_block_data_size = cfg_max_blockwise_payload env,
         sn_coap_resending_queue_msgs = cfg_resending_queue_msgs env,
         sn_coap_resending_queue_bytes = cfg_resending_queue_bytes env,
         sn_coap_resending_count = cfg_resending_max_count env,
         sn_coap_resending_intervall = cfg_response_timeout env,
         sn_coap_duplication_buffer_size = cfg_duplication_max_msgs env,
         sn_coap_internal_block2_resp_handling = True,
         message_id = 0, requests = 1, draws = 0, transmitted = []\<rparr>)"

definition sn_coap_protocol_handle_block2_response_internally :: "bool \<Rightarrow> coap_s \<Rightarrow> int \<times> coap_s" where
  "sn_coap_protocol_handle_block2_response_internally build_response h =
     (0, h\<lparr>sn_coap_internal_block2_resp_handling := build_response\<rparr>)"

definition sn_coap_protocol_set_block_size :: "nat \<Rightarrow> coap_s \<Rightarrow> int \<times> coap_s" where
  "sn_coap_protocol_set_block_size block_size h =
     (if block_size \<in> {0, 16, 32, 64, 128, 256, 512, 1024}
      then (0, h\<lparr>sn_coap_block_data_size := block_size\<rparr>) else (-1, h))"

definition sn_coap_protocol_get_configured_blockwise_size :: "coap_s \<Rightarrow> nat" where
  "sn_coap_protocol_get_configured_blockwise_size h = sn_coap_block_data_size h"

definition sn_coap_protocol_set_duplicate_buffer_size :: "nat \<Rightarrow> coap_s \<Rightarrow> int \<times> coap_s" where
  "sn_coap_protocol_set_duplicate_buffer_size message_count h =
     (if message_count \<le> 6 then (0, h\<lparr>sn_coap_duplication_buffer_size := message_count\<rparr>) else (-1, h))"

definition sn_coap_protocol_set_retransmission_parameters :: "nat \<Rightarrow> nat \<Rightarrow> coap_s \<Rightarrow> int \<times> coap_s" where
  "sn_coap_protocol_set_retransmission_parameters resending_count resending_intervall h =
     (if resending_count \<le> 6 \<and> resending_intervall \<le> 40
      then (0, h\<lparr>sn_coap_resending_count := resending_count,
                 sn_coap_resending_intervall := (if resending_intervall = 0 then 1 else resending_intervall)\<rparr>)
      else (-1, h))"

definition sn_coap_protocol_set_retransmission_buffer :: "nat \<Rightarrow> nat \<Rightarrow> coap_s \<Rightarrow> int \<times> coap_s" where
  "sn_coap_protocol_set_retransmission_buffer buffer_size_messages buffer_size_bytes h =
     (if buffer_size_bytes \<le> 512 \<and> buffer_size_messages \<le> 6
      then (0, h\<lparr>sn_coap_resending_queue_bytes := buffer_size_bytes,
                 sn_coap_resending_queue_msgs := buffer_size_messages\<rparr>)
      else (-1, h))"

section \<open>Facts\<close>

lemma find_entry_total:
  "(\<And>x. x \<in> set xs \<Longrightarrow> p x = Some (q x)) \<Longrightarrow>
   find_entry p xs = Some (if \<exists>x \<in> set xs. q x then Some (length (takeWhile (\<lambda>x. \<not> q x) xs)) else None)"
  by (induction xs) auto

lemma find_entry_SomeD:
  "find_entry p xs = Some (Some i) \<Longrightarrow> i < length xs \<and> p (xs ! i) = Some True \<and> (\<forall>j < i. p (xs ! j) = Some False)"
proof (induction xs arbitrary: i)
  case (Cons x xs)
  then show ?case
    by (auto split: bind_splits if_splits simp: less_Suc_eq_0_disj)
qed simp

lemma length_remove_entry [simp]: "i < length xs \<Longrightarrow> length (remove_entry i xs) = length xs - 1"
  by (simp add: remove_entry_def)

lemma remove_entry_split: "i < length xs \<Longrightarrow> xs = take i xs @ xs ! i # drop (Suc i) xs"
  by (rule id_take_nth_drop)

lemma set_remove_entry: "set (remove_entry i xs) \<subseteq> set xs"
  by (auto simp: remove_entry_def dest: in_set_takeD in_set_dropD)

lemma decrement_pos [wrap_simps]: "0 < n \<Longrightarrow> n < 65536 \<Longrightarrow> decrement n = n - 1"
  by (cases n) (simp_all add: decrement_def u16_wrap_def)

lemma length_junk_block [simp]: "length (junk_block env n) = n"
  by (simp add: junk_block_def)

section \<open>An instance\<close>

definition example_env :: coap_env where
  "example_env =
     \<lparr>malloc_ok = \<lambda>_. True, junk = \<lambda>_. 0, random_in_range = \<lambda>_. 120, random_16bit = \<lambda>_. 500,
      cfg_resending_queue_msgs = 2, cfg_resending_queue_bytes = 0, cfg_response_timeout = 10,
      cfg_resending_max_count = 3, cfg_duplication_max_msgs = 1, cfg_max_blockwise_payload = 16,
      cfg_max_nonblockwise_payload = 0, cfg_max_incoming_block_message = 65535,
      cfg_duplication_max_time = 300, cfg_blockwise_max_time = 300\<rparr>"

definition example_peer :: coap_addr where
  "example_peer = \<lparr>addr_bytes = [10, 0, 0, 1], addr_port = 5683\<rparr>"

definition example_handle :: coap_s where
  "example_handle = the (sn_coap_protocol_init example_env True)"

lemma example_init: "sn_coap_protocol_init example_env True = Some example_handle"
  by (simp add: example_handle_def sn_coap_protocol_init_def)

end
