(* ===== verification/Coap_Resend.thy ===== *)
theory Coap_Resend
  imports Coap_Handle
begin

text \<open>
  Retransmission of confirmable messages (\<open>sn_coap_protocol.c\<close>): the queue of stored packets, the
  calls that add to it and remove from it, and the loop of \<open>sn_coap_protocol_exec\<close> that sends the due
  packets again or gives them up. The release functions only free memory; the entries of the queue own
  their blocks, so leaving the list is the whole effect of a release here.
\<close>

section \<open>The queue\<close>

definition read_packet_msg_id :: "send_msg \<Rightarrow> nat option" where
  "read_packet_msg_id s =
     do { hi \<leftarrow> rd (sm_packet s) 2; lo \<leftarrow> rd (sm_packet s) 3; Some (u16_wrap (256 * unat hi + unat lo)) }"

definition sn_coap_count_linked_list_size :: "send_msg list \<Rightarrow> nat" where
  "sn_coap_count_linked_list_size = foldl (\<lambda>n s. u16_wrap (n + length (sm_packet s))) 0"

text \<open>\<open>sn_coap_protocol_allocate_mem_for_msg\<close>: three allocations, the last two made in every case.\<close>

definition sn_coap_protocol_allocate_mem_for_msg :: "coap_env \<Rightarrow> coap_s \<Rightarrow> bool \<times> coap_s" where
  "sn_coap_protocol_allocate_mem_for_msg env h =
     (let (ok, h1) = protocol_malloc env h in
      if \<not> ok then (False, h1)
      else let (packet_ok, h2) = protocol_malloc env h1; (addr_ok, h3) = protocol_malloc env h2 in
           (packet_ok \<and> addr_ok, h3))"

definition sn_coap_protocol_linked_list_send_msg_store ::
  "coap_env \<Rightarrow> coap_addr \<Rightarrow> nat \<Rightarrow> bytes \<Rightarrow> 32 word \<Rightarrow> nat \<Rightarrow> coap_s \<Rightarrow> (nat \<times> coap_s) option" where
  "sn_coap_protocol_linked_list_send_msg_store env dst len packet sending_time param h =
     (if sn_coap_resending_queue_msgs h = 0 \<and> sn_coap_resending_queue_bytes h = 0
         \<or> sn_coap_resending_count h = 0 then Some (1, h)
      else if sn_coap_resending_queue_msgs h > 0
         \<and> count_resent_msgs h \<ge> sn_coap_resending_queue_msgs h then Some (0, h)
      else if sn_coap_resending_queue_bytes h > 0
         \<and> sn_coap_count_linked_list_size (linked_list_resent_msgs h) + len > sn_coap_resending_queue_bytes h
        then Some (0, h)
      else
        let (ok, h1) = sn_coap_protocol_allocate_mem_for_msg env h in
        if \<not> ok then Some (0, h1)
        else do {
          bs \<leftarrow> rd_block packet 0 len;
          Some (1, h1\<lparr>linked_list_resent_msgs := list_add_to_end (linked_list_resent_msgs h1)
                        \<lparr>resending_counter = 0, resending_time = sending_time, sm_packet = bs,
                         sm_dst = dst, sm_param = param\<rparr>,
                      count_resent_msgs := u16_wrap (count_resent_msgs h1 + 1)\<rparr>) })"

definition drop_resent :: "nat \<Rightarrow> coap_s \<Rightarrow> coap_s" where
  "drop_resent i h =
     h\<lparr>linked_list_resent_msgs := remove_entry i (linked_list_resent_msgs h),
       count_resent_msgs := decrement (count_resent_msgs h)\<rparr>"

definition sn_coap_protocol_linked_list_send_msg_remove ::
  "coap_addr \<Rightarrow> nat \<Rightarrow> coap_s \<Rightarrow> coap_s option" where
  "sn_coap_protocol_linked_list_send_msg_remove src msgid h =
     do { found \<leftarrow> find_entry
            (\<lambda>s. do { i \<leftarrow> read_packet_msg_id s; Some (i = msgid \<and> compare_port src (sm_dst s)) })
            (linked_list_resent_msgs h);
          Some (case found of None \<Rightarrow> h | Some i \<Rightarrow> drop_resent i h) }"

definition sn_coap_protocol_clear_retransmission_buffer :: "coap_s \<Rightarrow> coap_s" where
  "sn_coap_protocol_clear_retransmission_buffer h =
     foldl (\<lambda>h _. drop_resent 0 h) h (linked_list_resent_msgs h)"

definition sn_coap_protocol_delete_retransmission :: "nat \<Rightarrow> coap_s \<Rightarrow> (int \<times> coap_s) option" where
  "sn_coap_protocol_delete_retransmission msgid h =
     do { found \<leftarrow> find_entry (\<lambda>s. do { i \<leftarrow> read_packet_msg_id s; Some (i = msgid) })
            (linked_list_resent_msgs h);
          Some (case found of None \<Rightarrow> (-2, h) | Some i \<Rightarrow> (0, drop_resent i h)) }"

definition packet_has_token :: "bytes \<Rightarrow> nat \<Rightarrow> send_msg \<Rightarrow> bool option" where
  "packet_has_token token len s =
     do { b \<leftarrow> rd (sm_packet s) 0;
          if unat (b AND 15) = len
          then do { t \<leftarrow> rd_block (sm_packet s) 4 len; u \<leftarrow> rd_block token 0 len; Some (t = u) }
          else Some False }"

definition sn_coap_protocol_delete_retransmission_by_token ::
  "bytes option \<Rightarrow> nat \<Rightarrow> coap_s \<Rightarrow> (int \<times> coap_s) option" where
  "sn_coap_protocol_delete_retransmission_by_token token len h =
     (case token of
        None \<Rightarrow> Some (-1, h)
      | Some t \<Rightarrow>
          if len = 0 then Some (-1, h)
          else do { found \<leftarrow> find_entry (packet_has_token t len) (linked_list_resent_msgs h);
                    Some (case found of None \<Rightarrow> (-2, h) | Some i \<Rightarrow> (0, drop_resent i h)) })"

section \<open>Sending\<close>

text \<open>
  \<open>interval << counter\<close> is an \<open>int\<close>: a shift of 32 or more, or a result of more than 31 bits, is
  undefined. The product is \<open>uint32_t\<close> arithmetic.
\<close>

definition sn_coap_calculate_new_resend_time ::
  "coap_env \<Rightarrow> 32 word \<Rightarrow> nat \<Rightarrow> nat \<Rightarrow> coap_s \<Rightarrow> (32 word \<times> coap_s) option" where
  "sn_coap_calculate_new_resend_time env current_time interval counter h =
     (if counter \<ge> 32 \<or> interval * 2 ^ counter \<ge> 2147483648 then None
      else let random_factor = u16_wrap (random_in_range env (draws h)) in
        Some (current_time + word_of_nat (u32_wrap (interval * 2 ^ counter * random_factor) div 100),
              h\<lparr>draws := Suc (draws h)\<rparr>))"

definition sn_coap_protocol_send_rst :: "nat \<Rightarrow> coap_addr \<Rightarrow> nat \<Rightarrow> coap_s \<Rightarrow> coap_s" where
  "sn_coap_protocol_send_rst msgid addr param h =
     tx_callback [byte_of 0x70, byte_of 0, byte_of (msgid div 256), byte_of msgid] addr param h"

section \<open>The loop of exec\<close>

text \<open>
  The receive callback of the application may change the handle; it is None when it is not set. \<open>i\<close>
  is the position of the message under treatment. The pointer to the message stays valid through the
  transmit callback only when that callback leaves the list alone, and it has no access to it here.
\<close>

fun first_due :: "32 word \<Rightarrow> send_msg list \<Rightarrow> nat option" where
  "first_due now [] = None"
| "first_due now (s # ss) = (if resending_time s \<le> now then Some 0 else map_option Suc (first_due now ss))"

definition report_sending_failed :: "coap_env \<Rightarrow> rx_callback option \<Rightarrow> send_msg \<Rightarrow> coap_s \<Rightarrow> coap_s option" where
  "report_sending_failed env rx s h =
     (case rx of
        None \<Rightarrow> Some h
      | Some callback \<Rightarrow>
          do { (msg, _, n) \<leftarrow> sn_coap_parser (malloc_ok env) (requests h) (length (sm_packet s)) (Some (sm_packet s));
               let h1 = h\<lparr>requests := n\<rparr>;
               Some (case msg of
                       None \<Rightarrow> h1
                     | Some m \<Rightarrow> callback (m\<lparr>coap_status := COAP_STATUS_BUILDER_MESSAGE_SENDING_FAILED\<rparr>)
                                  (Some (sm_dst s)) (sm_param s) h1) })"

definition resend_one :: "coap_env \<Rightarrow> rx_callback option \<Rightarrow> 32 word \<Rightarrow> nat \<Rightarrow> coap_s \<Rightarrow> coap_s option" where
  "resend_one env rx now i h =
     (let s = linked_list_resent_msgs h ! i; counter = u8_wrap (resending_counter s + 1) in
      if counter > sn_coap_resending_count h
      then report_sending_failed env rx s (drop_resent i h)
      else
        let h1 = tx_callback (sm_packet s) (sm_dst s) (sm_param s) h in
        do { (t, h2) \<leftarrow> sn_coap_calculate_new_resend_time env now (sn_coap_resending_intervall h1) counter h1;
             Some (h2\<lparr>linked_list_resent_msgs :=
                        (linked_list_resent_msgs h2)[i := s\<lparr>resending_counter := counter, resending_time := t\<rparr>]\<rparr>) })"

text \<open>
  The search starts again after each message. The outer option of the result is None when the loop
  does not end, which the receive callback can bring about; the inner one is a fault.
\<close>

partial_function (option) resend_loop ::
  "coap_env \<Rightarrow> rx_callback option \<Rightarrow> 32 word \<Rightarrow> coap_s \<Rightarrow> coap_s option option" where
  "resend_loop env rx now h =
     (case first_due now (linked_list_resent_msgs h) of
        None \<Rightarrow> Some (Some h)
      | Some i \<Rightarrow>
          (case resend_one env rx now i h of
             None \<Rightarrow> Some None
           | Some h' \<Rightarrow> resend_loop env rx now h'))"

end
