(* ===== verification/Coap_Resend_Queue.thy ===== *)
theory Coap_Resend_Queue
  imports Coap_Resend Coap_Parser_Safety
begin

text \<open>
  The invariant of the retransmission queue: the counter is the length of the list, and each stored packet is at
  least as long as the fields the code reads in it. Every operation keeps it and none faults. The limits of the configuration can be
  set below what is stored; what every operation does respect is that the queue afterwards either is within the limits or has not grown.
\<close>

section \<open>Invariant\<close>

definition stored_ok :: "bytes \<Rightarrow> bool" where
  "stored_ok p \<longleftrightarrow> length p < 65536 \<and> 4 \<le> length p \<and> 4 + unat (p ! 0 AND 15) \<le> length p"

definition queue_bytes :: "send_msg list \<Rightarrow> nat" where
  "queue_bytes ss = sum_list (map (\<lambda>s. length (sm_packet s)) ss)"

definition resend_config_ok :: "coap_s \<Rightarrow> bool" where
  "resend_config_ok h \<longleftrightarrow>
     sn_coap_resending_queue_msgs h < 256 \<and> sn_coap_resending_queue_bytes h < 65536 \<and>
     sn_coap_resending_count h \<le> 6 \<and> 1 \<le> sn_coap_resending_intervall h \<and> sn_coap_resending_intervall h \<le> 40"

definition within_limits :: "coap_s \<Rightarrow> bool" where
  "within_limits h \<longleftrightarrow>
     (let ss = linked_list_resent_msgs h; msgs = sn_coap_resending_queue_msgs h; bytes = sn_coap_resending_queue_bytes h in
      (0 < msgs \<longrightarrow> length ss \<le> msgs) \<and> (0 < bytes \<longrightarrow> queue_bytes ss \<le> bytes) \<and>
      (msgs = 0 \<and> bytes = 0 \<longrightarrow> ss = []))"

definition resend_inv :: "coap_s \<Rightarrow> bool" where
  "resend_inv h \<longleftrightarrow>
     count_resent_msgs h = length (linked_list_resent_msgs h) \<and>
     (\<forall>s \<in> set (linked_list_resent_msgs h). stored_ok (sm_packet s) \<and> resending_counter s \<le> 6) \<and>
     resend_config_ok h \<and> length (linked_list_resent_msgs h) < 65535"

text \<open>The limits in force.\<close>

definition limits :: "coap_s \<Rightarrow> nat \<times> nat" where
  "limits h = (sn_coap_resending_queue_msgs h, sn_coap_resending_queue_bytes h)"

definition not_grown :: "coap_s \<Rightarrow> coap_s \<Rightarrow> bool" where
  "not_grown h h' \<longleftrightarrow>
     limits h' = limits h \<and> length (linked_list_resent_msgs h') \<le> length (linked_list_resent_msgs h) \<and>
     queue_bytes (linked_list_resent_msgs h') \<le> queue_bytes (linked_list_resent_msgs h)"

definition good_step :: "coap_s \<Rightarrow> coap_s \<Rightarrow> bool" where
  "good_step h h' \<longleftrightarrow> resend_inv h' \<and> (within_limits h' \<or> not_grown h h')"

lemma resend_invD:
  assumes "resend_inv h"
  shows "count_resent_msgs h = length (linked_list_resent_msgs h)"
    and "s \<in> set (linked_list_resent_msgs h) \<Longrightarrow> stored_ok (sm_packet s)"
    and "s \<in> set (linked_list_resent_msgs h) \<Longrightarrow> resending_counter s \<le> 6"
    and "resend_config_ok h" "length (linked_list_resent_msgs h) < 65535"
  using assms by (simp_all add: resend_inv_def)

lemma queue_bytes_simps [simp]:
  "queue_bytes [] = 0" "queue_bytes (s # ss) = length (sm_packet s) + queue_bytes ss"
  "queue_bytes (ss @ ts) = queue_bytes ss + queue_bytes ts"
  by (simp_all add: queue_bytes_def)

lemma queue_bytes_remove: "queue_bytes (remove_entry i ss) \<le> queue_bytes ss"
proof (cases "i < length ss")
  case True
  then have "queue_bytes ss = queue_bytes (take i ss @ ss ! i # drop (Suc i) ss)"
    using remove_entry_split by metis
  then show ?thesis by (simp add: remove_entry_def)
qed (simp add: remove_entry_def)

lemma queue_bytes_update: "sm_packet s = sm_packet (ss ! i) \<Longrightarrow> queue_bytes (ss[i := s]) = queue_bytes ss"
proof (cases "i < length ss")
  case True
  assume "sm_packet s = sm_packet (ss ! i)"
  then have "map (\<lambda>s. length (sm_packet s)) (ss[i := s]) = map (\<lambda>s. length (sm_packet s)) ss"
    using True by (simp add: map_update list_update_same_conv)
  then show ?thesis by (simp add: queue_bytes_def)
qed (simp add: list_update_beyond)

lemma queue_bytes_length: "\<forall>s \<in> set ss. 4 \<le> length (sm_packet s) \<Longrightarrow> 4 * length ss \<le> queue_bytes ss"
  by (induction ss) auto

lemma within_limits_length:
  assumes "resend_config_ok h" "within_limits h" "\<forall>s \<in> set (linked_list_resent_msgs h). 4 \<le> length (sm_packet s)"
  shows "length (linked_list_resent_msgs h) < 65535"
  using queue_bytes_length [OF assms(3)] assms(1,2)
  by (cases "sn_coap_resending_queue_msgs h = 0"; cases "sn_coap_resending_queue_bytes h = 0")
    (auto simp: within_limits_def resend_config_ok_def Let_def)

lemma within_limits_not_grown: "within_limits h \<Longrightarrow> not_grown h h' \<Longrightarrow> within_limits h'"
  by (auto simp: within_limits_def not_grown_def limits_def Let_def)

lemma good_step_refl: "resend_inv h \<Longrightarrow> good_step h h"
  by (simp add: good_step_def not_grown_def)

lemma good_step_trans: "good_step h h1 \<Longrightarrow> good_step h1 h2 \<Longrightarrow> good_step h h2"
  using within_limits_not_grown unfolding good_step_def not_grown_def by fastforce

lemma good_step_inv: "good_step h h' \<Longrightarrow> resend_inv h'"
  by (simp add: good_step_def)

lemma count_list_size_exact:
  "queue_bytes ss < 65536 \<Longrightarrow> sn_coap_count_linked_list_size ss = queue_bytes ss"
proof -
  have "n + queue_bytes ss < 65536 \<Longrightarrow>
      foldl (\<lambda>n s. u16_wrap (n + length (sm_packet s))) n ss = n + queue_bytes ss" for n
    by (induction ss arbitrary: n) (simp_all add: wrap_simps)
  from this [of 0] show "queue_bytes ss < 65536 \<Longrightarrow> ?thesis"
    by (simp add: sn_coap_count_linked_list_size_def)
qed

section \<open>Adding and removing\<close>

lemma drop_resent_step:
  assumes "resend_inv h" "i < length (linked_list_resent_msgs h)"
  shows "good_step h (drop_resent i h)"
proof -
  let ?ss = "linked_list_resent_msgs h"
  have "decrement (length ?ss) = length ?ss - 1"
    using resend_invD(5) [OF assms(1)] assms(2) by (intro decrement_pos) auto
  moreover have "resend_config_ok (drop_resent i h)"
    using resend_invD(4) [OF assms(1)] by (simp add: resend_config_ok_def drop_resent_def)
  ultimately show ?thesis
    using assms set_remove_entry [of i ?ss] queue_bytes_remove [of i ?ss]
    by (auto simp: good_step_def not_grown_def limits_def resend_inv_def drop_resent_def)
qed

lemma find_entry_no_fault:
  "(\<And>x. x \<in> set xs \<Longrightarrow> p x \<noteq> None) \<Longrightarrow> find_entry p xs \<noteq> None"
proof (induction xs)
  case (Cons x xs)
  from Cons.prems [of x] obtain b where "p x = Some b" by auto
  with Cons show ?case by auto
qed simp

lemma drop_found_step:
  assumes "resend_inv h" "\<And>s. stored_ok (sm_packet s) \<Longrightarrow> p s \<noteq> None"
  obtains found where "find_entry p (linked_list_resent_msgs h) = Some found"
    "\<forall>i. found = Some i \<longrightarrow> good_step h (drop_resent i h)"
proof -
  have "find_entry p (linked_list_resent_msgs h) \<noteq> None"
    using assms by (intro find_entry_no_fault) (auto dest: resend_invD(2))
  then obtain found where f: "find_entry p (linked_list_resent_msgs h) = Some found" by auto
  moreover have "good_step h (drop_resent i h)" if "found = Some i" for i
    using find_entry_SomeD [OF f [unfolded that]] assms(1) by (intro drop_resent_step) auto
  ultimately show ?thesis using that by blast
qed

lemma read_packet_msg_id_ok: "stored_ok (sm_packet s) \<Longrightarrow> \<exists>i. read_packet_msg_id s = Some i"
  by (simp add: read_packet_msg_id_def stored_ok_def rd_def)

lemma packet_has_token_ok:
  "stored_ok (sm_packet s) \<Longrightarrow> len \<le> length token \<Longrightarrow> packet_has_token token len s \<noteq> None"
  by (auto simp: packet_has_token_def stored_ok_def rd_def rd_block_def)


lemma send_msg_remove_ok:
  assumes "resend_inv h"
  obtains h' where "sn_coap_protocol_linked_list_send_msg_remove src msgid h = Some h'" "good_step h h'"
proof -
  let ?p = "\<lambda>s. do { i \<leftarrow> read_packet_msg_id s; Some (i = msgid \<and> compare_port src (sm_dst s)) }"
  have "?p s \<noteq> None" if "stored_ok (sm_packet s)" for s
    using read_packet_msg_id_ok [OF that] by auto
  then obtain found where "find_entry ?p (linked_list_resent_msgs h) = Some found"
    "\<forall>i. found = Some i \<longrightarrow> good_step h (drop_resent i h)"
    by (rule drop_found_step [OF assms]) blast
  with good_step_refl [OF assms] that show ?thesis
    by (auto simp: sn_coap_protocol_linked_list_send_msg_remove_def split: option.splits)
qed

lemma delete_retransmission_ok:
  assumes "resend_inv h"
  obtains r h' where "sn_coap_protocol_delete_retransmission msgid h = Some (r, h')" "good_step h h'"
proof -
  let ?p = "\<lambda>s. do { i \<leftarrow> read_packet_msg_id s; Some (i = msgid) }"
  have "?p s \<noteq> None" if "stored_ok (sm_packet s)" for s
    using read_packet_msg_id_ok [OF that] by auto
  then obtain found where "find_entry ?p (linked_list_resent_msgs h) = Some found"
    "\<forall>i. found = Some i \<longrightarrow> good_step h (drop_resent i h)"
    by (rule drop_found_step [OF assms]) blast
  with good_step_refl [OF assms] that show ?thesis
    by (cases found) (auto simp: sn_coap_protocol_delete_retransmission_def)
qed

lemma delete_retransmission_by_token_ok:
  assumes "resend_inv h" "\<And>t. token = Some t \<Longrightarrow> len \<le> length t"
  obtains r h' where "sn_coap_protocol_delete_retransmission_by_token token len h = Some (r, h')" "good_step h h'"
proof (cases "token = None \<or> len = 0")
  case True
  then have "sn_coap_protocol_delete_retransmission_by_token token len h = Some (-1, h)"
    by (auto simp: sn_coap_protocol_delete_retransmission_by_token_def split: option.splits)
  with good_step_refl [OF assms(1)] that show ?thesis by blast
next
  case False
  then obtain t where t: "token = Some t" by auto
  have "packet_has_token t len s \<noteq> None" if "stored_ok (sm_packet s)" for s
    using packet_has_token_ok [OF that] assms(2) [OF t] by blast
  then obtain found where "find_entry (packet_has_token t len) (linked_list_resent_msgs h) = Some found"
    "\<forall>i. found = Some i \<longrightarrow> good_step h (drop_resent i h)"
    by (rule drop_found_step [OF assms(1)]) blast
  with good_step_refl [OF assms(1)] that t False show ?thesis
    by (cases found) (auto simp: sn_coap_protocol_delete_retransmission_by_token_def)
qed

lemma clear_retransmission_buffer_step:
  assumes "resend_inv h"
  shows "good_step h (sn_coap_protocol_clear_retransmission_buffer h) \<and>
    linked_list_resent_msgs (sn_coap_protocol_clear_retransmission_buffer h) = []"
proof -
  have "resend_inv h \<Longrightarrow> length ss = length (linked_list_resent_msgs h) \<Longrightarrow>
      good_step h (foldl (\<lambda>h _. drop_resent 0 h) h ss) \<and>
      linked_list_resent_msgs (foldl (\<lambda>h _. drop_resent 0 h) h ss) = []" for ss :: "send_msg list" and h
  proof (induction ss arbitrary: h)
    case (Cons s ss)
    then have i: "0 < length (linked_list_resent_msgs h)" by auto
    note first = drop_resent_step [OF Cons.prems(1) i]
    from Cons.prems i have "length ss = length (linked_list_resent_msgs (drop_resent 0 h))"
      by (simp add: drop_resent_def)
    with Cons.IH [OF good_step_inv [OF first]] good_step_trans [OF first] show ?case by simp
  qed (simp add: good_step_refl)
  from this [OF assms refl] show ?thesis
    by (simp add: sn_coap_protocol_clear_retransmission_buffer_def)
qed

text \<open>
  A message is stored when the limits leave room for it and the allocations succeed. The bytes of the queue are
  counted in 16 bits, so that a queue of more bytes, which a limit of 0 bytes allows, has to be excluded when there is a limit.
\<close>

lemma send_msg_store_ok:
  assumes inv: "resend_inv h" and p: "len \<le> length packet" "stored_ok (take len packet)"
    and small: "0 < sn_coap_resending_queue_bytes h \<longrightarrow> queue_bytes (linked_list_resent_msgs h) < 65536"
  obtains r h' where
    "sn_coap_protocol_linked_list_send_msg_store env dst len packet t param h = Some (r, h')" "good_step h h'"
proof -
  let ?ss = "linked_list_resent_msgs h"
  let ?store = "sn_coap_protocol_linked_list_send_msg_store env dst len packet t param h"
  obtain ok h1 where a: "sn_coap_protocol_allocate_mem_for_msg env h = (ok, h1)" by fastforce
  then obtain k where h1: "h1 = h\<lparr>requests := k\<rparr>"
    by (auto simp: sn_coap_protocol_allocate_mem_for_msg_def protocol_malloc_def Let_def split: if_splits)
  let ?s = "\<lparr>resending_counter = 0, resending_time = t, sm_packet = take len packet, sm_dst = dst, sm_param = param\<rparr>"
  let ?h = "h1\<lparr>linked_list_resent_msgs := ?ss @ [?s], count_resent_msgs := u16_wrap (length ?ss + 1)\<rparr>"
  have same: "good_step h h1"
    using inv by (simp add: h1 good_step_def not_grown_def limits_def resend_inv_def resend_config_ok_def)
  have rd: "rd_block packet 0 len = Some (take len packet)" using p by (simp add: rd_block_def)
  have added: "good_step h ?h"
    if "sn_coap_resending_queue_msgs h \<noteq> 0 \<or> sn_coap_resending_queue_bytes h \<noteq> 0"
      "0 < sn_coap_resending_queue_msgs h \<longrightarrow> count_resent_msgs h < sn_coap_resending_queue_msgs h"
      "0 < sn_coap_resending_queue_bytes h \<longrightarrow> queue_bytes ?ss + len \<le> sn_coap_resending_queue_bytes h"
  proof -
    have config: "resend_config_ok ?h"
      using resend_invD(4) [OF inv] by (simp add: h1 resend_config_ok_def)
    moreover have within: "within_limits ?h"
      using that resend_invD(1,4) [OF inv] p
      by (auto simp: within_limits_def h1 Let_def resend_config_ok_def)
    moreover have stored: "\<forall>s \<in> set (?ss @ [?s]). stored_ok (sm_packet s) \<and> resending_counter s \<le> 6"
      using resend_invD(2,3) [OF inv] p by auto
    moreover have "length (linked_list_resent_msgs ?h) < 65535"
      by (rule within_limits_length [OF config within]) (use stored in \<open>simp add: stored_ok_def\<close>)
    ultimately show ?thesis
      by (simp add: good_step_def resend_inv_def wrap_simps)
  qed
  have bytes: "queue_bytes ?ss + len \<le> sn_coap_resending_queue_bytes h"
    if "sn_coap_count_linked_list_size ?ss + len \<le> sn_coap_resending_queue_bytes h" "0 < sn_coap_resending_queue_bytes h"
    using that small by (simp add: count_list_size_exact)
  have "\<exists>r h'. ?store = Some (r, h') \<and> good_step h h'"
    using good_step_refl [OF inv] same added bytes a rd h1 resend_invD(1) [OF inv]
    by (auto simp: sn_coap_protocol_linked_list_send_msg_store_def list_add_to_end_def not_le)
  with that show ?thesis by blast
qed

end
