(* ===== verification/Coap_Resend_Pass.thy ===== *)
theory Coap_Resend_Pass
  imports Coap_Resend_Queue
begin

text \<open>
  The loop of \<open>sn_coap_protocol_exec\<close> over the retransmission queue: one iteration takes one message
  out of the due ones, the loop ends, and for a receive callback that leaves the queue alone the loop
  with its repeated search is one pass over the queue in its order.
\<close>

section \<open>The next time of a message\<close>

definition random_ok :: "coap_env \<Rightarrow> bool" where
  "random_ok env \<longleftrightarrow> (\<forall>n. 100 \<le> random_in_range env n \<and> random_in_range env n \<le> 150)"

definition no_wrap :: "32 word \<Rightarrow> bool" where
  "no_wrap now \<longleftrightarrow> unat now + 3840 < 4294967296"

lemma unat_add_small: "unat (now :: 32 word) + k < 4294967296 \<Longrightarrow> unat (now + word_of_nat k) = unat now + k"
  by (simp add: unat_word_ariths unat_of_nat)

lemma shifted_interval_bounds:
  assumes "interval \<le> 40" "counter \<le> 6"
  shows "interval * 2 ^ counter \<le> (2560 :: nat)"
proof -
  have "(2 :: nat) ^ counter \<le> 2 ^ 6" using assms(2) by (rule power_increasing) simp
  with mult_le_mono [OF assms(1)] show ?thesis by fastforce
qed

lemma new_resend_time:
  assumes r: "random_ok env" and w: "no_wrap now" and c: "1 \<le> interval" "interval \<le> 40" "counter \<le> 6"
  obtains t where "sn_coap_calculate_new_resend_time env now interval counter h = Some (t, h\<lparr>draws := Suc (draws h)\<rparr>)"
    "unat t = unat now + interval * 2 ^ counter * random_in_range env (draws h) div 100"
    "unat now + interval * 2 ^ counter \<le> unat t"
    "2 * unat t \<le> 2 * unat now + 3 * (interval * 2 ^ counter)"
proof -
  let ?i = "interval * 2 ^ counter" and ?f = "random_in_range env (draws h)"
  have i: "?i \<le> 2560" using shifted_interval_bounds [OF c(2,3)] .
  have f: "100 \<le> ?f" "?f \<le> 150" using r by (auto simp: random_ok_def)
  have prod: "?i * 100 \<le> ?i * ?f" "?i * ?f \<le> ?i * 150" using f by simp_all
  then have k: "?i \<le> ?i * ?f div 100" "2 * (?i * ?f div 100) \<le> 3 * ?i" by linarith+
  have "unat (now + word_of_nat (?i * ?f div 100)) = unat now + ?i * ?f div 100"
    using k i w by (intro unat_add_small) (auto simp: no_wrap_def)
  moreover have "?i * ?f < 4294967296" using prod i by linarith
  moreover have "?f < 65536" using f by simp
  ultimately have "sn_coap_calculate_new_resend_time env now interval counter h =
      Some (now + word_of_nat (?i * ?f div 100), h\<lparr>draws := Suc (draws h)\<rparr>)"
    using i c(3) by (simp add: sn_coap_calculate_new_resend_time_def Let_def u16_wrap_id u32_wrap_id)
  with \<open>unat _ = _\<close> show ?thesis using that k by auto
qed

section \<open>One iteration\<close>

definition due_count :: "32 word \<Rightarrow> send_msg list \<Rightarrow> nat" where
  "due_count now ss = length (filter (\<lambda>s. resending_time s \<le> now) ss)"

text \<open>
  What is asked of the receive callback: it keeps the invariant, adds no due message, and adds no message beyond the limits.
\<close>

definition calm :: "32 word \<Rightarrow> rx_callback option \<Rightarrow> bool" where
  "calm now rx \<longleftrightarrow>
     (\<forall>cb m a p h. rx = Some cb \<longrightarrow> resend_inv h \<longrightarrow>
        good_step h (cb m a p h) \<and>
        due_count now (linked_list_resent_msgs (cb m a p h)) \<le> due_count now (linked_list_resent_msgs h))"

lemma first_due_None: "first_due now ss = None \<longleftrightarrow> (\<forall>s \<in> set ss. \<not> resending_time s \<le> now)"
  by (induction ss) auto

lemma first_due_Some:
  assumes "first_due now ss = Some i"
  obtains us s vs where "ss = us @ s # vs" "i = length us" "resending_time s \<le> now"
    "\<forall>u \<in> set us. \<not> resending_time u \<le> now"
proof -
  have "\<exists>us s vs. ss = us @ s # vs \<and> i = length us \<and> resending_time s \<le> now \<and>
      (\<forall>u \<in> set us. \<not> resending_time u \<le> now)"
    using assms
  proof (induction ss arbitrary: i)
    case (Cons s ss)
    show ?case
    proof (cases "resending_time s \<le> now")
      case True
      with Cons.prems show ?thesis by (intro exI [of _ "[]"]) auto
    next
      case False
      with Cons.prems obtain j where j: "first_due now ss = Some j" "i = Suc j" by auto
      from Cons.IH [OF j(1)] obtain us s' vs where "ss = us @ s' # vs" "j = length us"
        "resending_time s' \<le> now" "\<forall>u \<in> set us. \<not> resending_time u \<le> now" by blast
      with False j(2) show ?thesis by (intro exI [of _ "s # us"]) auto
    qed
  qed simp
  with that show ?thesis by blast
qed

lemma due_count_simps [simp]:
  "due_count now [] = 0"
  "due_count now (s # ss) = (if resending_time s \<le> now then Suc (due_count now ss) else due_count now ss)"
  "due_count now (ss @ ts) = due_count now ss + due_count now ts"
  by (simp_all add: due_count_def)

lemma resend_inv_requests [simp]: "resend_inv (h\<lparr>requests := n\<rparr>) = resend_inv h"
  by (simp add: resend_inv_def resend_config_ok_def)

lemma good_step_requests: "good_step h h' \<Longrightarrow> good_step h (h'\<lparr>requests := n\<rparr>)"
  by (simp add: good_step_def within_limits_def not_grown_def limits_def)

lemma stored_packet_parses:
  assumes "stored_ok p"
  obtains m v n where "sn_coap_parser ok k (length p) (Some p) = Some (m, v, n)"
proof -
  have "sn_coap_parser ok k (length p) (Some p) \<noteq> None"
    using assms by (intro sn_coap_parser_memory_safe) (simp_all add: stored_ok_def)
  with that show ?thesis by (cases "sn_coap_parser ok k (length p) (Some p)") auto
qed


text \<open>An iteration treats the first due message and leaves fewer due messages.\<close>

lemma resend_one_ok:
  assumes inv: "resend_inv h" and r: "random_ok env" and w: "no_wrap now" and c: "calm now rx"
    and first: "first_due now (linked_list_resent_msgs h) = Some i"
  obtains h' where "resend_one env rx now i h = Some h'" "good_step h h'"
    "due_count now (linked_list_resent_msgs h') < due_count now (linked_list_resent_msgs h)"
proof -
  from first obtain us s vs where ss: "linked_list_resent_msgs h = us @ s # vs" "i = length us"
    "resending_time s \<le> now" by (rule first_due_Some)
  have i: "i < length (linked_list_resent_msgs h)" using ss by simp
  have s: "linked_list_resent_msgs h ! i = s" using ss by simp
  have stored: "stored_ok (sm_packet s)" using resend_invD(2) [OF inv, of s] ss by simp
  let ?c = "u8_wrap (resending_counter s + 1)"
  show ?thesis
  proof (cases "?c > sn_coap_resending_count h")
    case True
    let ?h = "drop_resent i h"
    have step1: "good_step h ?h" by (rule drop_resent_step [OF inv i])
    have due: "due_count now (linked_list_resent_msgs ?h) < due_count now (linked_list_resent_msgs h)"
      using ss by (simp add: drop_resent_def remove_entry_def)
    obtain m v n where p: "sn_coap_parser (malloc_ok env) (requests ?h) (length (sm_packet s)) (Some (sm_packet s))
        = Some (m, v, n)" using stored by (rule stored_packet_parses)
    define h2 where "h2 = (case m of None \<Rightarrow> ?h\<lparr>requests := n\<rparr>
      | Some m \<Rightarrow> the rx (m\<lparr>coap_status := COAP_STATUS_BUILDER_MESSAGE_SENDING_FAILED\<rparr>)
                    (Some (sm_dst s)) (sm_param s) (?h\<lparr>requests := n\<rparr>))"
    show ?thesis
    proof (cases rx)
      case None
      with True s step1 due that show ?thesis by (simp add: resend_one_def report_sending_failed_def Let_def)
    next
      case (Some cb)
      have one: "resend_one env rx now i h = Some h2"
        using True s p Some by (simp add: resend_one_def report_sending_failed_def Let_def h2_def split: option.split)
      have calm: "good_step g (cb m' a q g) \<and>
          due_count now (linked_list_resent_msgs (cb m' a q g)) \<le> due_count now (linked_list_resent_msgs g)"
        if "resend_inv g" for m' a q g
        using c that by (simp add: calm_def Some)
      have "good_step h h2 \<and> due_count now (linked_list_resent_msgs h2) \<le> due_count now (linked_list_resent_msgs ?h)"
      proof (cases m)
        case None
        with good_step_requests [OF step1] show ?thesis by (simp add: h2_def)
      next
        case (Some msg)
        have g: "good_step h (?h\<lparr>requests := n\<rparr>)" by (rule good_step_requests [OF step1])
        with Some calm [OF good_step_inv [OF g]] show ?thesis
          by (auto simp: h2_def \<open>rx = Some cb\<close> intro: good_step_trans)
      qed
      with one due that show ?thesis by auto
    qed
  next
    case False
    let ?h = "tx_callback (sm_packet s) (sm_dst s) (sm_param s) h"
    have cfg: "resend_config_ok h" by (rule resend_invD(4) [OF inv])
    have bounds: "1 \<le> sn_coap_resending_intervall ?h" "sn_coap_resending_intervall ?h \<le> 40" "?c \<le> 6"
      using cfg False by (auto simp: resend_config_ok_def tx_callback_def)
    obtain t where t: "sn_coap_calculate_new_resend_time env now (sn_coap_resending_intervall ?h) ?c ?h =
        Some (t, ?h\<lparr>draws := Suc (draws ?h)\<rparr>)" "unat now + sn_coap_resending_intervall ?h * 2 ^ ?c \<le> unat t"
      by (rule new_resend_time [OF r w bounds, of ?h]) blast
    let ?s = "s\<lparr>resending_counter := ?c, resending_time := t\<rparr>"
    let ?g = "?h\<lparr>draws := Suc (draws ?h), linked_list_resent_msgs := us @ ?s # vs\<rparr>"
    have one: "resend_one env rx now i h = Some ?g"
      using False s t ss by (simp add: resend_one_def Let_def tx_callback_def)
    have "1 * 1 \<le> sn_coap_resending_intervall ?h * 2 ^ ?c"
      using cfg by (intro mult_le_mono) (simp_all add: resend_config_ok_def tx_callback_def)
    with t(2) have "now < t" unfolding word_less_nat_alt by linarith
    then have due: "due_count now (linked_list_resent_msgs ?g) < due_count now (linked_list_resent_msgs h)"
      using ss by simp
    have "good_step h ?g"
      using inv ss bounds(3)
      by (simp add: good_step_def not_grown_def limits_def resend_inv_def tx_callback_def resend_config_ok_def)
    with one due that show ?thesis by blast
  qed
qed

text \<open>The loop ends, keeps the invariant and the limits, and leaves no due message.\<close>

lemma resend_loop_ok:
  assumes "random_ok env" "no_wrap now" "calm now rx" "resend_inv h"
  shows "\<exists>h'. resend_loop env rx now h = Some (Some h') \<and> good_step h h' \<and>
    (\<forall>s \<in> set (linked_list_resent_msgs h'). now < resending_time s)"
  using assms(4)
proof (induction "due_count now (linked_list_resent_msgs h)" arbitrary: h rule: less_induct)
  case less
  show ?case
  proof (cases "first_due now (linked_list_resent_msgs h)")
    case None
    then have "\<forall>s \<in> set (linked_list_resent_msgs h). now < resending_time s"
      by (simp add: first_due_None not_le)
    with good_step_refl [OF less.prems] None show ?thesis by (subst resend_loop.simps) simp
  next
    case (Some i)
    then obtain h' where h': "resend_one env rx now i h = Some h'" "good_step h h'"
      "due_count now (linked_list_resent_msgs h') < due_count now (linked_list_resent_msgs h)"
      by (rule resend_one_ok [OF less.prems assms(1,2,3)])
    from less.hyps [OF h'(3) good_step_inv [OF h'(2)]] h'(1) Some good_step_trans [OF h'(2)] show ?thesis
      by (subst resend_loop.simps) fastforce
  qed
qed

text \<open>
  The loop that searches the queue again after each message does what one pass over the queue does:
  \<open>resend_pass\<close> treats each due message once, in the order of the queue. This holds for a receive
  callback that neither reads nor changes the queue and its configuration.
\<close>

fun resend_pass ::
  "coap_env \<Rightarrow> rx_callback option \<Rightarrow> 32 word \<Rightarrow> send_msg list \<Rightarrow> coap_s \<Rightarrow> (send_msg list \<times> coap_s) option" where
  "resend_pass env rx now [] h = Some ([], h)"
| "resend_pass env rx now (s # ss) h =
     (let counter = u8_wrap (resending_counter s + 1) in
      if now < resending_time s then map_option (apfst (Cons s)) (resend_pass env rx now ss h)
      else if counter > sn_coap_resending_count h then
        do { h1 \<leftarrow> report_sending_failed env rx s h; resend_pass env rx now ss h1 }
      else do {
        (t, h1) \<leftarrow> sn_coap_calculate_new_resend_time env now (sn_coap_resending_intervall h) counter
                     (tx_callback (sm_packet s) (sm_dst s) (sm_param s) h);
        map_option (apfst (Cons (s\<lparr>resending_counter := counter, resending_time := t\<rparr>)))
          (resend_pass env rx now ss h1) })"

definition with_queue :: "send_msg list \<Rightarrow> coap_s \<Rightarrow> coap_s" where
  "with_queue ss h = h\<lparr>linked_list_resent_msgs := ss, count_resent_msgs := length ss\<rparr>"

definition bystander :: "rx_callback option \<Rightarrow> bool" where
  "bystander rx \<longleftrightarrow>
     (\<forall>cb m a p h ss. rx = Some cb \<longrightarrow>
        cb m a p (with_queue ss h) = with_queue ss (cb m a p h) \<and>
        sn_coap_resending_count (cb m a p h) = sn_coap_resending_count h \<and>
        sn_coap_resending_intervall (cb m a p h) = sn_coap_resending_intervall h)"

lemma with_queue_simps [simp]:
  "linked_list_resent_msgs (with_queue ss h) = ss" "count_resent_msgs (with_queue ss h) = length ss"
  "sn_coap_resending_count (with_queue ss h) = sn_coap_resending_count h"
  "sn_coap_resending_intervall (with_queue ss h) = sn_coap_resending_intervall h"
  "requests (with_queue ss h) = requests h" "draws (with_queue ss h) = draws h"
  "transmitted (with_queue ss h) = transmitted h"
  by (simp_all add: with_queue_def)

lemma tx_callback_config [simp]:
  "sn_coap_resending_count (tx_callback b a p h) = sn_coap_resending_count h"
  "sn_coap_resending_intervall (tx_callback b a p h) = sn_coap_resending_intervall h"
  by (simp_all add: tx_callback_def)

lemma with_queue_updates:
  "with_queue ss (with_queue ts h) = with_queue ss h"
  "(with_queue ss h)\<lparr>requests := n\<rparr> = with_queue ss (h\<lparr>requests := n\<rparr>)"
  "(with_queue ss h)\<lparr>draws := n\<rparr> = with_queue ss (h\<lparr>draws := n\<rparr>)"
  "tx_callback b a p (with_queue ss h) = with_queue ss (tx_callback b a p h)"
  "length ts = length ss \<Longrightarrow> (with_queue ss h)\<lparr>linked_list_resent_msgs := ts\<rparr> = with_queue ts h"
  by (simp_all add: with_queue_def tx_callback_def)

lemma drop_resent_with_queue:
  "length us + length ss < 65535 \<Longrightarrow>
   drop_resent (length us) (with_queue (us @ s # ss) h) = with_queue (us @ ss) h"
  by (simp add: drop_resent_def with_queue_def remove_entry_def decrement_pos)

lemma report_with_queue:
  "bystander rx \<Longrightarrow>
   report_sending_failed env rx s (with_queue ss h) = map_option (with_queue ss) (report_sending_failed env rx s h)"
  by (cases "sn_coap_parser (malloc_ok env) (requests h) (length (sm_packet s)) (Some (sm_packet s))")
    (auto simp: report_sending_failed_def bystander_def Let_def with_queue_updates split: option.splits)

lemma report_config:
  "bystander rx \<Longrightarrow> report_sending_failed env rx s h = Some h' \<Longrightarrow>
   sn_coap_resending_count h' = sn_coap_resending_count h \<and>
   sn_coap_resending_intervall h' = sn_coap_resending_intervall h"
  by (auto simp: report_sending_failed_def bystander_def Let_def split: option.splits bind_splits)

lemma first_due_append:
  "\<forall>u \<in> set us. now < resending_time u \<Longrightarrow> first_due now (us @ ss) = map_option ((+) (length us)) (first_due now ss)"
  by (cases "first_due now ss"; induction us) auto

lemma calc_with_queue:
  "sn_coap_calculate_new_resend_time env now i c (with_queue ss h) =
   map_option (apsnd (with_queue ss)) (sn_coap_calculate_new_resend_time env now i c h)"
  by (simp add: sn_coap_calculate_new_resend_time_def Let_def with_queue_updates)

lemma resend_loop_pass:
  assumes rx: "bystander rx" and r: "random_ok env" and w: "no_wrap now"
  shows "\<lbrakk>\<forall>u \<in> set us. now < resending_time u; length us + length ss < 65535;
          sn_coap_resending_count h \<le> 6; 1 \<le> sn_coap_resending_intervall h; sn_coap_resending_intervall h \<le> 40\<rbrakk> \<Longrightarrow>
    resend_loop env rx now (with_queue (us @ ss) h) =
      Some (map_option (\<lambda>(kept, h'). with_queue (us @ kept) h') (resend_pass env rx now ss h))"
proof (induction ss arbitrary: us h)
  case Nil
  then have "first_due now us = None" by (auto simp: first_due_None)
  then show ?case
    by (subst resend_loop.simps) simp
next
  case (Cons s ss)
  let ?c = "u8_wrap (resending_counter s + 1)" and ?g = "with_queue (us @ s # ss) h"
  consider (later) "now < resending_time s"
    | (gone) "\<not> now < resending_time s" "?c > sn_coap_resending_count h"
    | (again) "\<not> now < resending_time s" "\<not> ?c > sn_coap_resending_count h" by blast
  then show ?case
  proof cases
    case later
    with Cons.IH [of "us @ [s]" h] Cons.prems show ?thesis
      by (simp add: option.map_comp comp_def case_prod_beta')
  next
    case gone
    then have due: "first_due now (us @ s # ss) = Some (length us)"
      using Cons.prems by (simp add: first_due_append not_less)
    have one: "resend_one env rx now (length us) ?g = map_option (with_queue (us @ ss)) (report_sending_failed env rx s h)"
      using gone Cons.prems by (simp add: resend_one_def Let_def drop_resent_with_queue report_with_queue [OF rx])
    show ?thesis
    proof (cases "report_sending_failed env rx s h")
      case None
      with gone due one show ?thesis by (subst resend_loop.simps) (simp add: Let_def)
    next
      case (Some h1)
      with gone due one Cons.IH [of us h1] Cons.prems report_config [OF rx Some] show ?thesis
        by (subst resend_loop.simps) (simp add: Let_def)
    qed
  next
    case again
    then have due: "first_due now (us @ s # ss) = Some (length us)"
      using Cons.prems by (simp add: first_due_append not_less)
    let ?h = "tx_callback (sm_packet s) (sm_dst s) (sm_param s) h"
    have c: "1 \<le> sn_coap_resending_intervall h" "sn_coap_resending_intervall h \<le> 40" "?c \<le> 6"
      using again Cons.prems by auto
    obtain t where t: "sn_coap_calculate_new_resend_time env now (sn_coap_resending_intervall h) ?c ?h =
        Some (t, ?h\<lparr>draws := Suc (draws ?h)\<rparr>)"
      "unat now + sn_coap_resending_intervall h * 2 ^ ?c \<le> unat t"
      by (rule new_resend_time [OF r w c, of ?h]) blast
    have "1 * 1 \<le> sn_coap_resending_intervall h * 2 ^ ?c"
      using Cons.prems by (intro mult_le_mono) simp_all
    with t(2) have later: "now < t" unfolding word_less_nat_alt by linarith
    let ?s = "s\<lparr>resending_counter := ?c, resending_time := t\<rparr>" and ?h1 = "?h\<lparr>draws := Suc (draws ?h)\<rparr>"
    have one: "resend_one env rx now (length us) ?g = Some (with_queue (us @ ?s # ss) ?h1)"
      using again t(1) by (simp add: resend_one_def Let_def with_queue_updates calc_with_queue)
    have cfg: "sn_coap_resending_count ?h1 = sn_coap_resending_count h"
      "sn_coap_resending_intervall ?h1 = sn_coap_resending_intervall h" by (simp_all add: tx_callback_def)
    from again due one later cfg t(1) Cons.IH [of "us @ [?s]" ?h1] Cons.prems show ?thesis
      by (subst resend_loop.simps) (simp add: Let_def option.map_comp comp_def case_prod_beta')
  qed
qed

end
