(* ===== verification/Coap_Resend_Properties.thy ===== *)
theory Coap_Resend_Properties
  imports Coap_Resend_Pass "HOL-Library.Sublist"
begin

text \<open>
  What the retransmission queue promises: its limits hold over every sequence of operations unless they are set
  below what is stored, and an execution sends again exactly the due messages that have attempts left, in the order of the queue,
  with the next time between once and one and a half times the doubled interval. The last section lets the
  receive callback cancel messages during the execution.
\<close>

section \<open>Operations on the queue\<close>

datatype resend_op =
    Store_Message coap_addr nat bytes "32 word" nat
  | Message_Answered coap_addr nat
  | Delete_By_Id nat
  | Delete_By_Token "bytes option" nat
  | Clear_Buffer
  | Set_Parameters nat nat
  | Set_Buffer nat nat
  | Run_Loop "32 word"

definition sole_state :: "('a \<times> coap_s) option \<Rightarrow> coap_s option" where
  "sole_state = map_option snd"

text \<open>A loop that does not end has no result.\<close>

definition resend_op_step :: "coap_env \<Rightarrow> rx_callback option \<Rightarrow> coap_s \<Rightarrow> resend_op \<Rightarrow> coap_s option" where
  "resend_op_step env rx h c =
     (case c of
        Store_Message dst len packet t param \<Rightarrow>
          sole_state (sn_coap_protocol_linked_list_send_msg_store env dst len packet t param h)
      | Message_Answered src msgid \<Rightarrow> sn_coap_protocol_linked_list_send_msg_remove src msgid h
      | Delete_By_Id msgid \<Rightarrow> sole_state (sn_coap_protocol_delete_retransmission msgid h)
      | Delete_By_Token token len \<Rightarrow> sole_state (sn_coap_protocol_delete_retransmission_by_token token len h)
      | Clear_Buffer \<Rightarrow> Some (sn_coap_protocol_clear_retransmission_buffer h)
      | Set_Parameters count interval \<Rightarrow>
          Some (snd (sn_coap_protocol_set_retransmission_parameters count interval h))
      | Set_Buffer msgs bytes \<Rightarrow> Some (snd (sn_coap_protocol_set_retransmission_buffer msgs bytes h))
      | Run_Loop now \<Rightarrow> Option.bind (resend_loop env rx now h) (\<lambda>r. r))"

text \<open>What a caller has to respect: buffers of the announced length and complete CoAP packets.\<close>

fun resend_op_ok :: "rx_callback option \<Rightarrow> resend_op \<Rightarrow> bool" where
  "resend_op_ok rx (Store_Message dst len packet t param) \<longleftrightarrow> len \<le> length packet \<and> stored_ok (take len packet)"
| "resend_op_ok rx (Delete_By_Token (Some t) len) \<longleftrightarrow> len \<le> length t"
| "resend_op_ok rx (Run_Loop now) \<longleftrightarrow> no_wrap now \<and> calm now rx"
| "resend_op_ok rx _ \<longleftrightarrow> True"

primrec resend_ops :: "coap_env \<Rightarrow> rx_callback option \<Rightarrow> coap_s \<Rightarrow> resend_op list \<Rightarrow> coap_s option" where
  "resend_ops env rx h [] = Some h"
| "resend_ops env rx h (c # cs) = do { h1 \<leftarrow> resend_op_step env rx h c; resend_ops env rx h1 cs }"

lemma resend_ops_append:
  "resend_ops env rx h (cs @ ds) = Option.bind (resend_ops env rx h cs) (\<lambda>h1. resend_ops env rx h1 ds)"
  by (induction cs arbitrary: h) (auto split: bind_splits)

lemma set_parameters_step:
  "resend_inv h \<Longrightarrow> good_step h (snd (sn_coap_protocol_set_retransmission_parameters count interval h))"
  by (auto simp: sn_coap_protocol_set_retransmission_parameters_def good_step_def not_grown_def limits_def
      resend_inv_def resend_config_ok_def)

lemma set_buffer_inv:
  assumes "resend_inv h"
  shows "resend_inv (snd (sn_coap_protocol_set_retransmission_buffer msgs bytes h))"
    "linked_list_resent_msgs (snd (sn_coap_protocol_set_retransmission_buffer msgs bytes h)) = linked_list_resent_msgs h"
    "snd (sn_coap_protocol_set_retransmission_buffer msgs bytes h) = h \<or>
     limits (snd (sn_coap_protocol_set_retransmission_buffer msgs bytes h)) = (msgs, bytes)"
  using assms by (auto simp: sn_coap_protocol_set_retransmission_buffer_def resend_inv_def resend_config_ok_def limits_def)

definition is_set_buffer :: "resend_op \<Rightarrow> bool" where
  "is_set_buffer c \<longleftrightarrow> (\<exists>msgs bytes. c = Set_Buffer msgs bytes)"

lemma resend_op_step_ok:
  assumes "resend_inv h" "random_ok env" "resend_op_ok rx c"
    and small: "0 < sn_coap_resending_queue_bytes h \<longrightarrow> queue_bytes (linked_list_resent_msgs h) < 65536"
    and "\<not> is_set_buffer c"
  shows "\<exists>h'. resend_op_step env rx h c = Some h' \<and> good_step h h'"
proof (cases c)
  case (Store_Message dst len packet t param)
  with assms obtain r h' where "sn_coap_protocol_linked_list_send_msg_store env dst len packet t param h = Some (r, h')"
    "good_step h h'"
    by (auto intro: send_msg_store_ok [OF assms(1) _ _ small, of len packet env dst t param])
  with Store_Message show ?thesis by (simp add: resend_op_step_def sole_state_def)
next
  case (Message_Answered src msgid)
  obtain h' where "sn_coap_protocol_linked_list_send_msg_remove src msgid h = Some h'" "good_step h h'"
    using assms(1) by (rule send_msg_remove_ok)
  with Message_Answered show ?thesis by (simp add: resend_op_step_def)
next
  case (Delete_By_Id msgid)
  obtain r h' where "sn_coap_protocol_delete_retransmission msgid h = Some (r, h')" "good_step h h'"
    using assms(1) by (rule delete_retransmission_ok)
  with Delete_By_Id show ?thesis by (simp add: resend_op_step_def sole_state_def)
next
  case (Delete_By_Token token len)
  have "\<And>t. token = Some t \<Longrightarrow> len \<le> length t" using assms(3) Delete_By_Token by auto
  then obtain r h' where "sn_coap_protocol_delete_retransmission_by_token token len h = Some (r, h')" "good_step h h'"
    using delete_retransmission_by_token_ok [OF assms(1)] by metis
  with Delete_By_Token show ?thesis by (simp add: resend_op_step_def sole_state_def)
next
  case Clear_Buffer
  with clear_retransmission_buffer_step [OF assms(1)] show ?thesis by (simp add: resend_op_step_def)
next
  case (Set_Parameters count interval)
  with set_parameters_step [OF assms(1)] show ?thesis by (simp add: resend_op_step_def)
next
  case (Set_Buffer msgs bytes)
  with assms(5) show ?thesis by (simp add: is_set_buffer_def)
next
  case (Run_Loop now)
  with resend_loop_ok [OF assms(2) _ _ assms(1), of now rx] assms(3) show ?thesis
    by (auto simp: resend_op_step_def)
qed

text \<open>
  The queue is beyond limits that were set below what it held, and has not grown since.
\<close>

definition limits_lowered :: "coap_env \<Rightarrow> rx_callback option \<Rightarrow> coap_s \<Rightarrow> resend_op list \<Rightarrow> coap_s \<Rightarrow> bool" where
  "limits_lowered env rx h cs h' \<longleftrightarrow>
     (\<exists>ds msgs bytes es h1. cs = ds @ Set_Buffer msgs bytes # es \<and> resend_ops env rx h ds = Some h1 \<and>
        limits h' = (msgs, bytes) \<and>
        length (linked_list_resent_msgs h') \<le> length (linked_list_resent_msgs h1) \<and>
        queue_bytes (linked_list_resent_msgs h') \<le> queue_bytes (linked_list_resent_msgs h1))"

text \<open>
  The size of the queue is counted in 16 bits; where the limits are changed on the way, the stored packets together have
  to stay below that. With a fixed limit on the bytes they do.
\<close>

definition bytes_counted :: "coap_env \<Rightarrow> rx_callback option \<Rightarrow> coap_s \<Rightarrow> resend_op list \<Rightarrow> bool" where
  "bytes_counted env rx h cs \<longleftrightarrow>
     ((\<exists>c \<in> set cs. is_set_buffer c) \<longrightarrow>
       (\<forall>ds es h1. cs = ds @ es \<and> resend_ops env rx h ds = Some h1 \<longrightarrow> queue_bytes (linked_list_resent_msgs h1) < 65536))"

lemma bytes_counted_prefix: "bytes_counted env rx h (cs @ ds) \<Longrightarrow> bytes_counted env rx h cs"
  by (fastforce simp: bytes_counted_def)

lemma within_limits_bytes:
  "resend_inv h \<Longrightarrow> within_limits h \<Longrightarrow> 0 < sn_coap_resending_queue_bytes h \<Longrightarrow>
   queue_bytes (linked_list_resent_msgs h) < 65536"
  by (auto simp: resend_inv_def resend_config_ok_def within_limits_def Let_def)

lemma limits_lowered_not_grown:
  "limits_lowered env rx h cs h1 \<Longrightarrow> not_grown h1 h2 \<Longrightarrow> limits_lowered env rx h (cs @ [c]) h2"
  unfolding limits_lowered_def not_grown_def by (metis append_Cons append_assoc order_trans)

lemma resend_ops_ok:
  assumes "random_ok env" "resend_inv h" "within_limits h"
  shows "\<forall>c \<in> set cs. resend_op_ok rx c \<Longrightarrow> bytes_counted env rx h cs \<Longrightarrow>
    \<exists>h'. resend_ops env rx h cs = Some h' \<and> resend_inv h' \<and> (within_limits h' \<or> limits_lowered env rx h cs h')"
proof (induction cs rule: rev_induct)
  case Nil
  then show ?case using assms by simp
next
  case (snoc c cs)
  then obtain h1 where h1: "resend_ops env rx h cs = Some h1" "resend_inv h1"
    "within_limits h1 \<or> limits_lowered env rx h cs h1"
    using bytes_counted_prefix by fastforce
  show ?case
  proof (cases "is_set_buffer c")
    case True
    then obtain msgs bytes where c: "c = Set_Buffer msgs bytes" by (auto simp: is_set_buffer_def)
    let ?h2 = "snd (sn_coap_protocol_set_retransmission_buffer msgs bytes h1)"
    note b = set_buffer_inv [OF h1(2), of msgs bytes]
    have "resend_ops env rx h (cs @ [c]) = Some ?h2"
      using h1(1) c by (simp add: resend_ops_append resend_op_step_def)
    moreover have "within_limits ?h2 \<or> limits_lowered env rx h (cs @ [c]) ?h2"
    proof (cases "?h2 = h1")
      case True
      have "not_grown h1 h1" by (simp add: not_grown_def)
      with True h1(3) limits_lowered_not_grown show ?thesis by auto
    next
      case False
      with b have "limits ?h2 = (msgs, bytes)" by blast
      with h1(1) b(2) c show ?thesis unfolding limits_lowered_def by (metis order_refl)
    qed
    ultimately show ?thesis using b(1) by blast
  next
    case False
    have small: "0 < sn_coap_resending_queue_bytes h1 \<longrightarrow> queue_bytes (linked_list_resent_msgs h1) < 65536"
    proof (cases "within_limits h1")
      case True
      then show ?thesis using within_limits_bytes [OF h1(2)] by blast
    next
      case False
      with h1(3) have "\<exists>c' \<in> set (cs @ [c]). is_set_buffer c'"
        by (auto simp: limits_lowered_def is_set_buffer_def)
      then have "queue_bytes (linked_list_resent_msgs h1) < 65536"
        using snoc.prems(2) h1(1) unfolding bytes_counted_def by blast
      then show ?thesis by blast
    qed
    have "resend_op_ok rx c" using snoc.prems(1) by simp
    from resend_op_step_ok [OF h1(2) assms(1) this small False]
    obtain h2 where h2: "resend_op_step env rx h1 c = Some h2" "good_step h1 h2" by blast
    have "resend_ops env rx h (cs @ [c]) = Some h2" using h1(1) h2(1) by (simp add: resend_ops_append)
    moreover have "within_limits h2 \<or> limits_lowered env rx h (cs @ [c]) h2"
      using h2(2) h1(3) within_limits_not_grown limits_lowered_not_grown unfolding good_step_def by blast
    ultimately show ?thesis using good_step_inv [OF h2(2)] by blast
  qed
qed

definition config_fits :: "coap_env \<Rightarrow> bool" where
  "config_fits env \<longleftrightarrow>
     cfg_resending_queue_msgs env < 256 \<and> cfg_resending_queue_bytes env < 65536 \<and>
     cfg_resending_max_count env \<le> 6 \<and> 1 \<le> cfg_response_timeout env \<and> cfg_response_timeout env \<le> 40"

lemma init_resend_inv:
  "config_fits env \<Longrightarrow> sn_coap_protocol_init env granted = Some h \<Longrightarrow> resend_inv h \<and> within_limits h"
  by (auto simp: sn_coap_protocol_init_def config_fits_def resend_inv_def resend_config_ok_def
      within_limits_def Let_def split: if_splits)


section \<open>Properties\<close>

text \<open>
  Property C12. The retransmission queue over every sequence of its operations, changes of the configuration and of the limits included,
  from the initial handle on: no operation uses memory outside its packets, the loop of \<open>sn_coap_protocol_exec\<close> ends, and afterwards the counter is the number of
  stored messages, and the queue respects the limits in force on the number of messages and of bytes (both 0 mean that nothing is stored). The one
  exception are limits that \<open>sn_coap_protocol_set_retransmission_buffer\<close> sets below what is stored: then the queue is not cut, but it has not grown since
  that call, neither in messages nor in bytes. Stored packets are complete CoAP packets; the receive callback keeps the queue well formed and adds no message that is due or beyond the limits;
  and where the limits are changed on the way, the stored packets have less than 65536 bytes together, because the code counts them in 16 bits.
\<close>

theorem resend_queue_within_limits:
  assumes "config_fits env" "random_ok env" "sn_coap_protocol_init env granted = Some h"
    and "\<forall>c \<in> set cs. resend_op_ok rx c" and "bytes_counted env rx h cs"
  shows "\<exists>h'. resend_ops env rx h cs = Some h' \<and>
    count_resent_msgs h' = length (linked_list_resent_msgs h') \<and>
    ((0 < sn_coap_resending_queue_msgs h' \<longrightarrow> count_resent_msgs h' \<le> sn_coap_resending_queue_msgs h') \<and>
     (0 < sn_coap_resending_queue_bytes h' \<longrightarrow>
        queue_bytes (linked_list_resent_msgs h') \<le> sn_coap_resending_queue_bytes h') \<and>
     (sn_coap_resending_queue_msgs h' = 0 \<and> sn_coap_resending_queue_bytes h' = 0 \<longrightarrow> count_resent_msgs h' = 0) \<or>
     (\<exists>ds msgs bytes es h1. cs = ds @ Set_Buffer msgs bytes # es \<and> resend_ops env rx h ds = Some h1 \<and>
        limits h' = (msgs, bytes) \<and>
        length (linked_list_resent_msgs h') \<le> length (linked_list_resent_msgs h1) \<and>
        queue_bytes (linked_list_resent_msgs h') \<le> queue_bytes (linked_list_resent_msgs h1)))"
proof -
  have init: "resend_inv h" "within_limits h" using init_resend_inv [OF assms(1,3)] by simp_all
  from resend_ops_ok [OF assms(2) init assms(4,5)]
  obtain h' where h': "resend_ops env rx h cs = Some h'" "resend_inv h'" "within_limits h' \<or> limits_lowered env rx h cs h'"
    by blast
  have count: "count_resent_msgs h' = length (linked_list_resent_msgs h')" using resend_invD(1) [OF h'(2)] .
  show ?thesis
    by (intro exI [of _ h'] conjI h'(1) count)
      (use h'(3) in \<open>simp add: within_limits_def limits_lowered_def count Let_def\<close>)
qed

definition example_ops :: "resend_op list" where
  "example_ops = [Store_Message example_peer 4 [0x40, 1, 0, 7] 10 0, Run_Loop 10, Message_Answered example_peer 7]"

lemma example_random [simp]: "random_ok example_env"
  by (simp add: random_ok_def example_env_def)

theorem resend_queue_within_limits_witness:
  "\<exists>h'. resend_ops example_env None example_handle example_ops = Some h' \<and>
    count_resent_msgs h' = length (linked_list_resent_msgs h')"
proof -
  have fits: "config_fits example_env" by (simp add: config_fits_def example_env_def)
  have "sn_coap_protocol_init example_env True = Some example_handle" by (rule example_init)
  moreover have "\<forall>c \<in> set example_ops. resend_op_ok None c"
    by (simp add: example_ops_def stored_ok_def no_wrap_def calm_def)
  moreover have "bytes_counted example_env None example_handle example_ops"
    by (simp add: bytes_counted_def example_ops_def is_set_buffer_def)
  ultimately show ?thesis
    using resend_queue_within_limits [OF fits example_random] by metis
qed

text \<open>Limits below what is stored: the second message stays when the limit is lowered to one.\<close>

lemma lowered_limit_keeps_messages:
  "map_option count_resent_msgs (resend_ops example_env None example_handle
     [Store_Message example_peer 4 [0x40, 1, 0, 7] 10 0, Store_Message example_peer 4 [0x40, 1, 0, 8] 10 0, Set_Buffer 1 0]) = Some 2"
  by (simp add: resend_op_step_def sole_state_def sn_coap_protocol_linked_list_send_msg_store_def
      sn_coap_protocol_allocate_mem_for_msg_def protocol_malloc_def rd_block_def list_add_to_end_def wrap_simps
      sn_coap_protocol_set_retransmission_buffer_def example_handle_def sn_coap_protocol_init_def example_env_def)

text \<open>
  For a callback that leaves the queue alone the search could go on from where it is: the loop of \<open>sn_coap_protocol_exec\<close>, which searches the queue from its start after
  every message, is one pass over the queue: each due message is treated once, in the order of the
  queue, with the same transmissions, random draws and callbacks. The receive callback neither reads
  nor changes the queue and its configuration.
\<close>

lemma resend_loop_is_one_pass:
  assumes "bystander rx" "random_ok env" "no_wrap now" "resend_inv h"
  shows "resend_loop env rx now h =
    Some (do { (kept, h') \<leftarrow> resend_pass env rx now (linked_list_resent_msgs h) h;
               Some (h'\<lparr>linked_list_resent_msgs := kept, count_resent_msgs := length kept\<rparr>) })"
proof -
  have h: "with_queue (linked_list_resent_msgs h) h = h"
    using resend_invD(1) [OF assms(4)] by (simp add: with_queue_def)
  have "resend_loop env rx now (with_queue ([] @ linked_list_resent_msgs h) h) =
      Some (map_option (\<lambda>(kept, h'). with_queue ([] @ kept) h') (resend_pass env rx now (linked_list_resent_msgs h) h))"
    using resend_invD(5) [OF assms(4)] resend_invD(4) [OF assms(4)]
    by (intro resend_loop_pass assms(1,2,3)) (simp_all add: resend_config_ok_def)
  from this [unfolded append_Nil h] show ?thesis
    by (cases "resend_pass env rx now (linked_list_resent_msgs h) h")
      (simp_all add: with_queue_def case_prod_beta')
qed

definition example_queued :: coap_s where
  "example_queued = with_queue
     [\<lparr>resending_counter = 3, resending_time = 4, sm_packet = [0x40, 1, 0, 5], sm_dst = example_peer, sm_param = 0\<rparr>,
      \<lparr>resending_counter = 1, resending_time = 9, sm_packet = [0x40, 1, 0, 6], sm_dst = example_peer, sm_param = 0\<rparr>]
     example_handle"

lemma example_queued_inv: "resend_inv example_queued"
  by (simp add: resend_inv_def resend_config_ok_def example_queued_def stored_ok_def
      example_handle_def sn_coap_protocol_init_def with_queue_def example_env_def)

definition silent :: "rx_callback option \<Rightarrow> bool" where
  "silent rx \<longleftrightarrow> (\<forall>cb m a p h. rx = Some cb \<longrightarrow> transmitted (cb m a p h) = transmitted h)"

text \<open>The message after an execution: unchanged when it was not due, else with one attempt more.\<close>

definition rescheduled :: "32 word \<Rightarrow> nat \<Rightarrow> send_msg \<Rightarrow> send_msg \<Rightarrow> bool" where
  "rescheduled now interval s s' \<longleftrightarrow>
     (if now < resending_time s then s' = s
      else let wait = interval * 2 ^ (resending_counter s + 1) in
        resending_counter s' = resending_counter s + 1 \<and>
        s' = s\<lparr>resending_counter := resending_counter s', resending_time := resending_time s'\<rparr> \<and>
        unat now + wait \<le> unat (resending_time s') \<and> 2 * unat (resending_time s') \<le> 2 * unat now + 3 * wait)"

lemma silent_report:
  "silent rx \<Longrightarrow> report_sending_failed env rx s h = Some h' \<Longrightarrow> transmitted h' = transmitted h"
  by (auto simp: report_sending_failed_def silent_def Let_def split: option.splits bind_splits)

lemma resend_pass_effect:
  assumes rx: "bystander rx" "silent rx" and r: "random_ok env" and w: "no_wrap now"
  shows "\<lbrakk>resend_pass env rx now ss h = Some (kept, h'); \<forall>s \<in> set ss. resending_counter s \<le> 6;
      sn_coap_resending_count h \<le> 6; 1 \<le> sn_coap_resending_intervall h; sn_coap_resending_intervall h \<le> 40\<rbrakk> \<Longrightarrow>
    transmitted h' = transmitted h @ map (\<lambda>s. (sm_packet s, sm_dst s, sm_param s))
      (filter (\<lambda>s. resending_time s \<le> now \<and> resending_counter s < sn_coap_resending_count h) ss) \<and>
    list_all2 (rescheduled now (sn_coap_resending_intervall h))
      (filter (\<lambda>s. now < resending_time s \<or> resending_counter s < sn_coap_resending_count h) ss) kept"
proof (induction ss arbitrary: h kept)
  case (Cons s ss)
  let ?c = "resending_counter s + 1"
  have c: "u8_wrap ?c = ?c" using Cons.prems by (simp add: wrap_simps)
  consider (later) "now < resending_time s"
    | (gone) "\<not> now < resending_time s" "?c > sn_coap_resending_count h"
    | (again) "\<not> now < resending_time s" "\<not> ?c > sn_coap_resending_count h" by blast
  then show ?case
  proof cases
    case later
    with Cons.prems(1) c obtain kept' where k: "resend_pass env rx now ss h = Some (kept', h')" "kept = s # kept'"
      by (auto simp: Let_def)
    from later k Cons.IH [OF k(1)] Cons.prems show ?thesis
      by (auto simp: rescheduled_def not_le)
  next
    case gone
    with Cons.prems(1) c obtain h1 where h1: "report_sending_failed env rx s h = Some h1"
      "resend_pass env rx now ss h1 = Some (kept, h')"
      by (auto simp: Let_def split: bind_splits)
    have cfg: "sn_coap_resending_count h1 = sn_coap_resending_count h"
      "sn_coap_resending_intervall h1 = sn_coap_resending_intervall h" "transmitted h1 = transmitted h"
      using report_config [OF rx(1) h1(1)] silent_report [OF rx(2) h1(1)] by simp_all
    from gone h1 cfg Cons.IH [OF h1(2)] Cons.prems show ?thesis by auto
  next
    case again
    let ?h = "tx_callback (sm_packet s) (sm_dst s) (sm_param s) h"
    have b: "1 \<le> sn_coap_resending_intervall h" "sn_coap_resending_intervall h \<le> 40" "?c \<le> 6"
      using again Cons.prems by auto
    obtain t where t: "sn_coap_calculate_new_resend_time env now (sn_coap_resending_intervall h) ?c ?h =
        Some (t, ?h\<lparr>draws := Suc (draws ?h)\<rparr>)"
      "unat now + sn_coap_resending_intervall h * 2 ^ ?c \<le> unat t"
      "2 * unat t \<le> 2 * unat now + 3 * (sn_coap_resending_intervall h * 2 ^ ?c)"
      by (rule new_resend_time [OF r w b, of ?h]) blast
    let ?s = "s\<lparr>resending_counter := ?c, resending_time := t\<rparr>" and ?h1 = "?h\<lparr>draws := Suc (draws ?h)\<rparr>"
    from again c t(1) Cons.prems(1) obtain kept' where
      k: "resend_pass env rx now ss ?h1 = Some (kept', h')" "kept = ?s # kept'"
      by (auto simp: Let_def)
    have cfg: "sn_coap_resending_count ?h1 = sn_coap_resending_count h"
      "sn_coap_resending_intervall ?h1 = sn_coap_resending_intervall h"
      "transmitted ?h1 = transmitted h @ [(sm_packet s, sm_dst s, sm_param s)]" by (simp_all add: tx_callback_def)
    have "rescheduled now (sn_coap_resending_intervall h) s ?s"
      using again t(2,3) by (simp add: rescheduled_def Let_def)
    with again k cfg Cons.IH [OF k(1)] Cons.prems show ?thesis by auto
  qed
qed simp


lemma report_no_fault: "stored_ok (sm_packet s) \<Longrightarrow> \<exists>h'. report_sending_failed env rx s h = Some h'"
proof -
  assume s: "stored_ok (sm_packet s)"
  obtain m v n where
    "sn_coap_parser (malloc_ok env) (requests h) (length (sm_packet s)) (Some (sm_packet s)) = Some (m, v, n)"
    using s by (rule stored_packet_parses)
  then show ?thesis by (simp add: report_sending_failed_def Let_def split: option.split)
qed

lemma resend_pass_no_fault:
  assumes "bystander rx" "random_ok env" "no_wrap now"
  shows "\<lbrakk>\<forall>s \<in> set ss. stored_ok (sm_packet s); sn_coap_resending_count h \<le> 6;
      1 \<le> sn_coap_resending_intervall h; sn_coap_resending_intervall h \<le> 40\<rbrakk> \<Longrightarrow>
    \<exists>kept h'. resend_pass env rx now ss h = Some (kept, h')"
proof (induction ss arbitrary: h)
  case (Cons s ss)
  let ?c = "u8_wrap (resending_counter s + 1)" and ?h = "tx_callback (sm_packet s) (sm_dst s) (sm_param s) h"
  obtain h1 where h1: "report_sending_failed env rx s h = Some h1"
    using report_no_fault Cons.prems(1) by (meson list.set_intros(1))
  note cfg = report_config [OF assms(1) h1]
  have gone: "\<exists>kept h'. resend_pass env rx now ss h1 = Some (kept, h')"
    using Cons.IH [of h1] Cons.prems cfg by simp
  have later: "\<exists>kept h'. resend_pass env rx now ss h = Some (kept, h')"
    using Cons by simp
  show ?case
  proof (cases "?c > sn_coap_resending_count h")
    case True
    with h1 gone later show ?thesis by (auto simp: Let_def)
  next
    case False
    with Cons.prems have b: "1 \<le> sn_coap_resending_intervall h" "sn_coap_resending_intervall h \<le> 40" "?c \<le> 6" by auto
    obtain t where t: "sn_coap_calculate_new_resend_time env now (sn_coap_resending_intervall h) ?c ?h =
        Some (t, ?h\<lparr>draws := Suc (draws ?h)\<rparr>)" by (rule new_resend_time [OF assms(2,3) b, of ?h]) blast
    have "\<exists>kept h'. resend_pass env rx now ss (?h\<lparr>draws := Suc (draws ?h)\<rparr>) = Some (kept, h')"
      using Cons.prems by (intro Cons.IH) (simp_all add: tx_callback_def)
    with t later False show ?thesis by (auto simp: Let_def)
  qed
qed simp

text \<open>
  Property C15. What an execution does to the retransmission queue: it always finishes; the packets it
  transmits are those of the due messages with attempts left, once each, in the order of the queue;
  the messages that stay are the ones that were not due, unchanged, and the ones sent again, with one
  attempt more and a next time between 1 and 1.5 times \<open>interval * 2 ^ attempts\<close> later; the others,
  due after their last attempt, are gone. The receive callback leaves the queue, its configuration and
  the transport alone.
\<close>

theorem execution_resends_due_messages:
  assumes "bystander rx" "silent rx" "random_ok env" "no_wrap now" "resend_inv h"
  shows "\<exists>h'. resend_loop env rx now h = Some (Some h') \<and>
    transmitted h' = transmitted h @ map (\<lambda>s. (sm_packet s, sm_dst s, sm_param s))
      (filter (\<lambda>s. resending_time s \<le> now \<and> resending_counter s < sn_coap_resending_count h)
        (linked_list_resent_msgs h)) \<and>
    list_all2 (rescheduled now (sn_coap_resending_intervall h))
      (filter (\<lambda>s. now < resending_time s \<or> resending_counter s < sn_coap_resending_count h)
        (linked_list_resent_msgs h))
      (linked_list_resent_msgs h')"
proof -
  let ?ss = "linked_list_resent_msgs h"
  have ss: "\<forall>s \<in> set ?ss. stored_ok (sm_packet s)" "\<forall>s \<in> set ?ss. resending_counter s \<le> 6"
    and cfg: "sn_coap_resending_count h \<le> 6" "1 \<le> sn_coap_resending_intervall h" "sn_coap_resending_intervall h \<le> 40"
    using assms(5) by (auto simp: resend_inv_def resend_config_ok_def)
  obtain kept h' where p: "resend_pass env rx now ?ss h = Some (kept, h')"
    using resend_pass_no_fault [OF assms(1,3,4) ss(1) cfg] by blast
  have h: "with_queue ?ss h = h"
    using resend_invD(1) [OF assms(5)] by (simp add: with_queue_def)
  have "resend_loop env rx now (with_queue ([] @ ?ss) h) =
      Some (map_option (\<lambda>(kept, h'). with_queue ([] @ kept) h') (resend_pass env rx now ?ss h))"
    using resend_invD(5) [OF assms(5)] cfg by (intro resend_loop_pass assms(1,3,4)) simp_all
  with p have "resend_loop env rx now h = Some (Some (with_queue kept h'))" by (simp add: h)
  with resend_pass_effect [OF assms(1,2,3,4) p ss(2) cfg] show ?thesis by auto
qed

theorem execution_resends_due_messages_witness:
  "\<exists>h'. resend_loop example_env None 9 example_queued = Some (Some h') \<and>
    transmitted h' = transmitted example_queued @ map (\<lambda>s. (sm_packet s, sm_dst s, sm_param s))
      (filter (\<lambda>s. resending_time s \<le> 9 \<and> resending_counter s < sn_coap_resending_count example_queued)
        (linked_list_resent_msgs example_queued)) \<and>
    list_all2 (rescheduled 9 (sn_coap_resending_intervall example_queued))
      (filter (\<lambda>s. 9 < resending_time s \<or> resending_counter s < sn_coap_resending_count example_queued)
        (linked_list_resent_msgs example_queued))
      (linked_list_resent_msgs h')"
  by (rule execution_resends_due_messages)
    (simp_all add: bystander_def silent_def no_wrap_def example_queued_inv)

section \<open>Callbacks that cancel messages\<close>

text \<open>
  The receive callback that is told of a failed message may cancel other messages, up to the whole queue. What it leaves
  is a part of the queue in the old order; it does not transmit and does not change the configuration.
\<close>

definition cancels :: "rx_callback option \<Rightarrow> bool" where
  "cancels rx \<longleftrightarrow>
     (\<forall>cb m a p h. rx = Some cb \<and> resend_inv h \<longrightarrow>
        resend_inv (cb m a p h) \<and> subseq (linked_list_resent_msgs (cb m a p h)) (linked_list_resent_msgs h) \<and>
        transmitted (cb m a p h) = transmitted h \<and>
        sn_coap_resending_count (cb m a p h) = sn_coap_resending_count h \<and>
        sn_coap_resending_intervall (cb m a p h) = sn_coap_resending_intervall h)"

definition sent_again :: "32 word \<Rightarrow> nat \<Rightarrow> send_msg \<Rightarrow> bool" where
  "sent_again now limit s \<longleftrightarrow> resending_time s \<le> now \<and> resending_counter s < limit"

definition given_up :: "32 word \<Rightarrow> nat \<Rightarrow> send_msg \<Rightarrow> bool" where
  "given_up now limit s \<longleftrightarrow> resending_time s \<le> now \<and> limit \<le> resending_counter s"

lemma report_cancels:
  assumes "cancels rx" "resend_inv h" "stored_ok (sm_packet s)"
  obtains h' where "report_sending_failed env rx s h = Some h'" "resend_inv h'"
    "subseq (linked_list_resent_msgs h') (linked_list_resent_msgs h)" "transmitted h' = transmitted h"
    "sn_coap_resending_count h' = sn_coap_resending_count h" "sn_coap_resending_intervall h' = sn_coap_resending_intervall h"
proof (cases rx)
  case None
  then show ?thesis using that [of h] assms(2) by (simp add: report_sending_failed_def)
next
  case (Some cb)
  obtain m v n where p: "sn_coap_parser (malloc_ok env) (requests h) (length (sm_packet s)) (Some (sm_packet s)) = Some (m, v, n)"
    using assms(3) by (rule stored_packet_parses)
  have "resend_inv (h\<lparr>requests := n\<rparr>)" using assms(2) by simp
  with assms(1) Some have c: "resend_inv (cb m' a q (h\<lparr>requests := n\<rparr>)) \<and>
      subseq (linked_list_resent_msgs (cb m' a q (h\<lparr>requests := n\<rparr>))) (linked_list_resent_msgs h) \<and>
      transmitted (cb m' a q (h\<lparr>requests := n\<rparr>)) = transmitted h \<and>
      sn_coap_resending_count (cb m' a q (h\<lparr>requests := n\<rparr>)) = sn_coap_resending_count h \<and>
      sn_coap_resending_intervall (cb m' a q (h\<lparr>requests := n\<rparr>)) = sn_coap_resending_intervall h" for m' a q
    using assms(1) [unfolded cancels_def, THEN spec [of _ cb], THEN spec [of _ m'], THEN spec [of _ a], THEN spec [of _ q],
      THEN spec [of _ "h\<lparr>requests := n\<rparr>"]] by simp
  show ?thesis
  proof (cases m)
    case None
    with Some p assms(2) show ?thesis
      by (intro that [of "h\<lparr>requests := n\<rparr>"]) (simp_all add: report_sending_failed_def)
  next
    case (Some msg)
    with \<open>rx = Some cb\<close> p c show ?thesis
      by (intro that [of "cb (msg\<lparr>coap_status := COAP_STATUS_BUILDER_MESSAGE_SENDING_FAILED\<rparr>) (Some (sm_dst s)) (sm_param s) (h\<lparr>requests := n\<rparr>)"])
        (simp_all add: report_sending_failed_def)
  qed
qed

text \<open>
  The messages that have been treated are in front; the search skips them. What happens to the rest: \<open>sent\<close> are the
  messages that are transmitted, \<open>orig\<close> the ones that are still there in the end, as they were before.
\<close>

definition loop_effect ::
  "32 word \<Rightarrow> nat \<Rightarrow> nat \<Rightarrow> send_msg list \<Rightarrow> send_msg list \<Rightarrow> coap_s \<Rightarrow> coap_s \<Rightarrow> bool" where
  "loop_effect now limit interval treated rest h h' \<longleftrightarrow>
     (\<exists>sent front orig kept.
        transmitted h' = transmitted h @ map (\<lambda>s. (sm_packet s, sm_dst s, sm_param s)) sent \<and>
        subseq sent (filter (sent_again now limit) rest) \<and>
        linked_list_resent_msgs h' = front @ kept \<and> subseq front treated \<and> subseq orig rest \<and>
        list_all2 (rescheduled now interval) orig kept \<and>
        subseq (filter (\<lambda>s. resending_time s \<le> now) orig) sent \<and>
        prefix (filter (sent_again now limit) (takeWhile (\<lambda>s. \<not> given_up now limit s) rest)) sent)"

lemma loop_effectI:
  assumes "transmitted h' = transmitted h @ map (\<lambda>s. (sm_packet s, sm_dst s, sm_param s)) sent"
    and "subseq sent (filter (sent_again now limit) rest)" and "linked_list_resent_msgs h' = front @ kept"
    and "subseq front treated" "subseq orig rest" "list_all2 (rescheduled now interval) orig kept"
    and "subseq (filter (\<lambda>s. resending_time s \<le> now) orig) sent"
    and "prefix (filter (sent_again now limit) (takeWhile (\<lambda>s. \<not> given_up now limit s) rest)) sent"
  shows "loop_effect now limit interval treated rest h h'"
  using assms unfolding loop_effect_def by blast

lemma subseq_member: "subseq xs ys \<Longrightarrow> x \<in> set xs \<Longrightarrow> x \<in> set ys"
  by (meson subseq_singleton_left subseq_order.trans)

lemma subseq_snoc_cases:
  assumes "subseq xs (ys @ [y])"
  obtains zs where "subseq zs ys" "xs = zs \<or> xs = zs @ [y]"
proof -
  obtain zs us where "xs = zs @ us" "subseq zs ys" "subseq us [y]" using assms by (rule subseq_appendE)
  moreover from \<open>subseq us [y]\<close> have "us = [] \<or> us = [y]" by (cases us) (auto dest: list_emb_length split: if_split_asm)
  ultimately show ?thesis using that by auto
qed

lemma resend_loop_cancels:
  assumes rx: "cancels rx" and r: "random_ok env" and w: "no_wrap now"
  shows "\<lbrakk>linked_list_resent_msgs h = treated @ rest; resend_inv h; \<forall>u \<in> set treated. now < resending_time u\<rbrakk> \<Longrightarrow>
    \<exists>h'. resend_loop env rx now h = Some (Some h') \<and> resend_inv h' \<and>
      (\<forall>s \<in> set (linked_list_resent_msgs h'). now < resending_time s) \<and>
      loop_effect now (sn_coap_resending_count h) (sn_coap_resending_intervall h) treated rest h h'"
proof (induction "length rest" arbitrary: treated rest h rule: less_induct)
  case less
  show ?case
  proof (cases rest)
    case Nil
    with less.prems have "first_due now (linked_list_resent_msgs h) = None" by (auto simp: first_due_None not_le)
    moreover have "loop_effect now (sn_coap_resending_count h) (sn_coap_resending_intervall h) treated rest h h"
      using less.prems(1) Nil by (intro loop_effectI [of _ _ "[]" _ _ _ treated "[]" _ "[]"]) simp_all
    ultimately show ?thesis using less.prems Nil by (subst resend_loop.simps) simp
  next
    case (Cons s ss)
    let ?c = "u8_wrap (resending_counter s + 1)"
    have inv: "resend_config_ok h" "stored_ok (sm_packet s)" "resending_counter s \<le> 6"
      using less.prems(1,2) Cons resend_invD(2,3) [OF less.prems(2), of s] resend_invD(4) [OF less.prems(2)] by auto
    then have c: "?c = resending_counter s + 1" by (simp add: wrap_simps)
    consider (later) "now < resending_time s"
      | (gone) "\<not> now < resending_time s" "?c > sn_coap_resending_count h"
      | (again) "\<not> now < resending_time s" "\<not> ?c > sn_coap_resending_count h" by blast
    then show ?thesis
    proof cases
      case later
      have q: "linked_list_resent_msgs h = (treated @ [s]) @ ss" using less.prems(1) Cons by simp
      from later obtain h' where h': "resend_loop env rx now h = Some (Some h')" "resend_inv h'"
        "\<forall>s \<in> set (linked_list_resent_msgs h'). now < resending_time s"
        "loop_effect now (sn_coap_resending_count h) (sn_coap_resending_intervall h) (treated @ [s]) ss h h'"
        using less.hyps [OF _ q less.prems(2)] less.prems(3) Cons by auto
      then obtain sent front orig kept where e:
        "transmitted h' = transmitted h @ map (\<lambda>s. (sm_packet s, sm_dst s, sm_param s)) sent"
        "subseq sent (filter (sent_again now (sn_coap_resending_count h)) ss)"
        "linked_list_resent_msgs h' = front @ kept" "subseq front (treated @ [s])" "subseq orig ss"
        "list_all2 (rescheduled now (sn_coap_resending_intervall h)) orig kept"
        "subseq (filter (\<lambda>s. resending_time s \<le> now) orig) sent"
        "prefix (filter (sent_again now (sn_coap_resending_count h)) (takeWhile (\<lambda>s. \<not> given_up now (sn_coap_resending_count h) s) ss)) sent"
        unfolding loop_effect_def by blast
      obtain zs where zs: "subseq zs treated" "front = zs \<or> front = zs @ [s]" using e(4) by (rule subseq_snoc_cases)
      have s: "rescheduled now (sn_coap_resending_intervall h) s s" "\<not> sent_again now (sn_coap_resending_count h) s"
        "\<not> given_up now (sn_coap_resending_count h) s"
        using later by (simp_all add: rescheduled_def sent_again_def given_up_def not_le [symmetric])
      from zs(2) have "loop_effect now (sn_coap_resending_count h) (sn_coap_resending_intervall h) treated rest h h'"
      proof
        assume "front = zs"
        with e zs(1) s(2,3) list_emb_Cons [OF e(5), of s] show ?thesis
          unfolding Cons by (intro loop_effectI [of _ _ sent _ _ _ zs kept _ orig]) simp_all
      next
        assume "front = zs @ [s]"
        with e zs(1) s later show ?thesis
          unfolding Cons
          by (intro loop_effectI [of _ _ sent _ _ _ zs "s # kept" _ "s # orig"]) simp_all
      qed
      with h' show ?thesis by blast
    next
      case gone
      have first: "first_due now (linked_list_resent_msgs h) = Some (length treated)"
        using gone less.prems Cons by (simp add: first_due_append not_less)
      let ?h = "drop_resent (length treated) h"
      have "length treated < length (linked_list_resent_msgs h)" using less.prems(1) Cons by simp
      from good_step_inv [OF drop_resent_step [OF less.prems(2) this]] have inv1: "resend_inv ?h" .
      have drop: "linked_list_resent_msgs ?h = treated @ ss"
        using less.prems(1) Cons by (simp add: drop_resent_def remove_entry_def)
      have cfg: "transmitted ?h = transmitted h" "sn_coap_resending_count ?h = sn_coap_resending_count h"
        "sn_coap_resending_intervall ?h = sn_coap_resending_intervall h" by (simp_all add: drop_resent_def)
      obtain h1 where h1: "report_sending_failed env rx s ?h = Some h1" "resend_inv h1"
        "subseq (linked_list_resent_msgs h1) (treated @ ss)" "transmitted h1 = transmitted h"
        "sn_coap_resending_count h1 = sn_coap_resending_count h" "sn_coap_resending_intervall h1 = sn_coap_resending_intervall h"
        using report_cancels [OF rx inv1 inv(2), of env] unfolding drop cfg by metis
      obtain t1 r1 where q: "linked_list_resent_msgs h1 = t1 @ r1" "subseq t1 treated" "subseq r1 ss"
        using h1(3) by (rule subseq_appendE)
      have "resend_one env rx now (length treated) h = Some h1"
        using gone h1(1) less.prems(1) Cons by (simp add: resend_one_def)
      then have step: "resend_loop env rx now h = resend_loop env rx now h1"
        using first by (subst resend_loop.simps) simp
      have "length r1 < length rest" using list_emb_length [OF q(3)] Cons by simp
      moreover have "\<forall>u \<in> set t1. now < resending_time u"
        using less.prems(3) subseq_member [OF q(2)] by blast
      ultimately obtain h' where h': "resend_loop env rx now h1 = Some (Some h')" "resend_inv h'"
        "\<forall>s \<in> set (linked_list_resent_msgs h'). now < resending_time s"
        "loop_effect now (sn_coap_resending_count h) (sn_coap_resending_intervall h) t1 r1 h1 h'"
        using less.hyps [OF _ q(1) h1(2)] h1(5,6) by metis
      obtain sent front orig kept where e:
        "transmitted h' = transmitted h1 @ map (\<lambda>s. (sm_packet s, sm_dst s, sm_param s)) sent"
        "subseq sent (filter (sent_again now (sn_coap_resending_count h)) r1)"
        "linked_list_resent_msgs h' = front @ kept" "subseq front t1" "subseq orig r1"
        "list_all2 (rescheduled now (sn_coap_resending_intervall h)) orig kept"
        "subseq (filter (\<lambda>s. resending_time s \<le> now) orig) sent"
        "prefix (filter (sent_again now (sn_coap_resending_count h)) (takeWhile (\<lambda>s. \<not> given_up now (sn_coap_resending_count h) s) r1)) sent"
        using h'(4) unfolding loop_effect_def by blast
      have "subseq sent (filter (sent_again now (sn_coap_resending_count h)) rest)"
        using subseq_order.trans [OF e(2) subseq_filter [OF q(3)]] Cons by auto
      moreover have dropped: "takeWhile (\<lambda>s. \<not> given_up now (sn_coap_resending_count h) s) rest = []"
        using gone c Cons by (simp add: given_up_def)
      moreover have "subseq orig rest" using subseq_order.trans [OF e(5) q(3)] Cons by auto
      moreover have "subseq front treated" using subseq_order.trans [OF e(4) q(2)] .
      ultimately have "loop_effect now (sn_coap_resending_count h) (sn_coap_resending_intervall h) treated rest h h'"
        using e(1,3,6,7) h1(4) dropped by (intro loop_effectI [of _ _ sent _ _ _ front kept _ orig]) simp_all
      with h' step show ?thesis by metis
    next
      case again
      have first: "first_due now (linked_list_resent_msgs h) = Some (length treated)"
        using again less.prems Cons by (simp add: first_due_append not_less)
      let ?h = "tx_callback (sm_packet s) (sm_dst s) (sm_param s) h"
      have bounds: "1 \<le> sn_coap_resending_intervall h" "sn_coap_resending_intervall h \<le> 40" "?c \<le> 6"
        using inv(1) again by (auto simp: resend_config_ok_def)
      obtain t where t: "sn_coap_calculate_new_resend_time env now (sn_coap_resending_intervall h) ?c ?h =
          Some (t, ?h\<lparr>draws := Suc (draws ?h)\<rparr>)"
        "unat now + sn_coap_resending_intervall h * 2 ^ ?c \<le> unat t"
        "2 * unat t \<le> 2 * unat now + 3 * (sn_coap_resending_intervall h * 2 ^ ?c)"
        by (rule new_resend_time [OF r w bounds, of ?h]) blast
      let ?s = "s\<lparr>resending_counter := ?c, resending_time := t\<rparr>"
      obtain h1 where h1: "h1 = ?h\<lparr>draws := Suc (draws ?h), linked_list_resent_msgs := (treated @ [?s]) @ ss\<rparr>" by simp
      have "1 * 1 \<le> sn_coap_resending_intervall h * 2 ^ ?c" using bounds(1) by (intro mult_le_mono) simp_all
      with t(2) have later: "now < t" unfolding word_less_nat_alt by linarith
      have "resend_one env rx now (length treated) h = Some h1"
        using again t(1) less.prems(1) Cons by (simp add: resend_one_def Let_def h1 tx_callback_def)
      then have step: "resend_loop env rx now h = resend_loop env rx now h1"
        using first by (subst resend_loop.simps) simp
      have fields: "linked_list_resent_msgs h1 = (treated @ [?s]) @ ss" "sn_coap_resending_count h1 = sn_coap_resending_count h"
        "sn_coap_resending_intervall h1 = sn_coap_resending_intervall h"
        "transmitted h1 = transmitted h @ [(sm_packet s, sm_dst s, sm_param s)]" by (simp_all add: h1 tx_callback_def)
      have inv1: "resend_inv h1"
        using less.prems(1,2) Cons bounds(3) by (auto simp: resend_inv_def resend_config_ok_def h1 tx_callback_def)
      obtain h' where h': "resend_loop env rx now h1 = Some (Some h')" "resend_inv h'"
        "\<forall>s \<in> set (linked_list_resent_msgs h'). now < resending_time s"
        "loop_effect now (sn_coap_resending_count h) (sn_coap_resending_intervall h) (treated @ [?s]) ss h1 h'"
        using less.hyps [OF _ fields(1) inv1] less.prems(3) later Cons unfolding fields(2,3) by auto
      obtain sent front orig kept where e:
        "transmitted h' = transmitted h1 @ map (\<lambda>s. (sm_packet s, sm_dst s, sm_param s)) sent"
        "subseq sent (filter (sent_again now (sn_coap_resending_count h)) ss)"
        "linked_list_resent_msgs h' = front @ kept" "subseq front (treated @ [?s])" "subseq orig ss"
        "list_all2 (rescheduled now (sn_coap_resending_intervall h)) orig kept"
        "subseq (filter (\<lambda>s. resending_time s \<le> now) orig) sent"
        "prefix (filter (sent_again now (sn_coap_resending_count h)) (takeWhile (\<lambda>s. \<not> given_up now (sn_coap_resending_count h) s) ss)) sent"
        using h'(4) unfolding loop_effect_def by blast
      obtain zs where zs: "subseq zs treated" "front = zs \<or> front = zs @ [?s]" using e(4) by (rule subseq_snoc_cases)
      have new: "rescheduled now (sn_coap_resending_intervall h) s ?s"
        using again t(2,3) c by (simp add: rescheduled_def Let_def)
      have due: "resending_time s \<le> now" "sent_again now (sn_coap_resending_count h) s"
        "\<not> given_up now (sn_coap_resending_count h) s"
        using again c by (simp_all add: sent_again_def given_up_def not_less)
      have tx: "transmitted h' = transmitted h @ map (\<lambda>s. (sm_packet s, sm_dst s, sm_param s)) (s # sent)"
        using e(1) fields(4) by simp
      from zs(2) have "loop_effect now (sn_coap_resending_count h) (sn_coap_resending_intervall h) treated rest h h'"
      proof
        assume f: "front = zs"
        have "subseq (filter (\<lambda>s. resending_time s \<le> now) orig) (s # sent)" using e(7) by auto
        with e(2,3,6,8) zs(1) due(2,3) tx f list_emb_Cons [OF e(5), of s] show ?thesis
          unfolding Cons
          by (intro loop_effectI [of _ _ "s # sent" _ _ _ zs kept _ orig]) auto
      next
        assume f: "front = zs @ [?s]"
        with e(2,3,5,6,7,8) zs(1) due tx new show ?thesis
          unfolding Cons
          by (intro loop_effectI [of _ _ "s # sent" _ _ _ zs "?s # kept" _ "s # orig"]) simp_all
      qed
      with h' step show ?thesis by metis
    qed
  qed
qed

text \<open>
  Property C32. The loop of \<open>sn_coap_protocol_exec\<close> with a receive callback that cancels messages when it is told of
  one that has run out of attempts, which is what its search from the start after every message is for. The loop ends. It transmits
  only messages that were due with attempts left, each at most once and in the order of the queue, and all of those in front of the
  first message that is given up, since nothing can be cancelled before. The messages in the queue afterwards were in it before,
  in the same order, unchanged if they were not due and otherwise with one attempt more, a later time, and transmitted. No message
  is due any more: one that was neither transmitted nor given up has been cancelled. With a callback that leaves the queue alone
  the loop is exactly one pass over the queue, with the same transmissions, random draws and reports. In both cases the callback
  does not change the configuration, and the cancelling one does not transmit.
\<close>

theorem resend_loop_with_cancelling_callback:
  assumes "random_ok env" "no_wrap now" "resend_inv h"
  shows "(cancels rx \<longrightarrow> (\<exists>h' sent orig. resend_loop env rx now h = Some (Some h') \<and> resend_inv h' \<and>
      transmitted h' = transmitted h @ map (\<lambda>s. (sm_packet s, sm_dst s, sm_param s)) sent \<and>
      subseq sent (filter (sent_again now (sn_coap_resending_count h)) (linked_list_resent_msgs h)) \<and>
      prefix (filter (sent_again now (sn_coap_resending_count h))
        (takeWhile (\<lambda>s. \<not> given_up now (sn_coap_resending_count h) s) (linked_list_resent_msgs h))) sent \<and>
      subseq orig (linked_list_resent_msgs h) \<and>
      list_all2 (rescheduled now (sn_coap_resending_intervall h)) orig (linked_list_resent_msgs h') \<and>
      subseq (filter (\<lambda>s. resending_time s \<le> now) orig) sent \<and>
      (\<forall>s \<in> set (linked_list_resent_msgs h'). now < resending_time s))) \<and>
    (bystander rx \<longrightarrow> resend_loop env rx now h =
      Some (do { (kept, h') \<leftarrow> resend_pass env rx now (linked_list_resent_msgs h) h;
                 Some (h'\<lparr>linked_list_resent_msgs := kept, count_resent_msgs := length kept\<rparr>) }))"
proof (intro conjI impI)
  assume "cancels rx"
  from resend_loop_cancels [OF this assms(1,2) _ assms(3), of "[]"] obtain h' where h':
    "resend_loop env rx now h = Some (Some h')" "resend_inv h'"
    "\<forall>s \<in> set (linked_list_resent_msgs h'). now < resending_time s"
    "loop_effect now (sn_coap_resending_count h) (sn_coap_resending_intervall h) [] (linked_list_resent_msgs h) h h'"
    by auto
  then obtain sent front orig kept where e:
    "transmitted h' = transmitted h @ map (\<lambda>s. (sm_packet s, sm_dst s, sm_param s)) sent"
    "subseq sent (filter (sent_again now (sn_coap_resending_count h)) (linked_list_resent_msgs h))"
    "linked_list_resent_msgs h' = front @ kept" "subseq front []" "subseq orig (linked_list_resent_msgs h)"
    "list_all2 (rescheduled now (sn_coap_resending_intervall h)) orig kept"
    "subseq (filter (\<lambda>s. resending_time s \<le> now) orig) sent"
    "prefix (filter (sent_again now (sn_coap_resending_count h))
       (takeWhile (\<lambda>s. \<not> given_up now (sn_coap_resending_count h) s) (linked_list_resent_msgs h))) sent"
    unfolding loop_effect_def by blast
  have "front = []" using list_emb_length [OF e(4)] by simp
  with e h'(1,2,3) show "\<exists>h' sent orig. resend_loop env rx now h = Some (Some h') \<and> resend_inv h' \<and>
      transmitted h' = transmitted h @ map (\<lambda>s. (sm_packet s, sm_dst s, sm_param s)) sent \<and>
      subseq sent (filter (sent_again now (sn_coap_resending_count h)) (linked_list_resent_msgs h)) \<and>
      prefix (filter (sent_again now (sn_coap_resending_count h))
        (takeWhile (\<lambda>s. \<not> given_up now (sn_coap_resending_count h) s) (linked_list_resent_msgs h))) sent \<and>
      subseq orig (linked_list_resent_msgs h) \<and>
      list_all2 (rescheduled now (sn_coap_resending_intervall h)) orig (linked_list_resent_msgs h') \<and>
      subseq (filter (\<lambda>s. resending_time s \<le> now) orig) sent \<and>
      (\<forall>s \<in> set (linked_list_resent_msgs h'). now < resending_time s)"
    by (intro exI [of _ h'] exI [of _ sent] exI [of _ orig]) simp
qed (simp only: resend_loop_is_one_pass [OF _ assms])

text \<open>The first message has no attempt left; told so, the callback wipes the queue, and the second one is not sent again.\<close>

definition wiping_callback :: rx_callback where
  "wiping_callback m a p h = with_queue [] h"

lemma wiping_cancels: "cancels (Some wiping_callback)"
  by (simp add: cancels_def wiping_callback_def resend_inv_def resend_config_ok_def with_queue_def)

theorem resend_loop_with_cancelling_callback_witness:
  "(\<exists>h' sent orig. resend_loop example_env (Some wiping_callback) 9 example_queued = Some (Some h') \<and> resend_inv h' \<and>
      transmitted h' = transmitted example_queued @ map (\<lambda>s. (sm_packet s, sm_dst s, sm_param s)) sent \<and>
      subseq sent (filter (sent_again 9 (sn_coap_resending_count example_queued)) (linked_list_resent_msgs example_queued)) \<and>
      prefix (filter (sent_again 9 (sn_coap_resending_count example_queued))
        (takeWhile (\<lambda>s. \<not> given_up 9 (sn_coap_resending_count example_queued) s) (linked_list_resent_msgs example_queued))) sent \<and>
      subseq orig (linked_list_resent_msgs example_queued) \<and>
      list_all2 (rescheduled 9 (sn_coap_resending_intervall example_queued)) orig (linked_list_resent_msgs h') \<and>
      subseq (filter (\<lambda>s. resending_time s \<le> 9) orig) sent \<and>
      (\<forall>s \<in> set (linked_list_resent_msgs h'). 9 < resending_time s)) \<and>
   resend_loop example_env None 9 example_queued =
     Some (do { (kept, h') \<leftarrow> resend_pass example_env None 9 (linked_list_resent_msgs example_queued) example_queued;
                Some (h'\<lparr>linked_list_resent_msgs := kept, count_resent_msgs := length kept\<rparr>) })"
proof -
  have w: "no_wrap 9" by (simp add: no_wrap_def)
  have "bystander None" by (simp add: bystander_def)
  with resend_loop_with_cancelling_callback [OF example_random w example_queued_inv] wiping_cancels
  show ?thesis by simp
qed

end
