(* ===== verification/Coap_Duplicates.thy ===== *)
theory Coap_Duplicates
  imports Coap_Handle
begin

text \<open>
  Detection of duplicated messages (\<open>sn_coap_protocol.c\<close>): the list of the last received messages with
  the packet that answered each of them, and the part of \<open>sn_coap_protocol_parse\<close> that uses it.
  \<open>sn_coap_protocol_duplication_info_free\<close> only releases memory that the removed entry owns.
\<close>

fun find_first :: "('a \<Rightarrow> bool) \<Rightarrow> 'a list \<Rightarrow> nat option" where
  "find_first p [] = None"
| "find_first p (x # xs) = (if p x then Some 0 else map_option Suc (find_first p xs))"

definition sn_coap_protocol_linked_list_duplication_info_store ::
  "coap_env \<Rightarrow> coap_addr \<Rightarrow> nat \<Rightarrow> nat \<Rightarrow> coap_s \<Rightarrow> coap_s" where
  "sn_coap_protocol_linked_list_duplication_info_store env addr msgid param h =
     (let (info_ok, h1) = protocol_malloc env h in
      if \<not> info_ok then h1
      else let (address_ok, h2) = protocol_malloc env h1 in
      if \<not> address_ok then h2
      else let (bytes_ok, h3) = protocol_malloc env h2 in
      if \<not> bytes_ok then h3
      else h3\<lparr>linked_list_duplication_msgs := list_add_to_end (linked_list_duplication_msgs h3)
                \<lparr>di_timestamp = system_time h3, di_msg_id = msgid, di_packet = None,
                 di_address = addr, di_param = param\<rparr>,
              count_duplication_msgs := u16_wrap (count_duplication_msgs h3 + 1)\<rparr>)"

definition sn_coap_protocol_linked_list_duplication_info_search ::
  "coap_addr \<Rightarrow> nat \<Rightarrow> coap_s \<Rightarrow> nat option" where
  "sn_coap_protocol_linked_list_duplication_info_search addr msgid h =
     find_first (\<lambda>d. di_msg_id d = msgid \<and> compare_port addr (di_address d)) (linked_list_duplication_msgs h)"

definition sn_coap_protocol_linked_list_duplication_info_remove_old_ones :: "coap_env \<Rightarrow> coap_s \<Rightarrow> coap_s" where
  "sn_coap_protocol_linked_list_duplication_info_remove_old_ones env h =
     foldl (\<lambda>h d. if system_time h - di_timestamp d > cfg_duplication_max_time env
                  then h\<lparr>linked_list_duplication_msgs := list_remove (linked_list_duplication_msgs h) d,
                         count_duplication_msgs := decrement (count_duplication_msgs h)\<rparr>
                  else h)
       h (linked_list_duplication_msgs h)"

text \<open>The comparison reads as many bytes of the given address as the stored one has.\<close>

definition sn_coap_protocol_linked_list_duplication_info_remove ::
  "bytes \<Rightarrow> nat \<Rightarrow> nat \<Rightarrow> coap_s \<Rightarrow> coap_s option" where
  "sn_coap_protocol_linked_list_duplication_info_remove addr port msgid h =
     do { found \<leftarrow> find_entry
            (\<lambda>d. do { a \<leftarrow> rd_block addr 0 (length (addr_bytes (di_address d)));
                      Some (a = addr_bytes (di_address d) \<and> addr_port (di_address d) = port \<and> di_msg_id d = msgid) })
            (linked_list_duplication_msgs h);
          Some (case found of
                  None \<Rightarrow> h
                | Some i \<Rightarrow> h\<lparr>linked_list_duplication_msgs := remove_entry i (linked_list_duplication_msgs h),
                              count_duplication_msgs := decrement (count_duplication_msgs h)\<rparr>) }"

text \<open>
  The answer is kept with the entry. \<open>data_size\<close> is an \<open>int16_t\<close>; a negative one makes the copy
  as long as the address space.
\<close>

definition sn_coap_protocol_update_duplicate_package_data_all ::
  "coap_env \<Rightarrow> coap_addr \<Rightarrow> coap_hdr \<Rightarrow> int \<Rightarrow> bytes \<Rightarrow> coap_s \<Rightarrow> (bool \<times> coap_s) option" where
  "sn_coap_protocol_update_duplicate_package_data_all env dst msg data_size packet h =
     (case sn_coap_protocol_linked_list_duplication_info_search dst (msg_id msg) h of
        None \<Rightarrow> Some (True, h)
      | Some i \<Rightarrow>
          let info = linked_list_duplication_msgs h ! i in
          if di_packet info \<noteq> None then Some (True, h)
          else
            let (ok, h1) = protocol_malloc env h in
            if \<not> ok then Some (False, h1)
            else do {
              bs \<leftarrow> (if data_size < 0 then None else rd_block packet 0 (nat data_size));
              Some (True, h1\<lparr>linked_list_duplication_msgs :=
                               (linked_list_duplication_msgs h1)[i := info\<lparr>di_packet := Some bs\<rparr>]\<rparr>) })"

definition sn_coap_protocol_update_duplicate_package_data ::
  "coap_env \<Rightarrow> coap_addr \<Rightarrow> coap_hdr \<Rightarrow> int \<Rightarrow> bytes \<Rightarrow> coap_s \<Rightarrow> (bool \<times> coap_s) option" where
  "sn_coap_protocol_update_duplicate_package_data env dst msg data_size packet h =
     (if msg_type msg = COAP_MSG_TYPE_ACKNOWLEDGEMENT \<and> sn_coap_duplication_buffer_size h \<noteq> 0
      then sn_coap_protocol_update_duplicate_package_data_all env dst msg data_size packet h
      else Some (True, h))"

section \<open>The check of parse\<close>

definition checked_for_duplicates :: "coap_hdr \<Rightarrow> coap_s \<Rightarrow> bool" where
  "checked_for_duplicates msg h \<longleftrightarrow>
     (msg_type msg = COAP_MSG_TYPE_CONFIRMABLE \<or> msg_type msg = COAP_MSG_TYPE_NON_CONFIRMABLE \<or>
      msg_type msg = COAP_MSG_TYPE_ACKNOWLEDGEMENT \<and> msg_code msg \<noteq> COAP_MSG_CODE_EMPTY) \<and>
     sn_coap_duplication_buffer_size h \<noteq> 0"

text \<open>True when the message is a duplicate, which ends the treatment. An empty list has no oldest entry.\<close>

definition manage_duplicates :: "coap_env \<Rightarrow> coap_addr \<Rightarrow> coap_hdr \<Rightarrow> nat \<Rightarrow> coap_s \<Rightarrow> (bool \<times> coap_s) option" where
  "manage_duplicates env src msg param h =
     (if \<not> checked_for_duplicates msg h then Some (False, h)
      else case sn_coap_protocol_linked_list_duplication_info_search src (msg_id msg) h of
        None \<Rightarrow>
          do { h1 \<leftarrow> (if count_duplication_msgs h \<ge> sn_coap_duplication_buffer_size h
                      then do { d \<leftarrow> list_first (linked_list_duplication_msgs h);
                                sn_coap_protocol_linked_list_duplication_info_remove
                                  (addr_bytes (di_address d)) (addr_port (di_address d)) (di_msg_id d) h }
                      else Some h);
               Some (False, sn_coap_protocol_linked_list_duplication_info_store env src (msg_id msg) param h1) }
      | Some i \<Rightarrow>
          let response = linked_list_duplication_msgs h ! i in
          Some (True,
            if msg_type msg \<noteq> COAP_MSG_TYPE_ACKNOWLEDGEMENT
            then (case di_packet response of
                    Some p \<Rightarrow> tx_callback p (di_address response) (di_param response) h
                  | None \<Rightarrow> h)
            else h))"

end
