(* ===== verification/Coap_Duplicates_Spec.thy ===== *)
theory Coap_Duplicates_Spec
  imports Coap_Duplicates
begin

text \<open>
  What the detection of duplicates promises. The abstract state is the list of the keys of the last
  messages, a bounded queue; the operations on the list of the handle implement it. The key is the
  message id with the port of the sender: the address is not part of it.
\<close>

type_synonym dup_key = "nat \<times> nat"

definition info_key :: "duplication_info \<Rightarrow> dup_key" where
  "info_key d = (di_msg_id d, addr_port (di_address d))"

definition message_key :: "coap_addr \<Rightarrow> coap_hdr \<Rightarrow> dup_key" where
  "message_key src msg = (msg_id msg, addr_port src)"

definition seen_keys :: "coap_s \<Rightarrow> dup_key list" where
  "seen_keys h = map info_key (linked_list_duplication_msgs h)"

definition remember :: "nat \<Rightarrow> dup_key list \<Rightarrow> dup_key \<Rightarrow> dup_key list" where
  "remember room seen k =
     (if k \<in> set seen then seen else (if length seen < room then seen else tl seen) @ [k])"

definition dup_inv :: "coap_s \<Rightarrow> bool" where
  "dup_inv h \<longleftrightarrow>
     count_duplication_msgs h = length (linked_list_duplication_msgs h) \<and>
     length (linked_list_duplication_msgs h) \<le> 255 \<and> sn_coap_duplication_buffer_size h \<le> 255 \<and>
     distinct (seen_keys h)"

section \<open>The list operations\<close>

lemma find_first_None: "find_first p xs = None \<longleftrightarrow> (\<forall>x \<in> set xs. \<not> p x)"
  by (induction xs) auto

lemma find_first_Some: "find_first p xs = Some i \<Longrightarrow> i < length xs \<and> p (xs ! i)"
  by (induction xs arbitrary: i) (auto split: if_splits)

lemma search_key:
  "sn_coap_protocol_linked_list_duplication_info_search addr msgid h = None \<longleftrightarrow> (msgid, addr_port addr) \<notin> set (seen_keys h)"
  by (auto simp: sn_coap_protocol_linked_list_duplication_info_search_def find_first_None seen_keys_def
      info_key_def compare_port_def)

lemma search_found:
  assumes "sn_coap_protocol_linked_list_duplication_info_search addr msgid h = Some i"
  shows "i < length (linked_list_duplication_msgs h)"
    "info_key (linked_list_duplication_msgs h ! i) = (msgid, addr_port addr)"
  using find_first_Some [OF assms [unfolded sn_coap_protocol_linked_list_duplication_info_search_def]]
  by (auto simp: info_key_def compare_port_def)

text \<open>The oldest entry is the one that the search for its own key finds.\<close>

lemma remove_oldest:
  assumes "linked_list_duplication_msgs h = d # ds"
  shows "sn_coap_protocol_linked_list_duplication_info_remove
      (addr_bytes (di_address d)) (addr_port (di_address d)) (di_msg_id d) h =
    Some (h\<lparr>linked_list_duplication_msgs := ds, count_duplication_msgs := decrement (count_duplication_msgs h)\<rparr>)"
  using assms by (simp add: sn_coap_protocol_linked_list_duplication_info_remove_def rd_block_def remove_entry_def)

lemma info_store_ok:
  "(\<And>n. malloc_ok env n) \<Longrightarrow>
   sn_coap_protocol_linked_list_duplication_info_store env src msgid param h =
     h\<lparr>requests := requests h + 3,
       linked_list_duplication_msgs := linked_list_duplication_msgs h @
         [\<lparr>di_timestamp = system_time h, di_msg_id = msgid, di_packet = None, di_address = src, di_param = param\<rparr>],
       count_duplication_msgs := u16_wrap (count_duplication_msgs h + 1)\<rparr>"
  by (simp add: sn_coap_protocol_linked_list_duplication_info_store_def protocol_malloc_def list_add_to_end_def
      numeral_3_eq_3)

section \<open>One message\<close>

definition duplicate_answer :: "coap_hdr \<Rightarrow> duplication_info list \<Rightarrow> (bytes \<times> coap_addr \<times> nat) list" where
  "duplicate_answer msg ds =
     (if msg_type msg = COAP_MSG_TYPE_ACKNOWLEDGEMENT then []
      else case ds of
        d # _ \<Rightarrow> (case di_packet d of Some p \<Rightarrow> [(p, di_address d, di_param d)] | None \<Rightarrow> [])
      | [] \<Rightarrow> [])"

lemma none_with_key: "k \<notin> f ` set xs \<Longrightarrow> filter (\<lambda>x. f x = k) xs = []"
  by (metis (mono_tags, lifting) filter_False imageI)

lemma only_with_key:
  assumes "distinct (map f xs)" "i < length xs"
  shows "filter (\<lambda>x. f x = f (xs ! i)) xs = [xs ! i]"
proof -
  have "xs = take i xs @ xs ! i # drop (Suc i) xs" using assms(2) by (rule id_take_nth_drop)
  moreover from this have "distinct (map f (take i xs @ xs ! i # drop (Suc i) xs))" using assms(1) by simp
  then have "f (xs ! i) \<notin> f ` set (take i xs)" "f (xs ! i) \<notin> f ` set (drop (Suc i) xs)" by auto
  then have "filter (\<lambda>x. f x = f (xs ! i)) (take i xs) = []" "filter (\<lambda>x. f x = f (xs ! i)) (drop (Suc i) xs) = []"
    by (simp_all add: none_with_key)
  ultimately show ?thesis
    by (metis (mono_tags, lifting) append_Nil filter.simps(2) filter_append)
qed

lemma manage_duplicates_ok:
  assumes inv: "dup_inv h" and c: "checked_for_duplicates msg h" and m: "\<And>n. malloc_ok env n"
  obtains h' where "manage_duplicates env src msg param h = Some (message_key src msg \<in> set (seen_keys h), h')"
    "dup_inv h'" "seen_keys h' = remember (sn_coap_duplication_buffer_size h) (seen_keys h) (message_key src msg)"
    "sn_coap_duplication_buffer_size h' = sn_coap_duplication_buffer_size h"
    "transmitted h' = transmitted h @ duplicate_answer msg
       (filter (\<lambda>d. info_key d = message_key src msg) (linked_list_duplication_msgs h))"
proof -
  let ?ds = "linked_list_duplication_msgs h" and ?k = "message_key src msg"
  have len: "count_duplication_msgs h = length ?ds" "length ?ds \<le> 255" "sn_coap_duplication_buffer_size h \<le> 255"
    "sn_coap_duplication_buffer_size h \<noteq> 0" "distinct (seen_keys h)"
    using inv c by (auto simp: dup_inv_def checked_for_duplicates_def)
  show ?thesis
  proof (cases "sn_coap_protocol_linked_list_duplication_info_search src (msg_id msg) h")
    case None
    then have new: "?k \<notin> set (seen_keys h)" by (simp add: search_key message_key_def)
    then have none: "filter (\<lambda>d. info_key d = ?k) ?ds = []"
      by (intro none_with_key) (simp add: seen_keys_def)
    let ?g = "\<lambda>g. sn_coap_protocol_linked_list_duplication_info_store env src (msg_id msg) param g"
    show ?thesis
    proof (cases "length ?ds < sn_coap_duplication_buffer_size h")
      case True
      have "manage_duplicates env src msg param h = Some (False, ?g h)"
        using c None True len by (simp add: manage_duplicates_def)
      moreover have "dup_inv (?g h)" "seen_keys (?g h) = seen_keys h @ [?k]"
        using len new True
        by (auto simp: info_store_ok [OF m] dup_inv_def seen_keys_def info_key_def message_key_def wrap_simps)
      ultimately show ?thesis
        using that [of "?g h"] new True none
        by (simp add: remember_def info_store_ok [OF m] duplicate_answer_def seen_keys_def)
    next
      case False
      then obtain d ds where ds: "?ds = d # ds" using len by (cases ?ds) auto
      let ?h = "h\<lparr>linked_list_duplication_msgs := ds, count_duplication_msgs := decrement (count_duplication_msgs h)\<rparr>"
      have "manage_duplicates env src msg param h = Some (False, ?g ?h)"
        using c None False len ds by (simp add: manage_duplicates_def list_first_def remove_oldest [OF ds])
      moreover have "decrement (Suc (length ds)) = length ds"
        using len ds by (simp add: decrement_pos)
      then have "dup_inv (?g ?h)" "seen_keys (?g ?h) = tl (seen_keys h) @ [?k]"
        using len new ds
        by (auto simp: info_store_ok [OF m] dup_inv_def seen_keys_def info_key_def message_key_def wrap_simps)
      ultimately show ?thesis
        using that [of "?g ?h"] new False none ds
        by (simp add: remember_def info_store_ok [OF m] duplicate_answer_def seen_keys_def)
    qed
  next
    case (Some i)
    note f = search_found [OF Some]
    have k: "info_key (?ds ! i) = ?k" using f(2) by (simp add: message_key_def)
    have old: "?k \<in> set (seen_keys h)"
      using f(1) nth_mem [OF f(1)] unfolding seen_keys_def k [symmetric] by simp
    have only: "filter (\<lambda>d. info_key d = ?k) ?ds = [?ds ! i]"
      using only_with_key [of info_key ?ds i] len(5) f(1) k by (simp add: seen_keys_def)
    let ?h = "if msg_type msg \<noteq> COAP_MSG_TYPE_ACKNOWLEDGEMENT
      then (case di_packet (?ds ! i) of Some p \<Rightarrow> tx_callback p (di_address (?ds ! i)) (di_param (?ds ! i)) h | None \<Rightarrow> h)
      else h"
    have "manage_duplicates env src msg param h = Some (True, ?h)"
      using c Some by (simp add: manage_duplicates_def Let_def)
    moreover have "dup_inv ?h" "seen_keys ?h = seen_keys h"
      "sn_coap_duplication_buffer_size ?h = sn_coap_duplication_buffer_size h"
      "transmitted ?h = transmitted h @ duplicate_answer msg [?ds ! i]"
      using inv by (auto simp: dup_inv_def seen_keys_def tx_callback_def duplicate_answer_def split: option.split)
    ultimately show ?thesis
      using that [of ?h] old only by (simp add: remember_def)
  qed
qed


section \<open>A sequence of messages\<close>

type_synonym received = "coap_addr \<times> coap_hdr \<times> nat"

definition received_key :: "received \<Rightarrow> dup_key" where
  "received_key r = (case r of (src, msg, param) \<Rightarrow> message_key src msg)"

primrec receive_all :: "coap_env \<Rightarrow> coap_s \<Rightarrow> received list \<Rightarrow> (bool list \<times> coap_s) option" where
  "receive_all env h [] = Some ([], h)"
| "receive_all env h (r # rs) =
     do { (dup, h1) \<leftarrow> (case r of (src, msg, param) \<Rightarrow> manage_duplicates env src msg param h);
          (dups, h2) \<leftarrow> receive_all env h1 rs;
          Some (dup # dups, h2) }"

primrec verdicts :: "nat \<Rightarrow> dup_key list \<Rightarrow> dup_key list \<Rightarrow> bool list" where
  "verdicts room seen [] = []"
| "verdicts room seen (k # ks) = (k \<in> set seen) # verdicts room (remember room seen k) ks"

lemma receive_all_ok:
  assumes "dup_inv h" "\<And>n. malloc_ok env n" "\<forall>(src, msg, param) \<in> set rs. checked_for_duplicates msg h"
  shows "\<exists>h'. receive_all env h rs =
      Some (verdicts (sn_coap_duplication_buffer_size h) (seen_keys h) (map received_key rs), h') \<and>
    seen_keys h' = foldl (remember (sn_coap_duplication_buffer_size h)) (seen_keys h) (map received_key rs) \<and>
    dup_inv h'"
  using assms(1,3)
proof (induction rs arbitrary: h)
  case (Cons r rs)
  obtain src msg param where r: "r = (src, msg, param)" by (cases r)
  with Cons.prems have c: "checked_for_duplicates msg h" by simp
  obtain h1 where h1: "manage_duplicates env src msg param h = Some (message_key src msg \<in> set (seen_keys h), h1)"
    "dup_inv h1" "seen_keys h1 = remember (sn_coap_duplication_buffer_size h) (seen_keys h) (message_key src msg)"
    "sn_coap_duplication_buffer_size h1 = sn_coap_duplication_buffer_size h"
    by (rule manage_duplicates_ok [OF Cons.prems(1) c assms(2), of src param]) blast
  have "\<forall>(src, msg, param) \<in> set rs. checked_for_duplicates msg h1"
    using Cons.prems(2) h1(4) by (auto simp: checked_for_duplicates_def)
  from Cons.IH [OF h1(2) this] h1 r show ?case
    by (auto simp: received_key_def)
qed simp

lemma example_dup_inv: "dup_inv example_handle"
  by (simp add: dup_inv_def seen_keys_def example_handle_def sn_coap_protocol_init_def example_env_def)

lemma example_checked: "checked_for_duplicates (init_message\<lparr>msg_id := n\<rparr>) example_handle"
  by (simp add: checked_for_duplicates_def init_message_def example_handle_def sn_coap_protocol_init_def
      example_env_def)

text \<open>
  The comments of the code name the key that is meant: address, port and message id. A queue of such full keys gives the
  same verdicts as the queue without the addresses as long as the port of a peer determines its address.
\<close>

type_synonym full_key = "nat \<times> nat \<times> bytes"

definition full_info_key :: "duplication_info \<Rightarrow> full_key" where
  "full_info_key d = (di_msg_id d, addr_port (di_address d), addr_bytes (di_address d))"

definition full_received_key :: "received \<Rightarrow> full_key" where
  "full_received_key r = (case r of (src, msg, param) \<Rightarrow> (msg_id msg, addr_port src, addr_bytes src))"

definition without_address :: "full_key \<Rightarrow> dup_key" where
  "without_address k = (case k of (i, p, a) \<Rightarrow> (i, p))"

definition full_keys :: "coap_s \<Rightarrow> full_key list" where
  "full_keys h = map full_info_key (linked_list_duplication_msgs h)"

definition port_determines_address :: "full_key set \<Rightarrow> bool" where
  "port_determines_address ks \<longleftrightarrow> (\<forall>(i, p, a) \<in> ks. \<forall>(j, q, b) \<in> ks. p = q \<longrightarrow> a = b)"

primrec full_verdicts :: "nat \<Rightarrow> full_key list \<Rightarrow> full_key list \<Rightarrow> bool list" where
  "full_verdicts room seen [] = []"
| "full_verdicts room seen (k # ks) =
     (k \<in> set seen) #
     full_verdicts room (if k \<in> set seen then seen else (if length seen < room then seen else tl seen) @ [k]) ks"

lemma keys_without_address:
  "seen_keys h = map without_address (full_keys h)" "map received_key rs = map without_address (map full_received_key rs)"
  by (auto simp: seen_keys_def full_keys_def info_key_def full_info_key_def without_address_def received_key_def
      full_received_key_def message_key_def)

lemma without_address_inj: "port_determines_address ks \<Longrightarrow> inj_on without_address ks"
  by (fastforce simp: port_determines_address_def inj_on_def without_address_def)

lemma verdicts_full:
  "inj_on without_address (set seen \<union> set ks) \<Longrightarrow>
   verdicts room (map without_address seen) (map without_address ks) = full_verdicts room seen ks"
proof (induction ks arbitrary: seen)
  case (Cons k ks)
  let ?seen = "if k \<in> set seen then seen else (if length seen < room then seen else tl seen) @ [k]"
  have same: "without_address k \<in> without_address ` set seen \<longleftrightarrow> k \<in> set seen"
    using Cons.prems by (auto simp: inj_on_def)
  then have "remember room (map without_address seen) (without_address k) = map without_address ?seen"
    by (auto simp: remember_def map_tl)
  moreover have "set ?seen \<union> set ks \<subseteq> set seen \<union> set (k # ks)" by (cases seen) auto
  then have "inj_on without_address (set ?seen \<union> set ks)" using Cons.prems by (rule inj_on_subset [rotated])
  ultimately show ?case using Cons.IH [of ?seen] same by simp
qed simp

text \<open>
  Property C16. Detection of duplicates refines a bounded queue whose keys are the message id and the port of the sender: for every
  sequence of received messages the verdicts are those of the queue, which forgets its oldest key when it is full and keeps a
  repeated key where it is, and the list of the handle holds the keys of the queue. The address of the sender is not part
  of the key, although the comments of the code say so: the verdicts are those of a queue with the address in its keys
  when no two peers with different addresses use the same port, and \<open>duplicate_of_another_peer\<close> below shows what happens
  otherwise. The allocations succeed.
\<close>

theorem duplicates_refine_bounded_queue:
  assumes "dup_inv h" "\<And>n. malloc_ok env n" "\<forall>(src, msg, param) \<in> set rs. checked_for_duplicates msg h"
  shows "\<exists>h'. receive_all env h rs =
      Some (verdicts (sn_coap_duplication_buffer_size h) (seen_keys h) (map received_key rs), h') \<and>
    seen_keys h' = foldl (remember (sn_coap_duplication_buffer_size h)) (seen_keys h) (map received_key rs) \<and>
    dup_inv h' \<and>
    (port_determines_address (set (full_keys h) \<union> set (map full_received_key rs)) \<longrightarrow>
       verdicts (sn_coap_duplication_buffer_size h) (seen_keys h) (map received_key rs) =
       full_verdicts (sn_coap_duplication_buffer_size h) (full_keys h) (map full_received_key rs))"
  using receive_all_ok [OF assms] verdicts_full [OF without_address_inj] unfolding keys_without_address by blast

theorem duplicates_refine_bounded_queue_witness:
  "\<exists>h'. receive_all example_env example_handle [(example_peer, init_message\<lparr>msg_id := 7\<rparr>, 0), (example_peer, init_message\<lparr>msg_id := 7\<rparr>, 0)] =
      Some ([False, True], h')"
proof -
  let ?rs = "[(example_peer, init_message\<lparr>msg_id := 7\<rparr>, 0), (example_peer, init_message\<lparr>msg_id := 7\<rparr>, 0)]"
  have "\<And>n. malloc_ok example_env n" by (simp add: example_env_def)
  moreover have "\<forall>(src, msg, param) \<in> set ?rs. checked_for_duplicates msg example_handle" by (simp add: example_checked)
  moreover have "verdicts (sn_coap_duplication_buffer_size example_handle) (seen_keys example_handle) (map received_key ?rs) = [False, True]"
    by (simp add: seen_keys_def remember_def received_key_def example_handle_def sn_coap_protocol_init_def example_env_def)
  ultimately show ?thesis using duplicates_refine_bounded_queue [OF example_dup_inv, of example_env ?rs] by metis
qed

text \<open>A key stays in the queue while fewer messages than the queue has room for arrive after it.\<close>

lemma remember_keeps:
  assumes "seen = us @ k # vs" "length vs + 1 < room"
  shows "\<exists>us' vs'. remember room seen k' = us' @ k # vs' \<and> length vs' \<le> Suc (length vs)"
proof (cases "k' \<in> set seen \<or> length seen < room")
  case True
  with assms(1) show ?thesis
    by (auto simp: remember_def intro: exI [of _ us] exI [of _ "vs @ [k']"])
next
  case False
  with assms obtain u us1 where "us = u # us1" by (cases us) auto
  with False assms(1) show ?thesis
    by (auto simp: remember_def intro: exI [of _ us1] exI [of _ "vs @ [k']"])
qed

lemma foldl_remember_keeps:
  "seen = us @ k # vs \<Longrightarrow> length vs + length ks < room \<Longrightarrow> k \<in> set (foldl (remember room) seen ks)"
proof (induction ks arbitrary: seen us vs)
  case (Cons k' ks)
  then obtain us' vs' where "remember room seen k' = us' @ k # vs'" "length vs' \<le> Suc (length vs)"
    using remember_keeps [of seen us k vs room k'] by auto
  with Cons show ?case by auto
qed simp

lemma remember_adds: "k \<notin> set seen \<Longrightarrow> \<exists>us. remember room seen k = us @ [k]"
  by (auto simp: remember_def)

lemma length_verdicts [simp]: "length (verdicts room seen ks) = length ks"
  by (induction ks arbitrary: seen) auto

lemma verdicts_append:
  "verdicts room seen (ks @ ls) = verdicts room seen ks @ verdicts room (foldl (remember room) seen ks) ls"
  by (induction ks arbitrary: seen) auto

text \<open>
  A repeated message is recognised: when a message that was new arrives again, with the
  same id and from the same port, after fewer other messages than the buffer has entries, it is reported
  as a duplicate. The allocations succeed and no entry is removed for its age in between.
\<close>

theorem repeated_message_is_recognised:
  assumes "dup_inv h" "\<And>n. malloc_ok env n"
    and "\<forall>(src, msg, param) \<in> set (first # rs @ [again]). checked_for_duplicates msg h"
    and "received_key first \<notin> set (seen_keys h)" "received_key again = received_key first"
    and "length rs < sn_coap_duplication_buffer_size h"
  shows "\<exists>dups h'. receive_all env h (first # rs @ [again]) = Some (dups @ [True], h')"
proof -
  let ?room = "sn_coap_duplication_buffer_size h" and ?k = "received_key first"
  have inv: "dup_inv h" and c: "\<forall>(src, msg, param) \<in> set (first # rs @ [again]). checked_for_duplicates msg h"
    using assms by auto
  obtain us where us: "remember ?room (seen_keys h) ?k = us @ [?k]"
    using remember_adds [OF assms(4)] by blast
  have "?k \<in> set (foldl (remember ?room) (us @ [?k]) (map received_key rs))"
    by (rule foldl_remember_keeps [of _ us _ "[]"]) (simp_all add: assms(6))
  then have "last (verdicts ?room (seen_keys h) (map received_key (first # rs @ [again])))"
    using us by (simp add: verdicts_append assms(5))
  moreover have "verdicts ?room (seen_keys h) (map received_key (first # rs @ [again])) \<noteq> []" by simp
  ultimately have "verdicts ?room (seen_keys h) (map received_key (first # rs @ [again])) =
      butlast (verdicts ?room (seen_keys h) (map received_key (first # rs @ [again]))) @ [True]"
    using append_butlast_last_id by fastforce
  with receive_all_ok [OF inv assms(2) c] show ?thesis by metis
qed

theorem repeated_message_is_recognised_witness:
  "\<exists>dups h'. receive_all example_env example_handle
     ((example_peer, init_message\<lparr>msg_id := 7\<rparr>, 0) # [] @ [(example_peer, init_message\<lparr>msg_id := 7\<rparr>, 0)]) = Some (dups @ [True], h')"
proof (rule repeated_message_is_recognised)
  show "\<And>n. malloc_ok example_env n" by (simp add: example_env_def)
  show "length [] < sn_coap_duplication_buffer_size example_handle"
    by (simp add: example_handle_def sn_coap_protocol_init_def example_env_def)
  show "received_key (example_peer, init_message\<lparr>msg_id := 7\<rparr>, 0) \<notin> set (seen_keys example_handle)"
    by (simp add: seen_keys_def example_handle_def sn_coap_protocol_init_def)
qed (simp_all add: example_dup_inv example_checked)

text \<open>
  The address of the sender is not compared: a confirmable message from any address is taken
  for a duplicate when its id and port are those of a stored message, and the stored answer is sent to
  the address of the stored one.
\<close>

theorem duplicate_of_another_peer:
  assumes "linked_list_duplication_msgs h = ds @ d # es" "\<forall>e \<in> set ds. info_key e \<noteq> info_key d"
    and "di_packet d = Some answer" "message_key src msg = info_key d"
    and "msg_type msg = COAP_MSG_TYPE_CONFIRMABLE" "sn_coap_duplication_buffer_size h \<noteq> 0"
  shows "manage_duplicates env src msg param h = Some (True, tx_callback answer (di_address d) (di_param d) h)"
proof -
  have p: "find_first p (ds @ d # es) = Some (length ds)" if "\<forall>e \<in> set ds. \<not> p e" "p d" for p
    using that by (induction ds) auto
  have "sn_coap_protocol_linked_list_duplication_info_search src (msg_id msg) h = Some (length ds)"
    unfolding sn_coap_protocol_linked_list_duplication_info_search_def assms(1) using assms(2,4)
    by (intro p) (auto simp: info_key_def message_key_def compare_port_def)
  then show ?thesis
    using assms(1,3,5,6) by (simp add: manage_duplicates_def checked_for_duplicates_def)
qed

definition other_peer :: coap_addr where
  "other_peer = \<lparr>addr_bytes = [192, 168, 0, 9], addr_port = 5683\<rparr>"

definition answered_info :: duplication_info where
  "answered_info = \<lparr>di_timestamp = 0, di_msg_id = 7, di_packet = Some [0x60, 0x45, 0, 7],
     di_address = example_peer, di_param = 0\<rparr>"

theorem duplicate_of_another_peer_witness:
  "manage_duplicates example_env other_peer (init_message\<lparr>msg_id := 7\<rparr>) 0
      (example_handle\<lparr>linked_list_duplication_msgs := [answered_info]\<rparr>) =
     Some (True, tx_callback [0x60, 0x45, 0, 7] (di_address answered_info) (di_param answered_info)
       (example_handle\<lparr>linked_list_duplication_msgs := [answered_info]\<rparr>))"
  by (rule duplicate_of_another_peer [of _ "[]" _ "[]"])
    (simp_all add: answered_info_def message_key_def info_key_def other_peer_def example_peer_def
      init_message_def example_handle_def sn_coap_protocol_init_def example_env_def)

end
