(* ===== verification/Coap_Blockwise.thy ===== *)
theory Coap_Blockwise
  imports Coap_Duplicates Coap_Resend
begin

text \<open>
  The two lists of blockwise transfers (\<open>sn_coap_protocol.c\<close>): the messages whose blocks are still to
  be sent, and the payloads that are being received. A stored payload owns a block of memory whose
  length is that of the list \<open>bp_payload\<close>; \<open>bp_payload_len\<close> is the field of the structure. A removed
  entry releases the blocks it owns and nothing else.
\<close>

section \<open>Received payloads\<close>

text \<open>
  The test that the searches share: the address over the length of the given one, the port, and the
  token. The stored address has to be as long as the bytes compared.
\<close>

definition same_transfer :: "coap_addr \<Rightarrow> bytes option \<Rightarrow> nat \<Rightarrow> blockwise_payload \<Rightarrow> bool option" where
  "same_transfer src token len e =
     do { a \<leftarrow> rd_block (bp_addr e) 0 (length (addr_bytes src));
          if a = addr_bytes src \<and> bp_port e = addr_port src then
            (case token of
               Some t \<Rightarrow>
                 (case bp_token e of
                    None \<Rightarrow> Some False
                  | Some u \<Rightarrow>
                      if len \<noteq> bp_token_len e then Some False
                      else do { x \<leftarrow> rd_block u 0 len; y \<leftarrow> rd_block t 0 len; Some (x = y) })
             | None \<Rightarrow> Some (bp_token e = None))
          else Some False }"

definition sn_coap_protocol_linked_list_blockwise_payload_search ::
  "coap_addr \<Rightarrow> bytes option \<Rightarrow> nat \<Rightarrow> coap_s \<Rightarrow> (nat \<times> bytes) option option" where
  "sn_coap_protocol_linked_list_blockwise_payload_search src token len h =
     do { found \<leftarrow> find_entry (same_transfer src token len) (linked_list_blockwise_received_payloads h);
          Some (map_option (\<lambda>i. let e = linked_list_blockwise_received_payloads h ! i in
                  (bp_payload_len e, bp_payload e)) found) }"

definition sn_coap_protocol_linked_list_blockwise_search ::
  "coap_addr \<Rightarrow> bytes option \<Rightarrow> nat \<Rightarrow> coap_s \<Rightarrow> nat option option" where
  "sn_coap_protocol_linked_list_blockwise_search src token len h =
     find_entry (same_transfer src token len) (linked_list_blockwise_received_payloads h)"

definition sn_coap_protocol_linked_list_blockwise_payload_search_compare_block_number ::
  "coap_addr \<Rightarrow> bytes option \<Rightarrow> nat \<Rightarrow> nat \<Rightarrow> coap_s \<Rightarrow> bool option" where
  "sn_coap_protocol_linked_list_blockwise_payload_search_compare_block_number src token len block_number h =
     map_option (\<lambda>found. found \<noteq> None)
       (find_entry (\<lambda>e. do { b \<leftarrow> same_transfer src token len e; Some (b \<and> block_number = bp_block_number e) })
         (linked_list_blockwise_received_payloads h))"

definition sn_coap_protocol_linked_list_blockwise_payload_remove :: "nat \<Rightarrow> coap_s \<Rightarrow> coap_s" where
  "sn_coap_protocol_linked_list_blockwise_payload_remove i h =
     h\<lparr>linked_list_blockwise_received_payloads := remove_entry i (linked_list_blockwise_received_payloads h)\<rparr>"

fun payloads_len_loop ::
  "coap_addr \<Rightarrow> bytes option \<Rightarrow> nat \<Rightarrow> blockwise_payload list \<Rightarrow> nat \<Rightarrow> nat option" where
  "payloads_len_loop src token len [] n = Some n"
| "payloads_len_loop src token len (e # es) n =
     do { b \<leftarrow> same_transfer src token len e;
          payloads_len_loop src token len es (if b then u32_wrap (n + bp_payload_len e) else n) }"

definition sn_coap_protocol_linked_list_blockwise_payloads_get_len ::
  "coap_addr \<Rightarrow> bytes option \<Rightarrow> nat \<Rightarrow> coap_s \<Rightarrow> nat option" where
  "sn_coap_protocol_linked_list_blockwise_payloads_get_len src token len h =
     payloads_len_loop src token len (linked_list_blockwise_received_payloads h) 0"

section \<open>Storing a received block\<close>

definition set_payload :: "nat \<Rightarrow> blockwise_payload \<Rightarrow> coap_s \<Rightarrow> coap_s" where
  "set_payload i e h =
     h\<lparr>linked_list_blockwise_received_payloads := (linked_list_blockwise_received_payloads h)[i := e]\<rparr>"

definition stamped :: "nat \<Rightarrow> coap_s \<Rightarrow> blockwise_payload \<Rightarrow> blockwise_payload" where
  "stamped block_number h e = e\<lparr>bp_block_number := block_number, bp_timestamp := system_time h\<rparr>"

text \<open>The transfer announced its size: the block is copied to its place.\<close>

definition store_in_place ::
  "nat \<Rightarrow> nat \<Rightarrow> bytes \<Rightarrow> nat \<Rightarrow> nat \<Rightarrow> coap_s \<Rightarrow> coap_s option" where
  "store_in_place i plen data block_number block_size h =
     (let e = linked_list_blockwise_received_payloads h ! i in
      do { bs \<leftarrow> rd_block data 0 plen;
           buf \<leftarrow> write_at (bp_payload e) (u32_wrap (block_number * block_size)) bs;
           Some (set_payload i (stamped block_number h (e\<lparr>bp_payload := buf\<rparr>)) h) })"

text \<open>Otherwise the payload so far moves through a copy into a larger block.\<close>

definition store_appended ::
  "coap_env \<Rightarrow> nat \<Rightarrow> nat \<Rightarrow> bytes \<Rightarrow> nat \<Rightarrow> coap_s \<Rightarrow> coap_s option" where
  "store_appended env i plen data block_number h =
     (let e = linked_list_blockwise_received_payloads h ! i;
          new_len = u16_wrap (bp_payload_len e + plen);
          (temp_ok, h1) = protocol_malloc env h in
      if \<not> temp_ok then Some (sn_coap_protocol_linked_list_blockwise_payload_remove i h1)
      else do {
        temp \<leftarrow> rd_block (bp_payload e) 0 (bp_payload_len e);
        let (new_ok, h2) = protocol_malloc env h1 in
        if \<not> new_ok then Some (sn_coap_protocol_linked_list_blockwise_payload_remove i h2)
        else do {
          buf1 \<leftarrow> write_at (junk_block env new_len) 0 temp;
          bs \<leftarrow> rd_block data 0 plen;
          buf2 \<leftarrow> write_at buf1 (bp_payload_len e) bs;
          Some (set_payload i (stamped block_number h2 (e\<lparr>bp_payload := buf2, bp_payload_len := new_len\<rparr>)) h2) } })"

text \<open>The memory for the first block; the inner None is a failed allocation. \<open>malloc\<close> takes 16 bits.\<close>

definition first_payload ::
  "coap_env \<Rightarrow> nat \<Rightarrow> bytes \<Rightarrow> nat \<Rightarrow> coap_s \<Rightarrow> ((nat \<times> bytes) option \<times> coap_s) option" where
  "first_payload env plen data size_opt h =
     (if size_opt \<noteq> 0 then
        (let (ok, h1) = protocol_malloc env h in
         if \<not> ok then Some (None, h1)
         else do { bs \<leftarrow> rd_block data 0 plen;
                   buf \<leftarrow> write_at (junk_block env (u16_wrap size_opt)) 0 bs;
                   Some (Some (u16_wrap size_opt, buf), h1) })
      else do { (copy, h1) \<leftarrow> malloc_copy env (Some data) plen h;
                Some (map_option (Pair plen) copy, h1) })"

definition store_first ::
  "coap_env \<Rightarrow> coap_addr \<Rightarrow> nat \<Rightarrow> bytes \<Rightarrow> bytes option \<Rightarrow> nat \<Rightarrow> nat \<Rightarrow> nat \<Rightarrow> coap_s \<Rightarrow> coap_s option" where
  "store_first env src plen data token tlen block_number size_opt h =
     (let (ok, h1) = protocol_malloc env h in
      if \<not> ok then Some h1
      else do {
        (payload, h2) \<leftarrow> first_payload env plen data size_opt h1;
        case payload of
          None \<Rightarrow> Some h2
        | Some (n, buf) \<Rightarrow>
            do { (addr, h3) \<leftarrow> malloc_copy env (Some (addr_bytes src)) (length (addr_bytes src)) h2;
                 case addr of
                   None \<Rightarrow> Some h3
                 | Some a \<Rightarrow>
                     do { (tok, h4) \<leftarrow> (if token \<noteq> None \<and> tlen \<noteq> 0
                                         then malloc_copy env token tlen h3 else Some (None, h3));
                          if token \<noteq> None \<and> tlen \<noteq> 0 \<and> tok = None then Some h4
                          else Some (h4\<lparr>linked_list_blockwise_received_payloads :=
                            list_add_to_end (linked_list_blockwise_received_payloads h4)
                              \<lparr>bp_timestamp = system_time h4, bp_addr = a, bp_port = addr_port src,
                               bp_block_number = block_number, bp_token = tok,
                               bp_token_len = (if token \<noteq> None \<and> tlen \<noteq> 0 then tlen else 0),
                               bp_payload_len = n, bp_payload = buf, bp_use_size1 = (size_opt \<noteq> 0)\<rparr>\<rparr>) } } })"

definition sn_coap_protocol_linked_list_blockwise_payload_store ::
  "coap_env \<Rightarrow> coap_addr \<Rightarrow> nat \<Rightarrow> bytes option \<Rightarrow> bytes option \<Rightarrow> nat \<Rightarrow> nat \<Rightarrow> nat \<Rightarrow> nat \<Rightarrow> coap_s \<Rightarrow> coap_s option" where
  "sn_coap_protocol_linked_list_blockwise_payload_store env src plen payload token tlen
       block_number block_size size_opt h =
     (if plen = 0 \<or> payload = None then Some h
      else do {
        dup \<leftarrow> sn_coap_protocol_linked_list_blockwise_payload_search_compare_block_number
                 src token tlen block_number h;
        if dup then Some h
        else do {
          found \<leftarrow> sn_coap_protocol_linked_list_blockwise_search src token tlen h;
          case found of
            Some i \<Rightarrow>
              if bp_use_size1 (linked_list_blockwise_received_payloads h ! i)
              then store_in_place i plen (the payload) block_number block_size h
              else store_appended env i plen (the payload) block_number h
          | None \<Rightarrow> store_first env src plen (the payload) token tlen block_number size_opt h } })"

definition sn_coap_protocol_block_remove :: "coap_addr \<Rightarrow> nat \<Rightarrow> bytes option \<Rightarrow> coap_s \<Rightarrow> coap_s option" where
  "sn_coap_protocol_block_remove src payload_length payload h =
     (case payload of
        None \<Rightarrow> Some h
      | Some data \<Rightarrow>
          do { found \<leftarrow> find_entry
                 (\<lambda>e. do { a \<leftarrow> rd_block (bp_addr e) 0 (length (addr_bytes src));
                           if a \<noteq> addr_bytes src \<or> bp_port e \<noteq> addr_port src \<or> payload_length \<noteq> bp_payload_len e
                           then Some False
                           else do { x \<leftarrow> rd_block (bp_payload e) 0 (bp_payload_len e);
                                     y \<leftarrow> rd_block data 0 (bp_payload_len e); Some (x = y) } })
                 (linked_list_blockwise_received_payloads h);
               Some (case found of
                       None \<Rightarrow> h
                     | Some i \<Rightarrow> sn_coap_protocol_linked_list_blockwise_payload_remove i h) })"

end
