(* ===== verification/Coap_Blockwise_Sent.thy ===== *)
theory Coap_Blockwise_Sent
  imports Coap_Blockwise
begin

text \<open>
  The messages whose blocks are still to be sent (\<open>sn_coap_protocol.c\<close>): their copies in the handle,
  the searches, the preparation of the first block and the time limit of both blockwise lists.
\<close>

section \<open>Copying a message\<close>

text \<open>
  A step that may fail to allocate: the inner None is the failure, on which the C function releases what
  it has built and returns NULL.
\<close>

type_synonym 'a attempt = "coap_s \<Rightarrow> ('a option \<times> coap_s) option"

definition attempt_then :: "'a attempt \<Rightarrow> ('a \<Rightarrow> 'b attempt) \<Rightarrow> 'b attempt" where
  "attempt_then m f h =
     do { (r, h1) \<leftarrow> m h;
          case r of None \<Rightarrow> Some (None, h1) | Some a \<Rightarrow> f a h1 }"

text \<open>A field whose source pointer is NULL stays as the initialisation has left it.\<close>

definition copy_field ::
  "coap_env \<Rightarrow> bytes option \<Rightarrow> nat \<Rightarrow> (bytes option \<Rightarrow> nat \<Rightarrow> coap_hdr \<Rightarrow> coap_hdr) \<Rightarrow> coap_hdr \<Rightarrow> coap_hdr attempt" where
  "copy_field env ptr len set_field m h =
     (case ptr of
        None \<Rightarrow> Some (Some m, h)
      | Some _ \<Rightarrow>
          do { (copy, h1) \<leftarrow> malloc_copy env ptr len h;
               Some (case copy of None \<Rightarrow> None | Some bs \<Rightarrow> Some (set_field (Some bs) len m), h1) })"

definition copy_option ::
  "coap_env \<Rightarrow> bytes option \<Rightarrow> nat \<Rightarrow> (bytes option \<Rightarrow> nat \<Rightarrow> coap_options \<Rightarrow> coap_options) \<Rightarrow> coap_hdr \<Rightarrow> coap_hdr attempt" where
  "copy_option env ptr len set_field = copy_field env ptr len (\<lambda>p n. upd_options (set_field p n))"

definition new_message :: "coap_env \<Rightarrow> coap_hdr attempt" where
  "new_message env h =
     (case alloc_message (malloc_ok env) (requests h) of (m, n) \<Rightarrow> Some (m, h\<lparr>requests := n\<rparr>))"

definition new_options :: "coap_env \<Rightarrow> coap_hdr \<Rightarrow> coap_hdr attempt" where
  "new_options env m h =
     (case alloc_options (malloc_ok env) (requests h) m of
        (ok, m', n) \<Rightarrow> Some (if ok then Some m' else None, h\<lparr>requests := n\<rparr>))"

definition copy_options :: "coap_env \<Rightarrow> coap_options \<Rightarrow> coap_hdr \<Rightarrow> coap_hdr attempt" where
  "copy_options env src m =
     attempt_then (new_options env m) (\<lambda>m.
     attempt_then (copy_option env (proxy_uri_ptr src) (proxy_uri_len src)
       (\<lambda>p n opts. opts\<lparr>proxy_uri_ptr := p, proxy_uri_len := n\<rparr>)
       (upd_options (\<lambda>opts. opts\<lparr>max_age := max_age src\<rparr>) m)) (\<lambda>m.
     attempt_then (copy_option env (etag_ptr src) (etag_len src)
       (\<lambda>p n opts. opts\<lparr>etag_ptr := p, etag_len := n\<rparr>) m) (\<lambda>m.
     attempt_then (copy_option env (uri_host_ptr src) (uri_host_len src)
       (\<lambda>p n opts. opts\<lparr>uri_host_ptr := p, uri_host_len := n\<rparr>) m) (\<lambda>m.
     attempt_then (copy_option env (location_path_ptr src) (location_path_len src)
       (\<lambda>p n opts. opts\<lparr>location_path_ptr := p, location_path_len := n\<rparr>) m) (\<lambda>m.
     attempt_then (copy_option env (location_query_ptr src) (location_query_len src)
       (\<lambda>p n opts. opts\<lparr>location_query_ptr := p, location_query_len := n\<rparr>)
       (upd_options (\<lambda>opts. opts\<lparr>uri_port := uri_port src\<rparr>) m)) (\<lambda>m.
     attempt_then (copy_option env (uri_query_ptr src) (uri_query_len src)
       (\<lambda>p n opts. opts\<lparr>uri_query_ptr := p, uri_query_len := n\<rparr>)
       (upd_options (\<lambda>opts. opts\<lparr>observe := observe src, accept := accept src\<rparr>) m)) (\<lambda>m h.
     Some (Some (upd_options (\<lambda>opts. opts\<lparr>block1 := block1 src, block2 := block2 src\<rparr>) m), h))))))))"

definition sn_coap_protocol_copy_header :: "coap_env \<Rightarrow> coap_hdr \<Rightarrow> coap_hdr attempt" where
  "sn_coap_protocol_copy_header env src =
     attempt_then (new_message env) (\<lambda>m.
     attempt_then (copy_field env (uri_path_ptr src) (uri_path_len src)
       (\<lambda>p n m. m\<lparr>uri_path_ptr := p, uri_path_len := n\<rparr>)
       (m\<lparr>coap_status := coap_status src, msg_type := msg_type src, msg_code := msg_code src, msg_id := msg_id src\<rparr>)) (\<lambda>m.
     attempt_then (copy_field env (token_ptr src) (token_len src)
       (\<lambda>p n m. m\<lparr>token_ptr := p, token_len := n\<rparr>) m) (\<lambda>m h.
     let m1 = m\<lparr>content_format := content_format src\<rparr> in
     case options_list_ptr src of
       None \<Rightarrow> Some (Some m1, h)
     | Some opts \<Rightarrow> copy_options env opts m1 h)))"

section \<open>Messages being sent\<close>

definition add_sent :: "blockwise_msg \<Rightarrow> coap_s \<Rightarrow> coap_s" where
  "add_sent b h = h\<lparr>linked_list_blockwise_sent_msgs := list_add_to_end (linked_list_blockwise_sent_msgs h) b\<rparr>"

definition store_blockwise_copy ::
  "coap_env \<Rightarrow> coap_hdr \<Rightarrow> nat \<Rightarrow> nat \<Rightarrow> bool \<Rightarrow> coap_s \<Rightarrow> (int \<times> coap_s) option" where
  "store_blockwise_copy env src param original_payload_len copy_payload h =
     (let (ok, h1) = protocol_malloc env h in
      if \<not> ok then Some (-2, h1)
      else do {
        (copy, h2) \<leftarrow> sn_coap_protocol_copy_header env src h1;
        case copy of
          None \<Rightarrow> Some (-2, h2)
        | Some m \<Rightarrow>
            let entry = (\<lambda>m. \<lparr>bm_timestamp = system_time h, bm_coap_msg = Some m, bm_param = param, bm_msg_id = msg_id m\<rparr>) in
            if copy_payload then
              do { (p, h3) \<leftarrow> malloc_copy env (payload_ptr src) original_payload_len h2;
                   Some (case p of
                           None \<Rightarrow> (-2, h3)
                         | Some bs \<Rightarrow>
                             (0, add_sent (entry (m\<lparr>payload_len := original_payload_len, payload_ptr := Some bs\<rparr>)) h3)) }
            else Some (0, add_sent (entry m) h2) })"

definition search_sent_blockwise_message :: "nat \<Rightarrow> coap_s \<Rightarrow> nat option" where
  "search_sent_blockwise_message msgid h =
     find_first (\<lambda>b. case bm_coap_msg b of None \<Rightarrow> False | Some m \<Rightarrow> msg_id m = msgid)
       (linked_list_blockwise_sent_msgs h)"

definition sn_coap_protocol_linked_list_blockwise_msg_remove :: "nat \<Rightarrow> coap_s \<Rightarrow> coap_s" where
  "sn_coap_protocol_linked_list_blockwise_msg_remove i h =
     h\<lparr>linked_list_blockwise_sent_msgs := remove_entry i (linked_list_blockwise_sent_msgs h)\<rparr>"

definition sn_coap_protocol_remove_sent_blockwise_message :: "nat \<Rightarrow> coap_s \<Rightarrow> coap_s" where
  "sn_coap_protocol_remove_sent_blockwise_message msgid h =
     (case search_sent_blockwise_message msgid h of
        None \<Rightarrow> h
      | Some i \<Rightarrow> sn_coap_protocol_linked_list_blockwise_msg_remove i h)"

definition sn_coap_protocol_clear_sent_blockwise_messages :: "coap_s \<Rightarrow> coap_s" where
  "sn_coap_protocol_clear_sent_blockwise_messages h =
     foldl (\<lambda>h _. sn_coap_protocol_linked_list_blockwise_msg_remove 0 h) h (linked_list_blockwise_sent_msgs h)"

definition sn_coap_protocol_clear_received_blockwise_messages :: "coap_s \<Rightarrow> coap_s" where
  "sn_coap_protocol_clear_received_blockwise_messages h =
     foldl (\<lambda>h _. sn_coap_protocol_linked_list_blockwise_payload_remove 0 h) h
       (linked_list_blockwise_received_payloads h)"

text \<open>\<open>memcmp\<close> of two pointers that may be NULL; a length of 0 reads nothing.\<close>

definition memcmp_equal :: "bytes option \<Rightarrow> bytes option \<Rightarrow> nat \<Rightarrow> bool option" where
  "memcmp_equal a b len =
     (if len = 0 then Some True
      else do { x \<leftarrow> a; y \<leftarrow> b; x1 \<leftarrow> rd_block x 0 len; y1 \<leftarrow> rd_block y 0 len; Some (x1 = y1) })"

text \<open>An entry without message is read through its NULL pointer.\<close>

definition sn_coap_stored_blockwise_msg_get :: "coap_hdr \<Rightarrow> coap_s \<Rightarrow> nat option option" where
  "sn_coap_stored_blockwise_msg_get received h =
     do { found \<leftarrow> find_entry
            (\<lambda>b. do { m \<leftarrow> bm_coap_msg b;
                      if token_ptr received = None \<and> token_ptr m = None then Some True
                      else if token_len received = token_len m
                      then memcmp_equal (token_ptr received) (token_ptr m) (token_len received)
                      else Some False })
            (linked_list_blockwise_sent_msgs h);
          Some (case found of
                  Some i \<Rightarrow> Some i
                | None \<Rightarrow> if linked_list_blockwise_sent_msgs h = [] then None else Some 0) }"

section \<open>The first block\<close>

definition sn_coap_convert_block_size :: "nat \<Rightarrow> nat" where
  "sn_coap_convert_block_size block_size =
     (if block_size = 16 then 0 else if block_size = 32 then 1 else if block_size = 64 then 2
      else if block_size = 128 then 3 else if block_size = 256 then 4 else if block_size = 512 then 5
      else if block_size = 1024 then 6 else 0)"

definition needs_blocks :: "coap_env \<Rightarrow> nat \<Rightarrow> coap_s \<Rightarrow> bool" where
  "needs_blocks env len h \<longleftrightarrow>
     len > cfg_max_nonblockwise_payload env \<and> len > sn_coap_block_data_size h \<and> sn_coap_block_data_size h > 0"

definition prepare_blockwise_message :: "coap_env \<Rightarrow> coap_hdr \<Rightarrow> coap_s \<Rightarrow> (int \<times> coap_hdr \<times> coap_s) option" where
  "prepare_blockwise_message env m h =
     (if \<not> needs_blocks env (payload_len m) h then Some (0, m, h)
      else do {
        (r, h1) \<leftarrow> new_options env m h;
        Some (case r of
                None \<Rightarrow> (-2, m, h1)
              | Some m1 \<Rightarrow>
                  let block = int (8 + sn_coap_convert_block_size (sn_coap_block_data_size h1)) in
                  (0, upd_options (\<lambda>opts.
                      if msg_code m < 65
                      then opts\<lparr>block1 := block, use_size1 := True, use_size2 := False, size1 := payload_len m\<rparr>
                      else opts\<lparr>block2 := block, use_size1 := False, use_size2 := True, size2 := payload_len m\<rparr>) m1, h1)) })"

section \<open>Time limits\<close>

definition expired :: "coap_env \<Rightarrow> coap_s \<Rightarrow> 32 word \<Rightarrow> bool" where
  "expired env h t \<longleftrightarrow> system_time h - t > cfg_blockwise_max_time env"

text \<open>
  One expired message leaves the list; the receive callback is told when there is one. The code goes on
  after the entry or starts again from the head; the entries before it are not expired either way.
\<close>

definition drop_expired_msg :: "coap_env \<Rightarrow> rx_callback option \<Rightarrow> nat \<Rightarrow> coap_s \<Rightarrow> coap_s option" where
  "drop_expired_msg env rx i h =
     (let b = linked_list_blockwise_sent_msgs h ! i;
          h1 = sn_coap_protocol_linked_list_blockwise_msg_remove i h in
      case (bm_coap_msg b, rx) of
        (Some m, Some callback) \<Rightarrow>
          do { (_, h2) \<leftarrow> sn_coap_protocol_delete_retransmission (bm_msg_id b) h1;
               Some (callback (m\<lparr>coap_status := COAP_STATUS_BUILDER_BLOCK_SENDING_FAILED, msg_id := bm_msg_id b\<rparr>)
                       None (bm_param b) h2) }
      | _ \<Rightarrow> Some h1)"

partial_function (option) drop_expired_msgs ::
  "coap_env \<Rightarrow> rx_callback option \<Rightarrow> coap_s \<Rightarrow> coap_s option option" where
  "drop_expired_msgs env rx h =
     (case find_first (\<lambda>b. expired env h (bm_timestamp b)) (linked_list_blockwise_sent_msgs h) of
        None \<Rightarrow> Some (Some h)
      | Some i \<Rightarrow>
          (case drop_expired_msg env rx i h of
             None \<Rightarrow> Some None
           | Some h' \<Rightarrow> drop_expired_msgs env rx h'))"

definition drop_expired_payloads :: "coap_env \<Rightarrow> coap_s \<Rightarrow> coap_s" where
  "drop_expired_payloads env h =
     foldl (\<lambda>h e. if expired env h (bp_timestamp e)
                  then h\<lparr>linked_list_blockwise_received_payloads :=
                           list_remove (linked_list_blockwise_received_payloads h) e\<rparr> else h)
       h (linked_list_blockwise_received_payloads h)"

definition sn_coap_protocol_handle_blockwise_timout ::
  "coap_env \<Rightarrow> rx_callback option \<Rightarrow> coap_s \<Rightarrow> coap_s option option" where
  "sn_coap_protocol_handle_blockwise_timout env rx h =
     map_option (map_option (drop_expired_payloads env)) (drop_expired_msgs env rx h)"

end
