(* ===== verification/Coap_Protocol_Blocks.thy ===== *)
theory Coap_Protocol_Blocks
  imports Coap_Blockwise_Sent
begin

text \<open>
  \<open>sn_coap_handle_blockwise_message\<close> of \<open>sn_coap_protocol.c\<close>, by its four cases: the next block of a
  request (Block1 in a response), the reception of a request in blocks (Block1 in a request), the
  reception of a response in blocks (Block2 in a response) and the next block of a response (Block2 in a
  request). The inner result None is the NULL that the function returns; the caller then releases the
  received message. A result None is also used where the code leaves a pointer to released memory in
  the handle.
\<close>

abbreviation (input) COAP_MSG_CODE_REQUEST_POST :: nat where "COAP_MSG_CODE_REQUEST_POST \<equiv> 2"
abbreviation (input) COAP_MSG_CODE_REQUEST_PUT :: nat where "COAP_MSG_CODE_REQUEST_PUT \<equiv> 3"
abbreviation (input) COAP_MSG_CODE_REQUEST_DELETE :: nat where "COAP_MSG_CODE_REQUEST_DELETE \<equiv> 4"
abbreviation (input) COAP_MSG_CODE_RESPONSE_DELETED :: nat where "COAP_MSG_CODE_RESPONSE_DELETED \<equiv> 66"
abbreviation (input) COAP_MSG_CODE_RESPONSE_CONTENT :: nat where "COAP_MSG_CODE_RESPONSE_CONTENT \<equiv> 69"
abbreviation (input) COAP_MSG_CODE_RESPONSE_CONTINUE :: nat where "COAP_MSG_CODE_RESPONSE_CONTINUE \<equiv> 95"
abbreviation (input) COAP_MSG_CODE_RESPONSE_REQUEST_ENTITY_INCOMPLETE :: nat where
  "COAP_MSG_CODE_RESPONSE_REQUEST_ENTITY_INCOMPLETE \<equiv> 136"
abbreviation (input) COAP_MSG_CODE_RESPONSE_REQUEST_ENTITY_TOO_LARGE :: nat where
  "COAP_MSG_CODE_RESPONSE_REQUEST_ENTITY_TOO_LARGE \<equiv> 141"

section \<open>The block option\<close>

text \<open>
  The fields of the \<open>int32_t\<close> option: \<open>>> 4\<close>, \<open>& 0x08\<close> and \<open>& 0x07\<close> are arithmetic, also for the value
  -1 of an absent option.
\<close>

definition block_number_of :: "int \<Rightarrow> nat" where
  "block_number_of b = nat (b div 16 mod 4294967296)"

definition more_blocks :: "int \<Rightarrow> bool" where
  "more_blocks b \<longleftrightarrow> odd (b div 8)"

definition size_exponent :: "int \<Rightarrow> nat" where
  "size_exponent b = nat (b mod 8)"

definition block_size_of :: "int \<Rightarrow> nat" where
  "block_size_of b = 2 ^ (size_exponent b + 4)"

text \<open>\<open>(block_number << 4) | block_temp\<close> in 32 bits, stored in an \<open>int32_t\<close>.\<close>

definition block_option :: "nat \<Rightarrow> nat \<Rightarrow> int" where
  "block_option n t =
     (let v = u32_wrap (16 * n) + t in if v < 2147483648 then int v else int v - 4294967296)"

definition set_more :: "int \<Rightarrow> int" where
  "set_more b = (if more_blocks b then b else b + 8)"

text \<open>A pointer moved on by an offset; NULL moved by more than 0 points to nothing that can be read.\<close>

definition advance :: "nat \<Rightarrow> bytes option \<Rightarrow> bytes option" where
  "advance k ptr = (case ptr of None \<Rightarrow> if k = 0 then None else Some [] | Some bs \<Rightarrow> Some (drop k bs))"

text \<open>The length of the rest of a payload behind k bytes, in 32 bits and stored in 16.\<close>

definition rest_len :: "nat \<Rightarrow> nat \<Rightarrow> nat" where
  "rest_len len k = nat ((int len - int k) mod 65536)"

section \<open>Building into a block of memory\<close>

definition needed_size :: "coap_env \<Rightarrow> coap_hdr \<Rightarrow> coap_s \<Rightarrow> nat option" where
  "needed_size env m h =
     calc_needed_packet_data_size_2 True (cfg_max_nonblockwise_payload env) m (sn_coap_block_data_size h)"

text \<open>
  \<open>sn_coap_builder_2\<close> into a buffer: it clears the size it computes and writes the packet. Leaving the
  buffer is None.
\<close>

definition build_into :: "coap_env \<Rightarrow> coap_hdr \<Rightarrow> bytes \<Rightarrow> coap_s \<Rightarrow> (int \<times> bytes) option" where
  "build_into env m buf h =
     do { needed \<leftarrow> needed_size env m h;
          if needed = 0 then Some (-1, buf)
          else do { cleared \<leftarrow> write_at buf 0 (replicate needed 0);
                    (r, packet) \<leftarrow> sn_coap_builder_2 True (cfg_max_nonblockwise_payload env) [] m (sn_coap_block_data_size h);
                    buf' \<leftarrow> write_at cleared 0 packet;
                    Some (r, buf') } }"

text \<open>The first retransmission of a packet that was just sent; a full queue is not reported.\<close>

definition schedule_resend :: "coap_env \<Rightarrow> coap_addr \<Rightarrow> bytes \<Rightarrow> bool \<Rightarrow> nat \<Rightarrow> coap_s \<Rightarrow> coap_s option" where
  "schedule_resend env dst packet store param h =
     do { (t, h1) \<leftarrow> sn_coap_calculate_new_resend_time env (system_time h) (sn_coap_resending_intervall h) 0 h;
          if store
          then map_option snd
                 (sn_coap_protocol_linked_list_send_msg_store env dst (length packet) packet t param h1)
          else Some h1 }"

definition set_sent :: "nat \<Rightarrow> blockwise_msg \<Rightarrow> coap_s \<Rightarrow> coap_s" where
  "set_sent i b h = h\<lparr>linked_list_blockwise_sent_msgs := (linked_list_blockwise_sent_msgs h)[i := b]\<rparr>"

definition with_status :: "coap_status \<Rightarrow> coap_hdr \<Rightarrow> coap_hdr" where
  "with_status st m = m\<lparr>coap_status := st\<rparr>"

definition block1_of :: "coap_hdr \<Rightarrow> int" where
  "block1_of m = (case options_list_ptr m of None \<Rightarrow> COAP_OPTION_BLOCK_NONE | Some opts \<Rightarrow> block1 opts)"

definition block2_of :: "coap_hdr \<Rightarrow> int" where
  "block2_of m = (case options_list_ptr m of None \<Rightarrow> COAP_OPTION_BLOCK_NONE | Some opts \<Rightarrow> block2 opts)"

definition size1_of :: "coap_hdr \<Rightarrow> nat" where
  "size1_of m = (case options_list_ptr m of None \<Rightarrow> 0 | Some opts \<Rightarrow> size1 opts)"

text \<open>The options of the stored message before its next block: no Block1, or new options.\<close>

definition renew_options :: "coap_env \<Rightarrow> coap_hdr \<Rightarrow> coap_hdr attempt" where
  "renew_options env m h =
     (case options_list_ptr m of
        Some _ \<Rightarrow> Some (Some (upd_options (\<lambda>opts. opts\<lparr>block1 := COAP_OPTION_BLOCK_NONE\<rparr>) m), h)
      | None \<Rightarrow> new_options env m h)"

section \<open>Block1 in a response: send the next block\<close>

definition block1_slice :: "coap_hdr \<Rightarrow> nat \<Rightarrow> nat \<Rightarrow> coap_hdr \<Rightarrow> coap_hdr" where
  "block1_slice stored n t m =
     (let size = 2 ^ (t + 4); off = u32_wrap (size * n);
          m1 = upd_options (\<lambda>opts. opts\<lparr>block1 := block_option n t\<rparr>) m in
      if u32_wrap (size * (n + 1)) > payload_len stored
      then m1\<lparr>payload_len := rest_len (payload_len stored) off, payload_ptr := advance off (payload_ptr stored)\<rparr>
      else (upd_options (\<lambda>opts. opts\<lparr>block1 := set_more (block1 opts)\<rparr>) m1)
             \<lparr>payload_len := size, payload_ptr := advance off (payload_ptr stored)\<rparr>)"

definition send_next_block1 ::
  "coap_env \<Rightarrow> coap_addr \<Rightarrow> coap_hdr \<Rightarrow> nat \<Rightarrow> coap_s \<Rightarrow> (coap_hdr option \<times> coap_s) option" where
  "send_next_block1 env src received param h =
     (if \<not> more_blocks (block1_of received) then Some (Some (with_status COAP_STATUS_OK received), h)
      else case search_sent_blockwise_message (msg_id received) h of
        None \<Rightarrow> Some (Some received, h)
      | Some i \<Rightarrow>
          let b = linked_list_blockwise_sent_msgs h ! i in
          do { stored \<leftarrow> bm_coap_msg b;
               (renewed, h1) \<leftarrow> renew_options env stored h;
               case renewed of
                 None \<Rightarrow> Some (None, h1)
               | Some m0 \<Rightarrow>
                   let m1 = block1_slice stored (u32_wrap (block_number_of (block1_of received) + 1))
                              (size_exponent (block1_of received)) m0 in
                   do { needed \<leftarrow> needed_size env m1 h1;
                        let (ok, h2) = protocol_malloc env h1 in
                        if \<not> ok then Some (None, set_sent i (b\<lparr>bm_coap_msg := None\<rparr>) h2)
                        else
                          let (new_id, h3) = get_new_message_id env h2; m2 = m1\<lparr>msg_id := new_id\<rparr> in
                          do { (_, packet) \<leftarrow> build_into env m2 (junk_block env needed) h3;
                               h4 \<leftarrow> schedule_resend env src packet (msg_type m2 = COAP_MSG_TYPE_CONFIRMABLE) param
                                      (tx_callback packet src param h3);
                               let m3 = m2\<lparr>payload_len := payload_len stored, payload_ptr := payload_ptr stored\<rparr>;
                                   h5 = set_sent i (b\<lparr>bm_coap_msg := Some m3\<rparr>) h4 in
                               Some (Some (with_status COAP_STATUS_PARSER_BLOCKWISE_ACK received),
                                     if \<not> more_blocks (block1_of m3)
                                     then sn_coap_protocol_remove_sent_blockwise_message (msg_id m3) h5 else h5) } } })"

section \<open>Block1 in a request: receive a block\<close>

text \<open>
  All blocks are there: the payload goes to the received message. The copy has the length of all
  matching entries, in the 16 bits of the allocation.
\<close>

definition sn_coap_handle_last_blockwise ::
  "coap_env \<Rightarrow> coap_addr \<Rightarrow> coap_hdr \<Rightarrow> coap_s \<Rightarrow> (coap_hdr option \<times> coap_s) option" where
  "sn_coap_handle_last_blockwise env src received h =
     do { whole \<leftarrow> sn_coap_protocol_linked_list_blockwise_payloads_get_len src (token_ptr received) (token_len received) h;
          found \<leftarrow> sn_coap_protocol_linked_list_blockwise_payload_search src (token_ptr received) (token_len received) h;
          if whole = 0 then Some (None, h)
          else do { (copy, h1) \<leftarrow> malloc_copy env (map_option snd found) (u16_wrap whole) h;
                    Some (case copy of
                            None \<Rightarrow> (None, h1)
                          | Some bs \<Rightarrow>
                              (Some (received\<lparr>payload_ptr := Some bs, payload_len := u16_wrap whole,
                                              coap_status := COAP_STATUS_PARSER_BLOCKWISE_MSG_RECEIVED\<rparr>), h1)) } }"

definition block_ack_code :: "bool \<Rightarrow> nat \<Rightarrow> nat" where
  "block_ack_code in_order code =
     (if \<not> in_order then COAP_MSG_CODE_RESPONSE_REQUEST_ENTITY_INCOMPLETE
      else if code = COAP_MSG_CODE_REQUEST_GET then COAP_MSG_CODE_RESPONSE_CONTENT
      else if code = COAP_MSG_CODE_REQUEST_POST then COAP_MSG_CODE_RESPONSE_CONTINUE
      else if code = COAP_MSG_CODE_REQUEST_PUT then COAP_MSG_CODE_RESPONSE_CONTINUE
      else if code = COAP_MSG_CODE_REQUEST_DELETE then COAP_MSG_CODE_RESPONSE_DELETED
      else COAP_MSG_CODE_EMPTY)"

text \<open>\<open>block1 &= 0xFFFFF8\<close> and the exponent of the own block size.\<close>

definition clip_block_size :: "int \<Rightarrow> nat \<Rightarrow> int" where
  "clip_block_size b t = (b AND 0xFFFFF8) OR int t"

definition block_ack :: "coap_env \<Rightarrow> bool \<Rightarrow> coap_hdr \<Rightarrow> coap_s \<Rightarrow> coap_hdr \<Rightarrow> coap_hdr" where
  "block_ack env in_order received h m =
     (let m1 = m\<lparr>msg_code := block_ack_code in_order (msg_code received)\<rparr>;
          block = block1_of received; own = sn_coap_convert_block_size (sn_coap_block_data_size h);
          m2 = (if size1_of received > cfg_max_incoming_block_message env
                then m1\<lparr>msg_code := COAP_MSG_CODE_RESPONSE_REQUEST_ENTITY_TOO_LARGE\<rparr>
                else
                  let m3 = (upd_options (\<lambda>opts. opts\<lparr>block1 := block\<rparr>) m1)\<lparr>msg_type := COAP_MSG_TYPE_ACKNOWLEDGEMENT\<rparr>;
                      m4 = (if block_size_of block > sn_coap_block_data_size h
                            then (upd_options (\<lambda>opts. opts\<lparr>size1 := sn_coap_block_data_size h\<rparr>) m3)
                                   \<lparr>msg_code := COAP_MSG_CODE_RESPONSE_REQUEST_ENTITY_TOO_LARGE\<rparr>
                            else m3) in
                  if size_exponent block > own
                  then upd_options (\<lambda>opts. opts\<lparr>block1 := clip_block_size (block1 opts) own\<rparr>) m4 else m4) in
      m2\<lparr>msg_id := msg_id received\<rparr>)"

definition store_received_block ::
  "coap_env \<Rightarrow> coap_addr \<Rightarrow> coap_hdr \<Rightarrow> int \<Rightarrow> coap_s \<Rightarrow> coap_s option" where
  "store_received_block env src received block h =
     sn_coap_protocol_linked_list_blockwise_payload_store env src (payload_len received) (payload_ptr received)
       (token_ptr received) (token_len received) (block_number_of block) (block_size_of (block1_of received))
       (size1_of received) h"

definition new_message_with_options :: "coap_env \<Rightarrow> coap_hdr attempt" where
  "new_message_with_options env h =
     (case alloc_message_with_options (malloc_ok env) (requests h) of (m, n) \<Rightarrow> Some (m, h\<lparr>requests := n\<rparr>))"

text \<open>A block that is not the last one is answered.\<close>

definition answer_block1 ::
  "coap_env \<Rightarrow> coap_addr \<Rightarrow> bool \<Rightarrow> coap_hdr \<Rightarrow> nat \<Rightarrow> coap_s \<Rightarrow> (coap_hdr option \<times> coap_s) option" where
  "answer_block1 env src in_order received param h =
     do { (new, h1) \<leftarrow> new_message_with_options env h;
          case new of
            None \<Rightarrow> Some (None, h1)
          | Some m0 \<Rightarrow>
              do { (token, h2) \<leftarrow> malloc_copy env (token_ptr received) (token_len received) h1;
                   let m1 = (block_ack env in_order received h1 m0)
                              \<lparr>token_ptr := token, token_len := (if token = None then 0 else token_len received)\<rparr> in
                   do { needed \<leftarrow> needed_size env m1 h2;
                        let (ok, h3) = protocol_malloc env h2 in
                        if \<not> ok then Some (None, h3)
                        else do {
                          (_, packet) \<leftarrow> build_into env m1 (junk_block env needed) h3;
                          (updated, h4) \<leftarrow> sn_coap_protocol_update_duplicate_package_data env src m1 (s16_of needed) packet h3;
                          if \<not> updated then Some (None, h4)
                          else do {
                            h5 \<leftarrow> (if msg_code m1 \<noteq> COAP_MSG_CODE_RESPONSE_REQUEST_ENTITY_INCOMPLETE \<and>
                                       msg_code m1 \<noteq> COAP_MSG_CODE_RESPONSE_REQUEST_ENTITY_TOO_LARGE
                                    then store_received_block env src received (block1_of received) h4 else Some h4);
                            Some (Some (with_status COAP_STATUS_PARSER_BLOCKWISE_MSG_RECEIVING received),
                                  tx_callback packet src param h5) } } } } }"

definition receive_block1 ::
  "coap_env \<Rightarrow> coap_addr \<Rightarrow> coap_hdr \<Rightarrow> nat \<Rightarrow> coap_s \<Rightarrow> (coap_hdr option \<times> coap_s) option" where
  "receive_block1 env src received0 param h =
     (let received = (if payload_len received0 > sn_coap_block_data_size h
                      then received0\<lparr>payload_len := sn_coap_block_data_size h\<rparr> else received0);
          block = block1_of received; n = block_number_of block in
      do { before \<leftarrow> (if n > 0
                       then sn_coap_protocol_linked_list_blockwise_payload_search_compare_block_number src
                              (token_ptr received) (token_len received) (n - 1) h
                       else Some True);
           if more_blocks block then answer_block1 env src before received param h
           else do { h1 \<leftarrow> store_received_block env src received block h;
                     sn_coap_handle_last_blockwise env src received h1 } })"

section \<open>Block2 in a response: ask for the next block\<close>

text \<open>The request for the next block; the length of the token is that of the received one.\<close>

definition block2_request ::
  "coap_env \<Rightarrow> coap_hdr \<Rightarrow> coap_hdr \<Rightarrow> coap_hdr attempt" where
  "block2_request env received previous =
     attempt_then (new_message_with_options env) (\<lambda>m h.
       let (new_id, h1) = get_new_message_id env h;
           m1 = (upd_options (\<lambda>opts. opts\<lparr>block2 :=
                   block_option (u32_wrap (block_number_of (block2_of received) + 1)) (size_exponent (block2_of received))\<rparr>) m)
                  \<lparr>msg_id := new_id, msg_code := msg_code previous\<rparr> in
       attempt_then (copy_field env (uri_path_ptr previous) (uri_path_len previous)
           (\<lambda>p n m. m\<lparr>uri_path_ptr := p, uri_path_len := n\<rparr>) m1)
         (copy_field env (token_ptr previous) (token_len previous)
           (\<lambda>p n m. m\<lparr>token_ptr := p, token_len := token_len received\<rparr>)) h1)"

definition receive_block2 ::
  "coap_env \<Rightarrow> coap_addr \<Rightarrow> coap_hdr \<Rightarrow> nat \<Rightarrow> coap_s \<Rightarrow> (coap_hdr option \<times> coap_s) option" where
  "receive_block2 env src received param h0 =
     (if \<not> sn_coap_internal_block2_resp_handling h0 then Some (Some received, h0)
      else do {
        h \<leftarrow> store_received_block env src received (block2_of received) h0;
        if \<not> more_blocks (block2_of received) then sn_coap_handle_last_blockwise env src received h
        else case search_sent_blockwise_message (msg_id received) h of
          None \<Rightarrow> Some (None, h)
        | Some i \<Rightarrow>
            do { previous \<leftarrow> bm_coap_msg (linked_list_blockwise_sent_msgs h ! i);
                 (request, h1) \<leftarrow> block2_request env received previous h;
                 case request of
                   None \<Rightarrow> Some (None, h1)
                 | Some m \<Rightarrow>
                     let h2 = sn_coap_protocol_linked_list_blockwise_msg_remove i h1 in
                     do { needed \<leftarrow> needed_size env m h2;
                          let (ok, h3) = protocol_malloc env h2 in
                          if \<not> ok then Some (None, h3)
                          else do {
                            (r, packet) \<leftarrow> build_into env m (replicate needed 0) h3;
                            let (entry_ok, h4) = protocol_malloc env h3 in
                            if r < 0 then Some (None, h3)
                            else if \<not> entry_ok then Some (None, h4)
                            else do {
                              h5 \<leftarrow> schedule_resend env src packet True param
                                 (tx_callback packet src param
                                   (add_sent \<lparr>bm_timestamp = system_time h4, bm_coap_msg = Some m, bm_param = param,
                                              bm_msg_id = msg_id m\<rparr> h4));
                              Some (Some (with_status COAP_STATUS_PARSER_BLOCKWISE_MSG_RECEIVING received), h5) } } } } })"

section \<open>Block2 in a request: serve a block\<close>

definition block2_slice :: "coap_hdr \<Rightarrow> int \<Rightarrow> coap_hdr \<Rightarrow> coap_hdr" where
  "block2_slice stored block m =
     (let size = block_size_of block; n = block_number_of block; off = u32_wrap (size * n);
          m1 = upd_options (\<lambda>opts. opts\<lparr>block2 := block\<rparr>) m in
      if u32_wrap (size * (n + 1)) \<ge> payload_len stored
      then m1\<lparr>payload_len := rest_len (payload_len stored) off, payload_ptr := advance off (payload_ptr stored)\<rparr>
      else (upd_options (\<lambda>opts. opts\<lparr>block2 := set_more (block2 opts)\<rparr>) m1)
             \<lparr>payload_len := size, payload_ptr := advance off (payload_ptr stored)\<rparr>)"

text \<open>A notification takes the token of the request; its old token is released first.\<close>

definition renew_token :: "coap_env \<Rightarrow> coap_hdr \<Rightarrow> coap_hdr \<Rightarrow> coap_s \<Rightarrow> (coap_hdr \<times> coap_s) option" where
  "renew_token env received m h =
     (if (case options_list_ptr m of None \<Rightarrow> False | Some opts \<Rightarrow> observe opts \<noteq> COAP_OBSERVE_NONE) \<and> token_ptr m \<noteq> None
      then if token_len received \<noteq> 0
           then do { (t, h1) \<leftarrow> malloc_copy env (token_ptr received) (token_len received) h;
                     Some (m\<lparr>token_ptr := t, token_len := (if t = None then token_len m else token_len received)\<rparr>, h1) }
           else Some (m\<lparr>token_ptr := None, token_len := 0\<rparr>, h)
      else Some (m, h))"

text \<open>
  The end of the last block: the receive callback may change the handle, and the entry is used after it.
  When the entry is no longer at its place the result is None.
\<close>

definition finish_serving :: "rx_callback option \<Rightarrow> nat \<Rightarrow> blockwise_msg \<Rightarrow> coap_hdr \<Rightarrow> coap_s \<Rightarrow> coap_s option" where
  "finish_serving rx i b m h =
     (case rx of
        None \<Rightarrow> Some (sn_coap_protocol_linked_list_blockwise_msg_remove i h)
      | Some callback \<Rightarrow>
          let m1 = m\<lparr>coap_status := COAP_STATUS_BUILDER_BLOCK_SENDING_DONE, msg_id := bm_msg_id b\<rparr>;
              b1 = b\<lparr>bm_coap_msg := Some m1\<rparr>;
              h1 = callback m1 None (bm_param b) (set_sent i b1 h);
              sent = linked_list_blockwise_sent_msgs h1 in
          if i < length sent \<and> sent ! i = b1
          then Some (sn_coap_protocol_linked_list_blockwise_msg_remove i h1) else None)"

definition serve_block2 ::
  "coap_env \<Rightarrow> rx_callback option \<Rightarrow> coap_addr \<Rightarrow> coap_hdr \<Rightarrow> nat \<Rightarrow> coap_s \<Rightarrow> (coap_hdr option \<times> coap_s) option" where
  "serve_block2 env rx src received param h =
     do { found \<leftarrow> sn_coap_stored_blockwise_msg_get received h;
          case found of
            None \<Rightarrow> Some (Some received, h)
          | Some i \<Rightarrow>
              let b = linked_list_blockwise_sent_msgs h ! i; block = block2_of received in
              do { stored \<leftarrow> bm_coap_msg b;
                   (renewed, h1) \<leftarrow> renew_options env stored h;
                   case renewed of
                     None \<Rightarrow> Some (None, h1)
                   | Some m0 \<Rightarrow>
                       do { (m1, h2) \<leftarrow> renew_token env received
                              (block2_slice stored block (m0\<lparr>msg_id := msg_id received\<rparr>)) h1;
                            needed \<leftarrow> needed_size env m1 h2;
                            let (ok, h3) = protocol_malloc env h2 in
                            if \<not> ok then Some (None, set_sent i (b\<lparr>bm_coap_msg := None\<rparr>) h3)
                            else do {
                              (_, packet) \<leftarrow> build_into env m1 (junk_block env needed) h3;
                              (updated, h4) \<leftarrow> sn_coap_protocol_update_duplicate_package_data_all env src m1
                                 (s16_of needed) packet h3;
                              if \<not> updated then None
                              else
                                let m2 = m1\<lparr>payload_len := payload_len stored, payload_ptr := payload_ptr stored\<rparr>;
                                    b1 = b\<lparr>bm_coap_msg := Some m2\<rparr>;
                                    h5 = set_sent i b1 (tx_callback packet src param h4) in
                                do { h6 \<leftarrow> (if u32_wrap (block_size_of block * (block_number_of block + 1)) \<ge> payload_len stored
                                            then finish_serving rx i b1 m2 h5 else Some h5);
                                     Some (Some (with_status COAP_STATUS_PARSER_BLOCKWISE_ACK received), h6) } } } } }"

section \<open>The handler\<close>

definition sn_coap_handle_blockwise_message ::
  "coap_env \<Rightarrow> rx_callback option \<Rightarrow> coap_addr \<Rightarrow> coap_hdr \<Rightarrow> nat \<Rightarrow> coap_s \<Rightarrow> (coap_hdr option \<times> coap_s) option" where
  "sn_coap_handle_blockwise_message env rx src received param h =
     (if block1_of received \<noteq> COAP_OPTION_BLOCK_NONE then
        if msg_code received > COAP_MSG_CODE_REQUEST_DELETE
        then send_next_block1 env src received param h
        else receive_block1 env src received param h
      else if msg_code received > COAP_MSG_CODE_REQUEST_DELETE
        then receive_block2 env src received param h
        else serve_block2 env rx src received param h)"

end
