(* ===== verification/Coap_Protocol.thy ===== *)
theory Coap_Protocol
  imports Coap_Protocol_Blocks
begin

text \<open>
  The entry points of the CoAP protocol layer (\<open>sn_coap_protocol.c\<close>): building a message, parsing a
  received packet, the periodic execution and the destruction of the handle. The pointer arguments that
  the code compares with NULL are not NULL.
\<close>

section \<open>Build\<close>

text \<open>
  The result is the returned \<open>int16_t\<close> or status, the message and the destination buffer after the
  call, and the handle. The cut of the payload to the block size stays in the message of the caller.
\<close>

definition identified_message :: "coap_env \<Rightarrow> coap_hdr \<Rightarrow> coap_s \<Rightarrow> coap_hdr \<times> coap_s" where
  "identified_message env m h =
     (if msg_type m \<noteq> COAP_MSG_TYPE_ACKNOWLEDGEMENT \<and> msg_type m \<noteq> COAP_MSG_TYPE_RESET \<and> msg_id m = 0
      then (case get_new_message_id env h of (i, h1) \<Rightarrow> (m\<lparr>msg_id := i\<rparr>, h1)) else (m, h))"

text \<open>The part after the packet: the queue of retransmissions and the answer for duplicates.\<close>

definition keep_for_resending ::
  "coap_env \<Rightarrow> coap_addr \<Rightarrow> coap_hdr \<Rightarrow> int \<Rightarrow> bytes \<Rightarrow> nat \<Rightarrow> coap_s \<Rightarrow> (bool \<times> coap_s) option" where
  "keep_for_resending env dst m count buf param h =
     do { (stored, h1) \<leftarrow>
            (if msg_type m = COAP_MSG_TYPE_CONFIRMABLE then
               do { (t, h') \<leftarrow> sn_coap_calculate_new_resend_time env (system_time h) (sn_coap_resending_intervall h) 0 h;
                    sn_coap_protocol_linked_list_send_msg_store env dst (nat count) buf t param h' }
             else Some (1, h));
          if stored = 0 then Some (False, h1)
          else sn_coap_protocol_update_duplicate_package_data env dst m count buf h1 }"

definition sn_coap_protocol_build ::
  "coap_env \<Rightarrow> coap_addr \<Rightarrow> bytes \<Rightarrow> coap_hdr \<Rightarrow> nat \<Rightarrow> coap_s \<Rightarrow> (int \<times> coap_hdr \<times> bytes \<times> coap_s) option" where
  "sn_coap_protocol_build env dst dst_buf src param h =
     (let (m0, h1) = identified_message env src h;
          cut = needs_blocks env (payload_len m0) h1;
          original_payload_len = (if cut then payload_len m0 else 0);
          m1 = (if cut then m0\<lparr>payload_len := sn_coap_block_data_size h1\<rparr> else m0) in
      do { (count, buf) \<leftarrow> build_into env m1 dst_buf h1;
           if count < 0 then Some (count, m1, buf, h1)
           else do {
             (kept, h2) \<leftarrow> keep_for_resending env dst m1 count buf param h1;
             if \<not> kept then Some (-4, m1, buf, h2)
             else do {
               (status, h3) \<leftarrow>
                 (if original_payload_len > sn_coap_block_data_size h2 \<and> sn_coap_block_data_size h2 > 0
                  then store_blockwise_copy env m1 param original_payload_len True h2
                  else if msg_code m1 \<le> COAP_MSG_CODE_REQUEST_DELETE \<and> msg_code m1 \<noteq> COAP_MSG_CODE_EMPTY
                  then store_blockwise_copy env m1 param original_payload_len False h2
                  else Some (0, h2));
               Some (if status < 0 then status else count, m1, buf, h3) } } })"

section \<open>Parse\<close>

text \<open>A payload that is too large without blocks is answered with the own block size.\<close>

definition request_blocks ::
  "coap_env \<Rightarrow> coap_addr \<Rightarrow> coap_hdr \<Rightarrow> nat \<Rightarrow> coap_s \<Rightarrow> (coap_hdr option \<times> coap_s) option" where
  "request_blocks env src received param h =
     do { (resp, n1) \<leftarrow> sn_coap_build_response (malloc_ok env) (requests h) received
                          COAP_MSG_CODE_RESPONSE_REQUEST_ENTITY_TOO_LARGE;
          case resp of
            None \<Rightarrow> Some (None, h\<lparr>requests := n1\<rparr>)
          | Some m0 \<Rightarrow>
              do { (with_options, h2) \<leftarrow> new_options env m0 (h\<lparr>requests := n1\<rparr>);
                   case with_options of
                     None \<Rightarrow> Some (None, h2)
                   | Some m1 \<Rightarrow>
                       let m2 = upd_options (\<lambda>opts. opts\<lparr>block1 :=
                             (block1 opts AND 8) OR int (sn_coap_convert_block_size (sn_coap_block_data_size h2))\<rparr>) m1 in
                       do { needed \<leftarrow> needed_size env m2 h2;
                            let (ok, h3) = protocol_malloc env h2 in
                            if \<not> ok then Some (None, h3)
                            else do {
                              (r, packet) \<leftarrow> build_into env m2 (junk_block env needed) h3;
                              if r < 0 then Some (None, h3)
                              else do {
                                (updated, h4) \<leftarrow> sn_coap_protocol_update_duplicate_package_data env src m2
                                   (s16_of needed) packet h3;
                                Some (if \<not> updated then (None, h4)
                                      else (Some (with_status COAP_STATUS_PARSER_BLOCKWISE_MSG_RECEIVING received),
                                            tx_callback packet src param h4)) } } } } }"

text \<open>A response ends the transfer of its request, unless that observes a resource.\<close>

definition forget_answered_request :: "coap_hdr \<Rightarrow> coap_s \<Rightarrow> coap_s" where
  "forget_answered_request received h =
     (case search_sent_blockwise_message (msg_id received) h of
        None \<Rightarrow> h
      | Some i \<Rightarrow>
          if (case bm_coap_msg (linked_list_blockwise_sent_msgs h ! i) of
                None \<Rightarrow> False
              | Some m \<Rightarrow> (case options_list_ptr m of None \<Rightarrow> False | Some opts \<Rightarrow> observe opts \<noteq> COAP_OBSERVE_NONE))
          then h else sn_coap_protocol_linked_list_blockwise_msg_remove i h)"

definition stop_resending :: "coap_addr \<Rightarrow> coap_hdr \<Rightarrow> coap_s \<Rightarrow> coap_s option" where
  "stop_resending src received h =
     (if (msg_type received = COAP_MSG_TYPE_ACKNOWLEDGEMENT \<or> msg_type received = COAP_MSG_TYPE_RESET)
         \<and> count_resent_msgs h > 0
      then sn_coap_protocol_linked_list_send_msg_remove src (msg_id received) h else Some h)"

definition has_block_option :: "coap_hdr \<Rightarrow> bool" where
  "has_block_option m \<longleftrightarrow> block1_of m \<noteq> COAP_OPTION_BLOCK_NONE \<or> block2_of m \<noteq> COAP_OPTION_BLOCK_NONE"

text \<open>A valid message that is no duplicate.\<close>

definition process_message ::
  "coap_env \<Rightarrow> rx_callback option \<Rightarrow> coap_addr \<Rightarrow> coap_hdr \<Rightarrow> nat \<Rightarrow> coap_s \<Rightarrow> (coap_hdr option \<times> coap_s) option" where
  "process_message env rx src m param h =
     (if has_block_option m then
        do { (r, h1) \<leftarrow> sn_coap_handle_blockwise_message env rx src m param h;
             case r of
               None \<Rightarrow> Some (None, h1)
             | Some m1 \<Rightarrow> do { h2 \<leftarrow> stop_resending src m1 h1; Some (Some m1, h2) } }
      else if payload_len m > sn_coap_block_data_size h then request_blocks env src m param h
      else do { h2 \<leftarrow> stop_resending src m
                       (if msg_code m \<noteq> COAP_MSG_CODE_EMPTY then forget_answered_request m h else h);
                Some (Some m, h2) })"

definition sn_coap_protocol_parse ::
  "coap_env \<Rightarrow> rx_callback option \<Rightarrow> coap_addr \<Rightarrow> nat \<Rightarrow> bytes \<Rightarrow> nat \<Rightarrow> coap_s \<Rightarrow> (coap_hdr option \<times> coap_s) option" where
  "sn_coap_protocol_parse env rx src len packet param h =
     do { (r, version, n) \<leftarrow> sn_coap_parser (malloc_ok env) (requests h) len (Some packet);
          let h1 = h\<lparr>requests := n\<rparr> in
          case r of
            None \<Rightarrow> Some (None, h1)
          | Some m \<Rightarrow>
              if coap_status m = COAP_STATUS_PARSER_ERROR_IN_HEADER
              then Some (None, sn_coap_protocol_send_rst (msg_id m) src param h1)
              else if sn_coap_header_validity_check m (the version) \<noteq> 0
              then Some (None, if msg_code m div 32 \<in> {1, 6, 7}
                               then sn_coap_protocol_send_rst (msg_id m) src param h1 else h1)
              else if msg_type m = COAP_MSG_TYPE_CONFIRMABLE \<and> msg_code m = COAP_MSG_CODE_EMPTY
              then Some (None, sn_coap_protocol_send_rst (msg_id m) src param h1)
              else do { (dup, h2) \<leftarrow> manage_duplicates env src m param h1;
                        if dup then Some (Some (with_status COAP_STATUS_PARSER_DUPLICATED_MSG m), h2)
                        else process_message env rx src m param h2 } }"

section \<open>Execute and destroy\<close>

text \<open>The outer None is an execution that does not end, the inner one a fault.\<close>

definition sn_coap_protocol_exec ::
  "coap_env \<Rightarrow> rx_callback option \<Rightarrow> 32 word \<Rightarrow> coap_s \<Rightarrow> coap_s option option" where
  "sn_coap_protocol_exec env rx current_time h =
     do { r \<leftarrow> sn_coap_protocol_handle_blockwise_timout env rx (h\<lparr>system_time := current_time\<rparr>);
          case r of
            None \<Rightarrow> Some None
          | Some h1 \<Rightarrow>
              resend_loop env rx current_time
                (sn_coap_protocol_linked_list_duplication_info_remove_old_ones env h1) }"

text \<open>The handle before its own memory is released.\<close>

definition sn_coap_protocol_destroy :: "coap_s \<Rightarrow> int \<times> coap_s" where
  "sn_coap_protocol_destroy h =
     (0, sn_coap_protocol_clear_received_blockwise_messages
          (sn_coap_protocol_clear_sent_blockwise_messages
            ((sn_coap_protocol_clear_retransmission_buffer h)\<lparr>linked_list_duplication_msgs := []\<rparr>)))"

end
