(* ===== verification/Coap_Receive_Blocks.thy ===== *)
theory Coap_Receive_Blocks
  imports Coap_Roundtrip Coap_Protocol
begin

text \<open>
  The receiver of a blockwise request. First, building into an allocated block: for a well-formed message the announced
  size is the length of its packet, and the builder fills a block of that size with exactly the packet. Then the store of the
  received payloads, which extends the entry of one transfer among others, and the acknowledgement of each block.
\<close>

definition fits_block :: "coap_env \<Rightarrow> coap_hdr \<Rightarrow> coap_s \<Rightarrow> bool" where
  "fits_block env m h \<longleftrightarrow>
     payload_len m \<le> sn_coap_block_data_size h \<or> payload_len m \<le> cfg_max_nonblockwise_payload env \<or>
     sn_coap_block_data_size h = 0"

lemma needed_size_wire:
  assumes ok: "message_ok m" and len: "length (coap_wire m) \<le> 32767" and fits: "fits_block env m h"
  shows "needed_size env m h = Some (length (coap_wire m))"
proof -
  have len': "length (coap_wire m) \<le> 65535" using len by simp
  obtain needed where n: "calc_needed_packet_data_size_2 True (cfg_max_nonblockwise_payload env) m
      (sn_coap_block_data_size h) = Some needed"
    using calc_message_ok [OF ok len', of True "cfg_max_nonblockwise_payload env" "sn_coap_block_data_size h"] by auto
  note b = builder_wire [OF ok len', of True "cfg_max_nonblockwise_payload env" "[]" "sn_coap_block_data_size h"]
  have tok: "token_ptr m = None \<longrightarrow> token_len m = 0" "payload_ptr m \<noteq> None \<or> payload_len m = 0"
    using ok by (auto simp: message_ok_def exact_def split: option.splits)
  have proxy: "\<forall>opts. options_list_ptr m = Some opts \<longrightarrow> proxy_uri_ptr opts = None \<or> proxy_uri_len opts \<noteq> 269"
    using ok by (auto simp: message_ok_def options_ok_def)
  have "length (coap_wire m) = needed"
    using builder_size [OF n b tok(1) proxy] fits tok(2) len by (auto simp: fits_block_def wrap_simps)
  with n show ?thesis by (simp add: needed_size_def)
qed

lemma length_wire: "4 \<le> length (coap_wire m)"
  by (simp add: coap_wire_def)

lemma build_into_wire:
  assumes ok: "message_ok m" and len: "length (coap_wire m) \<le> 32767" and fits: "fits_block env m h"
    and buf: "length (coap_wire m) \<le> length buf"
  shows "build_into env m buf h =
    Some (int (length (coap_wire m)), coap_wire m @ drop (length (coap_wire m)) buf)"
proof -
  have "length (coap_wire m) \<noteq> 0" using length_wire [of m] by auto
  then show ?thesis
    using needed_size_wire [OF ok len fits] builder_wire [OF ok, of True _ "[]"] buf len
    by (simp add: build_into_def write_at_def wrap_simps)
qed

lemma build_into_needed:
  assumes "message_ok m" "length (coap_wire m) \<le> 32767" "fits_block env m h" "length buf = length (coap_wire m)"
  shows "build_into env m buf h = Some (int (length (coap_wire m)), coap_wire m)"
  using build_into_wire [OF assms(1-3), of buf] assms(4) by simp

text \<open>
  The payload of a transfer grows in order: storing the blocks 0, 1, ... of one sender one after the
  other leaves an entry that holds their concatenation, appended block by block or copied to its place
  when the size was announced.
\<close>

section \<open>One entry among others\<close>

lemma find_entry_skip:
  "\<forall>x \<in> set xs. p x = Some False \<Longrightarrow> find_entry p (xs @ ys) = map_option (map_option ((+) (length xs))) (find_entry p ys)"
  by (cases "find_entry p ys"; cases "the (find_entry p ys)"; induction xs) auto

definition strangers :: "coap_addr \<Rightarrow> bytes \<Rightarrow> blockwise_payload list \<Rightarrow> bool" where
  "strangers src token es \<longleftrightarrow> (\<forall>e \<in> set es. same_transfer src (Some token) (length token) e = Some False)"

definition own_entry :: "coap_addr \<Rightarrow> bytes \<Rightarrow> blockwise_payload \<Rightarrow> bool" where
  "own_entry src token e \<longleftrightarrow>
     bp_addr e = addr_bytes src \<and> bp_port e = addr_port src \<and> bp_token e = Some token \<and> bp_token_len e = length token"

lemma own_entry_same: "own_entry src token e \<Longrightarrow> same_transfer src (Some token) (length token) e = Some True"
  by (simp add: own_entry_def same_transfer_def rd_block_def)

lemma search_own:
  assumes "strangers src token es" "own_entry src token e" "linked_list_blockwise_received_payloads h = es @ [e]"
  shows "sn_coap_protocol_linked_list_blockwise_search src (Some token) (length token) h = Some (Some (length es))"
    "sn_coap_protocol_linked_list_blockwise_payload_search src (Some token) (length token) h =
       Some (Some (bp_payload_len e, bp_payload e))"
  using assms find_entry_skip [of es "same_transfer src (Some token) (length token)" "[e]"]
  by (simp_all add: strangers_def sn_coap_protocol_linked_list_blockwise_search_def own_entry_same
      sn_coap_protocol_linked_list_blockwise_payload_search_def)

lemma search_none:
  assumes "strangers src token (linked_list_blockwise_received_payloads h)"
  shows "sn_coap_protocol_linked_list_blockwise_search src (Some token) (length token) h = Some None"
    "sn_coap_protocol_linked_list_blockwise_payload_search_compare_block_number src (Some token) (length token) n h = Some False"
  using assms find_entry_skip [of "linked_list_blockwise_received_payloads h" "same_transfer src (Some token) (length token)" "[]"]
    find_entry_skip [of "linked_list_blockwise_received_payloads h"
      "\<lambda>e. do { b \<leftarrow> same_transfer src (Some token) (length token) e; Some (b \<and> n = bp_block_number e) }" "[]"]
  by (simp_all add: strangers_def sn_coap_protocol_linked_list_blockwise_search_def
      sn_coap_protocol_linked_list_blockwise_payload_search_compare_block_number_def)

lemma compare_own:
  assumes "strangers src token es" "own_entry src token e" "linked_list_blockwise_received_payloads h = es @ [e]"
  shows "sn_coap_protocol_linked_list_blockwise_payload_search_compare_block_number src (Some token) (length token) n h =
    Some (n = bp_block_number e)"
  using assms find_entry_skip [of es "\<lambda>e. do { b \<leftarrow> same_transfer src (Some token) (length token) e; Some (b \<and> n = bp_block_number e) }" "[e]"]
  by (simp add: strangers_def sn_coap_protocol_linked_list_blockwise_payload_search_compare_block_number_def own_entry_same)

lemma payloads_len_skip:
  "\<forall>e \<in> set es. same_transfer src token len e = Some False \<Longrightarrow>
   payloads_len_loop src token len (es @ fs) n = payloads_len_loop src token len fs n"
  by (induction es) auto

lemma payloads_len_own:
  assumes "strangers src token es" "own_entry src token e" "linked_list_blockwise_received_payloads h = es @ [e]"
    and "bp_payload_len e < 65536"
  shows "sn_coap_protocol_linked_list_blockwise_payloads_get_len src (Some token) (length token) h = Some (bp_payload_len e)"
  using assms by (simp add: sn_coap_protocol_linked_list_blockwise_payloads_get_len_def payloads_len_skip strangers_def
      own_entry_same wrap_simps)

section \<open>The content so far\<close>

text \<open>
  \<open>acc\<close> is what has arrived. With an announced size the block of memory has that size from the start.
\<close>

definition holds :: "nat \<Rightarrow> blockwise_payload \<Rightarrow> bytes \<Rightarrow> bool" where
  "holds whole e acc \<longleftrightarrow>
     (if bp_use_size1 e
      then bp_payload_len e = whole \<and> length (bp_payload e) = whole \<and> length acc \<le> whole \<and> take (length acc) (bp_payload e) = acc
      else bp_payload e = acc \<and> bp_payload_len e = length acc)"

definition all_granted :: "coap_env \<Rightarrow> bool" where
  "all_granted env \<longleftrightarrow> (\<forall>n. malloc_ok env n)"

lemma malloc_granted: "all_granted env \<Longrightarrow> protocol_malloc env h = (True, h\<lparr>requests := Suc (requests h)\<rparr>)"
  by (simp add: all_granted_def protocol_malloc_def)

lemma malloc_copy_granted:
  "all_granted env \<Longrightarrow> len \<le> length bs \<Longrightarrow>
   malloc_copy env (Some bs) len h = Some (Some (take len bs), h\<lparr>requests := Suc (requests h)\<rparr>)"
  by (simp add: all_granted_def malloc_copy_def sn_coap_protocol_malloc_copy_def rd_block_def)

text \<open>The first block makes the entry.\<close>

lemma store_first_block:
  assumes g: "all_granted env" and b: "b \<noteq> []" "take (length b) data = b" "length b \<le> length data"
    and tok: "token \<noteq> []" and whole: "length b \<le> whole" "whole < 65536" "s = 0 \<or> s = whole"
    and others: "strangers src token (linked_list_blockwise_received_payloads h)"
  obtains k e where
    "sn_coap_protocol_linked_list_blockwise_payload_store env src (length b) (Some data) (Some token) (length token) n bs s h =
       Some (h\<lparr>requests := k, linked_list_blockwise_received_payloads := linked_list_blockwise_received_payloads h @ [e]\<rparr>)"
    "own_entry src token e" "bp_block_number e = n" "holds whole e b" "bp_use_size1 e = (s \<noteq> 0)"
proof -
  have t: "whole \<noteq> 0" using b(1) whole(1) by (cases b) auto
  let ?h = "\<lambda>k. h\<lparr>requests := k\<rparr>"
  obtain buf m where first: "first_payload env (length b) data s (?h k) = Some (Some (m, buf), ?h (Suc k))"
    "holds whole (e\<lparr>bp_payload_len := m, bp_payload := buf, bp_use_size1 := (s \<noteq> 0)\<rparr>) b" for k and e :: blockwise_payload
  proof (cases "s = 0")
    case True
    then show ?thesis
      using that [of "length b" b] b malloc_copy_granted [OF g b(3)]
      by (simp add: first_payload_def holds_def)
  next
    case False
    with whole have s: "s = whole" by simp
    let ?buf = "b @ drop (length b) (junk_block env whole)"
    have "first_payload env (length b) data s (?h k) = Some (Some (whole, ?buf), ?h (Suc k))" for k
      using False s whole t b by (simp add: first_payload_def malloc_granted [OF g] rd_block_def write_at_def wrap_simps)
    moreover have "holds whole (e\<lparr>bp_payload_len := whole, bp_payload := ?buf, bp_use_size1 := (s \<noteq> 0)\<rparr>) b"
      for e :: blockwise_payload
      using False whole by (simp add: holds_def)
    ultimately show ?thesis using that by blast
  qed
  let ?e = "\<lparr>bp_timestamp = system_time h, bp_addr = addr_bytes src, bp_port = addr_port src, bp_block_number = n,
     bp_token = Some token, bp_token_len = length token, bp_payload_len = m, bp_payload = buf, bp_use_size1 = (s \<noteq> 0)\<rparr>"
  have "sn_coap_protocol_linked_list_blockwise_payload_store env src (length b) (Some data) (Some token) (length token) n bs s h =
      Some (?h (Suc (Suc (Suc (Suc (requests h)))))\<lparr>linked_list_blockwise_received_payloads :=
        linked_list_blockwise_received_payloads h @ [?e]\<rparr>)"
    using b(1) tok first(1) malloc_copy_granted [OF g]
    by (simp add: sn_coap_protocol_linked_list_blockwise_payload_store_def search_none [OF others] store_first_def
        malloc_granted [OF g] list_add_to_end_def)
  moreover have "holds whole ?e b"
    using first(2) [of "\<lparr>bp_timestamp = system_time h, bp_addr = addr_bytes src, bp_port = addr_port src, bp_block_number = n,
     bp_token = Some token, bp_token_len = length token, bp_payload_len = m, bp_payload = buf, bp_use_size1 = False\<rparr>"] by simp
  ultimately show ?thesis by (intro that [where e = ?e]) (auto simp: own_entry_def)
qed

text \<open>Every further block extends what the entry holds.\<close>

lemma holds_append:
  assumes "holds whole e acc" "length acc + length b \<le> whole" "bp_use_size1 e"
  shows "write_at (bp_payload e) (length acc) b = Some (acc @ b @ drop (length acc + length b) (bp_payload e))"
    "holds whole (e\<lparr>bp_payload := acc @ b @ drop (length acc + length b) (bp_payload e)\<rparr>) (acc @ b)"
  using assms by (auto simp: holds_def write_at_def)

lemma store_next_block:
  assumes g: "all_granted env" and b: "b \<noteq> []" "take (length b) data = b" "length b \<le> length data"
    and whole: "length acc + length b \<le> whole" "whole < 65536"
    and others: "strangers src token es" "linked_list_blockwise_received_payloads h = es @ [e]"
    and e: "own_entry src token e" "holds whole e acc" "n \<noteq> bp_block_number e" "bp_use_size1 e \<Longrightarrow> n * bs = length acc"
  obtains k e' where
    "sn_coap_protocol_linked_list_blockwise_payload_store env src (length b) (Some data) (Some token) (length token) n bs s h =
       Some (h\<lparr>requests := k, linked_list_blockwise_received_payloads := es @ [e']\<rparr>)"
    "own_entry src token e'" "bp_block_number e' = n" "holds whole e' (acc @ b)" "bp_use_size1 e' = bp_use_size1 e"
proof (cases "bp_use_size1 e")
  case True
  let ?e = "stamped n h (e\<lparr>bp_payload := acc @ b @ drop (length acc + length b) (bp_payload e)\<rparr>)"
  note h = holds_append [OF e(2) whole(1) True]
  have "sn_coap_protocol_linked_list_blockwise_payload_store env src (length b) (Some data) (Some token) (length token) n bs s h =
      Some (h\<lparr>requests := requests h, linked_list_blockwise_received_payloads := es @ [?e]\<rparr>)"
    using b True others(2) h(1) e(3,4) whole
    by (simp add: sn_coap_protocol_linked_list_blockwise_payload_store_def compare_own [OF others(1) e(1) others(2)]
        search_own [OF others(1) e(1) others(2)] store_in_place_def rd_block_def set_payload_def wrap_simps)
  then show ?thesis
    by (rule that) (use e(1) h(2) True in \<open>auto simp: own_entry_def stamped_def holds_def\<close>)
next
  case False
  have p: "bp_payload e = acc" "bp_payload_len e = length acc" using e(2) False by (simp_all add: holds_def)
  let ?e = "stamped n h (e\<lparr>bp_payload := acc @ b, bp_payload_len := length acc + length b\<rparr>)"
  have st: "stamped n (h\<lparr>requests := k\<rparr>) x = stamped n h x" for k x by (simp add: stamped_def)
  have "sn_coap_protocol_linked_list_blockwise_payload_store env src (length b) (Some data) (Some token) (length token) n bs s h =
      Some (h\<lparr>requests := Suc (Suc (requests h)), linked_list_blockwise_received_payloads := es @ [?e]\<rparr>)"
    using b False others(2) e(3) whole p
    by (simp add: sn_coap_protocol_linked_list_blockwise_payload_store_def compare_own [OF others(1) e(1) others(2)]
        search_own [OF others(1) e(1) others(2)] store_appended_def malloc_granted [OF g] rd_block_def write_at_def
        set_payload_def wrap_simps st)
  then show ?thesis
    by (rule that) (use e(1) False in \<open>auto simp: own_entry_def stamped_def holds_def\<close>)
qed

text \<open>The whole payload is given to the received message.\<close>

lemma last_blockwise_ok:
  assumes g: "all_granted env" and whole: "length acc = whole" "0 < whole" "whole < 65536"
    and others: "strangers src token es" "linked_list_blockwise_received_payloads h = es @ [e]"
    and e: "own_entry src token e" "holds whole e acc"
    and m: "token_ptr m = Some token" "token_len m = length token"
  shows "sn_coap_handle_last_blockwise env src m h =
    Some (Some (m\<lparr>payload_ptr := Some acc, payload_len := whole, coap_status := COAP_STATUS_PARSER_BLOCKWISE_MSG_RECEIVED\<rparr>),
          h\<lparr>requests := Suc (requests h)\<rparr>)"
proof -
  have p: "bp_payload_len e = whole" "bp_payload e = acc"
    using e(2) whole(1) by (auto simp: holds_def split: if_splits)
  then show ?thesis
    using whole m payloads_len_own [OF others(1) e(1) others(2)] malloc_copy_granted [OF g, of whole acc h]
    by (simp add: sn_coap_handle_last_blockwise_def search_own [OF others(1) e(1) others(2)] wrap_simps)
qed

text \<open>
  A request that arrives in blocks (\<open>sn_coap_handle_blockwise_message\<close>, Block1 in a request): every block
  but the last is acknowledged with a Continue, and with the last one the handler hands over the whole
  payload.
\<close>

section \<open>The acknowledgement of a block\<close>

definition ack_message :: "nat \<Rightarrow> int \<Rightarrow> nat \<Rightarrow> bytes \<Rightarrow> coap_hdr" where
  "ack_message code block msgid token =
     init_message\<lparr>msg_type := COAP_MSG_TYPE_ACKNOWLEDGEMENT, msg_code := code, msg_id := msgid,
       token_ptr := Some token, token_len := length token,
       options_list_ptr := Some (init_options\<lparr>block1 := block\<rparr>)\<rparr>"

lemma ack_message_ok:
  "code \<in> set coap_known_codes \<Longrightarrow> 0 \<le> block \<Longrightarrow> block \<le> 0xffffff \<Longrightarrow> msgid < 65536 \<Longrightarrow>
   token \<noteq> [] \<Longrightarrow> length token \<le> 8 \<Longrightarrow> message_ok (ack_message code block msgid token)"
  by (simp add: message_ok_def ack_message_def init_message_def exact_def text_ok_def text_parts_def
      options_ok_def init_options_def)

lemma ack_message_short:
  assumes "length token \<le> 8"
  shows "length (coap_wire (ack_message code block msgid token)) \<le> 32767"
proof -
  have u: "length (uint_payload 4 0 []) \<le> 4" "length (uint_payload 4 (u32_of_int block) []) \<le> 4"
    by (rule uint_payload_4_length)+
  with assms show ?thesis
    by (simp add: coap_wire_def ack_message_def init_message_def message_groups_def early_groups_def main_groups_def
        late_groups_def init_options_def text_parts_def uint_value_if_def length_encode_option ext_size_def)
qed

text \<open>A message with a block of a request.\<close>

definition carries_block :: "bytes \<Rightarrow> nat \<Rightarrow> nat \<Rightarrow> bool \<Rightarrow> bytes \<Rightarrow> coap_hdr \<Rightarrow> bool" where
  "carries_block token t n again b m \<longleftrightarrow>
     block1_of m = int (16 * n + (if again then 8 else 0) + t) \<and>
     token_ptr m = Some token \<and> token_len m = length token \<and>
     msg_code m \<in> {1, 2, 3, 4} \<and> msg_id m < 65536 \<and> payload_len m = length b \<and>
     (case payload_ptr m of None \<Rightarrow> b = [] | Some data \<Rightarrow> length b \<le> length data \<and> take (length b) data = b)"

lemma block_fields:
  assumes "t < 8" "n < 1048576"
  shows "block_number_of (int (16 * n + (if again then 8 else 0) + t)) = n"
    "more_blocks (int (16 * n + (if again then 8 else 0) + t)) = again"
    "size_exponent (int (16 * n + (if again then 8 else 0) + t)) = t"
    "block_size_of (int (16 * n + (if again then 8 else 0) + t)) = 2 ^ (t + 4)"
proof -
  let ?b = "16 * n + (if again then 8 else 0) + t"
  have sixteen: "?b = ((if again then 8 else 0) + t) + n * 16"
    and eight: "?b = t + (2 * n + (if again then 1 else 0)) * 8" by simp_all
  have d: "(x + k * 16) div 16 = k" if "x < 16" for x k :: nat using that by simp
  have e: "(t + k * 8) mod 8 = t" "(t + k * 8) div 8 = k" for k using assms(1) by simp_all
  have small: "(if again then 8 else 0) + t < 16" using assms(1) by simp
  have b16: "?b div 16 = n" unfolding sixteen by (rule d [OF small])
  have b8: "?b mod 8 = t" "?b div 8 = 2 * n + (if again then 1 else 0)" unfolding eight by (rule e)+
  note b = b16 b8
  have "int ?b div 16 = int (?b div 16)" "int ?b mod 8 = int (?b mod 8)" "int ?b div 8 = int (?b div 8)"
    by (simp_all only: zdiv_int zmod_int of_nat_numeral)
  then have i: "int ?b div 16 = int n" "int ?b mod 8 = int t" "int ?b div 8 = int (2 * n + (if again then 1 else 0))"
    by (simp_all only: b)
  show n: "block_number_of (int ?b) = n"
    unfolding block_number_of_def i(1) using assms(2) by (simp add: nat_mod_distrib)
  show "more_blocks (int ?b) = again" unfolding more_blocks_def i(3) by simp
  show e: "size_exponent (int ?b) = t" unfolding size_exponent_def i(2) by simp
  show "block_size_of (int ?b) = 2 ^ (t + 4)" unfolding block_size_of_def e by simp
qed

definition own_block_size :: "nat \<Rightarrow> nat \<Rightarrow> bool" where
  "own_block_size own bs \<longleftrightarrow> own \<le> 6 \<and> bs = 2 ^ (own + 4)"

lemma convert_block_size:
  assumes "own_block_size own bs"
  shows "sn_coap_convert_block_size bs = own"
proof -
  from assms have "own \<in> {0, 1, 2, 3, 4, 5, 6}" "bs = 2 ^ (own + 4)" by (auto simp: own_block_size_def)
  then show ?thesis by (auto simp: sn_coap_convert_block_size_def)
qed

lemma update_duplicate_granted:
  assumes "all_granted env" "0 \<le> len" "nat len \<le> length packet"
  shows "\<exists>k ds. sn_coap_protocol_update_duplicate_package_data env src m len packet h =
    Some (True, h\<lparr>requests := k, linked_list_duplication_msgs := ds\<rparr>)"
proof -
  have same: "h = h\<lparr>requests := requests h, linked_list_duplication_msgs := linked_list_duplication_msgs h\<rparr>" by simp
  have "\<exists>k ds. sn_coap_protocol_update_duplicate_package_data_all env src m len packet h =
      Some (True, h\<lparr>requests := k, linked_list_duplication_msgs := ds\<rparr>)"
    using assms same
    by (auto simp: sn_coap_protocol_update_duplicate_package_data_all_def malloc_granted rd_block_def Let_def
        split: option.split) (metis same)+
  with same show ?thesis
    unfolding sn_coap_protocol_update_duplicate_package_data_def by (metis (full_types))
qed

section \<open>One block\<close>

lemma carries_block_fields:
  assumes "carries_block token t n again b m" "t \<le> 6" "n < 1048576"
  shows "block_number_of (block1_of m) = n" "more_blocks (block1_of m) = again"
    "size_exponent (block1_of m) = t" "block_size_of (block1_of m) = 2 ^ (t + 4)"
    "0 \<le> block1_of m" "block1_of m \<le> 0xffffff"
proof -
  have b: "block1_of m = int (16 * n + (if again then 8 else 0) + t)" using assms(1) by (simp add: carries_block_def)
  have t: "t < 8" using assms(2) by simp
  show "block_number_of (block1_of m) = n" "more_blocks (block1_of m) = again"
    "size_exponent (block1_of m) = t" "block_size_of (block1_of m) = 2 ^ (t + 4)"
    unfolding b by (rule block_fields [OF t assms(3)])+
  show "0 \<le> block1_of m" "block1_of m \<le> 0xffffff" unfolding b using assms(2,3) by simp_all
qed

lemma block_size_fits: "t \<le> own \<Longrightarrow> own_block_size own bs \<Longrightarrow> 2 ^ (t + 4) \<le> bs"
  by (simp add: own_block_size_def power_increasing)

lemma block_ack_fits:
  assumes c: "carries_block token t n True b m" "t \<le> 6" "n < 1048576"
    and own: "own_block_size own (sn_coap_block_data_size h)" "t \<le> own"
    and s: "size1_of m \<le> cfg_max_incoming_block_message env"
  shows "(block_ack env True m h (init_message\<lparr>options_list_ptr := Some init_options\<rparr>))
      \<lparr>token_ptr := Some token, token_len := length token\<rparr> =
    ack_message (block_ack_code True (msg_code m)) (block1_of m) (msg_id m) token"
  using carries_block_fields [OF c] block_size_fits [OF own(2,1)] own(2) s
  by (simp add: block_ack_def convert_block_size [OF own(1)] Let_def upd_options_def ack_message_def)

lemma answer_block1_ok:
  assumes g: "all_granted env" and c: "carries_block token t n True b m" "t \<le> 6" "n < 1048576"
    and tok: "token \<noteq> []" "length token \<le> 8"
    and own: "own_block_size own (sn_coap_block_data_size h)" "t \<le> own"
    and s: "size1_of m \<le> cfg_max_incoming_block_message env"
  shows "\<exists>k ds. answer_block1 env src True m param h =
    map_option (\<lambda>h1. (Some (with_status COAP_STATUS_PARSER_BLOCKWISE_MSG_RECEIVING m),
        tx_callback (coap_wire (ack_message (block_ack_code True (msg_code m)) (block1_of m) (msg_id m) token)) src param h1))
      (store_received_block env src m (block1_of m) (h\<lparr>requests := k, linked_list_duplication_msgs := ds\<rparr>))"
proof -
  let ?a = "ack_message (block_ack_code True (msg_code m)) (block1_of m) (msg_id m) token"
  have m: "token_ptr m = Some token" "token_len m = length token" "msg_id m < 65536" "msg_code m \<in> {1, 2, 3, 4}"
    using c(1) by (auto simp: carries_block_def)
  have code: "block_ack_code True (msg_code m) \<in> {66, 69, 95}" using m(4) by (auto simp: block_ack_code_def)
  have ok: "message_ok ?a"
    using code carries_block_fields [OF c] m(3) tok by (intro ack_message_ok) (auto simp: coap_known_codes_def)
  have short: "length (coap_wire ?a) \<le> 32767" by (rule ack_message_short [OF tok(2)])
  have fits: "fits_block env ?a h'" for h' by (simp add: fits_block_def ack_message_def init_message_def)
  have new: "new_message_with_options env g = Some (Some (init_message\<lparr>options_list_ptr := Some init_options\<rparr>),
      g\<lparr>requests := Suc (Suc (requests g))\<rparr>)" for g
    using g by (simp add: new_message_with_options_def alloc_message_with_options_def alloc_message_def
        alloc_options_def all_granted_def init_message_def)
  have blk: "(block_ack env True m (h\<lparr>requests := k\<rparr>) (init_message\<lparr>options_list_ptr := Some init_options\<rparr>))
      \<lparr>token_ptr := Some token, token_len := length token\<rparr> = ?a" for k
    by (rule block_ack_fits [OF c _ own(2) s]) (use own(1) in simp)
  let ?k = "Suc (Suc (Suc (Suc (requests h))))"
  obtain k ds where upd: "sn_coap_protocol_update_duplicate_package_data env src ?a (s16_of (length (coap_wire ?a)))
      (coap_wire ?a) (h\<lparr>requests := ?k\<rparr>) = Some (True, h\<lparr>requests := k, linked_list_duplication_msgs := ds\<rparr>)"
    using update_duplicate_granted [OF g, of "s16_of (length (coap_wire ?a))" "coap_wire ?a" src ?a "h\<lparr>requests := ?k\<rparr>"] short
    by (auto simp: wrap_simps)
  have copy: "malloc_copy env (Some token) (length token) h' = Some (Some token, h'\<lparr>requests := Suc (requests h')\<rparr>)" for h'
    using malloc_copy_granted [OF g, of "length token" token h'] by simp
  have codes: "msg_code ?a = block_ack_code True (msg_code m)" by (simp add: ack_message_def)
  have "answer_block1 env src True m param h =
    map_option (\<lambda>h1. (Some (with_status COAP_STATUS_PARSER_BLOCKWISE_MSG_RECEIVING m),
        tx_callback (coap_wire ?a) src param h1))
      (store_received_block env src m (block1_of m) (h\<lparr>requests := k, linked_list_duplication_msgs := ds\<rparr>))"
    using code upd
    by (simp add: answer_block1_def new m copy blk needed_size_wire [OF ok short fits] malloc_granted [OF g]
        build_into_needed [OF ok short fits] codes Let_def)
      (cases "store_received_block env src m (block1_of m) (h\<lparr>requests := k, linked_list_duplication_msgs := ds\<rparr>)";
       auto)
  then show ?thesis by blast
qed

end
