(* ===== verification/Coap_Receive_Request.thy ===== *)
theory Coap_Receive_Request
  imports Coap_Receive_Blocks
begin

text \<open>
  A whole request in blocks: the messages arrive in order, each is acknowledged with the packet of its
  Continue, and the handler returns the last one with the concatenation of the blocks as its payload.
\<close>

text \<open>The state of a transfer before block n, with the bytes that have arrived.\<close>

definition progress ::
  "coap_s \<Rightarrow> coap_addr \<Rightarrow> bytes \<Rightarrow> blockwise_payload list \<Rightarrow> nat \<Rightarrow> nat \<Rightarrow> nat \<Rightarrow> bytes \<Rightarrow> bool" where
  "progress h src token es whole t n acc \<longleftrightarrow>
     strangers src token es \<and> length acc \<le> whole \<and>
     (if n = 0 then linked_list_blockwise_received_payloads h = es \<and> acc = []
      else \<exists>e. linked_list_blockwise_received_payloads h = es @ [e] \<and> own_entry src token e \<and>
             bp_block_number e = n - 1 \<and> holds whole e acc \<and> length acc = n * 2 ^ (t + 4))"

lemma progress_frame:
  "linked_list_blockwise_received_payloads h' = linked_list_blockwise_received_payloads h \<Longrightarrow>
   progress h' src token es whole t n acc = progress h src token es whole t n acc"
  by (simp add: progress_def)

lemma progressD:
  assumes "progress h src token es whole t n acc" "n \<noteq> 0"
  obtains e where "linked_list_blockwise_received_payloads h = es @ [e]" "own_entry src token e"
    "bp_block_number e = n - 1" "holds whole e acc" "length acc = n * 2 ^ (t + 4)"
  using assms by (auto simp: progress_def)

lemma block_number_small: "length acc = n * 2 ^ (t + 4) \<Longrightarrow> length acc < 65536 \<Longrightarrow> n < 1048576"
proof -
  assume a: "length acc = n * 2 ^ (t + 4)" "length acc < 65536"
  have "n * 1 \<le> n * 2 ^ (t + 4)" by (rule mult_le_mono2) simp
  also have "\<dots> < 65536" using a by simp
  finally show ?thesis by simp
qed

lemma store_received_progress:
  assumes g: "all_granted env" and c: "carries_block token t n again b m" "t \<le> 6" "token \<noteq> []"
    and b: "b \<noteq> []" "length acc + length b \<le> whole" "whole < 65536"
    and p: "progress h src token es whole t n acc" and s: "n = 0 \<Longrightarrow> size1_of m = 0 \<or> size1_of m = whole"
  obtains k e where
    "store_received_block env src m (block1_of m) h =
       Some (h\<lparr>requests := k, linked_list_blockwise_received_payloads := es @ [e]\<rparr>)"
    "own_entry src token e" "bp_block_number e = n" "holds whole e (acc @ b)"
proof -
  obtain data where m: "payload_ptr m = Some data" "take (length b) data = b" "length b \<le> length data"
    "payload_len m = length b" "token_ptr m = Some token" "token_len m = length token"
    using c(1) b(1) by (auto simp: carries_block_def split: option.splits)
  have others: "strangers src token es" using p by (simp add: progress_def)
  have store: "store_received_block env src m (block1_of m) h =
      sn_coap_protocol_linked_list_blockwise_payload_store env src (length b) (Some data) (Some token) (length token)
        n (2 ^ (t + 4)) (size1_of m) h" if "n < 1048576"
    using carries_block_fields [OF c(1,2) that] m by (simp add: store_received_block_def)
  show ?thesis
  proof (cases "n = 0")
    case True
    with p have l: "linked_list_blockwise_received_payloads h = es" "acc = []" by (simp_all add: progress_def)
    have w: "length b \<le> whole" using b(2) by simp
    obtain k e where e: "sn_coap_protocol_linked_list_blockwise_payload_store env src (length b) (Some data) (Some token)
        (length token) n (2 ^ (t + 4)) (size1_of m) h =
          Some (h\<lparr>requests := k, linked_list_blockwise_received_payloads := linked_list_blockwise_received_payloads h @ [e]\<rparr>)"
      "own_entry src token e" "bp_block_number e = n" "holds whole e b"
      by (rule store_first_block [OF g b(1) m(2,3) c(3) w b(3) s [OF True] others [folded l(1)],
            of n "2 ^ (t + 4)"]) blast
    show ?thesis by (rule that [where k = k and e = e]) (use e l store True in auto)
  next
    case False
    obtain e where e: "linked_list_blockwise_received_payloads h = es @ [e]" "own_entry src token e"
      "bp_block_number e = n - 1" "holds whole e acc" "length acc = n * 2 ^ (t + 4)"
      using p False by (rule progressD)
    have n: "n \<noteq> bp_block_number e" "n < 1048576"
      using e(3,5) False block_number_small [OF e(5)] b(2,3) by auto
    have place: "n * 2 ^ (t + 4) = length acc" using e(5) by simp
    obtain k e' where e': "sn_coap_protocol_linked_list_blockwise_payload_store env src (length b) (Some data) (Some token)
        (length token) n (2 ^ (t + 4)) (size1_of m) h =
          Some (h\<lparr>requests := k, linked_list_blockwise_received_payloads := es @ [e']\<rparr>)"
      "own_entry src token e'" "bp_block_number e' = n" "holds whole e' (acc @ b)"
      by (rule store_next_block [OF g b(1) m(2,3) b(2,3) others e(1,2,4) n(1) place, of "size1_of m"]) blast
    show ?thesis by (rule that [where k = k and e = e']) (use e' store [OF n(2)] in auto)
  qed
qed

lemma in_order_test:
  assumes "progress h src token es whole t n acc" "token_ptr m = Some token" "token_len m = length token"
  shows "(if n > 0 then sn_coap_protocol_linked_list_blockwise_payload_search_compare_block_number src
      (token_ptr m) (token_len m) (n - 1) h else Some True) = Some True"
proof (cases "n = 0")
  case False
  obtain e where e: "linked_list_blockwise_received_payloads h = es @ [e]" "own_entry src token e" "bp_block_number e = n - 1"
    using assms(1) False by (rule progressD)
  have "strangers src token es" using assms(1) by (simp add: progress_def)
  from compare_own [OF this e(2,1)] e(3) assms(2,3) show ?thesis by simp
qed simp


section \<open>The blocks of a request\<close>

fun block_messages :: "bytes \<Rightarrow> nat \<Rightarrow> nat \<Rightarrow> coap_hdr list \<Rightarrow> bytes list \<Rightarrow> bool" where
  "block_messages token t n [m] [b] \<longleftrightarrow> carries_block token t n False b m \<and> length b \<le> 2 ^ (t + 4)"
| "block_messages token t n (m # m' # ms) (b # b' # bs) \<longleftrightarrow>
     carries_block token t n True b m \<and> length b = 2 ^ (t + 4) \<and>
     block_messages token t (Suc n) (m' # ms) (b' # bs)"
| "block_messages token t n ms bs \<longleftrightarrow> False"

primrec receive_requests ::
  "coap_env \<Rightarrow> rx_callback option \<Rightarrow> coap_addr \<Rightarrow> nat \<Rightarrow> coap_hdr list \<Rightarrow> coap_s \<Rightarrow> (coap_hdr option list \<times> coap_s) option" where
  "receive_requests env rx src param [] h = Some ([], h)"
| "receive_requests env rx src param (m # ms) h =
     do { (r, h1) \<leftarrow> sn_coap_handle_blockwise_message env rx src m param h;
          (rs, h2) \<leftarrow> receive_requests env rx src param ms h1;
          Some (r # rs, h2) }"

definition continue_packet :: "bytes \<Rightarrow> coap_hdr \<Rightarrow> bytes" where
  "continue_packet token m =
     coap_wire (ack_message (block_ack_code True (msg_code m)) (block1_of m) (msg_id m) token)"

lemma handle_is_receive:
  assumes "carries_block token t n again b m" "t \<le> 6" "n < 1048576"
    and "length b \<le> sn_coap_block_data_size h"
  shows "sn_coap_handle_blockwise_message env rx src m param h =
    do { before \<leftarrow> (if n > 0 then sn_coap_protocol_linked_list_blockwise_payload_search_compare_block_number src
                              (token_ptr m) (token_len m) (n - 1) h else Some True);
         if again then answer_block1 env src before m param h
         else do { h1 \<leftarrow> store_received_block env src m (block1_of m) h;
                   sn_coap_handle_last_blockwise env src m h1 } }"
proof -
  note f = carries_block_fields [OF assms(1,2,3)]
  have "block1_of m \<noteq> -1" "\<not> msg_code m > 4" "\<not> payload_len m > sn_coap_block_data_size h"
    using f(5) assms(1,4) by (auto simp: carries_block_def)
  then show ?thesis
    by (simp add: sn_coap_handle_blockwise_message_def receive_block1_def Let_def f(1,2))
qed

lemma receive_more:
  assumes g: "all_granted env" and c: "carries_block token t n True b m" "t \<le> own" and tok: "token \<noteq> []" "length token \<le> 8"
    and own: "own_block_size own (sn_coap_block_data_size h)" and s: "size1_of m \<le> cfg_max_incoming_block_message env"
    and b: "length b = 2 ^ (t + 4)" "length acc + length b \<le> whole" "whole < 65536"
    and p: "progress h src token es whole t n acc" and first: "n = 0 \<Longrightarrow> size1_of m = 0 \<or> size1_of m = whole"
  obtains h' where
    "sn_coap_handle_blockwise_message env rx src m param h =
       Some (Some (with_status COAP_STATUS_PARSER_BLOCKWISE_MSG_RECEIVING m), h')"
    "progress h' src token es whole t (Suc n) (acc @ b)" "sn_coap_block_data_size h' = sn_coap_block_data_size h"
    "transmitted h' = transmitted h @ [(continue_packet token m, src, param)]"
proof -
  have t: "t \<le> 6" using c(2) own by (simp add: own_block_size_def)
  have ne: "b \<noteq> []" using b(1) by (metis length_0_conv power_not_zero zero_neq_numeral)
  have n: "n < 1048576"
    using p b by (cases "n = 0") (auto simp: progress_def intro: block_number_small [of acc n t])
  have fits: "length b \<le> sn_coap_block_data_size h" using block_size_fits [OF c(2) own] b(1) by simp
  have m: "token_ptr m = Some token" "token_len m = length token" using c(1) by (simp_all add: carries_block_def)
  obtain k ds where ans: "answer_block1 env src True m param h =
      map_option (\<lambda>h1. (Some (with_status COAP_STATUS_PARSER_BLOCKWISE_MSG_RECEIVING m),
          tx_callback (continue_packet token m) src param h1))
        (store_received_block env src m (block1_of m) (h\<lparr>requests := k, linked_list_duplication_msgs := ds\<rparr>))"
    using answer_block1_ok [OF g c(1) t n tok own c(2) s, of src param] unfolding continue_packet_def by blast
  let ?h = "h\<lparr>requests := k, linked_list_duplication_msgs := ds\<rparr>"
  have p1: "progress ?h src token es whole t n acc" using p by (simp add: progress_frame [of ?h h])
  obtain k' e where st: "store_received_block env src m (block1_of m) ?h =
      Some (?h\<lparr>requests := k', linked_list_blockwise_received_payloads := es @ [e]\<rparr>)"
    "own_entry src token e" "bp_block_number e = n" "holds whole e (acc @ b)"
    by (rule store_received_progress [OF g c(1) t tok(1) ne b(2,3) p1 first]) auto
  let ?h1 = "tx_callback (continue_packet token m) src param (?h\<lparr>requests := k', linked_list_blockwise_received_payloads := es @ [e]\<rparr>)"
  have acc: "length acc = n * 2 ^ (t + 4)" "strangers src token es" using p by (auto simp: progress_def split: if_splits)
  have "sn_coap_handle_blockwise_message env rx src m param h =
      Some (Some (with_status COAP_STATUS_PARSER_BLOCKWISE_MSG_RECEIVING m), ?h1)"
    using handle_is_receive [OF c(1) t n fits] in_order_test [OF p m] ans st(1) by simp
  moreover have "progress ?h1 src token es whole t (Suc n) (acc @ b)"
    using st acc b by (auto simp: progress_def tx_callback_def)
  ultimately show ?thesis by (rule that) (simp_all add: tx_callback_def)
qed

lemma receive_last:
  assumes g: "all_granted env" and c: "carries_block token t n False b m" "t \<le> own" and tok: "token \<noteq> []"
    and own: "own_block_size own (sn_coap_block_data_size h)"
    and b: "length b \<le> 2 ^ (t + 4)" "length acc + length b = whole" "0 < whole" "whole < 65536"
    and p: "progress h src token es whole t n acc" and first: "n = 0 \<Longrightarrow> size1_of m = 0 \<or> size1_of m = whole"
  obtains h' where
    "sn_coap_handle_blockwise_message env rx src m param h =
       Some (Some (m\<lparr>payload_ptr := Some (acc @ b), payload_len := whole,
                     coap_status := COAP_STATUS_PARSER_BLOCKWISE_MSG_RECEIVED\<rparr>), h')"
    "transmitted h' = transmitted h"
proof -
  have t: "t \<le> 6" using c(2) own by (simp add: own_block_size_def)
  have n: "n < 1048576"
    using p b by (cases "n = 0") (auto simp: progress_def intro: block_number_small [of acc n t])
  have fits: "length b \<le> sn_coap_block_data_size h" using block_size_fits [OF c(2) own] b(1) by simp
  have m: "token_ptr m = Some token" "token_len m = length token" using c(1) by (simp_all add: carries_block_def)
  have others: "strangers src token es" using p by (simp add: progress_def)
  have whole: "length (acc @ b) = whole" using b(2) by simp
  obtain h1 e where h1: "store_received_block env src m (block1_of m) h = Some h1"
    "linked_list_blockwise_received_payloads h1 = es @ [e]" "own_entry src token e" "holds whole e (acc @ b)"
    "transmitted h1 = transmitted h"
  proof (cases "b = []")
    case True
    with b p have "n \<noteq> 0" by (cases n) (auto simp: progress_def)
    with p True obtain e where "linked_list_blockwise_received_payloads h = es @ [e]" "own_entry src token e" "holds whole e (acc @ b)"
      by (auto elim: progressD)
    moreover have "store_received_block env src m (block1_of m) h = Some h"
      using c(1) True by (simp add: store_received_block_def carries_block_def
          sn_coap_protocol_linked_list_blockwise_payload_store_def)
    ultimately show ?thesis using that by blast
  next
    case False
    have w: "length acc + length b \<le> whole" using b(2) by simp
    obtain k e where "store_received_block env src m (block1_of m) h =
        Some (h\<lparr>requests := k, linked_list_blockwise_received_payloads := es @ [e]\<rparr>)"
      "own_entry src token e" "holds whole e (acc @ b)"
      by (rule store_received_progress [OF g c(1) t tok False w b(4) p first]) auto
    then show ?thesis by - (rule that, assumption, simp_all)
  qed
  have "sn_coap_handle_last_blockwise env src m h1 =
      Some (Some (m\<lparr>payload_ptr := Some (acc @ b), payload_len := whole,
        coap_status := COAP_STATUS_PARSER_BLOCKWISE_MSG_RECEIVED\<rparr>), h1\<lparr>requests := Suc (requests h1)\<rparr>)"
    by (rule last_blockwise_ok [OF g whole b(3,4) others h1(2,3,4) m])
  with handle_is_receive [OF c(1) t n fits] in_order_test [OF p m] h1(1)
  have "sn_coap_handle_blockwise_message env rx src m param h =
      Some (Some (m\<lparr>payload_ptr := Some (acc @ b), payload_len := whole,
        coap_status := COAP_STATUS_PARSER_BLOCKWISE_MSG_RECEIVED\<rparr>), h1\<lparr>requests := Suc (requests h1)\<rparr>)" by simp
  then show ?thesis by (rule that) (simp add: h1(5))
qed


lemma receive_requests_ok:
  assumes g: "all_granted env" and whole: "0 < whole" "whole < 65536"
  shows "\<lbrakk>block_messages token t n ms bs; t \<le> own; token \<noteq> []; length token \<le> 8; progress h src token es whole t n acc; own_block_size own (sn_coap_block_data_size h);
      length (acc @ concat bs) = whole; \<forall>m \<in> set ms. size1_of m \<le> cfg_max_incoming_block_message env;
      n = 0 \<Longrightarrow> size1_of (hd ms) = 0 \<or> size1_of (hd ms) = whole\<rbrakk> \<Longrightarrow>
    \<exists>h'. receive_requests env rx src param ms h =
      Some (map (\<lambda>m. Some (with_status COAP_STATUS_PARSER_BLOCKWISE_MSG_RECEIVING m)) (butlast ms) @
            [Some ((last ms)\<lparr>payload_ptr := Some (acc @ concat bs), payload_len := whole,
                     coap_status := COAP_STATUS_PARSER_BLOCKWISE_MSG_RECEIVED\<rparr>)], h') \<and>
      transmitted h' = transmitted h @ map (\<lambda>m. (continue_packet token m, src, param)) (butlast ms)"
proof (induction token t n ms bs arbitrary: h acc rule: block_messages.induct)
  case (1 token t n m b)
  then have tok: "t \<le> own" "token \<noteq> []" "length token \<le> 8" by simp_all
  from 1 have c: "carries_block token t n False b m" "length b \<le> 2 ^ (t + 4)" "length acc + length b = whole"
    and first: "n = 0 \<Longrightarrow> size1_of m = 0 \<or> size1_of m = whole" by simp_all
  obtain h' where "sn_coap_handle_blockwise_message env rx src m param h =
      Some (Some (m\<lparr>payload_ptr := Some (acc @ b), payload_len := whole,
        coap_status := COAP_STATUS_PARSER_BLOCKWISE_MSG_RECEIVED\<rparr>), h')" "transmitted h' = transmitted h"
    by (rule receive_last [OF g c(1) tok(1,2) "1.prems"(6) c(2,3) whole "1.prems"(5) first]) auto
  then show ?case by simp
next
  case (2 token t n m m' ms b b' bs)
  then have tok: "t \<le> own" "token \<noteq> []" "length token \<le> 8" by simp_all
  from 2 have c: "carries_block token t n True b m" "length b = 2 ^ (t + 4)" "length acc + length b \<le> whole"
    and rest: "block_messages token t (Suc n) (m' # ms) (b' # bs)"
    and s: "size1_of m \<le> cfg_max_incoming_block_message env"
    and first: "n = 0 \<Longrightarrow> size1_of m = 0 \<or> size1_of m = whole" by simp_all
  obtain h1 where h1: "sn_coap_handle_blockwise_message env rx src m param h =
      Some (Some (with_status COAP_STATUS_PARSER_BLOCKWISE_MSG_RECEIVING m), h1)"
    "progress h1 src token es whole t (Suc n) (acc @ b)" "sn_coap_block_data_size h1 = sn_coap_block_data_size h"
    "transmitted h1 = transmitted h @ [(continue_packet token m, src, param)]"
    by (rule receive_more [OF g c(1) tok "2.prems"(6) s c(2,3) whole(2) "2.prems"(5) first]) auto
  have own1: "own_block_size own (sn_coap_block_data_size h1)" using "2.prems"(6) h1(3) by simp
  have len: "length ((acc @ b) @ concat (b' # bs)) = whole" using "2.prems"(7) by simp
  have sizes: "\<forall>m \<in> set (m' # ms). size1_of m \<le> cfg_max_incoming_block_message env" using "2.prems"(8) by simp
  obtain qs where qs: "qs = m' # ms" "qs \<noteq> []" by blast
  from "2.IH" [OF rest tok h1(2) own1 len sizes] obtain h' where
    "receive_requests env rx src param qs h1 =
      Some (map (\<lambda>m. Some (with_status COAP_STATUS_PARSER_BLOCKWISE_MSG_RECEIVING m)) (butlast qs) @
            [Some ((last qs)\<lparr>payload_ptr := Some ((acc @ b) @ concat (b' # bs)), payload_len := whole,
                     coap_status := COAP_STATUS_PARSER_BLOCKWISE_MSG_RECEIVED\<rparr>)], h')"
    "transmitted h' = transmitted h1 @ map (\<lambda>m. (continue_packet token m, src, param)) (butlast qs)"
    unfolding qs(1) by auto
  then show ?case unfolding qs(1) [symmetric] using h1(1,4) qs(2) by simp
qed simp_all

end
