(* ===== verification/Coap_Request_Roundtrip.thy ===== *)
theory Coap_Request_Roundtrip
  imports Coap_Receive_Request
begin

text \<open>
  A large request over the wire: the blocks that \<open>send_next_block1\<close> cuts out of a stored message, built
  into packets and parsed by the peer, are put together again by the peer.
\<close>

section \<open>Slices\<close>

lemma concat_slices: "concat (map (\<lambda>n. take s (drop (s * n) p)) [0..<k]) = take (s * k) p"
  by (induction k) (simp_all add: take_add [symmetric] add.commute)

lemma take_length_take: "take (length (take s xs)) xs = take s xs"
  by (cases "s \<le> length xs") (auto simp: min_def)

lemma slices_cover:
  assumes "0 < s"
  shows "concat (map (\<lambda>n. take s (drop (s * n) p)) [0..<Suc (length p div s)]) = p"
proof -
  have "length p < s * Suc (length p div s)" using assms by (simp add: dividend_less_times_div)
  then show ?thesis unfolding concat_slices by simp
qed

lemma slice_length:
  assumes "0 < s"
  shows "n < length p div s \<Longrightarrow> length (take s (drop (s * n) p)) = s"
    "n = length p div s \<Longrightarrow> length (take s (drop (s * n) p)) = length p mod s"
proof -
  show "length (take s (drop (s * n) p)) = s" if "n < length p div s"
  proof -
    have "s * Suc n \<le> s * (length p div s)" using that by (intro mult_le_mono2) simp
    also have "\<dots> \<le> length p" by simp
    finally show ?thesis by simp
  qed
  show "length (take s (drop (s * n) p)) = length p mod s" if "n = length p div s"
    using that assms by (simp add: minus_mult_div_eq_mod min_def not_le less_imp_le)
qed

text \<open>
  The message with block n, as it is on the wire: the payload pointer of the slice points into the
  payload of the stored message.
\<close>

definition on_wire :: "coap_hdr \<Rightarrow> coap_hdr" where
  "on_wire m = m\<lparr>payload_ptr := (if payload_len m = 0 then None else map_option (take (payload_len m)) (payload_ptr m))\<rparr>"

lemma builder_on_wire:
  assumes "payload_ptr m = Some data" "payload_len m \<le> length data"
  shows "sn_coap_builder_2 bw mn fill m bs = sn_coap_builder_2 bw mn fill (on_wire m) bs"
proof -
  let ?w = "on_wire m"
  have fields: "msg_type ?w = msg_type m" "token_size ?w = token_size m" "uri_path_ptr ?w = uri_path_ptr m"
    "uri_path_len ?w = uri_path_len m" "content_format ?w = content_format m" "options_list_ptr ?w = options_list_ptr m"
    "token_ptr ?w = token_ptr m" "token_len ?w = token_len m" "all_option_writers ?w = all_option_writers m"
    "payload_size bw mn bs ?w = payload_size bw mn bs m" "options_calculate_jump_need ?w = options_calculate_jump_need m"
    by (simp_all add: on_wire_def token_size_def payload_size_def jump_need_correct all_specs_def main_specs_def
        all_option_writers_def)
  have "calc_needed_packet_data_size_2 bw mn ?w bs = calc_needed_packet_data_size_2 bw mn m bs"
    unfolding calc_needed_packet_data_size_2_def fields ..
  moreover have "header_build ?w = header_build m"
    by (simp add: header_build_def on_wire_def sn_coap_header_validity_check_def)
  moreover have "options_build fill out ?w = options_build fill out m" for out
    unfolding options_build_def fields ..
  moreover have "payload_build out ?w = payload_build out m" for out
    using assms by (auto simp: payload_build_def on_wire_def rd_block_def)
  ultimately show ?thesis
    unfolding sn_coap_builder_2_def by (simp only: fields)
qed


section \<open>Sender and receiver\<close>

text \<open>The message with block n as the sender makes it, and as the receiver parses it.\<close>

definition block_n :: "coap_hdr \<Rightarrow> (nat \<Rightarrow> coap_options) \<Rightarrow> (nat \<Rightarrow> nat) \<Rightarrow> nat \<Rightarrow> nat \<Rightarrow> coap_hdr" where
  "block_n stored os ids t n =
     block1_slice stored n t (stored\<lparr>msg_id := ids n, options_list_ptr := Some (os n)\<rparr>)"

definition request_ok :: "coap_hdr \<Rightarrow> bytes \<Rightarrow> bytes \<Rightarrow> (nat \<Rightarrow> coap_options) \<Rightarrow> (nat \<Rightarrow> nat) \<Rightarrow> bool" where
  "request_ok stored token p os ids \<longleftrightarrow>
     message_ok (stored\<lparr>payload_ptr := None, payload_len := 0, options_list_ptr := None\<rparr>) \<and>
     msg_code stored \<in> {1, 2, 3, 4} \<and> token_ptr stored = Some token \<and>
     payload_ptr stored = Some p \<and> payload_len stored = length p \<and>
     0 < length p \<and> length p < 65536 \<and>
     (\<forall>n. options_ok (os n) \<and> ids n < 65536)"

lemma block_n_fields:
  assumes r: "request_ok stored token p os ids" and t: "t \<le> 6" and n: "n \<le> length p div 2 ^ (t + 4)"
  defines "s \<equiv> 2 ^ (t + 4)"
  defines "b \<equiv> take s (drop (s * n) p)"
  defines "again \<equiv> n < length p div s"
  shows "on_wire (block_n stored os ids t n) =
    stored\<lparr>msg_id := ids n, payload_len := length b, payload_ptr := (if b = [] then None else Some b),
           options_list_ptr := Some ((os n)\<lparr>block1 := int (16 * n + (if again then 8 else 0) + t)\<rparr>)\<rparr>"
    "payload_ptr (block_n stored os ids t n) = Some (drop (s * n) p)"
    "payload_len (block_n stored os ids t n) = length b"
proof -
  have s: "0 < s" "16 \<le> s" "s \<le> 1024"
    using t power_increasing [of 4 "t + 4" "2 :: nat"] power_increasing [of "t + 4" 10 "2 :: nat"] by (auto simp: s_def)
  have p: "payload_ptr stored = Some p" "payload_len stored = length p" "length p < 65536"
    using r by (auto simp: request_ok_def)
  have "s * n \<le> s * (length p div s)" using n unfolding s_def by (rule mult_le_mono2)
  also have "\<dots> \<le> length p" by simp
  finally have off: "s * n \<le> length p" .
  have next_off: "s * (n + 1) \<le> length p + 1024" using off s by simp
  have wrap: "u32_wrap (s * n) = s * n" "u32_wrap (s + s * n) = s + s * n"
    using off next_off p by (simp_all add: wrap_simps)
  have "16 * n \<le> s * n" using s by simp
  then have small: "16 * n < 65536" using off p by linarith
  have opt: "block_option n t = int (16 * n + t)" "t < 8"
    using small t by (simp_all add: block_option_def wrap_simps Let_def)
  have more: "\<not> more_blocks (int (16 * n + t))"
    using block_fields(2) [of t n False] small t by simp
  have last: "s * (n + 1) > length p \<longleftrightarrow> \<not> again"
    using div_less_iff_less_mult [OF s(1), of "length p" "n + 1"]
    unfolding again_def by (simp only: mult.commute [of s] not_less) linarith
  have len: "length b = (if again then s else length p - s * n)"
    using last by (auto simp: b_def)
  define k where "k = length p - s * n"
  have k: "k < 65536" "length p = s * n + k" using off p by (simp_all add: k_def)
  have "int (length p) - int (s * n) = int k" unfolding k(2) by simp
  then have "rest_len (length p) (s * n) = k"
    using k(1) unfolding rest_len_def by (simp only: mod_pos_pos_trivial of_nat_less_numeral_iff of_nat_0_le_iff nat_int)
  then have rest: "rest_len (length p) (s * n) = length p - s * n" by (simp add: k_def)
  show f: "payload_ptr (block_n stored os ids t n) = Some (drop (s * n) p)"
    "payload_len (block_n stored os ids t n) = length b"
    using p last len rest by (auto simp: block_n_def block1_slice_def Let_def s_def [symmetric] wrap advance_def upd_options_def)
  have b: "take (length b) (drop (s * n) p) = b" unfolding b_def by (rule take_length_take)
  have "on_wire (block_n stored os ids t n) =
      (block_n stored os ids t n)\<lparr>payload_ptr := (if b = [] then None else Some b)\<rparr>"
    unfolding on_wire_def f by (simp add: b)
  also have "\<dots> = stored\<lparr>msg_id := ids n, payload_len := length b, payload_ptr := (if b = [] then None else Some b),
           options_list_ptr := Some ((os n)\<lparr>block1 := int (16 * n + (if again then 8 else 0) + t)\<rparr>)\<rparr>"
    using p last len rest opt more
    by (auto simp: block_n_def block1_slice_def Let_def s_def [symmetric] wrap upd_options_def set_more_def)
  finally show "on_wire (block_n stored os ids t n) =
    stored\<lparr>msg_id := ids n, payload_len := length b, payload_ptr := (if b = [] then None else Some b),
           options_list_ptr := Some ((os n)\<lparr>block1 := int (16 * n + (if again then 8 else 0) + t)\<rparr>)\<rparr>" .
qed


definition block_packet :: "coap_hdr \<Rightarrow> (nat \<Rightarrow> coap_options) \<Rightarrow> (nat \<Rightarrow> nat) \<Rightarrow> nat \<Rightarrow> nat \<Rightarrow> bytes" where
  "block_packet stored os ids t n = coap_wire (on_wire (block_n stored os ids t n))"

definition received_block :: "coap_hdr \<Rightarrow> (nat \<Rightarrow> coap_options) \<Rightarrow> (nat \<Rightarrow> nat) \<Rightarrow> nat \<Rightarrow> nat \<Rightarrow> coap_hdr" where
  "received_block stored os ids t n = canonical (on_wire (block_n stored os ids t n))"

lemma options_ok_block1: "options_ok opts \<Longrightarrow> -1 \<le> v \<Longrightarrow> v \<le> 16777215 \<Longrightarrow> options_ok (opts\<lparr>block1 := v\<rparr>)"
  by (simp add: options_ok_def)

lemma on_wire_ok:
  assumes r: "request_ok stored token p os ids" and t: "t \<le> 6" and n: "n \<le> length p div 2 ^ (t + 4)"
  shows "message_ok (on_wire (block_n stored os ids t n))"
proof -
  have "2 ^ (t + 4) * n \<le> 2 ^ (t + 4) * (length p div 2 ^ (t + 4))" using n by (rule mult_le_mono2)
  also have "\<dots> \<le> length p" by simp
  finally have off: "2 ^ (t + 4) * n < 65536" using r by (simp add: request_ok_def)
  have "16 \<le> (2 :: nat) ^ (t + 4)" using power_increasing [of 4 "t + 4" "2 :: nat"] by simp
  then have "16 * n \<le> 2 ^ (t + 4) * n" by (rule mult_le_mono1)
  also note off
  finally have "16 * n < 65536" .
  then have v: "options_ok ((os n)\<lparr>block1 := int (16 * n + (if again then 8 else 0) + t)\<rparr>)" for again
    using t options_ok_block1 [of "os n"] r by (simp add: request_ok_def)
  have "message_ok (stored\<lparr>msg_id := ids n, payload_len := length b, payload_ptr := (if b = [] then None else Some b),
      options_list_ptr := Some ((os n)\<lparr>block1 := int (16 * n + (if again then 8 else 0) + t)\<rparr>)\<rparr>)" for b again
    using r v [of again] by (auto simp: message_ok_def request_ok_def exact_def)
  then show ?thesis unfolding block_n_fields(1) [OF assms] .
qed

lemma received_block_carries:
  assumes r: "request_ok stored token p os ids" and t: "t \<le> 6" and n: "n \<le> length p div 2 ^ (t + 4)"
  shows "carries_block token t n (n < length p div 2 ^ (t + 4)) (take (2 ^ (t + 4)) (drop (2 ^ (t + 4) * n) p))
      (received_block stored os ids t n)"
    "size1_of (received_block stored os ids t n) = (if use_size1 (os n) then size1 (os n) else 0)"
proof -
  let ?v = "int (16 * n + (if n < length p div 2 ^ (t + 4) then 8 else 0) + t)"
  have "?v \<noteq> -1" by simp
  then have c: "carries_options ((os n)\<lparr>block1 := ?v\<rparr>)"
    by (simp add: carries_options_def late_groups_def uint_value_if_def)
  then show "size1_of (received_block stored os ids t n) = (if use_size1 (os n) then size1 (os n) else 0)"
    unfolding received_block_def block_n_fields(1) [OF assms]
    by (simp add: canonical_def size1_of_def canonical_options_def)
  have "carries_block token t n again b
      (canonical (stored\<lparr>msg_id := ids n, payload_len := length b, payload_ptr := (if b = [] then None else Some b),
         options_list_ptr := Some ((os n)\<lparr>block1 := int (16 * n + (if again then 8 else 0) + t)\<rparr>)\<rparr>))"
    if "carries_options ((os n)\<lparr>block1 := int (16 * n + (if again then 8 else 0) + t)\<rparr>)" for b again
    using r that
    by (auto simp: carries_block_def canonical_def block1_of_def canonical_options_def request_ok_def message_ok_def exact_def)
  from this [OF c] show "carries_block token t n (n < length p div 2 ^ (t + 4)) (take (2 ^ (t + 4)) (drop (2 ^ (t + 4) * n) p))
      (received_block stored os ids t n)"
    unfolding received_block_def block_n_fields(1) [OF assms] .
qed

lemma block_messages_upt:
  assumes "\<And>i. i < k \<Longrightarrow> carries_block token t i True (b i) (m i) \<and> length (b i) = 2 ^ (t + 4)"
    and "carries_block token t k False (b k) (m k)" "length (b k) \<le> 2 ^ (t + 4)" and "n \<le> k"
  shows "block_messages token t n (map m [n..<Suc k]) (map b [n..<Suc k])"
  using \<open>n \<le> k\<close>
proof (induction "k - n" arbitrary: n)
  case 0
  then have "n = k" by simp
  with assms(2,3) show ?case by simp
next
  case (Suc d)
  then have n: "n < k" by simp
  then have l: "[n..<Suc k] = n # [Suc n..<Suc k]" "[Suc n..<Suc k] = Suc n # [Suc (Suc n)..<Suc k]"
    by (rule upt_conv_Cons [OF less_SucI], intro upt_conv_Cons Suc_mono)
  have "block_messages token t (Suc n) (map m [Suc n..<Suc k]) (map b [Suc n..<Suc k])"
    using Suc n by (intro Suc.hyps(1)) simp_all
  with assms(1) [OF n] show ?case unfolding l list.map by simp
qed

text \<open>
  Property C11. A large request survives its transfer in blocks: the sender builds block n of the stored
  message into a packet, the parser of the receiver reads the packet back, and when the blocks arrive in
  order the receiver returns the last message with the whole payload, whether the first block announced the size or not. On
  the way it transmits, for every block but the last, exactly one packet to the sender: the acknowledgement with the identifier of the block, its
  Block1 option, the token and the code for its method, which is 2.31 (Continue) for PUT and POST. The last block is left to the application to answer. Every packet fits, the block size of the sender is at most that of
  the receiver, and the receiver has no other transfer with the same address, port and token.
\<close>

theorem request_blocks_roundtrip:
  assumes "request_ok stored token p os ids" "t \<le> own" "own_block_size own (sn_coap_block_data_size h)"
    and "\<forall>n \<le> length p div 2 ^ (t + 4). length (block_packet stored os ids t n) \<le> 32767"
    and "\<forall>n \<le> length p div 2 ^ (t + 4). use_size1 (os n) \<longrightarrow> size1 (os n) = length p" "length p \<le> cfg_max_incoming_block_message env"
    and "all_granted env" "strangers src token (linked_list_blockwise_received_payloads h)"
  shows "\<exists>h'. (\<forall>n \<le> length p div 2 ^ (t + 4).
      sn_coap_builder_2 bw mn fill (block_n stored os ids t n) bs =
        Some (int (length (block_packet stored os ids t n)), block_packet stored os ids t n) \<and>
      (\<exists>k. sn_coap_parser (\<lambda>_. True) 0 (length (block_packet stored os ids t n)) (Some (block_packet stored os ids t n)) =
        Some (Some (received_block stored os ids t n), Some COAP_VERSION, k))) \<and>
    receive_requests env rx src param (map (received_block stored os ids t) [0..<Suc (length p div 2 ^ (t + 4))]) h =
      Some (map (\<lambda>n. Some (with_status COAP_STATUS_PARSER_BLOCKWISE_MSG_RECEIVING (received_block stored os ids t n)))
              [0..<length p div 2 ^ (t + 4)] @
            [Some ((received_block stored os ids t (length p div 2 ^ (t + 4)))
               \<lparr>payload_ptr := Some p, payload_len := length p, coap_status := COAP_STATUS_PARSER_BLOCKWISE_MSG_RECEIVED\<rparr>)], h') \<and>
    transmitted h' = transmitted h @
      map (\<lambda>n. (continue_packet token (received_block stored os ids t n), src, param)) [0..<length p div 2 ^ (t + 4)]"
proof -
  let ?s = "2 ^ (t + 4) :: nat" and ?k = "length p div 2 ^ (t + 4)" and ?m = "received_block stored os ids t"
  let ?b = "\<lambda>n. take ?s (drop (?s * n) p)"
  note r = assms(1)
  have t: "t \<le> 6" using assms(2,3) by (simp add: own_block_size_def)
  have tok: "token \<noteq> []" "length token \<le> 8" using r by (auto simp: request_ok_def message_ok_def exact_def)
  have p: "0 < length p" "length p < 65536" using r by (simp_all add: request_ok_def)
  have s: "0 < ?s" by simp
  have wire: "sn_coap_builder_2 bw mn fill (block_n stored os ids t n) bs =
        Some (int (length (block_packet stored os ids t n)), block_packet stored os ids t n) \<and>
      (\<exists>k. sn_coap_parser (\<lambda>_. True) 0 (length (block_packet stored os ids t n)) (Some (block_packet stored os ids t n)) =
        Some (Some (?m n), Some COAP_VERSION, k))" if n: "n \<le> ?k" for n
  proof -
    have ok: "message_ok (on_wire (block_n stored os ids t n))" by (rule on_wire_ok [OF r t n])
    have len: "length (coap_wire (on_wire (block_n stored os ids t n))) \<le> 65535"
      using assms(4) [rule_format, OF n] by (simp add: block_packet_def)
    have "payload_len (block_n stored os ids t n) \<le> length (drop (?s * n) p)"
      unfolding block_n_fields(3) [OF r t n] by simp
    from builder_on_wire [OF block_n_fields(2) [OF r t n] this] builder_wire [OF ok len] parser_wire [OF ok len]
    show ?thesis using assms(4) [rule_format, OF n] by (simp add: block_packet_def received_block_def wrap_simps)
  qed
  have blocks: "block_messages token t 0 (map ?m [0..<Suc ?k]) (map ?b [0..<Suc ?k])"
  proof (rule block_messages_upt)
    show "carries_block token t i True (?b i) (?m i) \<and> length (?b i) = ?s" if "i < ?k" for i
      using received_block_carries(1) [OF r t less_imp_le [OF that]] slice_length(1) [OF s that] that by simp
    show "carries_block token t ?k False (?b ?k) (?m ?k)"
      using received_block_carries(1) [OF r t order_refl] by (simp only: less_irrefl)
  qed simp_all
  have prog: "progress h src token (linked_list_blockwise_received_payloads h) (length p) t 0 []"
    using assms(8) by (simp add: progress_def)
  have whole: "length ([] @ concat (map ?b [0..<Suc ?k])) = length p" unfolding slices_cover [OF s] by simp
  have sizes: "size1_of (?m n) = 0 \<or> size1_of (?m n) = length p" if "n \<le> ?k" for n
    using received_block_carries(2) [OF r t that] assms(5) that by simp
  have "\<forall>m \<in> set (map ?m [0..<Suc ?k]). size1_of m \<le> cfg_max_incoming_block_message env"
  proof -
    have "size1_of (?m n) \<le> cfg_max_incoming_block_message env" if "n \<le> ?k" for n
      using sizes [OF that] assms(6) by auto
    then show ?thesis by (auto simp: less_Suc_eq)
  qed
  moreover have hd: "hd (map ?m [0..<Suc ?k]) = ?m 0" by (simp only: upt_conv_Cons list.map list.sel zero_less_Suc)
  ultimately obtain h' where "receive_requests env rx src param (map ?m [0..<Suc ?k]) h =
      Some (map (\<lambda>m. Some (with_status COAP_STATUS_PARSER_BLOCKWISE_MSG_RECEIVING m)) (butlast (map ?m [0..<Suc ?k])) @
            [Some ((last (map ?m [0..<Suc ?k]))\<lparr>payload_ptr := Some p, payload_len := length p,
                     coap_status := COAP_STATUS_PARSER_BLOCKWISE_MSG_RECEIVED\<rparr>)], h')"
    "transmitted h' = transmitted h @ map (\<lambda>m. (continue_packet token m, src, param)) (butlast (map ?m [0..<Suc ?k]))"
    using receive_requests_ok [OF assms(7) p blocks assms(2) tok prog assms(3) whole, of rx param] sizes [OF le0]
    unfolding slices_cover [OF s] hd append_Nil by blast
  with wire show ?thesis by (auto simp: butlast_append)
qed

section \<open>Example: 20 bytes in blocks of 16\<close>

definition example_request :: coap_hdr where
  "example_request = init_message\<lparr>msg_code := 3, token_ptr := Some [7], token_len := 1,
     payload_ptr := Some (replicate 20 1), payload_len := 20\<rparr>"

lemma request_blocks_roundtrip_witness:
  "\<exists>h'. receive_requests example_env None example_peer 0
     (map (received_block example_request (\<lambda>_. init_options) (\<lambda>n. (100 + n) mod 65536) 0) [0..<2]) example_handle =
     Some ([Some (with_status COAP_STATUS_PARSER_BLOCKWISE_MSG_RECEIVING
              (received_block example_request (\<lambda>_. init_options) (\<lambda>n. (100 + n) mod 65536) 0 0)),
            Some ((received_block example_request (\<lambda>_. init_options) (\<lambda>n. (100 + n) mod 65536) 0 1)
              \<lparr>payload_ptr := Some (replicate 20 1), payload_len := 20,
               coap_status := COAP_STATUS_PARSER_BLOCKWISE_MSG_RECEIVED\<rparr>)], h')"
proof -
  let ?os = "\<lambda>_ :: nat. init_options" and ?ids = "\<lambda>n. (100 + n) mod 65536" and ?p = "replicate 20 1 :: bytes"
  have r: "request_ok example_request [7] ?p ?os ?ids"
    by (simp add: request_ok_def example_request_def init_message_def init_options_def message_ok_def options_ok_def
        exact_def text_ok_def coap_known_codes_def)
  have k: "length ?p div 2 ^ (0 + 4) = 1" by simp
  have f: "all_granted example_env" "own_block_size 0 (sn_coap_block_data_size example_handle)"
    "strangers example_peer [7] (linked_list_blockwise_received_payloads example_handle)"
    "length ?p \<le> cfg_max_incoming_block_message example_env"
    by (simp_all add: all_granted_def example_env_def own_block_size_def example_handle_def sn_coap_protocol_init_def
        strangers_def)
  have "\<forall>n \<le> length ?p div 2 ^ (0 + 4). length (block_packet example_request ?os ?ids 0 n) \<le> 32767"
    unfolding k
  proof (intro allI impI)
    fix n :: nat
    assume "n \<le> 1"
    then have n: "n \<le> length ?p div 2 ^ (0 + 4)" by simp
    have "length (uint_payload 4 v []) + length (uint_payload 4 w []) \<le> 8" for v w
      using uint_payload_4_length [of v] uint_payload_4_length [of w] by simp
    note short = order_trans [OF this]
    note fields = block_n_fields(1) [OF r le0 n]
    from \<open>n \<le> 1\<close> consider "n = 0" | "n = 1" by linarith
    then show "length (block_packet example_request ?os ?ids 0 n) \<le> 32767"
      unfolding block_packet_def fields
      by cases (simp_all add: example_request_def init_message_def init_options_def coap_wire_def message_groups_def
          early_groups_def main_groups_def late_groups_def text_parts_def uint_value_if_def u32_of_int_def
          u32_wrap_def length_encode_option ext_size_def le_less_trans [OF uint_payload_4_length]
          order_trans [OF uint_payload_4_length] short)
  qed
  moreover have "\<forall>n \<le> length ?p div 2 ^ (0 + 4). use_size1 (?os n) \<longrightarrow> size1 (?os n) = length ?p"
    by (simp add: init_options_def)
  ultimately obtain h' where
    "receive_requests example_env None example_peer 0
       (map (received_block example_request ?os ?ids 0) [0..<Suc (length ?p div 2 ^ (0 + 4))]) example_handle =
     Some (map (\<lambda>n. Some (with_status COAP_STATUS_PARSER_BLOCKWISE_MSG_RECEIVING (received_block example_request ?os ?ids 0 n)))
              [0..<length ?p div 2 ^ (0 + 4)] @
            [Some ((received_block example_request ?os ?ids 0 (length ?p div 2 ^ (0 + 4)))
               \<lparr>payload_ptr := Some ?p, payload_len := length ?p,
                coap_status := COAP_STATUS_PARSER_BLOCKWISE_MSG_RECEIVED\<rparr>)], h')"
    using request_blocks_roundtrip [OF r le0 f(2) _ _ f(4) f(1) f(3), of False 0 "[]" 0 None 0] by blast
  moreover have "[0..<Suc 1] = [0..<2]" "map g [0..<1] = [g 0]" "length ?p = 20" for g :: "nat \<Rightarrow> coap_hdr option"
    by (simp_all only: Suc_1) simp_all
  ultimately show ?thesis unfolding k by (simp only: append.simps) blast
qed

end
