(* ===== verification/Flash_Pal.thy ===== *)
theory Flash_Pal
  imports Pelion_Prelude
begin

text \<open>
  Internal flash: the access layer \<open>mbed-client-pal/Source/PAL-Impl/Modules/Storage/Flash/pal_internalFlash.c\<close>
  on top of the flash that is simulated in a file,
  \<open>pal_plat_internalFlash_FlashOverFilesystem.c\<close>.

  The content of the file is the list \<open>cells\<close>. The file system is not part of the repository, so what its
  writes do is scripted: each write takes the next event of \<open>events\<close>, and works when there is none left. A
  write can fail, or the power can be cut, after some pages have been written. A read takes the next entry of
  \<open>read_errors\<close>. Opening the file, seeking and allocating the page buffer fail together with the access they
  belong to.

  An operation ends in one of three ways. \<open>Stuck\<close> is an access outside the memory of the program or the flash,
  or a loop that never ends. \<open>Power_Lost\<close> leaves only the content of the flash. The parameter checks of the
  debug build are part of the model, the semaphore that serialises the callers is not.
\<close>

section \<open>Operations that can be cut off\<close>

datatype 'r outcome = Stuck | Power_Lost bytes | Returns 'r

fun followed_by :: "'a outcome \<Rightarrow> ('a \<Rightarrow> 'b outcome) \<Rightarrow> 'b outcome" where
  "followed_by Stuck g = Stuck"
| "followed_by (Power_Lost left) g = Power_Lost left"
| "followed_by (Returns r) g = g r"

lemma followed_by_eq_Returns:
  "followed_by m g = Returns r \<longleftrightarrow> (\<exists>x. m = Returns x \<and> g x = Returns r)"
  by (cases m) auto

lemma followed_by_assoc [simp]: "followed_by (followed_by m f) g = followed_by m (\<lambda>x. followed_by (f x) g)"
  by (cases m) auto

lemma followed_by_cong: "m = m' \<Longrightarrow> followed_by m g = followed_by m' g"
  by simp


section \<open>The device\<close>

datatype flash_event = Works | Fails nat | Power_Fails nat

record flash_geometry =
  page_size :: nat
  sector_size :: nat
  area_address :: "nat list"
  area_size :: "nat list"

record flash_dev =
  cells :: bytes
  events :: "flash_event list"
  read_errors :: "bool list"

datatype pal_status =
  PAL_SUCCESS
| PAL_ERR_INTERNAL_FLASH_WRONG_SIZE
| PAL_ERR_INTERNAL_FLASH_NULL_PTR_RECEIVED
| PAL_ERR_INTERNAL_FLASH_BUFFER_ADDRESS_NOT_ALIGNED
| PAL_ERR_INTERNAL_FLASH_ADDRESS_NOT_ALIGNED
| PAL_ERR_INTERNAL_FLASH_SECTOR_NOT_ALIGNED
| PAL_ERR_FS_ERROR

definition overwrite :: "bytes \<Rightarrow> nat \<Rightarrow> bytes \<Rightarrow> bytes" where
  "overwrite old i new = take i old @ new @ drop (i + length new) old"

text \<open>One write to the file, and one read.\<close>

definition write_cells :: "flash_geometry \<Rightarrow> nat \<Rightarrow> bytes \<Rightarrow> flash_dev \<Rightarrow> (pal_status \<times> flash_dev) outcome" where
  "write_cells geo address data d =
     (if address + length data > length (cells d) then Stuck
      else case events d of
        [] \<Rightarrow> Returns (PAL_SUCCESS, d\<lparr>cells := overwrite (cells d) address data\<rparr>)
      | Works # es \<Rightarrow> Returns (PAL_SUCCESS, d\<lparr>cells := overwrite (cells d) address data, events := es\<rparr>)
      | Fails k # es \<Rightarrow> Returns (PAL_ERR_FS_ERROR,
          d\<lparr>cells := overwrite (cells d) address (take (k * page_size geo) data), events := es\<rparr>)
      | Power_Fails k # es \<Rightarrow> Power_Lost (overwrite (cells d) address (take (k * page_size geo) data)))"

definition read_cells :: "nat \<Rightarrow> nat \<Rightarrow> flash_dev \<Rightarrow> ((pal_status \<times> bytes) \<times> flash_dev) outcome" where
  "read_cells n address d =
     (if address + n > length (cells d) then Stuck
      else if read_errors d \<noteq> [] \<and> hd (read_errors d)
      then Returns ((PAL_ERR_FS_ERROR, []), d\<lparr>read_errors := tl (read_errors d)\<rparr>)
      else Returns ((PAL_SUCCESS, take n (drop address (cells d))), d\<lparr>read_errors := tl (read_errors d)\<rparr>))"


section \<open>The simulated flash\<close>

definition is_aligned_to_sector :: "flash_geometry \<Rightarrow> nat \<Rightarrow> nat \<Rightarrow> bool" where
  "is_aligned_to_sector geo address n \<longleftrightarrow> n mod sector_size geo = 0 \<and> address mod sector_size geo = 0"

definition plat_internalFlashRead ::
  "nat \<Rightarrow> nat \<Rightarrow> flash_dev \<Rightarrow> ((pal_status \<times> bytes) \<times> flash_dev) outcome" where
  "plat_internalFlashRead n address d =
     (if n = 0 then Returns ((PAL_ERR_INTERNAL_FLASH_WRONG_SIZE, []), d) else read_cells n address d)"

definition plat_internalFlashErase ::
  "flash_geometry \<Rightarrow> nat \<Rightarrow> nat \<Rightarrow> flash_dev \<Rightarrow> (pal_status \<times> flash_dev) outcome" where
  "plat_internalFlashErase geo address n d =
     (if n = 0 then Returns (PAL_ERR_INTERNAL_FLASH_WRONG_SIZE, d)
      else if address mod 4 \<noteq> 0 then Returns (PAL_ERR_INTERNAL_FLASH_BUFFER_ADDRESS_NOT_ALIGNED, d)
      else if \<not> is_aligned_to_sector geo address n then Returns (PAL_ERR_INTERNAL_FLASH_SECTOR_NOT_ALIGNED, d)
      else write_cells geo address (replicate (n div page_size geo * page_size geo) 0xFF) d)"

definition page_padded :: "flash_geometry \<Rightarrow> bytes \<Rightarrow> bytes" where
  "page_padded geo data = data @ replicate (page_size geo - length data) 0xFF"

definition plat_internalFlashWrite ::
  "flash_geometry \<Rightarrow> nat \<Rightarrow> nat \<Rightarrow> bytes \<Rightarrow> flash_dev \<Rightarrow> (pal_status \<times> flash_dev) outcome" where
  "plat_internalFlashWrite geo n address data d =
     (if address mod 4 \<noteq> 0 then Returns (PAL_ERR_INTERNAL_FLASH_BUFFER_ADDRESS_NOT_ALIGNED, d)
      else if n = 0 then Returns (PAL_ERR_INTERNAL_FLASH_WRONG_SIZE, d)
      else case rd_block data 0 n of
        None \<Rightarrow> Stuck
      | Some bs \<Rightarrow>
          let left = n mod page_size geo in
          followed_by
            (if page_size geo \<le> n then write_cells geo address (take (n - left) bs) d else Returns (PAL_SUCCESS, d))
            (\<lambda>(ret, d'). if ret = PAL_SUCCESS \<and> left \<noteq> 0
               then write_cells geo (address + (n - left)) (page_padded geo (drop (n - left) bs)) d'
               else Returns (ret, d')))"


section \<open>The access layer\<close>

definition pal_programToFlashAligned ::
  "flash_geometry \<Rightarrow> nat \<Rightarrow> nat \<Rightarrow> bytes \<Rightarrow> flash_dev \<Rightarrow> (pal_status \<times> flash_dev) outcome" where
  "pal_programToFlashAligned geo n address data d =
     (case rd_block data 0 n of
        None \<Rightarrow> Stuck
      | Some bs \<Rightarrow>
          let left = n mod page_size geo in
          followed_by
            (if page_size geo \<le> n then plat_internalFlashWrite geo (n - left) address bs d
             else Returns (PAL_SUCCESS, d))
            (\<lambda>(ret, d'). if ret = PAL_SUCCESS \<and> left \<noteq> 0
               then plat_internalFlashWrite geo (page_size geo) (address + (n - left))
                      (page_padded geo (drop (n - left) bs)) d'
               else Returns (ret, d')))"

definition pal_internalFlashRead ::
  "nat \<Rightarrow> nat \<Rightarrow> flash_dev \<Rightarrow> ((pal_status \<times> bytes) \<times> flash_dev) outcome" where
  "pal_internalFlashRead n address d =
     (if n = 0 then Returns ((PAL_ERR_INTERNAL_FLASH_WRONG_SIZE, []), d) else plat_internalFlashRead n address d)"

text \<open>
  The loop that erases sector by sector. Every sector has the same size, and the size to erase is a multiple
  of it, which the caller has checked. The result is that of the last sector only.
\<close>

fun erase_sectors ::
  "flash_geometry \<Rightarrow> nat \<Rightarrow> nat \<Rightarrow> pal_status \<Rightarrow> flash_dev \<Rightarrow> (pal_status \<times> flash_dev) outcome" where
  "erase_sectors geo address n ret d =
     (if n = 0 then Returns (ret, d)
      else if sector_size geo = 0 then Stuck
      else followed_by (plat_internalFlashErase geo address n d)
             (\<lambda>(ret', d'). erase_sectors geo (address + sector_size geo) (n - sector_size geo) ret' d'))"

declare erase_sectors.simps [simp del]

definition pal_internalFlashErase ::
  "flash_geometry \<Rightarrow> nat \<Rightarrow> nat \<Rightarrow> flash_dev \<Rightarrow> (pal_status \<times> flash_dev) outcome" where
  "pal_internalFlashErase geo address n d =
     (if n = 0 then Returns (PAL_ERR_INTERNAL_FLASH_WRONG_SIZE, d)
      else if address mod 4 \<noteq> 0 then Returns (PAL_ERR_INTERNAL_FLASH_BUFFER_ADDRESS_NOT_ALIGNED, d)
      else if \<not> is_aligned_to_sector geo address n then Returns (PAL_ERR_INTERNAL_FLASH_SECTOR_NOT_ALIGNED, d)
      else erase_sectors geo address n PAL_SUCCESS d)"

text \<open>The loop that cuts a write at the sector boundaries, and the rest of it.\<close>

function write_sectors ::
  "flash_geometry \<Rightarrow> nat \<Rightarrow> nat \<Rightarrow> bytes \<Rightarrow> flash_dev \<Rightarrow> (pal_status \<times> flash_dev) outcome" where
  "write_sectors geo left address data d =
     (if sector_size geo = 0 then Stuck
      else if address mod sector_size geo + left > sector_size geo then
        let part = sector_size geo - address mod sector_size geo in
        followed_by (pal_programToFlashAligned geo part address data d)
          (\<lambda>(ret, d'). if ret \<noteq> PAL_SUCCESS then Returns (ret, d')
             else write_sectors geo (left - part) (address + part) (drop (part div 4 * 4) data) d')
      else if 0 < left then pal_programToFlashAligned geo left address data d
      else Returns (PAL_SUCCESS, d))"
  by pat_completeness auto
termination
proof (relation "measure (\<lambda>(geo, left, _). left)", simp)
  fix geo left address data d x part ret d'
  assume "sector_size (geo :: flash_geometry) \<noteq> 0" "sector_size geo < address mod sector_size geo + left"
    "part = sector_size geo - address mod sector_size geo"
  then show "((geo, left - part, address + part, drop (part div 4 * 4) data, d'), geo, left, address, data, d)
    \<in> measure (\<lambda>(geo, left, _). left)"
    using mod_less_divisor [of "sector_size geo" address] unfolding in_measure split_conv by linarith
qed

declare write_sectors.simps [simp del]

definition pal_internalFlashWrite ::
  "flash_geometry \<Rightarrow> nat \<Rightarrow> nat \<Rightarrow> bytes \<Rightarrow> flash_dev \<Rightarrow> (pal_status \<times> flash_dev) outcome" where
  "pal_internalFlashWrite geo n address data d =
     (if address mod 4 \<noteq> 0 then Returns (PAL_ERR_INTERNAL_FLASH_BUFFER_ADDRESS_NOT_ALIGNED, d)
      else if n = 0 then Returns (PAL_ERR_INTERNAL_FLASH_WRONG_SIZE, d)
      else if address mod page_size geo \<noteq> 0 then Returns (PAL_ERR_INTERNAL_FLASH_ADDRESS_NOT_ALIGNED, d)
      else write_sectors geo n address data d)"

end
