(* ===== verification/Sotp.thy ===== *)
theory Sotp
  imports Flash_Pal
begin

text \<open>
  Secure one-time-programmable storage, \<open>mbed-client-esfs/source/sotp/sotp.c\<close>: small items, each under one of 16
  types, in a log of records. One of two flash areas is active. When it is full the garbage collection
  writes the items that are left to the other area and makes that one active with a master record.

  The model is the default build, which is not thread-safe: the locks always succeed. Records are laid out in
  memory as a little-endian machine has them. Out parameters that the code leaves unset are 0, False or [].
\<close>

section \<open>Types and constants\<close>

datatype sotp_result =
  SOTP_SUCCESS
| SOTP_READ_ERROR
| SOTP_WRITE_ERROR
| SOTP_NOT_FOUND
| SOTP_DATA_CORRUPT
| SOTP_BAD_VALUE
| SOTP_BUFF_TOO_SMALL
| SOTP_FLASH_AREA_TOO_SMALL
| SOTP_OS_ERROR
| SOTP_BUFF_NOT_ALIGNED
| SOTP_ALREADY_EXISTS
| SOTP_MEM_ALLOC_ERROR

datatype area_state = AREA_STATE_NONE | AREA_STATE_EMPTY | AREA_STATE_VALID

abbreviation (input) "SOTP_MAX_TYPES \<equiv> 16 :: nat"
abbreviation (input) "SOTP_NUM_AREAS \<equiv> 2 :: nat"
abbreviation (input) "DELETE_ITEM_FLAG \<equiv> 0x8000 :: nat"
abbreviation (input) "HEADER_FLAG_MASK \<equiv> 0xF000 :: nat"
abbreviation (input) "SOTP_MASTER_RECORD_TYPE \<equiv> 0x0FFE :: nat"
abbreviation (input) "SOTP_NO_TYPE \<equiv> 0x0FFF :: nat"
abbreviation (input) "NUM_WRITE_RETRIES \<equiv> 100 :: nat"
abbreviation (input) "INITIAL_CRC \<equiv> 0xFFFFFFFF :: 32 word"
abbreviation (input) "HEADER_SIZE \<equiv> 8 :: nat"
abbreviation (input) "MASTER_RECORD_SIZE \<equiv> 8 :: nat"
abbreviation (input) "INT_BUF_SIZE \<equiv> 128 :: nat"

record sotp_header =
  type_and_flags :: nat
  header_length :: nat
  mac :: "32 word"

text \<open>The file variables of \<open>sotp.c\<close> and the flash; of the page buffer, whether it can be and whether it is
  allocated.\<close>

record sotp =
  geometry :: flash_geometry
  page_buf_granted :: bool
  page_buf :: bool
  device :: flash_dev
  init_done :: bool
  active_area :: nat
  active_area_version :: nat
  free_space_offset :: nat
  offset_by_type :: "nat list"
  min_prog_size :: nat

type_synonym 'a sotp_run = "('a \<times> sotp) outcome"


section \<open>Helpers\<close>

definition pad_addr :: "nat \<Rightarrow> nat \<Rightarrow> nat" where
  "pad_addr address n = u32_wrap ((u32_wrap (address + 0xFFFFFFFF) div n + 1) * n)"

text \<open>The offset of a record and the area it is in, in one 32-bit value.\<close>

definition record_location :: "nat \<Rightarrow> nat \<Rightarrow> nat" where
  "record_location area offset = offset OR u32_wrap (push_bit 31 area)"

definition location_area :: "nat \<Rightarrow> nat" where
  "location_area entry = u8_wrap (drop_bit 31 entry)"

definition location_offset :: "nat \<Rightarrow> nat" where
  "location_offset entry = entry AND 0x7FFFFFFF"

definition little_endian :: "nat \<Rightarrow> nat \<Rightarrow> bytes" where
  "little_endian n v = map (\<lambda>i. byte_of (v div 256 ^ i)) [0..<n]"

fun from_little_endian :: "bytes \<Rightarrow> nat" where
  "from_little_endian [] = 0"
| "from_little_endian (b # bs) = unat b + 256 * from_little_endian bs"

definition sotp_header_bytes :: "sotp_header \<Rightarrow> bytes" where
  "sotp_header_bytes h = little_endian 2 (type_and_flags h) @ little_endian 2 (header_length h) @ little_endian 4 (unat (mac h))"

definition header_of :: "bytes \<Rightarrow> sotp_header" where
  "header_of bs =
     \<lparr>type_and_flags = from_little_endian (take 2 bs), header_length = from_little_endian (take 2 (drop 2 bs)),
      mac = word_of_nat (from_little_endian (take 4 (drop 4 bs)))\<rparr>"

definition crc_bit :: "32 word \<Rightarrow> 32 word" where
  "crc_bit crc = drop_bit 1 crc XOR (0xEDB88320 AND - (crc AND 1))"

definition crc_byte :: "32 word \<Rightarrow> u8 \<Rightarrow> 32 word" where
  "crc_byte crc b = (crc_bit ^^ 8) (crc XOR ucast b)"

definition crc32 :: "32 word \<Rightarrow> bytes \<Rightarrow> 32 word" where
  "crc32 init_crc data = foldl crc_byte init_crc data"


section \<open>Flash access\<close>

definition area_start :: "sotp \<Rightarrow> nat \<Rightarrow> nat" where
  "area_start s area = area_address (geometry s) ! area"

definition area_limit :: "sotp \<Rightarrow> nat \<Rightarrow> nat" where
  "area_limit s area = area_size (geometry s) ! area"

definition with_device :: "(flash_dev \<Rightarrow> ('a \<times> flash_dev) outcome) \<Rightarrow> sotp \<Rightarrow> 'a sotp_run" where
  "with_device f s = followed_by (f (device s)) (\<lambda>(r, d). Returns (r, s\<lparr>device := d\<rparr>))"

definition sotp_flash_read_area :: "nat \<Rightarrow> nat \<Rightarrow> nat \<Rightarrow> sotp \<Rightarrow> (pal_status \<times> bytes) sotp_run" where
  "sotp_flash_read_area area offset n s = with_device (pal_internalFlashRead n (area_start s area + offset)) s"

text \<open>A write or an erase is tried again until it works, up to 100 times.\<close>

fun retry :: "nat \<Rightarrow> (flash_dev \<Rightarrow> (pal_status \<times> flash_dev) outcome) \<Rightarrow> flash_dev \<Rightarrow> (pal_status \<times> flash_dev) outcome" where
  "retry n f d =
     followed_by (f d) (\<lambda>(ret, d'). if ret = PAL_SUCCESS \<or> n \<le> 1 then Returns (ret, d') else retry (n - 1) f d')"

declare retry.simps [simp del]

definition sotp_flash_write_area :: "nat \<Rightarrow> nat \<Rightarrow> nat \<Rightarrow> bytes \<Rightarrow> sotp \<Rightarrow> pal_status sotp_run" where
  "sotp_flash_write_area area offset n data s =
     with_device (retry NUM_WRITE_RETRIES
       (pal_internalFlashWrite (geometry s) n (area_start s area + offset) data)) s"

definition sotp_flash_erase_area :: "nat \<Rightarrow> sotp \<Rightarrow> pal_status sotp_run" where
  "sotp_flash_erase_area area s =
     with_device (retry NUM_WRITE_RETRIES (pal_internalFlashErase (geometry s) (area_start s area) (area_limit s area))) s"

text \<open>The offset behind the last byte that is not blank: the area is read from its end in blocks of 128 bytes.\<close>

definition used_length :: "bytes \<Rightarrow> nat" where
  "used_length block = length (rev (dropWhile (\<lambda>b. b = 0xFF) (rev block)))"

fun scan_blocks :: "nat \<Rightarrow> nat \<Rightarrow> nat \<Rightarrow> sotp \<Rightarrow> (pal_status \<times> nat) sotp_run" where
  "scan_blocks area 0 offset s = Returns ((PAL_SUCCESS, offset), s)"
| "scan_blocks area (Suc n) offset s =
     followed_by (sotp_flash_read_area area (offset - INT_BUF_SIZE) INT_BUF_SIZE s)
       (\<lambda>((ret, block), s').
          if ret \<noteq> PAL_SUCCESS then Returns ((ret, offset - INT_BUF_SIZE), s')
          else if 0 < used_length block then Returns ((PAL_SUCCESS, offset - INT_BUF_SIZE + used_length block), s')
          else scan_blocks area n (offset - INT_BUF_SIZE) s')"

definition calc_empty_space :: "nat \<Rightarrow> sotp \<Rightarrow> (pal_status \<times> nat) sotp_run" where
  "calc_empty_space area s = scan_blocks area (area_limit s area div INT_BUF_SIZE) (area_limit s area) s"


section \<open>Records\<close>

text \<open>What \<open>read_record\<close> returns: its result, and its out parameters with the data read into the user's buffer.\<close>

record read_result =
  rr_ret :: sotp_result
  rr_valid :: bool
  rr_type :: nat
  rr_flags :: nat
  rr_length :: nat
  rr_next :: nat
  rr_data :: bytes

text \<open>
  The loop that reads the data in chunks and continues the checksum. A chunk of no bytes is refused by the
  flash layer, so that the loop ends with an error.
\<close>

function read_chunks :: "nat \<Rightarrow> nat \<Rightarrow> nat \<Rightarrow> nat \<Rightarrow> 32 word \<Rightarrow> bytes \<Rightarrow> sotp \<Rightarrow> (bool \<times> 32 word \<times> bytes) sotp_run" where
  "read_chunks area offset data_len buf_len crc done s =
     (if data_len = 0 then Returns ((True, crc, done), s)
      else let chunk = min data_len buf_len in
        followed_by (sotp_flash_read_area area offset chunk s)
          (\<lambda>((ret, bs), s').
             if ret \<noteq> PAL_SUCCESS \<or> chunk = 0 then Returns ((False, crc, done), s')
             else read_chunks area (offset + chunk) (data_len - chunk) buf_len (crc32 crc bs) (done @ bs) s'))"
  by pat_completeness auto
termination
  by (relation "measure (\<lambda>(area, offset, data_len, _). data_len)") auto

declare read_chunks.simps [simp del]

definition read_record :: "nat \<Rightarrow> nat \<Rightarrow> nat \<Rightarrow> bool \<Rightarrow> sotp \<Rightarrow> read_result sotp_run" where
  "read_record area offset buf_len validate_only s =
     followed_by (sotp_flash_read_area area offset HEADER_SIZE s)
       (\<lambda>((ret, bs), s1).
          let nothing = \<lparr>rr_ret = SOTP_READ_ERROR, rr_valid = True, rr_type = 0, rr_flags = 0, rr_length = 0,
                         rr_next = 0, rr_data = []\<rparr> in
          if ret \<noteq> PAL_SUCCESS then Returns (nothing, s1)
          else
            let h = header_of bs;
                crc = crc32 INITIAL_CRC (take 4 bs);
                typ = type_and_flags h mod 4096;
                flags = type_and_flags h AND HEADER_FLAG_MASK;
                known = nothing\<lparr>rr_type := typ, rr_flags := flags\<rparr>;
                data_len = header_length h in
            if SOTP_MAX_TYPES \<le> typ \<and> typ \<noteq> SOTP_MASTER_RECORD_TYPE
            then Returns (known\<lparr>rr_ret := SOTP_SUCCESS, rr_valid := False\<rparr>, s1)
            else if \<not> validate_only \<and> buf_len < data_len
            then Returns (known\<lparr>rr_ret := SOTP_BUFF_TOO_SMALL, rr_length := data_len,
                     rr_next := pad_addr (offset + HEADER_SIZE + data_len) (min_prog_size s)\<rparr>, s1)
            else followed_by
              (read_chunks area (offset + HEADER_SIZE) data_len (if validate_only then INT_BUF_SIZE else buf_len) crc [] s1)
              (\<lambda>((ok, crc', data), s2).
                 if \<not> ok then Returns (known, s2)
                 else if mac h \<noteq> crc' then Returns (known\<lparr>rr_ret := SOTP_SUCCESS, rr_valid := False\<rparr>, s2)
                 else Returns (known\<lparr>rr_ret := SOTP_SUCCESS, rr_length := data_len,
                        rr_next := pad_addr (offset + HEADER_SIZE + data_len) (min_prog_size s),
                        rr_data := (if validate_only then [] else data)\<rparr>, s2)))"

text \<open>
  A record is written in two parts: the header, with the data that fits into the page it begins, and the rest
  of the data. The buffer of the page is longer than what is written from it.
\<close>

definition record_header :: "nat \<Rightarrow> bytes \<Rightarrow> sotp_header" where
  "record_header tf data =
     (let h = \<lparr>type_and_flags = u16_wrap tf, header_length = u16_wrap (length data), mac = 0\<rparr> in
      h\<lparr>mac := crc32 (crc32 INITIAL_CRC (take 4 (sotp_header_bytes h))) data\<rparr>)"

definition write_record :: "nat \<Rightarrow> nat \<Rightarrow> nat \<Rightarrow> nat \<Rightarrow> nat \<Rightarrow> bytes \<Rightarrow> sotp \<Rightarrow> (sotp_result \<times> nat) sotp_run" where
  "write_record area offset typ flags data_len buf s =
     (case rd_block buf 0 data_len of
        None \<Rightarrow> Stuck
      | Some data \<Rightarrow>
          if HEADER_SIZE < min_prog_size s \<and> \<not> page_buf s then Stuck else
          let copy_size = (if HEADER_SIZE < min_prog_size s then min data_len (min_prog_size s - HEADER_SIZE) else 0);
              prog_size = HEADER_SIZE + copy_size;
              prog_buf = sotp_header_bytes (record_header (typ OR flags) data) @ take copy_size data in
          followed_by (sotp_flash_write_area area offset prog_size prog_buf s)
            (\<lambda>(ret, s1).
               if ret \<noteq> PAL_SUCCESS then Returns ((SOTP_WRITE_ERROR, 0), s1)
               else if copy_size < data_len
               then followed_by (sotp_flash_write_area area (offset + prog_size) (data_len - copy_size) (drop copy_size data) s1)
                 (\<lambda>(ret, s2).
                    if ret \<noteq> PAL_SUCCESS then Returns ((SOTP_WRITE_ERROR, 0), s2)
                    else Returns ((SOTP_SUCCESS, pad_addr (offset + HEADER_SIZE + data_len) (min_prog_size s)), s2))
               else Returns ((SOTP_SUCCESS, pad_addr (offset + prog_size) (min_prog_size s)), s1)))"

definition master_data :: "nat \<Rightarrow> bytes" where
  "master_data version = little_endian 2 version @ little_endian 2 0 @ little_endian 4 0"

definition write_master_record :: "nat \<Rightarrow> nat \<Rightarrow> sotp \<Rightarrow> (sotp_result \<times> nat) sotp_run" where
  "write_master_record area version s =
     write_record area 0 SOTP_MASTER_RECORD_TYPE 0 MASTER_RECORD_SIZE (master_data version) s"

text \<open>The loop that copies a record: the first chunk is written together with the header.\<close>

function copy_chunks ::
  "nat \<Rightarrow> nat \<Rightarrow> nat \<Rightarrow> nat \<Rightarrow> nat \<Rightarrow> bytes \<Rightarrow> sotp \<Rightarrow> (sotp_result \<times> nat) sotp_run" where
  "copy_chunks from_area from_offset to_offset left prog_buf_size start s =
     (let chunk = min left (prog_buf_size - length start) in
      followed_by
        (if chunk = 0 then Returns ((PAL_SUCCESS, []), s) else sotp_flash_read_area from_area from_offset chunk s)
        (\<lambda>((ret, bs), s1).
           if ret \<noteq> PAL_SUCCESS then Returns ((SOTP_READ_ERROR, 0), s1)
           else followed_by
             (sotp_flash_write_area (1 - from_area) to_offset (chunk + length start) (start @ bs) s1)
             (\<lambda>(ret, s2).
                if ret \<noteq> PAL_SUCCESS then Returns ((SOTP_WRITE_ERROR, 0), s2)
                else if left - chunk = 0 then Returns ((SOTP_SUCCESS, to_offset + chunk + length start), s2)
                else if prog_buf_size = 0 then Stuck
                else copy_chunks from_area (from_offset + chunk) (to_offset + chunk + length start) (left - chunk)
                       prog_buf_size [] s2)))"
  by pat_completeness auto
termination
  by (relation "measures [\<lambda>(_, _, _, left, _, start, _). left, \<lambda>(_, _, _, left, _, start, _). length start]") auto

declare copy_chunks.simps [simp del]

definition copy_record :: "nat \<Rightarrow> nat \<Rightarrow> nat \<Rightarrow> sotp \<Rightarrow> (sotp_result \<times> nat) sotp_run" where
  "copy_record from_area from_offset to_offset s =
     (if HEADER_SIZE < min_prog_size s \<and> \<not> page_buf s then Stuck else
      followed_by (sotp_flash_read_area from_area from_offset HEADER_SIZE s)
        (\<lambda>((ret, bs), s1).
           let h = header_of bs; record_size = HEADER_SIZE + header_length h in
           if ret \<noteq> PAL_SUCCESS then Returns ((SOTP_READ_ERROR, 0), s1)
           else if type_and_flags h AND DELETE_ITEM_FLAG \<noteq> 0
           then Returns ((SOTP_SUCCESS, pad_addr to_offset (min_prog_size s)), s1)
           else if area_limit s (1 - from_area) \<le> to_offset + pad_addr record_size (min_prog_size s)
           then Returns ((SOTP_FLASH_AREA_TOO_SMALL, 0), s1)
           else followed_by
             (copy_chunks from_area (from_offset + HEADER_SIZE) to_offset (header_length h)
                (if HEADER_SIZE < min_prog_size s then min_prog_size s else INT_BUF_SIZE) bs s1)
             (\<lambda>((ret, to_offset'), s2).
                if ret \<noteq> SOTP_SUCCESS then Returns ((ret, 0), s2)
                else Returns ((SOTP_SUCCESS, pad_addr to_offset' (min_prog_size s)), s2))))"


section \<open>Garbage collection\<close>

definition set_location :: "nat \<Rightarrow> nat \<Rightarrow> sotp \<Rightarrow> sotp" where
  "set_location typ entry s = s\<lparr>offset_by_type := (offset_by_type s)[typ := entry]\<rparr>"

fun gc_copy_items :: "nat list \<Rightarrow> nat \<Rightarrow> sotp \<Rightarrow> (sotp_result \<times> nat) sotp_run" where
  "gc_copy_items [] offset s = Returns ((SOTP_SUCCESS, offset), s)"
| "gc_copy_items (typ # typs) offset s =
     (let entry = offset_by_type s ! typ; area = location_area entry in
      if location_offset entry = 0 \<or> area \<noteq> active_area s then gc_copy_items typs offset s
      else followed_by (copy_record area (location_offset entry) offset s)
        (\<lambda>((ret, next_offset), s1).
           if ret \<noteq> SOTP_SUCCESS then Returns ((ret, 0), s1)
           else gc_copy_items typs next_offset (set_location typ (record_location (1 - area) offset) s1)))"

definition switch_area :: "nat \<Rightarrow> sotp \<Rightarrow> sotp_result sotp_run" where
  "switch_area offset s =
     (let version = u16_wrap (active_area_version s + 1); s0 = s\<lparr>active_area_version := version\<rparr> in
      followed_by (write_master_record (1 - active_area s) version s0)
        (\<lambda>((ret, _), s1).
           if ret \<noteq> SOTP_SUCCESS then Returns (ret, s1)
           else
             let s2 = s1\<lparr>free_space_offset := offset, active_area := 1 - active_area s1\<rparr> in
             followed_by (sotp_flash_erase_area (1 - active_area s2) s2)
               (\<lambda>(ret, s3). Returns (if ret \<noteq> PAL_SUCCESS then SOTP_WRITE_ERROR else SOTP_SUCCESS, s3))))"

definition sotp_garbage_collection :: "nat \<Rightarrow> nat \<Rightarrow> bytes \<Rightarrow> sotp \<Rightarrow> sotp_result sotp_run" where
  "sotp_garbage_collection typ buf_len buf s =
     (let new_area_offset = pad_addr (HEADER_SIZE + MASTER_RECORD_SIZE) (min_prog_size s) in
      followed_by
        (if typ = SOTP_NO_TYPE then Returns ((SOTP_SUCCESS, new_area_offset), s)
         else followed_by (write_record (1 - active_area s) new_area_offset typ 0 buf_len buf s)
           (\<lambda>((ret, next_offset), s1). Returns ((ret, next_offset),
              if ret \<noteq> SOTP_SUCCESS then s1
              else set_location typ (record_location (1 - active_area s) new_area_offset) s1)))
        (\<lambda>((ret, offset), s1).
           if ret \<noteq> SOTP_SUCCESS then Returns (ret, s1)
           else followed_by (gc_copy_items [0..<SOTP_MAX_TYPES] offset s1)
             (\<lambda>((ret, offset'), s2).
                if ret \<noteq> SOTP_SUCCESS then Returns (ret, s2) else switch_area offset' s2)))"


section \<open>Initialisation\<close>

record init_scan =
  sc_ret :: sotp_result
  sc_state :: "area_state list"
  sc_free :: "nat list"
  sc_version :: "nat list"

text \<open>The loop over the areas. A left result is the jump to \<open>init_end\<close>.\<close>

fun init_areas :: "nat list \<Rightarrow> init_scan \<Rightarrow> sotp \<Rightarrow> (sotp_result + init_scan) sotp_run" where
  "init_areas [] sc s = Returns (Inr sc, s)"
| "init_areas (area # areas) sc s =
     followed_by (calc_empty_space area s)
       (\<lambda>((pal_ret, free), s1).
          if pal_ret \<noteq> PAL_SUCCESS then Returns (Inl SOTP_READ_ERROR, s1)
          else
            let sc1 = sc\<lparr>sc_free := (sc_free sc)[area := free]\<rparr>;
                empty = (\<lambda>ret. sc1\<lparr>sc_ret := ret, sc_state := (sc_state sc1)[area := AREA_STATE_EMPTY]\<rparr>) in
            if free = 0 then init_areas areas (empty (sc_ret sc)) s1
            else followed_by (read_record area 0 MASTER_RECORD_SIZE False s1)
              (\<lambda>(r, s2).
                 if rr_ret r \<noteq> SOTP_SUCCESS \<and> rr_ret r \<noteq> SOTP_BUFF_TOO_SMALL then Returns (Inl (rr_ret r), s2)
                 else if rr_ret r = SOTP_BUFF_TOO_SMALL \<or> \<not> rr_valid r \<or> rr_type r \<noteq> SOTP_MASTER_RECORD_TYPE
                 then followed_by (sotp_flash_erase_area area s2)
                   (\<lambda>(pal_ret, s3).
                      if pal_ret \<noteq> PAL_SUCCESS then Returns (Inl SOTP_WRITE_ERROR, s3)
                      else init_areas areas (empty (rr_ret r)) s3)
                 else
                   let version = from_little_endian (take 2 (rr_data r)) in
                   init_areas areas
                     (sc1\<lparr>sc_ret := rr_ret r, sc_version := (sc_version sc1)[area := version],
                          sc_state := (sc_state sc1)[area := AREA_STATE_VALID]\<rparr>)
                     (s2\<lparr>free_space_offset := rr_next r, active_area := area, active_area_version := version\<rparr>)))"

text \<open>
  The traversal of the records of the active area. It advances because an area is far smaller than the range
  of its 32-bit offsets; a record that does not advance would be read for ever. A valid record of the type
  of the master record would be entered outside the table.
\<close>

function traverse_records :: "nat \<Rightarrow> sotp_result \<Rightarrow> sotp \<Rightarrow> sotp_result sotp_run" where
  "traverse_records limit ret s =
     (if limit \<le> free_space_offset s then Returns (ret, s)
      else followed_by (read_record (active_area s) (free_space_offset s) 0 True s)
        (\<lambda>(r, s1).
           if rr_ret r \<noteq> SOTP_SUCCESS then Returns (rr_ret r, s1)
           else if \<not> rr_valid r then sotp_garbage_collection SOTP_NO_TYPE 0 [] s1
           else if SOTP_MAX_TYPES \<le> rr_type r \<or> rr_next r \<le> free_space_offset s then Stuck
           else
             let entry = (if rr_flags r AND DELETE_ITEM_FLAG \<noteq> 0 then 0
                          else record_location (active_area s1) (free_space_offset s)) in
             traverse_records limit (rr_ret r) (set_location (rr_type r) entry (s1\<lparr>free_space_offset := rr_next r\<rparr>))))"
  by pat_completeness auto
termination
  by (relation "measure (\<lambda>(limit, ret, s). limit - free_space_offset s)") (auto simp: set_location_def)

declare traverse_records.simps [simp del]

text \<open>The code between the two loops: which area is active.\<close>

definition choose_area :: "init_scan \<Rightarrow> sotp \<Rightarrow> (sotp_result + init_scan) sotp_run" where
  "choose_area sc s =
     (if sc_state sc ! 0 = AREA_STATE_EMPTY \<and> sc_state sc ! 1 = AREA_STATE_EMPTY
      then followed_by (write_master_record 0 1 (s\<lparr>active_area := 0\<rparr>))
        (\<lambda>((ret, next_offset), s1). Returns (Inl ret,
           if ret = SOTP_SUCCESS then s1\<lparr>free_space_offset := next_offset\<rparr> else s1))
      else if sc_state sc ! 0 = AREA_STATE_VALID \<and> sc_state sc ! 1 = AREA_STATE_VALID
      then
        let area = (if sc_version sc ! 1 < sc_version sc ! 0 \<or> sc_version sc ! 0 = 0 then 0 else 1);
            s1 = s\<lparr>active_area := area, active_area_version := sc_version sc ! area\<rparr> in
        followed_by (sotp_flash_erase_area (1 - area) s1)
          (\<lambda>(pal_ret, s2). Returns (if pal_ret \<noteq> PAL_SUCCESS then Inl SOTP_WRITE_ERROR else Inr sc, s2))
      else Returns (Inr sc, s))"

definition init_end :: "sotp_result \<Rightarrow> sotp \<Rightarrow> sotp_result sotp_run" where
  "init_end ret s =
     Returns (ret, s\<lparr>init_done := True, page_buf := (page_buf s \<and> ret = SOTP_SUCCESS)\<rparr>)"

definition init_variables :: "sotp \<Rightarrow> sotp" where
  "init_variables s =
     s\<lparr>min_prog_size := max (page_size (geometry s)) HEADER_SIZE,
       page_buf := (HEADER_SIZE < page_size (geometry s) \<and> page_buf_granted s),
       offset_by_type := replicate SOTP_MAX_TYPES 0\<rparr>"

definition sotp_init :: "sotp \<Rightarrow> sotp_result sotp_run" where
  "sotp_init s =
     (if init_done s then Returns (SOTP_SUCCESS, s)
      else if HEADER_SIZE < page_size (geometry s) \<and> \<not> page_buf_granted s
      then init_end SOTP_MEM_ALLOC_ERROR (s\<lparr>min_prog_size := page_size (geometry s), page_buf := False\<rparr>)
      else followed_by
        (init_areas [0..<SOTP_NUM_AREAS]
           \<lparr>sc_ret = SOTP_SUCCESS, sc_state = [AREA_STATE_NONE, AREA_STATE_NONE], sc_free = [0, 0], sc_version = [0, 0]\<rparr>
           (init_variables s))
        (\<lambda>(scanned, s1). case scanned of
             Inl ret \<Rightarrow> init_end ret s1
           | Inr sc \<Rightarrow> followed_by (choose_area sc s1)
               (\<lambda>(chosen, s2). case chosen of
                    Inl ret \<Rightarrow> init_end ret s2
                  | Inr sc \<Rightarrow> followed_by (traverse_records (sc_free sc ! active_area s2) (sc_ret sc) s2)
                      (\<lambda>(ret, s3). init_end ret s3))))"


section \<open>The interface\<close>

definition sotp_is_otp_type :: "nat \<Rightarrow> bool" where
  "sotp_is_otp_type typ = False"

text \<open>
  The loop that reads an item again while another thread collects garbage. Nothing but the outcome of the
  reads can change between two rounds, and every round takes at least one entry of the scripted read errors:
  when none is left the next round decides.
\<close>

fun get_loop :: "nat \<Rightarrow> nat \<Rightarrow> nat \<Rightarrow> bool \<Rightarrow> sotp \<Rightarrow> (sotp_result \<times> nat \<times> bytes) sotp_run" where
  "get_loop 0 typ buf_len validate_only s = Stuck"
| "get_loop (Suc n) typ buf_len validate_only s =
     (let entry = offset_by_type s ! typ; area = location_area entry in
      if entry = 0 then Returns ((SOTP_NOT_FOUND, 0, []), s)
      else followed_by (read_record area (location_offset entry) buf_len validate_only s)
        (\<lambda>(r, s1).
           if rr_ret r = SOTP_SUCCESS \<and> rr_valid r then Returns ((SOTP_SUCCESS, rr_length r, rr_data r), s1)
           else if area = active_area s1
           then Returns ((if rr_ret r = SOTP_SUCCESS then SOTP_DATA_CORRUPT else rr_ret r, rr_length r, []), s1)
           else get_loop n typ buf_len validate_only s1))"

text \<open>A buffer that is not aligned to a word is refused.\<close>

definition sotp_do_get ::
  "nat \<Rightarrow> nat \<Rightarrow> bool \<Rightarrow> bool \<Rightarrow> bool \<Rightarrow> sotp \<Rightarrow> (sotp_result \<times> nat \<times> bytes) sotp_run" where
  "sotp_do_get typ buf_len has_buf aligned validate_only s =
     followed_by (if init_done s then Returns (SOTP_SUCCESS, s) else sotp_init s)
       (\<lambda>(ret, s1).
          let len = (if has_buf then buf_len else 0) in
          if ret \<noteq> SOTP_SUCCESS then Returns ((ret, 0, []), s1)
          else if SOTP_MAX_TYPES \<le> typ then Returns ((SOTP_BAD_VALUE, 0, []), s1)
          else if 0 < len \<and> \<not> aligned then Returns ((SOTP_BUFF_NOT_ALIGNED, 0, []), s1)
          else get_loop (Suc (length (read_errors (device s1)))) typ len validate_only s1)"

definition sotp_get :: "nat \<Rightarrow> nat \<Rightarrow> bool \<Rightarrow> bool \<Rightarrow> sotp \<Rightarrow> (sotp_result \<times> nat \<times> bytes) sotp_run" where
  "sotp_get typ buf_len has_buf aligned s = sotp_do_get (u8_wrap typ) buf_len has_buf aligned False s"

definition sotp_get_item_size :: "nat \<Rightarrow> sotp \<Rightarrow> (sotp_result \<times> nat \<times> bytes) sotp_run" where
  "sotp_get_item_size typ s = sotp_do_get (u8_wrap typ) 0 False True True s"

text \<open>
  With one thread the wait for another one that collects garbage never ends: the active area stays.
\<close>

definition sotp_do_set ::
  "nat \<Rightarrow> nat \<Rightarrow> bytes option \<Rightarrow> bool \<Rightarrow> bool \<Rightarrow> nat \<Rightarrow> sotp \<Rightarrow> sotp_result sotp_run" where
  "sotp_do_set typ buf_len buf aligned ignore_otp flags s =
     followed_by (if init_done s then Returns (SOTP_SUCCESS, s) else sotp_init s)
       (\<lambda>(ret, s1).
          let len = (if buf = None then 0 else buf_len); data = (case buf of None \<Rightarrow> [] | Some bs \<Rightarrow> bs) in
          if ret \<noteq> SOTP_SUCCESS then Returns (ret, s1)
          else if SOTP_MAX_TYPES \<le> typ then Returns (SOTP_BAD_VALUE, s1)
          else if 0 < len \<and> \<not> aligned then Returns (SOTP_BUFF_NOT_ALIGNED, s1)
          else if flags AND DELETE_ITEM_FLAG \<noteq> 0 \<and> offset_by_type s1 ! typ = 0 then Returns (SOTP_NOT_FOUND, s1)
          else if \<not> ignore_otp \<and> sotp_is_otp_type typ \<and> offset_by_type s1 ! u8_wrap typ \<noteq> 0
          then Returns (SOTP_ALREADY_EXISTS, s1)
          else
            let record_size = pad_addr (HEADER_SIZE + len) (min_prog_size s1);
                new_free_space = u32_wrap (free_space_offset s1 + record_size);
                record_offset = u32_wrap (new_free_space + 0x100000000 - record_size);
                s2 = s1\<lparr>free_space_offset := new_free_space\<rparr> in
            if area_limit s2 (active_area s2) \<le> new_free_space
            then if record_offset < area_limit s2 (active_area s2)
              then sotp_garbage_collection (u8_wrap typ) len data s2
              else Stuck
            else
              let offset = pad_addr record_offset (min_prog_size s2) in
              followed_by (write_record (active_area s2) offset (u8_wrap typ) flags len data s2)
                (\<lambda>((ret, _), s3).
                   if ret \<noteq> SOTP_SUCCESS then Returns (ret, s3)
                   else Returns (SOTP_SUCCESS, set_location typ
                     (if flags AND DELETE_ITEM_FLAG \<noteq> 0 then 0 else record_location (active_area s3) offset) s3)))"

definition sotp_set :: "nat \<Rightarrow> nat \<Rightarrow> bytes option \<Rightarrow> bool \<Rightarrow> sotp \<Rightarrow> sotp_result sotp_run" where
  "sotp_set typ buf_len buf aligned s = sotp_do_set typ buf_len buf aligned False 0 s"

definition sotp_set_for_testing :: "nat \<Rightarrow> nat \<Rightarrow> bytes option \<Rightarrow> bool \<Rightarrow> sotp \<Rightarrow> sotp_result sotp_run" where
  "sotp_set_for_testing typ buf_len buf aligned s = sotp_do_set typ buf_len buf aligned True 0 s"

definition sotp_delete :: "nat \<Rightarrow> sotp \<Rightarrow> sotp_result sotp_run" where
  "sotp_delete typ s = sotp_do_set typ 0 None True True DELETE_ITEM_FLAG s"

definition sotp_deinit :: "sotp \<Rightarrow> sotp_result \<times> sotp" where
  "sotp_deinit s = (SOTP_SUCCESS, s\<lparr>init_done := False, page_buf := (page_buf s \<and> \<not> init_done s)\<rparr>)"

fun erase_areas :: "nat list \<Rightarrow> sotp \<Rightarrow> sotp_result sotp_run" where
  "erase_areas [] s = Returns (SOTP_SUCCESS, s)"
| "erase_areas (area # areas) s =
     followed_by (sotp_flash_erase_area area s)
       (\<lambda>(ret, s1). if ret \<noteq> PAL_SUCCESS then Returns (SOTP_WRITE_ERROR, s1) else erase_areas areas s1)"

definition sotp_reset :: "sotp \<Rightarrow> sotp_result sotp_run" where
  "sotp_reset s =
     followed_by (erase_areas [0..<SOTP_NUM_AREAS] s)
       (\<lambda>(ret, s1). if ret \<noteq> SOTP_SUCCESS then Returns (ret, s1) else sotp_init (snd (sotp_deinit s1)))"

definition sotp_force_garbage_collection :: "sotp \<Rightarrow> sotp_result sotp_run" where
  "sotp_force_garbage_collection s =
     followed_by (if init_done s then Returns (SOTP_SUCCESS, s) else sotp_init s)
       (\<lambda>(ret, s1). if ret \<noteq> SOTP_SUCCESS then Returns (ret, s1) else sotp_garbage_collection SOTP_NO_TYPE 0 [] s1)"


section \<open>Reading without initialisation\<close>

text \<open>The area that \<open>sotp_probe\<close> selects: none yet is the value None, for -1.\<close>

record probe_scan =
  pr_area :: "nat option"
  pr_version :: nat
  pr_offset :: nat

text \<open>
  The probe does not set the program size: before the first initialisation it is 0, and the padding of an offset
  divides by it.
\<close>

definition probe_read :: "nat \<Rightarrow> nat \<Rightarrow> nat \<Rightarrow> bool \<Rightarrow> sotp \<Rightarrow> read_result sotp_run" where
  "probe_read area offset buf_len validate_only s =
     followed_by (read_record area offset buf_len validate_only s)
       (\<lambda>(r, s1).
          if min_prog_size s1 = 0 \<and> (rr_ret r = SOTP_BUFF_TOO_SMALL \<or> rr_ret r = SOTP_SUCCESS \<and> rr_valid r) then Stuck
          else Returns (r, s1))"

fun probe_areas :: "nat list \<Rightarrow> probe_scan \<Rightarrow> sotp \<Rightarrow> (sotp_result + probe_scan) sotp_run" where
  "probe_areas [] p s = Returns (Inr p, s)"
| "probe_areas (area # areas) p s =
     followed_by (probe_read area 0 MASTER_RECORD_SIZE False s)
       (\<lambda>(r, s1).
          if rr_ret r = SOTP_BUFF_TOO_SMALL then probe_areas areas p s1
          else if rr_ret r \<noteq> SOTP_SUCCESS then Returns (Inl (rr_ret r), s1)
          else if \<not> rr_valid r \<or> rr_type r \<noteq> SOTP_MASTER_RECORD_TYPE then probe_areas areas p s1
          else
            let version = from_little_endian (take 2 (rr_data r)) in
            if area = 1 \<and> (case pr_area p of None \<Rightarrow> False | Some sel \<Rightarrow> 0 < sel) \<and>
               (pr_version p = 0 \<or> version < pr_version p)
            then Returns (Inr p, s1)
            else probe_areas areas \<lparr>pr_area = Some area, pr_version = version, pr_offset = rr_next r\<rparr> s1)"

function probe_records ::
  "nat \<Rightarrow> nat \<Rightarrow> nat \<Rightarrow> nat \<Rightarrow> nat \<Rightarrow> read_result option \<Rightarrow> sotp \<Rightarrow> (sotp_result + read_result option) sotp_run" where
  "probe_records area offset limit typ buf_len found s =
     (if limit \<le> offset then Returns (Inr found, s)
      else followed_by (probe_read area offset 0 True s)
        (\<lambda>(r, s1).
           if rr_ret r \<noteq> SOTP_SUCCESS then Returns (Inl (rr_ret r), s1)
           else if \<not> rr_valid r then Returns (Inr found, s1)
           else if rr_type r \<noteq> typ \<or> rr_flags r AND DELETE_ITEM_FLAG \<noteq> 0
           then if rr_next r \<le> offset then Stuck
             else probe_records area (rr_next r) limit typ buf_len (if rr_type r = typ then None else found) s1
           else followed_by (probe_read area offset buf_len False s1)
             (\<lambda>(r', s2).
                if rr_next r \<le> offset then Stuck
                else probe_records area (rr_next r) limit typ buf_len (Some r') s2)))"
  by pat_completeness auto
termination
  by (relation "measure (\<lambda>(_, offset, limit, _). limit - offset)") auto

declare probe_records.simps [simp del]

definition sotp_probe :: "nat \<Rightarrow> nat \<Rightarrow> sotp \<Rightarrow> (sotp_result \<times> nat \<times> bytes) sotp_run" where
  "sotp_probe typ buf_len s =
     followed_by (probe_areas [0..<SOTP_NUM_AREAS] \<lparr>pr_area = None, pr_version = 0, pr_offset = 0\<rparr> s)
       (\<lambda>(scanned, s1). case scanned of
            Inl ret \<Rightarrow> Returns ((ret, 0, []), s1)
          | Inr p \<Rightarrow> (case pr_area p of
                None \<Rightarrow> Returns ((SOTP_NOT_FOUND, 0, []), s1)
              | Some area \<Rightarrow> followed_by (calc_empty_space area s1)
                  (\<lambda>((pal_ret, free), s2).
                     if pal_ret \<noteq> PAL_SUCCESS then Returns ((SOTP_READ_ERROR, 0, []), s2)
                     else followed_by (probe_records area (pr_offset p) free typ buf_len None s2)
                       (\<lambda>(found, s3). Returns (case found of
                            Inl ret \<Rightarrow> (ret, 0, [])
                          | Inr None \<Rightarrow> (SOTP_NOT_FOUND, 0, [])
                          | Inr (Some r) \<Rightarrow> (rr_ret r, rr_length r, rr_data r), s3)))))"

end
