(* ===== verification/Flash_Spec.thy ===== *)
theory Flash_Spec
  imports Sotp
begin

text \<open>
  What a write to the flash leaves behind: everything, or after a power cut the first pages of it, whatever
  attempts have failed before. The rules for runs that may be cut off.
\<close>

section \<open>Overwriting part of a list\<close>

lemma length_overwrite [simp]: "i + length new \<le> length old \<Longrightarrow> length (overwrite old i new) = length old"
  by (simp add: overwrite_def)

lemma overwrite_Nil [simp]: "overwrite old i [] = old"
  by (simp add: overwrite_def)

lemma nth_overwrite:
  assumes "i + length new \<le> length old" "n < length old"
  shows "overwrite old i new ! n = (if i \<le> n \<and> n < i + length new then new ! (n - i) else old ! n)"
  using assms by (auto simp: overwrite_def nth_append min_def)

lemma overwrite_append:
  assumes "i + length a + length b \<le> length old"
  shows "overwrite (overwrite old i a) (i + length a) b = overwrite old i (a @ b)"
  using assms by (intro nth_equalityI) (auto simp: nth_overwrite nth_append)

lemma overwrite_prefix_again:
  assumes "i + length new \<le> length old"
  shows "overwrite (overwrite old i (take n new)) i (take m new) = overwrite old i (take (max n m) new)"
  using assms by (intro nth_equalityI) (auto simp: nth_overwrite min_def max_def)

lemma overwrite_whole_prefix:
  assumes "i + length new \<le> length old"
  shows "overwrite (overwrite old i (take n new)) i new = overwrite old i new"
  using overwrite_prefix_again [OF assms, of n "length new"] by (simp add: max_def)

lemma take_overwrite:
  "i + length new \<le> length old \<Longrightarrow> j + n \<le> i \<Longrightarrow> take n (drop j (overwrite old i new)) = take n (drop j old)"
  by (intro nth_equalityI) (auto simp: nth_overwrite)

lemma take_overwrite_behind:
  "i + length new \<le> length old \<Longrightarrow> i + length new \<le> j \<Longrightarrow> take n (drop j (overwrite old i new)) = take n (drop j old)"
  by (intro nth_equalityI) (auto simp: nth_overwrite)

lemma overwrite_inside:
  assumes "start + n \<le> length old" "i + length new \<le> n"
  shows "take n (drop start (overwrite old (start + i) new)) = overwrite (take n (drop start old)) i new"
  using assms by (intro nth_equalityI) (auto simp: nth_overwrite)


section \<open>Scripts\<close>

definition cut_free :: "flash_dev \<Rightarrow> bool" where
  "cut_free d \<longleftrightarrow> (\<forall>k. Power_Fails k \<notin> set (events d))"

definition failures :: "flash_dev \<Rightarrow> nat" where
  "failures d = length (filter (\<lambda>e. \<exists>k. e = Fails k) (events d))"

definition script_after :: "flash_dev \<Rightarrow> flash_dev \<Rightarrow> bool" where
  "script_after d d' \<longleftrightarrow>
     read_errors d' = read_errors d \<and> failures d' \<le> failures d \<and> (cut_free d \<longrightarrow> cut_free d')"

lemma script_after_refl [simp]: "script_after d d"
  by (simp add: script_after_def)

lemma script_after_trans: "script_after d d' \<Longrightarrow> script_after d' d'' \<Longrightarrow> script_after d d''"
  by (auto simp: script_after_def)

lemma script_after_cells [simp]:
  "script_after (d\<lparr>cells := c\<rparr>) d' = script_after d d'" "script_after d (d'\<lparr>cells := c\<rparr>) = script_after d d'"
  by (simp_all add: script_after_def failures_def cut_free_def)

fun ends :: "'a outcome \<Rightarrow> ('a \<Rightarrow> bool) \<Rightarrow> (bytes \<Rightarrow> bool) \<Rightarrow> bool" where
  "ends Stuck Q C = False"
| "ends (Power_Lost c) Q C = C c"
| "ends (Returns r) Q C = Q r"

lemma ends_mono: "ends m Q C \<Longrightarrow> (\<And>r. Q r \<Longrightarrow> Q' r) \<Longrightarrow> (\<And>c. C c \<Longrightarrow> C' c) \<Longrightarrow> ends m Q' C'"
  by (cases m) auto

lemma ends_followed_by: "ends (followed_by m g) Q C = ends m (\<lambda>r. ends (g r) Q C) C"
  by (cases m) auto


section \<open>One write\<close>

text \<open>
  The attempt to write \<open>data\<close> at an address: complete on success; after an error or a power cut some pages
  of it have been written, and the error has used up a scripted failure.
\<close>

definition torn :: "nat \<Rightarrow> bytes \<Rightarrow> bytes \<Rightarrow> bytes \<Rightarrow> bool" where
  "torn address data old c \<longleftrightarrow> (\<exists>k. c = overwrite old address (take (8 * k) data))"

lemma tornI: "torn address data old (overwrite old address (take (8 * k) data))"
  by (auto simp: torn_def)

lemma torn_nothing [simp]: "torn address data old old"
  using tornI [of address data old 0] by simp

lemma torn_whole: "length data \<le> 8 * k \<Longrightarrow> torn address data old (overwrite old address data)"
  using tornI [of address data old k] by simp

lemma torn_first:
  assumes "torn address a old c" "length a mod 8 = 0"
  shows "torn address (a @ b) old c"
proof -
  obtain k where k: "c = overwrite old address (take (8 * k) a)" using assms(1) by (auto simp: torn_def)
  show ?thesis
  proof (cases "8 * k \<le> length a")
    case True
    then have "take (8 * k) a = take (8 * k) (a @ b)" by simp
    then show ?thesis unfolding k by (simp only: tornI)
  next
    case False
    moreover have "8 * (length a div 8) = length a" using assms(2) by presburger
    ultimately have "take (8 * k) a = take (8 * (length a div 8)) (a @ b)" by simp
    then show ?thesis unfolding k by (simp only: tornI)
  qed
qed

lemma torn_second:
  assumes "torn (address + length a) b (overwrite old address a) c"
    and "length a mod 8 = 0" "address + length a + length b \<le> length old"
  shows "torn address (a @ b) old c"
proof -
  obtain k where k: "c = overwrite (overwrite old address a) (address + length a) (take (8 * k) b)"
    using assms(1) by (auto simp: torn_def)
  have "length a = 8 * (length a div 8)" using assms(2) by presburger
  then have "8 * (length a div 8 + k) = length a + 8 * k" by simp
  then have "a @ take (8 * k) b = take (8 * (length a div 8 + k)) (a @ b)" by (simp only: take_append) simp
  moreover have "c = overwrite old address (a @ take (8 * k) b)"
    unfolding k using assms(3) by (intro overwrite_append) simp
  ultimately show ?thesis by (simp only: tornI)
qed

lemma torn_again:
  assumes "torn address data old c" "torn address data c c'" "address + length data \<le> length old"
  shows "torn address data old c'"
  using assms by (auto simp: torn_def overwrite_prefix_again nat_mult_max_right [symmetric] intro: exI)

lemma overwrite_torn:
  assumes "torn address data old c" "address + length data \<le> length old"
  shows "overwrite c address data = overwrite old address data" "length c = length old"
  using assms by (auto simp: torn_def overwrite_whole_prefix)

definition attempted :: "nat \<Rightarrow> bytes \<Rightarrow> flash_dev \<Rightarrow> pal_status \<times> flash_dev \<Rightarrow> bool" where
  "attempted address data d r \<longleftrightarrow>
     (case r of (ret, d') \<Rightarrow>
       script_after d d' \<and>
       (if ret = PAL_SUCCESS then cells d' = overwrite (cells d) address data
        else failures d' < failures d \<and> torn address data (cells d) (cells d')))"

definition interrupted :: "nat \<Rightarrow> bytes \<Rightarrow> flash_dev \<Rightarrow> bytes \<Rightarrow> bool" where
  "interrupted address data d c \<longleftrightarrow> \<not> cut_free d \<and> torn address data (cells d) c"

lemma attempted_nothing [simp]: "attempted address [] d (PAL_SUCCESS, d)"
  by (simp add: attempted_def)

lemma write_cells_ends:
  assumes "page_size geo = 8" "address + length data \<le> length (cells d)"
  shows "ends (write_cells geo address data d) (attempted address data d) (interrupted address data d)"
proof (cases "events d")
  case Nil
  with assms show ?thesis by (simp add: write_cells_def attempted_def)
next
  case (Cons e es)
  have "torn address data (cells d) (overwrite (cells d) address (take (k * 8) data))" for k
    using tornI [of address data "cells d" k] by (simp add: mult.commute)
  with assms Cons show ?thesis
    by (cases e) (auto simp: write_cells_def attempted_def interrupted_def script_after_def failures_def cut_free_def)
qed

lemma attempts_in_a_row:
  assumes m: "ends m (attempted address a d) (interrupted address a d)"
    and g: "\<And>d'. script_after d d' \<Longrightarrow> cells d' = overwrite (cells d) address a \<Longrightarrow>
      ends (g (PAL_SUCCESS, d')) (attempted (address + length a) b d') (interrupted (address + length a) b d')"
    and e: "\<And>ret d'. ret \<noteq> PAL_SUCCESS \<Longrightarrow> g (ret, d') = Returns (ret, d')"
    and len: "address + length a + length b \<le> length (cells d)" and page: "length a mod 8 = 0"
  shows "ends (followed_by m g) (attempted address (a @ b) d) (interrupted address (a @ b) d)"
proof -
  have "ends (g r) (attempted address (a @ b) d) (interrupted address (a @ b) d)" if r: "attempted address a d r" for r
  proof (cases r)
    case (Pair ret d')
    show ?thesis
    proof (cases "ret = PAL_SUCCESS")
      case True
      with r Pair have after: "script_after d d'" and c: "cells d' = overwrite (cells d) address a"
        by (auto simp: attempted_def)
      have all: "overwrite (cells d') (address + length a) b = overwrite (cells d) address (a @ b)"
        unfolding c using len by (intro overwrite_append) simp
      note torn_c = torn_second [OF _ page len, folded c]
      show ?thesis
        unfolding Pair True
      proof (rule ends_mono [OF g [OF after c]])
        show "attempted address (a @ b) d r" if "attempted (address + length a) b d' r" for r
          using that after torn_c unfolding attempted_def all
          by (cases r) (auto simp: script_after_def split: if_splits)
        show "interrupted address (a @ b) d c" if "interrupted (address + length a) b d' c" for c
          using that after torn_c unfolding interrupted_def by (auto simp: script_after_def)
      qed
    next
      case False
      with r Pair e torn_first [OF _ page] show ?thesis by (auto simp: attempted_def)
    qed
  qed
  moreover have "interrupted address (a @ b) d c" if "interrupted address a d c" for c
    using that torn_first [OF _ page] by (auto simp: interrupted_def)
  ultimately show ?thesis
    unfolding ends_followed_by by (rule ends_mono [OF m]) simp_all
qed


section \<open>The access layer on a flash with pages of 8 bytes\<close>

definition pad8 :: "bytes \<Rightarrow> bytes" where
  "pad8 data = data @ replicate ((8 - length data mod 8) mod 8) 0xFF"

lemma length_pad8: "length (pad8 data) = (length data + 7) div 8 * 8"
proof -
  have "8 * q + r + (8 - r) mod 8 = (8 * q + r + 7) div 8 * 8" if "r < 8" for q r :: nat
  proof (cases "r = 0")
    case False
    with that have "(8 * q + r + 7) div 8 = q + 1" by presburger
    with False that show ?thesis by simp
  qed simp
  from this [of "length data mod 8" "length data div 8"] show ?thesis by (simp add: pad8_def)
qed

lemma length_pad8_mod [simp]: "length (pad8 data) mod 8 = 0"
  by (simp add: length_pad8)

lemma pad8_aligned [simp]: "length data mod 8 = 0 \<Longrightarrow> pad8 data = data"
  by (simp add: pad8_def)

lemma pad8_append [simp]: "length a mod 8 = 0 \<Longrightarrow> pad8 (a @ b) = a @ pad8 b"
  by (simp add: pad8_def mod_add_eq [symmetric])

lemma pad8_short: "0 < length b \<Longrightarrow> length b < 8 \<Longrightarrow> pad8 b = b @ replicate (8 - length b) 0xFF"
  by (simp add: pad8_def)

lemma followed_by_Returns [simp]: "followed_by m Returns = m"
  by (cases m) auto

lemma plat_write_cells:
  assumes "page_size geo = 8" "address mod 8 = 0" "n mod 8 = 0" "0 < n" "n \<le> length data"
  shows "plat_internalFlashWrite geo n address data d = write_cells geo address (take n data) d"
proof -
  have "address mod 4 = 0" "8 \<le> n" using assms(2-4) by presburger+
  with assms show ?thesis
    by (simp add: plat_internalFlashWrite_def rd_block_def Let_def)
qed

lemma program_ends:
  assumes geo: "page_size geo = 8" and al: "address mod 8 = 0" and n: "0 < n" "n \<le> length data"
    and len: "address + length (pad8 (take n data)) \<le> length (cells d)"
  shows "ends (pal_programToFlashAligned geo n address data d)
    (attempted address (pad8 (take n data)) d) (interrupted address (pad8 (take n data)) d)"
proof -
  define a where "a = take (n - n mod 8) data"
  define b where "b = drop (n - n mod 8) (take n data)"
  have a: "a = take (n - n mod 8) (take n data)" by (simp add: a_def)
  have ab: "take n data = a @ b" unfolding a b_def by (rule append_take_drop_id [symmetric])
  have la: "length a = n - n mod 8" "length a mod 8 = 0" "length b = n mod 8"
    using n(2) by (auto simp: a_def b_def minus_mod_eq_mult_div minus_mult_div_eq_mod)
  have pad: "pad8 (take n data) = a @ pad8 b" using la by (simp add: ab)
  have al2: "(address + (n - n mod 8)) mod 8 = 0" using al by (simp add: minus_mod_eq_mult_div mod_add_eq [symmetric])
  have rest: "page_padded geo b = pad8 b" if "n mod 8 \<noteq> 0"
    using that la(3) geo by (simp add: page_padded_def pad8_short)
  have len8: "length (pad8 b) = 8" if "n mod 8 \<noteq> 0"
    using that la(3) by (simp add: pad8_short)
  have second: "ends (plat_internalFlashWrite geo 8 (address + (n - n mod 8)) (pad8 b) d')
      (attempted (address + length a) (pad8 b) d') (interrupted (address + length a) (pad8 b) d')"
    if "n mod 8 \<noteq> 0" "length (cells d') = length (cells d)" for d'
  proof -
    have "plat_internalFlashWrite geo 8 (address + (n - n mod 8)) (pad8 b) d' = write_cells geo (address + length a) (pad8 b) d'"
      using geo al2 len8 [OF that(1)] la(1) by (subst plat_write_cells) simp_all
    then show ?thesis
      using write_cells_ends [OF geo, of "address + length a" "pad8 b" d'] that(2) len unfolding pad by simp
  qed
  show ?thesis
  proof (cases "8 \<le> n")
    case True
    then have pos: "0 < n - n mod 8" using mod_less_divisor [of 8 n] by linarith
    have first: "ends (plat_internalFlashWrite geo (n - n mod 8) address (take n data) d) (attempted address a d) (interrupted address a d)"
    proof -
      have "plat_internalFlashWrite geo (n - n mod 8) address (take n data) d = write_cells geo address a d"
        using geo al pos n la by (subst plat_write_cells) (simp_all add: a_def)
      then show ?thesis
        using write_cells_ends [OF geo, of address a d] len unfolding pad by simp
    qed
    show ?thesis
    proof (cases "n mod 8 = 0")
      case True
      with la have "b = []" by simp
      with first \<open>8 \<le> n\<close> True n geo show ?thesis
        by (simp add: pal_programToFlashAligned_def rd_block_def Let_def pad)
    next
      case False
      have "ends (followed_by (plat_internalFlashWrite geo (n - n mod 8) address (take n data) d)
           (\<lambda>(ret, d'). if ret = PAL_SUCCESS \<and> n mod 8 \<noteq> 0
               then plat_internalFlashWrite geo 8 (address + (n - n mod 8)) (page_padded geo (drop (n - n mod 8) (take n data))) d'
               else Returns (ret, d')))
        (attempted address (a @ pad8 b) d) (interrupted address (a @ pad8 b) d)"
        using first
      proof (rule attempts_in_a_row)
        fix d' :: flash_dev assume "cells d' = overwrite (cells d) address a"
        then have "length (cells d') = length (cells d)" using len unfolding pad by simp
        from second [OF False this]
        show "ends (case (PAL_SUCCESS, d') of (ret, d') \<Rightarrow> if ret = PAL_SUCCESS \<and> n mod 8 \<noteq> 0
               then plat_internalFlashWrite geo 8 (address + (n - n mod 8)) (page_padded geo (drop (n - n mod 8) (take n data))) d'
               else Returns (ret, d'))
          (attempted (address + length a) (pad8 b) d') (interrupted (address + length a) (pad8 b) d')"
          using False by (simp add: rest [folded b_def, OF False] b_def [symmetric])
      qed (use len la in \<open>simp_all add: pad\<close>)
      with True n show ?thesis
        unfolding pal_programToFlashAligned_def Let_def geo by (simp add: rd_block_def pad)
    qed
  next
    case False
    then have r: "n mod 8 = n" "n \<noteq> 0" "a = []" "b = take n data" using n by (simp_all add: a_def b_def)
    have "ends (plat_internalFlashWrite geo 8 address (pad8 b) d) (attempted address (pad8 b) d) (interrupted address (pad8 b) d)"
      using second [of d] r(1-3) by simp
    moreover have "pal_programToFlashAligned geo n address data d = plat_internalFlashWrite geo 8 address (pad8 b) d"
      using False n r rest by (simp add: pal_programToFlashAligned_def rd_block_def geo)
    ultimately show ?thesis using r(3) unfolding pad by simp
  qed
qed


lemma pal_write_ends:
  assumes "page_size geo = 8" "address mod 8 = 0" "0 < n" "n \<le> length data"
    and "address + length (pad8 (take n data)) \<le> length (cells d)"
    and "0 < sector_size geo" "address mod sector_size geo + n \<le> sector_size geo"
  shows "ends (pal_internalFlashWrite geo n address data d)
    (attempted address (pad8 (take n data)) d) (interrupted address (pad8 (take n data)) d)"
proof -
  have "address mod 4 = 0" using assms(2) by presburger
  then have "pal_internalFlashWrite geo n address data d = pal_programToFlashAligned geo n address data d"
    using assms by (simp add: pal_internalFlashWrite_def write_sectors.simps)
  with program_ends [OF assms(1-5)] show ?thesis by simp
qed

lemma erase_nothing: "(\<lambda>(ret, d). erase_sectors geo address 0 ret d) = Returns"
  by (auto simp: erase_sectors.simps)

lemma pal_erase_ends:
  assumes "page_size geo = 8" "address mod 8 = 0" "sector_size geo = n" "0 < n" "n mod 8 = 0" "address mod n = 0"
    and "address + n \<le> length (cells d)"
  shows "ends (pal_internalFlashErase geo address n d)
    (attempted address (replicate n 0xFF) d) (interrupted address (replicate n 0xFF) d)"
proof -
  have "address mod 4 = 0" "n div 8 * 8 = n" using assms(2,5) by presburger+
  then have "pal_internalFlashErase geo address n d = write_cells geo address (replicate n 0xFF) d"
    using assms
    by (simp add: pal_internalFlashErase_def erase_sectors.simps [of _ _ n] erase_nothing
        is_aligned_to_sector_def plat_internalFlashErase_def)
  with write_cells_ends [OF assms(1), of address "replicate n 0xFF" d] assms(7) show ?thesis by simp
qed

text \<open>Fewer failures than attempts: the write is complete in the end.\<close>

lemma retry_ends:
  assumes f: "\<And>d'. length (cells d') = length (cells d) \<Longrightarrow> ends (f d') (attempted address data d') (interrupted address data d')"
    and len: "address + length data \<le> length (cells d)" and n: "failures d < n"
  shows "ends (retry n f d)
    (\<lambda>(ret, d'). ret = PAL_SUCCESS \<and> script_after d d' \<and> cells d' = overwrite (cells d) address data)
    (interrupted address data d)"
proof -
  have "ends (retry n f d')
      (\<lambda>(ret, d''). ret = PAL_SUCCESS \<and> script_after d d'' \<and> cells d'' = overwrite (cells d) address data)
      (interrupted address data d)"
    if "failures d' < n" "script_after d d'" "torn address data (cells d) (cells d')" for d'
    using that
  proof (induction n arbitrary: d')
    case (Suc n)
    note same = overwrite_torn [OF Suc.prems(3) len]
    show ?case
      unfolding retry.simps [of "Suc n"] ends_followed_by
    proof (rule ends_mono [OF f [OF same(2)]])
      fix r assume r: "attempted address data d' r"
      obtain ret d'' where rd: "r = (ret, d'')" by (cases r)
      show "ends (case r of (ret, d'') \<Rightarrow> if ret = PAL_SUCCESS \<or> Suc n \<le> 1 then Returns (ret, d'') else retry (Suc n - 1) f d'')
          (\<lambda>(ret, d''). ret = PAL_SUCCESS \<and> script_after d d'' \<and> cells d'' = overwrite (cells d) address data)
          (interrupted address data d)"
      proof (cases "ret = PAL_SUCCESS")
        case True
        with r rd same script_after_trans [OF Suc.prems(2)] show ?thesis by (simp add: attempted_def)
      next
        case False
        with r rd have a: "failures d'' < failures d'" "script_after d' d''" "torn address data (cells d') (cells d'')"
          by (simp_all add: attempted_def)
        moreover have "torn address data (cells d) (cells d'')" by (rule torn_again [OF Suc.prems(3) a(3) len])
        moreover have "0 < n" using a(1) Suc.prems(1) by simp
        ultimately show ?thesis
          using False rd Suc.prems Suc.IH [of d''] script_after_trans [of d d' d''] by simp
      qed
    next
      fix c assume "interrupted address data d' c"
      with Suc.prems(2) torn_again [OF Suc.prems(3) _ len] show "interrupted address data d c"
        by (auto simp: interrupted_def script_after_def)
    qed
  qed simp
  from this [OF n] show ?thesis by simp
qed


section \<open>Runs on two areas\<close>

definition simulated :: "nat \<Rightarrow> flash_geometry \<Rightarrow> bool" where
  "simulated S geo \<longleftrightarrow>
     page_size geo = 8 \<and> sector_size geo = S \<and> area_address geo = [0, S] \<and> area_size geo = [S, S] \<and>
     S mod 128 = 0 \<and> 0 < S \<and> S < 2 ^ 30"

text \<open>Fewer failed writes are to come than are retried, and no failed read.\<close>

definition quiet :: "sotp \<Rightarrow> bool" where
  "quiet s \<longleftrightarrow> read_errors (device s) = [] \<and> failures (device s) < 100"

definition on_flash :: "nat \<Rightarrow> sotp \<Rightarrow> bytes \<Rightarrow> bool" where
  "on_flash S s c \<longleftrightarrow> simulated S (geometry s) \<and> cells (device s) = c \<and> length c = 2 * S"

definition area_of :: "nat \<Rightarrow> nat \<Rightarrow> bytes \<Rightarrow> bytes" where
  "area_of S a c = take S (drop (a * S) c)"

lemma length_area_of [simp]: "length c = 2 * S \<Longrightarrow> a < 2 \<Longrightarrow> length (area_of S a c) = S"
  by (auto simp: area_of_def less_Suc_eq numeral_2_eq_2)

lemma area_cases: "a < 2 \<Longrightarrow> (a = 0 \<Longrightarrow> P) \<Longrightarrow> (a = 1 \<Longrightarrow> P) \<Longrightarrow> P" for a :: nat
  by linarith

lemma area_of_overwrite:
  assumes "length c = 2 * S" "a < 2" "i + length new \<le> S"
  shows "area_of S a (overwrite c (a * S + i) new) = overwrite (area_of S a c) i new"
  unfolding area_of_def
proof (rule overwrite_inside)
  show "a * S + S \<le> length c" using assms(1,2) by (elim area_cases) simp_all
qed (rule assms)

lemma area_of_overwrite_other:
  assumes "length c = 2 * S" "a < 2" "b < 2" "b \<noteq> a" "i + length new \<le> S"
  shows "area_of S b (overwrite c (a * S + i) new) = area_of S b c"
proof -
  have len: "a * S + i + length new \<le> length c" using assms(1,2,5) by (elim area_cases) simp_all
  have "b * S + S \<le> a * S + i \<or> a * S + i + length new \<le> b * S"
    using assms(2-5) by (elim area_cases [of a] area_cases [of b]) simp_all
  then show ?thesis
    unfolding area_of_def by (elim disjE) (simp_all only: take_overwrite [OF len] take_overwrite_behind [OF len])
qed

text \<open>
  A run from s that ends well: it returns with Q, or the power is cut, which the script must have in store, and
  the content of the flash satisfies C.
\<close>

definition run_ok :: "sotp \<Rightarrow> ('a \<times> sotp) outcome \<Rightarrow> ('a \<Rightarrow> sotp \<Rightarrow> bool) \<Rightarrow> (bytes \<Rightarrow> bool) \<Rightarrow> bool" where
  "run_ok s m Q C \<longleftrightarrow>
     (quiet s \<longrightarrow> ends m (\<lambda>(r, s'). script_after (device s) (device s') \<and> Q r s') (\<lambda>c. \<not> cut_free (device s) \<and> C c))"

lemma run_ok_returns: "Q r s' \<Longrightarrow> device s' = device s \<Longrightarrow> run_ok s (Returns (r, s')) Q C"
  by (simp add: run_ok_def)

lemma run_ok_mono:
  "run_ok s m Q C \<Longrightarrow> (\<And>r s'. Q r s' \<Longrightarrow> Q' r s') \<Longrightarrow> (\<And>c. C c \<Longrightarrow> C' c) \<Longrightarrow> run_ok s m Q' C'"
  unfolding run_ok_def by (auto elim!: ends_mono)

lemma quiet_after: "quiet s \<Longrightarrow> script_after (device s) (device s') \<Longrightarrow> quiet s'"
  by (auto simp: quiet_def script_after_def)

lemma run_ok_followed_by:
  assumes "run_ok s m Q C" "\<And>r s'. Q r s' \<Longrightarrow> quiet s' \<Longrightarrow> run_ok s' (g (r, s')) Q' C"
  shows "run_ok s (followed_by m g) Q' C"
  unfolding run_ok_def ends_followed_by
proof
  assume quiet: "quiet s"
  have "ends m (\<lambda>(r, s'). script_after (device s) (device s') \<and> Q r s') (\<lambda>c. \<not> cut_free (device s) \<and> C c)"
    using assms(1) quiet by (simp add: run_ok_def)
  then show "ends m (\<lambda>r. ends (g r) (\<lambda>(r, s'). script_after (device s) (device s') \<and> Q' r s')
      (\<lambda>c. \<not> cut_free (device s) \<and> C c)) (\<lambda>c. \<not> cut_free (device s) \<and> C c)"
  proof (rule ends_mono)
    fix r assume "case r of (r, s') \<Rightarrow> script_after (device s) (device s') \<and> Q r s'"
    then obtain x s' where r: "r = (x, s')" "script_after (device s) (device s')" "Q x s'" by (cases r) auto
    have c': "quiet s'" by (rule quiet_after [OF quiet r(2)])
    from assms(2) [OF r(3) c'] c' have "ends (g (x, s')) (\<lambda>(r, s''). script_after (device s') (device s'') \<and> Q' r s'')
        (\<lambda>c. \<not> cut_free (device s') \<and> C c)" by (simp add: run_ok_def)
    then show "ends (g r) (\<lambda>(r, s'). script_after (device s) (device s') \<and> Q' r s') (\<lambda>c. \<not> cut_free (device s) \<and> C c)"
      unfolding r(1) using r(2) script_after_trans [OF r(2)]
      by (elim ends_mono) (auto simp: script_after_def)
  qed
qed


section \<open>Access to an area\<close>

text \<open>The state s with the content c of the flash.\<close>

definition left_with :: "nat \<Rightarrow> sotp \<Rightarrow> bytes \<Rightarrow> sotp \<Rightarrow> bool" where
  "left_with S s c s' \<longleftrightarrow> (\<exists>d. s' = s\<lparr>device := d\<rparr>) \<and> on_flash S s' c"

lemma left_with_on_flash: "left_with S s c s' \<Longrightarrow> on_flash S s' c"
  by (simp add: left_with_def)

lemma left_with_trans: "left_with S s c s' \<Longrightarrow> left_with S s' c' s'' \<Longrightarrow> left_with S s c' s''"
  by (auto simp: left_with_def)

lemma left_with_refl: "on_flash S s c \<Longrightarrow> left_with S s c s"
  by (auto simp: left_with_def intro: exI [of _ "device s"])

lemma left_with_fields:
  assumes "left_with S s c s'"
  shows "geometry s' = geometry s" "page_buf s' = page_buf s" "init_done s' = init_done s" "active_area s' = active_area s"
    "active_area_version s' = active_area_version s" "free_space_offset s' = free_space_offset s"
    "offset_by_type s' = offset_by_type s" "min_prog_size s' = min_prog_size s"
  using assms by (auto simp: left_with_def)

lemma area_places:
  assumes "on_flash S s c" "a < 2"
  shows "area_start s a = a * S" "area_limit s a = S" "a * S + S \<le> length c" "a * S mod S = 0" "a * S mod 8 = 0"
    "S mod 8 = 0" "0 < S" "S < 2 ^ 30"
proof -
  have S: "S mod 128 = 0" using assms(1) by (simp add: on_flash_def simulated_def)
  then show "S mod 8 = 0" by presburger
  then show "a * S mod 8 = 0" by (simp add: mod_eq_0_iff_dvd)
  show "area_start s a = a * S" "area_limit s a = S" "a * S + S \<le> length c" "a * S mod S = 0" "0 < S" "S < 2 ^ 30"
    using assms by (elim area_cases; simp add: area_start_def area_limit_def on_flash_def simulated_def)+
qed

lemma with_device_ok:
  assumes "on_flash S s c" "i + length data \<le> 2 * S"
    and "quiet s \<Longrightarrow> ends (f (device s))
      (\<lambda>(ret, d'). ret = PAL_SUCCESS \<and> script_after (device s) d' \<and> cells d' = overwrite c i data)
      (interrupted i data (device s))"
  shows "run_ok s (with_device f s) (\<lambda>ret s'. ret = PAL_SUCCESS \<and> left_with S s (overwrite c i data) s') (torn i data c)"
  unfolding run_ok_def with_device_def ends_followed_by
proof
  assume "quiet s"
  from assms(3) [OF this] show "ends (f (device s)) (\<lambda>r. ends (case r of (r, d) \<Rightarrow> Returns (r, s\<lparr>device := d\<rparr>))
      (\<lambda>(r, s'). script_after (device s) (device s') \<and> r = PAL_SUCCESS \<and> left_with S s (overwrite c i data) s')
      (\<lambda>c'. \<not> cut_free (device s) \<and> torn i data c c')) (\<lambda>c'. \<not> cut_free (device s) \<and> torn i data c c')"
    using assms(1,2)
    by (elim ends_mono) (auto simp: interrupted_def on_flash_def left_with_def)
qed

lemma write_area_ok:
  assumes fl: "on_flash S s c" and a: "a < 2" and off: "off mod 8 = 0" and n: "0 < n" "n \<le> length data"
    and fits: "off + length (pad8 (take n data)) \<le> S"
  shows "run_ok s (sotp_flash_write_area a off n data s)
    (\<lambda>ret s'. ret = PAL_SUCCESS \<and> left_with S s (overwrite c (a * S + off) (pad8 (take n data))) s')
    (torn (a * S + off) (pad8 (take n data)) c)"
  unfolding sotp_flash_write_area_def
proof (rule with_device_ok [OF fl])
  note places = area_places [OF fl a]
  have geo: "page_size (geometry s) = 8" "sector_size (geometry s) = S" "cells (device s) = c" "length c = 2 * S"
    using fl by (auto simp: on_flash_def simulated_def)
  show "a * S + off + length (pad8 (take n data)) \<le> 2 * S" using fits places(3) unfolding geo by linarith
  then have len: "a * S + off + length (pad8 (take n data)) \<le> length c" by (simp add: geo)
  have al: "(a * S + off) mod 8 = 0" using off places(5) by (simp add: mod_add_eq [symmetric])
  have "n \<le> length (pad8 (take n data))" using n by (simp add: pad8_def)
  then have less: "off + n \<le> S" using fits by simp
  then have "off < S" using n by simp
  then have sector: "(a * S + off) mod S + n \<le> S" using less places(4) by simp
  assume "quiet s"
  then show "ends (retry 100 (pal_internalFlashWrite (geometry s) n (area_start s a + off) data) (device s))
     (\<lambda>(ret, d'). ret = PAL_SUCCESS \<and> script_after (device s) d' \<and> cells d' = overwrite c (a * S + off) (pad8 (take n data)))
     (interrupted (a * S + off) (pad8 (take n data)) (device s))"
    unfolding places(1) geo(3) [symmetric]
    by (intro retry_ends pal_write_ends) (use geo places al n len sector in \<open>auto simp: quiet_def\<close>)
qed

lemma erase_area_ok:
  assumes fl: "on_flash S s c" and a: "a < 2"
  shows "run_ok s (sotp_flash_erase_area a s)
    (\<lambda>ret s'. ret = PAL_SUCCESS \<and> left_with S s (overwrite c (a * S) (replicate S 0xFF)) s')
    (torn (a * S) (replicate S 0xFF) c)"
  unfolding sotp_flash_erase_area_def
proof (rule with_device_ok [OF fl])
  note places = area_places [OF fl a]
  have geo: "page_size (geometry s) = 8" "sector_size (geometry s) = S" "cells (device s) = c" "length c = 2 * S"
    using fl by (auto simp: on_flash_def simulated_def)
  show "a * S + length (replicate S 0xFF :: bytes) \<le> 2 * S" using places(3) geo by simp
  assume "quiet s"
  then show "ends (retry 100 (pal_internalFlashErase (geometry s) (area_start s a) (area_limit s a)) (device s))
     (\<lambda>(ret, d'). ret = PAL_SUCCESS \<and> script_after (device s) d' \<and> cells d' = overwrite c (a * S) (replicate S 0xFF))
     (interrupted (a * S) (replicate S 0xFF) (device s))"
    unfolding places(1,2) geo(3) [symmetric]
    by (intro retry_ends pal_erase_ends) (use geo places in \<open>auto simp: quiet_def\<close>)
qed

lemma read_area_ok:
  assumes "on_flash S s c" "a < 2" "quiet s" "0 < n" "off + n \<le> S"
  shows "sotp_flash_read_area a off n s = Returns ((PAL_SUCCESS, take n (drop off (area_of S a c))), s)"
proof -
  note places = area_places [OF assms(1,2)]
  have "take n (drop (a * S + off) c) = take n (drop off (area_of S a c))"
    using assms(5) by (simp add: area_of_def drop_take add.commute min_def)
  moreover have "\<not> 2 * S < a * S + off + n" using places(3) assms(1,5) unfolding on_flash_def by linarith
  ultimately show ?thesis
    using assms places
    by (simp add: sotp_flash_read_area_def with_device_def pal_internalFlashRead_def plat_internalFlashRead_def
        read_cells_def quiet_def on_flash_def)
qed

end
