(* ===== verification/Sotp_Records.thy ===== *)
theory Sotp_Records
  imports Flash_Spec
begin

text \<open>
  Records on the flash: how a record is laid out, what \<open>write_record\<close> leaves behind when it is cut off, and what
  \<open>read_record\<close> reads of a complete or a damaged record. Pages have 8 bytes, the size of a header.
\<close>

section \<open>Headers\<close>

lemma length_little_endian [simp]: "length (little_endian n v) = n"
  by (simp add: little_endian_def)

lemma little_endian_Suc: "little_endian (Suc n) v = byte_of v # little_endian n (v div 256)"
proof -
  have "[0..<Suc n] = 0 # map Suc [0..<n]" by (simp add: upt_conv_Cons map_Suc_upt)
  then show ?thesis by (simp add: little_endian_def div_mult2_eq)
qed

lemma from_little_endian_of: "v < 256 ^ n \<Longrightarrow> from_little_endian (little_endian n v) = v"
proof (induction n arbitrary: v)
  case (Suc n)
  then have "v div 256 < 256 ^ n" by (simp add: less_mult_imp_div_less mult.commute)
  then show ?case by (simp add: little_endian_Suc Suc.IH)
qed (simp add: little_endian_def)

lemma length_sotp_header_bytes [simp]: "length (sotp_header_bytes h) = 8"
  by (simp add: sotp_header_bytes_def)

definition header_ok :: "sotp_header \<Rightarrow> bool" where
  "header_ok h \<longleftrightarrow> type_and_flags h < 65536 \<and> header_length h < 65536"

lemma header_of_bytes:
  assumes "header_ok h"
  shows "header_of (sotp_header_bytes h) = h"
proof -
  have "unat (mac h) < 256 ^ 4" using unsigned_less [of "mac h"] by simp
  with assms show ?thesis
    by (simp add: header_of_def sotp_header_bytes_def header_ok_def from_little_endian_of)
qed

lemma header_prefix: "take 4 (sotp_header_bytes h) = little_endian 2 (type_and_flags h) @ little_endian 2 (header_length h)"
  by (simp add: sotp_header_bytes_def)

lemma crc32_append [simp]: "crc32 crc (a @ b) = crc32 (crc32 crc a) b"
  by (simp add: crc32_def)

lemma crc32_Nil [simp]: "crc32 crc [] = crc"
  by (simp add: crc32_def)


section \<open>Complete records\<close>

text \<open>A record, and what it takes on the flash with the padding of its last page.\<close>

definition record_bytes :: "nat \<Rightarrow> bytes \<Rightarrow> bytes" where
  "record_bytes tf data = sotp_header_bytes (record_header tf data) @ data"

definition record_image :: "nat \<Rightarrow> bytes \<Rightarrow> bytes" where
  "record_image tf data = pad8 (record_bytes tf data)"

definition storable :: "nat \<Rightarrow> bytes \<Rightarrow> bool" where
  "storable tf data \<longleftrightarrow> tf < 65536 \<and> length data < 65536"

definition known_type :: "nat \<Rightarrow> bool" where
  "known_type tf \<longleftrightarrow> tf mod 4096 < 16 \<or> tf mod 4096 = 0xFFE"

lemma length_record_bytes [simp]: "length (record_bytes tf data) = 8 + length data"
  by (simp add: record_bytes_def)

lemma record_image_eq: "record_image tf data = sotp_header_bytes (record_header tf data) @ pad8 data"
  by (simp add: record_image_def record_bytes_def)

lemma length_record_image: "length (record_image tf data) = 8 + (length data + 7) div 8 * 8"
  by (simp add: record_image_eq length_pad8)

lemma record_image_mod [simp]: "length (record_image tf data) mod 8 = 0"
  by (simp add: record_image_def)

lemma record_header_fields:
  assumes "storable tf data"
  shows "header_ok (record_header tf data)" "type_and_flags (record_header tf data) = tf"
    "header_length (record_header tf data) = length data"
    "mac (record_header tf data) = crc32 INITIAL_CRC (take 4 (record_bytes tf data) @ data)"
  using assms by (simp_all add: record_header_def header_ok_def storable_def wrap_simps record_bytes_def header_prefix Let_def)

lemma pad_addr_8:
  assumes "0 < n" "n < 2 ^ 31"
  shows "pad_addr n 8 = (n + 7) div 8 * 8"
proof -
  obtain m where m: "n = Suc m" using assms(1) by (cases n) auto
  with assms have small: "m < 2 ^ 31" by simp
  have "u32_wrap (n + 0xFFFFFFFF) = m" using small m by (simp add: u32_wrap_def)
  moreover have "m div 8 * 8 \<le> m" by simp
  moreover have "(n + 7) div 8 = m div 8 + 1" using m by (simp add: div_add_self1)
  ultimately show ?thesis
    using small m by (simp add: pad_addr_def u32_wrap_def)
qed

lemma pad_addr_aligned:
  assumes "off mod 8 = 0" "0 < n" "off + n < 2 ^ 31"
  shows "pad_addr (off + n) 8 = off + (n + 7) div 8 * 8"
proof -
  obtain q where q: "off = 8 * q" using assms(1) by (auto simp: mod_eq_0_iff_dvd)
  show ?thesis using assms(2,3) by (subst pad_addr_8) (simp_all add: q add.assoc)
qed

lemma pad_addr_record:
  assumes "off mod 8 = 0" "off + length (record_image tf data) < 2 ^ 30"
  shows "pad_addr (off + 8 + length data) 8 = off + length (record_image tf data)"
proof -
  have "8 + length data \<le> length (record_image tf data)" by (simp add: record_image_def pad8_def)
  then have "pad_addr (off + (8 + length data)) 8 = off + (8 + length data + 7) div 8 * 8"
    using assms by (intro pad_addr_aligned) simp_all
  then show ?thesis by (simp add: record_image_def length_pad8 add.assoc)
qed

lemma write_record_ok:
  assumes fl: "on_flash S s c" and a: "a < 2" and min: "min_prog_size s = 8" and off: "off mod 8 = 0"
    and buf: "data_len \<le> length buf" "data = take data_len buf"
    and fits: "off + length (record_image (typ OR flags) data) \<le> S"
  shows "run_ok s (write_record a off typ flags data_len buf s)
    (\<lambda>(ret, next_offset) s'. ret = SOTP_SUCCESS \<and> next_offset = off + length (record_image (typ OR flags) data) \<and>
       left_with S s (overwrite c (a * S + off) (record_image (typ OR flags) data)) s')
    (torn (a * S + off) (record_image (typ OR flags) data) c)"
proof -
  let ?h = "sotp_header_bytes (record_header (typ OR flags) data)" and ?i = "record_image (typ OR flags) data"
  have len: "length data = data_len" using buf by simp
  have img: "?i = ?h @ pad8 data" by (rule record_image_eq)
  have S: "S < 2 ^ 30" "a * S + S \<le> length c" using area_places [OF fl a] by simp_all
  have pad: "pad_addr (off + 8 + data_len) 8 = off + length ?i"
    using pad_addr_record [OF off, of "typ OR flags" data] fits S(1) len by simp
  have fits': "off + 8 + length (pad8 data) \<le> S" using fits unfolding img by simp
  have torn1: "torn (a * S + off) ?i c c'" if "torn (a * S + off) ?h c c'" for c'
    unfolding img by (rule torn_first [OF that]) simp
  have first: "run_ok s (sotp_flash_write_area a off 8 (?h @ []) s)
      (\<lambda>ret s'. ret = PAL_SUCCESS \<and> left_with S s (overwrite c (a * S + off) ?h) s') (torn (a * S + off) ?i c)"
    using write_area_ok [OF fl a off, of 8 "?h @ []"] fits' torn1 by (auto elim!: run_ok_mono)
  have eq: "write_record a off typ flags data_len buf s =
     followed_by (sotp_flash_write_area a off 8 (?h @ []) s)
       (\<lambda>(ret, s1). if ret \<noteq> PAL_SUCCESS then Returns ((SOTP_WRITE_ERROR, 0), s1)
          else if 0 < data_len
          then followed_by (sotp_flash_write_area a (off + 8) data_len data s1)
            (\<lambda>(ret, s2). if ret \<noteq> PAL_SUCCESS then Returns ((SOTP_WRITE_ERROR, 0), s2)
               else Returns ((SOTP_SUCCESS, pad_addr (off + 8 + data_len) 8), s2))
          else Returns ((SOTP_SUCCESS, pad_addr (off + 8) 8), s1))"
  proof -
    have "rd_block buf 0 data_len = Some data" using buf by (simp add: rd_block_def)
    then show ?thesis
      by (simp only: write_record_def min option.case Let_def less_irrefl if_False simp_thms take_0 append_Nil2 drop_0
          diff_zero add_0_right)
  qed
  show ?thesis
    unfolding eq
  proof (rule run_ok_followed_by [OF first])
    fix ret s1
    assume "ret = PAL_SUCCESS \<and> left_with S s (overwrite c (a * S + off) ?h) s1"
    then have ret: "ret = PAL_SUCCESS" and l: "left_with S s (overwrite c (a * S + off) ?h) s1" by simp_all
    note fl1 = left_with_on_flash [OF l]
    show "run_ok s1 (case (ret, s1) of (ret, s1) \<Rightarrow> if ret \<noteq> PAL_SUCCESS then Returns ((SOTP_WRITE_ERROR, 0), s1)
          else if 0 < data_len
          then followed_by (sotp_flash_write_area a (off + 8) data_len data s1)
            (\<lambda>(ret, s2). if ret \<noteq> PAL_SUCCESS then Returns ((SOTP_WRITE_ERROR, 0), s2)
               else Returns ((SOTP_SUCCESS, pad_addr (off + 8 + data_len) 8), s2))
          else Returns ((SOTP_SUCCESS, pad_addr (off + 8) 8), s1))
      (\<lambda>(ret, next_offset) s'. ret = SOTP_SUCCESS \<and> next_offset = off + length ?i \<and> left_with S s (overwrite c (a * S + off) ?i) s')
      (torn (a * S + off) ?i c)"
    proof (cases "0 < data_len")
      case False
      then have "data = []" "data_len = 0" using len by auto
      then have "?i = ?h" "pad_addr (off + 8) 8 = off + length ?i" using pad unfolding img by (simp_all add: pad8_def)
      with False ret l show ?thesis by (simp add: run_ok_returns)
    next
      case True
      have join: "overwrite (overwrite c (a * S + off) ?h) (a * S + (off + 8)) (pad8 data) = overwrite c (a * S + off) ?i"
        unfolding img using overwrite_append [of "a * S + off" ?h "pad8 data" c] fits' S by (simp add: add.assoc)
      have tornb: "torn (a * S + off) ?i c c'"
        if "torn (a * S + (off + 8)) (pad8 data) (overwrite c (a * S + off) ?h) c'" for c'
        unfolding img using torn_second [of "a * S + off" ?h "pad8 data" c c'] that fits' S by (simp add: add.assoc)
      have td: "take data_len data = data" using len by simp
      have "(off + 8) mod 8 = 0" using off by simp
      from write_area_ok [OF fl1 a this, of data_len data]
      have second: "run_ok s1 (sotp_flash_write_area a (off + 8) data_len data s1)
          (\<lambda>ret s'. ret = PAL_SUCCESS \<and> left_with S s1 (overwrite c (a * S + off) ?i) s') (torn (a * S + off) ?i c)"
        using True len fits' tornb unfolding td join by (auto elim!: run_ok_mono)
      show ?thesis
        using True ret
        by (auto intro!: run_ok_followed_by [OF second] run_ok_returns simp: pad left_with_trans [OF l])
    qed
  qed
qed


section \<open>Reading a record\<close>

lemma read_chunks_ok:
  assumes "on_flash S s c" "a < 2" "quiet s"
  shows "\<lbrakk>off + n \<le> S; n = 0 \<or> 0 < buf_len\<rbrakk> \<Longrightarrow>
    read_chunks a off n buf_len crc acc s =
      Returns ((True, crc32 crc (take n (drop off (area_of S a c))), acc @ take n (drop off (area_of S a c))), s)"
proof (induction n arbitrary: off crc acc rule: less_induct)
  case (less n)
  let ?A = "area_of S a c"
  show ?case
  proof (cases "n = 0")
    case False
    define m where "m = min n buf_len"
    have m: "0 < m" "m \<le> n" using False less.prems by (auto simp: m_def)
    have "n = m + (n - m)" using m by simp
    then have split: "take n (drop off ?A) = take m (drop off ?A) @ take (n - m) (drop (off + m) ?A)"
      by (metis take_add drop_drop add.commute)
    have rest: "read_chunks a (off + m) (n - m) buf_len (crc32 crc (take m (drop off ?A))) (acc @ take m (drop off ?A)) s =
        Returns ((True, crc32 crc (take n (drop off ?A)), acc @ take n (drop off ?A)), s)"
      using less.IH [of "n - m" "off + m" "crc32 crc (take m (drop off ?A))" "acc @ take m (drop off ?A)"] m less.prems
      unfolding split by simp
    from read_area_ok [OF assms, of m off] m less.prems rest show ?thesis
      using False by (subst read_chunks.simps) (simp add: Let_def m_def [symmetric])
  qed (simp add: read_chunks.simps)
qed

text \<open>What is at an offset of an area: a record, or bytes that are not a valid record.\<close>

definition record_at :: "bytes \<Rightarrow> nat \<Rightarrow> nat \<Rightarrow> bytes \<Rightarrow> bool" where
  "record_at A off tf data \<longleftrightarrow>
     storable tf data \<and> off + length (record_image tf data) \<le> length A \<and>
     take (length (record_image tf data)) (drop off A) = record_image tf data"

definition damaged_at :: "bytes \<Rightarrow> nat \<Rightarrow> bool" where
  "damaged_at A off \<longleftrightarrow>
     off + 8 \<le> length A \<and>
     (let h = header_of (take 8 (drop off A)) in
      \<not> known_type (type_and_flags h) \<or>
      off + 8 + header_length h \<le> length A \<and>
      mac h \<noteq> crc32 INITIAL_CRC (take 4 (drop off A) @ take (header_length h) (drop (off + 8) A)))"

lemma read_record_header:
  assumes "on_flash S s c" "a < 2" "quiet s" "off + 8 \<le> S"
  shows "sotp_flash_read_area a off 8 s = Returns ((PAL_SUCCESS, take 8 (drop off (area_of S a c))), s)"
  using read_area_ok [OF assms(1-3) _ assms(4)] by simp

lemma record_at_parts:
  assumes "record_at A off tf data"
  shows "take 8 (drop off A) = sotp_header_bytes (record_header tf data)" "take (length data) (drop (off + 8) A) = data"
    "off + 8 + length data \<le> length A"
proof -
  let ?i = "record_image tf data"
  have i: "take (length ?i) (drop off A) = ?i" "off + length ?i \<le> length A" using assms by (simp_all add: record_at_def)
  have "take 8 (drop off A) = take 8 (take (length ?i) (drop off A))" by (simp add: record_image_eq)
  then show "take 8 (drop off A) = sotp_header_bytes (record_header tf data)" unfolding i(1) by (simp add: record_image_eq)
  have "take (length data) (drop (off + 8) A) = take (length data) (drop 8 (take (length ?i) (drop off A)))"
    by (simp add: drop_take record_image_eq pad8_def add.commute)
  then show "take (length data) (drop (off + 8) A) = data" unfolding i(1) by (simp add: record_image_eq pad8_def)
  show "off + 8 + length data \<le> length A" using i(2) by (simp add: record_image_eq pad8_def)
qed

lemma read_record_present:
  assumes fl: "on_flash S s c" "a < 2" "quiet s" and min: "min_prog_size s = 8" and off: "off mod 8 = 0"
    and r: "record_at (area_of S a c) off tf data" and known: "known_type tf"
  shows "read_record a off buf_len validate_only s =
    Returns (if \<not> validate_only \<and> buf_len < length data
       then \<lparr>rr_ret = SOTP_BUFF_TOO_SMALL, rr_valid = True, rr_type = tf mod 4096, rr_flags = tf AND HEADER_FLAG_MASK,
             rr_length = length data, rr_next = off + length (record_image tf data), rr_data = []\<rparr>
       else \<lparr>rr_ret = SOTP_SUCCESS, rr_valid = True, rr_type = tf mod 4096, rr_flags = tf AND HEADER_FLAG_MASK,
             rr_length = length data, rr_next = off + length (record_image tf data),
             rr_data = (if validate_only then [] else data)\<rparr>, s)"
proof -
  let ?A = "area_of S a c" and ?h = "record_header tf data"
  have lenA: "length ?A = S" using fl by (simp add: on_flash_def)
  note parts = record_at_parts [OF r, unfolded lenA]
  have st: "storable tf data" and fits: "off + length (record_image tf data) \<le> S"
    using r lenA by (simp_all add: record_at_def)
  note f = record_header_fields [OF st]
  have S: "S < 2 ^ 30" using area_places [OF fl(1,2)] by simp
  have pad: "pad_addr (off + 8 + length data) 8 = off + length (record_image tf data)"
    using pad_addr_record [OF off] fits S by simp
  have head: "sotp_flash_read_area a off 8 s = Returns ((PAL_SUCCESS, sotp_header_bytes ?h), s)"
    using read_record_header [OF fl, of off] parts by simp
  have crc: "crc32 (crc32 INITIAL_CRC (take 4 (sotp_header_bytes ?h))) data = mac ?h"
    unfolding f(4) by (simp add: record_bytes_def)
  have chunks: "read_chunks a (off + 8) (length data) (if validate_only then INT_BUF_SIZE else buf_len)
      (crc32 INITIAL_CRC (take 4 (sotp_header_bytes ?h))) [] s = Returns ((True, mac ?h, data), s)"
    if "validate_only \<or> length data \<le> buf_len"
  proof -
    have "length data = 0 \<or> 0 < (if validate_only then INT_BUF_SIZE else buf_len)" using that by auto
    from read_chunks_ok [OF fl parts(3) this] show ?thesis using parts(2) crc by simp
  qed
  show ?thesis
    using known chunks
    unfolding read_record_def head followed_by.simps split_conv header_of_bytes [OF f(1)] f(2,3) Let_def min pad
    by (auto simp: known_type_def)
qed

lemma read_record_damaged:
  assumes fl: "on_flash S s c" "a < 2" "quiet s" and d: "damaged_at (area_of S a c) off"
    and short: "validate_only \<or> header_length (header_of (take 8 (drop off (area_of S a c)))) \<le> buf_len \<or>
      \<not> known_type (type_and_flags (header_of (take 8 (drop off (area_of S a c)))))"
  obtains r where "read_record a off buf_len validate_only s = Returns (r, s)" "rr_ret r = SOTP_SUCCESS" "\<not> rr_valid r"
proof -
  let ?A = "area_of S a c"
  define h where "h = header_of (take 8 (drop off ?A))"
  have lenA: "length ?A = S" using fl by (simp add: on_flash_def)
  have le: "off + 8 \<le> S" using d lenA by (simp add: damaged_at_def)
  note head = read_record_header [OF fl le]
  show thesis
  proof (cases "known_type (type_and_flags h)")
    case False
    then show thesis
      using that unfolding read_record_def head followed_by.simps split_conv Let_def h_def [symmetric]
      by (auto simp: known_type_def)
  next
    case True
    with d lenA have len: "off + 8 + header_length h \<le> S"
      and crc: "mac h \<noteq> crc32 INITIAL_CRC (take 4 (drop off ?A) @ take (header_length h) (drop (off + 8) ?A))"
      by (auto simp: damaged_at_def Let_def h_def)
    have ok: "validate_only \<or> header_length h \<le> buf_len" using short True by (simp add: h_def)
    then have "header_length h = 0 \<or> 0 < (if validate_only then INT_BUF_SIZE else buf_len)" by auto
    from read_chunks_ok [OF fl len this]
    have chunks: "read_chunks a (off + 8) (header_length h) (if validate_only then INT_BUF_SIZE else buf_len)
        (crc32 INITIAL_CRC (take 4 (take 8 (drop off ?A)))) [] s =
      Returns ((True, crc32 INITIAL_CRC (take 4 (drop off ?A) @ take (header_length h) (drop (off + 8) ?A)),
        take (header_length h) (drop (off + 8) ?A)), s)"
      by simp
    show thesis
      using that True crc ok
      unfolding read_record_def head followed_by.simps split_conv Let_def h_def [symmetric] chunks
      by (auto simp: known_type_def)
  qed
qed

end
