(* ===== verification/Sotp_Log.thy ===== *)
theory Sotp_Log
  imports Sotp_Records
begin

text \<open>
  The log in an area: a master record, then the records of the items in the order they were written, and blank
  flash behind them. What the log says about an item is its last record.
\<close>

section \<open>Blank flash\<close>

abbreviation (input) "blank n \<equiv> replicate n (0xFF :: u8)"

lemma used_length_append:
  "used_length (xs @ ys) = (if used_length ys = 0 then used_length xs else length xs + used_length ys)"
  by (auto simp: used_length_def dropWhile_append)

lemma used_length_le: "used_length xs \<le> length xs"
  using length_dropWhile_le [of "\<lambda>b. b = 0xFF" "rev xs"] by (simp add: used_length_def)

lemma used_length_0: "used_length xs = 0 \<longleftrightarrow> xs = blank (length xs)"
  by (auto simp: used_length_def dropWhile_eq_Nil_conv replicate_length_same [symmetric])
     (metis in_set_replicate)

lemma used_length_blank [simp]: "used_length (blank n) = 0"
  by (simp add: used_length_0)

lemma used_length_behind: "used_length ys \<noteq> 0 \<Longrightarrow> length xs < used_length (xs @ ys)"
  by (simp add: used_length_append)

lemma scan_blocks_ok:
  assumes "on_flash S s c" "a < 2" "quiet s"
  shows "128 * n \<le> S \<Longrightarrow> scan_blocks a n (128 * n) s = Returns ((PAL_SUCCESS, used_length (take (128 * n) (area_of S a c))), s)"
proof (induction n)
  case (Suc n)
  let ?A = "area_of S a c"
  have "take (128 * Suc n) ?A = take (128 * n) ?A @ take 128 (drop (128 * n) ?A)"
    by (simp add: take_add [symmetric] add.commute)
  moreover have "length (take (128 * n) ?A) = 128 * n" using Suc.prems assms(1,2) by (simp add: on_flash_def)
  ultimately have "used_length (take (128 * Suc n) ?A) =
      (if used_length (take 128 (drop (128 * n) ?A)) = 0 then used_length (take (128 * n) ?A)
       else 128 * n + used_length (take 128 (drop (128 * n) ?A)))"
    by (simp add: used_length_append)
  moreover have "sotp_flash_read_area a (128 * n) 128 s = Returns ((PAL_SUCCESS, take 128 (drop (128 * n) ?A)), s)"
    using read_area_ok [OF assms, of 128 "128 * n"] Suc.prems by simp
  ultimately show ?case using Suc by simp
qed (simp add: used_length_def)

lemma calc_empty_space_ok:
  assumes "on_flash S s c" "a < 2" "quiet s"
  shows "calc_empty_space a s = Returns ((PAL_SUCCESS, used_length (area_of S a c)), s)"
proof -
  have S: "S mod 128 = 0" "length (area_of S a c) = S" using assms by (simp_all add: on_flash_def simulated_def)
  define q where "q = S div 128"
  have q: "S = 128 * q" using mult_div_mod_eq [of 128 S] unfolding S(1) q_def by simp
  then have "scan_blocks a q S s = Returns ((PAL_SUCCESS, used_length (take S (area_of S a c))), s)"
    using scan_blocks_ok [OF assms, of q] by simp
  then show ?thesis
    unfolding calc_empty_space_def area_places(2) [OF assms(1,2)] q_def using S(2) by simp
qed


section \<open>Locations\<close>

lemma record_location_eq:
  assumes "off < 2 ^ 31" "a < 2"
  shows "record_location a off = off + a * 2 ^ 31"
proof (cases "a = 0")
  case False
  with assms(2) have a: "a = 1" by simp
  have "\<not> bit off 31" using assms(1) by (simp add: bit_iff_odd)
  then have "off AND 2 ^ 31 = 0"
    by (intro bit_eqI) (simp only: bit_and_iff bit_exp_iff bit_0_eq bot_apply, auto)
  then have "off OR 2 ^ 31 = off + 2 ^ 31" using disjunctive_add_eq_or [of off "2 ^ 31"] by simp
  with a show ?thesis by (simp add: record_location_def u32_wrap_def)
qed (simp add: record_location_def u32_wrap_def)

lemma location_of_record:
  assumes "off < 2 ^ 31" "a < 2"
  shows "location_area (record_location a off) = a" "location_offset (record_location a off) = off"
proof -
  show "location_area (record_location a off) = a"
    using assms by (simp add: record_location_eq location_area_def drop_bit_eq_div u8_wrap_def)
  have mask: "(0x7FFFFFFF :: nat) = mask 31" by (simp add: mask_eq_exp_minus_1)
  then show "location_offset (record_location a off) = off"
    using assms unfolding location_offset_def record_location_eq [OF assms] mask take_bit_eq_mask [symmetric]
    by (simp add: take_bit_eq_mod)
qed

lemma location_nothing [simp]: "location_offset 0 = 0"
  by (simp add: location_offset_def)

lemma record_location_pos: "0 < off \<Longrightarrow> off < 2 ^ 31 \<Longrightarrow> a < 2 \<Longrightarrow> record_location a off \<noteq> 0"
  by (simp add: record_location_eq)


section \<open>The log\<close>

text \<open>An item of the log: a type, and its data or its deletion.\<close>

type_synonym log_item = "nat \<times> bytes option"

fun item_flags :: "log_item \<Rightarrow> nat" where
  "item_flags (typ, Some data) = typ"
| "item_flags (typ, None) = typ OR DELETE_ITEM_FLAG"

definition item_data :: "log_item \<Rightarrow> bytes" where
  "item_data i = (case snd i of None \<Rightarrow> [] | Some data \<Rightarrow> data)"

definition item_image :: "log_item \<Rightarrow> bytes" where
  "item_image i = record_image (item_flags i) (item_data i)"

definition items_image :: "log_item list \<Rightarrow> bytes" where
  "items_image items = concat (map item_image items)"

definition item_ok :: "log_item \<Rightarrow> bool" where
  "item_ok i \<longleftrightarrow> fst i < SOTP_MAX_TYPES \<and> length (item_data i) < 65536"

definition contents :: "log_item list \<Rightarrow> nat \<rightharpoonup> bytes" where
  "contents items = foldl (\<lambda>m i. m(fst i := snd i)) (\<lambda>_. None) items"

definition master_image :: "nat \<Rightarrow> bytes" where
  "master_image version = record_image SOTP_MASTER_RECORD_TYPE (master_data version)"

lemma items_image_simps [simp]:
  "items_image [] = []" "items_image (i # items) = item_image i @ items_image items"
  "items_image (items @ items') = items_image items @ items_image items'"
  by (simp_all add: items_image_def)

lemma contents_snoc [simp]: "contents [] = (\<lambda>_. None)" "contents (items @ [i]) = (contents items)(fst i := snd i)"
  by (simp_all add: contents_def)

lemma items_image_mod [simp]: "length (items_image items) mod 8 = 0"
  by (induction items) (simp_all add: item_image_def mod_add_eq [symmetric])

lemma small_type_bits:
  assumes "typ < (16 :: nat)"
  shows "typ AND 0xF000 = 0 \<and> (typ OR 0x8000) mod 4096 = typ \<and> (typ OR 0x8000) AND 0xF000 = 0x8000 \<and>
     (typ OR 0x8000) mod 256 = typ \<and> typ OR 0x8000 < 65536 \<and> typ AND 0x8000 = 0"
proof -
  have "typ = 0 \<or> typ = 1 \<or> typ = 2 \<or> typ = 3 \<or> typ = 4 \<or> typ = 5 \<or> typ = 6 \<or> typ = 7 \<or> typ = 8 \<or>
      typ = 9 \<or> typ = 10 \<or> typ = 11 \<or> typ = 12 \<or> typ = 13 \<or> typ = 14 \<or> typ = 15"
    using assms by presburger
  then show ?thesis by (elim disjE) simp_all
qed

lemma item_flags_ok:
  assumes "item_ok i"
  shows "item_flags i mod 4096 = fst i" "item_flags i mod 256 = fst i" "item_flags i < 65536"
    "(item_flags i AND HEADER_FLAG_MASK) AND DELETE_ITEM_FLAG = (if snd i = None then DELETE_ITEM_FLAG else 0)"
    "known_type (item_flags i)" "storable (item_flags i) (item_data i)"
proof -
  have t: "fst i < 16" using assms by (simp add: item_ok_def)
  note bits = small_type_bits [OF t]
  show "item_flags i mod 4096 = fst i" "item_flags i mod 256 = fst i" "item_flags i < 65536"
    "(item_flags i AND HEADER_FLAG_MASK) AND DELETE_ITEM_FLAG = (if snd i = None then DELETE_ITEM_FLAG else 0)"
    using bits t by (cases i; cases "snd i"; simp)+
  then show "known_type (item_flags i)" "storable (item_flags i) (item_data i)"
    using t assms by (simp_all add: known_type_def storable_def item_ok_def)
qed

lemma record_at_append:
  assumes "A = xs @ record_image tf data @ ys" "storable tf data"
  shows "record_at A (length xs) tf data"
  using assms by (simp add: record_at_def)

lemma record_at_cong:
  assumes "record_at A off tf data" "length A = length A'"
    "take (length (record_image tf data)) (drop off A') = take (length (record_image tf data)) (drop off A)"
  shows "record_at A' off tf data"
  using assms by (simp add: record_at_def)

lemma record_at_overwrite:
  assumes "record_at A off tf data" "off + length (record_image tf data) \<le> i" "i + length new \<le> length A"
  shows "record_at (overwrite A i new) off tf data"
  using assms by (intro record_at_cong [OF assms(1)]) (simp_all add: take_overwrite)

lemma length_master_image [simp]: "length (master_image version) = 16"
  by (simp add: master_image_def length_record_image master_data_def)

lemma record_first_byte:
  assumes "storable tf data"
  shows "hd (record_image tf data) = byte_of tf" "record_image tf data \<noteq> []"
  using record_header_fields(2) [OF assms]
  by (simp_all add: record_image_eq sotp_header_bytes_def little_endian_Suc numeral_2_eq_2)

lemma record_used:
  assumes "storable tf data" "tf mod 256 \<noteq> 255"
  shows "used_length (record_image tf data @ ys) \<noteq> 0"
proof
  assume "used_length (record_image tf data @ ys) = 0"
  then have "record_image tf data @ ys = blank (length (record_image tf data @ ys))" by (simp only: used_length_0)
  moreover have "record_image tf data @ ys \<noteq> []" using record_first_byte(2) [OF assms(1)] by simp
  ultimately have "hd (record_image tf data @ ys) = 0xFF" by (metis hd_replicate length_0_conv)
  then have "byte_of tf = 0xFF" using record_first_byte [OF assms(1)] by simp
  then have "unat (byte_of tf) = unat (0xFF :: u8)" by simp
  with assms(2) show False by simp
qed

lemma item_used:
  assumes "item_ok i"
  shows "used_length (item_image i @ ys) \<noteq> 0"
proof -
  have "item_flags i mod 256 \<noteq> 255" using item_flags_ok(2) [OF assms] assms by (simp add: item_ok_def)
  then show ?thesis unfolding item_image_def by (rule record_used [OF item_flags_ok(6) [OF assms]])
qed


section \<open>The table of locations\<close>

text \<open>The entry of each type points to its record in area a, whose content is A up to the limit, or is 0.\<close>

definition entry_ok :: "nat \<Rightarrow> bytes \<Rightarrow> nat \<Rightarrow> nat \<Rightarrow> nat \<Rightarrow> bytes \<Rightarrow> bool" where
  "entry_ok a A limit entry typ data \<longleftrightarrow>
     (\<exists>off. entry = record_location a off \<and> 16 \<le> off \<and> off mod 8 = 0 \<and> record_at A off typ data \<and>
            off + length (record_image typ data) \<le> limit)"

definition table_ok :: "nat \<Rightarrow> bytes \<Rightarrow> nat \<Rightarrow> nat list \<Rightarrow> (nat \<rightharpoonup> bytes) \<Rightarrow> bool" where
  "table_ok a A limit tab m \<longleftrightarrow>
     length tab = SOTP_MAX_TYPES \<and> dom m \<subseteq> {..<SOTP_MAX_TYPES} \<and>
     (\<forall>typ < SOTP_MAX_TYPES. case m typ of None \<Rightarrow> tab ! typ = 0 | Some data \<Rightarrow> entry_ok a A limit (tab ! typ) typ data)"

lemma table_ok_empty: "table_ok a A limit (replicate SOTP_MAX_TYPES 0) (\<lambda>_. None)"
  by (simp add: table_ok_def)

lemma table_okD:
  assumes "table_ok a A limit tab m" "t < SOTP_MAX_TYPES"
  shows "m t = None \<Longrightarrow> tab ! t = 0" "m t = Some data \<Longrightarrow> entry_ok a A limit (tab ! t) t data" "length tab = SOTP_MAX_TYPES"
  using assms by (auto simp: table_ok_def split: option.splits)

lemma table_okI:
  assumes "length tab = SOTP_MAX_TYPES" "dom m \<subseteq> {..<SOTP_MAX_TYPES}"
    and "\<And>t. t < SOTP_MAX_TYPES \<Longrightarrow> m t = None \<Longrightarrow> tab ! t = 0"
    and "\<And>t data. t < SOTP_MAX_TYPES \<Longrightarrow> m t = Some data \<Longrightarrow> entry_ok a A limit (tab ! t) t data"
  shows "table_ok a A limit tab m"
  using assms by (auto simp: table_ok_def split: option.splits)

lemma table_ok_update:
  assumes tab: "table_ok a A limit tab m" and v: "case v of None \<Rightarrow> entry = 0 | Some data \<Rightarrow> entry_ok a A limit entry t data"
    and t: "t < SOTP_MAX_TYPES"
  shows "table_ok a A limit (tab[t := entry]) (m(t := v))"
proof (rule table_okI)
  show "length (tab[t := entry]) = SOTP_MAX_TYPES" using table_okD(3) [OF tab t] by simp
  show "dom (m(t := v)) \<subseteq> {..<SOTP_MAX_TYPES}" using tab t by (auto simp: table_ok_def)
next
  fix t'
  assume "t' < SOTP_MAX_TYPES" "(m(t := v)) t' = None"
  then show "tab[t := entry] ! t' = 0" using table_okD [OF tab] v by (cases "t' = t") auto
next
  fix t' data
  assume "t' < SOTP_MAX_TYPES" "(m(t := v)) t' = Some data"
  then show "entry_ok a A limit (tab[t := entry] ! t') t' data" using table_okD [OF tab] v by (cases "t' = t") auto
qed

lemma entry_ok_overwrite:
  assumes "entry_ok a A limit entry t data" "limit \<le> i" "i + length new \<le> length A" "limit \<le> limit'"
  shows "entry_ok a (overwrite A i new) limit' entry t data"
  using assms record_at_overwrite by (fastforce simp: entry_ok_def)

lemma table_ok_overwrite:
  assumes "table_ok a A limit tab m" "limit \<le> i" "i + length new \<le> length A" "limit \<le> limit'"
  shows "table_ok a (overwrite A i new) limit' tab m"
  using table_okD [OF assms(1)] assms by (intro table_okI entry_ok_overwrite [OF _ assms(2-4)]) (auto simp: table_ok_def)

end
