(* ===== verification/Sotp_Gc.thy ===== *)
theory Sotp_Gc
  imports Sotp_Log
begin

text \<open>
  The garbage collection: the records of the items are copied to the other area, which becomes active with its
  master record. Until then the other area has no master record, however far the copying has come.
\<close>

lemma run_okI: "(quiet s \<Longrightarrow> run_ok s m Q C) \<Longrightarrow> run_ok s m Q C"
  by (auto simp: run_ok_def)

lemma write_all_ok:
  assumes "on_flash S s c" "a < 2" "off mod 8 = 0" "data \<noteq> []" "off + length (pad8 data) \<le> S"
  shows "run_ok s (sotp_flash_write_area a off (length data) data s)
    (\<lambda>ret s'. ret = PAL_SUCCESS \<and> left_with S s (overwrite c (a * S + off) (pad8 data)) s')
    (torn (a * S + off) (pad8 data) c)"
  using write_area_ok [OF assms(1-3), of "length data" data] assms(4,5) by simp

section \<open>Copying a record\<close>

lemma copy_chunks_ok:
  assumes a: "a < 2"
  shows "\<lbrakk>on_flash S s c; from_off + left \<le> S; to_off mod 8 = 0; length start = 0 \<or> length start = 8;
      0 < length start + left; data = take left (drop from_off (area_of S a c));
      to_off + length (pad8 (start @ data)) \<le> S\<rbrakk> \<Longrightarrow>
    run_ok s (copy_chunks a from_off to_off left 128 start s)
      (\<lambda>(ret, to') s'. ret = SOTP_SUCCESS \<and> to' = to_off + length start + left \<and>
         left_with S s (overwrite c ((1 - a) * S + to_off) (pad8 (start @ data))) s')
      (torn ((1 - a) * S + to_off) (pad8 (start @ data)) c)"
proof (induction left arbitrary: s c from_off to_off start data rule: less_induct)
  case (less left)
  let ?A = "area_of S a c"
  note fl = less.prems(1)
  define n where "n = min left (128 - length start)"
  define b where "b = 1 - a"
  have b: "b < 2" "a \<noteq> b" using a by (auto simp: b_def elim: area_cases)
  define now where "now = take n data"
  define later where "later = drop n data"
  have len: "length data = left" using less.prems(2,6) fl a by (simp add: on_flash_def)
  have n: "n \<le> left" "length start + n \<le> 128" "left \<noteq> 0 \<Longrightarrow> n \<noteq> 0" using less.prems(4) by (auto simp: n_def)
  have data: "data = now @ later" by (simp add: now_def later_def)
  have now: "now = take n (drop from_off ?A)" "length now = n"
    using n(1) len by (simp_all add: now_def less.prems(6) min_absorb1)
  have start_mod: "length start mod 8 = 0" using less.prems(4) by auto
  have pads: "pad8 (start @ data) = start @ pad8 data" using start_mod by simp
  let ?w = "start @ now"
  have wpos: "0 < length ?w" using less.prems(4,5) n(3) now(2) by auto
  show ?case
  proof (rule run_okI)
    assume quiet: "quiet s"
    have read: "(if n = 0 then Returns ((PAL_SUCCESS, []), s) else sotp_flash_read_area a from_off n s) =
        Returns ((PAL_SUCCESS, now), s)"
      using read_area_ok [OF fl a quiet, of n from_off] now n less.prems(2) by auto
    have eq: "copy_chunks a from_off to_off left 128 start s =
       followed_by (sotp_flash_write_area b to_off (length ?w) ?w s)
         (\<lambda>(ret, s2). if ret \<noteq> PAL_SUCCESS then Returns ((SOTP_WRITE_ERROR, 0), s2)
            else if left - n = 0 then Returns ((SOTP_SUCCESS, to_off + n + length start), s2)
            else copy_chunks a (from_off + n) (to_off + n + length start) (left - n) 128 [] s2)"
    proof -
      have "(128 = (0 :: nat)) = False" "n + length start = length ?w" using now(2) by simp_all
      then show ?thesis
        unfolding copy_chunks.simps [of a from_off to_off left 128 start s] Let_def n_def [symmetric] read
        by (simp only: b_def if_False followed_by.simps split_conv simp_thms)
    qed
    show "run_ok s (copy_chunks a from_off to_off left 128 start s)
      (\<lambda>(ret, to') s'. ret = SOTP_SUCCESS \<and> to' = to_off + length start + left \<and>
         left_with S s (overwrite c ((1 - a) * S + to_off) (pad8 (start @ data))) s')
      (torn ((1 - a) * S + to_off) (pad8 (start @ data)) c)"
    proof (cases "left = n")
      case True
      then have w: "?w = start @ data" using len now(2) by (simp add: data)
      have "run_ok s (sotp_flash_write_area b to_off (length ?w) ?w s)
          (\<lambda>ret s'. ret = PAL_SUCCESS \<and> left_with S s (overwrite c (b * S + to_off) (pad8 (start @ data))) s')
          (torn (b * S + to_off) (pad8 (start @ data)) c)"
        unfolding w using wpos less.prems(7) by (intro write_all_ok fl b less.prems(3)) (auto simp: w)
      then show ?thesis
        unfolding eq b_def [symmetric]
        by (rule run_ok_followed_by) (auto simp: True intro!: run_ok_returns)
    next
      case False
      then have full: "length ?w = 128" using now(2) n less.prems(4) by (auto simp: n_def)
      have pad_all: "pad8 (start @ data) = ?w @ pad8 later" unfolding data using full pad8_append [of ?w later] by simp
      have fits: "to_off + 128 + length (pad8 later) \<le> S" using less.prems(7) full unfolding pad_all by simp
      have aS: "b * S + S \<le> length c" using area_places [OF fl b(1)] by simp
      let ?c1 = "overwrite c (b * S + to_off) ?w"
      have pw: "pad8 ?w = ?w" using full by simp
      have fitw: "?w \<noteq> []" "to_off + length (pad8 ?w) \<le> S" using wpos fits full pw by auto
      have first: "run_ok s (sotp_flash_write_area b to_off (length ?w) ?w s)
          (\<lambda>ret s'. ret = PAL_SUCCESS \<and> left_with S s ?c1 s') (torn (b * S + to_off) (?w @ pad8 later) c)"
        using write_all_ok [OF fl b(1) less.prems(3) fitw] torn_first [of "b * S + to_off" ?w c] full pw
        by (auto elim!: run_ok_mono)
      show ?thesis
        unfolding eq b_def [symmetric] pad_all
      proof (rule run_ok_followed_by [OF first])
        fix ret s1
        assume "ret = PAL_SUCCESS \<and> left_with S s ?c1 s1"
        then have ret: "ret = PAL_SUCCESS" and l: "left_with S s ?c1 s1" by simp_all
        have same: "area_of S a ?c1 = ?A"
          using fl full fits by (intro area_of_overwrite_other [OF _ b(1) a b(2)]) (auto simp: on_flash_def)
        have later_eq: "later = take (left - n) (drop (from_off + n) (area_of S a ?c1))"
          unfolding same later_def less.prems(6) by (simp add: drop_take add.commute)
        have "run_ok s1 (copy_chunks a (from_off + n) (to_off + n + length start) (left - n) 128 [] s1)
            (\<lambda>(ret, to') s'. ret = SOTP_SUCCESS \<and> to' = to_off + n + length start + length ([] :: bytes) + (left - n) \<and>
               left_with S s1 (overwrite ?c1 ((1 - a) * S + (to_off + n + length start)) (pad8 ([] @ later))) s')
            (torn ((1 - a) * S + (to_off + n + length start)) (pad8 ([] @ later)) ?c1)"
        proof (rule less.IH [OF _ left_with_on_flash [OF l]])
          show "left - n < left" using n(3) False n(1) by linarith
          show "from_off + n + (left - n) \<le> S" using less.prems(2) n(1) by simp
          have at: "to_off + n + length start = to_off + 128" using full now(2) by simp
          show "(to_off + n + length start) mod 8 = 0" using less.prems(3) unfolding at by presburger
          show "to_off + n + length start + length (pad8 ([] @ later)) \<le> S" using fits unfolding at by simp
          show "length ([] :: bytes) = 0 \<or> length ([] :: bytes) = 8" by simp
          show "0 < length ([] :: bytes) + (left - n)" using False n(1) by simp
        qed (rule later_eq)
        moreover have at: "to_off + n + length start = to_off + 128" using full now(2) by simp
        moreover have "overwrite ?c1 (b * S + (to_off + 128)) (pad8 later) = overwrite c (b * S + to_off) (?w @ pad8 later)"
          using overwrite_append [of "b * S + to_off" ?w "pad8 later" c] fits full aS by (simp add: add.assoc)
        moreover have "torn (b * S + to_off) (?w @ pad8 later) c c'"
          if "torn (b * S + (to_off + 128)) (pad8 later) ?c1 c'" for c'
          using torn_second [of "b * S + to_off" ?w "pad8 later" c c'] that fits full aS by (simp add: add.assoc)
        ultimately have "run_ok s1 (copy_chunks a (from_off + n) (to_off + n + length start) (left - n) 128 [] s1)
            (\<lambda>(ret, to') s'. ret = SOTP_SUCCESS \<and> to' = to_off + length start + left \<and>
               left_with S s (overwrite c (b * S + to_off) (?w @ pad8 later)) s')
            (torn (b * S + to_off) (?w @ pad8 later) c)"
          unfolding b_def [symmetric] append_Nil at
          by (elim run_ok_mono) (use at n(1) left_with_trans [OF l] in auto)
        then show "run_ok s1 (case (ret, s1) of (ret, s2) \<Rightarrow> if ret \<noteq> PAL_SUCCESS then Returns ((SOTP_WRITE_ERROR, 0), s2)
            else if left - n = 0 then Returns ((SOTP_SUCCESS, to_off + n + length start), s2)
            else copy_chunks a (from_off + n) (to_off + n + length start) (left - n) 128 [] s2)
          (\<lambda>(ret, to') s'. ret = SOTP_SUCCESS \<and> to' = to_off + length start + left \<and>
               left_with S s (overwrite c (b * S + to_off) (?w @ pad8 later)) s')
          (torn (b * S + to_off) (?w @ pad8 later) c)"
          using ret False n(1) by simp
      qed
    qed
  qed
qed


lemma copy_record_ok:
  assumes fl: "on_flash S s c" and a: "a < 2" and min: "min_prog_size s = 8" and t: "t < SOTP_MAX_TYPES"
    and r: "record_at (area_of S a c) from_off t data" and to: "to_off mod 8 = 0"
    and fits: "to_off + length (record_image t data) < S"
  shows "run_ok s (copy_record a from_off to_off s)
    (\<lambda>(ret, next_offset) s'. ret = SOTP_SUCCESS \<and> next_offset = to_off + length (record_image t data) \<and>
       left_with S s (overwrite c ((1 - a) * S + to_off) (record_image t data)) s')
    (torn ((1 - a) * S + to_off) (record_image t data) c)"
proof (rule run_okI)
  assume quiet: "quiet s"
  let ?A = "area_of S a c" and ?h = "record_header t data"
  have b: "1 - a < 2" using a by simp
  have lenA: "length ?A = S" using fl a by (simp add: on_flash_def)
  note parts = record_at_parts [OF r, unfolded lenA]
  have st: "storable t data" using r by (simp add: record_at_def)
  note f = record_header_fields [OF st]
  have S: "S < 2 ^ 30" using area_places [OF fl a] by simp
  have img: "record_image t data = pad8 (sotp_header_bytes ?h @ data)" by (simp add: record_image_def record_bytes_def)
  have bits: "t AND 0x8000 = 0" using small_type_bits [OF t] by simp
  have "8 + length data \<le> length (record_image t data)" by (simp add: record_image_def pad8_def)
  then have pad: "pad_addr (8 + length data) 8 = length (record_image t data)"
    "pad_addr (to_off + (8 + length data)) 8 = to_off + length (record_image t data)"
    using pad_addr_aligned [of 0 "8 + length data"] pad_addr_aligned [OF to, of "8 + length data"] fits S
    by (simp_all add: record_image_def length_pad8)
  have head: "sotp_flash_read_area a from_off 8 s = Returns ((PAL_SUCCESS, sotp_header_bytes ?h), s)"
    using read_record_header [OF fl a quiet, of from_off] parts by simp
  have eq: "copy_record a from_off to_off s =
     followed_by (copy_chunks a (from_off + 8) to_off (length data) 128 (sotp_header_bytes ?h) s)
       (\<lambda>((ret, to_offset'), s2). if ret \<noteq> SOTP_SUCCESS then Returns ((ret, 0), s2)
          else Returns ((SOTP_SUCCESS, pad_addr to_offset' 8), s2))"
    using fits bits
    unfolding copy_record_def head followed_by.simps split_conv header_of_bytes [OF f(1)] f(2,3) Let_def min pad(1)
      area_places(2) [OF fl b]
    by simp
  have len8: "length (sotp_header_bytes ?h) = 0 \<or> length (sotp_header_bytes ?h) = 8" "0 < length (sotp_header_bytes ?h) + length data"
    by simp_all
  have fits': "to_off + length (pad8 (sotp_header_bytes ?h @ data)) \<le> S" using fits img by simp
  have "run_ok s (copy_chunks a (from_off + 8) to_off (length data) 128 (sotp_header_bytes ?h) s)
      (\<lambda>(ret, to') s'. ret = SOTP_SUCCESS \<and> to' = to_off + (8 + length data) \<and>
         left_with S s (overwrite c ((1 - a) * S + to_off) (record_image t data)) s')
      (torn ((1 - a) * S + to_off) (record_image t data) c)"
    using copy_chunks_ok [OF a fl parts(3) to len8 parts(2) [symmetric] fits'] unfolding img
    by (elim run_ok_mono) auto
  then show "run_ok s (copy_record a from_off to_off s)
    (\<lambda>(ret, next_offset) s'. ret = SOTP_SUCCESS \<and> next_offset = to_off + length (record_image t data) \<and>
       left_with S s (overwrite c ((1 - a) * S + to_off) (record_image t data)) s')
    (torn ((1 - a) * S + to_off) (record_image t data) c)"
    unfolding eq by (rule run_ok_followed_by) (auto simp: pad intro!: run_ok_returns)
qed


section \<open>Copying the items\<close>

text \<open>The area a is untouched and the first page of the other one is blank.\<close>

definition half_copied :: "nat \<Rightarrow> nat \<Rightarrow> bytes \<Rightarrow> bytes \<Rightarrow> bool" where
  "half_copied S a A c \<longleftrightarrow> length c = 2 * S \<and> area_of S a c = A \<and> take 8 (area_of S (1 - a) c) = blank 8"

lemma half_copied_overwrite:
  assumes "half_copied S a A c" "a < 2" "8 \<le> off" "off + length new \<le> S"
  shows "half_copied S a A (overwrite c ((1 - a) * S + off) new)"
proof -
  have len: "length c = 2 * S" and b: "1 - a < 2" "a \<noteq> 1 - a" using assms by (auto simp: half_copied_def elim: area_cases)
  have places: "(1 - a) * S + off + length new \<le> length c" using b assms(4) len by (elim area_cases [of "1 - a"]) simp_all
  have "take 8 (overwrite (area_of S (1 - a) c) off new) = take 8 (area_of S (1 - a) c)"
    using take_overwrite [of off new "area_of S (1 - a) c" 0 8] assms(3,4) len b by simp
  with assms(1) show ?thesis
    using area_of_overwrite [OF len b(1) assms(4)] area_of_overwrite_other [OF len b(1) assms(2) b(2) assms(4)] places
    by (simp add: half_copied_def)
qed

lemma half_copied_torn:
  assumes "half_copied S a A c" "a < 2" "8 \<le> off" "off + length new \<le> S" "torn ((1 - a) * S + off) new c c'"
  shows "half_copied S a A c'"
  using assms half_copied_overwrite [OF assms(1-3)] by (auto simp: torn_def)

text \<open>
  The state of the copying: the items of \<open>todo\<close> are still in area a, those of the others in the log that has
  been written to the other area so far.
\<close>

definition copying :: "nat \<Rightarrow> nat \<Rightarrow> bytes \<Rightarrow> nat list \<Rightarrow> (nat \<rightharpoonup> bytes) \<Rightarrow> nat set \<Rightarrow> nat \<Rightarrow> log_item list \<Rightarrow> bool" where
  "copying S a c tab m todo offset items \<longleftrightarrow>
     length tab = SOTP_MAX_TYPES \<and> dom m \<subseteq> {..<SOTP_MAX_TYPES} \<and>
     area_of S (1 - a) c = blank 16 @ items_image items @ blank (S - offset) \<and> (\<forall>i \<in> set items. item_ok i) \<and>
     offset = 16 + length (items_image items) \<and> contents items = m |` (- todo) \<and>
     (\<forall>t < SOTP_MAX_TYPES. \<forall>data. m t = Some data \<longrightarrow>
        (if t \<in> todo then entry_ok a (area_of S a c) S (tab ! t) t data
         else entry_ok (1 - a) (area_of S (1 - a) c) offset (tab ! t) t data)) \<and>
     (\<forall>t < SOTP_MAX_TYPES. m t = None \<longrightarrow> tab ! t = 0)"

definition stored_size :: "(nat \<rightharpoonup> bytes) \<Rightarrow> nat \<Rightarrow> nat" where
  "stored_size m t = (case m t of None \<Rightarrow> 0 | Some data \<Rightarrow> length (record_image t data))"

text \<open>The state s with the flash content c and the table tab.\<close>

definition with_table :: "nat \<Rightarrow> sotp \<Rightarrow> bytes \<Rightarrow> nat list \<Rightarrow> sotp \<Rightarrow> bool" where
  "with_table S s c tab s' \<longleftrightarrow> (\<exists>d. s' = s\<lparr>device := d, offset_by_type := tab\<rparr>) \<and> on_flash S s' c"

lemma copying_step:
  assumes cp: "copying S a c tab m todo offset items" and fl: "length c = 2 * S" "a < 2" "S < 2 ^ 30"
    and t: "t < SOTP_MAX_TYPES" and st: "storable t data" and fits: "offset + length (record_image t data) \<le> S"
  shows "copying S a (overwrite c ((1 - a) * S + offset) (record_image t data))
    (tab[t := record_location (1 - a) offset]) (m(t \<mapsto> data)) (todo - {t})
    (offset + length (record_image t data)) (items @ [(t, Some data)])"
proof -
  let ?i = "record_image t data" and ?c = "overwrite c ((1 - a) * S + offset) (record_image t data)"
  have b: "1 - a < 2" "a \<noteq> 1 - a" using fl by (auto elim: area_cases)
  note fits' = fits
  have Aa: "area_of S a ?c = area_of S a c" by (rule area_of_overwrite_other [OF fl(1) b(1) fl(2) b(2) fits'])
  have Ab: "area_of S (1 - a) ?c = overwrite (area_of S (1 - a) c) offset ?i" by (rule area_of_overwrite [OF fl(1) b(1) fits'])
  have lenb: "length (area_of S (1 - a) c) = S" using fl b by simp
  have len: "offset = 16 + length (items_image items)"
    and area: "area_of S (1 - a) c = blank 16 @ items_image items @ blank (S - offset)"
    using cp by (simp_all add: copying_def)
  have "overwrite (area_of S (1 - a) c) offset ?i = (blank 16 @ items_image items) @ ?i @ blank (S - offset - length ?i)"
    unfolding area using len fits' by (simp add: overwrite_def)
  then have area': "area_of S (1 - a) ?c = (blank 16 @ items_image items) @ ?i @ blank (S - (offset + length ?i))"
    unfolding Ab by simp
  have new: "entry_ok (1 - a) (area_of S (1 - a) ?c) (offset + length ?i) (record_location (1 - a) offset) t data"
    unfolding entry_ok_def
  proof (intro exI conjI)
    show "16 \<le> offset" "offset mod 8 = 0" using len by (simp_all add: mod_add_eq [symmetric])
    show "record_at (area_of S (1 - a) ?c) offset t data"
      using record_at_append [OF area' st] len by simp
  qed simp_all
  have old: "entry_ok (1 - a) (area_of S (1 - a) ?c) (offset + length ?i) (tab ! t') t' data'"
    if "t' \<notin> todo" "t' < SOTP_MAX_TYPES" "m t' = Some data'" for t' data'
    unfolding Ab using that cp lenb fits' by (intro entry_ok_overwrite [of _ _ offset]) (auto simp: copying_def)
  have img: "item_image (t, Some data) = ?i" by (simp add: item_image_def item_data_def)
  show ?thesis
    unfolding copying_def
  proof (intro conjI)
    show "area_of S (1 - a) ?c = blank 16 @ items_image (items @ [(t, Some data)]) @ blank (S - (offset + length ?i))"
      unfolding area' by (simp add: img)
    show "contents (items @ [(t, Some data)]) = (m(t \<mapsto> data)) |` (- (todo - {t}))"
      using cp t by (auto simp: copying_def restrict_map_def fun_eq_iff)
    show "\<forall>i \<in> set (items @ [(t, Some data)]). item_ok i"
      using cp t st by (auto simp: copying_def item_ok_def item_data_def storable_def)
    show "\<forall>t' < SOTP_MAX_TYPES. \<forall>data'. (m(t \<mapsto> data)) t' = Some data' \<longrightarrow>
        (if t' \<in> todo - {t} then entry_ok a (area_of S a ?c) S (tab[t := record_location (1 - a) offset] ! t') t' data'
         else entry_ok (1 - a) (area_of S (1 - a) ?c) (offset + length ?i) (tab[t := record_location (1 - a) offset] ! t') t' data')"
    proof (intro allI impI)
      fix t' data' assume t': "t' < SOTP_MAX_TYPES" "(m(t \<mapsto> data)) t' = Some data'"
      show "if t' \<in> todo - {t} then entry_ok a (area_of S a ?c) S (tab[t := record_location (1 - a) offset] ! t') t' data'
         else entry_ok (1 - a) (area_of S (1 - a) ?c) (offset + length ?i) (tab[t := record_location (1 - a) offset] ! t') t' data'"
        using t t' new old cp unfolding Aa by (cases "t' = t") (auto simp: copying_def)
    qed
    show "\<forall>t' < SOTP_MAX_TYPES. (m(t \<mapsto> data)) t' = None \<longrightarrow> tab[t := record_location (1 - a) offset] ! t' = 0"
      using cp t by (auto simp: copying_def nth_list_update)
  qed (use cp len img t in \<open>auto simp: copying_def\<close>)
qed


lemma copying_skip:
  assumes "copying S a c tab m todo offset items" "m t = None"
  shows "copying S a c tab m (todo - {t}) offset items"
proof -
  have "m |` (- todo) = m |` (- (todo - {t}))" using assms(2) by (auto simp: restrict_map_def fun_eq_iff)
  with assms show ?thesis by (auto simp: copying_def)
qed

lemma with_table_trans: "with_table S s c tab s' \<Longrightarrow> with_table S s' c' tab' s'' \<Longrightarrow> with_table S s c' tab' s''"
  by (auto simp: with_table_def)

lemma with_table_refl: "on_flash S s c \<Longrightarrow> with_table S s c (offset_by_type s) s"
  by (auto simp: with_table_def intro: exI [of _ "device s"])

lemma with_table_fields:
  assumes "with_table S s c tab s'"
  shows "geometry s' = geometry s" "page_buf s' = page_buf s" "init_done s' = init_done s" "active_area s' = active_area s"
    "active_area_version s' = active_area_version s" "free_space_offset s' = free_space_offset s"
    "offset_by_type s' = tab" "min_prog_size s' = min_prog_size s" "on_flash S s' c"
  using assms by (auto simp: with_table_def)

lemma left_with_location:
  "left_with S s c s' \<Longrightarrow> with_table S s c ((offset_by_type s)[t := entry]) (set_location t entry s')"
  by (auto simp: left_with_def with_table_def set_location_def on_flash_def)

lemma gc_copy_items_ok:
  assumes a: "a < 2"
  shows "\<lbrakk>on_flash S s c; active_area s = a; min_prog_size s = 8; copying S a c (offset_by_type s) m todo offset items;
      todo \<subseteq> set typs; set typs \<subseteq> {..<SOTP_MAX_TYPES}; distinct typs; area_of S a c = A;
      offset + (\<Sum>t \<in> todo. stored_size m t) < S\<rbrakk> \<Longrightarrow>
    run_ok s (gc_copy_items typs offset s)
      (\<lambda>(ret, next_offset) s'. ret = SOTP_SUCCESS \<and>
         (\<exists>c' tab items'. with_table S s c' tab s' \<and> copying S a c' tab m {} next_offset items' \<and> area_of S a c' = A \<and>
            next_offset < S))
      (half_copied S a A)"
proof (induction typs arbitrary: s c todo offset items)
  case Nil
  then have "todo = {}" by simp
  with Nil with_table_refl [OF Nil.prems(1)] show ?case by (auto intro!: run_ok_returns)
next
  case (Cons t typs)
  note prems = Cons.prems
  let ?tab = "offset_by_type s"
  have t: "t < SOTP_MAX_TYPES" using prems(6) by simp
  have S: "S < 2 ^ 30" using area_places [OF prems(1) a] by simp
  have fin: "finite todo" using prems(5) by (rule finite_subset) simp
  have rest: "todo - {t} \<subseteq> set typs" "set typs \<subseteq> {..<SOTP_MAX_TYPES}" "distinct typs" using prems(5-7) by auto
  have sum: "(\<Sum>x \<in> todo - {t}. stored_size m x) \<le> (\<Sum>x \<in> todo. stored_size m x)" using fin by (intro sum_mono2) auto
  have skip: "?case" if "location_offset (?tab ! t) = 0 \<or> location_area (?tab ! t) \<noteq> a"
    "copying S a c ?tab m (todo - {t}) offset items"
    using Cons.IH [OF prems(1-3) that(2) rest prems(8)] that(1) sum prems(2,9) by (auto simp: Let_def)
  consider "m t = None" | data where "m t = Some data" "t \<notin> todo" | data where "m t = Some data" "t \<in> todo" by blast
  then show ?case
  proof cases
    case 1
    with prems(4) t have "?tab ! t = 0" by (simp add: copying_def)
    then show ?thesis using copying_skip [OF prems(4) 1] by (intro skip) simp_all
  next
    case 2
    have "entry_ok (1 - a) (area_of S (1 - a) c) offset (?tab ! t) t data"
      using prems(4) t 2 by (auto simp: copying_def)
    then obtain off where e: "?tab ! t = record_location (1 - a) off"
      and "off + length (record_image t data) \<le> offset" by (auto simp: entry_ok_def)
    moreover have "offset < S" using prems(9) by simp
    ultimately have "location_area (?tab ! t) = 1 - a"
      using location_of_record [of off "1 - a"] S by simp
    with a 2 prems(4) show ?thesis by (intro skip) (auto elim: area_cases)
  next
    case 3
    have "entry_ok a (area_of S a c) S (?tab ! t) t data" using prems(4) t 3 by (auto simp: copying_def)
    then obtain off where e: "?tab ! t = record_location a off" "16 \<le> off" "record_at (area_of S a c) off t data"
      and off: "off + length (record_image t data) \<le> S" by (auto simp: entry_ok_def)
    have loc: "location_area (?tab ! t) = a" "location_offset (?tab ! t) = off"
      using location_of_record [of off a] e off S a by simp_all
    let ?i = "record_image t data" and ?c = "overwrite c ((1 - a) * S + offset) (record_image t data)"
    have "(\<Sum>x \<in> todo. stored_size m x) = length ?i + (\<Sum>x \<in> todo - {t}. stored_size m x)"
      using sum.remove [OF fin 3(2), of "stored_size m"] 3(1) by (simp add: stored_size_def)
    with prems(9) have cap: "offset + length ?i + (\<Sum>x \<in> todo - {t}. stored_size m x) < S" by simp
    then have fits: "offset + length ?i < S" by simp
    have offset: "offset = 16 + length (items_image items)" using prems(4) by (simp add: copying_def)
    then have al: "offset mod 8 = 0" by (simp add: mod_add_eq [symmetric])
    have len: "length c = 2 * S" using prems(1) by (simp add: on_flash_def)
    have b: "1 - a < 2" "a \<noteq> 1 - a" using a by (auto elim: area_cases)
    have half: "half_copied S a A c"
      using prems(4,8) len by (simp add: half_copied_def copying_def)
    have torn: "half_copied S a A c'" if "torn ((1 - a) * S + offset) ?i c c'" for c'
      by (rule half_copied_torn [OF half a _ _ that]) (use offset fits in simp_all)
    have first: "run_ok s (copy_record a off offset s)
        (\<lambda>(ret, next_offset) s'. ret = SOTP_SUCCESS \<and> next_offset = offset + length ?i \<and> left_with S s ?c s') (half_copied S a A)"
      using copy_record_ok [OF prems(1) a prems(3) t e(3) al fits]
      by (rule run_ok_mono) (use torn in auto)
    have st: "storable t data" using e(3) by (simp add: record_at_def)
    note cp = copying_step [OF prems(4) len a S t st less_imp_le [OF fits], unfolded map_upd_triv [of m t data, OF 3(1)]]
    have Aa: "area_of S a ?c = A"
      using area_of_overwrite_other [OF len b(1) a b(2), of offset ?i] fits prems(8) by simp
    have eq: "gc_copy_items (t # typs) offset s =
       followed_by (copy_record a off offset s)
        (\<lambda>((ret, next_offset), s1).
           if ret \<noteq> SOTP_SUCCESS then Returns ((ret, 0), s1)
           else gc_copy_items typs next_offset (set_location t (record_location (1 - a) offset) s1))"
      using e(2) unfolding gc_copy_items.simps Let_def loc prems(2) by simp
    show ?thesis
      unfolding eq
    proof (rule run_ok_followed_by [OF first], clarify)
      fix s1
      assume l: "left_with S s ?c s1"
      let ?s = "set_location t (record_location (1 - a) offset) s1"
      have w: "with_table S s ?c (?tab[t := record_location (1 - a) offset]) ?s" by (rule left_with_location [OF l])
      note f = with_table_fields [OF w]
      have dev: "device ?s = device s1" by (simp add: set_location_def)
      have "run_ok ?s (gc_copy_items typs (offset + length ?i) ?s)
        (\<lambda>(ret, next_offset) s'. ret = SOTP_SUCCESS \<and>
         (\<exists>c' tab items'. with_table S ?s c' tab s' \<and> copying S a c' tab m {} next_offset items' \<and> area_of S a c' = A \<and>
            next_offset < S)) (half_copied S a A)"
        by (rule Cons.IH [OF f(9) f(4) [unfolded prems(2)] f(8) [unfolded prems(3)] _ rest Aa cap]) (unfold f(7), rule cp)
      then have "run_ok s1 (gc_copy_items typs (offset + length ?i) ?s)
        (\<lambda>(ret, next_offset) s'. ret = SOTP_SUCCESS \<and>
         (\<exists>c' tab items'. with_table S ?s c' tab s' \<and> copying S a c' tab m {} next_offset items' \<and> area_of S a c' = A \<and>
            next_offset < S)) (half_copied S a A)"
        unfolding run_ok_def quiet_def dev .
      then show "run_ok s1 (if SOTP_SUCCESS \<noteq> SOTP_SUCCESS then Returns ((SOTP_SUCCESS, 0), s1)
           else gc_copy_items typs (offset + length ?i) ?s)
        (\<lambda>(ret, next_offset) s'. ret = SOTP_SUCCESS \<and>
         (\<exists>c' tab items'. with_table S s c' tab s' \<and> copying S a c' tab m {} next_offset items' \<and> area_of S a c' = A \<and>
            next_offset < S)) (half_copied S a A)"
        by simp (elim run_ok_mono, use with_table_trans [OF w] in fastforce)
    qed
  qed
qed

end
