(* ===== verification/Sotp_Switch.thy ===== *)
theory Sotp_Switch
  imports Sotp_Gc
begin

text \<open>
  The end of the garbage collection, and what the flash holds when the power is cut at any point of it: the old
  area as it was, or the new one with its master record.
\<close>

section \<open>Areas with and without a master record\<close>

text \<open>The checksum tells a record that has been cut off from the complete one.\<close>

definition tear_detected :: "nat \<Rightarrow> bytes \<Rightarrow> bool" where
  "tear_detected tf data \<longleftrightarrow>
     (\<forall>k. let torn = take (8 * k) data @ blank (length data - 8 * k) in
        torn = data \<or>
        crc32 INITIAL_CRC (take 4 (record_bytes tf data) @ torn) \<noteq> crc32 INITIAL_CRC (take 4 (record_bytes tf data) @ data))"

definition unmastered :: "bytes \<Rightarrow> bool" where
  "unmastered A \<longleftrightarrow>
     damaged_at A 0 \<and>
     (known_type (type_and_flags (header_of (take 8 A))) \<longrightarrow> header_length (header_of (take 8 A)) \<le> MASTER_RECORD_SIZE)"

definition mastered :: "bytes \<Rightarrow> nat \<Rightarrow> bool" where
  "mastered A version \<longleftrightarrow> version < 65536 \<and> record_at A 0 SOTP_MASTER_RECORD_TYPE (master_data version)"

definition stored :: "nat \<Rightarrow> bytes \<Rightarrow> nat \<Rightarrow> (nat \<rightharpoonup> bytes) \<Rightarrow> nat \<Rightarrow> bool" where
  "stored S A version m limit \<longleftrightarrow>
     version < 65536 \<and> limit < S \<and>
     (\<exists>items. A = master_image version @ items_image items @ blank (S - limit) \<and> limit = 16 + length (items_image items) \<and>
        (\<forall>i \<in> set items. item_ok i) \<and> contents items = m)"

lemma blank_header:
  "header_of (blank 8) = \<lparr>type_and_flags = 0xFFFF, header_length = 0xFFFF, mac = 0xFFFFFFFF\<rparr>"
proof -
  have "blank 8 = [0xFF, 0xFF, 0xFF, 0xFF, 0xFF, 0xFF, 0xFF, 0xFF]" by (simp add: eval_nat_numeral)
  then show ?thesis by (simp add: header_of_def)
qed

lemma unmastered_blank8: "take 8 A = blank 8 \<Longrightarrow> 8 \<le> length A \<Longrightarrow> unmastered A"
  by (simp add: unmastered_def damaged_at_def Let_def blank_header known_type_def)

lemma unmastered_blank: "8 \<le> S \<Longrightarrow> unmastered (blank S)"
  by (intro unmastered_blank8) (auto simp: min_def)

lemma length_master_data [simp]: "length (master_data version) = 8"
  by (simp add: master_data_def)

lemma storable_master: "storable SOTP_MASTER_RECORD_TYPE (master_data version)"
  by (simp add: storable_def)

lemma master_image_eq:
  "master_image version = sotp_header_bytes (record_header SOTP_MASTER_RECORD_TYPE (master_data version)) @ master_data version"
  by (simp add: master_image_def record_image_eq)

lemma mastered_append: "version < 65536 \<Longrightarrow> A = master_image version @ rest \<Longrightarrow> mastered A version"
  using record_at_append [of A "[]"] storable_master by (simp add: mastered_def master_image_def)

lemma stored_mastered: "stored S A version m limit \<Longrightarrow> mastered A version"
  by (auto simp: stored_def intro!: mastered_append)

lemma master_data_neq:
  assumes "version < 65536"
  shows "master_data version \<noteq> blank 8"
proof
  assume "master_data version = blank 8"
  then have "master_data version ! 7 = blank 8 ! 7" by simp
  then show False by (simp add: master_data_def little_endian_def nth_append byte_of_def)
qed

lemma unmastered_torn:
  assumes A: "take 16 A = sotp_header_bytes (record_header SOTP_MASTER_RECORD_TYPE (master_data version)) @ blank 8"
    and len: "16 \<le> length A" and tear: "tear_detected SOTP_MASTER_RECORD_TYPE (master_data version)" and v: "version < 65536"
  shows "unmastered A"
proof -
  let ?h = "record_header SOTP_MASTER_RECORD_TYPE (master_data version)"
  note f = record_header_fields [OF storable_master, of version]
  have "take 8 A = take 8 (take 16 A)" "take 8 (drop 8 A) = take 8 (drop 8 (take 16 A))" by (simp_all add: drop_take)
  moreover have "take 8 (take 16 A) = sotp_header_bytes ?h" "take 8 (drop 8 (take 16 A)) = blank 8" unfolding A by simp_all
  ultimately have parts: "take 8 A = sotp_header_bytes ?h" "take 8 (drop 8 A) = blank 8" by simp_all
  have "take 4 (take 8 A) = take 4 A" by simp
  then have "take 4 A = take 4 (record_bytes SOTP_MASTER_RECORD_TYPE (master_data version))"
    unfolding parts by (simp add: record_bytes_def)
  moreover have "crc32 INITIAL_CRC (take 4 (record_bytes SOTP_MASTER_RECORD_TYPE (master_data version)) @ blank 8) \<noteq> mac ?h"
    using tear [unfolded tear_detected_def, rule_format, of 0] master_data_neq [OF v] unfolding f(4)
    by (simp add: Let_def eq_commute)
  ultimately show ?thesis
    using len parts by (auto simp: unmastered_def damaged_at_def Let_def header_of_bytes [OF f(1)] f(3))
qed

lemma torn_master:
  assumes "torn i (master_image version) c c'"
  obtains "c' = c"
  | "c' = overwrite c i (sotp_header_bytes (record_header SOTP_MASTER_RECORD_TYPE (master_data version)))"
  | "c' = overwrite c i (master_image version)"
proof -
  obtain k where k: "c' = overwrite c i (take (8 * k) (master_image version))" using assms by (auto simp: torn_def)
  consider "k = 0" | "k = 1" | "2 \<le> k" by linarith
  then show thesis
  proof cases
    case 1 with k that(1) show thesis by simp
  next
    case 2 with k that(2) show thesis by (simp add: master_image_eq)
  next
    case 3 with k that(3) show thesis by simp
  qed
qed


section \<open>The new master record\<close>

definition collected :: "nat \<Rightarrow> nat \<Rightarrow> bytes \<Rightarrow> (nat \<rightharpoonup> bytes) \<Rightarrow> nat \<Rightarrow> bytes \<Rightarrow> bool" where
  "collected S a A m version c \<longleftrightarrow>
     length c = 2 * S \<and>
     (area_of S a c = A \<and> unmastered (area_of S (1 - a) c) \<or>
      area_of S a c = A \<and> (\<exists>limit. stored S (area_of S (1 - a) c) version m limit) \<or>
      unmastered (area_of S a c) \<and> (\<exists>limit. stored S (area_of S (1 - a) c) version m limit))"

lemma collected_half:
  assumes "half_copied S a A c" "8 \<le> S" "a < 2"
  shows "collected S a A m version c"
  using assms unmastered_blank8 [of "area_of S (1 - a) c"] by (auto simp: half_copied_def collected_def)

definition collection_done :: "nat \<Rightarrow> nat \<Rightarrow> (nat \<rightharpoonup> bytes) \<Rightarrow> nat \<Rightarrow> sotp \<Rightarrow> sotp \<Rightarrow> bool" where
  "collection_done S a m version s s' \<longleftrightarrow>
     s' = s\<lparr>device := device s', offset_by_type := offset_by_type s', active_area := 1 - a,
       active_area_version := version, free_space_offset := free_space_offset s'\<rparr> \<and>
     on_flash S s' (cells (device s')) \<and>
     stored S (area_of S (1 - a) (cells (device s'))) version m (free_space_offset s') \<and>
     area_of S a (cells (device s')) = blank S \<and>
     table_ok (1 - a) (area_of S (1 - a) (cells (device s'))) (free_space_offset s') (offset_by_type s') m"

lemma entry_ok_front:
  assumes "entry_ok a A limit entry t data" "length new \<le> 16" "16 \<le> length A"
  shows "entry_ok a (overwrite A 0 new) limit entry t data"
proof -
  obtain off where off: "entry = record_location a off" "16 \<le> off" "off mod 8 = 0" "record_at A off t data"
    "off + length (record_image t data) \<le> limit" using assms(1) by (auto simp: entry_ok_def)
  have "record_at (overwrite A 0 new) off t data"
    using off(2) assms(2,3) by (intro record_at_cong [OF off(4)]) (simp_all add: take_overwrite_behind)
  with off show ?thesis by (auto simp: entry_ok_def)
qed

lemma copying_finished:
  assumes cp: "copying S a c tab m {} limit items" and fl: "length c = 2 * S" "a < 2" and lim: "limit < S" and v: "version < 65536"
  defines "c' \<equiv> overwrite c ((1 - a) * S) (master_image version)"
  shows "stored S (area_of S (1 - a) c') version m limit" "area_of S a c' = area_of S a c" "length c' = 2 * S"
    "table_ok (1 - a) (area_of S (1 - a) c') limit tab m"
proof -
  have b: "1 - a < 2" "a \<noteq> 1 - a" using fl by (auto elim: area_cases)
  have area: "area_of S (1 - a) c = blank 16 @ items_image items @ blank (S - limit)" "limit = 16 + length (items_image items)"
    using cp by (simp_all add: copying_def)
  have S: "0 + length (master_image version) \<le> S" using lim area(2) by simp
  have lenA: "length (area_of S (1 - a) c) = S" using fl b by simp
  have Ab: "area_of S (1 - a) c' = overwrite (area_of S (1 - a) c) 0 (master_image version)"
    using area_of_overwrite [OF fl(1) b(1) S] by (simp add: c'_def)
  have "overwrite (area_of S (1 - a) c) 0 (master_image version) = master_image version @ items_image items @ blank (S - limit)"
    unfolding area(1) by (simp add: overwrite_def)
  moreover have "contents items = m" "\<forall>i \<in> set items. item_ok i"
    using cp by (simp_all add: copying_def restrict_map_def fun_eq_iff)
  ultimately show "stored S (area_of S (1 - a) c') version m limit"
    using lim v area(2) unfolding Ab stored_def by (intro conjI exI [of _ items])
  show "area_of S a c' = area_of S a c"
    using area_of_overwrite_other [OF fl(1) b(1) fl(2) b(2) S] by (simp add: c'_def)
  have "(1 - a) * S + S \<le> length c" using b(1) fl(1) by (elim area_cases) simp_all
  with S have "(1 - a) * S + length (master_image version) \<le> length c" by linarith
  then show "length c' = 2 * S" using fl(1) unfolding c'_def by (simp only: length_overwrite)
  show "table_ok (1 - a) (area_of S (1 - a) c') limit tab m"
    unfolding Ab using cp S lenA by (intro table_okI entry_ok_front) (auto simp: copying_def)
qed


lemma torn_erase:
  assumes fl: "length c = 2 * S" "a < 2" "8 \<le> S" and t: "torn (a * S) (blank S) c c'"
  shows "length c' = 2 * S" "area_of S (1 - a) c' = area_of S (1 - a) c" "c' = c \<or> unmastered (area_of S a c')"
proof -
  have b: "1 - a < 2" "1 - a \<noteq> a" using fl by (auto elim: area_cases)
  obtain k where k: "c' = overwrite c (a * S + 0) (take (8 * k) (blank S))" using t by (auto simp: torn_def)
  have fits: "0 + length (take (8 * k) (blank S)) \<le> S" by simp
  have "a * S + S \<le> length c" using fl by (elim area_cases) simp_all
  with fits have "a * S + 0 + length (take (8 * k) (blank S)) \<le> length c" by linarith
  then show "length c' = 2 * S" unfolding k using fl(1) by (simp only: length_overwrite)
  show "area_of S (1 - a) c' = area_of S (1 - a) c"
    unfolding k by (rule area_of_overwrite_other [OF fl(1,2) b fits])
  show "c' = c \<or> unmastered (area_of S a c')"
  proof (cases "k = 0")
    case False
    have "area_of S a c' = overwrite (area_of S a c) 0 (take (8 * k) (blank S))"
      unfolding k by (rule area_of_overwrite [OF fl(1,2) fits])
    moreover have "take 8 (take (8 * k) (blank S)) = blank 8" "8 \<le> length (take (8 * k) (blank S))"
      using False fl(3) by (auto simp: min_def)
    ultimately have "take 8 (area_of S a c') = blank 8" by (simp add: overwrite_def)
    then show ?thesis using unmastered_blank8 fl \<open>length c' = 2 * S\<close> by simp
  qed (simp add: k)
qed

lemma erased:
  assumes "length c = 2 * S" "a < 2"
  shows "area_of S a (overwrite c (a * S) (blank S)) = blank S"
    "area_of S (1 - a) (overwrite c (a * S) (blank S)) = area_of S (1 - a) c"
    "length (overwrite c (a * S) (blank S)) = 2 * S"
proof -
  have b: "1 - a < 2" "1 - a \<noteq> a" using assms by (auto elim: area_cases)
  have fits: "0 + length (blank S) \<le> S" by simp
  show "area_of S a (overwrite c (a * S) (blank S)) = blank S"
    using area_of_overwrite [OF assms fits] assms by (simp add: overwrite_def)
  show "area_of S (1 - a) (overwrite c (a * S) (blank S)) = area_of S (1 - a) c"
    using area_of_overwrite_other [OF assms b fits] by simp
  show "length (overwrite c (a * S) (blank S)) = 2 * S"
    using assms by (elim area_cases) simp_all
qed

lemma run_ok_device: "device s' = device s \<Longrightarrow> run_ok s' m Q C \<Longrightarrow> run_ok s m Q C"
  by (simp add: run_ok_def quiet_def)

lemma write_master_ok:
  assumes "on_flash S s c" "a < 2" "min_prog_size s = 8" "16 \<le> S"
  shows "run_ok s (write_master_record a version s)
    (\<lambda>(ret, next_offset) s'. ret = SOTP_SUCCESS \<and> next_offset = 16 \<and>
       left_with S s (overwrite c (a * S) (master_image version)) s')
    (torn (a * S) (master_image version) c)"
proof -
  have flags: "SOTP_MASTER_RECORD_TYPE OR 0 = SOTP_MASTER_RECORD_TYPE" by simp
  show ?thesis
    using write_record_ok [OF assms(1-3), of 0 8 "master_data version" "master_data version" SOTP_MASTER_RECORD_TYPE 0] assms(4)
    unfolding write_master_record_def flags master_image_def [symmetric] by simp
qed

lemma switch_area_ok:
  assumes fl: "on_flash S s c" and a: "a < 2" "active_area s = a" and min: "min_prog_size s = 8"
    and cp: "copying S a c (offset_by_type s) m {} limit items" and A: "area_of S a c = A" and lim: "limit < S"
    and v: "active_area_version s < 65535" "version = active_area_version s + 1"
    and tear: "tear_detected SOTP_MASTER_RECORD_TYPE (master_data version)"
  shows "run_ok s (switch_area limit s) (\<lambda>ret s'. ret = SOTP_SUCCESS \<and> collection_done S a m version s s')
    (collected S a A m version)"
proof -
  let ?c = "overwrite c ((1 - a) * S) (master_image version)"
  let ?s0 = "s\<lparr>active_area_version := version\<rparr>"
  have len: "length c = 2 * S" using fl by (simp add: on_flash_def)
  have b: "1 - a < 2" "a \<noteq> 1 - a" "1 - (1 - a) = a" using a by (auto elim: area_cases)
  have v16: "u16_wrap (active_area_version s + 1) = version" "version < 65536" using v by (simp_all add: wrap_simps)
  have areab: "area_of S (1 - a) c = blank 16 @ items_image items @ blank (S - limit)" "limit = 16 + length (items_image items)"
    using cp by (simp_all add: copying_def)
  have S: "16 \<le> S" using lim areab(2) by simp
  note fin = copying_finished [OF cp len a(1) lim v16(2)]
  have half: "half_copied S a A c" using A len areab(1) by (simp add: half_copied_def)
  have torn1: "collected S a A m version c'" if t: "torn ((1 - a) * S + 0) (master_image version) c c'" for c'
    using t
  proof (rule torn_master)
    assume "c' = c"
    then show ?thesis using collected_half [OF half _ a(1)] S by simp
  next
    let ?h = "sotp_header_bytes (record_header SOTP_MASTER_RECORD_TYPE (master_data version))"
    assume c': "c' = overwrite c ((1 - a) * S + 0) ?h"
    have fits: "0 + length ?h \<le> S" using S by simp
    have "area_of S (1 - a) c' = overwrite (area_of S (1 - a) c) 0 ?h"
      unfolding c' by (rule area_of_overwrite [OF len b(1) fits])
    also have "\<dots> = ?h @ blank 8 @ items_image items @ blank (S - limit)"
      unfolding areab(1) by (simp add: overwrite_def)
    finally have Ab: "area_of S (1 - a) c' = ?h @ blank 8 @ items_image items @ blank (S - limit)" .
    have "unmastered (area_of S (1 - a) c')"
      unfolding Ab by (rule unmastered_torn [OF _ _ tear v16(2)]) simp_all
    moreover have "area_of S a c' = A"
      unfolding c' A [symmetric] by (rule area_of_overwrite_other [OF len b(1) a(1) b(2) fits])
    moreover have "length c' = 2 * S"
      using b(1) len S unfolding c' by (elim area_cases [of "1 - a"]) simp_all
    ultimately show ?thesis by (simp add: collected_def)
  next
    assume "c' = overwrite c ((1 - a) * S + 0) (master_image version)"
    then have "c' = ?c" by simp
    then show ?thesis using fin A by (auto simp: collected_def)
  qed
  have fl0: "on_flash S ?s0 c" using fl by (simp add: on_flash_def)
  have "run_ok ?s0 (write_master_record (1 - a) version ?s0)
      (\<lambda>(ret, next_offset) s'. ret = SOTP_SUCCESS \<and> left_with S ?s0 ?c s') (collected S a A m version)"
    using write_master_ok [OF fl0 b(1), of version] min S torn1 by simp (elim run_ok_mono, auto)
  then have first: "run_ok s (write_master_record (1 - a) version ?s0)
      (\<lambda>(ret, next_offset) s'. ret = SOTP_SUCCESS \<and> left_with S ?s0 ?c s') (collected S a A m version)"
    by (intro run_ok_device [of ?s0 s]) simp_all
  show ?thesis
    unfolding switch_area_def Let_def v16(1) a(2)
  proof (rule run_ok_followed_by [OF first], clarify)
    fix s1
    assume l: "left_with S ?s0 ?c s1"
    let ?s2 = "s1\<lparr>free_space_offset := limit, active_area := 1 - a\<rparr>"
    have act: "active_area s1 = a" using left_with_fields(4) [OF l] a(2) by simp
    have fl2: "on_flash S ?s2 ?c" using left_with_on_flash [OF l] by (simp add: on_flash_def)
    have torn2: "collected S a A m version c'" if "torn (a * S) (blank S) ?c c'" for c'
      using torn_erase [OF fin(3) a(1) _ that] S fin A by (auto simp: collected_def)
    have "run_ok ?s2 (sotp_flash_erase_area a ?s2)
        (\<lambda>ret s'. ret = PAL_SUCCESS \<and> left_with S ?s2 (overwrite ?c (a * S) (blank S)) s') (collected S a A m version)"
      using erase_area_ok [OF fl2 a(1)] torn2 by (elim run_ok_mono) auto
    then have second: "run_ok s1 (sotp_flash_erase_area a ?s2)
        (\<lambda>ret s'. ret = PAL_SUCCESS \<and> left_with S ?s2 (overwrite ?c (a * S) (blank S)) s') (collected S a A m version)"
      by (intro run_ok_device [of ?s2 s1]) simp_all
    have finished: "collection_done S a m version s s'"
      if l2: "left_with S ?s2 (overwrite ?c (a * S) (blank S)) s'" for s'
    proof -
      obtain d d' where "s1 = ?s0\<lparr>device := d\<rparr>" "s' = ?s2\<lparr>device := d'\<rparr>" using l l2 by (auto simp: left_with_def)
      moreover have "cells (device s') = overwrite ?c (a * S) (blank S)" "on_flash S s' (overwrite ?c (a * S) (blank S))"
        using left_with_on_flash [OF l2] by (simp_all add: on_flash_def)
      ultimately show ?thesis
        using erased [OF fin(3) a(1)] fin
        by (simp add: collection_done_def)
    qed
    show "run_ok s1
      (if SOTP_SUCCESS \<noteq> SOTP_SUCCESS then Returns (SOTP_SUCCESS, s1)
       else followed_by (sotp_flash_erase_area (1 - active_area (s1\<lparr>free_space_offset := limit, active_area := 1 - active_area s1\<rparr>))
              (s1\<lparr>free_space_offset := limit, active_area := 1 - active_area s1\<rparr>))
         (\<lambda>(ret, s3). Returns (if ret \<noteq> PAL_SUCCESS then SOTP_WRITE_ERROR else SOTP_SUCCESS, s3)))
      (\<lambda>ret s'. ret = SOTP_SUCCESS \<and> collection_done S a m version s s') (collected S a A m version)"
    proof -
      have "run_ok s1 (followed_by (sotp_flash_erase_area a ?s2)
          (\<lambda>(ret, s3). Returns (if ret \<noteq> PAL_SUCCESS then SOTP_WRITE_ERROR else SOTP_SUCCESS, s3)))
        (\<lambda>ret s'. ret = SOTP_SUCCESS \<and> collection_done S a m version s s') (collected S a A m version)"
        by (rule run_ok_followed_by [OF second]) (auto intro!: run_ok_returns finished)
      then show ?thesis unfolding act using b(3) by simp
    qed
  qed
qed



section \<open>The whole collection\<close>

definition gc_ready :: "nat \<Rightarrow> sotp \<Rightarrow> bytes \<Rightarrow> nat \<Rightarrow> (nat \<rightharpoonup> bytes) \<Rightarrow> bool" where
  "gc_ready S s c a m \<longleftrightarrow>
     on_flash S s c \<and> a < 2 \<and> active_area s = a \<and> min_prog_size s = 8 \<and> area_of S (1 - a) c = blank S \<and>
     table_ok a (area_of S a c) S (offset_by_type s) m \<and> active_area_version s < 65535 \<and>
     tear_detected SOTP_MASTER_RECORD_TYPE (master_data (active_area_version s + 1))"

text \<open>Every item, with the record that a type takes, fits behind the master record.\<close>

definition room :: "nat \<Rightarrow> (nat \<rightharpoonup> bytes) \<Rightarrow> bool" where
  "room S m \<longleftrightarrow> 16 + (\<Sum>t < SOTP_MAX_TYPES. stored_size m t) < S"

lemma gc_start:
  assumes "gc_ready S s c a m" "16 \<le> S"
  shows "copying S a c (offset_by_type s) m {..<SOTP_MAX_TYPES} 16 []"
proof -
  have tab: "table_ok a (area_of S a c) S (offset_by_type s) m" using assms by (simp add: gc_ready_def)
  have "blank S = blank 16 @ blank (S - 16)" using assms(2) by (simp add: replicate_add [symmetric])
  moreover have "m |` (- {..<SOTP_MAX_TYPES}) = (\<lambda>_. None)" using tab by (auto simp: table_ok_def restrict_map_def fun_eq_iff)
  ultimately show ?thesis
    using table_okD [OF tab] tab assms(1) by (auto simp: copying_def gc_ready_def table_ok_def)
qed

lemma gc_finish:
  assumes r: "on_flash S s c" "a < 2" "active_area s = a" "min_prog_size s = 8"
      "active_area_version s < 65535" "tear_detected SOTP_MASTER_RECORD_TYPE (master_data (active_area_version s + 1))"
    and cp: "copying S a c (offset_by_type s) m todo offset items" "todo \<subseteq> {..<SOTP_MAX_TYPES}" "area_of S a c = A"
    and cap: "offset + (\<Sum>t \<in> todo. stored_size m t) < S"
  shows "run_ok s (followed_by (gc_copy_items [0..<SOTP_MAX_TYPES] offset s)
      (\<lambda>((ret, offset'), s2). if ret \<noteq> SOTP_SUCCESS then Returns (ret, s2) else switch_area offset' s2))
    (\<lambda>ret s'. ret = SOTP_SUCCESS \<and> collection_done S a m (active_area_version s + 1) s s')
    (collected S a A m (active_area_version s + 1))"
proof -
  let ?v = "active_area_version s + 1"
  have S: "8 \<le> S" using cap cp(1) by (simp add: copying_def)
  have typs: "todo \<subseteq> set [0..<SOTP_MAX_TYPES]" "set [0..<SOTP_MAX_TYPES] \<subseteq> {..<SOTP_MAX_TYPES}" "distinct [0..<SOTP_MAX_TYPES]"
    using cp(2) by auto
  have first: "run_ok s (gc_copy_items [0..<SOTP_MAX_TYPES] offset s)
      (\<lambda>(ret, next_offset) s'. ret = SOTP_SUCCESS \<and>
         (\<exists>c' tab items'. with_table S s c' tab s' \<and> copying S a c' tab m {} next_offset items' \<and> area_of S a c' = A \<and>
            next_offset < S))
      (collected S a A m ?v)"
    using gc_copy_items_ok [OF r(2) r(1,3,4) cp(1) typs cp(3) cap] collected_half [OF _ S r(2)]
    by (elim run_ok_mono) auto
  show ?thesis
  proof (rule run_ok_followed_by [OF first])
    fix r s1
    assume q: "(\<lambda>(ret, next_offset) s1. ret = SOTP_SUCCESS \<and>
         (\<exists>c' tab items'. with_table S s c' tab s1 \<and> copying S a c' tab m {} next_offset items' \<and> area_of S a c' = A \<and>
            next_offset < S)) r s1"
    obtain ret limit where rl: "r = (ret, limit)" by (cases r)
    with q obtain c' tab items' where ret: "ret = SOTP_SUCCESS" and w: "with_table S s c' tab s1"
      and cp': "copying S a c' tab m {} limit items'" "area_of S a c' = A" "limit < S" by auto
    note f = with_table_fields [OF w]
    have "run_ok s1 (switch_area limit s1) (\<lambda>ret s'. ret = SOTP_SUCCESS \<and> collection_done S a m ?v s1 s') (collected S a A m ?v)"
      using r(3-6) cp'
      by (intro switch_area_ok [OF f(9) r(2) _ _ _ cp'(2,3)]) (simp_all add: f)
    moreover have "collection_done S a m ?v s s'" if "collection_done S a m ?v s1 s'" for s'
      using that w by (auto simp: collection_done_def with_table_def)
    ultimately show "run_ok s1 ((\<lambda>((ret, offset'), s2).
        if ret \<noteq> SOTP_SUCCESS then Returns (ret, s2) else switch_area offset' s2) (r, s1))
      (\<lambda>ret s'. ret = SOTP_SUCCESS \<and> collection_done S a m ?v s s') (collected S a A m ?v)"
      unfolding rl ret by simp (elim run_ok_mono, auto)
  qed
qed

lemma collect_old_ok:
  assumes "gc_ready S s c a m" "room S m"
  shows "run_ok s (sotp_garbage_collection SOTP_NO_TYPE 0 [] s)
    (\<lambda>ret s'. ret = SOTP_SUCCESS \<and> collection_done S a m (active_area_version s + 1) s s')
    (collected S a (area_of S a c) m (active_area_version s + 1))"
proof -
  have r: "on_flash S s c" "a < 2" "active_area s = a" "min_prog_size s = 8"
    "active_area_version s < 65535" "tear_detected SOTP_MASTER_RECORD_TYPE (master_data (active_area_version s + 1))"
    using assms(1) by (simp_all add: gc_ready_def)
  have cap: "16 + (\<Sum>t \<in> {..<SOTP_MAX_TYPES}. stored_size m t) < S" using assms(2) by (simp add: room_def)
  have start: "copying S a c (offset_by_type s) m {..<SOTP_MAX_TYPES} 16 []" using cap by (intro gc_start assms(1)) simp
  have "pad_addr (8 + 8) 8 = 16" by (simp add: pad_addr_8)
  with gc_finish [OF r start order_refl refl cap] show ?thesis
    by (simp add: sotp_garbage_collection_def r(4) Let_def)
qed

lemma collect_new_ok:
  assumes "gc_ready S s c a m" "room S (m(t \<mapsto> data))" "t < SOTP_MAX_TYPES" "length data < 65536"
    and buf: "data_len \<le> length buf" "data = take data_len buf"
  shows "run_ok s (sotp_garbage_collection t data_len buf s)
    (\<lambda>ret s'. ret = SOTP_SUCCESS \<and> collection_done S a (m(t \<mapsto> data)) (active_area_version s + 1) s s')
    (collected S a (area_of S a c) (m(t \<mapsto> data)) (active_area_version s + 1))"
proof -
  let ?m = "m(t \<mapsto> data)" and ?i = "record_image t data" and ?v = "active_area_version s + 1" and ?A = "area_of S a c"
  let ?c = "overwrite c ((1 - a) * S + 16) ?i" and ?tab = "(offset_by_type s)[t := record_location (1 - a) 16]"
  have r: "on_flash S s c" "a < 2" "active_area s = a" "min_prog_size s = 8"
    "active_area_version s < 65535" "tear_detected SOTP_MASTER_RECORD_TYPE (master_data ?v)"
    using assms(1) by (simp_all add: gc_ready_def)
  have b: "1 - a < 2" "a \<noteq> 1 - a" using r(2) by (auto elim: area_cases)
  have len: "length c = 2 * S" using r(1) by (simp add: on_flash_def)
  have "(\<Sum>x < SOTP_MAX_TYPES. stored_size ?m x) = stored_size ?m t + (\<Sum>x \<in> {..<SOTP_MAX_TYPES} - {t}. stored_size ?m x)"
    using assms(3) by (intro sum.remove) simp_all
  then have cap: "16 + length ?i + (\<Sum>x \<in> {..<SOTP_MAX_TYPES} - {t}. stored_size ?m x) < S"
    using assms(2) by (simp add: room_def stored_size_def [of ?m t])
  then have fits: "16 + length ?i \<le> S" "16 \<le> S" by simp_all
  have st: "storable t data" using assms(3,4) by (simp add: storable_def)
  have S30: "S < 2 ^ 30" using area_places [OF r(1,2)] by simp
  note start = gc_start [OF assms(1) fits(2)]
  note cp = copying_step [OF start len r(2) S30 assms(3) st fits(1)]
  have half: "half_copied S a ?A c" using start len by (simp add: copying_def half_copied_def)
  have torn: "collected S a ?A ?m ?v c'" if t: "torn ((1 - a) * S + 16) ?i c c'" for c'
    using half_copied_torn [OF half r(2) _ fits(1) t] fits(2) by (intro collected_half [OF _ _ r(2)]) simp_all
  have Aa: "area_of S a ?c = ?A" by (rule area_of_overwrite_other [OF len b(1) r(2) b(2) fits(1)])
  have flags: "t OR 0 = t" by simp
  have first: "run_ok s (write_record (1 - a) 16 t 0 data_len buf s)
      (\<lambda>(ret, next_offset) s'. ret = SOTP_SUCCESS \<and> next_offset = 16 + length ?i \<and> left_with S s ?c s')
      (collected S a ?A ?m ?v)"
    using write_record_ok [OF r(1) b(1) r(4) _ buf, of 16 t 0] fits(1) torn unfolding flags
    by simp (elim run_ok_mono, auto)
  have pad: "pad_addr (8 + 8) 8 = 16" by (simp add: pad_addr_8)
  have "t \<noteq> SOTP_NO_TYPE" using assms(3) by simp
  then have eq: "sotp_garbage_collection t data_len buf s =
      followed_by (write_record (1 - a) 16 t 0 data_len buf s)
        (\<lambda>((ret, next_offset), s1).
           let s1 = (if ret \<noteq> SOTP_SUCCESS then s1 else set_location t (record_location (1 - a) 16) s1) in
           if ret \<noteq> SOTP_SUCCESS then Returns (ret, s1)
           else followed_by (gc_copy_items [0..<SOTP_MAX_TYPES] next_offset s1)
             (\<lambda>((ret, offset'), s2). if ret \<noteq> SOTP_SUCCESS then Returns (ret, s2) else switch_area offset' s2))"
    unfolding sotp_garbage_collection_def r(3,4) pad Let_def
    by (cases "write_record (1 - a) 16 t 0 data_len buf s") (auto split: prod.splits)
  show ?thesis
    unfolding eq
  proof (rule run_ok_followed_by [OF first], clarify)
    fix s1
    assume l: "left_with S s ?c s1"
    let ?s = "set_location t (record_location (1 - a) 16) s1"
    have w: "with_table S s ?c ?tab ?s" by (rule left_with_location [OF l])
    note f = with_table_fields [OF w]
    have dev: "device ?s = device s1" by (simp add: set_location_def)
    have "run_ok ?s (followed_by (gc_copy_items [0..<SOTP_MAX_TYPES] (16 + length ?i) ?s)
        (\<lambda>((ret, offset'), s2). if ret \<noteq> SOTP_SUCCESS then Returns (ret, s2) else switch_area offset' s2))
      (\<lambda>ret s'. ret = SOTP_SUCCESS \<and> collection_done S a ?m (active_area_version ?s + 1) ?s s')
      (collected S a ?A ?m (active_area_version ?s + 1))"
    proof (rule gc_finish [OF f(9) r(2)])
      show "active_area ?s = a" "min_prog_size ?s = 8" "active_area_version ?s < 65535"
        "tear_detected SOTP_MASTER_RECORD_TYPE (master_data (active_area_version ?s + 1))"
        unfolding f using r by simp_all
      show "copying S a ?c (offset_by_type ?s) ?m ({..<SOTP_MAX_TYPES} - {t}) (16 + length ?i) ([] @ [(t, Some data)])"
        unfolding f(7) by (rule cp)
      show "area_of S a ?c = ?A" by (rule Aa)
      show "16 + length ?i + (\<Sum>x \<in> {..<SOTP_MAX_TYPES} - {t}. stored_size ?m x) < S" by (rule cap)
    qed auto
    then have "run_ok s1 (followed_by (gc_copy_items [0..<SOTP_MAX_TYPES] (16 + length ?i) ?s)
        (\<lambda>((ret, offset'), s2). if ret \<noteq> SOTP_SUCCESS then Returns (ret, s2) else switch_area offset' s2))
      (\<lambda>ret s'. ret = SOTP_SUCCESS \<and> collection_done S a ?m ?v ?s s')
      (collected S a ?A ?m ?v)"
      unfolding f(5) by (rule run_ok_device [OF dev])
    moreover have "collection_done S a ?m ?v s s'" if "collection_done S a ?m ?v ?s s'" for s'
      using that w by (auto simp: collection_done_def with_table_def)
    ultimately show "run_ok s1 (let s1 = if SOTP_SUCCESS \<noteq> SOTP_SUCCESS then s1 else ?s in
           if SOTP_SUCCESS \<noteq> SOTP_SUCCESS then Returns (SOTP_SUCCESS, s1)
           else followed_by (gc_copy_items [0..<SOTP_MAX_TYPES] (16 + length ?i) s1)
             (\<lambda>((ret, offset'), s2). if ret \<noteq> SOTP_SUCCESS then Returns (ret, s2) else switch_area offset' s2))
      (\<lambda>ret s'. ret = SOTP_SUCCESS \<and> collection_done S a ?m ?v s s') (collected S a ?A ?m ?v)"
      by simp (elim run_ok_mono, auto)
  qed
qed

end
