(* ===== verification/Sotp_Recover.thy ===== *)
theory Sotp_Recover
  imports Sotp_Switch
begin

text \<open>
  What a power cut can leave on the flash, and that it can be read again. The theory starts with the checksum: it
  always tells a master record of which only the header has been written: its steps are linear and
  can be undone, and no version leads to the checksum of a blank record.
\<close>

definition undo_bit :: "32 word \<Rightarrow> 32 word" where
  "undo_bit crc = push_bit 1 crc XOR (if bit crc 31 then 0xDB710641 else 0)"

lemma top_bit_dropped: "\<not> bit (drop_bit 1 (x :: 32 word)) 31"
  using bit_imp_le_length [of x 32] by (auto simp: bit_drop_bit_eq)

lemma bits_shifted_back: "bit (push_bit 1 (drop_bit 1 (x :: 32 word))) n \<longleftrightarrow> 0 < n \<and> bit x n"
  using bit_imp_le_length [of x n] by (auto simp only: bit_push_bit_iff bit_drop_bit_eq possible_bit_word) simp_all

lemma undo_bit_xor: "undo_bit (x XOR y) = undo_bit x XOR undo_bit y"
  by (simp only: undo_bit_def bit_xor_iff push_bit_xor) (auto simp: ac_simps)

lemma undo_poly: "undo_bit 0xEDB88320 = 1"
  by (simp add: undo_bit_def)

lemma undo_dropped: "undo_bit (drop_bit 1 x) = push_bit 1 (drop_bit 1 x)"
  using top_bit_dropped [of x] by (simp only: undo_bit_def if_False xor.right_neutral)

lemma undo_crc_bit: "undo_bit (crc_bit x) = x"
proof (cases "odd x")
  case True
  then have "x AND 1 = 1" by (simp add: and_one_eq odd_iff_mod_2_eq_one)
  then have "crc_bit x = drop_bit 1 x XOR 0xEDB88320" by (simp add: crc_bit_def)
  then have "undo_bit (crc_bit x) = push_bit 1 (drop_bit 1 x) XOR 1" by (simp only: undo_bit_xor undo_poly undo_dropped)
  also have "\<dots> = x"
  proof (rule bit_eqI)
    fix n
    show "bit (push_bit 1 (drop_bit 1 x) XOR 1) n = bit x n"
      using True unfolding bit_xor_iff bits_shifted_back bit_1_iff by (cases "n = 0") (simp_all add: bit_0)
  qed
  finally show ?thesis .
next
  case False
  then have "x AND 1 = 0" by (simp add: and_one_eq even_iff_mod_2_eq_zero)
  then have "crc_bit x = drop_bit 1 x" by (simp add: crc_bit_def)
  then have "undo_bit (crc_bit x) = push_bit 1 (drop_bit 1 x)" by (simp only: undo_dropped)
  also have "\<dots> = x"
  proof (rule bit_eqI)
    fix n
    show "bit (push_bit 1 (drop_bit 1 x)) n = bit x n"
      using False unfolding bits_shifted_back by (cases "n = 0") (simp_all add: bit_0)
  qed
  finally show ?thesis .
qed

definition undo_byte :: "32 word \<Rightarrow> 32 word" where
  "undo_byte = undo_bit ^^ 8"

lemma undo_crc_bits: "(undo_bit ^^ n) ((crc_bit ^^ n) x) = x"
  by (induction n arbitrary: x) (simp_all add: funpow_swap1 undo_crc_bit)

lemma undo_crc_byte: "undo_byte (crc_byte x b) = x XOR ucast b"
  by (simp only: crc_byte_def undo_byte_def undo_crc_bits)

lemma undo_byte_xor: "undo_byte (x XOR y) = undo_byte x XOR undo_byte y"
proof -
  have "(undo_bit ^^ n) (x XOR y) = (undo_bit ^^ n) x XOR (undo_bit ^^ n) y" for n
    by (induction n) (simp_all add: undo_bit_xor)
  then show ?thesis by (simp only: undo_byte_def)
qed

lemma undo_small:
  fixes b :: u8
  shows "undo_byte (ucast b) = push_bit 8 (ucast b)"
proof -
  have "(undo_bit ^^ n) (ucast b) = push_bit n (ucast b :: 32 word)" if "n \<le> 8" for n
    using that
  proof (induction n)
    case (Suc n)
    have "\<not> bit (push_bit n (ucast b :: 32 word)) 31"
      using Suc.prems bit_imp_le_length [of b "31 - n"] by (auto simp: bit_push_bit_iff bit_ucast_iff)
    then have "undo_bit (push_bit n (ucast b)) = push_bit 1 (push_bit n (ucast b))" by (simp only: undo_bit_def if_False xor.right_neutral)
    then show ?case using Suc by (simp add: push_bit_push_bit)
  qed simp
  then show ?thesis by (simp add: undo_byte_def)
qed

text \<open>The bytes of a version lead to the checksum of a blank record only if they undo it.\<close>

definition master_prefix :: bytes where
  "master_prefix = [0xFE, 0x0F, 8, 0]"

lemma version_bytes_undone:
  assumes "crc32 crc [v0, v1, 0, 0, 0, 0, 0, 0] = w"
  shows "crc = (undo_byte ^^ 8) w XOR push_bit 8 (ucast v1) XOR ucast v0"
proof -
  let ?x = "crc_byte (crc_byte crc v0) v1"
  have "(undo_byte ^^ 6) w = ?x"
    using assms by (simp add: crc32_def eval_nat_numeral) (metis undo_crc_byte ucast_0 xor.right_neutral)
  moreover have "undo_byte (undo_byte ?x) = crc XOR ucast v0 XOR push_bit 8 (ucast v1)"
    by (simp only: undo_crc_byte undo_byte_xor undo_small xor.assoc)
  moreover have "(undo_byte ^^ 8) w = undo_byte (undo_byte ((undo_byte ^^ 6) w))"
    by (simp add: eval_nat_numeral)
  ultimately have "(undo_byte ^^ 8) w = crc XOR ucast v0 XOR push_bit 8 (ucast v1)" by simp
  then show ?thesis by (simp add: xor.assoc)
qed

lemma crc_byte_eq:
  "crc_byte crc b = crc_bit (crc_bit (crc_bit (crc_bit (crc_bit (crc_bit (crc_bit (crc_bit (crc XOR ucast b))))))))"
  by (simp add: crc_byte_def eval_nat_numeral)

lemma crc_of_prefix: "crc32 INITIAL_CRC master_prefix = 0x7B878C42"
  by (simp add: crc32_def master_prefix_def crc_byte_eq crc_bit_def)

lemma crc_of_blank: "crc32 0x7B878C42 (replicate 8 0xFF) = 0xEDDFB0DD"
proof -
  have "crc_byte 0x7B878C42 0xFF = 0xB5AB48BD \<and>
    crc_byte 0xB5AB48BD 0xFF = 0x98678BF4 \<and>
    crc_byte 0x98678BF4 0xFF = 0x974ABE03 \<and>
    crc_byte 0x974ABE03 0xFF = 0xB49CF489 \<and>
    crc_byte 0xB49CF489 0xFF = 0xB9D248FD \<and>
    crc_byte 0xB9D248FD 0xFF = 0xEEB7B364 \<and>
    crc_byte 0xEEB7B364 0xFF = 0x6733FD7F \<and>
    crc_byte 0x6733FD7F 0xFF = 0xEDDFB0DD"
    by (intro conjI; simp add: crc_byte_eq crc_bit_def)
  then show ?thesis by (simp add: crc32_def eval_nat_numeral)
qed

lemma undo_byte_eq:
  "undo_byte crc = undo_bit (undo_bit (undo_bit (undo_bit (undo_bit (undo_bit (undo_bit (undo_bit crc)))))))"
  by (simp add: undo_byte_def eval_nat_numeral)

lemma undone_blank: "(undo_byte ^^ 8) 0xEDDFB0DD = 0x165E86DF"
proof -
  have "undo_byte 0xEDDFB0DD = 0x6733FD80 \<and>
    undo_byte 0x6733FD80 = 0xEEB74C9B \<and>
    undo_byte 0xEEB74C9B = 0xB92DB702 \<and>
    undo_byte 0xB92DB702 = 0x4B630B76 \<and>
    undo_byte 0x4B630B76 = 0x67DF3125 \<and>
    undo_byte 0x67DF3125 = 0x027BE99B \<and>
    undo_byte 0x027BE99B = 0x167A91C3 \<and>
    undo_byte 0x167A91C3 = 0x165E86DF"
    by (intro conjI; simp add: undo_byte_eq undo_bit_def)
  then show ?thesis by (simp add: eval_nat_numeral)
qed

lemma no_version_undoes:
  "0x7B878C42 \<noteq> (undo_byte ^^ 8) 0xEDDFB0DD XOR push_bit 8 (ucast (v1 :: u8)) XOR (ucast (v0 :: u8) :: 32 word)"
proof
  assume "0x7B878C42 = (undo_byte ^^ 8) 0xEDDFB0DD XOR push_bit 8 (ucast v1) XOR (ucast v0 :: 32 word)"
  then have "bit (0x7B878C42 :: 32 word) 16 = bit (0x165E86DF XOR push_bit 8 (ucast v1) XOR (ucast v0 :: 32 word)) 16"
    unfolding undone_blank by simp
  moreover have "\<not> bit (push_bit 8 (ucast v1 :: 32 word)) 16" "\<not> bit (ucast v0 :: 32 word) 16"
    using bit_imp_le_length [of v1 8] bit_imp_le_length [of v0 16] by (auto simp: bit_push_bit_iff bit_ucast_iff)
  ultimately show False by (simp add: bit_xor_iff)
qed

lemma master_tear_detected:
  assumes "v < 65536"
  shows "tear_detected SOTP_MASTER_RECORD_TYPE (master_data v)"
proof -
  let ?d = "master_data v" and ?T = SOTP_MASTER_RECORD_TYPE
  have d: "?d = [byte_of v, byte_of (v div 256), 0, 0, 0, 0, 0, 0]"
    by (simp add: master_data_def little_endian_def upt_rec byte_of_def)
  have "take 4 (record_bytes ?T ?d) = master_prefix"
    using record_header_fields(2,3) [OF storable_master, of v]
    by (simp add: record_bytes_def header_prefix master_prefix_def little_endian_def upt_rec byte_of_def)
  moreover have "crc32 0x7B878C42 ?d \<noteq> crc32 0x7B878C42 (blank 8)"
    using version_bytes_undone [of "0x7B878C42" "byte_of v" "byte_of (v div 256)" "0xEDDFB0DD"] no_version_undoes
    unfolding crc_of_blank d by blast
  moreover have "take (8 * k) ?d @ blank (length ?d - 8 * k) = (if k = 0 then blank 8 else ?d)" for k
    by (cases k) simp_all
  ultimately show ?thesis by (simp add: tear_detected_def Let_def crc_of_prefix)
qed

text \<open>
  What the flash may hold when the power comes back, and the traversal that rebuilds the table of locations from
  it. A record that was cut off is collected away.
\<close>

section \<open>The invariant and the states after a power cut\<close>

text \<open>A log that may end in a record that was cut off.\<close>

definition readable :: "nat \<Rightarrow> bytes \<Rightarrow> nat \<Rightarrow> (nat \<rightharpoonup> bytes) \<Rightarrow> bool" where
  "readable S A version m \<longleftrightarrow>
     length A = S \<and> version < 65536 \<and>
     (\<exists>items rest. A = master_image version @ items_image items @ rest \<and> (\<forall>i \<in> set items. item_ok i) \<and>
        contents items = m \<and> rest \<noteq> [] \<and>
        (rest = blank (length rest) \<or> damaged_at A (16 + length (items_image items))))"

text \<open>Area a with version v is newer than the other one with version v0.\<close>

definition supersedes :: "nat \<Rightarrow> nat \<Rightarrow> nat \<Rightarrow> bool" where
  "supersedes a v v0 \<longleftrightarrow> 1 \<le> v0 \<and> (v0 < v \<or> a = 1 \<and> v0 \<le> v)"

definition recoverable :: "nat \<Rightarrow> nat \<Rightarrow> bytes \<Rightarrow> (nat \<rightharpoonup> bytes) \<Rightarrow> bool" where
  "recoverable S N c m \<longleftrightarrow>
     length c = 2 * S \<and> room S m \<and>
     (m = (\<lambda>_. None) \<and> unmastered (area_of S 0 c) \<and> unmastered (area_of S 1 c) \<or>
      (\<exists>a v. a < 2 \<and> 1 \<le> v \<and> v \<le> N \<and> readable S (area_of S a c) v m \<and>
         (unmastered (area_of S (1 - a) c) \<or> (\<exists>v0. mastered (area_of S (1 - a) c) v0 \<and> supersedes a v v0))))"

text \<open>
  The state between two calls. In memory and in the flash the version is the same, but for the first
  version, which is written without being noted.
\<close>

definition sotp_inv :: "nat \<Rightarrow> nat \<Rightarrow> sotp \<Rightarrow> (nat \<rightharpoonup> bytes) \<Rightarrow> bool" where
  "sotp_inv S N s m \<longleftrightarrow>
     (let c = cells (device s); a = active_area s in
      on_flash S s c \<and> init_done s \<and> a < 2 \<and> min_prog_size s = 8 \<and> room S m \<and>
      active_area_version s \<le> N \<and> area_of S (1 - a) c = blank S \<and>
      (\<exists>v. 1 \<le> v \<and> v \<le> N \<and> stored S (area_of S a c) v m (free_space_offset s) \<and>
           (v = active_area_version s \<or> v = 1 \<and> a = 0)) \<and>
      table_ok a (area_of S a c) (free_space_offset s) (offset_by_type s) m)"

lemma sotp_invI:
  assumes "on_flash S s c" "a = active_area s" "a < 2" "min_prog_size s = 8" "room S m" "active_area_version s \<le> N"
    "area_of S (1 - a) c = blank S" "1 \<le> v" "v \<le> N" "stored S (area_of S a c) v m (free_space_offset s)"
    "v = active_area_version s \<or> v = 1 \<and> a = 0" "table_ok a (area_of S a c) (free_space_offset s) (offset_by_type s) m"
  shows "sotp_inv S N (s\<lparr>init_done := True\<rparr>) m"
proof -
  have "c = cells (device s)" using assms(1) by (simp add: on_flash_def)
  then show ?thesis using assms unfolding sotp_inv_def Let_def by (auto simp: on_flash_def)
qed

lemma stored_length: "stored S A v m limit \<Longrightarrow> length A = S"
  by (auto simp: stored_def)

lemma stored_readable: "stored S A v m limit \<Longrightarrow> readable S A v m"
  using stored_length [of S A v m limit]
  by (fastforce simp: readable_def stored_def intro: exI [of _ "blank (S - limit)"])

lemma readable_mastered: "readable S A v m \<Longrightarrow> mastered A v"
  by (auto simp: readable_def intro!: mastered_append)

lemma recoverable_readable:
  assumes "length c = 2 * S" "room S m" "a < 2" "1 \<le> v" "v \<le> N" "readable S (area_of S a c) v m"
    and "unmastered (area_of S (1 - a) c) \<or> (\<exists>v0. mastered (area_of S (1 - a) c) v0 \<and> supersedes a v v0)"
  shows "recoverable S N c m"
  using assms unfolding recoverable_def by blast

lemma recoverable_mono: "recoverable S N c m \<Longrightarrow> N \<le> N' \<Longrightarrow> recoverable S N' c m"
  unfolding recoverable_def by (meson le_trans)

lemma room_16: "room S m \<Longrightarrow> 16 \<le> S"
  by (simp add: room_def)

text \<open>A collection that was cut off leaves the old items or the new ones.\<close>

lemma collected_recoverable:
  assumes c: "collected S a A m' version c" and a: "a < 2" and A: "readable S A v m" "room S m" "room S m'"
    and v: "1 \<le> v" "v \<le> N" "1 \<le> version" "version \<le> N" "supersedes (1 - a) version v"
  shows "recoverable S N c m \<or> recoverable S N c m'"
proof -
  have b: "1 - a < 2" "1 - (1 - a) = a" using a by (auto elim: area_cases)
  have len: "length c = 2 * S" using c by (simp add: collected_def)
  from c consider "area_of S a c = A" "unmastered (area_of S (1 - a) c)"
    | limit where "area_of S a c = A \<or> unmastered (area_of S a c)" "stored S (area_of S (1 - a) c) version m' limit"
    unfolding collected_def by blast
  then show ?thesis
  proof cases
    case 1
    then show ?thesis using recoverable_readable [OF len A(2) a v(1,2)] A(1) by blast
  next
    case 2
    have "unmastered (area_of S (1 - (1 - a)) c) \<or>
        (\<exists>v0. mastered (area_of S (1 - (1 - a)) c) v0 \<and> supersedes (1 - a) version v0)"
      using 2(1) v(5) readable_mastered [OF A(1)] unfolding b(2) by blast
    then show ?thesis using recoverable_readable [OF len A(3) b(1) v(3,4) stored_readable [OF 2(2)]] by blast
  qed
qed

lemma collection_done_inv:
  assumes d: "collection_done S a m version s s'" and "a < 2" "min_prog_size s = 8" "room S m" "1 \<le> version" "version \<le> N"
  shows "sotp_inv S N (s'\<lparr>init_done := True\<rparr>) m"
proof -
  let ?s = "s'\<lparr>init_done := True\<rparr>"
  have e: "s' = s\<lparr>device := device s', offset_by_type := offset_by_type s', active_area := 1 - a,
       active_area_version := version, free_space_offset := free_space_offset s'\<rparr>"
    using d unfolding collection_done_def by blast
  have f: "init_done ?s" "active_area ?s = 1 - a" "min_prog_size ?s = 8" "active_area_version ?s = version"
    using assms(3) by (subst e; simp)+
  have g: "cells (device ?s) = cells (device s')" "free_space_offset ?s = free_space_offset s'"
    "offset_by_type ?s = offset_by_type s'" "on_flash S ?s c = on_flash S s' c" for c
    by (simp_all add: on_flash_def)
  have b: "1 - (1 - a) = a" "1 - a < 2" using assms(2) by (auto elim: area_cases)
  show ?thesis
    unfolding sotp_inv_def Let_def f g b(1) using d assms f b(2) unfolding collection_done_def by blast
qed

lemma sotp_inv_fields [simp]:
  "sotp_inv S N (s\<lparr>init_done := True, page_buf := p\<rparr>) m = sotp_inv S N (s\<lparr>init_done := True\<rparr>) m"
  "init_done s \<Longrightarrow> sotp_inv S N (s\<lparr>init_done := True\<rparr>) m = sotp_inv S N s m"
  by (simp_all add: sotp_inv_def on_flash_def)

lemma sotp_inv_mono:
  assumes "sotp_inv S N s m" "N \<le> N'"
  shows "sotp_inv S N' s m"
proof -
  have "x \<le> N \<Longrightarrow> x \<le> N'" for x using assms(2) by simp
  with assms(1) show ?thesis unfolding sotp_inv_def Let_def by blast
qed

text \<open>A record that was cut off, at the end of a log.\<close>

lemma torn_record:
  assumes A: "A = pre @ take (8 * k) (record_image tf data) @ blank (n - length (take (8 * k) (record_image tf data)))"
    and st: "storable tf data" "known_type tf" and tear: "tear_detected tf data" and n: "length (record_image tf data) \<le> n"
  shows "A = pre @ blank n \<or> A = pre @ record_image tf data @ blank (n - length (record_image tf data)) \<or>
    damaged_at A (length pre)"
proof (cases k)
  case (Suc j)
  let ?i = "record_image tf data" and ?h = "sotp_header_bytes (record_header tf data)"
  define torn where "torn = take (8 * j) data @ blank (length data - 8 * j)"
  note f = record_header_fields [OF st(1)]
  have lt: "length torn = length data" by (simp add: torn_def)
  have "8 * k = length ?h + 8 * j" using Suc by simp
  then have ti: "take (8 * k) ?i = ?h @ take (8 * j) (pad8 data)" by (simp only: record_image_eq take_append) simp
  have n8: "8 + length data \<le> n" using n by (simp add: record_image_eq pad8_def)
  obtain p where p: "pad8 data = data @ blank p" by (simp add: pad8_def)
  define q where "q = n - 8 - length data"
  have tail: "take (8 * k) ?i @ blank (n - length (take (8 * k) ?i)) = ?h @ torn @ blank q"
  proof -
    have np: "8 + length data + p \<le> n" using n by (simp add: record_image_eq p)
    have "take (8 * j) (pad8 data) = take (8 * j) data @ blank (min (8 * j - length data) p)" by (simp add: p)
    moreover have "min (8 * j - length data) p + (n - (8 + (min (length data) (8 * j) + min (8 * j - length data) p))) =
        (length data - 8 * j) + q"
      using np by (simp add: q_def min_def add.commute)
    ultimately show ?thesis
      unfolding ti torn_def by (simp add: replicate_add [symmetric] min.commute)
  qed
  show ?thesis
  proof (cases "torn = data")
    case True
    have "?h @ torn @ blank q = ?i @ blank (n - length ?i)"
      using n unfolding True record_image_eq p q_def by (simp add: replicate_add [symmetric])
    then show ?thesis using A tail by simp
  next
    case False
    have A': "A = pre @ ?h @ torn @ blank q" using A tail by simp
    have parts: "take 8 (drop (length pre) A) = ?h" "take (length data) (drop (length pre + 8) A) = torn"
      "take 4 (drop (length pre) A) = take 4 (record_bytes tf data)"
      by (simp_all add: A' lt record_bytes_def)
    have "mac (record_header tf data) \<noteq> crc32 INITIAL_CRC (take 4 (record_bytes tf data) @ torn)"
      using tear False unfolding f(4) tear_detected_def Let_def torn_def by metis
    then have "damaged_at A (length pre)"
      unfolding damaged_at_def Let_def parts(1) header_of_bytes [OF f(1)] f(2,3) parts(2,3)
      by (simp add: A' lt)
    then show ?thesis by blast
  qed
qed (simp add: A)

end
