(* ===== verification/Sotp_Init.thy ===== *)
theory Sotp_Init
  imports Sotp_Recover
begin

text \<open>
  Initialisation after a power cut: from every state the flash may then be in, the items are found again, and a
  power cut during the initialisation leaves such a state once more.
\<close>

section \<open>The traversal of the records\<close>

definition traversing :: "nat \<Rightarrow> nat \<Rightarrow> sotp \<Rightarrow> log_item list \<Rightarrow> log_item list \<Rightarrow> bytes \<Rightarrow> bool" where
  "traversing S N s read left rest \<longleftrightarrow>
     (let c = cells (device s); a = active_area s; A = area_of S a c; v = active_area_version s in
      on_flash S s c \<and> a < 2 \<and> min_prog_size s = 8 \<and> 1 \<le> v \<and> v \<le> N \<and> v < 65535 \<and> area_of S (1 - a) c = blank S \<and>
      A = master_image v @ items_image (read @ left) @ rest \<and> (\<forall>i \<in> set (read @ left). item_ok i) \<and>
      room S (contents (read @ left)) \<and> rest \<noteq> [] \<and>
      (rest = blank (length rest) \<or> damaged_at A (16 + length (items_image (read @ left)))) \<and>
      free_space_offset s = 16 + length (items_image read) \<and>
      table_ok a A (free_space_offset s) (offset_by_type s) (contents read))"

lemma traversing_facts:
  assumes "traversing S N s read left rest"
  defines "A \<equiv> area_of S (active_area s) (cells (device s))"
  shows "on_flash S s (cells (device s))" "active_area s < 2" "min_prog_size s = 8" "1 \<le> active_area_version s"
    "active_area_version s \<le> N" "active_area_version s < 65535" "area_of S (1 - active_area s) (cells (device s)) = blank S"
    "A = master_image (active_area_version s) @ items_image (read @ left) @ rest" "\<forall>i \<in> set (read @ left). item_ok i"
    "room S (contents (read @ left))" "rest \<noteq> []"
    "rest = blank (length rest) \<or> damaged_at A (16 + length (items_image (read @ left)))"
    "free_space_offset s = 16 + length (items_image read)"
    "table_ok (active_area s) A (free_space_offset s) (offset_by_type s) (contents read)" "length A = S" "S < 2 ^ 30"
    "S = 16 + length (items_image (read @ left)) + length rest"
proof -
  show fl: "on_flash S s (cells (device s))" and a: "active_area s < 2" and "min_prog_size s = 8" "1 \<le> active_area_version s"
    "active_area_version s \<le> N" "active_area_version s < 65535" "area_of S (1 - active_area s) (cells (device s)) = blank S"
    "\<forall>i \<in> set (read @ left). item_ok i" "room S (contents (read @ left))" "rest \<noteq> []"
    "rest = blank (length rest) \<or> damaged_at A (16 + length (items_image (read @ left)))"
    "free_space_offset s = 16 + length (items_image read)"
    "table_ok (active_area s) A (free_space_offset s) (offset_by_type s) (contents read)"
    and A: "A = master_image (active_area_version s) @ items_image (read @ left) @ rest"
    using assms(1) unfolding traversing_def Let_def A_def by blast+
  show len: "length A = S" "S < 2 ^ 30"
    using area_places [OF fl a] length_area_of [OF _ a, of "cells (device s)" S] fl unfolding A_def
    by (simp_all add: on_flash_def)
  show "S = 16 + length (items_image (read @ left)) + length rest" using len(1) unfolding A by simp
qed

lemma traversal_ends:
  assumes t: "traversing S N s items [] rest" and lim: "limit = used_length (area_of S (active_area s) (cells (device s)))"
  shows "run_ok s (traverse_records limit SOTP_SUCCESS s)
    (\<lambda>ret s'. ret = SOTP_SUCCESS \<and> sotp_inv S (Suc N) (s'\<lparr>init_done := True\<rparr>) (contents items))
    (\<lambda>c. recoverable S (Suc N) c (contents items))"
proof (rule run_okI)
  assume quiet: "quiet s"
  let ?a = "active_area s" and ?c = "cells (device s)" and ?m = "contents items" and ?v = "active_area_version s"
  let ?A = "area_of S ?a ?c"
  note f = traversing_facts [OF t, unfolded append_Nil2]
  have fso: "free_space_offset s = length (master_image ?v @ items_image items)" using f(13) by simp
  have A: "?A = (master_image ?v @ items_image items) @ rest" using f(8) by simp
  have used: "used_length ?A = (if used_length rest = 0 then used_length (master_image ?v @ items_image items)
      else free_space_offset s + used_length rest)"
    unfolding A used_length_append [of _ rest] fso by simp
  show "run_ok s (traverse_records limit SOTP_SUCCESS s)
    (\<lambda>ret s'. ret = SOTP_SUCCESS \<and> sotp_inv S (Suc N) (s'\<lparr>init_done := True\<rparr>) ?m) (\<lambda>c. recoverable S (Suc N) c ?m)"
  proof (cases "limit \<le> free_space_offset s")
    case True
    then have "used_length rest = 0" using used lim by (simp split: if_splits)
    then have "rest = blank (length rest)" by (simp only: used_length_0)
    moreover have "length rest = S - free_space_offset s" "free_space_offset s < S"
      using f(17,11,13) by simp_all
    ultimately have "?A = master_image ?v @ items_image items @ blank (S - free_space_offset s)" using f(8) by metis
    then have "stored S ?A ?v ?m (free_space_offset s)"
      unfolding stored_def using f \<open>free_space_offset s < S\<close> by (intro conjI exI [of _ items]) simp_all
    from sotp_invI [OF f(1) refl f(2,3,10) _ f(7,4) _ this _ f(14), of "Suc N"]
    have "sotp_inv S (Suc N) (s\<lparr>init_done := True\<rparr>) ?m" using f(5) by simp
    with True show ?thesis by (subst traverse_records.simps) (simp add: run_ok_returns)
  next
    case False
    then have "used_length rest \<noteq> 0" using used lim used_length_le fso by metis
    then have "rest \<noteq> blank (length rest)" by (metis used_length_blank)
    then have d: "damaged_at ?A (free_space_offset s)" using f(12,13) by simp
    have "True \<or> header_length (header_of (take 8 (drop (free_space_offset s) ?A))) \<le> 0 \<or>
      \<not> known_type (type_and_flags (header_of (take 8 (drop (free_space_offset s) ?A))))" by simp
    from read_record_damaged [OF f(1,2) quiet d this] obtain r
      where r: "read_record ?a (free_space_offset s) 0 True s = Returns (r, s)" "rr_ret r = SOTP_SUCCESS" "\<not> rr_valid r"
      by blast
    have eq: "traverse_records limit SOTP_SUCCESS s = sotp_garbage_collection SOTP_NO_TYPE 0 [] s"
      using False r by (subst traverse_records.simps) simp
    have "table_ok ?a (overwrite ?A S []) S (offset_by_type s) ?m"
      using f(13,15,17) by (intro table_ok_overwrite [OF f(14)]) simp_all
    then have "gc_ready S s ?c ?a ?m"
      using f master_tear_detected [of "?v + 1"] by (simp add: gc_ready_def)
    from collect_old_ok [OF this f(10)] show ?thesis
      unfolding eq
    proof (rule run_ok_mono)
      fix ret s'
      assume "ret = SOTP_SUCCESS \<and> collection_done S ?a ?m (?v + 1) s s'"
      then show "ret = SOTP_SUCCESS \<and> sotp_inv S (Suc N) (s'\<lparr>init_done := True\<rparr>) ?m"
        using collection_done_inv [OF _ f(2,3,10), of "?v + 1" s' "Suc N"] f(5) by simp
    next
      fix c'
      assume c': "collected S ?a ?A ?m (?v + 1) c'"
      have "readable S ?A ?v ?m"
        unfolding readable_def using f by (intro conjI exI [of _ items] exI [of _ rest]) simp_all
      then show "recoverable S (Suc N) c' ?m"
        using collected_recoverable [OF c' f(2) _ f(10,10) f(4), of "Suc N"] f(4,5) by (simp add: supersedes_def)
    qed
  qed
qed

lemma item_with_data:
  assumes "snd i = Some data"
  shows "item_flags i = fst i" "item_data i = data" "item_image i = record_image (fst i) data"
  using assms by (cases i; simp add: item_data_def item_image_def)+

lemma traversing_step:
  assumes t: "traversing S N s read (i # left) rest"
  defines "next \<equiv> free_space_offset s + length (item_image i)"
  shows "record_at (area_of S (active_area s) (cells (device s))) (free_space_offset s) (item_flags i) (item_data i)"
    and "traversing S N (set_location (fst i) (if snd i = None then 0 else record_location (active_area s) (free_space_offset s))
      (s\<lparr>free_space_offset := next\<rparr>)) (read @ [i]) left rest"
    and "free_space_offset s < used_length (area_of S (active_area s) (cells (device s)))"
proof -
  let ?a = "active_area s" and ?c = "cells (device s)" and ?fso = "free_space_offset s"
  let ?A = "area_of S ?a ?c" and ?entry = "if snd i = None then 0 else record_location ?a ?fso"
  let ?s = "set_location (fst i) ?entry (s\<lparr>free_space_offset := next\<rparr>)"
  note f = traversing_facts [OF t]
  have i: "item_ok i" "fst i < SOTP_MAX_TYPES" using f(9) by (simp_all add: item_ok_def)
  have fso: "?fso = length (master_image (active_area_version s) @ items_image read)" using f(13) by simp
  have A: "?A = (master_image (active_area_version s) @ items_image read) @ item_image i @ items_image left @ rest"
    using f(8) by simp
  show r: "record_at ?A ?fso (item_flags i) (item_data i)"
    unfolding fso by (rule record_at_append [OF A [unfolded item_image_def [of i]] item_flags_ok(6) [OF i(1)]])
  have "used_length (item_image i @ items_image left @ rest) \<noteq> 0" by (rule item_used [OF i(1)])
  from used_length_behind [OF this] show "?fso < used_length ?A" unfolding fso A .
  have al: "?fso mod 8 = 0" "16 \<le> ?fso" using f(13) by (simp_all add: mod_add_eq [symmetric])
  have "case snd i of None \<Rightarrow> ?entry = 0 | Some data \<Rightarrow> entry_ok ?a ?A next ?entry (fst i) data"
  proof (cases "snd i")
    case (Some data)
    note parts = item_with_data [OF Some]
    have "entry_ok ?a ?A next (record_location ?a ?fso) (fst i) data"
      unfolding entry_ok_def using r [unfolded parts] al by (intro exI [of _ ?fso]) (simp add: next_def parts)
    with Some show ?thesis by simp
  qed simp
  moreover have "table_ok ?a (overwrite ?A ?fso []) next (offset_by_type s) (contents read)"
    using f(15,17) fso unfolding next_def by (intro table_ok_overwrite [OF f(14)]) simp_all
  ultimately have "table_ok ?a ?A next ((offset_by_type s)[fst i := ?entry]) ((contents read)(fst i := snd i))"
    by (intro table_ok_update i(2)) simp_all
  then have tab: "table_ok ?a ?A next ((offset_by_type s)[fst i := ?entry]) (contents (read @ [i]))" by simp
  have same: "device ?s = device s" "active_area ?s = ?a" "active_area_version ?s = active_area_version s"
    "min_prog_size ?s = min_prog_size s" "free_space_offset ?s = next" "(read @ [i]) @ left = read @ i # left"
    "offset_by_type ?s = (offset_by_type s)[fst i := ?entry]" "on_flash S ?s c = on_flash S s c" for c
    by (simp_all add: set_location_def on_flash_def)
  have "next = 16 + length (items_image (read @ [i]))" using f(13) by (simp add: next_def)
  then show "traversing S N ?s (read @ [i]) left rest"
    unfolding traversing_def Let_def same by (intro conjI f(1-12) tab)
qed

lemma traverse_ok:
  assumes "traversing S N s read left rest" "limit = used_length (area_of S (active_area s) (cells (device s)))"
    "left \<noteq> [] \<or> ret = SOTP_SUCCESS"
  shows "run_ok s (traverse_records limit ret s)
    (\<lambda>ret s'. ret = SOTP_SUCCESS \<and> sotp_inv S (Suc N) (s'\<lparr>init_done := True\<rparr>) (contents (read @ left)))
    (\<lambda>c. recoverable S (Suc N) c (contents (read @ left)))"
  using assms
proof (induction left arbitrary: s read ret)
  case Nil
  with traversal_ends [of S N s read rest limit] show ?case by simp
next
  case (Cons i left)
  let ?a = "active_area s" and ?fso = "free_space_offset s"
  let ?entry = "if snd i = None then 0 else record_location ?a ?fso" and ?next = "?fso + length (item_image i)"
  let ?s = "set_location (fst i) ?entry (s\<lparr>free_space_offset := ?next\<rparr>)"
  note f = traversing_facts [OF Cons.prems(1)]
  note step = traversing_step [OF Cons.prems(1)]
  have i: "item_ok i" "fst i < SOTP_MAX_TYPES" using f(9) by (simp_all add: item_ok_def)
  have al: "?fso mod 8 = 0" using f(13) by (simp add: mod_add_eq [symmetric])
  have pos: "0 < length (item_image i)" by (simp add: item_image_def length_record_image)
  have dev: "device ?s = device s" "active_area ?s = ?a" by (simp_all add: set_location_def)
  show ?case
  proof (rule run_okI)
    assume quiet: "quiet s"
    note r = read_record_present [OF f(1,2) quiet f(3) al step(1) item_flags_ok(5) [OF i(1)], of 0 True]
    have eq: "traverse_records limit ret s = traverse_records limit SOTP_SUCCESS ?s"
      using step(3) Cons.prems(2) i(2) pos item_flags_ok(4) [OF i(1)]
      by (subst traverse_records.simps)
         (simp add: r item_flags_ok(1) [OF i(1)] Let_def item_image_def [symmetric] not_le)
    have "run_ok ?s (traverse_records limit SOTP_SUCCESS ?s)
      (\<lambda>ret s'. ret = SOTP_SUCCESS \<and> sotp_inv S (Suc N) (s'\<lparr>init_done := True\<rparr>) (contents ((read @ [i]) @ left)))
      (\<lambda>c. recoverable S (Suc N) c (contents ((read @ [i]) @ left)))"
      using Cons.prems(2) by (intro Cons.IH [OF step(2)]) (simp_all add: dev)
    from run_ok_device [OF dev(1) this] show "run_ok s (traverse_records limit ret s)
      (\<lambda>ret s'. ret = SOTP_SUCCESS \<and> sotp_inv S (Suc N) (s'\<lparr>init_done := True\<rparr>) (contents (read @ i # left)))
      (\<lambda>c. recoverable S (Suc N) c (contents (read @ i # left)))"
      unfolding eq by (simp only: append_assoc append_Cons append_Nil)
  qed
qed

section \<open>The scan of the areas\<close>

lemma init_mastered:
  assumes "on_flash S s c" "a < 2" "quiet s" "min_prog_size s = 8" "mastered (area_of S a c) v"
  shows "init_areas (a # areas) sc s =
    init_areas areas
      (sc\<lparr>sc_free := (sc_free sc)[a := used_length (area_of S a c)], sc_ret := SOTP_SUCCESS,
          sc_version := (sc_version sc)[a := v], sc_state := (sc_state sc)[a := AREA_STATE_VALID]\<rparr>)
      (s\<lparr>free_space_offset := 16, active_area := a, active_area_version := v\<rparr>)"
proof -
  let ?A = "area_of S a c" and ?T = SOTP_MASTER_RECORD_TYPE
  have v: "v < 65536" and r: "record_at ?A 0 ?T (master_data v)" using assms(5) by (simp_all add: mastered_def)
  have known: "known_type ?T" by (simp add: known_type_def)
  have "from_little_endian (take 2 (master_data v)) = v"
    using from_little_endian_of [of v 2] v by (simp add: master_data_def)
  moreover have "used_length ?A \<noteq> 0"
  proof -
    have "?A = record_image ?T (master_data v) @ drop 16 ?A"
      using r append_take_drop_id [of 16 ?A] by (simp add: record_at_def length_record_image)
    then show ?thesis using record_used [OF storable_master, of v "drop 16 ?A"] by simp
  qed
  moreover have "length (record_image ?T (master_data v)) = 16" by (simp add: length_record_image)
  ultimately show ?thesis
    using calc_empty_space_ok [OF assms(1-3)] read_record_present [OF assms(1-4) _ r known, of 8 False]
    by (simp add: Let_def)
qed

lemma init_unmastered:
  assumes fl: "on_flash S s c" "a < 2" and u: "unmastered (area_of S a c)" and sc: "sc_ret sc = SOTP_SUCCESS"
    and cont: "\<And>s' c' n. \<lbrakk>left_with S s c' s'; area_of S a c' = blank S; area_of S (1 - a) c' = area_of S (1 - a) c\<rbrakk> \<Longrightarrow>
      run_ok s' (init_areas areas
        (sc\<lparr>sc_free := (sc_free sc)[a := n], sc_ret := SOTP_SUCCESS, sc_state := (sc_state sc)[a := AREA_STATE_EMPTY]\<rparr>) s') Q C"
    and cut: "\<And>c'. \<lbrakk>length c' = 2 * S; area_of S (1 - a) c' = area_of S (1 - a) c; unmastered (area_of S a c')\<rbrakk> \<Longrightarrow> C c'"
  shows "run_ok s (init_areas (a # areas) sc s) Q C"
proof (rule run_okI)
  assume quiet: "quiet s"
  let ?A = "area_of S a c" and ?sc = "\<lambda>n. sc\<lparr>sc_free := (sc_free sc)[a := n], sc_ret := SOTP_SUCCESS,
    sc_state := (sc_state sc)[a := AREA_STATE_EMPTY]\<rparr>"
  note empty = calc_empty_space_ok [OF fl quiet]
  have len: "length c = 2 * S" using fl(1) by (simp add: on_flash_def)
  then have lenA: "length ?A = S" using fl(2) by simp
  show "run_ok s (init_areas (a # areas) sc s) Q C"
  proof (cases "used_length ?A = 0")
    case True
    then have "?A = blank S" using used_length_0 [of ?A] lenA by simp
    from cont [OF left_with_refl [OF fl(1)] this refl, of 0] sc True show ?thesis by (simp add: empty)
  next
    case False
    have S: "8 \<le> S" using u lenA by (simp add: unmastered_def damaged_at_def)
    have "False \<or> header_length (header_of (take 8 (drop 0 ?A))) \<le> 8 \<or> \<not> known_type (type_and_flags (header_of (take 8 (drop 0 ?A))))"
      using u by (auto simp: unmastered_def)
    from read_record_damaged [OF fl quiet _ this] u obtain r
      where r: "read_record a 0 8 False s = Returns (r, s)" "rr_ret r = SOTP_SUCCESS" "\<not> rr_valid r"
      by (auto simp: unmastered_def)
    have same: "sc_state (sc\<lparr>sc_free := x\<rparr>) = sc_state sc" for x by simp
    have eq: "init_areas (a # areas) sc s = followed_by (sotp_flash_erase_area a s)
        (\<lambda>(pal_ret, s3). if pal_ret \<noteq> PAL_SUCCESS then Returns (Inl SOTP_WRITE_ERROR, s3)
           else init_areas areas (?sc (used_length ?A)) s3)"
      using False r by (simp add: empty Let_def) (unfold r(2) same, rule refl)
    have erase: "run_ok s (sotp_flash_erase_area a s)
        (\<lambda>ret s'. ret = PAL_SUCCESS \<and> left_with S s (overwrite c (a * S) (blank S)) s') C"
      using erase_area_ok [OF fl] u cut torn_erase [OF len fl(2) S] by (elim run_ok_mono) blast+
    show ?thesis
      unfolding eq
    proof (rule run_ok_followed_by [OF erase], clarify)
      fix s'
      assume l: "left_with S s (overwrite c (a * S) (blank S)) s'"
      from cont [OF l erased(1,2) [OF len fl(2)], of "used_length ?A"]
      show "run_ok s' (if PAL_SUCCESS \<noteq> PAL_SUCCESS then Returns (Inl SOTP_WRITE_ERROR, s')
           else init_areas areas (?sc (used_length ?A)) s') Q C" by simp
    qed
  qed
qed

text \<open>What the scan finds: no area in use, one area in use, or two of which the newer one counts.\<close>

definition scanned_none :: "nat \<Rightarrow> nat \<Rightarrow> sotp \<Rightarrow> init_scan \<Rightarrow> bool" where
  "scanned_none S N s sc \<longleftrightarrow>
     sc_state sc = [AREA_STATE_EMPTY, AREA_STATE_EMPTY] \<and> active_area_version s \<le> N \<and>
     area_of S 0 (cells (device s)) = blank S \<and> area_of S 1 (cells (device s)) = blank S"

definition scanned_one :: "nat \<Rightarrow> nat \<Rightarrow> nat \<Rightarrow> sotp \<Rightarrow> init_scan \<Rightarrow> bool" where
  "scanned_one S a v s sc \<longleftrightarrow>
     sc_state sc ! a = AREA_STATE_VALID \<and> sc_state sc ! (1 - a) = AREA_STATE_EMPTY \<and> active_area s = a \<and>
     active_area_version s = v \<and> area_of S (1 - a) (cells (device s)) = blank S"

definition scanned_two :: "nat \<Rightarrow> nat \<Rightarrow> nat \<Rightarrow> sotp \<Rightarrow> init_scan \<Rightarrow> bool" where
  "scanned_two S a v s sc \<longleftrightarrow>
     sc_state sc = [AREA_STATE_VALID, AREA_STATE_VALID] \<and> sc_version sc ! a = v \<and> supersedes a v (sc_version sc ! (1 - a)) \<and>
     mastered (area_of S (1 - a) (cells (device s))) (sc_version sc ! (1 - a))"

definition scanned :: "nat \<Rightarrow> nat \<Rightarrow> (nat \<rightharpoonup> bytes) \<Rightarrow> sotp \<Rightarrow> init_scan \<Rightarrow> bool" where
  "scanned S N m s sc \<longleftrightarrow>
     on_flash S s (cells (device s)) \<and> min_prog_size s = 8 \<and> offset_by_type s = replicate SOTP_MAX_TYPES 0 \<and>
     sc_ret sc = SOTP_SUCCESS \<and> room S m \<and>
     (m = (\<lambda>_. None) \<and> scanned_none S N s sc \<or>
      (\<exists>a v. a < 2 \<and> 1 \<le> v \<and> v \<le> N \<and> free_space_offset s = 16 \<and> readable S (area_of S a (cells (device s))) v m \<and>
         sc_free sc ! a = used_length (area_of S a (cells (device s))) \<and> (scanned_one S a v s sc \<or> scanned_two S a v s sc)))"

lemma scannedI:
  assumes "on_flash S s c" "min_prog_size s = 8" "offset_by_type s = replicate SOTP_MAX_TYPES 0" "sc_ret sc = SOTP_SUCCESS"
    "room S m" "a < 2" "1 \<le> v" "v \<le> N" "free_space_offset s = 16" "readable S (area_of S a c) v m"
    "sc_free sc ! a = used_length (area_of S a c)" "scanned_one S a v s sc \<or> scanned_two S a v s sc"
  shows "scanned S N m s sc"
proof -
  have "c = cells (device s)" using assms(1) by (simp add: on_flash_def)
  then show ?thesis using assms unfolding scanned_def by blast
qed

abbreviation (input) "no_scan \<equiv>
  \<lparr>sc_ret = SOTP_SUCCESS, sc_state = [AREA_STATE_NONE, AREA_STATE_NONE], sc_free = [0, 0], sc_version = [0, 0]\<rparr>"

lemma left_with_cells: "left_with S s c s' \<Longrightarrow> cells (device s') = c"
  by (simp add: left_with_def on_flash_def)

lemma scan_none_ok:
  assumes fl: "on_flash S s c" and min: "min_prog_size s = 8" and tab: "offset_by_type s = replicate SOTP_MAX_TYPES 0"
    and v: "active_area_version s \<le> N" and room: "room S (\<lambda>_. None)"
    and u: "unmastered (area_of S 0 c)" "unmastered (area_of S 1 c)"
  shows "run_ok s (init_areas [0, 1] no_scan s) (\<lambda>r s'. \<exists>sc. r = Inr sc \<and> scanned S N (\<lambda>_. None) s' sc)
    (\<lambda>c'. recoverable S N c' (\<lambda>_. None))"
proof (rule init_unmastered [OF fl _ u(1)])
  have S: "8 \<le> S" using room_16 [OF room] by simp
  fix s1 c1 n
  assume l: "left_with S s c1 s1" and a: "area_of S 0 c1 = blank S" "area_of S (1 - 0) c1 = area_of S (1 - 0) c"
  let ?sc = "no_scan\<lparr>sc_free := (sc_free no_scan)[0 := n], sc_ret := SOTP_SUCCESS,
    sc_state := (sc_state no_scan)[0 := AREA_STATE_EMPTY]\<rparr>"
  have u1: "unmastered (area_of S 1 c1)" using a(2) u(2) by simp
  show "run_ok s1 (init_areas [1] ?sc s1) (\<lambda>r s'. \<exists>sc. r = Inr sc \<and> scanned S N (\<lambda>_. None) s' sc)
    (\<lambda>c'. recoverable S N c' (\<lambda>_. None))"
  proof (rule init_unmastered [OF left_with_on_flash [OF l] _ u1])
    fix s2 c2 n2
    assume l2: "left_with S s1 c2 s2" and a2: "area_of S 1 c2 = blank S" "area_of S (1 - 1) c2 = area_of S (1 - 1) c1"
    note f = left_with_fields [OF left_with_trans [OF l l2]] left_with_on_flash [OF l2] left_with_cells [OF l2]
    show "run_ok s2 (init_areas []
        (?sc\<lparr>sc_free := (sc_free ?sc)[1 := n2], sc_ret := SOTP_SUCCESS, sc_state := (sc_state ?sc)[1 := AREA_STATE_EMPTY]\<rparr>) s2)
      (\<lambda>r s'. \<exists>sc. r = Inr sc \<and> scanned S N (\<lambda>_. None) s' sc) (\<lambda>c'. recoverable S N c' (\<lambda>_. None))"
      using a a2 min tab v room by (auto intro!: run_ok_returns simp: scanned_def scanned_none_def f)
  qed (use a S room unmastered_blank [OF S] in \<open>auto simp: recoverable_def\<close>)
qed (use u room in \<open>auto simp: recoverable_def\<close>)

lemma scan_one_ok:
  assumes fl: "on_flash S s c" and min: "min_prog_size s = 8" and tab: "offset_by_type s = replicate SOTP_MAX_TYPES 0"
    and a: "a < 2" and v: "1 \<le> v" "v \<le> N" and room: "room S m"
    and r: "readable S (area_of S a c) v m" and u: "unmastered (area_of S (1 - a) c)"
  shows "run_ok s (init_areas [0, 1] no_scan s) (\<lambda>r s'. \<exists>sc. r = Inr sc \<and> scanned S N m s' sc)
    (\<lambda>c'. recoverable S N c' m)"
proof (rule run_okI)
  assume quiet: "quiet s"
  note ms = readable_mastered [OF r]
  have cut: "recoverable S N c' m"
    if "length c' = 2 * S" "area_of S a c' = area_of S a c" "unmastered (area_of S (1 - a) c')" for c'
    using that recoverable_readable [OF that(1) room a v] r by simp
  show "run_ok s (init_areas [0, 1] no_scan s) (\<lambda>r s'. \<exists>sc. r = Inr sc \<and> scanned S N m s' sc)
    (\<lambda>c'. recoverable S N c' m)"
    using a
  proof (rule area_cases)
    assume a0: "a = 0"
    let ?s = "s\<lparr>free_space_offset := 16, active_area := 0, active_area_version := v\<rparr>"
    let ?sc = "no_scan\<lparr>sc_free := (sc_free no_scan)[0 := used_length (area_of S 0 c)], sc_ret := SOTP_SUCCESS,
      sc_version := (sc_version no_scan)[0 := v], sc_state := (sc_state no_scan)[0 := AREA_STATE_VALID]\<rparr>"
    have fl1: "on_flash S ?s c" using fl by (simp add: on_flash_def)
    have eq: "init_areas [0, 1] no_scan s = init_areas [1] ?sc ?s"
      using init_mastered [OF fl _ quiet min, of 0 v "[1]" no_scan] ms a0 by simp
    have "run_ok ?s (init_areas [1] ?sc ?s) (\<lambda>r s'. \<exists>sc. r = Inr sc \<and> scanned S N m s' sc) (\<lambda>c'. recoverable S N c' m)"
    proof (rule init_unmastered [OF fl1])
      fix s2 c2 n
      assume l: "left_with S ?s c2 s2" and ar: "area_of S 1 c2 = blank S" "area_of S (1 - 1) c2 = area_of S (1 - 1) c"
      note f = left_with_fields [OF l] left_with_on_flash [OF l] left_with_cells [OF l]
      let ?sc' = "?sc\<lparr>sc_free := (sc_free ?sc)[1 := n], sc_ret := SOTP_SUCCESS, sc_state := (sc_state ?sc)[1 := AREA_STATE_EMPTY]\<rparr>"
      have "scanned_one S 0 v s2 ?sc'" using ar by (simp add: scanned_one_def f)
      then have "scanned S N m s2 ?sc'"
        using ar r a0 v min tab room by (intro scannedI [OF f(9), of _ _ 0 v]) (simp_all add: f)
      then show "run_ok s2 (init_areas [] ?sc' s2) (\<lambda>r s'. \<exists>sc. r = Inr sc \<and> scanned S N m s' sc) (\<lambda>c'. recoverable S N c' m)"
        by (auto intro!: run_ok_returns)
    qed (use u a0 cut in auto)
    then show ?thesis unfolding eq by (rule run_ok_device [rotated]) simp
  next
    assume a1: "a = 1"
    have u0: "unmastered (area_of S 0 c)" using u a1 by simp
    show ?thesis
    proof (rule init_unmastered [OF fl _ u0])
      fix s1 c1 n
      assume l: "left_with S s c1 s1" and ar: "area_of S 0 c1 = blank S" "area_of S (1 - 0) c1 = area_of S (1 - 0) c"
      note f = left_with_fields [OF l] left_with_on_flash [OF l] left_with_cells [OF l]
      let ?sc = "no_scan\<lparr>sc_free := (sc_free no_scan)[0 := n], sc_ret := SOTP_SUCCESS,
        sc_state := (sc_state no_scan)[0 := AREA_STATE_EMPTY]\<rparr>"
      let ?sc' = "?sc\<lparr>sc_free := (sc_free ?sc)[1 := used_length (area_of S 1 c1)], sc_ret := SOTP_SUCCESS,
        sc_version := (sc_version ?sc)[1 := v], sc_state := (sc_state ?sc)[1 := AREA_STATE_VALID]\<rparr>"
      let ?s = "s1\<lparr>free_space_offset := 16, active_area := 1, active_area_version := v\<rparr>"
      have m1: "mastered (area_of S 1 c1) v" "readable S (area_of S 1 c1) v m" using ar(2) ms r a1 by simp_all
      have min1: "min_prog_size s1 = 8" using min by (simp add: f)
      show "run_ok s1 (init_areas [1] ?sc s1) (\<lambda>r s'. \<exists>sc. r = Inr sc \<and> scanned S N m s' sc) (\<lambda>c'. recoverable S N c' m)"
      proof (rule run_okI)
        assume calm1: "quiet s1"
        have eq: "init_areas [1] ?sc s1 = init_areas [] ?sc' ?s"
          by (rule init_mastered [OF f(9) _ calm1 min1 m1(1)]) simp
        have "scanned_one S 1 v ?s ?sc'" using ar by (simp add: scanned_one_def f)
        moreover have "on_flash S ?s c1" using f(9) by (simp add: on_flash_def)
        ultimately have "scanned S N m ?s ?sc'"
          using m1 v min tab room by (intro scannedI [of S ?s c1 _ _ 1 v]) (simp_all add: f)
        then show "run_ok s1 (init_areas [1] ?sc s1) (\<lambda>r s'. \<exists>sc. r = Inr sc \<and> scanned S N m s' sc) (\<lambda>c'. recoverable S N c' m)"
          unfolding eq by (auto intro!: run_ok_returns)
      qed
    qed (use a1 cut in auto)
  qed
qed

lemma scan_two_ok:
  assumes fl: "on_flash S s c" and min: "min_prog_size s = 8" and tab: "offset_by_type s = replicate SOTP_MAX_TYPES 0"
    and a: "a < 2" and v: "1 \<le> v" "v \<le> N" and room: "room S m" and r: "readable S (area_of S a c) v m"
    and v0: "mastered (area_of S (1 - a) c) v0" "supersedes a v v0"
  shows "run_ok s (init_areas [0, 1] no_scan s) (\<lambda>r s'. \<exists>sc. r = Inr sc \<and> scanned S N m s' sc) C"
proof (rule run_okI)
  assume quiet: "quiet s"
  define w where "w = (\<lambda>b. if b = a then v else v0)"
  have w: "mastered (area_of S b c) (w b)" if "b < 2" for b
    using readable_mastered [OF r] v0(1) that a by (cases "b = a") (auto simp: w_def elim!: area_cases)
  define s1 where "s1 = s\<lparr>free_space_offset := 16, active_area := 0, active_area_version := w 0\<rparr>"
  define s2 where "s2 = s1\<lparr>free_space_offset := 16, active_area := 1, active_area_version := w 1\<rparr>"
  define sc1 where "sc1 = no_scan\<lparr>sc_free := (sc_free no_scan)[0 := used_length (area_of S 0 c)], sc_ret := SOTP_SUCCESS,
    sc_version := (sc_version no_scan)[0 := w 0], sc_state := (sc_state no_scan)[0 := AREA_STATE_VALID]\<rparr>"
  define sc2 where "sc2 = sc1\<lparr>sc_free := (sc_free sc1)[1 := used_length (area_of S 1 c)], sc_ret := SOTP_SUCCESS,
    sc_version := (sc_version sc1)[1 := w 1], sc_state := (sc_state sc1)[1 := AREA_STATE_VALID]\<rparr>"
  have fl1: "on_flash S s1 c" "quiet s1" "min_prog_size s1 = 8"
    using fl quiet min by (simp_all add: s1_def on_flash_def quiet_def)
  have eq: "init_areas [0, 1] no_scan s = init_areas [] sc2 s2"
    unfolding init_mastered [OF fl _ quiet min w [of 0], of "[1]" no_scan, simplified zero_less_numeral True_implies_equals]
      s1_def [symmetric] sc1_def [symmetric] s2_def sc2_def
    by (rule init_mastered [OF fl1(1) _ fl1(2,3) w]) simp_all
  have fl2: "on_flash S s2 c" "min_prog_size s2 = 8" "offset_by_type s2 = replicate SOTP_MAX_TYPES 0" "free_space_offset s2 = 16"
    using fl min tab by (simp_all add: s2_def s1_def on_flash_def)
  have sc: "sc_state sc2 = [AREA_STATE_VALID, AREA_STATE_VALID]" "sc_version sc2 ! a = v" "sc_version sc2 ! (1 - a) = v0"
    "sc_free sc2 ! a = used_length (area_of S a c)" "sc_ret sc2 = SOTP_SUCCESS"
    using a by (elim area_cases; simp add: sc2_def sc1_def w_def)+
  have "cells (device s2) = c" using fl2(1) by (simp add: on_flash_def)
  then have "scanned_two S a v s2 sc2" using v0 by (simp only: scanned_two_def sc)
  then have "scanned S N m s2 sc2"
    using scannedI [OF fl2(1-3) sc(5) room a v fl2(4) r sc(4)] by blast
  moreover have "device s2 = device s" by (simp add: s2_def s1_def)
  ultimately show "run_ok s (init_areas [0, 1] no_scan s) (\<lambda>r s'. \<exists>sc. r = Inr sc \<and> scanned S N m s' sc) C"
    unfolding eq by (auto intro!: run_ok_returns)
qed

lemma scan_ok:
  assumes "on_flash S s c" "recoverable S N c m" "min_prog_size s = 8" "offset_by_type s = replicate SOTP_MAX_TYPES 0"
    "active_area_version s \<le> N"
  shows "run_ok s (init_areas [0, 1] no_scan s) (\<lambda>r s'. \<exists>sc. r = Inr sc \<and> scanned S N m s' sc)
    (\<lambda>c'. recoverable S N c' m)"
proof -
  have room: "room S m" using assms(2) by (simp add: recoverable_def)
  from assms(2) consider "m = (\<lambda>_. None)" "unmastered (area_of S 0 c)" "unmastered (area_of S 1 c)"
    | a v where "a < 2" "1 \<le> v" "v \<le> N" "readable S (area_of S a c) v m" "unmastered (area_of S (1 - a) c)"
    | a v v0 where "a < 2" "1 \<le> v" "v \<le> N" "readable S (area_of S a c) v m"
        "mastered (area_of S (1 - a) c) v0" "supersedes a v v0"
    unfolding recoverable_def by blast
  then show ?thesis
  proof cases
    case 1
    then show ?thesis using scan_none_ok [OF assms(1,3,4,5)] room by simp
  next
    case 2
    from scan_one_ok [OF assms(1,3,4) 2(1,2,3) room 2(4,5)] show ?thesis .
  next
    case 3
    from scan_two_ok [OF assms(1,3,4) 3(1,2,3) room 3(4,5,6)] show ?thesis .
  qed
qed


section \<open>The whole initialisation\<close>

lemma start_traversal:
  assumes "on_flash S s c" "min_prog_size s = 8" "offset_by_type s = replicate SOTP_MAX_TYPES 0" "free_space_offset s = 16"
    "active_area s = a" "active_area_version s = v" "a < 2" "1 \<le> v" "v \<le> N" "v < 65535" "area_of S (1 - a) c = blank S"
    "readable S (area_of S a c) v m" "room S m"
  obtains items rest where "traversing S N s [] items rest" "contents items = m"
proof -
  have c: "cells (device s) = c" using assms(1) by (simp add: on_flash_def)
  obtain items rest where i: "area_of S a c = master_image v @ items_image items @ rest" "\<forall>i \<in> set items. item_ok i"
    "contents items = m" "rest \<noteq> []" "rest = blank (length rest) \<or> damaged_at (area_of S a c) (16 + length (items_image items))"
    using assms(12) unfolding readable_def by blast
  have e: "16 = 16 + length (items_image [])" "room S (contents ([] @ items))" using i(3) assms(13) by simp_all
  have t: "table_ok a (area_of S a c) 16 (replicate SOTP_MAX_TYPES 0) (contents [])" unfolding contents_snoc(1) by (rule table_ok_empty)
  have "traversing S N s [] items rest"
    unfolding traversing_def Let_def c assms(3-6) append_Nil using assms i e t unfolding append_Nil by blast
  with i(3) that show thesis by blast
qed

lemma init_end_ok:
  "sotp_inv S N (s\<lparr>init_done := True\<rparr>) m \<Longrightarrow> ret = SOTP_SUCCESS \<Longrightarrow>
   run_ok s (init_end ret s) (\<lambda>ret s'. ret = SOTP_SUCCESS \<and> sotp_inv S N s' m) C"
  unfolding init_end_def by (rule run_ok_returns) simp_all

definition init_rest :: "init_scan \<Rightarrow> sotp \<Rightarrow> sotp_result sotp_run" where
  "init_rest sc s =
     followed_by (choose_area sc s)
       (\<lambda>(chosen, s2). case chosen of
            Inl ret \<Rightarrow> init_end ret s2
          | Inr sc \<Rightarrow> followed_by (traverse_records (sc_free sc ! active_area s2) (sc_ret sc) s2)
              (\<lambda>(ret, s3). init_end ret s3))"

lemma traverse_to_end:
  assumes fl: "on_flash S s c" "min_prog_size s = 8" "offset_by_type s = replicate SOTP_MAX_TYPES 0" "free_space_offset s = 16"
    "active_area s = a" "active_area_version s = v" "a < 2" "1 \<le> v" "v \<le> N" "v < 65535" "area_of S (1 - a) c = blank S"
    "readable S (area_of S a c) v m" "room S m" and lim: "limit = used_length (area_of S a c)"
  shows "run_ok s (followed_by (traverse_records limit SOTP_SUCCESS s) (\<lambda>(ret, s3). init_end ret s3))
    (\<lambda>ret s'. ret = SOTP_SUCCESS \<and> sotp_inv S (Suc N) s' m) (\<lambda>c'. recoverable S (Suc N) c' m)"
proof -
  obtain items rest where t: "traversing S N s [] items rest" and m: "contents items = m"
    using start_traversal [OF fl] .
  have c: "cells (device s) = c" using fl(1) by (simp add: on_flash_def)
  have "run_ok s (traverse_records limit SOTP_SUCCESS s)
      (\<lambda>ret s'. ret = SOTP_SUCCESS \<and> sotp_inv S (Suc N) (s'\<lparr>init_done := True\<rparr>) m) (\<lambda>c'. recoverable S (Suc N) c' m)"
    using traverse_ok [OF t, of limit SOTP_SUCCESS] lim m by (simp add: c fl(5))
  then show ?thesis
    by (rule run_ok_followed_by) (auto intro: init_end_ok)
qed

lemma init_rest_one:
  assumes sc: "scanned_one S a v s sc" "sc_ret sc = SOTP_SUCCESS" "sc_free sc ! a = used_length (area_of S a c)"
    and fl: "on_flash S s c" "min_prog_size s = 8" "offset_by_type s = replicate SOTP_MAX_TYPES 0" "free_space_offset s = 16"
    "a < 2" "1 \<le> v" "v \<le> N" "v < 65535" "readable S (area_of S a c) v m" "room S m"
  shows "run_ok s (init_rest sc s) (\<lambda>ret s'. ret = SOTP_SUCCESS \<and> sotp_inv S (Suc N) s' m) (\<lambda>c'. recoverable S (Suc N) c' m)"
proof -
  have c: "cells (device s) = c" using fl(1) by (simp add: on_flash_def)
  note sc1 = sc(1) [unfolded scanned_one_def c]
  have "choose_area sc s = Returns (Inr sc, s)"
    using sc1 fl(5) by (elim area_cases) (simp_all add: choose_area_def)
  then have eq: "init_rest sc s =
      followed_by (traverse_records (sc_free sc ! a) SOTP_SUCCESS s) (\<lambda>(ret, s3). init_end ret s3)"
    using sc1 sc(2) by (simp add: init_rest_def)
  show ?thesis
    unfolding eq using sc1 by (intro traverse_to_end [OF fl(1-4) _ _ fl(5-8) _ fl(9,10) sc(3)]) simp_all
qed

lemma init_rest_two:
  assumes sc: "scanned_two S a v s sc" "sc_ret sc = SOTP_SUCCESS" "sc_free sc ! a = used_length (area_of S a c)"
    and fl: "on_flash S s c" "min_prog_size s = 8" "offset_by_type s = replicate SOTP_MAX_TYPES 0" "free_space_offset s = 16"
    "a < 2" "1 \<le> v" "v \<le> N" "v < 65535" "readable S (area_of S a c) v m" "room S m"
  shows "run_ok s (init_rest sc s) (\<lambda>ret s'. ret = SOTP_SUCCESS \<and> sotp_inv S (Suc N) s' m) (\<lambda>c'. recoverable S (Suc N) c' m)"
proof -
  have c: "cells (device s) = c" "length c = 2 * S" using fl(1) by (simp_all add: on_flash_def)
  have b: "1 - a < 2" "1 - (1 - a) = a" using fl(5) by (auto elim: area_cases)
  note sc1 = sc(1) [unfolded scanned_two_def c]
  define s1 where "s1 = s\<lparr>active_area := a, active_area_version := v\<rparr>"
  have fl1: "on_flash S s1 c" using fl(1) by (simp add: s1_def on_flash_def)
  have "(if sc_version sc ! 1 < sc_version sc ! 0 \<or> sc_version sc ! 0 = 0 then 0 else 1) = a"
    using sc1 fl(5) by (elim area_cases) (auto simp: supersedes_def)
  then have eq: "choose_area sc s = followed_by (sotp_flash_erase_area (1 - a) s1)
      (\<lambda>(pal_ret, s2). Returns (if pal_ret \<noteq> PAL_SUCCESS then Inl SOTP_WRITE_ERROR else Inr sc, s2))"
    using sc1 by (simp add: choose_area_def s1_def Let_def del: One_nat_def)
  have cut: "recoverable S (Suc N) c' m" if t: "torn ((1 - a) * S) (blank S) c c'" for c'
  proof (rule recoverable_readable)
    have "8 \<le> S" using room_16 [OF fl(10)] by simp
    note e = torn_erase [OF c(2) b(1) this t]
    show "length c' = 2 * S" "room S m" "a < 2" "1 \<le> v" "v \<le> Suc N" by (rule e(1) fl)+ (use fl(7) in simp)
    show "readable S (area_of S a c') v m" using e(2) fl(9) unfolding b(2) by simp
    show "unmastered (area_of S (1 - a) c') \<or> (\<exists>v0. mastered (area_of S (1 - a) c') v0 \<and> supersedes a v v0)"
      using e(3) sc1 by blast
  qed
  have erase: "run_ok s1 (sotp_flash_erase_area (1 - a) s1)
      (\<lambda>ret s'. ret = PAL_SUCCESS \<and> left_with S s1 (overwrite c ((1 - a) * S) (blank S)) s') (\<lambda>c'. recoverable S (Suc N) c' m)"
    using erase_area_ok [OF fl1 b(1)] cut by (elim run_ok_mono) auto
  have "run_ok s1 (choose_area sc s)
      (\<lambda>chosen s'. chosen = Inr sc \<and> left_with S s1 (overwrite c ((1 - a) * S) (blank S)) s') (\<lambda>c'. recoverable S (Suc N) c' m)"
    unfolding eq by (rule run_ok_followed_by [OF erase]) (auto intro!: run_ok_returns)
  moreover have "device s1 = device s" by (simp add: s1_def)
  ultimately have chosen: "run_ok s (choose_area sc s)
      (\<lambda>chosen s'. chosen = Inr sc \<and> left_with S s1 (overwrite c ((1 - a) * S) (blank S)) s') (\<lambda>c'. recoverable S (Suc N) c' m)"
    by (rule run_ok_device [rotated])
  show ?thesis
    unfolding init_rest_def
  proof (rule run_ok_followed_by [OF chosen], clarify)
    fix s2
    assume l: "left_with S s1 (overwrite c ((1 - a) * S) (blank S)) s2"
    note f = left_with_fields [OF l] left_with_on_flash [OF l]
    note e = erased(1,2) [OF c(2) b(1)]
    have act: "active_area s2 = a" by (simp add: f s1_def)
    have "run_ok s2 (followed_by (traverse_records (sc_free sc ! a) SOTP_SUCCESS s2) (\<lambda>(ret, s3). init_end ret s3))
        (\<lambda>ret s'. ret = SOTP_SUCCESS \<and> sotp_inv S (Suc N) s' m) (\<lambda>c'. recoverable S (Suc N) c' m)"
      using fl e(2) unfolding b(2)
      by (intro traverse_to_end [OF f(9) _ _ _ act _ fl(5-8) e(1)]) (simp_all add: f s1_def sc)
    then show "run_ok s2 (case Inr sc of
            Inl ret \<Rightarrow> init_end ret s2
          | Inr sc \<Rightarrow> followed_by (traverse_records (sc_free sc ! active_area s2) (sc_ret sc) s2)
              (\<lambda>(ret, s3). init_end ret s3))
      (\<lambda>ret s'. ret = SOTP_SUCCESS \<and> sotp_inv S (Suc N) s' m) (\<lambda>c'. recoverable S (Suc N) c' m)"
      by (simp add: act sc(2))
  qed
qed

lemma master_alone:
  assumes "16 < S" "v < 65536"
  shows "stored S (overwrite (blank S) 0 (master_image v)) v (\<lambda>_. None) 16"
proof -
  have "overwrite (blank S) 0 (master_image v) = master_image v @ items_image [] @ blank (S - 16)"
    by (simp add: overwrite_def)
  then show ?thesis unfolding stored_def using assms by (intro conjI exI [of _ "[]"]) simp_all
qed

lemma first_master_cut:
  assumes c: "length c = 2 * S" "area_of S 0 c = blank S" "area_of S 1 c = blank S" and room: "room S (\<lambda>_. None)"
    and t: "torn (0 * S) (master_image 1) c c'"
  shows "recoverable S (Suc N) c' (\<lambda>_. None)"
proof -
  have S: "16 < S" using room by (simp add: room_def stored_size_def)
  have other: "area_of S 1 (overwrite c (0 * S + 0) new) = area_of S 1 c" "area_of S 0 (overwrite c (0 * S + 0) new) = overwrite (blank S) 0 new"
      "length (overwrite c (0 * S + 0) new) = 2 * S"
    if "0 + length new \<le> S" for new
    using area_of_overwrite_other [OF c(1) _ _ _ that, of 0 1] area_of_overwrite [OF c(1) _ that, of 0] that c(1,2) by simp_all
  have u: "unmastered (blank S)" using S by (intro unmastered_blank) simp
  from t show ?thesis
  proof (rule torn_master)
    assume "c' = c"
    then show ?thesis using c u room by (simp add: recoverable_def)
  next
    let ?h = "sotp_header_bytes (record_header SOTP_MASTER_RECORD_TYPE (master_data 1))"
    assume "c' = overwrite c (0 * S) ?h"
    then have c': "c' = overwrite c (0 * S + 0) ?h" by simp
    have fits: "0 + length ?h \<le> S" using S by simp
    have "blank S = blank 8 @ blank 8 @ blank (S - 16)" using S by (simp add: replicate_add [symmetric])
    then have "overwrite (blank S) 0 ?h = ?h @ blank 8 @ blank (S - 16)" by (simp add: overwrite_def)
    then have "unmastered (overwrite (blank S) 0 ?h)"
      by (intro unmastered_torn [of _ 1] master_tear_detected) simp_all
    then show ?thesis
      unfolding c' recoverable_def other [OF fits] using c u room by simp
  next
    assume "c' = overwrite c (0 * S) (master_image 1)"
    then have c': "c' = overwrite c (0 * S + 0) (master_image 1)" by simp
    have fits: "0 + length (master_image 1) \<le> S" using S by simp
    show ?thesis
      unfolding c'
    proof (rule recoverable_readable [of _ _ _ 0 1])
      show "readable S (area_of S 0 (overwrite c (0 * S + 0) (master_image 1))) 1 (\<lambda>_. None)"
        unfolding other [OF fits] by (rule stored_readable [OF master_alone [OF S]]) simp
      show "unmastered (area_of S (1 - 0) (overwrite c (0 * S + 0) (master_image 1))) \<or>
        (\<exists>v0. mastered (area_of S (1 - 0) (overwrite c (0 * S + 0) (master_image 1))) v0 \<and> supersedes 0 1 v0)"
        using other(1) [OF fits] c(3) u by simp
    qed (use other(3) [OF fits] room in simp_all)
  qed
qed

lemma init_rest_none:
  assumes sc: "scanned_none S N s sc" and fl: "on_flash S s c" "min_prog_size s = 8"
    "offset_by_type s = replicate SOTP_MAX_TYPES 0" "room S (\<lambda>_. None)"
  shows "run_ok s (init_rest sc s) (\<lambda>ret s'. ret = SOTP_SUCCESS \<and> sotp_inv S (Suc N) s' (\<lambda>_. None))
    (\<lambda>c'. recoverable S (Suc N) c' (\<lambda>_. None))"
proof -
  have S: "16 < S" using fl(4) by (simp add: room_def stored_size_def)
  have c: "cells (device s) = c" "length c = 2 * S" using fl(1) by (simp_all add: on_flash_def)
  have b: "area_of S 0 c = blank S" "area_of S 1 c = blank S" "active_area_version s \<le> N"
    "sc_state sc = [AREA_STATE_EMPTY, AREA_STATE_EMPTY]"
    using sc by (simp_all add: scanned_none_def c)
  define s1 where "s1 = s\<lparr>active_area := 0\<rparr>"
  let ?c = "overwrite c (0 * S + 0) (master_image 1)"
  have fl1: "on_flash S s1 c" "min_prog_size s1 = 8" "device s1 = device s" using fl by (simp_all add: s1_def on_flash_def)
  have fits: "0 + length (master_image 1) \<le> S" using S by simp
  have areas: "area_of S 0 ?c = overwrite (blank S) 0 (master_image 1)" "area_of S 1 ?c = blank S"
    using area_of_overwrite_other [OF c(2) _ _ _ fits, of 0 1] area_of_overwrite [OF c(2) _ fits, of 0] b by simp_all
  have written: "run_ok s1 (write_master_record 0 1 s1)
      (\<lambda>(ret, next_offset) s'. ret = SOTP_SUCCESS \<and> next_offset = 16 \<and> left_with S s1 ?c s')
      (\<lambda>c'. recoverable S (Suc N) c' (\<lambda>_. None))"
    by (rule run_ok_mono [OF write_master_ok [OF fl1(1) _ fl1(2)] _ first_master_cut [OF c(2) b(1,2) fl(4)]])
       (use S in auto)
  have eq: "choose_area sc s = followed_by (write_master_record 0 1 s1)
      (\<lambda>((ret, next_offset), s1). Returns (Inl ret, if ret = SOTP_SUCCESS then s1\<lparr>free_space_offset := next_offset\<rparr> else s1))"
    by (simp add: choose_area_def b(4) s1_def)
  have inv: "sotp_inv S (Suc N) ((s2\<lparr>free_space_offset := 16\<rparr>)\<lparr>init_done := True\<rparr>) (\<lambda>_. None)" if l: "left_with S s1 ?c s2" for s2
  proof -
    note f = left_with_fields [OF l] left_with_on_flash [OF l]
    have "stored S (area_of S 0 ?c) 1 (\<lambda>_. None) 16" unfolding areas(1) by (rule master_alone [OF S]) simp
    moreover have "on_flash S (s2\<lparr>free_space_offset := 16\<rparr>) ?c" using f(9) by (simp add: on_flash_def)
    ultimately show ?thesis
      using fl b(3) areas(2) by (intro sotp_invI [of S _ ?c 0 _ _ 1]) (simp_all add: f s1_def table_ok_empty)
  qed
  have "run_ok s1 (choose_area sc s) (\<lambda>chosen s'. chosen = Inl SOTP_SUCCESS \<and> sotp_inv S (Suc N) (s'\<lparr>init_done := True\<rparr>) (\<lambda>_. None))
      (\<lambda>c'. recoverable S (Suc N) c' (\<lambda>_. None))"
    unfolding eq by (rule run_ok_followed_by [OF written]) (clarify, rule run_ok_returns, use inv in simp_all)
  from run_ok_device [OF fl1(3) this]
  have chosen: "run_ok s (choose_area sc s) (\<lambda>chosen s'. chosen = Inl SOTP_SUCCESS \<and> sotp_inv S (Suc N) (s'\<lparr>init_done := True\<rparr>) (\<lambda>_. None))
      (\<lambda>c'. recoverable S (Suc N) c' (\<lambda>_. None))" .
  show ?thesis
    unfolding init_rest_def by (rule run_ok_followed_by [OF chosen]) (auto intro: init_end_ok)
qed

lemma init_rest_ok:
  assumes "scanned S N m s sc" "N < 65535"
  shows "run_ok s (init_rest sc s) (\<lambda>ret s'. ret = SOTP_SUCCESS \<and> sotp_inv S (Suc N) s' m) (\<lambda>c'. recoverable S (Suc N) c' m)"
proof -
  have f: "on_flash S s (cells (device s))" "min_prog_size s = 8" "offset_by_type s = replicate SOTP_MAX_TYPES 0"
    "sc_ret sc = SOTP_SUCCESS" "room S m"
    using assms(1) by (simp_all add: scanned_def)
  from assms(1) consider "m = (\<lambda>_. None)" "scanned_none S N s sc"
    | a v where "a < 2" "1 \<le> v" "v \<le> N" "free_space_offset s = 16" "readable S (area_of S a (cells (device s))) v m"
        "sc_free sc ! a = used_length (area_of S a (cells (device s)))" "scanned_one S a v s sc \<or> scanned_two S a v s sc"
    unfolding scanned_def by blast
  then show ?thesis
  proof cases
    case 1
    with init_rest_none [OF 1(2) f(1-3)] f(5) show ?thesis by simp
  next
    case 2
    then have "v < 65535" using assms(2) by simp
    with init_rest_one [OF _ f(4) 2(6) f(1-3) 2(4,1,2,3) _ 2(5) f(5)]
      init_rest_two [OF _ f(4) 2(6) f(1-3) 2(4,1,2,3) _ 2(5) f(5)] 2(7)
    show ?thesis by blast
  qed
qed

lemma sotp_init_ok:
  assumes fl: "on_flash S s c" and r: "recoverable S N c m" and s: "\<not> init_done s" "active_area_version s \<le> N" and N: "N < 65535"
  shows "run_ok s (sotp_init s) (\<lambda>ret s'. ret = SOTP_SUCCESS \<and> sotp_inv S (Suc N) s' m) (\<lambda>c'. recoverable S (Suc N) c' m)"
proof -
  let ?s = "init_variables s"
  have page: "page_size (geometry s) = 8" using fl by (simp add: on_flash_def simulated_def)
  have fl1: "on_flash S ?s c" "min_prog_size ?s = 8" "offset_by_type ?s = replicate SOTP_MAX_TYPES 0" "active_area_version ?s \<le> N"
      "device ?s = device s"
    using fl s page by (simp_all add: init_variables_def on_flash_def)
  have areas: "[0..<SOTP_NUM_AREAS] = [0, 1]" by (simp add: upt_rec)
  have eq: "sotp_init s = followed_by (init_areas [0, 1] no_scan ?s)
      (\<lambda>(scanned, s1). case scanned of Inl ret \<Rightarrow> init_end ret s1 | Inr sc \<Rightarrow> init_rest sc s1)"
    unfolding sotp_init_def init_rest_def areas using s(1) page by simp
  have first: "run_ok ?s (init_areas [0, 1] no_scan ?s) (\<lambda>r s'. \<exists>sc. r = Inr sc \<and> scanned S N m s' sc)
      (\<lambda>c'. recoverable S (Suc N) c' m)"
    using scan_ok [OF fl1(1) r fl1(2-4)] by (elim run_ok_mono) (auto elim: recoverable_mono)
  have "run_ok ?s (sotp_init s) (\<lambda>ret s'. ret = SOTP_SUCCESS \<and> sotp_inv S (Suc N) s' m) (\<lambda>c'. recoverable S (Suc N) c' m)"
    unfolding eq by (rule run_ok_followed_by [OF first]) (auto intro: init_rest_ok [OF _ N])
  then show ?thesis by (rule run_ok_device [OF fl1(5)])
qed

end
