(* ===== verification/Sotp_Api.thy ===== *)
theory Sotp_Api
  imports Sotp_Init
begin

text \<open>
  The operations of the storage: what they return and leave behind on every branch, and that a power cut leaves the
  items as they were before the operation or as they are behind it.
\<close>

section \<open>Another record at the end of the log\<close>

lemma stored_append:
  assumes "stored S A v m limit" "item_ok i" "limit + length (item_image i) < S"
  shows "stored S (overwrite A limit (item_image i)) v (m(fst i := snd i)) (limit + length (item_image i))"
proof -
  obtain items where items: "A = master_image v @ items_image items @ blank (S - limit)" "limit = 16 + length (items_image items)"
    "\<forall>i \<in> set items. item_ok i" "contents items = m" and v: "v < 65536"
    using assms(1) by (auto simp: stored_def)
  have "overwrite A limit (item_image i) =
      master_image v @ items_image (items @ [i]) @ blank (S - (limit + length (item_image i)))"
    using assms(3) unfolding items(1,2) by (simp add: overwrite_def)
  then show ?thesis
    unfolding stored_def using assms(2,3) items v by (intro conjI exI [of _ "items @ [i]"]) simp_all
qed

lemma stored_torn:
  assumes st: "stored S A v m limit" and i: "item_ok i" "limit + length (item_image i) < S"
    and tear: "tear_detected (item_flags i) (item_data i)"
    and A': "A' = overwrite A limit (take (8 * k) (item_image i))"
  shows "readable S A' v m \<or> readable S A' v (m(fst i := snd i))"
proof -
  obtain items where items: "A = master_image v @ items_image items @ blank (S - limit)" "limit = 16 + length (items_image items)"
    "\<forall>i \<in> set items. item_ok i" "contents items = m" and v: "v < 65536" and lim: "limit < S"
    using st by (auto simp: stored_def)
  let ?pre = "master_image v @ items_image items" and ?t = "take (8 * k) (item_image i)"
  have pre: "length ?pre = limit" using items(2) by simp
  have eq: "A' = ?pre @ ?t @ blank (S - limit - length ?t)"
    unfolding A' items(1) items(2) by (simp add: overwrite_def)
  have n: "length (record_image (item_flags i) (item_data i)) \<le> S - limit" using i(2) by (simp add: item_image_def)
  have len: "length A' = S" using eq lim i(2) items(2) by simp
  have before: "readable S A' v m" if "A' = ?pre @ rest" "rest \<noteq> []" "rest = blank (length rest) \<or> damaged_at A' limit" for rest
    unfolding readable_def using that len v items by (intro conjI exI [of _ items] exI [of _ rest]) simp_all
  from torn_record [OF eq [unfolded item_image_def] item_flags_ok(6,5) [OF i(1)] tear n]
  show ?thesis
  proof (elim disjE)
    assume "A' = ?pre @ blank (S - limit)"
    from before [OF this] lim show ?thesis by simp
  next
    let ?rest = "blank (S - limit - length (item_image i))"
    assume "A' = ?pre @ record_image (item_flags i) (item_data i) @
      blank (S - limit - length (record_image (item_flags i) (item_data i)))"
    then have "A' = master_image v @ items_image (items @ [i]) @ ?rest" by (simp add: item_image_def)
    then have "readable S A' v (m(fst i := snd i))"
      unfolding readable_def using len v items i by (intro conjI exI [of _ "items @ [i]"] exI [of _ ?rest]) simp_all
    then show ?thesis ..
  next
    assume d: "damaged_at A' (length ?pre)"
    have "0 < length (?t @ blank (S - limit - length ?t))" using lim unfolding length_append length_replicate by linarith
    then have "?t @ blank (S - limit - length ?t) \<noteq> []" by (simp only: length_greater_0_conv) blast
    from before [OF eq this] d pre show ?thesis by simp
  qed
qed


section \<open>The facts of the invariant\<close>

lemma sotp_inv_facts:
  assumes "sotp_inv S N s m"
  shows "on_flash S s (cells (device s))" "init_done s" "active_area s < 2" "min_prog_size s = 8" "room S m"
    "active_area_version s \<le> N" "area_of S (1 - active_area s) (cells (device s)) = blank S"
    "table_ok (active_area s) (area_of S (active_area s) (cells (device s))) (free_space_offset s) (offset_by_type s) m"
    "\<exists>v. 1 \<le> v \<and> v \<le> N \<and> stored S (area_of S (active_area s) (cells (device s))) v m (free_space_offset s) \<and>
       (v = active_area_version s \<or> v = 1 \<and> active_area s = 0)"
  using assms unfolding sotp_inv_def Let_def by blast+

lemma sotp_inv_sizes:
  assumes "sotp_inv S N s m"
  shows "length (cells (device s)) = 2 * S" "S < 2 ^ 30" "free_space_offset s mod 8 = 0" "16 \<le> free_space_offset s"
    "free_space_offset s < S"
proof -
  note f = sotp_inv_facts [OF assms]
  obtain items where i: "free_space_offset s = 16 + length (items_image items)" "free_space_offset s < S"
    using f(9) unfolding stored_def by blast
  then show "free_space_offset s mod 8 = 0" "16 \<le> free_space_offset s" "free_space_offset s < S"
    by (simp_all add: mod_add_eq [symmetric])
  show "length (cells (device s)) = 2 * S" "S < 2 ^ 30" using f(1) area_places(8) [OF f(1,3)] by (simp_all add: on_flash_def)
qed


section \<open>Reading\<close>

lemma get_loop_ok:
  assumes inv: "sotp_inv S N s m" and quiet: "quiet s" and t: "t < SOTP_MAX_TYPES"
  shows "get_loop (Suc n) t buf_len validate_only s = Returns (case m t of
      None \<Rightarrow> (SOTP_NOT_FOUND, 0, [])
    | Some data \<Rightarrow>
        if \<not> validate_only \<and> buf_len < length data then (SOTP_BUFF_TOO_SMALL, length data, [])
        else (SOTP_SUCCESS, length data, if validate_only then [] else data), s)"
proof -
  note f = sotp_inv_facts [OF inv]
  note g = sotp_inv_sizes [OF inv]
  let ?c = "cells (device s)"
  show ?thesis
  proof (cases "m t")
    case None
    with table_okD(1) [OF f(8) t] show ?thesis by (simp add: Let_def)
  next
    case (Some data)
    obtain off where off: "offset_by_type s ! t = record_location (active_area s) off" "16 \<le> off" "off mod 8 = 0"
      "record_at (area_of S (active_area s) ?c) off t data" "off + length (record_image t data) \<le> free_space_offset s"
      using table_okD(2) [OF f(8) t Some] unfolding entry_ok_def by (elim exE conjE) (rule that)
    have "(2 :: nat) ^ 30 < 2 ^ 31" by simp
    then have small: "off < 2 ^ 31" using off(5) g(2,5) by linarith
    have "record_location (active_area s) off \<noteq> 0" using off(2) small f(3) by (intro record_location_pos) simp_all
    moreover have "known_type t" using t by (simp add: known_type_def)
    ultimately show ?thesis
      using Some read_record_present [OF f(1,3) quiet f(4) off(3,4), of buf_len validate_only]
      by (simp add: Let_def off(1) location_of_record [OF small f(3)])
  qed
qed

lemma do_get_ok:
  assumes inv: "sotp_inv S N s m" and quiet: "quiet s" and t: "t < SOTP_MAX_TYPES" and "aligned \<or> \<not> has_buf \<or> buf_len = 0"
  shows "sotp_do_get t buf_len has_buf aligned validate_only s = Returns (case m t of
      None \<Rightarrow> (SOTP_NOT_FOUND, 0, [])
    | Some data \<Rightarrow>
        if \<not> validate_only \<and> (if has_buf then buf_len else 0) < length data then (SOTP_BUFF_TOO_SMALL, length data, [])
        else (SOTP_SUCCESS, length data, if validate_only then [] else data), s)"
proof -
  have "init_done s" by (rule sotp_inv_facts [OF inv])
  then show ?thesis
    using assms(3,4) get_loop_ok [OF inv quiet t, of "length (read_errors (device s))" _ validate_only]
    by (auto simp: sotp_do_get_def Let_def)
qed

section \<open>Writing\<close>

lemma room_mono:
  assumes "room S m" "\<And>t. t < SOTP_MAX_TYPES \<Longrightarrow> stored_size m' t \<le> stored_size m t"
  shows "room S m'"
proof -
  have "(\<Sum>t < SOTP_MAX_TYPES. stored_size m' t) \<le> (\<Sum>t < SOTP_MAX_TYPES. stored_size m t)"
    using assms(2) by (intro sum_mono) simp
  then show ?thesis using assms(1) by (simp add: room_def)
qed

lemma room_delete: "room S m \<Longrightarrow> room S (m(t := None))"
  by (erule room_mono) (simp add: stored_size_def)

lemma room_empty: "room S m \<Longrightarrow> m t \<noteq> None \<Longrightarrow> room S (m(t \<mapsto> []))"
  by (erule room_mono) (auto simp: stored_size_def length_record_image)

lemma tear_detected_empty: "tear_detected tf []"
  by (simp add: tear_detected_def)

lemma append_ok:
  assumes inv: "sotp_inv S N s m" and i: "item_ok (t, v)" and tear: "tear_detected (item_flags (t, v)) (item_data (t, v))"
    and fits: "free_space_offset s + length (item_image (t, v)) < S" and room: "room S (m(t := v))"
    and flags: "item_flags (t, v) = t OR flags" "item_data (t, v) = data"
  defines "next \<equiv> free_space_offset s + length (item_image (t, v))"
  shows "run_ok s (followed_by (write_record (active_area s) (free_space_offset s) t flags (length data) data (s\<lparr>free_space_offset := next\<rparr>))
      (\<lambda>((ret, _), s3). if ret \<noteq> SOTP_SUCCESS then Returns (ret, s3) else Returns (SOTP_SUCCESS, set_location t
         (if v = None then 0 else record_location (active_area s3) (free_space_offset s)) s3)))
    (\<lambda>ret s'. ret = SOTP_SUCCESS \<and> sotp_inv S N s' (m(t := v)))
    (\<lambda>c. recoverable S N c m \<or> recoverable S N c (m(t := v)))"
proof -
  let ?s = "s\<lparr>free_space_offset := next\<rparr>" and ?a = "active_area s" and ?fso = "free_space_offset s" and ?c = "cells (device s)"
  let ?i = "item_image (t, v)"
  define entry where "entry = (if v = None then 0 else record_location ?a ?fso)"
  let ?A = "area_of S ?a ?c" and ?c' = "overwrite ?c (?a * S + ?fso) ?i"
  note f = sotp_inv_facts [OF inv] and g = sotp_inv_sizes [OF inv]
  obtain w where w: "1 \<le> w" "w \<le> N" "stored S ?A w m ?fso" "w = active_area_version s \<or> w = 1 \<and> ?a = 0"
    using f(9) by blast
  have b: "1 - ?a < 2" "?a \<noteq> 1 - ?a" using f(3) by (auto elim: area_cases)
  have img: "record_image (t OR flags) data = ?i" by (simp only: item_image_def flags)
  have fl: "on_flash S ?s ?c" "min_prog_size ?s = 8" using f(1,4) by (simp_all add: on_flash_def)
  have le: "?fso + length ?i \<le> S" using fits by simp
  have areas: "area_of S ?a (overwrite ?c (?a * S + ?fso) new) = overwrite ?A ?fso new"
      "area_of S (1 - ?a) (overwrite ?c (?a * S + ?fso) new) = blank S" "length (overwrite ?c (?a * S + ?fso) new) = 2 * S"
    if "?fso + length new \<le> S" for new
  proof -
    show "area_of S ?a (overwrite ?c (?a * S + ?fso) new) = overwrite ?A ?fso new" by (rule area_of_overwrite [OF g(1) f(3) that])
    show "area_of S (1 - ?a) (overwrite ?c (?a * S + ?fso) new) = blank S"
      using area_of_overwrite_other [OF g(1) f(3) b(1) _ that] b(2) f(7) by simp
    have "?a * S + ?fso + length new \<le> length ?c" using that area_places(3) [OF f(1,3)] by linarith
    then show "length (overwrite ?c (?a * S + ?fso) new) = 2 * S" using g(1) by simp
  qed
  have torn: "recoverable S N c m \<or> recoverable S N c (m(t := v))" if tr: "torn (?a * S + ?fso) ?i ?c c" for c
  proof -
    obtain k where k: "c = overwrite ?c (?a * S + ?fso) (take (8 * k) ?i)" using tr by (auto simp: torn_def)
    have le': "?fso + length (take (8 * k) ?i) \<le> S" using le by simp
    note ar = areas [OF le', folded k]
    have "8 \<le> S" using g(4,5) by simp
    then have u: "unmastered (area_of S (1 - ?a) c)" unfolding ar(2) by (rule unmastered_blank)
    from stored_torn [OF w(3) i fits tear ar(1)]
    show ?thesis using recoverable_readable [OF ar(3) _ f(3) w(1,2)] u room f(5) by auto
  qed
  have written: "run_ok ?s (write_record ?a ?fso t flags (length data) data ?s)
      (\<lambda>(ret, next_offset) s'. ret = SOTP_SUCCESS \<and> left_with S ?s ?c' s')
      (\<lambda>c. recoverable S N c m \<or> recoverable S N c (m(t := v)))"
    by (rule run_ok_mono [OF write_record_ok [OF fl(1) f(3) fl(2) g(3) order_refl _ ] _ torn])
       (use le img in \<open>auto\<close>)
  have inv_after: "sotp_inv S N (set_location t entry s3) (m(t := v))" if l: "left_with S ?s ?c' s3" for s3
  proof -
    note h = left_with_fields [OF l] left_with_on_flash [OF l]
    let ?s3 = "set_location t entry s3"
    have sel: "on_flash S ?s3 ?c'" "active_area ?s3 = ?a" "min_prog_size ?s3 = 8" "active_area_version ?s3 = active_area_version s"
      "free_space_offset ?s3 = next" "offset_by_type ?s3 = (offset_by_type s)[t := entry]" "init_done ?s3"
      using h(9) f(2,4) by (simp_all add: set_location_def on_flash_def h)
    have st: "stored S (overwrite ?A ?fso ?i) w (m(t := v)) next"
      using stored_append [OF w(3) i fits] by (simp add: next_def)
    have len: "?fso + length ?i \<le> length ?A" "?fso + length ?i \<le> next" using le g(1) f(3) by (simp_all add: next_def)
    have t: "t < SOTP_MAX_TYPES" using i by (simp add: item_ok_def)
    have "case v of None \<Rightarrow> entry = 0 | Some d \<Rightarrow> entry_ok ?a (overwrite ?A ?fso ?i) next entry t d"
    proof (cases v)
      case (Some d)
      have parts: "item_flags (t, v) = t" "item_data (t, v) = d" "?i = record_image t d"
        by (simp_all add: Some item_image_def item_data_def)
      have "overwrite ?A ?fso ?i = take ?fso ?A @ record_image t d @ drop (?fso + length ?i) ?A"
        by (simp add: overwrite_def parts)
      moreover have "storable t d" using item_flags_ok(6) [OF i] unfolding parts .
      ultimately have "record_at (overwrite ?A ?fso ?i) (length (take ?fso ?A)) t d" by (rule record_at_append)
      then have "record_at (overwrite ?A ?fso ?i) ?fso t d" using len by simp
      then have "entry_ok ?a (overwrite ?A ?fso ?i) next (record_location ?a ?fso) t d"
        unfolding entry_ok_def using g(3,4) by (intro exI [of _ ?fso]) (simp add: next_def parts)
      then show ?thesis using Some by (simp add: entry_def)
    qed (simp add: entry_def)
    then have "table_ok ?a (overwrite ?A ?fso ?i) next ((offset_by_type s)[t := entry]) (m(t := v))"
      using table_ok_overwrite [OF f(8) order_refl len(1), of "next"] t by (intro table_ok_update) (simp_all add: next_def)
    from sotp_invI [OF sel(1) refl, unfolded sel(2-6) areas [OF le], OF f(3) refl room f(6) refl w(1,2) st w(4) this] sel(7)
    show ?thesis by simp
  qed
  have inv': "sotp_inv S N (set_location t (if v = None then 0 else record_location (active_area s3) ?fso) s3) (m(t := v))"
    if "left_with S ?s ?c' s3" for s3
  proof -
    have "active_area s3 = ?a" using left_with_fields(4) [OF that] by simp
    then show ?thesis using inv_after [OF that] by (simp only: entry_def)
  qed
  have "run_ok ?s (followed_by (write_record ?a ?fso t flags (length data) data ?s)
      (\<lambda>((ret, _), s3). if ret \<noteq> SOTP_SUCCESS then Returns (ret, s3) else Returns (SOTP_SUCCESS, set_location t
         (if v = None then 0 else record_location (active_area s3) (free_space_offset s)) s3)))
    (\<lambda>ret s'. ret = SOTP_SUCCESS \<and> sotp_inv S N s' (m(t := v)))
    (\<lambda>c. recoverable S N c m \<or> recoverable S N c (m(t := v)))"
  proof (rule run_ok_followed_by [OF written], clarify)
    fix s3
    assume "left_with S ?s ?c' s3"
    from inv' [OF this] show "run_ok s3 (if SOTP_SUCCESS \<noteq> SOTP_SUCCESS then Returns (SOTP_SUCCESS, s3)
        else Returns (SOTP_SUCCESS, set_location t (if v = None then 0 else record_location (active_area s3) ?fso) s3))
      (\<lambda>ret s'. ret = SOTP_SUCCESS \<and> sotp_inv S N s' (m(t := v)))
      (\<lambda>c. recoverable S N c m \<or> recoverable S N c (m(t := v)))"
      unfolding not_True_eq_False simp_thms if_False by (intro run_ok_returns) (simp_all add: set_location_def)
  qed
  then show ?thesis by (rule run_ok_device [rotated]) simp
qed

lemma record_size_eq:
  assumes "length data < 65536"
  shows "pad_addr (HEADER_SIZE + length data) 8 = length (record_image tf data)"
proof -
  have "pad_addr (8 + length data) 8 = (8 + length data + 7) div 8 * 8" using assms by (intro pad_addr_8) simp_all
  also have "8 + length data + 7 = length data + 7 + 8" by simp
  also have "(length data + 7 + 8) div 8 * 8 = 8 + (length data + 7) div 8 * 8" by (simp only: div_add_self2) simp
  finally show ?thesis by (simp only: length_record_image)
qed

text \<open>
  A record that still fits is appended; when the area is full the collection writes the data, and forgets that the
  item was to be deleted.
\<close>

definition set_fits :: "nat \<Rightarrow> sotp \<Rightarrow> log_item \<Rightarrow> bool" where
  "set_fits S s i \<longleftrightarrow> free_space_offset s + length (item_image i) < S"

definition new_contents :: "nat \<Rightarrow> sotp \<Rightarrow> log_item \<Rightarrow> (nat \<rightharpoonup> bytes) \<Rightarrow> nat \<rightharpoonup> bytes" where
  "new_contents S s i m = m(fst i := (if set_fits S s i then snd i else Some (item_data i)))"

lemma do_set_eq:
  assumes inv: "sotp_inv S N s m" and i: "item_ok (t, v)" and flags: "flags = (if v = None then DELETE_ITEM_FLAG else 0)"
    and there: "v \<noteq> None \<or> m t \<noteq> None" and al: "aligned \<or> item_data (t, v) = []"
  defines "next \<equiv> free_space_offset s + length (item_image (t, v))" and "data \<equiv> item_data (t, v)"
  shows "sotp_do_set t (length data) v aligned ignore_otp flags s =
    (if set_fits S s (t, v)
     then followed_by (write_record (active_area s) (free_space_offset s) t flags (length data) data (s\<lparr>free_space_offset := next\<rparr>))
       (\<lambda>((ret, _), s3). if ret \<noteq> SOTP_SUCCESS then Returns (ret, s3) else Returns (SOTP_SUCCESS, set_location t
          (if v = None then 0 else record_location (active_area s3) (free_space_offset s)) s3))
     else sotp_garbage_collection t (length data) data (s\<lparr>free_space_offset := next\<rparr>))"
proof -
  note f = sotp_inv_facts [OF inv] and g = sotp_inv_sizes [OF inv]
  let ?a = "active_area s" and ?fso = "free_space_offset s" and ?i = "item_image (t, v)"
  have t: "t < SOTP_MAX_TYPES" "u8_wrap t = t" and len: "length data < 65536"
    using i by (simp_all add: item_ok_def data_def wrap_simps)
  have size: "pad_addr (HEADER_SIZE + length data) 8 = length ?i"
    unfolding record_size_eq [OF len, of "item_flags (t, v)"] by (simp add: item_image_def data_def)
  have "(length data + 7) div 8 * 8 \<le> length data + 7" by (rule div_times_less_eq_dividend)
  moreover have "length ?i = 8 + (length data + 7) div 8 * 8" by (simp only: item_image_def length_record_image data_def)
  ultimately have "length ?i < 2 ^ 17" using len by simp
  moreover have "(2 :: nat) ^ 17 + 2 ^ 30 < 2 ^ 32" by simp
  ultimately have small: "?fso + length ?i < 2 ^ 32" "?fso < 2 ^ 30" using g(2,5) by linarith+
  then have wraps: "u32_wrap (?fso + length ?i) = next" "u32_wrap (next + 0x100000000 - length ?i) = ?fso"
    by (simp_all add: u32_wrap_def next_def)
  have pad: "pad_addr ?fso 8 = ?fso"
  proof -
    obtain q where q: "?fso = 8 * q" using g(3) by (auto simp: mod_eq_0_iff_dvd)
    have "pad_addr ?fso 8 = (?fso + 7) div 8 * 8" using g(4) small(2) by (intro pad_addr_8) simp_all
    then show ?thesis unfolding q by simp
  qed
  have lens: "(if v = None then 0 else length data) = length data" "(case v of None \<Rightarrow> [] | Some bs \<Rightarrow> bs) = data"
    by (cases v; simp add: data_def item_data_def)+
  have limit: "area_limit s ?a = S" by (rule area_places(2) [OF f(1,3)])
  have entry: "offset_by_type s ! t \<noteq> 0" if none: "v = None"
  proof -
    obtain d where "m t = Some d" using there none by auto
    from table_okD(2) [OF f(8) t(1) this] obtain off where "offset_by_type s ! t = record_location ?a off" "16 \<le> off"
      "off + length (record_image t d) \<le> ?fso"
      unfolding entry_ok_def by (elim exE conjE) (rule that)
    with small(2) f(3) show ?thesis by (simp add: record_location_pos)
  qed
  have del: "(flags AND DELETE_ITEM_FLAG \<noteq> 0) = (v = None)" using flags by simp
  have sel: "active_area (s\<lparr>free_space_offset := next\<rparr>) = ?a" "area_limit (s\<lparr>free_space_offset := next\<rparr>) ?a = S"
    "min_prog_size (s\<lparr>free_space_offset := next\<rparr>) = 8"
    using limit f(4) by (simp_all add: area_limit_def)
  have fit: "(S \<le> next) = (\<not> set_fits S s (t, v))" by (simp add: set_fits_def next_def not_less)
  have no: "(0 < length data \<and> \<not> aligned) = False" "(v = None \<and> offset_by_type s ! t = 0) = False"
    using al entry by (cases v; auto simp: data_def)+
  show ?thesis
    using g(5) t
    unfolding sotp_do_set_def eqTrueI [OF f(2)] if_True followed_by.simps split_conv Let_def lens f(4) size wraps sel del pad fit no
    by (simp add: sotp_is_otp_type_def)
qed

lemma collection_done_init:
  assumes "collection_done S a m version s s'"
  shows "init_done s' = init_done s"
proof -
  have e: "s' = s\<lparr>device := device s', offset_by_type := offset_by_type s', active_area := 1 - a,
       active_area_version := version, free_space_offset := free_space_offset s'\<rparr>"
    using assms unfolding collection_done_def by blast
  show ?thesis by (subst e) simp
qed

lemma collect_item_ok:
  assumes inv: "sotp_inv S N s m" and t: "t < SOTP_MAX_TYPES" "length data < 65536" and room: "room S (m(t \<mapsto> data))" and N: "N < 65535"
  shows "run_ok s (sotp_garbage_collection t (length data) data (s\<lparr>free_space_offset := n\<rparr>))
    (\<lambda>ret s'. ret = SOTP_SUCCESS \<and> sotp_inv S (Suc N) s' (m(t \<mapsto> data)))
    (\<lambda>c. recoverable S (Suc N) c m \<or> recoverable S (Suc N) c (m(t \<mapsto> data)))"
proof -
  note f = sotp_inv_facts [OF inv] and g = sotp_inv_sizes [OF inv]
  let ?a = "active_area s" and ?c = "cells (device s)" and ?w = "active_area_version s" and ?s = "s\<lparr>free_space_offset := n\<rparr>"
  let ?A = "area_of S ?a ?c"
  obtain v where v: "1 \<le> v" "v \<le> N" "stored S ?A v m (free_space_offset s)" "v = ?w \<or> v = 1 \<and> ?a = 0"
    using f(9) by blast
  have "table_ok ?a (overwrite ?A S []) S (offset_by_type s) m"
    using g f(3) by (intro table_ok_overwrite [OF f(8)]) simp_all
  then have "gc_ready S ?s ?c ?a m"
    using f master_tear_detected [of "?w + 1"] N by (simp add: gc_ready_def on_flash_def)
  from collect_new_ok [OF this room t order_refl, of data]
  have "run_ok ?s (sotp_garbage_collection t (length data) data ?s)
    (\<lambda>ret s'. ret = SOTP_SUCCESS \<and> collection_done S ?a (m(t \<mapsto> data)) (?w + 1) ?s s')
    (collected S ?a ?A (m(t \<mapsto> data)) (?w + 1))" by simp
  then have "run_ok ?s (sotp_garbage_collection t (length data) data ?s)
    (\<lambda>ret s'. ret = SOTP_SUCCESS \<and> sotp_inv S (Suc N) s' (m(t \<mapsto> data)))
    (\<lambda>c. recoverable S (Suc N) c m \<or> recoverable S (Suc N) c (m(t \<mapsto> data)))"
  proof (rule run_ok_mono)
    fix ret s'
    assume "ret = SOTP_SUCCESS \<and> collection_done S ?a (m(t \<mapsto> data)) (?w + 1) ?s s'"
    then have d: "ret = SOTP_SUCCESS" "collection_done S ?a (m(t \<mapsto> data)) (?w + 1) ?s s'" by simp_all
    have "sotp_inv S (Suc N) (s'\<lparr>init_done := True\<rparr>) (m(t \<mapsto> data))"
      using f by (intro collection_done_inv [OF d(2) _ _ room]) simp_all
    then show "ret = SOTP_SUCCESS \<and> sotp_inv S (Suc N) s' (m(t \<mapsto> data))"
      using d(1) collection_done_init [OF d(2)] f(2) by simp
  next
    fix c
    assume c: "collected S ?a ?A (m(t \<mapsto> data)) (?w + 1) c"
    have "supersedes (1 - ?a) (?w + 1) v" using v(1,4) by (auto simp: supersedes_def)
    then show "recoverable S (Suc N) c m \<or> recoverable S (Suc N) c (m(t \<mapsto> data))"
      using v(1,2) f(6) by (intro collected_recoverable [OF c f(3) stored_readable [OF v(3)] f(5) room v(1)]) simp_all
  qed
  then show ?thesis by (rule run_ok_device [rotated]) simp
qed

lemma do_set_ok:
  assumes inv: "sotp_inv S N s m" and i: "item_ok (t, v)" and flags: "flags = (if v = None then DELETE_ITEM_FLAG else 0)"
    and there: "v \<noteq> None \<or> m t \<noteq> None" and al: "aligned \<or> item_data (t, v) = []"
    and tear: "tear_detected (item_flags (t, v)) (item_data (t, v))" and N: "N < 65535"
    and room: "room S (new_contents S s (t, v) m)"
  shows "run_ok s (sotp_do_set t (length (item_data (t, v))) v aligned ignore_otp flags s)
    (\<lambda>ret s'. ret = SOTP_SUCCESS \<and> sotp_inv S (Suc N) s' (new_contents S s (t, v) m))
    (\<lambda>c. recoverable S (Suc N) c m \<or> recoverable S (Suc N) c (new_contents S s (t, v) m))"
proof (cases "set_fits S s (t, v)")
  case True
  then have new: "new_contents S s (t, v) m = m(t := v)" by (simp add: new_contents_def)
  have fits: "free_space_offset s + length (item_image (t, v)) < S" using True by (simp add: set_fits_def)
  have fl: "item_flags (t, v) = t OR flags" using flags by (cases v) simp_all
  from append_ok [OF inv i tear fits room [unfolded new] fl refl]
  have "run_ok s (sotp_do_set t (length (item_data (t, v))) v aligned ignore_otp flags s)
    (\<lambda>ret s'. ret = SOTP_SUCCESS \<and> sotp_inv S N s' (m(t := v)))
    (\<lambda>c. recoverable S N c m \<or> recoverable S N c (m(t := v)))"
    unfolding do_set_eq [OF inv i flags there al] if_P [OF True] .
  moreover have "sotp_inv S (Suc N) s' x" if "sotp_inv S N s' x" for s' x using that by (rule sotp_inv_mono) simp
  moreover have "recoverable S (Suc N) c x" if "recoverable S N c x" for c x using that by (rule recoverable_mono) simp
  ultimately show ?thesis unfolding new by (elim run_ok_mono) blast+
next
  case False
  then have new: "new_contents S s (t, v) m = m(t \<mapsto> item_data (t, v))" by (simp add: new_contents_def)
  have t: "t < SOTP_MAX_TYPES" "length (item_data (t, v)) < 65536" using i by (simp_all add: item_ok_def)
  from collect_item_ok [OF inv t room [unfolded new] N] show ?thesis
    unfolding do_set_eq [OF inv i flags there al] if_not_P [OF False] new .
qed

end
