(* ===== verification/Crash_Safe_Store.thy ===== *)
theory Crash_Safe_Store
  imports Flash_Pal
begin

text \<open>
  The interface of a store that survives power cuts, and what its clients may rely on: a sequence of writes in
  which any write, and any start after it, is cut off loses none of the writes that returned.
\<close>

section \<open>Sequences of writes with power cuts\<close>

text \<open>
  A write of an item, the flash events during it, and the events of the starts that follow when it is cut off. After
  these the power stays.
\<close>

record put_step =
  put_key :: nat
  put_data :: bytes
  put_events :: "flash_event list"
  boot_events :: "flash_event list list"

fun restart :: "(flash_event list \<Rightarrow> bytes \<Rightarrow> 'st outcome) \<Rightarrow> flash_event list list \<Rightarrow> bytes \<Rightarrow> 'st outcome" where
  "restart boot [] c = boot [] c"
| "restart boot (es # ess) c = (case boot es c of Power_Lost c' \<Rightarrow> restart boot ess c' | r \<Rightarrow> r)"

text \<open>The steps one after another; of each, whether the write returned.\<close>

fun run_puts ::
  "(flash_event list \<Rightarrow> nat \<Rightarrow> bytes \<Rightarrow> 'st \<Rightarrow> 'st outcome) \<Rightarrow> (flash_event list \<Rightarrow> bytes \<Rightarrow> 'st outcome) \<Rightarrow>
   put_step list \<Rightarrow> 'st \<Rightarrow> (bool list \<times> 'st) outcome" where
  "run_puts put boot [] s = Returns ([], s)"
| "run_puts put boot (p # ps) s =
     (case put (put_events p) (put_key p) (put_data p) s of
        Stuck \<Rightarrow> Stuck
      | Power_Lost c \<Rightarrow> followed_by (restart boot (boot_events p) c)
          (\<lambda>s'. followed_by (run_puts put boot ps s') (\<lambda>(flags, s''). Returns (False # flags, s'')))
      | Returns s' \<Rightarrow> followed_by (run_puts put boot ps s') (\<lambda>(flags, s''). Returns (True # flags, s'')))"

text \<open>The contents behind the steps, when those marked in a list take effect.\<close>

fun put_some :: "put_step list \<Rightarrow> bool list \<Rightarrow> (nat \<rightharpoonup> bytes) \<Rightarrow> (nat \<rightharpoonup> bytes)" where
  "put_some (p # ps) (b # bs) m = put_some ps bs (if b then m(put_key p \<mapsto> put_data p) else m)"
| "put_some _ _ m = m"

text \<open>Every step can be taken: its data can be stored, and there is room whichever steps take effect.\<close>

fun steps_ok :: "(nat \<Rightarrow> bytes \<Rightarrow> bool) \<Rightarrow> ((nat \<rightharpoonup> bytes) \<Rightarrow> bool) \<Rightarrow> (flash_event list \<Rightarrow> bool) \<Rightarrow> put_step list \<Rightarrow> (nat \<rightharpoonup> bytes) \<Rightarrow> bool" where
  "steps_ok item fits fair [] m \<longleftrightarrow> True"
| "steps_ok item fits fair (p # ps) m \<longleftrightarrow>
     item (put_key p) (put_data p) \<and> fits (m(put_key p \<mapsto> put_data p)) \<and> fair (put_events p) \<and> list_all fair (boot_events p) \<and>
     steps_ok item fits fair ps m \<and> steps_ok item fits fair ps (m(put_key p \<mapsto> put_data p))"

definition step_cost :: "put_step list \<Rightarrow> nat" where
  "step_cost ps = sum_list (map (\<lambda>p. 2 + length (boot_events p)) ps)"


section \<open>The interface\<close>

locale crash_safe_store =
  fixes inv :: "nat \<Rightarrow> 'st \<Rightarrow> (nat \<rightharpoonup> bytes) \<Rightarrow> bool"
    and left :: "nat \<Rightarrow> bytes \<Rightarrow> (nat \<rightharpoonup> bytes) \<Rightarrow> bool"
    and put :: "flash_event list \<Rightarrow> nat \<Rightarrow> bytes \<Rightarrow> 'st \<Rightarrow> 'st outcome"
    and boot :: "flash_event list \<Rightarrow> bytes \<Rightarrow> 'st outcome"
    and fair :: "flash_event list \<Rightarrow> bool"
    and item :: "nat \<Rightarrow> bytes \<Rightarrow> bool"
    and fits :: "(nat \<rightharpoonup> bytes) \<Rightarrow> bool"
    and bound :: nat
  assumes put_atomic: "\<lbrakk>inv n s m; fair es; item t d; fits (m(t \<mapsto> d)); n < bound\<rbrakk> \<Longrightarrow>
      (\<exists>s'. put es t d s = Returns s' \<and> inv (Suc n) s' (m(t \<mapsto> d))) \<or>
      (\<exists>c. put es t d s = Power_Lost c \<and> (left (Suc n) c m \<or> left (Suc n) c (m(t \<mapsto> d))))"
    and boot_recovers: "\<lbrakk>left n c m; fair es; n < bound\<rbrakk> \<Longrightarrow>
      (\<exists>s'. boot es c = Returns s' \<and> inv (Suc n) s' m) \<or> (\<exists>c'. boot es c = Power_Lost c' \<and> left (Suc n) c' m)"
    and boot_uncut: "\<lbrakk>left n c m; n < bound\<rbrakk> \<Longrightarrow> \<exists>s'. boot [] c = Returns s' \<and> inv (Suc n) s' m"
begin

lemma restart_recovers:
  "\<lbrakk>left n c m; list_all fair ess; n + length ess < bound\<rbrakk> \<Longrightarrow>
   \<exists>s' n'. restart boot ess c = Returns s' \<and> inv n' s' m \<and> n' \<le> n + 1 + length ess"
proof (induction ess arbitrary: n c)
  case Nil
  with boot_uncut [OF Nil.prems(1)] show ?case by auto
next
  case (Cons es ess)
  then have "fair es" "n < bound" by simp_all
  from boot_recovers [OF Cons.prems(1) this] show ?case
  proof (elim disjE exE conjE)
    fix s' assume "boot es c = Returns s'" "inv (Suc n) s' m"
    then show ?thesis by auto
  next
    fix c' assume c': "boot es c = Power_Lost c'" "left (Suc n) c' m"
    with Cons.IH [OF c'(2)] Cons.prems(2,3) show ?thesis by auto
  qed
qed

lemma puts_survive:
  "\<lbrakk>inv n s m; steps_ok item fits fair ps m; n + step_cost ps < bound\<rbrakk> \<Longrightarrow>
   \<exists>flags s' chosen n'. run_puts put boot ps s = Returns (flags, s') \<and> length chosen = length ps \<and>
     list_all2 (\<longrightarrow>) flags chosen \<and> inv n' s' (put_some ps chosen m) \<and> n' \<le> n + step_cost ps"
proof (induction ps arbitrary: n s m)
  case Nil
  then show ?case by (auto simp: step_cost_def)
next
  case (Cons p ps)
  let ?m = "m(put_key p \<mapsto> put_data p)"
  have ok: "fair (put_events p)" "item (put_key p) (put_data p)" "fits ?m" "list_all fair (boot_events p)"
    "steps_ok item fits fair ps m" "steps_ok item fits fair ps ?m" "n < bound"
    using Cons.prems(2,3) by simp_all
  have cost: "step_cost (p # ps) = 2 + length (boot_events p) + step_cost ps" by (simp add: step_cost_def)
  have either: "\<exists>b. left k c (if b then y else x)" if "left k c x \<or> left k c y" for k c x y
    using that by (metis (full_types))
  from put_atomic [OF Cons.prems(1) ok(1-3,7)]
  consider s1 where "put (put_events p) (put_key p) (put_data p) s = Returns s1" "inv (Suc n) s1 ?m"
    | c b where "put (put_events p) (put_key p) (put_data p) s = Power_Lost c" "left (Suc n) c (if b then ?m else m)"
    using either by blast
  then show ?case
  proof cases
    case s1: 1
    have "Suc n + step_cost ps < bound" using Cons.prems(3) cost by simp
    from Cons.IH [OF s1(2) ok(6) this]
    obtain flags s' chosen n' where r: "run_puts put boot ps s1 = Returns (flags, s')" "length chosen = length ps"
      "list_all2 (\<longrightarrow>) flags chosen" "inv n' s' (put_some ps chosen ?m)" "n' \<le> Suc n + step_cost ps" by blast
    then show ?thesis
      using s1(1) cost
      by (intro exI [of _ "True # flags"] exI [of _ s'] exI [of _ "True # chosen"] exI [of _ n']) simp
  next
    case c: 2
    have steps: "steps_ok item fits fair ps (if b then ?m else m)" using ok(5,6) by simp
    obtain s1 n1 where s1: "restart boot (boot_events p) c = Returns s1" "inv n1 s1 (if b then ?m else m)"
      "n1 \<le> Suc n + 1 + length (boot_events p)"
      using restart_recovers [OF c(2) ok(4)] Cons.prems(3) cost by auto
    have "n1 + step_cost ps < bound" using Cons.prems(3) cost s1(3) by simp
    from Cons.IH [OF s1(2) steps this]
    obtain flags s' chosen n' where r: "run_puts put boot ps s1 = Returns (flags, s')" "length chosen = length ps"
      "list_all2 (\<longrightarrow>) flags chosen" "inv n' s' (put_some ps chosen (if b then ?m else m))" "n' \<le> n1 + step_cost ps"
      by blast
    then show ?thesis
      using c(1) s1 cost
      by (intro exI [of _ "False # flags"] exI [of _ s'] exI [of _ "b # chosen"] exI [of _ n']) simp
  qed
qed

end

end
