(* ===== verification/Sotp_Properties.thy ===== *)
theory Sotp_Properties
  imports Sotp_Api Crash_Safe_Store
begin

text \<open>
  The properties of the storage, on a flash of two areas of S bytes that are one sector each, with pages of 8 bytes.
  The contents is a partial map from types to data. Fewer than 100 writes fail in an operation, so that one of the
  100 attempts of a write works, and no read fails.
\<close>

section \<open>What a run leaves behind\<close>

definition left_behind ::
  "('a \<times> sotp) outcome \<Rightarrow> ('a \<Rightarrow> sotp \<Rightarrow> bool) \<Rightarrow> (bytes \<Rightarrow> bool) \<Rightarrow> bool" where
  "left_behind m Q C \<longleftrightarrow> (case m of Stuck \<Rightarrow> False | Power_Lost c \<Rightarrow> C c | Returns (r, s') \<Rightarrow> Q r s')"

lemma run_ok_left_behind:
  assumes "run_ok s m Q C" "quiet s"
  shows "left_behind m (\<lambda>r s'. read_errors (device s') = [] \<and> Q r s') (\<lambda>c. \<not> cut_free (device s) \<and> C c)"
proof -
  have "ends m (\<lambda>(r, s'). script_after (device s) (device s') \<and> Q r s') (\<lambda>c. \<not> cut_free (device s) \<and> C c)"
    using assms by (simp add: run_ok_def)
  then show ?thesis using assms(2) by (cases m) (auto simp: left_behind_def quiet_def script_after_def)
qed

lemma left_behind_mono:
  "left_behind m Q C \<Longrightarrow> (\<And>r s'. Q r s' \<Longrightarrow> Q' r s') \<Longrightarrow> (\<And>c. C c \<Longrightarrow> C' c) \<Longrightarrow> left_behind m Q' C'"
  by (cases m) (auto simp: left_behind_def)

text \<open>An item that can be stored: the checksum tells when a part of it has been written.\<close>

definition item_storable :: "nat \<Rightarrow> bytes \<Rightarrow> bool" where
  "item_storable t data \<longleftrightarrow> t < SOTP_MAX_TYPES \<and> length data < 65536 \<and> tear_detected t data"

lemma set_ok:
  assumes "sotp_inv S N s m" "item_storable t data" "room S (m(t \<mapsto> data))" "N < 65535"
  shows "run_ok s (sotp_set t (length data) (Some data) True s)
    (\<lambda>ret s'. ret = SOTP_SUCCESS \<and> sotp_inv S (Suc N) s' (m(t \<mapsto> data)))
    (\<lambda>c. recoverable S (Suc N) c m \<or> recoverable S (Suc N) c (m(t \<mapsto> data)))"
proof -
  have i: "item_data (t, Some data) = data" "item_flags (t, Some data) = t" "item_ok (t, Some data)"
    using assms(2) by (simp_all add: item_data_def item_ok_def item_storable_def)
  have new: "new_contents S s (t, Some data) m = m(t \<mapsto> data)" by (simp add: new_contents_def i)
  from do_set_ok [OF assms(1) i(3), of 0 True False] assms(2-4) show ?thesis
    unfolding new by (simp add: i sotp_set_def item_storable_def)
qed

lemma delete_ok:
  assumes "sotp_inv S N s m" "t < SOTP_MAX_TYPES" "m t \<noteq> None" "N < 65535"
  defines "m' \<equiv> m(t := (if set_fits S s (t, None) then None else Some []))"
  shows "run_ok s (sotp_delete t s) (\<lambda>ret s'. ret = SOTP_SUCCESS \<and> sotp_inv S (Suc N) s' m')
    (\<lambda>c. recoverable S (Suc N) c m \<or> recoverable S (Suc N) c m')"
proof -
  have i: "item_data (t, None) = []" "item_ok (t, None)" using assms(2) by (simp_all add: item_data_def item_ok_def)
  have new: "new_contents S s (t, None) m = m'" by (simp add: new_contents_def i m'_def)
  have "room S m" by (rule sotp_inv_facts [OF assms(1)])
  then have "room S m'" using room_delete room_empty assms(3) by (simp add: m'_def)
  with do_set_ok [OF assms(1) i(2), of DELETE_ITEM_FLAG True True] assms(3,4) tear_detected_empty show ?thesis
    unfolding new by (simp add: i sotp_delete_def)
qed

section \<open>A failed collection\<close>

lemma write_header_fails:
  assumes fl: "on_flash S s c" and b: "b < 2" and off: "off mod 8 = 0" "off + 8 \<le> S" and h: "length h = 8"
    and d: "cells d = c" "events d = Fails 0 # es"
  shows "pal_internalFlashWrite (geometry s) 8 (b * S + off) h d = Returns (PAL_ERR_FS_ERROR, d\<lparr>events := es\<rparr>)"
proof -
  note places = area_places [OF fl b]
  have geo: "page_size (geometry s) = 8" "sector_size (geometry s) = S" using fl by (auto simp: on_flash_def simulated_def)
  have al: "(b * S + off) mod 8 = 0" "(b * S + off) mod 4 = 0"
  proof -
    show "(b * S + off) mod 8 = 0" using off(1) places(5) by (simp add: mod_add_eq [symmetric])
    then show "(b * S + off) mod 4 = 0" by presburger
  qed
  have "off < S" using off(2) by simp
  then have sector: "\<not> S < (b * S + off) mod S + 8" using places(4) off(2) by simp
  have "write_cells (geometry s) (b * S + off) h d = Returns (PAL_ERR_FS_ERROR, d\<lparr>events := es\<rparr>)"
    using places(3) off(2) h d by (auto simp: write_cells_def)
  then show ?thesis
    using geo al sector places(7) h
    by (simp add: pal_internalFlashWrite_def write_sectors.simps pal_programToFlashAligned_def rd_block_def Let_def
        plat_write_cells)
qed

lemma retry_fails:
  assumes "0 < n" "\<And>d es. cells d = c \<Longrightarrow> events d = Fails 0 # es \<Longrightarrow> f d = Returns (PAL_ERR_FS_ERROR, d\<lparr>events := es\<rparr>)"
  shows "cells d = c \<Longrightarrow> events d = replicate n (Fails 0) @ es \<Longrightarrow> retry n f d = Returns (PAL_ERR_FS_ERROR, d\<lparr>events := es\<rparr>)"
  using assms(1)
proof (induction n arbitrary: d)
  case (Suc n)
  have "f d = Returns (PAL_ERR_FS_ERROR, d\<lparr>events := replicate n (Fails 0) @ es\<rparr>)"
    using Suc.prems by (intro assms(2)) simp_all
  then show ?case
    using Suc.IH [of "d\<lparr>events := replicate n (Fails 0) @ es\<rparr>"] Suc.prems
    by (cases n) (simp_all add: retry.simps [of "Suc _"])
qed simp

lemma write_record_fails:
  assumes fl: "on_flash S s c" and b: "b < 2" and min: "min_prog_size s = 8" and off: "off mod 8 = 0" "off + 8 \<le> S"
    and ev: "events (device s) = replicate 100 (Fails 0) @ es"
  shows "write_record b off t flags (length data) data s =
    Returns ((SOTP_WRITE_ERROR, 0), s\<lparr>device := (device s)\<lparr>events := es\<rparr>\<rparr>)"
proof -
  have c: "cells (device s) = c" using fl by (simp add: on_flash_def)
  let ?h = "sotp_header_bytes (record_header (t OR flags) data)"
  have "retry 100 (pal_internalFlashWrite (geometry s) 8 (b * S + off) ?h) (device s) =
      Returns (PAL_ERR_FS_ERROR, (device s)\<lparr>events := es\<rparr>)"
    by (rule retry_fails [OF _ _ c ev]) (auto intro: write_header_fails [OF fl b off])
  then have "sotp_flash_write_area b off 8 ?h s = Returns (PAL_ERR_FS_ERROR, s\<lparr>device := (device s)\<lparr>events := es\<rparr>\<rparr>)"
    by (simp add: sotp_flash_write_area_def with_device_def area_places(1) [OF fl b])
  then show ?thesis by (simp add: write_record_def rd_block_def min)
qed

lemma set_fails:
  assumes inv: "sotp_inv S N s m" and i: "item_ok (t, Some data)" and full: "\<not> set_fits S s (t, Some data)"
    and ev: "events (device s) = replicate 100 (Fails 0) @ es"
  shows "sotp_set t (length data) (Some data) True s =
    Returns (SOTP_WRITE_ERROR, s\<lparr>free_space_offset := free_space_offset s + length (item_image (t, Some data)),
      device := (device s)\<lparr>events := es\<rparr>\<rparr>)"
proof -
  note f = sotp_inv_facts [OF inv] and g = sotp_inv_sizes [OF inv]
  let ?s = "s\<lparr>free_space_offset := free_space_offset s + length (item_image (t, Some data))\<rparr>"
  have data: "item_data (t, Some data) = data" by (simp add: item_data_def)
  have t: "t < SOTP_MAX_TYPES" using i by (simp add: item_ok_def)
  have "S mod 128 = 0" using f(1) by (simp add: on_flash_def simulated_def)
  then have S: "16 + 8 \<le> S" using g(4,5) by presburger
  have fl: "on_flash S ?s (cells (device s))" "min_prog_size ?s = 8" "events (device ?s) = replicate 100 (Fails 0) @ es"
    using f(1,4) ev by (simp_all add: on_flash_def)
  have b: "1 - active_area s < 2" using f(3) by simp
  have "sotp_do_set t (length data) (Some data) True False 0 s = sotp_garbage_collection t (length data) data ?s"
    using do_set_eq [OF inv i, of 0 True False] full by (simp add: data)
  moreover have "pad_addr (8 + 8) 8 = 16" by (simp add: pad_addr_8)
  ultimately show ?thesis
    using write_record_fails [OF fl(1) b fl(2) _ S fl(3), of t 0 data] t fl(2)
    by (simp add: sotp_set_def sotp_garbage_collection_def Let_def)
qed

lemma set_past_end:
  assumes "init_done s" "min_prog_size s = 8" "area_limit s (active_area s) \<le> free_space_offset s" "free_space_offset s < 2 ^ 31"
    and "t < SOTP_MAX_TYPES" "length data < 65536"
  shows "sotp_set t (length data) (Some data) True s = Stuck"
proof -
  have size: "pad_addr (HEADER_SIZE + length data) (min_prog_size s) = length (record_image t data)"
    unfolding assms(2) by (rule record_size_eq [OF assms(6)])
  have "(length data + 7) div 8 * 8 \<le> length data + 7" by (rule div_times_less_eq_dividend)
  then have small: "length (record_image t data) < 2 ^ 17" unfolding length_record_image using assms(6) by simp
  let ?n = "free_space_offset s + length (record_image t data)"
  have wraps: "u32_wrap ?n = ?n" "u32_wrap (free_space_offset s + 0x100000000) = free_space_offset s"
    using small assms(4) by (simp_all add: u32_wrap_def)
  have limit: "area_limit (s\<lparr>free_space_offset := ?n\<rparr>) (active_area s) = area_limit s (active_area s)"
    by (simp add: area_limit_def)
  show ?thesis
    unfolding sotp_set_def sotp_do_set_def eqTrueI [OF assms(1)] if_True followed_by.simps split_conv Let_def
    using assms(3,5) by (simp add: size wraps limit sotp_is_otp_type_def)
qed

section \<open>A store that survives power cuts\<close>

definition two_areas :: "nat \<Rightarrow> flash_geometry" where
  "two_areas S = \<lparr>page_size = 8, sector_size = S, area_address = [0, S], area_size = [S, S]\<rparr>"

text \<open>The variables of the program when it starts.\<close>

definition sotp_booted :: "flash_geometry \<Rightarrow> flash_event list \<Rightarrow> bytes \<Rightarrow> sotp" where
  "sotp_booted geo es c =
     \<lparr>geometry = geo, page_buf_granted = True, page_buf = False,
      device = \<lparr>cells = c, events = es, read_errors = []\<rparr>, init_done = False, active_area = 0, active_area_version = 0,
      free_space_offset = 0, offset_by_type = replicate SOTP_MAX_TYPES 0, min_prog_size = 0\<rparr>"

text \<open>A call during which the flash has the events es, and which is expected to succeed.\<close>

definition with_events :: "flash_event list \<Rightarrow> sotp \<Rightarrow> sotp" where
  "with_events es s = s\<lparr>device := (device s)\<lparr>events := es\<rparr>\<rparr>"

definition successful :: "sotp_result sotp_run \<Rightarrow> sotp outcome" where
  "successful m = followed_by m (\<lambda>(ret, s'). if ret = SOTP_SUCCESS then Returns s' else Stuck)"

definition sotp_put :: "flash_event list \<Rightarrow> nat \<Rightarrow> bytes \<Rightarrow> sotp \<Rightarrow> sotp outcome" where
  "sotp_put es t data s = successful (sotp_set t (length data) (Some data) True (with_events es s))"

definition sotp_start :: "nat \<Rightarrow> flash_event list \<Rightarrow> bytes \<Rightarrow> sotp outcome" where
  "sotp_start S es c = successful (sotp_init (sotp_booted (two_areas S) es c))"

definition few_failures :: "flash_event list \<Rightarrow> bool" where
  "few_failures es \<longleftrightarrow> length (filter (\<lambda>e. \<exists>k. e = Fails k) es) < NUM_WRITE_RETRIES"

definition store_inv :: "nat \<Rightarrow> nat \<Rightarrow> sotp \<Rightarrow> (nat \<rightharpoonup> bytes) \<Rightarrow> bool" where
  "store_inv S n s m \<longleftrightarrow> sotp_inv S n s m \<and> read_errors (device s) = []"

lemma sotp_inv_events: "sotp_inv S n (with_events es s) m = sotp_inv S n s m"
  by (simp add: sotp_inv_def with_events_def on_flash_def)

lemma quiet_events: "few_failures es \<Longrightarrow> read_errors (device s) = [] \<Longrightarrow> quiet (with_events es s)"
  by (simp add: quiet_def failures_def few_failures_def with_events_def)

definition area_bytes_ok :: "nat \<Rightarrow> bool" where
  "area_bytes_ok S \<longleftrightarrow> S mod 128 = 0 \<and> 0 < S \<and> S < 2 ^ 30"

definition store_left :: "nat \<Rightarrow> nat \<Rightarrow> bytes \<Rightarrow> (nat \<rightharpoonup> bytes) \<Rightarrow> bool" where
  "store_left S n c m \<longleftrightarrow> area_bytes_ok S \<and> recoverable S n c m"

lemma booted_on_flash: "area_bytes_ok S \<Longrightarrow> length c = 2 * S \<Longrightarrow> on_flash S (sotp_booted (two_areas S) es c) c"
  by (simp add: area_bytes_ok_def on_flash_def simulated_def sotp_booted_def two_areas_def)

lemma sotp_inv_area_bytes: "sotp_inv S n s m \<Longrightarrow> area_bytes_ok S"
  by (simp add: sotp_inv_def on_flash_def simulated_def area_bytes_ok_def Let_def)

lemma successful_left:
  assumes "left_behind m (\<lambda>ret s'. E s' \<and> ret = SOTP_SUCCESS \<and> Q s') C"
  shows "(\<exists>s'. successful m = Returns s' \<and> E s' \<and> Q s') \<or> (\<exists>c. successful m = Power_Lost c \<and> C c)"
  using assms by (cases m) (auto simp: left_behind_def successful_def)

lemma start_recovers:
  assumes r: "store_left S n c m" and es: "few_failures es" "n < 65535"
  shows "(\<exists>s'. sotp_start S es c = Returns s' \<and> store_inv S (Suc n) s' m) \<or>
    (\<exists>c'. sotp_start S es c = Power_Lost c' \<and> es \<noteq> [] \<and> store_left S (Suc n) c' m)"
proof -
  let ?s = "sotp_booted (two_areas S) es c"
  have r: "recoverable S n c m" "area_bytes_ok S" using r by (simp_all add: store_left_def)
  have "length c = 2 * S" using r(1) by (simp add: recoverable_def)
  then have fl: "on_flash S ?s c" by (intro booted_on_flash r(2))
  have "\<not> init_done ?s" "active_area_version ?s \<le> n" by (simp_all add: sotp_booted_def)
  note run = sotp_init_ok [OF fl r(1) this es(2)]
  have "quiet ?s" using es(1) by (simp add: quiet_def failures_def few_failures_def sotp_booted_def)
  moreover have "cut_free (device ?s)" if "es = []" using that by (simp add: sotp_booted_def cut_free_def)
  ultimately show ?thesis
    using successful_left [OF run_ok_left_behind [OF run]] r(2) unfolding sotp_start_def store_inv_def store_left_def by blast
qed

lemma put_survives:
  assumes inv: "store_inv S n s m" and es: "few_failures es" and d: "item_storable t data" "room S (m(t \<mapsto> data))" "n < 65535"
  shows "(\<exists>s'. sotp_put es t data s = Returns s' \<and> store_inv S (Suc n) s' (m(t \<mapsto> data))) \<or>
    (\<exists>c. sotp_put es t data s = Power_Lost c \<and> (store_left S (Suc n) c m \<or> store_left S (Suc n) c (m(t \<mapsto> data))))"
proof -
  have i: "sotp_inv S n (with_events es s) m" "read_errors (device s) = []"
    using inv by (simp_all add: store_inv_def sotp_inv_events)
  from successful_left [OF run_ok_left_behind [OF set_ok [OF i(1) d] quiet_events [OF es i(2)]]] sotp_inv_area_bytes [OF i(1)]
  show ?thesis unfolding sotp_put_def store_inv_def store_left_def by blast
qed

interpretation sotp_store: crash_safe_store "store_inv S" "store_left S" sotp_put "sotp_start S"
  few_failures item_storable "room S" 65535 for S
proof unfold_locales
  fix n c m
  assume "store_left S n c m" "n < 65535"
  moreover have "few_failures []" by (simp add: few_failures_def)
  ultimately show "\<exists>s'. sotp_start S [] c = Returns s' \<and> store_inv S (Suc n) s' m"
    using start_recovers by blast
qed (use put_survives start_recovers in blast)+

text \<open>
  Property C9. Atomic writes. \<open>sotp_set\<close> returns \<open>SOTP_SUCCESS\<close> and the item has the new data, the others theirs.
  When the power is cut at any page of any write or erase in it, the collection of garbage included, the flash holds either the
  old contents or the new one.
\<close>

theorem sotp_set_atomic:
  assumes "sotp_inv S N s m" "quiet s" "item_storable t data" "room S (m(t \<mapsto> data))" "N < 65535"
  shows "left_behind (sotp_set t (length data) (Some data) True s)
    (\<lambda>ret s'. ret = SOTP_SUCCESS \<and> sotp_inv S (Suc N) s' (m(t \<mapsto> data)))
    (\<lambda>c. recoverable S (Suc N) c m \<or> recoverable S (Suc N) c (m(t \<mapsto> data)))"
  by (rule left_behind_mono [OF run_ok_left_behind [OF set_ok [OF assms(1,3-5)] assms(2)]]) simp_all

text \<open>
  Property C10. Recovery. From every content of the flash that a power cut may leave, \<open>sotp_init\<close> returns \<open>SOTP_SUCCESS\<close>
  and finds all items again; a power cut in the initialisation leaves such a content once more.
\<close>

theorem sotp_init_recovers:
  assumes "on_flash S s c" "recoverable S N c m" "\<not> init_done s" "active_area_version s \<le> N" "quiet s" "N < 65535"
  shows "left_behind (sotp_init s) (\<lambda>ret s'. ret = SOTP_SUCCESS \<and> sotp_inv S (Suc N) s' m)
    (\<lambda>c'. recoverable S (Suc N) c' m)"
  by (rule left_behind_mono [OF run_ok_left_behind [OF sotp_init_ok [OF assms(1-4,6)] assms(5)]]) simp_all

text \<open>
  Property C8. No write that returned is lost. Over any sequence of writes, each of which may be cut off at any point
  and followed by any number of starts that are cut off too, the storage always comes back, and its contents is that
  of all the writes that returned and of some of those that were cut off, in their order.
\<close>

theorem sotp_survives_power_cuts:
  assumes "store_inv S n s m" "steps_ok item_storable (room S) few_failures ps m" "n + step_cost ps < 65535"
  shows "\<exists>flags s' chosen n'. run_puts sotp_put (sotp_start S) ps s = Returns (flags, s') \<and> length chosen = length ps \<and>
    list_all2 (\<longrightarrow>) flags chosen \<and> store_inv S n' s' (put_some ps chosen m) \<and> n' \<le> n + step_cost ps"
  by (rule sotp_store.puts_survive [OF assms])

text \<open>
  Property C33. Reading. \<open>sotp_get\<close> returns exactly the data that was set last: \<open>SOTP_NOT_FOUND\<close> when there is none,
  \<open>SOTP_BUFF_TOO_SMALL\<close> and its size when the buffer is too short. The flash and the state stay as they are.
\<close>

theorem sotp_get_exact:
  assumes "sotp_inv S N s m" "quiet s" "t < SOTP_MAX_TYPES" "aligned \<or> \<not> has_buf \<or> buf_len = 0"
  shows "sotp_get t buf_len has_buf aligned s = Returns (case m t of
      None \<Rightarrow> (SOTP_NOT_FOUND, 0, [])
    | Some data \<Rightarrow>
        if (if has_buf then buf_len else 0) < length data then (SOTP_BUFF_TOO_SMALL, length data, [])
        else (SOTP_SUCCESS, length data, data), s)"
proof -
  have "u8_wrap t = t" using assms(3) by (simp add: wrap_simps)
  with do_get_ok [OF assms, of False] show ?thesis by (simp add: sotp_get_def cong: option.case_cong if_cong)
qed

text \<open>
  Property C35. Deleting. \<open>sotp_delete\<close> removes the item when its record still fits into the active area. When the area is full
  it returns \<open>SOTP_SUCCESS\<close> too, but the collection of garbage is called without the flags: the item is then there with no data.
\<close>

theorem sotp_delete_contents:
  assumes "sotp_inv S N s m" "quiet s" "t < SOTP_MAX_TYPES" "m t \<noteq> None" "N < 65535"
  shows "left_behind (sotp_delete t s)
    (\<lambda>ret s'. ret = SOTP_SUCCESS \<and>
       sotp_inv S (Suc N) s' (m(t := (if free_space_offset s + HEADER_SIZE < S then None else Some []))))
    (\<lambda>c. recoverable S (Suc N) c m \<or>
       recoverable S (Suc N) c (m(t := (if free_space_offset s + HEADER_SIZE < S then None else Some []))))"
proof -
  have "length (item_image (t, None)) = HEADER_SIZE" by (simp add: item_image_def item_data_def length_record_image)
  then have "set_fits S s (t, None) = (free_space_offset s + HEADER_SIZE < S)" by (simp add: set_fits_def)
  with run_ok_left_behind [OF delete_ok [OF assms(1,3-5)] assms(2)] show ?thesis
    by (elim left_behind_mono) simp_all
qed

text \<open>
  Property C36. After a failed collection. When the active area is full and the 100 attempts to write the record fail,
  \<open>sotp_set\<close> returns \<open>SOTP_WRITE_ERROR\<close>, but leaves the offset of the free space behind the end of the area: every
  later \<open>sotp_set\<close> waits for another thread to collect the garbage and never returns, however well the flash works by then.
\<close>

theorem sotp_set_stuck_after_failure:
  assumes "sotp_inv S N s m" "t < SOTP_MAX_TYPES" "length data < 65536" "\<not> set_fits S s (t, Some data)"
    and "events (device s) = replicate NUM_WRITE_RETRIES (Fails 0) @ es"
    and "t' < SOTP_MAX_TYPES" "length data' < 65536"
  shows "\<exists>s'. sotp_set t (length data) (Some data) True s = Returns (SOTP_WRITE_ERROR, s') \<and>
    sotp_set t' (length data') (Some data') True (with_events es' s') = Stuck"
proof -
  let ?n = "free_space_offset s + length (item_image (t, Some data))"
  let ?s = "s\<lparr>free_space_offset := ?n, device := (device s)\<lparr>events := es\<rparr>\<rparr>"
  note f = sotp_inv_facts [OF assms(1)] and g = sotp_inv_sizes [OF assms(1)]
  have i: "item_ok (t, Some data)" using assms(2,3) by (simp add: item_ok_def item_data_def)
  have "(length data + 7) div 8 * 8 \<le> length data + 7" by (rule div_times_less_eq_dividend)
  moreover have "length (item_image (t, Some data)) = 8 + (length data + 7) div 8 * 8"
    by (simp add: item_image_def item_data_def length_record_image)
  ultimately have "length (item_image (t, Some data)) < 2 ^ 17" using assms(3) by simp
  moreover have "(2 :: nat) ^ 17 + 2 ^ 30 < 2 ^ 31" by simp
  ultimately have "?n < 2 ^ 31" using g(2,5) by linarith
  moreover have "S \<le> ?n" using assms(4) by (simp add: set_fits_def)
  moreover have "area_limit s (active_area s) = S" by (rule area_places(2) [OF f(1,3)])
  ultimately have "sotp_set t' (length data') (Some data') True (with_events es' ?s) = Stuck"
    using f(2,4) assms(6,7) by (intro set_past_end) (simp_all add: with_events_def area_limit_def)
  with set_fails [OF assms(1) i assms(4,5)] show ?thesis by blast
qed

section \<open>The properties on a small flash\<close>

text \<open>A storage with areas of 128 bytes that holds one item, the byte 7 under type 3.\<close>

definition sample_contents :: "nat \<rightharpoonup> bytes" where
  "sample_contents = [3 \<mapsto> [7]]"

definition sample_flash :: bytes where
  "sample_flash = master_image 1 @ record_image 3 [7] @ blank 96 @ blank 128"

definition sample_storage :: sotp where
  "sample_storage = (sotp_booted (two_areas 128) [] sample_flash)
     \<lparr>init_done := True, free_space_offset := 32, min_prog_size := 8, offset_by_type := (replicate 16 0)[3 := 16]\<rparr>"

lemma crc_byte_inj:
  assumes "crc_byte x b = crc_byte x b'"
  shows "b = b'"
proof (rule bit_eqI)
  fix n
  assume "possible_bit TYPE(u8) n"
  then have n: "n < 8" by simp
  have "x XOR ucast b = x XOR ucast b'" using assms undo_crc_byte by metis
  then have "x XOR (x XOR ucast b) = x XOR (x XOR ucast b')" by simp
  then have "(ucast b :: 32 word) = ucast b'" by simp
  then have "bit (ucast b :: 32 word) n = bit (ucast b' :: 32 word) n" by simp
  then show "bit b n = bit b' n" using n by (simp add: bit_ucast_iff)
qed

lemma tear_detected_byte: "tear_detected tf [b]"
proof -
  have "take (8 * k) [b] @ blank (length [b] - 8 * k) = (if k = 0 then [0xFF] else [b])" for k
    by (cases k) simp_all
  then show ?thesis
    by (auto simp: tear_detected_def crc32_def dest: crc_byte_inj)
qed

lemma sample_sizes: "length (record_image 3 [7]) = 16" "length sample_flash = 256"
  by (simp_all add: length_record_image sample_flash_def)

lemma sample_areas: "area_of 128 0 sample_flash = master_image 1 @ record_image 3 [7] @ blank 96" "area_of 128 1 sample_flash = blank 128"
proof -
  have "length (master_image 1 @ record_image 3 [7] @ blank 96) = 128" by (simp add: sample_sizes)
  then show "area_of 128 0 sample_flash = master_image 1 @ record_image 3 [7] @ blank 96" "area_of 128 1 sample_flash = blank 128"
    unfolding area_of_def sample_flash_def append_assoc [symmetric] by simp_all
qed

lemma room_sample: "room 128 sample_contents" "room 128 (sample_contents(3 \<mapsto> [9]))" "room 128 (sample_contents(5 \<mapsto> replicate 40 1))"
  by (simp_all add: room_def sample_contents_def stored_size_def length_record_image lessThan_nat_numeral)

lemma sample_inv: "sotp_inv 128 1 sample_storage sample_contents"
proof -
  let ?A = "area_of 128 0 sample_flash" and ?tab = "(replicate 16 0)[3 := 16 :: nat]"
  have i: "item_image (3, Some [7]) = record_image 3 [7]" by (simp add: item_image_def item_data_def)
  have "?A = master_image 1 @ items_image [(3, Some [7])] @ blank (128 - 32)" by (simp add: sample_areas i)
  moreover have "contents [(3, Some [7])] = sample_contents" by (simp add: contents_def sample_contents_def)
  moreover have "item_ok (3, Some [7])" by (simp add: item_ok_def item_data_def)
  ultimately have st: "stored 128 ?A 1 sample_contents 32"
    unfolding stored_def by (intro conjI exI [of _ "[(3, Some [7])]"]) (simp_all add: i sample_sizes)
  have "record_at ?A (length (master_image 1)) 3 [7]"
    unfolding sample_areas by (rule record_at_append [OF refl]) (simp add: storable_def)
  then have "entry_ok 0 ?A 32 16 3 [7]"
    unfolding entry_ok_def by (intro exI [of _ 16]) (simp add: record_location_eq sample_sizes)
  then have "table_ok 0 ?A 32 ?tab ((\<lambda>_. None)(3 \<mapsto> [7]))"
    by (intro table_ok_update table_ok_empty) simp_all
  then have tab: "table_ok 0 ?A 32 ?tab sample_contents" by (simp add: sample_contents_def)
  have fl: "on_flash 128 sample_storage sample_flash"
    by (simp add: on_flash_def simulated_def sample_storage_def sotp_booted_def two_areas_def sample_sizes)
  have "sotp_inv 128 1 (sample_storage\<lparr>init_done := True\<rparr>) sample_contents"
    by (rule sotp_invI [OF fl, of 0 _ _ 1])
       (use st tab room_sample sample_areas in \<open>simp_all add: sample_storage_def sotp_booted_def\<close>)
  moreover have "sample_storage\<lparr>init_done := True\<rparr> = sample_storage" by (simp add: sample_storage_def)
  ultimately show ?thesis by simp
qed

lemma sample_quiet: "few_failures es \<Longrightarrow> quiet (with_events es sample_storage)"
  by (intro quiet_events) (simp_all add: sample_storage_def sotp_booted_def)

lemma sample_ready:
  "few_failures [Fails 0, Power_Fails 1]" "item_storable 3 [9]" "item_storable 5 [8]"
  by (simp_all add: few_failures_def item_storable_def tear_detected_byte)

lemma sample_events_inv: "sotp_inv 128 1 (with_events es sample_storage) sample_contents"
  unfolding sotp_inv_events by (rule sample_inv)

lemma sample_recoverable: "recoverable 128 1 sample_flash sample_contents"
proof (rule recoverable_readable)
  have "cells (device sample_storage) = sample_flash" "active_area sample_storage = 0"
    by (simp_all add: sample_storage_def sotp_booted_def)
  then show "readable 128 (area_of 128 0 sample_flash) 1 sample_contents"
    using sotp_inv_facts(9) [OF sample_inv] stored_readable by (auto dest: le_antisym)
  show "unmastered (area_of 128 (1 - 0) sample_flash) \<or> (\<exists>v0. mastered (area_of 128 (1 - 0) sample_flash) v0 \<and> supersedes 0 1 v0)"
    using sample_areas(2) unmastered_blank [of 128] by simp
qed (simp_all add: sample_sizes room_sample)

lemma sotp_set_atomic_witness:
  "left_behind (sotp_set 3 (length [9 :: u8]) (Some [9]) True (with_events [Fails 0, Power_Fails 1] sample_storage))
    (\<lambda>ret s'. ret = SOTP_SUCCESS \<and> sotp_inv 128 (Suc 1) s' (sample_contents(3 \<mapsto> [9])))
    (\<lambda>c. recoverable 128 (Suc 1) c sample_contents \<or> recoverable 128 (Suc 1) c (sample_contents(3 \<mapsto> [9])))"
  by (rule sotp_set_atomic [OF sample_events_inv sample_quiet [OF sample_ready(1)] sample_ready(2) room_sample(2)]) simp

lemma sotp_init_recovers_witness:
  "left_behind (sotp_init (sotp_booted (two_areas 128) [Power_Fails 0] sample_flash))
    (\<lambda>ret s'. ret = SOTP_SUCCESS \<and> sotp_inv 128 (Suc 1) s' sample_contents) (\<lambda>c'. recoverable 128 (Suc 1) c' sample_contents)"
  by (rule sotp_init_recovers [OF booted_on_flash sample_recoverable])
     (simp_all add: sample_sizes area_bytes_ok_def sotp_booted_def quiet_def failures_def)

abbreviation (input) "sample_steps \<equiv>
  [\<lparr>put_key = 3, put_data = [9], put_events = [Power_Fails 1], boot_events = [[Power_Fails 0]]\<rparr>,
   \<lparr>put_key = 5, put_data = [8], put_events = [], boot_events = []\<rparr>]"

lemma sotp_survives_power_cuts_witness:
  "\<exists>flags s' chosen n'. run_puts sotp_put (sotp_start 128) sample_steps sample_storage = Returns (flags, s') \<and>
    length chosen = length sample_steps \<and> list_all2 (\<longrightarrow>) flags chosen \<and>
    store_inv 128 n' s' (put_some sample_steps chosen sample_contents) \<and> n' \<le> 1 + step_cost sample_steps"
proof (rule sotp_survives_power_cuts)
  show "store_inv 128 1 sample_storage sample_contents"
    unfolding store_inv_def using sample_inv by (intro conjI) (simp_all only: sample_storage_def sotp_booted_def, simp)
  show "steps_ok item_storable (room 128) few_failures sample_steps sample_contents"
    by (simp add: item_storable_def tear_detected_byte few_failures_def room_def sample_contents_def stored_size_def
        length_record_image lessThan_nat_numeral)
  show "1 + step_cost sample_steps < 65535" by (simp add: step_cost_def)
qed

lemma sotp_get_exact_witness:
  "sotp_get 3 4 True True (with_events [Fails 0, Power_Fails 1] sample_storage) =
    Returns ((SOTP_SUCCESS, 1, [7]), with_events [Fails 0, Power_Fails 1] sample_storage)"
  using sotp_get_exact [OF sample_events_inv sample_quiet [OF sample_ready(1)], of 3 True True 4] by (simp add: sample_contents_def)

lemma sotp_delete_contents_witness:
  "left_behind (sotp_delete 3 (with_events [Fails 0, Power_Fails 1] sample_storage))
    (\<lambda>ret s'. ret = SOTP_SUCCESS \<and> sotp_inv 128 (Suc 1) s' (\<lambda>_. None))
    (\<lambda>c. recoverable 128 (Suc 1) c sample_contents \<or> recoverable 128 (Suc 1) c (\<lambda>_. None))"
proof -
  have "free_space_offset (with_events es sample_storage) = 32" "sample_contents 3 \<noteq> None" "sample_contents(3 := None) = (\<lambda>_. None)" for es
    by (simp_all add: with_events_def sample_storage_def sample_contents_def)
  with sotp_delete_contents [OF sample_events_inv sample_quiet [OF sample_ready(1)], of 3] show ?thesis by simp
qed

lemma sotp_set_stuck_after_failure_witness:
  "\<exists>s'. sotp_set 5 (length (replicate 88 (1 :: u8))) (Some (replicate 88 1)) True (with_events (replicate 100 (Fails 0)) sample_storage)
      = Returns (SOTP_WRITE_ERROR, s') \<and>
    sotp_set 3 (length [9 :: u8]) (Some [9]) True (with_events [] s') = Stuck"
proof -
  let ?s = "with_events (replicate 100 (Fails 0)) sample_storage"
  have "\<not> set_fits 128 ?s (5, Some (replicate 88 1))"
    by (simp add: set_fits_def with_events_def sample_storage_def item_image_def item_data_def length_record_image)
  moreover have "events (device ?s) = replicate NUM_WRITE_RETRIES (Fails 0) @ []" by (simp add: with_events_def)
  ultimately show ?thesis
    by (intro sotp_set_stuck_after_failure [OF sample_events_inv]) simp_all
qed

end
