(* ===== verification/Ns_List.thy ===== *)
theory Ns_List
  imports Ns_List_Spec "HOL-Library.Monad_Syntax"
begin

text \<open>
  The intrusive list of \<open>nanostack-libservice/mbed-client-libservice/ns_list.h\<close>: every entry holds a pointer to the next entry
  and a pointer to the place that points to it, which is the next pointer of the entry before it or the
  first pointer of the list. Entries and list heads are addresses in an explicit memory, which holds the
  links at one offset; None is an access through NULL, through the poison value or to an address that is
  no entry. The functions of the code have a trailing underscore, which a name here cannot have. Over every sequence of calls the links implement the lists of \<open>Ns_List_Spec\<close>.
\<close>

section \<open>Memory\<close>

datatype entry_ptr = Null | Entry nat | Poison

datatype nextptr = First_Entry_Of nat | Next_Of nat | Poison_Place

record ns_list_t =
  first_entry :: entry_ptr
  last_nextptr :: nextptr

record ns_list_link_t =
  link_next :: entry_ptr
  link_prev :: nextptr

record list_memory =
  heads :: "nat \<rightharpoonup> ns_list_t"
  links :: "nat \<rightharpoonup> ns_list_link_t"

definition load_link :: "list_memory \<Rightarrow> entry_ptr \<Rightarrow> ns_list_link_t option" where
  "load_link m p = (case p of Entry e \<Rightarrow> links m e | _ \<Rightarrow> None)"

definition store_link :: "list_memory \<Rightarrow> entry_ptr \<Rightarrow> (ns_list_link_t \<Rightarrow> ns_list_link_t) \<Rightarrow> list_memory option" where
  "store_link m p f = (case p of
     Entry e \<Rightarrow> (case links m e of None \<Rightarrow> None | Some k \<Rightarrow> Some (m\<lparr>links := (links m)(e \<mapsto> f k)\<rparr>))
   | _ \<Rightarrow> None)"

definition store_head :: "list_memory \<Rightarrow> nat \<Rightarrow> (ns_list_t \<Rightarrow> ns_list_t) \<Rightarrow> list_memory option" where
  "store_head m l f = (case heads m l of None \<Rightarrow> None | Some h \<Rightarrow> Some (m\<lparr>heads := (heads m)(l \<mapsto> f h)\<rparr>))"

text \<open>The assignments of the code: to the fields of a link, to the fields of a head, and through a \<open>void **\<close>.\<close>

definition store_next :: "list_memory \<Rightarrow> entry_ptr \<Rightarrow> entry_ptr \<Rightarrow> list_memory option" where
  "store_next m p v = store_link m p (link_next_update (\<lambda>_. v))"

definition store_prev :: "list_memory \<Rightarrow> entry_ptr \<Rightarrow> nextptr \<Rightarrow> list_memory option" where
  "store_prev m p v = store_link m p (link_prev_update (\<lambda>_. v))"

definition store_list_first :: "list_memory \<Rightarrow> nat \<Rightarrow> entry_ptr \<Rightarrow> list_memory option" where
  "store_list_first m l v = store_head m l (first_entry_update (\<lambda>_. v))"

definition store_list_last :: "list_memory \<Rightarrow> nat \<Rightarrow> nextptr \<Rightarrow> list_memory option" where
  "store_list_last m l v = store_head m l (last_nextptr_update (\<lambda>_. v))"

definition store_through :: "list_memory \<Rightarrow> nextptr \<Rightarrow> entry_ptr \<Rightarrow> list_memory option" where
  "store_through m place v = (case place of
     First_Entry_Of l \<Rightarrow> store_list_first m l v
   | Next_Of e \<Rightarrow> store_next m (Entry e) v
   | Poison_Place \<Rightarrow> None)"

text \<open>\<open>NS_LIST_ENTRY_\<close>: the entry whose next pointer is at the place. For the first pointer of a list the result
  of the subtraction is no entry.\<close>

definition entry_at :: "nextptr \<Rightarrow> entry_ptr option" where
  "entry_at place = (case place of Next_Of e \<Rightarrow> Some (Entry e) | _ \<Rightarrow> None)"

section \<open>Operations\<close>

definition ns_list_init :: "list_memory \<Rightarrow> nat \<Rightarrow> list_memory option" where
  "ns_list_init m l = do {
     m \<leftarrow> store_list_first m l Null;
     store_list_last m l (First_Entry_Of l) }"

definition ns_list_link_init :: "list_memory \<Rightarrow> nat \<Rightarrow> list_memory option" where
  "ns_list_link_init m e = do {
     m \<leftarrow> store_next m (Entry e) Poison;
     store_prev m (Entry e) Poison_Place }"

definition ns_list_add_to_start :: "list_memory \<Rightarrow> nat \<Rightarrow> nat \<Rightarrow> list_memory option" where
  "ns_list_add_to_start m l entry = do {
     m \<leftarrow> store_prev m (Entry entry) (First_Entry_Of l);
     head \<leftarrow> heads m l;
     let nxt = first_entry head;
     m \<leftarrow> store_next m (Entry entry) nxt;
     m \<leftarrow> (if nxt \<noteq> Null then store_prev m nxt (Next_Of entry) else store_list_last m l (Next_Of entry));
     store_list_first m l (Entry entry) }"

definition ns_list_add_after :: "list_memory \<Rightarrow> nat \<Rightarrow> nat \<Rightarrow> nat \<Rightarrow> list_memory option" where
  "ns_list_add_after m l current entry = do {
     m \<leftarrow> store_prev m (Entry entry) (Next_Of current);
     link \<leftarrow> load_link m (Entry current);
     let nxt = link_next link;
     m \<leftarrow> store_next m (Entry entry) nxt;
     m \<leftarrow> (if nxt \<noteq> Null then store_prev m nxt (Next_Of entry) else store_list_last m l (Next_Of entry));
     store_next m (Entry current) (Entry entry) }"

definition ns_list_add_before :: "list_memory \<Rightarrow> nat \<Rightarrow> nat \<Rightarrow> list_memory option" where
  "ns_list_add_before m current entry = do {
     m \<leftarrow> store_next m (Entry entry) (Entry current);
     link \<leftarrow> load_link m (Entry current);
     let prev_nextptr = link_prev link;
     m \<leftarrow> store_prev m (Entry entry) prev_nextptr;
     m \<leftarrow> store_through m prev_nextptr (Entry entry);
     store_prev m (Entry current) (Next_Of entry) }"

definition ns_list_add_to_end :: "list_memory \<Rightarrow> nat \<Rightarrow> nat \<Rightarrow> list_memory option" where
  "ns_list_add_to_end m l entry = do {
     m \<leftarrow> store_next m (Entry entry) Null;
     head \<leftarrow> heads m l;
     let prev_nextptr = last_nextptr head;
     m \<leftarrow> store_prev m (Entry entry) prev_nextptr;
     m \<leftarrow> store_through m prev_nextptr (Entry entry);
     store_list_last m l (Next_Of entry) }"

definition ns_list_get_first :: "list_memory \<Rightarrow> nat \<Rightarrow> entry_ptr option" where
  "ns_list_get_first m l = do { head \<leftarrow> heads m l; Some (first_entry head) }"

definition ns_list_get_next :: "list_memory \<Rightarrow> nat \<Rightarrow> entry_ptr option" where
  "ns_list_get_next m current = do { link \<leftarrow> load_link m (Entry current); Some (link_next link) }"

definition ns_list_get_previous :: "list_memory \<Rightarrow> nat \<Rightarrow> nat \<Rightarrow> entry_ptr option" where
  "ns_list_get_previous m l current = do {
     head \<leftarrow> heads m l;
     if Entry current = first_entry head then Some Null
     else do { link \<leftarrow> load_link m (Entry current); entry_at (link_prev link) } }"

definition ns_list_get_last :: "list_memory \<Rightarrow> nat \<Rightarrow> entry_ptr option" where
  "ns_list_get_last m l = do {
     head \<leftarrow> heads m l;
     if first_entry head = Null then Some Null else entry_at (last_nextptr head) }"

definition ns_list_remove :: "list_memory \<Rightarrow> nat \<Rightarrow> nat \<Rightarrow> list_memory option" where
  "ns_list_remove m l removed = do {
     link \<leftarrow> load_link m (Entry removed);
     let nxt = link_next link;
     let prev_nextptr = link_prev link;
     m \<leftarrow> (if nxt \<noteq> Null then store_prev m nxt prev_nextptr else store_list_last m l prev_nextptr);
     m \<leftarrow> store_through m prev_nextptr nxt;
     ns_list_link_init m removed }"

definition ns_list_replace :: "list_memory \<Rightarrow> nat \<Rightarrow> nat \<Rightarrow> nat \<Rightarrow> list_memory option" where
  "ns_list_replace m l current replacement = do {
     link \<leftarrow> load_link m (Entry current);
     let prev_nextptr = link_prev link;
     m \<leftarrow> store_prev m (Entry replacement) prev_nextptr;
     link \<leftarrow> load_link m (Entry current);
     let nxt = link_next link;
     m \<leftarrow> store_next m (Entry replacement) nxt;
     m \<leftarrow> (if nxt \<noteq> Null then store_prev m nxt (Next_Of replacement) else store_list_last m l (Next_Of replacement));
     m \<leftarrow> store_through m prev_nextptr (Entry replacement);
     ns_list_link_init m current }"

definition ns_list_concatenate :: "list_memory \<Rightarrow> nat \<Rightarrow> nat \<Rightarrow> list_memory option" where
  "ns_list_concatenate m dst src = do {
     source \<leftarrow> heads m src;
     let src_first = first_entry source;
     if src_first = Null then Some m
     else do {
       dest \<leftarrow> heads m dst;
       m \<leftarrow> store_through m (last_nextptr dest) src_first;
       m \<leftarrow> store_prev m src_first (last_nextptr dest);
       m \<leftarrow> store_list_last m dst (last_nextptr source);
       ns_list_init m src } }"

text \<open>The loop of \<open>ns_list_count\<close> has no result on a cycle of entries. \<open>uint_fast16_t\<close> has 32 bits.\<close>

partial_function (option) count_loop :: "list_memory \<Rightarrow> entry_ptr \<Rightarrow> nat \<Rightarrow> nat option" where
  "count_loop m p count =
     (if p = Null then Some count
      else (case load_link m p of None \<Rightarrow> None | Some link \<Rightarrow> count_loop m (link_next link) (u32_wrap (Suc count))))"

declare count_loop.simps [code]

definition ns_list_count :: "list_memory \<Rightarrow> nat \<Rightarrow> nat option" where
  "ns_list_count m l = do { head \<leftarrow> heads m l; count_loop m (first_entry head) 0 }"

section \<open>What the memory of a list looks like\<close>

definition ptr_of :: "nat list \<Rightarrow> entry_ptr \<Rightarrow> entry_ptr" where
  "ptr_of xs e = (case xs of [] \<Rightarrow> e | x # _ \<Rightarrow> Entry x)"

definition place_after :: "nextptr \<Rightarrow> nat list \<Rightarrow> nextptr" where
  "place_after p xs = (if xs = [] then p else Next_Of (last xs))"

fun linked_entries :: "(nat \<rightharpoonup> ns_list_link_t) \<Rightarrow> nextptr \<Rightarrow> nat list \<Rightarrow> entry_ptr \<Rightarrow> bool" where
  "linked_entries lk p [] e \<longleftrightarrow> True"
| "linked_entries lk p (x # xs) e \<longleftrightarrow>
     lk x = Some \<lparr>link_next = ptr_of xs e, link_prev = p\<rparr> \<and> linked_entries lk (Next_Of x) xs e"

definition list_at :: "list_memory \<Rightarrow> nat \<Rightarrow> nat list \<Rightarrow> bool" where
  "list_at m l xs \<longleftrightarrow> distinct xs \<and> linked_entries (links m) (First_Entry_Of l) xs Null \<and>
     heads m l = Some \<lparr>first_entry = ptr_of xs Null, last_nextptr = place_after (First_Entry_Of l) xs\<rparr>"

lemma ptr_of_simps [simp]:
  "ptr_of [] e = e" "ptr_of (x # xs) e = Entry x" "ptr_of (as @ bs) e = ptr_of as (ptr_of bs e)"
  by (simp_all add: ptr_of_def split: list.split)

lemma place_after_simps [simp]:
  "place_after p [] = p" "place_after p (x # xs) = place_after (Next_Of x) xs"
  "place_after p (as @ bs) = place_after (place_after p as) bs"
  by (simp_all add: place_after_def)

lemma linked_append [simp]:
  "linked_entries lk p (as @ bs) e \<longleftrightarrow> linked_entries lk p as (ptr_of bs e) \<and> linked_entries lk (place_after p as) bs e"
  by (induction as arbitrary: p) auto

lemma linked_upd [simp]: "x \<notin> set xs \<Longrightarrow> linked_entries (lk(x := v)) p xs e = linked_entries lk p xs e"
  by (induction xs arbitrary: p) auto

lemma linked_cong: "(\<And>x. x \<in> set xs \<Longrightarrow> lk x = lk' x) \<Longrightarrow> linked_entries lk p xs e = linked_entries lk' p xs e"
  by (induction xs arbitrary: p) auto

lemma linked_present: "linked_entries lk p xs e \<Longrightarrow> x \<in> set xs \<Longrightarrow> \<exists>k. lk x = Some k"
  by (induction xs arbitrary: p) auto

text \<open>An operation changes the head of its lists and the links of its entries, and no memory comes or goes.\<close>

definition only_changes :: "list_memory \<Rightarrow> list_memory \<Rightarrow> nat set \<Rightarrow> nat set \<Rightarrow> bool" where
  "only_changes m m' L X \<longleftrightarrow> dom (heads m') = dom (heads m) \<and> dom (links m') = dom (links m) \<and>
     (\<forall>l. l \<notin> L \<longrightarrow> heads m' l = heads m l) \<and> (\<forall>x. x \<notin> X \<longrightarrow> links m' x = links m x)"

lemmas list_steps = load_link_def store_link_def store_head_def store_next_def store_prev_def store_list_first_def
  store_list_last_def store_through_def entry_at_def

lemma add_to_start_ok:
  assumes "list_at m l xs" "e \<in> dom (links m)" "e \<notin> set xs"
  shows "\<exists>m'. ns_list_add_to_start m l e = Some m' \<and> list_at m' l (e # xs) \<and> only_changes m m' {l} (insert e (set xs))"
  using assms
  by (cases xs) (auto simp: ns_list_add_to_start_def list_steps list_at_def only_changes_def)

lemma add_after_ok:
  assumes "list_at m l (as @ c # bs)" "e \<in> dom (links m)" "e \<notin> set (as @ c # bs)"
  shows "\<exists>m'. ns_list_add_after m l c e = Some m' \<and> list_at m' l (as @ c # e # bs) \<and>
    only_changes m m' {l} (insert e (set (as @ c # bs)))"
  using assms
  by (cases bs) (auto simp: ns_list_add_after_def list_steps list_at_def only_changes_def)

lemma add_before_ok:
  assumes "list_at m l (as @ c # bs)" "e \<in> dom (links m)" "e \<notin> set (as @ c # bs)"
  shows "\<exists>m'. ns_list_add_before m c e = Some m' \<and> list_at m' l (as @ e # c # bs) \<and>
    only_changes m m' {l} (insert e (set (as @ c # bs)))"
  using assms
  by (cases as rule: rev_cases) (auto simp: ns_list_add_before_def list_steps list_at_def only_changes_def)

lemma add_to_end_ok:
  assumes "list_at m l xs" "e \<in> dom (links m)" "e \<notin> set xs"
  shows "\<exists>m'. ns_list_add_to_end m l e = Some m' \<and> list_at m' l (xs @ [e]) \<and> only_changes m m' {l} (insert e (set xs))"
  using assms
  by (cases xs rule: rev_cases) (auto simp: ns_list_add_to_end_def list_steps list_at_def only_changes_def)

lemma remove_ok:
  assumes "list_at m l (as @ c # bs)"
  shows "\<exists>m'. ns_list_remove m l c = Some m' \<and> list_at m' l (as @ bs) \<and> only_changes m m' {l} (set (as @ c # bs))"
  using assms
  by (cases as rule: rev_cases; cases bs)
    (auto simp: ns_list_remove_def ns_list_link_init_def list_steps list_at_def only_changes_def)

lemma replace_ok:
  assumes "list_at m l (as @ c # bs)" "e \<in> dom (links m)" "e \<notin> set (as @ c # bs)"
  shows "\<exists>m'. ns_list_replace m l c e = Some m' \<and> list_at m' l (as @ e # bs) \<and>
    only_changes m m' {l} (insert e (set (as @ c # bs)))"
  using assms
  by (cases as rule: rev_cases; cases bs)
    (auto simp: ns_list_replace_def ns_list_link_init_def list_steps list_at_def only_changes_def)

lemma init_ok:
  assumes "l \<in> dom (heads m)"
  shows "\<exists>m'. ns_list_init m l = Some m' \<and> list_at m' l [] \<and> only_changes m m' {l} {}"
  using assms by (auto simp: ns_list_init_def list_steps list_at_def only_changes_def)

lemma concatenate_ok:
  assumes "list_at m d xs" "list_at m s ys" "d \<noteq> s" "set xs \<inter> set ys = {}"
  shows "\<exists>m'. ns_list_concatenate m d s = Some m' \<and> list_at m' d (xs @ ys) \<and> list_at m' s [] \<and>
    only_changes m m' {d, s} (set xs \<union> set ys)"
  using assms
  by (cases xs rule: rev_cases; cases ys)
    (auto simp: ns_list_concatenate_def ns_list_init_def list_steps list_at_def only_changes_def)

lemma get_first_ok: "list_at m l xs \<Longrightarrow> ns_list_get_first m l = Some (ptr_of xs Null)"
  by (simp add: ns_list_get_first_def list_at_def)

lemma get_next_ok: "list_at m l (as @ c # bs) \<Longrightarrow> ns_list_get_next m c = Some (ptr_of bs Null)"
  by (simp add: ns_list_get_next_def list_steps list_at_def)

lemma get_previous_ok:
  "list_at m l (as @ c # bs) \<Longrightarrow>
   ns_list_get_previous m l c = Some (if as = [] then Null else Entry (last as))"
  by (cases as)
    (auto simp: ns_list_get_previous_def list_steps list_at_def place_after_def)

lemma get_last_ok:
  "list_at m l xs \<Longrightarrow> ns_list_get_last m l = Some (if xs = [] then Null else Entry (last xs))"
  by (cases xs) (auto simp: ns_list_get_last_def list_steps list_at_def place_after_def)

lemma count_loop_ok:
  "linked_entries (links m) p xs Null \<Longrightarrow> n < 4294967296 \<Longrightarrow>
   count_loop m (ptr_of xs Null) n = Some (u32_wrap (n + length xs))"
proof (induction xs arbitrary: p n)
  case Nil
  then show ?case by (simp add: count_loop.simps u32_wrap_id)
next
  case (Cons x xs)
  then have "count_loop m (ptr_of xs Null) (u32_wrap (Suc n)) = Some (u32_wrap (u32_wrap (Suc n) + length xs))"
    by (intro Cons.IH) (auto simp: u32_wrap_def)
  moreover have "u32_wrap (u32_wrap (Suc n) + length xs) = u32_wrap (n + length (x # xs))"
    by (simp add: u32_wrap_def mod_add_left_eq)
  ultimately show ?case using Cons.prems by (simp add: count_loop.simps [of m "Entry x"] load_link_def)
qed

lemma count_ok: "list_at m l xs \<Longrightarrow> ns_list_count m l = Some (u32_wrap (length xs))"
  using count_loop_ok [of m "First_Entry_Of l" xs 0] by (simp add: ns_list_count_def list_at_def)

section \<open>Sequences of calls\<close>

datatype list_call =
  Init nat | Add_To_Start nat nat | Add_After nat nat nat | Add_Before nat nat nat | Add_To_End nat nat
| Remove nat nat | Replace nat nat nat | Concatenate nat nat
| Get_First nat | Get_Next nat nat | Get_Previous nat nat | Get_Last nat | Count nat

datatype list_result = Changed | Pointer entry_ptr | Counted nat

fun do_call :: "list_memory \<Rightarrow> list_call \<Rightarrow> (list_memory \<times> list_result) option" where
  "do_call m (Init l) = map_option (\<lambda>m. (m, Changed)) (ns_list_init m l)"
| "do_call m (Add_To_Start l e) = map_option (\<lambda>m. (m, Changed)) (ns_list_add_to_start m l e)"
| "do_call m (Add_After l c e) = map_option (\<lambda>m. (m, Changed)) (ns_list_add_after m l c e)"
| "do_call m (Add_Before l c e) = map_option (\<lambda>m. (m, Changed)) (ns_list_add_before m c e)"
| "do_call m (Add_To_End l e) = map_option (\<lambda>m. (m, Changed)) (ns_list_add_to_end m l e)"
| "do_call m (Remove l e) = map_option (\<lambda>m. (m, Changed)) (ns_list_remove m l e)"
| "do_call m (Replace l c e) = map_option (\<lambda>m. (m, Changed)) (ns_list_replace m l c e)"
| "do_call m (Concatenate d s) = map_option (\<lambda>m. (m, Changed)) (ns_list_concatenate m d s)"
| "do_call m (Get_First l) = map_option (\<lambda>p. (m, Pointer p)) (ns_list_get_first m l)"
| "do_call m (Get_Next l c) = map_option (\<lambda>p. (m, Pointer p)) (ns_list_get_next m c)"
| "do_call m (Get_Previous l c) = map_option (\<lambda>p. (m, Pointer p)) (ns_list_get_previous m l c)"
| "do_call m (Get_Last l) = map_option (\<lambda>p. (m, Pointer p)) (ns_list_get_last m l)"
| "do_call m (Count l) = map_option (\<lambda>n. (m, Counted n)) (ns_list_count m l)"

fun do_calls :: "list_memory \<Rightarrow> list_call list \<Rightarrow> (list_memory \<times> list_result list) option" where
  "do_calls m [] = Some (m, [])"
| "do_calls m (c # cs) = do {
     (m, r) \<leftarrow> do_call m c;
     (m, rs) \<leftarrow> do_calls m cs;
     Some (m, r # rs) }"

text \<open>The same calls on lists. \<open>hs\<close> are the addresses of list heads, \<open>es\<close> those of entries; \<open>ls\<close> has the
  lists that have been initialised. None is a call that the documentation of \<open>ns_list.h\<close> does not allow.\<close>

definition unlinked :: "nat list \<Rightarrow> nat list \<Rightarrow> (nat \<rightharpoonup> nat list) \<Rightarrow> nat \<Rightarrow> bool" where
  "unlinked hs es ls e \<longleftrightarrow> e \<in> set es \<and>
     list_all (\<lambda>l. case ls l of None \<Rightarrow> True | Some xs \<Rightarrow> e \<notin> set xs) hs"

definition pointer_to :: "nat option \<Rightarrow> entry_ptr" where
  "pointer_to r = (case r of None \<Rightarrow> Null | Some e \<Rightarrow> Entry e)"

definition when_allowed :: "bool \<Rightarrow> 'a \<Rightarrow> 'a option" where
  "when_allowed b x = (if b then Some x else None)"

fun list_spec_call :: "nat list \<Rightarrow> nat list \<Rightarrow> (nat \<rightharpoonup> nat list) \<Rightarrow> list_call \<Rightarrow> ((nat \<rightharpoonup> nat list) \<times> list_result) option" where
  "list_spec_call hs es ls (Init l) = when_allowed (l \<in> set hs) (ls(l \<mapsto> []), Changed)"
| "list_spec_call hs es ls (Add_To_Start l e) = do {
     xs \<leftarrow> ls l;
     when_allowed (unlinked hs es ls e) (ls(l \<mapsto> list_add_to_start xs e), Changed) }"
| "list_spec_call hs es ls (Add_After l c e) = do {
     xs \<leftarrow> ls l;
     when_allowed (c \<in> set xs \<and> unlinked hs es ls e) (ls(l \<mapsto> list_add_after xs c e), Changed) }"
| "list_spec_call hs es ls (Add_Before l c e) = do {
     xs \<leftarrow> ls l;
     when_allowed (c \<in> set xs \<and> unlinked hs es ls e) (ls(l \<mapsto> list_add_before xs c e), Changed) }"
| "list_spec_call hs es ls (Add_To_End l e) = do {
     xs \<leftarrow> ls l;
     when_allowed (unlinked hs es ls e) (ls(l \<mapsto> list_add_to_end xs e), Changed) }"
| "list_spec_call hs es ls (Remove l e) = do {
     xs \<leftarrow> ls l;
     when_allowed (e \<in> set xs) (ls(l \<mapsto> list_remove xs e), Changed) }"
| "list_spec_call hs es ls (Replace l c e) = do {
     xs \<leftarrow> ls l;
     when_allowed (c \<in> set xs \<and> unlinked hs es ls e) (ls(l \<mapsto> list_replace xs c e), Changed) }"
| "list_spec_call hs es ls (Concatenate d s) = do {
     xs \<leftarrow> ls d;
     ys \<leftarrow> ls s;
     when_allowed (d \<noteq> s) (ls(d \<mapsto> xs @ ys, s \<mapsto> []), Changed) }"
| "list_spec_call hs es ls (Get_First l) = do { xs \<leftarrow> ls l; Some (ls, Pointer (pointer_to (list_first xs))) }"
| "list_spec_call hs es ls (Get_Next l c) = do {
     xs \<leftarrow> ls l;
     when_allowed (c \<in> set xs) (ls, Pointer (pointer_to (list_next xs c))) }"
| "list_spec_call hs es ls (Get_Previous l c) = do {
     xs \<leftarrow> ls l;
     when_allowed (c \<in> set xs) (ls, Pointer (pointer_to (list_previous xs c))) }"
| "list_spec_call hs es ls (Get_Last l) = do { xs \<leftarrow> ls l; Some (ls, Pointer (pointer_to (list_last xs))) }"
| "list_spec_call hs es ls (Count l) = do { xs \<leftarrow> ls l; Some (ls, Counted (u32_wrap (length xs))) }"

fun list_spec_calls :: "nat list \<Rightarrow> nat list \<Rightarrow> (nat \<rightharpoonup> nat list) \<Rightarrow> list_call list \<Rightarrow> ((nat \<rightharpoonup> nat list) \<times> list_result list) option" where
  "list_spec_calls hs es ls [] = Some (ls, [])"
| "list_spec_calls hs es ls (c # cs) = do {
     (ls, r) \<leftarrow> list_spec_call hs es ls c;
     (ls, rs) \<leftarrow> list_spec_calls hs es ls cs;
     Some (ls, r # rs) }"

section \<open>The refinement\<close>

definition represents :: "nat list \<Rightarrow> nat list \<Rightarrow> list_memory \<Rightarrow> (nat \<rightharpoonup> nat list) \<Rightarrow> bool" where
  "represents hs es m ls \<longleftrightarrow> set hs \<subseteq> dom (heads m) \<and> set es \<subseteq> dom (links m) \<and>
     (\<forall>l xs. ls l = Some xs \<longrightarrow> l \<in> set hs \<and> set xs \<subseteq> set es \<and> list_at m l xs) \<and>
     (\<forall>l k xs ys. l \<noteq> k \<longrightarrow> ls l = Some xs \<longrightarrow> ls k = Some ys \<longrightarrow> set xs \<inter> set ys = {})"

lemma list_at_frame:
  assumes "list_at m l xs" "only_changes m m' L X" "l \<notin> L" "set xs \<inter> X = {}"
  shows "list_at m' l xs"
proof -
  have "linked_entries (links m') (First_Entry_Of l) xs Null = linked_entries (links m) (First_Entry_Of l) xs Null"
    using assms(2,4) by (intro linked_cong) (auto simp: only_changes_def)
  then show ?thesis using assms by (simp add: list_at_def only_changes_def)
qed

lemma represents_update:
  assumes "represents hs es m ls" "only_changes m m' L X" "X \<subseteq> set es"
    and same: "\<And>l. l \<notin> L \<Longrightarrow> ls' l = ls l"
    and apart: "\<And>l xs. l \<notin> L \<Longrightarrow> ls l = Some xs \<Longrightarrow> set xs \<inter> X = {}"
    and new: "\<And>l xs. l \<in> L \<Longrightarrow> ls' l = Some xs \<Longrightarrow> l \<in> set hs \<and> set xs \<subseteq> X \<and> list_at m' l xs"
    and new_apart: "\<And>l k xs ys. l \<in> L \<Longrightarrow> k \<in> L \<Longrightarrow> l \<noteq> k \<Longrightarrow> ls' l = Some xs \<Longrightarrow> ls' k = Some ys \<Longrightarrow> set xs \<inter> set ys = {}"
  shows "represents hs es m' ls'"
proof -
  have doms: "dom (heads m') = dom (heads m)" "dom (links m') = dom (links m)"
    using assms(2) by (simp_all add: only_changes_def)
  have each: "l \<in> set hs \<and> set xs \<subseteq> set es \<and> list_at m' l xs" if "ls' l = Some xs" for l xs
  proof (cases "l \<in> L")
    case True
    then show ?thesis using new [OF True that] assms(3) by blast
  next
    case False
    then have "ls l = Some xs" using same that by simp
    then show ?thesis
      using assms(1) list_at_frame [OF _ assms(2) False apart [OF False]] by (auto simp: represents_def)
  qed
  have pairs: "set xs \<inter> set ys = {}" if "l \<noteq> k" "ls' l = Some xs" "ls' k = Some ys" for l k xs ys
  proof (cases "l \<in> L"; cases "k \<in> L")
    assume "l \<in> L" "k \<in> L"
    then show ?thesis using new_apart that by blast
  next
    assume "l \<in> L" "k \<notin> L"
    then have "set xs \<subseteq> X" "set ys \<inter> X = {}" using new that apart same by auto
    then show ?thesis by blast
  next
    assume "l \<notin> L" "k \<in> L"
    then have "set ys \<subseteq> X" "set xs \<inter> X = {}" using new that apart same by auto
    then show ?thesis by blast
  next
    assume "l \<notin> L" "k \<notin> L"
    then have "ls l = Some xs" "ls k = Some ys" using same that by auto
    then show ?thesis using assms(1) that(1) by (auto simp: represents_def)
  qed
  show ?thesis using assms(1) each pairs unfolding represents_def doms by blast
qed

lemma represents_one:
  assumes "represents hs es m ls" "ls l = Some xs" "only_changes m m' {l} X" "list_at m' l xs'"
    and "set xs' \<subseteq> X" "X = set xs \<or> X = insert e (set xs) \<and> unlinked hs es ls e"
  shows "represents hs es m' (ls(l \<mapsto> xs'))"
proof (rule represents_update [OF assms(1,3)])
  have r: "l \<in> set hs" "set xs \<subseteq> set es" using assms(1,2) by (auto simp: represents_def)
  show "X \<subseteq> set es" using r assms(6) by (auto simp: unlinked_def)
  show "set ys \<inter> X = {}" if "k \<notin> {l}" "ls k = Some ys" for k ys
  proof -
    have "set ys \<inter> set xs = {}" "k \<in> set hs" using assms(1,2) that by (auto simp: represents_def)
    moreover have "e \<notin> set ys" if "unlinked hs es ls e"
      using that \<open>ls k = Some ys\<close> \<open>k \<in> set hs\<close> by (auto simp: unlinked_def list_all_iff split: option.splits)
    ultimately show ?thesis using assms(6) by auto
  qed
  show "k \<in> set hs \<and> set ys \<subseteq> X \<and> list_at m' k ys" if "k \<in> {l}" "(ls(l \<mapsto> xs')) k = Some ys" for k ys
    using that r assms(4,5) by auto
qed auto

lemma unlinked_facts:
  assumes "represents hs es m ls" "ls l = Some xs" "unlinked hs es ls e"
  shows "e \<notin> set xs" "e \<in> dom (links m)"
  using assms by (auto simp: represents_def unlinked_def list_all_iff split: option.splits)

lemma member_split:
  assumes "represents hs es m ls" "ls l = Some xs" "c \<in> set xs"
  obtains as bs where "xs = as @ c # bs" "c \<notin> set as" "c \<notin> set bs"
proof -
  obtain as bs where xs: "xs = as @ c # bs" using assms(3) by (meson split_list)
  moreover have "distinct xs" using assms(1,2) by (auto simp: represents_def list_at_def)
  ultimately show ?thesis using that by auto
qed

lemma bind_SomeE: "Option.bind x f = Some y \<Longrightarrow> (\<And>a. x = Some a \<Longrightarrow> f a = Some y \<Longrightarrow> P) \<Longrightarrow> P"
  by (cases x) auto

lemma when_allowed_Some: "when_allowed b x = Some y \<longleftrightarrow> b \<and> x = y"
  by (simp add: when_allowed_def)

text \<open>One change of one list, and one question about one list.\<close>

lemma change_ok:
  assumes "represents hs es m ls" "ls l = Some xs"
    and "\<exists>m'. f = Some m' \<and> list_at m' l xs' \<and> only_changes m m' {l} X"
    and "set xs' \<subseteq> X" "X = set xs \<or> X = insert e (set xs) \<and> unlinked hs es ls e"
  shows "\<exists>m'. map_option (\<lambda>m. (m, Changed)) f = Some (m', Changed) \<and> represents hs es m' (ls(l \<mapsto> xs'))"
  using assms(3) represents_one [OF assms(1,2) _ _ assms(4,5)] by auto

lemma represents_list_at: "represents hs es m ls \<Longrightarrow> ls l = Some xs \<Longrightarrow> list_at m l xs"
  by (simp add: represents_def)

lemma add_call_ok:
  assumes "represents hs es m ls" "ls l = Some xs" "unlinked hs es ls e"
  shows "\<exists>m'. do_call m (Add_To_Start l e) = Some (m', Changed) \<and> represents hs es m' (ls(l \<mapsto> list_add_to_start xs e))"
    "\<exists>m'. do_call m (Add_To_End l e) = Some (m', Changed) \<and> represents hs es m' (ls(l \<mapsto> list_add_to_end xs e))"
proof -
  note at = represents_list_at [OF assms(1,2)] and free = unlinked_facts [OF assms]
  show "\<exists>m'. do_call m (Add_To_Start l e) = Some (m', Changed) \<and> represents hs es m' (ls(l \<mapsto> list_add_to_start xs e))"
    using change_ok [OF assms(1,2) add_to_start_ok [OF at free(2,1)], of e] assms(3)
    by (simp add: list_add_to_start_def)
  show "\<exists>m'. do_call m (Add_To_End l e) = Some (m', Changed) \<and> represents hs es m' (ls(l \<mapsto> list_add_to_end xs e))"
    using change_ok [OF assms(1,2) add_to_end_ok [OF at free(2,1)], of e] assms(3)
    by (simp add: list_add_to_end_def)
qed

lemma add_near_call_ok:
  assumes "represents hs es m ls" "ls l = Some xs" "c \<in> set xs" "unlinked hs es ls e"
  shows "\<exists>m'. do_call m (Add_After l c e) = Some (m', Changed) \<and> represents hs es m' (ls(l \<mapsto> list_add_after xs c e))"
    "\<exists>m'. do_call m (Add_Before l c e) = Some (m', Changed) \<and> represents hs es m' (ls(l \<mapsto> list_add_before xs c e))"
    "\<exists>m'. do_call m (Replace l c e) = Some (m', Changed) \<and> represents hs es m' (ls(l \<mapsto> list_replace xs c e))"
proof -
  obtain as bs where xs: "xs = as @ c # bs" "c \<notin> set as" "c \<notin> set bs"
    using member_split [OF assms(1-3)] .
  note at = represents_list_at [OF assms(1,2), unfolded xs(1)]
    and free = unlinked_facts [OF assms(1,2,4), unfolded xs(1)]
  show "\<exists>m'. do_call m (Add_After l c e) = Some (m', Changed) \<and> represents hs es m' (ls(l \<mapsto> list_add_after xs c e))"
    using change_ok [OF assms(1) assms(2) [unfolded xs(1)] add_after_ok [OF at free(2,1)], of e] assms(4) xs
    by (auto simp: list_add_after_split)
  show "\<exists>m'. do_call m (Add_Before l c e) = Some (m', Changed) \<and> represents hs es m' (ls(l \<mapsto> list_add_before xs c e))"
    using change_ok [OF assms(1) assms(2) [unfolded xs(1)] add_before_ok [OF at free(2,1)], of e] assms(4) xs
    by (auto simp: list_add_before_split)
  show "\<exists>m'. do_call m (Replace l c e) = Some (m', Changed) \<and> represents hs es m' (ls(l \<mapsto> list_replace xs c e))"
    using change_ok [OF assms(1) assms(2) [unfolded xs(1)] replace_ok [OF at free(2,1)], of e] assms(4) xs
    by (auto simp: list_replace_split)
qed

lemma remove_call_ok:
  assumes "represents hs es m ls" "ls l = Some xs" "c \<in> set xs"
  shows "\<exists>m'. do_call m (Remove l c) = Some (m', Changed) \<and> represents hs es m' (ls(l \<mapsto> list_remove xs c))"
proof -
  obtain as bs where xs: "xs = as @ c # bs" "c \<notin> set as" "c \<notin> set bs"
    using member_split [OF assms] .
  show ?thesis
    using change_ok [OF assms(1) assms(2) [unfolded xs(1)] remove_ok [OF represents_list_at [OF assms(1,2), unfolded xs(1)]]] xs
    by (auto simp: list_remove_split)
qed

lemma init_call_ok:
  assumes "represents hs es m ls" "l \<in> set hs"
  shows "\<exists>m'. do_call m (Init l) = Some (m', Changed) \<and> represents hs es m' (ls(l \<mapsto> []))"
proof -
  have "l \<in> dom (heads m)" using assms by (auto simp: represents_def)
  from init_ok [OF this] obtain m' where m':
    "ns_list_init m l = Some m'" "list_at m' l []" "only_changes m m' {l} {}" by auto
  have "represents hs es m' (ls(l \<mapsto> []))"
    by (rule represents_update [OF assms(1) m'(3)]) (use assms(2) m'(2) in auto)
  with m'(1) show ?thesis by simp
qed

lemma concatenate_call_ok:
  assumes "represents hs es m ls" "ls d = Some xs" "ls s = Some ys" "d \<noteq> s"
  shows "\<exists>m'. do_call m (Concatenate d s) = Some (m', Changed) \<and> represents hs es m' (ls(d \<mapsto> xs @ ys, s \<mapsto> []))"
proof -
  have sets: "set xs \<inter> set ys = {}" "set xs \<union> set ys \<subseteq> set es" "d \<in> set hs" "s \<in> set hs"
    using assms by (auto simp: represents_def)
  from concatenate_ok [OF represents_list_at [OF assms(1,2)] represents_list_at [OF assms(1,3)] assms(4) sets(1)]
  obtain m' where m': "ns_list_concatenate m d s = Some m'" "list_at m' d (xs @ ys)" "list_at m' s []"
    "only_changes m m' {d, s} (set xs \<union> set ys)" by auto
  have "represents hs es m' (ls(d \<mapsto> xs @ ys, s \<mapsto> []))"
  proof (rule represents_update [OF assms(1) m'(4) sets(2)])
    show "set zs \<inter> (set xs \<union> set ys) = {}" if "k \<notin> {d, s}" "ls k = Some zs" for k zs
    proof -
      have "k \<noteq> d" "k \<noteq> s" using that(1) by auto
      then have "set zs \<inter> set xs = {}" "set zs \<inter> set ys = {}"
        using assms(1-3) that(2) unfolding represents_def by blast+
      then show ?thesis by blast
    qed
  qed (use sets m'(2,3) assms(4) in \<open>auto split: if_splits\<close>)
  with m'(1) show ?thesis by simp
qed

lemma question_call_ok:
  assumes "represents hs es m ls" "ls l = Some xs"
  shows "do_call m (Get_First l) = Some (m, Pointer (pointer_to (list_first xs)))"
    "do_call m (Get_Last l) = Some (m, Pointer (pointer_to (list_last xs)))"
    "do_call m (Count l) = Some (m, Counted (u32_wrap (length xs)))"
    "c \<in> set xs \<Longrightarrow> do_call m (Get_Next l c) = Some (m, Pointer (pointer_to (list_next xs c)))"
    "c \<in> set xs \<Longrightarrow> do_call m (Get_Previous l c) = Some (m, Pointer (pointer_to (list_previous xs c)))"
proof -
  note at = represents_list_at [OF assms]
  show "do_call m (Get_First l) = Some (m, Pointer (pointer_to (list_first xs)))"
    by (simp add: get_first_ok [OF at] pointer_to_def list_first_def split: list.split)
  show "do_call m (Get_Last l) = Some (m, Pointer (pointer_to (list_last xs)))"
    by (simp add: get_last_ok [OF at] pointer_to_def list_last_def)
  show "do_call m (Count l) = Some (m, Counted (u32_wrap (length xs)))" by (simp add: count_ok [OF at])
  assume "c \<in> set xs"
  then obtain as bs where xs: "xs = as @ c # bs" "c \<notin> set as" "c \<notin> set bs"
    using member_split [OF assms] by blast
  show "do_call m (Get_Next l c) = Some (m, Pointer (pointer_to (list_next xs c)))"
    using get_next_ok [OF at [unfolded xs(1)]] xs
    by (simp add: list_next_split pointer_to_def list_first_def split: list.split)
  show "do_call m (Get_Previous l c) = Some (m, Pointer (pointer_to (list_previous xs c)))"
    using get_previous_ok [OF at [unfolded xs(1)]] xs
    by (simp add: list_previous_split pointer_to_def list_last_def)
qed

lemma call_refines:
  assumes "represents hs es m ls" "list_spec_call hs es ls c = Some (ls', r)"
  shows "\<exists>m'. do_call m c = Some (m', r) \<and> represents hs es m' ls'"
  using assms
  by (cases c)
    (auto simp del: do_call.simps simp: when_allowed_Some intro: init_call_ok add_call_ok add_near_call_ok remove_call_ok concatenate_call_ok
      question_call_ok(1-3) elim!: bind_SomeE, (blast intro: question_call_ok(4,5))+)

lemma calls_refine:
  "represents hs es m ls \<Longrightarrow> list_spec_calls hs es ls cs = Some (ls', rs) \<Longrightarrow>
   \<exists>m'. do_calls m cs = Some (m', rs) \<and> represents hs es m' ls'"
proof (induction cs arbitrary: m ls rs)
  case (Cons c cs)
  from Cons.prems(2) obtain ls1 r rs1 where s: "list_spec_call hs es ls c = Some (ls1, r)"
    "list_spec_calls hs es ls1 cs = Some (ls', rs1)" "rs = r # rs1"
    by (auto elim!: bind_SomeE)
  from call_refines [OF Cons.prems(1) s(1)] obtain m1 where
    "do_call m c = Some (m1, r)" "represents hs es m1 ls1" by auto
  with Cons.IH [OF this(2) s(2)] s(3) show ?case by auto
qed simp

text \<open>
Property C25: the intrusive lists of ns_list.h implement lists: in a memory with heads and entries of any content, every
sequence of allowed calls runs without an access through NULL or a poisoned pointer, returns what the same calls on
lists return, and leaves every list linked in both directions in the order of the entries.
\<close>

theorem ns_list_refines_lists:
  assumes "set hs \<subseteq> dom (heads m)" "set es \<subseteq> dom (links m)"
    and "list_spec_calls hs es (\<lambda>_. None) cs = Some (ls, rs)"
  shows "\<exists>m'. do_calls m cs = Some (m', rs) \<and> (\<forall>l xs. ls l = Some xs \<longrightarrow> list_at m' l xs)"
proof -
  have "represents hs es m (\<lambda>_. None)" using assms(1,2) by (simp add: represents_def)
  from calls_refine [OF this assms(3)] show ?thesis by (auto simp: represents_def)
qed

lemma exists_forward: "\<exists>x. P x \<and> Q x \<Longrightarrow> (\<And>x. Q x \<Longrightarrow> R x) \<Longrightarrow> \<exists>x. P x \<and> R x"
  by blast

lemma lists_at_both:
  "\<forall>l xs. f l = Some xs \<longrightarrow> list_at m l xs \<Longrightarrow> f j = Some xs \<Longrightarrow> f k = Some ys \<Longrightarrow> list_at m j xs \<and> list_at m k ys"
  by blast

definition some_memory :: list_memory where
  "some_memory = \<lparr>heads = [1 \<mapsto> \<lparr>first_entry = Poison, last_nextptr = Poison_Place\<rparr>,
       2 \<mapsto> \<lparr>first_entry = Null, last_nextptr = First_Entry_Of 1\<rparr>],
     links = (\<lambda>e. if e < 4 then Some \<lparr>link_next = Poison, link_prev = Poison_Place\<rparr> else None)\<rparr>"

lemma ns_list_refines_lists_witness:
  "\<exists>m'. do_calls some_memory
     [Init 1, Init 2, Add_To_End 1 3, Add_Before 1 3 0, Add_To_Start 2 1, Concatenate 1 2, Remove 1 3, Replace 1 0 2,
      Get_Next 1 2, Get_Previous 1 2, Get_Last 1, Count 2] =
     Some (m', [Changed, Changed, Changed, Changed, Changed, Changed, Changed, Changed,
       Pointer (Entry 1), Pointer Null, Pointer (Entry 1), Counted 0]) \<and> list_at m' 1 [2, 1] \<and> list_at m' 2 []"
proof -
  have "list_spec_calls [1, 2] [0, 1, 2, 3] (\<lambda>_. None)
     [Init 1, Init 2, Add_To_End 1 3, Add_Before 1 3 0, Add_To_Start 2 1, Concatenate 1 2, Remove 1 3, Replace 1 0 2,
      Get_Next 1 2, Get_Previous 1 2, Get_Last 1, Count 2] =
     Some ((\<lambda>_. None)(1 \<mapsto> [2, 1], 2 \<mapsto> []), [Changed, Changed, Changed, Changed, Changed, Changed, Changed, Changed,
       Pointer (Entry 1), Pointer Null, Pointer (Entry 1), Counted 0])"
    by (simp add: when_allowed_def unlinked_def pointer_to_def list_add_to_end_def list_add_to_start_def list_remove_def
        list_first_def list_last_def u32_wrap_def fun_upd_twist fun_upd_upd)
  moreover have "set [1, 2] \<subseteq> dom (heads some_memory)" "set [0, 1, 2, 3] \<subseteq> dom (links some_memory)"
    by (auto simp: some_memory_def)
  ultimately have "\<exists>m'. do_calls some_memory
     [Init 1, Init 2, Add_To_End 1 3, Add_Before 1 3 0, Add_To_Start 2 1, Concatenate 1 2, Remove 1 3, Replace 1 0 2,
      Get_Next 1 2, Get_Previous 1 2, Get_Last 1, Count 2] =
     Some (m', [Changed, Changed, Changed, Changed, Changed, Changed, Changed, Changed,
       Pointer (Entry 1), Pointer Null, Pointer (Entry 1), Counted 0]) \<and>
     (\<forall>l xs. ((\<lambda>_. None)(1 \<mapsto> [2, 1], 2 \<mapsto> [])) l = Some xs \<longrightarrow> list_at m' l xs)"
    by (intro ns_list_refines_lists)
  then show ?thesis
    by (rule exists_forward) (rule lists_at_both, assumption, simp_all)
qed

end
