(* ===== verification/Ip6_String.thy ===== *)
theory Ip6_String
  imports Bit_Strings "HOL-Library.Monad_Syntax"
begin

text \<open>
  Printing and scanning IPv6 addresses and prefixes, \<open>libip6string/ip6tos.c\<close> and \<open>stoip6.c\<close> of the nanostack
  library. Characters are bytes (ASCII) and every access outside a buffer is None. \<open>size_t\<close>, \<open>unsigned long\<close> and
  \<open>int_fast16_t\<close> have 32 bits, as on the embedded targets.
\<close>

section \<open>\<open>ip6tos\<close>\<close>

text \<open>The part that \<open>*addr++\<close> reads twice; the pointer is always at twice the number of the part.\<close>

definition part_at :: "bytes \<Rightarrow> nat \<Rightarrow> nat option" where
  "part_at addr n = do {
     hi \<leftarrow> rd addr (2 * n);
     lo \<leftarrow> rd addr (2 * n + 1);
     Some (256 * unat hi + unat lo) }"

text \<open>The inner loop of the first pass: the number of the first part from n on that is not zero.\<close>

function scan_zeros :: "bytes \<Rightarrow> nat \<Rightarrow> nat option" where
  "scan_zeros addr n =
     (if n < 8 then
        (case part_at addr n of
           None \<Rightarrow> None
         | Some part \<Rightarrow> if part \<noteq> 0 then Some n else scan_zeros addr (n + 1))
      else Some n)"
  by pat_completeness auto
termination by (relation "measure (\<lambda>(addr, n). 8 - n)") auto

declare scan_zeros.simps [simp del]

lemma scan_zeros_ge: "scan_zeros addr n = Some k \<Longrightarrow> n \<le> k"
  by (induction addr n rule: scan_zeros.induct)
    (subst (asm) (2) scan_zeros.simps, fastforce split: if_splits option.splits)

function longest_run :: "bytes \<Rightarrow> nat \<Rightarrow> nat \<Rightarrow> nat \<Rightarrow> (nat \<times> nat) option" where
  "longest_run addr n zero_start zero_len =
     (if n < 8 then
        (case part_at addr n of
           None \<Rightarrow> None
         | Some part \<Rightarrow>
             if part \<noteq> 0 then longest_run addr (n + 1) zero_start zero_len
             else (case scan_zeros addr (n + 1) of
                None \<Rightarrow> None
              | Some k \<Rightarrow>
                  if k - n > zero_len then longest_run addr (k + 1) n (k - n)
                  else longest_run addr (k + 1) zero_start zero_len))
      else Some (zero_start, zero_len))"
  by pat_completeness auto
termination by (relation "measure (\<lambda>(addr, n, zero_start, zero_len). 8 - n)") (auto dest: scan_zeros_ge)

declare longest_run.simps [simp del]

text \<open>\<open>sprintf\<close> with \<open>%x\<close> and with \<open>%u\<close>, without the terminator it writes.\<close>

definition hex_digit :: "nat \<Rightarrow> u8" where
  "hex_digit d = byte_of (if d < 10 then 48 + d else 87 + d)"

fun hex_text :: "nat \<Rightarrow> bytes" where
  "hex_text n = (if n < 16 then [hex_digit n] else hex_text (n div 16) @ [hex_digit (n mod 16)])"

declare hex_text.simps [simp del]

fun decimal_text :: "nat \<Rightarrow> bytes" where
  "decimal_text n = (if n < 10 then [byte_of (48 + n)] else decimal_text (n div 10) @ [byte_of (48 + n mod 10)])"

declare decimal_text.simps [simp del]

text \<open>The second pass. A run of length 0 would be printed for ever; the first pass never answers one.\<close>

partial_function (option) print_parts ::
  "bytes \<Rightarrow> nat \<Rightarrow> nat \<Rightarrow> nat \<Rightarrow> bytes \<Rightarrow> nat \<Rightarrow> (nat \<times> bytes) option" where
  "print_parts addr n zero_start zero_len p pos =
     (if n < 8 then
        (if n = zero_start then
           do {
             (pos, p) \<leftarrow> (if n = 0 then do { p \<leftarrow> write_at p pos [0x3A]; Some (pos + 1, p) } else Some (pos, p));
             p \<leftarrow> write_at p pos [0x3A];
             print_parts addr (n + zero_len) zero_start zero_len p (pos + 1) }
         else
           do {
             part \<leftarrow> part_at addr n;
             p \<leftarrow> write_at p pos (hex_text part @ [0]);
             let pos = pos + length (hex_text part);
             (pos, p) \<leftarrow> (if n + 1 \<noteq> 8 then do { p \<leftarrow> write_at p pos [0x3A]; Some (pos + 1, p) } else Some (pos, p));
             print_parts addr (n + 1) zero_start zero_len p pos })
      else do { p \<leftarrow> write_at p pos [0]; Some (pos, p) })"

declare print_parts.simps [code]

text \<open>The returned length and the buffer. \<open>ip6tos\<close> writes to a pointer into the buffer.\<close>

definition ip6tos_at :: "bytes \<Rightarrow> bytes \<Rightarrow> nat \<Rightarrow> (nat \<times> bytes) option" where
  "ip6tos_at ip6addr p pos = do {
     (zero_start, zero_len) \<leftarrow> longest_run ip6addr 0 255 1;
     (stop, p) \<leftarrow> print_parts ip6addr 0 zero_start zero_len p pos;
     Some (u8_wrap (stop - pos), p) }"

definition ip6tos :: "bytes \<Rightarrow> bytes \<Rightarrow> (nat \<times> bytes) option" where
  "ip6tos ip6addr p = ip6tos_at ip6addr p 0"

definition ip6_prefix_tos :: "bytes \<Rightarrow> nat \<Rightarrow> bytes \<Rightarrow> (nat \<times> bytes) option" where
  "ip6_prefix_tos prefix prefix_len p =
     (if prefix_len > 128 then Some (0, p)
      else do {
        (addr, _) \<leftarrow> bitcopy (replicate 16 0) prefix prefix_len;
        (n, p) \<leftarrow> ip6tos_at addr p 0;
        p \<leftarrow> write_at p n (0x2F # decimal_text prefix_len @ [0]);
        Some (u8_wrap (n + 1 + length (decimal_text prefix_len)), p) })"

section \<open>\<open>stoip6\<close>\<close>

definition is_hex :: "u8 \<Rightarrow> bool" where
  "is_hex c \<longleftrightarrow>
     (0x41 \<le> unat (c AND NOT 0x20) \<and> unat (c AND NOT 0x20) \<le> 0x46) \<or> (0x30 \<le> unat c \<and> unat c \<le> 0x39)"

text \<open>\<open>hex\<close> reads to the first character that is no hexadecimal digit, wherever that is.\<close>

function hex :: "bytes \<Rightarrow> nat \<Rightarrow> nat \<Rightarrow> nat option" where
  "hex s p val =
     (case rd s p of
        None \<Rightarrow> None
      | Some c \<Rightarrow>
          if 0x30 \<le> unat c \<and> unat c \<le> 0x39 then hex s (p + 1) (u16_wrap (val * 16) + (unat c - 0x30))
          else if 0x41 \<le> unat c \<and> unat c \<le> 0x46 then hex s (p + 1) (u16_wrap (val * 16) + (10 + (unat c - 0x41)))
          else if 0x61 \<le> unat c \<and> unat c \<le> 0x66 then hex s (p + 1) (u16_wrap (val * 16) + (10 + (unat c - 0x61)))
          else Some val)"
  by pat_completeness auto
termination by (relation "measure (\<lambda>(s, p, val). length s - p)") (auto simp: rd_eq_Some)

declare hex.simps [simp del]

text \<open>The loop that looks for a colon or the end, from q with len characters left; the inner None is the jump to
  the error.\<close>

fun seek :: "bytes \<Rightarrow> nat \<Rightarrow> nat \<Rightarrow> (nat \<times> nat) option option" where
  "seek s 0 q = Some (Some (q, 0))"
| "seek s (Suc len) q =
     (case rd s q of
        None \<Rightarrow> None
      | Some c \<Rightarrow>
          if c = 0 \<or> c = 0x3A then Some (Some (q, Suc len))
          else if \<not> is_hex c then Some None
          else seek s len (q + 1))"

lemma seek_ge: "seek s len p = Some (Some (q, k)) \<Longrightarrow> p \<le> q"
  by (induction s len p rule: seek.induct) (fastforce split: if_splits option.splits)+

text \<open>The result of the loop: the fields read, the position of the double colon or -1, and the destination; None is
  the jump to the error. \<open>len - 2\<close> wraps around when one character is left.\<close>

function parse_fields ::
  "bytes \<Rightarrow> nat \<Rightarrow> nat \<Rightarrow> nat \<Rightarrow> int \<Rightarrow> bytes \<Rightarrow> (nat \<times> int \<times> bytes) option option" where
  "parse_fields s len p field_no coloncolon dest =
     (if len = 0 then Some (Some (field_no, coloncolon, dest))
      else case rd s p of
        None \<Rightarrow> None
      | Some c \<Rightarrow>
          if c = 0 then Some (Some (field_no, coloncolon, dest))
          else (case seek s len p of
            None \<Rightarrow> None
          | Some None \<Rightarrow> Some None
          | Some (Some (q, len1)) \<Rightarrow>
              if q - p > 4 then Some None
              else if field_no = 8 then Some None
              else (case hex s p 0 of
                None \<Rightarrow> None
              | Some val \<Rightarrow>
                  (case write_at dest (2 * field_no) [byte_of (val div 256), byte_of val] of
                     None \<Rightarrow> None
                   | Some dest1 \<Rightarrow>
                       if len1 = 0 then parse_fields s 0 (q + 1) (field_no + 1) coloncolon dest1
                       else (case rd s q of
                         None \<Rightarrow> None
                       | Some c0 \<Rightarrow>
                           if c0 \<noteq> 0x3A then parse_fields s (len1 - 1) (q + 1) (field_no + 1) coloncolon dest1
                           else (case rd s (q + 1) of
                             None \<Rightarrow> None
                           | Some c1 \<Rightarrow>
                               if c1 \<noteq> 0x3A then parse_fields s (len1 - 1) (q + 1) (field_no + 1) coloncolon dest1
                               else if coloncolon \<noteq> -1 then Some None
                               else parse_fields s (u32_wrap (len1 + 4294967294)) (q + 2) (field_no + 1)
                                      (int (field_no + 1)) dest1))))))"
  by pat_completeness auto
termination
  by (relation "measure (\<lambda>(s, len, p, field_no, coloncolon, dest). length s - p)")
    (auto simp: rd_eq_Some dest!: seek_ge)

declare parse_fields.simps [simp del]

definition stoip6 :: "bytes \<Rightarrow> nat \<Rightarrow> bytes \<Rightarrow> (bool \<times> bytes) option" where
  "stoip6 ip6addr len dest =
     (let error = (\<lambda>_. do { dest \<leftarrow> write_at dest 0 (replicate 16 0); Some (False, dest) }) in
      if len > 39 then error ()
      else (case parse_fields ip6addr len 0 0 (-1) dest of
         None \<Rightarrow> None
       | Some None \<Rightarrow> error ()
       | Some (Some (field_no, coloncolon, dest)) \<Rightarrow>
           if coloncolon \<noteq> -1 then
             (let head_size = 2 * nat coloncolon;
                  inserted_size = 2 * (8 - field_no);
                  tail_size = 16 - head_size - inserted_size in
              do {
                tail \<leftarrow> rd_block dest head_size tail_size;
                dest \<leftarrow> write_at dest (head_size + inserted_size) tail;
                dest \<leftarrow> write_at dest head_size (replicate inserted_size 0);
                Some (True, dest) })
           else if field_no \<noteq> 8 then error ()
           else Some (True, dest)))"

section \<open>Prefixes\<close>

text \<open>\<open>strchr\<close>, \<open>strlen\<close> and \<open>strtoul\<close> in base 10, which skips white space, takes a sign and stays at the largest
  value on an overflow.\<close>

function strchr :: "bytes \<Rightarrow> nat \<Rightarrow> u8 \<Rightarrow> nat option option" where
  "strchr s p x =
     (case rd s p of
        None \<Rightarrow> None
      | Some c \<Rightarrow> if c = x then Some (Some p) else if c = 0 then Some None else strchr s (p + 1) x)"
  by pat_completeness auto
termination by (relation "measure (\<lambda>(s, p, x). length s - p)") (auto simp: rd_eq_Some)

declare strchr.simps [simp del]

definition strlen :: "bytes \<Rightarrow> nat option" where
  "strlen s = do { r \<leftarrow> strchr s 0 0; r }"

function skip_space :: "bytes \<Rightarrow> nat \<Rightarrow> nat option" where
  "skip_space s p =
     (case rd s p of
        None \<Rightarrow> None
      | Some c \<Rightarrow> if unat c = 32 \<or> (9 \<le> unat c \<and> unat c \<le> 13) then skip_space s (p + 1) else Some p)"
  by pat_completeness auto
termination by (relation "measure (\<lambda>(s, p). length s - p)") (auto simp: rd_eq_Some)

declare skip_space.simps [simp del]

function digits_value :: "bytes \<Rightarrow> nat \<Rightarrow> nat \<Rightarrow> nat option" where
  "digits_value s p v =
     (case rd s p of
        None \<Rightarrow> None
      | Some c \<Rightarrow> if 48 \<le> unat c \<and> unat c \<le> 57 then digits_value s (p + 1) (10 * v + (unat c - 48)) else Some v)"
  by pat_completeness auto
termination by (relation "measure (\<lambda>(s, p, v). length s - p)") (auto simp: rd_eq_Some)

declare digits_value.simps [simp del]

definition strtoul :: "bytes \<Rightarrow> nat \<Rightarrow> nat option" where
  "strtoul s p = do {
     p \<leftarrow> skip_space s p;
     c \<leftarrow> rd s p;
     v \<leftarrow> digits_value s (if c = 0x2B \<or> c = 0x2D then p + 1 else p) 0;
     Some (if v > 4294967295 then 4294967295 else if c = 0x2D then u32_wrap (4294967296 - v) else v) }"

definition sipv6_prefixlength :: "bytes \<Rightarrow> nat option" where
  "sipv6_prefixlength ip6addr = do {
     ptr \<leftarrow> strchr ip6addr 0 0x2F;
     (case ptr of None \<Rightarrow> Some 0 | Some q \<Rightarrow> map_option u8_wrap (strtoul ip6addr (q + 1))) }"

definition s32_of :: "nat \<Rightarrow> int" where
  "s32_of n = (if n mod 4294967296 < 2147483648 then int (n mod 4294967296) else int (n mod 4294967296) - 4294967296)"

text \<open>The result, the destination and \<open>*prefix_len_out\<close>, which is None when the caller passes NULL.\<close>

definition stoip6_prefix :: "bytes \<Rightarrow> bytes \<Rightarrow> int option \<Rightarrow> (int \<times> bytes \<times> int option) option" where
  "stoip6_prefix ip6addr dest prefix_len_out = do {
     let out = map_option (\<lambda>_. -1) prefix_len_out;
     total_len \<leftarrow> strlen ip6addr;
     ptr \<leftarrow> strchr ip6addr 0 0x2F;
     let addr_len = (case ptr of None \<Rightarrow> total_len | Some q \<Rightarrow> q);
     let parse = (\<lambda>out. do {
       (ok, dest) \<leftarrow> stoip6 ip6addr addr_len dest;
       Some (if ok then 0 else -1, dest, out) });
     (case ptr of
        None \<Rightarrow> parse out
      | Some q \<Rightarrow>
          if prefix_len_out = None then parse out
          else if total_len - addr_len > 3 then Some (-1, dest, out)
          else do {
            v \<leftarrow> strtoul ip6addr (q + 1);
            let prefix_length = s32_of v;
            if prefix_length < 0 \<or> prefix_length > 128 then Some (-1, dest, out)
            else parse (Some prefix_length) }) }"

section \<open>The text of an address\<close>

definition part :: "bytes \<Rightarrow> nat \<Rightarrow> nat" where
  "part addr n = 256 * unat (addr ! (2 * n)) + unat (addr ! (2 * n + 1))"

definition part_bytes :: "nat \<Rightarrow> bytes" where
  "part_bytes v = [byte_of (v div 256), byte_of v]"

lemma part_at_eq: "length addr = 16 \<Longrightarrow> n < 8 \<Longrightarrow> part_at addr n = Some (part addr n)"
  by (simp add: part_at_def part_def rd_def)

lemma part_less: "part addr n < 65536"
  using unat_byte_less [of "addr ! (2 * n)"] unat_byte_less [of "addr ! (2 * n + 1)"]
  unfolding part_def by linarith

lemma part_bytes_part: "part_bytes (part addr n) = [addr ! (2 * n), addr ! (2 * n + 1)]"
proof -
  have "(256 * a + b) div 256 = a" "(256 * a + b) mod 256 = b" if "b < 256" for a b :: nat
    using that by simp_all
  then show ?thesis
    using unat_byte_less [of "addr ! (2 * n + 1)"] unat_byte_less [of "addr ! (2 * n)"]
    by (simp add: part_bytes_def part_def byte_eq_iff)
qed

lemma parts_bytes:
  assumes "length addr = 16" "a \<le> b" "b \<le> 8"
  shows "concat (map (\<lambda>n. part_bytes (part addr n)) [a..<b]) = take (2 * (b - a)) (drop (2 * a) addr)"
  using assms(2,3)
proof (induction b)
  case (Suc b)
  show ?case
  proof (cases "a \<le> b")
    case True
    then have "2 * (Suc b - a) = Suc (Suc (2 * (b - a)))" "2 * a + 2 * (b - a) = 2 * b" by simp_all
    with Suc True assms(1) show ?thesis by (simp add: part_bytes_part take_Suc_conv_app_nth)
  next
    case False
    with Suc.prems have "a = Suc b" by simp
    then show ?thesis by simp
  qed
qed simp

text \<open>The run of zeros that the first pass finds: none, or at least two parts, all of them zero.\<close>

definition zero_run :: "bytes \<Rightarrow> nat \<Rightarrow> nat \<Rightarrow> bool" where
  "zero_run addr zs zl \<longleftrightarrow> 1 \<le> zl \<and> (zs = 255 \<or> 2 \<le> zl \<and> zs + zl \<le> 8 \<and> (\<forall>i. zs \<le> i \<longrightarrow> i < zs + zl \<longrightarrow> part addr i = 0))"

lemma scan_zeros_run:
  "length addr = 16 \<Longrightarrow> n \<le> 8 \<Longrightarrow>
   \<exists>k. scan_zeros addr n = Some k \<and> n \<le> k \<and> k \<le> 8 \<and> (\<forall>i. n \<le> i \<longrightarrow> i < k \<longrightarrow> part addr i = 0)"
proof (induction addr n rule: scan_zeros.induct)
  case (1 addr n)
  show ?case
  proof (cases "n < 8 \<and> part addr n = 0")
    case True
    with 1 obtain k where k: "scan_zeros addr (n + 1) = Some k" "n + 1 \<le> k" "k \<le> 8"
      "\<forall>i. n + 1 \<le> i \<longrightarrow> i < k \<longrightarrow> part addr i = 0"
      by (auto simp: part_at_eq)
    moreover have "\<forall>i. n \<le> i \<longrightarrow> i < k \<longrightarrow> part addr i = 0"
      using k(4) True by (metis Suc_eq_plus1 Suc_leI le_neq_implies_less)
    ultimately show ?thesis using True 1(2) by (subst scan_zeros.simps) (simp add: part_at_eq)
  next
    case False
    then show ?thesis using 1(2,3) by (subst scan_zeros.simps) (auto simp: part_at_eq)
  qed
qed

lemma longest_run_zeros:
  "length addr = 16 \<Longrightarrow> zero_run addr zs zl \<Longrightarrow>
   \<exists>zs' zl'. longest_run addr n zs zl = Some (zs', zl') \<and> zero_run addr zs' zl'"
proof (induction addr n zs zl rule: longest_run.induct)
  case (1 addr n zs zl)
  show ?case
  proof (cases "n < 8")
    case False
    then show ?thesis using 1(5) by (subst longest_run.simps) simp
  next
    case lt: True
    note p = part_at_eq [OF 1(4) lt]
    show ?thesis
    proof (cases "part addr n = 0")
      case False
      with 1(1) [OF lt p False 1(4,5)] lt p show ?thesis by (subst longest_run.simps) simp
    next
      case True
      obtain k where k: "scan_zeros addr (n + 1) = Some k" "n + 1 \<le> k" "k \<le> 8"
        "\<forall>i. n + 1 \<le> i \<longrightarrow> i < k \<longrightarrow> part addr i = 0"
        using scan_zeros_run [OF 1(4), of "n + 1"] lt by auto
      show ?thesis
      proof (cases "k - n > zl")
        case longer: True
        have "part addr i = 0" if "n \<le> i" "i < n + (k - n)" for i
          using that k(2,4) True by (cases "i = n") auto
        then have "zero_run addr n (k - n)" using longer k(2,3) 1(5) by (auto simp: zero_run_def)
        with 1(2) [OF lt p _ k(1) longer 1(4)] longer lt p k(1) True show ?thesis
          by (subst longest_run.simps) simp
      next
        case False
        with 1(3) [OF lt p _ k(1) False 1(4,5)] lt p k(1) True show ?thesis by (subst longest_run.simps) simp
      qed
    qed
  qed
qed

definition colon_after :: "bytes list \<Rightarrow> bytes" where
  "colon_after ts = concat (map (\<lambda>t. t @ [0x3A]) ts)"

fun joined :: "bytes list \<Rightarrow> bytes" where
  "joined [] = []"
| "joined (t # ts) = t @ (if ts = [] then [] else 0x3A # joined ts)"

definition fields :: "bytes \<Rightarrow> nat \<Rightarrow> nat \<Rightarrow> bytes list" where
  "fields addr a b = map (\<lambda>n. hex_text (part addr n)) [a..<b]"

definition head_fields :: "bytes \<Rightarrow> nat \<Rightarrow> bytes list" where
  "head_fields addr zs = (if zs = 0 then [[]] else fields addr 0 zs)"

definition ip6_text :: "bytes \<Rightarrow> nat \<Rightarrow> nat \<Rightarrow> bytes" where
  "ip6_text addr zs zl =
     (if zs = 255 then joined (fields addr 0 8)
      else colon_after (head_fields addr zs) @ 0x3A # joined (fields addr (zs + zl) 8))"

lemma fields_step: "a < b \<Longrightarrow> fields addr a b = hex_text (part addr a) # fields addr (a + 1) b"
  by (simp add: fields_def upt_conv_Cons)

lemma fields_empty: "fields addr a b = [] \<longleftrightarrow> b \<le> a"
  by (auto simp: fields_def)

lemma hex_text_length: "n < 16 ^ k \<Longrightarrow> 0 < k \<Longrightarrow> length (hex_text n) \<le> k"
proof (induction k arbitrary: n)
  case (Suc k)
  show ?case
  proof (cases "n < 16")
    case True
    then show ?thesis by (subst hex_text.simps) simp
  next
    case False
    with Suc.prems have "0 < k" by (cases k) auto
    moreover have "n div 16 < 16 ^ k" using Suc.prems(1) by (simp add: less_mult_imp_div_less mult.commute)
    ultimately show ?thesis using Suc.IH [of "n div 16"] False by (subst hex_text.simps) simp
  qed
qed simp

lemma part_text_length: "length (hex_text (part addr n)) \<le> 4"
  using hex_text_length [of "part addr n" 4] part_less [of addr n] by simp

lemma colon_after_length: "\<forall>t \<in> set ts. length t \<le> 4 \<Longrightarrow> length (colon_after ts) \<le> 5 * length ts"
  by (induction ts) (auto simp: colon_after_def)

lemma joined_length: "\<forall>t \<in> set ts. length t \<le> 4 \<Longrightarrow> length (joined ts) \<le> 5 * length ts - 1"
proof (induction ts)
  case (Cons t ts)
  then show ?case by (cases ts) auto
qed simp

lemma fields_lengths: "\<forall>t \<in> set (fields addr a b). length t \<le> 4" "length (fields addr a b) = b - a"
  by (auto simp: fields_def part_text_length)

lemma ip6_text_length:
  assumes "zero_run addr zs zl"
  shows "length (ip6_text addr zs zl) \<le> 39"
proof (cases "zs = 255")
  case True
  then show ?thesis using joined_length [OF fields_lengths(1), of addr 0 8] by (simp add: ip6_text_def fields_lengths)
next
  case False
  then have zl: "2 \<le> zl" "zs + zl \<le> 8" using assms by (auto simp: zero_run_def)
  have t: "length (joined (fields addr (zs + zl) 8)) \<le> 5 * (8 - (zs + zl)) - 1"
    using joined_length [OF fields_lengths(1)] by (simp only: fields_lengths(2))
  show ?thesis
  proof (cases "zs = 0")
    case True
    with t zl False show ?thesis by (simp add: ip6_text_def head_fields_def colon_after_def)
  next
    case pos: False
    have "length (colon_after (fields addr 0 zs)) \<le> 5 * zs"
      using colon_after_length [OF fields_lengths(1), of addr 0 zs] by (simp only: fields_lengths(2) diff_zero)
    with t zl False pos show ?thesis by (simp add: ip6_text_def head_fields_def)
  qed
qed

section \<open>Printing\<close>

lemma print_tail:
  assumes "length addr = 16"
  shows "n \<le> 8 \<Longrightarrow> zs < n \<or> 8 \<le> zs \<Longrightarrow> length y = length (joined (fields addr n 8)) + 1 \<Longrightarrow>
   print_parts addr n zs zl (b @ y @ z) (length b) =
     Some (length b + length (joined (fields addr n 8)), b @ joined (fields addr n 8) @ 0 # z)"
proof (induction "8 - n" arbitrary: n b y)
  case 0
  then have "n = 8" by simp
  with 0(4) write_at_append [of y "[0]" b z] show ?case
    by (subst print_parts.simps) (simp add: fields_def)
next
  case (Suc d)
  then have lt: "n < 8" "n \<noteq> zs" by auto
  let ?t = "hex_text (part addr n)" and ?r = "joined (fields addr (n + 1) 8)"
  let ?k = "length ?t + 1"
  note p = part_at_eq [OF assms lt(1)]
  have f: "fields addr n 8 = ?t # fields addr (n + 1) 8" by (rule fields_step [OF lt(1)])
  have y: "length y = length ?t + (if n = 7 then 0 else length ?r + 1) + 1"
    using Suc.prems(3) lt(1) unfolding f by (auto simp: fields_empty)
  have w: "write_at (b @ y @ z) (length b) (?t @ [0]) = Some (b @ (?t @ [0]) @ drop ?k y @ z)"
    using write_at_append [of "take ?k y" "?t @ [0]" b "drop ?k y @ z"] y
    by (simp only: append_assoc [symmetric] append_take_drop_id) (simp split: if_splits)
  show ?case
  proof (cases "n = 7")
    case True
    have "write_at (b @ ?t @ 0 # z) (length b + length ?t) [0] = Some (b @ ?t @ 0 # z)"
      using write_at_append [of "[0]" "[0]" "b @ ?t" z] by simp
    then have "print_parts addr 8 zs zl (b @ ?t @ 0 # z) (length b + length ?t) = Some (length b + length ?t, b @ ?t @ 0 # z)"
      by (subst print_parts.simps) simp
    moreover have "joined (fields addr n 8) = ?t" using True f by (simp add: fields_empty)
    ultimately show ?thesis using True w p lt(2) y
      by (subst print_parts.simps) (simp add: Let_def)
  next
    case False
    have colon: "write_at (b @ (?t @ [0]) @ drop ?k y @ z) (length b + length ?t) [0x3A] =
        Some ((b @ ?t @ [0x3A]) @ drop ?k y @ z)"
      using write_at_append [of "[0]" "[0x3A]" "b @ ?t" "drop ?k y @ z"] by simp
    have "print_parts addr (n + 1) zs zl ((b @ ?t @ [0x3A]) @ drop ?k y @ z) (length (b @ ?t @ [0x3A])) =
        Some (length (b @ ?t @ [0x3A]) + length ?r, (b @ ?t @ [0x3A]) @ ?r @ 0 # z)"
      by (rule Suc.hyps(1)) (use Suc.hyps(2) Suc.prems(1,2) lt y False in auto)
    with False w colon p lt show ?thesis
      by (subst print_parts.simps) (simp add: Let_def f fields_empty)
  qed
qed

lemma print_head:
  assumes "length addr = 16" "zs < 8"
  shows "n \<le> zs \<Longrightarrow> length y = length (colon_after (fields addr n zs)) \<Longrightarrow>
   print_parts addr n zs zl (b @ y @ z) (length b) =
   print_parts addr zs zs zl (b @ colon_after (fields addr n zs) @ z) (length b + length y)"
proof (induction "zs - n" arbitrary: n b y)
  case 0
  then have "n = zs" by simp
  with 0(3) show ?case by (simp add: fields_def colon_after_def)
next
  case (Suc d)
  then have lt: "n < zs" "n < 8" using assms(2) by auto
  let ?t = "hex_text (part addr n)" and ?r = "colon_after (fields addr (n + 1) zs)"
  let ?k = "length ?t + 1"
  note p = part_at_eq [OF assms(1) lt(2)]
  have f: "colon_after (fields addr n zs) = ?t @ 0x3A # ?r"
    by (simp add: fields_step [OF lt(1)] colon_after_def)
  have y: "length y = ?k + length ?r" using Suc.prems(2) by (simp add: f)
  have w: "write_at (b @ y @ z) (length b) (?t @ [0]) = Some (b @ (?t @ [0]) @ drop ?k y @ z)"
    using write_at_append [of "take ?k y" "?t @ [0]" b "drop ?k y @ z"] y
    by (simp only: append_assoc [symmetric] append_take_drop_id) simp
  have colon: "write_at (b @ (?t @ [0]) @ drop ?k y @ z) (length b + length ?t) [0x3A] =
      Some ((b @ ?t @ [0x3A]) @ drop ?k y @ z)"
    using write_at_append [of "[0]" "[0x3A]" "b @ ?t" "drop ?k y @ z"] by simp
  have "print_parts addr (n + 1) zs zl ((b @ ?t @ [0x3A]) @ drop ?k y @ z) (length (b @ ?t @ [0x3A])) =
      print_parts addr zs zs zl ((b @ ?t @ [0x3A]) @ ?r @ z) (length (b @ ?t @ [0x3A]) + length (drop ?k y))"
    by (rule Suc.hyps(1)) (use Suc.hyps(2) lt y in auto)
  with w colon p lt assms(2) y show ?case
    by (subst print_parts.simps) (simp add: Let_def f add.assoc)
qed

lemma print_run:
  assumes "length addr = 16" "zero_run addr zs zl" "zs \<noteq> 255"
    and "length y = length (ip6_text addr zs zl) + 1"
  shows "print_parts addr 0 zs zl (b @ y @ z) (length b) =
    Some (length b + length (ip6_text addr zs zl), b @ ip6_text addr zs zl @ 0 # z)"
proof -
  have zl: "2 \<le> zl" "zs + zl \<le> 8" using assms(2,3) by (auto simp: zero_run_def)
  let ?h = "if zs = 0 then [0x3A] else colon_after (fields addr 0 zs)"
  let ?t = "joined (fields addr (zs + zl) 8)"
  have txt_eq: "ip6_text addr zs zl = ?h @ 0x3A # ?t"
    using assms(3) by (simp add: ip6_text_def head_fields_def colon_after_def)
  obtain y1 c y2 where y: "y = y1 @ c # y2" "length y1 = length ?h" "length y2 = length ?t + 1"
  proof -
    have lt: "length ?h < length y" using assms(4) txt_eq by auto
    show ?thesis
      by (rule that [OF id_take_nth_drop [OF lt]]) (use assms(4) txt_eq in auto)
  qed
  have colon: "write_at (b @ ?h @ (c # y2) @ z) (length b + length ?h) [0x3A] = Some ((b @ ?h @ [0x3A]) @ y2 @ z)"
    using write_at_append [of "[c]" "[0x3A]" "b @ ?h" "y2 @ z"] by simp
  have tail: "print_parts addr (zs + zl) zs zl ((b @ ?h @ [0x3A]) @ y2 @ z) (length (b @ ?h @ [0x3A])) =
      Some (length (b @ ?h @ [0x3A]) + length ?t, (b @ ?h @ [0x3A]) @ ?t @ 0 # z)"
    by (rule print_tail [OF assms(1)]) (use zl y(3) in auto)
  have at_run: "print_parts addr 0 zs zl (b @ y @ z) (length b) =
      do { p \<leftarrow> write_at (b @ ?h @ (c # y2) @ z) (length b + length ?h) [0x3A];
           print_parts addr (zs + zl) zs zl p (length b + length ?h + 1) }"
  proof (cases "zs = 0")
    case True
    have "write_at (b @ y @ z) (length b) [0x3A] = Some (b @ [0x3A] @ (c # y2) @ z)"
      using write_at_append [of y1 "[0x3A]" b "(c # y2) @ z"] y(2) True by (simp add: y(1))
    with True show ?thesis by (subst print_parts.simps) simp
  next
    case False
    have "print_parts addr 0 zs zl (b @ y1 @ (c # y2) @ z) (length b) =
        print_parts addr zs zs zl (b @ colon_after (fields addr 0 zs) @ (c # y2) @ z) (length b + length y1)"
      using print_head [OF assms(1), of zs 0 y1 zl b "(c # y2) @ z"] zl y(2) False by auto
    also have "\<dots> = do { p \<leftarrow> write_at (b @ ?h @ (c # y2) @ z) (length b + length ?h) [0x3A];
             print_parts addr (zs + zl) zs zl p (length b + length ?h + 1) }"
      using False zl y(2) by (subst print_parts.simps) simp
    finally show ?thesis by (simp add: y(1))
  qed
  show ?thesis unfolding at_run colon using tail by (simp add: txt_eq)
qed

lemma ip6tos_at_text:
  assumes "length addr = 16"
  obtains zs zl where "zero_run addr zs zl"
    "\<And>b y z. length y = length (ip6_text addr zs zl) + 1 \<Longrightarrow>
       ip6tos_at addr (b @ y @ z) (length b) =
       Some (length (ip6_text addr zs zl), b @ ip6_text addr zs zl @ 0 # z)"
proof -
  have "zero_run addr 255 1" by (simp add: zero_run_def)
  from longest_run_zeros [OF assms this] obtain zs zl where
    run: "longest_run addr 0 255 1 = Some (zs, zl)" "zero_run addr zs zl" by blast
  have "ip6tos_at addr (b @ y @ z) (length b) = Some (length (ip6_text addr zs zl), b @ ip6_text addr zs zl @ 0 # z)"
    if y: "length y = length (ip6_text addr zs zl) + 1" for b y z
  proof -
    have "print_parts addr 0 zs zl (b @ y @ z) (length b) =
        Some (length b + length (ip6_text addr zs zl), b @ ip6_text addr zs zl @ 0 # z)"
    proof (cases "zs = 255")
      case True
      then show ?thesis using print_tail [OF assms, of 0 255 y zl b z] y by (simp add: ip6_text_def)
    qed (rule print_run [OF assms run(2) _ y])
    then show ?thesis using run(1) ip6_text_length [OF run(2)] by (simp add: ip6tos_at_def u8_wrap_id)
  qed
  with run(2) show ?thesis using that by blast
qed

section \<open>Scanning\<close>

definition hex_value :: "u8 \<Rightarrow> nat" where
  "hex_value c = (if unat c \<le> 0x39 then unat c - 0x30 else if unat c \<le> 0x46 then 10 + (unat c - 0x41) else 10 + (unat c - 0x61))"

definition hex_char :: "u8 \<Rightarrow> bool" where
  "hex_char c \<longleftrightarrow> (0x30 \<le> unat c \<and> unat c \<le> 0x39) \<or> (0x41 \<le> unat c \<and> unat c \<le> 0x46) \<or> (0x61 \<le> unat c \<and> unat c \<le> 0x66)"

definition hex_fold :: "nat \<Rightarrow> bytes \<Rightarrow> nat" where
  "hex_fold v cs = foldl (\<lambda>v c. v * 16 + hex_value c) v cs"

lemma hex_fold_simps [simp]:
  "hex_fold v [] = v" "hex_fold v (c # cs) = hex_fold (v * 16 + hex_value c) cs"
  "hex_fold v (xs @ ys) = hex_fold (hex_fold v xs) ys"
  by (simp_all add: hex_fold_def)

lemma hex_fold_mono: "v \<le> hex_fold v cs"
proof (induction cs arbitrary: v)
  case (Cons c cs)
  from Cons [of "v * 16 + hex_value c"] show ?case by simp
qed simp

lemma hex_digit_facts:
  assumes "d < 16"
  shows "is_hex (hex_digit d)" "hex_char (hex_digit d)" "hex_value (hex_digit d) = d"
proof -
  from assms consider "d = 0" | "d = 1" | "d = 2" | "d = 3" | "d = 4" | "d = 5" | "d = 6" | "d = 7" | "d = 8"
    | "d = 9" | "d = 10" | "d = 11" | "d = 12" | "d = 13" | "d = 14" | "d = 15" by atomize_elim presburger
  then have "is_hex (hex_digit d) \<and> hex_char (hex_digit d) \<and> hex_value (hex_digit d) = d"
    by cases (simp_all add: is_hex_def hex_char_def hex_value_def hex_digit_def byte_of_def)
  then show "is_hex (hex_digit d)" "hex_char (hex_digit d)" "hex_value (hex_digit d) = d" by auto
qed

lemma hex_text_facts:
  "\<forall>c \<in> set (hex_text n). is_hex c \<and> hex_char c" "hex_text n \<noteq> []" "hex_fold 0 (hex_text n) = n"
proof -
  show "\<forall>c \<in> set (hex_text n). is_hex c \<and> hex_char c"
    by (induction n rule: hex_text.induct) (subst hex_text.simps, auto simp: hex_digit_facts)
  show "hex_text n \<noteq> []" by (subst hex_text.simps) simp
  show "hex_fold 0 (hex_text n) = n"
    by (induction n rule: hex_text.induct) (subst hex_text.simps, auto simp: hex_digit_facts)
qed

text \<open>A field: at most four hexadecimal digits.\<close>

definition field :: "bytes \<Rightarrow> bool" where
  "field t \<longleftrightarrow> length t \<le> 4 \<and> (\<forall>c \<in> set t. is_hex c \<and> hex_char c)"

lemma hex_char_not_end: "hex_char c \<Longrightarrow> c \<noteq> 0 \<and> c \<noteq> 0x3A"
  by (auto simp: hex_char_def)

lemma seek_field:
  assumes "at s p (t @ c # r)" "\<forall>c \<in> set t. is_hex c \<and> hex_char c" "length t \<le> len" "len = length t \<or> c = 0x3A"
  shows "seek s len p = Some (Some (p + length t, len - length t))"
  using assms
proof (induction t arbitrary: p len)
  case Nil
  then show ?case using at_rd [of s p c r] by (cases len) auto
next
  case (Cons x t)
  obtain l where l: "len = Suc l" using Cons.prems(3) by (cases len) auto
  have "seek s l (p + 1) = Some (Some (p + 1 + length t, l - length t))"
    by (rule Cons.IH) (use Cons.prems l at_Cons [of s p x "t @ c # r"] in auto)
  then show ?case using at_rd [of s p x "t @ c # r"] Cons.prems hex_char_not_end [of x] by (simp add: l)
qed

lemma hex_field:
  assumes "at s p (t @ c # r)" "\<forall>c \<in> set t. hex_char c" "\<not> hex_char c" "hex_fold v t < 65536"
  shows "hex s p v = Some (hex_fold v t)"
  using assms
proof (induction t arbitrary: p v)
  case Nil
  then show ?case using at_rd [of s p c r] by (subst hex.simps) (auto simp: hex_char_def)
next
  case (Cons x t)
  have "v * 16 + hex_value x < 65536"
    using hex_fold_mono [of "v * 16 + hex_value x" t] Cons.prems(4) by simp
  then have step: "u16_wrap (v * 16) = v * 16" by (simp add: u16_wrap_id)
  have "hex s (p + 1) (v * 16 + hex_value x) = Some (hex_fold (v * 16 + hex_value x) t)"
    by (rule Cons.IH) (use Cons.prems at_Cons [of s p x "t @ c # r"] in auto)
  moreover have "hex_char x" using Cons.prems(2) by simp
  ultimately show ?case using at_rd [of s p x "t @ c # r"] Cons.prems(1) step
    by (subst hex.simps) (auto simp: hex_char_def hex_value_def)
qed

lemma hex_fold_small: "field t \<Longrightarrow> hex_fold 0 t < 65536"
proof -
  have "hex_fold v t < (v + 1) * 16 ^ length t" if "\<forall>c \<in> set t. hex_char c" for v
    using that
  proof (induction t arbitrary: v)
    case (Cons c t)
    have "hex_value c < 16" using Cons.prems by (auto simp: hex_value_def hex_char_def)
    then have "(v * 16 + hex_value c + 1) * 16 ^ length t \<le> (v + 1) * 16 * 16 ^ length t"
      by (intro mult_right_mono) auto
    moreover have "hex_fold (v * 16 + hex_value c) t < (v * 16 + hex_value c + 1) * 16 ^ length t"
      using Cons by simp
    ultimately have "hex_fold (v * 16 + hex_value c) t < (v + 1) * 16 * 16 ^ length t" by (rule less_le_trans [rotated])
    then show ?case by (simp only: hex_fold_simps list.size power_Suc mult.assoc add_0_right power_add power_one_right) (simp add: mult.commute)
  qed simp
  from this [of 0] show "hex_fold 0 t < 65536" if "field t"
  proof -
    have "(16 :: nat) ^ length t \<le> 16 ^ 4" using that by (intro power_increasing) (auto simp: field_def)
    with \<open>\<forall>c \<in> set t. hex_char c \<Longrightarrow> hex_fold 0 t < (0 + 1) * 16 ^ length t\<close> that show ?thesis
      by (auto simp: field_def)
  qed
qed

lemma parse_one_field:
  assumes a: "at s p (t @ c # r)" and f: "field t" and c: "\<not> hex_char c" "t = [] \<longrightarrow> c = 0x3A"
    and len: "0 < len" "length t \<le> len" "len = length t \<or> c = 0x3A"
    and room: "fn < 8" "length d1 = 2 * fn" "length m = 2"
  shows "parse_fields s len p fn cc (d1 @ m @ d2) =
    (let d = d1 @ part_bytes (hex_fold 0 t) @ d2; len1 = len - length t; q = p + length t in
     if len1 = 0 then parse_fields s 0 (q + 1) (fn + 1) cc d
     else (case rd s (q + 1) of
       None \<Rightarrow> None
     | Some c1 \<Rightarrow>
         if c1 \<noteq> 0x3A then parse_fields s (len1 - 1) (q + 1) (fn + 1) cc d
         else if cc \<noteq> -1 then Some None
         else parse_fields s (u32_wrap (len1 + 4294967294)) (q + 2) (fn + 1) (int (fn + 1)) d))"
proof -
  have chars: "\<forall>c \<in> set t. is_hex c \<and> hex_char c" "length t \<le> 4" using f by (auto simp: field_def)
  note sk = seek_field [OF a chars(1) len(2,3)]
  have hx: "hex s p 0 = Some (hex_fold 0 t)"
    by (rule hex_field [OF a]) (use chars c hex_fold_small [OF f] in auto)
  have first: "\<exists>x. rd s p = Some x \<and> x \<noteq> 0"
    using a c(2) at_rd [of s p "hd (t @ [c])" "tl (t @ [c]) @ r"] chars(1) hex_char_not_end by (cases t) auto
  have w: "write_at (d1 @ m @ d2) (2 * fn) (part_bytes (hex_fold 0 t)) = Some (d1 @ part_bytes (hex_fold 0 t) @ d2)"
    using write_at_append [of m "part_bytes (hex_fold 0 t)" d1 d2] room by (simp add: part_bytes_def)
  have q: "rd s (p + length t) = Some c" using at_rd [OF at_append [OF a]] .
  have "len - length t \<noteq> 0 \<Longrightarrow> c = 0x3A" using len by auto
  with first sk hx w q chars(2) len(1) room(1) show ?thesis
    by (subst parse_fields.simps) (auto simp: part_bytes_def Let_def)
qed

definition fields_bytes :: "bytes list \<Rightarrow> bytes" where
  "fields_bytes ts = concat (map (\<lambda>t. part_bytes (hex_fold 0 t)) ts)"

lemma fields_bytes_simps [simp]:
  "fields_bytes [] = []" "fields_bytes (t # ts) = part_bytes (hex_fold 0 t) @ fields_bytes ts"
  "length (fields_bytes ts) = 2 * length ts" "length (part_bytes v) = 2"
proof -
  show "length (fields_bytes ts) = 2 * length ts" by (induction ts) (auto simp: fields_bytes_def part_bytes_def)
qed (auto simp: fields_bytes_def part_bytes_def)

lemma parse_end: "parse_fields s 0 p fn cc d = Some (Some (fn, cc, d))"
  by (subst parse_fields.simps) simp

lemma joined_first:
  assumes "ts \<noteq> []" "\<forall>t \<in> set ts. field t \<and> t \<noteq> []"
  obtains x xs where "joined ts = x # xs" "x \<noteq> 0x3A" "x \<noteq> 0"
proof -
  obtain t ts' where "ts = t # ts'" using assms(1) by (cases ts) auto
  with assms(2) obtain x xs where "t = x # xs" "hex_char x" by (cases t) (auto simp: field_def)
  with \<open>ts = t # ts'\<close> that [of x] hex_char_not_end [of x] show ?thesis by auto
qed

lemma parse_tail:
  assumes "\<not> hex_char c"
  shows "at s p (joined ts @ c # r) \<Longrightarrow> ts \<noteq> [] \<Longrightarrow> \<forall>t \<in> set ts. field t \<and> t \<noteq> [] \<Longrightarrow> fn + length ts \<le> 8 \<Longrightarrow>
   length d1 = 2 * fn \<Longrightarrow> length m = 2 * length ts \<Longrightarrow>
   parse_fields s (length (joined ts)) p fn cc (d1 @ m @ d2) =
     Some (Some (fn + length ts, cc, d1 @ fields_bytes ts @ d2))"
proof (induction ts arbitrary: p fn d1 m)
  case (Cons t ts)
  have f: "field t" "t \<noteq> []" using Cons.prems(3) by auto
  obtain m1 m2 where m: "m = m1 @ m2" "length m1 = 2" "length m2 = 2 * length ts"
    by (rule that [of "take 2 m" "drop 2 m"]) (use Cons.prems(6) in auto)
  show ?case
  proof (cases "ts = []")
    case True
    have "parse_fields s (length t) p fn cc (d1 @ m @ d2) = Some (Some (fn + 1, cc, d1 @ part_bytes (hex_fold 0 t) @ d2))"
      using parse_one_field [of s p t c r "length t" fn d1 m cc d2] assms(1) f Cons.prems True
      by (simp add: parse_end)
    with True show ?thesis by simp
  next
    case False
    have rest: "\<forall>t \<in> set ts. field t \<and> t \<noteq> []" using Cons.prems(3) by simp
    from joined_first [OF False rest] obtain x xs where x: "joined ts = x # xs" "x \<noteq> 0x3A" .
    have a: "at s p (t @ 0x3A # joined ts @ c # r)" using Cons.prems(1) False by simp
    note a1 = at_Cons [OF at_append [OF a]]
    have colon: "\<not> hex_char 0x3A" by (simp add: hex_char_def)
    have "parse_fields s (length t + 1 + length (joined ts)) p fn cc (d1 @ m1 @ m2 @ d2) =
        parse_fields s (length (joined ts)) (p + length t + 1) (fn + 1) cc (d1 @ part_bytes (hex_fold 0 t) @ m2 @ d2)"
      using parse_one_field [OF a f(1) colon, of "length t + 1 + length (joined ts)" fn d1 m1 cc "m2 @ d2"]
        Cons.prems(4,5) m(2) at_rd [OF a1 [unfolded x(1) append_Cons]] x(2)
      by simp
    moreover have "parse_fields s (length (joined ts)) (p + length t + 1) (fn + 1) cc
        ((d1 @ part_bytes (hex_fold 0 t)) @ m2 @ d2) =
        Some (Some (fn + 1 + length ts, cc, (d1 @ part_bytes (hex_fold 0 t)) @ fields_bytes ts @ d2))"
      by (rule Cons.IH [OF a1 False rest]) (use Cons.prems m in auto)
    ultimately have "parse_fields s (length t + 1 + length (joined ts)) p fn cc (d1 @ (m1 @ m2) @ d2) =
        Some (Some (fn + 1 + length ts, cc, d1 @ (part_bytes (hex_fold 0 t) @ fields_bytes ts) @ d2))"
      by simp
    then show ?thesis using False by (simp add: m(1))
  qed
qed simp

lemma wrap_minus_two:
  assumes "2 \<le> n" "n \<le> 39"
  shows "u32_wrap (n + 4294967294) = n - 2"
proof -
  obtain k where "n = k + 2" using assms(1) by (metis le_add_diff_inverse2)
  then have "n + 4294967294 = k + 4294967296" "k < 4294967296" using assms(2) by simp_all
  with \<open>n = k + 2\<close> show ?thesis by (simp only: u32_wrap_def mod_add_self2 mod_less diff_add_inverse2)
qed

lemma parse_head:
  "at s p (colon_after ts @ 0x3A # r) \<Longrightarrow> ts \<noteq> [] \<Longrightarrow> \<forall>t \<in> set ts. field t \<Longrightarrow> \<forall>t \<in> set (tl ts). t \<noteq> [] \<Longrightarrow>
   fn + length ts \<le> 8 \<Longrightarrow> length (colon_after ts) < len \<Longrightarrow> len \<le> 39 \<Longrightarrow>
   length d1 = 2 * fn \<Longrightarrow> length m = 2 * length ts \<Longrightarrow>
   parse_fields s len p fn (-1) (d1 @ m @ d2) =
     parse_fields s (len - length (colon_after ts) - 1) (p + length (colon_after ts) + 1) (fn + length ts)
       (int (fn + length ts)) (d1 @ fields_bytes ts @ d2)"
proof (induction ts arbitrary: p fn d1 m len)
  case (Cons t ts)
  obtain m1 m2 where m: "m = m1 @ m2" "length m1 = 2" "length m2 = 2 * length ts"
    by (rule that [of "take 2 m" "drop 2 m"]) (use Cons.prems(9) in auto)
  have f: "field t" using Cons.prems(3) by simp
  have colon: "\<not> hex_char 0x3A" by (simp add: hex_char_def)
  have a: "at s p (t @ 0x3A # colon_after ts @ 0x3A # r)" using Cons.prems(1) by (simp add: colon_after_def)
  have len: "length t + 1 + length (colon_after ts) < len" using Cons.prems(6) by (simp add: colon_after_def)
  note a1 = at_Cons [OF at_append [OF a]]
  note step = parse_one_field [OF a f colon, of len fn d1 m1 "-1" "m2 @ d2"]
  show ?case
  proof (cases "ts = []")
    case True
    have "u32_wrap (len - length t + 4294967294) = len - length t - 2"
      by (rule wrap_minus_two) (use len True Cons.prems(7) in auto)
    moreover have "rd s (p + length t + 1) = Some 0x3A" using a1 True at_rd by (auto simp: colon_after_def)
    ultimately have "parse_fields s len p fn (-1) (d1 @ m1 @ m2 @ d2) =
        parse_fields s (len - length t - 2) (p + length t + 2) (fn + 1) (int (fn + 1)) (d1 @ part_bytes (hex_fold 0 t) @ m2 @ d2)"
      using step Cons.prems(5,8) m(2) len True by simp
    with True m show ?thesis by (simp add: colon_after_def)
  next
    case False
    then obtain t' ts' where ts: "ts = t' # ts'" by (cases ts) auto
    then have "field t'" "t' \<noteq> []" using Cons.prems(3,4) by auto
    then obtain x xs where x: "t' = x # xs" "hex_char x" by (cases t') (auto simp: field_def)
    then have "rd s (p + length t + 1) = Some x" using a1 ts at_rd by (auto simp: colon_after_def)
    then have "parse_fields s len p fn (-1) (d1 @ m1 @ m2 @ d2) =
        parse_fields s (len - length t - 1) (p + length t + 1) (fn + 1) (-1) (d1 @ part_bytes (hex_fold 0 t) @ m2 @ d2)"
      using step Cons.prems(5,8) m(2) len hex_char_not_end [OF x(2)] False by simp
    moreover have "parse_fields s (len - length t - 1) (p + length t + 1) (fn + 1) (-1)
        ((d1 @ part_bytes (hex_fold 0 t)) @ m2 @ d2) =
      parse_fields s (len - length t - 1 - length (colon_after ts) - 1) (p + length t + 1 + length (colon_after ts) + 1)
        (fn + 1 + length ts) (int (fn + 1 + length ts)) ((d1 @ part_bytes (hex_fold 0 t)) @ fields_bytes ts @ d2)"
    proof (rule Cons.IH [OF a1 False])
      show "\<forall>t \<in> set (tl ts). t \<noteq> []" using Cons.prems(4) ts by simp
    qed (use Cons.prems m(3) len in auto)
    ultimately have "parse_fields s len p fn (-1) (d1 @ (m1 @ m2) @ d2) =
      parse_fields s (len - length t - 1 - length (colon_after ts) - 1) (p + length t + 1 + length (colon_after ts) + 1)
        (fn + 1 + length ts) (int (fn + 1 + length ts)) (d1 @ (part_bytes (hex_fold 0 t) @ fields_bytes ts) @ d2)"
      by simp
    then show ?thesis by (simp add: m(1) colon_after_def algebra_simps)
  qed
qed simp

lemma fields_are_fields: "\<forall>t \<in> set (fields addr a b). field t \<and> t \<noteq> []"
  using hex_text_facts part_text_length by (auto simp: fields_def field_def)

lemma fields_bytes_fields:
  assumes "length addr = 16" "a \<le> b" "b \<le> 8"
  shows "fields_bytes (fields addr a b) = take (2 * (b - a)) (drop (2 * a) addr)"
  using parts_bytes [OF assms] by (simp add: fields_bytes_def fields_def hex_text_facts(3) comp_def)

text \<open>The bytes of a run of zeros are zero.\<close>

lemma zero_bytes:
  assumes "length addr = 16" "a \<le> b" "b \<le> 8" "\<forall>i. a \<le> i \<longrightarrow> i < b \<longrightarrow> part addr i = 0"
  shows "take (2 * (b - a)) (drop (2 * a) addr) = replicate (2 * (b - a)) 0"
proof -
  have eq: "take (2 * (b - a)) (drop (2 * a) addr) = concat (map (\<lambda>n. part_bytes (part addr n)) [a..<b])"
    using parts_bytes [OF assms(1-3)] by simp
  show ?thesis
  proof (rule replicate_eqI)
    show "length (take (2 * (b - a)) (drop (2 * a) addr)) = 2 * (b - a)" using assms(1-3) by simp
    show "y = 0" if "y \<in> set (take (2 * (b - a)) (drop (2 * a) addr))" for y
      using that assms(4) unfolding eq by (auto simp: part_bytes_def byte_of_def split: if_splits)
  qed
qed

end
