(* ===== verification/Ip6_Roundtrip.thy ===== *)
theory Ip6_Roundtrip
  imports Ip6_String
begin

text \<open>
  What \<open>ip6tos\<close> and \<open>ip6_prefix_tos\<close> write is read back by \<open>stoip6\<close> and \<open>stoip6_prefix\<close>, with one exception: prefixes
  of 100 bits and more.
\<close>

section \<open>The round trip\<close>

lemma insert_zeros:
  assumes "length h = 2 * k" "length t = 2 * n" "k + n \<le> 8" "length d = 16" "d = h @ t @ r"
  shows "rd_block d (2 * k) (2 * n) = Some t"
    "write_at d (2 * k + 2 * (8 - (k + n))) t = Some (take (2 * k + 2 * (8 - (k + n))) d @ t)"
    "write_at (take (2 * k + 2 * (8 - (k + n))) d @ t) (2 * k) (replicate (2 * (8 - (k + n))) 0) =
       Some (h @ replicate (2 * (8 - (k + n))) 0 @ t)"
proof -
  let ?i = "2 * (8 - (k + n))"
  show "rd_block d (2 * k) (2 * n) = Some t"
    using rd_block_append [of h t r] assms(1,2,5) by simp
  have len: "2 * k + ?i + 2 * n = 16" using assms(3) by simp
  then show "write_at d (2 * k + ?i) t = Some (take (2 * k + ?i) d @ t)"
    using assms(2,4) by (simp add: write_at_def)
  have "take (2 * k + ?i) d = h @ take ?i (t @ r)" using assms(1,5) by simp
  moreover have "length (take ?i (t @ r)) = length (replicate ?i (0 :: u8))"
    using assms len by simp
  ultimately show "write_at (take (2 * k + ?i) d @ t) (2 * k) (replicate ?i 0) = Some (h @ replicate ?i 0 @ t)"
    using write_at_append [of "take ?i (t @ r)" "replicate ?i 0" h t] by (simp only: append_assoc assms(1))
qed

lemma head_fields_facts:
  assumes "zs \<noteq> 255"
  shows "length (head_fields addr zs) = (if zs = 0 then 1 else zs)" "\<forall>t \<in> set (head_fields addr zs). field t"
    "\<forall>t \<in> set (tl (head_fields addr zs)). t \<noteq> []" "head_fields addr zs \<noteq> []"
proof -
  show "\<forall>t \<in> set (head_fields addr zs). field t"
    using fields_are_fields by (auto simp: head_fields_def field_def)
  show "\<forall>t \<in> set (tl (head_fields addr zs)). t \<noteq> []"
    using fields_are_fields [of addr 0 zs] by (cases "fields addr 0 zs") (auto simp: head_fields_def)
qed (auto simp: head_fields_def fields_lengths fields_empty)

lemma parse_run:
  assumes addr: "length addr = 16" and run: "zero_run addr zs zl" "zs \<noteq> 255"
    and a: "at s 0 (ip6_text addr zs zl @ c # r)" and c: "\<not> hex_char c" and dest: "length dest = 16"
  shows "\<exists>rest. parse_fields s (length (ip6_text addr zs zl)) 0 0 (-1) dest =
      Some (Some (length (head_fields addr zs) + (8 - (zs + zl)), int (length (head_fields addr zs)),
        fields_bytes (head_fields addr zs) @ fields_bytes (fields addr (zs + zl) 8) @ rest)) \<and>
      length (fields_bytes (head_fields addr zs) @ fields_bytes (fields addr (zs + zl) 8) @ rest) = 16"
proof -
  let ?h = "head_fields addr zs" and ?t = "fields addr (zs + zl) 8"
  have zl: "2 \<le> zl" "zs + zl \<le> 8" using run by (auto simp: zero_run_def)
  have k: "length ?h + length ?t \<le> 8" using zl by (auto simp: head_fields_facts(1) [OF run(2)] fields_lengths)
  have txt_eq: "ip6_text addr zs zl = colon_after ?h @ 0x3A # joined ?t" using run(2) by (simp add: ip6_text_def)
  obtain m1 m2 where m: "dest = m1 @ m2" "length m1 = 2 * length ?h" "length m2 = 16 - 2 * length ?h"
    by (rule that [of "take (2 * length ?h) dest" "drop (2 * length ?h) dest"]) (use dest k in auto)
  have a0: "at s 0 (colon_after ?h @ 0x3A # joined ?t @ c # r)" using a by (simp add: txt_eq)
  note a1 = at_Cons [OF at_append [OF a0]]
  have head: "parse_fields s (length (ip6_text addr zs zl)) 0 0 (-1) dest =
      parse_fields s (length (joined ?t)) (length (colon_after ?h) + 1) (length ?h) (int (length ?h)) (fields_bytes ?h @ m2)"
    using parse_head [OF a0 head_fields_facts(4,2,3) [OF run(2)], of 0 "length (ip6_text addr zs zl)" "[]" m1 m2]
      ip6_text_length [OF run(1)] k m by (simp add: txt_eq)
  show ?thesis
  proof (cases "?t = []")
    case True
    then have "fields_bytes ?t = []" "8 - (zs + zl) = 0" "length (joined ?t) = 0"
      by (simp only: fields_bytes_simps(1), simp add: fields_empty, simp only: joined.simps list.size)
    with head m(3) k show ?thesis by (auto simp: parse_end fields_lengths)
  next
    case False
    obtain n1 n2 where n: "m2 = n1 @ n2" "length n1 = 2 * length ?t"
      by (rule that [of "take (2 * length ?t) m2" "drop (2 * length ?t) m2"]) (use m(3) k in auto)
    have "parse_fields s (length (joined ?t)) (length (colon_after ?h) + 1) (length ?h) (int (length ?h)) (fields_bytes ?h @ n1 @ n2) =
        Some (Some (length ?h + length ?t, int (length ?h), fields_bytes ?h @ fields_bytes ?t @ n2))"
      by (rule parse_tail [OF c]) (use a1 False fields_are_fields k n(2) in \<open>auto simp: add.commute\<close>)
    with head n m(3) k show ?thesis by (auto simp: fields_lengths)
  qed
qed

lemma run_bytes:
  assumes addr: "length addr = 16" and run: "zero_run addr zs zl" "zs \<noteq> 255"
  defines "k \<equiv> length (head_fields addr zs) + (8 - (zs + zl))"
  shows "fields_bytes (head_fields addr zs) @ replicate (2 * (8 - k)) 0 @ fields_bytes (fields addr (zs + zl) 8) = addr"
proof -
  have zl: "2 \<le> zl" "zs + zl \<le> 8" "\<forall>i. zs \<le> i \<longrightarrow> i < zs + zl \<longrightarrow> part addr i = 0"
    using run by (auto simp: zero_run_def)
  have tail: "fields_bytes (fields addr (zs + zl) 8) = drop (2 * (zs + zl)) addr"
    using fields_bytes_fields [OF addr zl(2)] addr by simp
  have zeros: "take (2 * zl) (drop (2 * zs) addr) = replicate (2 * zl) 0"
    using zero_bytes [OF addr _ zl(2), of zs] zl(3) by simp
  have front: "fields_bytes (head_fields addr zs) @ replicate (2 * (8 - k)) 0 = take (2 * zs) addr @ replicate (2 * zl) 0"
  proof (cases "zs = 0")
    case True
    have "2 * (8 - k) + 2 = 2 * zl" using True zl by (simp add: k_def head_fields_def)
    then have "replicate (2 * zl) (0 :: u8) = replicate 2 0 @ replicate (2 * (8 - k)) 0"
      by (simp only: replicate_add [symmetric] add.commute)
    with True show ?thesis by (simp add: head_fields_def part_bytes_def numeral_2_eq_2 byte_of_def)
  next
    case False
    then have "8 - k = zl" using zl by (simp add: k_def head_fields_def fields_lengths)
    with False fields_bytes_fields [OF addr, of 0 zs] zl show ?thesis by (simp add: head_fields_def)
  qed
  have "take (2 * zs) addr @ take (2 * zl) (drop (2 * zs) addr) @ drop (2 * (zs + zl)) addr = addr"
    using append_take_drop_id [of "2 * zl" "drop (2 * zs) addr"] append_take_drop_id [of "2 * zs" addr]
    by (simp add: add.commute)
  with front tail zeros show ?thesis by (metis append.assoc)
qed

lemma stoip6_text:
  assumes addr: "length addr = 16" and run: "zero_run addr zs zl"
    and a: "at s 0 (ip6_text addr zs zl @ c # r)" and c: "\<not> hex_char c" and dest: "length dest = 16"
  shows "stoip6 s (length (ip6_text addr zs zl)) dest = Some (True, addr)"
proof (cases "zs = 255")
  case True
  let ?f = "fields addr 0 8"
  have "parse_fields s (length (joined ?f)) 0 0 (-1) ([] @ dest @ []) = Some (Some (0 + length ?f, -1, [] @ fields_bytes ?f @ []))"
    by (rule parse_tail [OF c]) (use a True dest fields_are_fields in \<open>auto simp: ip6_text_def fields_lengths fields_empty\<close>)
  moreover have "fields_bytes ?f = addr" using fields_bytes_fields [OF addr, of 0 8] addr by simp
  ultimately show ?thesis
    using True ip6_text_length [OF run] by (simp add: stoip6_def ip6_text_def fields_lengths Let_def)
next
  case False
  let ?h = "head_fields addr zs" and ?t = "fields addr (zs + zl) 8"
  have zl: "2 \<le> zl" "zs + zl \<le> 8" using run False by (auto simp: zero_run_def)
  obtain rest where p: "parse_fields s (length (ip6_text addr zs zl)) 0 0 (-1) dest =
      Some (Some (length ?h + (8 - (zs + zl)), int (length ?h), fields_bytes ?h @ fields_bytes ?t @ rest))"
    "length (fields_bytes ?h @ fields_bytes ?t @ rest) = 16"
    using parse_run [OF addr run False a c dest] by blast
  let ?k = "length ?h" and ?n = "8 - (zs + zl)"
  have k: "?k + ?n \<le> 8" using zl by (auto simp: head_fields_facts(1) [OF False])
  have n: "length (fields_bytes ?t) = 2 * ?n" by (simp add: fields_lengths)
  have size: "16 - 2 * ?k - 2 * (8 - (?k + ?n)) = 2 * ?n" using k by simp
  note ins = insert_zeros [OF fields_bytes_simps(3) n k p(2) refl]
  from ip6_text_length [OF run] have len: "\<not> length (ip6_text addr zs zl) > 39" by simp
  have not: "int ?k \<noteq> -1" by simp
  show ?thesis
    unfolding stoip6_def Let_def if_not_P [OF len] p(1) option.case prod.case if_P [OF not] nat_int size
      ins(1) bind.simps ins(2) ins(3)
    by (simp add: run_bytes [OF addr run False])
qed

text \<open>
Property C26: \<open>ip6tos\<close> writes the text of every address with its terminator inside a buffer of 40 bytes and returns its length,
at most 39, and \<open>stoip6\<close> reads the address back from the buffer, wherever the longest run of zeros lies.
\<close>

theorem ip6_roundtrip:
  assumes "length addr = 16" and "40 \<le> length p" and "length dest = 16"
  shows "\<exists>n p'. ip6tos addr p = Some (n, p') \<and> length p' = length p \<and> n \<le> 39 \<and> p' ! n = 0 \<and>
    stoip6 p' n dest = Some (True, addr)"
proof -
  obtain zs zl where run: "zero_run addr zs zl" and t: "\<And>b y z. length y = length (ip6_text addr zs zl) + 1 \<Longrightarrow>
      ip6tos_at addr (b @ y @ z) (length b) = Some (length (ip6_text addr zs zl), b @ ip6_text addr zs zl @ 0 # z)"
    using ip6tos_at_text [OF assms(1)] by metis
  let ?x = "ip6_text addr zs zl"
  have len: "length ?x \<le> 39" by (rule ip6_text_length [OF run])
  let ?z = "drop (length ?x + 1) p"
  have "ip6tos addr p = Some (length ?x, ?x @ 0 # ?z)"
    using t [of "take (length ?x + 1) p" "[]" ?z] len assms(2) by (simp add: ip6tos_def)
  moreover have "stoip6 (?x @ 0 # ?z) (length ?x) dest = Some (True, addr)"
    by (rule stoip6_text [OF assms(1) run _ _ assms(3), where c = 0 and r = ?z]) (simp_all add: at_def hex_char_def)
  ultimately show ?thesis using len assms(2) by (auto simp: nth_append)
qed

lemma ip6_roundtrip_witness:
  "\<exists>n p'. ip6tos [0x20, 1, 0x0D, 0xB8, 0, 0, 0, 0, 0, 1, 0, 0, 0, 0, 0, 1] (replicate 40 0xFF) = Some (n, p') \<and>
    length p' = length (replicate 40 (0xFF :: u8)) \<and> n \<le> 39 \<and> p' ! n = 0 \<and>
    stoip6 p' n (replicate 16 7) = Some (True, [0x20, 1, 0x0D, 0xB8, 0, 0, 0, 0, 0, 1, 0, 0, 0, 0, 0, 1])"
  by (rule ip6_roundtrip) simp_all

section \<open>Prefixes in text form\<close>

lemma strchr_found:
  "at s p (t @ x # r) \<Longrightarrow> x \<notin> set t \<Longrightarrow> 0 \<notin> set t \<Longrightarrow> strchr s p x = Some (Some (p + length t))"
proof (induction t arbitrary: p)
  case Nil
  then show ?case using at_rd by (subst strchr.simps) force
next
  case (Cons c t)
  have "strchr s (p + 1) x = Some (Some (p + 1 + length t))"
    by (rule Cons.IH) (use Cons.prems at_Cons [of s p c "t @ x # r"] in auto)
  then show ?case using Cons.prems at_rd [of s p c "t @ x # r"] by (subst strchr.simps) auto
qed

lemma ip6_text_chars: "c \<in> set (ip6_text addr zs zl) \<Longrightarrow> hex_char c \<or> c = 0x3A"
proof -
  have j: "c \<in> set (joined ts) \<Longrightarrow> \<forall>t \<in> set ts. field t \<Longrightarrow> hex_char c \<or> c = 0x3A" for ts
    by (induction ts) (auto simp: field_def split: if_splits)
  have h: "c \<in> set (colon_after ts) \<Longrightarrow> \<forall>t \<in> set ts. field t \<Longrightarrow> hex_char c \<or> c = 0x3A" for ts
    by (auto simp: colon_after_def field_def split: if_splits)
  assume "c \<in> set (ip6_text addr zs zl)"
  then show ?thesis
    using j fields_are_fields h head_fields_facts(2) by (auto simp: ip6_text_def split: if_splits)
qed

lemma decimal_text_facts:
  "\<forall>c \<in> set (decimal_text n). 48 \<le> unat c \<and> unat c \<le> 57" "decimal_text n \<noteq> []"
  "foldl (\<lambda>v c. 10 * v + (unat c - 48)) 0 (decimal_text n) = n"
proof -
  have d: "48 \<le> (48 + d) mod 256 \<and> (48 + d) mod 256 \<le> 57 \<and> (48 + d) mod 256 - 48 = d" if "d < 10" for d :: nat
    using that by simp
  show "\<forall>c \<in> set (decimal_text n). 48 \<le> unat c \<and> unat c \<le> 57"
    by (induction n rule: decimal_text.induct) (subst decimal_text.simps, auto simp: d)
  show "decimal_text n \<noteq> []" by (subst decimal_text.simps) simp
  show "foldl (\<lambda>v c. 10 * v + (unat c - 48)) 0 (decimal_text n) = n"
    by (induction n rule: decimal_text.induct) (subst decimal_text.simps, auto simp: d)
qed

lemma decimal_text_length:
  "n < 1000 \<Longrightarrow> length (decimal_text n) = (if n < 10 then 1 else if n < 100 then 2 else 3)"
  by (subst decimal_text.simps, subst decimal_text.simps, subst decimal_text.simps) auto

lemma digits_value_fold:
  "at s p (t @ c # r) \<Longrightarrow> \<forall>c \<in> set t. 48 \<le> unat c \<and> unat c \<le> 57 \<Longrightarrow> \<not> (48 \<le> unat c \<and> unat c \<le> 57) \<Longrightarrow>
   digits_value s p v = Some (foldl (\<lambda>v c. 10 * v + (unat c - 48)) v t)"
proof (induction t arbitrary: p v)
  case Nil
  then show ?case using at_rd by (subst digits_value.simps) force
next
  case (Cons x t)
  have "digits_value s (p + 1) (10 * v + (unat x - 48)) = Some (foldl (\<lambda>v c. 10 * v + (unat c - 48)) (10 * v + (unat x - 48)) t)"
    by (rule Cons.IH) (use Cons.prems at_Cons [of s p x "t @ c # r"] in auto)
  then show ?case using Cons.prems at_rd [of s p x "t @ c # r"] by (subst digits_value.simps) auto
qed

lemma strtoul_decimal:
  assumes "at s p (decimal_text n @ 0 # r)" "n < 4294967296"
  shows "strtoul s p = Some n"
proof -
  obtain x xs where x: "decimal_text n = x # xs" using decimal_text_facts(2) by (cases "decimal_text n") auto
  have c: "48 \<le> unat x" "unat x \<le> 57" using decimal_text_facts(1) [of n] by (simp_all add: x)
  have rd: "rd s p = Some x" using assms(1) at_rd by (simp add: x)
  have "skip_space s p = Some p" using rd c by (subst skip_space.simps) simp
  moreover have "digits_value s p 0 = Some n"
    using digits_value_fold [OF assms(1) decimal_text_facts(1), of 0] by (simp add: decimal_text_facts(3))
  moreover have "x \<noteq> 0x2B" "x \<noteq> 0x2D" using c by auto
  ultimately show ?thesis using rd assms(2) by (simp add: strtoul_def)
qed

lemma stoip6_prefix_text:
  assumes addr: "length addr = 16" and run: "zero_run addr zs zl" and dest: "length dest = 16" and n: "n \<le> 128"
    and s: "s = ip6_text addr zs zl @ 0x2F # decimal_text n @ 0 # r"
  shows "stoip6_prefix s dest (Some x) = Some (if n \<le> 99 then (0, addr, Some (int n)) else (-1, dest, Some (-1)))"
proof -
  let ?x = "ip6_text addr zs zl" and ?d = "decimal_text n"
  have slash: "0x2F \<notin> set ?x" "0 \<notin> set ?x"
    using ip6_text_chars [of "0x2F" addr zs zl] ip6_text_chars [of 0 addr zs zl] by (auto simp: hex_char_def)
  have "0 \<notin> set (?x @ 0x2F # ?d)" using slash(2) decimal_text_facts(1) [of n] by fastforce
  moreover have "at s 0 ((?x @ 0x2F # ?d) @ 0 # r)" by (simp add: s at_def)
  ultimately have len: "strlen s = Some (length ?x + 1 + length ?d)"
    using strchr_found [of s 0 "?x @ 0x2F # ?d" 0 r] by (simp add: strlen_def)
  have a: "at s 0 (?x @ 0x2F # ?d @ 0 # r)" by (simp add: s at_def)
  have chr: "strchr s 0 0x2F = Some (Some (length ?x))" using strchr_found [OF a slash] by simp
  have "strtoul s (length ?x + 1) = Some n"
    by (rule strtoul_decimal [of _ _ _ r]) (use n at_Cons [OF at_append [OF a]] in simp_all)
  moreover have "s32_of n = int n" using n by (simp add: s32_of_def)
  moreover have "stoip6 s (length ?x) dest = Some (True, addr)"
    by (rule stoip6_text [OF addr run a _ dest]) (simp add: hex_char_def)
  moreover have "length ?x + 1 + length ?d - length ?x > 3 \<longleftrightarrow> \<not> n \<le> 99"
    using decimal_text_length [of n] n by auto
  ultimately show ?thesis using n by (auto simp: stoip6_prefix_def len chr Let_def)
qed

text \<open>
Property C27: the text of a prefix that \<open>ip6_prefix_tos\<close> writes into 44 bytes is read back by \<open>stoip6_prefix\<close> as the prefix with
all further bits zero and its length as long as the length is at most 99; the lengths 100 to 128, which are written in
the same way, are rejected, because the limit of three characters counts the slash.
\<close>

theorem ip6_prefix_roundtrip:
  assumes "plen \<le> 128" and "plen \<le> 8 * length prefix" and "44 \<le> length p" and "length dest = 16"
  shows "\<exists>n p' addr. ip6_prefix_tos prefix plen p = Some (n, p') \<and> length p' = length p \<and> n \<le> 43 \<and> length addr = 16 \<and>
    (\<forall>i < 128. bit_at addr i = (i < plen \<and> bit_at prefix i)) \<and>
    stoip6_prefix p' dest (Some x) = Some (if plen \<le> 99 then (0, addr, Some (int plen)) else (-1, dest, Some (-1)))"
proof -
  obtain addr where addr: "bitcopy (replicate 16 0) prefix plen = Some (addr, plen div 8)" "length addr = 16"
    "\<forall>i < 128. bit_at addr i = (if i < plen then bit_at prefix i else bit_at (replicate 16 0) i)"
    using bitcopy_bits [of plen "replicate 16 0" prefix] assms(1,2) by auto
  have "\<not> bit_at (replicate 16 0) i" if "i < 128" for i
  proof -
    have "i div 8 < 16" using that by auto
    then have "replicate 16 (0 :: u8) ! (i div 8) = 0" by (rule nth_replicate)
    then show ?thesis by (simp only: bit_at_def) simp
  qed
  with addr(3) have bits: "\<forall>i < 128. bit_at addr i = (i < plen \<and> bit_at prefix i)" by auto
  obtain zs zl where run: "zero_run addr zs zl" and t: "\<And>b y z. length y = length (ip6_text addr zs zl) + 1 \<Longrightarrow>
      ip6tos_at addr (b @ y @ z) (length b) = Some (length (ip6_text addr zs zl), b @ ip6_text addr zs zl @ 0 # z)"
    using ip6tos_at_text [OF addr(2)] by metis
  let ?x = "ip6_text addr zs zl" and ?d = "decimal_text plen"
  have len: "length ?x \<le> 39" "length ?d \<le> 3"
    using ip6_text_length [OF run] decimal_text_length [of plen] assms(1) by auto
  let ?z = "drop (length ?x + 1) p" and ?r = "drop (length ?x + 2 + length ?d) p"
  have tos: "ip6tos_at addr p 0 = Some (length ?x, ?x @ 0 # ?z)"
    using t [of "take (length ?x + 1) p" "[]" ?z] len assms(3) by simp
  have "0 # ?z = (0 # take (length ?d + 1) ?z) @ ?r"
    using append_take_drop_id [of "length ?d + 1" ?z] by (simp add: add.commute)
  then have w: "write_at (?x @ 0 # ?z) (length ?x) (0x2F # ?d @ [0]) = Some (?x @ (0x2F # ?d @ [0]) @ ?r)"
    using write_at_append [of "0 # take (length ?d + 1) ?z" "0x2F # ?d @ [0]" ?x ?r] len assms(3) by simp
  have "ip6_prefix_tos prefix plen p = Some (length ?x + 1 + length ?d, ?x @ 0x2F # ?d @ 0 # ?r)"
    using assms(1) len w by (simp add: ip6_prefix_tos_def addr(1) tos u8_wrap_id)
  moreover have "length (?x @ 0x2F # ?d @ 0 # ?r) = length p" "length ?x + 1 + length ?d \<le> 43"
    using len assms(3) by auto
  ultimately show ?thesis
    using stoip6_prefix_text [OF addr(2) run assms(4,1) refl, of ?r x] addr(2) bits by blast
qed

lemma ip6_prefix_roundtrip_witness:
  "(\<exists>n p' addr. ip6_prefix_tos [0x20, 1, 0x0D, 0xB8] 30 (replicate 44 0xFF) = Some (n, p') \<and> length p' = length (replicate 44 (0xFF :: u8)) \<and>
     n \<le> 43 \<and> length addr = 16 \<and> (\<forall>i < 128. bit_at addr i = (i < 30 \<and> bit_at [0x20, 1, 0x0D, 0xB8] i)) \<and>
     stoip6_prefix p' (replicate 16 7) (Some 0) = Some (if (30 :: nat) \<le> 99 then (0, addr, Some (int 30)) else (-1, replicate 16 7, Some (-1)))) \<and>
   (\<exists>n p' addr. ip6_prefix_tos (replicate 16 1) 128 (replicate 44 0xFF) = Some (n, p') \<and> length p' = length (replicate 44 (0xFF :: u8)) \<and>
     n \<le> 43 \<and> length addr = 16 \<and> (\<forall>i < 128. bit_at addr i = (i < 128 \<and> bit_at (replicate 16 1) i)) \<and>
     stoip6_prefix p' (replicate 16 7) (Some 0) = Some (if (128 :: nat) \<le> 99 then (0, addr, Some (int 128)) else (-1, replicate 16 7, Some (-1))))"
  by (intro conjI ip6_prefix_roundtrip) simp_all

end
