(* ===== verification/Rand_Lib.thy ===== *)
theory Rand_Lib
  imports Pelion_Prelude "HOL-Library.Monad_Syntax"
begin

text \<open>
  The random numbers of \<open>mbed-client-randlib/source/randLIB.c\<close>, in the build that has a generator of its own (without a random device of
  the system) and 32-bit \<open>unsigned int\<close>. The platform's entropy is a sequence of 32-bit seeds, of which each call takes the next.
\<close>

unbundle bit_operations_syntax

section \<open>The generator\<close>

record rand_lib =
  state0 :: "64 word"
  state1 :: "64 word"
  seeds :: "32 word list"

definition rol :: "64 word \<Rightarrow> nat \<Rightarrow> 64 word" where
  "rol n bits = push_bit bits n OR drop_bit (64 - bits) n"

text \<open>The result and the new seed.\<close>

definition splitmix64 :: "64 word \<Rightarrow> 64 word \<times> 64 word" where
  "splitmix64 seed =
     (let seed = seed + 0x9E3779B97F4A7C15;
          z = (seed XOR drop_bit 30 seed) * 0xBF58476D1CE4E5B9;
          z = (z XOR drop_bit 27 z) * 0x94D049BB133111EB in
      (z XOR drop_bit 31 z, seed))"

definition randLIB_reset :: "rand_lib \<Rightarrow> rand_lib" where
  "randLIB_reset s = s\<lparr>state0 := 0, state1 := 0\<rparr>"

definition randLIB_add_seed :: "64 word \<Rightarrow> rand_lib \<Rightarrow> rand_lib" where
  "randLIB_add_seed seed s =
     (let (a, seed) = splitmix64 seed;
          s = s\<lparr>state0 := state0 s XOR a\<rparr>;
          (b, seed) = splitmix64 seed;
          s = s\<lparr>state1 := state1 s XOR b\<rparr> in
      if state1 s = 0 \<and> state0 s = 0 then s\<lparr>state0 := 1\<rparr> else s)"

text \<open>None: the platform has no seed left to give.\<close>

definition arm_random_seed_get :: "rand_lib \<Rightarrow> (32 word \<times> rand_lib) option" where
  "arm_random_seed_get s = (case seeds s of [] \<Rightarrow> None | x # xs \<Rightarrow> Some (x, s\<lparr>seeds := xs\<rparr>))"

definition randLIB_seed_random :: "rand_lib \<Rightarrow> rand_lib option" where
  "randLIB_seed_random s = do {
     (a, s) \<leftarrow> arm_random_seed_get s;
     let high = push_bit 32 (ucast a);
     (b, s) \<leftarrow> arm_random_seed_get s;
     let s = s\<lparr>state0 := state0 s XOR (high OR ucast b)\<rparr>;
     (c, s) \<leftarrow> arm_random_seed_get s;
     let high = push_bit 32 (ucast c);
     (d, s) \<leftarrow> arm_random_seed_get s;
     let s = s\<lparr>state1 := state1 s XOR (high OR ucast d)\<rparr>;
     Some (if state0 s = state1 s then randLIB_add_seed (state0 s) s else s) }"

definition randLIB_get_64bit :: "rand_lib \<Rightarrow> 64 word \<times> rand_lib" where
  "randLIB_get_64bit s =
     (let s0 = state0 s; s1 = state1 s; result = s0 + s1; s1 = s1 XOR s0 in
      (result, s\<lparr>state0 := rol s0 55 XOR s1 XOR push_bit 14 s1, state1 := rol s1 36\<rparr>))"

definition randLIB_get_8bit :: "rand_lib \<Rightarrow> 8 word \<times> rand_lib" where
  "randLIB_get_8bit s = (let (r, s) = randLIB_get_64bit s in (ucast (drop_bit 56 r), s))"

definition randLIB_get_16bit :: "rand_lib \<Rightarrow> 16 word \<times> rand_lib" where
  "randLIB_get_16bit s = (let (r, s) = randLIB_get_64bit s in (ucast (drop_bit 48 r), s))"

definition randLIB_get_32bit :: "rand_lib \<Rightarrow> 32 word \<times> rand_lib" where
  "randLIB_get_32bit s = (let (r, s) = randLIB_get_64bit s in (ucast (drop_bit 32 r), s))"

text \<open>\<open>n\<close> bytes are still to be written, from index i on; r is the rest of the last number.\<close>

fun fill_bytes :: "nat \<Rightarrow> nat \<Rightarrow> 64 word \<Rightarrow> bytes \<Rightarrow> rand_lib \<Rightarrow> (bytes \<times> rand_lib) option" where
  "fill_bytes 0 i r data s = Some (data, s)"
| "fill_bytes (Suc n) i r data s =
     (let (r, s) = (if i mod 8 = 0 then randLIB_get_64bit s else (drop_bit 8 r, s)) in
      case write_at data i [ucast r] of
        None \<Rightarrow> None
      | Some data \<Rightarrow> fill_bytes n (i + 1) r data s)"

definition randLIB_get_n_bytes_random :: "bytes \<Rightarrow> nat \<Rightarrow> rand_lib \<Rightarrow> (bytes \<times> rand_lib) option" where
  "randLIB_get_n_bytes_random data count s = fill_bytes count 0 0 data s"

section \<open>Numbers in a range\<close>

text \<open>The loop rolls again until the number lies in one of the bands; None is a loop without an end.\<close>

partial_function (option) roll_in_bands :: "nat \<Rightarrow> rand_lib \<Rightarrow> (nat \<times> rand_lib) option" where
  "roll_in_bands top_of_bands s =
     (case randLIB_get_32bit s of
        (result, s) \<Rightarrow> if unat result \<ge> top_of_bands then roll_in_bands top_of_bands s else Some (unat result, s))"

declare roll_in_bands.simps [code]

text \<open>None is also the division by 0 for \<open>min = max + 1\<close>.\<close>

definition randLIB_get_random_in_range :: "nat \<Rightarrow> nat \<Rightarrow> rand_lib \<Rightarrow> (nat \<times> rand_lib) option" where
  "randLIB_get_random_in_range mn mx s =
     (if mn = mx then Some (mn, s)
      else
        let rand_max = 4294967295;
            values_needed = u32_wrap (mx + 1 + 4294967296 - mn) in
        if values_needed = 0 then None
        else
          let band_size = rand_max div values_needed;
              top_of_bands = band_size * values_needed in
          case roll_in_bands top_of_bands s of
            None \<Rightarrow> None
          | Some (result, s) \<Rightarrow> Some (u16_wrap (mn + u16_wrap (result div band_size)), s))"

definition scale_by_factor :: "nat \<Rightarrow> nat \<Rightarrow> nat" where
  "scale_by_factor base random_factor =
     (let hi = u32_wrap ((base div 65536) * random_factor);
          lo = u32_wrap ((base mod 65536) * random_factor);
          res = u32_wrap (hi + lo div 65536) in
      if res \<ge> 2147483648 then 4294967295 else u32_wrap (res * 2) + (lo div 32768) mod 2)"

definition randLIB_randomise_base :: "nat \<Rightarrow> nat \<Rightarrow> nat \<Rightarrow> rand_lib \<Rightarrow> (nat \<times> rand_lib) option" where
  "randLIB_randomise_base base min_factor max_factor s =
     map_option (\<lambda>(f, s). (scale_by_factor base f, s)) (randLIB_get_random_in_range min_factor max_factor s)"

section \<open>The state is never zero\<close>

lemma rol_zero: "0 < bits \<Longrightarrow> bits < 64 \<Longrightarrow> rol n bits = 0 \<longleftrightarrow> n = 0"
proof
  assume b: "0 < bits" "bits < 64" and z: "rol n bits = 0"
  then have p: "push_bit bits n = 0" "drop_bit (64 - bits) n = 0" by (simp_all add: rol_def or_eq_0_iff)
  show "n = 0"
  proof (rule bit_word_eqI)
    fix i assume i: "i < LENGTH(64)"
    show "bit n i = bit 0 i"
    proof (cases "i < 64 - bits")
      case True
      have "bit (push_bit bits n) (i + bits) = bit n i" using True b by (auto simp: bit_push_bit_iff)
      with p(1) show ?thesis by simp
    next
      case False
      then have "bit (drop_bit (64 - bits) n) (i - (64 - bits)) = bit n i" by (simp add: bit_drop_bit_eq)
      with p(2) show ?thesis by simp
    qed
  qed
qed (simp add: rol_def)

definition live :: "rand_lib \<Rightarrow> bool" where
  "live s \<longleftrightarrow> state0 s \<noteq> 0 \<or> state1 s \<noteq> 0"

lemma get_64bit_live: "live s \<Longrightarrow> live (snd (randLIB_get_64bit s))"
proof -
  have "state1 s XOR state0 s = 0 \<Longrightarrow> rol (state0 s) 55 = 0 \<Longrightarrow> \<not> live s"
    by (auto simp: live_def rol_zero)
  then show "live s \<Longrightarrow> live (snd (randLIB_get_64bit s))"
    by (auto simp: live_def randLIB_get_64bit_def Let_def rol_zero simp del: push_bit_xor)
qed

lemma add_seed_live: "live (randLIB_add_seed seed s)"
  by (auto simp: live_def randLIB_add_seed_def Let_def split: prod.split)

lemma seed_random_live: "randLIB_seed_random s = Some s' \<Longrightarrow> live s'"
  using add_seed_live
  by (auto simp: randLIB_seed_random_def arm_random_seed_get_def live_def Let_def split: option.splits list.splits if_splits)

section \<open>Every value has as many numbers as every other\<close>

text \<open>The state after k numbers and the 32-bit number that comes next.\<close>

definition after :: "rand_lib \<Rightarrow> nat \<Rightarrow> rand_lib" where
  "after s k = ((\<lambda>s. snd (randLIB_get_64bit s)) ^^ k) s"

definition roll :: "rand_lib \<Rightarrow> nat \<Rightarrow> nat" where
  "roll s k = unat (fst (randLIB_get_32bit (after s k)))"

lemma after_Suc: "after s (Suc k) = snd (randLIB_get_32bit (after s k))" "after (snd (randLIB_get_32bit s)) k = after s (Suc k)"
  by (simp_all add: after_def randLIB_get_32bit_def split_beta Let_def funpow_swap1 [of "\<lambda>s. snd (randLIB_get_64bit s)"])

lemma roll_first:
  "\<forall>j < k. limit \<le> roll s j \<Longrightarrow> roll s k < limit \<Longrightarrow> roll_in_bands limit s = Some (roll s k, after s (Suc k))"
proof (induction k arbitrary: s)
  case 0
  then show ?case
    by (subst roll_in_bands.simps) (simp add: roll_def after_def randLIB_get_32bit_def split_beta Let_def)
next
  case (Suc k)
  let ?s = "snd (randLIB_get_32bit s)"
  have shift: "roll ?s j = roll s (Suc j)" for j by (simp add: roll_def after_Suc(2))
  have "limit \<le> roll s 0" using Suc.prems(1) by auto
  moreover have "roll_in_bands limit ?s = Some (roll ?s k, after ?s (Suc k))"
    by (rule Suc.IH) (use Suc.prems in \<open>auto simp: shift\<close>)
  ultimately show ?case
    by (subst roll_in_bands.simps) (simp add: shift after_Suc(2) roll_def [of s 0] after_def [of s 0] split_beta)
qed

lemma card_band:
  assumes "0 < band" "(v + 1) * band \<le> 4294967296"
  shows "card {r :: 32 word. unat r div band = v} = band"
proof -
  have "{r :: 32 word. unat r div band = v} = word_of_nat ` {v * band ..< (v + 1) * band}"
  proof (intro equalityI subsetI)
    fix r :: "32 word" assume "r \<in> {r. unat r div band = v}"
    then have "v * band \<le> unat r" "unat r < (v + 1) * band"
      using assms(1) by (auto simp: dividend_less_times_div mult.commute add.commute)
    then show "r \<in> word_of_nat ` {v * band ..< (v + 1) * band}"
      by (intro image_eqI [of _ _ "unat r"]) auto
  next
    fix r :: "32 word" assume "r \<in> word_of_nat ` {v * band ..< (v + 1) * band}"
    then obtain n where n: "r = word_of_nat n" "v * band \<le> n" "n < (v + 1) * band" by auto
    then have "unat r = n" using assms(2) by (simp add: unat_of_nat)
    moreover have "n div band = v" using n(2,3) by (intro div_nat_eqI) (auto simp: mult.commute)
    ultimately show "r \<in> {r. unat r div band = v}" by simp
  qed
  moreover have "inj_on (word_of_nat :: nat \<Rightarrow> 32 word) {v * band ..< (v + 1) * band}"
  proof (rule inj_onI)
    fix x y assume xy: "x \<in> {v * band ..< (v + 1) * band}" "y \<in> {v * band ..< (v + 1) * band}"
      and e: "word_of_nat x = (word_of_nat y :: 32 word)"
    then have "x < 4294967296" "y < 4294967296" using assms(2) by auto
    with arg_cong [OF e, of unat] show "x = y" by (simp add: unat_of_nat)
  qed
  ultimately show ?thesis by (simp add: card_image)
qed

text \<open>
Property C28: a number in the range min to max is the band of the first 32-bit number below the top of the bands; every value
of the range has the same number of 32-bit numbers in its band, and fewer than 65537 of the \<open>2^32\<close> numbers make the loop roll again.
\<close>

theorem randLIB_in_range_uniform:
  assumes "mn < mx" and "mx < 65536"
  defines "band \<equiv> 4294967295 div (mx + 1 - mn)"
  defines "limit \<equiv> band * (mx + 1 - mn)"
  shows "(\<forall>k. (\<forall>j < k. limit \<le> roll s j) \<and> roll s k < limit \<longrightarrow>
       randLIB_get_random_in_range mn mx s = Some (mn + roll s k div band, after s (Suc k)) \<and> mn + roll s k div band \<le> mx) \<and>
    (\<forall>v. mn \<le> v \<and> v \<le> mx \<longrightarrow> card {r :: 32 word. unat r < limit \<and> mn + unat r div band = v} = band) \<and>
    0 < band \<and> 4294967296 - limit \<le> 65536"
proof -
  let ?n = "mx + 1 - mn" and ?band = band and ?limit = limit
  have n: "2 \<le> ?n" "?n \<le> 65536" using assms by auto
  have wrap: "u32_wrap (mx + 1 + 4294967296 - mn) = ?n"
  proof -
    have "mx + 1 + 4294967296 - mn = ?n + 4294967296" using assms by simp
    with n show ?thesis by (simp only: u32_wrap_def mod_add_self2) (simp add: mod_less)
  qed
  have band: "0 < ?band" using n by (simp add: band_def div_greater_zero_iff)
  have "?limit + 4294967295 mod ?n = 4294967295" by (simp only: limit_def band_def div_mult_mod_eq)
  moreover have "4294967295 mod ?n < ?n" using n by (intro mod_less_divisor) simp
  ultimately have limit: "?limit \<le> 4294967295" "4294967295 - ?limit < ?n" by linarith+
  have value_at: "roll s k div ?band < ?n" if "roll s k < ?limit" for k
    using that by (simp add: limit_def less_mult_imp_div_less mult.commute)
  have result: "randLIB_get_random_in_range mn mx s = Some (mn + roll s k div ?band, after s (Suc k)) \<and> mn + roll s k div ?band \<le> mx"
    if "\<forall>j < k. ?limit \<le> roll s j" "roll s k < ?limit" for k
    using roll_first [OF that] value_at [OF that(2)] assms n
    unfolding randLIB_get_random_in_range_def Let_def wrap limit_def band_def
    by (simp add: u16_wrap_id)
  have cards: "card {r :: 32 word. unat r < ?limit \<and> mn + unat r div ?band = v} = ?band" if v: "mn \<le> v" "v \<le> mx" for v
  proof -
    have le: "(v - mn + 1) * ?band \<le> ?limit" unfolding limit_def mult.commute [of band] using v by (intro mult_right_mono) auto
    have "unat r < ?limit" if "unat r div ?band = v - mn" for r :: "32 word"
    proof -
      have "unat r < (unat r div ?band + 1) * ?band"
        using band by (metis add.commute dividend_less_div_times mult.commute mult_Suc_right plus_1_eq_Suc)
      then show ?thesis using le that by simp
    qed
    then have "{r :: 32 word. unat r < ?limit \<and> mn + unat r div ?band = v} = {r. unat r div ?band = v - mn}"
      using v by auto
    then show ?thesis using card_band [OF band, of "v - mn"] le limit(1) by simp
  qed
  have "4294967296 - ?limit \<le> 65536" using limit n by linarith
  with band result cards show ?thesis by blast
qed

lemma randLIB_in_range_uniform_witness:
  "randLIB_get_random_in_range 100 150 \<lparr>state0 = 1, state1 = 2, seeds = []\<rparr> =
     Some (100, after \<lparr>state0 = 1, state1 = 2, seeds = []\<rparr> (Suc 0)) \<and>
   card {r :: 32 word. unat r < 4294967295 \<and> 100 + unat r div 84215045 = 150} = 84215045"
proof -
  let ?s = "\<lparr>state0 = 1, state1 = 2, seeds = []\<rparr>"
  have "roll ?s 0 = 0"
    by (simp add: roll_def after_def randLIB_get_32bit_def randLIB_get_64bit_def Let_def)
  moreover note all = randLIB_in_range_uniform [of 100 150 ?s]
  ultimately show ?thesis
    using all [THEN conjunct1, THEN spec, of 0] all [THEN conjunct2, THEN conjunct1, THEN spec, of 150] by simp
qed

section \<open>Jitter\<close>

lemma scale_by_factor_exact:
  assumes "base < 4294967296" "f < 65536"
  shows "scale_by_factor base f = min 4294967295 (base * f div 32768)"
proof -
  let ?h = "base div 65536" and ?l = "base mod 65536"
  let ?lo = "?l * f" and ?res = "?h * f + ?l * f div 65536"
  have small: "?h < 65536" "?l < 65536" using assms(1) by (simp_all add: less_mult_imp_div_less)
  then have le: "?h * f \<le> 65535 * 65535" "?lo \<le> 65535 * 65535" using assms(2) by (intro mult_mono; simp)+
  then have res: "?res < 4294967296" by simp
  have wraps: "u32_wrap (?h * f) = ?h * f" "u32_wrap ?lo = ?lo" "u32_wrap ?res = ?res"
    using le res by (simp_all add: u32_wrap_id)
  have "base * f = (65536 * ?h + ?l) * f" by (simp only: mult_div_mod_eq)
  also have "\<dots> = (2 * (?h * f)) * 32768 + ?lo" by (simp only: add_mult_distrib)
  finally have prod: "base * f = (2 * (?h * f)) * 32768 + ?lo" .
  have "base * f div 32768 = 2 * (?h * f) + ?lo div 32768" unfolding prod by simp
  moreover have "?lo div 32768 = 2 * (?lo div 65536) + (?lo div 32768) mod 2"
    using div_mult_mod_eq [of "?lo div 32768" 2] by (simp add: div_mult2_eq [symmetric] mult.commute)
  ultimately have exact: "base * f div 32768 = 2 * ?res + (?lo div 32768) mod 2" by simp
  show ?thesis
  proof (cases "?res \<ge> 2147483648")
    case True
    then show ?thesis by (simp add: scale_by_factor_def wraps Let_def exact min_def)
  next
    case False
    then have "2 * ?res + (?lo div 32768) mod 2 \<le> 4294967295" "u32_wrap (?res * 2) = 2 * ?res"
      using mod_less_divisor [of 2 "?lo div 32768"] by (simp_all add: u32_wrap_id)
    with False show ?thesis by (simp add: scale_by_factor_def wraps Let_def exact min_def)
  qed
qed

text \<open>The jittered value is the product with the drawn factor as a 1.15 fixed-point number, up to the largest value.\<close>

lemma randLIB_randomise_base_exact:
  assumes "base < 4294967296" "mn \<le> mx" "mx < 65536"
  shows "randLIB_randomise_base base mn mx s =
    map_option (\<lambda>(f, s). (min 4294967295 (base * f div 32768), s)) (randLIB_get_random_in_range mn mx s)"
proof -
  have "f < 65536" if "randLIB_get_random_in_range mn mx s = Some (f, s')" for f s'
    using that assms(2,3) by (auto simp: randLIB_get_random_in_range_def Let_def split: if_splits option.splits)
  then show ?thesis
    using scale_by_factor_exact [OF assms(1)]
    by (cases "randLIB_get_random_in_range mn mx s") (auto simp: randLIB_randomise_base_def)
qed

end
