(* ===== verification/Nsdl_State.thy ===== *)
theory Nsdl_State
  imports Coap_Protocol
begin

text \<open>
  The state of the CoAP service interface, \<open>mbed-client/mbed-client-c\<close>: the handle \<open>struct nsdl_s\<close> with the
  \<open>struct grs_s\<close> in it (\<open>source/include/sn_grs.h\<close>), the resources and endpoint parameters of \<open>nsdl-c/sn_nsdl_lib.h\<close>. The
  build is the default one: bootstrap and observation are on, the resource attributes are the two strings.

  A resource of the application is an address in \<open>objects\<close>; a released one is no longer there, and a use of it is None. C
  strings are the bytes before the terminator. Allocations, random numbers and sent packets are those of the
  CoAP handle. What the callbacks of the application return is a parameter.
\<close>

section \<open>Resources\<close>

datatype resource_mode = SN_GRS_STATIC | SN_GRS_DYNAMIC | SN_GRS_DIRECTORY

datatype resource_registration =
  SN_NDSL_RESOURCE_NOT_REGISTERED | SN_NDSL_RESOURCE_REGISTERING | SN_NDSL_RESOURCE_REGISTERED | SN_NDSL_RESOURCE_DELETE

record static_parameters =
  resource_type_ptr :: "bytes option"
  interface_description_ptr :: "bytes option"
  path :: "bytes option"
  external_memory_block :: bool
  mode :: resource_mode
  params_free_on_delete :: bool

record resource_parameters =
  dyn_res_callback :: bool
  static_resource_parameters :: "static_parameters option"
  resource :: "bytes option"
  resource_len :: nat
  coap_content_type :: nat
  access :: "4 word"
  registered :: resource_registration
  publish_uri :: bool
  free_on_delete :: bool
  observable :: bool
  auto_observable :: bool
  always_publish :: bool
  publish_value :: nat

section \<open>The handle\<close>

datatype registration_mode = REGISTER_WITH_RESOURCES | REGISTER_WITH_TEMPLATE

record ep_parameters =
  endpoint_name_len :: nat
  domain_name_len :: nat
  type_len :: nat
  lifetime_len :: nat
  location_len :: nat
  ds_register_mode :: registration_mode
  binding_and_mode :: "8 word"
  endpoint_name_ptr :: "bytes option"
  domain_name_ptr :: "bytes option"
  type_ptr :: "bytes option"
  lifetime_ptr :: "bytes option"
  location_ptr :: "bytes option"

record nsdl_s =
  update_register_token :: "32 word"
  register_token :: "32 word"
  unregister_token :: "32 word"
  bootstrap_token :: "32 word"
  token_seed :: "32 word"
  sn_nsdl_endpoint_registered :: bool
  is_bs_server :: bool
  ep_information :: ep_parameters
  server_address_type :: nat
  server_address :: coap_addr
  coap :: coap_s
  resource_root_count :: nat
  resource_root_list :: "nat list"
  objects :: "nat \<rightharpoonup> resource_parameters"

abbreviation (input) SN_NSDL_SUCCESS :: int where "SN_NSDL_SUCCESS \<equiv> 0"
abbreviation (input) SN_NSDL_FAILURE :: int where "SN_NSDL_FAILURE \<equiv> - 1"
abbreviation (input) SN_NSDL_MEMORY_ALLOCATION_FAILED :: int where "SN_NSDL_MEMORY_ALLOCATION_FAILED \<equiv> - 2"
abbreviation (input) SN_GRS_RESOURCE_ALREADY_EXISTS :: int where "SN_GRS_RESOURCE_ALREADY_EXISTS \<equiv> - 2"
abbreviation (input) SN_GRS_INVALID_PATH :: int where "SN_GRS_INVALID_PATH \<equiv> - 3"

text \<open>
  The application: the token for an automatic observation of a path (its length and the bytes), and the Base64 encoder of Mbed TLS.
\<close>

record nsdl_app =
  app_obs_token :: "bytes option \<Rightarrow> nat \<times> bytes"
  base64_encode :: "bytes \<Rightarrow> bytes"

section \<open>Memory\<close>

text \<open>An allocation of a given size, whose content is not defined; the size parameter is a \<open>uint16_t\<close>.\<close>

definition nsdl_alloc :: "coap_env \<Rightarrow> nat \<Rightarrow> nsdl_s \<Rightarrow> bytes option \<times> nsdl_s" where
  "nsdl_alloc env n h =
     (case protocol_malloc env (coap h) of (ok, c) \<Rightarrow> (if ok then Some (junk_block env (u16_wrap n)) else None, h\<lparr>coap := c\<rparr>))"

text \<open>The characters of a C string with its terminator, and the comparison of n of them.\<close>

definition char_at :: "bytes \<Rightarrow> nat \<Rightarrow> u8 option" where
  "char_at s i = rd (s @ [0]) i"

definition same_chars :: "bytes \<Rightarrow> bytes \<Rightarrow> nat \<Rightarrow> nat \<Rightarrow> bool option" where
  "same_chars a b start n = do { x \<leftarrow> rd_block (a @ [0]) 0 n; y \<leftarrow> rd_block (b @ [0]) start n; Some (x = y) }"

end
