(* ===== verification/Nsdl_Resources.thy ===== *)
theory Nsdl_Resources
  imports Nsdl_State
begin

text \<open>
  The resources of the client, \<open>mbed-client-c/source/sn_grs.c\<close>: a list that is searched by path, to which
  resources are put, and from which a resource is deleted together with the ones below it.
\<close>

section \<open>Search\<close>

text \<open>The start and the length of the path without a slash at either end. None is a read in front of the string.\<close>

definition sn_grs_convert_uri :: "nat \<Rightarrow> bytes \<Rightarrow> (nat \<times> nat) option" where
  "sn_grs_convert_uri uri_len uri = do {
     c \<leftarrow> char_at uri 0;
     let (start, len) = (if c = 0x2F then (1, u16_wrap (uri_len + 65535)) else (0, uri_len));
     if start + len = 0 then None
     else do {
       d \<leftarrow> char_at uri (start + len - 1);
       Some (start, if d = 0x2F then u16_wrap (len + 65535) else len) } }"

fun find_resource :: "(resource_parameters \<Rightarrow> bool option) \<Rightarrow> (nat \<rightharpoonup> resource_parameters) \<Rightarrow> nat list \<Rightarrow> nat option option" where
  "find_resource p objs [] = Some None"
| "find_resource p objs (a # as) = do {
     r \<leftarrow> objs a;
     found \<leftarrow> p r;
     if found then Some (Some a) else find_resource p objs as }"

definition has_path :: "bytes \<Rightarrow> nat \<Rightarrow> nat \<Rightarrow> resource_parameters \<Rightarrow> bool option" where
  "has_path uri start pathlen r =
     (let len = (case static_resource_parameters r of
                   None \<Rightarrow> 0
                 | Some s \<Rightarrow> (case path s of None \<Rightarrow> 0 | Some t \<Rightarrow> length t)) in
      if len = pathlen then do {
        s \<leftarrow> static_resource_parameters r;
        (case path s of
           None \<Rightarrow> Some True
         | Some t \<Rightarrow> same_chars t uri start pathlen) }
      else Some False)"

definition lies_below :: "bytes \<Rightarrow> nat \<Rightarrow> nat \<Rightarrow> resource_parameters \<Rightarrow> bool option" where
  "lies_below uri start pathlen r = do {
     s \<leftarrow> static_resource_parameters r;
     t \<leftarrow> path s;
     if length t > pathlen then do {
       c \<leftarrow> char_at t (u8_wrap pathlen);
       if c = 0x2F then same_chars t uri start pathlen else Some False }
     else Some False }"

datatype search_method = SN_GRS_DELETE_METHOD | SN_GRS_SEARCH_METHOD

definition sn_grs_search_resource :: "nsdl_s \<Rightarrow> bytes \<Rightarrow> search_method \<Rightarrow> nat option option" where
  "sn_grs_search_resource h uri search_method = do {
     (start, pathlen) \<leftarrow> sn_grs_convert_uri (u16_wrap (length uri)) uri;
     find_resource
       (case search_method of
          SN_GRS_SEARCH_METHOD \<Rightarrow> has_path uri start pathlen
        | SN_GRS_DELETE_METHOD \<Rightarrow> lies_below uri start pathlen)
       (objects h) (resource_root_list h) }"

section \<open>The list\<close>

definition sn_grs_get_first_resource :: "nsdl_s \<Rightarrow> nat option" where
  "sn_grs_get_first_resource h = list_first (resource_root_list h)"

definition sn_grs_get_next_resource :: "nsdl_s \<Rightarrow> nat \<Rightarrow> nat option" where
  "sn_grs_get_next_resource h a = list_next (resource_root_list h) a"

text \<open>Taking an entry out of the list; an entry that is not in it would corrupt the links.\<close>

definition unlink_resource :: "nat \<Rightarrow> nsdl_s \<Rightarrow> nsdl_s option" where
  "unlink_resource a h =
     (if a \<in> set (resource_root_list h)
      then Some (h\<lparr>resource_root_list := list_remove (resource_root_list h) a,
                   resource_root_count := u16_wrap (resource_root_count h + 65535)\<rparr>)
      else None)"

definition sn_grs_resource_info_free :: "nat \<Rightarrow> nsdl_s \<Rightarrow> nsdl_s option" where
  "sn_grs_resource_info_free a h = do {
     r \<leftarrow> objects h a;
     let r1 = (case static_resource_parameters r of
                 None \<Rightarrow> r
               | Some s \<Rightarrow> if params_free_on_delete s
                          then r\<lparr>static_resource_parameters := None, resource := None\<rparr> else r);
     Some (h\<lparr>objects := (objects h)(a := (if free_on_delete r1 then None else Some r1))\<rparr>) }"

text \<open>The loop of \<open>sn_grs_delete_resource\<close>; the path does not lie in the memory of a resource that is deleted.\<close>

partial_function (option) delete_resources :: "bytes \<Rightarrow> nat \<Rightarrow> nsdl_s \<Rightarrow> nsdl_s option" where
  "delete_resources uri a h = do {
     h \<leftarrow> unlink_resource a h;
     h \<leftarrow> sn_grs_resource_info_free a h;
     found \<leftarrow> sn_grs_search_resource h uri SN_GRS_DELETE_METHOD;
     (case found of None \<Rightarrow> Some h | Some b \<Rightarrow> delete_resources uri b h) }"

declare delete_resources.simps [code]

definition sn_grs_delete_resource :: "bytes \<Rightarrow> nsdl_s \<Rightarrow> (int \<times> nsdl_s) option" where
  "sn_grs_delete_resource uri h = do {
     found \<leftarrow> sn_grs_search_resource h uri SN_GRS_SEARCH_METHOD;
     (case found of
        None \<Rightarrow> Some (SN_NSDL_FAILURE, h)
      | Some a \<Rightarrow> do { h \<leftarrow> delete_resources uri a h; Some (SN_NSDL_SUCCESS, h) }) }"

text \<open>The path of a resource as the code checks it; the inner None is a path that is not valid.\<close>

definition checked_path :: "resource_parameters \<Rightarrow> bytes option option" where
  "checked_path r = do {
     s \<leftarrow> static_resource_parameters r;
     Some (case path s of None \<Rightarrow> None | Some t \<Rightarrow> if t = [] then None else Some t) }"

definition sn_grs_put_resource :: "nat \<Rightarrow> nsdl_s \<Rightarrow> (int \<times> nsdl_s) option" where
  "sn_grs_put_resource res h = do {
     r \<leftarrow> objects h res;
     p \<leftarrow> checked_path r;
     (case p of
        None \<Rightarrow> Some (SN_GRS_INVALID_PATH, h)
      | Some t \<Rightarrow> do {
          found \<leftarrow> sn_grs_search_resource h t SN_GRS_SEARCH_METHOD;
          if found \<noteq> None then Some (SN_GRS_RESOURCE_ALREADY_EXISTS, h)
          else if res \<in> set (resource_root_list h) then None
          else Some (SN_NSDL_SUCCESS,
            h\<lparr>objects := (objects h)(res \<mapsto> r\<lparr>registered := SN_NDSL_RESOURCE_NOT_REGISTERED\<rparr>),
              resource_root_list := list_add_to_start (resource_root_list h) res,
              resource_root_count := u16_wrap (resource_root_count h + 1)\<rparr>) }) }"

definition sn_grs_pop_resource :: "nat \<Rightarrow> nsdl_s \<Rightarrow> (int \<times> nsdl_s) option" where
  "sn_grs_pop_resource res h = do {
     r \<leftarrow> objects h res;
     p \<leftarrow> checked_path r;
     (case p of
        None \<Rightarrow> Some (SN_GRS_INVALID_PATH, h)
      | Some t \<Rightarrow> do {
          found \<leftarrow> sn_grs_search_resource h t SN_GRS_SEARCH_METHOD;
          if found = None then Some (SN_NSDL_FAILURE, h)
          else do { h \<leftarrow> unlink_resource res h; Some (SN_NSDL_SUCCESS, h) } }) }"

fun mark_registered :: "nat list \<Rightarrow> nsdl_s \<Rightarrow> nsdl_s option" where
  "mark_registered [] h = Some h"
| "mark_registered (a # as) h = do {
     r \<leftarrow> objects h a;
     mark_registered as
       (if registered r = SN_NDSL_RESOURCE_REGISTERING
        then h\<lparr>objects := (objects h)(a \<mapsto> r\<lparr>registered := SN_NDSL_RESOURCE_REGISTERED\<rparr>)\<rparr> else h) }"

definition sn_grs_mark_resources_as_registered :: "nsdl_s \<Rightarrow> nsdl_s option" where
  "sn_grs_mark_resources_as_registered h = mark_registered (resource_root_list h) h"

fun destroy_resources :: "nat list \<Rightarrow> nsdl_s \<Rightarrow> nsdl_s option" where
  "destroy_resources [] h = Some h"
| "destroy_resources (a # as) h = do {
     h \<leftarrow> unlink_resource a h;
     h \<leftarrow> sn_grs_resource_info_free a h;
     destroy_resources as h }"

text \<open>The handle before its own memory is released.\<close>

definition sn_grs_destroy :: "nsdl_s \<Rightarrow> (int \<times> nsdl_s) option" where
  "sn_grs_destroy h = do { h \<leftarrow> destroy_resources (resource_root_list h) h; Some (0, h) }"

end
