(* ===== verification/Nsdl_Registration.thy ===== *)
theory Nsdl_Registration
  imports Nsdl_Resources Ip4_String
begin

text \<open>
  The list of resources in a registration message, \<open>sn_nsdl_build_registration_body\<close> of \<open>mbed-client-c/source/sn_nsdl.c\<close>: one pass over the
  resources calculates the size of the text, a second one writes it into an allocated block.
\<close>

definition chars :: "string \<Rightarrow> bytes" where
  "chars s = map of_char s"

section \<open>The calculated size\<close>

definition sn_nsdl_check_uint_overflow :: "nat \<Rightarrow> nat \<Rightarrow> nat \<Rightarrow> bool" where
  "sn_nsdl_check_uint_overflow resource_size param_a param_b =
     (let first_check = u16_wrap (param_a + param_b) in
      if first_check < param_b then False
      else \<not> u16_wrap (resource_size + first_check) < first_check)"

fun sn_nsdl_itoa_len :: "nat \<Rightarrow> nat" where
  "sn_nsdl_itoa_len n = (if n div 10 = 0 then 1 else Suc (sn_nsdl_itoa_len (n div 10)))"

declare sn_nsdl_itoa_len.simps [simp del]

definition string_len :: "bytes option \<Rightarrow> nat" where
  "string_len s = (case s of None \<Rightarrow> 0 | Some t \<Rightarrow> length t)"

text \<open>\<open>return_value += a + b\<close> behind its check, whose parameters are 16 bits wide; None is the error.\<close>

definition grow :: "nat \<Rightarrow> nat \<Rightarrow> nat \<Rightarrow> nat option" where
  "grow sz a b = (if sn_nsdl_check_uint_overflow sz a (u16_wrap b) then Some (u16_wrap (sz + (a + b))) else None)"

text \<open>\<open>common_read_16_bit\<close> on the token, an array of eight bytes that are zero before the callback writes to it.\<close>

definition token_number :: "bytes \<Rightarrow> nat" where
  "token_number bs = 256 * unat ((bs @ [0, 0]) ! 0) + unat ((bs @ [0, 0]) ! 1)"

definition resource_size :: "nsdl_app \<Rightarrow> static_parameters \<Rightarrow> resource_parameters \<Rightarrow> nat \<Rightarrow> nat option" where
  "resource_size app s r sz = do {
     sz \<leftarrow> (if sz \<noteq> 0 then grow sz 1 0 else Some sz);
     sz \<leftarrow> grow sz 3 (string_len (path s));
     let sz = (if registered r = SN_NDSL_RESOURCE_DELETE then u16_wrap (sz + 2) else sz);
     sz \<leftarrow> (if string_len (resource_type_ptr s) \<noteq> 0 then grow sz 6 (string_len (resource_type_ptr s)) else Some sz);
     sz \<leftarrow> (if string_len (interface_description_ptr s) \<noteq> 0
              then grow sz 6 (string_len (interface_description_ptr s)) else Some sz);
     sz \<leftarrow> (if coap_content_type r \<noteq> 0 then grow sz 6 (sn_nsdl_itoa_len (coap_content_type r)) else Some sz);
     sz \<leftarrow> (if publish_value r > 0 \<and> resource r \<noteq> None
              then grow sz 5 (if publish_value r = 2 then u16_wrap (((resource_len r + 2) div 3) * 4) else resource_len r)
              else Some sz);
     (if auto_observable r then
        (let (len, token) = app_obs_token app (path s) in
         if len > 0 then grow sz 8 (sn_nsdl_itoa_len (token_number token)) else None)
      else if observable r then grow sz 4 0 else Some sz) }"

text \<open>Whether the message has the resource; an update leaves out the ones that the server knows.\<close>

definition is_published :: "bool \<Rightarrow> resource_parameters \<Rightarrow> bool" where
  "is_published updating r \<longleftrightarrow>
     publish_uri r \<and> \<not> (\<not> always_publish r \<and> updating \<and> registered r = SN_NDSL_RESOURCE_REGISTERED)"

text \<open>The inner None is SN_NSDL_FAILURE in the error parameter; the size so far, which is returned with it, is not used.\<close>

fun size_loop :: "nsdl_app \<Rightarrow> (nat \<rightharpoonup> resource_parameters) \<Rightarrow> bool \<Rightarrow> nat list \<Rightarrow> nat \<Rightarrow> nat option option" where
  "size_loop app objs updating [] sz = Some (Some sz)"
| "size_loop app objs updating (a # as) sz = do {
     r \<leftarrow> objs a;
     if \<not> is_published updating r then size_loop app objs updating as sz
     else do {
       s \<leftarrow> static_resource_parameters r;
       (case resource_size app s r sz of
          None \<Rightarrow> Some None
        | Some sz1 \<Rightarrow> size_loop app objs updating as sz1) } }"

definition sn_nsdl_calculate_registration_body_size :: "nsdl_app \<Rightarrow> bool \<Rightarrow> nsdl_s \<Rightarrow> nat option option" where
  "sn_nsdl_calculate_registration_body_size app updating h =
     size_loop app (objects h) updating (resource_root_list h) 0"

section \<open>The text\<close>

text \<open>The block and the offset of the next byte in it.\<close>

type_synonym body = "bytes \<times> nat"

definition put :: "bytes \<Rightarrow> body \<Rightarrow> body option" where
  "put bs out = do { buf \<leftarrow> write_at (fst out) (snd out) bs; Some (buf, snd out + length bs) }"

definition put_attribute :: "string \<Rightarrow> bytes option \<Rightarrow> body \<Rightarrow> body option" where
  "put_attribute name v out =
     (if string_len v \<noteq> 0 then put (chars name @ the v @ [0x22]) out else Some out)"

definition sn_nsdl_itoa :: "body \<Rightarrow> nat \<Rightarrow> body option" where
  "sn_nsdl_itoa out n =
     (let digits = itoa_loop n in
      do { buf \<leftarrow> write_at (fst out) (snd out) digits;
           Some (swap_loop buf (snd out) (snd out + length digits - 1), snd out + length digits) })"

definition put_number :: "string \<Rightarrow> nat \<Rightarrow> body \<Rightarrow> body option" where
  "put_number name n out = do { out \<leftarrow> put (chars name) out; out \<leftarrow> sn_nsdl_itoa out n; put [0x22] out }"

text \<open>The encoder writes its text and a terminator to the block, which is as long as the 16 bits of its size say.\<close>

definition put_value :: "coap_env \<Rightarrow> nsdl_app \<Rightarrow> resource_parameters \<Rightarrow> nsdl_s \<Rightarrow> body \<Rightarrow> (nsdl_s \<times> body) option" where
  "put_value env app r h out =
     (case resource r of
        None \<Rightarrow> Some (h, out)
      | Some data \<Rightarrow>
          if \<not> publish_value r > 0 then Some (h, out)
          else if publish_value r = 2 then
            (let dst_size = ((resource_len r + 2) div 3) * 4 + 1; (dst, h) = nsdl_alloc env dst_size h in
             case dst of
               None \<Rightarrow> Some (h, out)
             | Some block \<Rightarrow> do {
                 source \<leftarrow> rd_block data 0 (resource_len r);
                 let encoded = base64_encode app source;
                 if length encoded + 1 > dst_size then Some (h, out)
                 else do {
                   block \<leftarrow> write_at block 0 (encoded @ [0]);
                   out \<leftarrow> put (chars '';v='' @ [0x22] @ encoded @ [0x22]) out;
                   Some (h, out) } })
          else do {
            source \<leftarrow> rd_block data 0 (resource_len r);
            out \<leftarrow> put (chars '';v='' @ [0x22] @ source @ [0x22]) out;
            Some (h, out) })"

definition put_observation :: "nsdl_app \<Rightarrow> static_parameters \<Rightarrow> resource_parameters \<Rightarrow> body \<Rightarrow> body option" where
  "put_observation app s r out =
     (if auto_observable r then
        (let (len, token) = app_obs_token app (path s) in
         if len > 0 then put_number ('';aobs='' @ [CHR 0x22]) (token_number token) out else Some out)
      else if observable r then put (chars '';obs'') out else Some out)"

definition put_resource_text ::
  "coap_env \<Rightarrow> nsdl_app \<Rightarrow> static_parameters \<Rightarrow> resource_parameters \<Rightarrow> nsdl_s \<Rightarrow> body \<Rightarrow> (nsdl_s \<times> body) option" where
  "put_resource_text env app s r h out = do {
     out \<leftarrow> (if snd out \<noteq> 0 then put (chars '','') out else Some out);
     out \<leftarrow> put (chars ''</'') out;
     out \<leftarrow> put (case path s of None \<Rightarrow> [] | Some t \<Rightarrow> t) out;
     out \<leftarrow> put (chars ''>'') out;
     out \<leftarrow> (if registered r = SN_NDSL_RESOURCE_DELETE then put (chars '';d'') out else Some out);
     out \<leftarrow> put_attribute ('';rt='' @ [CHR 0x22]) (resource_type_ptr s) out;
     out \<leftarrow> put_attribute ('';if='' @ [CHR 0x22]) (interface_description_ptr s) out;
     out \<leftarrow> (if coap_content_type r \<noteq> 0 then put_number ('';ct='' @ [CHR 0x22]) (coap_content_type r) out else Some out);
     (h, out) \<leftarrow> put_value env app r h out;
     out \<leftarrow> put_observation app s r out;
     Some (h, out) }"

fun text_loop :: "coap_env \<Rightarrow> nsdl_app \<Rightarrow> bool \<Rightarrow> nat list \<Rightarrow> nsdl_s \<Rightarrow> body \<Rightarrow> (nsdl_s \<times> body) option" where
  "text_loop env app updating [] h out = Some (h, out)"
| "text_loop env app updating (a # as) h out = do {
     r \<leftarrow> objects h a;
     if \<not> is_published updating r then text_loop env app updating as h out
     else do {
       let r = (if registered r \<noteq> SN_NDSL_RESOURCE_DELETE then r\<lparr>registered := SN_NDSL_RESOURCE_REGISTERED\<rparr> else r);
       let h = h\<lparr>objects := (objects h)(a \<mapsto> r)\<rparr>;
       s \<leftarrow> static_resource_parameters r;
       (h, out) \<leftarrow> put_resource_text env app s r h out;
       text_loop env app updating as h out } }"

definition sn_nsdl_build_registration_body ::
  "coap_env \<Rightarrow> nsdl_app \<Rightarrow> coap_hdr \<Rightarrow> bool \<Rightarrow> nsdl_s \<Rightarrow> (int \<times> coap_hdr \<times> nsdl_s) option" where
  "sn_nsdl_build_registration_body env app m updating h = do {
     announced \<leftarrow> sn_nsdl_calculate_registration_body_size app updating h;
     (case announced of
        None \<Rightarrow> Some (SN_NSDL_FAILURE, m, h)
      | Some msg_len \<Rightarrow>
          if msg_len = 0 then Some (SN_NSDL_SUCCESS, m, h)
          else
            (case nsdl_alloc env msg_len h of
               (None, h) \<Rightarrow> Some (SN_NSDL_MEMORY_ALLOCATION_FAILED, m\<lparr>payload_len := msg_len, payload_ptr := None\<rparr>, h)
             | (Some block, h) \<Rightarrow> do {
                 (h, out) \<leftarrow> text_loop env app updating (resource_root_list h) h (block, 0);
                 Some (SN_NSDL_SUCCESS, m\<lparr>payload_len := msg_len, payload_ptr := Some (fst out)\<rparr>, h) })) }"

end
