(* ===== verification/Nsdl_Resource_Store.thy ===== *)
theory Nsdl_Resource_Store
  imports Nsdl_Resources
begin

text \<open>
  The resources as a map from paths to addresses: searching a path looks it up, putting a resource adds its path, and
  deleting a path removes it with everything below it.
\<close>

section \<open>Paths\<close>

definition trimmed :: "bytes \<Rightarrow> bytes" where
  "trimmed p =
     (let q = (if hd p = 0x2F then tl p else p) in if q \<noteq> [] \<and> last q = 0x2F then butlast q else q)"

definition below :: "bytes \<Rightarrow> bytes \<Rightarrow> bool" where
  "below q t \<longleftrightarrow> take (length q + 1) t = q @ [0x2F]"

definition searchable :: "bytes \<Rightarrow> bool" where
  "searchable p \<longleftrightarrow> p \<noteq> [] \<and> p \<noteq> [0x2F] \<and> length p < 65536"

lemma char_at_char: "i < length s \<Longrightarrow> char_at s i = Some (s ! i)"
  by (simp add: char_at_def rd_def nth_append)

lemma same_chars_eq:
  "n \<le> length a \<Longrightarrow> start + n \<le> length b \<Longrightarrow> same_chars a b start n = Some (take n a = take n (drop start b))"
  by (simp add: same_chars_def rd_block_def)

lemma convert_uri_trimmed:
  assumes "searchable p"
  obtains start where "sn_grs_convert_uri (u16_wrap (length p)) p = Some (start, length (trimmed p))"
    "start + length (trimmed p) \<le> length p" "take (length (trimmed p)) (drop start p) = trimmed p"
proof -
  obtain c cs where p: "p = c # cs" using assms by (cases p) (auto simp: searchable_def)
  have len: "length p < 65536" and ne: "c = 0x2F \<Longrightarrow> cs \<noteq> []" using assms by (auto simp: searchable_def p)
  have first: "char_at p 0 = Some c" by (simp add: char_at_char p)
  show ?thesis
  proof (cases "c = 0x2F")
    case True
    then obtain ds d where cs: "cs = ds @ [d]" using ne by (cases cs rule: rev_cases) auto
    have wrap: "u16_wrap (u16_wrap (length p) + 65535) = length cs"
    proof -
      have "u16_wrap (length p) + 65535 = length cs + 65536" using len by (simp add: p u16_wrap_id)
      then show ?thesis using len by (simp add: u16_wrap_def p)
    qed
    have "char_at p (1 + length cs - 1) = Some d" using char_at_char [of "length cs" p] by (simp add: p cs nth_append)
    moreover have "u16_wrap (length cs + 65535) = length ds" if "cs = ds @ [d]" for ds d
    proof -
      have "length cs + 65535 = length ds + 65536" using that by simp
      then show ?thesis using len that by (simp add: u16_wrap_def p)
    qed
    ultimately show ?thesis
      using True first wrap by (intro that [of 1]) (auto simp: sn_grs_convert_uri_def trimmed_def p cs Let_def)
  next
    case False
    obtain ds d where q: "p = ds @ [d]" by (rule that [of "butlast p" "last p"]) (simp add: p)
    have "char_at p (0 + length p - 1) = Some d" using char_at_char [of "length ds" p] by (simp add: q)
    moreover have "u16_wrap (length p + 65535) = length ds"
    proof -
      have "length p + 65535 = length ds + 65536" by (simp add: q)
      then show ?thesis using len by (simp add: u16_wrap_def q)
    qed
    moreover have "hd p = c" "u16_wrap (length p) = length p" "0 < length p" using len by (simp_all add: p u16_wrap_id)
    ultimately show ?thesis
      using False first by (intro that [of 0]) (auto simp: sn_grs_convert_uri_def trimmed_def q Let_def)
  qed
qed

section \<open>The list of resources\<close>

definition resource_path :: "resource_parameters \<Rightarrow> bytes option" where
  "resource_path r = do { s \<leftarrow> static_resource_parameters r; path s }"

definition path_of :: "nsdl_s \<Rightarrow> nat \<Rightarrow> bytes" where
  "path_of h a = the (do { r \<leftarrow> objects h a; resource_path r })"

definition grs_inv :: "nsdl_s \<Rightarrow> bool" where
  "grs_inv h \<longleftrightarrow> distinct (resource_root_list h) \<and> inj_on (path_of h) (set (resource_root_list h)) \<and>
     resource_root_count h = u16_wrap (length (resource_root_list h)) \<and>
     (\<forall>a \<in> set (resource_root_list h). \<exists>r t. objects h a = Some r \<and> resource_path r = Some t \<and> t \<noteq> [])"

text \<open>The map that the list stands for.\<close>

definition resource_map :: "nsdl_s \<Rightarrow> bytes \<rightharpoonup> nat" where
  "resource_map h t = find (\<lambda>a. path_of h a = t) (resource_root_list h)"

lemma find_resource_find:
  "(\<And>a. a \<in> set as \<Longrightarrow> \<exists>r. objs a = Some r \<and> p r = Some (q a)) \<Longrightarrow> find_resource p objs as = Some (find q as)"
  by (induction as) fastforce+

lemma has_path_eq:
  assumes "resource_path r = Some t" "start + length q \<le> length uri" "take (length q) (drop start uri) = q"
  shows "has_path uri start (length q) r = Some (t = q)"
  using assms same_chars_eq [of "length q" t start uri]
  by (auto simp: has_path_def resource_path_def Let_def split: option.splits bind_splits)

lemma lies_below_eq:
  assumes "resource_path r = Some t" "start + length q \<le> length uri" "take (length q) (drop start uri) = q" "length q < 256"
  shows "lies_below uri start (length q) r = Some (below q t)"
proof (cases "length q < length t")
  case True
  have "take (length q + 1) t = take (length q) t @ [t ! length q]" using True by (simp add: take_Suc_conv_app_nth)
  with True show ?thesis
    using assms char_at_char [OF True] same_chars_eq [of "length q" t start uri]
    by (auto simp: lies_below_def resource_path_def below_def u8_wrap_id split: option.splits bind_splits)
next
  case False
  then have "length (take (length q + 1) t) \<noteq> length (q @ [0x2F])" by simp
  then have "\<not> below q t" unfolding below_def by metis
  with False assms(1) show ?thesis
    by (auto simp: lies_below_def resource_path_def split: option.splits bind_splits)
qed

lemma grs_inv_resource:
  assumes "grs_inv h" "a \<in> set (resource_root_list h)"
  obtains r where "objects h a = Some r" "resource_path r = Some (path_of h a)" "path_of h a \<noteq> []"
  using assms by (fastforce simp: grs_inv_def path_of_def)

lemma search_exact:
  assumes "grs_inv h" "searchable p"
  shows "sn_grs_search_resource h p SN_GRS_SEARCH_METHOD = Some (resource_map h (trimmed p))"
proof -
  obtain start where c: "sn_grs_convert_uri (u16_wrap (length p)) p = Some (start, length (trimmed p))"
    "start + length (trimmed p) \<le> length p" "take (length (trimmed p)) (drop start p) = trimmed p"
    using convert_uri_trimmed [OF assms(2)] .
  have "find_resource (has_path p start (length (trimmed p))) (objects h) (resource_root_list h) =
      Some (find (\<lambda>a. path_of h a = trimmed p) (resource_root_list h))"
    by (rule find_resource_find) (metis has_path_eq [OF _ c(2,3)] grs_inv_resource [OF assms(1)])
  then show ?thesis by (simp add: sn_grs_search_resource_def c(1) resource_map_def)
qed

lemma search_below:
  assumes "\<forall>a \<in> set (resource_root_list h). \<exists>r. objects h a = Some r \<and> resource_path r = Some (path_of h a)"
    and "searchable p" "length (trimmed p) < 256"
  shows "sn_grs_search_resource h p SN_GRS_DELETE_METHOD =
    Some (find (\<lambda>a. below (trimmed p) (path_of h a)) (resource_root_list h))"
proof -
  obtain start where c: "sn_grs_convert_uri (u16_wrap (length p)) p = Some (start, length (trimmed p))"
    "start + length (trimmed p) \<le> length p" "take (length (trimmed p)) (drop start p) = trimmed p"
    using convert_uri_trimmed [OF assms(2)] .
  have "find_resource (lies_below p start (length (trimmed p))) (objects h) (resource_root_list h) =
      Some (find (\<lambda>a. below (trimmed p) (path_of h a)) (resource_root_list h))"
    by (rule find_resource_find) (metis lies_below_eq [OF _ c(2,3) assms(3)] assms(1))
  then show ?thesis by (simp add: sn_grs_search_resource_def c(1))
qed

lemma resource_map_Some:
  assumes "grs_inv h"
  shows "resource_map h t = Some a \<longleftrightarrow> a \<in> set (resource_root_list h) \<and> path_of h a = t"
proof
  assume "resource_map h t = Some a"
  then show "a \<in> set (resource_root_list h) \<and> path_of h a = t" by (auto simp: resource_map_def find_Some_iff)
next
  assume a: "a \<in> set (resource_root_list h) \<and> path_of h a = t"
  then obtain b where b: "resource_map h t = Some b"
    by (cases "resource_map h t") (auto simp: resource_map_def find_None_iff)
  then have "b \<in> set (resource_root_list h)" "path_of h b = t" by (auto simp: resource_map_def find_Some_iff)
  with a b assms show "resource_map h t = Some a" by (auto simp: grs_inv_def inj_on_def)
qed

lemma resource_map_None: "resource_map h t = None \<longleftrightarrow> (\<forall>a \<in> set (resource_root_list h). path_of h a \<noteq> t)"
  by (auto simp: resource_map_def find_None_iff)

section \<open>Putting\<close>

lemma put_resource:
  assumes inv: "grs_inv h" and obj: "objects h a = Some r" "resource_path r = Some t" "a \<notin> set (resource_root_list h)"
    and t: "searchable t" "trimmed t = t"
  shows "\<exists>h'. sn_grs_put_resource a h = Some (if resource_map h t = None then SN_NSDL_SUCCESS else SN_GRS_RESOURCE_ALREADY_EXISTS, h') \<and>
    grs_inv h' \<and> resource_map h' = (if resource_map h t = None then (resource_map h)(t \<mapsto> a) else resource_map h)"
proof -
  have p: "checked_path r = Some (Some t)"
    using obj(2) t(1) by (auto simp: checked_path_def resource_path_def searchable_def split: bind_splits)
  have s: "sn_grs_search_resource h t SN_GRS_SEARCH_METHOD = Some (resource_map h t)"
    using search_exact [OF inv t(1)] by (simp add: t(2))
  show ?thesis
  proof (cases "resource_map h t = None")
    case False
    then show ?thesis using inv by (simp add: sn_grs_put_resource_def obj(1) p s)
  next
    case True
    let ?r = "r\<lparr>registered := SN_NDSL_RESOURCE_NOT_REGISTERED\<rparr>"
    obtain h' where h': "h' = h\<lparr>objects := (objects h)(a \<mapsto> ?r), resource_root_list := a # resource_root_list h,
      resource_root_count := u16_wrap (resource_root_count h + 1)\<rparr>" by simp
    have put: "sn_grs_put_resource a h = Some (SN_NSDL_SUCCESS, h')"
      using True obj(3) by (simp add: sn_grs_put_resource_def obj(1) p s list_add_to_start_def h')
    have l: "resource_root_list h' = a # resource_root_list h" by (simp add: h')
    have new: "path_of h' a = t" "b \<noteq> a \<Longrightarrow> path_of h' b = path_of h b" for b
      using obj(2) by (simp_all add: path_of_def resource_path_def h')
    have old: "path_of h' b = path_of h b" if "b \<in> set (resource_root_list h)" for b
      using new(2) that obj(3) by metis
    have "grs_inv h'"
      unfolding grs_inv_def l
    proof (intro conjI ballI)
      show "distinct (a # resource_root_list h)" using inv obj(3) by (simp add: grs_inv_def)
      have "inj_on (path_of h') (set (resource_root_list h))"
        using inv inj_on_cong [of "set (resource_root_list h)" "path_of h'" "path_of h"] old by (simp add: grs_inv_def)
      moreover have "t \<notin> path_of h' ` set (resource_root_list h)" using True old by (auto simp: resource_map_None)
      ultimately show "inj_on (path_of h') (set (a # resource_root_list h))" by (auto simp: new(1))
      show "resource_root_count h' = u16_wrap (length (a # resource_root_list h))"
        using inv by (simp add: grs_inv_def u16_wrap_def mod_Suc_eq h')
      show "\<exists>r t. objects h' b = Some r \<and> resource_path r = Some t \<and> t \<noteq> []" if "b \<in> set (a # resource_root_list h)" for b
      proof (cases "b = a")
        case True
        then show ?thesis using obj(2) t(1) by (auto simp: h' resource_path_def searchable_def)
      next
        case False
        then show ?thesis using that inv by (auto simp: h' grs_inv_def)
      qed
    qed
    moreover have "resource_map h' = (resource_map h)(t \<mapsto> a)"
    proof
      fix u
      have "find (\<lambda>b. path_of h' b = u) (resource_root_list h) = find (\<lambda>b. path_of h b = u) (resource_root_list h)"
        using old by (intro find_cong) auto
      then show "resource_map h' u = ((resource_map h)(t \<mapsto> a)) u" using new(1) by (simp add: resource_map_def l)
    qed
    ultimately show ?thesis using True put by auto
  qed
qed

section \<open>Deleting\<close>

lemma u16_wrap_pred: "0 < n \<Longrightarrow> u16_wrap (u16_wrap n + 65535) = u16_wrap (n - 1)"
proof -
  assume "0 < n"
  then have "n + 65535 = n - 1 + 65536" by simp
  then have "u16_wrap (n + 65535) = u16_wrap (n - 1)" by (simp only: u16_wrap_def mod_add_self2)
  then show ?thesis by (simp add: u16_wrap_def mod_add_left_eq)
qed

lemma unlink_and_free:
  assumes "grs_inv h" "a \<in> set (resource_root_list h)"
  obtains h1 h2 where "unlink_resource a h = Some h1" "sn_grs_resource_info_free a h1 = Some h2" "grs_inv h2"
    "resource_root_list h2 = filter (\<lambda>b. b \<noteq> a) (resource_root_list h)" "\<And>b. b \<noteq> a \<Longrightarrow> objects h2 b = objects h b"
proof -
  let ?l = "resource_root_list h"
  have d: "distinct ?l" using assms(1) by (simp add: grs_inv_def)
  have rm: "list_remove ?l a = filter (\<lambda>b. b \<noteq> a) ?l"
    using distinct_remove1_removeAll [OF d] by (simp add: list_remove_def removeAll_filter_not_eq eq_commute)
  let ?h1 = "h\<lparr>resource_root_list := list_remove ?l a, resource_root_count := u16_wrap (resource_root_count h + 65535)\<rparr>"
  obtain r where r: "objects h a = Some r" using grs_inv_resource [OF assms] .
  obtain x where x: "sn_grs_resource_info_free a ?h1 = Some (?h1\<lparr>objects := (objects h)(a := x)\<rparr>)"
    by (rule that) (simp add: sn_grs_resource_info_free_def r Let_def)
  let ?h2 = "?h1\<lparr>objects := (objects h)(a := x)\<rparr>"
  have same: "b \<noteq> a \<Longrightarrow> path_of ?h2 b = path_of h b" for b by (simp add: path_of_def)
  have "u16_wrap (resource_root_count h + 65535) = u16_wrap (length (list_remove ?l a))"
    using assms u16_wrap_pred [of "length ?l"]
    by (auto simp: grs_inv_def list_remove_def length_remove1 dest: length_pos_if_in_set)
  moreover have "inj_on (path_of ?h2) (set (filter (\<lambda>b. b \<noteq> a) ?l))"
    using assms(1) same by (auto simp: grs_inv_def inj_on_def)
  ultimately have "grs_inv ?h2" using assms(1) d by (auto simp: grs_inv_def rm)
  then show ?thesis using assms(2) x by (intro that [of ?h1 ?h2]) (auto simp: unlink_resource_def rm)
qed

lemma delete_resources_removes:
  assumes "searchable p" "length (trimmed p) < 256"
  shows "grs_inv h \<Longrightarrow> a \<in> set (resource_root_list h) \<Longrightarrow>
    \<exists>h'. delete_resources p a h = Some h' \<and> grs_inv h' \<and>
      resource_root_list h' = filter (\<lambda>b. b \<noteq> a \<and> \<not> below (trimmed p) (path_of h b)) (resource_root_list h) \<and>
      (\<forall>b \<in> set (resource_root_list h'). objects h' b = objects h b)"
proof (induction "length (resource_root_list h)" arbitrary: h a rule: less_induct)
  case less
  let ?q = "trimmed p" and ?l = "resource_root_list h"
  obtain h1 h2 where h: "unlink_resource a h = Some h1" "sn_grs_resource_info_free a h1 = Some h2" "grs_inv h2"
    "resource_root_list h2 = filter (\<lambda>b. b \<noteq> a) ?l" "\<And>b. b \<noteq> a \<Longrightarrow> objects h2 b = objects h b"
    using unlink_and_free [OF less.prems] by metis
  have same: "b \<noteq> a \<Longrightarrow> path_of h2 b = path_of h b" for b using h(5) by (simp add: path_of_def)
  have all: "\<forall>b \<in> set (resource_root_list h2). \<exists>r. objects h2 b = Some r \<and> resource_path r = Some (path_of h2 b)"
    using grs_inv_resource [OF h(3)] by metis
  note search = search_below [OF all assms]
  show ?case
  proof (cases "find (\<lambda>b. below ?q (path_of h2 b)) (resource_root_list h2)")
    case None
    then have "\<forall>b \<in> set ?l. b \<noteq> a \<longrightarrow> \<not> below ?q (path_of h b)" using same by (auto simp: find_None_iff h(4))
    then have "filter (\<lambda>b. b \<noteq> a) ?l = filter (\<lambda>b. b \<noteq> a \<and> \<not> below ?q (path_of h b)) ?l"
      by (intro filter_cong) auto
    with None h search show ?thesis by (subst delete_resources.simps) auto
  next
    case (Some b)
    then have b: "b \<in> set (resource_root_list h2)" "below ?q (path_of h2 b)" by (auto simp: find_Some_iff)
    have "length (resource_root_list h2) < length ?l"
      unfolding h(4) using less.prems(2) by (intro length_filter_less) auto
    from less.hyps [OF this h(3) b(1)] obtain h' where h':
      "delete_resources p b h2 = Some h'" "grs_inv h'"
      "resource_root_list h' = filter (\<lambda>c. c \<noteq> b \<and> \<not> below ?q (path_of h2 c)) (resource_root_list h2)"
      "\<forall>c \<in> set (resource_root_list h'). objects h' c = objects h2 c" by auto
    have "filter (\<lambda>c. c \<noteq> b \<and> \<not> below ?q (path_of h2 c)) (filter (\<lambda>b. b \<noteq> a) ?l) =
        filter (\<lambda>c. c \<noteq> a \<and> \<not> below ?q (path_of h c)) ?l"
      using b(2) same by (auto intro!: filter_cong simp: filter_filter)
    moreover have "\<forall>c \<in> set (resource_root_list h'). objects h' c = objects h c"
    proof
      fix c assume c: "c \<in> set (resource_root_list h')"
      then have "c \<noteq> a" using h'(3) h(4) by auto
      with c h'(4) h(5) show "objects h' c = objects h c" by simp
    qed
    moreover have "delete_resources p a h = Some h'"
      using Some h(1,2) h'(1) search by (subst delete_resources.simps) simp
    ultimately show ?thesis using h'(2,3) unfolding h(4) by metis
  qed
qed

lemma find_filter_same:
  "(\<And>x. x \<in> set xs \<Longrightarrow> Q x \<Longrightarrow> P x) \<Longrightarrow> find Q (filter P xs) = find Q xs"
  by (induction xs) auto

lemma delete_resource:
  assumes inv: "grs_inv h" and p: "searchable p" "length (trimmed p) < 256"
  shows "\<exists>h'. sn_grs_delete_resource p h = Some (if resource_map h (trimmed p) = None then SN_NSDL_FAILURE else SN_NSDL_SUCCESS, h') \<and>
    grs_inv h' \<and>
    resource_map h' = (if resource_map h (trimmed p) = None then resource_map h
                   else (\<lambda>t. if t = trimmed p \<or> below (trimmed p) t then None else resource_map h t))"
proof (cases "resource_map h (trimmed p)")
  case None
  then show ?thesis using inv search_exact [OF inv p(1)] by (simp add: sn_grs_delete_resource_def)
next
  case (Some a)
  let ?q = "trimmed p"
  have a: "a \<in> set (resource_root_list h)" "path_of h a = ?q" using Some resource_map_Some [OF inv] by auto
  obtain h' where h': "delete_resources p a h = Some h'" "grs_inv h'"
    "resource_root_list h' = filter (\<lambda>b. b \<noteq> a \<and> \<not> below ?q (path_of h b)) (resource_root_list h)"
    "\<forall>b \<in> set (resource_root_list h'). objects h' b = objects h b"
    using delete_resources_removes [OF p inv a(1)] by blast
  have only: "b = a" if "b \<in> set (resource_root_list h)" "path_of h b = ?q" for b
    using inv a that by (auto simp: grs_inv_def inj_on_def)
  have "resource_map h' t = (if t = ?q \<or> below ?q t then None else resource_map h t)" for t
  proof -
    have "resource_map h' t = find (\<lambda>b. path_of h b = t) (resource_root_list h')"
      unfolding resource_map_def using h'(4) by (intro find_cong) (auto simp: path_of_def)
    also have "\<dots> = (if t = ?q \<or> below ?q t then None else resource_map h t)"
    proof (cases "t = ?q \<or> below ?q t")
      case True
      then show ?thesis using only by (auto simp: find_None_iff h'(3))
    next
      case False
      then show ?thesis unfolding h'(3) resource_map_def using a by (subst find_filter_same) auto
    qed
    finally show ?thesis .
  qed
  with h' Some search_exact [OF inv p(1)] show ?thesis by (auto simp: sn_grs_delete_resource_def)
qed


section \<open>The store as a map\<close>

text \<open>
  Property C13
  The list of resources behaves as a map from paths to resources. While its invariant holds, which every operation
  keeps, a search for a path, with or without slashes around it, gives the resource with that path and nothing else;
  putting a resource adds its path if that is free and otherwise reports SN_GRS_RESOURCE_ALREADY_EXISTS and changes
  nothing; deleting a path removes exactly the resource and the ones below it, and reports SN_NSDL_FAILURE if there is
  none. No operation reads outside a string. The paths have between 1 and 65535 bytes and are not a single slash, the
  path that is put has no slash around it, and the path of a deletion has less than 256 bytes.
\<close>

theorem resource_store_refines_map:
  assumes "grs_inv h"
  shows "(\<forall>p. searchable p \<longrightarrow> sn_grs_search_resource h p SN_GRS_SEARCH_METHOD = Some (resource_map h (trimmed p))) \<and>
    (\<forall>a r t. objects h a = Some r \<and> resource_path r = Some t \<and> a \<notin> set (resource_root_list h) \<and> searchable t \<and> trimmed t = t \<longrightarrow>
      (\<exists>h'. sn_grs_put_resource a h =
          Some (if resource_map h t = None then SN_NSDL_SUCCESS else SN_GRS_RESOURCE_ALREADY_EXISTS, h') \<and>
        grs_inv h' \<and> resource_map h' = (if resource_map h t = None then (resource_map h)(t \<mapsto> a) else resource_map h))) \<and>
    (\<forall>p. searchable p \<and> length (trimmed p) < 256 \<longrightarrow>
      (\<exists>h'. sn_grs_delete_resource p h =
          Some (if resource_map h (trimmed p) = None then SN_NSDL_FAILURE else SN_NSDL_SUCCESS, h') \<and>
        grs_inv h' \<and>
        resource_map h' = (if resource_map h (trimmed p) = None then resource_map h
                       else (\<lambda>t. if t = trimmed p \<or> below (trimmed p) t then None else resource_map h t))))"
  using search_exact [OF assms] put_resource [OF assms] delete_resource [OF assms] by blast

definition example_resource :: "bytes \<Rightarrow> resource_parameters" where
  "example_resource p = \<lparr>dyn_res_callback = False,
     static_resource_parameters = Some \<lparr>resource_type_ptr = None, interface_description_ptr = None, path = Some p,
       external_memory_block = False, mode = SN_GRS_DYNAMIC, params_free_on_delete = True\<rparr>,
     resource = None, resource_len = 0, coap_content_type = 0, access = 15, registered = SN_NDSL_RESOURCE_NOT_REGISTERED,
     publish_uri = True, free_on_delete = True, observable = False, auto_observable = False, always_publish = False,
     publish_value = 0\<rparr>"

definition example_store :: "(nat \<rightharpoonup> resource_parameters) \<Rightarrow> nat list \<Rightarrow> nsdl_s" where
  "example_store objs as = \<lparr>update_register_token = 0, register_token = 0, unregister_token = 0, bootstrap_token = 0,
     token_seed = 0, sn_nsdl_endpoint_registered = False, is_bs_server = False,
     ep_information = \<lparr>endpoint_name_len = 0, domain_name_len = 0, type_len = 0, lifetime_len = 0, location_len = 0,
       ds_register_mode = REGISTER_WITH_RESOURCES, binding_and_mode = 0, endpoint_name_ptr = None, domain_name_ptr = None,
       type_ptr = None, lifetime_ptr = None, location_ptr = None\<rparr>,
     server_address_type = 0, server_address = \<lparr>addr_bytes = [], addr_port = 0\<rparr>,
     coap = \<lparr>linked_list_resent_msgs = [], count_resent_msgs = 0, linked_list_duplication_msgs = [],
       count_duplication_msgs = 0, linked_list_blockwise_sent_msgs = [], linked_list_blockwise_received_payloads = [],
       system_time = 0, sn_coap_block_data_size = 1024, sn_coap_resending_queue_msgs = 2, sn_coap_resending_queue_bytes = 0,
       sn_coap_resending_count = 3, sn_coap_resending_intervall = 10, sn_coap_duplication_buffer_size = 2,
       sn_coap_internal_block2_resp_handling = True, message_id = 1, requests = 0, draws = 0, transmitted = []\<rparr>,
     resource_root_count = u16_wrap (length as), resource_root_list = as, objects = objs\<rparr>"

text \<open>The resources \<open>3\<close>, \<open>3/0\<close> and \<open>5\<close>: the path \<open>/3\<close> finds the first, and deleting it leaves only the last.\<close>

definition example_objects :: "nat \<rightharpoonup> resource_parameters" where
  "example_objects = [1 \<mapsto> example_resource [0x33], 2 \<mapsto> example_resource [0x33, 0x2F, 0x30], 3 \<mapsto> example_resource [0x35]]"

lemma example_inv: "grs_inv (example_store example_objects [1, 2, 3])"
  by (simp add: grs_inv_def example_store_def path_of_def resource_path_def example_objects_def example_resource_def)

theorem resource_store_refines_map_witness:
  "sn_grs_search_resource (example_store example_objects [1, 2, 3]) [0x2F, 0x33] SN_GRS_SEARCH_METHOD = Some (Some 1) \<and>
   (\<exists>h'. sn_grs_delete_resource [0x2F, 0x33] (example_store example_objects [1, 2, 3]) = Some (SN_NSDL_SUCCESS, h') \<and>
      resource_map h' [0x35] = Some 3 \<and> resource_map h' [0x33, 0x2F, 0x30] = None)"
proof -
  let ?h = "example_store example_objects [1, 2, 3]"
  have p: "searchable [0x2F, 0x33]" "trimmed [0x2F, 0x33] = [0x33]" by (simp_all add: searchable_def trimmed_def)
  have c: "resource_map ?h [0x33] = Some 1" "resource_map ?h [0x35] = Some 3"
    by (simp_all add: resource_map_def example_store_def path_of_def resource_path_def example_objects_def example_resource_def)
  have b: "below [0x33] [0x33, 0x2F, 0x30]" "\<not> below [0x33] [0x35]" by (simp_all add: below_def)
  show ?thesis
    using resource_store_refines_map [OF example_inv] p c b by fastforce
qed

section \<open>Paths outside the contract\<close>

text \<open>
  A path is stored as it is and searched without its slashes: a resource that is put with a slash in front is not
  found again, can be put twice and cannot be taken out.
\<close>

lemma slash_is_put_twice:
  "let objs = [1 \<mapsto> example_resource [0x2F, 0x61], 2 \<mapsto> example_resource [0x2F, 0x61]] in
   do { (r1, h) \<leftarrow> sn_grs_put_resource 1 (example_store objs []);
        (r2, h) \<leftarrow> sn_grs_put_resource 2 h;
        found \<leftarrow> sn_grs_search_resource h [0x2F, 0x61] SN_GRS_SEARCH_METHOD;
        (r3, h) \<leftarrow> sn_grs_pop_resource 1 h;
        Some (r1, r2, found, r3, resource_root_list h) } =
   Some (SN_NSDL_SUCCESS, SN_NSDL_SUCCESS, None, SN_NSDL_FAILURE, [2, 1])"
  by (simp add: example_store_def example_resource_def sn_grs_put_resource_def checked_path_def
      sn_grs_search_resource_def sn_grs_convert_uri_def char_at_def rd_def has_path_def same_chars_def rd_block_def
      sn_grs_pop_resource_def list_add_to_start_def u16_wrap_def)

end
