(* ===== verification/Nsdl_Registration_Body.thy ===== *)
theory Nsdl_Registration_Body
  imports Nsdl_Registration Nsdl_Resource_Store
begin

text \<open>
  The list of resources in a registration message as a text in the link format, and that the two passes of
  \<open>sn_nsdl_build_registration_body\<close> agree on it: the first announces its length or reports that it is too long, the second writes it.
  The last section shows that this fails for a Base64 value whose length does not fit into 16 bits.
\<close>

section \<open>The text of the message\<close>

definition attribute_text :: "string \<Rightarrow> bytes option \<Rightarrow> bytes" where
  "attribute_text name v = (if string_len v \<noteq> 0 then chars name @ the v @ [0x22] else [])"

definition number_text :: "string \<Rightarrow> nat \<Rightarrow> bytes" where
  "number_text name n = chars name @ decimal n @ [0x22]"

definition value_bytes :: "nsdl_app \<Rightarrow> resource_parameters \<Rightarrow> bytes" where
  "value_bytes app r =
     (let source = take (resource_len r) (the (resource r)) in if publish_value r = 2 then base64_encode app source else source)"

definition has_value :: "resource_parameters \<Rightarrow> bool" where
  "has_value r \<longleftrightarrow> publish_value r > 0 \<and> resource r \<noteq> None"

definition value_text :: "nsdl_app \<Rightarrow> resource_parameters \<Rightarrow> bytes" where
  "value_text app r = (if has_value r then chars '';v='' @ [0x22] @ value_bytes app r @ [0x22] else [])"

definition observation_text :: "nsdl_app \<Rightarrow> static_parameters \<Rightarrow> resource_parameters \<Rightarrow> bytes" where
  "observation_text app s r =
     (if auto_observable r then number_text ('';aobs='' @ [CHR 0x22]) (token_number (snd (app_obs_token app (path s))))
      else if observable r then chars '';obs'' else [])"

definition content_type_text :: "resource_parameters \<Rightarrow> bytes" where
  "content_type_text r =
     (if coap_content_type r \<noteq> 0 then number_text ('';ct='' @ [CHR 0x22]) (coap_content_type r) else [])"

definition deleted_text :: "resource_parameters \<Rightarrow> bytes" where
  "deleted_text r = (if registered r = SN_NDSL_RESOURCE_DELETE then chars '';d'' else [])"

definition path_text :: "static_parameters \<Rightarrow> bytes" where
  "path_text s = (case path s of None \<Rightarrow> [] | Some t \<Rightarrow> t)"

definition link_text :: "nsdl_app \<Rightarrow> static_parameters \<Rightarrow> resource_parameters \<Rightarrow> bytes" where
  "link_text app s r =
     chars ''</'' @ path_text s @ chars ''>'' @ deleted_text r @
     attribute_text ('';rt='' @ [CHR 0x22]) (resource_type_ptr s) @
     attribute_text ('';if='' @ [CHR 0x22]) (interface_description_ptr s) @
     content_type_text r @ value_text app r @ observation_text app s r"

text \<open>The links one after another, separated by commas; the flag says that there are links in front of them.\<close>

fun links_text :: "bool \<Rightarrow> bytes list \<Rightarrow> bytes" where
  "links_text started [] = []"
| "links_text started (t # ts) = (if started then chars '','' else []) @ t @ links_text True ts"

definition published_links :: "nsdl_app \<Rightarrow> (nat \<rightharpoonup> resource_parameters) \<Rightarrow> bool \<Rightarrow> nat list \<Rightarrow> bytes list" where
  "published_links app objs updating as =
     map (\<lambda>a. link_text app (the (static_resource_parameters (the (objs a)))) (the (objs a)))
       (filter (\<lambda>a. is_published updating (the (objs a))) as)"

text \<open>
  What the text needs of a resource: the value is as long as its length says, the encoder keeps to the length of
  Base64, each piece fits into 16 bits (a value as it is in the text, so that a Base64 value has less than 49150 bytes
  before it is encoded), and there is a token for an automatic observation.
\<close>

definition publishable :: "nsdl_app \<Rightarrow> static_parameters \<Rightarrow> resource_parameters \<Rightarrow> bool" where
  "publishable app s r \<longleftrightarrow>
     string_len (path s) < 65536 \<and> string_len (resource_type_ptr s) < 65536 \<and> string_len (interface_description_ptr s) < 65536 \<and>
     (has_value r \<longrightarrow> resource_len r \<le> length (the (resource r)) \<and> length (value_bytes app r) < 65536 \<and>
        (publish_value r = 2 \<longrightarrow> length (value_bytes app r) = ((resource_len r + 2) div 3) * 4)) \<and>
     (auto_observable r \<longrightarrow> fst (app_obs_token app (path s)) > 0) \<and>
     coap_content_type r < 65536"

lemma itoa_len_length: "length (decimal n) = sn_nsdl_itoa_len n"
  unfolding decimal_def length_rev by (induction n rule: itoa_loop.induct) (subst itoa_loop.simps, subst sn_nsdl_itoa_len.simps, simp)

lemma length_chars [simp]: "length (chars s) = length s"
  by (simp add: chars_def)

section \<open>The first pass\<close>

definition fit :: "nat \<Rightarrow> nat \<Rightarrow> nat option" where
  "fit sz n = (if sz + n < 65536 then Some (sz + n) else None)"

lemma grow_fit: "sz < 65536 \<Longrightarrow> a < 9 \<Longrightarrow> b < 65536 \<Longrightarrow> grow sz a b = fit sz (a + b)"
  unfolding grow_def fit_def sn_nsdl_check_uint_overflow_def u16_wrap_def Let_def
  by (cases "a + b < 65536"; cases "sz + a + b < 65536") (auto simp: mod_if)

lemma fit_bound: "fit sz n = Some sz' \<Longrightarrow> sz' < 65536"
  by (auto simp: fit_def split: if_split_asm)

lemma fit_chain:
  assumes "e = fit z a" "\<And>z'. z' < 65536 \<Longrightarrow> f z' = fit z' b"
  shows "Option.bind e f = fit z (a + b)"
  using assms(2) by (auto simp: assms(1) fit_def add.assoc)

lemma fit_then: "e = fit z a \<Longrightarrow> z + a < 65536 \<Longrightarrow> Option.bind e f = f (z + a)"
  by (simp add: fit_def)

lemma fit_0: "sz < 65536 \<Longrightarrow> fit sz 0 = Some sz"
  by (simp add: fit_def)

lemma digits_bound: "n < 65536 \<Longrightarrow> length (decimal n) < 6"
proof -
  have d: "length (decimal m) = (if m div 10 = 0 then 1 else Suc (length (decimal (m div 10))))" for m
    unfolding itoa_len_length by (rule sn_nsdl_itoa_len.simps)
  assume "n < 65536"
  then show ?thesis by (subst d, subst d, subst d, subst d, subst d) (auto simp: div_mult2_eq [symmetric])
qed

lemma token_number_bound: "token_number bs < 65536"
proof -
  have "unat ((bs @ [0, 0]) ! i) < 256" for i using unsigned_less [of "(bs @ [0, 0]) ! i"] by simp
  from this [of 0] this [of 1] show ?thesis unfolding token_number_def by linarith
qed

lemma attribute_step:
  assumes "string_len v < 65536" "z < 65536" "length name = 5"
  shows "(if string_len v \<noteq> 0 then grow z 6 (string_len v) else Some z) = fit z (length (attribute_text name v))"
proof (cases "string_len v = 0")
  case True
  then show ?thesis using assms by (simp add: attribute_text_def fit_0)
next
  case False
  then have "length (attribute_text name v) = 6 + string_len v"
    using assms by (auto simp: attribute_text_def string_len_def split: option.splits)
  with False assms show ?thesis by (simp add: grow_fit)
qed

lemma number_step:
  assumes "n < 65536" "z < 65536" "length name + 1 = a" "a < 9"
  shows "grow z a (sn_nsdl_itoa_len n) = fit z (length (number_text name n))"
proof -
  have "length (number_text name n) = a + sn_nsdl_itoa_len n"
    using assms(3) by (simp add: number_text_def itoa_len_length)
  with assms digits_bound [of n] show ?thesis by (simp add: grow_fit itoa_len_length)
qed

text \<open>Each attribute grows the size by the length of its text, or reports that it does not fit.\<close>

lemma size_steps:
  assumes "publishable app s r" "z < 65536"
  shows "(if z \<noteq> 0 then grow z 1 0 else Some z) = fit z (if z \<noteq> 0 then 1 else 0)"
    and "grow z 3 (string_len (path s)) = fit z (3 + length (path_text s))"
    and "(if string_len (resource_type_ptr s) \<noteq> 0 then grow z 6 (string_len (resource_type_ptr s)) else Some z) =
      fit z (length (attribute_text ('';rt='' @ [CHR 0x22]) (resource_type_ptr s)))"
    and "(if string_len (interface_description_ptr s) \<noteq> 0 then grow z 6 (string_len (interface_description_ptr s)) else Some z) =
      fit z (length (attribute_text ('';if='' @ [CHR 0x22]) (interface_description_ptr s)))"
    and "(if coap_content_type r \<noteq> 0 then grow z 6 (sn_nsdl_itoa_len (coap_content_type r)) else Some z) =
      fit z (length (content_type_text r))"
    and "(if publish_value r > 0 \<and> resource r \<noteq> None
            then grow z 5 (if publish_value r = 2 then u16_wrap (((resource_len r + 2) div 3) * 4) else resource_len r)
            else Some z) = fit z (length (value_text app r))"
    and "(if auto_observable r then
            (let (len, token) = app_obs_token app (path s) in
             if len > 0 then grow z 8 (sn_nsdl_itoa_len (token_number token)) else None)
          else if observable r then grow z 4 0 else Some z) = fit z (length (observation_text app s r))"
proof -
  note p = assms(1) [unfolded publishable_def]
  show "(if z \<noteq> 0 then grow z 1 0 else Some z) = fit z (if z \<noteq> 0 then 1 else 0)"
    using assms(2) by (simp add: grow_fit fit_0)
  show "grow z 3 (string_len (path s)) = fit z (3 + length (path_text s))"
    using p assms(2) by (simp add: grow_fit path_text_def string_len_def split: option.splits)
  show "(if string_len (resource_type_ptr s) \<noteq> 0 then grow z 6 (string_len (resource_type_ptr s)) else Some z) =
      fit z (length (attribute_text ('';rt='' @ [CHR 0x22]) (resource_type_ptr s)))"
    using p assms(2) by (intro attribute_step) simp_all
  show "(if string_len (interface_description_ptr s) \<noteq> 0 then grow z 6 (string_len (interface_description_ptr s)) else Some z) =
      fit z (length (attribute_text ('';if='' @ [CHR 0x22]) (interface_description_ptr s)))"
    using p assms(2) by (intro attribute_step) simp_all
  show "(if coap_content_type r \<noteq> 0 then grow z 6 (sn_nsdl_itoa_len (coap_content_type r)) else Some z) =
      fit z (length (content_type_text r))"
    using p assms(2) number_step [of "coap_content_type r" z "'';ct='' @ [CHR 0x22]" 6]
    by (simp add: content_type_text_def fit_0)
  show "(if publish_value r > 0 \<and> resource r \<noteq> None
            then grow z 5 (if publish_value r = 2 then u16_wrap (((resource_len r + 2) div 3) * 4) else resource_len r)
            else Some z) = fit z (length (value_text app r))"
  proof (cases "has_value r")
    case True
    then have "(if publish_value r = 2 then u16_wrap (((resource_len r + 2) div 3) * 4) else resource_len r) = length (value_bytes app r)"
      using p by (auto simp: value_bytes_def Let_def u16_wrap_def)
    moreover have "length (value_text app r) = 5 + length (value_bytes app r)" using True by (simp add: value_text_def)
    moreover have "grow z 5 (length (value_bytes app r)) = fit z (5 + length (value_bytes app r))"
      using True p assms(2) by (intro grow_fit) simp_all
    ultimately show ?thesis using True by (simp only: has_value_def if_True simp_thms)
  next
    case False
    then show ?thesis using assms(2) by (simp only: has_value_def [symmetric]) (simp add: value_text_def fit_0)
  qed
  show "(if auto_observable r then
            (let (len, token) = app_obs_token app (path s) in
             if len > 0 then grow z 8 (sn_nsdl_itoa_len (token_number token)) else None)
          else if observable r then grow z 4 0 else Some z) = fit z (length (observation_text app s r))"
  proof -
    have n: "length (chars '';obs'') = 4" by simp
    have g: "grow z 4 0 = fit z (length (chars '';obs''))" unfolding n using grow_fit [of z 4 0] assms(2) by simp
    show ?thesis
    proof (cases "auto_observable r")
      case True
      then show ?thesis using p number_step [OF token_number_bound assms(2), of "'';aobs='' @ [CHR 0x22]" 8]
        by (simp add: observation_text_def case_prod_beta)
    next
      case False
      then show ?thesis unfolding g using assms(2) by (simp add: observation_text_def fit_0 del: length_chars)
    qed
  qed
qed

lemma size_deleted: "z + 2 < 65536 \<Longrightarrow> u16_wrap (z + 2) = z + 2"
  by (simp add: u16_wrap_def)

lemma length_link_text:
  "length (link_text app s r) = (3 + length (path_text s)) +
     (length (deleted_text r) + (length (attribute_text ('';rt='' @ [CHR 0x22]) (resource_type_ptr s)) +
       (length (attribute_text ('';if='' @ [CHR 0x22]) (interface_description_ptr s)) +
         (length (content_type_text r) + (length (value_text app r) + length (observation_text app s r))))))"
  by (simp add: link_text_def)

text \<open>
  One resource. The two characters of a deleted one are added without a check, so that it has to fit.
\<close>

lemma resource_size_fit:
  assumes ok: "publishable app s r" and sz: "sz < 65536"
    and del: "registered r = SN_NDSL_RESOURCE_DELETE \<Longrightarrow>
      sz + ((if sz \<noteq> 0 then 1 else 0) + length (link_text app s r)) < 65536"
  shows "resource_size app s r sz = fit sz ((if sz \<noteq> 0 then 1 else 0) + length (link_text app s r))"
proof -
  let ?c = "if sz \<noteq> 0 then 1 else 0" and ?p = "3 + length (path_text s)" and ?d = "length (deleted_text r)"
  let ?rest = "length (attribute_text ('';rt='' @ [CHR 0x22]) (resource_type_ptr s)) +
       (length (attribute_text ('';if='' @ [CHR 0x22]) (interface_description_ptr s)) +
         (length (content_type_text r) + (length (value_text app r) + length (observation_text app s r))))"
  have rest: "do {
      z \<leftarrow> (if string_len (resource_type_ptr s) \<noteq> 0 then grow z 6 (string_len (resource_type_ptr s)) else Some z);
      z \<leftarrow> (if string_len (interface_description_ptr s) \<noteq> 0 then grow z 6 (string_len (interface_description_ptr s)) else Some z);
      z \<leftarrow> (if coap_content_type r \<noteq> 0 then grow z 6 (sn_nsdl_itoa_len (coap_content_type r)) else Some z);
      z \<leftarrow> (if publish_value r > 0 \<and> resource r \<noteq> None
            then grow z 5 (if publish_value r = 2 then u16_wrap (((resource_len r + 2) div 3) * 4) else resource_len r)
            else Some z);
      (if auto_observable r then
            (let (len, token) = app_obs_token app (path s) in
             if len > 0 then grow z 8 (sn_nsdl_itoa_len (token_number token)) else None)
          else if observable r then grow z 4 0 else Some z) } = fit z ?rest" if "z < 65536" for z
    using that by (intro fit_chain size_steps [OF ok])
  show ?thesis
  proof (cases "registered r = SN_NDSL_RESOURCE_DELETE")
    case False
    then have "?d = 0" by (simp add: deleted_text_def)
    moreover have "resource_size app s r sz = fit sz (?c + (?p + ?rest))"
      unfolding resource_size_def using False
      by (intro fit_chain size_steps [OF ok] sz) (simp_all only: if_False Let_def rest [unfolded Let_def])
    ultimately show ?thesis by (simp only: length_link_text add_0)
  next
    case True
    then have "?d = 2" by (simp add: deleted_text_def)
    with del [OF True] have f: "sz + (?c + (?p + (2 + ?rest))) < 65536" by (simp only: length_link_text)
    then have c: "sz + ?c < 65536" "sz + ?c + ?p < 65536" "sz + ?c + ?p + 2 < 65536" by linarith+
    have "resource_size app s r sz = fit (sz + ?c + ?p + 2) ?rest"
      unfolding resource_size_def fit_then [OF size_steps(1) [OF ok sz] c(1)] fit_then [OF size_steps(2) [OF ok c(1)] c(2)]
      by (simp only: Let_def True simp_thms if_True size_deleted [OF c(3)] rest [OF c(3), unfolded Let_def])
    with f \<open>?d = 2\<close> show ?thesis by (simp add: fit_def length_link_text)
  qed
qed

text \<open>All the resources of the list can be published, or are left out.\<close>

definition can_publish :: "nsdl_app \<Rightarrow> bool \<Rightarrow> (nat \<rightharpoonup> resource_parameters) \<Rightarrow> nat list \<Rightarrow> bool" where
  "can_publish app updating objs as \<longleftrightarrow>
     (\<forall>a \<in> set as. \<exists>r. objs a = Some r \<and>
        (is_published updating r \<longrightarrow> (\<exists>s. static_resource_parameters r = Some s \<and> publishable app s r)))"

definition none_deleted :: "bool \<Rightarrow> (nat \<rightharpoonup> resource_parameters) \<Rightarrow> nat list \<Rightarrow> bool" where
  "none_deleted updating objs as \<longleftrightarrow>
     (\<forall>a \<in> set as. is_published updating (the (objs a)) \<longrightarrow> registered (the (objs a)) \<noteq> SN_NDSL_RESOURCE_DELETE)"

lemma published_links_Cons:
  "published_links app objs updating (a # as) =
     (if is_published updating (the (objs a))
      then link_text app (the (static_resource_parameters (the (objs a)))) (the (objs a)) # published_links app objs updating as
      else published_links app objs updating as)"
  by (simp add: published_links_def)

lemma size_loop_fit:
  "can_publish app updating objs as \<Longrightarrow> sz < 65536 \<Longrightarrow>
   none_deleted updating objs as \<or> sz + length (links_text (sz \<noteq> 0) (published_links app objs updating as)) < 65536 \<Longrightarrow>
   size_loop app objs updating as sz = Some (fit sz (length (links_text (sz \<noteq> 0) (published_links app objs updating as))))"
proof (induction as arbitrary: sz)
  case Nil
  then show ?case by (simp add: published_links_def fit_0)
next
  case (Cons a as)
  obtain r where r: "objs a = Some r"
    "is_published updating r \<Longrightarrow> \<exists>s. static_resource_parameters r = Some s \<and> publishable app s r"
    using Cons.prems(1) by (auto simp: can_publish_def)
  have rest: "can_publish app updating objs as" using Cons.prems(1) by (simp add: can_publish_def)
  show ?case
  proof (cases "is_published updating r")
    case False
    then show ?thesis using Cons.IH [OF rest Cons.prems(2)] Cons.prems(3) r(1)
      by (auto simp: published_links_Cons none_deleted_def)
  next
    case True
    then obtain s where s: "static_resource_parameters r = Some s" "publishable app s r" using r(2) by auto
    let ?t = "link_text app s r" and ?ts = "published_links app objs updating as"
    let ?n = "(if sz \<noteq> 0 then 1 else 0) + length ?t"
    have len: "length (links_text (sz \<noteq> 0) (published_links app objs updating (a # as))) = ?n + length (links_text True ?ts)"
      using True r(1) s(1) by (simp add: published_links_Cons)
    have "0 < length ?t" by (simp add: length_link_text)
    have del: "sz + ?n < 65536" if "registered r = SN_NDSL_RESOURCE_DELETE"
      using Cons.prems(3) that True r(1) unfolding len by (auto simp: none_deleted_def)
    have one: "resource_size app s r sz = fit sz ?n" by (rule resource_size_fit [OF s(2) Cons.prems(2) del])
    show ?thesis
    proof (cases "sz + ?n < 65536")
      case False
      then have "resource_size app s r sz = None" "fit sz (?n + length (links_text True ?ts)) = None"
        unfolding one by (simp_all add: fit_def)
      then show ?thesis unfolding len using True r(1) s(1) by simp
    next
      case fits: True
      then have "resource_size app s r sz = Some (sz + ?n)" unfolding one by (simp add: fit_def)
      moreover have "size_loop app objs updating as (sz + ?n) = Some (fit (sz + ?n) (length (links_text True ?ts)))"
        using Cons.IH [OF rest fits] Cons.prems(3) \<open>0 < length ?t\<close> unfolding len
        by (auto simp: none_deleted_def add.assoc simp del: One_nat_def)
      moreover have "fit (sz + ?n) (length (links_text True ?ts)) = fit sz (?n + length (links_text True ?ts))"
        by (simp add: fit_def add.assoc)
      ultimately show ?thesis unfolding len using True r(1) s(1) by (simp del: One_nat_def)
    qed
  qed
qed

section \<open>The second pass\<close>

text \<open>The text so far with the room that is left behind it, and a step that adds a given text when there is room.\<close>

definition written :: "bytes \<Rightarrow> nat \<Rightarrow> body \<Rightarrow> bool" where
  "written xs room out \<longleftrightarrow> (\<exists>ys. out = (xs @ ys, length xs) \<and> length ys = room)"

definition writes :: "(body \<Rightarrow> body option) \<Rightarrow> bytes \<Rightarrow> bool" where
  "writes f t \<longleftrightarrow> (\<forall>xs room out. written xs (length t + room) out \<longrightarrow>
     (\<exists>out'. f out = Some out' \<and> written (xs @ t) room out'))"

lemma writesE:
  assumes "writes f t" "written xs (length t + room) out"
  obtains out' where "f out = Some out'" "written (xs @ t) room out'"
  using assms that unfolding writes_def by blast

lemma split_at_length:
  assumes "length ys = a + b"
  obtains y1 y2 where "ys = y1 @ y2" "length y1 = a" "length y2 = b"
  using assms that [of "take a ys" "drop a ys"] by simp

lemma writes_put: "writes (put bs) bs"
  unfolding writes_def
proof (intro allI impI)
  fix xs room out assume "written xs (length bs + room) out"
  then obtain ys where out: "out = (xs @ ys, length xs)" "length ys = length bs + room" by (auto simp: written_def)
  obtain y1 y2 where "ys = y1 @ y2" "length y1 = length bs" "length y2 = room" using out(2) by (rule split_at_length)
  with out(1) show "\<exists>out'. put bs out = Some out' \<and> written (xs @ bs) room out'"
    by (auto simp: put_def write_at_append written_def)
qed

lemma writes_itoa: "writes (\<lambda>out. sn_nsdl_itoa out n) (decimal n)"
  unfolding writes_def
proof (intro allI impI)
  fix xs room out assume "written xs (length (decimal n) + room) out"
  then obtain ys where out: "out = (xs @ ys, length xs)" "length ys = length (itoa_loop n) + room"
    by (auto simp: written_def decimal_def)
  obtain y1 y2 where "ys = y1 @ y2" "length y1 = length (itoa_loop n)" "length y2 = room" using out(2) by (rule split_at_length)
  with out(1) show "\<exists>out'. sn_nsdl_itoa out n = Some out' \<and> written (xs @ decimal n) room out'"
    using swap_loop_reverse [OF itoa_loop_nonempty, of xs n y2]
    by (auto simp: sn_nsdl_itoa_def write_at_append decimal_def Let_def written_def)
qed

lemma writes_bind:
  assumes "writes f t" "writes g u"
  shows "writes (\<lambda>out. Option.bind (f out) g) (t @ u)"
  unfolding writes_def
proof (intro allI impI)
  fix xs room out assume "written xs (length (t @ u) + room) out"
  then have "written xs (length t + (length u + room)) out" by (simp add: add.assoc)
  then obtain o1 where o1: "f out = Some o1" "written (xs @ t) (length u + room) o1" by (rule writesE [OF assms(1)])
  then obtain o2 where "g o1 = Some o2" "written ((xs @ t) @ u) room o2" by (rule_tac writesE [OF assms(2)])
  with o1(1) show "\<exists>out'. Option.bind (f out) g = Some out' \<and> written (xs @ t @ u) room out'" by simp
qed

lemma writes_none: "writes Some []"
  by (simp add: writes_def)

lemma writes_if: "(c \<Longrightarrow> writes f t) \<Longrightarrow> writes (\<lambda>out. if c then f out else Some out) (if c then t else [])"
  using writes_none by (cases c) simp_all

lemma writes_number: "writes (put_number name n) (number_text name n)"
  unfolding put_number_def number_text_def by (intro writes_bind writes_put writes_itoa)

lemma writes_attribute: "writes (put_attribute name v) (attribute_text name v)"
  unfolding put_attribute_def attribute_text_def by (intro writes_if writes_put)

lemma writes_observation:
  assumes "publishable app s r"
  shows "writes (put_observation app s r) (observation_text app s r)"
proof -
  obtain len token where t: "app_obs_token app (path s) = (len, token)" by fastforce
  have "auto_observable r \<Longrightarrow> len > 0" using assms by (simp add: publishable_def t)
  then show ?thesis using writes_number writes_put writes_none
    by (cases "auto_observable r"; cases "observable r") (simp_all add: put_observation_def [abs_def] observation_text_def t)
qed

text \<open>The value may need a block for its encoding; the allocation changes nothing but the CoAP handle.\<close>

definition same_resources :: "nsdl_s \<Rightarrow> nsdl_s \<Rightarrow> bool" where
  "same_resources h h' \<longleftrightarrow> objects h' = objects h \<and> resource_root_list h' = resource_root_list h \<and>
     resource_root_count h' = resource_root_count h"

lemma writes_value:
  assumes granted: "\<forall>n. malloc_ok env n" and ok: "publishable app s r" and room: "length (value_text app r) < 65536"
    and out: "written xs (length (value_text app r) + room) out"
  obtains h' out' where "put_value env app r h out = Some (h', out')" "written (xs @ value_text app r) room out'" "same_resources h h'"
proof (cases "has_value r")
  case False
  with out show ?thesis
    by (intro that [of h out])
      (auto simp: has_value_def put_value_def value_text_def same_resources_def split: option.split)
next
  case True
  then obtain data where d: "resource r = Some data" "publish_value r > 0" by (auto simp: has_value_def)
  have len: "resource_len r \<le> length data" using ok True d(1) by (simp add: publishable_def)
  then have source: "rd_block data 0 (resource_len r) = Some (take (resource_len r) data)" by (simp add: rd_block_def)
  have v: "value_text app r = chars '';v='' @ [0x22] @ value_bytes app r @ [0x22]" using True by (simp add: value_text_def)
  obtain out' where put: "put (chars '';v='' @ [0x22] @ value_bytes app r @ [0x22]) out = Some out'"
    "written (xs @ value_text app r) room out'"
    using out unfolding v by (rule writesE [OF writes_put])
  show ?thesis
  proof (cases "publish_value r = 2")
    case False
    then have "put_value env app r h out = Some (h, out')" using d source put(1)
      by (simp add: put_value_def value_bytes_def)
    with put(2) show ?thesis by (intro that) (simp_all add: same_resources_def)
  next
    case b64: True
    let ?enc = "base64_encode app (take (resource_len r) data)" and ?n = "((resource_len r + 2) div 3) * 4 + 1"
    have enc: "value_bytes app r = ?enc" "length ?enc + 1 = ?n"
      using b64 d(1) ok True by (auto simp: value_bytes_def publishable_def)
    have n: "?n < 65536" using room enc v by simp
    obtain h' where h': "nsdl_alloc env ?n h = (Some (junk_block env ?n), h')" "same_resources h h'"
      using granted n by (auto simp: nsdl_alloc_def protocol_malloc_def u16_wrap_def same_resources_def)
    have fill: "write_at (junk_block env ?n) 0 (?enc @ [0]) = Some (?enc @ [0])"
      using write_at_append [of "junk_block env ?n" "?enc @ [0]" "[]" "[]"] enc(2) by simp
    have "put_value env app r h out = Some (h', out')"
      using d b64 h'(1) source fill put(1) enc by (simp add: put_value_def Let_def)
    with put(2) h'(2) show ?thesis by (intro that)
  qed
qed

text \<open>One resource with the comma in front of it.\<close>

lemma same_resources_refl: "same_resources h h"
  by (simp add: same_resources_def)

lemma value_room: "length (value_text app r) \<le> length (link_text app s r)"
  by (simp add: length_link_text)

lemma writes_link:
  assumes granted: "\<forall>n. malloc_ok env n" and ok: "publishable app s r" and room: "length (link_text app s r) < 65536"
    and out: "written xs (length ((if xs \<noteq> [] then chars '','' else []) @ link_text app s r) + room) out"
  obtains h' out' where "put_resource_text env app s r h out = Some (h', out')"
    "written (xs @ (if xs \<noteq> [] then chars '','' else []) @ link_text app s r) room out'" "same_resources h h'"
proof -
  let ?comma = "if xs \<noteq> [] then chars '','' else []"
  let ?front = "?comma @ chars ''</'' @ path_text s @ chars ''>'' @ deleted_text r @
     attribute_text ('';rt='' @ [CHR 0x22]) (resource_type_ptr s) @
     attribute_text ('';if='' @ [CHR 0x22]) (interface_description_ptr s) @ content_type_text r"
  let ?put = "\<lambda>out. do {
     out \<leftarrow> (if xs \<noteq> [] then put (chars '','') out else Some out);
     out \<leftarrow> put (chars ''</'') out;
     out \<leftarrow> put (path_text s) out;
     out \<leftarrow> put (chars ''>'') out;
     out \<leftarrow> (if registered r = SN_NDSL_RESOURCE_DELETE then put (chars '';d'') out else Some out);
     out \<leftarrow> put_attribute ('';rt='' @ [CHR 0x22]) (resource_type_ptr s) out;
     out \<leftarrow> put_attribute ('';if='' @ [CHR 0x22]) (interface_description_ptr s) out;
     (if coap_content_type r \<noteq> 0 then put_number ('';ct='' @ [CHR 0x22]) (coap_content_type r) out else Some out) }"
  have front: "writes ?put ?front"
    unfolding deleted_text_def content_type_text_def
    by (intro writes_bind writes_if writes_put writes_attribute writes_number)
  have start: "snd out \<noteq> 0 \<longleftrightarrow> xs \<noteq> []" using out by (auto simp: written_def)
  have whole: "?comma @ link_text app s r = ?front @ value_text app r @ observation_text app s r"
    by (simp only: link_text_def append_assoc)
  have "written xs (length ?front + (length (value_text app r) + (length (observation_text app s r) + room))) out"
    using out unfolding whole by (simp only: length_append add.assoc)
  then obtain o1 where o1: "?put out = Some o1"
    "written (xs @ ?front) (length (value_text app r) + (length (observation_text app s r) + room)) o1"
    by (rule writesE [OF front])
  have "length (value_text app r) < 65536" using room value_room [of app r s] by linarith
  then obtain h' o2 where o2: "put_value env app r h o1 = Some (h', o2)" "same_resources h h'"
    "written ((xs @ ?front) @ value_text app r) (length (observation_text app s r) + room) o2"
    using writes_value [OF granted ok _ o1(2)] by metis
  obtain o3 where o3: "put_observation app s r o2 = Some o3"
    "written (((xs @ ?front) @ value_text app r) @ observation_text app s r) room o3"
    using o2(3) by (rule writesE [OF writes_observation [OF ok]])
  have "put_resource_text env app s r h out =
      Option.bind (?put out) (\<lambda>out. Option.bind (put_value env app r h out) (\<lambda>(h, out).
        Option.bind (put_observation app s r out) (\<lambda>out. Some (h, out))))"
    unfolding put_resource_text_def start path_text_def [symmetric] by (simp only: Option.bind_assoc)
  then have "put_resource_text env app s r h out = Some (h', o3)"
    by (simp only: o1(1) o2(1) o3(1) Option.bind.simps prod.case)
  moreover have "written (xs @ ?comma @ link_text app s r) room o3"
    unfolding whole using o3(2) by (simp only: append_assoc)
  ultimately show ?thesis using o2(2) by (intro that)
qed

text \<open>The resources are marked as registered on the way, which changes nothing in their texts.\<close>

definition marked :: "bool \<Rightarrow> resource_parameters \<Rightarrow> resource_parameters" where
  "marked updating r =
     (if is_published updating r \<and> registered r \<noteq> SN_NDSL_RESOURCE_DELETE then r\<lparr>registered := SN_NDSL_RESOURCE_REGISTERED\<rparr> else r)"

definition marked_objects :: "bool \<Rightarrow> nat list \<Rightarrow> (nat \<rightharpoonup> resource_parameters) \<Rightarrow> nat \<rightharpoonup> resource_parameters" where
  "marked_objects updating as objs = (\<lambda>a. if a \<in> set as then map_option (marked updating) (objs a) else objs a)"

lemmas link_defs = link_text_def deleted_text_def content_type_text_def value_text_def has_value_def value_bytes_def
  observation_text_def

lemma marked_text:
  "link_text app s (marked updating r) = link_text app s r" "publishable app s (marked updating r) = publishable app s r"
  "static_resource_parameters (marked updating r) = static_resource_parameters r"
  by (simp_all add: marked_def link_defs publishable_def Let_def)

lemma links_cong:
  assumes "\<And>b. b \<in> set as \<Longrightarrow> objs' b = objs b"
  shows "published_links app objs' updating as = published_links app objs updating as"
    "can_publish app updating objs' as = can_publish app updating objs as"
  using assms by (auto simp: published_links_def can_publish_def intro!: map_cong filter_cong)

lemma text_loop_links:
  assumes granted: "\<forall>n. malloc_ok env n"
  shows "can_publish app updating (objects h) as \<Longrightarrow> distinct as \<Longrightarrow>
   length (links_text (xs \<noteq> []) (published_links app (objects h) updating as)) < 65536 \<Longrightarrow>
   written xs (length (links_text (xs \<noteq> []) (published_links app (objects h) updating as))) out \<Longrightarrow>
   \<exists>h' out'. text_loop env app updating as h out = Some (h', out') \<and>
     written (xs @ links_text (xs \<noteq> []) (published_links app (objects h) updating as)) 0 out' \<and>
     objects h' = marked_objects updating as (objects h) \<and> resource_root_list h' = resource_root_list h \<and>
     resource_root_count h' = resource_root_count h"
proof (induction as arbitrary: h xs out)
  case Nil
  then show ?case by (simp add: published_links_def marked_objects_def)
next
  case (Cons a as)
  obtain r where r: "objects h a = Some r"
    "is_published updating r \<Longrightarrow> \<exists>s. static_resource_parameters r = Some s \<and> publishable app s r"
    using Cons.prems(1) by (auto simp: can_publish_def)
  have a: "a \<notin> set as" "distinct as" using Cons.prems(2) by simp_all
  have rest: "can_publish app updating (objects h) as" using Cons.prems(1) by (simp add: can_publish_def)
  show ?case
  proof (cases "is_published updating r")
    case False
    then have "published_links app (objects h) updating (a # as) = published_links app (objects h) updating as"
      using r(1) by (simp add: published_links_Cons)
    moreover have "marked_objects updating (a # as) (objects h) = marked_objects updating as (objects h)"
      using False r(1) by (auto simp: marked_objects_def marked_def)
    ultimately show ?thesis using Cons.IH [OF rest a(2), of xs out] Cons.prems(3,4) False r(1) by simp
  next
    case True
    then obtain s where s: "static_resource_parameters r = Some s" "publishable app s r" using r(2) by auto
    let ?r = "marked updating r"
    have m: "(if registered r \<noteq> SN_NDSL_RESOURCE_DELETE then r\<lparr>registered := SN_NDSL_RESOURCE_REGISTERED\<rparr> else r) = ?r"
      using True by (simp add: marked_def)
    obtain h1 where h1: "h1 = h\<lparr>objects := (objects h)(a \<mapsto> ?r)\<rparr>" by simp
    let ?ts = "published_links app (objects h) updating as"
    let ?t = "(if xs \<noteq> [] then chars '','' else []) @ link_text app s ?r"
    have len: "links_text (xs \<noteq> []) (published_links app (objects h) updating (a # as)) = ?t @ links_text True ?ts"
      using True r(1) s(1) by (simp add: published_links_Cons marked_text)
    have "written xs (length ?t + length (links_text True ?ts)) out" using Cons.prems(4) unfolding len by (simp only: length_append)
    moreover have "length (link_text app s ?r) < 65536" using Cons.prems(3) unfolding len by simp
    moreover have "publishable app s ?r" using s(2) by (simp add: marked_text)
    ultimately obtain h2 o2 where step: "put_resource_text env app s ?r h1 out = Some (h2, o2)"
      "written (xs @ ?t) (length (links_text True ?ts)) o2" "same_resources h1 h2"
      using writes_link [OF granted] by metis
    have objs: "objects h2 = (objects h)(a \<mapsto> ?r)" using step(3) h1 by (simp add: same_resources_def)
    have others: "objects h2 b = objects h b" if "b \<in> set as" for b using a(1) that unfolding objs by auto
    have same: "published_links app (objects h2) updating as = ?ts" by (rule links_cong(1)) (rule others)
    have "can_publish app updating (objects h2) as = can_publish app updating (objects h) as"
      by (rule links_cong(2)) (rule others)
    with rest have rest2: "can_publish app updating (objects h2) as" by blast
    have ne: "xs @ ?t \<noteq> []" by (simp add: link_text_def chars_def)
    have "length (links_text (xs @ ?t \<noteq> []) (published_links app (objects h2) updating as)) < 65536"
      using Cons.prems(3) ne unfolding len same by simp
    moreover have "written (xs @ ?t) (length (links_text (xs @ ?t \<noteq> []) (published_links app (objects h2) updating as))) o2"
      using step(2) ne unfolding same by simp
    ultimately obtain h' out' where loop: "text_loop env app updating as h2 o2 = Some (h', out')"
      "written ((xs @ ?t) @ links_text (xs @ ?t \<noteq> []) (published_links app (objects h2) updating as)) 0 out'"
      "objects h' = marked_objects updating as (objects h2)" "resource_root_list h' = resource_root_list h2"
      "resource_root_count h' = resource_root_count h2"
      using Cons.IH [OF rest2 a(2)] by blast
    have "text_loop env app updating (a # as) h out = Some (h', out')"
      using r(1) True s(1) step(1) loop(1) by (simp add: m marked_text h1 [symmetric] Let_def)
    moreover have "written (xs @ links_text (xs \<noteq> []) (published_links app (objects h) updating (a # as))) 0 out'"
      using loop(2) ne unfolding len same by simp
    moreover have "objects h' = marked_objects updating (a # as) (objects h)"
      using a(1) r(1) by (auto simp: loop(3) objs marked_objects_def)
    ultimately show ?thesis using loop(4,5) step(3) h1 by (auto simp: same_resources_def)
  qed
qed

section \<open>Both passes\<close>

lemma links_text_empty: "links_text False (published_links app objs updating as) = [] \<longleftrightarrow> (\<forall>a \<in> set as. \<not> is_published updating (the (objs a)))"
  by (induction as) (auto simp: published_links_Cons published_links_def link_text_def chars_def)

lemma none_published_unmarked:
  assumes "\<forall>a \<in> set as. \<not> is_published updating (the (objs a))"
  shows "marked_objects updating as objs = objs"
proof
  fix a
  show "marked_objects updating as objs a = objs a"
    using assms by (cases "objs a") (auto simp: marked_objects_def marked_def)
qed

text \<open>
  Property C14
  The two passes over the resources agree. When the text of the resources in the link format has less than 65536 bytes, the
  message gets exactly this text as its payload, in a block of exactly its length of which no byte stays unset, and the
  resources in it are marked as registered; without resources to publish the message has no payload. A longer text is reported as
  SN_NSDL_FAILURE and nothing is changed, if no resource in it is deleted (the two characters of a deleted one are added
  without a check). Allocations succeed. Of each resource in the message, by \<open>publishable\<close>: the path, the type and the interface description have less than
  65536 characters; the value is as long as its length says and has less than 65536 characters in the message, which leaves
  out Base64 values of 49150 bytes and more, the subject of \<open>base64_value_overruns\<close>; the encoder keeps to the length
  of Base64; the token of an automatic observation is not empty; the content type has 16 bits.
\<close>

theorem registration_body_exact:
  assumes "\<forall>n. malloc_ok env n" and "distinct (resource_root_list h)"
    and "can_publish app updating (objects h) (resource_root_list h)"
    and "body = links_text False (published_links app (objects h) updating (resource_root_list h))"
    and "length body < 65536 \<or> none_deleted updating (objects h) (resource_root_list h)"
  shows "if length body < 65536
    then \<exists>h'. sn_nsdl_build_registration_body env app m updating h =
        Some (SN_NSDL_SUCCESS, if body = [] then m else m\<lparr>payload_len := length body, payload_ptr := Some body\<rparr>, h') \<and>
      objects h' = marked_objects updating (resource_root_list h) (objects h) \<and>
      resource_root_list h' = resource_root_list h \<and> resource_root_count h' = resource_root_count h
    else sn_nsdl_build_registration_body env app m updating h = Some (SN_NSDL_FAILURE, m, h)"
proof -
  let ?as = "resource_root_list h"
  have size: "sn_nsdl_calculate_registration_body_size app updating h = Some (fit 0 (length body))"
    using size_loop_fit [OF assms(3), of 0] assms(4,5) by (auto simp: sn_nsdl_calculate_registration_body_size_def)
  show ?thesis
  proof (cases "length body < 65536")
    case False
    then have "fit 0 (length body) = None" by (simp add: fit_def)
    with size False show ?thesis by (simp add: sn_nsdl_build_registration_body_def)
  next
    case True
    then have fit: "fit 0 (length body) = Some (length body)" by (simp add: fit_def)
    show ?thesis
    proof (cases "body = []")
      case none: True
      then have "marked_objects updating ?as (objects h) = objects h"
        using none_published_unmarked assms(4) by (simp add: links_text_empty)
      with size fit none show ?thesis by (simp add: sn_nsdl_build_registration_body_def)
    next
      case False
      obtain h1 where h1: "nsdl_alloc env (length body) h = (Some (junk_block env (length body)), h1)" "same_resources h h1"
        using assms(1) True by (auto simp: nsdl_alloc_def protocol_malloc_def u16_wrap_def same_resources_def)
      have objs: "objects h1 = objects h" "resource_root_list h1 = ?as" using h1(2) by (simp_all add: same_resources_def)
      have "written [] (length body) (junk_block env (length body), 0)" by (simp add: written_def)
      then obtain h2 out where loop: "text_loop env app updating ?as h1 (junk_block env (length body), 0) = Some (h2, out)"
        "written body 0 out" "objects h2 = marked_objects updating ?as (objects h)"
        "resource_root_list h2 = resource_root_list h1" "resource_root_count h2 = resource_root_count h1"
        using text_loop_links [OF assms(1), of app updating h1 ?as "[]" "(junk_block env (length body), 0)"]
          assms(2,3) True unfolding objs(1) assms(4) by auto
      have "fst out = body" using loop(2) by (auto simp: written_def)
      with size fit False loop(1) h1(1) have
        "sn_nsdl_build_registration_body env app m updating h =
          Some (SN_NSDL_SUCCESS, m\<lparr>payload_len := length body, payload_ptr := Some body\<rparr>, h2)"
        by (simp add: sn_nsdl_build_registration_body_def objs(2))
      with True False loop(3,4,5) h1(2) show ?thesis by (simp add: same_resources_def)
    qed
  qed
qed

definition example_app :: nsdl_app where
  "example_app = \<lparr>app_obs_token = (\<lambda>p. (0, [])), base64_encode = (\<lambda>bs. [])\<rparr>"

text \<open>The three resources of the example are announced as \<open></3>,</3/0>,</5>\<close>.\<close>

theorem registration_body_exact_witness:
  "\<exists>h'. sn_nsdl_build_registration_body example_env example_app init_message False (example_store example_objects [1, 2, 3]) =
     Some (SN_NSDL_SUCCESS, init_message\<lparr>payload_len := 16, payload_ptr := Some (chars ''</3>,</3/0>,</5>'')\<rparr>, h') \<and>
     resource_root_list h' = [1, 2, 3]"
proof -
  let ?h = "example_store example_objects [1, 2, 3]"
  have h: "resource_root_list ?h = [1, 2, 3]" "objects ?h = example_objects" by (simp_all add: example_store_def)
  have ok: "\<forall>n. malloc_ok example_env n" by (simp add: example_env_def)
  have can: "can_publish example_app False (objects ?h) (resource_root_list ?h)"
    unfolding h by (simp add: can_publish_def example_objects_def example_resource_def publishable_def string_len_def has_value_def)
  have body: "chars ''</3>,</3/0>,</5>'' = links_text False (published_links example_app (objects ?h) False (resource_root_list ?h))"
    unfolding h by (simp add: published_links_def example_objects_def example_resource_def is_published_def link_defs path_text_def
        attribute_text_def string_len_def chars_def)
  have dist: "distinct (resource_root_list ?h)" unfolding h by simp
  have len: "length (chars ''</3>,</3/0>,</5>'') = 16" "chars ''</3>,</3/0>,</5>'' \<noteq> []" by (simp_all add: chars_def)
  show ?thesis
    using registration_body_exact [OF ok dist can body, of init_message] len h(1) by auto
qed

section \<open>Base64 values that are too long\<close>

text \<open>
  The first pass counts the value of a resource in 16 bits. It cannot tell a Base64 value from any other
  one of the length that is left then.
\<close>

definition counted :: "resource_parameters \<Rightarrow> resource_parameters" where
  "counted r =
     (if publish_value r = 2 \<and> resource r \<noteq> None
      then let n = u16_wrap (((resource_len r + 2) div 3) * 4) in
        r\<lparr>publish_value := 1, resource := Some (replicate n 0), resource_len := n\<rparr>
      else r)"

definition counted_objects :: "(nat \<rightharpoonup> resource_parameters) \<Rightarrow> nat \<rightharpoonup> resource_parameters" where
  "counted_objects objs a = map_option counted (objs a)"

lemma counted_fields:
  "is_published updating (counted r) = is_published updating r"
  "static_resource_parameters (counted r) = static_resource_parameters r"
  by (simp_all add: counted_def is_published_def Let_def)

lemma counted_attributes:
  "registered (counted r) = registered r" "coap_content_type (counted r) = coap_content_type r"
  "auto_observable (counted r) = auto_observable r" "observable (counted r) = observable r"
  by (simp_all add: counted_def Let_def)

lemma counted_resource_size: "resource_size app s (counted r) = resource_size app s r"
proof (cases "publish_value r = 2 \<and> resource r \<noteq> None")
  case True
  obtain n where n: "n = u16_wrap (((resource_len r + 2) div 3) * 4)" by simp
  have "publish_value (counted r) = 1" "resource (counted r) \<noteq> None" "resource_len (counted r) = n"
    using True by (simp_all add: counted_def Let_def n)
  with True show ?thesis unfolding resource_size_def n [symmetric] counted_attributes by (simp cong: if_cong)
next
  case False
  then have "counted r = r" unfolding counted_def by (rule if_not_P)
  then show ?thesis by simp
qed

lemma counted_size: "size_loop app (counted_objects objs) updating as sz = size_loop app objs updating as sz"
proof (induction as arbitrary: sz)
  case (Cons a as)
  then show ?case by (cases "objs a") (simp_all add: counted_objects_def counted_fields counted_resource_size cong: option.case_cong)
qed simp

text \<open>A Base64 value whose length does not fit into 16 bits, and an encoder that keeps to it.\<close>

definition value_too_long :: "nsdl_app \<Rightarrow> resource_parameters \<Rightarrow> bool" where
  "value_too_long app r \<longleftrightarrow>
     publish_value r = 2 \<and> 49150 \<le> resource_len r \<and> resource_len r < 65536 \<and>
     (\<exists>data. resource r = Some data \<and> resource_len r \<le> length data \<and>
        length (base64_encode app (take (resource_len r) data)) = ((resource_len r + 2) div 3) * 4)"

text \<open>The block for the encoder is too short already.\<close>

lemma long_value_fault:
  assumes "\<forall>n. malloc_ok env n" "value_too_long app r"
  shows "put_value env app r h out = None"
proof -
  obtain n where n: "n = ((resource_len r + 2) div 3) * 4" by simp
  have "49152 \<le> resource_len r + 2" using assms(2) by (simp add: value_too_long_def)
  then have "65536 \<le> n" unfolding n by presburger
  moreover from this have "\<not> Suc n \<le> u16_wrap (Suc n)" using mod_less_divisor [of 65536 "Suc n"] unfolding u16_wrap_def by linarith
  moreover obtain data where "resource r = Some data" "publish_value r = 2" "resource_len r \<le> length data"
    "length (base64_encode app (take (resource_len r) data)) = n"
    using assms(2) unfolding n value_too_long_def by blast
  moreover have "Suc (Suc (resource_len r)) div 3 * 4 = n" using n by simp
  ultimately show ?thesis
    using assms(1) by (simp add: put_value_def nsdl_alloc_def protocol_malloc_def junk_block_def
        rd_block_def write_at_def Let_def)
qed

lemma put_value_objects: "put_value env app r h out = Some (h', out') \<Longrightarrow> objects h' = objects h"
  by (auto simp: put_value_def nsdl_alloc_def protocol_malloc_def Let_def
      split: option.splits if_splits bind_splits prod.splits)

lemma put_resource_objects: "put_resource_text env app s r h out = Some (h', out') \<Longrightarrow> objects h' = objects h"
  unfolding put_resource_text_def by (auto dest: put_value_objects split: bind_splits)

lemma put_resource_fault:
  assumes "\<And>out. put_value env app r h out = None"
  shows "put_resource_text env app s r h out = None"
  unfolding put_resource_text_def assms by (auto simp: bind_eq_None_conv)

lemma text_loop_fault:
  assumes "\<forall>n. malloc_ok env n"
  shows "\<lbrakk>a \<in> set as; objects h a = Some r; is_published updating r; value_too_long app r\<rbrakk> \<Longrightarrow>
    text_loop env app updating as h out = None"
proof (induction as arbitrary: h out)
  case (Cons b as)
  show ?case
  proof (cases "b = a")
    case True
    have "value_too_long app (r\<lparr>registered := SN_NDSL_RESOURCE_REGISTERED\<rparr>)"
      using Cons.prems(4) by (simp add: value_too_long_def)
    with True Cons.prems show ?thesis
      by (simp add: put_resource_fault [OF long_value_fault [OF assms]] Let_def bind_eq_None_conv)
  next
    case False
    then have a: "a \<in> set as" using Cons.prems(1) by simp
    have "text_loop env app updating as h1 out1 = None" if "objects h1 a = objects h a" for h1 out1
      using that Cons.prems(2) by (intro Cons.IH [OF a _ Cons.prems(3,4)]) simp
    then have "(case z of (h1, out1) \<Rightarrow> text_loop env app updating as h1 out1) = None"
      if "put_resource_text env app s r' (h\<lparr>objects := (objects h)(b \<mapsto> r'')\<rparr>) out = Some z" for z s r' r''
      using that False by (cases z) (auto dest!: put_resource_objects)
    then have *: "put_resource_text env app s r' (h\<lparr>objects := (objects h)(b \<mapsto> r'')\<rparr>) out \<bind>
        (\<lambda>(h1, out1). text_loop env app updating as h1 out1) = None" for s r' r''
      by (cases "put_resource_text env app s r' (h\<lparr>objects := (objects h)(b \<mapsto> r'')\<rparr>) out") simp_all
    have "text_loop env app updating as h out = None"
      using \<open>\<And>out1 h1. objects h1 a = objects h a \<Longrightarrow> text_loop env app updating as h1 out1 = None\<close> by simp
    then show ?thesis
      by (cases "objects h b"; cases "static_resource_parameters (the (objects h b))") (auto simp: Let_def *)
  qed
qed simp

lemma member_length: "t \<in> set ts \<Longrightarrow> length t \<le> length (links_text started ts)"
  by (induction started ts rule: links_text.induct) auto

text \<open>
  Property C34
  The Base64 value that the sizes do not count. A published resource with a value of 49150 bytes or more that is sent as
  Base64 has a text of 65536 bytes or more, but its length is cut to 16 bits before it is checked: the first pass announces the length of
  the text with that many characters less and reports no error, and when the allocations succeed the
  second pass writes behind the end of a block, the one for the encoder, whose size is cut as well.
\<close>

theorem base64_value_overruns:
  assumes "\<forall>n. malloc_ok env n" and "a \<in> set (resource_root_list h)" and "objects h a = Some r"
    and "is_published updating r" and "value_too_long app r"
    and "can_publish app updating (counted_objects (objects h)) (resource_root_list h)"
    and "announced = length (links_text False (published_links app (counted_objects (objects h)) updating (resource_root_list h)))"
    and "announced < 65536"
  shows "65536 \<le> length (links_text False (published_links app (objects h) updating (resource_root_list h))) \<and>
    sn_nsdl_calculate_registration_body_size app updating h = Some (Some announced) \<and>
    sn_nsdl_build_registration_body env app m updating h = None"
proof (intro conjI)
  let ?as = "resource_root_list h"
  have "65536 \<le> length (value_bytes app r)" "has_value r"
    using assms(5) by (auto simp: value_too_long_def value_bytes_def has_value_def Let_def)
  then have "65536 \<le> length (link_text app s r)" for s using value_room [of app r s] by (simp add: value_text_def)
  moreover have "link_text app (the (static_resource_parameters r)) r \<in> set (published_links app (objects h) updating ?as)"
    using assms(2,3,4) by (force simp: published_links_def)
  ultimately show "65536 \<le> length (links_text False (published_links app (objects h) updating ?as))"
    using member_length le_trans by blast
  have "size_loop app (objects h) updating ?as 0 = Some (fit 0 announced)"
    using size_loop_fit [OF assms(6), of 0] assms(7,8) by (simp add: counted_size)
  with assms(8) show size: "sn_nsdl_calculate_registration_body_size app updating h = Some (Some announced)"
    by (simp add: sn_nsdl_calculate_registration_body_size_def fit_def)
  have "is_published updating (the (counted_objects (objects h) a))"
    using assms(3,4) by (simp add: counted_objects_def counted_fields)
  with assms(2) have "announced \<noteq> 0" unfolding assms(7) length_0_conv links_text_empty by blast
  with size text_loop_fault [OF assms(1,2) _ assms(4,5)] assms(1,3)
  show "sn_nsdl_build_registration_body env app m updating h = None"
    by (simp add: sn_nsdl_build_registration_body_def nsdl_alloc_def protocol_malloc_def)
qed

text \<open>A value of 49150 bytes at the path 5; the announced text has 9 bytes.\<close>

definition base64_app :: nsdl_app where
  "base64_app = \<lparr>app_obs_token = (\<lambda>p. (0, [])), base64_encode = (\<lambda>bs. replicate ((length bs + 2) div 3 * 4) 0x41)\<rparr>"

definition large_resource :: resource_parameters where
  "large_resource = (example_resource [0x35])\<lparr>publish_value := 2, resource := Some (replicate 49150 0), resource_len := 49150\<rparr>"

theorem base64_value_overruns_witness:
  "sn_nsdl_calculate_registration_body_size base64_app False (example_store [1 \<mapsto> large_resource] [1]) = Some (Some 9) \<and>
   sn_nsdl_build_registration_body example_env base64_app init_message False (example_store [1 \<mapsto> large_resource] [1]) = None"
proof -
  let ?h = "example_store [1 \<mapsto> large_resource] [1]"
  have h: "resource_root_list ?h = [1]" "objects ?h = [1 \<mapsto> large_resource]" by (simp_all add: example_store_def)
  have c: "counted large_resource = (example_resource [0x35])\<lparr>publish_value := 1, resource := Some [], resource_len := 0\<rparr>"
    by (simp add: counted_def large_resource_def example_resource_def u16_wrap_def)
  have o: "counted_objects [1 \<mapsto> large_resource] = [1 \<mapsto> counted large_resource]"
    by (auto simp: counted_objects_def)
  have pub: "is_published False large_resource"
    by (simp add: is_published_def large_resource_def example_resource_def)
  have long: "value_too_long base64_app large_resource"
    by (simp add: value_too_long_def base64_app_def large_resource_def example_resource_def)
  have can: "can_publish base64_app False (counted_objects (objects ?h)) (resource_root_list ?h)"
    unfolding h o c by (simp add: can_publish_def example_resource_def publishable_def string_len_def has_value_def value_bytes_def)
  have n: "9 = length (links_text False (published_links base64_app (counted_objects (objects ?h)) False (resource_root_list ?h)))"
    unfolding h o c by (simp add: published_links_def example_resource_def is_published_def link_defs path_text_def
        attribute_text_def string_len_def chars_def)
  have granted: "\<forall>n. malloc_ok example_env n" by (simp add: example_env_def)
  have at: "1 \<in> set (resource_root_list ?h)" "objects ?h 1 = Some large_resource" unfolding h by simp_all
  show ?thesis
    using base64_value_overruns [OF granted at pub long can n, of init_message] by simp
qed

end
