(* ===== verification/Spec2Isabelle.thy ===== *)
theory Spec2Isabelle
  imports Coap_Parser_Safety Coap_Limits Coap_Response Bit_Strings Ip_Checksum Ip4_String Nsdynmem_Spec
    Ns_Timer_Deadline Event_Deadline Event_Idle
    Coap_Resend_Properties Coap_Duplicates_Spec Coap_Request_Roundtrip
    Sotp_Properties Ns_List Ip6_Roundtrip Rand_Lib Nsdl_Registration_Body
begin

text \<open>
  Verification of the C core of the Pelion client.

  The development covers the C code that the device client stands on and that holds its own logic: the CoAP
  library, the service library and the event loop of nanostack, and the secure storage with the flash under it.
  The theories are in the order of the calls: what a component uses is imported by it. Paths below are relative
  to \<open>src/mbed-cloud-client\<close>.

  \<^bold>\<open>How C is modelled.\<close> The types are those of the source: a struct is a record with the same fields, an enum
  a datatype, a buffer a list of bytes (\<open>8 word\<close>) and a pointer into it an offset. An integer is a word where its bits
  matter, and otherwise a natural number or an integer whose wrap-around is written out at every conversion
  (\<open>u8_wrap\<close>, \<open>u16_wrap\<close>, \<open>u32_wrap\<close>, \<open>s16_of\<close> of \<open>Pelion_Prelude\<close>). Every function is a definition of the
  same name that takes the state and returns it, in the order of the statements, with its early returns as branches. An
  access outside a buffer, a dereference of NULL and a second link of a linked entry are the result None, and a
  theorem that says ``never None'' is memory safety. A status code is a value, so each error of the code is a branch.
  The functions compute: every witness evaluates them on a concrete input.

  What the code takes from outside is an argument: the outcomes of the allocations (an oracle with one answer for
  each request), random numbers, the callbacks of the application (their calls are recorded, their results given) and
  the outcomes of the flash accesses. A hypothesis about such an argument is named in the statement that needs it.

  \<^bold>\<open>CoAP codec\<close> (\<open>mbed-coap/source/sn_coap_header_check.c\<close>, \<open>sn_coap_parser.c\<close>, \<open>sn_coap_builder.c\<close>).
  \<open>Coap_Header\<close> holds the message with its options, \<open>Coap_Parser\<close> and \<open>Coap_Builder\<close> all functions of the two
  files, \<open>Coap_Respond\<close> the construction of responses. The parser keeps the packet pointer as an offset and the
  remaining length as the 16-bit variable it is; \<open>Coap_Parser_Safety\<close> shows that for every packet and every pattern of
  failed allocations no access leaves the packet or an allocated block, and that all loops end: they are
  recursive functions whose measure is the remaining length. \<open>Coap_Wire\<close> is RFC 7252's encoding as a specification; \<open>Coap_Builder_Size\<close>
  shows that the builder writes what it announces, plus an overrun for three kinds of messages; \<open>Coap_Parts\<close>, \<open>Coap_Decode\<close>, \<open>Coap_Store\<close> and \<open>Coap_Message\<close> relate the scans of repeated options, the
  reading of one option group and its effect on the message to that specification, and \<open>Coap_Roundtrip\<close> puts the
  two ends together: the builder writes the wire form of a well-formed message, and the parser inverts it.
  \<open>Coap_Response\<close> does the same for a response, \<open>Coap_Limits\<close> shows the values at which the two ends disagree.

  \<^bold>\<open>CoAP protocol layer\<close> (\<open>mbed-coap/source/sn_coap_protocol.c\<close>). \<open>Coap_Handle\<close> is \<open>struct coap_s\<close> with its four lists and its
  configuration. \<open>Coap_Resend\<close> is the retransmission queue with the loop of \<open>sn_coap_protocol_exec\<close>; \<open>Coap_Resend_Queue\<close>,
  \<open>_Pass\<close> and \<open>_Properties\<close> show that its limits hold as long as they are not set below what is stored, that the loop, which searches the list again
  after each message, ends when the callback cancels messages on the way, and that it does what one pass over the queue does when the callback leaves the queue alone. \<open>Coap_Duplicates\<close> is the list of the
  last messages, which \<open>Coap_Duplicates_Spec\<close> shows to implement a bounded queue of keys, the message id and the port without the address. \<open>Coap_Blockwise\<close>, \<open>Coap_Blockwise_Sent\<close> and \<open>Coap_Protocol_Blocks\<close> are the
  two lists of blockwise transfers and the four cases of their handler, \<open>Coap_Protocol\<close> the entry points \<open>sn_coap_protocol_build\<close>, \<open>_parse\<close>,
  \<open>_exec\<close>, \<open>_destroy\<close> and the configuration. \<open>Coap_Receive_Blocks\<close>, \<open>Coap_Receive_Request\<close> and
  \<open>Coap_Request_Roundtrip\<close> follow a large request through both ends: cut into Block1 packets, built, parsed by the
  peer, stored block by block, acknowledged, and put together again.

  \<^bold>\<open>Service library\<close> (\<open>nanostack-libservice\<close>). \<open>Bit_Strings\<close>, \<open>Ip_Checksum\<close> and \<open>Ip4_String\<close> are the bit string helpers,
  the Internet checksum over a gather vector and the text form of IPv4 addresses. \<open>Ip6_String\<close> has the functions of \<open>libip6string\<close> and what the printer
  writes, \<open>Ip6_Roundtrip\<close> that the scanner reads it back. \<open>Ns_List_Spec\<close> is what the clients of \<open>ns_list.h\<close> use of its lists, operations on sequences; \<open>Ns_List\<close>
  has its functions on the links in the entries and shows that any calls of them on any number of lists do what those operations do.
  \<open>Nsdynmem\<close> is the block allocator on the words of the heap, with \<open>Nsdynmem_Layout\<close>, \<open>Nsdynmem_Alloc\<close> and \<open>Nsdynmem_Free\<close> relating the words to a sequence of signed
  block sizes; \<open>Nsdynmem_Spec\<close> proves the contract, and interprets with it the locale \<open>heap_interface\<close> of \<open>Heap_Interface\<close>, in which the
  survival of a client's data is proved once for any allocator with these laws.

  \<^bold>\<open>Event loop\<close> (\<open>sal-stack-nanostack-eventloop/source\<close>). \<open>Event_State\<close> is an explicit store of events with the free
  list, the queue, the tasklets and the timers as lists of addresses; \<open>Event_Core\<close> and \<open>Event_Loop\<close> are the operations of \<open>event.c\<close> and \<open>system_timer.c\<close>. The
  queue by priority and the pending timers by launch time are both interpretations of the locale \<open>ordered_queue\<close> of \<open>Ordered_Queue\<close>; the priorities are
  an instance of \<open>linorder\<close>. \<open>Event_Invariant\<close> says who owns which event, \<open>Event_Safety\<close> that every operation
  keeps it, \<open>Event_Ticks\<close> and \<open>Event_Frame\<close> what a tick does and what an operation leaves alone, \<open>Event_Run\<close> which
  sequences of calls are allowed. \<open>Event_Delivery\<close>, \<open>Event_Deadline\<close> and \<open>Event_Idle\<close> hold what a user relies on: no
  call fails or loses an event, events come in the order of their priorities, timers are launched by the right tick, also when the
  32-bit tick counter wraps around, and running until idle ends. \<open>Ns_Timer\<close> is \<open>ns_timer.c\<close>, many 16-bit timers on one hardware timer; \<open>Ns_Timer_Spec\<close>,
  \<open>_Refine\<close>, \<open>_Sim\<close> and \<open>_Deadline\<close> show by simulation that they behave as independent countdowns when none is started with 0 slots.

  \<^bold>\<open>Secure storage\<close> (\<open>factory-configurator-client/mbed-client-esfs/source/sotp/sotp.c\<close> on the flash of
  \<open>mbed-client-pal/Source\<close>). \<open>Flash_Pal\<close> is \<open>pal_internalFlash.c\<close> with the simulated flash: every access to it has a scripted
  outcome, which is success, a failure with some pages written, or the loss of power after some pages, which ends the run
  with the flash as it is then. \<open>Sotp\<close> has every function of \<open>sotp.c\<close>. \<open>Flash_Spec\<close> states rules for runs that may be cut off; \<open>Sotp_Records\<close>, \<open>Sotp_Log\<close>, \<open>Sotp_Gc\<close>,
  \<open>Sotp_Switch\<close>, \<open>Sotp_Recover\<close>, \<open>Sotp_Init\<close> and \<open>Sotp_Api\<close> go from one record to the log of an area, the garbage collection, the
  change of the active area, what a power cut can leave behind, the initialisation and the calls of the
  interface. The contents of the storage is a partial map, and \<open>Sotp_Properties\<close> shows that each call is atomic on it: the locale \<open>crash_safe_store\<close> of
  \<open>Crash_Safe_Store\<close>, interpreted for every size of an area, gives the safety of a sequence of writes and restarts cut off anywhere.

  \<^bold>\<open>Random numbers\<close> (\<open>mbed-client-randlib/source/randLIB.c\<close>). \<open>Rand_Lib\<close> is the generator with its seeding and the numbers made of it, in the build
  without a random device. A number in a range is shown to come from the first roll below a bound, and each value of the range from the same number of rolls.

  \<^bold>\<open>Service interface\<close> (\<open>mbed-client/mbed-client-c\<close>). \<open>Nsdl_State\<close> is \<open>struct nsdl_s\<close> with the resources at their addresses, \<open>Nsdl_Resources\<close> the operations of
  \<open>sn_grs.c\<close> on the list of resources. \<open>Nsdl_Resource_Store\<close> shows that it is a map from paths to resources, as long as a path is stored without a
  slash around it. \<open>Nsdl_Registration\<close> has the two passes of \<open>sn_nsdl_build_registration_body\<close> in \<open>sn_nsdl.c\<close> over the resources, and \<open>Nsdl_Registration_Body\<close> shows that the
  size calculated by the first is the length of the text that the second writes, with a bound of 65535 bytes because the sizes have 16 bits; each string and each value
  has to be below the bound too, and for a Base64 value beyond it the text is shown to be written behind its block.

  \<^bold>\<open>Bounds of the storage theorems.\<close> The two areas have S bytes each, one sector, with pages of 8 bytes; S is a multiple of 128 and less than \<open>2^30\<close>.
  Fewer than 100 scripted writes fail, so that one of the 100 attempts of a write works, and no read fails. The version of an area is below
  65535, where the 16-bit counter would wrap. The checksum has to notice a record of which only some pages are
  written (\<open>tear_detected\<close>): for the master records and for items of at most one byte this is proved (in \<open>Sotp_Recover\<close>), for a
  longer item it is a property of its bytes and a hypothesis of the statement.

  \<^bold>\<open>Loops.\<close> Loops over data are structural or have a measure. Those that need not end, \<open>resend_loop\<close>, \<open>drop_expired_msgs\<close>,
  \<open>eventOS_scheduler_run_until_idle\<close>, \<open>delete_resources\<close>, \<open>count_loop\<close> over the links of a list, \<open>print_parts\<close> of \<open>ip6tos\<close> and \<open>roll_in_bands\<close>, are partial functions that
  are None when they do not. All of them are shown to return, the last as soon as a roll lies below its bound. The only fuel is that of
  \<open>get_loop\<close> of \<open>sotp_get\<close>, which reads again after a failed read: one more than the scripted failures is enough, because every round uses up one.
  The wait for another writer, which has no end in a build with one thread, is the result \<open>Stuck\<close>.

  \<^bold>\<open>Not modelled.\<close> The clients of \<open>ns_list.h\<close> use its lists as sequences, in step with \<open>Ns_List\<close>. Of the service interface, the other options of the messages of registration and bootstrap (\<open>sn_nsdl.c\<close>) and the
  answers to requests (\<open>sn_grs_process_coap\<close>) are left out, as is the firmware update: state machines over application callbacks. The build of
  \<open>randLIB.c\<close> with a random device asks the device for every byte. The encrypted files (\<open>esfs.c\<close>), the key and
  configuration manager, the crypto service and the rest of the platform layer mostly pass parameters on to
  cryptographic, file system and operating system code that is not in the repository. The lock of the storage is empty in the
  default build. \<open>mbed-trace\<close> is output only; \<open>tinycbor\<close>, \<open>cose-c\<close>, \<open>bsdiff\<close> and \<open>lz4\<close> are third-party; the board
  support is start-up code; the client library proper is C++. Concurrency is not modelled: the code runs with
  interrupts as steps of their own between calls, and its critical sections only delay them.
\<close>

end
